(* ===== verification/Prelude.thy ===== *)
theory Prelude
  imports Main "HOL-Library.Word"
begin

text \<open>
  Prelude of the HyperStake development: names for the machine types of the C++ sources,
  little-endian and big-endian byte strings, wrap-around facts for signed 64-bit money
  amounts, and the collections the component theories extend.

  \<^item> \<open>byte\<close> is \<open>unsigned char\<close>; \<open>valtype\<close> is \<open>std::vector<unsigned char>\<close>.
  \<^item> \<open>uint32\<close>, \<open>uint64\<close> are the unsigned C++ integers; \<open>int64\<close> is a 64-bit word read
    with \<open>sint\<close>, so that every addition wraps as the machine's does.
  \<^item> \<open>uint256\<close>, \<open>uint160\<close> are the values of the classes of \<open>src/uint256.h\<close>.
\<close>

unbundle bit_operations_syntax

type_synonym byte = "8 word"
type_synonym uint32 = "32 word"
type_synonym uint64 = "64 word"
type_synonym int64 = "64 word"
type_synonym uint256 = "256 word"
type_synonym uint160 = "160 word"
type_synonym valtype = "byte list"

named_theorems model_defs "definitions that unfold when a concrete input is evaluated"
named_theorems codec_simps "encode/decode equations of the serialised types"

subsection \<open>Little-endian and big-endian byte strings\<close>

primrec le_bytes :: "nat \<Rightarrow> nat \<Rightarrow> byte list" where
  "le_bytes 0 n = []"
| "le_bytes (Suc k) n = word_of_nat n # le_bytes k (n div 256)"

fun le_value :: "byte list \<Rightarrow> nat" where
  "le_value [] = 0"
| "le_value (b # bs) = unat b + 256 * le_value bs"

definition be_bytes :: "nat \<Rightarrow> nat \<Rightarrow> byte list" where
  "be_bytes k n = rev (le_bytes k n)"

definition be_value :: "byte list \<Rightarrow> nat" where
  "be_value bs = le_value (rev bs)"

lemma length_le_bytes [simp]: "length (le_bytes k n) = k"
  by (induction k arbitrary: n) auto

lemma length_be_bytes [simp]: "length (be_bytes k n) = k"
  by (simp add: be_bytes_def)

lemma unat_byte_less [simp]: "unat (b :: byte) < 256"
  using unsigned_less [of b] by simp

lemma unat_byte_of_nat: "unat (word_of_nat n :: byte) = n mod 256"
  by (simp add: unat_of_nat)

lemma le_value_bound: "le_value bs < 256 ^ length bs"
proof (induction bs)
  case (Cons b bs)
  have "unat b + 256 * le_value bs < 256 + 256 * le_value bs" by simp
  also have "\<dots> \<le> 256 * 256 ^ length bs" using Cons by simp
  finally show ?case by simp
qed simp

lemma le_value_le_bytes: "le_value (le_bytes k n) = n mod 256 ^ k"
proof (induction k arbitrary: n)
  case (Suc k)
  have "le_value (le_bytes (Suc k) n) = n mod 256 + 256 * (n div 256 mod 256 ^ k)"
    by (simp add: Suc unat_byte_of_nat)
  also have "\<dots> = n mod (256 * 256 ^ k)"
    by (simp only: mod_mult2_eq add.commute)
  finally show ?case by simp
qed simp

lemma le_value_le_bytes_id: "n < 256 ^ k \<Longrightarrow> le_value (le_bytes k n) = n"
  by (simp add: le_value_le_bytes)

lemma le_bytes_le_value: "length bs = k \<Longrightarrow> le_bytes k (le_value bs) = bs"
proof (induction bs arbitrary: k)
  case (Cons b bs)
  then obtain j where k: "k = Suc j" and j: "length bs = j" by auto
  have "word_of_nat (unat b + 256 * le_value bs) = b"
    by (rule word_unat_eq_iff [THEN iffD2]) (simp only: unat_byte_of_nat mod_mult_self2, simp)
  moreover have "(unat b + 256 * le_value bs) div 256 = le_value bs"
    by simp
  ultimately show ?case using Cons.IH [OF j] by (simp add: k)
qed simp

lemma le_value_append: "le_value (xs @ ys) = le_value xs + 256 ^ length xs * le_value ys"
  by (induction xs) (auto simp: algebra_simps)

lemma be_value_be_bytes: "n < 256 ^ k \<Longrightarrow> be_value (be_bytes k n) = n"
  by (simp add: be_value_def be_bytes_def le_value_le_bytes_id)

lemma be_bytes_be_value: "length bs = k \<Longrightarrow> be_bytes k (be_value bs) = bs"
  by (simp add: be_value_def be_bytes_def le_bytes_le_value)

subsection \<open>Machine integers as byte strings\<close>

definition bytes_of_u32 :: "uint32 \<Rightarrow> byte list" where
  "bytes_of_u32 w = le_bytes 4 (unat w)"

definition bytes_of_u64 :: "uint64 \<Rightarrow> byte list" where
  "bytes_of_u64 w = le_bytes 8 (unat w)"

definition bytes_of_u256 :: "uint256 \<Rightarrow> byte list" where
  "bytes_of_u256 w = le_bytes 32 (unat w)"

definition bytes_of_u160 :: "uint160 \<Rightarrow> byte list" where
  "bytes_of_u160 w = le_bytes 20 (unat w)"

lemma length_bytes_of [simp]:
  "length (bytes_of_u32 a) = 4" "length (bytes_of_u64 b) = 8"
  "length (bytes_of_u256 c) = 32" "length (bytes_of_u160 d) = 20"
  by (simp_all add: bytes_of_u32_def bytes_of_u64_def bytes_of_u256_def bytes_of_u160_def)

lemma word_of_le_bytes:
  assumes "LENGTH('a::len) = 8 * k"
  shows "word_of_nat (le_value (le_bytes k (unat (w :: 'a word)))) = w"
proof -
  have "(256 :: nat) ^ k = 2 ^ LENGTH('a)"
    using assms by (simp add: power_mult)
  moreover have "unat w < 2 ^ LENGTH('a)" by (rule unsigned_less)
  ultimately have "unat w mod 256 ^ k = unat w" by simp
  then show ?thesis by (simp add: le_value_le_bytes)
qed

lemma word_of_bytes [codec_simps]:
  "word_of_nat (le_value (bytes_of_u32 a)) = a"
  "word_of_nat (le_value (bytes_of_u64 b)) = b"
  "word_of_nat (le_value (bytes_of_u256 c)) = c"
  "word_of_nat (le_value (bytes_of_u160 d)) = d"
  by (simp_all add: bytes_of_u32_def bytes_of_u64_def bytes_of_u256_def bytes_of_u160_def
      word_of_le_bytes)

lemma bytes_of_u256_inj: "bytes_of_u256 a = bytes_of_u256 b \<longleftrightarrow> a = b"
  by (metis word_of_bytes(3))

lemma bytes_of_u160_inj: "bytes_of_u160 a = bytes_of_u160 b \<longleftrightarrow> a = b"
  by (metis word_of_bytes(4))

subsection \<open>Signed 64-bit amounts\<close>

lemma sint64_bounds: "- (2 ^ 63) \<le> sint (a :: int64)" "sint (a :: int64) < 2 ^ 63"
  using sint_greater_eq [of a] sint_less [of a] by simp_all

lemma sint64_add:
  assumes "- (2 ^ 63) \<le> sint a + sint b" and "sint a + sint b < 2 ^ 63"
  shows "sint (a + b :: int64) = sint a + sint b"
  using assms
  by (simp add: sint_word_ariths(1) signed_take_bit_int_eq_self)

lemma sint64_sub:
  assumes "- (2 ^ 63) \<le> sint a - sint b" and "sint a - sint b < 2 ^ 63"
  shows "sint (a - b :: int64) = sint a - sint b"
  using assms
  by (simp add: sint_word_ariths(2) signed_take_bit_int_eq_self)

lemma sint64_of_int:
  assumes "- (2 ^ 63) \<le> i" and "i < 2 ^ 63"
  shows "sint (word_of_int i :: int64) = i"
  using assms by (simp add: sint_sbintrunc' signed_take_bit_int_eq_self)

subsection \<open>Lists\<close>

lemma take_drop_split: "n \<le> length xs \<Longrightarrow> xs = take n xs @ drop n xs"
  by simp

lemma nth_option_bind:
  "(if i < length xs then Some (xs ! i) else None) = Some x \<longleftrightarrow> i < length xs \<and> xs ! i = x"
  by auto

subsection \<open>Ordered maps\<close>

text \<open>
  A \<open>std::map\<close> is the list of its pairs in increasing order of the keys, the order in which
  the code iterates. Lookup is \<open>map_of\<close>, \<open>erase\<close> is \<open>map_erase\<close>, \<open>m[k] = v\<close> is \<open>map_put\<close>.
\<close>

fun map_put :: "'k::linorder \<Rightarrow> 'v \<Rightarrow> ('k \<times> 'v) list \<Rightarrow> ('k \<times> 'v) list" where
  "map_put k v [] = [(k, v)]"
| "map_put k v ((k', v') # m) =
     (if k < k' then (k, v) # (k', v') # m
      else if k = k' then (k, v) # m
      else (k', v') # map_put k v m)"

definition map_erase :: "'k \<Rightarrow> ('k \<times> 'v) list \<Rightarrow> ('k \<times> 'v) list" where
  "map_erase k m = List.filter (\<lambda>p. fst p \<noteq> k) m"

lemma map_of_put [simp]: "map_of (map_put k v m) = (map_of m)(k \<mapsto> v)"
  by (induction m) (auto simp: fun_eq_iff)

lemma map_of_erase [simp]: "map_of (map_erase k m) = (map_of m)(k := None)"
  by (induction m) (auto simp: map_erase_def fun_eq_iff)

lemma map_put_nonempty [simp]: "map_put k v m \<noteq> []"
  by (cases "(k, v, m)" rule: map_put.cases) auto

lemma set_fst_map_put [simp]: "fst ` set (map_put k v m) = insert k (fst ` set m)"
  by (simp flip: dom_map_of_conv_image_fst)

lemma sorted_map_put:
  "sorted_wrt (<) (map fst m) \<Longrightarrow> sorted_wrt (<) (map fst (map_put k v m))"
proof (induction m)
  case (Cons p m)
  have keys: "set (map fst (map_put k v m)) = insert k (set (map fst m))" by simp
  show ?case using Cons by (cases p) (auto simp only: map_put.simps list.map fst_conv sorted_wrt.simps
      keys list.set split: if_splits intro: less_trans)
qed simp

lemma sorted_map_erase:
  "sorted_wrt (<) (map fst m) \<Longrightarrow> sorted_wrt (<) (map fst (map_erase k m))"
  by (induction m) (auto simp: map_erase_def)

text \<open>\<open>map::insert\<close> keeps an entry that is there.\<close>

definition map_insert :: "'k :: linorder \<Rightarrow> 'v \<Rightarrow> ('k \<times> 'v) list \<Rightarrow> ('k \<times> 'v) list" where
  "map_insert k v m = (if map_of m k = None then map_put k v m else m)"

lemma map_of_insert: "map_of (map_insert k v m) = (if map_of m k = None then (map_of m)(k \<mapsto> v) else map_of m)"
  by (simp add: map_insert_def)

lemma map_insert_nonempty [simp]: "map_insert k v m \<noteq> []"
  by (auto simp: map_insert_def)

lemma sorted_map_insert:
  "sorted_wrt (<) (map fst m) \<Longrightarrow> sorted_wrt (<) (map fst (map_insert k v m))"
  by (simp add: map_insert_def sorted_map_put)

end
