(* ===== verification/Serialize.thy ===== *)
theory Serialize
  imports Prelude
begin

text \<open>
  Serialisation (\<open>src/serialize.h\<close>). A value is written as the bytes it appends to the
  stream; it is read by a \<open>reader\<close>, which consumes a prefix of the remaining bytes and
  fails (\<open>None\<close>) where the stream throws \<open>std::ios_base::failure\<close>. The interface
  \<open>codec\<close> states what a matching writer and reader promise, and proves the vector template
  once for every element type. \<open>CDataStream\<close> is modelled with its buffer, its read
  position and its state bits, and is shown to be the byte queue the readers assume.
\<close>

type_synonym 'a reader = "byte list \<Rightarrow> ('a \<times> byte list) option"

definition MAX_SIZE :: nat where
  "MAX_SIZE = 0x02000000"

text \<open>\<open>READDATA\<close> on a stream whose unread bytes are \<open>bs\<close>.\<close>

definition read_bytes :: "nat \<Rightarrow> byte list reader" where
  "read_bytes n bs = (if length bs < n then None else Some (take n bs, drop n bs))"

definition read_nat :: "nat \<Rightarrow> nat reader" where
  "read_nat k bs =
     (case read_bytes k bs of None \<Rightarrow> None | Some (v, r) \<Rightarrow> Some (le_value v, r))"

definition read_u32 :: "uint32 reader" where
  "read_u32 bs = map_option (map_prod word_of_nat id) (read_nat 4 bs)"

definition read_u64 :: "uint64 reader" where
  "read_u64 bs = map_option (map_prod word_of_nat id) (read_nat 8 bs)"

definition read_u256 :: "uint256 reader" where
  "read_u256 bs = map_option (map_prod word_of_nat id) (read_nat 32 bs)"

lemma read_bytes_append [codec_simps]: "length v = n \<Longrightarrow> read_bytes n (v @ r) = Some (v, r)"
  by (simp add: read_bytes_def)

lemma read_nat_append [codec_simps]: "n < 256 ^ k \<Longrightarrow> read_nat k (le_bytes k n @ r) = Some (n, r)"
  by (simp add: read_nat_def codec_simps le_value_le_bytes_id)

lemma read_words_append [codec_simps]:
  "read_u32 (bytes_of_u32 a @ r) = Some (a, r)"
  "read_u64 (bytes_of_u64 b @ r) = Some (b, r)"
  "read_u256 (bytes_of_u256 c @ r) = Some (c, r)"
  by (simp_all add: read_u32_def read_u64_def read_u256_def read_nat_def codec_simps)

lemma read_bytes_shrinks: "read_bytes n bs = Some (v, r) \<Longrightarrow> bs = v @ r \<and> length v = n"
  by (auto simp: read_bytes_def split: if_splits)

subsection \<open>Compact sizes\<close>

definition GetSizeOfCompactSize :: "nat \<Rightarrow> nat" where
  "GetSizeOfCompactSize nSize =
     (if nSize < 253 then 1
      else if nSize \<le> 0xffff then 1 + 2
      else if nSize \<le> 0xffffffff then 1 + 4
      else 1 + 8)"

definition WriteCompactSize :: "nat \<Rightarrow> byte list" where
  "WriteCompactSize nSize =
     (if nSize < 253 then le_bytes 1 nSize
      else if nSize \<le> 0xffff then 253 # le_bytes 2 nSize
      else if nSize \<le> 0xffffffff then 254 # le_bytes 4 nSize
      else 255 # le_bytes 8 nSize)"

definition ReadCompactSize :: "nat reader" where
  "ReadCompactSize bs =
     (case read_nat 1 bs of
        None \<Rightarrow> None
      | Some (chSize, r) \<Rightarrow>
          (case (if chSize < 253 then Some (chSize, r)
                 else if chSize = 253 then read_nat 2 r
                 else if chSize = 254 then read_nat 4 r
                 else read_nat 8 r) of
             None \<Rightarrow> None
           | Some (nSizeRet, r') \<Rightarrow> if MAX_SIZE < nSizeRet then None else Some (nSizeRet, r')))"

lemma read_nat_1_Cons: "read_nat (Suc 0) (b # r) = Some (unat b, r)"
  by (simp add: read_nat_def read_bytes_def)

lemma length_WriteCompactSize: "length (WriteCompactSize n) = GetSizeOfCompactSize n"
  by (simp add: WriteCompactSize_def GetSizeOfCompactSize_def)

lemma ReadCompactSize_Write:
  assumes "n < 2 ^ 64"
  shows "ReadCompactSize (WriteCompactSize n @ r) = (if MAX_SIZE < n then None else Some (n, r))"
proof -
  consider "n < 253" | "253 \<le> n" "n \<le> 0xffff" | "0xffff < n" "n \<le> 0xffffffff" | "0xffffffff < n"
    by linarith
  then show ?thesis
  proof cases
    case 1
    then have "read_nat 1 (le_bytes 1 n @ r) = Some (n, r)"
      by (intro codec_simps) simp
    with 1 show ?thesis by (simp add: ReadCompactSize_def WriteCompactSize_def)
  next
    case 2
    then have "read_nat 2 (le_bytes 2 n @ r) = Some (n, r)"
      by (intro codec_simps) simp
    with 2 show ?thesis
      by (simp add: ReadCompactSize_def WriteCompactSize_def read_nat_1_Cons)
  next
    case 3
    then have "read_nat 4 (le_bytes 4 n @ r) = Some (n, r)"
      by (intro codec_simps) simp
    with 3 show ?thesis
      by (simp add: ReadCompactSize_def WriteCompactSize_def read_nat_1_Cons)
  next
    case 4
    with assms have "read_nat 8 (le_bytes 8 n @ r) = Some (n, r)"
      by (intro codec_simps) simp
    with 4 show ?thesis
      by (simp add: ReadCompactSize_def WriteCompactSize_def read_nat_1_Cons)
  qed
qed

lemma ReadCompactSize_Write_ok [codec_simps]:
  "n \<le> MAX_SIZE \<Longrightarrow> ReadCompactSize (WriteCompactSize n @ r) = Some (n, r)"
  using ReadCompactSize_Write [of n r] by (simp add: MAX_SIZE_def)

lemma ReadCompactSize_bound: "ReadCompactSize bs = Some (n, r) \<Longrightarrow> n \<le> MAX_SIZE"
  by (auto simp: ReadCompactSize_def split: option.splits if_splits prod.splits)

subsection \<open>The interface of a serialisable type\<close>

fun read_n :: "'a reader \<Rightarrow> nat \<Rightarrow> 'a list reader" where
  "read_n dec 0 bs = Some ([], bs)"
| "read_n dec (Suc n) bs =
     (case dec bs of
        None \<Rightarrow> None
      | Some (x, r) \<Rightarrow>
          (case read_n dec n r of None \<Rightarrow> None | Some (xs, r') \<Rightarrow> Some (x # xs, r')))"

definition Serialize_vector :: "('a \<Rightarrow> byte list) \<Rightarrow> 'a list \<Rightarrow> byte list" where
  "Serialize_vector enc v = WriteCompactSize (length v) @ concat (map enc v)"

definition Unserialize_vector :: "'a reader \<Rightarrow> 'a list reader" where
  "Unserialize_vector dec bs =
     (case ReadCompactSize bs of None \<Rightarrow> None | Some (nSize, r) \<Rightarrow> read_n dec nSize r)"

definition GetSerializeSize_vector :: "('a \<Rightarrow> nat) \<Rightarrow> 'a list \<Rightarrow> nat" where
  "GetSerializeSize_vector size_of v = GetSizeOfCompactSize (length v) + sum_list (map size_of v)"

locale codec =
  fixes enc :: "'a \<Rightarrow> byte list"
    and dec :: "'a reader"
    and size_of :: "'a \<Rightarrow> nat"
    and valid :: "'a \<Rightarrow> bool"
  assumes dec_enc: "valid x \<Longrightarrow> dec (enc x @ r) = Some (x, r)"
    and size_enc: "size_of x = length (enc x)"
begin

lemma read_n_enc:
  "list_all valid xs \<Longrightarrow> read_n dec (length xs) (concat (map enc xs) @ r) = Some (xs, r)"
  by (induction xs) (auto simp: dec_enc)

lemma vector_dec_enc:
  assumes "list_all valid xs" and "length xs \<le> MAX_SIZE"
  shows "Unserialize_vector dec (Serialize_vector enc xs @ r) = Some (xs, r)"
  using assms by (simp add: Unserialize_vector_def Serialize_vector_def codec_simps read_n_enc)

lemma vector_size: "GetSerializeSize_vector size_of xs = length (Serialize_vector enc xs)"
proof -
  have "sum_list (map size_of xs) = length (concat (map enc xs))"
    by (induction xs) (auto simp: size_enc)
  then show ?thesis
    by (simp add: GetSerializeSize_vector_def Serialize_vector_def length_WriteCompactSize)
qed

lemma enc_inj: "valid x \<Longrightarrow> valid y \<Longrightarrow> enc x = enc y \<Longrightarrow> x = y"
  by (metis Pair_inject append_Nil2 dec_enc option.inject)

end

interpretation u32_codec: codec bytes_of_u32 read_u32 "\<lambda>_. 4" "\<lambda>_. True"
  by unfold_locales (simp_all add: codec_simps)

interpretation u64_codec: codec bytes_of_u64 read_u64 "\<lambda>_. 8" "\<lambda>_. True"
  by unfold_locales (simp_all add: codec_simps)

interpretation u256_codec: codec bytes_of_u256 read_u256 "\<lambda>_. 32" "\<lambda>_. True"
  by unfold_locales (simp_all add: codec_simps)

subsection \<open>Vectors of bytes, read in blocks\<close>

text \<open>
  A vector of a fundamental type is read in blocks of at most \<open>1 + 4999999 / sizeof(T)\<close>
  elements, so that a bogus size does not allocate before the data is there.
\<close>

function read_blocks :: "nat \<Rightarrow> nat \<Rightarrow> valtype \<Rightarrow> valtype reader" where
  "read_blocks nSize i v bs =
     (if i < nSize
      then let blk = min (nSize - i) (1 + 4999999 div 1)
           in case read_bytes blk bs of
                None \<Rightarrow> None
              | Some (d, r) \<Rightarrow> read_blocks nSize (i + blk) (v @ d) r
      else Some (v, bs))"
  by pat_completeness auto
termination
  by (relation "measure (\<lambda>(nSize, i, v, bs). nSize - i)") auto

declare read_blocks.simps [simp del]

definition Serialize_bytes :: "valtype \<Rightarrow> byte list" where
  "Serialize_bytes v = WriteCompactSize (length v) @ v"

definition Unserialize_bytes :: "valtype reader" where
  "Unserialize_bytes bs =
     (case ReadCompactSize bs of None \<Rightarrow> None | Some (nSize, r) \<Rightarrow> read_blocks nSize 0 [] r)"

definition GetSerializeSize_bytes :: "valtype \<Rightarrow> nat" where
  "GetSerializeSize_bytes v = GetSizeOfCompactSize (length v) + length v * 1"

lemma read_blocks_eq:
  "i \<le> nSize \<Longrightarrow> read_blocks nSize i v bs =
     map_option (map_prod (append v) id) (read_bytes (nSize - i) bs)"
proof (induction nSize i v bs rule: read_blocks.induct)
  case (1 nSize i v bs)
  show ?case
  proof (cases "i < nSize")
    case False
    with "1.prems" show ?thesis by (simp add: read_blocks.simps read_bytes_def)
  next
    case True
    define blk where "blk = min (nSize - i) (5000000 :: nat)"
    have unfold: "read_blocks nSize i v bs =
      (case read_bytes blk bs of None \<Rightarrow> None
       | Some (d, r) \<Rightarrow> read_blocks nSize (i + blk) (v @ d) r)"
      unfolding blk_def by (subst read_blocks.simps) (simp add: True Let_def)
    have le: "blk \<le> nSize - i" by (simp add: blk_def)
    show ?thesis
    proof (cases "length bs < blk")
      case True
      with le show ?thesis by (simp add: unfold read_bytes_def)
    next
      case False
      obtain m where m: "nSize - i = blk + m" "nSize - (i + blk) = m"
        using le True by (metis diff_diff_left le_add_diff_inverse)
      have "read_blocks nSize (i + blk) (v @ take blk bs) (drop blk bs) =
          map_option (map_prod (append (v @ take blk bs)) id)
            (read_bytes (nSize - (i + blk)) (drop blk bs))"
        by (rule "1.IH" [OF True, unfolded Let_def, of blk "(take blk bs, drop blk bs)"])
          (use False True le in \<open>auto simp: blk_def read_bytes_def\<close>)
      with False show ?thesis
        unfolding m unfold by (auto simp: read_bytes_def take_add add.commute)
    qed
  qed
qed

lemma Unserialize_Serialize_bytes [codec_simps]:
  "length v \<le> MAX_SIZE \<Longrightarrow> Unserialize_bytes (Serialize_bytes v @ r) = Some (v, r)"
  by (simp add: Unserialize_bytes_def Serialize_bytes_def codec_simps read_blocks_eq)

lemma length_Serialize_bytes: "length (Serialize_bytes v) = GetSerializeSize_bytes v"
  by (simp add: Serialize_bytes_def GetSerializeSize_bytes_def length_WriteCompactSize)

interpretation bytes_codec: codec Serialize_bytes Unserialize_bytes GetSerializeSize_bytes
  "\<lambda>v. length v \<le> MAX_SIZE"
  by unfold_locales (simp_all add: codec_simps length_Serialize_bytes)

subsection \<open>The stream buffer\<close>

text \<open>
  \<open>CDataStream\<close> keeps a byte vector and the position of the next unread byte; \<open>nReadPos\<close>
  is an \<open>unsigned int\<close>. \<open>state\<close> and \<open>exceptmask\<close> are the stream's bit masks;
  \<open>setstate\<close> throws when the mask selects a bit that is set.
\<close>

record cdatastream =
  ds_vch :: "byte list"
  ds_nReadPos :: nat
  ds_state :: nat
  ds_exceptmask :: nat

definition ios_failbit :: nat where
  "ios_failbit = 4"

definition ds_setstate :: "nat \<Rightarrow> cdatastream \<Rightarrow> cdatastream option" where
  "ds_setstate bits s =
     (let s' = s\<lparr>ds_state := ds_state s OR bits\<rparr>
      in if ds_state s' AND ds_exceptmask s' \<noteq> 0 then None else Some s')"

definition ds_size :: "cdatastream \<Rightarrow> nat" where
  "ds_size s = length (ds_vch s) - ds_nReadPos s"

definition ds_read :: "cdatastream \<Rightarrow> nat \<Rightarrow> (byte list \<times> cdatastream) option" where
  "ds_read s nSize =
     (let nReadPosNext = (ds_nReadPos s + nSize) mod 2 ^ 32
      in if length (ds_vch s) \<le> nReadPosNext
         then if length (ds_vch s) < nReadPosNext
              then (case ds_setstate ios_failbit s of
                      None \<Rightarrow> None
                    | Some s' \<Rightarrow>
                        let avail = length (ds_vch s) - ds_nReadPos s
                        in Some (take avail (drop (ds_nReadPos s) (ds_vch s)) @
                                   replicate (nSize - avail) 0,
                                 s'\<lparr>ds_nReadPos := 0, ds_vch := []\<rparr>))
              else Some (take nSize (drop (ds_nReadPos s) (ds_vch s)),
                         s\<lparr>ds_nReadPos := 0, ds_vch := []\<rparr>)
         else Some (take nSize (drop (ds_nReadPos s) (ds_vch s)),
                    s\<lparr>ds_nReadPos := nReadPosNext\<rparr>))"

definition ds_ignore :: "cdatastream \<Rightarrow> nat \<Rightarrow> cdatastream option" where
  "ds_ignore s nSize =
     (let nReadPosNext = (ds_nReadPos s + nSize) mod 2 ^ 32
      in if length (ds_vch s) \<le> nReadPosNext
         then (case (if length (ds_vch s) < nReadPosNext then ds_setstate ios_failbit s else Some s) of
                 None \<Rightarrow> None
               | Some s' \<Rightarrow> Some (s'\<lparr>ds_nReadPos := 0, ds_vch := []\<rparr>))
         else Some (s\<lparr>ds_nReadPos := nReadPosNext\<rparr>))"

definition ds_write :: "cdatastream \<Rightarrow> byte list \<Rightarrow> cdatastream" where
  "ds_write s pch = s\<lparr>ds_vch := ds_vch s @ pch\<rparr>"

definition ds_Compact :: "cdatastream \<Rightarrow> cdatastream" where
  "ds_Compact s = s\<lparr>ds_vch := drop (ds_nReadPos s) (ds_vch s), ds_nReadPos := 0\<rparr>"

definition ds_Rewind :: "nat \<Rightarrow> cdatastream \<Rightarrow> bool \<times> cdatastream" where
  "ds_Rewind n s =
     (if ds_nReadPos s < n then (False, s) else (True, s\<lparr>ds_nReadPos := ds_nReadPos s - n\<rparr>))"

text \<open>The abstraction: the unread bytes; the invariant: what the operations keep.\<close>

definition ds_contents :: "cdatastream \<Rightarrow> byte list" where
  "ds_contents s = drop (ds_nReadPos s) (ds_vch s)"

definition ds_ok :: "cdatastream \<Rightarrow> bool" where
  "ds_ok s \<longleftrightarrow> ds_nReadPos s \<le> length (ds_vch s) \<and> ds_exceptmask s AND ios_failbit \<noteq> 0"

text \<open>
  The position arithmetic is 32 bits wide: the stream behaves as a queue as long as its
  buffer and the next request together stay below \<open>2 ^ 32\<close> bytes.
\<close>

definition ds_fits :: "cdatastream \<Rightarrow> nat \<Rightarrow> bool" where
  "ds_fits s n \<longleftrightarrow> length (ds_vch s) + n < 2 ^ 32"

locale byte_stream =
  fixes contents :: "'s \<Rightarrow> byte list"
    and get :: "'s \<Rightarrow> nat \<Rightarrow> (byte list \<times> 's) option"
    and put :: "'s \<Rightarrow> byte list \<Rightarrow> 's"
    and ok :: "'s \<Rightarrow> bool"
    and fits :: "'s \<Rightarrow> nat \<Rightarrow> bool"
  assumes write_contents: "ok s \<Longrightarrow> contents (put s v) = contents s @ v"
    and write_ok: "ok s \<Longrightarrow> ok (put s v)"
    and write_fits: "fits s (length v + n) \<Longrightarrow> fits (put s v) n"
    and read_some: "ok s \<Longrightarrow> fits s n \<Longrightarrow> n \<le> length (contents s) \<Longrightarrow>
      \<exists>s'. get s n = Some (take n (contents s), s') \<and> contents s' = drop n (contents s) \<and> ok s'
        \<and> (\<forall>m. fits s m \<longrightarrow> fits s' m)"
    and read_none: "ok s \<Longrightarrow> fits s n \<Longrightarrow> length (contents s) < n \<Longrightarrow> get s n = None"
begin

text \<open>Reading through the stream is reading the abstract queue of bytes.\<close>

lemma read_refines:
  assumes "ok s" and "fits s n"
  shows "map_option (map_prod id contents) (get s n) = read_bytes n (contents s)"
proof (cases "n \<le> length (contents s)")
  case True
  then show ?thesis using read_some [OF assms True] by (auto simp: read_bytes_def)
next
  case False
  then show ?thesis using read_none [OF assms] by (simp add: read_bytes_def)
qed

lemma write_then_read:
  assumes "ok s" and "contents s = []" and "fits s (2 * length v)"
  shows "\<exists>s'. get (put s v) (length v) = Some (v, s') \<and> contents s' = []"
proof -
  have "ok (put s v)" by (rule write_ok [OF assms(1)])
  moreover have "fits (put s v) (length v)" using assms(3) by (intro write_fits) (simp add: mult_2)
  moreover have "contents (put s v) = v" using write_contents [OF assms(1)] assms(2) by simp
  ultimately show ?thesis using read_some [of "put s v" "length v"] by auto
qed

end

lemma or_bit_and_nonzero:
  assumes "m AND b \<noteq> (0 :: nat)"
  shows "(a OR b) AND m \<noteq> 0"
proof -
  obtain n where "bit (m AND b) n"
    using assms bit_eq_iff [of "m AND b" 0] by auto
  then have "bit ((a OR b) AND m) n" by (simp add: bit_simps)
  then show ?thesis by (metis bit_0_eq bot_apply bot_bool_def)
qed

lemma ds_setstate_fail: "ds_ok s \<Longrightarrow> ds_setstate ios_failbit s = None"
  by (simp add: ds_setstate_def ds_ok_def Let_def or_bit_and_nonzero)

lemma ds_read_some:
  assumes "ds_ok s" and "ds_fits s n" and "n \<le> length (ds_contents s)"
  shows "\<exists>s'. ds_read s n = Some (take n (ds_contents s), s') \<and>
    ds_contents s' = drop n (ds_contents s) \<and> ds_ok s' \<and> (\<forall>m. ds_fits s m \<longrightarrow> ds_fits s' m)"
proof -
  have pos: "(ds_nReadPos s + n) mod 2 ^ 32 = ds_nReadPos s + n"
    using assms by (simp add: ds_ok_def ds_fits_def)
  have le: "ds_nReadPos s + n \<le> length (ds_vch s)"
    using assms by (auto simp: ds_ok_def ds_contents_def)
  show ?thesis
    using assms(1) le unfolding ds_read_def Let_def pos
    by (auto simp: ds_contents_def ds_ok_def ds_fits_def add.commute)
qed

lemma ds_read_none:
  assumes "ds_ok s" and "ds_fits s n" and "length (ds_contents s) < n"
  shows "ds_read s n = None"
proof -
  have pos: "(ds_nReadPos s + n) mod 2 ^ 32 = ds_nReadPos s + n"
    using assms by (simp add: ds_ok_def ds_fits_def)
  have "length (ds_vch s) < ds_nReadPos s + n"
    using assms by (simp add: ds_ok_def ds_contents_def)
  then show ?thesis
    by (simp only: ds_read_def Let_def pos ds_setstate_fail [OF assms(1)]) simp
qed

interpretation ds: byte_stream ds_contents ds_read ds_write ds_ok ds_fits
proof unfold_locales
  fix s v n
  show "ds_ok s \<Longrightarrow> ds_contents (ds_write s v) = ds_contents s @ v"
    by (simp add: ds_ok_def ds_contents_def ds_write_def)
  show "ds_ok s \<Longrightarrow> ds_ok (ds_write s v)"
    by (simp add: ds_ok_def ds_write_def)
  show "ds_fits s (length v + n) \<Longrightarrow> ds_fits (ds_write s v) n"
    by (simp add: ds_fits_def ds_write_def)
qed (rule ds_read_some ds_read_none; assumption)+

end
