(* ===== verification/Bignum.thy ===== *)
theory Bignum
  imports Serialize
begin

text \<open>
  Big numbers (\<open>src/bignum.h\<close>). \<open>CBigNum\<close> wraps OpenSSL's \<open>BIGNUM\<close>, an integer of any
  size: its value is an \<open>int\<close> and its arithmetic and comparisons are those of \<open>int\<close>.
  The library calls whose result is a representation (\<open>BN_mpi2bn\<close>, \<open>BN_bn2mpi\<close>,
  \<open>BN_get_word\<close>, \<open>BN_num_bytes\<close>) and the hash functions are parameters, the fields of the
  record \<open>openssl\<close>; \<open>bn_documented\<close> is the behaviour OpenSSL documents for them. What is
  modelled is the code around the calls: byte order, sign bits, compact targets.
\<close>

record openssl =
  RIPEMD160 :: "byte list \<Rightarrow> byte list"
  SHA1 :: "byte list \<Rightarrow> byte list"
  SHA256 :: "byte list \<Rightarrow> byte list"
  BN_mpi2bn :: "byte list \<Rightarrow> int"
  BN_bn2mpi :: "int \<Rightarrow> byte list"
  BN_get_word :: "int \<Rightarrow> nat"
  BN_num_bytes :: "int \<Rightarrow> nat"

subsection \<open>The documented behaviour of the library\<close>

text \<open>
  The MPI format: a 4-byte big-endian length, then the magnitude in big-endian order whose
  most significant bit is the sign; a zero byte is put in front of a magnitude that has
  this bit set. \<open>BN_get_word\<close> returns the magnitude, or all ones when it does not fit.
\<close>

fun byte_count :: "nat \<Rightarrow> nat" where
  "byte_count n = (if n = 0 then 0 else Suc (byte_count (n div 256)))"

declare byte_count.simps [simp del]

definition mpi_sign_byte :: "bool \<Rightarrow> byte" where
  "mpi_sign_byte neg = (if neg then 0x80 else 0)"

fun mpi_signed :: "bool \<Rightarrow> byte list \<Rightarrow> byte list" where
  "mpi_signed neg [] = []"
| "mpi_signed neg (c # bs) =
     (if 0x80 \<le> c then mpi_sign_byte neg # c # bs else (if neg then c + 0x80 else c) # bs)"

definition mpi_body :: "int \<Rightarrow> byte list" where
  "mpi_body n = mpi_signed (n < 0) (be_bytes (byte_count (nat \<bar>n\<bar>)) (nat \<bar>n\<bar>))"

fun mpi_value :: "byte list \<Rightarrow> int" where
  "mpi_value [] = 0"
| "mpi_value (c # bs) =
     (if 0x80 \<le> c then - int (be_value ((c - 0x80) # bs)) else int (be_value (c # bs)))"

definition bn_documented :: "openssl \<Rightarrow> bool" where
  "bn_documented E \<longleftrightarrow>
     (\<forall>v. length v < 2 ^ 32 \<longrightarrow> BN_mpi2bn E (be_bytes 4 (length v) @ v) = mpi_value v) \<and>
     (\<forall>n. BN_bn2mpi E n = be_bytes 4 (length (mpi_body n)) @ mpi_body n) \<and>
     (\<forall>n. BN_get_word E n = (if \<bar>n\<bar> < 2 ^ 64 then nat \<bar>n\<bar> else 2 ^ 64 - 1)) \<and>
     (\<forall>n. BN_num_bytes E n = byte_count (nat \<bar>n\<bar>))"

subsection \<open>Conversions (the code of \<open>CBigNum\<close>)\<close>

text \<open>
  The size in front of the magnitude is an \<open>unsigned int\<close>, written most significant byte
  first; a value of the wrapper that is copied into the format is \<open>be_bytes 4\<close> of it.
\<close>

definition setvch :: "openssl \<Rightarrow> valtype \<Rightarrow> int" where
  "setvch E vch = BN_mpi2bn E (be_bytes 4 (length vch mod 2 ^ 32) @ rev vch)"

definition getvch :: "openssl \<Rightarrow> int \<Rightarrow> valtype" where
  "getvch E n =
     (let vch = BN_bn2mpi E n in if length vch \<le> 4 then [] else rev (drop 4 vch))"

definition INT_MAX :: int where
  "INT_MAX = 2 ^ 31 - 1"

definition INT_MIN :: int where
  "INT_MIN = - (2 ^ 31)"

definition getint :: "openssl \<Rightarrow> int \<Rightarrow> int" where
  "getint E n =
     (let w = int (BN_get_word E n)
      in if \<not> n < 0 then (if INT_MAX < w then INT_MAX else w)
         else (if INT_MAX < w then INT_MIN else - w))"

definition getuint :: "openssl \<Rightarrow> int \<Rightarrow> uint32" where
  "getuint E n = word_of_nat (BN_get_word E n)"

text \<open>
  The loop of \<open>setint64\<close> and \<open>setuint64\<close>: eight times, take the top byte of \<open>n\<close> and
  shift; leading zero bytes are skipped, the first byte kept carries the sign.
\<close>

fun setword_loop :: "bool \<Rightarrow> nat \<Rightarrow> uint64 \<Rightarrow> bool \<Rightarrow> byte list" where
  "setword_loop fNegative 0 n fLeadingZeroes = []"
| "setword_loop fNegative (Suc i) n fLeadingZeroes =
     (let c = ucast (drop_bit 56 n) :: byte; n' = push_bit 8 n
      in if fLeadingZeroes
         then if c = 0 then setword_loop fNegative i n' True
              else if c AND 0x80 \<noteq> 0
                   then (if fNegative then 0x80 else 0) # c # setword_loop fNegative i n' False
                   else (if fNegative then c OR 0x80 else c) # setword_loop fNegative i n' False
         else c # setword_loop fNegative i n' False)"

definition setint64 :: "openssl \<Rightarrow> int64 \<Rightarrow> int" where
  "setint64 E sn =
     (let fNegative = sint sn < 0;
          n = (if fNegative then - (sn + 1) + 1 else sn);
          p = setword_loop fNegative 8 n True
      in BN_mpi2bn E (be_bytes 4 (length p) @ p))"

definition setuint64 :: "openssl \<Rightarrow> uint64 \<Rightarrow> int" where
  "setuint64 E n =
     (let p = setword_loop False 8 n True in BN_mpi2bn E (be_bytes 4 (length p) @ p))"

text \<open>
  \<open>getuint64\<close>: the sign bit is cleared, then up to eight bytes are copied from the end of
  the MPI into \<open>n\<close>, least significant first; \<open>j >= 4\<close> stops at the length prefix.
\<close>

definition clear_sign :: "byte list \<Rightarrow> byte list" where
  "clear_sign vch = (if 4 < length vch then vch[4 := vch ! 4 AND 0x7f] else vch)"

definition getuint64 :: "openssl \<Rightarrow> int \<Rightarrow> uint64" where
  "getuint64 E n =
     (let vch = BN_bn2mpi E n
      in if length vch < 4 then 0
         else word_of_nat (le_value (take 8 (rev (drop 4 (clear_sign vch))))))"

definition getuint256 :: "openssl \<Rightarrow> int \<Rightarrow> uint256" where
  "getuint256 E n =
     (let vch = BN_bn2mpi E n
      in if length vch < 4 then 0
         else word_of_nat (le_value (take 32 (rev (drop 4 (clear_sign vch))))))"

fun setbytes_loop :: "byte list \<Rightarrow> bool \<Rightarrow> byte list" where
  "setbytes_loop [] fLeadingZeroes = []"
| "setbytes_loop (c # cs) fLeadingZeroes =
     (if fLeadingZeroes
      then if c = 0 then setbytes_loop cs True
           else if c AND 0x80 \<noteq> 0 then 0 # c # setbytes_loop cs False
           else c # setbytes_loop cs False
      else c # setbytes_loop cs False)"

definition setuint256 :: "openssl \<Rightarrow> uint256 \<Rightarrow> int" where
  "setuint256 E n =
     (let p = setbytes_loop (rev (bytes_of_u256 n)) True
      in BN_mpi2bn E (be_bytes 4 (length p) @ p))"

text \<open>\<open>operator>>=\<close>: a value below \<open>2 ^ shift\<close>, so every negative one, becomes 0.\<close>

definition bn_shift_right :: "int \<Rightarrow> nat \<Rightarrow> int" where
  "bn_shift_right n shift = (if n < 2 ^ shift then 0 else n div 2 ^ shift)"

subsection \<open>Compact targets\<close>

definition SetCompact :: "uint32 \<Rightarrow> int" where
  "SetCompact nCompact =
     (let nSize = unat (drop_bit 24 nCompact);
          fNegative = nCompact AND 0x00800000 \<noteq> 0;
          nWord = uint (nCompact AND 0x007fffff);
          v = (if nSize \<le> 3 then nWord div 2 ^ (8 * (3 - nSize)) else nWord * 2 ^ (8 * (nSize - 3)))
      in if fNegative then - v else v)"

definition GetCompact :: "openssl \<Rightarrow> int \<Rightarrow> uint32" where
  "GetCompact E n =
     (let nSize = BN_num_bytes E n;
          nCompact = (if nSize \<le> 3
                      then word_of_nat (BN_get_word E n * 2 ^ (8 * (3 - nSize)))
                      else word_of_nat (BN_get_word E (sgn n * (\<bar>n\<bar> div 2 ^ (8 * (nSize - 3)))))) :: uint32;
          (nCompact, nSize) = (if nCompact AND 0x00800000 \<noteq> 0
                               then (drop_bit 8 nCompact, nSize + 1) else (nCompact, nSize));
          nCompact = nCompact OR push_bit 24 (word_of_nat nSize);
          nCompact = nCompact OR (if n < 0 then 0x00800000 else 0)
      in nCompact)"

subsection \<open>The sign bit of a byte\<close>

lemma nat_128_split:
  assumes "128 \<le> n" and "n < (256::nat)"
  shows "n div 128 = 1" and "n mod 128 = n - 128"
proof -
  obtain m where m: "n = 128 + m" using assms(1) le_Suc_ex by blast
  with assms(2) have "m < 128" by simp
  then show "n div 128 = 1" "n mod 128 = n - 128" using m by simp_all
qed

lemma byte_le_msb: "0x80 \<le> (c :: byte) \<longleftrightarrow> 128 \<le> unat c"
  by (simp add: word_le_nat_alt)

lemma byte_msb: "c AND 0x80 \<noteq> 0 \<longleftrightarrow> 0x80 \<le> (c :: byte)"
proof -
  have "c AND 2 ^ 7 = 0 \<longleftrightarrow> \<not> bit c 7" by (rule and_exp_eq_0_iff_not_bit)
  moreover have "bit c 7 \<longleftrightarrow> odd (unat c div 2 ^ 7)"
    using bit_unsigned_iff [where ?'a = nat, of c 7] by (simp add: bit_iff_odd [of "unat c" 7])
  moreover have "odd (unat c div 128) \<longleftrightarrow> 128 \<le> unat c"
    using nat_128_split(1) [OF _ unat_byte_less [of c]] by (cases "128 \<le> unat c") auto
  ultimately show ?thesis by (simp add: byte_le_msb)
qed

lemma byte_or_msb: "\<not> 0x80 \<le> c \<Longrightarrow> c OR 0x80 = (c :: byte) + 0x80"
proof -
  assume "\<not> 0x80 \<le> c"
  then have z: "c AND 0x80 = 0" using byte_msb by blast
  have "\<not> bit c n \<or> \<not> bit (0x80 :: byte) n" for n
    using arg_cong [OF z, of "\<lambda>w. bit w n"] by (simp add: bit_and_iff)
  then show ?thesis by (simp add: disjunctive_add)
qed

lemma byte_clear_msb: "c AND 0x7f = (if 0x80 \<le> c then c - 0x80 else (c :: byte))"
proof -
  have "c AND 0x7f = take_bit 7 c"
    by (simp add: take_bit_eq_mask mask_numeral)
  then have u: "unat (c AND 0x7f) = unat c mod 128"
    by (simp only: unsigned_take_bit_eq) (simp add: take_bit_eq_mod)
  show ?thesis
  proof (cases "0x80 \<le> c")
    case True
    then have "unat (c - 0x80) = unat c - 128" by (simp add: unat_sub)
    moreover have "unat c mod 128 = unat c - 128"
      using True unat_byte_less [of c] unfolding byte_le_msb by (rule nat_128_split(2))
    ultimately show ?thesis using True u by (simp add: word_unat_eq_iff)
  next
    case False
    with u show ?thesis by (simp add: word_unat_eq_iff byte_le_msb)
  qed
qed

lemma byte_add_msb: "\<not> 0x80 \<le> c \<Longrightarrow> unat ((c::byte) + 0x80) = unat c + 128"
  by (simp add: byte_le_msb unat_word_ariths)

subsection \<open>The format determines the value\<close>

lemma be_value_simps [simp]:
  "be_value [] = 0"
  "be_value (c # bs) = unat c * 256 ^ length bs + be_value bs"
  by (simp_all add: be_value_def le_value_append)

lemma be_value_bound: "be_value bs < 256 ^ length bs"
  using le_value_bound [of "rev bs"] by (simp add: be_value_def)

lemma be_value_dropWhile: "be_value (dropWhile ((=) 0) bs) = be_value bs"
  by (induction bs) auto

lemma mpi_value_signed:
  "mpi_value (mpi_signed neg bs) = (if neg then - int (be_value bs) else int (be_value bs))"
proof (cases bs)
  case (Cons c cs)
  show ?thesis
  proof (cases "0x80 \<le> c")
    case True
    with Cons show ?thesis by (simp add: mpi_sign_byte_def)
  next
    case False
    moreover have "0x80 \<le> c + 0x80"
      unfolding byte_le_msb byte_add_msb [OF False] by simp
    ultimately show ?thesis using Cons by simp
  qed
qed simp

lemma byte_count_bound: "n < 256 ^ byte_count n"
proof (induction n rule: byte_count.induct)
  case (1 n)
  show ?case
  proof (cases "n = 0")
    case False
    then have "n div 256 < 256 ^ byte_count (n div 256)" by (rule 1)
    then have "n < 256 * 256 ^ byte_count (n div 256)" by (simp add: div_less_iff_less_mult)
    then show ?thesis using False by (subst byte_count.simps) simp
  qed (simp add: byte_count.simps)
qed

lemma byte_count_ge: "n \<noteq> 0 \<Longrightarrow> 256 ^ (byte_count n - 1) \<le> n"
proof (induction n rule: byte_count.induct)
  case (1 n)
  show ?case
  proof (cases "n div 256 = 0")
    case True
    then have "byte_count n = 1"
      using "1.prems" byte_count.simps [of n] byte_count.simps [of 0] by simp
    then show ?thesis using "1.prems" by simp
  next
    case False
    then obtain k where k: "byte_count (n div 256) = Suc k"
      using byte_count.simps [of "n div 256"] by simp
    have "256 ^ k \<le> n div 256" using "1.IH" [OF "1.prems" False] k by simp
    then have "256 * 256 ^ k \<le> n" by (simp add: less_eq_div_iff_mult_less_eq)
    moreover have "byte_count n = Suc (Suc k)" using "1.prems" k byte_count.simps [of n] by simp
    ultimately show ?thesis by simp
  qed
qed

lemma byte_count_le: "n < 256 ^ k \<Longrightarrow> byte_count n \<le> k"
proof (rule ccontr)
  assume n: "n < 256 ^ k" and "\<not> byte_count n \<le> k"
  then have "k \<le> byte_count n - 1" and "n \<noteq> 0"
    by (simp, cases "n = 0") (simp_all add: byte_count.simps [of 0])
  then have "256 ^ k \<le> (256 :: nat) ^ (byte_count n - 1)" and "256 ^ (byte_count n - 1) \<le> n"
    using byte_count_ge [of n] by (simp_all add: power_increasing)
  with n show False by linarith
qed

lemma mpi_value_body: "mpi_value (mpi_body n) = n"
  by (simp add: mpi_body_def mpi_value_signed be_value_be_bytes byte_count_bound)

lemma length_mpi_signed: "length (mpi_signed neg bs) \<le> Suc (length bs)"
  by (cases bs) auto

subsection \<open>Setting from machine integers\<close>

primrec top_bytes :: "nat \<Rightarrow> uint64 \<Rightarrow> byte list" where
  "top_bytes 0 n = []"
| "top_bytes (Suc i) n = ucast (drop_bit 56 n) # top_bytes i (push_bit 8 n)"

lemma length_top_bytes [simp]: "length (top_bytes i n) = i"
  by (induction i arbitrary: n) auto

lemma setword_loop_eq:
  "setword_loop neg i n lead =
     (if lead then mpi_signed neg (dropWhile ((=) 0) (top_bytes i n)) else top_bytes i n)"
  by (induction i arbitrary: n lead) (auto simp: Let_def byte_msb byte_or_msb mpi_sign_byte_def)

lemma unat_top_byte: "unat (ucast (drop_bit 56 (n :: uint64)) :: byte) = unat n div 2 ^ 56"
proof -
  have "unat n < 2 ^ 64" using unsigned_less [of n] by simp
  then have "unat n div 2 ^ 56 < 256" by (simp add: div_less_iff_less_mult)
  then show ?thesis by (simp only: unsigned_ucast_eq unsigned_drop_bit_eq) (simp add: drop_bit_eq_div take_bit_eq_mod)
qed

lemma be_value_top_bytes: "i \<le> 8 \<Longrightarrow> be_value (top_bytes i n) = unat n div 2 ^ (64 - 8 * i)"
proof (induction i arbitrary: n)
  case 0
  have "unat n < 2 ^ 64" using unsigned_less [of n] by simp
  then show ?case by simp
next
  case (Suc i)
  let ?N = "unat n"
  define c r where "c = ?N div 2 ^ 56" and "r = ?N mod 2 ^ 56"
  have N: "?N = c * 2 ^ 56 + r" unfolding c_def r_def by (simp only: div_mult_mod_eq)
  have c: "c < 256" using unsigned_less [of n] by (simp add: c_def div_less_iff_less_mult)
  have r: "r < 2 ^ 56" by (simp add: r_def)
  have shift: "unat (push_bit 8 n) = r * 256"
  proof -
    have "unat (push_bit 8 n) = (?N * 256) mod 2 ^ 64"
      by (simp only: unsigned_push_bit_eq) (simp add: push_bit_eq_mult take_bit_eq_mod)
    also have "?N * 256 = c * 2 ^ 64 + r * 256" by (simp add: N)
    also have "(c * 2 ^ 64 + r * 256) mod 2 ^ 64 = r * 256"
      using r by simp
    finally show ?thesis .
  qed
  define k where "k = 56 - 8 * i"
  have k: "64 - 8 * i = k + 8" "64 - 8 * Suc i = k" "56 = 8 * i + k"
    using Suc.prems by (simp_all add: k_def)
  have p: "(2::nat) ^ 56 = 256 ^ i * 2 ^ k"
    by (simp only: k(3) power_add power_mult) simp
  have "be_value (top_bytes i (push_bit 8 n)) = r * 256 div 2 ^ (k + 8)"
    using Suc.IH [of "push_bit 8 n"] Suc.prems by (simp add: shift flip: k(1))
  also have "\<dots> = r div 2 ^ k"
    by (simp add: power_add)
  finally have "be_value (top_bytes (Suc i) n) = c * 256 ^ i + r div 2 ^ k"
    by (simp add: unat_top_byte c_def)
  also have "\<dots> = (c * 2 ^ 56 + r) div 2 ^ k"
    unfolding p by (simp flip: mult.assoc)
  finally show ?case unfolding N k(2) .
qed

lemma mpi_value_setword_loop:
  "mpi_value (setword_loop neg 8 n True) = (if neg then - uint n else uint n)"
proof -
  have "int (be_value (dropWhile ((=) 0) (top_bytes 8 n))) = uint n"
    using be_value_top_bytes [of 8 n] unfolding be_value_dropWhile by simp
  then show ?thesis by (simp only: setword_loop_eq mpi_value_signed if_True)
qed

lemma length_setword_loop: "length (setword_loop neg i n lead) \<le> Suc i"
proof -
  have "length (dropWhile ((=) 0) (top_bytes i n)) \<le> i"
    using length_dropWhile_le [of "(=) 0" "top_bytes i n"] by simp
  then show ?thesis
    using length_mpi_signed [of neg "dropWhile ((=) 0) (top_bytes i n)"]
    by (auto simp: setword_loop_eq)
qed

lemma bn_mpi2bn: "bn_documented E \<Longrightarrow> length v < 2 ^ 32 \<Longrightarrow>
    BN_mpi2bn E (be_bytes 4 (length v) @ v) = mpi_value v"
  by (simp add: bn_documented_def)

lemma bn_bn2mpi: "bn_documented E \<Longrightarrow>
    BN_bn2mpi E n = be_bytes 4 (length (mpi_body n)) @ mpi_body n"
  by (simp add: bn_documented_def)

lemma bn_get_word: "bn_documented E \<Longrightarrow> \<bar>n\<bar> < 2 ^ 64 \<Longrightarrow> BN_get_word E n = nat \<bar>n\<bar>"
  by (simp add: bn_documented_def)

lemma bn_num_bytes: "bn_documented E \<Longrightarrow> BN_num_bytes E n = byte_count (nat \<bar>n\<bar>)"
  by (simp add: bn_documented_def)

lemma setuint64_value:
  assumes "bn_documented E" shows "setuint64 E n = uint n"
  using bn_mpi2bn [OF assms, of "setword_loop False 8 n True"] length_setword_loop [of False 8 n True]
  by (simp add: setuint64_def Let_def mpi_value_setword_loop del: setword_loop.simps)

lemma unat_minus_sint: "sint (s :: int64) < 0 \<Longrightarrow> int (unat (- s)) = - sint s"
proof -
  assume neg: "sint s < 0"
  have "- s = word_of_int (- sint s)" by simp
  moreover have "0 \<le> - sint s" "- sint s < 2 ^ 64"
    using neg sint64_bounds [of s] by simp_all
  ultimately show ?thesis using uint_word_of_int_eq [where ?'a = 64, of "- sint s"]
    by (simp only: take_bit_int_eq_self len_of_numeral_defs) (simp add: take_bit_int_eq_self)
qed

lemma setint64_value:
  assumes "bn_documented E" shows "setint64 E sn = sint sn"
proof (cases "sint sn < 0")
  case True
  have "- (sn + 1) + 1 = - sn" by simp
  with True unat_minus_sint [OF True] bn_mpi2bn [OF assms, of "setword_loop True 8 (- sn) True"]
    length_setword_loop [of True 8 "- sn" True]
  show ?thesis
    by (simp add: setint64_def Let_def mpi_value_setword_loop unat_minus_sint
        del: setword_loop.simps)
next
  case False
  then have "uint sn = sint sn" 
    using uint_word_of_int_eq [where ?'a = 64, of "sint sn"] sint64_bounds [of sn]
    by (simp only: of_int_sint) (simp add: take_bit_int_eq_self)
  with False bn_mpi2bn [OF assms, of "setword_loop False 8 sn True"]
    length_setword_loop [of False 8 sn True]
  show ?thesis
    by (simp add: setint64_def Let_def mpi_value_setword_loop del: setword_loop.simps)
qed


subsection \<open>Byte vectors and back\<close>

lemma setvch_value:
  assumes "bn_documented E" and "length vch < 2 ^ 32"
  shows "setvch E vch = mpi_value (rev vch)"
  using bn_mpi2bn [OF assms(1), of "rev vch"] assms(2) by (simp add: setvch_def)

lemma getvch_value: "bn_documented E \<Longrightarrow> getvch E n = rev (mpi_body n)"
  by (simp add: getvch_def bn_bn2mpi Let_def)

lemma length_mpi_body: "length (mpi_body n) \<le> Suc (byte_count (nat \<bar>n\<bar>))"
  using length_mpi_signed [of "n < 0"] by (metis length_be_bytes mpi_body_def)

lemma setvch_getvch:
  assumes "bn_documented E" and "byte_count (nat \<bar>n\<bar>) < 2 ^ 32 - 1"
  shows "setvch E (getvch E n) = n"
  using assms length_mpi_body [of n]
  by (simp add: getvch_value setvch_value mpi_value_body)

lemma clear_sign_mpi:
  "drop 4 (clear_sign (be_bytes 4 k @ mpi_signed neg bs)) = (case bs of [] \<Rightarrow> [] | c # cs \<Rightarrow>
     if 0x80 \<le> c then 0 # bs else bs)"
proof (cases bs)
  case (Cons c cs)
  have len: "length (be_bytes 4 k) = 4" by simp
  show ?thesis
  proof (cases "0x80 \<le> c")
    case True
    then show ?thesis using Cons len
      by (simp add: clear_sign_def nth_append list_update_append mpi_sign_byte_def byte_clear_msb)
  next
    case False
    have "0x80 \<le> c + 0x80"
      unfolding byte_le_msb byte_add_msb [OF False] by simp
    then show ?thesis using Cons False len
      by (simp add: clear_sign_def nth_append list_update_append byte_clear_msb)
  qed
qed (simp add: clear_sign_def)

lemma le_value_take: "le_value (take k bs) = le_value bs mod 256 ^ k"
proof (induction bs arbitrary: k)
  case (Cons b bs)
  show ?case
  proof (cases k)
    case (Suc j)
    have "(unat b + 256 * le_value bs) mod (256 * 256 ^ j) =
        256 * (le_value bs mod 256 ^ j) + unat b"
      by (simp only: mod_mult2_eq) simp
    then show ?thesis using Cons Suc by simp
  qed simp
qed simp

lemma magnitude_bytes:
  assumes "bn_documented E"
  shows "le_value (rev (drop 4 (clear_sign (BN_bn2mpi E n)))) = nat \<bar>n\<bar>"
proof -
  define bs where "bs = be_bytes (byte_count (nat \<bar>n\<bar>)) (nat \<bar>n\<bar>)"
  have v: "be_value bs = nat \<bar>n\<bar>"
    by (simp add: bs_def be_value_be_bytes byte_count_bound)
  have "be_value (drop 4 (clear_sign (BN_bn2mpi E n))) = be_value bs"
    unfolding bn_bn2mpi [OF assms] mpi_body_def clear_sign_mpi bs_def [symmetric]
    by (cases bs) auto
  with v show ?thesis by (simp add: be_value_def)
qed

lemma word_of_nat_mod:
  "word_of_nat (m mod 256 ^ 8) = (word_of_nat m :: uint64)"
  "word_of_nat (m mod 256 ^ 32) = (word_of_nat m :: uint256)"
  by (simp_all only: word_unat_eq_iff unat_of_nat) simp_all

lemma getuint64_value:
  assumes "bn_documented E" shows "getuint64 E n = word_of_nat (nat \<bar>n\<bar>)"
proof -
  have "\<not> length (BN_bn2mpi E n) < 4" by (simp add: bn_bn2mpi [OF assms])
  then show ?thesis
    by (simp only: getuint64_def Let_def le_value_take magnitude_bytes [OF assms] word_of_nat_mod
        if_False)
qed

lemma getuint256_value:
  assumes "bn_documented E" shows "getuint256 E n = word_of_nat (nat \<bar>n\<bar>)"
proof -
  have "\<not> length (BN_bn2mpi E n) < 4" by (simp add: bn_bn2mpi [OF assms])
  then show ?thesis
    by (simp only: getuint256_def Let_def le_value_take magnitude_bytes [OF assms] word_of_nat_mod
        if_False)
qed

lemma setbytes_loop_eq:
  "setbytes_loop cs lead = (if lead then mpi_signed False (dropWhile ((=) 0) cs) else cs)"
  by (induction cs arbitrary: lead) (auto simp: byte_msb mpi_sign_byte_def)

lemma setuint256_value:
  assumes "bn_documented E" shows "setuint256 E n = uint n"
proof -
  let ?bs = "dropWhile ((=) 0) (rev (bytes_of_u256 n))"
  have "length ?bs \<le> 32" using length_dropWhile_le [of "(=) 0" "rev (bytes_of_u256 n)"] by simp
  then have len: "length (mpi_signed False ?bs) < 2 ^ 32"
    using length_mpi_signed [of False ?bs] by simp
  have "unat n < 256 ^ 32" using unsigned_less [of n] by simp
  then have "be_value ?bs = unat n"
    by (simp add: be_value_dropWhile) (simp add: be_value_def bytes_of_u256_def le_value_le_bytes_id)
  then show ?thesis
    using bn_mpi2bn [OF assms len]
    by (simp add: setuint256_def setbytes_loop_eq Let_def mpi_value_signed)
qed

end
