(* ===== verification/Compact.thy ===== *)
theory Compact
  imports Bignum
begin

text \<open>
  Compact targets (\<open>SetCompact\<close> and \<open>GetCompact\<close> of \<open>src/bignum.h\<close>): the mantissa and size
  fields of the 32-bit word, and how much of a target the encoding keeps.
\<close>

subsection \<open>What a compact target denotes\<close>

text \<open>The mantissa and the size that \<open>GetCompact\<close> stores, for a non-negative number.\<close>

definition compact_parts :: "nat \<Rightarrow> nat \<times> nat" where
  "compact_parts n =
     (let k = byte_count n; m = (if k \<le> 3 then n * 256 ^ (3 - k) else n div 256 ^ (k - 3))
      in if 2 ^ 23 \<le> m then (m div 256, k + 1) else (m, k))"

definition compact_word :: "nat \<Rightarrow> nat \<Rightarrow> uint32" where
  "compact_word m s = word_of_nat m OR push_bit 24 (word_of_nat s)"

lemma bit_23_word: "(w :: uint32) AND 0x00800000 \<noteq> 0 \<longleftrightarrow> odd (unat w div 2 ^ 23)"
proof -
  have "w AND 2 ^ 23 = 0 \<longleftrightarrow> \<not> bit w 23" by (rule and_exp_eq_0_iff_not_bit)
  moreover have "bit w 23 \<longleftrightarrow> bit (unat w) 23"
    using bit_unsigned_iff [where ?'a = nat, of w 23] by simp
  ultimately show ?thesis by (simp add: bit_iff_odd [of "unat w" 23])
qed

lemma unat_compact_word:
  assumes "m < 2 ^ 23" and "s < 256"
  shows "unat (compact_word m s) = m + s * 2 ^ 24"
proof -
  have "compact_word m s = word_of_nat m + push_bit 24 (word_of_nat s)"
  proof -
    have "\<not> bit (word_of_nat m :: uint32) i \<or> \<not> bit (push_bit 24 (word_of_nat s) :: uint32) i" for i
    proof (cases "i < 24")
      case True then show ?thesis by (simp add: bit_push_bit_iff)
    next
      case False
      then have "m div 2 ^ i = 0"
        using assms(1) power_increasing [of 23 i "2 :: nat"] by simp
      then have "\<not> bit m i" by (simp add: bit_iff_odd)
      moreover have "unat (word_of_nat m :: uint32) = m" using assms(1) by (simp add: unat_of_nat)
      ultimately show ?thesis
        using bit_unsigned_iff [where ?'a = nat, of "word_of_nat m :: uint32" i] by simp
    qed
    then show ?thesis unfolding compact_word_def by (simp add: disjunctive_add)
  qed
  also have "\<dots> = word_of_nat (m + s * 2 ^ 24)"
    by (simp add: push_bit_eq_mult)
  finally show ?thesis using assms by (simp only: unat_of_nat) simp
qed

lemma compact_word_fields:
  assumes "m < 2 ^ 23" and "s < 256"
  shows "unat (drop_bit 24 (compact_word m s)) = s"
    and "compact_word m s AND 0x00800000 = 0"
    and "uint (compact_word m s AND 0x007fffff) = int m"
proof -
  note u = unat_compact_word [OF assms]
  show "unat (drop_bit 24 (compact_word m s)) = s"
    using assms by (simp only: unsigned_drop_bit_eq u)
      (simp add: drop_bit_eq_div take_bit_nat_eq_self)
  have "(m + s * 2 ^ 24) div 2 ^ 23 = 2 * s" using assms(1) by simp
  then show "compact_word m s AND 0x00800000 = 0"
    using bit_23_word [of "compact_word m s"] u by simp
  have "compact_word m s AND 0x007fffff = take_bit 23 (compact_word m s)"
    by (simp add: take_bit_eq_mask mask_numeral)
  then have "unat (compact_word m s AND 0x007fffff) = take_bit 23 (m + s * 2 ^ 24)"
    by (metis unsigned_take_bit_eq u)
  also have "\<dots> = (m + s * 2 ^ 24) mod 2 ^ 23" by (rule take_bit_eq_mod)
  also have "s * 2 ^ 24 = (2 * s) * 2 ^ 23" by simp
  also have "(m + (2 * s) * 2 ^ 23) mod 2 ^ 23 = m" using assms(1) by (simp only: mod_mult_self1) simp
  finally show "uint (compact_word m s AND 0x007fffff) = int m"
    by (metis of_nat_unat)
qed

lemma SetCompact_compact_word:
  assumes "m < 2 ^ 23" and "s < 256"
  shows "SetCompact (compact_word m s) =
    int (if s \<le> 3 then m div 256 ^ (3 - s) else m * 256 ^ (s - 3))"
proof -
  have p: "(2::int) ^ (8 * k) = 256 ^ k" for k by (simp add: power_mult)
  show ?thesis
    by (simp add: SetCompact_def Let_def compact_word_fields [OF assms] p zdiv_int)
qed

lemma compact_mantissa_bound:
  fixes n :: nat
  defines "k \<equiv> byte_count n"
  shows "(if k \<le> 3 then n * 256 ^ (3 - k) else n div 256 ^ (k - 3)) < 2 ^ 24"
proof (cases "k \<le> 3")
  case True
  have "n * 256 ^ (3 - k) < 256 ^ k * 256 ^ (3 - k)"
    using byte_count_bound [of n] by (simp add: k_def)
  also have "\<dots> = 256 ^ 3" using True by (simp flip: power_add)
  finally show ?thesis using True by simp
next
  case False
  have "(256 :: nat) ^ k = 256 ^ 3 * 256 ^ (k - 3)" using False power_add [of "256 :: nat" 3 "k - 3"] by simp
  then have "n < 256 ^ 3 * 256 ^ (k - 3)"
    using byte_count_bound [of n] by (simp add: k_def)
  then show ?thesis using False by (simp add: div_less_iff_less_mult)
qed

lemma compact_parts_bounds:
  "compact_parts n = (m, s) \<Longrightarrow> m < 2 ^ 23 \<and> s \<le> Suc (byte_count n)"
proof -
  define k where "k = byte_count n"
  define m0 where "m0 = (if k \<le> 3 then n * 256 ^ (3 - k) else n div 256 ^ (k - 3))"
  assume "compact_parts n = (m, s)"
  then have "(m, s) = (if 2 ^ 23 \<le> m0 then (m0 div 256, k + 1) else (m0, k))"
    unfolding compact_parts_def Let_def k_def [symmetric] m0_def [symmetric] by (rule sym)
  moreover have "m0 < 2 ^ 24" using compact_mantissa_bound [of n] unfolding m0_def k_def .
  moreover from this have "m0 div 256 < 2 ^ 23" by (simp add: div_less_iff_less_mult)
  ultimately show ?thesis by (simp add: k_def split: if_splits)
qed

lemma GetCompact_parts:
  assumes E: "bn_documented E" and n: "n < 256 ^ 32"
  shows "GetCompact E (int n) = case_prod compact_word (compact_parts n)"
proof -
  define k where "k = byte_count n"
  define m where "m = (if k \<le> 3 then n * 256 ^ (3 - k) else n div 256 ^ (k - 3))"
  have m24: "m < 2 ^ 24" using compact_mantissa_bound [of n] unfolding m_def k_def .
  have nb: "BN_num_bytes E (int n) = k" by (simp add: bn_num_bytes [OF E] k_def)
  have w: "(if k \<le> 3 then word_of_nat (BN_get_word E (int n) * 2 ^ (8 * (3 - k)))
     else word_of_nat (BN_get_word E (sgn (int n) * (\<bar>int n\<bar> div 2 ^ (8 * (k - 3)))))) =
     (word_of_nat m :: uint32)"
  proof (cases "k \<le> 3")
    case True
    then have "n < 256 ^ 3" using byte_count_bound [of n] power_increasing [of k 3 "256::nat"]
      by (simp add: k_def)
    then have "BN_get_word E (int n) = n" by (simp add: bn_get_word [OF E])
    then show ?thesis using True by (simp add: m_def power_mult)
  next
    case False
    have "sgn (int n) * (\<bar>int n\<bar> div 2 ^ (8 * (k - 3))) = int m"
      using False by (cases "n = 0") (simp_all add: m_def power_mult zdiv_int)
    then show ?thesis using False m24 by (simp add: bn_get_word [OF E])
  qed
  have um: "unat (word_of_nat m :: uint32) = m" using m24 by (simp add: unat_of_nat)
  have bit: "(word_of_nat m :: uint32) AND 0x00800000 \<noteq> 0 \<longleftrightarrow> 2 ^ 23 \<le> m"
  proof -
    have "odd (m div 2 ^ 23) \<longleftrightarrow> 2 ^ 23 \<le> m"
    proof (cases "2 ^ 23 \<le> m")
      case True
      then obtain j where j: "m = 2 ^ 23 + j" using le_Suc_ex by blast
      with m24 have "j < 2 ^ 23" by simp
      then have "m div 2 ^ 23 = 1" using j by simp
      with True show ?thesis by simp
    qed simp
    then show ?thesis unfolding bit_23_word um .
  qed
  have drop: "drop_bit 8 (word_of_nat m :: uint32) = word_of_nat (m div 256)"
    using um m24 by (simp only: word_unat_eq_iff unsigned_drop_bit_eq unat_of_nat)
      (simp add: drop_bit_eq_div take_bit_nat_eq_self)
  show ?thesis
    unfolding GetCompact_def Let_def nb w bit drop
    by (simp add: compact_parts_def Let_def compact_word_def flip: k_def m_def)
qed


text \<open>Storing a number as a compact target truncates it, and loses less than one part in \<open>2 ^ 15\<close>.\<close>

definition truncated :: "nat \<Rightarrow> nat \<Rightarrow> bool" where
  "truncated n v \<longleftrightarrow> v \<le> n \<and> (n - v) * 2 ^ 15 \<le> n"

lemma truncated_div:
  assumes "0 < d" and "d * 2 ^ 15 \<le> n"
  shows "truncated n (n div d * d)"
proof -
  have "n - n div d * d = n mod d" by (simp add: minus_div_mult_eq_mod)
  also have "n mod d < d" using assms(1) by simp
  finally have "(n - n div d * d) * 2 ^ 15 \<le> d * 2 ^ 15" by simp
  with assms(2) show ?thesis unfolding truncated_def by simp
qed

lemma truncated_refl: "truncated n n"
  by (simp add: truncated_def)

definition compact_value :: "nat \<times> nat \<Rightarrow> nat" where
  "compact_value p = (case p of (m, s) \<Rightarrow> if s \<le> 3 then m div 256 ^ (3 - s) else m * 256 ^ (s - 3))"

lemma compact_value_small:
  assumes "byte_count n \<le> 3"
  shows "truncated n (compact_value (compact_parts n))"
proof -
  define k where "k = byte_count n"
  consider (exact) "n * 256 ^ (3 - k) < 2 ^ 23" | (low) "k \<le> 2" "2 ^ 23 \<le> n * 256 ^ (3 - k)"
    | (three) "k = 3" "2 ^ 23 \<le> n"
    using assms unfolding k_def [symmetric] by (cases "k = 3") (simp, linarith, simp, linarith)
  then show ?thesis
  proof cases
    case exact
    then have "compact_parts n = (n * 256 ^ (3 - k), k)"
      using assms by (simp add: compact_parts_def Let_def flip: k_def)
    then show ?thesis using assms by (simp add: compact_value_def truncated_refl flip: k_def)
  next
    case low
    then have "3 - k = Suc (2 - k)" by simp
    then have "compact_parts n = (n * 256 ^ (2 - k), Suc k)"
      using low by (simp add: compact_parts_def Let_def flip: k_def)
    then show ?thesis using low by (simp add: compact_value_def truncated_refl)
  next
    case three
    then have "compact_parts n = (n div 256, 4)"
      by (simp add: compact_parts_def Let_def flip: k_def)
    then show ?thesis using three truncated_div [of 256 n] by (simp add: compact_value_def)
  qed
qed

lemma compact_value_large:
  assumes "3 < byte_count n"
  shows "truncated n (compact_value (compact_parts n))"
proof -
  define k where "k = byte_count n"
  have k3: "3 < k" "n \<noteq> 0" using assms by (auto simp: k_def byte_count.simps [of 0] intro: gr0I)
  have le: "256 ^ (k - 1) \<le> n" using byte_count_ge [OF k3(2)] by (simp add: k_def)
  show ?thesis
  proof (cases "2 ^ 23 \<le> n div 256 ^ (k - 3)")
    case False
    then have "compact_parts n = (n div 256 ^ (k - 3), k)"
      using k3 by (simp add: compact_parts_def Let_def flip: k_def)
    moreover have "256 ^ (k - 3) * 2 ^ 15 \<le> n"
    proof -
      have "k - 1 = (k - 3) + 2" using k3 by simp
      then have "(256 :: nat) ^ (k - 1) = 256 ^ (k - 3) * 2 ^ 16" by (simp only: power_add) simp
      with le show ?thesis by simp
    qed
    ultimately show ?thesis using k3 truncated_div [of "256 ^ (k - 3)" n]
      by (simp add: compact_value_def)
  next
    case True
    have step: "256 ^ (k - 2) = 256 ^ (k - 3) * (256 :: nat)"
    proof -
      have "k - 2 = Suc (k - 3)" using k3 by simp
      then show ?thesis by simp
    qed
    have "compact_parts n = (n div 256 ^ (k - 2), Suc k)"
      using True k3 by (simp add: compact_parts_def Let_def step div_mult2_eq flip: k_def)
    moreover have "256 ^ (k - 2) * 2 ^ 15 \<le> n"
      using True by (simp add: step less_eq_div_iff_mult_less_eq ac_simps)
    moreover have "Suc k - 3 = k - 2" using k3 by simp
    ultimately show ?thesis using k3 truncated_div [of "256 ^ (k - 2)" n]
      by (simp add: compact_value_def)
  qed
qed

lemma SetCompact_GetCompact:
  assumes "bn_documented E" and "0 \<le> n" and "n < 2 ^ 256"
  shows "truncated (nat n) (nat (SetCompact (GetCompact E n))) \<and> 0 \<le> SetCompact (GetCompact E n)"
proof -
  have "nat n < 256 ^ 32" using assms(3) by (simp add: nat_less_iff)
  obtain m s where p: "compact_parts (nat n) = (m, s)" by fastforce
  have "byte_count (nat n) \<le> 32" using \<open>nat n < 256 ^ 32\<close> by (rule byte_count_le)
  with compact_parts_bounds [OF p] have "m < 2 ^ 23" "s < 256" by auto
  moreover have "GetCompact E n = compact_word m s"
    using GetCompact_parts [OF assms(1) \<open>nat n < 256 ^ 32\<close>] assms(2) p by simp
  ultimately have v: "SetCompact (GetCompact E n) = int (compact_value (compact_parts (nat n)))"
    by (simp add: SetCompact_compact_word compact_value_def p)
  have "truncated (nat n) (compact_value (compact_parts (nat n)))"
    by (cases "byte_count (nat n) \<le> 3") (simp_all add: compact_value_small compact_value_large)
  then show ?thesis by (simp add: v)
qed

end
