(* ===== verification/Transaction.thy ===== *)
theory Transaction
  imports Bignum
begin

text \<open>
  Transactions (\<open>src/main.h\<close>, \<open>src/main.cpp\<close>): outpoints, inputs, outputs and
  \<open>CTransaction\<close> with their serialised form, the predicates on them, the context-free
  checks of \<open>CheckTransaction\<close>, the value sums and the minimum fee. \<open>DoS(n, b)\<close> adds \<open>n\<close>
  to the misbehaviour score of the object and returns \<open>b\<close>: a check returns the pair of its
  result and the score it added.
\<close>

subsection \<open>Hashes\<close>

definition Hash :: "openssl \<Rightarrow> byte list \<Rightarrow> uint256" where
  "Hash E bs = word_of_nat (le_value (SHA256 E (SHA256 E bs)))"

definition Hash160 :: "openssl \<Rightarrow> byte list \<Rightarrow> uint160" where
  "Hash160 E bs = word_of_nat (le_value (RIPEMD160 E (SHA256 E bs)))"

subsection \<open>Constants\<close>

definition COIN :: int where "COIN = 1000000"
definition CENT :: int where "CENT = 10000"
definition MAX_BLOCK_SIZE :: nat where "MAX_BLOCK_SIZE = 1000000"
definition MAX_BLOCK_SIZE_GEN :: nat where "MAX_BLOCK_SIZE_GEN = MAX_BLOCK_SIZE div 2"
definition MAX_BLOCK_SIGOPS :: nat where "MAX_BLOCK_SIGOPS = MAX_BLOCK_SIZE div 50"
definition MIN_TX_FEE :: int where "MIN_TX_FEE = COIN div 100000"
definition MIN_RELAY_TX_FEE :: int where "MIN_RELAY_TX_FEE = COIN div 100000"
definition MAX_MONEY :: int where "MAX_MONEY = 60000000 * COIN"
definition MIN_TXOUT_AMOUNT :: int where "MIN_TXOUT_AMOUNT = MIN_TX_FEE"
definition LOCKTIME_THRESHOLD :: int where "LOCKTIME_THRESHOLD = 500000000"

lemmas money_defs = COIN_def CENT_def MIN_TX_FEE_def MIN_RELAY_TX_FEE_def MAX_MONEY_def
  MIN_TXOUT_AMOUNT_def

definition MoneyRange :: "int64 \<Rightarrow> bool" where
  "MoneyRange nValue \<longleftrightarrow> 0 \<le> sint nValue \<and> sint nValue \<le> MAX_MONEY"

subsection \<open>Data\<close>

record COutPoint =
  op_hash :: uint256
  op_n :: uint32

record CTxIn =
  ti_prevout :: COutPoint
  ti_scriptSig :: valtype
  ti_nSequence :: uint32

record CTxOut =
  to_nValue :: int64
  to_scriptPubKey :: valtype

record CTransaction =
  tx_nVersion :: uint32
  tx_nTime :: uint32
  tx_vin :: "CTxIn list"
  tx_vout :: "CTxOut list"
  tx_nLockTime :: uint32

definition COutPoint_SetNull :: COutPoint where
  "COutPoint_SetNull = \<lparr>op_hash = 0, op_n = - 1\<rparr>"

definition COutPoint_IsNull :: "COutPoint \<Rightarrow> bool" where
  "COutPoint_IsNull p \<longleftrightarrow> op_hash p = 0 \<and> op_n p = - 1"

definition COutPoint_less :: "COutPoint \<Rightarrow> COutPoint \<Rightarrow> bool" where
  "COutPoint_less a b \<longleftrightarrow> op_hash a < op_hash b \<or> op_hash a = op_hash b \<and> op_n a < op_n b"

definition CTxIn_IsFinal :: "CTxIn \<Rightarrow> bool" where
  "CTxIn_IsFinal i \<longleftrightarrow> ti_nSequence i = - 1"

definition CTxOut_SetNull :: CTxOut where
  "CTxOut_SetNull = \<lparr>to_nValue = - 1, to_scriptPubKey = []\<rparr>"

definition CTxOut_IsNull :: "CTxOut \<Rightarrow> bool" where
  "CTxOut_IsNull out \<longleftrightarrow> to_nValue out = - 1"

definition CTxOut_SetEmpty :: CTxOut where
  "CTxOut_SetEmpty = \<lparr>to_nValue = 0, to_scriptPubKey = []\<rparr>"

definition CTxOut_IsEmpty :: "CTxOut \<Rightarrow> bool" where
  "CTxOut_IsEmpty out \<longleftrightarrow> to_nValue out = 0 \<and> to_scriptPubKey out = []"

definition CTransaction_SetNull :: "uint32 \<Rightarrow> CTransaction" where
  "CTransaction_SetNull nAdjustedTime =
     \<lparr>tx_nVersion = 1, tx_nTime = nAdjustedTime, tx_vin = [], tx_vout = [], tx_nLockTime = 0\<rparr>"

definition CTransaction_IsNull :: "CTransaction \<Rightarrow> bool" where
  "CTransaction_IsNull tx \<longleftrightarrow> tx_vin tx = [] \<and> tx_vout tx = []"

lemma COutPoint_less_total:
  "COutPoint_less a b \<or> a = b \<or> COutPoint_less (b :: COutPoint) a"
  by (cases a; cases b) (auto simp: COutPoint_less_def)

lemma COutPoint_less_irrefl: "\<not> COutPoint_less a a"
  by (simp add: COutPoint_less_def)

lemma COutPoint_less_trans: "COutPoint_less a b \<Longrightarrow> COutPoint_less b c \<Longrightarrow> COutPoint_less a c"
  by (auto simp: COutPoint_less_def)

subsection \<open>Serialised form\<close>

text \<open>
  An outpoint is written as the flat memory of its two fields; the other classes list
  their fields in \<open>IMPLEMENT_SERIALIZE\<close>.
\<close>

definition ser_outpoint :: "COutPoint \<Rightarrow> byte list" where
  "ser_outpoint p = bytes_of_u256 (op_hash p) @ bytes_of_u32 (op_n p)"

definition unser_outpoint :: "COutPoint reader" where
  "unser_outpoint bs =
     (case read_u256 bs of None \<Rightarrow> None
      | Some (h, r) \<Rightarrow>
          (case read_u32 r of None \<Rightarrow> None
           | Some (n, r') \<Rightarrow> Some (\<lparr>op_hash = h, op_n = n\<rparr>, r')))"

definition ser_txin :: "CTxIn \<Rightarrow> byte list" where
  "ser_txin i = ser_outpoint (ti_prevout i) @ Serialize_bytes (ti_scriptSig i) @
     bytes_of_u32 (ti_nSequence i)"

definition unser_txin :: "CTxIn reader" where
  "unser_txin bs =
     (case unser_outpoint bs of None \<Rightarrow> None
      | Some (p, r) \<Rightarrow>
     (case Unserialize_bytes r of None \<Rightarrow> None
      | Some (s, r) \<Rightarrow>
     (case read_u32 r of None \<Rightarrow> None
      | Some (q, r) \<Rightarrow> Some (\<lparr>ti_prevout = p, ti_scriptSig = s, ti_nSequence = q\<rparr>, r))))"

definition ser_txout :: "CTxOut \<Rightarrow> byte list" where
  "ser_txout out = bytes_of_u64 (to_nValue out) @ Serialize_bytes (to_scriptPubKey out)"

definition unser_txout :: "CTxOut reader" where
  "unser_txout bs =
     (case read_u64 bs of None \<Rightarrow> None
      | Some (v, r) \<Rightarrow>
     (case Unserialize_bytes r of None \<Rightarrow> None
      | Some (s, r) \<Rightarrow> Some (\<lparr>to_nValue = v, to_scriptPubKey = s\<rparr>, r)))"

definition ser_tx :: "CTransaction \<Rightarrow> byte list" where
  "ser_tx tx = bytes_of_u32 (tx_nVersion tx) @ bytes_of_u32 (tx_nTime tx) @
     Serialize_vector ser_txin (tx_vin tx) @ Serialize_vector ser_txout (tx_vout tx) @
     bytes_of_u32 (tx_nLockTime tx)"

definition unser_tx :: "CTransaction reader" where
  "unser_tx bs =
     (case read_u32 bs of None \<Rightarrow> None
      | Some (ver, r) \<Rightarrow>
     (case read_u32 r of None \<Rightarrow> None
      | Some (t, r) \<Rightarrow>
     (case Unserialize_vector unser_txin r of None \<Rightarrow> None
      | Some (ins, r) \<Rightarrow>
     (case Unserialize_vector unser_txout r of None \<Rightarrow> None
      | Some (outs, r) \<Rightarrow>
     (case read_u32 r of None \<Rightarrow> None
      | Some (lock, r) \<Rightarrow>
          Some (\<lparr>tx_nVersion = ver, tx_nTime = t, tx_vin = ins, tx_vout = outs,
                 tx_nLockTime = lock\<rparr>, r))))))"

definition size_txin :: "CTxIn \<Rightarrow> nat" where
  "size_txin i = 36 + GetSerializeSize_bytes (ti_scriptSig i) + 4"

definition size_txout :: "CTxOut \<Rightarrow> nat" where
  "size_txout out = 8 + GetSerializeSize_bytes (to_scriptPubKey out)"

definition size_tx :: "CTransaction \<Rightarrow> nat" where
  "size_tx tx = 4 + 4 + GetSerializeSize_vector size_txin (tx_vin tx) +
     GetSerializeSize_vector size_txout (tx_vout tx) + 4"

definition valid_txin :: "CTxIn \<Rightarrow> bool" where
  "valid_txin i \<longleftrightarrow> length (ti_scriptSig i) \<le> MAX_SIZE"

definition valid_txout :: "CTxOut \<Rightarrow> bool" where
  "valid_txout out \<longleftrightarrow> length (to_scriptPubKey out) \<le> MAX_SIZE"

definition valid_tx :: "CTransaction \<Rightarrow> bool" where
  "valid_tx tx \<longleftrightarrow> length (tx_vin tx) \<le> MAX_SIZE \<and> length (tx_vout tx) \<le> MAX_SIZE \<and>
     list_all valid_txin (tx_vin tx) \<and> list_all valid_txout (tx_vout tx)"

interpretation outpoint_codec: codec ser_outpoint unser_outpoint "\<lambda>_. 36" "\<lambda>_. True"
  by unfold_locales (simp_all add: ser_outpoint_def unser_outpoint_def codec_simps)

interpretation txin_codec: codec ser_txin unser_txin size_txin valid_txin
  by unfold_locales
    (simp_all add: ser_txin_def unser_txin_def size_txin_def valid_txin_def codec_simps
      outpoint_codec.dec_enc length_Serialize_bytes flip: outpoint_codec.size_enc)

interpretation txout_codec: codec ser_txout unser_txout size_txout valid_txout
  by unfold_locales
    (simp_all add: ser_txout_def unser_txout_def size_txout_def valid_txout_def codec_simps
      length_Serialize_bytes)

interpretation tx_codec: codec ser_tx unser_tx size_tx valid_tx
  by unfold_locales
    (simp_all add: ser_tx_def unser_tx_def size_tx_def valid_tx_def codec_simps
      txin_codec.vector_dec_enc txout_codec.vector_dec_enc txin_codec.vector_size
      txout_codec.vector_size)

definition GetHash :: "openssl \<Rightarrow> CTransaction \<Rightarrow> uint256" where
  "GetHash E tx = Hash E (ser_tx tx)"

subsection \<open>Kinds of transactions\<close>

definition IsCoinBase :: "CTransaction \<Rightarrow> bool" where
  "IsCoinBase tx \<longleftrightarrow>
     (case tx_vin tx of [i] \<Rightarrow> COutPoint_IsNull (ti_prevout i) \<and> 1 \<le> length (tx_vout tx) | _ \<Rightarrow> False)"

definition IsCoinStake :: "CTransaction \<Rightarrow> bool" where
  "IsCoinStake tx \<longleftrightarrow>
     (case (tx_vin tx, tx_vout tx) of
        (i # _, out # _ # _) \<Rightarrow> \<not> COutPoint_IsNull (ti_prevout i) \<and> CTxOut_IsEmpty out
      | _ \<Rightarrow> False)"

definition IsCoinBaseOrStake :: "CTransaction \<Rightarrow> bool" where
  "IsCoinBaseOrStake tx \<longleftrightarrow> IsCoinBase tx \<or> IsCoinStake tx"

text \<open>
  \<open>IsFinal\<close> takes the two globals it falls back to: the best height and the adjusted time.
\<close>

definition IsFinal :: "int \<Rightarrow> int \<Rightarrow> CTransaction \<Rightarrow> int \<Rightarrow> int \<Rightarrow> bool" where
  "IsFinal nBestHeight nAdjustedTime tx nBlockHeight nBlockTime =
     (if tx_nLockTime tx = 0 then True
      else let h = (if nBlockHeight = 0 then nBestHeight else nBlockHeight);
               t = (if nBlockTime = 0 then nAdjustedTime else nBlockTime);
               lock = uint (tx_nLockTime tx)
           in if lock < (if lock < LOCKTIME_THRESHOLD then h else t) then True
              else list_all CTxIn_IsFinal (tx_vin tx))"

fun newer_loop :: "bool \<Rightarrow> uint32 \<Rightarrow> (CTxIn \<times> CTxIn) list \<Rightarrow> bool" where
  "newer_loop fNewer nLowest [] = fNewer"
| "newer_loop fNewer nLowest ((i, old) # ps) =
     (if ti_nSequence i \<noteq> ti_nSequence old
      then let (fNewer, nLowest) = (if ti_nSequence i \<le> nLowest then (False, ti_nSequence i)
                                    else (fNewer, nLowest));
               (fNewer, nLowest) = (if ti_nSequence old < nLowest then (True, ti_nSequence old)
                                    else (fNewer, nLowest))
           in newer_loop fNewer nLowest ps
      else newer_loop fNewer nLowest ps)"

definition IsNewerThan :: "CTransaction \<Rightarrow> CTransaction \<Rightarrow> bool" where
  "IsNewerThan tx old =
     (if length (tx_vin tx) \<noteq> length (tx_vin old) then False
      else if map ti_prevout (tx_vin tx) \<noteq> map ti_prevout (tx_vin old) then False
      else newer_loop False (- 1) (zip (tx_vin tx) (tx_vin old)))"

subsection \<open>Values and fees\<close>

text \<open>\<open>GetValueOut\<close> throws (\<open>None\<close>) when an amount or the sum leaves the money range.\<close>

fun value_out_loop :: "int64 \<Rightarrow> CTxOut list \<Rightarrow> int64 option" where
  "value_out_loop nValueOut [] = Some nValueOut"
| "value_out_loop nValueOut (out # outs) =
     (let nValueOut = nValueOut + to_nValue out
      in if \<not> MoneyRange (to_nValue out) \<or> \<not> MoneyRange nValueOut then None
         else value_out_loop nValueOut outs)"

definition GetValueOut :: "CTransaction \<Rightarrow> int64 option" where
  "GetValueOut tx = value_out_loop 0 (tx_vout tx)"

datatype GetMinFee_mode = GMF_BLOCK | GMF_RELAY | GMF_SEND

definition GetMinFee :: "CTransaction \<Rightarrow> uint32 \<Rightarrow> bool \<Rightarrow> GetMinFee_mode \<Rightarrow> uint32 \<Rightarrow> int" where
  "GetMinFee tx nBlockSize fAllowFree mode nBytes =
     (let nBaseFee = (if mode = GMF_RELAY then MIN_RELAY_TX_FEE else MIN_TX_FEE);
          nNewBlockSize = unat (nBlockSize + nBytes);
          nMinFee = (1 + uint nBytes div 1000) * nBaseFee;
          nMinFee = (if nMinFee < nBaseFee
                     then (if list_ex (\<lambda>out. sint (to_nValue out) < CENT) (tx_vout tx)
                           then nBaseFee else nMinFee)
                     else nMinFee);
          full = nBlockSize \<noteq> 1 \<and> MAX_BLOCK_SIZE_GEN div 2 \<le> nNewBlockSize
      in if full \<and> MAX_BLOCK_SIZE_GEN \<le> nNewBlockSize then MAX_MONEY
         else let nMinFee = (if full
                             then nMinFee * int (MAX_BLOCK_SIZE_GEN div (MAX_BLOCK_SIZE_GEN - nNewBlockSize))
                             else nMinFee);
                  nMinFee = (if 0 \<le> nMinFee \<and> nMinFee \<le> MAX_MONEY then nMinFee else MAX_MONEY)
              in max nMinFee MIN_TX_FEE)"

subsection \<open>Context-free checks\<close>

type_synonym check = "bool \<times> int"

definition DoS :: "int \<Rightarrow> bool \<Rightarrow> check" where
  "DoS nDoSIn fIn = (fIn, nDoSIn)"

text \<open>The loop over the outputs: the score of the failing check, or the sum.\<close>

fun check_vout_loop :: "bool \<Rightarrow> int64 \<Rightarrow> CTxOut list \<Rightarrow> int + int64" where
  "check_vout_loop fUser nValueOut [] = Inr nValueOut"
| "check_vout_loop fUser nValueOut (out # outs) =
     (if CTxOut_IsEmpty out \<and> fUser then Inl 100
      else if \<not> CTxOut_IsEmpty out \<and> sint (to_nValue out) < MIN_TXOUT_AMOUNT then Inl 100
      else if MAX_MONEY < sint (to_nValue out) then Inl 100
      else let nValueOut = nValueOut + to_nValue out
           in if \<not> MoneyRange nValueOut then Inl 100
              else check_vout_loop fUser nValueOut outs)"

definition CheckTransaction :: "CTransaction \<Rightarrow> check" where
  "CheckTransaction tx =
     (if tx_vin tx = [] then DoS 10 False
      else if tx_vout tx = [] then DoS 10 False
      else if MAX_BLOCK_SIZE < size_tx tx then DoS 100 False
      else case check_vout_loop (\<not> IsCoinBase tx \<and> \<not> IsCoinStake tx) 0 (tx_vout tx) of
             Inl score \<Rightarrow> DoS score False
           | Inr _ \<Rightarrow>
               if \<not> distinct (map ti_prevout (tx_vin tx)) then DoS 0 False
               else if IsCoinBase tx
               then (let n = length (ti_scriptSig (hd (tx_vin tx)))
                     in if n < 2 \<or> 100 < n then DoS 100 False else DoS 0 True)
               else if list_ex (\<lambda>i. COutPoint_IsNull (ti_prevout i)) (tx_vin tx)
               then DoS 10 False
               else DoS 0 True)"

end
