(* ===== verification/Block_Index.thy ===== *)
theory Block_Index
  imports Compact Transaction
begin

text \<open>
  The block index (\<open>src/main.h\<close>, \<open>src/main.cpp\<close>): the entries of the tree of blocks, the
  walks along \<open>pprev\<close>, the difficulty of the next block, proof-of-work, block trust and
  rewards. An entry's address is its block hash: \<open>pprev\<close> and \<open>pnext\<close> are optional hashes.
  For the functions that only read the chain behind an entry, the pointer is the list of
  the entries from it back to the first block (\<open>ancestry\<close> in \<open>Chain_State\<close>): \<open>NULL\<close> is
  \<open>[]\<close>, \<open>pindex->pprev\<close> is \<open>tl\<close>. The tallies of votes are a table of their own in \<open>Chain_State\<close>.
\<close>

record CBlockIndex =
  bi_hash :: uint256
  bi_pprev :: "uint256 option"
  bi_pnext :: "uint256 option"
  bi_nFile :: uint32
  bi_nBlockPos :: uint32
  bi_bnChainTrust :: int
  bi_nHeight :: int
  bi_nMint :: int64
  bi_nMoneySupply :: int64
  bi_nFlags :: uint32
  bi_nStakeModifier :: uint64
  bi_nStakeModifierChecksum :: uint32
  bi_prevoutStake :: COutPoint
  bi_nStakeTime :: uint32
  bi_hashProofOfStake :: uint256
  bi_nVersion :: uint32
  bi_hashMerkleRoot :: uint256
  bi_nTime :: uint32
  bi_nBits :: uint32
  bi_nNonce :: uint32

type_synonym pindex = "CBlockIndex list"

definition BLOCK_PROOF_OF_STAKE :: uint32 where "BLOCK_PROOF_OF_STAKE = 1"
definition BLOCK_STAKE_ENTROPY :: uint32 where "BLOCK_STAKE_ENTROPY = 2"
definition BLOCK_STAKE_MODIFIER :: uint32 where "BLOCK_STAKE_MODIFIER = 4"

definition bi_IsProofOfStake :: "CBlockIndex \<Rightarrow> bool" where
  "bi_IsProofOfStake b \<longleftrightarrow> bi_nFlags b AND BLOCK_PROOF_OF_STAKE \<noteq> 0"

definition bi_SetProofOfStake :: "CBlockIndex \<Rightarrow> CBlockIndex" where
  "bi_SetProofOfStake b = b\<lparr>bi_nFlags := bi_nFlags b OR BLOCK_PROOF_OF_STAKE\<rparr>"

definition bi_GetStakeEntropyBit :: "CBlockIndex \<Rightarrow> uint32" where
  "bi_GetStakeEntropyBit b = drop_bit 1 (bi_nFlags b AND BLOCK_STAKE_ENTROPY)"

definition bi_SetStakeEntropyBit :: "CBlockIndex \<Rightarrow> uint32 \<Rightarrow> bool \<times> CBlockIndex" where
  "bi_SetStakeEntropyBit b nEntropyBit =
     (if nEntropyBit > 1 then (False, b)
      else (True, b\<lparr>bi_nFlags := bi_nFlags b OR (if nEntropyBit \<noteq> 0 then BLOCK_STAKE_ENTROPY else 0)\<rparr>))"

definition bi_GeneratedStakeModifier :: "CBlockIndex \<Rightarrow> bool" where
  "bi_GeneratedStakeModifier b \<longleftrightarrow> bi_nFlags b AND BLOCK_STAKE_MODIFIER \<noteq> 0"

definition bi_SetStakeModifier :: "CBlockIndex \<Rightarrow> uint64 \<Rightarrow> bool \<Rightarrow> CBlockIndex" where
  "bi_SetStakeModifier b nModifier fGenerated =
     (let b = b\<lparr>bi_nStakeModifier := nModifier\<rparr>
      in if fGenerated then b\<lparr>bi_nFlags := bi_nFlags b OR BLOCK_STAKE_MODIFIER\<rparr> else b)"

definition bi_GetBlockTime :: "CBlockIndex \<Rightarrow> int" where
  "bi_GetBlockTime b = uint (bi_nTime b)"

subsection \<open>Walks\<close>

fun GetLastBlockIndex :: "pindex \<Rightarrow> bool \<Rightarrow> pindex" where
  "GetLastBlockIndex [] fProofOfStake = []"
| "GetLastBlockIndex [b] fProofOfStake = [b]"
| "GetLastBlockIndex (b # b' # bs) fProofOfStake =
     (if bi_IsProofOfStake b \<noteq> fProofOfStake then GetLastBlockIndex (b' # bs) fProofOfStake
      else b # b' # bs)"

definition nMedianTimeSpan :: nat where "nMedianTimeSpan = 11"

definition GetMedianTimePast :: "pindex \<Rightarrow> int" where
  "GetMedianTimePast p =
     (let times = sort (map bi_GetBlockTime (take nMedianTimeSpan p)) in times ! (length times div 2))"

definition IsSuperMajority :: "int \<Rightarrow> pindex \<Rightarrow> nat \<Rightarrow> nat \<Rightarrow> bool" where
  "IsSuperMajority minVersion pstart nRequired nToCheck \<longleftrightarrow>
     nRequired \<le> length (List.filter (\<lambda>b. minVersion \<le> sint (bi_nVersion b)) (take nToCheck pstart))"

text \<open>
  The hashes of a block locator: one block at a time while there are at most ten, then in
  steps that double; the genesis hash ends the list.
\<close>

function locator_loop :: "nat \<Rightarrow> nat \<Rightarrow> pindex \<Rightarrow> uint256 list" where
  "locator_loop nHave nStep [] = []"
| "locator_loop nHave nStep (b # bs) =
     bi_hash b # locator_loop (nHave + 1) (if 10 < nHave + 1 then 2 * nStep else nStep)
                   (drop (max 1 nStep) (b # bs))"
  by pat_completeness auto
termination
  by (relation "measure (\<lambda>(h, s, p). length p)") auto

definition CBlockLocator_Set :: "uint256 \<Rightarrow> pindex \<Rightarrow> uint256 list" where
  "CBlockLocator_Set hashGenesis pindex = locator_loop 0 1 pindex @ [hashGenesis]"

text \<open>
  The fork of two branches (the first loop of \<open>Reorganize\<close>): the longer one steps back to
  the height of the other, then that one steps back. \<open>None\<close> where a \<open>pprev\<close> is null.
\<close>

fun step_back :: "pindex \<Rightarrow> int \<Rightarrow> pindex option" where
  "step_back [] h = None"
| "step_back (b # bs) h =
     (if h < bi_nHeight b then step_back bs h else Some (b # bs))"

lemma step_back_length: "step_back p h = Some q \<Longrightarrow> length q \<le> length p"
  by (induction p) (fastforce split: if_splits)+

function find_fork :: "pindex \<Rightarrow> pindex \<Rightarrow> pindex option" where
  "find_fork pfork plonger =
     (if pfork = plonger then Some pfork
      else case pfork of [] \<Rightarrow> None
         | f # fs \<Rightarrow>
             (case step_back plonger (bi_nHeight f) of None \<Rightarrow> None
              | Some plonger \<Rightarrow>
                  if pfork = plonger then Some pfork
                  else if fs = [] then None
                  else find_fork fs plonger))"
  by pat_completeness auto
termination
  by (relation "measure (\<lambda>(p, q). length p)") auto

declare find_fork.simps [simp del]

subsection \<open>Targets\<close>

definition bnProofOfWorkLimit :: int where
  "bnProofOfWorkLimit = (2 ^ 256 - 1) div 2 ^ 20"

definition bnProofOfStakeLimit :: int where
  "bnProofOfStakeLimit = (2 ^ 256 - 1) div 2 ^ 20"

definition nTargetTimespan :: int where "nTargetTimespan = 60 * 60"
definition nStakeTargetSpacing :: int where "nStakeTargetSpacing = 90"
definition nTargetSpacingWorkMax :: int where "nTargetSpacingWorkMax = 2 * nStakeTargetSpacing"

text \<open>\<open>ComputeMaxBits\<close>: the loop doubles the target once per day of \<open>nTime\<close> until the limit.\<close>

function max_bits_loop :: "int \<Rightarrow> int \<Rightarrow> int \<Rightarrow> int" where
  "max_bits_loop bnTargetLimit bnResult nTime =
     (if 0 < nTime \<and> bnResult < bnTargetLimit
      then max_bits_loop bnTargetLimit (bnResult * 2) (nTime - 24 * 60 * 60)
      else bnResult)"
  by pat_completeness auto
termination
  by (relation "measure (\<lambda>(l, r, t). nat t)") auto

declare max_bits_loop.simps [simp del]

definition ComputeMaxBits :: "openssl \<Rightarrow> int \<Rightarrow> uint32 \<Rightarrow> int \<Rightarrow> uint32" where
  "ComputeMaxBits E bnTargetLimit nBase nTime =
     (let bnResult = max_bits_loop bnTargetLimit (SetCompact nBase * 2) nTime;
          bnResult = (if bnTargetLimit < bnResult then bnTargetLimit else bnResult)
      in GetCompact E bnResult)"

definition ComputeMinWork :: "openssl \<Rightarrow> uint32 \<Rightarrow> int \<Rightarrow> uint32" where
  "ComputeMinWork E nBase nTime = ComputeMaxBits E bnProofOfWorkLimit nBase nTime"

definition ComputeMinStake :: "openssl \<Rightarrow> uint32 \<Rightarrow> int \<Rightarrow> uint32" where
  "ComputeMinStake E nBase nTime = ComputeMaxBits E bnProofOfStakeLimit nBase nTime"

definition clamp_spacing :: "int \<Rightarrow> int" where
  "clamp_spacing nActualSpacing =
     (if nActualSpacing < 0 then 1
      else if nTargetTimespan < nActualSpacing then nTargetTimespan
      else nActualSpacing)"

definition target_spacing :: "bool \<Rightarrow> int \<Rightarrow> int" where
  "target_spacing fProofOfStake nBlocks =
     (if fProofOfStake then nStakeTargetSpacing
      else min nTargetSpacingWorkMax (nStakeTargetSpacing * (1 + nBlocks)))"

text \<open>The new target before it is written in compact form; truncated division as in OpenSSL.\<close>

definition retarget :: "int \<Rightarrow> int \<Rightarrow> int \<Rightarrow> int \<Rightarrow> int" where
  "retarget bnOld nTargetSpacing nActualSpacing bnTargetLimit =
     (let nInterval = nTargetTimespan div nTargetSpacing;
          num = bnOld * ((nInterval - 1) * nTargetSpacing + nActualSpacing + nActualSpacing);
          bnNew = sgn num * (\<bar>num\<bar> div ((nInterval + 1) * nTargetSpacing))
      in if bnTargetLimit < bnNew then bnTargetLimit else bnNew)"

definition GetNextTargetRequired :: "openssl \<Rightarrow> pindex \<Rightarrow> bool \<Rightarrow> uint32" where
  "GetNextTargetRequired E pindexLast fProofOfStake =
     (let bnTargetLimit = (if fProofOfStake then bnProofOfStakeLimit else bnProofOfWorkLimit);
          pindexPrev = GetLastBlockIndex pindexLast fProofOfStake;
          pindexPrevPrev = GetLastBlockIndex (tl pindexPrev) fProofOfStake
      in if pindexLast = [] then GetCompact E bnTargetLimit
         else if tl pindexPrev = [] then GetCompact E bnTargetLimit
         else if tl pindexPrevPrev = [] then GetCompact E bnTargetLimit
         else let nActualSpacing = clamp_spacing
                    (bi_GetBlockTime (hd pindexPrev) - bi_GetBlockTime (hd pindexPrevPrev));
                  nTargetSpacing = target_spacing fProofOfStake
                    (bi_nHeight (hd pindexLast) - bi_nHeight (hd pindexPrev))
              in GetCompact E (retarget (SetCompact (bi_nBits (hd pindexPrev))) nTargetSpacing
                   nActualSpacing bnTargetLimit))"

definition CheckProofOfWork :: "openssl \<Rightarrow> uint256 \<Rightarrow> uint32 \<Rightarrow> bool" where
  "CheckProofOfWork E hash nBits =
     (let bnTarget = SetCompact nBits
      in if bnTarget \<le> 0 \<or> bnProofOfWorkLimit < bnTarget then False
         else \<not> getuint256 E bnTarget < hash)"

definition GetBlockTrust :: "CBlockIndex \<Rightarrow> int" where
  "GetBlockTrust b =
     (let bnTarget = SetCompact (bi_nBits b)
      in if bnTarget \<le> 0 then 0
         else if bi_IsProofOfStake b then 2 ^ 256 div (bnTarget + 1)
         else let bnPoWTrust = bnProofOfWorkLimit div (bnTarget + 1)
              in if 1 < bnPoWTrust then bnPoWTrust else 1)"

subsection \<open>Rewards\<close>

text \<open>The arithmetic is that of \<open>int64\<close>; division truncates.\<close>

definition MAX_MINT_PROOF_OF_STAKE :: int where "MAX_MINT_PROOF_OF_STAKE = 2 * COIN"
definition MAX_MINT_PROOF_OF_STAKEV2 :: int where "MAX_MINT_PROOF_OF_STAKEV2 = 75 * COIN div 10"
definition FORK_TIME :: int where "FORK_TIME = 1404678625"
definition FORK_TIME2 :: int where "FORK_TIME2 = 1423836000"
definition POW_CUTOFF_HEIGHT :: int where "POW_CUTOFF_HEIGHT = 21000"

definition GetClockDrift :: "int \<Rightarrow> int" where
  "GetClockDrift nTime = (if nTime < FORK_TIME2 then 15 * 60 else 60)"

definition int64_quot :: "int64 \<Rightarrow> int \<Rightarrow> int64" where
  "int64_quot a b = word_of_int (sgn (sint a) * (\<bar>sint a\<bar> div b))"

definition GetProofOfWorkReward :: "bool \<Rightarrow> int \<Rightarrow> int64 \<Rightarrow> int64" where
  "GetProofOfWorkReward fTestNet nHeight nFees =
     (if fTestNet
      then (if nHeight = 1 then word_of_int (50000000 * COIN) else word_of_int (1000 * COIN)) + nFees
      else if nHeight = 1 then word_of_int (120000 * COIN) + nFees
      else word_of_int (500 * COIN) + nFees)"

definition GetProofOfStakeRewardV1 :: "int64 \<Rightarrow> int64" where
  "GetProofOfStakeRewardV1 nCoinAge =
     int64_quot (nCoinAge * word_of_int MAX_MINT_PROOF_OF_STAKE) 365"

definition GetProofOfStakeRewardV2 :: "int64 \<Rightarrow> int64" where
  "GetProofOfStakeRewardV2 nCoinAge =
     (let nSubsidyLimit = word_of_int (1000 * COIN) :: int64;
          nSubsidy = int64_quot (nCoinAge * word_of_int MAX_MINT_PROOF_OF_STAKEV2) 365
      in if sint nSubsidyLimit < sint nSubsidy then nSubsidyLimit else nSubsidy)"

definition GetProofOfStakeReward :: "int64 \<Rightarrow> uint32 \<Rightarrow> int64" where
  "GetProofOfStakeReward nCoinAge nTime =
     (if FORK_TIME < uint nTime then GetProofOfStakeRewardV2 nCoinAge
      else GetProofOfStakeRewardV1 nCoinAge)"

end
