(* ===== verification/Target_Rules.thy ===== *)
theory Target_Rules
  imports Block_Index
begin

text \<open>
  Facts about the block index: targets, the fork of two branches, the median time and the
  stake reward.
\<close>

subsection \<open>Targets stay in range\<close>

lemma limit_pos: "0 < bnProofOfWorkLimit" "0 < bnProofOfStakeLimit"
  "bnProofOfWorkLimit < 2 ^ 256" "bnProofOfStakeLimit < 2 ^ 256"
  by (simp_all add: bnProofOfWorkLimit_def bnProofOfStakeLimit_def)

text \<open>A block hash passes the proof-of-work check exactly when the target that \<open>nBits\<close>
  stands for is positive, within the network's limit, and not below the hash.\<close>

theorem CheckProofOfWork_iff:
  assumes "bn_documented E"
  shows "CheckProofOfWork E hash nBits \<longleftrightarrow>
    0 < SetCompact nBits \<and> SetCompact nBits \<le> bnProofOfWorkLimit \<and> uint hash \<le> SetCompact nBits"
proof (cases "0 < SetCompact nBits \<and> SetCompact nBits \<le> bnProofOfWorkLimit")
  case True
  then have b: "0 \<le> SetCompact nBits" "SetCompact nBits < 2 ^ 256" using limit_pos(3) by linarith+
  then have "uint (getuint256 E (SetCompact nBits)) = SetCompact nBits"
    by (simp add: getuint256_value [OF assms] of_nat_nat uint_word_of_int)
  then show ?thesis using True by (auto simp: CheckProofOfWork_def Let_def not_less word_le_def)
qed (auto simp: CheckProofOfWork_def Let_def)

lemma target_spacing_bounds: "0 \<le> n \<Longrightarrow> 90 \<le> target_spacing f n \<and> target_spacing f n \<le> 180"
  by (auto simp: target_spacing_def nStakeTargetSpacing_def nTargetSpacingWorkMax_def min_def)

lemma clamp_spacing_bounds: "0 \<le> clamp_spacing s \<and> clamp_spacing s \<le> 3600"
  by (auto simp: clamp_spacing_def nTargetTimespan_def)

lemma retarget_bounds:
  assumes "0 \<le> old" "90 \<le> ts" "ts \<le> 180" "0 \<le> sp" "sp \<le> 3600" "0 < limit"
  shows "0 \<le> retarget old ts sp limit \<and> retarget old ts sp limit \<le> limit \<and> retarget old ts sp limit \<le> 3 * old"
proof -
  define n where "n = 3600 div ts"
  define f where "f = (n - 1) * ts + sp + sp"
  define d where "d = (n + 1) * ts"
  have "n * ts + 3600 mod ts = 3600" and "3600 mod ts < ts" and "0 \<le> 3600 mod ts"
    using assms(2) by (simp_all add: n_def)
  then have n: "3600 < d" "n * ts \<le> 3600" by (simp_all add: d_def algebra_simps)
  have "180 div ts \<le> n" unfolding n_def using assms(2) by (intro zdiv_mono1) auto
  moreover have "0 < 180 div ts" using assms(2,3) by (simp add: pos_imp_zdiv_pos_iff)
  ultimately have "1 \<le> n" by linarith
  then have "0 \<le> (n - 1) * ts" using assms(2) by simp
  then have f: "0 \<le> f" using assms(4) by (simp add: f_def)
  have "f \<le> 3 * d"
    using n(1) assms(2,5) by (simp add: f_def d_def algebra_simps)
  then have "old * f \<le> old * (3 * d)" using assms(1) by (rule mult_left_mono)
  then have "old * f div d \<le> (3 * old * d) div d"
    using n(1) by (intro zdiv_mono1) (auto simp: algebra_simps)
  then have q: "old * f div d \<le> 3 * old" using n(1) by simp
  have p: "0 \<le> old * f" using assms(1) f by simp
  then have "sgn (old * f) * (\<bar>old * f\<bar> div d) = old * f div d"
    by (cases "old * f = 0") (auto simp: sgn_if)
  moreover have "0 \<le> old * f div d" using p n(1) by (simp add: pos_imp_zdiv_nonneg_iff)
  moreover have "retarget old ts sp limit =
      (let q = sgn (old * f) * (\<bar>old * f\<bar> div d) in if limit < q then limit else q)"
    by (simp only: retarget_def nTargetTimespan_def Let_def n_def f_def d_def) simp
  ultimately show ?thesis
    using q assms(1,6) by (simp add: Let_def)
qed

text \<open>Heights along a chain: each entry is one above its predecessor.\<close>

fun chain_heights :: "pindex \<Rightarrow> bool" where
  "chain_heights [] = True"
| "chain_heights [b] = (bi_nHeight b = 0)"
| "chain_heights (b # b' # bs) = (bi_nHeight b = bi_nHeight b' + 1 \<and> chain_heights (b' # bs))"

lemma chain_heights_hd: "chain_heights p \<Longrightarrow> p \<noteq> [] \<Longrightarrow> bi_nHeight (hd p) = int (length p) - 1"
  by (induction p rule: chain_heights.induct) auto

lemma chain_heights_tl: "chain_heights (b # bs) \<Longrightarrow> chain_heights bs"
  by (cases bs) auto

lemma GetLastBlockIndex_drop: "\<exists>k. GetLastBlockIndex p f = drop k p"
proof (induction p f rule: GetLastBlockIndex.induct)
  case (3 b b' bs f)
  show ?case
  proof (cases "bi_IsProofOfStake b \<noteq> f")
    case True
    then obtain k where "GetLastBlockIndex (b' # bs) f = drop k (b' # bs)" using 3 by blast
    then show ?thesis using True by (intro exI [of _ "Suc k"]) simp
  next
    case False
    then show ?thesis by (intro exI [of _ 0]) simp
  qed
qed (auto intro: exI [of _ 0])

lemma chain_heights_drop: "chain_heights p \<Longrightarrow> chain_heights (drop k p)"
proof (induction k arbitrary: p)
  case (Suc k)
  then show ?case by (cases p) (auto dest: chain_heights_tl)
qed simp

text \<open>C24: The target required of the next block is never negative, never above the network's
  limit and, when it is adjusted, at most three times the target of the block it starts
  from; writing it in compact form only rounds it down.\<close>

theorem GetNextTargetRequired_bounds:
  assumes "bn_documented E" and "chain_heights p"
    and "0 \<le> SetCompact (bi_nBits (hd (GetLastBlockIndex p f)))"
  defines "t \<equiv> SetCompact (GetNextTargetRequired E p f)"
  shows "0 \<le> t \<and> t \<le> (if f then bnProofOfStakeLimit else bnProofOfWorkLimit) \<and>
    (tl (GetLastBlockIndex p f) \<noteq> [] \<and> tl (GetLastBlockIndex (tl (GetLastBlockIndex p f)) f) \<noteq> [] \<longrightarrow>
      t \<le> 3 * SetCompact (bi_nBits (hd (GetLastBlockIndex p f))))"
proof -
  define limit where "limit = (if f then bnProofOfStakeLimit else bnProofOfWorkLimit)"
  have lim: "0 < limit" "limit < 2 ^ 256" using limit_pos by (simp_all add: limit_def)
  have compact: "0 \<le> SetCompact (GetCompact E n) \<and> SetCompact (GetCompact E n) \<le> n"
    if "0 \<le> n" "n \<le> limit" for n
    using SetCompact_GetCompact [OF assms(1) that(1)] that lim(2)
    by (simp add: truncated_def nat_le_iff)
  obtain k where k: "GetLastBlockIndex p f = drop k p" using GetLastBlockIndex_drop by blast
  have diff: "0 \<le> bi_nHeight (hd p) - bi_nHeight (hd (GetLastBlockIndex p f))"
    if "tl (GetLastBlockIndex p f) \<noteq> []"
    using that chain_heights_hd [OF assms(2)] chain_heights_hd [OF chain_heights_drop [OF assms(2)], of k]
    by (cases "drop k p = []"; cases "p = []") (auto simp: k)
  define old where "old = SetCompact (bi_nBits (hd (GetLastBlockIndex p f)))"
  define ts where "ts = target_spacing f (bi_nHeight (hd p) - bi_nHeight (hd (GetLastBlockIndex p f)))"
  have re: "0 \<le> retarget old ts (clamp_spacing s) limit \<and> retarget old ts (clamp_spacing s) limit \<le> limit
      \<and> retarget old ts (clamp_spacing s) limit \<le> 3 * old" if "tl (GetLastBlockIndex p f) \<noteq> []" for s
    using assms(3) diff [OF that] target_spacing_bounds clamp_spacing_bounds lim(1)
    by (intro retarget_bounds) (auto simp: old_def ts_def)
  show ?thesis
    using compact [OF order_less_imp_le [OF lim(1)] order_refl] re compact
    unfolding t_def GetNextTargetRequired_def Let_def limit_def [symmetric] old_def [symmetric] ts_def [symmetric]
    by (auto intro: order_trans)
qed

subsection \<open>The fork of two branches\<close>

definition suffix_of :: "pindex \<Rightarrow> pindex \<Rightarrow> bool" where
  "suffix_of s p \<longleftrightarrow> (\<exists>d. p = d @ s)"

lemma suffix_of_refl [simp]: "suffix_of p p"
  by (simp add: suffix_of_def)

lemma suffix_of_Cons: "suffix_of s (b # p) \<longleftrightarrow> s = b # p \<or> suffix_of s p"
  unfolding suffix_of_def by (metis append_Cons append_Nil list.exhaust list.inject)

lemma suffix_of_length: "suffix_of s p \<Longrightarrow> length s \<le> length p"
  by (auto simp: suffix_of_def)

lemma suffix_of_trans: "suffix_of a b \<Longrightarrow> suffix_of b c \<Longrightarrow> suffix_of a c"
  by (auto simp: suffix_of_def)

lemma suffix_of_same_length: "suffix_of s p \<Longrightarrow> length s = length p \<Longrightarrow> s = p"
  by (auto simp: suffix_of_def)

text \<open>Stepping back to a height keeps every shorter suffix.\<close>

lemma step_back_chain:
  assumes "chain_heights q" "0 \<le> h" "q \<noteq> []"
  shows "\<exists>r. step_back q h = Some r \<and> suffix_of r q \<and> int (length r) = min (int (length q)) (h + 1) \<and>
    (\<forall>s. suffix_of s q \<longrightarrow> int (length s) \<le> h + 1 \<longrightarrow> suffix_of s r)"
  using assms
proof (induction q)
  case (Cons b bs)
  have hb: "bi_nHeight b = int (length bs)" using chain_heights_hd [OF Cons.prems(1)] by simp
  show ?case
  proof (cases "h < bi_nHeight b")
    case True
    then have "bs \<noteq> []" using hb Cons.prems(2) by auto
    with Cons.IH [OF chain_heights_tl [OF Cons.prems(1)] Cons.prems(2)] obtain r where
      r: "step_back bs h = Some r" "suffix_of r bs" "int (length r) = min (int (length bs)) (h + 1)"
        "\<forall>s. suffix_of s bs \<longrightarrow> int (length s) \<le> h + 1 \<longrightarrow> suffix_of s r" by blast
    then show ?thesis using True hb by (auto simp: suffix_of_Cons)
  next
    case False
    then show ?thesis using hb by auto
  qed
qed simp

lemma find_fork_chain:
  assumes "chain_heights p" "chain_heights q" "suffix_of [g] p" "suffix_of [g] q"
  shows "\<exists>f. find_fork p q = Some f \<and> suffix_of f p \<and> suffix_of f q \<and>
    (\<forall>s. suffix_of s p \<longrightarrow> suffix_of s q \<longrightarrow> suffix_of s f)"
  using assms
proof (induction p arbitrary: q)
  case Nil
  then show ?case by (simp add: suffix_of_def)
next
  case (Cons b bs)
  show ?case
  proof (cases "b # bs = q")
    case True
    then show ?thesis by (auto simp: find_fork.simps)
  next
    case False
    have hb: "bi_nHeight b = int (length bs)" using chain_heights_hd [OF Cons.prems(1)] by simp
    have "q \<noteq> []" using Cons.prems(4) by (auto simp: suffix_of_def)
    with step_back_chain [OF Cons.prems(2), of "int (length bs)"] obtain r where
      r: "step_back q (bi_nHeight b) = Some r" "suffix_of r q"
        "int (length r) = min (int (length q)) (int (length bs) + 1)"
        "\<And>s. suffix_of s q \<Longrightarrow> length s \<le> length bs + 1 \<Longrightarrow> suffix_of s r"
      unfolding hb by force
    show ?thesis
    proof (cases "b # bs = r")
      case True
      with r(1) have "step_back q (bi_nHeight b) = Some (b # bs)" by simp
      with False have "find_fork (b # bs) q = Some (b # bs)"
        by (simp add: find_fork.simps [of "b # bs"])
      then show ?thesis using True r(2) by auto
    next
      case ne: False
      have "suffix_of [g] bs"
      proof (rule ccontr)
        assume "\<not> suffix_of [g] bs"
        with Cons.prems(3) have bg: "b = g" "bs = []" by (auto simp: suffix_of_Cons)
        then have "length r = 1" using r(3) \<open>q \<noteq> []\<close> by (cases q) auto
        moreover have "suffix_of [g] r" using Cons.prems(4) r(4) by simp
        ultimately have "r = [g]" by (metis length_Cons list.size(3) One_nat_def suffix_of_same_length)
        with ne bg show False by simp
      qed
      then have bs: "bs \<noteq> []" by (auto simp: suffix_of_def)
      have chr: "chain_heights r"
        using Cons.prems(2) r(2) chain_heights_drop by (auto simp: suffix_of_def) (metis append_eq_conv_conj)
      have gr: "suffix_of [g] r" using Cons.prems(4) r(4) by simp
      from Cons.IH [OF chain_heights_tl [OF Cons.prems(1)] chr \<open>suffix_of [g] bs\<close> gr] obtain f where
        f: "find_fork bs r = Some f" "suffix_of f bs" "suffix_of f r"
          "\<And>s. suffix_of s bs \<Longrightarrow> suffix_of s r \<Longrightarrow> suffix_of s f" by blast
      have "find_fork (b # bs) q = Some f"
        using False r(1) ne bs f(1) by (simp add: find_fork.simps [of "b # bs"])
      moreover have "suffix_of s f" if "suffix_of s (b # bs)" "suffix_of s q" for s
      proof -
        have sr: "suffix_of s r" using that r(4) suffix_of_length by force
        have "s \<noteq> b # bs"
        proof
          assume "s = b # bs"
          moreover have "length r \<le> length (b # bs)" using r(3) by simp
          ultimately have "s = r"
            using sr suffix_of_length [OF sr] by (intro suffix_of_same_length) simp_all
          with \<open>s = b # bs\<close> ne show False by simp
        qed
        then show ?thesis using that(1) sr f(4) by (simp add: suffix_of_Cons)
      qed
      ultimately show ?thesis
        using f(2,3) r(2) suffix_of_trans by (auto simp: suffix_of_Cons)
    qed
  qed
qed

text \<open>For two branches that grew from the same first block, the search of \<open>Reorganize\<close>
  succeeds and stops at their fork: a common part of both that contains every other.\<close>

theorem find_fork_is_fork:
  assumes "chain_heights p" "chain_heights q" "suffix_of [g] p" "suffix_of [g] q"
  shows "\<exists>f. find_fork p q = Some f \<and> suffix_of f p \<and> suffix_of f q \<and>
    (\<forall>s. suffix_of s p \<longrightarrow> suffix_of s q \<longrightarrow> suffix_of s f)"
  using find_fork_chain [OF assms] .

subsection \<open>Median time and rewards\<close>

lemma sorted_nth_half:
  assumes "sorted xs" "xs \<noteq> []"
  shows "length xs \<le> 2 * length (List.filter (\<lambda>x. x \<le> xs ! (length xs div 2)) xs)"
    and "length xs \<le> 2 * length (List.filter (\<lambda>x. xs ! (length xs div 2) \<le> x) xs)"
proof -
  let ?n = "length xs div 2"
  have n: "?n < length xs" using assms(2) by (cases xs) auto
  have split: "xs = take ?n xs @ xs ! ?n # drop (Suc ?n) xs" using n by (simp add: id_take_nth_drop)
  have s: "sorted (take ?n xs @ xs ! ?n # drop (Suc ?n) xs)" using assms(1) split by simp
  have "List.filter (\<lambda>x. x \<le> xs ! ?n) (take (Suc ?n) xs) = take (Suc ?n) xs"
    using s n by (intro filter_True) (auto simp: take_Suc_conv_app_nth sorted_append)
  moreover have "xs = take (Suc ?n) xs @ drop (Suc ?n) xs" by simp
  ultimately have "length (take (Suc ?n) xs) \<le> length (List.filter (\<lambda>x. x \<le> xs ! ?n) xs)"
    by (metis filter_append length_append le_add1)
  then show "length xs \<le> 2 * length (List.filter (\<lambda>x. x \<le> xs ! ?n) xs)" using n by simp
  have "List.filter (\<lambda>x. xs ! ?n \<le> x) (drop ?n xs) = drop ?n xs"
    using s n by (intro filter_True) (auto simp: sorted_append simp flip: Cons_nth_drop_Suc)
  moreover have "xs = take ?n xs @ drop ?n xs" by simp
  ultimately have "length (drop ?n xs) \<le> length (List.filter (\<lambda>x. xs ! ?n \<le> x) xs)"
    by (metis filter_append length_append le_add2)
  then show "length xs \<le> 2 * length (List.filter (\<lambda>x. xs ! ?n \<le> x) xs)" by simp
qed

lemma length_filter_sort: "length (List.filter P (sort xs)) = length (List.filter P xs)"
  by (simp add: filter_sort)

text \<open>The median time is the time of one of the last eleven blocks, and at least half of
  these blocks are not later, at least half not earlier.\<close>

theorem GetMedianTimePast_median:
  assumes "p \<noteq> []"
  shows "let ts = map bi_GetBlockTime (take 11 p); m = GetMedianTimePast p
    in m \<in> set ts \<and> length ts \<le> 2 * length (List.filter (\<lambda>t. t \<le> m) ts) \<and>
      length ts \<le> 2 * length (List.filter (\<lambda>t. m \<le> t) ts)"
proof -
  define ts where "ts = map bi_GetBlockTime (take 11 p)"
  have ne: "ts \<noteq> []" using assms(1) by (simp add: ts_def)
  then have ne': "sort ts \<noteq> []" by (metis length_0_conv length_sort)
  have m: "GetMedianTimePast p = sort ts ! (length ts div 2)"
    by (simp add: GetMedianTimePast_def nMedianTimeSpan_def ts_def Let_def)
  have "length ts div 2 < length (sort ts)" using ne by (cases ts) auto
  then have "GetMedianTimePast p \<in> set (sort ts)" unfolding m by (rule nth_mem)
  then show ?thesis
    using sorted_nth_half [OF sorted_sort ne'] unfolding ts_def [symmetric]
    by (simp add: m length_filter_sort Let_def)
qed

text \<open>The stake reward is never above 1000 coins after the fork, and for any coin age
  below \<open>2 ^ 40\<close> it is the rate times the age, computed without wrap-around.\<close>

theorem GetProofOfStakeReward_value:
  assumes "0 \<le> sint age" "sint age < 2 ^ 40"
  shows "sint (GetProofOfStakeReward age t) =
    (if FORK_TIME < uint t then min (1000 * COIN) (sint age * 7500000 div 365)
     else sint age * 2000000 div 365)"
proof -
  have quot: "sint (int64_quot (age * word_of_int k) 365) = sint age * k div 365"
    if "0 \<le> k" "k < 2 ^ 23" for k
  proof -
    have b: "0 \<le> sint age * k" using that assms by simp
    have "sint age * k < 2 ^ 63"
      using mult_strict_mono [of "sint age" "2 ^ 40" k "2 ^ 23"] that assms by simp
    with b have "sint (word_of_int (sint age * k) :: int64) = sint age * k"
      by (intro sint64_of_int) auto
    then have m: "sint (age * word_of_int k) = sint age * k" by simp
    have q: "0 \<le> sint age * k div 365" "sint age * k div 365 < 2 ^ 63"
      using b \<open>sint age * k < 2 ^ 63\<close> by (simp_all add: pos_imp_zdiv_nonneg_iff)
    have "sgn (sint age * k) * (\<bar>sint age * k\<bar> div 365) = sint age * k div 365"
      using b by (cases "sint age * k = 0") (auto simp: sgn_if)
    then show ?thesis
      using q by (simp only: int64_quot_def m) (rule sint64_of_int; simp)
  qed
  have lim: "sint (word_of_int (1000 * COIN) :: int64) = 1000 * COIN"
    by (rule sint64_of_int) (simp_all add: COIN_def)
  show ?thesis
    using quot [of 7500000] quot [of 2000000] lim
    by (simp add: GetProofOfStakeReward_def GetProofOfStakeRewardV1_def GetProofOfStakeRewardV2_def
        MAX_MINT_PROOF_OF_STAKE_def MAX_MINT_PROOF_OF_STAKEV2_def Let_def min_def COIN_def)
qed

end
