(* ===== verification/Script_Base.thy ===== *)
theory Script_Base
  imports Transaction
begin

text \<open>
  Scripts (\<open>src/script.h\<close> and the methods of \<open>CScript\<close> in \<open>src/script.cpp\<close>): the opcodes,
  building a script with \<open>operator<<\<close>, reading instructions with \<open>GetOp2\<close>, deleting a
  pattern, recognising push-only and pay-to-script-hash scripts, counting signature checks.
  A script is its byte vector; an iterator into it is the list of the bytes from it to the
  end. \<open>opcodetype\<close> is an enumeration whose variables hold any byte, so it is a \<open>nat\<close>.
\<close>

subsection \<open>Opcodes\<close>

definition OP_0 :: nat where "OP_0 = 0x00"
definition OP_FALSE :: nat where "OP_FALSE = OP_0"
definition OP_PUSHDATA1 :: nat where "OP_PUSHDATA1 = 0x4c"
definition OP_PUSHDATA2 :: nat where "OP_PUSHDATA2 = 0x4d"
definition OP_PUSHDATA4 :: nat where "OP_PUSHDATA4 = 0x4e"
definition OP_1NEGATE :: nat where "OP_1NEGATE = 0x4f"
definition OP_RESERVED :: nat where "OP_RESERVED = 0x50"
definition OP_1 :: nat where "OP_1 = 0x51"
definition OP_TRUE :: nat where "OP_TRUE = OP_1"
definition OP_2 :: nat where "OP_2 = 0x52"
definition OP_3 :: nat where "OP_3 = 0x53"
definition OP_4 :: nat where "OP_4 = 0x54"
definition OP_5 :: nat where "OP_5 = 0x55"
definition OP_6 :: nat where "OP_6 = 0x56"
definition OP_7 :: nat where "OP_7 = 0x57"
definition OP_8 :: nat where "OP_8 = 0x58"
definition OP_9 :: nat where "OP_9 = 0x59"
definition OP_10 :: nat where "OP_10 = 0x5a"
definition OP_11 :: nat where "OP_11 = 0x5b"
definition OP_12 :: nat where "OP_12 = 0x5c"
definition OP_13 :: nat where "OP_13 = 0x5d"
definition OP_14 :: nat where "OP_14 = 0x5e"
definition OP_15 :: nat where "OP_15 = 0x5f"
definition OP_16 :: nat where "OP_16 = 0x60"
definition OP_NOP :: nat where "OP_NOP = 0x61"
definition OP_VER :: nat where "OP_VER = 0x62"
definition OP_IF :: nat where "OP_IF = 0x63"
definition OP_NOTIF :: nat where "OP_NOTIF = 0x64"
definition OP_VERIF :: nat where "OP_VERIF = 0x65"
definition OP_VERNOTIF :: nat where "OP_VERNOTIF = 0x66"
definition OP_ELSE :: nat where "OP_ELSE = 0x67"
definition OP_ENDIF :: nat where "OP_ENDIF = 0x68"
definition OP_VERIFY :: nat where "OP_VERIFY = 0x69"
definition OP_RETURN :: nat where "OP_RETURN = 0x6a"
definition OP_TOALTSTACK :: nat where "OP_TOALTSTACK = 0x6b"
definition OP_FROMALTSTACK :: nat where "OP_FROMALTSTACK = 0x6c"
definition OP_2DROP :: nat where "OP_2DROP = 0x6d"
definition OP_2DUP :: nat where "OP_2DUP = 0x6e"
definition OP_3DUP :: nat where "OP_3DUP = 0x6f"
definition OP_2OVER :: nat where "OP_2OVER = 0x70"
definition OP_2ROT :: nat where "OP_2ROT = 0x71"
definition OP_2SWAP :: nat where "OP_2SWAP = 0x72"
definition OP_IFDUP :: nat where "OP_IFDUP = 0x73"
definition OP_DEPTH :: nat where "OP_DEPTH = 0x74"
definition OP_DROP :: nat where "OP_DROP = 0x75"
definition OP_DUP :: nat where "OP_DUP = 0x76"
definition OP_NIP :: nat where "OP_NIP = 0x77"
definition OP_OVER :: nat where "OP_OVER = 0x78"
definition OP_PICK :: nat where "OP_PICK = 0x79"
definition OP_ROLL :: nat where "OP_ROLL = 0x7a"
definition OP_ROT :: nat where "OP_ROT = 0x7b"
definition OP_SWAP :: nat where "OP_SWAP = 0x7c"
definition OP_TUCK :: nat where "OP_TUCK = 0x7d"
definition OP_CAT :: nat where "OP_CAT = 0x7e"
definition OP_SUBSTR :: nat where "OP_SUBSTR = 0x7f"
definition OP_LEFT :: nat where "OP_LEFT = 0x80"
definition OP_RIGHT :: nat where "OP_RIGHT = 0x81"
definition OP_SIZE :: nat where "OP_SIZE = 0x82"
definition OP_INVERT :: nat where "OP_INVERT = 0x83"
definition OP_AND :: nat where "OP_AND = 0x84"
definition OP_OR :: nat where "OP_OR = 0x85"
definition OP_XOR :: nat where "OP_XOR = 0x86"
definition OP_EQUAL :: nat where "OP_EQUAL = 0x87"
definition OP_EQUALVERIFY :: nat where "OP_EQUALVERIFY = 0x88"
definition OP_RESERVED1 :: nat where "OP_RESERVED1 = 0x89"
definition OP_RESERVED2 :: nat where "OP_RESERVED2 = 0x8a"
definition OP_1ADD :: nat where "OP_1ADD = 0x8b"
definition OP_1SUB :: nat where "OP_1SUB = 0x8c"
definition OP_2MUL :: nat where "OP_2MUL = 0x8d"
definition OP_2DIV :: nat where "OP_2DIV = 0x8e"
definition OP_NEGATE :: nat where "OP_NEGATE = 0x8f"
definition OP_ABS :: nat where "OP_ABS = 0x90"
definition OP_NOT :: nat where "OP_NOT = 0x91"
definition OP_0NOTEQUAL :: nat where "OP_0NOTEQUAL = 0x92"
definition OP_ADD :: nat where "OP_ADD = 0x93"
definition OP_SUB :: nat where "OP_SUB = 0x94"
definition OP_MUL :: nat where "OP_MUL = 0x95"
definition OP_DIV :: nat where "OP_DIV = 0x96"
definition OP_MOD :: nat where "OP_MOD = 0x97"
definition OP_LSHIFT :: nat where "OP_LSHIFT = 0x98"
definition OP_RSHIFT :: nat where "OP_RSHIFT = 0x99"
definition OP_BOOLAND :: nat where "OP_BOOLAND = 0x9a"
definition OP_BOOLOR :: nat where "OP_BOOLOR = 0x9b"
definition OP_NUMEQUAL :: nat where "OP_NUMEQUAL = 0x9c"
definition OP_NUMEQUALVERIFY :: nat where "OP_NUMEQUALVERIFY = 0x9d"
definition OP_NUMNOTEQUAL :: nat where "OP_NUMNOTEQUAL = 0x9e"
definition OP_LESSTHAN :: nat where "OP_LESSTHAN = 0x9f"
definition OP_GREATERTHAN :: nat where "OP_GREATERTHAN = 0xa0"
definition OP_LESSTHANOREQUAL :: nat where "OP_LESSTHANOREQUAL = 0xa1"
definition OP_GREATERTHANOREQUAL :: nat where "OP_GREATERTHANOREQUAL = 0xa2"
definition OP_MIN :: nat where "OP_MIN = 0xa3"
definition OP_MAX :: nat where "OP_MAX = 0xa4"
definition OP_WITHIN :: nat where "OP_WITHIN = 0xa5"
definition OP_RIPEMD160 :: nat where "OP_RIPEMD160 = 0xa6"
definition OP_SHA1 :: nat where "OP_SHA1 = 0xa7"
definition OP_SHA256 :: nat where "OP_SHA256 = 0xa8"
definition OP_HASH160 :: nat where "OP_HASH160 = 0xa9"
definition OP_HASH256 :: nat where "OP_HASH256 = 0xaa"
definition OP_CODESEPARATOR :: nat where "OP_CODESEPARATOR = 0xab"
definition OP_CHECKSIG :: nat where "OP_CHECKSIG = 0xac"
definition OP_CHECKSIGVERIFY :: nat where "OP_CHECKSIGVERIFY = 0xad"
definition OP_CHECKMULTISIG :: nat where "OP_CHECKMULTISIG = 0xae"
definition OP_CHECKMULTISIGVERIFY :: nat where "OP_CHECKMULTISIGVERIFY = 0xaf"
definition OP_NOP1 :: nat where "OP_NOP1 = 0xb0"
definition OP_NOP2 :: nat where "OP_NOP2 = 0xb1"
definition OP_NOP3 :: nat where "OP_NOP3 = 0xb2"
definition OP_NOP4 :: nat where "OP_NOP4 = 0xb3"
definition OP_NOP5 :: nat where "OP_NOP5 = 0xb4"
definition OP_NOP6 :: nat where "OP_NOP6 = 0xb5"
definition OP_NOP7 :: nat where "OP_NOP7 = 0xb6"
definition OP_NOP8 :: nat where "OP_NOP8 = 0xb7"
definition OP_NOP9 :: nat where "OP_NOP9 = 0xb8"
definition OP_NOP10 :: nat where "OP_NOP10 = 0xb9"
definition OP_SMALLINTEGER :: nat where "OP_SMALLINTEGER = 0xfa"
definition OP_PUBKEYS :: nat where "OP_PUBKEYS = 0xfb"
definition OP_PUBKEYHASH :: nat where "OP_PUBKEYHASH = 0xfd"
definition OP_PUBKEY :: nat where "OP_PUBKEY = 0xfe"
definition OP_INVALIDOPCODE :: nat where "OP_INVALIDOPCODE = 0xff"

lemmas opcode_defs =
  OP_0_def OP_FALSE_def OP_PUSHDATA1_def OP_PUSHDATA2_def OP_PUSHDATA4_def
  OP_1NEGATE_def OP_RESERVED_def OP_1_def OP_TRUE_def OP_2_def
  OP_3_def OP_4_def OP_5_def OP_6_def OP_7_def
  OP_8_def OP_9_def OP_10_def OP_11_def OP_12_def
  OP_13_def OP_14_def OP_15_def OP_16_def OP_NOP_def
  OP_VER_def OP_IF_def OP_NOTIF_def OP_VERIF_def OP_VERNOTIF_def
  OP_ELSE_def OP_ENDIF_def OP_VERIFY_def OP_RETURN_def OP_TOALTSTACK_def
  OP_FROMALTSTACK_def OP_2DROP_def OP_2DUP_def OP_3DUP_def OP_2OVER_def
  OP_2ROT_def OP_2SWAP_def OP_IFDUP_def OP_DEPTH_def OP_DROP_def
  OP_DUP_def OP_NIP_def OP_OVER_def OP_PICK_def OP_ROLL_def
  OP_ROT_def OP_SWAP_def OP_TUCK_def OP_CAT_def OP_SUBSTR_def
  OP_LEFT_def OP_RIGHT_def OP_SIZE_def OP_INVERT_def OP_AND_def
  OP_OR_def OP_XOR_def OP_EQUAL_def OP_EQUALVERIFY_def OP_RESERVED1_def
  OP_RESERVED2_def OP_1ADD_def OP_1SUB_def OP_2MUL_def OP_2DIV_def
  OP_NEGATE_def OP_ABS_def OP_NOT_def OP_0NOTEQUAL_def OP_ADD_def
  OP_SUB_def OP_MUL_def OP_DIV_def OP_MOD_def OP_LSHIFT_def
  OP_RSHIFT_def OP_BOOLAND_def OP_BOOLOR_def OP_NUMEQUAL_def OP_NUMEQUALVERIFY_def
  OP_NUMNOTEQUAL_def OP_LESSTHAN_def OP_GREATERTHAN_def OP_LESSTHANOREQUAL_def OP_GREATERTHANOREQUAL_def
  OP_MIN_def OP_MAX_def OP_WITHIN_def OP_RIPEMD160_def OP_SHA1_def
  OP_SHA256_def OP_HASH160_def OP_HASH256_def OP_CODESEPARATOR_def OP_CHECKSIG_def
  OP_CHECKSIGVERIFY_def OP_CHECKMULTISIG_def OP_CHECKMULTISIGVERIFY_def OP_NOP1_def OP_NOP2_def
  OP_NOP3_def OP_NOP4_def OP_NOP5_def OP_NOP6_def OP_NOP7_def
  OP_NOP8_def OP_NOP9_def OP_NOP10_def OP_SMALLINTEGER_def OP_PUBKEYS_def
  OP_PUBKEYHASH_def OP_PUBKEY_def OP_INVALIDOPCODE_def

definition op_names :: "(nat \<times> string) list" where
  "op_names =
    [(OP_0, ''0''),
     (OP_PUSHDATA1, ''OP_PUSHDATA1''),
     (OP_PUSHDATA2, ''OP_PUSHDATA2''),
     (OP_PUSHDATA4, ''OP_PUSHDATA4''),
     (OP_1NEGATE, ''-1''),
     (OP_RESERVED, ''OP_RESERVED''),
     (OP_1, ''1''),
     (OP_2, ''2''),
     (OP_3, ''3''),
     (OP_4, ''4''),
     (OP_5, ''5''),
     (OP_6, ''6''),
     (OP_7, ''7''),
     (OP_8, ''8''),
     (OP_9, ''9''),
     (OP_10, ''10''),
     (OP_11, ''11''),
     (OP_12, ''12''),
     (OP_13, ''13''),
     (OP_14, ''14''),
     (OP_15, ''15''),
     (OP_16, ''16''),
     (OP_NOP, ''OP_NOP''),
     (OP_VER, ''OP_VER''),
     (OP_IF, ''OP_IF''),
     (OP_NOTIF, ''OP_NOTIF''),
     (OP_VERIF, ''OP_VERIF''),
     (OP_VERNOTIF, ''OP_VERNOTIF''),
     (OP_ELSE, ''OP_ELSE''),
     (OP_ENDIF, ''OP_ENDIF''),
     (OP_VERIFY, ''OP_VERIFY''),
     (OP_RETURN, ''OP_RETURN''),
     (OP_TOALTSTACK, ''OP_TOALTSTACK''),
     (OP_FROMALTSTACK, ''OP_FROMALTSTACK''),
     (OP_2DROP, ''OP_2DROP''),
     (OP_2DUP, ''OP_2DUP''),
     (OP_3DUP, ''OP_3DUP''),
     (OP_2OVER, ''OP_2OVER''),
     (OP_2ROT, ''OP_2ROT''),
     (OP_2SWAP, ''OP_2SWAP''),
     (OP_IFDUP, ''OP_IFDUP''),
     (OP_DEPTH, ''OP_DEPTH''),
     (OP_DROP, ''OP_DROP''),
     (OP_DUP, ''OP_DUP''),
     (OP_NIP, ''OP_NIP''),
     (OP_OVER, ''OP_OVER''),
     (OP_PICK, ''OP_PICK''),
     (OP_ROLL, ''OP_ROLL''),
     (OP_ROT, ''OP_ROT''),
     (OP_SWAP, ''OP_SWAP''),
     (OP_TUCK, ''OP_TUCK''),
     (OP_CAT, ''OP_CAT''),
     (OP_SUBSTR, ''OP_SUBSTR''),
     (OP_LEFT, ''OP_LEFT''),
     (OP_RIGHT, ''OP_RIGHT''),
     (OP_SIZE, ''OP_SIZE''),
     (OP_INVERT, ''OP_INVERT''),
     (OP_AND, ''OP_AND''),
     (OP_OR, ''OP_OR''),
     (OP_XOR, ''OP_XOR''),
     (OP_EQUAL, ''OP_EQUAL''),
     (OP_EQUALVERIFY, ''OP_EQUALVERIFY''),
     (OP_RESERVED1, ''OP_RESERVED1''),
     (OP_RESERVED2, ''OP_RESERVED2''),
     (OP_1ADD, ''OP_1ADD''),
     (OP_1SUB, ''OP_1SUB''),
     (OP_2MUL, ''OP_2MUL''),
     (OP_2DIV, ''OP_2DIV''),
     (OP_NEGATE, ''OP_NEGATE''),
     (OP_ABS, ''OP_ABS''),
     (OP_NOT, ''OP_NOT''),
     (OP_0NOTEQUAL, ''OP_0NOTEQUAL''),
     (OP_ADD, ''OP_ADD''),
     (OP_SUB, ''OP_SUB''),
     (OP_MUL, ''OP_MUL''),
     (OP_DIV, ''OP_DIV''),
     (OP_MOD, ''OP_MOD''),
     (OP_LSHIFT, ''OP_LSHIFT''),
     (OP_RSHIFT, ''OP_RSHIFT''),
     (OP_BOOLAND, ''OP_BOOLAND''),
     (OP_BOOLOR, ''OP_BOOLOR''),
     (OP_NUMEQUAL, ''OP_NUMEQUAL''),
     (OP_NUMEQUALVERIFY, ''OP_NUMEQUALVERIFY''),
     (OP_NUMNOTEQUAL, ''OP_NUMNOTEQUAL''),
     (OP_LESSTHAN, ''OP_LESSTHAN''),
     (OP_GREATERTHAN, ''OP_GREATERTHAN''),
     (OP_LESSTHANOREQUAL, ''OP_LESSTHANOREQUAL''),
     (OP_GREATERTHANOREQUAL, ''OP_GREATERTHANOREQUAL''),
     (OP_MIN, ''OP_MIN''),
     (OP_MAX, ''OP_MAX''),
     (OP_WITHIN, ''OP_WITHIN''),
     (OP_RIPEMD160, ''OP_RIPEMD160''),
     (OP_SHA1, ''OP_SHA1''),
     (OP_SHA256, ''OP_SHA256''),
     (OP_HASH160, ''OP_HASH160''),
     (OP_HASH256, ''OP_HASH256''),
     (OP_CODESEPARATOR, ''OP_CODESEPARATOR''),
     (OP_CHECKSIG, ''OP_CHECKSIG''),
     (OP_CHECKSIGVERIFY, ''OP_CHECKSIGVERIFY''),
     (OP_CHECKMULTISIG, ''OP_CHECKMULTISIG''),
     (OP_CHECKMULTISIGVERIFY, ''OP_CHECKMULTISIGVERIFY''),
     (OP_NOP1, ''OP_NOP1''),
     (OP_NOP2, ''OP_NOP2''),
     (OP_NOP3, ''OP_NOP3''),
     (OP_NOP4, ''OP_NOP4''),
     (OP_NOP5, ''OP_NOP5''),
     (OP_NOP6, ''OP_NOP6''),
     (OP_NOP7, ''OP_NOP7''),
     (OP_NOP8, ''OP_NOP8''),
     (OP_NOP9, ''OP_NOP9''),
     (OP_NOP10, ''OP_NOP10''),
     (OP_PUBKEYHASH, ''OP_PUBKEYHASH''),
     (OP_PUBKEY, ''OP_PUBKEY''),
     (OP_INVALIDOPCODE, ''OP_INVALIDOPCODE'')]"

definition GetOpName :: "nat \<Rightarrow> string" where
  "GetOpName opcode =
     (case map_of op_names opcode of Some s \<Rightarrow> s | None \<Rightarrow> ''OP_UNKNOWN'')"

datatype txnouttype = TX_NONSTANDARD | TX_PUBKEY | TX_PUBKEYHASH | TX_SCRIPTHASH | TX_MULTISIG
  | TX_NULL_DATA

fun GetTxnOutputType :: "txnouttype \<Rightarrow> string" where
  "GetTxnOutputType TX_NONSTANDARD = ''nonstandard''"
| "GetTxnOutputType TX_PUBKEY = ''pubkey''"
| "GetTxnOutputType TX_PUBKEYHASH = ''pubkeyhash''"
| "GetTxnOutputType TX_SCRIPTHASH = ''scripthash''"
| "GetTxnOutputType TX_MULTISIG = ''multisig''"
| "GetTxnOutputType TX_NULL_DATA = ''nulldata''"

subsection \<open>Building scripts\<close>

text \<open>\<open>push_op\<close>, \<open>push_data\<close> and \<open>push_int64\<close> are the bytes that the overloads of \<open><<\<close> append.\<close>

definition push_op :: "nat \<Rightarrow> byte list" where
  "push_op opcode = [word_of_nat opcode]"

definition push_data :: "valtype \<Rightarrow> byte list" where
  "push_data b =
     (if length b < OP_PUSHDATA1 then le_bytes 1 (length b)
      else if length b \<le> 0xff then word_of_nat OP_PUSHDATA1 # le_bytes 1 (length b)
      else if length b \<le> 0xffff then word_of_nat OP_PUSHDATA2 # le_bytes 2 (length b)
      else word_of_nat OP_PUSHDATA4 # le_bytes 4 (length b)) @ b"

definition push_uint160 :: "uint160 \<Rightarrow> byte list" where
  "push_uint160 b = 20 # bytes_of_u160 b"

definition push_uint256 :: "uint256 \<Rightarrow> byte list" where
  "push_uint256 b = 32 # bytes_of_u256 b"

definition push_int64 :: "openssl \<Rightarrow> int64 \<Rightarrow> byte list" where
  "push_int64 E n =
     (if sint n = - 1 \<or> (1 \<le> sint n \<and> sint n \<le> 16)
      then [word_of_int (sint n + (int OP_1 - 1))]
      else push_data (getvch E (setint64 E n)))"

definition push_uint64 :: "openssl \<Rightarrow> uint64 \<Rightarrow> byte list" where
  "push_uint64 E n =
     (if 1 \<le> uint n \<and> uint n \<le> 16
      then [word_of_int (uint n + (int OP_1 - 1))]
      else push_data (getvch E (setuint64 E n)))"

subsection \<open>Reading instructions\<close>

text \<open>
  \<open>GetOp2\<close> moves \<open>pc\<close> past what it has read, whether it succeeds or not. On failure the
  opcode is \<open>OP_INVALIDOPCODE\<close> and the operand is empty.
\<close>

datatype getop = Op "byte list" nat valtype | BadOp "byte list"

definition get_operand :: "nat \<Rightarrow> nat \<Rightarrow> byte list \<Rightarrow> getop" where
  "get_operand opcode nSize pc =
     (if length pc mod 2 ^ 32 < nSize then BadOp pc
      else Op (drop nSize pc) opcode (take nSize pc))"

fun GetOp2 :: "byte list \<Rightarrow> getop" where
  "GetOp2 [] = BadOp []"
| "GetOp2 (c # pc) =
     (let opcode = unat c
      in if opcode \<le> OP_PUSHDATA4
         then if opcode < OP_PUSHDATA1 then get_operand opcode opcode pc
              else if opcode = OP_PUSHDATA1
              then (if length pc < 1 then BadOp pc
                    else get_operand opcode (le_value (take 1 pc)) (drop 1 pc))
              else if opcode = OP_PUSHDATA2
              then (if length pc < 2 then BadOp pc
                    else get_operand opcode (le_value (take 2 pc)) (drop 2 pc))
              else (if length pc < 4 then BadOp pc
                    else get_operand opcode (le_value (take 4 pc)) (drop 4 pc))
         else Op pc opcode [])"

declare GetOp2.simps(2) [simp del]

lemma get_operand_shrinks:
  "get_operand opcode n pc = Op pc' op v \<Longrightarrow> \<exists>d. pc = d @ pc' \<and> op = opcode"
  by (auto simp: get_operand_def split: if_splits) (metis append_take_drop_id)

lemma GetOp2_consumes:
  assumes "GetOp2 s = Op pc op v"
  shows "\<exists>d. s = d @ pc \<and> d \<noteq> []"
proof (cases s)
  case (Cons c cs)
  have step: "\<exists>d. cs = d @ pc" if "get_operand o1 n (drop k cs) = Op pc op v" for o1 n k
    using get_operand_shrinks [OF that] by (metis append.assoc append_take_drop_id)
  have "\<exists>d. cs = d @ pc"
    using assms Cons step step [of _ _ 0]
    by (auto simp: GetOp2.simps(2) Let_def split: if_splits)
  then show ?thesis using Cons by (metis append_Cons list.distinct(1))
qed (use assms in simp)

lemma GetOp2_length: "GetOp2 s = Op pc op v \<Longrightarrow> length pc < length s"
  using GetOp2_consumes by fastforce

lemma GetOp2_opcode: "GetOp2 s = Op pc op v \<Longrightarrow> op < 256"
  by (cases s) (auto simp: GetOp2.simps(2) Let_def get_operand_def opcode_defs split: if_splits)

definition DecodeOP_N :: "nat \<Rightarrow> nat" where
  "DecodeOP_N opcode = (if opcode = OP_0 then 0 else opcode - (OP_1 - 1))"

definition EncodeOP_N :: "nat \<Rightarrow> nat" where
  "EncodeOP_N n = (if n = 0 then OP_0 else OP_1 + n - 1)"

subsection \<open>Scanning scripts\<close>

text \<open>
  \<open>FindAndDelete\<close>: at every instruction boundary the occurrences of \<open>b\<close> that start there
  are erased. The result is the number found and the script that is left.
\<close>

function strip_occurrences :: "byte list \<Rightarrow> byte list \<Rightarrow> nat \<times> byte list" where
  "strip_occurrences b pc =
     (if b \<noteq> [] \<and> length b \<le> length pc \<and> take (length b) pc = b
      then (let (n, r) = strip_occurrences b (drop (length b) pc) in (Suc n, r))
      else (0, pc))"
  by pat_completeness auto
termination
  by (relation "measure (\<lambda>(b, pc). length pc)") (auto simp: neq_Nil_conv)

declare strip_occurrences.simps [simp del]

lemma strip_occurrences_length:
  "strip_occurrences b pc = (n, r) \<Longrightarrow> length pc = n * length b + length r"
proof (induction b pc arbitrary: n r rule: strip_occurrences.induct)
  case (1 b pc)
  show ?case
  proof (cases "b \<noteq> [] \<and> length b \<le> length pc \<and> take (length b) pc = b")
    case True
    obtain m q where mq: "strip_occurrences b (drop (length b) pc) = (m, q)" by fastforce
    have "length (drop (length b) pc) = m * length b + length q"
      by (rule "1.IH" [OF True mq])
    with True mq "1.prems" show ?thesis by (auto simp: strip_occurrences.simps [of b pc])
  next
    case False
    with "1.prems" show ?thesis by (auto simp: strip_occurrences.simps [of b pc])
  qed
qed

function find_and_delete_from :: "byte list \<Rightarrow> byte list \<Rightarrow> nat \<times> byte list" where
  "find_and_delete_from b pc =
     (case strip_occurrences b pc of (n, r) \<Rightarrow>
        (case GetOp2 r of
           BadOp _ \<Rightarrow> (n, r)
         | Op pc' opcode vch \<Rightarrow>
             (let (m, out) = find_and_delete_from b pc'
              in (n + m, take (length r - length pc') r @ out))))"
  by pat_completeness auto
termination
proof (relation "measure (\<lambda>(b, pc). length pc)")
  fix b pc n r pc' opcode vch
  assume "(n, r) = strip_occurrences b pc" and "GetOp2 r = Op pc' opcode vch"
  then show "((b, pc'), b, pc) \<in> measure (\<lambda>(b, pc). length pc)"
    using strip_occurrences_length [of b pc n r] GetOp2_length [of r pc'] by simp
qed simp

declare find_and_delete_from.simps [simp del]

definition FindAndDelete :: "byte list \<Rightarrow> byte list \<Rightarrow> nat \<times> byte list" where
  "FindAndDelete script b = (if b = [] then (0, script) else find_and_delete_from b script)"

function IsPushOnly :: "byte list \<Rightarrow> bool" where
  "IsPushOnly pc =
     (if pc = [] then True
      else case GetOp2 pc of
             BadOp _ \<Rightarrow> False
           | Op pc' opcode _ \<Rightarrow> if OP_16 < opcode then False else IsPushOnly pc')"
  by pat_completeness auto
termination
  by (relation "measure length") (auto dest: GetOp2_length)

declare IsPushOnly.simps [simp del]

definition IsPayToScriptHash :: "byte list \<Rightarrow> bool" where
  "IsPayToScriptHash s \<longleftrightarrow>
     length s = 23 \<and> unat (s ! 0) = OP_HASH160 \<and> s ! 1 = 0x14 \<and> unat (s ! 22) = OP_EQUAL"

definition IsDataCarrier :: "byte list \<Rightarrow> bool" where
  "IsDataCarrier s \<longleftrightarrow> (case s of [] \<Rightarrow> False | c # _ \<Rightarrow> unat c = OP_RETURN)"

function count_sigops :: "bool \<Rightarrow> nat \<Rightarrow> byte list \<Rightarrow> nat" where
  "count_sigops fAccurate lastOpcode pc =
     (if pc = [] then 0
      else case GetOp2 pc of
             BadOp _ \<Rightarrow> 0
           | Op pc' opcode _ \<Rightarrow>
               (if opcode = OP_CHECKSIG \<or> opcode = OP_CHECKSIGVERIFY then 1
                else if opcode = OP_CHECKMULTISIG \<or> opcode = OP_CHECKMULTISIGVERIFY
                then (if fAccurate \<and> OP_1 \<le> lastOpcode \<and> lastOpcode \<le> OP_16
                      then DecodeOP_N lastOpcode else 20)
                else 0) + count_sigops fAccurate opcode pc')"
  by pat_completeness auto
termination
  by (relation "measure (\<lambda>(f, l, pc). length pc)") (auto dest: GetOp2_length)

declare count_sigops.simps [simp del]

definition GetSigOpCount :: "bool \<Rightarrow> byte list \<Rightarrow> nat" where
  "GetSigOpCount fAccurate script = count_sigops fAccurate OP_INVALIDOPCODE script"

text \<open>The last operand the script pushes; \<open>None\<close> where the code returns 0 early.\<close>

function last_push :: "valtype \<Rightarrow> byte list \<Rightarrow> valtype option" where
  "last_push data pc =
     (if pc = [] then Some data
      else case GetOp2 pc of
             BadOp _ \<Rightarrow> None
           | Op pc' opcode vch \<Rightarrow> if OP_16 < opcode then None else last_push vch pc')"
  by pat_completeness auto
termination
  by (relation "measure (\<lambda>(d, pc). length pc)") (auto dest: GetOp2_length)

declare last_push.simps [simp del]

definition GetSigOpCount_P2SH :: "byte list \<Rightarrow> byte list \<Rightarrow> nat" where
  "GetSigOpCount_P2SH scriptPubKey scriptSig =
     (if \<not> IsPayToScriptHash scriptPubKey then GetSigOpCount True scriptPubKey
      else case last_push [] scriptSig of
             None \<Rightarrow> 0
           | Some subscript \<Rightarrow> GetSigOpCount True subscript)"

definition GetScriptID :: "openssl \<Rightarrow> byte list \<Rightarrow> uint160" where
  "GetScriptID E script = Hash160 E script"

end
