(* ===== verification/Script_Eval.thy ===== *)
theory Script_Eval
  imports Script_Base
begin

text \<open>
  The script interpreter (\<open>EvalScript\<close> of \<open>src/script.cpp\<close>): the stacks, the stack of
  executed branches, the operation counter and the position of the last code separator are
  the fields of \<open>eval_state\<close>. A stack is the reversed vector: its head is \<open>stacktop(-1)\<close>.
  Every operation returns whether the interpreter goes on, with the state at that moment:
  \<open>False\<close> is an early \<open>return false\<close> or an exception, which \<open>EvalScript\<close> catches; callers
  that ignore the result still see the stack. Signatures are checked by the function
  \<open>chk\<close>, which threads a state of its own (the signature cache, in \<open>Script_Verify\<close>).
\<close>

record 'c eval_state =
  es_stack :: "valtype list"
  es_altstack :: "valtype list"
  es_vfExec :: "bool list"
  es_nOpCount :: int
  es_codehash :: "byte list"
  es_sigs :: 'c

type_synonym 'c checker = "'c \<Rightarrow> valtype \<Rightarrow> valtype \<Rightarrow> byte list \<Rightarrow> bool \<times> 'c"
type_synonym 'c outcome = "bool \<times> 'c eval_state"

definition vchFalse :: valtype where "vchFalse = []"
definition vchTrue :: valtype where "vchTrue = [1]"
definition nMaxNumSize :: nat where "nMaxNumSize = 4"

definition bool_vch :: "bool \<Rightarrow> valtype" where
  "bool_vch b = (if b then vchTrue else vchFalse)"

definition set_stack :: "valtype list \<Rightarrow> 'c eval_state \<Rightarrow> 'c outcome" where
  "set_stack s st = (True, st\<lparr>es_stack := s\<rparr>)"

definition stop :: "'c eval_state \<Rightarrow> 'c outcome" where
  "stop st = (False, st)"

subsection \<open>Values\<close>

text \<open>\<open>CastToBigNum\<close> throws on more than four bytes; the value is normalised by a round trip.\<close>

definition CastToBigNum :: "openssl \<Rightarrow> valtype \<Rightarrow> int option" where
  "CastToBigNum E vch =
     (if nMaxNumSize < length vch then None else Some (setvch E (getvch E (setvch E vch))))"

fun CastToBool :: "valtype \<Rightarrow> bool" where
  "CastToBool [] = False"
| "CastToBool (b # bs) =
     (if b \<noteq> 0 then (if bs = [] \<and> b = 0x80 then False else True) else CastToBool bs)"

definition MakeSameSize :: "valtype \<Rightarrow> valtype \<Rightarrow> valtype \<times> valtype" where
  "MakeSameSize vch1 vch2 =
     (let v1 = (if length vch1 < length vch2
                then vch1 @ replicate (length vch2 - length vch1) 0 else vch1);
          v2 = (if length vch2 < length v1
                then vch2 @ replicate (length v1 - length vch2) 0 else vch2)
      in (v1, v2))"

definition int32_wrap :: "int \<Rightarrow> int" where
  "int32_wrap i = sint (word_of_int i :: 32 word)"

subsection \<open>Constants and control\<close>

definition op_push_number :: "openssl \<Rightarrow> nat \<Rightarrow> 'c eval_state \<Rightarrow> 'c outcome" where
  "op_push_number E opcode st =
     set_stack (getvch E (int opcode - (int OP_1 - 1)) # es_stack st) st"

definition op_if :: "bool \<Rightarrow> nat \<Rightarrow> 'c eval_state \<Rightarrow> 'c outcome" where
  "op_if fExec opcode st =
     (if fExec
      then (case es_stack st of
              [] \<Rightarrow> stop st
            | vch # s \<Rightarrow>
                let fValue = CastToBool vch;
                    fValue = (if opcode = OP_NOTIF then \<not> fValue else fValue)
                in (True, st\<lparr>es_stack := s, es_vfExec := fValue # es_vfExec st\<rparr>))
      else (True, st\<lparr>es_vfExec := False # es_vfExec st\<rparr>))"

definition op_else :: "'c eval_state \<Rightarrow> 'c outcome" where
  "op_else st =
     (case es_vfExec st of
        [] \<Rightarrow> stop st
      | b # bs \<Rightarrow> (True, st\<lparr>es_vfExec := (\<not> b) # bs\<rparr>))"

definition op_endif :: "'c eval_state \<Rightarrow> 'c outcome" where
  "op_endif st =
     (case es_vfExec st of
        [] \<Rightarrow> stop st
      | b # bs \<Rightarrow> (True, st\<lparr>es_vfExec := bs\<rparr>))"

definition op_verify :: "'c eval_state \<Rightarrow> 'c outcome" where
  "op_verify st =
     (case es_stack st of
        [] \<Rightarrow> stop st
      | vch # s \<Rightarrow> if CastToBool vch then set_stack s st else stop st)"

subsection \<open>Stack operations\<close>

definition op_toaltstack :: "'c eval_state \<Rightarrow> 'c outcome" where
  "op_toaltstack st =
     (case es_stack st of
        [] \<Rightarrow> stop st
      | x # s \<Rightarrow> (True, st\<lparr>es_stack := s, es_altstack := x # es_altstack st\<rparr>))"

definition op_fromaltstack :: "'c eval_state \<Rightarrow> 'c outcome" where
  "op_fromaltstack st =
     (case es_altstack st of
        [] \<Rightarrow> stop st
      | x # a \<Rightarrow> (True, st\<lparr>es_stack := x # es_stack st, es_altstack := a\<rparr>))"

text \<open>
  The operations that only rearrange the stack: the new stack, or \<open>None\<close> where the stack
  is too short.
\<close>

definition stack_op :: "openssl \<Rightarrow> nat \<Rightarrow> valtype list \<Rightarrow> valtype list option" where
  "stack_op E opcode s =
     (if opcode = OP_2DROP then
        (case s of x2 # x1 # r \<Rightarrow> Some r | _ \<Rightarrow> None)
      else if opcode = OP_2DUP then
        (case s of x2 # x1 # r \<Rightarrow> Some (x2 # x1 # x2 # x1 # r) | _ \<Rightarrow> None)
      else if opcode = OP_3DUP then
        (case s of x3 # x2 # x1 # r \<Rightarrow> Some (x3 # x2 # x1 # x3 # x2 # x1 # r) | _ \<Rightarrow> None)
      else if opcode = OP_2OVER then
        (case s of x4 # x3 # x2 # x1 # r \<Rightarrow> Some (x2 # x1 # x4 # x3 # x2 # x1 # r) | _ \<Rightarrow> None)
      else if opcode = OP_2ROT then
        (case s of x6 # x5 # x4 # x3 # x2 # x1 # r \<Rightarrow> Some (x2 # x1 # x6 # x5 # x4 # x3 # r)
         | _ \<Rightarrow> None)
      else if opcode = OP_2SWAP then
        (case s of x4 # x3 # x2 # x1 # r \<Rightarrow> Some (x2 # x1 # x4 # x3 # r) | _ \<Rightarrow> None)
      else if opcode = OP_IFDUP then
        (case s of x # r \<Rightarrow> Some (if CastToBool x then x # x # r else x # r) | _ \<Rightarrow> None)
      else if opcode = OP_DEPTH then
        Some (getvch E (int (length s)) # s)
      else if opcode = OP_DROP then
        (case s of x # r \<Rightarrow> Some r | _ \<Rightarrow> None)
      else if opcode = OP_DUP then
        (case s of x # r \<Rightarrow> Some (x # x # r) | _ \<Rightarrow> None)
      else if opcode = OP_NIP then
        (case s of x2 # x1 # r \<Rightarrow> Some (x2 # r) | _ \<Rightarrow> None)
      else if opcode = OP_OVER then
        (case s of x2 # x1 # r \<Rightarrow> Some (x1 # x2 # x1 # r) | _ \<Rightarrow> None)
      else if opcode = OP_ROT then
        (case s of x3 # x2 # x1 # r \<Rightarrow> Some (x1 # x3 # x2 # r) | _ \<Rightarrow> None)
      else if opcode = OP_SWAP then
        (case s of x2 # x1 # r \<Rightarrow> Some (x1 # x2 # r) | _ \<Rightarrow> None)
      else if opcode = OP_TUCK then
        (case s of x2 # x1 # r \<Rightarrow> Some (x2 # x1 # x2 # r) | _ \<Rightarrow> None)
      else None)"

definition op_stack :: "openssl \<Rightarrow> nat \<Rightarrow> 'c eval_state \<Rightarrow> 'c outcome" where
  "op_stack E opcode st =
     (case stack_op E opcode (es_stack st) of None \<Rightarrow> stop st | Some s \<Rightarrow> set_stack s st)"

text \<open>\<open>OP_PICK\<close> and \<open>OP_ROLL\<close> have popped the index when they find it out of range.\<close>

definition op_pick_roll :: "openssl \<Rightarrow> nat \<Rightarrow> 'c eval_state \<Rightarrow> 'c outcome" where
  "op_pick_roll E opcode st =
     (case es_stack st of
        x # y # r \<Rightarrow>
          (case CastToBigNum E x of
             None \<Rightarrow> stop st
           | Some bn \<Rightarrow>
               let n = getint E bn; s = y # r; st' = st\<lparr>es_stack := s\<rparr>
               in if n < 0 \<or> int (length s) \<le> n then stop st'
                  else let vch = s ! nat n;
                           s' = (if opcode = OP_ROLL then take (nat n) s @ drop (nat n + 1) s else s)
                       in set_stack (vch # s') st)
      | _ \<Rightarrow> stop st)"

subsection \<open>Splice and bitwise operations\<close>

text \<open>
  All of these but \<open>OP_SIZE\<close>, \<open>OP_EQUAL\<close> and \<open>OP_EQUALVERIFY\<close> are disabled: the code is
  there, and modelled, but \<open>eval_step\<close> never reaches it (\<open>eval_step_disabled\<close>).
\<close>

definition op_splice :: "openssl \<Rightarrow> nat \<Rightarrow> 'c eval_state \<Rightarrow> 'c outcome" where
  "op_splice E opcode st =
     (if opcode = OP_CAT then
        (case es_stack st of
           x2 # x1 # r \<Rightarrow>
             if 520 < length (x1 @ x2) then stop (st\<lparr>es_stack := (x1 @ x2) # r\<rparr>)
             else set_stack ((x1 @ x2) # r) st
         | _ \<Rightarrow> stop st)
      else if opcode = OP_SUBSTR then
        (case es_stack st of
           sz # bg # vch # r \<Rightarrow>
             (case (CastToBigNum E bg, CastToBigNum E sz) of
                (Some bn1, Some bn2) \<Rightarrow>
                  let nBegin = getint E bn1; nEnd = int32_wrap (nBegin + getint E bn2)
                  in if nBegin < 0 \<or> nEnd < nBegin then stop st
                     else set_stack (drop (nat nBegin) (take (nat nEnd) vch) # r) st
              | _ \<Rightarrow> stop st)
         | _ \<Rightarrow> stop st)
      else if opcode = OP_SIZE then
        (case es_stack st of
           x # r \<Rightarrow> set_stack (getvch E (int (length x)) # x # r) st
         | _ \<Rightarrow> stop st)
      else
        (case es_stack st of
           sz # vch # r \<Rightarrow>
             (case CastToBigNum E sz of
                None \<Rightarrow> stop st
              | Some bn \<Rightarrow>
                  let nSize = getint E bn
                  in if nSize < 0 then stop st
                     else set_stack ((if opcode = OP_LEFT then take (nat nSize) vch
                                      else drop (length vch - nat nSize) vch) # r) st)
         | _ \<Rightarrow> stop st))"

definition op_bitwise :: "nat \<Rightarrow> 'c eval_state \<Rightarrow> 'c outcome" where
  "op_bitwise opcode st =
     (if opcode = OP_INVERT then
        (case es_stack st of
           x # r \<Rightarrow> set_stack (map (\<lambda>b. NOT b) x # r) st
         | _ \<Rightarrow> stop st)
      else
        (case es_stack st of
           x2 # x1 # r \<Rightarrow>
             let (v1, v2) = MakeSameSize x1 x2
             in set_stack (map2 (\<lambda>a b. if opcode = OP_AND then a AND b
                                        else if opcode = OP_OR then a OR b else a XOR b) v1 v2 # r) st
         | _ \<Rightarrow> stop st))"

text \<open>
  The \<open>VERIFY\<close> forms push the result, then pop it when it is true and fail otherwise.
\<close>

definition push_result :: "bool \<Rightarrow> bool \<Rightarrow> valtype list \<Rightarrow> 'c eval_state \<Rightarrow> 'c outcome" where
  "push_result fVerify fValue r st =
     (if fVerify
      then (if fValue then set_stack r st else stop (st\<lparr>es_stack := bool_vch fValue # r\<rparr>))
      else set_stack (bool_vch fValue # r) st)"

definition op_equal :: "nat \<Rightarrow> 'c eval_state \<Rightarrow> 'c outcome" where
  "op_equal opcode st =
     (case es_stack st of
        x2 # x1 # r \<Rightarrow> push_result (opcode = OP_EQUALVERIFY) (x1 = x2) r st
      | _ \<Rightarrow> stop st)"

subsection \<open>Numeric operations\<close>

definition unary_value :: "nat \<Rightarrow> int \<Rightarrow> int" where
  "unary_value opcode bn =
     (if opcode = OP_1ADD then bn + 1
      else if opcode = OP_1SUB then bn - 1
      else if opcode = OP_2MUL then bn * 2
      else if opcode = OP_2DIV then bn_shift_right bn 1
      else if opcode = OP_NEGATE then - bn
      else if opcode = OP_ABS then (if bn < 0 then - bn else bn)
      else if opcode = OP_NOT then of_bool (bn = 0)
      else of_bool (bn \<noteq> 0))"

definition op_unary :: "openssl \<Rightarrow> nat \<Rightarrow> 'c eval_state \<Rightarrow> 'c outcome" where
  "op_unary E opcode st =
     (case es_stack st of
        x # r \<Rightarrow>
          (case CastToBigNum E x of
             None \<Rightarrow> stop st
           | Some bn \<Rightarrow> set_stack (getvch E (unary_value opcode bn) # r) st)
      | _ \<Rightarrow> stop st)"

definition binary_value :: "nat \<Rightarrow> int \<Rightarrow> int \<Rightarrow> int" where
  "binary_value opcode bn1 bn2 =
     (if opcode = OP_ADD then bn1 + bn2
      else if opcode = OP_SUB then bn1 - bn2
      else if opcode = OP_BOOLAND then of_bool (bn1 \<noteq> 0 \<and> bn2 \<noteq> 0)
      else if opcode = OP_BOOLOR then of_bool (bn1 \<noteq> 0 \<or> bn2 \<noteq> 0)
      else if opcode = OP_NUMEQUAL then of_bool (bn1 = bn2)
      else if opcode = OP_NUMEQUALVERIFY then of_bool (bn1 = bn2)
      else if opcode = OP_NUMNOTEQUAL then of_bool (bn1 \<noteq> bn2)
      else if opcode = OP_LESSTHAN then of_bool (bn1 < bn2)
      else if opcode = OP_GREATERTHAN then of_bool (bn1 > bn2)
      else if opcode = OP_LESSTHANOREQUAL then of_bool (bn1 \<le> bn2)
      else if opcode = OP_GREATERTHANOREQUAL then of_bool (bn1 \<ge> bn2)
      else if opcode = OP_MIN then (if bn1 < bn2 then bn1 else bn2)
      else (if bn1 > bn2 then bn1 else bn2))"

definition op_binary :: "openssl \<Rightarrow> nat \<Rightarrow> 'c eval_state \<Rightarrow> 'c outcome" where
  "op_binary E opcode st =
     (case es_stack st of
        x2 # x1 # r \<Rightarrow>
          (case (CastToBigNum E x1, CastToBigNum E x2) of
             (Some bn1, Some bn2) \<Rightarrow>
               let vch = getvch E (binary_value opcode bn1 bn2)
               in if opcode = OP_NUMEQUALVERIFY
                  then (if CastToBool vch then set_stack r st
                        else stop (st\<lparr>es_stack := vch # r\<rparr>))
                  else set_stack (vch # r) st
           | _ \<Rightarrow> stop st)
      | _ \<Rightarrow> stop st)"

definition op_within :: "openssl \<Rightarrow> 'c eval_state \<Rightarrow> 'c outcome" where
  "op_within E st =
     (case es_stack st of
        x3 # x2 # x1 # r \<Rightarrow>
          (case (CastToBigNum E x1, CastToBigNum E x2, CastToBigNum E x3) of
             (Some bn1, Some bn2, Some bn3) \<Rightarrow>
               set_stack (bool_vch (bn2 \<le> bn1 \<and> bn1 < bn3) # r) st
           | _ \<Rightarrow> stop st)
      | _ \<Rightarrow> stop st)"

subsection \<open>Hashes and signatures\<close>

definition op_digest :: "openssl \<Rightarrow> nat \<Rightarrow> 'c eval_state \<Rightarrow> 'c outcome" where
  "op_digest E opcode st =
     (case es_stack st of
        x # r \<Rightarrow>
          let vchHash = (if opcode = OP_RIPEMD160 then RIPEMD160 E x
                         else if opcode = OP_SHA1 then SHA1 E x
                         else if opcode = OP_SHA256 then SHA256 E x
                         else if opcode = OP_HASH160 then bytes_of_u160 (Hash160 E x)
                         else bytes_of_u256 (Hash E x))
          in set_stack (vchHash # r) st
      | _ \<Rightarrow> stop st)"

definition op_checksig :: "'c checker \<Rightarrow> nat \<Rightarrow> 'c eval_state \<Rightarrow> 'c outcome" where
  "op_checksig chk opcode st =
     (case es_stack st of
        vchPubKey # vchSig # r \<Rightarrow>
          let scriptCode = snd (FindAndDelete (es_codehash st) (push_data vchSig));
              (fSuccess, c) = chk (es_sigs st) vchSig vchPubKey scriptCode
          in push_result (opcode = OP_CHECKSIGVERIFY) fSuccess r (st\<lparr>es_sigs := c\<rparr>)
      | _ \<Rightarrow> stop st)"

text \<open>
  The matching loop of \<open>OP_CHECKMULTISIG\<close>, over the signatures and the keys that are left:
  a key is used once, in order, and the loop gives up when more signatures than keys
  remain.
\<close>

fun multisig_loop ::
  "'c checker \<Rightarrow> byte list \<Rightarrow> 'c \<Rightarrow> valtype list \<Rightarrow> valtype list \<Rightarrow> bool \<times> 'c" where
  "multisig_loop chk code c [] keys = (True, c)"
| "multisig_loop chk code c (vchSig # sigs) [] = (False, c)"
| "multisig_loop chk code c (vchSig # sigs) (vchPubKey # keys) =
     (let (fOk, c') = chk c vchSig vchPubKey code;
          sigs' = (if fOk then sigs else vchSig # sigs)
      in if length keys < length sigs' then (False, c')
         else multisig_loop chk code c' sigs' keys)"

definition delete_signatures :: "byte list \<Rightarrow> valtype list \<Rightarrow> byte list" where
  "delete_signatures code sigs =
     foldl (\<lambda>code vchSig. snd (FindAndDelete code (push_data vchSig))) code sigs"

definition op_checkmultisig :: "openssl \<Rightarrow> 'c checker \<Rightarrow> nat \<Rightarrow> 'c eval_state \<Rightarrow> 'c outcome" where
  "op_checkmultisig E chk opcode st =
     (let s = es_stack st
      in if length s < 1 then stop st
         else case CastToBigNum E (s ! 0) of None \<Rightarrow> stop st | Some bnKeys \<Rightarrow>
         let nKeysCount = getint E bnKeys
         in if nKeysCount < 0 \<or> 20 < nKeysCount then stop st
            else let st = st\<lparr>es_nOpCount := es_nOpCount st + nKeysCount\<rparr>;
                     i = 2 + nat nKeysCount
                 in if 201 < es_nOpCount st then stop st
                    else if length s < i then stop st
                    else case CastToBigNum E (s ! (i - 1)) of None \<Rightarrow> stop st | Some bnSigs \<Rightarrow>
                    let nSigsCount = getint E bnSigs; j = i + 1 + nat nSigsCount
                    in if nSigsCount < 0 \<or> nKeysCount < nSigsCount then stop st
                       else if length s < j then stop st
                       else let keys = take (nat nKeysCount) (drop 1 s);
                                sigs = take (nat nSigsCount) (drop i s);
                                code = delete_signatures (es_codehash st) sigs;
                                (fSuccess, c) = multisig_loop chk code (es_sigs st) sigs keys
                            in push_result (opcode = OP_CHECKMULTISIGVERIFY) fSuccess (drop j s)
                                 (st\<lparr>es_sigs := c\<rparr>))"

subsection \<open>The interpreter loop\<close>

text \<open>The \<open>switch\<close>: \<open>pc\<close> is the iterator after the instruction.\<close>

definition eval_op ::
  "openssl \<Rightarrow> 'c checker \<Rightarrow> bool \<Rightarrow> nat \<Rightarrow> byte list \<Rightarrow> 'c eval_state \<Rightarrow> 'c outcome" where
  "eval_op E chk fExec opcode pc st =
     (if opcode = OP_1NEGATE \<or> OP_1 \<le> opcode \<and> opcode \<le> OP_16 then op_push_number E opcode st
      else if opcode = OP_NOP \<or> OP_NOP1 \<le> opcode \<and> opcode \<le> OP_NOP10 then (True, st)
      else if opcode = OP_IF \<or> opcode = OP_NOTIF then op_if fExec opcode st
      else if opcode = OP_ELSE then op_else st
      else if opcode = OP_ENDIF then op_endif st
      else if opcode = OP_VERIFY then op_verify st
      else if opcode = OP_RETURN then stop st
      else if opcode = OP_TOALTSTACK then op_toaltstack st
      else if opcode = OP_FROMALTSTACK then op_fromaltstack st
      else if opcode = OP_PICK \<or> opcode = OP_ROLL then op_pick_roll E opcode st
      else if OP_2DROP \<le> opcode \<and> opcode \<le> OP_TUCK then op_stack E opcode st
      else if OP_CAT \<le> opcode \<and> opcode \<le> OP_SIZE then op_splice E opcode st
      else if OP_INVERT \<le> opcode \<and> opcode \<le> OP_XOR then op_bitwise opcode st
      else if opcode = OP_EQUAL \<or> opcode = OP_EQUALVERIFY then op_equal opcode st
      else if OP_1ADD \<le> opcode \<and> opcode \<le> OP_0NOTEQUAL then op_unary E opcode st
      else if opcode = OP_ADD \<or> opcode = OP_SUB \<or> OP_BOOLAND \<le> opcode \<and> opcode \<le> OP_MAX
      then op_binary E opcode st
      else if opcode = OP_WITHIN then op_within E st
      else if OP_RIPEMD160 \<le> opcode \<and> opcode \<le> OP_HASH256 then op_digest E opcode st
      else if opcode = OP_CODESEPARATOR then (True, st\<lparr>es_codehash := pc\<rparr>)
      else if opcode = OP_CHECKSIG \<or> opcode = OP_CHECKSIGVERIFY then op_checksig chk opcode st
      else if opcode = OP_CHECKMULTISIG \<or> opcode = OP_CHECKMULTISIGVERIFY
      then op_checkmultisig E chk opcode st
      else stop st)"

definition disabled_opcode :: "nat \<Rightarrow> bool" where
  "disabled_opcode opcode \<longleftrightarrow>
     opcode \<in> {OP_CAT, OP_SUBSTR, OP_LEFT, OP_RIGHT, OP_INVERT, OP_AND, OP_OR, OP_XOR,
       OP_2MUL, OP_2DIV, OP_MUL, OP_DIV, OP_MOD, OP_LSHIFT, OP_RSHIFT}"

definition fExec_of :: "'c eval_state \<Rightarrow> bool" where
  "fExec_of st \<longleftrightarrow> False \<notin> set (es_vfExec st)"

text \<open>
  One iteration of the loop: the instruction that \<open>GetOp\<close> read is counted, checked, carried
  out (unless a branch not taken skips it) and the stacks are measured.
\<close>

definition count_op :: "nat \<Rightarrow> 'c eval_state \<Rightarrow> 'c eval_state" where
  "count_op opcode st =
     (if OP_16 < opcode then st\<lparr>es_nOpCount := es_nOpCount st + 1\<rparr> else st)"

definition eval_exec ::
  "openssl \<Rightarrow> 'c checker \<Rightarrow> nat \<Rightarrow> valtype \<Rightarrow> byte list \<Rightarrow> 'c eval_state \<Rightarrow> 'c outcome" where
  "eval_exec E chk opcode vchPushValue pc st =
     (if fExec_of st \<and> opcode \<le> OP_PUSHDATA4 then set_stack (vchPushValue # es_stack st) st
      else if fExec_of st \<or> OP_IF \<le> opcode \<and> opcode \<le> OP_ENDIF
      then eval_op E chk (fExec_of st) opcode pc st
      else (True, st))"

definition eval_step ::
  "openssl \<Rightarrow> 'c checker \<Rightarrow> nat \<Rightarrow> valtype \<Rightarrow> byte list \<Rightarrow> 'c eval_state \<Rightarrow> 'c outcome" where
  "eval_step E chk opcode vchPushValue pc st =
     (if 520 < length vchPushValue then stop st
      else let st = count_op opcode st
           in if OP_16 < opcode \<and> 201 < es_nOpCount st then stop st
              else if disabled_opcode opcode then stop st
              else case eval_exec E chk opcode vchPushValue pc st of
                     (False, st) \<Rightarrow> stop st
                   | (True, st) \<Rightarrow>
                       if 1000 < length (es_stack st) + length (es_altstack st) then stop st
                       else (True, st))"

function eval_loop ::
  "openssl \<Rightarrow> 'c checker \<Rightarrow> byte list \<Rightarrow> 'c eval_state \<Rightarrow> 'c outcome" where
  "eval_loop E chk pc st =
     (if pc = [] then (True, st)
      else case GetOp2 pc of
             BadOp _ \<Rightarrow> stop st
           | Op pc' opcode vch \<Rightarrow>
               (case eval_step E chk opcode vch pc' st of
                  (False, st') \<Rightarrow> stop st'
                | (True, st') \<Rightarrow> eval_loop E chk pc' st'))"
  by pat_completeness auto
termination
  by (relation "measure (\<lambda>(E, chk, pc, st). length pc)") (auto dest: GetOp2_length)

declare eval_loop.simps [simp del]

definition eval_start :: "valtype list \<Rightarrow> byte list \<Rightarrow> 'c \<Rightarrow> 'c eval_state" where
  "eval_start stack script c =
     \<lparr>es_stack = stack, es_altstack = [], es_vfExec = [], es_nOpCount = 0,
      es_codehash = script, es_sigs = c\<rparr>"

definition EvalScript ::
  "openssl \<Rightarrow> 'c checker \<Rightarrow> valtype list \<Rightarrow> byte list \<Rightarrow> 'c \<Rightarrow> bool \<times> valtype list \<times> 'c" where
  "EvalScript E chk stack script c =
     (if 10000 < length script then (False, stack, c)
      else case eval_loop E chk script (eval_start stack script c) of
             (go, st) \<Rightarrow> (go \<and> es_vfExec st = [], es_stack st, es_sigs st))"

end
