(* ===== verification/Script_Interp.thy ===== *)
theory Script_Interp
  imports Script_Eval
begin

text \<open>
  Facts about the interpreter of \<open>Script_Eval\<close>: what an operation may change besides the
  stacks, what a script accepted by \<open>EvalScript\<close> looks like instruction by instruction,
  and the replacement of a stateful signature checker by the verdict it stands for (the
  locale \<open>checker_refinement\<close>).
\<close>

text \<open>What an operation may change besides the stacks.\<close>

definition keeps_control :: "'c eval_state \<Rightarrow> 'c outcome \<Rightarrow> bool" where
  "keeps_control st out \<longleftrightarrow>
     es_vfExec (snd out) = es_vfExec st \<and> es_nOpCount st \<le> es_nOpCount (snd out) \<and>
     es_codehash (snd out) = es_codehash st \<and>
     (fst out \<and> es_nOpCount st \<le> 201 \<longrightarrow> es_nOpCount (snd out) \<le> 201)"

named_theorems control_simps

lemmas plain_ops = set_stack_def stop_def push_result_def Let_def

lemma keeps_simple [control_simps]:
  "keeps_control st (op_push_number E opcode st)"
  "keeps_control st (op_verify st)"
  "keeps_control st (op_toaltstack st)"
  "keeps_control st (op_fromaltstack st)"
  "keeps_control st (op_stack E opcode st)"
  "keeps_control st (op_pick_roll E opcode st)"
  by (simp_all add: keeps_control_def op_push_number_def op_verify_def op_toaltstack_def
      op_fromaltstack_def op_stack_def op_pick_roll_def plain_ops split: list.split option.split)

lemma keeps_values [control_simps]:
  "keeps_control st (op_splice E opcode st)"
  "keeps_control st (op_bitwise opcode st)"
  "keeps_control st (op_equal opcode st)"
  "keeps_control st (op_unary E opcode st)"
  "keeps_control st (op_binary E opcode st)"
  "keeps_control st (op_within E st)"
  "keeps_control st (op_digest E opcode st)"
  by (simp_all add: keeps_control_def op_splice_def op_bitwise_def op_equal_def op_unary_def
      op_binary_def op_within_def op_digest_def plain_ops split: list.split option.split prod.split)

lemma keeps_signatures [control_simps]:
  "keeps_control st (op_checksig chk opcode st)"
  "keeps_control st (op_checkmultisig E chk opcode st)"
  by (simp_all add: keeps_control_def op_checksig_def op_checkmultisig_def plain_ops
      split: list.split option.split prod.split)


lemma keeps_refl [control_simps]: "keeps_control st (True, st)" "keeps_control st (stop st)"
  by (simp_all add: keeps_control_def stop_def)

lemma keeps_if: "keeps_control st x \<Longrightarrow> keeps_control st y \<Longrightarrow> keeps_control st (if b then x else y)"
  by simp

text \<open>
  The static reading of a script: its instructions, when all of them can be read.
\<close>

function script_ops :: "byte list \<Rightarrow> (nat \<times> valtype) list option" where
  "script_ops pc =
     (if pc = [] then Some []
      else case GetOp2 pc of
             BadOp _ \<Rightarrow> None
           | Op pc' opcode vch \<Rightarrow> map_option (\<lambda>ops. (opcode, vch) # ops) (script_ops pc'))"
  by pat_completeness auto
termination
  by (relation "measure length") (auto dest: GetOp2_length)

declare script_ops.simps [simp del]

text \<open>The depth of open conditionals after a list of instructions, from depth \<open>d\<close>.\<close>

fun nesting :: "nat \<Rightarrow> (nat \<times> valtype) list \<Rightarrow> nat option" where
  "nesting d [] = Some d"
| "nesting d ((opcode, vch) # ops) =
     (if opcode = OP_IF \<or> opcode = OP_NOTIF then nesting (Suc d) ops
      else if opcode = OP_ELSE then (if d = 0 then None else nesting d ops)
      else if opcode = OP_ENDIF then (if d = 0 then None else nesting (d - 1) ops)
      else nesting d ops)"

definition counted_ops :: "(nat \<times> valtype) list \<Rightarrow> nat" where
  "counted_ops ops = length (List.filter (\<lambda>(opcode, _). OP_16 < opcode) ops)"

lemma eval_op_keeps:
  assumes "opcode \<noteq> OP_IF" "opcode \<noteq> OP_NOTIF" "opcode \<noteq> OP_ELSE" "opcode \<noteq> OP_ENDIF"
    and "opcode \<noteq> OP_CODESEPARATOR"
  shows "keeps_control st (eval_op E chk fExec opcode pc st)"
  unfolding eval_op_def
  by (simp only: assms if_False simp_thms) (intro keeps_if control_simps)

lemma eval_op_codeseparator:
  "eval_op E chk fExec OP_CODESEPARATOR pc st = (True, st\<lparr>es_codehash := pc\<rparr>)"
  by (simp add: eval_op_def opcode_defs)

lemma eval_op_conditional:
  "opcode = OP_IF \<or> opcode = OP_NOTIF \<Longrightarrow> eval_op E chk fExec opcode pc st = op_if fExec opcode st"
  "eval_op E chk fExec OP_ELSE pc st = op_else st"
  "eval_op E chk fExec OP_ENDIF pc st = op_endif st"
  by (auto simp: eval_op_def opcode_defs)

lemma opcode_cases:
  obtains "opcode = OP_IF \<or> opcode = OP_NOTIF" | "opcode = OP_ELSE" | "opcode = OP_ENDIF"
  | "opcode = OP_CODESEPARATOR"
  | "opcode \<noteq> OP_IF" "opcode \<noteq> OP_NOTIF" "opcode \<noteq> OP_ELSE" "opcode \<noteq> OP_ENDIF"
    "opcode \<noteq> OP_CODESEPARATOR"
  by blast

lemma control_distinct [simp]:
  "OP_ELSE \<noteq> OP_IF" "OP_ELSE \<noteq> OP_NOTIF" "OP_ENDIF \<noteq> OP_IF" "OP_ENDIF \<noteq> OP_NOTIF"
  "OP_ENDIF \<noteq> OP_ELSE" "OP_CODESEPARATOR \<noteq> OP_IF" "OP_CODESEPARATOR \<noteq> OP_NOTIF"
  "OP_CODESEPARATOR \<noteq> OP_ELSE" "OP_CODESEPARATOR \<noteq> OP_ENDIF"
  by (simp_all add: opcode_defs)

lemma eval_op_control:
  assumes "eval_op E chk fExec opcode pc st = (True, st')"
  shows "nesting (length (es_vfExec st)) ((opcode, vch) # ops) = nesting (length (es_vfExec st')) ops
     \<and> es_nOpCount st \<le> es_nOpCount st' \<and> (es_nOpCount st \<le> 201 \<longrightarrow> es_nOpCount st' \<le> 201)"
proof (cases opcode rule: opcode_cases)
  case 1
  then show ?thesis using assms
    by (auto simp: eval_op_conditional op_if_def stop_def Let_def split: if_splits list.splits)
next
  case 2
  then show ?thesis using assms
    by (auto simp: eval_op_conditional op_else_def stop_def split: list.splits)
next
  case 3
  then show ?thesis using assms
    by (auto simp: eval_op_conditional op_endif_def stop_def split: list.splits)
next
  case 4
  then show ?thesis using assms by (auto simp: eval_op_codeseparator)
next
  case 5
  then have "keeps_control st (True, st')" using eval_op_keeps [OF 5] assms by metis
  then show ?thesis using 5 by (simp add: keeps_control_def)
qed

lemma count_op_simps [simp]:
  "es_stack (count_op opcode st) = es_stack st"
  "es_altstack (count_op opcode st) = es_altstack st"
  "es_vfExec (count_op opcode st) = es_vfExec st"
  "es_codehash (count_op opcode st) = es_codehash st"
  "es_sigs (count_op opcode st) = es_sigs st"
  "es_nOpCount (count_op opcode st) = es_nOpCount st + of_bool (OP_16 < opcode)"
  by (simp_all add: count_op_def)

lemma eval_step_True:
  "eval_step E chk opcode vch pc st = (True, st') \<longleftrightarrow>
     length vch \<le> 520 \<and> \<not> (OP_16 < opcode \<and> 201 < es_nOpCount (count_op opcode st)) \<and>
     \<not> disabled_opcode opcode \<and>
     eval_exec E chk opcode vch pc (count_op opcode st) = (True, st') \<and>
     length (es_stack st') + length (es_altstack st') \<le> 1000"
  by (auto simp: eval_step_def Let_def stop_def split: prod.split bool.split if_splits)

lemma eval_exec_control:
  assumes "eval_exec E chk opcode vch pc st = (True, st')"
  shows "nesting (length (es_vfExec st)) ((opcode, vch) # ops) = nesting (length (es_vfExec st')) ops
    \<and> es_nOpCount st \<le> es_nOpCount st' \<and> (es_nOpCount st \<le> 201 \<longrightarrow> es_nOpCount st' \<le> 201)"
proof (cases "fExec_of st \<and> opcode \<le> OP_PUSHDATA4")
  case True
  then have "opcode \<notin> {OP_IF, OP_NOTIF, OP_ELSE, OP_ENDIF}" by (auto simp: opcode_defs)
  then show ?thesis using assms True by (auto simp: eval_exec_def set_stack_def)
next
  case False
  show ?thesis
  proof (cases "fExec_of st \<or> OP_IF \<le> opcode \<and> opcode \<le> OP_ENDIF")
    case True
    with False assms have "eval_op E chk (fExec_of st) opcode pc st = (True, st')"
      by (simp only: eval_exec_def if_False if_True)
    then show ?thesis by (rule eval_op_control)
  next
    case no: False
    then have "opcode \<notin> {OP_IF, OP_NOTIF, OP_ELSE, OP_ENDIF}" by (auto simp: opcode_defs)
    then show ?thesis using assms no False by (auto simp: eval_exec_def)
  qed
qed

lemma eval_step_control:
  assumes "eval_step E chk opcode vch pc st = (True, st')"
  shows "nesting (length (es_vfExec st)) ((opcode, vch) # ops) = nesting (length (es_vfExec st')) ops
    \<and> es_nOpCount st + of_bool (OP_16 < opcode) \<le> es_nOpCount st'
    \<and> (es_nOpCount st \<le> 201 \<longrightarrow> es_nOpCount st' \<le> 201)"
  using assms eval_exec_control [of E chk opcode vch pc "count_op opcode st" st']
  by (auto simp: eval_step_True of_bool_def split: if_splits)

text \<open>
  What a script has to satisfy for the interpreter to get through it, whatever the stack
  and the signatures: this is a condition on its instructions alone.
\<close>

definition acceptable_op :: "nat \<times> valtype \<Rightarrow> bool" where
  "acceptable_op = (\<lambda>(opcode, vch). \<not> disabled_opcode opcode \<and> length vch \<le> 520)"

lemma eval_loop_cases:
  assumes "eval_loop E chk pc st = (True, st')"
  obtains "pc = []" "st' = st"
  | pc' opcode vch st1 where "GetOp2 pc = Op pc' opcode vch" "pc \<noteq> []"
      "eval_step E chk opcode vch pc' st = (True, st1)" "eval_loop E chk pc' st1 = (True, st')"
  using assms
  by (auto simp: eval_loop.simps [of E chk pc st] stop_def
      split: if_splits getop.splits prod.splits bool.splits)

lemma eval_loop_induct [consumes 1, case_names Done Step]:
  assumes "eval_loop E chk pc st = (True, st')"
    and base: "\<And>st. P [] st st"
    and step: "\<And>pc st pc' opcode vch st1 st'.
      GetOp2 pc = Op pc' opcode vch \<Longrightarrow> pc \<noteq> [] \<Longrightarrow>
      eval_step E chk opcode vch pc' st = (True, st1) \<Longrightarrow> P pc' st1 st' \<Longrightarrow> P pc st st'"
  shows "P pc st st'"
  using assms(1)
proof (induction "length pc" arbitrary: pc st rule: less_induct)
  case less
  from less.prems show ?case
  proof (cases rule: eval_loop_cases)
    case (2 pc' opcode vch st1)
    have "P pc' st1 st'" using less.hyps [OF GetOp2_length [OF 2(1)] 2(4)] .
    with 2 show ?thesis by (rule_tac step)
  qed (simp add: base)
qed

lemma eval_loop_static:
  assumes "eval_loop E chk pc st = (True, st')" and "es_nOpCount st \<le> 201"
  shows "\<exists>ops. script_ops pc = Some ops \<and> list_all acceptable_op ops \<and>
      nesting (length (es_vfExec st)) ops = Some (length (es_vfExec st')) \<and>
      es_nOpCount st + int (counted_ops ops) \<le> es_nOpCount st' \<and> es_nOpCount st' \<le> 201"
  using assms
proof (induction rule: eval_loop_induct)
  case (Done st)
  then show ?case by (simp add: script_ops.simps counted_ops_def)
next
  case (Step pc st pc' opcode vch st1 st')
  from eval_step_control [OF Step(3)] Step(5) have "es_nOpCount st1 \<le> 201" by blast
  from Step.IH [OF this] obtain ops where ops: "script_ops pc' = Some ops" "list_all acceptable_op ops"
      "nesting (length (es_vfExec st1)) ops = Some (length (es_vfExec st'))"
      "es_nOpCount st1 + int (counted_ops ops) \<le> es_nOpCount st'" "es_nOpCount st' \<le> 201"
    by blast
  have "script_ops pc = Some ((opcode, vch) # ops)"
    using Step(1,2) ops(1) by (simp add: script_ops.simps [of pc])
  moreover have "acceptable_op (opcode, vch)"
    using Step(3) by (simp add: eval_step_True acceptable_op_def)
  moreover have "nesting (length (es_vfExec st)) ((opcode, vch) # ops) = Some (length (es_vfExec st'))"
    using eval_step_control [OF Step(3), of ops] ops(3) by simp
  moreover have "es_nOpCount st + int (counted_ops ((opcode, vch) # ops)) \<le> es_nOpCount st'"
    using eval_step_control [OF Step(3), of ops] ops(4) by (auto simp: counted_ops_def split: if_splits)
  ultimately show ?case using ops(2,5) by (intro exI [of _ "(opcode, vch) # ops"]) simp
qed

lemma eval_loop_stack:
  assumes "eval_loop E chk pc st = (True, st')"
    and "length (es_stack st) + length (es_altstack st) \<le> 1000"
  shows "length (es_stack st') + length (es_altstack st') \<le> 1000"
  using assms by (induction rule: eval_loop_induct) (simp_all add: eval_step_True)

text \<open>C18: A script that succeeds passes static checks that need no execution: it is at most
  10000 bytes, it splits into instructions, none is disabled or pushes more than 520 bytes,
  its conditionals are balanced, and at most 201 of its instructions count as operations.\<close>

theorem EvalScript_static:
  assumes "EvalScript E chk stack script c = (True, stack', c')"
  shows "length script \<le> 10000 \<and>
    (\<exists>ops. script_ops script = Some ops \<and> list_all acceptable_op ops \<and>
       nesting 0 ops = Some 0 \<and> counted_ops ops \<le> 201)"
proof -
  from assms obtain st where len: "length script \<le> 10000" and
    loop: "eval_loop E chk script (eval_start stack script c) = (True, st)" and "es_vfExec st = []"
    by (auto simp: EvalScript_def split: if_splits prod.splits)
  with eval_loop_static [OF loop] show ?thesis by (auto simp: eval_start_def)
qed

subsection \<open>A checker with a state of its own\<close>

text \<open>
  A checker that keeps a state, such as a cache, and the verdict it stands for.
\<close>

definition pure_checker :: "(valtype \<Rightarrow> valtype \<Rightarrow> byte list \<Rightarrow> bool) \<Rightarrow> unit checker" where
  "pure_checker spec c vchSig vchPubKey code = (spec vchSig vchPubKey code, ())"

definition erase :: "'c eval_state \<Rightarrow> unit eval_state" where
  "erase st = \<lparr>es_stack = es_stack st, es_altstack = es_altstack st, es_vfExec = es_vfExec st,
     es_nOpCount = es_nOpCount st, es_codehash = es_codehash st, es_sigs = ()\<rparr>"

lemma erase_simps [simp]:
  "es_stack (erase st) = es_stack st"
  "es_altstack (erase st) = es_altstack st"
  "es_vfExec (erase st) = es_vfExec st"
  "es_nOpCount (erase st) = es_nOpCount st"
  "es_codehash (erase st) = es_codehash st"
  "erase (st\<lparr>es_stack := s\<rparr>) = (erase st)\<lparr>es_stack := s\<rparr>"
  "erase (st\<lparr>es_altstack := s\<rparr>) = (erase st)\<lparr>es_altstack := s\<rparr>"
  "erase (st\<lparr>es_vfExec := v\<rparr>) = (erase st)\<lparr>es_vfExec := v\<rparr>"
  "erase (st\<lparr>es_nOpCount := n\<rparr>) = (erase st)\<lparr>es_nOpCount := n\<rparr>"
  "erase (st\<lparr>es_codehash := h\<rparr>) = (erase st)\<lparr>es_codehash := h\<rparr>"
  "erase (st\<lparr>es_sigs := c\<rparr>) = erase st"
  "fExec_of (erase st) = fExec_of st"
  "count_op opcode (erase st) = erase (count_op opcode st)"
  by (simp_all add: erase_def fExec_of_def count_op_def)

lemma erase_unit [simp]: "(erase st)\<lparr>es_sigs := c\<rparr> = erase st"
  by (simp add: erase_def)

locale checker_refinement =
  fixes chk :: "'c checker"
    and spec :: "valtype \<Rightarrow> valtype \<Rightarrow> byte list \<Rightarrow> bool"
    and sig_inv :: "'c \<Rightarrow> bool"
  assumes chk_spec: "sig_inv c \<Longrightarrow> fst (chk c vchSig vchPubKey code) = spec vchSig vchPubKey code"
    and chk_inv: "sig_inv c \<Longrightarrow> sig_inv (snd (chk c vchSig vchPubKey code))"
begin

definition refines :: "'c outcome \<Rightarrow> unit outcome \<Rightarrow> bool" where
  "refines out out' \<longleftrightarrow>
     fst out = fst out' \<and> erase (snd out) = snd out' \<and> sig_inv (es_sigs (snd out))"

lemma refines_simple:
  assumes "sig_inv (es_sigs st)"
  shows "refines (op_push_number E opcode st) (op_push_number E opcode (erase st))"
    "refines (op_if f opcode st) (op_if f opcode (erase st))"
    "refines (op_else st) (op_else (erase st))"
    "refines (op_endif st) (op_endif (erase st))"
    "refines (op_verify st) (op_verify (erase st))"
    "refines (op_toaltstack st) (op_toaltstack (erase st))"
    "refines (op_fromaltstack st) (op_fromaltstack (erase st))"
    "refines (op_stack E opcode st) (op_stack E opcode (erase st))"
    "refines (op_pick_roll E opcode st) (op_pick_roll E opcode (erase st))"
  using assms
  by (simp_all add: refines_def op_push_number_def op_if_def op_else_def op_endif_def op_verify_def
      op_toaltstack_def op_fromaltstack_def op_stack_def op_pick_roll_def plain_ops
      split: list.split option.split)

lemma refines_values:
  assumes "sig_inv (es_sigs st)"
  shows "refines (op_splice E opcode st) (op_splice E opcode (erase st))"
    "refines (op_bitwise opcode st) (op_bitwise opcode (erase st))"
    "refines (op_equal opcode st) (op_equal opcode (erase st))"
    "refines (op_unary E opcode st) (op_unary E opcode (erase st))"
    "refines (op_binary E opcode st) (op_binary E opcode (erase st))"
    "refines (op_within E st) (op_within E (erase st))"
    "refines (op_digest E opcode st) (op_digest E opcode (erase st))"
  using assms
  by (simp_all add: refines_def op_splice_def op_bitwise_def op_equal_def op_unary_def
      op_binary_def op_within_def op_digest_def plain_ops split: list.split option.split prod.split)

lemma refines_checksig:
  assumes "sig_inv (es_sigs st)"
  shows "refines (op_checksig chk opcode st) (op_checksig (pure_checker spec) opcode (erase st))"
  using assms chk_spec chk_inv
  by (simp add: refines_def op_checksig_def pure_checker_def plain_ops case_prod_beta
      split: list.split)

lemma multisig_refines:
  "sig_inv c \<Longrightarrow> fst (multisig_loop chk code c sigs keys) =
      fst (multisig_loop (pure_checker spec) code () sigs keys) \<and>
    sig_inv (snd (multisig_loop chk code c sigs keys))"
proof (induction keys arbitrary: sigs c)
  case Nil
  then show ?case by (cases sigs) simp_all
next
  case (Cons k ks)
  then show ?case
    by (cases sigs) (simp_all add: pure_checker_def case_prod_beta Let_def chk_spec chk_inv)
qed

lemma refines_checkmultisig:
  assumes "sig_inv (es_sigs st)"
  shows "refines (op_checkmultisig E chk opcode st)
     (op_checkmultisig E (pure_checker spec) opcode (erase st))"
  using assms multisig_refines [OF assms]
  by (simp add: refines_def op_checkmultisig_def plain_ops case_prod_beta split: option.split)

lemma refines_if:
  "(refines a a') \<Longrightarrow> (refines b b') \<Longrightarrow> refines (if t then a else b) (if t then a' else b')"
  by simp

lemma refines_step_op:
  assumes "sig_inv (es_sigs st)"
  shows "refines (eval_op E chk f opcode pc st) (eval_op E (pure_checker spec) f opcode pc (erase st))"
proof -
  have "refines (True, st) (True, erase st)" "refines (stop st) (stop (erase st))"
    "refines (True, st\<lparr>es_codehash := pc\<rparr>) (True, (erase st)\<lparr>es_codehash := pc\<rparr>)"
    using assms by (simp_all add: refines_def stop_def)
  then show ?thesis
    unfolding eval_op_def
    by (intro refines_if refines_simple refines_values refines_checksig refines_checkmultisig assms)
qed

lemma refines_exec:
  assumes "sig_inv (es_sigs st)"
  shows "refines (eval_exec E chk opcode vch pc st) (eval_exec E (pure_checker spec) opcode vch pc (erase st))"
  unfolding eval_exec_def erase_simps
  by (intro refines_if refines_step_op assms)
    (use assms in \<open>simp_all add: refines_def set_stack_def\<close>)

lemma refines_step:
  assumes "sig_inv (es_sigs st)"
  shows "refines (eval_step E chk opcode vch pc st) (eval_step E (pure_checker spec) opcode vch pc (erase st))"
proof -
  have "sig_inv (es_sigs (count_op opcode st))" using assms by simp
  note ex = refines_exec [OF this, of E opcode vch pc]
  obtain go st1 where a: "eval_exec E chk opcode vch pc (count_op opcode st) = (go, st1)" by force
  with ex have b: "eval_exec E (pure_checker spec) opcode vch pc (count_op opcode (erase st)) = (go, erase st1)"
    and i: "sig_inv (es_sigs st1)" by (auto simp: refines_def prod_eq_iff)
  show ?thesis
    using assms i unfolding eval_step_def Let_def a b
    by (cases go) (simp_all add: refines_def stop_def)
qed

lemma refines_loop:
  "sig_inv (es_sigs st) \<Longrightarrow> refines (eval_loop E chk pc st) (eval_loop E (pure_checker spec) pc (erase st))"
proof (induction "length pc" arbitrary: pc st rule: less_induct)
  case less
  show ?case
  proof (cases "GetOp2 pc")
    case (Op pc' opcode vch)
    then have ne: "pc \<noteq> []" by auto
    have step: "refines (eval_step E chk opcode vch pc' st)
        (eval_step E (pure_checker spec) opcode vch pc' (erase st))"
      using less.prems by (rule refines_step)
    note ih = less.hyps [OF GetOp2_length [OF Op]]
    show ?thesis
    proof (cases "eval_step E chk opcode vch pc' st")
      case (Pair go st1)
      with step have s: "eval_step E (pure_checker spec) opcode vch pc' (erase st) = (go, erase st1)"
        and i: "sig_inv (es_sigs st1)" by (auto simp: refines_def prod_eq_iff)
      show ?thesis
        using Op ne Pair s i ih [OF i]
        by (cases go) (simp_all add: eval_loop.simps [of E _ pc] stop_def refines_def)
    qed
  next
    case (BadOp pc')
    then show ?thesis using less.prems
      by (simp add: eval_loop.simps [of E _ pc] refines_def stop_def)
  qed
qed

lemma EvalScript_refines:
  assumes "sig_inv c" and "EvalScript E chk stack script c = (ok, stack', c')"
  shows "EvalScript E (pure_checker spec) stack script () = (ok, stack', ())" "sig_inv c'"
proof -
  have e: "erase (eval_start stack script c) = eval_start stack script ()"
    by (simp add: erase_def eval_start_def)
  have "refines (eval_loop E chk script (eval_start stack script c))
     (eval_loop E (pure_checker spec) script (eval_start stack script ()))"
    using refines_loop [of "eval_start stack script c" E script] assms(1)
    unfolding e by (simp add: eval_start_def)
  then show "EvalScript E (pure_checker spec) stack script () = (ok, stack', ())" "sig_inv c'"
    using assms by (auto simp: EvalScript_def refines_def split: if_splits prod.splits)
qed

end

end
