(* ===== verification/Key.thy ===== *)
theory Key
  imports Transaction
begin

text \<open>
  Keys (\<open>src/key.h\<close>, \<open>src/key.cpp\<close>): public keys, \<open>CKey\<close> around an OpenSSL key object,
  signing, verifying and compact signatures. The key object is a value of type \<open>'k\<close>;
  the calls into the library are the fields of the record \<open>ecdsa\<close>, each a function of the
  object and the arguments the code passes. A \<open>key_error\<close> exception is \<open>None\<close>.
\<close>

record 'k ecdsa =
  EC_KEY_new :: 'k
  EC_KEY_check_key :: "'k \<Rightarrow> bool"
  EC_KEY_set_compressed :: "'k \<Rightarrow> 'k"
  EC_KEY_regenerate_key :: "'k \<Rightarrow> nat \<Rightarrow> 'k option"
  EC_KEY_get0_private_key :: "'k \<Rightarrow> nat option"
  o2i_ECPublicKey :: "'k \<Rightarrow> valtype \<Rightarrow> 'k option"
  i2o_ECPublicKey :: "'k \<Rightarrow> valtype"
  ECDSA_sign :: "'k \<Rightarrow> uint256 \<Rightarrow> valtype option"
  ECDSA_verify :: "'k \<Rightarrow> uint256 \<Rightarrow> valtype \<Rightarrow> int"
  d2i_ECDSA_SIG :: "valtype \<Rightarrow> (nat \<times> nat) option"
  i2d_ECDSA_SIG :: "nat \<times> nat \<Rightarrow> valtype"
  ECDSA_do_sign :: "'k \<Rightarrow> uint256 \<Rightarrow> (nat \<times> nat) option"
  ECDSA_SIG_recover_key :: "'k \<Rightarrow> nat \<times> nat \<Rightarrow> uint256 \<Rightarrow> nat \<Rightarrow> bool \<Rightarrow> 'k option"

record 'k CKey =
  ck_pkey :: 'k
  ck_fSet :: bool
  ck_fCompressedPubKey :: bool

subsection \<open>Public keys\<close>

text \<open>A \<open>CPubKey\<close> is its bytes.\<close>

definition GetLen :: "byte \<Rightarrow> nat" where
  "GetLen chHeader =
     (if chHeader = 2 \<or> chHeader = 3 then 33
      else if chHeader = 4 \<or> chHeader = 6 \<or> chHeader = 7 then 65
      else 0)"

definition CPubKey_GetID :: "openssl \<Rightarrow> valtype \<Rightarrow> uint160" where
  "CPubKey_GetID E vchPubKey = Hash160 E vchPubKey"

definition CPubKey_GetHash :: "openssl \<Rightarrow> valtype \<Rightarrow> uint256" where
  "CPubKey_GetHash E vchPubKey = Hash E vchPubKey"

definition CPubKey_IsValid :: "valtype \<Rightarrow> bool" where
  "CPubKey_IsValid vchPubKey \<longleftrightarrow> length vchPubKey = 33 \<or> length vchPubKey = 65"

definition CPubKey_IsCompressed :: "valtype \<Rightarrow> bool" where
  "CPubKey_IsCompressed vchPubKey \<longleftrightarrow> length vchPubKey = 33"

subsection \<open>Key objects\<close>

definition SetCompressedPubKey :: "'k ecdsa \<Rightarrow> 'k CKey \<Rightarrow> 'k CKey" where
  "SetCompressedPubKey L key =
     key\<lparr>ck_pkey := EC_KEY_set_compressed L (ck_pkey key), ck_fCompressedPubKey := True\<rparr>"

definition CKey_Reset :: "'k ecdsa \<Rightarrow> 'k CKey" where
  "CKey_Reset L = \<lparr>ck_pkey = EC_KEY_new L, ck_fSet = False, ck_fCompressedPubKey = False\<rparr>"

definition CKey_IsNull :: "'k CKey \<Rightarrow> bool" where
  "CKey_IsNull key \<longleftrightarrow> \<not> ck_fSet key"

definition SetSecret :: "'k ecdsa \<Rightarrow> 'k CKey \<Rightarrow> valtype \<Rightarrow> bool \<Rightarrow> 'k CKey option" where
  "SetSecret L key vchSecret fCompressed =
     (if length vchSecret \<noteq> 32 then None
      else case EC_KEY_regenerate_key L (EC_KEY_new L) (be_value vchSecret) of
             None \<Rightarrow> None
           | Some pkey \<Rightarrow>
               let key = key\<lparr>ck_pkey := pkey, ck_fSet := True\<rparr>
               in Some (if fCompressed \<or> ck_fCompressedPubKey key
                        then SetCompressedPubKey L key else key))"

text \<open>The secret is written right-aligned into 32 bytes, with the compression flag.\<close>

definition GetSecret :: "'k ecdsa \<Rightarrow> 'k CKey \<Rightarrow> (valtype \<times> bool) option" where
  "GetSecret L key =
     (case EC_KEY_get0_private_key L (ck_pkey key) of
        None \<Rightarrow> None
      | Some bn \<Rightarrow> Some (be_bytes 32 bn, ck_fCompressedPubKey key))"

definition SetPrivKey_Raw :: "'k ecdsa \<Rightarrow> 'k CKey \<Rightarrow> uint256 \<Rightarrow> bool \<Rightarrow> 'k CKey option" where
  "SetPrivKey_Raw L key privKey fCompressed =
     (case EC_KEY_regenerate_key L (EC_KEY_new L) (unat privKey) of
        None \<Rightarrow> None
      | Some pkey \<Rightarrow>
          let key = key\<lparr>ck_pkey := pkey, ck_fSet := True\<rparr>
          in Some (if fCompressed \<or> ck_fCompressedPubKey key
                   then SetCompressedPubKey L key else key))"

definition SetPubKey :: "'k ecdsa \<Rightarrow> 'k CKey \<Rightarrow> valtype \<Rightarrow> bool \<times> 'k CKey" where
  "SetPubKey L key vchPubKey =
     (case o2i_ECPublicKey L (ck_pkey key) vchPubKey of
        None \<Rightarrow> (False, CKey_Reset L)
      | Some pkey \<Rightarrow>
          let key = key\<lparr>ck_pkey := pkey, ck_fSet := True\<rparr>
          in (True, if length vchPubKey = 33 then SetCompressedPubKey L key else key))"

definition GetPubKey :: "'k ecdsa \<Rightarrow> 'k CKey \<Rightarrow> valtype option" where
  "GetPubKey L key =
     (let vch = i2o_ECPublicKey L (ck_pkey key) in if vch = [] then None else Some vch)"

definition CKey_Sign :: "'k ecdsa \<Rightarrow> 'k CKey \<Rightarrow> uint256 \<Rightarrow> bool \<times> valtype" where
  "CKey_Sign L key hash =
     (case ECDSA_sign L (ck_pkey key) hash of None \<Rightarrow> (False, []) | Some sig \<Rightarrow> (True, sig))"

text \<open>
  \<open>Verify\<close> first shortens an over-long DER length (more than four length bytes, the extra
  ones zero); \<open>None\<close> is the early \<open>return false\<close>.
\<close>

definition strip_length_bytes :: "valtype \<Rightarrow> valtype option" where
  "strip_length_bytes vchSig =
     (if 1 < length vchSig \<and> vchSig ! 1 AND 0x80 \<noteq> 0
      then let nLengthBytes = unat (vchSig ! 1 AND 0x7f)
           in if length vchSig < 2 + nLengthBytes then None
              else if 4 < nLengthBytes
              then let nExtraBytes = nLengthBytes - 4
                   in if list_ex (\<lambda>b. b \<noteq> 0) (take nExtraBytes (drop 2 vchSig)) then None
                      else Some ((take 2 vchSig @ drop (2 + nExtraBytes) vchSig)
                             [1 := 0x80 OR word_of_nat (nLengthBytes - nExtraBytes)])
              else Some vchSig
      else Some vchSig)"

definition CKey_Verify :: "'k ecdsa \<Rightarrow> 'k CKey \<Rightarrow> uint256 \<Rightarrow> valtype \<Rightarrow> bool" where
  "CKey_Verify L key hash vchSigParam =
     (case strip_length_bytes vchSigParam of
        None \<Rightarrow> False
      | Some vchSig \<Rightarrow>
          if vchSig = [] then False
          else case d2i_ECDSA_SIG L vchSig of
                 None \<Rightarrow> False
               | Some norm_sig \<Rightarrow>
                   let norm_der = i2d_ECDSA_SIG L norm_sig
                   in if norm_der = [] then False
                      else ECDSA_verify L (ck_pkey key) hash norm_der = 1)"

definition SetCompactSignature :: "'k ecdsa \<Rightarrow> 'k CKey \<Rightarrow> uint256 \<Rightarrow> valtype \<Rightarrow> bool \<times> 'k CKey" where
  "SetCompactSignature L key hash vchSig =
     (if length vchSig \<noteq> 65 then (False, key)
      else let nV = unat (vchSig ! 0)
           in if nV < 27 \<or> 35 \<le> nV then (False, key)
              else let sig = (be_value (take 32 (drop 1 vchSig)), be_value (take 32 (drop 33 vchSig)));
                       key = key\<lparr>ck_pkey := EC_KEY_new L\<rparr>;
                       (key, nV) = (if 31 \<le> nV then (SetCompressedPubKey L key, nV - 4) else (key, nV))
                   in case ECDSA_SIG_recover_key L (ck_pkey key) sig hash (nV - 27) False of
                        None \<Rightarrow> (False, key)
                      | Some pkey \<Rightarrow> (True, key\<lparr>ck_pkey := pkey, ck_fSet := True\<rparr>))"

text \<open>The search for the recovery id that gives this key back; \<open>None\<close> is the exception.\<close>

fun find_rec_id :: "'k ecdsa \<Rightarrow> 'k CKey \<Rightarrow> nat \<times> nat \<Rightarrow> uint256 \<Rightarrow> nat list \<Rightarrow> nat option" where
  "find_rec_id L key sig hash [] = None"
| "find_rec_id L key sig hash (i # is) =
     (let keyRec = CKey_Reset L;
          keyRec = keyRec\<lparr>ck_fSet := True\<rparr>;
          keyRec = (if ck_fCompressedPubKey key then SetCompressedPubKey L keyRec else keyRec)
      in case ECDSA_SIG_recover_key L (ck_pkey keyRec) sig hash i True of
           Some pkey \<Rightarrow>
             (case (GetPubKey L (keyRec\<lparr>ck_pkey := pkey\<rparr>), GetPubKey L key) of
                (Some a, Some b) \<Rightarrow> if a = b then Some i else find_rec_id L key sig hash is
              | _ \<Rightarrow> None)
         | None \<Rightarrow> find_rec_id L key sig hash is)"

definition SignCompact ::
  "'k ecdsa \<Rightarrow> 'k CKey \<Rightarrow> uint256 \<Rightarrow> valtype \<Rightarrow> (bool \<times> valtype) option" where
  "SignCompact L key hash vchSig =
     (case ECDSA_do_sign L (ck_pkey key) hash of
        None \<Rightarrow> Some (False, vchSig)
      | Some (r, s) \<Rightarrow>
          if r < 2 ^ 256 \<and> s < 2 ^ 256
          then (case find_rec_id L key (r, s) hash [0, 1, 2, 3] of
                  None \<Rightarrow> None
                | Some nRecId \<Rightarrow>
                    Some (True, word_of_nat (nRecId + 27 + (if ck_fCompressedPubKey key then 4 else 0)) #
                      be_bytes 32 r @ be_bytes 32 s))
          else Some (False, replicate 65 0))"

definition VerifyCompact :: "'k ecdsa \<Rightarrow> 'k CKey \<Rightarrow> uint256 \<Rightarrow> valtype \<Rightarrow> bool option" where
  "VerifyCompact L this hash vchSig =
     (case SetCompactSignature L (CKey_Reset L) hash vchSig of
        (False, _) \<Rightarrow> Some False
      | (True, key) \<Rightarrow>
          (case (GetPubKey L this, GetPubKey L key) of
             (Some a, Some b) \<Rightarrow> Some (a = b)
           | _ \<Rightarrow> None))"

definition CKey_IsValid :: "'k ecdsa \<Rightarrow> 'k CKey \<Rightarrow> bool option" where
  "CKey_IsValid L key =
     (if \<not> ck_fSet key then Some False
      else if \<not> EC_KEY_check_key L (ck_pkey key) then Some False
      else case GetSecret L key of
             None \<Rightarrow> None
           | Some (secret, fCompr) \<Rightarrow>
               (case SetSecret L (CKey_Reset L) secret fCompr of
                  None \<Rightarrow> None
                | Some key2 \<Rightarrow>
                    (case (GetPubKey L key, GetPubKey L key2) of
                       (Some a, Some b) \<Rightarrow> Some (a = b)
                     | _ \<Rightarrow> None)))"

end
