(* ===== verification/Script_Verify.thy ===== *)
theory Script_Verify
  imports Script_Interp Key
begin

text \<open>
  Signatures in scripts (\<open>src/script.cpp\<close>): the hash a signature signs, the cache of
  signatures that have been verified, \<open>CheckSig\<close>, \<open>VerifyScript\<close> and \<open>VerifySignature\<close>.
  The cache is the state that the interpreter threads through its signature checks. The
  random numbers that choose an entry to evict are a parameter, a stream read in order.
\<close>

subsection \<open>Signature hash\<close>

definition SIGHASH_ALL :: uint32 where "SIGHASH_ALL = 1"
definition SIGHASH_NONE :: uint32 where "SIGHASH_NONE = 2"
definition SIGHASH_SINGLE :: uint32 where "SIGHASH_SINGLE = 3"
definition SIGHASH_ANYONECANPAY :: uint32 where "SIGHASH_ANYONECANPAY = 0x80"

definition zero_other_sequences :: "nat \<Rightarrow> CTxIn list \<Rightarrow> CTxIn list" where
  "zero_other_sequences nIn vin =
     map (\<lambda>(i, x). if i = nIn then x else x\<lparr>ti_nSequence := 0\<rparr>) (enumerate 0 vin)"

text \<open>The transaction that is hashed; \<open>None\<close> where \<open>SIGHASH_SINGLE\<close> has no output.\<close>

definition signature_tx :: "byte list \<Rightarrow> CTransaction \<Rightarrow> nat \<Rightarrow> uint32 \<Rightarrow> CTransaction option" where
  "signature_tx scriptCode txTo nIn nHashType =
     (let scriptCode = snd (FindAndDelete scriptCode (push_op OP_CODESEPARATOR));
          vin = map (\<lambda>x. x\<lparr>ti_scriptSig := []\<rparr>) (tx_vin txTo);
          vin = vin[nIn := (vin ! nIn)\<lparr>ti_scriptSig := scriptCode\<rparr>];
          blanked =
            (if nHashType AND 0x1f = SIGHASH_NONE
             then Some (txTo\<lparr>tx_vin := zero_other_sequences nIn vin, tx_vout := []\<rparr>)
             else if nHashType AND 0x1f = SIGHASH_SINGLE
             then (if length (tx_vout txTo) \<le> nIn then None
                   else Some (txTo\<lparr>tx_vin := zero_other_sequences nIn vin,
                          tx_vout := replicate nIn CTxOut_SetNull @ [tx_vout txTo ! nIn]\<rparr>))
             else Some (txTo\<lparr>tx_vin := vin\<rparr>))
      in case blanked of None \<Rightarrow> None
         | Some txTmp \<Rightarrow>
             Some (if nHashType AND SIGHASH_ANYONECANPAY \<noteq> 0
                   then txTmp\<lparr>tx_vin := [tx_vin txTmp ! nIn]\<rparr> else txTmp))"

definition SignatureHash ::
  "openssl \<Rightarrow> byte list \<Rightarrow> CTransaction \<Rightarrow> nat \<Rightarrow> uint32 \<Rightarrow> uint256" where
  "SignatureHash E scriptCode txTo nIn nHashType =
     (if length (tx_vin txTo) \<le> nIn then 1
      else case signature_tx scriptCode txTo nIn nHashType of
             None \<Rightarrow> 1
           | Some txTmp \<Rightarrow> Hash E (ser_tx txTmp @ bytes_of_u32 nHashType))"

subsection \<open>The signature cache\<close>

text \<open>
  \<open>setValid\<close> is an ordered set of triples; it is the strictly increasing list of its
  elements. The byte vectors compare lexicographically.
\<close>

type_synonym sigdata_type = "uint256 \<times> valtype \<times> valtype"

fun bytes_less :: "byte list \<Rightarrow> byte list \<Rightarrow> bool" where
  "bytes_less [] [] = False"
| "bytes_less [] (y # ys) = True"
| "bytes_less (x # xs) [] = False"
| "bytes_less (x # xs) (y # ys) = (x < y \<or> x = y \<and> bytes_less xs ys)"

definition sigdata_less :: "sigdata_type \<Rightarrow> sigdata_type \<Rightarrow> bool" where
  "sigdata_less a b =
     (case (a, b) of ((h, s, k), (h', s', k')) \<Rightarrow>
        h < h' \<or> h = h' \<and> (bytes_less s s' \<or> s = s' \<and> bytes_less k k'))"

fun set_insert :: "sigdata_type \<Rightarrow> sigdata_type list \<Rightarrow> sigdata_type list" where
  "set_insert x [] = [x]"
| "set_insert x (y # ys) =
     (if sigdata_less x y then x # y # ys
      else if x = y then y # ys
      else y # set_insert x ys)"

record sigcache =
  sc_setValid :: "sigdata_type list"
  sc_draws :: nat

definition cache_Get :: "sigcache \<Rightarrow> sigdata_type \<Rightarrow> bool" where
  "cache_Get c k \<longleftrightarrow> k \<in> set (sc_setValid c)"

text \<open>
  \<open>lower_bound\<close> of a random hash with empty vectors, or the first entry when there is none.
\<close>

definition evict_entry :: "uint256 \<Rightarrow> sigdata_type list \<Rightarrow> sigdata_type list" where
  "evict_entry randomHash setValid =
     (case List.find (\<lambda>e. \<not> sigdata_less e (randomHash, [], [])) setValid of
        Some e \<Rightarrow> remove1 e setValid
      | None \<Rightarrow> tl setValid)"

lemma evict_entry_length: "s \<noteq> [] \<Longrightarrow> length (evict_entry r s) < length s"
proof (cases "List.find (\<lambda>e. \<not> sigdata_less e (r, [], [])) s")
  case (Some e)
  then have "e \<in> set s" by (auto simp: find_Some_iff)
  moreover assume "s \<noteq> []"
  ultimately show ?thesis using Some by (auto simp: evict_entry_def length_remove1)
qed (auto simp: evict_entry_def)

function evict_loop :: "(nat \<Rightarrow> uint256) \<Rightarrow> int \<Rightarrow> sigdata_type list \<Rightarrow> nat \<Rightarrow> sigcache" where
  "evict_loop GetRandHash nMaxCacheSize setValid draws =
     (if setValid \<noteq> [] \<and> nMaxCacheSize < int (length setValid)
      then evict_loop GetRandHash nMaxCacheSize
             (evict_entry (GetRandHash draws) setValid) (draws + 1)
      else \<lparr>sc_setValid = setValid, sc_draws = draws\<rparr>)"
  by pat_completeness auto
termination
  by (relation "measure (\<lambda>(g, m, s, d). length s)") (auto simp: evict_entry_length)

declare evict_loop.simps [simp del]

definition cache_Set :: "(nat \<Rightarrow> uint256) \<Rightarrow> int \<Rightarrow> sigcache \<Rightarrow> sigdata_type \<Rightarrow> sigcache" where
  "cache_Set GetRandHash nMaxCacheSize c k =
     (if nMaxCacheSize \<le> 0 then c
      else let c = evict_loop GetRandHash nMaxCacheSize (sc_setValid c) (sc_draws c)
           in c\<lparr>sc_setValid := set_insert k (sc_setValid c)\<rparr>)"

subsection \<open>Checking a signature\<close>

text \<open>
  What a signature check depends on besides the cache: the libraries, the random stream,
  the size limit of the cache, and the transaction, input and hash type being checked.
\<close>

record 'k sigenv =
  sv_ssl :: openssl
  sv_ec :: "'k ecdsa"
  sv_rand :: "nat \<Rightarrow> uint256"
  sv_maxcache :: int

definition key_verifies :: "'k sigenv \<Rightarrow> sigdata_type \<Rightarrow> bool" where
  "key_verifies V k =
     (case k of (sighash, vchSig, vchPubKey) \<Rightarrow>
        (case SetPubKey (sv_ec V) (CKey_Reset (sv_ec V)) vchPubKey of
           (False, _) \<Rightarrow> False
         | (True, key) \<Rightarrow> CKey_Verify (sv_ec V) key sighash vchSig))"

definition CheckSig ::
  "'k sigenv \<Rightarrow> CTransaction \<Rightarrow> nat \<Rightarrow> uint32 \<Rightarrow> sigcache checker" where
  "CheckSig V txTo nIn nHashType c vchSig vchPubKey scriptCode =
     (if vchSig = [] then (False, c)
      else if nHashType \<noteq> 0 \<and> nHashType \<noteq> ucast (last vchSig) then (False, c)
      else let nHashType = ucast (last vchSig);
               vchSig = butlast vchSig;
               k = (SignatureHash (sv_ssl V) scriptCode txTo nIn nHashType, vchSig, vchPubKey)
           in if cache_Get c k then (True, c)
              else if \<not> key_verifies V k then (False, c)
              else (True, cache_Set (sv_rand V) (sv_maxcache V) c k))"

text \<open>The body of \<open>VerifyScript\<close>, given the interpreter with its transaction and hash type.\<close>

definition verify_with ::
  "(valtype list \<Rightarrow> byte list \<Rightarrow> 'c \<Rightarrow> bool \<times> valtype list \<times> 'c) \<Rightarrow> byte list \<Rightarrow> byte list \<Rightarrow>
     bool \<Rightarrow> 'c \<Rightarrow> bool \<times> 'c" where
  "verify_with eval scriptSig scriptPubKey p2sh c =
     (case eval [] scriptSig c of
        (False, _, c) \<Rightarrow> (False, c)
      | (True, stackCopy, c) \<Rightarrow>
          (case eval stackCopy scriptPubKey c of
             (False, _, c) \<Rightarrow> (False, c)
           | (True, stack, c) \<Rightarrow>
               if stack = [] then (False, c)
               else if \<not> CastToBool (hd stack) then (False, c)
               else if p2sh \<and> IsPayToScriptHash scriptPubKey
               then if \<not> IsPushOnly scriptSig then (False, c)
                    else case eval (tl stackCopy) (hd stackCopy) c of
                           (False, _, c) \<Rightarrow> (False, c)
                         | (True, stackCopy, c) \<Rightarrow>
                             if stackCopy = [] then (False, c)
                             else (CastToBool (hd stackCopy), c)
               else (True, c)))"

definition VerifyScript ::
  "'k sigenv \<Rightarrow> byte list \<Rightarrow> byte list \<Rightarrow> CTransaction \<Rightarrow> nat \<Rightarrow> bool \<Rightarrow> uint32 \<Rightarrow> sigcache \<Rightarrow>
     bool \<times> sigcache" where
  "VerifyScript V scriptSig scriptPubKey txTo nIn fValidatePayToScriptHash nHashType c =
     verify_with (EvalScript (sv_ssl V) (CheckSig V txTo nIn nHashType))
       scriptSig scriptPubKey fValidatePayToScriptHash c"

definition VerifySignature ::
  "'k sigenv \<Rightarrow> CTransaction \<Rightarrow> CTransaction \<Rightarrow> nat \<Rightarrow> bool \<Rightarrow> uint32 \<Rightarrow> sigcache \<Rightarrow>
     bool \<times> sigcache" where
  "VerifySignature V txFrom txTo nIn fValidatePayToScriptHash nHashType c =
     (let txin = tx_vin txTo ! nIn; n = unat (op_n (ti_prevout txin))
      in if length (tx_vout txFrom) \<le> n then (False, c)
         else if op_hash (ti_prevout txin) \<noteq> GetHash (sv_ssl V) txFrom then (False, c)
         else VerifyScript V (ti_scriptSig txin) (to_scriptPubKey (tx_vout txFrom ! n)) txTo nIn
                fValidatePayToScriptHash nHashType c)"

subsection \<open>The cache does not change a verdict\<close>

text \<open>
  The verdict without a cache, and the invariant of the cache: every entry is a signature
  that verifies.
\<close>

definition sig_verdict ::
  "'k sigenv \<Rightarrow> CTransaction \<Rightarrow> nat \<Rightarrow> uint32 \<Rightarrow> valtype \<Rightarrow> valtype \<Rightarrow> byte list \<Rightarrow> bool" where
  "sig_verdict V txTo nIn nHashType vchSig vchPubKey scriptCode \<longleftrightarrow>
     vchSig \<noteq> [] \<and> (nHashType = 0 \<or> nHashType = ucast (last vchSig)) \<and>
     key_verifies V (SignatureHash (sv_ssl V) scriptCode txTo nIn (ucast (last vchSig)),
       butlast vchSig, vchPubKey)"

definition cache_ok :: "'k sigenv \<Rightarrow> sigcache \<Rightarrow> bool" where
  "cache_ok V c \<longleftrightarrow> list_all (key_verifies V) (sc_setValid c)"

lemma evict_entry_subset: "set (evict_entry r s) \<subseteq> set s"
  using set_remove1_subset [of _ s] by (cases s) (auto simp: evict_entry_def split: option.splits)

lemma evict_loop_subset: "set (sc_setValid (evict_loop g m s d)) \<subseteq> set s"
proof (induction g m s d rule: evict_loop.induct)
  case (1 g m s d)
  then show ?case
    using evict_entry_subset [of "g d" s]
    by (subst evict_loop.simps) (auto split: if_splits)
qed

lemma set_set_insert: "set (set_insert k s) = insert k (set s)"
  by (induction s) auto

lemma evict_loop_length:
  "0 \<le> m \<Longrightarrow> int (length (sc_setValid (evict_loop g m s d))) \<le> m"
proof (induction g m s d rule: evict_loop.induct)
  case (1 g m s d)
  then show ?case by (subst evict_loop.simps) (auto split: if_splits)
qed

lemma set_insert_length: "length (set_insert k s) \<le> Suc (length s)"
  by (induction s) auto

interpretation sig_check: checker_refinement
  "CheckSig V txTo nIn nHashType" "sig_verdict V txTo nIn nHashType" "cache_ok V"
  for V :: "'k sigenv" and txTo nIn nHashType
proof
  fix c vchSig vchPubKey code
  assume ok: "cache_ok V c"
  then have hit: "cache_Get c k \<Longrightarrow> key_verifies V k" for k
    by (auto simp: cache_ok_def cache_Get_def list_all_iff)
  show "fst (CheckSig V txTo nIn nHashType c vchSig vchPubKey code) =
      sig_verdict V txTo nIn nHashType vchSig vchPubKey code"
    by (auto simp: CheckSig_def sig_verdict_def Let_def dest: hit)
  have "cache_ok V (cache_Set (sv_rand V) (sv_maxcache V) c k)" if "key_verifies V k" for k
    using ok that evict_loop_subset [of "sv_rand V" "sv_maxcache V" "sc_setValid c" "sc_draws c"]
    by (auto simp: cache_ok_def cache_Set_def Let_def list_all_iff set_set_insert)
  with ok show "cache_ok V (snd (CheckSig V txTo nIn nHashType c vchSig vchPubKey code))"
    by (auto simp: CheckSig_def Let_def)
qed

lemma eval_refined:
  assumes "cache_ok V c"
  shows "cache_ok V (snd (snd (EvalScript E (CheckSig V txTo nIn h) stack script c)))"
    "EvalScript E (CheckSig V txTo nIn h) stack script c =
      (fst (EvalScript E (pure_checker (sig_verdict V txTo nIn h)) stack script ()),
       fst (snd (EvalScript E (pure_checker (sig_verdict V txTo nIn h)) stack script ())),
       snd (snd (EvalScript E (CheckSig V txTo nIn h) stack script c)))"
proof -
  obtain ok s c' where e: "EvalScript E (CheckSig V txTo nIn h) stack script c = (ok, s, c')"
    by (metis prod_cases3)
  from sig_check.EvalScript_refines [OF assms e] e
  show "cache_ok V (snd (snd (EvalScript E (CheckSig V txTo nIn h) stack script c)))"
    "EvalScript E (CheckSig V txTo nIn h) stack script c =
      (fst (EvalScript E (pure_checker (sig_verdict V txTo nIn h)) stack script ()),
       fst (snd (EvalScript E (pure_checker (sig_verdict V txTo nIn h)) stack script ())),
       snd (snd (EvalScript E (CheckSig V txTo nIn h) stack script c)))"
    by simp_all
qed

lemma verify_with_refines:
  assumes ev: "\<And>c stack script. ok c \<Longrightarrow> eval stack script c =
      (fst (spec stack script ()), fst (snd (spec stack script ())), snd (snd (eval stack script c)))"
    and inv: "\<And>c stack script. ok c \<Longrightarrow> ok (snd (snd (eval stack script c)))"
    and "ok c"
  shows "fst (verify_with eval scriptSig spk p2sh c) = fst (verify_with spec scriptSig spk p2sh ())
    \<and> ok (snd (verify_with eval scriptSig spk p2sh c))"
proof -
  obtain b1 s1 c1 where e1: "eval [] scriptSig c = (b1, s1, c1)" by (metis prod_cases3)
  with ev [of c "[]" scriptSig] inv [of c "[]" scriptSig] \<open>ok c\<close>
  have p1: "spec [] scriptSig () = (b1, s1, ())" and c1: "ok c1" by (auto simp: prod_eq_iff)
  obtain b2 s2 c2 where e2: "eval s1 spk c1 = (b2, s2, c2)" by (metis prod_cases3)
  with ev [of c1 s1 spk] inv [of c1 s1 spk] c1
  have p2: "spec s1 spk () = (b2, s2, ())" and c2: "ok c2" by (auto simp: prod_eq_iff)
  obtain b3 s3 c3 where e3: "eval (tl s1) (hd s1) c2 = (b3, s3, c3)" by (metis prod_cases3)
  with ev [of c2 "tl s1" "hd s1"] inv [of c2 "tl s1" "hd s1"] c2
  have p3: "spec (tl s1) (hd s1) () = (b3, s3, ())" and c3: "ok c3" by (auto simp: prod_eq_iff)
  show ?thesis
    using c1 c2 c3 by (simp add: verify_with_def e1 p1 e2 p2 e3 p3 split: bool.split)
qed

definition verify_verdict ::
  "'k sigenv \<Rightarrow> byte list \<Rightarrow> byte list \<Rightarrow> CTransaction \<Rightarrow> nat \<Rightarrow> bool \<Rightarrow> uint32 \<Rightarrow> bool" where
  "verify_verdict V scriptSig scriptPubKey txTo nIn p2sh nHashType =
     fst (verify_with (EvalScript (sv_ssl V) (pure_checker (sig_verdict V txTo nIn nHashType)))
            scriptSig scriptPubKey p2sh ())"

lemma VerifyScript_verdict:
  assumes "cache_ok V c"
  shows "fst (VerifyScript V scriptSig spk txTo nIn p2sh h c) =
      verify_verdict V scriptSig spk txTo nIn p2sh h"
    and "cache_ok V (snd (VerifyScript V scriptSig spk txTo nIn p2sh h c))"
proof -
  note r = verify_with_refines [where ok = "cache_ok V" and c = c
      and eval = "EvalScript (sv_ssl V) (CheckSig V txTo nIn h)"
      and spec = "EvalScript (sv_ssl V) (pure_checker (sig_verdict V txTo nIn h))"]
  show "fst (VerifyScript V scriptSig spk txTo nIn p2sh h c) =
      verify_verdict V scriptSig spk txTo nIn p2sh h"
    and "cache_ok V (snd (VerifyScript V scriptSig spk txTo nIn p2sh h c))"
    using r [OF eval_refined(2) eval_refined(1)] assms
    by (simp_all add: VerifyScript_def verify_verdict_def)
qed

lemma VerifySignature_cache_ok:
  assumes "cache_ok V c"
  shows "cache_ok V (snd (VerifySignature V txFrom txTo nIn p2sh h c))"
  using assms VerifyScript_verdict(2) [OF assms]
  by (simp add: VerifySignature_def Let_def)

end
