(* ===== verification/Keystore.thy ===== *)
theory Keystore
  imports Key
begin

text \<open>
  Key stores (\<open>src/keystore.h\<close>, \<open>src/keystore.cpp\<close>, \<open>src/crypter.cpp\<close>): the plain store of
  secrets, and the store that keeps them encrypted under a master key and can be locked.
  An exception thrown while a key object is built is \<open>None\<close>. The AES cipher is a parameter:
  \<open>evp_encrypt\<close> and \<open>evp_decrypt\<close> take key, IV and text, and fail with \<open>None\<close>.
\<close>

subsection \<open>Encryption of secrets\<close>

record evp =
  evp_bytes_to_key :: "valtype \<Rightarrow> valtype \<Rightarrow> nat \<Rightarrow> nat \<times> valtype \<times> valtype"
  evp_encrypt :: "valtype \<Rightarrow> valtype \<Rightarrow> valtype \<Rightarrow> valtype option"
  evp_decrypt :: "valtype \<Rightarrow> valtype \<Rightarrow> valtype \<Rightarrow> valtype option"

definition evp_documented :: "evp \<Rightarrow> bool" where
  "evp_documented C \<longleftrightarrow>
     (\<forall>key iv text ciphered. evp_encrypt C key iv text = Some ciphered \<longrightarrow>
        evp_decrypt C key iv ciphered = Some text)"

record CCrypter =
  cr_chKey :: valtype
  cr_chIV :: valtype
  cr_fKeySet :: bool

definition WALLET_CRYPTO_KEY_SIZE :: nat where "WALLET_CRYPTO_KEY_SIZE = 32"
definition WALLET_CRYPTO_SALT_SIZE :: nat where "WALLET_CRYPTO_SALT_SIZE = 8"

definition SetKeyFromPassphrase ::
  "evp \<Rightarrow> CCrypter \<Rightarrow> valtype \<Rightarrow> valtype \<Rightarrow> nat \<Rightarrow> nat \<Rightarrow> bool \<times> CCrypter" where
  "SetKeyFromPassphrase C cr strKeyData chSalt nRounds nDerivationMethod =
     (if nRounds < 1 \<or> length chSalt \<noteq> WALLET_CRYPTO_SALT_SIZE then (False, cr)
      else let (i, key, iv) = (if nDerivationMethod = 0 then evp_bytes_to_key C chSalt strKeyData nRounds
                               else (0, cr_chKey cr, cr_chIV cr))
           in if i \<noteq> WALLET_CRYPTO_KEY_SIZE
              then (False, cr\<lparr>cr_chKey := replicate WALLET_CRYPTO_KEY_SIZE 0,
                              cr_chIV := replicate WALLET_CRYPTO_KEY_SIZE 0\<rparr>)
              else (True, cr\<lparr>cr_chKey := key, cr_chIV := iv, cr_fKeySet := True\<rparr>))"

definition CCrypter_SetKey :: "CCrypter \<Rightarrow> valtype \<Rightarrow> valtype \<Rightarrow> bool \<times> CCrypter" where
  "CCrypter_SetKey cr chNewKey chNewIV =
     (if length chNewKey \<noteq> WALLET_CRYPTO_KEY_SIZE \<or> length chNewIV \<noteq> WALLET_CRYPTO_KEY_SIZE
      then (False, cr)
      else (True, cr\<lparr>cr_chKey := chNewKey, cr_chIV := chNewIV, cr_fKeySet := True\<rparr>))"

definition CCrypter_Encrypt :: "evp \<Rightarrow> CCrypter \<Rightarrow> valtype \<Rightarrow> valtype option" where
  "CCrypter_Encrypt C cr vchPlaintext =
     (if \<not> cr_fKeySet cr then None else evp_encrypt C (cr_chKey cr) (cr_chIV cr) vchPlaintext)"

definition CCrypter_Decrypt :: "evp \<Rightarrow> CCrypter \<Rightarrow> valtype \<Rightarrow> valtype option" where
  "CCrypter_Decrypt C cr vchCiphertext =
     (if \<not> cr_fKeySet cr then None else evp_decrypt C (cr_chKey cr) (cr_chIV cr) vchCiphertext)"

definition CCrypter_new :: CCrypter where
  "CCrypter_new = \<lparr>cr_chKey = replicate 32 0, cr_chIV = replicate 32 0, cr_fKeySet = False\<rparr>"

definition EncryptSecret :: "evp \<Rightarrow> valtype \<Rightarrow> valtype \<Rightarrow> uint256 \<Rightarrow> valtype option" where
  "EncryptSecret C vMasterKey vchPlaintext nIV =
     (case CCrypter_SetKey CCrypter_new vMasterKey (bytes_of_u256 nIV) of
        (False, _) \<Rightarrow> None
      | (True, cr) \<Rightarrow> CCrypter_Encrypt C cr vchPlaintext)"

definition DecryptSecret :: "evp \<Rightarrow> valtype \<Rightarrow> valtype \<Rightarrow> uint256 \<Rightarrow> valtype option" where
  "DecryptSecret C vMasterKey vchCiphertext nIV =
     (case CCrypter_SetKey CCrypter_new vMasterKey (bytes_of_u256 nIV) of
        (False, _) \<Rightarrow> None
      | (True, cr) \<Rightarrow> CCrypter_Decrypt C cr vchCiphertext)"

lemma DecryptSecret_Encrypt:
  "evp_documented C \<Longrightarrow> EncryptSecret C m s iv = Some ct \<Longrightarrow> DecryptSecret C m ct iv = Some s"
  by (auto simp: EncryptSecret_def DecryptSecret_def CCrypter_SetKey_def CCrypter_Encrypt_def
      CCrypter_Decrypt_def evp_documented_def split: if_splits)

subsection \<open>The basic key store\<close>

text \<open>The libraries a store uses.\<close>

record 'k keylibs =
  kl_ssl :: openssl
  kl_ec :: "'k ecdsa"
  kl_evp :: evp

record keystore =
  ks_mapKeys :: "(uint160 \<times> valtype \<times> bool) list"
  ks_mapScripts :: "(uint160 \<times> byte list) list"
  ks_mapCryptedKeys :: "(uint160 \<times> valtype \<times> valtype) list"
  ks_vMasterKey :: valtype
  ks_fUseCrypto :: bool

definition Basic_AddKey :: "'k keylibs \<Rightarrow> keystore \<Rightarrow> 'k CKey \<Rightarrow> (bool \<times> keystore) option" where
  "Basic_AddKey L ks key =
     (case (GetSecret (kl_ec L) key, GetPubKey (kl_ec L) key) of
        (Some (secret, fCompressed), Some pub) \<Rightarrow>
          Some (True, ks\<lparr>ks_mapKeys :=
            map_put (CPubKey_GetID (kl_ssl L) pub) (secret, fCompressed) (ks_mapKeys ks)\<rparr>)
      | _ \<Rightarrow> None)"

definition Basic_HaveKey :: "keystore \<Rightarrow> uint160 \<Rightarrow> bool" where
  "Basic_HaveKey ks address \<longleftrightarrow> map_of (ks_mapKeys ks) address \<noteq> None"

text \<open>\<open>GetKey\<close>: an exception, not found, or the key.\<close>

definition Basic_GetKey :: "'k keylibs \<Rightarrow> keystore \<Rightarrow> uint160 \<Rightarrow> 'k CKey option option" where
  "Basic_GetKey L ks address =
     (case map_of (ks_mapKeys ks) address of
        None \<Rightarrow> Some None
      | Some (secret, fCompressed) \<Rightarrow>
          map_option Some (SetSecret (kl_ec L) (CKey_Reset (kl_ec L)) secret fCompressed))"

definition AddCScript :: "'k keylibs \<Rightarrow> keystore \<Rightarrow> byte list \<Rightarrow> bool \<times> keystore" where
  "AddCScript L ks redeemScript =
     (True, ks\<lparr>ks_mapScripts :=
        map_put (Hash160 (kl_ssl L) redeemScript) redeemScript (ks_mapScripts ks)\<rparr>)"

definition HaveCScript :: "keystore \<Rightarrow> uint160 \<Rightarrow> bool" where
  "HaveCScript ks hash \<longleftrightarrow> map_of (ks_mapScripts ks) hash \<noteq> None"

definition GetCScript :: "keystore \<Rightarrow> uint160 \<Rightarrow> byte list option" where
  "GetCScript ks hash = map_of (ks_mapScripts ks) hash"

subsection \<open>The encrypted key store\<close>

definition SetCrypted :: "keystore \<Rightarrow> bool \<times> keystore" where
  "SetCrypted ks =
     (if ks_fUseCrypto ks then (True, ks)
      else if ks_mapKeys ks \<noteq> [] then (False, ks)
      else (True, ks\<lparr>ks_fUseCrypto := True\<rparr>))"

definition IsLocked :: "keystore \<Rightarrow> bool" where
  "IsLocked ks \<longleftrightarrow> ks_fUseCrypto ks \<and> ks_vMasterKey ks = []"

definition Lock :: "keystore \<Rightarrow> bool \<times> keystore" where
  "Lock ks =
     (case SetCrypted ks of
        (False, ks) \<Rightarrow> (False, ks)
      | (True, ks) \<Rightarrow> (True, ks\<lparr>ks_vMasterKey := []\<rparr>))"

text \<open>
  \<open>Unlock\<close> tries the master key on the first encrypted key: the loop either breaks or
  returns in its first iteration.
\<close>

definition Unlock :: "'k keylibs \<Rightarrow> keystore \<Rightarrow> valtype \<Rightarrow> (bool \<times> keystore) option" where
  "Unlock L ks vMasterKeyIn =
     (case SetCrypted ks of
        (False, ks) \<Rightarrow> Some (False, ks)
      | (True, ks) \<Rightarrow>
          (case ks_mapCryptedKeys ks of
             [] \<Rightarrow> Some (True, ks\<lparr>ks_vMasterKey := vMasterKeyIn\<rparr>)
           | (_, vchPubKey, vchCryptedSecret) # _ \<Rightarrow>
               (case DecryptSecret (kl_evp L) vMasterKeyIn vchCryptedSecret
                       (CPubKey_GetHash (kl_ssl L) vchPubKey) of
                  None \<Rightarrow> Some (False, ks)
                | Some vchSecret \<Rightarrow>
                    if length vchSecret \<noteq> 32 then Some (False, ks)
                    else let key = snd (SetPubKey (kl_ec L) (CKey_Reset (kl_ec L)) vchPubKey)
                         in case SetSecret (kl_ec L) key vchSecret False of
                              None \<Rightarrow> None
                            | Some key \<Rightarrow>
                                (case GetPubKey (kl_ec L) key of
                                   None \<Rightarrow> None
                                 | Some pub \<Rightarrow>
                                     if pub = vchPubKey
                                     then Some (True, ks\<lparr>ks_vMasterKey := vMasterKeyIn\<rparr>)
                                     else Some (False, ks)))))"

definition AddCryptedKey :: "'k keylibs \<Rightarrow> keystore \<Rightarrow> valtype \<Rightarrow> valtype \<Rightarrow> bool \<times> keystore" where
  "AddCryptedKey L ks vchPubKey vchCryptedSecret =
     (case SetCrypted ks of
        (False, ks) \<Rightarrow> (False, ks)
      | (True, ks) \<Rightarrow>
          (True, ks\<lparr>ks_mapCryptedKeys := map_put (CPubKey_GetID (kl_ssl L) vchPubKey)
                     (vchPubKey, vchCryptedSecret) (ks_mapCryptedKeys ks)\<rparr>))"

definition AddKey :: "'k keylibs \<Rightarrow> keystore \<Rightarrow> 'k CKey \<Rightarrow> (bool \<times> keystore) option" where
  "AddKey L ks key =
     (if \<not> ks_fUseCrypto ks then Basic_AddKey L ks key
      else if IsLocked ks then Some (False, ks)
      else case (GetPubKey (kl_ec L) key, GetSecret (kl_ec L) key) of
             (Some vchPubKey, Some (secret, _)) \<Rightarrow>
               (case EncryptSecret (kl_evp L) (ks_vMasterKey ks) secret
                       (CPubKey_GetHash (kl_ssl L) vchPubKey) of
                  None \<Rightarrow> Some (False, ks)
                | Some vchCryptedSecret \<Rightarrow> Some (AddCryptedKey L ks vchPubKey vchCryptedSecret))
           | _ \<Rightarrow> None)"

definition HaveKey :: "keystore \<Rightarrow> uint160 \<Rightarrow> bool" where
  "HaveKey ks address =
     (if \<not> ks_fUseCrypto ks then Basic_HaveKey ks address
      else map_of (ks_mapCryptedKeys ks) address \<noteq> None)"

definition GetKeys :: "keystore \<Rightarrow> uint160 list" where
  "GetKeys ks = (if \<not> ks_fUseCrypto ks then map fst (ks_mapKeys ks) else map fst (ks_mapCryptedKeys ks))"

definition GetKey :: "'k keylibs \<Rightarrow> keystore \<Rightarrow> uint160 \<Rightarrow> 'k CKey option option" where
  "GetKey L ks address =
     (if \<not> ks_fUseCrypto ks then Basic_GetKey L ks address
      else case map_of (ks_mapCryptedKeys ks) address of
             None \<Rightarrow> Some None
           | Some (vchPubKey, vchCryptedSecret) \<Rightarrow>
               (case DecryptSecret (kl_evp L) (ks_vMasterKey ks) vchCryptedSecret
                       (CPubKey_GetHash (kl_ssl L) vchPubKey) of
                  None \<Rightarrow> Some None
                | Some vchSecret \<Rightarrow>
                    if length vchSecret \<noteq> 32 then Some None
                    else map_option Some (SetSecret (kl_ec L)
                      (snd (SetPubKey (kl_ec L) (CKey_Reset (kl_ec L)) vchPubKey)) vchSecret False)))"

definition KeyStore_GetPubKey :: "'k keylibs \<Rightarrow> keystore \<Rightarrow> uint160 \<Rightarrow> valtype option option" where
  "KeyStore_GetPubKey L ks address =
     (if \<not> ks_fUseCrypto ks
      then (case GetKey L ks address of
              None \<Rightarrow> None
            | Some None \<Rightarrow> Some None
            | Some (Some key) \<Rightarrow> map_option Some (GetPubKey (kl_ec L) key))
      else Some (map_option fst (map_of (ks_mapCryptedKeys ks) address)))"

text \<open>
  \<open>EncryptKeys\<close>: the loop over the plain keys; on failure the keys encrypted so far stay.
\<close>

fun encrypt_loop ::
  "'k keylibs \<Rightarrow> valtype \<Rightarrow> (uint160 \<times> valtype \<times> bool) list \<Rightarrow> keystore \<Rightarrow>
     (bool \<times> keystore) option" where
  "encrypt_loop L vMasterKeyIn [] ks = Some (True, ks)"
| "encrypt_loop L vMasterKeyIn ((_, secret, fCompressed) # ms) ks =
     (case SetSecret (kl_ec L) (CKey_Reset (kl_ec L)) secret fCompressed of
        None \<Rightarrow> None
      | Some key \<Rightarrow>
          (case (GetPubKey (kl_ec L) key, GetSecret (kl_ec L) key) of
             (Some vchPubKey, Some (secret', _)) \<Rightarrow>
               (case EncryptSecret (kl_evp L) vMasterKeyIn secret'
                       (CPubKey_GetHash (kl_ssl L) vchPubKey) of
                  None \<Rightarrow> Some (False, ks)
                | Some vchCryptedSecret \<Rightarrow>
                    (case AddCryptedKey L ks vchPubKey vchCryptedSecret of
                       (False, ks) \<Rightarrow> Some (False, ks)
                     | (True, ks) \<Rightarrow> encrypt_loop L vMasterKeyIn ms ks))
           | _ \<Rightarrow> None))"

definition EncryptKeys :: "'k keylibs \<Rightarrow> valtype \<Rightarrow> keystore \<Rightarrow> (bool \<times> keystore) option" where
  "EncryptKeys L vMasterKeyIn ks =
     (if ks_mapCryptedKeys ks \<noteq> [] \<or> ks_fUseCrypto ks then Some (False, ks)
      else case encrypt_loop L vMasterKeyIn (ks_mapKeys ks) (ks\<lparr>ks_fUseCrypto := True\<rparr>) of
             None \<Rightarrow> None
           | Some (False, ks) \<Rightarrow> Some (False, ks)
           | Some (True, ks) \<Rightarrow> Some (True, ks\<lparr>ks_mapKeys := []\<rparr>))"

subsection \<open>Locking\<close>

lemma EncryptSecret_no_master: "length m \<noteq> 32 \<Longrightarrow> EncryptSecret C m s iv = None"
  "length m \<noteq> 32 \<Longrightarrow> DecryptSecret C m s iv = None"
  by (simp_all add: EncryptSecret_def DecryptSecret_def CCrypter_SetKey_def WALLET_CRYPTO_KEY_SIZE_def)

text \<open>A store that has been locked is locked, hands out no private key and takes in none;
  unlocking it again needs a master key under which the first key decrypts.\<close>

theorem Lock_hides_keys:
  assumes "Lock ks = (True, ks')"
  shows "IsLocked ks' \<and> (\<forall>a. GetKey L ks' a = Some None) \<and>
    (\<forall>key r. AddKey L ks' key = Some r \<longrightarrow> r = (False, ks')) \<and>
    (\<forall>a. HaveKey ks' a \<longleftrightarrow> map_of (ks_mapCryptedKeys ks) a \<noteq> None)"
  using assms
  by (auto simp: Lock_def SetCrypted_def IsLocked_def GetKey_def AddKey_def HaveKey_def
      EncryptSecret_no_master split: if_splits option.splits prod.splits)

subsection \<open>Encrypting the store\<close>

text \<open>An entry of the plain store is filed under the address of its own public key.\<close>

definition key_entry_ok :: "'k keylibs \<Rightarrow> uint160 \<times> valtype \<times> bool \<Rightarrow> bool" where
  "key_entry_ok L = (\<lambda>(a, secret, fCompressed).
     case SetSecret (kl_ec L) (CKey_Reset (kl_ec L)) secret fCompressed of
       None \<Rightarrow> False
     | Some key \<Rightarrow>
         (case (GetPubKey (kl_ec L) key, GetSecret (kl_ec L) key) of
            (Some pub, Some (secret', _)) \<Rightarrow> CPubKey_GetID (kl_ssl L) pub = a \<and> secret' = secret
          | _ \<Rightarrow> False))"

definition holds_secret :: "'k keylibs \<Rightarrow> valtype \<Rightarrow> keystore \<Rightarrow> uint160 \<Rightarrow> valtype \<Rightarrow> bool" where
  "holds_secret L m ks a secret \<longleftrightarrow>
     (\<exists>pub ct. map_of (ks_mapCryptedKeys ks) a = Some (pub, ct) \<and>
        CPubKey_GetID (kl_ssl L) pub = a \<and>
        DecryptSecret (kl_evp L) m ct (CPubKey_GetHash (kl_ssl L) pub) = Some secret)"

lemma encrypt_loop_keeps:
  assumes "encrypt_loop L m ms ks = Some (True, ks')"
    and "ks_fUseCrypto ks" "list_all (key_entry_ok L) ms" "distinct (map fst ms)"
    and "evp_documented (kl_evp L)"
  shows "ks_fUseCrypto ks' \<and> ks_mapKeys ks' = ks_mapKeys ks \<and> ks_mapScripts ks' = ks_mapScripts ks \<and>
    (\<forall>a. a \<notin> fst ` set ms \<longrightarrow> map_of (ks_mapCryptedKeys ks') a = map_of (ks_mapCryptedKeys ks) a) \<and>
    (\<forall>a s c. (a, s, c) \<in> set ms \<longrightarrow> holds_secret L m ks' a s)"
  using assms
proof (induction ms arbitrary: ks)
  case (Cons e ms)
  obtain a secret c where e: "e = (a, secret, c)" by (cases e)
  from Cons.prems(1) obtain key pub secret' f ct ks1 where
    key: "SetSecret (kl_ec L) (CKey_Reset (kl_ec L)) secret c = Some key"
      "GetPubKey (kl_ec L) key = Some pub" "GetSecret (kl_ec L) key = Some (secret', f)" and
    ct: "EncryptSecret (kl_evp L) m secret' (CPubKey_GetHash (kl_ssl L) pub) = Some ct" and
    add: "AddCryptedKey L ks pub ct = (True, ks1)" and
    loop: "encrypt_loop L m ms ks1 = Some (True, ks')"
    unfolding e by (auto split: option.splits prod.splits bool.splits)
  have a: "CPubKey_GetID (kl_ssl L) pub = a" "secret' = secret"
    using Cons.prems(3) key by (auto simp: key_entry_ok_def e)
  have ks1: "ks1 = ks\<lparr>ks_mapCryptedKeys := map_put a (pub, ct) (ks_mapCryptedKeys ks)\<rparr>"
    using add a Cons.prems(2) by (simp add: AddCryptedKey_def SetCrypted_def)
  have nin: "a \<notin> fst ` set ms" using Cons.prems(4) by (simp add: e)
  have ih: "ks_fUseCrypto ks' \<and> ks_mapKeys ks' = ks_mapKeys ks1 \<and> ks_mapScripts ks' = ks_mapScripts ks1 \<and>
    (\<forall>a. a \<notin> fst ` set ms \<longrightarrow> map_of (ks_mapCryptedKeys ks') a = map_of (ks_mapCryptedKeys ks1) a) \<and>
    (\<forall>a s c. (a, s, c) \<in> set ms \<longrightarrow> holds_secret L m ks' a s)"
    using Cons.prems by (intro Cons.IH [OF loop]) (simp_all add: ks1)
  with nin a have "holds_secret L m ks' a secret"
    using DecryptSecret_Encrypt [OF Cons.prems(5) ct] by (auto simp: holds_secret_def ks1)
  with ih show ?case by (auto simp: ks1 e)
qed simp

text \<open>Encrypting a store keeps its keys: the same addresses are there, and every secret
  decrypts, under the master key, from the entry filed at its address.\<close>

theorem EncryptKeys_keeps_keys:
  assumes "EncryptKeys L m ks = Some (True, ks')" and "evp_documented (kl_evp L)"
    and "list_all (key_entry_ok L) (ks_mapKeys ks)" and "sorted_wrt (<) (map fst (ks_mapKeys ks))"
  shows "ks_fUseCrypto ks' \<and> ks_mapKeys ks' = [] \<and> (\<forall>a. HaveKey ks' a = HaveKey ks a) \<and>
    (\<forall>a s c. (a, s, c) \<in> set (ks_mapKeys ks) \<longrightarrow> holds_secret L m ks' a s)"
proof -
  from assms(1) obtain ks1 where
    plain: "ks_mapCryptedKeys ks = []" "\<not> ks_fUseCrypto ks" and
    loop: "encrypt_loop L m (ks_mapKeys ks) (ks\<lparr>ks_fUseCrypto := True\<rparr>) = Some (True, ks1)" and
    ks': "ks' = ks1\<lparr>ks_mapKeys := []\<rparr>"
    by (auto simp: EncryptKeys_def split: if_splits option.splits prod.splits bool.splits)
  have dist: "distinct (map fst (ks_mapKeys ks))"
    using assms(4) by (simp add: strict_sorted_iff)
  have keep: "ks_fUseCrypto ks1 \<and>
    (\<forall>a. a \<notin> fst ` set (ks_mapKeys ks) \<longrightarrow> map_of (ks_mapCryptedKeys ks1) a = None) \<and>
    (\<forall>a s c. (a, s, c) \<in> set (ks_mapKeys ks) \<longrightarrow> holds_secret L m ks1 a s)"
    using encrypt_loop_keeps [OF loop _ assms(3) dist assms(2)] plain by simp
  have "map_of (ks_mapCryptedKeys ks1) a \<noteq> None \<longleftrightarrow> map_of (ks_mapKeys ks) a \<noteq> None" for a
  proof (cases "map_of (ks_mapKeys ks) a")
    case None
    then show ?thesis using keep by (simp add: map_of_eq_None_iff)
  next
    case (Some v)
    obtain s c where v: "v = (s, c)" by (cases v)
    then have "holds_secret L m ks1 a s" using keep map_of_SomeD [OF Some] by blast
    then show ?thesis using Some by (auto simp: holds_secret_def)
  qed
  with keep plain show ?thesis
    by (simp add: ks' HaveKey_def Basic_HaveKey_def holds_secret_def)
qed


end
