(* ===== verification/Script_Solver.thy ===== *)
theory Script_Solver
  imports Script_Verify Keystore
begin

text \<open>
  Standard scripts (\<open>src/script.cpp\<close>): matching a script against the templates, signing,
  ownership, destinations, and combining two partially signed inputs. The virtual base
  class \<open>CKeyStore\<close> is the record \<open>CKeyStore\<close> of the functions this code calls.
\<close>

record 'k CKeyStore =
  kv_HaveKey :: "uint160 \<Rightarrow> bool"
  kv_GetKey :: "uint160 \<Rightarrow> 'k CKey option option"
  kv_GetPubKey :: "uint160 \<Rightarrow> valtype option option"
  kv_HaveCScript :: "uint160 \<Rightarrow> bool"
  kv_GetCScript :: "uint160 \<Rightarrow> byte list option"

definition store_view :: "'k keylibs \<Rightarrow> keystore \<Rightarrow> 'k CKeyStore" where
  "store_view L ks =
     \<lparr>kv_HaveKey = HaveKey ks, kv_GetKey = GetKey L ks, kv_GetPubKey = KeyStore_GetPubKey L ks,
      kv_HaveCScript = HaveCScript ks, kv_GetCScript = GetCScript ks\<rparr>"

datatype CTxDestination = CNoDestination | CKeyID uint160 | CScriptID uint160

subsection \<open>Templates\<close>

definition template_pubkey :: "byte list" where
  "template_pubkey = push_op OP_PUBKEY @ push_op OP_CHECKSIG"

definition template_pubkeyhash :: "byte list" where
  "template_pubkeyhash = push_op OP_DUP @ push_op OP_HASH160 @ push_op OP_PUBKEYHASH @
     push_op OP_EQUALVERIFY @ push_op OP_CHECKSIG"

definition template_multisig :: "byte list" where
  "template_multisig = push_op OP_SMALLINTEGER @ push_op OP_PUBKEYS @ push_op OP_SMALLINTEGER @
     push_op OP_CHECKMULTISIG"

text \<open>
  The inner loop at \<open>OP_PUBKEYS\<close>: operands of 33 to 120 bytes are keys. When \<open>GetOp\<close> fails,
  the opcode is \<open>OP_INVALIDOPCODE\<close> with no operand.
\<close>

definition key_size_ok :: "valtype \<Rightarrow> bool" where
  "key_size_ok vch \<longleftrightarrow> 33 \<le> length vch \<and> length vch \<le> 120"

function collect_pubkeys ::
  "nat \<Rightarrow> valtype \<Rightarrow> byte list \<Rightarrow> valtype list \<Rightarrow> nat \<times> valtype \<times> byte list \<times> valtype list" where
  "collect_pubkeys opcode1 vch1 pc1 sols =
     (if key_size_ok vch1
      then (case GetOp2 pc1 of
              BadOp pc1' \<Rightarrow> (OP_INVALIDOPCODE, [], pc1', sols @ [vch1])
            | Op pc1' opcode1' vch1' \<Rightarrow> collect_pubkeys opcode1' vch1' pc1' (sols @ [vch1]))
      else (opcode1, vch1, pc1, sols))"
  by pat_completeness auto
termination
  by (relation "measure (\<lambda>(o1, v1, pc1, s). length pc1)") (auto dest: GetOp2_length)

declare collect_pubkeys.simps [simp del]

lemma collect_pubkeys_shrinks:
  "collect_pubkeys o1 v1 pc1 sols = (o2, v2, pc2, sols') \<Longrightarrow> length pc2 \<le> length pc1"
proof (induction o1 v1 pc1 sols rule: collect_pubkeys.induct)
  case (1 o1 v1 pc1 sols)
  have bad: "GetOp2 p = BadOp p' \<Longrightarrow> length p' \<le> length p" for p p'
    by (cases p) (auto simp: GetOp2.simps(2) Let_def get_operand_def split: if_splits)
  show ?case
    using "1.prems" "1.IH" bad GetOp2_length
    by (subst (asm) collect_pubkeys.simps) (fastforce split: if_splits getop.splits)
qed

definition match_operand ::
  "nat \<Rightarrow> valtype \<Rightarrow> nat \<Rightarrow> valtype \<Rightarrow> valtype list \<Rightarrow> valtype list option" where
  "match_operand opcode1 vch1 opcode2 vch2 sols =
     (if opcode2 = OP_PUBKEY then (if key_size_ok vch1 then Some (sols @ [vch1]) else None)
      else if opcode2 = OP_PUBKEYHASH
      then (if length vch1 = 20 then Some (sols @ [vch1]) else None)
      else if opcode2 = OP_SMALLINTEGER
      then (if opcode1 = OP_0 \<or> OP_1 \<le> opcode1 \<and> opcode1 \<le> OP_16
            then Some (sols @ [[word_of_nat (DecodeOP_N opcode1)]]) else None)
      else if opcode1 \<noteq> opcode2 \<or> vch1 \<noteq> vch2 then None
      else Some sols)"

function match_template :: "byte list \<Rightarrow> byte list \<Rightarrow> valtype list \<Rightarrow> valtype list option" where
  "match_template pc1 pc2 sols =
     (if pc1 = [] \<and> pc2 = [] then Some sols
      else case GetOp2 pc1 of BadOp _ \<Rightarrow> None
         | Op pc1' opcode1 vch1 \<Rightarrow>
             (case GetOp2 pc2 of BadOp _ \<Rightarrow> None
              | Op pc2' opcode2 vch2 \<Rightarrow>
                  if opcode2 = OP_PUBKEYS
                  then (case collect_pubkeys opcode1 vch1 pc1' sols of
                          (opcode1', vch1', pc1'', sols') \<Rightarrow>
                            (case GetOp2 pc2' of BadOp _ \<Rightarrow> None
                             | Op pc2'' opcode2' vch2' \<Rightarrow>
                                 (case match_operand opcode1' vch1' opcode2' vch2' sols' of
                                    None \<Rightarrow> None
                                  | Some sols'' \<Rightarrow> match_template pc1'' pc2'' sols'')))
                  else (case match_operand opcode1 vch1 opcode2 vch2 sols of
                          None \<Rightarrow> None
                        | Some sols' \<Rightarrow> match_template pc1' pc2' sols')))"
  by pat_completeness auto
termination
proof (relation "measure (\<lambda>(pc1, pc2, s). length pc2)")
qed (auto dest: GetOp2_length dest!: GetOp2_length)

declare match_template.simps [simp del]

type_synonym solution = "bool \<times> txnouttype \<times> valtype list"

text \<open>The templates are tried in the order of the map's keys.\<close>

fun scan_templates :: "byte list \<Rightarrow> (txnouttype \<times> byte list) list \<Rightarrow> solution" where
  "scan_templates script [] = (False, TX_NONSTANDARD, [])"
| "scan_templates script ((typ, tplate) # ts) =
     (case match_template script tplate [] of
        None \<Rightarrow> scan_templates script ts
      | Some sols \<Rightarrow>
          if typ = TX_MULTISIG
          then let m = unat (hd sols ! 0); n = unat (last sols ! 0)
               in (\<not> (m < 1 \<or> n < 1 \<or> n < m \<or> length sols - 2 \<noteq> n), TX_MULTISIG, sols)
          else (True, typ, sols))"

definition mTemplates :: "(txnouttype \<times> byte list) list" where
  "mTemplates = [(TX_PUBKEY, template_pubkey), (TX_PUBKEYHASH, template_pubkeyhash),
     (TX_MULTISIG, template_multisig)]"

definition Solver :: "byte list \<Rightarrow> solution" where
  "Solver scriptPubKey =
     (if IsPayToScriptHash scriptPubKey
      then (True, TX_SCRIPTHASH, [take 20 (drop 2 scriptPubKey)])
      else if scriptPubKey \<noteq> [] \<and> unat (hd scriptPubKey) = OP_RETURN \<and> IsPushOnly (tl scriptPubKey)
      then (True, TX_NULL_DATA, [])
      else scan_templates scriptPubKey mTemplates)"

definition IsStandard_script :: "byte list \<Rightarrow> bool" where
  "IsStandard_script scriptPubKey =
     (case Solver scriptPubKey of
        (False, _, _) \<Rightarrow> False
      | (True, whichType, sols) \<Rightarrow>
          if whichType = TX_MULTISIG
          then let m = unat (hd sols ! 0); n = unat (last sols ! 0)
               in if n < 1 \<or> 3 < n then False
                  else if m < 1 \<or> n < m then False
                  else whichType \<noteq> TX_NONSTANDARD
          else whichType \<noteq> TX_NONSTANDARD)"

fun ScriptSigArgsExpected :: "txnouttype \<Rightarrow> valtype list \<Rightarrow> int" where
  "ScriptSigArgsExpected TX_NONSTANDARD sols = - 1"
| "ScriptSigArgsExpected TX_PUBKEY sols = 1"
| "ScriptSigArgsExpected TX_PUBKEYHASH sols = 2"
| "ScriptSigArgsExpected TX_MULTISIG sols =
     (if length sols < 1 \<or> length (sols ! 0) < 1 then - 1 else uint (sols ! 0 ! 0) + 1)"
| "ScriptSigArgsExpected TX_SCRIPTHASH sols = 1"
| "ScriptSigArgsExpected TX_NULL_DATA sols = 0"

subsection \<open>Ownership and destinations\<close>

definition uint160_of :: "valtype \<Rightarrow> uint160" where
  "uint160_of vch = (if length vch = 20 then word_of_nat (le_value vch) else 0)"

definition HaveKeys :: "openssl \<Rightarrow> valtype list \<Rightarrow> 'k CKeyStore \<Rightarrow> nat" where
  "HaveKeys E pubkeys keystore =
     length (List.filter (\<lambda>pubkey. kv_HaveKey keystore (CPubKey_GetID E pubkey)) pubkeys)"

fun IsMine_dest :: "'k CKeyStore \<Rightarrow> CTxDestination \<Rightarrow> bool" where
  "IsMine_dest keystore CNoDestination = False"
| "IsMine_dest keystore (CKeyID keyID) = kv_HaveKey keystore keyID"
| "IsMine_dest keystore (CScriptID scriptID) = kv_HaveCScript keystore scriptID"

text \<open>
  A stored script may itself be pay-to-script-hash, so the recursion is bounded by nothing
  but the hashes: a call that does not return is \<open>None\<close>.
\<close>

partial_function (option) IsMine :: "openssl \<Rightarrow> 'k CKeyStore \<Rightarrow> byte list \<Rightarrow> bool option" where
  "IsMine E keystore scriptPubKey =
     (case Solver scriptPubKey of (ok, whichType, sols) \<Rightarrow>
        if \<not> ok then Some False
        else if whichType = TX_PUBKEY
        then Some (kv_HaveKey keystore (CPubKey_GetID E (sols ! 0)))
        else if whichType = TX_PUBKEYHASH
        then Some (kv_HaveKey keystore (uint160_of (sols ! 0)))
        else if whichType = TX_SCRIPTHASH
        then (case kv_GetCScript keystore (uint160_of (sols ! 0)) of
                None \<Rightarrow> Some False
              | Some subscript \<Rightarrow> IsMine E keystore subscript)
        else if whichType = TX_MULTISIG
        then (let keys = butlast (tl sols) in Some (HaveKeys E keys keystore = length keys))
        else Some False)"

definition ExtractDestination :: "openssl \<Rightarrow> byte list \<Rightarrow> CTxDestination option" where
  "ExtractDestination E scriptPubKey =
     (case Solver scriptPubKey of (ok, whichType, sols) \<Rightarrow>
        if \<not> ok then None
        else if whichType = TX_PUBKEY then Some (CKeyID (CPubKey_GetID E (sols ! 0)))
        else if whichType = TX_PUBKEYHASH then Some (CKeyID (uint160_of (sols ! 0)))
        else if whichType = TX_SCRIPTHASH then Some (CScriptID (uint160_of (sols ! 0)))
        else None)"

definition ExtractDestinations ::
  "openssl \<Rightarrow> byte list \<Rightarrow> bool \<times> txnouttype \<times> CTxDestination list \<times> nat option" where
  "ExtractDestinations E scriptPubKey =
     (case Solver scriptPubKey of (ok, typeRet, sols) \<Rightarrow>
        if \<not> ok then (False, typeRet, [], None)
        else if typeRet = TX_MULTISIG
        then (True, typeRet, map (\<lambda>k. CKeyID (CPubKey_GetID E k)) (butlast (tl sols)),
              Some (unat (hd sols ! 0)))
        else case ExtractDestination E scriptPubKey of
               None \<Rightarrow> (False, typeRet, [], Some 1)
             | Some address \<Rightarrow> (True, typeRet, [address], Some 1))"

fun SetDestination :: "CTxDestination \<Rightarrow> byte list" where
  "SetDestination CNoDestination = []"
| "SetDestination (CKeyID keyID) =
     push_op OP_DUP @ push_op OP_HASH160 @ push_uint160 keyID @ push_op OP_EQUALVERIFY @
     push_op OP_CHECKSIG"
| "SetDestination (CScriptID scriptID) =
     push_op OP_HASH160 @ push_uint160 scriptID @ push_op OP_EQUAL"

definition SetMultisig :: "nat \<Rightarrow> valtype list \<Rightarrow> byte list" where
  "SetMultisig nRequired pubkeys =
     push_op (EncodeOP_N nRequired) @ concat (map push_data pubkeys) @
     push_op (EncodeOP_N (length pubkeys)) @ push_op OP_CHECKMULTISIG"

end
