(* ===== verification/Block.thy ===== *)
theory Block
  imports Target_Rules Script_Solver
begin

text \<open>
  Blocks (\<open>src/main.h\<close>, \<open>src/main.cpp\<close>, \<open>src/checkpoints.cpp\<close>): the data and its serialised
  form, the Merkle tree, the context-free checks of \<open>CheckBlock\<close>, and block signatures.
  The proof-of-work hash \<open>Hash9\<close> comes from the bundled sph library: it is a parameter.
\<close>

record CBlock =
  bk_nVersion :: uint32
  bk_hashPrevBlock :: uint256
  bk_hashMerkleRoot :: uint256
  bk_nTime :: uint32
  bk_nBits :: uint32
  bk_nNonce :: uint32
  bk_vtx :: "CTransaction list"
  bk_vchBlockSig :: valtype
  bk_vMerkleTree :: "uint256 list"
  bk_hashBlock :: uint256

text \<open>The libraries and settings of a node.\<close>

record 'k node =
  nd_sig :: "'k sigenv"
  nd_Hash9 :: "byte list \<Rightarrow> uint256"
  nd_fTestNet :: bool

definition nd_ssl :: "'k node \<Rightarrow> openssl" where "nd_ssl N = sv_ssl (nd_sig N)"
definition nd_ec :: "'k node \<Rightarrow> 'k ecdsa" where "nd_ec N = sv_ec (nd_sig N)"

subsection \<open>Serialised form\<close>

definition ser_header :: "CBlock \<Rightarrow> byte list" where
  "ser_header b = bytes_of_u32 (bk_nVersion b) @ bytes_of_u256 (bk_hashPrevBlock b) @
     bytes_of_u256 (bk_hashMerkleRoot b) @ bytes_of_u32 (bk_nTime b) @ bytes_of_u32 (bk_nBits b) @
     bytes_of_u32 (bk_nNonce b)"

definition ser_block :: "CBlock \<Rightarrow> byte list" where
  "ser_block b = ser_header b @ Serialize_vector ser_tx (bk_vtx b) @ Serialize_bytes (bk_vchBlockSig b)"

text \<open>Reading sets the serialised fields of an object; the two cached fields stay.\<close>

definition unser_header :: "CBlock \<Rightarrow> CBlock reader" where
  "unser_header b bs =
     (case read_u32 bs of None \<Rightarrow> None | Some (ver, r) \<Rightarrow>
      case read_u256 r of None \<Rightarrow> None | Some (prev, r) \<Rightarrow>
      case read_u256 r of None \<Rightarrow> None | Some (root, r) \<Rightarrow>
      case read_u32 r of None \<Rightarrow> None | Some (t, r) \<Rightarrow>
      case read_u32 r of None \<Rightarrow> None | Some (bits, r) \<Rightarrow>
      case read_u32 r of None \<Rightarrow> None | Some (nonce, r) \<Rightarrow>
        Some (b\<lparr>bk_nVersion := ver, bk_hashPrevBlock := prev, bk_hashMerkleRoot := root,
                bk_nTime := t, bk_nBits := bits, bk_nNonce := nonce, bk_vtx := [],
                bk_vchBlockSig := []\<rparr>, r))"

definition unser_block :: "CBlock \<Rightarrow> CBlock reader" where
  "unser_block b bs =
     (case unser_header b bs of None \<Rightarrow> None | Some (b, r) \<Rightarrow>
      case Unserialize_vector unser_tx r of None \<Rightarrow> None | Some (vtx, r) \<Rightarrow>
      case Unserialize_bytes r of None \<Rightarrow> None | Some (sig, r) \<Rightarrow>
        Some (b\<lparr>bk_vtx := vtx, bk_vchBlockSig := sig\<rparr>, r))"

definition size_block :: "CBlock \<Rightarrow> nat" where
  "size_block b = 80 + GetSerializeSize_vector size_tx (bk_vtx b) +
     GetSerializeSize_bytes (bk_vchBlockSig b)"

definition valid_block :: "CBlock \<Rightarrow> bool" where
  "valid_block b \<longleftrightarrow> length (bk_vtx b) \<le> MAX_SIZE \<and> list_all valid_tx (bk_vtx b) \<and>
     length (bk_vchBlockSig b) \<le> MAX_SIZE"

definition CBlock_SetNull :: "CBlock \<Rightarrow> CBlock" where
  "CBlock_SetNull b = b\<lparr>bk_nVersion := 4, bk_hashPrevBlock := 0, bk_hashMerkleRoot := 0,
     bk_nTime := 0, bk_nBits := 0, bk_nNonce := 0, bk_vtx := [], bk_vchBlockSig := [],
     bk_vMerkleTree := []\<rparr>"

definition CBlock_IsNull :: "CBlock \<Rightarrow> bool" where
  "CBlock_IsNull b \<longleftrightarrow> bk_nBits b = 0"

definition CBlock_GetHash :: "'k node \<Rightarrow> CBlock \<Rightarrow> uint256" where
  "CBlock_GetHash N b = (if bk_hashBlock b \<noteq> 0 then bk_hashBlock b else nd_Hash9 N (ser_header b))"

definition CBlock_SetHash :: "CBlock \<Rightarrow> uint256 \<Rightarrow> CBlock" where
  "CBlock_SetHash b hash = b\<lparr>bk_hashBlock := hash\<rparr>"

definition GetBlockTime :: "CBlock \<Rightarrow> int" where
  "GetBlockTime b = uint (bk_nTime b)"

definition GetStakeEntropyBit :: "'k node \<Rightarrow> CBlock \<Rightarrow> uint32" where
  "GetStakeEntropyBit N b = ucast (CBlock_GetHash N b AND 1)"

definition IsProofOfStake :: "CBlock \<Rightarrow> bool" where
  "IsProofOfStake b \<longleftrightarrow> 1 < length (bk_vtx b) \<and> IsCoinStake (bk_vtx b ! 1)"

definition IsProofOfWork :: "CBlock \<Rightarrow> bool" where
  "IsProofOfWork b \<longleftrightarrow> \<not> IsProofOfStake b"

definition GetProofOfStake :: "CBlock \<Rightarrow> COutPoint \<times> uint32" where
  "GetProofOfStake b =
     (if IsProofOfStake b then (ti_prevout (tx_vin (bk_vtx b ! 1) ! 0), tx_nTime (bk_vtx b ! 1))
      else (COutPoint_SetNull, 0))"

definition GetMaxTransactionTime :: "CBlock \<Rightarrow> int" where
  "GetMaxTransactionTime b = fold (\<lambda>tx m. max m (uint (tx_nTime tx))) (bk_vtx b) 0"

subsection \<open>Merkle trees\<close>

definition hash_pair :: "openssl \<Rightarrow> uint256 \<Rightarrow> uint256 \<Rightarrow> uint256" where
  "hash_pair E a b = Hash E (bytes_of_u256 a @ bytes_of_u256 b)"

text \<open>
  One pass over a row: neighbours are hashed in pairs, a last one without a neighbour with
  itself. \<open>merkle_rows\<close> is what \<open>BuildMerkleTree\<close> pushes after a row.
\<close>

fun merkle_row :: "openssl \<Rightarrow> uint256 list \<Rightarrow> uint256 list" where
  "merkle_row E [] = []"
| "merkle_row E [a] = [hash_pair E a a]"
| "merkle_row E (a # b # row) = hash_pair E a b # merkle_row E row"

lemma length_merkle_row: "length (merkle_row E row) = (length row + 1) div 2"
  by (induction E row rule: merkle_row.induct) auto

function merkle_rows :: "openssl \<Rightarrow> uint256 list \<Rightarrow> uint256 list" where
  "merkle_rows E row =
     (if length row \<le> 1 then []
      else merkle_row E row @ merkle_rows E (merkle_row E row))"
  by pat_completeness auto
termination
  by (relation "measure (\<lambda>(E, row). length row)") (auto simp: length_merkle_row)

declare merkle_rows.simps [simp del]

definition BuildMerkleTree :: "openssl \<Rightarrow> CBlock \<Rightarrow> uint256 \<times> CBlock" where
  "BuildMerkleTree E b =
     (let leaves = map (GetHash E) (bk_vtx b);
          tree = leaves @ merkle_rows E leaves
      in (if tree = [] then 0 else last tree, b\<lparr>bk_vMerkleTree := tree\<rparr>))"

text \<open>The branch of entry \<open>nIndex\<close>: its sibling in every row, read from the flat tree.\<close>

function merkle_branch :: "uint256 list \<Rightarrow> nat \<Rightarrow> nat \<Rightarrow> nat \<Rightarrow> uint256 list" where
  "merkle_branch tree j nSize nIndex =
     (if nSize \<le> 1 then []
      else tree ! (j + min (if even nIndex then nIndex + 1 else nIndex - 1) (nSize - 1)) #
           merkle_branch tree (j + nSize) ((nSize + 1) div 2) (nIndex div 2))"
  by pat_completeness auto
termination
  by (relation "measure (\<lambda>(t, j, n, i). n)") auto

declare merkle_branch.simps [simp del]

definition GetMerkleBranch :: "openssl \<Rightarrow> CBlock \<Rightarrow> nat \<Rightarrow> uint256 list" where
  "GetMerkleBranch E b nIndex =
     (let b = (if bk_vMerkleTree b = [] then snd (BuildMerkleTree E b) else b)
      in merkle_branch (bk_vMerkleTree b) 0 (length (bk_vtx b)) nIndex)"

fun check_branch :: "openssl \<Rightarrow> uint256 \<Rightarrow> uint256 list \<Rightarrow> int \<Rightarrow> uint256" where
  "check_branch E hash [] nIndex = hash"
| "check_branch E hash (otherside # rest) nIndex =
     check_branch E (if odd nIndex then hash_pair E otherside hash else hash_pair E hash otherside)
       rest (nIndex div 2)"

definition CheckMerkleBranch :: "openssl \<Rightarrow> uint256 \<Rightarrow> uint256 list \<Rightarrow> int \<Rightarrow> uint256" where
  "CheckMerkleBranch E hash vMerkleBranch nIndex =
     (if nIndex = - 1 then 0 else check_branch E hash vMerkleBranch nIndex)"

subsection \<open>Checkpoints\<close>

definition hashGenesisBlockOfficial :: uint256 where
  "hashGenesisBlockOfficial = 0x000005fe04e512585c3611369c7ce23f130958038c18a462577d002680dab4fc"

definition hashGenesisBlockTestNet :: uint256 where
  "hashGenesisBlockTestNet = 0x534d8009c099b04d05d7475f48eea977ca2fedaf409e233c884eff34d2efdb8e"

definition genesis_hash :: "'k node \<Rightarrow> uint256" where
  "genesis_hash N = (if \<not> nd_fTestNet N then hashGenesisBlockOfficial else hashGenesisBlockTestNet)"

definition mapCheckpoints :: "(int \<times> uint256) list" where
  "mapCheckpoints =
    [(0, hashGenesisBlockOfficial),
     (10, 0x0000074074af28e73189ae5767b706246be2e0827c46d97a61178394aec877cf),
     (31781, 0x42265210870957b8d37f91a0834c6cda65949b2ca805bb3a7d527a4cd585a090),
     (80987, 0x6b943fa756e915ddd8b654844781e21090ae9ddfcb2147fba46cac529df5be08),
     (199999, 0x084b314dfee7db9d311a5db4dc4b8880df36eb7e9bb90ec98dd0bab5af2a7df2),
     (235691, 0xf0f71ea7edf7457e611ee893cdbb6ff19499713f4dae935d6d21e073d96a7dc3),
     (235999, 0xafe60dd0ab56ef529db21ea648ea4fd8de758a11b6a8ac1fa5cd2d4959162106),
     (399999, 0x875356232916a420c100b83d87cc9ce3eb9a174750b48d2fd1eefba7292163b5),
     (499999, 0x8e370d8ab8bdb6e6a5a4882dda755b23b5f284f633e04c12e6f73f92de15e68e),
     (1207950, 0xbad0a0f14081129f34d42fdc617638756158fd7b1413f4d3a2916bed2c1a61d4),
     (1377570, 0x3d76cad9c096ce48336da1528ab31b5897eac41b8780fb37f64110ca034f971c)]"

definition mapCheckpointsTestnet :: "(int \<times> uint256) list" where
  "mapCheckpointsTestnet =
    [(0, hashGenesisBlockTestNet),
     (70, 0x97c81df9aab50f1bef2e09ec8d806c3cc7ec6b7b7f13c70f1b854d8e40ed77c9)]"

definition checkpoints :: "'k node \<Rightarrow> (int \<times> uint256) list" where
  "checkpoints N = (if nd_fTestNet N then mapCheckpointsTestnet else mapCheckpoints)"

definition CheckHardened :: "'k node \<Rightarrow> int \<Rightarrow> uint256 \<Rightarrow> bool" where
  "CheckHardened N nHeight hash =
     (case map_of (checkpoints N) nHeight of None \<Rightarrow> True | Some h \<Rightarrow> hash = h)"

definition GetTotalBlocksEstimate :: "'k node \<Rightarrow> int" where
  "GetTotalBlocksEstimate N = fst (last (checkpoints N))"

text \<open>The highest checkpoint whose block is in the index, by its hash.\<close>

definition GetLastCheckpoint :: "'k node \<Rightarrow> (uint256 \<times> CBlockIndex) list \<Rightarrow> uint256 option" where
  "GetLastCheckpoint N mapBlockIndex =
     map_option snd (List.find (\<lambda>(_, hash). map_of mapBlockIndex hash \<noteq> None) (rev (checkpoints N)))"

subsection \<open>Block signatures\<close>

text \<open>\<open>None\<close> is an exception thrown by the key store or the key object.\<close>

definition SignBlock_output ::
  "'k node \<Rightarrow> 'k CKeyStore \<Rightarrow> CBlock \<Rightarrow> valtype \<Rightarrow> (bool \<times> CBlock) option" where
  "SignBlock_output N keystore b vchPubKey =
     (case kv_GetKey keystore (Hash160 (nd_ssl N) vchPubKey) of
        None \<Rightarrow> None
      | Some None \<Rightarrow> Some (False, b)
      | Some (Some key) \<Rightarrow>
          (case GetPubKey (nd_ec N) key of
             None \<Rightarrow> None
           | Some pub \<Rightarrow>
               if pub \<noteq> vchPubKey then Some (False, b)
               else let (ok, sig) = CKey_Sign (nd_ec N) key (CBlock_GetHash N b)
                    in Some (ok, b\<lparr>bk_vchBlockSig := sig\<rparr>)))"

fun SignBlock_loop ::
  "'k node \<Rightarrow> 'k CKeyStore \<Rightarrow> CTxOut list \<Rightarrow> CBlock \<Rightarrow> (bool \<times> CBlock) option" where
  "SignBlock_loop N keystore [] b = Some (False, b)"
| "SignBlock_loop N keystore (out # outs) b =
     (case Solver (to_scriptPubKey out) of (ok, whichType, sols) \<Rightarrow>
        if ok \<and> whichType = TX_PUBKEY
        then (case SignBlock_output N keystore b (sols ! 0) of
                None \<Rightarrow> None
              | Some (True, b) \<Rightarrow> Some (True, b)
              | Some (False, b) \<Rightarrow> SignBlock_loop N keystore outs b)
        else SignBlock_loop N keystore outs b)"

definition SignBlock :: "'k node \<Rightarrow> 'k CKeyStore \<Rightarrow> CBlock \<Rightarrow> (bool \<times> CBlock) option" where
  "SignBlock N keystore b =
     (if \<not> IsProofOfStake b then SignBlock_loop N keystore (tx_vout (bk_vtx b ! 0)) b
      else case Solver (to_scriptPubKey (tx_vout (bk_vtx b ! 1) ! 1)) of (ok, whichType, sols) \<Rightarrow>
             if ok \<and> whichType = TX_PUBKEY then SignBlock_output N keystore b (sols ! 0)
             else Some (False, b))"

definition check_block_sig :: "'k node \<Rightarrow> CBlock \<Rightarrow> valtype \<Rightarrow> bool" where
  "check_block_sig N b vchPubKey =
     (case SetPubKey (nd_ec N) (CKey_Reset (nd_ec N)) vchPubKey of
        (False, _) \<Rightarrow> False
      | (True, key) \<Rightarrow>
          if bk_vchBlockSig b = [] then False
          else CKey_Verify (nd_ec N) key (CBlock_GetHash N b) (bk_vchBlockSig b))"

fun check_sig_loop :: "'k node \<Rightarrow> CBlock \<Rightarrow> CTxOut list \<Rightarrow> bool" where
  "check_sig_loop N b [] = False"
| "check_sig_loop N b (out # outs) =
     (case Solver (to_scriptPubKey out) of (ok, whichType, sols) \<Rightarrow>
        if \<not> ok then False
        else if whichType = TX_PUBKEY \<and> check_block_sig N b (sols ! 0) then True
        else check_sig_loop N b outs)"

definition CheckBlockSignature :: "'k node \<Rightarrow> CBlock \<Rightarrow> bool" where
  "CheckBlockSignature N b =
     (if CBlock_GetHash N b = genesis_hash N then bk_vchBlockSig b = []
      else if IsProofOfStake b
      then (case Solver (to_scriptPubKey (tx_vout (bk_vtx b ! 1) ! 1)) of (ok, whichType, sols) \<Rightarrow>
              ok \<and> whichType = TX_PUBKEY \<and> check_block_sig N b (sols ! 0))
      else check_sig_loop N b (tx_vout (bk_vtx b ! 0)))"

subsection \<open>Context-free checks\<close>

definition GetLegacySigOpCount :: "CTransaction \<Rightarrow> nat" where
  "GetLegacySigOpCount tx =
     sum_list (map (\<lambda>i. GetSigOpCount False (ti_scriptSig i)) (tx_vin tx)) +
     sum_list (map (\<lambda>out. GetSigOpCount False (to_scriptPubKey out)) (tx_vout tx))"

definition CheckCoinStakeTimestamp :: "int \<Rightarrow> int \<Rightarrow> bool" where
  "CheckCoinStakeTimestamp nTimeBlock nTimeTx \<longleftrightarrow> nTimeBlock = nTimeTx"

text \<open>The loop over the transactions: the score of the first that fails.\<close>

fun check_vtx_loop :: "bool \<Rightarrow> int \<Rightarrow> CTransaction list \<Rightarrow> int option" where
  "check_vtx_loop fFullCheck nBlockTime [] = None"
| "check_vtx_loop fFullCheck nBlockTime (tx # txs) =
     (if fFullCheck \<and> \<not> fst (CheckTransaction tx) then Some (snd (CheckTransaction tx))
      else if nBlockTime < uint (tx_nTime tx) then Some 50
      else check_vtx_loop fFullCheck nBlockTime txs)"

definition CheckBlock :: "'k node \<Rightarrow> int \<Rightarrow> bool \<Rightarrow> bool \<Rightarrow> bool \<Rightarrow> CBlock \<Rightarrow> check" where
  "CheckBlock N nAdjustedTime fCheckPOW fCheckMerkleRoot fFullCheck b =
     (let E = nd_ssl N; vtx = bk_vtx b; t = GetBlockTime b
      in if vtx = [] \<or> MAX_BLOCK_SIZE < length vtx \<or> MAX_BLOCK_SIZE < size_block b then DoS 100 False
      else if fCheckPOW \<and> IsProofOfWork b \<and> \<not> CheckProofOfWork E (CBlock_GetHash N b) (bk_nBits b)
      then DoS 50 False
      else if nAdjustedTime + GetClockDrift t < t then DoS 0 False
      else if \<not> IsCoinBase (hd vtx) then DoS 100 False
      else if list_ex IsCoinBase (tl vtx) then DoS 100 False
      else if list_ex IsCoinStake (drop 2 vtx) then DoS 100 False
      else if IsProofOfStake b \<and>
              (length (tx_vout (hd vtx)) \<noteq> 1 \<or> \<not> CTxOut_IsEmpty (tx_vout (hd vtx) ! 0)) then DoS 0 False
      else if uint (tx_nTime (hd vtx)) + GetClockDrift t < t then DoS 50 False
      else if IsProofOfStake b \<and> \<not> CheckCoinStakeTimestamp t (uint (tx_nTime (vtx ! 1))) then DoS 50 False
      else case check_vtx_loop fFullCheck t vtx of
             Some score \<Rightarrow> DoS score False
           | None \<Rightarrow>
               if \<not> distinct (map (GetHash E) vtx) then DoS 100 False
               else if MAX_BLOCK_SIGOPS < sum_list (map GetLegacySigOpCount vtx) then DoS 100 False
               else if fCheckMerkleRoot \<and> bk_hashMerkleRoot b \<noteq> fst (BuildMerkleTree E b)
               then DoS 100 False
               else if fFullCheck \<and> \<not> CheckBlockSignature N b then DoS 100 False
               else DoS 0 True)"

subsection \<open>Merkle branches\<close>

function merkle_root :: "openssl \<Rightarrow> uint256 list \<Rightarrow> uint256" where
  "merkle_root E row = (if length row \<le> 1 then hd row else merkle_root E (merkle_row E row))"
  by pat_completeness auto
termination
  by (relation "measure (\<lambda>(E, row). length row)") (auto simp: length_merkle_row)

declare merkle_root.simps [simp del]

lemma last_merkle_rows: "row \<noteq> [] \<Longrightarrow> last (row @ merkle_rows E row) = merkle_root E row"
proof (induction E row rule: merkle_root.induct)
  case (1 E row)
  show ?case
  proof (cases "length row \<le> 1")
    case True
    then show ?thesis using "1.prems" by (cases row) (auto simp: merkle_rows.simps merkle_root.simps)
  next
    case False
    then have "merkle_row E row \<noteq> []" by (cases "(E, row)" rule: merkle_row.cases) auto
    with False 1 show ?thesis
      by (simp add: merkle_rows.simps [of E row] merkle_root.simps [of E row])
  qed
qed

lemma nth_merkle_row:
  "i < length row \<Longrightarrow> merkle_row E row ! (i div 2) =
     (if even i then hash_pair E (row ! i) (row ! min (i + 1) (length row - 1))
      else hash_pair E (row ! (i - 1)) (row ! i))"
proof (induction E row arbitrary: i rule: merkle_row.induct)
  case (3 E a b row)
  show ?case
  proof (cases "i < 2")
    case True
    then have "i = 0 \<or> i = 1" by linarith
    then show ?thesis by auto
  next
    case False
    then obtain k where k: "i = Suc (Suc k)" by (metis add_2_eq_Suc le_add_diff_inverse not_less)
    with "3.prems" have "k < length row" by simp
    moreover have "min (Suc (k + 2)) (length row + 1) = Suc (Suc (min (Suc k) (length row - 1)))"
      using \<open>k < length row\<close> by auto
    ultimately show ?thesis using 3(1) [of k] k by (auto simp: nth_Cons split: nat.splits)
  qed
qed auto

lemma check_merkle_branch:
  assumes "i < length row"
  shows "check_branch E (row ! i)
    (merkle_branch (pre @ row @ merkle_rows E row) (length pre) (length row) i) (int i) = merkle_root E row"
  using assms
proof (induction "length row" arbitrary: row pre i rule: less_induct)
  case less
  show ?case
  proof (cases "length row \<le> 1")
    case True
    then show ?thesis using less.prems
      by (cases row) (auto simp: merkle_branch.simps merkle_root.simps)
  next
    case False
    let ?tree = "pre @ row @ merkle_rows E row"
    let ?s = "min (if even i then i + 1 else i - 1) (length row - 1)"
    have sib: "?tree ! (length pre + ?s) = row ! ?s"
    proof -
      have "?s < length row" using False less.prems by auto
      then show ?thesis by (simp add: nth_append)
    qed
    have tree: "?tree = (pre @ row) @ merkle_row E row @ merkle_rows E (merkle_row E row)"
      using False by (simp add: merkle_rows.simps [of E row])
    have br: "merkle_branch ?tree (length pre) (length row) i =
      row ! ?s # merkle_branch ?tree (length (pre @ row)) (length (merkle_row E row)) (i div 2)"
      using False sib by (subst merkle_branch.simps) (simp add: length_merkle_row)
    have up: "(if odd (int i) then hash_pair E (row ! ?s) (row ! i) else hash_pair E (row ! i) (row ! ?s)) =
      merkle_row E row ! (i div 2)"
      using nth_merkle_row [OF less.prems, of E] less.prems by (auto simp: min_def)
    have lt: "i div 2 < length (merkle_row E row)" "length (merkle_row E row) < length row"
      using less.prems False by (auto simp: length_merkle_row)
    have "check_branch E (row ! i) (merkle_branch ?tree (length pre) (length row) i) (int i) =
      check_branch E (merkle_row E row ! (i div 2))
        (merkle_branch ?tree (length (pre @ row)) (length (merkle_row E row)) (i div 2)) (int (i div 2))"
      unfolding br check_branch.simps up by (simp add: zdiv_int)
    also have "\<dots> = merkle_root E (merkle_row E row)"
      unfolding tree using less.hyps [OF lt(2,1), of "pre @ row"] by simp
    finally show ?thesis using False by (simp add: merkle_root.simps [of E row])
  qed
qed

text \<open>C23: The branch taken from a block's Merkle tree, checked with the transaction's hash and
  index, gives back the root that the block commits to.\<close>

theorem CheckMerkleBranch_GetMerkleBranch:
  assumes "i < length (bk_vtx b)"
    and "bk_vMerkleTree b = [] \<or> bk_vMerkleTree b = bk_vMerkleTree (snd (BuildMerkleTree E b))"
  shows "CheckMerkleBranch E (GetHash E (bk_vtx b ! i)) (GetMerkleBranch E b i) (int i) =
    fst (BuildMerkleTree E b)"
proof -
  define leaves where "leaves = map (GetHash E) (bk_vtx b)"
  have ne: "leaves \<noteq> []" "i < length leaves" using assms(1) by (auto simp: leaves_def)
  have "GetMerkleBranch E b i = merkle_branch ([] @ leaves @ merkle_rows E leaves) (length []) (length leaves) i"
    using assms(2) by (auto simp: GetMerkleBranch_def BuildMerkleTree_def leaves_def Let_def)
  then have "CheckMerkleBranch E (leaves ! i) (GetMerkleBranch E b i) (int i) = merkle_root E leaves"
    using check_merkle_branch [OF ne(2), of E "[]"] by (simp add: CheckMerkleBranch_def)
  moreover have "fst (BuildMerkleTree E b) = merkle_root E leaves"
    using last_merkle_rows [OF ne(1)] ne by (simp add: BuildMerkleTree_def leaves_def Let_def)
  ultimately show ?thesis using assms(1) by (simp add: leaves_def)
qed


end
