(* ===== verification/Block_Rules.thy ===== *)
theory Block_Rules
  imports Block
begin

text \<open>
  Facts about transactions and blocks: the amounts of a checked transaction, the shape of a
  checked block, and signing followed by checking a block signature.
\<close>

lemma MoneyRange_0: "MoneyRange 0"
  by (simp add: MoneyRange_def MAX_MONEY_def COIN_def)

lemma MoneyRange_add:
  assumes "MoneyRange a" "0 \<le> sint b" "sint b \<le> MAX_MONEY"
  shows "sint (a + b) = sint a + sint b"
proof -
  have "sint a + sint b < 2 ^ 63" "- (2 ^ 63) \<le> sint a + sint b"
    using assms by (auto simp: MoneyRange_def MAX_MONEY_def COIN_def)
  then show ?thesis using sint64_add [of a b] by simp
qed

lemma check_vout_loop_ok:
  assumes "check_vout_loop fUser acc outs = Inr tot" and "MoneyRange acc"
  shows "(\<forall>out \<in> set outs. MoneyRange (to_nValue out)) \<and> value_out_loop acc outs = Some tot \<and>
    MoneyRange tot \<and> sint tot = sint acc + sum_list (map (\<lambda>out. sint (to_nValue out)) outs)"
  using assms
proof (induction outs arbitrary: acc)
  case (Cons out outs)
  have range: "0 \<le> sint (to_nValue out) \<and> sint (to_nValue out) \<le> MAX_MONEY"
  proof (cases "CTxOut_IsEmpty out")
    case True
    then show ?thesis by (simp add: CTxOut_IsEmpty_def MAX_MONEY_def COIN_def)
  next
    case False
    then show ?thesis using Cons.prems(1)
      by (auto simp: MIN_TXOUT_AMOUNT_def MIN_TX_FEE_def COIN_def split: if_splits)
  qed
  then have m: "MoneyRange (to_nValue out)" by (simp add: MoneyRange_def)
  have acc: "MoneyRange (acc + to_nValue out)"
    and loop: "check_vout_loop fUser (acc + to_nValue out) outs = Inr tot"
    using Cons.prems(1) by (auto simp: Let_def split: if_splits)
  have "sint (acc + to_nValue out) = sint acc + sint (to_nValue out)"
    using MoneyRange_add [OF Cons.prems(2)] range by simp
  then show ?case using Cons.IH [OF loop acc] m acc by (simp add: Let_def)
qed (simp add: MoneyRange_def)

lemma CheckTransaction_cases:
  assumes "fst (CheckTransaction tx)"
  obtains tot where "tx_vin tx \<noteq> []" "tx_vout tx \<noteq> []" "size_tx tx \<le> MAX_BLOCK_SIZE"
    "check_vout_loop (\<not> IsCoinBase tx \<and> \<not> IsCoinStake tx) 0 (tx_vout tx) = Inr tot"
    "distinct (map ti_prevout (tx_vin tx))"
    "IsCoinBase tx \<or> list_all (\<lambda>i. \<not> COutPoint_IsNull (ti_prevout i)) (tx_vin tx)"
  using assms
  by (auto simp: CheckTransaction_def DoS_def list_ex_iff list_all_iff split: if_splits sum.splits)

text \<open>C13: A transaction that passes \<open>CheckTransaction\<close> spends no output twice, its outputs are
  in the money range, and their sum is computed without wrap-around: \<open>GetValueOut\<close> does not
  throw on it and returns the true sum, itself in range.\<close>

theorem CheckTransaction_values:
  assumes "fst (CheckTransaction tx)"
  shows "distinct (map ti_prevout (tx_vin tx)) \<and> (\<forall>out \<in> set (tx_vout tx). MoneyRange (to_nValue out)) \<and>
    (\<exists>tot. GetValueOut tx = Some tot \<and> MoneyRange tot \<and>
       sint tot = sum_list (map (\<lambda>out. sint (to_nValue out)) (tx_vout tx)))"
proof -
  from CheckTransaction_cases [OF assms] obtain tot where
    t: "check_vout_loop (\<not> IsCoinBase tx \<and> \<not> IsCoinStake tx) 0 (tx_vout tx) = Inr tot"
      "distinct (map ti_prevout (tx_vin tx))" by metis
  with check_vout_loop_ok [OF t(1) MoneyRange_0] show ?thesis by (simp add: GetValueOut_def)
qed

lemma check_vtx_loop_None:
  "check_vtx_loop True t txs = None \<longleftrightarrow>
    list_all (\<lambda>tx. fst (CheckTransaction tx) \<and> uint (tx_nTime tx) \<le> t) txs"
  by (induction txs) (auto simp: not_less)

text \<open>C12: What a fully checked block is: it has one coinbase, in front; a coinstake only at
  index 1; no transaction twice; every transaction well-formed and not newer than the
  block; few enough signature operations; the Merkle root and the signature are right.\<close>

theorem CheckBlock_structure:
  assumes "fst (CheckBlock N now True True True b)"
  shows "\<exists>cb txs. bk_vtx b = cb # txs \<and> IsCoinBase cb \<and> list_all (\<lambda>tx. \<not> IsCoinBase tx) txs \<and>
    list_all (\<lambda>tx. \<not> IsCoinStake tx) (tl txs) \<and> distinct (map (GetHash (nd_ssl N)) (bk_vtx b)) \<and>
    list_all (\<lambda>tx. fst (CheckTransaction tx) \<and> uint (tx_nTime tx) \<le> GetBlockTime b) (bk_vtx b) \<and>
    sum_list (map GetLegacySigOpCount (bk_vtx b)) \<le> MAX_BLOCK_SIGOPS \<and>
    bk_hashMerkleRoot b = fst (BuildMerkleTree (nd_ssl N) b) \<and> CheckBlockSignature N b \<and>
    (IsProofOfStake b \<or> CheckProofOfWork (nd_ssl N) (CBlock_GetHash N b) (bk_nBits b))"
proof -
  obtain cb txs where v: "bk_vtx b = cb # txs"
    using assms by (cases "bk_vtx b") (auto simp: CheckBlock_def DoS_def)
  have loop: "check_vtx_loop True (GetBlockTime b) (bk_vtx b) = None"
    using assms by (auto simp: CheckBlock_def DoS_def Let_def split: if_splits option.splits)
  show ?thesis
    using assms v loop [unfolded check_vtx_loop_None]
    by (auto simp: CheckBlock_def DoS_def Let_def list_ex_iff list_all_iff IsProofOfWork_def drop_Suc
        numeral_2_eq_2 split: if_splits option.splits)
qed

subsection \<open>Signing a block\<close>

text \<open>
  What OpenSSL documents: a signature it writes is in the short DER form and is read back and
  written again unchanged, and it verifies under the public key of the signing key, in either form.
\<close>

definition ecdsa_documented :: "'k ecdsa \<Rightarrow> bool" where
  "ecdsa_documented L \<longleftrightarrow>
     (\<forall>k hash sig. ECDSA_sign L k hash = Some sig \<longrightarrow>
        2 \<le> length sig \<and> sig ! 1 AND 0x80 = 0 \<and> (\<exists>rs. d2i_ECDSA_SIG L sig = Some rs \<and> i2d_ECDSA_SIG L rs = sig) \<and>
        (i2o_ECPublicKey L k \<noteq> [] \<longrightarrow>
          (\<exists>k'. o2i_ECPublicKey L (EC_KEY_new L) (i2o_ECPublicKey L k) = Some k' \<and>
             ECDSA_verify L k' hash sig = 1 \<and> ECDSA_verify L (EC_KEY_set_compressed L k') hash sig = 1)))"

lemma ecdsa_sign_verifies:
  assumes "ecdsa_documented L" "GetPubKey L key = Some pub" "CKey_Sign L key hash = (True, sig)"
  shows "sig \<noteq> [] \<and> (\<exists>key'. SetPubKey L (CKey_Reset L) pub = (True, key') \<and> CKey_Verify L key' hash sig)"
proof -
  have s: "ECDSA_sign L (ck_pkey key) hash = Some sig" and pub: "pub = i2o_ECPublicKey L (ck_pkey key)" "pub \<noteq> []"
    using assms(2,3) by (auto simp: CKey_Sign_def GetPubKey_def Let_def split: option.splits if_splits)
  have sig: "2 \<le> length sig" "sig ! 1 AND 0x80 = 0" "\<exists>rs. d2i_ECDSA_SIG L sig = Some rs \<and> i2d_ECDSA_SIG L rs = sig"
    using assms(1) s unfolding ecdsa_documented_def by blast+
  obtain k' where k': "o2i_ECPublicKey L (EC_KEY_new L) pub = Some k'"
      "ECDSA_verify L k' hash sig = 1" "ECDSA_verify L (EC_KEY_set_compressed L k') hash sig = 1"
    using assms(1) s pub unfolding ecdsa_documented_def by blast
  from sig have "strip_length_bytes sig = Some sig" "sig \<noteq> []" by (auto simp: strip_length_bytes_def)
  with sig k' show ?thesis
    by (auto simp: SetPubKey_def CKey_Reset_def CKey_Verify_def SetCompressedPubKey_def Let_def)
qed

lemma GetHash_sig [simp]: "CBlock_GetHash N (b\<lparr>bk_vchBlockSig := sig\<rparr>) = CBlock_GetHash N b"
  by (simp add: CBlock_GetHash_def ser_header_def)

lemma IsProofOfStake_sig [simp]: "IsProofOfStake (b\<lparr>bk_vchBlockSig := sig\<rparr>) = IsProofOfStake b"
  by (simp add: IsProofOfStake_def)

lemma SignBlock_output_checks:
  assumes "ecdsa_documented (nd_ec N)" and "SignBlock_output N keystore b pub = Some (True, b')"
  shows "check_block_sig N b' pub \<and> (\<exists>sig. b' = b\<lparr>bk_vchBlockSig := sig\<rparr>)"
proof -
  from assms(2) obtain key sig where k: "GetPubKey (nd_ec N) key = Some pub"
    "CKey_Sign (nd_ec N) key (CBlock_GetHash N b) = (True, sig)" "b' = b\<lparr>bk_vchBlockSig := sig\<rparr>"
    by (auto simp: SignBlock_output_def Let_def split: option.splits if_splits prod.splits)
  with ecdsa_sign_verifies [OF assms(1) k(1,2)] obtain key' where "sig \<noteq> []"
    "SetPubKey (nd_ec N) (CKey_Reset (nd_ec N)) pub = (True, key')"
    "CKey_Verify (nd_ec N) key' (CBlock_GetHash N b) sig" by blast
  with k show ?thesis by (auto simp: check_block_sig_def)
qed

text \<open>A proof-of-stake block that \<open>SignBlock\<close> has signed passes \<open>CheckBlockSignature\<close>,
  unless it has the hash of the genesis block, which must not be signed.\<close>

theorem SignBlock_stake_checks:
  assumes "ecdsa_documented (nd_ec N)" and "IsProofOfStake b"
    and "CBlock_GetHash N b \<noteq> genesis_hash N"
    and "SignBlock N keystore b = Some (True, b')"
  shows "CheckBlockSignature N b'"
proof -
  obtain ok ty sols where sol: "Solver (to_scriptPubKey (tx_vout (bk_vtx b ! 1) ! 1)) = (ok, ty, sols)"
    by (metis prod_cases3)
  with assms have t: "ok" "ty = TX_PUBKEY" and out: "SignBlock_output N keystore b (sols ! 0) = Some (True, b')"
    by (auto simp: SignBlock_def split: if_splits)
  from SignBlock_output_checks [OF assms(1) out] assms(2,3) sol t show ?thesis
    by (auto simp: CheckBlockSignature_def)
qed

end
