(* ===== verification/Block_Files.thy ===== *)
theory Block_Files
  imports Block_Rules
begin

text \<open>
  The block files (\<open>src/main.h\<close>, \<open>src/main.cpp\<close>): appending a block, and reading a block or a
  single transaction back from its position. A file is its bytes; \<open>fopen\<close> for appending
  creates a missing file and fails when the directory is not writable.
\<close>

record blockfiles =
  bf_files :: "(uint32 \<times> byte list) list"
  bf_nCurrentBlockFile :: uint32
  bf_pchMessageStart :: "byte list"
  bf_writable :: bool

record CDiskTxPos =
  dp_nFile :: uint32
  dp_nBlockPos :: uint32
  dp_nTxPos :: uint32

definition CDiskTxPos_SetNull :: CDiskTxPos where
  "CDiskTxPos_SetNull = \<lparr>dp_nFile = - 1, dp_nBlockPos = 0, dp_nTxPos = 0\<rparr>"

definition CDiskTxPos_IsNull :: "CDiskTxPos \<Rightarrow> bool" where
  "CDiskTxPos_IsNull p \<longleftrightarrow> dp_nFile p = - 1"

text \<open>The bytes of an existing file from a position on, as \<open>fopen\<close> with mode \<open>rb\<close> gives them.\<close>

definition OpenBlockFile :: "blockfiles \<Rightarrow> uint32 \<Rightarrow> uint32 \<Rightarrow> byte list option" where
  "OpenBlockFile d nFile nBlockPos =
     (if nFile < 1 \<or> nFile = - 1 then None
      else map_option (drop (unat nBlockPos)) (map_of (bf_files d) nFile))"

definition file_length :: "blockfiles \<Rightarrow> uint32 \<Rightarrow> nat" where
  "file_length d nFile = (case map_of (bf_files d) nFile of None \<Rightarrow> 0 | Some f \<Rightarrow> length f)"

text \<open>\<open>AppendBlockFile\<close>: the current file, or the next that is below the size limit.\<close>

function append_loop :: "blockfiles \<Rightarrow> uint32 \<Rightarrow> uint32 option" where
  "append_loop d nCurrent =
     (if nCurrent < 1 \<or> nCurrent = - 1 \<or> \<not> bf_writable d then None
      else if file_length d nCurrent < 0x7F000000 - MAX_SIZE then Some nCurrent
      else append_loop d (nCurrent + 1))"
  by pat_completeness auto
termination
proof (relation "measure (\<lambda>(d, n). 2 ^ 32 - unat n)")
  fix d :: blockfiles and n :: uint32
  assume "\<not> (n < 1 \<or> n = - 1 \<or> \<not> bf_writable d)"
  then have "unat (n + 1) = unat n + 1" 
    using unatSuc [of n] by (auto simp: eq_neg_iff_add_eq_0 add.commute)
  moreover have "unat n < 2 ^ 32" using unsigned_less [of n] by simp
  ultimately show "((d, n + 1), (d, n)) \<in> measure (\<lambda>(d, n). 2 ^ 32 - unat n)" by simp
qed simp

declare append_loop.simps [simp del]

text \<open>\<open>WriteToDisk\<close>: the file and the position of the block in it.\<close>

definition WriteToDisk :: "blockfiles \<Rightarrow> CBlock \<Rightarrow> (uint32 \<times> uint32 \<times> blockfiles) option" where
  "WriteToDisk d b =
     (case append_loop d (bf_nCurrentBlockFile d) of
        None \<Rightarrow> None
      | Some nFile \<Rightarrow>
          let old = (case map_of (bf_files d) nFile of None \<Rightarrow> [] | Some f \<Rightarrow> f);
              header = old @ bf_pchMessageStart d @ bytes_of_u32 (word_of_nat (size_block b))
          in Some (nFile, word_of_nat (length header),
               d\<lparr>bf_nCurrentBlockFile := nFile,
                  bf_files := map_put nFile (header @ ser_block b) (bf_files d)\<rparr>))"

text \<open>
  \<open>ReadFromDisk\<close> of a block into an object \<open>b0\<close>: on failure the object keeps what
  \<open>SetNull\<close> and the reader left in it.
\<close>

definition ReadFromDisk :: "'k node \<Rightarrow> blockfiles \<Rightarrow> CBlock \<Rightarrow> uint32 \<Rightarrow> uint32 \<Rightarrow> bool \<Rightarrow> CBlock option" where
  "ReadFromDisk N d b0 nFile nBlockPos fReadTransactions =
     (case OpenBlockFile d nFile nBlockPos of
        None \<Rightarrow> None
      | Some bytes \<Rightarrow>
          (case (if fReadTransactions then unser_block else unser_header) (CBlock_SetNull b0) bytes of
             None \<Rightarrow> None
           | Some (b, _) \<Rightarrow>
               if fReadTransactions \<and> IsProofOfWork b \<and>
                  \<not> CheckProofOfWork (nd_ssl N) (CBlock_GetHash N b) (bk_nBits b)
               then None else Some b))"

text \<open>The header that an index entry stands for, given the entry it points back to.\<close>

definition CBlock_new :: CBlock where
  "CBlock_new = \<lparr>bk_nVersion = 4, bk_hashPrevBlock = 0, bk_hashMerkleRoot = 0, bk_nTime = 0,
     bk_nBits = 0, bk_nNonce = 0, bk_vtx = [], bk_vchBlockSig = [], bk_vMerkleTree = [], bk_hashBlock = 0\<rparr>"

definition GetBlockHeader :: "CBlockIndex \<Rightarrow> CBlock" where
  "GetBlockHeader p = CBlock_new\<lparr>bk_nVersion := bi_nVersion p,
     bk_hashPrevBlock := (case bi_pprev p of None \<Rightarrow> 0 | Some h \<Rightarrow> h),
     bk_hashMerkleRoot := bi_hashMerkleRoot p, bk_nTime := bi_nTime p, bk_nBits := bi_nBits p,
     bk_nNonce := bi_nNonce p\<rparr>"

definition ReadFromDisk_index :: "'k node \<Rightarrow> blockfiles \<Rightarrow> CBlockIndex \<Rightarrow> bool \<Rightarrow> CBlock option" where
  "ReadFromDisk_index N d p fReadTransactions =
     (if \<not> fReadTransactions then Some (GetBlockHeader p)
      else case ReadFromDisk N d CBlock_new (bi_nFile p) (bi_nBlockPos p) True of
             None \<Rightarrow> None
           | Some b \<Rightarrow> if CBlock_GetHash N b \<noteq> bi_hash p then None
                       else Some (b\<lparr>bk_hashBlock := bi_hash p\<rparr>))"

definition ReadFromDisk_tx :: "blockfiles \<Rightarrow> CDiskTxPos \<Rightarrow> CTransaction option" where
  "ReadFromDisk_tx d pos =
     (case OpenBlockFile d (dp_nFile pos) 0 of
        None \<Rightarrow> None
      | Some bytes \<Rightarrow> map_option fst (unser_tx (drop (unat (dp_nTxPos pos)) bytes)))"

text \<open>The position \<open>ConnectBlock\<close> computes for transaction \<open>i\<close> of a block that starts at \<open>nBlockPos\<close>.\<close>

definition tx_position :: "uint32 \<Rightarrow> CTransaction list \<Rightarrow> nat \<Rightarrow> uint32" where
  "tx_position nBlockPos vtx i =
     nBlockPos + word_of_nat (size_block CBlock_new - 2 * GetSizeOfCompactSize 0 +
       GetSizeOfCompactSize (length vtx) + sum_list (map size_tx (take i vtx)))"

subsection \<open>Blocks and their transactions are read back\<close>

lemma length_ser_header [simp]: "length (ser_header b) = 80"
  by (simp add: ser_header_def)

lemma unser_header_ser:
  "unser_header b0 (ser_header b @ r) =
     Some (b0\<lparr>bk_nVersion := bk_nVersion b, bk_hashPrevBlock := bk_hashPrevBlock b,
       bk_hashMerkleRoot := bk_hashMerkleRoot b, bk_nTime := bk_nTime b, bk_nBits := bk_nBits b,
       bk_nNonce := bk_nNonce b, bk_vtx := [], bk_vchBlockSig := []\<rparr>, r)"
  by (simp add: unser_header_def ser_header_def codec_simps)

lemma unser_block_ser:
  assumes "valid_block b"
  shows "unser_block b0 (ser_block b @ r) =
     Some (b\<lparr>bk_vMerkleTree := bk_vMerkleTree b0, bk_hashBlock := bk_hashBlock b0\<rparr>, r)"
  using assms
  by (simp add: unser_block_def ser_block_def unser_header_ser tx_codec.vector_dec_enc codec_simps
      valid_block_def)

lemma size_block_ser: "valid_block b \<Longrightarrow> length (ser_block b) = size_block b"
  by (simp add: ser_block_def size_block_def valid_block_def tx_codec.vector_size length_Serialize_bytes)

lemma GetSerializeSize_bytes_pos: "GetSizeOfCompactSize 0 = 1"
  by (simp add: GetSizeOfCompactSize_def)

lemma size_block_new: "size_block CBlock_new = 82"
  by (simp add: size_block_def CBlock_new_def GetSerializeSize_vector_def GetSerializeSize_bytes_def
      GetSizeOfCompactSize_def)

lemma append_loop_bounds:
  "append_loop d n = Some k \<Longrightarrow> k \<noteq> 0 \<and> k \<noteq> - 1 \<and> file_length d k < 0x7F000000 - MAX_SIZE \<and> bf_writable d"
proof (induction d n rule: append_loop.induct)
  case (1 d n)
  show ?case
  proof (cases "file_length d n < 0x7F000000 - MAX_SIZE")
    case True
    with "1.prems" show ?thesis by (subst (asm) append_loop.simps) (auto split: if_splits)
  next
    case False
    with "1.prems" have "\<not> (n < 1 \<or> n = - 1 \<or> \<not> bf_writable d)" "append_loop d (n + 1) = Some k"
      by (subst (asm) append_loop.simps, auto split: if_splits)+
    then show ?thesis using "1.IH" False by blast
  qed
qed

lemma unat_u32_of_nat: "n < 2 ^ 32 \<Longrightarrow> unat (word_of_nat n :: uint32) = n"
  by (simp add: unsigned_of_nat take_bit_nat_eq_self)

lemma WriteToDisk_cases:
  assumes "WriteToDisk d b = Some (nFile, nPos, d')" and "length (bf_pchMessageStart d) = 4"
    and "size_block b \<le> MAX_BLOCK_SIZE" "valid_block b"
  obtains pre where "OpenBlockFile d' nFile 0 = Some (pre @ ser_block b)" "unat nPos = length pre"
    "length pre < 0x7F000008 - MAX_SIZE"
proof -
  from assms(1) obtain old where
    loop: "append_loop d (bf_nCurrentBlockFile d) = Some nFile" and
    old: "old = (case map_of (bf_files d) nFile of None \<Rightarrow> [] | Some f \<Rightarrow> f)" and
    pos: "nPos = word_of_nat (length (old @ bf_pchMessageStart d @ bytes_of_u32 (word_of_nat (size_block b))))" and
    d': "d' = d\<lparr>bf_nCurrentBlockFile := nFile, bf_files := map_put nFile
      ((old @ bf_pchMessageStart d @ bytes_of_u32 (word_of_nat (size_block b))) @ ser_block b) (bf_files d)\<rparr>"
    by (auto simp: WriteToDisk_def Let_def split: option.splits)
  define pre where "pre = old @ bf_pchMessageStart d @ bytes_of_u32 (word_of_nat (size_block b))"
  have len: "length old < 0x7F000000 - MAX_SIZE"
    using append_loop_bounds [OF loop] by (simp add: file_length_def old split: option.splits)
  then have lp: "length pre < 0x7F000008 - MAX_SIZE"
    using assms(2) by (simp add: pre_def MAX_SIZE_def)
  have "unat nPos = length pre"
    unfolding pos pre_def [symmetric] using lp by (intro unat_u32_of_nat) (simp add: MAX_SIZE_def)
  moreover have "OpenBlockFile d' nFile 0 = Some (pre @ ser_block b)"
    using append_loop_bounds [OF loop] by (auto simp: OpenBlockFile_def d' pre_def not_less)
  ultimately show ?thesis using that lp by blast
qed

lemma OpenBlockFile_drop:
  "OpenBlockFile d nFile 0 = Some bytes \<Longrightarrow> OpenBlockFile d nFile p = Some (drop (unat p) bytes)"
  by (auto simp: OpenBlockFile_def split: if_splits)

text \<open>C22: A block appended to the block files is read back from the position that was returned,
  the same in every serialised field.\<close>

theorem ReadFromDisk_WriteToDisk:
  assumes "WriteToDisk d b = Some (nFile, nPos, d')" and "length (bf_pchMessageStart d) = 4"
    and "size_block b \<le> MAX_BLOCK_SIZE" and "valid_block b"
    and "IsProofOfStake b \<or> CheckProofOfWork (nd_ssl N) (nd_Hash9 N (ser_header b)) (bk_nBits b)"
  shows "ReadFromDisk N d' CBlock_new nFile nPos True = Some (b\<lparr>bk_vMerkleTree := [], bk_hashBlock := 0\<rparr>)"
proof -
  from WriteToDisk_cases [OF assms(1-4)] obtain pre where
    f: "OpenBlockFile d' nFile 0 = Some (pre @ ser_block b)" "unat nPos = length pre" by metis
  have "OpenBlockFile d' nFile nPos = Some (ser_block b)"
    using OpenBlockFile_drop [OF f(1), of nPos] f(2) by simp
  moreover have "CBlock_SetNull CBlock_new = CBlock_new"
    by (simp add: CBlock_SetNull_def CBlock_new_def)
  moreover have "CBlock_GetHash N (b\<lparr>bk_vMerkleTree := [], bk_hashBlock := 0\<rparr>) = nd_Hash9 N (ser_header b)"
    by (simp add: CBlock_GetHash_def ser_header_def)
  moreover have "IsProofOfWork (b\<lparr>bk_vMerkleTree := [], bk_hashBlock := 0\<rparr>) \<longleftrightarrow> \<not> IsProofOfStake b"
    by (simp add: IsProofOfWork_def IsProofOfStake_def)
  moreover have "unser_block CBlock_new (ser_block b) =
      Some (b\<lparr>bk_vMerkleTree := [], bk_hashBlock := 0\<rparr>, [])"
    using unser_block_ser [OF assms(4), of CBlock_new "[]"] by (simp add: CBlock_new_def)
  ultimately show ?thesis using assms(5) by (auto simp: ReadFromDisk_def)
qed

text \<open>The positions that \<open>ConnectBlock\<close> enters in the transaction index are right: reading
  there gives back each transaction of the block.\<close>

theorem ReadFromDisk_tx_position:
  assumes "WriteToDisk d b = Some (nFile, nPos, d')" and "length (bf_pchMessageStart d) = 4"
    and "size_block b \<le> MAX_BLOCK_SIZE" and "valid_block b" and "i < length (bk_vtx b)"
  shows "ReadFromDisk_tx d' \<lparr>dp_nFile = nFile, dp_nBlockPos = nPos, dp_nTxPos = tx_position nPos (bk_vtx b) i\<rparr> =
    Some (bk_vtx b ! i)"
proof -
  from WriteToDisk_cases [OF assms(1-4)] obtain pre where
    f: "OpenBlockFile d' nFile 0 = Some (pre @ ser_block b)" "unat nPos = length pre"
      "length pre < 0x7F000008 - MAX_SIZE" by metis
  let ?before = "concat (map ser_tx (take i (bk_vtx b)))"
  let ?skip = "80 + GetSizeOfCompactSize (length (bk_vtx b)) + sum_list (map size_tx (take i (bk_vtx b)))"
  have valid: "list_all valid_tx (bk_vtx b)" using assms(4) by (simp add: valid_block_def)
  have vt: "bk_vtx b = take i (bk_vtx b) @ bk_vtx b ! i # drop (Suc i) (bk_vtx b)"
    using assms(5) by (simp add: id_take_nth_drop)
  have lens: "length (concat (map ser_tx txs)) = sum_list (map size_tx txs)" if "list_all valid_tx txs" for txs
    using that by (induction txs) (auto simp: tx_codec.size_enc)
  have lb: "length ?before = sum_list (map size_tx (take i (bk_vtx b)))"
    using valid by (intro lens) (auto simp: list_all_iff dest: in_set_takeD)
  have cat: "concat (map ser_tx (bk_vtx b)) =
      ?before @ ser_tx (bk_vtx b ! i) @ concat (map ser_tx (drop (Suc i) (bk_vtx b)))"
    by (subst vt) simp
  have "sum_list (map size_tx (take i (bk_vtx b))) \<le> sum_list (map size_tx (bk_vtx b))"
    by (subst (2) vt) simp
  then have "?skip \<le> size_block b"
    by (simp add: size_block_def GetSerializeSize_vector_def)
  then have small: "?skip \<le> 1000000" using assms(3) by (simp add: MAX_BLOCK_SIZE_def)
  have "tx_position nPos (bk_vtx b) i = word_of_nat (length pre + ?skip)"
    using f(2) by (simp add: tx_position_def size_block_new GetSerializeSize_bytes_pos flip: f(2))
  then have pos: "unat (tx_position nPos (bk_vtx b) i) = length pre + ?skip"
    using f(3) small by (simp only:) (rule unat_u32_of_nat, simp add: MAX_SIZE_def)
  have "pre @ ser_block b = (pre @ ser_header b @ WriteCompactSize (length (bk_vtx b)) @ ?before) @
      ser_tx (bk_vtx b ! i) @ concat (map ser_tx (drop (Suc i) (bk_vtx b))) @ Serialize_bytes (bk_vchBlockSig b)"
    by (simp add: ser_block_def Serialize_vector_def cat)
  moreover have "length (pre @ ser_header b @ WriteCompactSize (length (bk_vtx b)) @ ?before) = length pre + ?skip"
    by (simp add: lb length_WriteCompactSize)
  ultimately have "drop (unat (tx_position nPos (bk_vtx b) i)) (pre @ ser_block b) =
      ser_tx (bk_vtx b ! i) @ concat (map ser_tx (drop (Suc i) (bk_vtx b))) @ Serialize_bytes (bk_vchBlockSig b)"
    unfolding pos by (metis append_eq_conv_conj)
  then show ?thesis
    using f(1) valid assms(5)
    by (simp add: ReadFromDisk_tx_def tx_codec.dec_enc list_all_length)
qed


end
