(* ===== verification/Tx_Inputs.thy ===== *)
theory Tx_Inputs
  imports Block_Files
begin

text \<open>
  Connecting transactions (\<open>src/main.cpp\<close>, \<open>src/db.cpp\<close>): the transaction database, relay
  policy on inputs, fetching the previous transactions, spending their outputs and giving
  them back, and coin age. The database library is a table; \<open>db_faults\<close> says which of the
  next writes fail. \<open>None\<close> as a result is an exception that leaves the function.
\<close>

subsection \<open>The transaction database\<close>

record CTxIndex =
  xi_pos :: CDiskTxPos
  xi_vSpent :: "CDiskTxPos list"

definition CTxIndex_new :: "CDiskTxPos \<Rightarrow> nat \<Rightarrow> CTxIndex" where
  "CTxIndex_new posIn nOutputs = \<lparr>xi_pos = posIn, xi_vSpent = replicate nOutputs CDiskTxPos_SetNull\<rparr>"

record CDiskBlockIndex =
  di_index :: CBlockIndex
  di_hashPrev :: uint256
  di_hashNext :: uint256

record tables =
  tb_tx :: "(uint256 \<times> CTxIndex) list"
  tb_blockindex :: "(uint256 \<times> CDiskBlockIndex) list"
  tb_hashBestChain :: uint256
  tb_bnBestInvalidTrust :: int

record txdb =
  db_tables :: tables
  db_saved :: "tables option"
  db_faults :: "bool list"

definition db_write :: "(tables \<Rightarrow> tables) \<Rightarrow> txdb \<Rightarrow> bool \<times> txdb" where
  "db_write upd db =
     (case db_faults db of
        [] \<Rightarrow> (True, db\<lparr>db_tables := upd (db_tables db)\<rparr>)
      | fault # rest \<Rightarrow>
          if fault then (False, db\<lparr>db_faults := rest\<rparr>)
          else (True, db\<lparr>db_faults := rest, db_tables := upd (db_tables db)\<rparr>))"

definition TxnBegin :: "txdb \<Rightarrow> bool \<times> txdb" where
  "TxnBegin db =
     (if db_saved db \<noteq> None then (False, db) else (True, db\<lparr>db_saved := Some (db_tables db)\<rparr>))"

text \<open>A commit that fails leaves the transaction aborted, as the library documents.\<close>

definition TxnCommit :: "txdb \<Rightarrow> bool \<times> txdb" where
  "TxnCommit db =
     (case db_saved db of
        None \<Rightarrow> (False, db)
      | Some t \<Rightarrow>
          (case db_write id db of
             (True, db) \<Rightarrow> (True, db\<lparr>db_saved := None\<rparr>)
           | (False, db) \<Rightarrow> (False, db\<lparr>db_tables := t, db_saved := None\<rparr>)))"

definition TxnAbort :: "txdb \<Rightarrow> bool \<times> txdb" where
  "TxnAbort db =
     (case db_saved db of
        None \<Rightarrow> (False, db)
      | Some t \<Rightarrow> (True, db\<lparr>db_tables := t, db_saved := None\<rparr>))"

definition ReadTxIndex :: "txdb \<Rightarrow> uint256 \<Rightarrow> CTxIndex option" where
  "ReadTxIndex db hash = map_of (tb_tx (db_tables db)) hash"

definition UpdateTxIndex :: "txdb \<Rightarrow> uint256 \<Rightarrow> CTxIndex \<Rightarrow> bool \<times> txdb" where
  "UpdateTxIndex db hash txindex = db_write (\<lambda>t. t\<lparr>tb_tx := map_put hash txindex (tb_tx t)\<rparr>) db"

definition AddTxIndex :: "openssl \<Rightarrow> txdb \<Rightarrow> CTransaction \<Rightarrow> CDiskTxPos \<Rightarrow> bool \<times> txdb" where
  "AddTxIndex E db tx pos =
     db_write (\<lambda>t. t\<lparr>tb_tx := map_put (GetHash E tx) (CTxIndex_new pos (length (tx_vout tx))) (tb_tx t)\<rparr>) db"

definition EraseTxIndex :: "openssl \<Rightarrow> txdb \<Rightarrow> CTransaction \<Rightarrow> bool \<times> txdb" where
  "EraseTxIndex E db tx = db_write (\<lambda>t. t\<lparr>tb_tx := map_erase (GetHash E tx) (tb_tx t)\<rparr>) db"

definition ContainsTx :: "txdb \<Rightarrow> uint256 \<Rightarrow> bool" where
  "ContainsTx db hash \<longleftrightarrow> map_of (tb_tx (db_tables db)) hash \<noteq> None"

definition ReadDiskTx :: "blockfiles \<Rightarrow> txdb \<Rightarrow> uint256 \<Rightarrow> (CTransaction \<times> CTxIndex) option" where
  "ReadDiskTx d db hash =
     (case ReadTxIndex db hash of None \<Rightarrow> None
      | Some txindex \<Rightarrow> map_option (\<lambda>tx. (tx, txindex)) (ReadFromDisk_tx d (xi_pos txindex)))"

definition WriteBlockIndex :: "txdb \<Rightarrow> CDiskBlockIndex \<Rightarrow> bool \<times> txdb" where
  "WriteBlockIndex db i =
     db_write (\<lambda>t. t\<lparr>tb_blockindex := map_put (bi_hash (di_index i)) i (tb_blockindex t)\<rparr>) db"

definition WriteHashBestChain :: "txdb \<Rightarrow> uint256 \<Rightarrow> bool \<times> txdb" where
  "WriteHashBestChain db hash = db_write (\<lambda>t. t\<lparr>tb_hashBestChain := hash\<rparr>) db"

definition WriteBestInvalidTrust :: "txdb \<Rightarrow> int \<Rightarrow> bool \<times> txdb" where
  "WriteBestInvalidTrust db trust = db_write (\<lambda>t. t\<lparr>tb_bnBestInvalidTrust := trust\<rparr>) db"

text \<open>\<open>CTransaction::ReadFromDisk\<close> for an outpoint: the output must exist.\<close>

definition ReadFromDisk_prevout ::
  "blockfiles \<Rightarrow> txdb \<Rightarrow> COutPoint \<Rightarrow> (CTransaction \<times> CTxIndex) option" where
  "ReadFromDisk_prevout d db prevout =
     (case ReadDiskTx d db (op_hash prevout) of
        None \<Rightarrow> None
      | Some (tx, txindex) \<Rightarrow>
          if length (tx_vout tx) \<le> unat (op_n prevout) then None else Some (tx, txindex))"

subsection \<open>Previous outputs\<close>

type_synonym MapPrevTx = "(uint256 \<times> CTxIndex \<times> CTransaction) list"

definition GetOutputFor :: "CTxIn \<Rightarrow> MapPrevTx \<Rightarrow> CTxOut option" where
  "GetOutputFor input inputs =
     (case map_of inputs (op_hash (ti_prevout input)) of
        None \<Rightarrow> None
      | Some (_, txPrev) \<Rightarrow>
          let n = unat (op_n (ti_prevout input))
          in if length (tx_vout txPrev) \<le> n then None else Some (tx_vout txPrev ! n))"

fun value_in_loop :: "MapPrevTx \<Rightarrow> int64 \<Rightarrow> CTxIn list \<Rightarrow> int64 option" where
  "value_in_loop inputs nResult [] = Some nResult"
| "value_in_loop inputs nResult (i # is) =
     (case GetOutputFor i inputs of None \<Rightarrow> None
      | Some out \<Rightarrow> value_in_loop inputs (nResult + to_nValue out) is)"

definition GetValueIn :: "CTransaction \<Rightarrow> MapPrevTx \<Rightarrow> int64 option" where
  "GetValueIn tx inputs = (if IsCoinBase tx then Some 0 else value_in_loop inputs 0 (tx_vin tx))"

fun p2sh_sigops_loop :: "MapPrevTx \<Rightarrow> nat \<Rightarrow> CTxIn list \<Rightarrow> nat option" where
  "p2sh_sigops_loop inputs nSigOps [] = Some nSigOps"
| "p2sh_sigops_loop inputs nSigOps (i # is) =
     (case GetOutputFor i inputs of None \<Rightarrow> None
      | Some prevout \<Rightarrow>
          p2sh_sigops_loop inputs
            (if IsPayToScriptHash (to_scriptPubKey prevout)
             then nSigOps + GetSigOpCount_P2SH (to_scriptPubKey prevout) (ti_scriptSig i)
             else nSigOps) is)"

definition GetP2SHSigOpCount :: "CTransaction \<Rightarrow> MapPrevTx \<Rightarrow> nat option" where
  "GetP2SHSigOpCount tx inputs =
     (if IsCoinBase tx then Some 0 else p2sh_sigops_loop inputs 0 (tx_vin tx))"

subsection \<open>Relay policy\<close>

definition IsStandard :: "CTransaction \<Rightarrow> bool" where
  "IsStandard tx \<longleftrightarrow>
     \<not> 1 < sint (tx_nVersion tx) \<and>
     list_all (\<lambda>i. length (ti_scriptSig i) \<le> 500 \<and> IsPushOnly (ti_scriptSig i)) (tx_vin tx) \<and>
     list_all (\<lambda>out. IsStandard_script (to_scriptPubKey out) \<and> to_nValue out \<noteq> 0) (tx_vout tx)"

text \<open>
  \<open>IsProposal\<close> reads byte 5 after checking that there are five bytes: \<open>at\<close> throws on a
  script of exactly five bytes whose bytes 2 to 4 match.
\<close>

fun IsProposal_loop :: "CTxOut list \<Rightarrow> bool option" where
  "IsProposal_loop [] = Some False"
| "IsProposal_loop (out # outs) =
     (let s = to_scriptPubKey out
      in if IsDataCarrier s \<and> 5 \<le> length s \<and> s ! 2 = 0x70 \<and> s ! 3 = 0x72 \<and> s ! 4 = 0x6f
         then if length s \<le> 5 then None
              else if s ! 5 = 0x70 then Some True
              else IsProposal_loop outs
         else IsProposal_loop outs)"

definition IsProposal :: "CTransaction \<Rightarrow> bool option" where
  "IsProposal tx = IsProposal_loop (tx_vout tx)"

definition input_standard ::
  "'k node \<Rightarrow> CTransaction \<Rightarrow> nat \<Rightarrow> CTxIn \<Rightarrow> CTxOut \<Rightarrow> sigcache \<Rightarrow> bool \<times> sigcache" where
  "input_standard N tx i txin prev c =
     (case Solver (to_scriptPubKey prev) of (ok, whichType, sols) \<Rightarrow>
        let nArgsExpected = ScriptSigArgsExpected whichType sols
        in if \<not> ok \<or> nArgsExpected < 0 then (False, c)
           else case EvalScript (nd_ssl N) (CheckSig (nd_sig N) tx i 0) [] (ti_scriptSig txin) c of
                  (False, _, c) \<Rightarrow> (False, c)
                | (True, stack, c) \<Rightarrow>
                    if whichType = TX_SCRIPTHASH
                    then if stack = [] then (False, c)
                         else (case Solver (hd stack) of (ok2, whichType2, sols2) \<Rightarrow>
                                 let tmpExpected = ScriptSigArgsExpected whichType2 sols2
                                 in if \<not> ok2 \<or> whichType2 = TX_SCRIPTHASH \<or> tmpExpected < 0
                                    then (False, c)
                                    else (int (length stack) = nArgsExpected + tmpExpected, c))
                    else (int (length stack) = nArgsExpected, c))"

fun inputs_standard_loop ::
  "'k node \<Rightarrow> CTransaction \<Rightarrow> MapPrevTx \<Rightarrow> nat \<Rightarrow> CTxIn list \<Rightarrow> sigcache \<Rightarrow> (bool \<times> sigcache) option" where
  "inputs_standard_loop N tx mapInputs i [] c = Some (True, c)"
| "inputs_standard_loop N tx mapInputs i (txin # rest) c =
     (case GetOutputFor txin mapInputs of
        None \<Rightarrow> None
      | Some prev \<Rightarrow>
          (case input_standard N tx i txin prev c of
             (False, c) \<Rightarrow> Some (False, c)
           | (True, c) \<Rightarrow> inputs_standard_loop N tx mapInputs (i + 1) rest c))"

definition AreInputsStandard ::
  "'k node \<Rightarrow> CTransaction \<Rightarrow> MapPrevTx \<Rightarrow> sigcache \<Rightarrow> (bool \<times> sigcache) option" where
  "AreInputsStandard N tx mapInputs c =
     (if IsCoinBase tx then Some (True, c) else inputs_standard_loop N tx mapInputs 0 (tx_vin tx) c)"

end
