(* ===== verification/Votes.thy ===== *)
theory Votes
  imports Tx_Inputs
begin

text \<open>
  Voting (\<open>src/voteobject.h\<close>, \<open>src/voteproposal.cpp\<close>, \<open>src/voteproposalmanager.cpp\<close>,
  \<open>src/votetally.cpp\<close>): a proposal occupies a range of the 28 low bits of the version of
  every block of its voting period; blocks vote by setting those bits, and each block's tally
  counts them. \<open>None\<close> is an exception.
\<close>

subsection \<open>Locations, votes and proposals\<close>

record VoteLocation =
  vl_nMostSignificantBit :: byte
  vl_nLeastSignificantBit :: byte

definition GetBitCount :: "VoteLocation \<Rightarrow> byte" where
  "GetBitCount loc = vl_nMostSignificantBit loc - vl_nLeastSignificantBit loc + 1"

definition GetShift :: "VoteLocation \<Rightarrow> byte" where
  "GetShift loc = vl_nLeastSignificantBit loc"

record CVoteObject =
  vo_nChoice :: uint32
  vo_nFormattedVote :: uint32
  vo_fVoted :: bool
  vo_hashProposal :: uint256
  vo_bitLocation :: VoteLocation

definition CVoteObject_new :: "uint256 \<Rightarrow> VoteLocation \<Rightarrow> CVoteObject" where
  "CVoteObject_new hashProposal location =
     \<lparr>vo_nChoice = 0, vo_nFormattedVote = 0, vo_fVoted = False, vo_hashProposal = hashProposal, vo_bitLocation = location\<rparr>"

definition Vote :: "CVoteObject \<Rightarrow> uint32 \<Rightarrow> CVoteObject" where
  "Vote v nVotersChoice = v\<lparr>vo_nChoice := nVotersChoice\<rparr>"

definition GetFormattedVote :: "CVoteObject \<Rightarrow> uint32" where
  "GetFormattedVote v = push_bit (unat (GetShift (vo_bitLocation v))) (vo_nChoice v)"

definition GetCombinedVotes :: "CVoteObject list \<Rightarrow> uint32" where
  "GetCombinedVotes votes = fold (\<lambda>v n. n OR GetFormattedVote v) votes 0"

record CVoteProposal =
  vp_nVersion :: uint32
  vp_strName :: "byte list"
  vp_nStartHeight :: uint32
  vp_nCheckSpan :: uint32
  vp_strDescription :: "byte list"
  vp_bitLocation :: VoteLocation

definition vp_IsNull :: "CVoteProposal \<Rightarrow> bool" where
  "vp_IsNull p \<longleftrightarrow> vp_strName p = []"

definition ser_location :: "VoteLocation \<Rightarrow> byte list" where
  "ser_location loc = [vl_nMostSignificantBit loc, vl_nLeastSignificantBit loc]"

definition unser_location :: "VoteLocation reader" where
  "unser_location bs =
     (case read_bytes 2 bs of None \<Rightarrow> None
      | Some (v, r) \<Rightarrow> Some (\<lparr>vl_nMostSignificantBit = v ! 0, vl_nLeastSignificantBit = v ! 1\<rparr>, r))"

definition ser_proposal :: "CVoteProposal \<Rightarrow> byte list" where
  "ser_proposal p = bytes_of_u32 (vp_nVersion p) @ Serialize_bytes (vp_strName p) @
     bytes_of_u32 (vp_nStartHeight p) @ bytes_of_u32 (vp_nCheckSpan p) @
     Serialize_bytes (vp_strDescription p) @ ser_location (vp_bitLocation p)"

definition unser_proposal :: "CVoteProposal reader" where
  "unser_proposal bs =
     (case read_u32 bs of None \<Rightarrow> None
      | Some (ver, r) \<Rightarrow>
     (case Unserialize_bytes r of None \<Rightarrow> None
      | Some (name, r) \<Rightarrow>
     (case read_u32 r of None \<Rightarrow> None
      | Some (start, r) \<Rightarrow>
     (case read_u32 r of None \<Rightarrow> None
      | Some (span, r) \<Rightarrow>
     (case Unserialize_bytes r of None \<Rightarrow> None
      | Some (descr, r) \<Rightarrow>
     (case unser_location r of None \<Rightarrow> None
      | Some (loc, r) \<Rightarrow>
          Some (\<lparr>vp_nVersion = ver, vp_strName = name, vp_nStartHeight = start, vp_nCheckSpan = span,
                 vp_strDescription = descr, vp_bitLocation = loc\<rparr>, r)))))))"

definition size_proposal :: "CVoteProposal \<Rightarrow> nat" where
  "size_proposal p = 14 + GetSerializeSize_bytes (vp_strName p) + GetSerializeSize_bytes (vp_strDescription p)"

definition valid_proposal :: "CVoteProposal \<Rightarrow> bool" where
  "valid_proposal p \<longleftrightarrow> length (vp_strName p) \<le> MAX_SIZE \<and> length (vp_strDescription p) \<le> MAX_SIZE"

interpretation location_codec: codec ser_location unser_location "\<lambda>_. 2" "\<lambda>_. True"
  by unfold_locales (simp_all add: ser_location_def unser_location_def read_bytes_def)

interpretation proposal_codec: codec ser_proposal unser_proposal size_proposal valid_proposal
  by unfold_locales
    (simp_all add: ser_proposal_def unser_proposal_def size_proposal_def valid_proposal_def codec_simps
      location_codec.dec_enc length_Serialize_bytes flip: location_codec.size_enc)

definition vp_GetHash :: "openssl \<Rightarrow> CVoteProposal \<Rightarrow> uint256" where
  "vp_GetHash E p = Hash E (ser_proposal p)"

text \<open>
  A proposal travels in a data output behind the marker \<open>prop\<close>. \<open>ProposalFromTransaction\<close>
  reads the first output, whichever output \<open>IsProposal\<close> has found: \<open>begin() + 6\<close> of a
  shorter script is out of range and counts as an exception.
\<close>

definition proposal_script :: "CVoteProposal \<Rightarrow> byte list" where
  "proposal_script p = push_op OP_RETURN @ push_data ([0x70, 0x72, 0x6f, 0x70] @ ser_proposal p)"

definition ConstructTransaction :: "CVoteProposal \<Rightarrow> CTransaction \<Rightarrow> bool \<times> CTransaction" where
  "ConstructTransaction p tx =
     (if vp_IsNull p then (False, tx)
      else let tx = tx\<lparr>tx_vout := tx_vout tx @ [\<lparr>to_nValue = 0, to_scriptPubKey = proposal_script p\<rparr>]\<rparr>
           in (size_tx tx \<le> MAX_BLOCK_SIZE, tx))"

definition ProposalFromTransaction :: "CTransaction \<Rightarrow> CVoteProposal option option" where
  "ProposalFromTransaction tx =
     (case IsProposal tx of
        None \<Rightarrow> None
      | Some False \<Rightarrow> Some None
      | Some True \<Rightarrow>
          let script = to_scriptPubKey (tx_vout tx ! 0)
          in if length script < 6 then None
             else Some (map_option fst (unser_proposal (drop 6 script))))"

subsection \<open>The proposal manager\<close>

record CProposalMetaData =
  pm_hash :: uint256
  pm_location :: VoteLocation
  pm_nHeightStart :: uint32
  pm_nHeightEnd :: uint32

type_synonym proposals = "(uint256 \<times> CProposalMetaData) list"

definition MAX_CHAR_NAME :: nat where "MAX_CHAR_NAME = 10"
definition MAX_CHAR_ABSTRACT :: nat where "MAX_CHAR_ABSTRACT = 30"
definition MAX_BLOCKS_IN_FUTURE :: int where "MAX_BLOCKS_IN_FUTURE = 28800"
definition MAX_CHECKSPAN :: uint32 where "MAX_CHECKSPAN = 28800"

definition new_metadata :: "openssl \<Rightarrow> CVoteProposal \<Rightarrow> CProposalMetaData" where
  "new_metadata E p =
     \<lparr>pm_hash = vp_GetHash E p, pm_location = vp_bitLocation p, pm_nHeightStart = vp_nStartHeight p,
      pm_nHeightEnd = vp_nStartHeight p + vp_nCheckSpan p\<rparr>"

text \<open>The three ways two proposals are clear of each other.\<close>

definition no_conflict :: "CProposalMetaData \<Rightarrow> CProposalMetaData \<Rightarrow> bool" where
  "no_conflict new existing \<longleftrightarrow>
     vl_nMostSignificantBit (pm_location new) < vl_nLeastSignificantBit (pm_location existing) \<or>
     vl_nMostSignificantBit (pm_location existing) < vl_nLeastSignificantBit (pm_location new) \<or>
     pm_nHeightEnd existing < pm_nHeightStart new \<or> pm_nHeightEnd new < pm_nHeightStart existing"

definition Manager_Add :: "openssl \<Rightarrow> CVoteProposal \<Rightarrow> proposals \<Rightarrow> bool \<times> proposals" where
  "Manager_Add E p mapProposalData =
     (let new = new_metadata E p
      in if list_all (\<lambda>(_, existing). no_conflict new existing) mapProposalData
         then (True, map_insert (pm_hash new) new mapProposalData)
         else (False, mapProposalData))"

definition Manager_Remove :: "uint256 \<Rightarrow> proposals \<Rightarrow> proposals" where
  "Manager_Remove hashProposal mapProposalData = map_erase hashProposal mapProposalData"

definition GetActive :: "int \<Rightarrow> proposals \<Rightarrow> (uint256 \<times> VoteLocation) list" where
  "GetActive nHeight mapProposalData =
     fold (\<lambda>(_, data) active.
         if sint (pm_nHeightStart data) \<le> nHeight \<and> nHeight \<le> sint (pm_nHeightEnd data)
         then map_insert (pm_hash data) (pm_location data) active else active)
       mapProposalData []"

text \<open>
  \<open>GetNextLocation\<close>: the proposals of the same time, the bits they leave free, and the
  leftmost free range. Marking a bit above 27 is out of range.
\<close>

definition conflicting_time :: "int \<Rightarrow> int \<Rightarrow> proposals \<Rightarrow> CProposalMetaData list" where
  "conflicting_time nStartHeight nCheckSpan mapProposalData =
     List.filter (\<lambda>data. \<not> sint (pm_nHeightEnd data) < nStartHeight \<and>
                         \<not> nStartHeight + nCheckSpan < sint (pm_nHeightStart data))
       (map snd mapProposalData)"

definition mark_taken :: "CProposalMetaData \<Rightarrow> bool list \<Rightarrow> bool list option" where
  "mark_taken data vAvailable =
     (let m = unat (vl_nMostSignificantBit (pm_location data)); l = unat (vl_nLeastSignificantBit (pm_location data))
      in if l \<le> m \<and> length vAvailable \<le> m then None
         else Some (map (\<lambda>i. vAvailable ! i \<and> \<not> (l \<le> i \<and> i \<le> m)) [0 ..< length vAvailable]))"

fun mark_all_taken :: "CProposalMetaData list \<Rightarrow> bool list \<Rightarrow> bool list option" where
  "mark_all_taken [] vAvailable = Some vAvailable"
| "mark_all_taken (data # rest) vAvailable =
     (case mark_taken data vAvailable of None \<Rightarrow> None | Some vAvailable \<Rightarrow> mark_all_taken rest vAvailable)"

fun find_range :: "int \<Rightarrow> bool list \<Rightarrow> nat \<Rightarrow> int \<Rightarrow> VoteLocation option" where
  "find_range nBitCount vAvailable 0 nSequential = None"
| "find_range nBitCount vAvailable (Suc n) nSequential =
     (let nSequential = (if vAvailable ! n then nSequential + 1 else 0)
      in if nSequential = nBitCount
         then Some \<lparr>vl_nMostSignificantBit = word_of_int (int n + nBitCount - 1), vl_nLeastSignificantBit = word_of_nat n\<rparr>
         else find_range nBitCount vAvailable n nSequential)"

definition GetNextLocation :: "int \<Rightarrow> int \<Rightarrow> int \<Rightarrow> proposals \<Rightarrow> VoteLocation option option" where
  "GetNextLocation nBitCount nStartHeight nCheckSpan mapProposalData =
     (let vConflictingTime = conflicting_time nStartHeight nCheckSpan mapProposalData
      in if vConflictingTime = []
         then Some (Some \<lparr>vl_nMostSignificantBit = 27, vl_nLeastSignificantBit = word_of_int (27 - nBitCount + 1)\<rparr>)
         else map_option (\<lambda>vAvailable. find_range nBitCount vAvailable 28 0)
                (mark_all_taken vConflictingTime (replicate 28 True)))"

text \<open>The comparison of an unsigned start height with \<open>nBestHeight\<close> is unsigned.\<close>

definition CheckProposal :: "openssl \<Rightarrow> int \<Rightarrow> proposals \<Rightarrow> CVoteProposal \<Rightarrow> bool option" where
  "CheckProposal E nBestHeight mapProposalData p =
     (if map_of mapProposalData (vp_GetHash E p) \<noteq> None then Some True
      else if vp_strName p = [] \<or> MAX_CHAR_NAME < length (vp_strName p) then Some False
      else if vp_strDescription p = [] \<or> MAX_CHAR_ABSTRACT < length (vp_strDescription p) then Some False
      else if vp_nStartHeight p \<le> word_of_int nBestHeight \<or>
              word_of_int (nBestHeight + MAX_BLOCKS_IN_FUTURE) < vp_nStartHeight p then Some False
      else if vp_nCheckSpan p = 0 \<or> MAX_CHECKSPAN < vp_nCheckSpan p then Some False
      else map_option (\<lambda>loc. loc \<noteq> None)
             (GetNextLocation (uint (GetBitCount (vp_bitLocation p))) (sint (vp_nStartHeight p))
                (sint (vp_nCheckSpan p)) mapProposalData))"

subsection \<open>Tallies\<close>

record CVoteSummary =
  vs_nBlockStart :: uint32
  vs_nCheckSpan :: uint32
  vs_nYesTally :: uint32
  vs_nNoTally :: uint32

record CVoteTally =
  vt_nHeight :: uint32
  vt_mapVotes :: "(uint256 \<times> CVoteSummary) list"
  vt_mapLocations :: "(uint256 \<times> VoteLocation) list"

definition VOTEMASK :: uint32 where "VOTEMASK = 0x0FFFFFFF"

definition CVoteTally_SetNull :: CVoteTally where
  "CVoteTally_SetNull = \<lparr>vt_nHeight = 0, vt_mapVotes = [], vt_mapLocations = []\<rparr>"

text \<open>
  The summaries whose period has ended are erased while the loop iterates over the same
  map; the model erases what the loop visits, each entry once.
\<close>

definition RemoveStaleSummaries :: "CVoteTally \<Rightarrow> CVoteTally" where
  "RemoveStaleSummaries t =
     fold (\<lambda>(h, s) t.
         if vs_nBlockStart s + vs_nCheckSpan s \<le> vt_nHeight t
         then t\<lparr>vt_mapLocations := map_erase h (vt_mapLocations t), vt_mapVotes := map_erase h (vt_mapVotes t)\<rparr>
         else t)
       (vt_mapVotes t) t"

definition CVoteTally_new :: "CVoteTally \<Rightarrow> CVoteTally" where
  "CVoteTally_new tallyPrev =
     RemoveStaleSummaries (CVoteTally_SetNull\<lparr>vt_nHeight := vt_nHeight tallyPrev + 1, vt_mapVotes := vt_mapVotes tallyPrev\<rparr>)"

text \<open>
  The environment of \<open>SetNewPositions\<close>: \<open>mapProposals\<close> from transactions to proposal hashes and
  the proposals of the vote database by transaction.
\<close>

definition GetProposalTXID :: "(uint256 \<times> uint256) list \<Rightarrow> uint256 \<Rightarrow> uint256 option" where
  "GetProposalTXID mapProposals hashProposal =
     map_option fst (List.find (\<lambda>(txid, h). h = hashProposal) mapProposals)"

fun new_positions_loop ::
  "(uint256 \<times> uint256) list \<Rightarrow> (uint256 \<times> CVoteProposal) list \<Rightarrow> (uint256 \<times> VoteLocation) list \<Rightarrow>
     CVoteTally \<Rightarrow> bool \<times> CVoteTally" where
  "new_positions_loop mapProposals votedb [] t = (True, t)"
| "new_positions_loop mapProposals votedb ((h, loc) # rest) t =
     (if map_of (vt_mapLocations t) h \<noteq> None then new_positions_loop mapProposals votedb rest t
      else case GetProposalTXID mapProposals h of
             None \<Rightarrow> (False, t)
           | Some txid \<Rightarrow>
               (case map_of votedb txid of
                  None \<Rightarrow> (False, t)
                | Some proposal \<Rightarrow>
                    new_positions_loop mapProposals votedb rest
                      (t\<lparr>vt_mapLocations := map_insert h loc (vt_mapLocations t),
                         vt_mapVotes := map_insert h \<lparr>vs_nBlockStart = vp_nStartHeight proposal,
                           vs_nCheckSpan = vp_nCheckSpan proposal, vs_nYesTally = 0, vs_nNoTally = 0\<rparr> (vt_mapVotes t)\<rparr>)))"

definition SetNewPositions ::
  "(uint256 \<times> uint256) list \<Rightarrow> (uint256 \<times> CVoteProposal) list \<Rightarrow> (uint256 \<times> VoteLocation) list \<Rightarrow>
     CVoteTally \<Rightarrow> bool \<times> CVoteTally" where
  "SetNewPositions mapProposals votedb mapNewLocations t =
     new_positions_loop mapProposals votedb mapNewLocations (t\<lparr>vt_mapLocations := []\<rparr>)"

text \<open>
  The vote of a block version at a location. The shift by \<open>32 - nBits\<close> is defined for
  one to 32 bits.
\<close>

definition decode_vote :: "uint32 \<Rightarrow> VoteLocation \<Rightarrow> uint32" where
  "decode_vote nVersion loc =
     drop_bit (unat (GetShift loc)) (nVersion AND VOTEMASK) AND drop_bit (32 - unat (GetBitCount loc)) (- 1)"

definition count_vote :: "uint32 \<Rightarrow> CVoteSummary \<Rightarrow> CVoteSummary" where
  "count_vote nVote s =
     (if nVote = 1 then s\<lparr>vs_nYesTally := vs_nYesTally s + 1\<rparr>
      else if nVote = 2 then s\<lparr>vs_nNoTally := vs_nNoTally s + 1\<rparr> else s)"

definition ProcessNewVotes :: "uint32 \<Rightarrow> CVoteTally \<Rightarrow> CVoteTally" where
  "ProcessNewVotes nVersion t =
     t\<lparr>vt_mapVotes := map (\<lambda>(h, s).
         case map_of (vt_mapLocations t) h of
           None \<Rightarrow> (h, s)
         | Some location \<Rightarrow> (h, count_vote (decode_vote nVersion location) s)) (vt_mapVotes t)\<rparr>"

definition GetSummary :: "CVoteTally \<Rightarrow> uint256 \<Rightarrow> CVoteSummary option" where
  "GetSummary t hashProposal = map_of (vt_mapVotes t) hashProposal"

end
