(* ===== verification/Vote_Rules.thy ===== *)
theory Vote_Rules
  imports Votes
begin

text \<open>
  What voting promises: proposals that are active together never share a bit, a free
  location is really free, a vote that is cast is counted, and a proposal is read back from
  the transaction that carries it.
\<close>

definition loc_bits :: "VoteLocation \<Rightarrow> nat set" where
  "loc_bits loc = {unat (vl_nLeastSignificantBit loc) .. unat (vl_nMostSignificantBit loc)}"

definition proper_loc :: "VoteLocation \<Rightarrow> bool" where
  "proper_loc loc \<longleftrightarrow> vl_nLeastSignificantBit loc \<le> vl_nMostSignificantBit loc \<and> vl_nMostSignificantBit loc \<le> 27"

lemma proper_loc_unat:
  assumes "proper_loc loc"
  shows "unat (vl_nLeastSignificantBit loc) \<le> unat (vl_nMostSignificantBit loc)"
    and "unat (vl_nMostSignificantBit loc) \<le> 27"
    and "unat (GetBitCount loc) = unat (vl_nMostSignificantBit loc) - unat (vl_nLeastSignificantBit loc) + 1"
proof -
  show 1: "unat (vl_nLeastSignificantBit loc) \<le> unat (vl_nMostSignificantBit loc)"
    using assms by (simp add: proper_loc_def word_le_nat_alt)
  show 2: "unat (vl_nMostSignificantBit loc) \<le> 27"
    using assms by (simp add: proper_loc_def word_le_nat_alt)
  have "unat (vl_nMostSignificantBit loc - vl_nLeastSignificantBit loc) =
      unat (vl_nMostSignificantBit loc) - unat (vl_nLeastSignificantBit loc)"
    using assms by (simp add: proper_loc_def unat_sub)
  with 2 show "unat (GetBitCount loc) = unat (vl_nMostSignificantBit loc) - unat (vl_nLeastSignificantBit loc) + 1"
    unfolding GetBitCount_def by (subst unat_plus_simple [THEN iffD1]) (auto simp: word_le_nat_alt unat_word_ariths)
qed

subsection \<open>A vote that is cast is counted\<close>

lemma bit_VOTEMASK: "bit VOTEMASK j \<longleftrightarrow> j < 28"
proof -
  have m: "VOTEMASK = mask 28" by (simp add: VOTEMASK_def mask_eq_exp_minus_1)
  show ?thesis unfolding m bit_mask_iff by (auto simp: min_def)
qed

lemma bit_decode_vote:
  assumes "proper_loc loc"
  shows "bit (decode_vote n loc) i \<longleftrightarrow>
    unat (vl_nLeastSignificantBit loc) + i \<in> loc_bits loc \<and> bit n (unat (vl_nLeastSignificantBit loc) + i)"
  using proper_loc_unat [OF assms]
  by (auto simp: decode_vote_def bit_simps loc_bits_def GetShift_def bit_VOTEMASK)

lemma bit_GetCombinedVotes: "bit (GetCombinedVotes vs) i \<longleftrightarrow> (\<exists>v \<in> set vs. bit (GetFormattedVote v) i)"
proof -
  have "bit (fold (\<lambda>v n. n OR GetFormattedVote v) vs n) i \<longleftrightarrow> bit n i \<or> (\<exists>v \<in> set vs. bit (GetFormattedVote v) i)" for n
    by (induction vs arbitrary: n) (auto simp: bit_simps)
  then show ?thesis by (simp add: GetCombinedVotes_def)
qed

definition well_cast :: "CVoteObject \<Rightarrow> bool" where
  "well_cast v \<longleftrightarrow> proper_loc (vo_bitLocation v) \<and> unat (vo_nChoice v) < 2 ^ card (loc_bits (vo_bitLocation v))"

lemma bit_less_exp: "unat (w :: uint32) < 2 ^ n \<Longrightarrow> bit w i \<Longrightarrow> i < n"
proof -
  assume "unat w < 2 ^ n" "bit w i"
  then have "take_bit n (unat w) = unat w" "bit (unat w) i"
    by (simp_all add: take_bit_nat_eq_self bit_unsigned_iff)
  then show "i < n" by (metis bit_take_bit_iff)
qed

lemma bit_GetFormattedVote:
  assumes "well_cast v"
  shows "bit (GetFormattedVote v) j \<longleftrightarrow>
    (\<exists>i. j = unat (vl_nLeastSignificantBit (vo_bitLocation v)) + i \<and> j \<in> loc_bits (vo_bitLocation v) \<and> bit (vo_nChoice v) i)"
proof -
  let ?l = "unat (vl_nLeastSignificantBit (vo_bitLocation v))"
  have p: "proper_loc (vo_bitLocation v)" and c: "unat (vo_nChoice v) < 2 ^ card (loc_bits (vo_bitLocation v))"
    using assms by (simp_all add: well_cast_def)
  note u = proper_loc_unat [OF p]
  have in_bits: "?l + i \<in> loc_bits (vo_bitLocation v)" if "bit (vo_nChoice v) i" for i
    using bit_less_exp [OF c that] u(1) by (auto simp: loc_bits_def)
  have "bit (GetFormattedVote v) j \<longleftrightarrow> j < 32 \<and> ?l \<le> j \<and> bit (vo_nChoice v) (j - ?l)"
    by (auto simp: GetFormattedVote_def GetShift_def bit_simps)
  also have "\<dots> \<longleftrightarrow> (\<exists>i. j = ?l + i \<and> j \<in> loc_bits (vo_bitLocation v) \<and> bit (vo_nChoice v) i)"
    using in_bits [of "j - ?l"] u(2) by (auto simp: loc_bits_def intro!: exI [of _ "j - ?l"])
  finally show ?thesis .
qed

lemma decode_combined:
  assumes "proper_loc loc" and "list_all well_cast vs" and "ver AND VOTEMASK = 0"
    and "\<forall>v \<in> set vs. vo_bitLocation v = loc \<and> vo_nChoice v = c \<or> loc_bits (vo_bitLocation v) \<inter> loc_bits loc = {}"
    and "(\<exists>v \<in> set vs. vo_bitLocation v = loc) \<or> c = 0"
  shows "decode_vote (ver OR GetCombinedVotes vs) loc = c"
proof (rule bit_eqI)
  fix i
  let ?l = "unat (vl_nLeastSignificantBit loc)"
  have ver: "\<not> bit ver j" if "j \<in> loc_bits loc" for j
  proof -
    have "j < 28" using that proper_loc_unat(2) [OF assms(1)] by (simp add: loc_bits_def)
    moreover have "\<not> bit (ver AND VOTEMASK) j" by (simp add: assms(3))
    ultimately show ?thesis by (simp add: bit_and_iff bit_VOTEMASK)
  qed
  have vote: "bit (GetFormattedVote v) (?l + i) \<longleftrightarrow> vo_bitLocation v = loc \<and> bit c i"
    if "v \<in> set vs" "?l + i \<in> loc_bits loc" for v
  proof -
    have "well_cast v" using assms(2) that(1) by (simp add: list_all_iff)
    from bit_GetFormattedVote [OF this, of "?l + i"] assms(4) that show ?thesis by auto
  qed
  have inside: "?l + i \<in> loc_bits loc" if "bit c i"
  proof -
    from assms(5) that obtain v where v: "v \<in> set vs" "vo_bitLocation v = loc" by auto
    then have "loc_bits loc \<noteq> {}" using proper_loc_unat(1) [OF assms(1)] by (auto simp: loc_bits_def)
    with v assms(4) have "vo_nChoice v = c" by auto
    moreover have "well_cast v" using v(1) assms(2) by (simp add: list_all_iff)
    ultimately have "i < card (loc_bits loc)" using bit_less_exp [of c "card (loc_bits loc)" i] that v(2)
      by (simp add: well_cast_def)
    then show ?thesis by (auto simp: loc_bits_def)
  qed
  show "bit (decode_vote (ver OR GetCombinedVotes vs) loc) i \<longleftrightarrow> bit c i"
    using vote inside ver assms(5) by (auto simp: bit_decode_vote [OF assms(1)] bit_or_iff bit_GetCombinedVotes)
qed

lemma GetSummary_ProcessNewVotes:
  "GetSummary (ProcessNewVotes n t) h =
     map_option (\<lambda>s. case map_of (vt_mapLocations t) h of None \<Rightarrow> s | Some loc \<Rightarrow> count_vote (decode_vote n loc) s)
       (GetSummary t h)"
proof -
  have "map_of (map (\<lambda>(h, s). case f h of None \<Rightarrow> (h, s) | Some loc \<Rightarrow> (h, g loc s)) m) h =
      map_option (\<lambda>s. case f h of None \<Rightarrow> s | Some loc \<Rightarrow> g loc s) (map_of m h)"
    for m :: "(uint256 \<times> CVoteSummary) list" and f :: "uint256 \<Rightarrow> VoteLocation option" and g
    by (induction m) (auto split: option.splits)
  then show ?thesis by (simp add: GetSummary_def ProcessNewVotes_def)
qed

text \<open>C10: A block whose version carries the combined votes of a voter counts them: a vote for a
  proposal changes the tally of that proposal by its choice, and leaves alone every proposal
  whose bits no vote touches.\<close>

theorem votes_are_counted:
  assumes "list_all well_cast vs" and "ver AND VOTEMASK = 0"
    and "\<forall>v \<in> set vs. \<forall>v' \<in> set vs. v = v' \<or> loc_bits (vo_bitLocation v) \<inter> loc_bits (vo_bitLocation v') = {}"
  shows "(\<forall>v \<in> set vs. map_of (vt_mapLocations t) (vo_hashProposal v) = Some (vo_bitLocation v) \<longrightarrow>
       GetSummary (ProcessNewVotes (ver OR GetCombinedVotes vs) t) (vo_hashProposal v) =
         map_option (count_vote (vo_nChoice v)) (GetSummary t (vo_hashProposal v))) \<and>
    (\<forall>h loc. map_of (vt_mapLocations t) h = Some loc \<longrightarrow> proper_loc loc \<longrightarrow>
       (\<forall>v \<in> set vs. loc_bits (vo_bitLocation v) \<inter> loc_bits loc = {}) \<longrightarrow>
       GetSummary (ProcessNewVotes (ver OR GetCombinedVotes vs) t) h = GetSummary t h)"
proof (intro conjI ballI allI impI)
  fix v assume v: "v \<in> set vs" and m: "map_of (vt_mapLocations t) (vo_hashProposal v) = Some (vo_bitLocation v)"
  have p: "proper_loc (vo_bitLocation v)" using assms(1) v by (auto simp: list_all_iff well_cast_def)
  have "decode_vote (ver OR GetCombinedVotes vs) (vo_bitLocation v) = vo_nChoice v"
  proof (rule decode_combined [OF p assms(1,2)])
    show "\<forall>v' \<in> set vs. vo_bitLocation v' = vo_bitLocation v \<and> vo_nChoice v' = vo_nChoice v \<or>
        loc_bits (vo_bitLocation v') \<inter> loc_bits (vo_bitLocation v) = {}"
      using v assms(3) by metis
  qed (use v in auto)
  then show "GetSummary (ProcessNewVotes (ver OR GetCombinedVotes vs) t) (vo_hashProposal v) =
      map_option (count_vote (vo_nChoice v)) (GetSummary t (vo_hashProposal v))"
    by (simp add: GetSummary_ProcessNewVotes m)
next
  fix h loc assume m: "map_of (vt_mapLocations t) h = Some loc" and p: "proper_loc loc"
    and d: "\<forall>v \<in> set vs. loc_bits (vo_bitLocation v) \<inter> loc_bits loc = {}"
  have "decode_vote (ver OR GetCombinedVotes vs) loc = 0"
    by (rule decode_combined [OF p assms(1,2)]) (use d in auto)
  then show "GetSummary (ProcessNewVotes (ver OR GetCombinedVotes vs) t) h = GetSummary t h"
    by (cases "GetSummary t h") (simp_all add: GetSummary_ProcessNewVotes m count_vote_def)
qed


subsection \<open>Active proposals share no bit\<close>

inductive manager_reach :: "openssl \<Rightarrow> proposals \<Rightarrow> bool" for E :: openssl where
  start: "manager_reach E []"
| add: "manager_reach E M \<Longrightarrow> manager_reach E (snd (Manager_Add E p M))"
| remove: "manager_reach E M \<Longrightarrow> manager_reach E (Manager_Remove h M)"

definition manager_ok :: "proposals \<Rightarrow> bool" where
  "manager_ok M \<longleftrightarrow> (\<forall>h d. (h, d) \<in> set M \<longrightarrow> pm_hash d = h) \<and> sorted_wrt (<) (map fst M) \<and>
     (\<forall>h d h' d'. (h, d) \<in> set M \<longrightarrow> (h', d') \<in> set M \<longrightarrow> h \<noteq> h' \<longrightarrow> no_conflict d d')"

lemma no_conflict_sym: "no_conflict a b = no_conflict b a"
  by (auto simp: no_conflict_def)

lemma set_map_put_subset: "set (map_put k v m) \<subseteq> insert (k, v) (set m)"
  by (induction m) (auto split: if_splits)

lemma manager_ok_add:
  assumes "manager_ok M" shows "manager_ok (snd (Manager_Add E p M))"
proof (cases "list_all (\<lambda>(_, d). no_conflict (new_metadata E p) d) M \<and> map_of M (vp_GetHash E p) = None")
  case True
  define d0 where "d0 = new_metadata E p"
  have m: "snd (Manager_Add E p M) = map_put (pm_hash d0) d0 M"
    using True by (simp add: Manager_Add_def d0_def map_insert_def new_metadata_def)
  have sub: "e \<in> set (map_put (pm_hash d0) d0 M) \<Longrightarrow> e = (pm_hash d0, d0) \<or> e \<in> set M" for e
    using set_map_put_subset [of "pm_hash d0" d0 M] by auto
  have clear: "no_conflict d0 d" "no_conflict d d0" if "(h, d) \<in> set M" for h d
    using True that no_conflict_sym by (auto simp: list_all_iff d0_def)
  show ?thesis
    unfolding manager_ok_def m
  proof (intro conjI allI impI)
    fix h d assume "(h, d) \<in> set (map_put (pm_hash d0) d0 M)"
    from sub [OF this] assms show "pm_hash d = h" by (auto simp: manager_ok_def)
  next
    show "sorted_wrt (<) (map fst (map_put (pm_hash d0) d0 M))"
      using assms by (simp add: manager_ok_def sorted_map_put)
  next
    fix h d h' d' assume "(h, d) \<in> set (map_put (pm_hash d0) d0 M)" "(h', d') \<in> set (map_put (pm_hash d0) d0 M)" "h \<noteq> h'"
    with sub [of "(h, d)"] sub [of "(h', d')"] clear assms show "no_conflict d d'"
      by (auto simp: manager_ok_def)
  qed
next
  case False
  then have "snd (Manager_Add E p M) = M"
    by (auto simp: Manager_Add_def map_insert_def new_metadata_def Let_def)
  with assms show ?thesis by simp
qed

lemma manager_reach_ok: "manager_reach E M \<Longrightarrow> manager_ok M"
proof (induction rule: manager_reach.induct)
  case start
  show ?case by (simp add: manager_ok_def)
next
  case (add M p)
  then show ?case by (simp add: manager_ok_add)
next
  case (remove M h)
  then have "sorted_wrt (<) (map fst (Manager_Remove h M))"
    by (simp add: manager_ok_def Manager_Remove_def sorted_map_erase)
  moreover have "set (Manager_Remove h M) \<subseteq> set M" by (auto simp: Manager_Remove_def map_erase_def)
  ultimately show ?case using remove.IH unfolding manager_ok_def by blast
qed

lemma GetActive_from:
  assumes "map_of (GetActive nHeight M) h = Some loc"
  shows "\<exists>k d. (k, d) \<in> set M \<and> pm_hash d = h \<and> pm_location d = loc \<and>
    sint (pm_nHeightStart d) \<le> nHeight \<and> nHeight \<le> sint (pm_nHeightEnd d)"
proof -
  have "map_of (fold (\<lambda>(_, data) active.
         if sint (pm_nHeightStart data) \<le> nHeight \<and> nHeight \<le> sint (pm_nHeightEnd data)
         then map_insert (pm_hash data) (pm_location data) active else active) M A) h = Some loc \<Longrightarrow>
    map_of A h = Some loc \<or> (\<exists>k d. (k, d) \<in> set M \<and> pm_hash d = h \<and> pm_location d = loc \<and>
      sint (pm_nHeightStart d) \<le> nHeight \<and> nHeight \<le> sint (pm_nHeightEnd d))" for A
  proof (induction M arbitrary: A)
    case (Cons e M)
    obtain k d where e: "e = (k, d)" by (cases e)
    from Cons.IH [OF Cons.prems [unfolded fold_Cons comp_def]] show ?case
      by (auto simp: e map_of_insert split: if_splits)
  qed simp
  from this [of "[]"] assms show ?thesis by (simp add: GetActive_def)
qed

lemma sint32_nonneg: "0 \<le> sint (w :: uint32) \<Longrightarrow> sint w = uint w"
proof -
  assume "0 \<le> sint w"
  moreover have "sint w < 2 ^ 31" using sint_lt [of w] by simp
  moreover have "uint w = take_bit 32 (sint w)" using uint_sint [of w] by simp
  ultimately show ?thesis by (simp add: take_bit_int_eq_self)
qed

lemma sint32_small: "uint (w :: uint32) < 2 ^ 31 \<Longrightarrow> sint w = uint w"
  using signed_take_bit_int_eq_self [of 31 "uint w"] order_trans [OF _ uint_ge_0 [of w], of "- (2 ^ 31)"] by (simp add: sint_uint)

text \<open>A proposal whose end height does not wrap around is active within its unsigned heights.\<close>

lemma active_unsigned:
  assumes "sint (pm_nHeightStart d) \<le> nHeight" "nHeight \<le> sint (pm_nHeightEnd d)" "0 \<le> nHeight"
    and "pm_nHeightStart d \<le> pm_nHeightEnd d"
  shows "uint (pm_nHeightStart d) \<le> nHeight \<and> nHeight \<le> uint (pm_nHeightEnd d)"
proof -
  have "0 \<le> sint (pm_nHeightEnd d)" using assms(2,3) by simp
  note e = sint32_nonneg [OF this]
  moreover have "uint (pm_nHeightEnd d) < 2 ^ 31" using sint_lt [of "pm_nHeightEnd d"] by (simp flip: e)
  moreover have "uint (pm_nHeightStart d) \<le> uint (pm_nHeightEnd d)" using assms(4) by (simp add: word_le_def)
  ultimately have "sint (pm_nHeightStart d) = uint (pm_nHeightStart d)" by (intro sint32_small) simp
  with e assms(1,2) show ?thesis by simp
qed

text \<open>An end height that has wrapped around: the voting period seems to end before it starts.\<close>

definition end_wrapped :: "CProposalMetaData \<Rightarrow> bool" where
  "end_wrapped d \<longleftrightarrow> pm_nHeightEnd d < pm_nHeightStart d"

lemma end_wrapped_add:
  assumes "pm_nHeightEnd d = pm_nHeightStart d + n"
  shows "end_wrapped d \<longleftrightarrow> 2 ^ 32 \<le> uint (pm_nHeightStart d) + uint n"
proof -
  have "uint (pm_nHeightStart d) < 2 ^ 32" "uint n < 2 ^ 32" "0 \<le> uint n" "0 \<le> uint (pm_nHeightStart d)"
    using uint_lt2p [of "pm_nHeightStart d"] uint_lt2p [of n] by simp_all
  then show ?thesis unfolding end_wrapped_def assms word_less_def
    by (simp add: uint_plus_if' not_le)
qed

lemma active_disjoint:
  assumes "manager_reach E M" and "0 \<le> nHeight"
    and "map_of (GetActive nHeight M) h = Some loc" and "map_of (GetActive nHeight M) h' = Some loc'" and "h \<noteq> h'"
  shows "loc_bits loc \<inter> loc_bits loc' = {} \<or> (\<exists>d \<in> snd ` set M. pm_hash d \<in> {h, h'} \<and> end_wrapped d)"
proof -
  from GetActive_from [OF assms(3)] obtain k d where d: "(k, d) \<in> set M" "pm_hash d = h" "pm_location d = loc"
    "sint (pm_nHeightStart d) \<le> nHeight" "nHeight \<le> sint (pm_nHeightEnd d)" by blast
  from GetActive_from [OF assms(4)] obtain k' d' where d': "(k', d') \<in> set M" "pm_hash d' = h'" "pm_location d' = loc'"
    "sint (pm_nHeightStart d') \<le> nHeight" "nHeight \<le> sint (pm_nHeightEnd d')" by blast
  show ?thesis
  proof (cases "end_wrapped d \<or> end_wrapped d'")
    case True
    moreover have "d \<in> snd ` set M" "d' \<in> snd ` set M" using d(1) d'(1) by force+
    ultimately show ?thesis using d(2) d'(2) by auto
  next
    case False
    have "k \<noteq> k'" using manager_reach_ok [OF assms(1)] d d' assms(5) by (auto simp: manager_ok_def)
    with manager_reach_ok [OF assms(1)] d(1) d'(1) have nc: "no_conflict d d'" unfolding manager_ok_def by blast
    from False have "pm_nHeightStart d \<le> pm_nHeightEnd d" "pm_nHeightStart d' \<le> pm_nHeightEnd d'"
      by (auto simp: end_wrapped_def)
    with active_unsigned [OF d(4,5) assms(2)] active_unsigned [OF d'(4,5) assms(2)] nc
    have "vl_nMostSignificantBit loc < vl_nLeastSignificantBit loc' \<or> vl_nMostSignificantBit loc' < vl_nLeastSignificantBit loc"
      using d(3) d'(3) by (auto simp: no_conflict_def word_less_def)
    then have "loc_bits loc \<inter> loc_bits loc' = {}" by (auto simp: loc_bits_def word_less_nat_alt)
    then show ?thesis ..
  qed
qed

lemma CheckProposal_not_wrapped:
  assumes "CheckProposal E nBestHeight M p = Some True" "map_of M (vp_GetHash E p) = None"
    and "0 \<le> nBestHeight" "nBestHeight < 2 ^ 31"
  shows "\<not> end_wrapped (new_metadata E p)"
proof -
  have "\<not> word_of_int (nBestHeight + MAX_BLOCKS_IN_FUTURE) < vp_nStartHeight p" "\<not> MAX_CHECKSPAN < vp_nCheckSpan p"
    using assms(1,2) by (auto simp: CheckProposal_def split: if_splits)
  moreover have "uint (word_of_int (nBestHeight + MAX_BLOCKS_IN_FUTURE) :: uint32) = nBestHeight + MAX_BLOCKS_IN_FUTURE"
  proof -
    have "uint (word_of_int n :: uint32) = n" if "0 \<le> n" "n < 2 ^ 32" for n
      using that by (simp add: uint_word_of_int)
    from this [of "nBestHeight + MAX_BLOCKS_IN_FUTURE"] show ?thesis
      using assms(3,4) by (simp add: MAX_BLOCKS_IN_FUTURE_def)
  qed
  ultimately have "uint (vp_nStartHeight p) \<le> nBestHeight + 28800" "uint (vp_nCheckSpan p) \<le> 28800"
    by (simp_all add: word_less_def MAX_BLOCKS_IN_FUTURE_def MAX_CHECKSPAN_def)
  then show ?thesis using assms(4) end_wrapped_add [of "new_metadata E p" "vp_nCheckSpan p"]
    by (simp add: new_metadata_def)
qed


subsection \<open>A free location is free\<close>

lemma mark_all_taken_ok:
  assumes "mark_all_taken ds av = Some av'"
  shows "length av' = length av \<and>
    (\<forall>i < length av. av' ! i \<longleftrightarrow> av ! i \<and> (\<forall>d \<in> set ds. i \<notin> loc_bits (pm_location d)))"
  using assms
proof (induction ds arbitrary: av)
  case (Cons d ds)
  from Cons.prems obtain av1 where m: "mark_taken d av = Some av1" and r: "mark_all_taken ds av1 = Some av'"
    by (auto split: option.splits)
  from m have "length av1 = length av" "\<forall>i < length av. av1 ! i \<longleftrightarrow> av ! i \<and> i \<notin> loc_bits (pm_location d)"
    by (auto simp: mark_taken_def Let_def loc_bits_def split: if_splits)
  with Cons.IH [OF r] show ?case by auto
qed simp

lemma find_range_ok:
  assumes "find_range c av n s = Some loc" and "0 \<le> s" "s < c" "int n + s \<le> 28"
    and "\<forall>j. int n \<le> int j \<and> int j < int n + s \<longrightarrow> av ! j"
  shows "\<exists>k. vl_nLeastSignificantBit loc = word_of_nat k \<and> vl_nMostSignificantBit loc = word_of_int (int k + c - 1) \<and>
    int k + c \<le> 28 \<and> (\<forall>j. k \<le> j \<and> int j < int k + c \<longrightarrow> av ! j)"
  using assms
proof (induction n arbitrary: s)
  case (Suc n)
  define s' where "s' = (if av ! n then s + 1 else 0)"
  have run: "\<forall>j. int n \<le> int j \<and> int j < int n + s' \<longrightarrow> av ! j"
  proof (intro allI impI)
    fix j assume j: "int n \<le> int j \<and> int j < int n + s'"
    then have "av ! n" by (auto simp: s'_def split: if_splits)
    with j Suc.prems(5) show "av ! j" by (cases "j = n") (auto simp: s'_def)
  qed
  show ?case
  proof (cases "s' = c")
    case True
    with Suc.prems(2,3) have av: "av ! n" "c = s + 1" by (auto simp: s'_def split: if_splits)
    with Suc.prems(1) have "loc = \<lparr>vl_nMostSignificantBit = word_of_int (int n + c - 1), vl_nLeastSignificantBit = word_of_nat n\<rparr>"
      by (simp add: Let_def)
    moreover have "\<forall>j. n \<le> j \<and> int j < int n + c \<longrightarrow> av ! j" using run True by simp
    ultimately show ?thesis using Suc.prems(4) av(2) by (intro exI [of _ n]) simp
  next
    case False
    have "find_range c av n s' = Some loc" using Suc.prems(1) False by (simp add: s'_def Let_def)
    moreover have "0 \<le> s'" "s' < c" "int n + s' \<le> 28"
      using Suc.prems False by (auto simp: s'_def split: if_splits)
    ultimately show ?thesis using run by (rule Suc.IH)
  qed
qed simp

lemma location_of_range:
  assumes "vl_nLeastSignificantBit loc = word_of_nat k" "vl_nMostSignificantBit loc = word_of_int (int k + c - 1)"
    and "int k + c \<le> 28" "1 \<le> c"
  shows "proper_loc loc \<and> loc_bits loc = {k ..< k + nat c}"
proof -
  have "int k + c - 1 = int (k + nat c - 1)" using assms(4) by simp
  then have m: "vl_nMostSignificantBit loc = word_of_nat (k + nat c - 1)" using assms(2) by (metis of_int_of_nat_eq)
  have u: "unat (vl_nLeastSignificantBit loc) = k" "unat (vl_nMostSignificantBit loc) = k + nat c - 1"
    unfolding assms(1) m unat_of_nat using assms(3,4) by (auto intro!: mod_less)
  then have "proper_loc loc" using assms by (simp add: proper_loc_def word_le_nat_alt) linarith
  moreover have "loc_bits loc = {k ..< k + nat c}" unfolding loc_bits_def u using assms(4) by auto
  ultimately show ?thesis by blast
qed

lemma GetNextLocation_ok:
  assumes "GetNextLocation c s k M = Some (Some loc)" "1 \<le> c" "c \<le> 28"
  shows "proper_loc loc \<and> card (loc_bits loc) = nat c \<and>
    (\<forall>d \<in> set (conflicting_time s k M). loc_bits loc \<inter> loc_bits (pm_location d) = {})"
proof (cases "conflicting_time s k M = []")
  case True
  with assms(1) have "vl_nLeastSignificantBit loc = word_of_nat (nat (28 - c))"
    "vl_nMostSignificantBit loc = word_of_int (int (nat (28 - c)) + c - 1)"
    using assms(2,3) by (auto simp: GetNextLocation_def)
  from location_of_range [OF this] True assms(2,3) show ?thesis by simp
next
  case False
  with assms(1) obtain av where m: "mark_all_taken (conflicting_time s k M) (replicate 28 True) = Some av"
    and f: "find_range c av 28 0 = Some loc"
    by (auto simp: GetNextLocation_def)
  have "\<exists>n. vl_nLeastSignificantBit loc = word_of_nat n \<and> vl_nMostSignificantBit loc = word_of_int (int n + c - 1) \<and>
      int n + c \<le> 28 \<and> (\<forall>j. n \<le> j \<and> int j < int n + c \<longrightarrow> av ! j)"
    by (rule find_range_ok [OF f]) (use assms(2) in auto)
  then obtain n where n: "vl_nLeastSignificantBit loc = word_of_nat n"
    "vl_nMostSignificantBit loc = word_of_int (int n + c - 1)" "int n + c \<le> 28" "\<forall>j. n \<le> j \<and> int j < int n + c \<longrightarrow> av ! j"
    by blast
  from location_of_range [OF n(1-3) assms(2)] have l: "proper_loc loc" "loc_bits loc = {n ..< n + nat c}" by blast+
  have "i \<notin> loc_bits (pm_location d)" if "i \<in> loc_bits loc" "d \<in> set (conflicting_time s k M)" for i d
  proof -
    from that(1) n(3,4) assms(2) have "av ! i" "i < 28" by (auto simp: l(2))
    with mark_all_taken_ok [OF m] that(2) show ?thesis by auto
  qed
  with l show ?thesis by auto
qed

text \<open>When the manager finds a location for a proposal, the location has the size asked for,
  it is free for the whole voting period, and adding the proposal there succeeds.\<close>

theorem GetNextLocation_fits:
  assumes "GetNextLocation c (sint (vp_nStartHeight p)) (sint (vp_nCheckSpan p)) M = Some (Some loc)"
    and "1 \<le> c" "c \<le> 28" and "0 \<le> sint (vp_nStartHeight p)" "0 \<le> sint (vp_nCheckSpan p)"
    and "sint (vp_nStartHeight p) + sint (vp_nCheckSpan p) < 2 ^ 31"
    and "list_all (\<lambda>(_, d). vl_nLeastSignificantBit (pm_location d) \<le> vl_nMostSignificantBit (pm_location d) \<and>
           0 \<le> sint (pm_nHeightStart d) \<and> 0 \<le> sint (pm_nHeightEnd d)) M"
  shows "proper_loc loc \<and> card (loc_bits loc) = nat c \<and> fst (Manager_Add E (p\<lparr>vp_bitLocation := loc\<rparr>) M)"
proof -
  note ok = GetNextLocation_ok [OF assms(1-3)]
  note pos = sint32_nonneg
  define new where "new = new_metadata E (p\<lparr>vp_bitLocation := loc\<rparr>)"
  have new: "pm_location new = loc" "pm_nHeightStart new = vp_nStartHeight p"
    "uint (pm_nHeightEnd new) = sint (vp_nStartHeight p) + sint (vp_nCheckSpan p)"
    using assms(4-6) pos by (simp_all add: new_def new_metadata_def uint_word_ariths)
  have "no_conflict new d" if d: "(h, d) \<in> set M" for h d
  proof (cases "d \<in> set (conflicting_time (sint (vp_nStartHeight p)) (sint (vp_nCheckSpan p)) M)")
    case True
    with ok have "loc_bits loc \<inter> loc_bits (pm_location d) = {}" by blast
    moreover have "vl_nLeastSignificantBit (pm_location d) \<le> vl_nMostSignificantBit (pm_location d)"
      "vl_nLeastSignificantBit loc \<le> vl_nMostSignificantBit loc"
      using assms(7) d ok by (auto simp: list_all_iff proper_loc_def)
    ultimately show ?thesis
      by (auto simp: no_conflict_def new loc_bits_def word_less_nat_alt word_le_nat_alt)
  next
    case False
    have "0 \<le> sint (pm_nHeightStart d)" "0 \<le> sint (pm_nHeightEnd d)" using assms(7) d by (auto simp: list_all_iff)
    with False d new pos assms(4) show ?thesis
      by (force simp: conflicting_time_def no_conflict_def word_less_def)
  qed
  then have "list_all (\<lambda>(_, d). no_conflict new d) M" by (auto simp: list_all_iff)
  with ok show ?thesis by (simp add: Manager_Add_def new_def Let_def)
qed


subsection \<open>The transaction of a proposal\<close>

lemma short_proposal_script:
  assumes "length (vp_strName p) \<le> MAX_CHAR_NAME" "length (vp_strDescription p) \<le> MAX_CHAR_ABSTRACT"
  shows "\<exists>n. proposal_script p = [word_of_nat OP_RETURN, n, 0x70, 0x72, 0x6f, 0x70] @ ser_proposal p"
proof -
  have "length (ser_proposal p) \<le> 56"
    using assms by (simp add: size_proposal_def GetSerializeSize_bytes_def GetSizeOfCompactSize_def
        MAX_CHAR_NAME_def MAX_CHAR_ABSTRACT_def flip: proposal_codec.size_enc)
  then show ?thesis
    by (simp add: proposal_script_def push_op_def push_data_def OP_PUSHDATA1_def)
qed

text \<open>A proposal within the limits on its name and description is read back from the
  transaction made for it, when the proposal is the first output.\<close>

theorem proposal_roundtrip:
  assumes "ConstructTransaction p tx = (True, tx')" and "tx_vout tx = []"
    and "length (vp_strName p) \<le> MAX_CHAR_NAME" and "length (vp_strDescription p) \<le> MAX_CHAR_ABSTRACT"
  shows "ProposalFromTransaction tx' = Some (Some p)"
proof -
  obtain n where n: "proposal_script p = [word_of_nat OP_RETURN, n, 0x70, 0x72, 0x6f, 0x70] @ ser_proposal p"
    using short_proposal_script [OF assms(3,4)] by blast
  have out: "tx_vout tx' = [\<lparr>to_nValue = 0, to_scriptPubKey = proposal_script p\<rparr>]"
    using assms(1,2) by (auto simp: ConstructTransaction_def Let_def split: if_splits)
  have "unat (word_of_nat OP_RETURN :: byte) = OP_RETURN" by (simp add: opcode_defs)
  then have "IsProposal tx' = Some True"
    by (simp add: IsProposal_def out n IsDataCarrier_def)
  moreover have "valid_proposal p"
    using assms(3,4) by (simp add: valid_proposal_def MAX_SIZE_def MAX_CHAR_NAME_def MAX_CHAR_ABSTRACT_def)
  then have "unser_proposal (ser_proposal p) = Some (p, [])" using proposal_codec.dec_enc [of p "[]"] by simp
  ultimately show ?thesis by (simp add: ProposalFromTransaction_def out n)
qed

end
