(* ===== verification/Samples.thy ===== *)
theory Samples
  imports Block_Files
begin

text \<open>
  A concrete environment for evaluating the model: big numbers that do what OpenSSL
  documents, and small stand-ins for the hash functions, for the elliptic curve library
  (a key is its number, a signature the low bytes of key and hash) and for the cipher
  (which appends the low byte of key and initialisation vector). The stand-ins satisfy the
  hypotheses that the development states about the libraries.
\<close>

definition sample_ssl :: openssl where
  "sample_ssl = \<lparr>RIPEMD160 = (\<lambda>bs. le_bytes 20 (le_value bs)), SHA1 = (\<lambda>bs. le_bytes 20 (le_value bs)),
     SHA256 = (\<lambda>bs. le_bytes 32 (le_value bs)), BN_mpi2bn = (\<lambda>bs. mpi_value (drop 4 bs)),
     BN_bn2mpi = (\<lambda>n. be_bytes 4 (length (mpi_body n)) @ mpi_body n),
     BN_get_word = (\<lambda>n. if \<bar>n\<bar> < 2 ^ 64 then nat \<bar>n\<bar> else 2 ^ 64 - 1),
     BN_num_bytes = (\<lambda>n. byte_count (nat \<bar>n\<bar>))\<rparr>"

definition sample_sig :: "nat \<Rightarrow> uint256 \<Rightarrow> valtype" where
  "sample_sig k h = [0x30, 2, word_of_nat k, ucast h]"

definition sample_ec :: "nat ecdsa" where
  "sample_ec = \<lparr>EC_KEY_new = 0, EC_KEY_check_key = (\<lambda>k. k \<noteq> 0), EC_KEY_set_compressed = id,
     EC_KEY_regenerate_key = (\<lambda>_ n. Some n), EC_KEY_get0_private_key = (\<lambda>k. Some k),
     o2i_ECPublicKey = (\<lambda>_ v. if length v = 33 then Some (be_value (tl v)) else None),
     i2o_ECPublicKey = (\<lambda>k. 2 # be_bytes 32 k),
     ECDSA_sign = (\<lambda>k h. Some (sample_sig k h)),
     ECDSA_verify = (\<lambda>k h sig. if sig = sample_sig k h then 1 else 0),
     d2i_ECDSA_SIG = (\<lambda>v. if length v = 4 then Some (unat (v ! 2), unat (v ! 3)) else None),
     i2d_ECDSA_SIG = (\<lambda>(r, s). [0x30, 2, word_of_nat r, word_of_nat s]),
     ECDSA_do_sign = (\<lambda>k h. Some (k, unat h)),
     ECDSA_SIG_recover_key = (\<lambda>_ (r, s) _ i _. if i = 0 then Some r else None)\<rparr>"

definition sample_evp :: evp where
  "sample_evp = \<lparr>evp_bytes_to_key = (\<lambda>salt pass n. (32, replicate 32 1, replicate 32 2)),
     evp_encrypt = (\<lambda>key iv text. Some (text @ [hd key + hd iv])),
     evp_decrypt = (\<lambda>key iv ciphered. if ciphered \<noteq> [] \<and> last ciphered = hd key + hd iv
                                      then Some (butlast ciphered) else None)\<rparr>"

definition sample_libs :: "nat keylibs" where
  "sample_libs = \<lparr>kl_ssl = sample_ssl, kl_ec = sample_ec, kl_evp = sample_evp\<rparr>"

definition sample_env :: "nat sigenv" where
  "sample_env = \<lparr>sv_ssl = sample_ssl, sv_ec = sample_ec, sv_rand = word_of_nat, sv_maxcache = 10\<rparr>"

definition sample_node :: "nat node" where
  "sample_node = \<lparr>nd_sig = sample_env, nd_Hash9 = (\<lambda>bs. word_of_nat (length bs)), nd_fTestNet = False\<rparr>"

lemma sample_bn [simp]: "bn_documented sample_ssl"
  by (simp add: bn_documented_def sample_ssl_def)

lemma sample_evp_documented [simp]: "evp_documented sample_evp"
  by (simp add: evp_documented_def sample_evp_def)

lemma sample_node_simps [simp]:
  "nd_sig sample_node = sample_env" "nd_ssl sample_node = sample_ssl" "nd_ec sample_node = sample_ec"
  "sv_ssl sample_env = sample_ssl" "sv_ec sample_env = sample_ec"
  "kl_ssl sample_libs = sample_ssl" "kl_ec sample_libs = sample_ec" "kl_evp sample_libs = sample_evp"
  by (simp_all add: sample_node_def sample_env_def nd_ssl_def nd_ec_def sample_libs_def)

subsection \<open>A key, a script, a transaction, a block\<close>

definition sample_pub :: valtype where
  "sample_pub = [2, 0, 0, 0, 0, 0, 0, 0, 0, 0, 0, 0, 0, 0, 0, 0, 0, 0, 0, 0, 0, 0, 0, 0, 0, 0, 0, 0, 0, 0, 0, 0, 7]"

lemma be_bytes_32_7: "be_bytes 32 7 = tl sample_pub"
  using be_bytes_be_value [of "tl sample_pub" 32] by (simp add: sample_pub_def be_value_def)

definition sample_pay :: CTransaction where
  "sample_pay = \<lparr>tx_nVersion = 1, tx_nTime = 1000,
     tx_vin = [\<lparr>ti_prevout = \<lparr>op_hash = 5, op_n = 0\<rparr>, ti_scriptSig = [], ti_nSequence = - 1\<rparr>],
     tx_vout = [\<lparr>to_nValue = 2000000, to_scriptPubKey = push_data sample_pub @ push_op OP_CHECKSIG\<rparr>],
     tx_nLockTime = 0\<rparr>"

definition sample_coinbase :: CTransaction where
  "sample_coinbase = \<lparr>tx_nVersion = 2, tx_nTime = 1000,
     tx_vin = [\<lparr>ti_prevout = COutPoint_SetNull, ti_scriptSig = [1, 2], ti_nSequence = - 1\<rparr>],
     tx_vout = [\<lparr>to_nValue = 1000000, to_scriptPubKey = push_data sample_pub @ push_op OP_CHECKSIG\<rparr>],
     tx_nLockTime = 0\<rparr>"

definition sample_block :: CBlock where
  "sample_block = (let b = CBlock_new\<lparr>bk_hashPrevBlock := 9, bk_nTime := 1000, bk_nBits := 0x1e0fffff,
       bk_vtx := [sample_coinbase, sample_pay]\<rparr>;
       b = b\<lparr>bk_hashMerkleRoot := fst (BuildMerkleTree sample_ssl b)\<rparr>
     in b\<lparr>bk_vchBlockSig := sample_sig 7 80\<rparr>)"

end
