(* ===== verification/Connect_Inputs.thy ===== *)
theory Connect_Inputs
  imports Tx_Inputs
begin

text \<open>
  Spending (\<open>src/main.cpp\<close>): \<open>FetchInputs\<close> collects the previous transactions of a
  transaction and the records of who spent their outputs, \<open>ConnectInputs\<close> checks that the
  inputs may be spent and spends them, \<open>DisconnectInputs\<close> takes that back, and
  \<open>GetCoinAge\<close> is the age of the coins spent. The memory pool is its \<open>mapTx\<close>.
\<close>

subsection \<open>Coin age\<close>

text \<open>The least age, which the test network lowers.\<close>

definition nStakeMinAge :: "bool \<Rightarrow> int" where
  "nStakeMinAge fTestNet = (if fTestNet then 20 * 60 else 60 * 60 * 8)"

text \<open>The division of \<open>CBigNum\<close> truncates.\<close>

definition bn_quot :: "int \<Rightarrow> int \<Rightarrow> int" where
  "bn_quot a b = sgn a * sgn b * (\<bar>a\<bar> div \<bar>b\<bar>)"

fun coin_age_loop ::
  "'k node \<Rightarrow> blockfiles \<Rightarrow> txdb \<Rightarrow> CTransaction \<Rightarrow> int \<Rightarrow> CTxIn list \<Rightarrow> int option" where
  "coin_age_loop N d db tx bnCentSecond [] = Some bnCentSecond"
| "coin_age_loop N d db tx bnCentSecond (txin # rest) =
     (case ReadFromDisk_prevout d db (ti_prevout txin) of
        None \<Rightarrow> coin_age_loop N d db tx bnCentSecond rest
      | Some (txPrev, txindex) \<Rightarrow>
          if tx_nTime tx < tx_nTime txPrev then None
          else case ReadFromDisk N d CBlock_new (dp_nFile (xi_pos txindex)) (dp_nBlockPos (xi_pos txindex)) False of
                 None \<Rightarrow> None
               | Some block \<Rightarrow>
                   if uint (tx_nTime tx) < GetBlockTime block + nStakeMinAge (nd_fTestNet N)
                   then coin_age_loop N d db tx bnCentSecond rest
                   else let nValueIn = to_nValue (tx_vout txPrev ! unat (op_n (ti_prevout txin)))
                        in coin_age_loop N d db tx
                             (bnCentSecond +
                              bn_quot (setint64 (nd_ssl N) nValueIn * uint (tx_nTime tx - tx_nTime txPrev)) CENT)
                             rest)"

text \<open>\<open>None\<close> is the result false.\<close>

definition GetCoinAge_tx :: "'k node \<Rightarrow> blockfiles \<Rightarrow> txdb \<Rightarrow> CTransaction \<Rightarrow> uint64 option" where
  "GetCoinAge_tx N d db tx =
     (if IsCoinBase tx then Some 0
      else map_option
             (\<lambda>bnCentSecond. getuint64 (nd_ssl N) (bn_quot (bn_quot (bnCentSecond * CENT) COIN) (24 * 60 * 60)))
             (coin_age_loop N d db tx 0 (tx_vin tx)))"

fun block_age_loop :: "'k node \<Rightarrow> blockfiles \<Rightarrow> txdb \<Rightarrow> uint64 \<Rightarrow> CTransaction list \<Rightarrow> uint64 option" where
  "block_age_loop N d db nCoinAge [] = Some nCoinAge"
| "block_age_loop N d db nCoinAge (tx # txs) =
     (case GetCoinAge_tx N d db tx of None \<Rightarrow> None
      | Some nTxCoinAge \<Rightarrow> block_age_loop N d db (nCoinAge + nTxCoinAge) txs)"

definition GetCoinAge_block :: "'k node \<Rightarrow> blockfiles \<Rightarrow> txdb \<Rightarrow> CBlock \<Rightarrow> uint64 option" where
  "GetCoinAge_block N d db b =
     map_option (\<lambda>nCoinAge. if nCoinAge = 0 then 1 else nCoinAge)
       (block_age_loop N d db 0 (bk_vtx b))"

subsection \<open>Disconnecting\<close>

fun disconnect_loop :: "txdb \<Rightarrow> CTxIn list \<Rightarrow> bool \<times> txdb" where
  "disconnect_loop db [] = (True, db)"
| "disconnect_loop db (txin # rest) =
     (let prevout = ti_prevout txin; n = unat (op_n prevout)
      in case ReadTxIndex db (op_hash prevout) of
           None \<Rightarrow> (False, db)
         | Some txindex \<Rightarrow>
             if length (xi_vSpent txindex) \<le> n then (False, db)
             else case UpdateTxIndex db (op_hash prevout)
                         (txindex\<lparr>xi_vSpent := (xi_vSpent txindex)[n := CDiskTxPos_SetNull]\<rparr>) of
                    (False, db) \<Rightarrow> (False, db)
                  | (True, db) \<Rightarrow> disconnect_loop db rest)"

definition DisconnectInputs :: "openssl \<Rightarrow> txdb \<Rightarrow> CTransaction \<Rightarrow> bool \<times> txdb" where
  "DisconnectInputs E db tx =
     (case (if IsCoinBase tx then (True, db) else disconnect_loop db (tx_vin tx)) of
        (False, db) \<Rightarrow> (False, db)
      | (True, db) \<Rightarrow> (True, snd (EraseTxIndex E db tx)))"

subsection \<open>Fetching\<close>

type_synonym testpool = "(uint256 \<times> CTxIndex) list"
type_synonym pooltx = "(uint256 \<times> CTransaction) list"

definition pos_in_memory :: CDiskTxPos where
  "pos_in_memory = \<lparr>dp_nFile = 1, dp_nBlockPos = 1, dp_nTxPos = 1\<rparr>"

text \<open>The first loop for one input: what \<open>inputsRet\<close> holds for its previous transaction.\<close>

definition fetch_prev ::
  "blockfiles \<Rightarrow> txdb \<Rightarrow> pooltx \<Rightarrow> testpool \<Rightarrow> bool \<Rightarrow> bool \<Rightarrow> uint256 \<Rightarrow> (CTxIndex \<times> CTransaction) option" where
  "fetch_prev d db mapTx mapTestPool fBlock fMiner hash =
     (let known = (fBlock \<or> fMiner) \<and> map_of mapTestPool hash \<noteq> None;
          found = (if known then map_of mapTestPool hash else ReadTxIndex db hash)
      in if found = None \<and> (fBlock \<or> fMiner) then None
         else case found of
                None \<Rightarrow>
                  map_option (\<lambda>txPrev. (CTxIndex_new CDiskTxPos_SetNull (length (tx_vout txPrev)), txPrev))
                    (map_of mapTx hash)
              | Some txindex \<Rightarrow>
                  map_option (\<lambda>txPrev. (txindex, txPrev))
                    (if xi_pos txindex = pos_in_memory then map_of mapTx hash
                     else ReadFromDisk_tx d (xi_pos txindex)))"

fun fetch_loop ::
  "blockfiles \<Rightarrow> txdb \<Rightarrow> pooltx \<Rightarrow> testpool \<Rightarrow> bool \<Rightarrow> bool \<Rightarrow> MapPrevTx \<Rightarrow> CTxIn list \<Rightarrow> MapPrevTx option" where
  "fetch_loop d db mapTx mapTestPool fBlock fMiner inputs [] = Some inputs"
| "fetch_loop d db mapTx mapTestPool fBlock fMiner inputs (txin # rest) =
     (let hash = op_hash (ti_prevout txin)
      in if map_of inputs hash \<noteq> None
         then fetch_loop d db mapTx mapTestPool fBlock fMiner inputs rest
         else case fetch_prev d db mapTx mapTestPool fBlock fMiner hash of
                None \<Rightarrow> None
              | Some e \<Rightarrow> fetch_loop d db mapTx mapTestPool fBlock fMiner (map_put hash e inputs) rest)"

definition prevout_in_range :: "MapPrevTx \<Rightarrow> COutPoint \<Rightarrow> bool" where
  "prevout_in_range inputs prevout =
     (case map_of inputs (op_hash prevout) of None \<Rightarrow> False
      | Some (txindex, txPrev) \<Rightarrow>
          unat (op_n prevout) < length (tx_vout txPrev) \<and> unat (op_n prevout) < length (xi_vSpent txindex))"

text \<open>
  The result: the misbehaviour score and the flag \<open>fInvalid\<close>, or the inputs. The callers
  drop \<open>inputsRet\<close> when fetching fails.
\<close>

definition FetchInputs ::
  "blockfiles \<Rightarrow> txdb \<Rightarrow> pooltx \<Rightarrow> testpool \<Rightarrow> bool \<Rightarrow> bool \<Rightarrow> MapPrevTx \<Rightarrow> CTransaction \<Rightarrow>
     (int \<times> bool) + MapPrevTx" where
  "FetchInputs d db mapTx mapTestPool fBlock fMiner inputs tx =
     (if IsCoinBase tx then Inr inputs
      else case fetch_loop d db mapTx mapTestPool fBlock fMiner inputs (tx_vin tx) of
             None \<Rightarrow> Inl (0, False)
           | Some inputs \<Rightarrow>
               if list_all (\<lambda>txin. prevout_in_range inputs (ti_prevout txin)) (tx_vin tx)
               then Inr inputs
               else Inl (100, True))"

subsection \<open>Connecting\<close>

definition nCoinbaseMaturity :: int where "nCoinbaseMaturity = 10"

text \<open>The walk back from the block: is the generated output too young?\<close>

fun immature :: "int \<Rightarrow> CDiskTxPos \<Rightarrow> pindex \<Rightarrow> bool" where
  "immature nHeight pos [] = False"
| "immature nHeight pos (b # bs) =
     (if nHeight - bi_nHeight b < nCoinbaseMaturity
      then if bi_nBlockPos b = dp_nBlockPos pos \<and> bi_nFile b = dp_nFile pos then True
           else immature nHeight pos bs
      else False)"

text \<open>
  The two loops. The first does the cheap checks and returns the score of the first
  failure or the sum of the inputs. A missing input is a failed assertion: \<open>None\<close>.
\<close>

fun cheap_loop ::
  "CTransaction \<Rightarrow> pindex \<Rightarrow> MapPrevTx \<Rightarrow> int64 \<Rightarrow> CTxIn list \<Rightarrow> (int + int64) option" where
  "cheap_loop tx pindexBlock inputs nValueIn [] = Some (Inr nValueIn)"
| "cheap_loop tx pindexBlock inputs nValueIn (txin # rest) =
     (let prevout = ti_prevout txin; n = unat (op_n prevout)
      in case map_of inputs (op_hash prevout) of None \<Rightarrow> None
         | Some (txindex, txPrev) \<Rightarrow>
             if length (tx_vout txPrev) \<le> n \<or> length (xi_vSpent txindex) \<le> n then Some (Inl 100)
             else if (IsCoinBase txPrev \<or> IsCoinStake txPrev) \<and> pindexBlock \<noteq> [] \<and>
                     immature (bi_nHeight (hd pindexBlock)) (xi_pos txindex) pindexBlock
             then Some (Inl 0)
             else if tx_nTime tx < tx_nTime txPrev then Some (Inl 100)
             else let nValue = to_nValue (tx_vout txPrev ! n); nValueIn = nValueIn + nValue
                  in if \<not> MoneyRange nValue \<or> \<not> MoneyRange nValueIn then Some (Inl 100)
                     else cheap_loop tx pindexBlock inputs nValueIn rest)"

text \<open>The check of one signature: the score of a failure, with the cache.\<close>

definition check_input_sig ::
  "'k node \<Rightarrow> bool \<Rightarrow> CTransaction \<Rightarrow> CTransaction \<Rightarrow> nat \<Rightarrow> sigcache \<Rightarrow> int option \<times> sigcache" where
  "check_input_sig N fStrict txPrev tx i c =
     (case VerifySignature (nd_sig N) txPrev tx i fStrict 0 c of
        (True, c) \<Rightarrow> (None, c)
      | (False, c) \<Rightarrow>
          if fStrict
          then (case VerifySignature (nd_sig N) txPrev tx i False 0 c of
                  (True, c) \<Rightarrow> (Some 0, c)
                | (False, c) \<Rightarrow> (Some 100, c))
          else (Some 100, c))"

text \<open>
  The second loop spends: \<open>inputs\<close> is the function's own copy, \<open>mapTestPool\<close> is the
  caller's and keeps what was written before a failure.
\<close>

fun spend_loop ::
  "'k node \<Rightarrow> int \<Rightarrow> CTransaction \<Rightarrow> CDiskTxPos \<Rightarrow> bool \<Rightarrow> bool \<Rightarrow> bool \<Rightarrow> nat \<Rightarrow> CTxIn list \<Rightarrow>
     MapPrevTx \<Rightarrow> testpool \<Rightarrow> sigcache \<Rightarrow> int option \<times> testpool \<times> sigcache" where
  "spend_loop N nBestHeight tx posThisTx fBlock fMiner fStrict i [] inputs mapTestPool c =
     (None, mapTestPool, c)"
| "spend_loop N nBestHeight tx posThisTx fBlock fMiner fStrict i (txin # rest) inputs mapTestPool c =
     (let prevout = ti_prevout txin; n = unat (op_n prevout); hash = op_hash prevout;
          (txindex, txPrev) = the (map_of inputs hash)
      in if \<not> CDiskTxPos_IsNull (xi_vSpent txindex ! n) then (Some 0, mapTestPool, c)
         else let (failed, c) = (if fBlock \<and> nBestHeight < GetTotalBlocksEstimate N then (None, c)
                                 else check_input_sig N fStrict txPrev tx i c)
              in case failed of
                   Some score \<Rightarrow> (Some score, mapTestPool, c)
                 | None \<Rightarrow>
                     let txindex = txindex\<lparr>xi_vSpent := (xi_vSpent txindex)[n := posThisTx]\<rparr>
                     in spend_loop N nBestHeight tx posThisTx fBlock fMiner fStrict (i + 1) rest
                          (map_put hash (txindex, txPrev) inputs)
                          (if fBlock \<or> fMiner then map_put hash txindex mapTestPool else mapTestPool) c)"

text \<open>
  The end of \<open>ConnectInputs\<close>: the reward of a coinstake or the fee. \<open>None\<close> where
  \<open>GetValueOut\<close> throws.
\<close>

definition default_fee :: "CTransaction \<Rightarrow> int" where
  "default_fee tx = GetMinFee tx 1 False GMF_BLOCK 0"

definition check_reward ::
  "'k node \<Rightarrow> blockfiles \<Rightarrow> txdb \<Rightarrow> CTransaction \<Rightarrow> int64 \<Rightarrow> check option" where
  "check_reward N d db tx nValueIn =
     (case GetCoinAge_tx N d db tx of
        None \<Rightarrow> Some (DoS 0 False)
      | Some nCoinAge \<Rightarrow>
          map_option (\<lambda>nValueOut.
            let nStakeReward = nValueOut - nValueIn;
                limit = GetProofOfStakeReward nCoinAge (tx_nTime tx) - word_of_int (default_fee tx) +
                        word_of_int MIN_TX_FEE :: int64
            in if sint limit < sint nStakeReward then DoS 100 False else DoS 0 True)
          (GetValueOut tx))"

definition check_fee :: "CTransaction \<Rightarrow> bool \<Rightarrow> int64 \<Rightarrow> check option" where
  "check_fee tx fBlock nValueIn =
     map_option (\<lambda>nValueOut.
       if sint nValueIn < sint nValueOut then DoS 100 False
       else let nTxFee = nValueIn - nValueOut
            in if sint nTxFee < 0 then DoS 100 False
               else if sint nTxFee < default_fee tx then DoS (if fBlock then 100 else 0) False
               else if \<not> MoneyRange nTxFee then DoS 100 False
               else DoS 0 True)
     (GetValueOut tx)"

definition ConnectInputs ::
  "'k node \<Rightarrow> int \<Rightarrow> blockfiles \<Rightarrow> txdb \<Rightarrow> MapPrevTx \<Rightarrow> testpool \<Rightarrow> CDiskTxPos \<Rightarrow> pindex \<Rightarrow>
     bool \<Rightarrow> bool \<Rightarrow> bool \<Rightarrow> CTransaction \<Rightarrow> sigcache \<Rightarrow> check option \<times> testpool \<times> sigcache" where
  "ConnectInputs N nBestHeight d db inputs mapTestPool posThisTx pindexBlock fBlock fMiner fStrict tx c =
     (if IsCoinBase tx then (Some (DoS 0 True), mapTestPool, c)
      else case cheap_loop tx pindexBlock inputs 0 (tx_vin tx) of
             None \<Rightarrow> (None, mapTestPool, c)
           | Some (Inl score) \<Rightarrow> (Some (DoS score False), mapTestPool, c)
           | Some (Inr nValueIn) \<Rightarrow>
               (case spend_loop N nBestHeight tx posThisTx fBlock fMiner fStrict 0 (tx_vin tx)
                       inputs mapTestPool c of
                  (Some score, mapTestPool, c) \<Rightarrow> (Some (DoS score False), mapTestPool, c)
                | (None, mapTestPool, c) \<Rightarrow>
                    (if IsCoinStake tx then check_reward N d db tx nValueIn
                     else check_fee tx fBlock nValueIn, mapTestPool, c)))"

text \<open>\<open>ClientConnectInputs\<close>, for a client without the block chain.\<close>

fun client_loop ::
  "'k node \<Rightarrow> pooltx \<Rightarrow> CTransaction \<Rightarrow> nat \<Rightarrow> int64 \<Rightarrow> CTxIn list \<Rightarrow> sigcache \<Rightarrow> int64 option \<times> sigcache" where
  "client_loop N mapTx tx i nValueIn [] c = (Some nValueIn, c)"
| "client_loop N mapTx tx i nValueIn (txin # rest) c =
     (let n = unat (op_n (ti_prevout txin))
      in case map_of mapTx (op_hash (ti_prevout txin)) of None \<Rightarrow> (None, c)
         | Some txPrev \<Rightarrow>
             if length (tx_vout txPrev) \<le> n then (None, c)
             else case VerifySignature (nd_sig N) txPrev tx i True 0 c of
                    (False, c) \<Rightarrow> (None, c)
                  | (True, c) \<Rightarrow>
                      let nValue = to_nValue (tx_vout txPrev ! n); nValueIn = nValueIn + nValue
                      in if \<not> MoneyRange nValue \<or> \<not> MoneyRange nValueIn then (None, c)
                         else client_loop N mapTx tx (i + 1) nValueIn rest c)"

definition ClientConnectInputs ::
  "'k node \<Rightarrow> pooltx \<Rightarrow> CTransaction \<Rightarrow> sigcache \<Rightarrow> bool option \<times> sigcache" where
  "ClientConnectInputs N mapTx tx c =
     (if IsCoinBase tx then (Some False, c)
      else case client_loop N mapTx tx 0 0 (tx_vin tx) c of
             (None, c) \<Rightarrow> (Some False, c)
           | (Some nValueIn, c) \<Rightarrow>
               (map_option (\<lambda>nValueOut. sint nValueOut \<le> sint nValueIn) (GetValueOut tx), c))"

end
