(* ===== verification/Connect_Rules.thy ===== *)
theory Connect_Rules
  imports Connect_Inputs
begin

text \<open>
  What connecting a transaction guarantees: every input was unspent and is spent once, its
  script accepts the signature, no value is created, and disconnecting gives everything
  back. The abstract view of the inputs is a map from transaction hashes to the record of
  their spent outputs.
\<close>

type_synonym prev_map = "uint256 \<Rightarrow> (CTxIndex \<times> CTransaction) option"

definition mark_spent :: "CDiskTxPos \<Rightarrow> COutPoint \<Rightarrow> prev_map \<Rightarrow> prev_map" where
  "mark_spent pos p I =
     (case I (op_hash p) of None \<Rightarrow> I
      | Some (x, t) \<Rightarrow> I(op_hash p \<mapsto> (x\<lparr>xi_vSpent := (xi_vSpent x)[unat (op_n p) := pos]\<rparr>, t)))"

definition in_range :: "prev_map \<Rightarrow> COutPoint \<Rightarrow> bool" where
  "in_range I p \<longleftrightarrow> (\<exists>x t. I (op_hash p) = Some (x, t) \<and> unat (op_n p) < length (tx_vout t) \<and>
     unat (op_n p) < length (xi_vSpent x))"

definition unspent :: "prev_map \<Rightarrow> COutPoint \<Rightarrow> bool" where
  "unspent I p \<longleftrightarrow> (\<exists>x t. I (op_hash p) = Some (x, t) \<and> CDiskTxPos_IsNull (xi_vSpent x ! unat (op_n p)))"

lemma in_range_mark [simp]: "in_range (mark_spent pos p I) q = in_range I q"
  by (auto simp: in_range_def mark_spent_def split: option.splits)

lemma unspent_mark:
  assumes "in_range I p" "\<not> CDiskTxPos_IsNull pos"
  shows "unspent (mark_spent pos p I) q \<longleftrightarrow> unspent I q \<and> q \<noteq> p"
proof -
  from assms(1) obtain x t where I: "I (op_hash p) = Some (x, t)" "unat (op_n p) < length (xi_vSpent x)"
    by (auto simp: in_range_def)
  consider "op_hash q \<noteq> op_hash p" | "op_hash q = op_hash p" "op_n q \<noteq> op_n p" | "q = p"
    by (cases p; cases q) auto
  then show ?thesis
  proof cases
    case 1
    then show ?thesis using I by (auto simp: unspent_def mark_spent_def)
  next
    case 2
    then have "unat (op_n q) \<noteq> unat (op_n p)" by (simp add: word_unat_eq_iff)
    with 2 show ?thesis using I by (auto simp: unspent_def mark_spent_def)
  next
    case 3
    then show ?thesis using I assms(2) by (auto simp: unspent_def mark_spent_def)
  qed
qed

lemma mark_spent_other: "op_hash p \<noteq> h \<Longrightarrow> mark_spent pos p I h = I h"
  by (auto simp: mark_spent_def split: option.splits)

lemma fold_mark_other: "h \<notin> op_hash ` set ps \<Longrightarrow> fold (mark_spent pos) ps I h = I h"
  by (induction ps arbitrary: I) (auto simp: mark_spent_other)

subsection \<open>The two loops\<close>

lemma spend_loop_Cons:
  assumes "spend_loop N nBest tx pos fB fM fS i (t # vin) inputs pool c = (None, pool', c')"
    and "in_range (map_of inputs) (ti_prevout t)"
  obtains x txPrev c1 where
    "map_of inputs (op_hash (ti_prevout t)) = Some (x, txPrev)"
    "unspent (map_of inputs) (ti_prevout t)"
    "fB \<and> nBest < GetTotalBlocksEstimate N \<and> c1 = c \<or>
       \<not> (fB \<and> nBest < GetTotalBlocksEstimate N) \<and> check_input_sig N fS txPrev tx i c = (None, c1)"
    "spend_loop N nBest tx pos fB fM fS (i + 1) vin
       (map_put (op_hash (ti_prevout t))
          (x\<lparr>xi_vSpent := (xi_vSpent x)[unat (op_n (ti_prevout t)) := pos]\<rparr>, txPrev) inputs)
       (if fB \<or> fM then map_put (op_hash (ti_prevout t))
          (x\<lparr>xi_vSpent := (xi_vSpent x)[unat (op_n (ti_prevout t)) := pos]\<rparr>) pool else pool) c1
     = (None, pool', c')"
proof -
  from assms(2) obtain x txPrev where m: "map_of inputs (op_hash (ti_prevout t)) = Some (x, txPrev)"
    by (auto simp: in_range_def)
  obtain f c1 where f: "(if fB \<and> nBest < GetTotalBlocksEstimate N then (None, c)
      else check_input_sig N fS txPrev tx i c) = (f, c1)" by (metis surj_pair)
  show ?thesis
    by (rule that [of x txPrev c1])
      (use assms(1) m f in \<open>auto simp: unspent_def Let_def split: if_splits option.splits\<close>)
qed

lemma map_of_put_mark:
  "map_of inputs (op_hash p) = Some (x, t) \<Longrightarrow>
   map_of (map_put (op_hash p) (x\<lparr>xi_vSpent := (xi_vSpent x)[unat (op_n p) := pos]\<rparr>, t) inputs) =
     mark_spent pos p (map_of inputs)"
  by (simp add: mark_spent_def)

lemma spend_loop_ok:
  assumes "spend_loop N nBest tx pos fB fM fS i vin inputs pool c = (None, pool', c')"
    and "\<forall>t \<in> set vin. in_range (map_of inputs) (ti_prevout t)" and "\<not> CDiskTxPos_IsNull pos"
  shows "distinct (map ti_prevout vin) \<and> (\<forall>t \<in> set vin. unspent (map_of inputs) (ti_prevout t)) \<and>
    (\<forall>h. map_of pool' h =
       (if (fB \<or> fM) \<and> h \<in> op_hash ` ti_prevout ` set vin
        then map_option fst (fold (mark_spent pos) (map ti_prevout vin) (map_of inputs) h)
        else map_of pool h))"
  using assms(1,2)
proof (induction vin arbitrary: i inputs pool c)
  case (Cons t vin)
  define p where "p = ti_prevout t"
  from Cons.prems(2) have r: "in_range (map_of inputs) p" by (simp add: p_def)
  from spend_loop_Cons [OF Cons.prems(1)] r obtain x txPrev c1 where
    m: "map_of inputs (op_hash p) = Some (x, txPrev)" and u: "unspent (map_of inputs) p" and
    rec: "spend_loop N nBest tx pos fB fM fS (i + 1) vin
       (map_put (op_hash p) (x\<lparr>xi_vSpent := (xi_vSpent x)[unat (op_n p) := pos]\<rparr>, txPrev) inputs)
       (if fB \<or> fM then map_put (op_hash p) (x\<lparr>xi_vSpent := (xi_vSpent x)[unat (op_n p) := pos]\<rparr>) pool
        else pool) c1 = (None, pool', c')"
    unfolding p_def by metis
  note I = map_of_put_mark [OF m, of pos]
  have mp: "mark_spent pos p (map_of inputs) (op_hash p) =
      Some (x\<lparr>xi_vSpent := (xi_vSpent x)[unat (op_n p) := pos]\<rparr>, txPrev)"
    by (simp add: mark_spent_def m)
  from Cons.IH [OF rec, unfolded I] Cons.prems(2)
  have IH: "distinct (map ti_prevout vin)"
    "\<forall>t \<in> set vin. unspent (mark_spent pos p (map_of inputs)) (ti_prevout t)"
    "\<forall>h. map_of pool' h =
       (if (fB \<or> fM) \<and> h \<in> op_hash ` ti_prevout ` set vin
        then map_option fst (fold (mark_spent pos) (map ti_prevout vin) (mark_spent pos p (map_of inputs)) h)
        else map_of (if fB \<or> fM then map_put (op_hash p)
               (x\<lparr>xi_vSpent := (xi_vSpent x)[unat (op_n p) := pos]\<rparr>) pool else pool) h)"
    by auto
  have fresh: "map_option fst (fold (mark_spent pos) (map ti_prevout vin) (mark_spent pos p (map_of inputs)) (op_hash p))
      = Some (x\<lparr>xi_vSpent := (xi_vSpent x)[unat (op_n p) := pos]\<rparr>)"
    if "op_hash p \<notin> op_hash ` ti_prevout ` set vin"
    using that mp by (simp add: fold_mark_other)
  show ?case
    using IH(1,2) u r fresh by (auto simp: IH(3) unspent_mark [OF r assms(3)] p_def [symmetric])
qed simp

text \<open>The script of every input accepts, whenever signatures are checked at all.\<close>

definition input_accepted ::
  "'k sigenv \<Rightarrow> CTransaction \<Rightarrow> prev_map \<Rightarrow> bool \<Rightarrow> nat \<Rightarrow> bool" where
  "input_accepted V tx I fS k \<longleftrightarrow>
     (let t = tx_vin tx ! k in
      \<exists>x txPrev. I (op_hash (ti_prevout t)) = Some (x, txPrev) \<and>
        GetHash (sv_ssl V) txPrev = op_hash (ti_prevout t) \<and>
        verify_verdict V (ti_scriptSig t) (to_scriptPubKey (tx_vout txPrev ! unat (op_n (ti_prevout t)))) tx k fS 0)"

lemma input_accepted_mark: "input_accepted V tx (mark_spent pos p I) fS k = input_accepted V tx I fS k"
  by (auto simp: input_accepted_def mark_spent_def Let_def split: option.splits)

lemma check_input_sig_ok:
  assumes "check_input_sig N fS txPrev tx k c = (None, c')" and "cache_ok (nd_sig N) c"
    and "I (op_hash (ti_prevout (tx_vin tx ! k))) = Some (x, txPrev)"
  shows "input_accepted (nd_sig N) tx I fS k \<and> cache_ok (nd_sig N) c'"
proof -
  from assms(1) have v: "VerifySignature (nd_sig N) txPrev tx k fS 0 c = (True, c')"
    by (auto simp: check_input_sig_def split: prod.splits bool.splits if_splits)
  moreover from VerifySignature_cache_ok [OF assms(2), of txPrev tx k fS 0] v
  have "cache_ok (nd_sig N) c'" by simp
  ultimately show ?thesis
    using assms(3)
    by (auto simp: VerifySignature_def input_accepted_def Let_def VerifyScript_verdict(1) [OF assms(2), symmetric]
        split: if_splits)
qed

lemma spend_loop_accepted:
  assumes "spend_loop N nBest tx pos fB fM fS i vin inputs pool c = (None, pool', c')"
    and "\<forall>t \<in> set vin. in_range (map_of inputs) (ti_prevout t)"
    and "vin = drop i (tx_vin tx)" and "cache_ok (nd_sig N) c"
    and "\<not> (fB \<and> nBest < GetTotalBlocksEstimate N)"
  shows "cache_ok (nd_sig N) c' \<and>
    (\<forall>k. i \<le> k \<longrightarrow> k < length (tx_vin tx) \<longrightarrow> input_accepted (nd_sig N) tx (map_of inputs) fS k)"
  using assms(1-4)
proof (induction vin arbitrary: i inputs pool c)
  case (Cons t vin)
  define p where "p = ti_prevout t"
  from Cons.prems(3) have t: "tx_vin tx ! i = t" "vin = drop (i + 1) (tx_vin tx)"
    by (metis nth_via_drop, metis Suc_eq_plus1 drop_Suc list.sel(3) tl_drop)
  from spend_loop_Cons [OF Cons.prems(1)] Cons.prems(2) assms(5) obtain x txPrev c1 where
    m: "map_of inputs (op_hash p) = Some (x, txPrev)" and
    s: "check_input_sig N fS txPrev tx i c = (None, c1)" and
    rec: "spend_loop N nBest tx pos fB fM fS (i + 1) vin
       (map_put (op_hash p) (x\<lparr>xi_vSpent := (xi_vSpent x)[unat (op_n p) := pos]\<rparr>, txPrev) inputs)
       (if fB \<or> fM then map_put (op_hash p) (x\<lparr>xi_vSpent := (xi_vSpent x)[unat (op_n p) := pos]\<rparr>) pool
        else pool) c1 = (None, pool', c')"
    unfolding p_def by (metis list.set_intros(1))
  from check_input_sig_ok [OF s Cons.prems(4), of "map_of inputs"] m t(1)
  have a: "input_accepted (nd_sig N) tx (map_of inputs) fS i" "cache_ok (nd_sig N) c1"
    by (simp_all add: p_def)
  from Cons.IH [OF rec, unfolded map_of_put_mark [OF m]] Cons.prems(2) t(2) a(2)
  have "cache_ok (nd_sig N) c' \<and>
    (\<forall>k. i + 1 \<le> k \<longrightarrow> k < length (tx_vin tx) \<longrightarrow> input_accepted (nd_sig N) tx (map_of inputs) fS k)"
    by (simp add: input_accepted_mark)
  with a(1) show ?case by (metis Suc_eq_plus1 le_neq_implies_less less_eq_Suc_le)
qed simp

subsection \<open>Values\<close>

text \<open>The values of the outputs that the inputs refer to.\<close>

definition input_values :: "MapPrevTx \<Rightarrow> CTransaction \<Rightarrow> int list" where
  "input_values inputs tx =
     map (\<lambda>t. case GetOutputFor t inputs of None \<Rightarrow> 0 | Some out \<Rightarrow> sint (to_nValue out)) (tx_vin tx)"

lemma cheap_loop_ok:
  assumes "cheap_loop tx chain inputs v vin = Some (Inr v')" and "MoneyRange v"
  shows "(\<forall>t \<in> set vin. in_range (map_of inputs) (ti_prevout t)) \<and> MoneyRange v' \<and>
    sint v' = sint v + sum_list (map (\<lambda>t. case GetOutputFor t inputs of None \<Rightarrow> 0
                                         | Some out \<Rightarrow> sint (to_nValue out)) vin)"
  using assms
proof (induction vin arbitrary: v)
  case (Cons t vin)
  then obtain x txPrev where m: "map_of inputs (op_hash (ti_prevout t)) = Some (x, txPrev)"
    and r: "unat (op_n (ti_prevout t)) < length (tx_vout txPrev)"
      "unat (op_n (ti_prevout t)) < length (xi_vSpent x)"
    and w: "MoneyRange (to_nValue (tx_vout txPrev ! unat (op_n (ti_prevout t))))"
      "MoneyRange (v + to_nValue (tx_vout txPrev ! unat (op_n (ti_prevout t))))"
    and rec: "cheap_loop tx chain inputs (v + to_nValue (tx_vout txPrev ! unat (op_n (ti_prevout t)))) vin =
      Some (Inr v')"
    by (auto simp: Let_def split: option.splits if_splits)
  have "sint (v + to_nValue (tx_vout txPrev ! unat (op_n (ti_prevout t)))) =
      sint v + sint (to_nValue (tx_vout txPrev ! unat (op_n (ti_prevout t))))"
    using w(1) by (intro MoneyRange_add [OF Cons.prems(2)]) (simp_all add: MoneyRange_def)
  with Cons.IH [OF rec w(2)] m r show ?case
    by (auto simp: in_range_def GetOutputFor_def Let_def)
qed simp

lemma value_out_loop_range:
  "value_out_loop v outs = Some v' \<Longrightarrow> MoneyRange v \<Longrightarrow> MoneyRange v'"
  by (induction outs arbitrary: v) (auto simp: Let_def split: if_splits)

lemma GetValueOut_range: "GetValueOut tx = Some v \<Longrightarrow> MoneyRange v"
  using value_out_loop_range [of 0 "tx_vout tx" v] MoneyRange_0 by (simp add: GetValueOut_def)

lemma default_fee_value: "default_fee tx = MIN_TX_FEE"
  by (simp add: default_fee_def GetMinFee_def money_defs)

lemma MoneyRange_diff:
  assumes "MoneyRange a" "MoneyRange b" shows "sint (a - b) = sint a - sint b"
  using assms by (intro sint64_sub) (auto simp: MoneyRange_def money_defs)

lemma ConnectInputs_cases:
  assumes "ConnectInputs N nBest d db inputs pool pos chain fB fM fS tx c = (Some (True, s), pool', c')"
    and "\<not> IsCoinBase tx"
  obtains v where "cheap_loop tx chain inputs 0 (tx_vin tx) = Some (Inr v)"
    "spend_loop N nBest tx pos fB fM fS 0 (tx_vin tx) inputs pool c = (None, pool', c')"
    "(if IsCoinStake tx then check_reward N d db tx v else check_fee tx fB v) = Some (True, s)"
  using assms
  by (auto simp: ConnectInputs_def DoS_def split: option.splits sum.splits prod.splits if_splits)

lemma cheap_loop_start:
  assumes "cheap_loop tx chain inputs 0 vin = Some (Inr v)"
  shows "\<forall>t \<in> set vin. in_range (map_of inputs) (ti_prevout t)" "MoneyRange v"
    "sint v = sum_list (map (\<lambda>t. case GetOutputFor t inputs of None \<Rightarrow> 0 | Some out \<Rightarrow> sint (to_nValue out)) vin)"
  using cheap_loop_ok [OF assms] by (simp_all add: MoneyRange_def money_defs)

subsection \<open>The guarantees\<close>

text \<open>C6: A transaction that connects spends no output twice, spends only outputs that were
  unspent, and the caller's table of changes differs from before in exactly the records of
  the previous transactions, where the spent outputs now point at the transaction.\<close>

theorem ConnectInputs_spends_once:
  assumes "ConnectInputs N nBest d db inputs pool pos chain fB fM fS tx c = (Some (True, s), pool', c')"
    and "\<not> IsCoinBase tx" and "\<not> CDiskTxPos_IsNull pos"
  shows "distinct (map ti_prevout (tx_vin tx)) \<and> (\<forall>t \<in> set (tx_vin tx). unspent (map_of inputs) (ti_prevout t)) \<and>
    (\<forall>h. map_of pool' h =
       (if (fB \<or> fM) \<and> h \<in> op_hash ` ti_prevout ` set (tx_vin tx)
        then map_option fst (fold (mark_spent pos) (map ti_prevout (tx_vin tx)) (map_of inputs) h)
        else map_of pool h))"
  using ConnectInputs_cases [OF assms(1,2)] cheap_loop_start(1) spend_loop_ok [OF _ _ assms(3)]
  by metis

text \<open>C7: Outside the part of the chain below the last checkpoint, every input of a
  transaction that connects satisfies the script of the output it spends, and the signature
  cache still holds valid signatures only.\<close>

theorem ConnectInputs_verifies:
  assumes "ConnectInputs N nBest d db inputs pool pos chain fB fM fS tx c = (Some (True, s), pool', c')"
    and "\<not> IsCoinBase tx" and "cache_ok (nd_sig N) c"
    and "\<not> (fB \<and> nBest < GetTotalBlocksEstimate N)"
  shows "cache_ok (nd_sig N) c' \<and>
    (\<forall>k < length (tx_vin tx). input_accepted (nd_sig N) tx (map_of inputs) fS k)"
  using ConnectInputs_cases [OF assms(1,2)] cheap_loop_start(1)
    spend_loop_accepted [OF _ _ _ assms(3,4), where i = 0 and vin = "tx_vin tx" and tx = tx]
  by (metis drop0 le0)

text \<open>C8: No value is created: the outputs of a transaction that connects stay below its inputs
  by at least the minimum fee; those of a coinstake exceed them by at most the stake reward
  for its coin age. Neither sum wraps around.\<close>

theorem ConnectInputs_values:
  assumes "ConnectInputs N nBest d db inputs pool pos chain fB fM fS tx c = (Some (True, s), pool', c')"
    and "\<not> IsCoinBase tx"
  shows "\<exists>out. GetValueOut tx = Some out \<and>
    (if IsCoinStake tx
     then \<exists>age. GetCoinAge_tx N d db tx = Some age \<and>
            sint out - sum_list (input_values inputs tx) \<le> sint (GetProofOfStakeReward age (tx_nTime tx))
     else sint out + MIN_TX_FEE \<le> sum_list (input_values inputs tx))"
proof -
  obtain v where c: "cheap_loop tx chain inputs 0 (tx_vin tx) = Some (Inr v)"
    and e: "(if IsCoinStake tx then check_reward N d db tx v else check_fee tx fB v) = Some (True, s)"
    using ConnectInputs_cases [OF assms] by metis
  have v: "sint v = sum_list (input_values inputs tx)" "MoneyRange v"
    using cheap_loop_start [OF c] by (simp_all add: input_values_def)
  from e obtain out where out: "GetValueOut tx = Some out"
    by (auto simp: check_reward_def check_fee_def DoS_def split: if_splits option.splits)
  note d = MoneyRange_diff [OF GetValueOut_range [OF out] v(2)] MoneyRange_diff [OF v(2) GetValueOut_range [OF out]]
  show ?thesis
    using e out
    by (auto simp: check_reward_def check_fee_def Let_def DoS_def default_fee_value d v(1)
        split: if_splits option.splits)
qed

subsection \<open>Disconnecting\<close>

text \<open>One slot of one record, on the abstract transaction index.\<close>

definition set_slot :: "CDiskTxPos \<Rightarrow> COutPoint \<Rightarrow> (uint256 \<Rightarrow> CTxIndex option) \<Rightarrow> uint256 \<Rightarrow> CTxIndex option" where
  "set_slot pos p J =
     (case J (op_hash p) of None \<Rightarrow> J
      | Some x \<Rightarrow> J(op_hash p \<mapsto> x\<lparr>xi_vSpent := (xi_vSpent x)[unat (op_n p) := pos]\<rparr>))"

lemma set_slot_commute:
  assumes "p \<noteq> q" shows "set_slot v p (set_slot w q J) = set_slot w q (set_slot v p J)"
proof (cases "op_hash p = op_hash q")
  case True
  with assms have "unat (op_n p) \<noteq> unat (op_n q)" by (metis COutPoint.equality old.unit.exhaust word_unat_eq_iff)
  with True show ?thesis
    by (auto simp: set_slot_def list_update_swap split: option.splits)
qed (auto simp: set_slot_def fun_upd_twist split: option.splits)

lemma set_slot_twice [simp]: "set_slot v p (set_slot w p J) = set_slot v p J"
  by (auto simp: set_slot_def split: option.splits)

lemma set_slot_same:
  assumes "J (op_hash p) = Some x" "xi_vSpent x ! unat (op_n p) = v" shows "set_slot v p J = J"
  using assms by (auto simp: set_slot_def)

lemma set_slot_mark:
  "(\<lambda>h. map_option fst (mark_spent pos p I h)) = set_slot pos p (\<lambda>h. map_option fst (I h))"
  by (auto simp: set_slot_def mark_spent_def fun_eq_iff split: option.splits)

lemma fold_mark_slots:
  "(\<lambda>h. map_option fst (fold (mark_spent pos) ps I h)) = fold (set_slot pos) ps (\<lambda>h. map_option fst (I h))"
  by (induction ps arbitrary: I) (simp_all add: set_slot_mark)

lemma set_slot_fold: "p \<notin> set ps \<Longrightarrow> set_slot v p (fold (set_slot w) ps J) = fold (set_slot w) ps (set_slot v p J)"
  by (induction ps arbitrary: J) (auto simp: set_slot_commute)

text \<open>Clearing the slots in the order in which they were filled gives the index back.\<close>

lemma clear_slots:
  assumes "distinct ps"
    and "\<forall>p \<in> set ps. \<exists>x. J (op_hash p) = Some x \<and> xi_vSpent x ! unat (op_n p) = v"
  shows "fold (set_slot v) ps (fold (set_slot w) ps J) = J"
  using assms
proof (induction ps arbitrary: J)
  case (Cons p ps)
  then have "set_slot v p J = J" by (auto intro: set_slot_same)
  with Cons show ?case by (simp add: set_slot_fold)
qed simp

definition slot_at :: "uint256 \<Rightarrow> CDiskTxPos \<Rightarrow> COutPoint \<Rightarrow> CTxIndex option \<Rightarrow> CTxIndex option" where
  "slot_at h v p e =
     (if h = op_hash p then map_option (\<lambda>x. x\<lparr>xi_vSpent := (xi_vSpent x)[unat (op_n p) := v]\<rparr>) e else e)"

lemma set_slot_apply: "set_slot v p J h = slot_at h v p (J h)"
  by (auto simp: set_slot_def slot_at_def split: option.splits)

lemma fold_slots_apply: "fold (set_slot v) ps J h = fold (slot_at h v) ps (J h)"
  by (induction ps arbitrary: J) (simp_all add: set_slot_apply)

lemma length_fold_slot_at:
  "\<exists>y. fold (slot_at h v) ps (Some x) = Some y \<and> length (xi_vSpent y) = length (xi_vSpent x)"
proof (induction ps arbitrary: x)
  case (Cons p ps)
  obtain z where z: "slot_at h v p (Some x) = Some z" "length (xi_vSpent z) = length (xi_vSpent x)"
    by (cases "h = op_hash p") (auto simp: slot_at_def)
  show ?case using Cons.IH [of z] by (simp add: z)
qed simp

lemma fold_slots_local: "J h = K h \<Longrightarrow> fold (set_slot v) ps J h = fold (set_slot v) ps K h"
  by (simp add: fold_slots_apply)

lemma set_slot_elsewhere: "h \<noteq> op_hash p \<Longrightarrow> set_slot v p J h = J h"
  by (auto simp: set_slot_def split: option.splits)

lemma fold_slots_elsewhere: "h \<notin> op_hash ` set ps \<Longrightarrow> fold (set_slot v) ps J h = J h"
  by (induction ps arbitrary: J) (simp_all add: set_slot_elsewhere)

lemma dom_set_slot [simp]: "dom (set_slot v p J) = dom J"
  by (auto simp: set_slot_def split: option.splits)

lemma length_set_slot:
  "J h = Some x \<Longrightarrow> \<exists>y. set_slot v p J h = Some y \<and> length (xi_vSpent y) = length (xi_vSpent x)"
  by (auto simp: set_slot_apply slot_at_def)

lemma dom_fold_slots [simp]: "dom (fold (set_slot v) ps J) = dom J"
  by (induction ps arbitrary: J) simp_all

lemma length_fold_slots:
  "J h = Some x \<Longrightarrow> \<exists>y. fold (set_slot v) ps J h = Some y \<and> length (xi_vSpent y) = length (xi_vSpent x)"
  by (simp add: fold_slots_apply length_fold_slot_at)

lemma UpdateTxIndex_ok:
  "db_faults db = [] \<Longrightarrow> UpdateTxIndex db h x =
     (True, db\<lparr>db_tables := (db_tables db)\<lparr>tb_tx := map_put h x (tb_tx (db_tables db))\<rparr>\<rparr>)"
  by (simp add: UpdateTxIndex_def db_write_def)

lemma disconnect_loop_ok:
  assumes "db_faults db = []"
    and "\<forall>t \<in> set vin. \<exists>x. map_of (tb_tx (db_tables db)) (op_hash (ti_prevout t)) = Some x \<and>
           unat (op_n (ti_prevout t)) < length (xi_vSpent x)"
  shows "\<exists>db'. disconnect_loop db vin = (True, db') \<and> db_faults db' = [] \<and>
    map_of (tb_tx (db_tables db')) =
      fold (set_slot CDiskTxPos_SetNull) (map ti_prevout vin) (map_of (tb_tx (db_tables db)))"
  using assms
proof (induction vin arbitrary: db)
  case (Cons t vin)
  define p where "p = ti_prevout t"
  from Cons.prems(2) obtain x where x: "map_of (tb_tx (db_tables db)) (op_hash p) = Some x"
    "unat (op_n p) < length (xi_vSpent x)" by (auto simp: p_def)
  define db1 where "db1 = db\<lparr>db_tables := (db_tables db)\<lparr>tb_tx := map_put (op_hash p)
    (x\<lparr>xi_vSpent := (xi_vSpent x)[unat (op_n p) := CDiskTxPos_SetNull]\<rparr>) (tb_tx (db_tables db))\<rparr>\<rparr>"
  have m1: "map_of (tb_tx (db_tables db1)) = set_slot CDiskTxPos_SetNull p (map_of (tb_tx (db_tables db)))"
    by (simp add: db1_def set_slot_def x)
  have "disconnect_loop db (t # vin) = disconnect_loop db1 vin"
    using x Cons.prems(1) by (simp add: Let_def ReadTxIndex_def UpdateTxIndex_ok p_def db1_def)
  moreover have "\<exists>db'. disconnect_loop db1 vin = (True, db') \<and> db_faults db' = [] \<and>
    map_of (tb_tx (db_tables db')) =
      fold (set_slot CDiskTxPos_SetNull) (map ti_prevout vin) (map_of (tb_tx (db_tables db1)))"
  proof (rule Cons.IH)
    show "db_faults db1 = []" using Cons.prems(1) by (simp add: db1_def)
    show "\<forall>t \<in> set vin. \<exists>x. map_of (tb_tx (db_tables db1)) (op_hash (ti_prevout t)) = Some x \<and>
           unat (op_n (ti_prevout t)) < length (xi_vSpent x)"
      using Cons.prems(2) length_set_slot unfolding m1 by (metis list.set_intros(2))
  qed
  ultimately show ?case by (simp add: m1 p_def)
qed simp

lemma spend_loop_sorted:
  assumes "spend_loop N nBest tx pos fB fM fS i vin inputs pool c = (r, pool', c')"
    and "sorted_wrt (<) (map fst pool)"
  shows "sorted_wrt (<) (map fst pool')"
  using assms
  by (induction vin arbitrary: i inputs pool c)
    (auto simp: Let_def sorted_map_put split: if_splits option.splits prod.splits)

lemma map_of_fold_put:
  assumes "distinct (map fst ms)"
  shows "map_of (fold (\<lambda>(h, x). map_put h x) ms m) = map_of m ++ map_of ms"
  using assms
proof (induction ms arbitrary: m)
  case (Cons e ms)
  obtain h x where e: "e = (h, x)" by (cases e)
  with Cons.prems have "map_of ms h = None" by (simp add: map_of_eq_None_iff)
  with Cons e show ?case by (auto simp: fun_eq_iff map_add_def split: option.splits)
qed simp

text \<open>The index as a block sees it: the database under the table of changes.\<close>

definition index_view :: "txdb \<Rightarrow> testpool \<Rightarrow> uint256 \<Rightarrow> CTxIndex option" where
  "index_view db pool = map_of (tb_tx (db_tables db)) ++ map_of pool"

lemma index_view_Nil [simp]: "index_view db [] = map_of (tb_tx (db_tables db))"
  by (simp add: index_view_def)

lemma index_view_put: "index_view db (map_put h x pool) = (index_view db pool)(h \<mapsto> x)"
  by (simp add: index_view_def)

lemma fetch_loop_index:
  assumes "fetch_loop d db mapTx pool True False inputs vin = Some inputs'"
    and "\<And>h e. map_of inputs h = Some e \<Longrightarrow> index_view db pool h = Some (fst e)"
  shows "map_of inputs' h = Some e \<Longrightarrow> index_view db pool h = Some (fst e)"
  using assms
proof (induction vin arbitrary: inputs)
  case (Cons t vin)
  show ?case
  proof (cases "map_of inputs (op_hash (ti_prevout t))")
    case None
    with Cons.prems(2) obtain f where f: "fetch_prev d db mapTx pool True False (op_hash (ti_prevout t)) = Some f"
      and rec: "fetch_loop d db mapTx pool True False (map_put (op_hash (ti_prevout t)) f inputs) vin = Some inputs'"
      by (auto simp: Let_def split: option.splits)
    from f have "index_view db pool (op_hash (ti_prevout t)) = Some (fst f)"
      by (auto simp: fetch_prev_def Let_def index_view_def map_add_def ReadTxIndex_def split: if_splits option.splits)
    show ?thesis
      by (rule Cons.IH [OF Cons.prems(1) rec]) (use Cons.prems(3) \<open>index_view db pool _ = _\<close> in \<open>auto split: if_splits\<close>)
  next
    case (Some e)
    with Cons show ?thesis by simp
  qed
qed simp

text \<open>
  A transaction connected in a block: where its inputs stand in the index, and the index
  with the changes.
\<close>

definition free_slots :: "(uint256 \<Rightarrow> CTxIndex option) \<Rightarrow> COutPoint list \<Rightarrow> bool" where
  "free_slots J ps \<longleftrightarrow> distinct ps \<and>
     (\<forall>p \<in> set ps. \<exists>x. J (op_hash p) = Some x \<and> unat (op_n p) < length (xi_vSpent x) \<and>
        CDiskTxPos_IsNull (xi_vSpent x ! unat (op_n p)))"

lemma connected_inputs:
  assumes "FetchInputs d db mapTx pool True False [] tx = Inr inputs"
    and "ConnectInputs N nBest d db inputs pool pos chain True False fS tx c = (Some (True, s), pool', c')"
    and "\<not> IsCoinBase tx" and "\<not> CDiskTxPos_IsNull pos" and "p \<in> set (map ti_prevout (tx_vin tx))"
  shows "\<exists>x t. map_of inputs (op_hash p) = Some (x, t) \<and> index_view db pool (op_hash p) = Some x \<and>
    unat (op_n p) < length (xi_vSpent x) \<and> CDiskTxPos_IsNull (xi_vSpent x ! unat (op_n p))"
proof -
  obtain v where cheap: "cheap_loop tx chain inputs 0 (tx_vin tx) = Some (Inr v)" and
    spend: "spend_loop N nBest tx pos True False fS 0 (tx_vin tx) inputs pool c = (None, pool', c')"
    using ConnectInputs_cases [OF assms(2,3)] by metis
  from spend_loop_ok [OF spend cheap_loop_start(1) [OF cheap] assms(4)] cheap_loop_start(1) [OF cheap] assms(5)
  obtain x t where x: "map_of inputs (op_hash p) = Some (x, t)"
    "unat (op_n p) < length (xi_vSpent x)" "CDiskTxPos_IsNull (xi_vSpent x ! unat (op_n p))"
    by (fastforce simp: unspent_def in_range_def)
  moreover from assms(1,3) have "fetch_loop d db mapTx pool True False [] (tx_vin tx) = Some inputs"
    by (auto simp: FetchInputs_def split: option.splits if_splits)
  from fetch_loop_index [OF this _ x(1)] have "index_view db pool (op_hash p) = Some x" by simp
  ultimately show ?thesis by auto
qed

lemma connected_distinct:
  assumes "ConnectInputs N nBest d db inputs pool pos chain fB fM fS tx c = (Some (True, s), pool', c')"
    and "\<not> IsCoinBase tx" and "\<not> CDiskTxPos_IsNull pos"
  shows "distinct (map ti_prevout (tx_vin tx))"
  using ConnectInputs_cases [OF assms(1,2)] cheap_loop_start(1) spend_loop_ok [OF _ _ assms(3)]
  by metis

lemma connected_free:
  assumes "FetchInputs d db mapTx pool True False [] tx = Inr inputs"
    and "ConnectInputs N nBest d db inputs pool pos chain True False fS tx c = (Some (True, s), pool', c')"
    and "\<not> IsCoinBase tx" and "\<not> CDiskTxPos_IsNull pos"
  shows "free_slots (index_view db pool) (map ti_prevout (tx_vin tx))"
  unfolding free_slots_def using connected_inputs [OF assms] connected_distinct [OF assms(2-4)] by blast

lemma connected_view:
  assumes "FetchInputs d db mapTx pool True False [] tx = Inr inputs"
    and "ConnectInputs N nBest d db inputs pool pos chain True False fS tx c = (Some (True, s), pool', c')"
    and "\<not> IsCoinBase tx" and "\<not> CDiskTxPos_IsNull pos"
  shows "index_view db pool' = fold (set_slot pos) (map ti_prevout (tx_vin tx)) (index_view db pool)"
proof
  fix h
  define ps where "ps = map ti_prevout (tx_vin tx)"
  define J where "J = index_view db pool"
  obtain v where cheap: "cheap_loop tx chain inputs 0 (tx_vin tx) = Some (Inr v)" and
    spend: "spend_loop N nBest tx pos True False fS 0 (tx_vin tx) inputs pool c = (None, pool', c')"
    using ConnectInputs_cases [OF assms(2,3)] by metis
  note ok = spend_loop_ok [OF spend cheap_loop_start(1) [OF cheap] assms(4)]
  show "index_view db pool' h = fold (set_slot pos) (map ti_prevout (tx_vin tx)) (index_view db pool) h"
  proof (cases "h \<in> op_hash ` set ps")
    case True
    then obtain x t where x: "map_of inputs h = Some (x, t)" "J h = Some x"
      using connected_inputs [OF assms] by (fastforce simp: ps_def J_def)
    from True ok have "map_of pool' h = map_option fst (fold (mark_spent pos) ps (map_of inputs) h)"
      by (simp add: ps_def)
    also have "\<dots> = fold (set_slot pos) ps (\<lambda>h. map_option fst (map_of inputs h)) h"
      by (simp only: fun_cong [OF fold_mark_slots])
    also have "\<dots> = fold (set_slot pos) ps J h" by (simp add: fold_slots_apply x)
    finally have "map_of pool' h = fold (set_slot pos) ps J h" .
    moreover obtain y where "fold (set_slot pos) ps J h = Some y"
      using length_fold_slots [where J = J and h = h, OF x(2)] by blast
    ultimately show ?thesis by (simp add: index_view_def map_add_def J_def ps_def)
  next
    case False
    with ok have "map_of pool' h = map_of pool h" by (auto simp: ps_def)
    with False show ?thesis by (simp add: index_view_def map_add_def fold_slots_elsewhere ps_def)
  qed
qed

text \<open>Disconnecting a transaction whose connection is in the database.\<close>

definition canonical :: "(uint256 \<Rightarrow> CTxIndex option) \<Rightarrow> bool" where
  "canonical J \<longleftrightarrow> (\<forall>h x. J h = Some x \<longrightarrow> list_all (\<lambda>p. CDiskTxPos_IsNull p \<longrightarrow> p = CDiskTxPos_SetNull) (xi_vSpent x))"

definition spent_outputs :: "CTransaction \<Rightarrow> COutPoint list" where
  "spent_outputs tx = (if IsCoinBase tx then [] else map ti_prevout (tx_vin tx))"

lemma disconnect_step:
  assumes "db_faults db = []" and "canonical J" and "free_slots J (spent_outputs tx)" and "J (GetHash E tx) = None"
    and "map_of (tb_tx (db_tables db)) = (fold (set_slot pos) (spent_outputs tx) J)(GetHash E tx \<mapsto> new)"
  shows "\<exists>db'. DisconnectInputs E db tx = (True, db') \<and> db_faults db' = [] \<and> map_of (tb_tx (db_tables db')) = J"
proof -
  define ps where "ps = spent_outputs tx"
  define K where "K = fold (set_slot pos) ps J"
  have slots: "\<exists>x. J (op_hash p) = Some x \<and> unat (op_n p) < length (xi_vSpent x) \<and>
      xi_vSpent x ! unat (op_n p) = CDiskTxPos_SetNull" if "p \<in> set ps" for p
    using assms(2,3) that by (fastforce simp: free_slots_def canonical_def list_all_length ps_def)
  have "\<exists>x. map_of (tb_tx (db_tables db)) (op_hash p) = Some x \<and> unat (op_n p) < length (xi_vSpent x)"
    if "p \<in> set ps" for p
  proof -
    from slots [OF that] obtain x where x: "J (op_hash p) = Some x" "unat (op_n p) < length (xi_vSpent x)" by blast
    then have "op_hash p \<noteq> GetHash E tx" using assms(4) by auto
    moreover obtain y where "K (op_hash p) = Some y" "length (xi_vSpent y) = length (xi_vSpent x)"
      using length_fold_slots [where J = J and h = "op_hash p", OF x(1)] unfolding K_def by blast
    ultimately show ?thesis using x(2) assms(5) by (simp add: ps_def K_def)
  qed
  then have "\<exists>db1. (if IsCoinBase tx then (True, db) else disconnect_loop db (tx_vin tx)) = (True, db1) \<and> db_faults db1 = [] \<and>
      map_of (tb_tx (db_tables db1)) = fold (set_slot CDiskTxPos_SetNull) ps (map_of (tb_tx (db_tables db)))"
    using disconnect_loop_ok [OF assms(1), of "tx_vin tx"] assms(1) by (auto simp: ps_def spent_outputs_def)
  then obtain db1 where d: "(if IsCoinBase tx then (True, db) else disconnect_loop db (tx_vin tx)) = (True, db1)" "db_faults db1 = []"
    and m: "map_of (tb_tx (db_tables db1)) = fold (set_slot CDiskTxPos_SetNull) ps (map_of (tb_tx (db_tables db)))" by blast
  have "fold (set_slot CDiskTxPos_SetNull) ps K = J"
    unfolding K_def using assms(3) slots by (intro clear_slots) (auto simp: ps_def free_slots_def)
  moreover have "fold (set_slot CDiskTxPos_SetNull) ps (map_of (tb_tx (db_tables db))) h = fold (set_slot CDiskTxPos_SetNull) ps K h"
    if "h \<noteq> GetHash E tx" for h
    using that by (intro fold_slots_local) (simp add: assms(5) K_def ps_def)
  ultimately have "(map_of (tb_tx (db_tables db1)))(GetHash E tx := None) = J"
    using assms(4) unfolding m by fastforce
  with d show ?thesis
    by (simp add: DisconnectInputs_def EraseTxIndex_def db_write_def)
qed

text \<open>Disconnecting takes a connection back. A transaction is connected in a block, the
  changes and its own record are written to the index, then it is disconnected: the index
  is what it was. Records hold no half-cleared entries, and the transaction is new.\<close>

theorem DisconnectInputs_undoes:
  assumes "FetchInputs d db mapTx [] True False [] tx = Inr inputs"
    and "ConnectInputs N nBest d db inputs [] pos chain True False fS tx c = (Some (True, s), pool', c')"
    and "\<not> IsCoinBase tx" and "\<not> CDiskTxPos_IsNull pos" and "db_faults db = []"
    and "map_of (tb_tx (db_tables db)) (GetHash E tx) = None"
    and "list_all (\<lambda>(h, x). list_all (\<lambda>p. CDiskTxPos_IsNull p \<longrightarrow> p = CDiskTxPos_SetNull) (xi_vSpent x))
          (tb_tx (db_tables db))"
  defines "written \<equiv> map_put (GetHash E tx) (CTxIndex_new pos (length (tx_vout tx)))
    (fold (\<lambda>(h, x). map_put h x) pool' (tb_tx (db_tables db)))"
  shows "\<exists>db'. DisconnectInputs E (db\<lparr>db_tables := (db_tables db)\<lparr>tb_tx := written\<rparr>\<rparr>) tx = (True, db') \<and>
    map_of (tb_tx (db_tables db')) = map_of (tb_tx (db_tables db))"
proof -
  define ps where "ps = map ti_prevout (tx_vin tx)"
  have ps: "spent_outputs tx = ps" using assms(3) by (simp add: spent_outputs_def ps_def)
  have "sorted_wrt (<) (map fst pool')"
    using ConnectInputs_cases [OF assms(2,3)] spend_loop_sorted [of N nBest tx pos True False fS 0 "tx_vin tx" inputs "[]" c None pool' c']
    by (metis list.simps(8) sorted_wrt.simps(1))
  then have "map_of (fold (\<lambda>(h, x). map_put h x) pool' (tb_tx (db_tables db))) = index_view db pool'"
    by (simp add: map_of_fold_put strict_sorted_iff index_view_def)
  then have "map_of written = (fold (set_slot pos) ps (map_of (tb_tx (db_tables db))))(GetHash E tx \<mapsto> CTxIndex_new pos (length (tx_vout tx)))"
    by (simp add: written_def connected_view [OF assms(1-4)] ps_def)
  moreover have "canonical (map_of (tb_tx (db_tables db)))"
    using assms(7) by (fastforce simp: canonical_def list_all_iff dest: map_of_SomeD)
  moreover have "free_slots (map_of (tb_tx (db_tables db))) ps"
    using connected_free [OF assms(1-4)] by (simp add: ps_def)
  ultimately show ?thesis
    using disconnect_step [of "db\<lparr>db_tables := (db_tables db)\<lparr>tb_tx := written\<rparr>\<rparr>" "map_of (tb_tx (db_tables db))" tx E pos]
      assms(5,6) by (auto simp: ps)
qed

end
