(* ===== verification/Mempool.thy ===== *)
theory Mempool
  imports Connect_Rules
begin

text \<open>
  The memory pool (\<open>CTxMemPool\<close> in \<open>src/main.cpp\<close>): accepting a loose transaction, adding,
  removing and listing. \<open>mapNextTx\<close> files, under each output that a pool transaction
  spends, that transaction and the input; a pointer to an entry of \<open>mapTx\<close> is the
  entry's hash. The verdict on a proposal (\<open>CheckProposal\<close>) and that of the rate limiter for
  free transactions are parameters.
\<close>

subsection \<open>Outpoints are ordered\<close>

instantiation COutPoint_ext :: (linorder) linorder
begin

definition less_COutPoint_ext :: "'a COutPoint_scheme \<Rightarrow> 'a COutPoint_scheme \<Rightarrow> bool" where
  "a < b \<longleftrightarrow> op_hash a < op_hash b \<or>
     op_hash a = op_hash b \<and> (op_n a < op_n b \<or> op_n a = op_n b \<and> COutPoint.more a < COutPoint.more b)"

definition less_eq_COutPoint_ext :: "'a COutPoint_scheme \<Rightarrow> 'a COutPoint_scheme \<Rightarrow> bool" where
  "a \<le> b \<longleftrightarrow> a < b \<or> a = (b :: 'a COutPoint_scheme)"

instance
proof
  fix x y z :: "'a COutPoint_scheme"
  show "(x < y) = (x \<le> y \<and> \<not> y \<le> x)" "x \<le> x" "x \<le> y \<Longrightarrow> y \<le> z \<Longrightarrow> x \<le> z"
    "x \<le> y \<Longrightarrow> y \<le> x \<Longrightarrow> x = y" "x \<le> y \<or> y \<le> x"
    by (cases x; cases y; cases z; auto simp: less_COutPoint_ext_def less_eq_COutPoint_ext_def)+
qed

end

lemma COutPoint_less_order: "a < b \<longleftrightarrow> COutPoint_less a b"
  by (simp add: less_COutPoint_ext_def COutPoint_less_def)

subsection \<open>The pool\<close>

record mempool =
  mp_mapTx :: pooltx
  mp_mapNextTx :: "(COutPoint \<times> uint256 \<times> nat) list"
  mp_nTransactionsUpdated :: uint32

definition mp_exists :: "mempool \<Rightarrow> uint256 \<Rightarrow> bool" where
  "mp_exists mp hash \<longleftrightarrow> map_of (mp_mapTx mp) hash \<noteq> None"

definition mp_spent :: "mempool \<Rightarrow> COutPoint \<Rightarrow> bool" where
  "mp_spent mp outpoint \<longleftrightarrow> map_of (mp_mapNextTx mp) outpoint \<noteq> None"

fun add_next :: "uint256 \<Rightarrow> nat \<Rightarrow> CTxIn list \<Rightarrow> (COutPoint \<times> uint256 \<times> nat) list \<Rightarrow>
    (COutPoint \<times> uint256 \<times> nat) list" where
  "add_next hash i [] next = next"
| "add_next hash i (txin # rest) next = add_next hash (i + 1) rest (map_put (ti_prevout txin) (hash, i) next)"

definition addUnchecked :: "uint256 \<Rightarrow> CTransaction \<Rightarrow> mempool \<Rightarrow> mempool" where
  "addUnchecked hash tx mp =
     mp\<lparr>mp_mapTx := map_put hash tx (mp_mapTx mp),
        mp_mapNextTx := add_next hash 0 (tx_vin tx) (mp_mapNextTx mp),
        mp_nTransactionsUpdated := mp_nTransactionsUpdated mp + 1\<rparr>"

definition mp_remove :: "openssl \<Rightarrow> CTransaction \<Rightarrow> mempool \<Rightarrow> mempool" where
  "mp_remove E tx mp =
     (if mp_exists mp (GetHash E tx)
      then mp\<lparr>mp_mapNextTx := fold (\<lambda>txin. map_erase (ti_prevout txin)) (tx_vin tx) (mp_mapNextTx mp),
              mp_mapTx := map_erase (GetHash E tx) (mp_mapTx mp),
              mp_nTransactionsUpdated := mp_nTransactionsUpdated mp + 1\<rparr>
      else mp)"

definition mp_clear :: "mempool \<Rightarrow> mempool" where
  "mp_clear mp = mp\<lparr>mp_mapTx := [], mp_mapNextTx := [],
     mp_nTransactionsUpdated := mp_nTransactionsUpdated mp + 1\<rparr>"

definition queryHashes :: "mempool \<Rightarrow> uint256 list" where
  "queryHashes mp = map fst (mp_mapTx mp)"

subsection \<open>Accepting a transaction\<close>

text \<open>
  What the pool sees of the node: the chain behind the best block, the block files and the
  database, the limiter and the proposal manager.
\<close>

record 'k poolenv =
  pe_node :: "'k node"
  pe_nBestHeight :: int
  pe_pindexBest :: pindex
  pe_files :: blockfiles
  pe_db :: txdb
  pe_rate_limited :: "CTransaction \<Rightarrow> bool"
  pe_CheckProposal :: "CTransaction \<Rightarrow> bool"

text \<open>
  The outcome: the result (\<open>None\<close> where an exception leaves), \<open>*pfMissingInputs\<close>, the score
  added to the transaction, the pool and the signature cache.
\<close>

type_synonym accept_result = "bool option \<times> bool \<times> int \<times> mempool \<times> sigcache"

text \<open>The minimum fee, and the limiter for transactions below the relay fee.\<close>

definition fee_refused :: "'k poolenv \<Rightarrow> CTransaction \<Rightarrow> int64 \<Rightarrow> bool" where
  "fee_refused V tx nFees \<longleftrightarrow>
     sint nFees < GetMinFee tx 1000 False GMF_RELAY (word_of_nat (size_tx tx)) \<or>
     sint nFees < MIN_RELAY_TX_FEE \<and> pe_rate_limited V tx"

text \<open>The part under \<open>fCheckInputs\<close>: \<open>Inl\<close> is an early return.\<close>

definition accept_inputs ::
  "'k poolenv \<Rightarrow> CTransaction \<Rightarrow> mempool \<Rightarrow> sigcache \<Rightarrow> accept_result + sigcache" where
  "accept_inputs V tx mp c =
     (let N = pe_node V
      in case FetchInputs (pe_files V) (pe_db V) (mp_mapTx mp) [] False False [] tx of
           Inl (score, fInvalid) \<Rightarrow> Inl (Some False, \<not> fInvalid, score, mp, c)
         | Inr mapInputs \<Rightarrow>
             (case AreInputsStandard N tx mapInputs c of
                None \<Rightarrow> Inl (None, False, 0, mp, c)
              | Some (standard, c) \<Rightarrow>
                  if \<not> standard \<and> \<not> nd_fTestNet N then Inl (Some False, False, 0, mp, c)
                  else case (GetValueIn tx mapInputs, GetValueOut tx) of
                         (Some nValueIn, Some nValueOut) \<Rightarrow>
                           if fee_refused V tx (nValueIn - nValueOut)
                           then Inl (Some False, False, 0, mp, c)
                           else (case ConnectInputs N (pe_nBestHeight V) (pe_files V) (pe_db V) mapInputs []
                                           pos_in_memory (pe_pindexBest V) False False True tx c of
                                      (None, _, c) \<Rightarrow> Inl (None, False, 0, mp, c)
                                    | (Some (ok, score), _, c) \<Rightarrow>
                                        if ok then Inr c else Inl (Some False, False, score, mp, c))
                       | _ \<Rightarrow> Inl (None, False, 0, mp, c)))"

definition mp_accept ::
  "'k poolenv \<Rightarrow> bool \<Rightarrow> CTransaction \<Rightarrow> mempool \<Rightarrow> sigcache \<Rightarrow> accept_result" where
  "mp_accept V fCheckInputs tx mp c =
     (let N = pe_node V; hash = GetHash (nd_ssl N) tx; (ok, score) = CheckTransaction tx
      in if \<not> ok then (Some False, False, score, mp, c)
      else if IsCoinBase tx then (Some False, False, 100, mp, c)
      else if IsCoinStake tx then (Some False, False, 100, mp, c)
      else if 2 ^ 31 - 1 < uint (tx_nLockTime tx) then (Some False, False, 0, mp, c)
      else if \<not> nd_fTestNet N \<and> \<not> IsStandard tx then (Some False, False, 0, mp, c)
      else if mp_exists mp hash then (Some False, False, 0, mp, c)
      else if fCheckInputs \<and> ContainsTx (pe_db V) hash then (Some False, False, 0, mp, c)
      else if list_ex (\<lambda>txin. mp_spent mp (ti_prevout txin)) (tx_vin tx)
      then (Some False, False, 0, mp, c)
      else case (if fCheckInputs then accept_inputs V tx mp c else Inr c) of
             Inl r \<Rightarrow> r
           | Inr c \<Rightarrow>
               let mp = addUnchecked hash tx mp
               in (case IsProposal tx of
                     None \<Rightarrow> (None, False, 0, mp, c)
                   | Some proposal \<Rightarrow>
                       if proposal \<and> \<not> pe_CheckProposal V tx then (Some False, False, 0, mp, c)
                       else (Some True, False, 0, mp, c)))"

subsection \<open>The pool is consistent\<close>

text \<open>
  Entries are filed under their hash, and an output is marked as spent in the pool exactly
  when a pool transaction spends it, at the input recorded.
\<close>

definition spends :: "pooltx \<Rightarrow> COutPoint \<Rightarrow> uint256 \<Rightarrow> nat \<Rightarrow> bool" where
  "spends txs p h i \<longleftrightarrow>
     (\<exists>t. map_of txs h = Some t \<and> i < length (tx_vin t) \<and> ti_prevout (tx_vin t ! i) = p)"

definition pool_ok :: "openssl \<Rightarrow> mempool \<Rightarrow> bool" where
  "pool_ok E mp \<longleftrightarrow>
     (\<forall>h t. map_of (mp_mapTx mp) h = Some t \<longrightarrow> GetHash E t = h) \<and>
     (\<forall>p h i. map_of (mp_mapNextTx mp) p = Some (h, i) \<longleftrightarrow> spends (mp_mapTx mp) p h i)"

lemma add_next_lookup:
  assumes "distinct (map ti_prevout vin)"
  shows "map_of (add_next hash k vin next) p = Some e \<longleftrightarrow>
    (\<exists>i < length vin. ti_prevout (vin ! i) = p \<and> e = (hash, k + i)) \<or>
    p \<notin> ti_prevout ` set vin \<and> map_of next p = Some e"
  using assms
proof (induction vin arbitrary: k "next")
  case (Cons t vin)
  from Cons.prems have t: "ti_prevout t \<notin> ti_prevout ` set vin" by simp
  have "(\<exists>i < length (t # vin). ti_prevout ((t # vin) ! i) = p \<and> e = (hash, k + i)) \<longleftrightarrow>
      ti_prevout t = p \<and> e = (hash, k) \<or> (\<exists>i < length vin. ti_prevout (vin ! i) = p \<and> e = (hash, Suc k + i))"
    by (auto simp: less_Suc_eq_0_disj)
  moreover have "p \<notin> ti_prevout ` set vin" if "p = ti_prevout t" using that t by simp
  moreover have "\<not> (\<exists>i < length vin. ti_prevout (vin ! i) = ti_prevout t)"
    using t by (metis imageI nth_mem)
  ultimately show ?case using Cons by auto
qed simp

lemma pool_ok_clear: "pool_ok E (mp_clear mp)"
  by (simp add: pool_ok_def mp_clear_def spends_def)

lemma pool_ok_add:
  assumes "pool_ok E mp" "distinct (map ti_prevout (tx_vin tx))" "\<not> mp_exists mp (GetHash E tx)"
    and "list_all (\<lambda>t. \<not> mp_spent mp (ti_prevout t)) (tx_vin tx)"
  shows "pool_ok E (addUnchecked (GetHash E tx) tx mp)"
proof -
  have new: "spends (map_put (GetHash E tx) tx (mp_mapTx mp)) p h i \<longleftrightarrow>
      (if h = GetHash E tx then i < length (tx_vin tx) \<and> ti_prevout (tx_vin tx ! i) = p
       else spends (mp_mapTx mp) p h i)" for p h i
    by (simp add: spends_def)
  have old: "map_of (mp_mapNextTx mp) p = Some (h, i) \<Longrightarrow> h \<noteq> GetHash E tx" for p h i
    using assms(1,3) by (auto simp: pool_ok_def spends_def mp_exists_def)
  have free: "p \<in> ti_prevout ` set (tx_vin tx) \<Longrightarrow> map_of (mp_mapNextTx mp) p = None" for p
    using assms(4) by (cases "map_of (mp_mapNextTx mp) p") (auto simp: list_all_iff mp_spent_def)
  show ?thesis
    unfolding pool_ok_def
  proof (intro conjI allI)
    fix h t
    show "map_of (mp_mapTx (addUnchecked (GetHash E tx) tx mp)) h = Some t \<longrightarrow> GetHash E t = h"
      using assms(1) by (simp add: addUnchecked_def pool_ok_def)
  next
    fix p h i
    have "map_of (mp_mapNextTx mp) p = Some (h, i) \<longleftrightarrow> spends (mp_mapTx mp) p h i"
      using assms(1) by (simp add: pool_ok_def)
    then show "map_of (mp_mapNextTx (addUnchecked (GetHash E tx) tx mp)) p = Some (h, i) \<longleftrightarrow>
        spends (mp_mapTx (addUnchecked (GetHash E tx) tx mp)) p h i"
      using old [of p h i] free [of p]
      by (auto simp: addUnchecked_def new add_next_lookup [OF assms(2)])
  qed
qed

lemma map_of_fold_erase:
  "map_of (fold (\<lambda>t. map_erase (ti_prevout t)) vin m) p =
     (if p \<in> ti_prevout ` set vin then None else map_of m p)"
  by (induction vin arbitrary: m) auto

lemma pool_ok_remove:
  assumes "pool_ok E mp"
    and "\<And>t. map_of (mp_mapTx mp) (GetHash E tx) = Some t \<Longrightarrow> tx_vin t = tx_vin tx"
  shows "pool_ok E (mp_remove E tx mp)"
proof (cases "map_of (mp_mapTx mp) (GetHash E tx)")
  case None
  with assms(1) show ?thesis by (simp add: mp_remove_def mp_exists_def)
next
  case (Some t)
  with assms(2) have vin: "tx_vin t = tx_vin tx" by simp
  have "p \<in> ti_prevout ` set (tx_vin tx) \<longleftrightarrow> (\<exists>i. spends (mp_mapTx mp) p (GetHash E tx) i)" for p
    by (auto simp: spends_def Some vin in_set_conv_nth image_iff) (metis nth_mem)
  moreover have "spends (map_erase (GetHash E tx) (mp_mapTx mp)) p h i \<longleftrightarrow>
      h \<noteq> GetHash E tx \<and> spends (mp_mapTx mp) p h i" for p h i
    by (simp add: spends_def)
  ultimately show ?thesis
    using assms(1) Some
    by (auto simp: pool_ok_def mp_remove_def mp_exists_def map_of_fold_erase) (metis option.inject prod.inject)
qed

subsection \<open>Every pool is consistent\<close>

lemma mp_accept_result:
  assumes "mp_accept V f tx mp c = (r, missing, score, mp', c')"
  shows "mp' = mp \<and> r \<noteq> Some True \<or>
    mp' = addUnchecked (GetHash (nd_ssl (pe_node V)) tx) tx mp \<and>
    fst (CheckTransaction tx) \<and> \<not> mp_exists mp (GetHash (nd_ssl (pe_node V)) tx) \<and>
    list_all (\<lambda>t. \<not> mp_spent mp (ti_prevout t)) (tx_vin tx) \<and>
    (r = Some True \<or> (r = Some False \<and> IsProposal tx = Some True \<and> \<not> pe_CheckProposal V tx) \<or>
     r = None \<and> IsProposal tx = None)"
proof -
  have inl: "accept_inputs V tx mp c = Inl (r, missing, score, mp', c') \<Longrightarrow> mp' = mp \<and> r \<noteq> Some True"
    for r missing score mp' c'
    by (auto simp: accept_inputs_def Let_def split: sum.splits prod.splits option.splits if_splits)
  show ?thesis
    using assms
    by (auto simp: mp_accept_def Let_def list_ex_iff list_all_iff dest!: inl
        split: prod.splits if_splits sum.splits option.splits)
qed

text \<open>The states of a node's pool that its operations reach from the empty pool.\<close>

inductive pool_reach :: "'k node \<Rightarrow> mempool \<Rightarrow> bool" for N :: "'k node" where
  start: "pool_reach N \<lparr>mp_mapTx = [], mp_mapNextTx = [], mp_nTransactionsUpdated = n\<rparr>"
| accept: "pool_reach N mp \<Longrightarrow> pe_node V = N \<Longrightarrow> mp_accept V f tx mp c = (r, m, score, mp', c') \<Longrightarrow>
    pool_reach N mp'"
| remove: "pool_reach N mp \<Longrightarrow>
    (\<And>t. map_of (mp_mapTx mp) (GetHash (nd_ssl N) tx) = Some t \<Longrightarrow> tx_vin t = tx_vin tx) \<Longrightarrow>
    pool_reach N (mp_remove (nd_ssl N) tx mp)"
| clear: "pool_reach N mp \<Longrightarrow> pool_reach N (mp_clear mp)"

lemma CheckTransaction_distinct: "fst (CheckTransaction tx) \<Longrightarrow> distinct (map ti_prevout (tx_vin tx))"
  by (erule CheckTransaction_cases)

lemma pool_reach_ok: "pool_reach N mp \<Longrightarrow> pool_ok (nd_ssl N) mp"
proof (induction rule: pool_reach.induct)
  case (start n)
  show ?case by (simp add: pool_ok_def spends_def)
next
  case (accept mp V f tx c r m score mp' c')
  then show ?case
    using mp_accept_result [OF accept.hyps(3)] by (auto intro: pool_ok_add CheckTransaction_distinct)
next
  case (remove mp tx)
  then show ?case by (intro pool_ok_remove)
next
  case (clear mp)
  show ?case by (rule pool_ok_clear)
qed

text \<open>C16: In every reachable state of the memory pool the entries are filed under their own
  hash, the table of spent outputs says exactly which pool transaction spends which output
  at which input, and no output is spent twice.\<close>

theorem mempool_consistent:
  assumes "pool_reach N mp"
  shows "(\<forall>h t. map_of (mp_mapTx mp) h = Some t \<longrightarrow> GetHash (nd_ssl N) t = h) \<and>
    (\<forall>p h i. map_of (mp_mapNextTx mp) p = Some (h, i) \<longleftrightarrow> spends (mp_mapTx mp) p h i) \<and>
    (\<forall>p h i h' i'. spends (mp_mapTx mp) p h i \<longrightarrow> spends (mp_mapTx mp) p h' i' \<longrightarrow> h = h' \<and> i = i')"
  using pool_reach_ok [OF assms] by (auto simp: pool_ok_def) (metis option.inject prod.inject)+

text \<open>C40: The pool changes only by taking the transaction in, and it takes in a transaction it
  rejects in one case: a proposal that the proposal manager refuses stays in the pool.\<close>

theorem mp_accept_changes:
  assumes "mp_accept V f tx mp c = (Some False, missing, score, mp', c')"
  shows "mp' = mp \<or> IsProposal tx = Some True \<and> \<not> pe_CheckProposal V tx \<and>
    mp_exists mp' (GetHash (nd_ssl (pe_node V)) tx)"
  using mp_accept_result [OF assms] by (auto simp: addUnchecked_def mp_exists_def)

subsection \<open>Fees\<close>

lemma GetMinFee_ge: "MIN_TX_FEE \<le> GetMinFee tx s a m n"
  by (auto simp: GetMinFee_def Let_def MIN_TX_FEE_def MAX_MONEY_def COIN_def max_def)

text \<open>The limiter for free transactions is dead code: since the minimum fee is never below
  the fee that exempts from it, its verdict does not matter.\<close>

theorem mp_accept_no_free_transactions:
  "mp_accept (V\<lparr>pe_rate_limited := g\<rparr>) f tx mp c = mp_accept V f tx mp c"
proof -
  have "fee_refused (V\<lparr>pe_rate_limited := g\<rparr>) tx n = fee_refused V tx n" for n
    using GetMinFee_ge [of tx 1000 False GMF_RELAY "word_of_nat (size_tx tx)"]
    by (auto simp: fee_refused_def money_defs)
  then have "accept_inputs (V\<lparr>pe_rate_limited := g\<rparr>) tx mp c = accept_inputs V tx mp c"
    by (simp add: accept_inputs_def Let_def split: sum.split option.split prod.split)
  then show ?thesis by (simp add: mp_accept_def Let_def split: sum.split option.split prod.split)
qed

end
