(* ===== verification/Orphan_Tx.thy ===== *)
theory Orphan_Tx
  imports Mempool
begin

text \<open>
  Transactions whose parents are unknown (\<open>mapOrphanTransactions\<close> in \<open>src/main.cpp\<close>): they are
  kept as the message that carried them, under their hash and under the hash of every
  transaction they spend from, and evicted at random when there are too many. A message
  is the bytes of its stream; \<open>None\<close> is an exception of the reader.
\<close>

record orphans =
  or_mapOrphanTransactions :: "(uint256 \<times> byte list) list"
  or_mapByPrev :: "(uint256 \<times> (uint256 \<times> byte list) list) list"

definition MAX_ORPHAN_TRANSACTIONS :: nat where
  "MAX_ORPHAN_TRANSACTIONS = MAX_BLOCK_SIZE div 100"

definition no_orphans :: orphans where
  "no_orphans = \<lparr>or_mapOrphanTransactions = [], or_mapByPrev = []\<rparr>"

text \<open>\<open>operator[]\<close> creates a missing entry.\<close>

definition map_at :: "'a \<Rightarrow> ('a \<times> ('b \<times> 'c) list) list \<Rightarrow> ('b \<times> 'c) list" where
  "map_at k m = (case map_of m k of None \<Rightarrow> [] | Some v \<Rightarrow> v)"

definition add_by_prev :: "uint256 \<Rightarrow> byte list \<Rightarrow> CTxIn \<Rightarrow> (uint256 \<times> (uint256 \<times> byte list) list) list \<Rightarrow>
    (uint256 \<times> (uint256 \<times> byte list) list) list" where
  "add_by_prev hash msg txin m =
     map_put (op_hash (ti_prevout txin)) (map_insert hash msg (map_at (op_hash (ti_prevout txin)) m)) m"

definition AddOrphanTx :: "openssl \<Rightarrow> byte list \<Rightarrow> orphans \<Rightarrow> (bool \<times> orphans) option" where
  "AddOrphanTx E vMsg ob =
     (case unser_tx vMsg of
        None \<Rightarrow> None
      | Some (tx, _) \<Rightarrow>
          let hash = GetHash E tx
          in if map_of (or_mapOrphanTransactions ob) hash \<noteq> None then Some (False, ob)
             else if 5000 < length vMsg then Some (False, ob)
             else Some (True, ob\<lparr>or_mapOrphanTransactions := map_put hash vMsg (or_mapOrphanTransactions ob),
                    or_mapByPrev := fold (add_by_prev hash vMsg) (tx_vin tx) (or_mapByPrev ob)\<rparr>))"

definition erase_by_prev :: "uint256 \<Rightarrow> CTxIn \<Rightarrow> (uint256 \<times> (uint256 \<times> byte list) list) list \<Rightarrow>
    (uint256 \<times> (uint256 \<times> byte list) list) list" where
  "erase_by_prev hash txin m =
     (let prev = op_hash (ti_prevout txin);
          m = map_put prev (map_erase hash (map_at prev m)) m
      in if map_at prev m = [] then map_erase prev m else m)"

definition EraseOrphanTx :: "uint256 \<Rightarrow> orphans \<Rightarrow> orphans option" where
  "EraseOrphanTx hash ob =
     (case map_of (or_mapOrphanTransactions ob) hash of
        None \<Rightarrow> Some ob
      | Some pvMsg \<Rightarrow>
          (case unser_tx pvMsg of
             None \<Rightarrow> None
           | Some (tx, _) \<Rightarrow>
               Some (ob\<lparr>or_mapByPrev := fold (erase_by_prev hash) (tx_vin tx) (or_mapByPrev ob),
                       or_mapOrphanTransactions := map_erase hash (or_mapOrphanTransactions ob)\<rparr>)))"

text \<open>The entry at or after a random hash, or the first one.\<close>

definition random_orphan :: "uint256 \<Rightarrow> orphans \<Rightarrow> uint256" where
  "random_orphan randomhash ob =
     (case List.find (\<lambda>(h, _). randomhash \<le> h) (or_mapOrphanTransactions ob) of
        Some (h, _) \<Rightarrow> h
      | None \<Rightarrow> fst (hd (or_mapOrphanTransactions ob)))"

lemma random_orphan_in:
  assumes "or_mapOrphanTransactions ob \<noteq> []"
  shows "random_orphan r ob \<in> fst ` set (or_mapOrphanTransactions ob)"
proof (cases "List.find (\<lambda>(h, _). r \<le> h) (or_mapOrphanTransactions ob)")
  case None
  with assms show ?thesis by (simp add: random_orphan_def)
next
  case (Some e)
  then have "e \<in> set (or_mapOrphanTransactions ob)" by (metis find_Some_iff nth_mem)
  with Some show ?thesis by (cases e) (force simp: random_orphan_def)
qed

lemma length_map_erase: "k \<in> fst ` set m \<Longrightarrow> length (map_erase k m) < length m"
  by (auto simp: map_erase_def intro: length_filter_less)

lemma EraseOrphanTx_length:
  assumes "EraseOrphanTx h ob = Some ob'" "h \<in> fst ` set (or_mapOrphanTransactions ob)"
  shows "length (or_mapOrphanTransactions ob') < length (or_mapOrphanTransactions ob)"
proof -
  from assms(2) have "map_of (or_mapOrphanTransactions ob) h \<noteq> None" by (simp add: map_of_eq_None_iff)
  with assms show ?thesis
    by (auto simp: EraseOrphanTx_def length_map_erase [OF assms(2)] split: option.splits)
qed

function limit_loop ::
  "(nat \<Rightarrow> uint256) \<Rightarrow> nat \<Rightarrow> orphans \<Rightarrow> nat \<Rightarrow> nat \<Rightarrow> (nat \<times> orphans \<times> nat) option" where
  "limit_loop GetRandHash nMaxOrphans ob draws nEvicted =
     (if nMaxOrphans < length (or_mapOrphanTransactions ob)
      then (case EraseOrphanTx (random_orphan (GetRandHash draws) ob) ob of
              None \<Rightarrow> None
            | Some ob' \<Rightarrow> limit_loop GetRandHash nMaxOrphans ob' (draws + 1) (nEvicted + 1))
      else Some (nEvicted, ob, draws))"
  by pat_completeness auto
termination
proof (relation "measure (\<lambda>(g, m, ob, d, e). length (or_mapOrphanTransactions ob))")
  fix g :: "nat \<Rightarrow> uint256" and m :: nat and ob ob' :: orphans and d e :: nat
  assume "m < length (or_mapOrphanTransactions ob)" "EraseOrphanTx (random_orphan (g d) ob) ob = Some ob'"
  then show "((g, m, ob', d + 1, e + 1), (g, m, ob, d, e)) \<in> measure (\<lambda>(g, m, ob, d, e). length (or_mapOrphanTransactions ob))"
    using EraseOrphanTx_length random_orphan_in [of ob "g d"] by fastforce
qed simp

declare limit_loop.simps [simp del]

definition LimitOrphanTxSize :: "(nat \<Rightarrow> uint256) \<Rightarrow> nat \<Rightarrow> orphans \<Rightarrow> nat \<Rightarrow> (nat \<times> orphans \<times> nat) option" where
  "LimitOrphanTxSize GetRandHash nMaxOrphans ob draws = limit_loop GetRandHash nMaxOrphans ob draws 0"

subsection \<open>The two tables agree\<close>

definition msg_prevs :: "byte list \<Rightarrow> uint256 set" where
  "msg_prevs msg =
     (case unser_tx msg of None \<Rightarrow> {} | Some (tx, _) \<Rightarrow> op_hash ` ti_prevout ` set (tx_vin tx))"

definition orphans_ok :: "openssl \<Rightarrow> orphans \<Rightarrow> bool" where
  "orphans_ok E ob \<longleftrightarrow> sorted_wrt (<) (map fst (or_mapOrphanTransactions ob)) \<and>
     (\<forall>h m. map_of (or_mapOrphanTransactions ob) h = Some m \<longrightarrow>
        length m \<le> 5000 \<and> (\<exists>tx r. unser_tx m = Some (tx, r) \<and> GetHash E tx = h)) \<and>
     (\<forall>prev h m. map_of (map_at prev (or_mapByPrev ob)) h = Some m \<longleftrightarrow>
        map_of (or_mapOrphanTransactions ob) h = Some m \<and> prev \<in> msg_prevs m)"

definition no_empty_parents :: "orphans \<Rightarrow> bool" where
  "no_empty_parents ob \<longleftrightarrow> (\<forall>prev. map_of (or_mapByPrev ob) prev \<noteq> Some [])"

lemma map_at_put: "map_at k (map_put k' v m) = (if k = k' then v else map_at k m)"
  by (simp add: map_at_def)

lemma map_at_erase: "map_at k (map_erase k' m) = (if k = k' then [] else map_at k m)"
  by (simp add: map_at_def)

lemma add_by_prev_lookup:
  assumes "\<And>prev. map_of (map_at prev m) h = None"
  shows "map_of (map_at prev (fold (add_by_prev h msg) vin m)) k =
    (if prev \<in> op_hash ` ti_prevout ` set vin \<and> k = h then Some msg else map_of (map_at prev m) k)"
proof -
  have "map_of (map_at prev (fold (add_by_prev h msg) vin m)) k =
      (if prev \<in> op_hash ` ti_prevout ` set vin \<and> k = h then Some msg else map_of (map_at prev m) k)"
    if "\<forall>prev. map_of (map_at prev m) h \<in> {None, Some msg}" for m
    using that
  proof (induction vin arbitrary: m)
    case (Cons t vin)
    have one: "map_of (map_at prev (add_by_prev h msg t m)) k =
        (if prev = op_hash (ti_prevout t) \<and> k = h then Some msg else map_of (map_at prev m) k)" for prev k
    proof -
      from Cons.prems have "map_of (map_at (op_hash (ti_prevout t)) m) h = None \<or>
        map_of (map_at (op_hash (ti_prevout t)) m) h = Some msg" by auto
      then show ?thesis by (auto simp: add_by_prev_def map_at_put map_of_insert)
    qed
    with Cons.prems have "\<forall>prev. map_of (map_at prev (add_by_prev h msg t m)) h \<in> {None, Some msg}"
      by simp
    from Cons.IH [OF this] one show ?case by auto
  qed simp
  with assms show ?thesis by simp
qed

lemma erase_by_prev_lookup:
  "map_of (map_at prev (fold (erase_by_prev h) vin m)) k =
    (if prev \<in> op_hash ` ti_prevout ` set vin \<and> k = h then None else map_of (map_at prev m) k)"
proof (induction vin arbitrary: m)
  case (Cons t vin)
  have "map_of (map_at prev (erase_by_prev h t m)) k =
      (if prev = op_hash (ti_prevout t) \<and> k = h then None else map_of (map_at prev m) k)"
    by (auto simp: erase_by_prev_def Let_def map_at_put map_at_erase dest: arg_cong [of _ "[]" map_of])
      (metis fun_upd_other map_of.simps(1) map_of_erase)
  with Cons show ?case by auto
qed simp

lemma add_by_prev_nonempty:
  "\<forall>prev. map_of m prev \<noteq> Some [] \<Longrightarrow> map_of (fold (add_by_prev h msg) vin m) prev \<noteq> Some []"
  by (induction vin arbitrary: m) (simp_all add: add_by_prev_def)

lemma erase_by_prev_nonempty:
  "\<forall>prev. map_of m prev \<noteq> Some [] \<Longrightarrow> map_of (fold (erase_by_prev h) vin m) prev \<noteq> Some []"
  by (induction vin arbitrary: m) (simp_all add: erase_by_prev_def Let_def map_at_put)

lemma no_empty_add: "no_empty_parents ob \<Longrightarrow> AddOrphanTx E msg ob = Some (b, ob') \<Longrightarrow> no_empty_parents ob'"
  using add_by_prev_nonempty
  by (auto simp: AddOrphanTx_def Let_def no_empty_parents_def split: option.splits if_splits)

lemma no_empty_erase: "no_empty_parents ob \<Longrightarrow> EraseOrphanTx h ob = Some ob' \<Longrightarrow> no_empty_parents ob'"
  using erase_by_prev_nonempty
  by (auto simp: EraseOrphanTx_def no_empty_parents_def split: option.splits)

lemma no_empty_limit:
  "limit_loop g n ob d k = Some (k', ob', d') \<Longrightarrow> no_empty_parents ob \<Longrightarrow> no_empty_parents ob'"
proof (induction g n ob d k rule: limit_loop.induct)
  case (1 g n ob d k)
  show ?case
  proof (cases "n < length (or_mapOrphanTransactions ob)")
    case True
    with "1.prems"(1) obtain ob1 where e: "EraseOrphanTx (random_orphan (g d) ob) ob = Some ob1"
      and l: "limit_loop g n ob1 (d + 1) (k + 1) = Some (k', ob', d')"
      by (subst (asm) limit_loop.simps) (auto split: option.splits)
    from "1.IH" [OF True e l no_empty_erase [OF "1.prems"(2) e]] show ?thesis .
  next
    case False
    with "1.prems" show ?thesis by (subst (asm) limit_loop.simps) auto
  qed
qed

lemma orphans_ok_add:
  assumes "orphans_ok E ob" and "AddOrphanTx E msg ob = Some (b, ob')" shows "orphans_ok E ob'"
proof -
  from assms(2) obtain tx r where u: "unser_tx msg = Some (tx, r)" by (auto simp: AddOrphanTx_def split: option.splits)
  define h where "h = GetHash E tx"
  consider "ob' = ob" |
    (new) "map_of (or_mapOrphanTransactions ob) h = None" "length msg \<le> 5000"
      "ob' = ob\<lparr>or_mapOrphanTransactions := map_put h msg (or_mapOrphanTransactions ob),
         or_mapByPrev := fold (add_by_prev h msg) (tx_vin tx) (or_mapByPrev ob)\<rparr>"
    using assms(2) u by (auto simp: AddOrphanTx_def Let_def h_def split: if_splits)
  then show ?thesis
  proof cases
    case new
    then have "map_of (map_at prev (or_mapByPrev ob)) h = None" for prev
      using assms(1) by (cases "map_of (map_at prev (or_mapByPrev ob)) h") (auto simp: orphans_ok_def)
    note l = add_by_prev_lookup [OF this]
    show ?thesis
      unfolding orphans_ok_def
    proof (intro conjI allI)
      show "sorted_wrt (<) (map fst (or_mapOrphanTransactions ob'))"
        using assms(1) new by (simp add: orphans_ok_def sorted_map_put)
    next
      fix h' m
      show "map_of (or_mapOrphanTransactions ob') h' = Some m \<longrightarrow>
        length m \<le> 5000 \<and> (\<exists>tx r. unser_tx m = Some (tx, r) \<and> GetHash E tx = h')"
        using assms(1) new u by (auto simp: orphans_ok_def h_def)
    next
      fix prev h' m
      show "map_of (map_at prev (or_mapByPrev ob')) h' = Some m \<longleftrightarrow>
        map_of (or_mapOrphanTransactions ob') h' = Some m \<and> prev \<in> msg_prevs m"
        using assms(1) new u by (auto simp: orphans_ok_def l msg_prevs_def)
    qed
  qed (use assms(1) in simp)
qed

lemma orphans_ok_erase:
  assumes "orphans_ok E ob"
  shows "\<exists>ob'. EraseOrphanTx h ob = Some ob' \<and> orphans_ok E ob' \<and>
    map_of (or_mapOrphanTransactions ob') = (map_of (or_mapOrphanTransactions ob))(h := None)"
proof (cases "map_of (or_mapOrphanTransactions ob) h")
  case None
  with assms show ?thesis by (auto simp: EraseOrphanTx_def)
next
  case (Some msg)
  with assms obtain tx r where u: "unser_tx msg = Some (tx, r)" unfolding orphans_ok_def by blast
  have p: "msg_prevs msg = op_hash ` ti_prevout ` set (tx_vin tx)" by (simp add: msg_prevs_def u)
  have byh: "map_of (map_at prev (or_mapByPrev ob)) h = Some m \<Longrightarrow> m = msg \<and> prev \<in> msg_prevs msg" for prev m
    using assms Some by (auto simp: orphans_ok_def)
  define ob' where "ob' = ob\<lparr>or_mapByPrev := fold (erase_by_prev h) (tx_vin tx) (or_mapByPrev ob),
    or_mapOrphanTransactions := map_erase h (or_mapOrphanTransactions ob)\<rparr>"
  have "orphans_ok E ob'"
    unfolding orphans_ok_def
  proof (intro conjI allI)
    fix prev h' m
    show "map_of (map_at prev (or_mapByPrev ob')) h' = Some m \<longleftrightarrow>
      map_of (or_mapOrphanTransactions ob') h' = Some m \<and> prev \<in> msg_prevs m"
    proof (cases "h' = h")
      case True
      then show ?thesis using byh [of prev m] by (auto simp: ob'_def erase_by_prev_lookup p)
    next
      case False
      then show ?thesis using assms by (simp add: ob'_def erase_by_prev_lookup orphans_ok_def)
    qed
  qed (use assms in \<open>auto simp: ob'_def orphans_ok_def sorted_map_erase split: if_splits\<close>)
  then show ?thesis using Some u by (auto simp: EraseOrphanTx_def ob'_def)
qed

lemma length_map_erase_1:
  assumes "distinct (map fst m)" "k \<in> fst ` set m" shows "Suc (length (map_erase k m)) = length m"
  using assms
proof (induction m)
  case (Cons e m)
  show ?case
  proof (cases "fst e = k")
    case True
    with Cons.prems(1) have "\<forall>p \<in> set m. fst p \<noteq> k"
      by (metis distinct.simps(2) image_eqI list.simps(9) set_map)
    then have "map_erase k m = m" by (simp add: map_erase_def)
    with True show ?thesis by (simp add: map_erase_def)
  next
    case False
    with Cons show ?thesis by (simp add: map_erase_def)
  qed
qed simp

lemma EraseOrphanTx_one:
  assumes "orphans_ok E ob" "h \<in> fst ` set (or_mapOrphanTransactions ob)" "EraseOrphanTx h ob = Some ob'"
  shows "Suc (length (or_mapOrphanTransactions ob')) = length (or_mapOrphanTransactions ob)"
proof -
  from assms(2) have "map_of (or_mapOrphanTransactions ob) h \<noteq> None" by (simp add: map_of_eq_None_iff)
  then have "or_mapOrphanTransactions ob' = map_erase h (or_mapOrphanTransactions ob)"
    using assms(3) by (auto simp: EraseOrphanTx_def split: option.splits)
  moreover have "distinct (map fst (or_mapOrphanTransactions ob))"
    using assms(1) by (simp add: orphans_ok_def strict_sorted_iff)
  ultimately show ?thesis using length_map_erase_1 [OF _ assms(2)] by simp
qed

lemma limit_loop_ok:
  assumes "orphans_ok E ob"
  shows "\<exists>ob' d'. limit_loop g n ob d k = Some (k + (length (or_mapOrphanTransactions ob) - n), ob', d') \<and>
    orphans_ok E ob' \<and> length (or_mapOrphanTransactions ob') = min n (length (or_mapOrphanTransactions ob))"
  using assms
proof (induction g n ob d k rule: limit_loop.induct)
  case (1 g n ob d k)
  show ?case
  proof (cases "n < length (or_mapOrphanTransactions ob)")
    case True
    then have r: "random_orphan (g d) ob \<in> fst ` set (or_mapOrphanTransactions ob)"
      by (intro random_orphan_in) auto
    from orphans_ok_erase [OF "1.prems"] obtain ob1 where
      e: "EraseOrphanTx (random_orphan (g d) ob) ob = Some ob1" "orphans_ok E ob1" by blast
    have l: "Suc (length (or_mapOrphanTransactions ob1)) = length (or_mapOrphanTransactions ob)"
      by (rule EraseOrphanTx_one [OF "1.prems" r e(1)])
    from "1.IH" [OF True e] l True show ?thesis
      by (subst limit_loop.simps) (simp add: e(1), fastforce)
  next
    case False
    with "1.prems" show ?thesis by (subst limit_loop.simps) auto
  qed
qed

inductive orphans_reach :: "openssl \<Rightarrow> orphans \<Rightarrow> bool" for E :: openssl where
  start: "orphans_reach E no_orphans"
| add: "orphans_reach E ob \<Longrightarrow> AddOrphanTx E msg ob = Some (b, ob') \<Longrightarrow> orphans_reach E ob'"
| erase: "orphans_reach E ob \<Longrightarrow> EraseOrphanTx h ob = Some ob' \<Longrightarrow> orphans_reach E ob'"
| limit: "orphans_reach E ob \<Longrightarrow> LimitOrphanTxSize g n ob d = Some (k, ob', d') \<Longrightarrow> orphans_reach E ob'"

lemma orphans_reach_ok: "orphans_reach E ob \<Longrightarrow> orphans_ok E ob \<and> no_empty_parents ob"
proof (induction rule: orphans_reach.induct)
  case start
  show ?case by (simp add: orphans_ok_def no_empty_parents_def no_orphans_def map_at_def)
next
  case (add ob msg b ob')
  then show ?case by (blast intro: orphans_ok_add no_empty_add)
next
  case (erase ob h ob')
  then show ?case using orphans_ok_erase [of E ob h] no_empty_erase by auto
next
  case (limit ob g n d k ob' d')
  then show ?case using limit_loop_ok [of E ob g n d 0] no_empty_limit [of g n ob d 0]
    by (auto simp: LimitOrphanTxSize_def)
qed

text \<open>The two tables of orphans agree in every reachable state: an orphan is filed under a
  parent's hash exactly when it is stored and spends from that parent, and no parent keeps
  an empty table. Every stored message is the transaction of its hash.\<close>

theorem orphans_consistent:
  assumes "orphans_reach E ob"
  shows "(\<forall>prev h m. map_of (map_at prev (or_mapByPrev ob)) h = Some m \<longleftrightarrow>
       map_of (or_mapOrphanTransactions ob) h = Some m \<and> prev \<in> msg_prevs m) \<and>
    (\<forall>prev. map_of (or_mapByPrev ob) prev \<noteq> Some []) \<and>
    (\<forall>h m. map_of (or_mapOrphanTransactions ob) h = Some m \<longrightarrow>
       (\<exists>tx r. unser_tx m = Some (tx, r) \<and> GetHash E tx = h))"
  using orphans_reach_ok [OF assms] unfolding orphans_ok_def no_empty_parents_def by blast

text \<open>C39: Limiting the orphans ends, throws nothing, evicts exactly the surplus, and bounds the
  memory they take: at most 5000 bytes for each of the orphans allowed.\<close>

theorem LimitOrphanTxSize_bound:
  assumes "orphans_reach E ob"
  shows "\<exists>ob' d'. LimitOrphanTxSize g n ob d = Some (length (or_mapOrphanTransactions ob) - n, ob', d') \<and>
    length (or_mapOrphanTransactions ob') \<le> n \<and>
    sum_list (map (length \<circ> snd) (or_mapOrphanTransactions ob')) \<le> 5000 * n"
proof -
  from limit_loop_ok [OF conjunct1 [OF orphans_reach_ok [OF assms]], of g n d 0] obtain ob' d' where
    l: "LimitOrphanTxSize g n ob d = Some (length (or_mapOrphanTransactions ob) - n, ob', d')"
    and ok: "orphans_ok E ob'" and n: "length (or_mapOrphanTransactions ob') \<le> n"
    by (auto simp: LimitOrphanTxSize_def)
  have "length m \<le> 5000" if "(h, m) \<in> set (or_mapOrphanTransactions ob')" for h m
    using that ok by (auto simp: orphans_ok_def strict_sorted_iff)
  then have "sum_list (map (length \<circ> snd) (or_mapOrphanTransactions ob')) \<le>
      sum_list (map (\<lambda>_. 5000) (or_mapOrphanTransactions ob'))"
    by (intro sum_list_mono) auto
  also have "\<dots> \<le> 5000 * n" using n by (simp add: sum_list_triv)
  finally show ?thesis using l n by blast
qed

end
