(* ===== verification/Tx_Message.thy ===== *)
theory Tx_Message
  imports Orphan_Tx
begin

text \<open>
  The handler of a \<open>tx\<close> message (\<open>ProcessMessage\<close> in \<open>src/main.cpp\<close>): the transaction goes to
  the memory pool; when it is accepted, the orphans that waited for it are tried in turn,
  and theirs after them; when its inputs are missing it becomes an orphan. What is sent to
  other peers is the list of hashes relayed. \<open>None\<close> is an exception.
\<close>

record tx_state =
  ts_pool :: mempool
  ts_orphans :: orphans
  ts_cache :: sigcache
  ts_relayed :: "uint256 list"
  ts_draws :: nat

text \<open>
  One pass over the orphans filed under a hash. The result holds the hashes that go to the
  work queue and those that go to the erase queue.
\<close>

fun try_orphans ::
  "'k poolenv \<Rightarrow> (uint256 \<times> byte list) list \<Rightarrow> tx_state \<Rightarrow> (uint256 list \<times> uint256 list \<times> tx_state) option" where
  "try_orphans V [] st = Some ([], [], st)"
| "try_orphans V ((_, vMsg) # rest) st =
     (case unser_tx vMsg of
        None \<Rightarrow> None
      | Some (tx, _) \<Rightarrow>
          let hash = GetHash (nd_ssl (pe_node V)) tx;
              (r, fMissingInputs2, _, pool, c) = mp_accept V True tx (ts_pool st) (ts_cache st);
              st = st\<lparr>ts_pool := pool, ts_cache := c\<rparr>
          in case r of
               None \<Rightarrow> None
             | Some True \<Rightarrow>
                 map_option (\<lambda>(work, erased, st). (hash # work, hash # erased, st))
                   (try_orphans V rest (st\<lparr>ts_relayed := ts_relayed st @ [hash]\<rparr>))
             | Some False \<Rightarrow>
                 map_option (\<lambda>(work, erased, st). (work, if fMissingInputs2 then erased else hash # erased, st))
                   (try_orphans V rest st))"

text \<open>\<open>operator[]\<close> on the table of parents leaves an empty entry for a hash nobody waits for.\<close>

definition touch_by_prev :: "uint256 \<Rightarrow> orphans \<Rightarrow> orphans" where
  "touch_by_prev hash ob =
     (if map_of (or_mapByPrev ob) hash = None
      then ob\<lparr>or_mapByPrev := map_put hash [] (or_mapByPrev ob)\<rparr> else ob)"

definition message_hashes :: "openssl \<Rightarrow> orphans \<Rightarrow> uint256 set" where
  "message_hashes E ob = (\<lambda>m. case unser_tx m of None \<Rightarrow> 0 | Some (tx, _) \<Rightarrow> GetHash E tx) `
     (\<Union>(prev, ms) \<in> set (or_mapByPrev ob). snd ` set ms)"

lemma finite_message_hashes [simp]: "finite (message_hashes E ob)"
  by (auto simp: message_hashes_def)

lemma set_map_put_new: "map_of m k = None \<Longrightarrow> set (map_put k v m) = insert (k, v) (set m)"
  by (induction m) (auto split: if_splits)

lemma touch_message_hashes [simp]: "message_hashes E (touch_by_prev h ob) = message_hashes E ob"
  by (simp add: touch_by_prev_def message_hashes_def set_map_put_new)

lemma mp_accept_dom:
  assumes "mp_accept V f tx mp c = (r, m, score, mp', c')"
  shows "dom (map_of (mp_mapTx mp)) \<subseteq> dom (map_of (mp_mapTx mp'))"
    and "r = Some True \<Longrightarrow> GetHash (nd_ssl (pe_node V)) tx \<in> dom (map_of (mp_mapTx mp')) - dom (map_of (mp_mapTx mp))"
  using mp_accept_result [OF assms] by (auto simp: addUnchecked_def mp_exists_def split: if_splits)

lemma try_orphans_step:
  assumes "try_orphans V ((k, vMsg) # ms) st = Some (work, erased, st')"
  obtains tx r miss score pool c b work1 erased1 st1
  where "unser_tx vMsg = Some (tx, r)"
    and "mp_accept V True tx (ts_pool st) (ts_cache st) = (Some b, miss, score, pool, c)"
    and "try_orphans V ms st1 = Some (work1, erased1, st')"
    and "ts_pool st1 = pool" "ts_orphans st1 = ts_orphans st"
    and "work = (if b then GetHash (nd_ssl (pe_node V)) tx # work1 else work1)"
proof -
  from assms obtain tx r where u: "unser_tx vMsg = Some (tx, r)" by (auto split: option.splits)
  obtain b miss score pool c where a: "mp_accept V True tx (ts_pool st) (ts_cache st) = (b, miss, score, pool, c)"
    by (metis prod_cases5)
  from assms obtain b' where b: "b = Some b'" by (cases b) (auto simp: u a Let_def)
  show thesis
  proof (cases b')
    case True
    with assms u a b show thesis by (auto simp: Let_def intro!: that)
  next
    case False
    with assms u a b show thesis by (auto simp: Let_def intro!: that)
  qed
qed

lemma try_orphans_dom:
  assumes "try_orphans V ms st = Some (work, erased, st')"
  shows "dom (map_of (mp_mapTx (ts_pool st))) \<subseteq> dom (map_of (mp_mapTx (ts_pool st'))) \<and>
    ts_orphans st' = ts_orphans st \<and>
    (\<forall>h \<in> set work. h \<in> dom (map_of (mp_mapTx (ts_pool st'))) - dom (map_of (mp_mapTx (ts_pool st))) \<and>
       (\<exists>m \<in> snd ` set ms. \<exists>tx r. unser_tx m = Some (tx, r) \<and> h = GetHash (nd_ssl (pe_node V)) tx))"
  using assms
proof (induction ms arbitrary: st work erased)
  case (Cons e ms)
  obtain k vMsg where e: "e = (k, vMsg)" by (cases e)
  from Cons.prems [unfolded e] show ?case
  proof (cases rule: try_orphans_step)
    case (1 tx r miss score pool c b work1 erased1 st1)
    note IH = Cons.IH [OF 1(3), unfolded 1(4,5)]
    note dom = mp_accept_dom [OF 1(2)]
    have sub: "dom (map_of (mp_mapTx (ts_pool st))) \<subseteq> dom (map_of (mp_mapTx (ts_pool st')))"
      using IH dom(1) by blast
    have "h \<in> dom (map_of (mp_mapTx (ts_pool st'))) - dom (map_of (mp_mapTx (ts_pool st))) \<and>
       (\<exists>m \<in> snd ` set (e # ms). \<exists>tx r. unser_tx m = Some (tx, r) \<and> h = GetHash (nd_ssl (pe_node V)) tx)"
      if "h \<in> set work" for h
    proof (cases "b \<and> h = GetHash (nd_ssl (pe_node V)) tx")
      case True
      then have "h \<in> dom (map_of (mp_mapTx pool)) - dom (map_of (mp_mapTx (ts_pool st)))" using dom(2) by simp
      moreover have "dom (map_of (mp_mapTx pool)) \<subseteq> dom (map_of (mp_mapTx (ts_pool st')))" using IH by blast
      moreover have "vMsg \<in> snd ` set (e # ms)" by (simp add: e)
      ultimately show ?thesis using True 1(1) by blast
    next
      case False
      with that 1(6) have h: "h \<in> set work1" by (auto split: if_splits)
      with IH have "h \<in> dom (map_of (mp_mapTx (ts_pool st'))) - dom (map_of (mp_mapTx pool))"
        "\<exists>m \<in> snd ` set ms. \<exists>tx r. unser_tx m = Some (tx, r) \<and> h = GetHash (nd_ssl (pe_node V)) tx" by blast+
      with dom(1) show ?thesis by auto
    qed
    with sub IH show ?thesis by blast
  qed
qed simp

text \<open>
  The work queue. Every hash that enters it is new in the pool and belongs to a stored
  message, so the loop ends.
\<close>

function work_loop ::
  "'k poolenv \<Rightarrow> uint256 list \<Rightarrow> uint256 list \<Rightarrow> tx_state \<Rightarrow> (uint256 list \<times> tx_state) option" where
  "work_loop V [] vEraseQueue st = Some (vEraseQueue, st)"
| "work_loop V (hashPrev # queue) vEraseQueue st =
     (let st = st\<lparr>ts_orphans := touch_by_prev hashPrev (ts_orphans st)\<rparr>
      in case try_orphans V (map_at hashPrev (or_mapByPrev (ts_orphans st))) st of
           None \<Rightarrow> None
         | Some (work, erased, st) \<Rightarrow> work_loop V (queue @ work) (vEraseQueue @ erased) st)"
  by pat_completeness auto

definition work_left :: "'k poolenv \<Rightarrow> tx_state \<Rightarrow> nat" where
  "work_left V st = card (message_hashes (nd_ssl (pe_node V)) (ts_orphans st) - dom (map_of (mp_mapTx (ts_pool st))))"

lemma try_orphans_less:
  assumes "try_orphans V (map_at h (or_mapByPrev (ts_orphans st))) st = Some (work, erased, st')"
  shows "work_left V st' < work_left V st \<or> work_left V st' = work_left V st \<and> work = []"
proof -
  note d = try_orphans_dom [OF assms]
  define S where "S = message_hashes (nd_ssl (pe_node V)) (ts_orphans st)"
  define A where "A = dom (map_of (mp_mapTx (ts_pool st)))"
  define B where "B = dom (map_of (mp_mapTx (ts_pool st')))"
  have w: "work_left V st = card (S - A)" "work_left V st' = card (S - B)"
    using d by (simp_all add: work_left_def S_def A_def B_def)
  have sub: "S - B \<subseteq> S - A" using d by (auto simp: A_def B_def)
  have fin: "finite (S - A)" by (simp add: S_def)
  have new: "w \<in> (S - A) - (S - B)" if "w \<in> set work" for w
  proof -
    from d that obtain m tx r where m: "m \<in> snd ` set (map_at h (or_mapByPrev (ts_orphans st)))"
      "unser_tx m = Some (tx, r)" "w = GetHash (nd_ssl (pe_node V)) tx" "w \<in> B - A"
      unfolding A_def B_def by blast
    then obtain ms where ms: "map_of (or_mapByPrev (ts_orphans st)) h = Some ms" "m \<in> snd ` set ms"
      by (cases "map_of (or_mapByPrev (ts_orphans st)) h") (auto simp: map_at_def)
    have "m \<in> (\<Union>(prev, ms) \<in> set (or_mapByPrev (ts_orphans st)). snd ` set ms)"
      using map_of_SomeD [OF ms(1)] ms(2) by blast
    with m(2,3) have "w \<in> S" unfolding S_def message_hashes_def by (intro image_eqI [of _ _ m]) simp_all
    with m show ?thesis by blast
  qed
  show ?thesis
  proof (cases "S - B = S - A")
    case True
    with new have "w \<notin> set work" for w by blast
    then have "work = []" by (cases work) auto
    with True w show ?thesis by simp
  next
    case False
    with sub fin w show ?thesis by (simp add: psubset_card_mono psubsetI)
  qed
qed

termination work_loop
proof (relation "measures [\<lambda>(V, q, e, st). work_left V st, \<lambda>(V, q, e, st). length q]", goal_cases)
  case (2 V hashPrev queue e st st0 x work y erased st')
  have "work_left V st0 = work_left V st" by (simp add: 2(1) work_left_def)
  with try_orphans_less [of V hashPrev st0 work erased st'] 2 show ?case by auto
qed simp


declare work_loop.simps [simp del]

fun erase_queue :: "uint256 list \<Rightarrow> orphans \<Rightarrow> orphans option" where
  "erase_queue [] ob = Some ob"
| "erase_queue (hash # rest) ob =
     (case EraseOrphanTx hash ob of None \<Rightarrow> None | Some ob \<Rightarrow> erase_queue rest ob)"

text \<open>
  The handler: the score the peer is charged, and the state. \<open>GetRandHash\<close> is the source of
  random hashes by the number of draws.
\<close>

definition tx_message :: "'k poolenv \<Rightarrow> (nat \<Rightarrow> uint256) \<Rightarrow> byte list \<Rightarrow> tx_state \<Rightarrow> (int \<times> tx_state) option" where
  "tx_message V GetRandHash vRecv st =
     (case unser_tx vRecv of
        None \<Rightarrow> None
      | Some (tx, _) \<Rightarrow>
          let hash = GetHash (nd_ssl (pe_node V)) tx;
              (r, fMissingInputs, nDoS, pool, c) = mp_accept V True tx (ts_pool st) (ts_cache st);
              st = st\<lparr>ts_pool := pool, ts_cache := c\<rparr>
          in case r of
               None \<Rightarrow> None
             | Some True \<Rightarrow>
                 (case work_loop V [hash] [hash] (st\<lparr>ts_relayed := ts_relayed st @ [hash]\<rparr>) of
                    None \<Rightarrow> None
                  | Some (vEraseQueue, st) \<Rightarrow>
                      map_option (\<lambda>ob. (nDoS, st\<lparr>ts_orphans := ob\<rparr>)) (erase_queue vEraseQueue (ts_orphans st)))
             | Some False \<Rightarrow>
                 if \<not> fMissingInputs then Some (nDoS, st)
                 else (case AddOrphanTx (nd_ssl (pe_node V)) vRecv (ts_orphans st) of
                         None \<Rightarrow> None
                       | Some (_, ob) \<Rightarrow>
                           map_option (\<lambda>(_, ob, draws). (nDoS, st\<lparr>ts_orphans := ob, ts_draws := draws\<rparr>))
                             (LimitOrphanTxSize GetRandHash MAX_ORPHAN_TRANSACTIONS ob (ts_draws st))))"

subsection \<open>What the handler keeps\<close>

lemma try_orphans_pool:
  assumes "try_orphans V ms st = Some (work, erased, st')" "pool_reach (pe_node V) (ts_pool st)"
  shows "pool_reach (pe_node V) (ts_pool st')"
  using assms
proof (induction ms arbitrary: st work erased)
  case (Cons e ms)
  obtain k vMsg where e: "e = (k, vMsg)" by (cases e)
  from Cons.prems(1) [unfolded e] show ?case
  proof (cases rule: try_orphans_step)
    case (1 tx r miss score pool c b work1 erased1 st1)
    have "pool_reach (pe_node V) pool" by (rule pool_reach.accept [OF Cons.prems(2) refl 1(2)])
    with Cons.IH [OF 1(3)] 1(4) show ?thesis by simp
  qed
qed simp

lemma touch_orphans [simp]:
  "or_mapOrphanTransactions (touch_by_prev h ob) = or_mapOrphanTransactions ob"
  "map_at p (or_mapByPrev (touch_by_prev h ob)) = map_at p (or_mapByPrev ob)"
  by (auto simp: touch_by_prev_def map_at_def)

lemma work_loop_pool:
  assumes "work_loop V q e st = Some (e', st')" "pool_reach (pe_node V) (ts_pool st)"
  shows "pool_reach (pe_node V) (ts_pool st') \<and>
    or_mapOrphanTransactions (ts_orphans st') = or_mapOrphanTransactions (ts_orphans st)"
  using assms
proof (induction V q e st arbitrary: rule: work_loop.induct)
  case (1 V e st)
  then show ?case by (simp add: work_loop.simps)
next
  case (2 V h q e st)
  define st0 where "st0 = st\<lparr>ts_orphans := touch_by_prev h (ts_orphans st)\<rparr>"
  from 2(2) obtain work erased st1 where
    t: "try_orphans V (map_at h (or_mapByPrev (ts_orphans st0))) st0 = Some (work, erased, st1)" and
    w: "work_loop V (q @ work) (e @ erased) st1 = Some (e', st')"
    by (auto simp: work_loop.simps Let_def st0_def split: option.splits)
  have "pool_reach (pe_node V) (ts_pool st1)"
    using try_orphans_pool [OF t] 2(3) by (simp add: st0_def)
  from 2(1) [OF st0_def t refl refl w this] try_orphans_dom [OF t] show ?case by (simp add: st0_def)
qed


lemma touch_orphans_ok [simp]: "orphans_ok E (touch_by_prev h ob) = orphans_ok E ob"
  by (simp add: orphans_ok_def)

lemma work_loop_orphans:
  "work_loop V q e st = Some (e', st') \<Longrightarrow> orphans_ok E (ts_orphans st') = orphans_ok E (ts_orphans st)"
proof (induction V q e st rule: work_loop.induct)
  case (1 V e st)
  then show ?case by (simp add: work_loop.simps)
next
  case (2 V h q e st)
  define st0 where "st0 = st\<lparr>ts_orphans := touch_by_prev h (ts_orphans st)\<rparr>"
  from 2(2) obtain work erased st1 where
    t: "try_orphans V (map_at h (or_mapByPrev (ts_orphans st0))) st0 = Some (work, erased, st1)" and
    w: "work_loop V (q @ work) (e @ erased) st1 = Some (e', st')"
    by (auto simp: work_loop.simps Let_def st0_def split: option.splits)
  from 2(1) [OF st0_def t refl refl w] try_orphans_dom [OF t] show ?case by (simp add: st0_def)
qed

lemma erase_queue_ok:
  assumes "orphans_ok E ob"
  shows "\<exists>ob'. erase_queue q ob = Some ob' \<and> orphans_ok E ob' \<and>
    map_of (or_mapOrphanTransactions ob') = (map_of (or_mapOrphanTransactions ob)) |` (- set q)"
  using assms
proof (induction q arbitrary: ob)
  case (Cons h q)
  from orphans_ok_erase [OF Cons.prems, of h] obtain ob1 where
    1: "EraseOrphanTx h ob = Some ob1" "orphans_ok E ob1"
      "map_of (or_mapOrphanTransactions ob1) = (map_of (or_mapOrphanTransactions ob))(h := None)" by blast
  from Cons.IH [OF 1(2)] 1 show ?case by (auto simp: restrict_map_def fun_eq_iff)
qed (simp add: restrict_map_def)

lemma card_dom_map_of: "distinct (map fst m) \<Longrightarrow> card (dom (map_of m)) = length m"
  by (metis dom_map_of_conv_image_fst distinct_card length_map set_map)

lemma erase_queue_length:
  assumes "orphans_ok E ob" "erase_queue q ob = Some ob'"
  shows "length (or_mapOrphanTransactions ob') \<le> length (or_mapOrphanTransactions ob)"
proof -
  from erase_queue_ok [OF assms(1), of q] assms(2) have ok: "orphans_ok E ob'"
    and m: "map_of (or_mapOrphanTransactions ob') = map_of (or_mapOrphanTransactions ob) |` (- set q)" by auto
  have "card (dom (map_of (or_mapOrphanTransactions ob'))) \<le> card (dom (map_of (or_mapOrphanTransactions ob)))"
    by (rule card_mono [OF finite_dom_map_of]) (auto simp: m)
  with assms(1) ok show ?thesis by (simp add: card_dom_map_of orphans_ok_def strict_sorted_iff)
qed

definition tx_state_ok :: "'k node \<Rightarrow> tx_state \<Rightarrow> bool" where
  "tx_state_ok N st \<longleftrightarrow> pool_reach N (ts_pool st) \<and> orphans_ok (nd_ssl N) (ts_orphans st) \<and>
     length (or_mapOrphanTransactions (ts_orphans st)) \<le> MAX_ORPHAN_TRANSACTIONS"

lemma tx_message_ok:
  assumes "tx_state_ok (pe_node V) st" "tx_message V g msg st = Some (n, st')"
  shows "tx_state_ok (pe_node V) st'"
proof -
  from assms(2) obtain tx r where u: "unser_tx msg = Some (tx, r)" by (auto simp: tx_message_def split: option.splits)
  obtain b miss score pool c where a: "mp_accept V True tx (ts_pool st) (ts_cache st) = (b, miss, score, pool, c)"
    by (metis prod_cases5)
  have pool: "pool_reach (pe_node V) pool"
    using assms(1) by (auto simp: tx_state_ok_def intro: pool_reach.accept [OF _ refl a])
  consider (accepted) "b = Some True" | (rejected) "b = Some False" "\<not> miss" | (orphan) "b = Some False" miss
    using assms(2) by (cases b; cases miss) (auto simp: tx_message_def u a Let_def)
  then show ?thesis
  proof cases
    case accepted
    then obtain e st1 ob where
      w: "work_loop V [GetHash (nd_ssl (pe_node V)) tx] [GetHash (nd_ssl (pe_node V)) tx]
        (st\<lparr>ts_pool := pool, ts_cache := c, ts_relayed := ts_relayed st @ [GetHash (nd_ssl (pe_node V)) tx]\<rparr>) = Some (e, st1)"
      and eq: "erase_queue e (ts_orphans st1) = Some ob" "st' = st1\<lparr>ts_orphans := ob\<rparr>"
      using assms(2) by (auto simp: tx_message_def u a Let_def split: option.splits)
    have ok1: "orphans_ok (nd_ssl (pe_node V)) (ts_orphans st1)"
      using work_loop_orphans [OF w, of "nd_ssl (pe_node V)"] assms(1) by (simp add: tx_state_ok_def)
    from work_loop_pool [OF w] pool have 1: "pool_reach (pe_node V) (ts_pool st1)"
      "or_mapOrphanTransactions (ts_orphans st1) = or_mapOrphanTransactions (ts_orphans st)" by simp_all
    from erase_queue_ok [OF ok1, of e] erase_queue_length [OF ok1 eq(1)] 1 eq assms(1)
    show ?thesis by (auto simp: tx_state_ok_def)
  next
    case rejected
    with assms pool show ?thesis by (auto simp: tx_message_def u a tx_state_ok_def)
  next
    case orphan
    then obtain b1 ob1 where ad: "AddOrphanTx (nd_ssl (pe_node V)) msg (ts_orphans st) = Some (b1, ob1)"
      using assms(2) by (auto simp: tx_message_def u a Let_def split: option.splits)
    have ok1: "orphans_ok (nd_ssl (pe_node V)) ob1"
      using assms(1) by (auto simp: tx_state_ok_def intro: orphans_ok_add [OF _ ad])
    from limit_loop_ok [OF ok1, of g MAX_ORPHAN_TRANSACTIONS "ts_draws st" 0] obtain ob2 d2 where
      "limit_loop g MAX_ORPHAN_TRANSACTIONS ob1 (ts_draws st) 0 =
         Some (length (or_mapOrphanTransactions ob1) - MAX_ORPHAN_TRANSACTIONS, ob2, d2)"
      "orphans_ok (nd_ssl (pe_node V)) ob2"
      "length (or_mapOrphanTransactions ob2) \<le> MAX_ORPHAN_TRANSACTIONS" by auto
    with orphan ad assms(2) pool show ?thesis
      by (auto simp: tx_message_def u a LimitOrphanTxSize_def tx_state_ok_def)
  qed
qed

text \<open>C17: Whatever transactions a peer sends, the handler keeps the pool consistent and the table
  of orphans within its limit, with every orphan filed exactly under the parents it spends from.\<close>

theorem tx_message_keeps:
  assumes "tx_state_ok (pe_node V) st" "tx_message V g msg st = Some (n, st')"
  shows "pool_reach (pe_node V) (ts_pool st') \<and> tx_state_ok (pe_node V) st' \<and>
    length (or_mapOrphanTransactions (ts_orphans st')) \<le> MAX_ORPHAN_TRANSACTIONS"
  using tx_message_ok [OF assms] by (simp add: tx_state_ok_def)

end
