(* ===== verification/Script_Sign.thy ===== *)
theory Script_Sign
  imports Script_Solver
begin

text \<open>
  Producing input scripts (\<open>src/script.cpp\<close>): signing with the keys of a store, and merging
  the signatures of two versions of an input. A key store or key object that throws makes
  the result \<open>None\<close>.
\<close>

subsection \<open>Signing\<close>

definition Sign1 ::
  "'k ecdsa \<Rightarrow> uint160 \<Rightarrow> 'k CKeyStore \<Rightarrow> uint256 \<Rightarrow> uint32 \<Rightarrow> byte list \<Rightarrow>
     (bool \<times> byte list) option" where
  "Sign1 L address keystore hash nHashType scriptSigRet =
     (case kv_GetKey keystore address of
        None \<Rightarrow> None
      | Some None \<Rightarrow> Some (False, scriptSigRet)
      | Some (Some key) \<Rightarrow>
          (case CKey_Sign L key hash of
             (False, _) \<Rightarrow> Some (False, scriptSigRet)
           | (True, vchSig) \<Rightarrow>
               Some (True, scriptSigRet @ push_data (vchSig @ [ucast nHashType]))))"

text \<open>The loop of \<open>SignN\<close> over the keys, with the number signed so far.\<close>

fun sign_loop ::
  "openssl \<Rightarrow> 'k ecdsa \<Rightarrow> nat \<Rightarrow> 'k CKeyStore \<Rightarrow> uint256 \<Rightarrow> uint32 \<Rightarrow> valtype list \<Rightarrow> nat \<Rightarrow>
     byte list \<Rightarrow> (nat \<times> byte list) option" where
  "sign_loop E L nRequired keystore hash nHashType [] nSigned scriptSigRet =
     Some (nSigned, scriptSigRet)"
| "sign_loop E L nRequired keystore hash nHashType (pubkey # pubkeys) nSigned scriptSigRet =
     (if \<not> nSigned < nRequired then Some (nSigned, scriptSigRet)
      else case Sign1 L (CPubKey_GetID E pubkey) keystore hash nHashType scriptSigRet of
             None \<Rightarrow> None
           | Some (ok, scriptSigRet) \<Rightarrow>
               sign_loop E L nRequired keystore hash nHashType pubkeys
                 (if ok then nSigned + 1 else nSigned) scriptSigRet)"

definition SignN ::
  "openssl \<Rightarrow> 'k ecdsa \<Rightarrow> valtype list \<Rightarrow> 'k CKeyStore \<Rightarrow> uint256 \<Rightarrow> uint32 \<Rightarrow> byte list \<Rightarrow>
     (bool \<times> byte list) option" where
  "SignN E L multisigdata keystore hash nHashType scriptSigRet =
     (let nRequired = unat (hd multisigdata ! 0)
      in map_option (\<lambda>(nSigned, script). (nSigned = nRequired, script))
           (sign_loop E L nRequired keystore hash nHashType (butlast (tl multisigdata)) 0 scriptSigRet))"

definition Solver_sign ::
  "openssl \<Rightarrow> 'k ecdsa \<Rightarrow> 'k CKeyStore \<Rightarrow> byte list \<Rightarrow> uint256 \<Rightarrow> uint32 \<Rightarrow>
     (bool \<times> byte list \<times> txnouttype) option" where
  "Solver_sign E L keystore scriptPubKey hash nHashType =
     (case Solver scriptPubKey of (ok, whichType, sols) \<Rightarrow>
        let typed = map_option (\<lambda>(ok, script). (ok, script, whichType))
        in if \<not> ok then Some (False, [], whichType)
           else if whichType = TX_PUBKEY
           then typed (Sign1 L (CPubKey_GetID E (sols ! 0)) keystore hash nHashType [])
           else if whichType = TX_PUBKEYHASH
           then (let keyID = uint160_of (sols ! 0)
                 in case Sign1 L keyID keystore hash nHashType [] of
                      None \<Rightarrow> None
                    | Some (False, script) \<Rightarrow> Some (False, script, whichType)
                    | Some (True, script) \<Rightarrow>
                        (case kv_GetPubKey keystore keyID of
                           None \<Rightarrow> None
                         | Some vch \<Rightarrow>
                             Some (True, script @ push_data (case vch of None \<Rightarrow> [] | Some v \<Rightarrow> v), whichType)))
           else if whichType = TX_SCRIPTHASH
           then Some (case kv_GetCScript keystore (uint160_of (sols ! 0)) of
                        None \<Rightarrow> (False, [], whichType)
                      | Some script \<Rightarrow> (True, script, whichType))
           else if whichType = TX_MULTISIG
           then typed (SignN E L sols keystore hash nHashType (push_op OP_0))
           else Some (whichType = TX_NULL_DATA, [], whichType))"

definition set_scriptSig :: "CTransaction \<Rightarrow> nat \<Rightarrow> byte list \<Rightarrow> CTransaction" where
  "set_scriptSig tx nIn script =
     tx\<lparr>tx_vin := (tx_vin tx)[nIn := (tx_vin tx ! nIn)\<lparr>ti_scriptSig := script\<rparr>]\<rparr>"

definition SignSignature ::
  "'k sigenv \<Rightarrow> 'k CKeyStore \<Rightarrow> byte list \<Rightarrow> CTransaction \<Rightarrow> nat \<Rightarrow> uint32 \<Rightarrow> sigcache \<Rightarrow>
     (bool \<times> CTransaction \<times> sigcache) option" where
  "SignSignature V keystore fromPubKey txTo nIn nHashType c =
     (let E = sv_ssl V; L = sv_ec V;
          finish = (\<lambda>txTo. case VerifyScript V (ti_scriptSig (tx_vin txTo ! nIn)) fromPubKey txTo nIn True 0 c
                           of (ok, c) \<Rightarrow> Some (ok, txTo, c));
          hash = SignatureHash E fromPubKey txTo nIn nHashType
      in case Solver_sign E L keystore fromPubKey hash nHashType of
           None \<Rightarrow> None
         | Some (False, script, _) \<Rightarrow> Some (False, set_scriptSig txTo nIn script, c)
         | Some (True, subscript, whichType) \<Rightarrow>
             let txTo = set_scriptSig txTo nIn subscript
             in if whichType = TX_SCRIPTHASH
                then let hash2 = SignatureHash E subscript txTo nIn nHashType
                     in case Solver_sign E L keystore subscript hash2 nHashType of
                          None \<Rightarrow> None
                        | Some (ok, script, subType) \<Rightarrow>
                            let txTo = set_scriptSig txTo nIn (script @ push_data subscript)
                            in if \<not> (ok \<and> subType \<noteq> TX_SCRIPTHASH) then Some (False, txTo, c)
                               else finish txTo
                else finish txTo)"

text \<open>The overload for a previous transaction; its assertions hold or the program aborts.\<close>

definition SignSignature_tx ::
  "'k sigenv \<Rightarrow> 'k CKeyStore \<Rightarrow> CTransaction \<Rightarrow> CTransaction \<Rightarrow> nat \<Rightarrow> uint32 \<Rightarrow> sigcache \<Rightarrow>
     (bool \<times> CTransaction \<times> sigcache) option" where
  "SignSignature_tx V keystore txFrom txTo nIn nHashType c =
     (let prevout = ti_prevout (tx_vin txTo ! nIn)
      in if length (tx_vin txTo) \<le> nIn \<or> length (tx_vout txFrom) \<le> unat (op_n prevout) \<or>
            op_hash prevout \<noteq> GetHash (sv_ssl V) txFrom then None
         else SignSignature V keystore (to_scriptPubKey (tx_vout txFrom ! unat (op_n prevout)))
                txTo nIn nHashType c)"

subsection \<open>Combining signatures\<close>

definition PushAll :: "valtype list \<Rightarrow> byte list" where
  "PushAll values = concat (map push_data values)"

fun vset_insert :: "valtype \<Rightarrow> valtype list \<Rightarrow> valtype list" where
  "vset_insert x [] = [x]"
| "vset_insert x (y # ys) =
     (if bytes_less x y then x # y # ys else if x = y then y # ys else y # vset_insert x ys)"

fun match_sig :: "'c checker \<Rightarrow> byte list \<Rightarrow> valtype \<Rightarrow> valtype list \<Rightarrow>
    (valtype \<times> valtype) list \<Rightarrow> 'c \<Rightarrow> (valtype \<times> valtype) list \<times> 'c" where
  "match_sig chk scriptPubKey sig [] sigs c = (sigs, c)"
| "match_sig chk scriptPubKey sig (pubkey # pubkeys) sigs c =
     (if map_of sigs pubkey \<noteq> None then match_sig chk scriptPubKey sig pubkeys sigs c
      else case chk c sig pubkey scriptPubKey of
             (True, c) \<Rightarrow> ((pubkey, sig) # sigs, c)
           | (False, c) \<Rightarrow> match_sig chk scriptPubKey sig pubkeys sigs c)"

fun match_sigs :: "'c checker \<Rightarrow> byte list \<Rightarrow> valtype list \<Rightarrow> valtype list \<Rightarrow>
    (valtype \<times> valtype) list \<Rightarrow> 'c \<Rightarrow> (valtype \<times> valtype) list \<times> 'c" where
  "match_sigs chk scriptPubKey pubkeys [] sigs c = (sigs, c)"
| "match_sigs chk scriptPubKey pubkeys (sig # rest) sigs c =
     (case match_sig chk scriptPubKey sig pubkeys sigs c of
        (sigs, c) \<Rightarrow> match_sigs chk scriptPubKey pubkeys rest sigs c)"

text \<open>The signatures to put in the script, in the order of the keys, at most as many as required.\<close>

definition merged_sigs :: "nat \<Rightarrow> valtype list \<Rightarrow> (valtype \<times> valtype) list \<Rightarrow> valtype list" where
  "merged_sigs nSigsRequired pubkeys sigs =
     take nSigsRequired (List.map_filter (map_of sigs) pubkeys)"

definition CombineMultisig :: "'c checker \<Rightarrow> byte list \<Rightarrow> valtype list \<Rightarrow> valtype list \<Rightarrow>
    valtype list \<Rightarrow> 'c \<Rightarrow> byte list \<times> 'c" where
  "CombineMultisig chk scriptPubKey sols sigs1 sigs2 c =
     (let allsigs = fold vset_insert (List.filter (\<lambda>v. v \<noteq> []) (sigs1 @ sigs2)) [];
          nSigsRequired = unat (hd sols ! 0);
          pubkeys = butlast (tl sols);
          (sigs, c) = match_sigs chk scriptPubKey pubkeys allsigs [] c;
          have = merged_sigs nSigsRequired pubkeys sigs
      in (push_op OP_0 @ PushAll have @ concat (replicate (nSigsRequired - length have) (push_op OP_0)), c))"

text \<open>
  The vectors are in the order of the code, the top of the stack last. \<open>chk\<close> is \<open>CheckSig\<close>
  for the transaction and input with hash type 0.
\<close>

function CombineSignatures_typed ::
  "'c checker \<Rightarrow> byte list \<Rightarrow> txnouttype \<Rightarrow> valtype list \<Rightarrow> valtype list \<Rightarrow> valtype list \<Rightarrow> 'c \<Rightarrow>
     byte list \<times> 'c" where
  "CombineSignatures_typed chk scriptPubKey txType sols sigs1 sigs2 c =
     (if txType = TX_NONSTANDARD \<or> txType = TX_NULL_DATA
      then (if length sigs2 \<le> length sigs1 then PushAll sigs1 else PushAll sigs2, c)
      else if txType = TX_PUBKEY \<or> txType = TX_PUBKEYHASH
      then (if sigs1 = [] \<or> hd sigs1 = [] then PushAll sigs2 else PushAll sigs1, c)
      else if txType = TX_SCRIPTHASH
      then (if sigs1 = [] \<or> last sigs1 = [] then (PushAll sigs2, c)
            else if sigs2 = [] \<or> last sigs2 = [] then (PushAll sigs1, c)
            else let spk = last sigs1; (_, txType2, sols2) = Solver spk;
                     (result, c) = CombineSignatures_typed chk spk txType2 sols2
                                     (butlast sigs1) (butlast sigs2) c
                 in (result @ push_data spk, c))
      else CombineMultisig chk scriptPubKey sols sigs1 sigs2 c)"
  by pat_completeness auto
termination
  by (relation "measure (\<lambda>(chk, spk, t, sols, s1, s2, c). length s1)") auto

declare CombineSignatures_typed.simps [simp del]

definition CombineSignatures ::
  "'k sigenv \<Rightarrow> uint32 \<Rightarrow> byte list \<Rightarrow> CTransaction \<Rightarrow> nat \<Rightarrow> byte list \<Rightarrow> byte list \<Rightarrow> sigcache \<Rightarrow>
     byte list \<times> sigcache" where
  "CombineSignatures V nAdjustedTime scriptPubKey txTo nIn scriptSig1 scriptSig2 c =
     (let (_, txType, sols) = Solver scriptPubKey;
          eval = EvalScript (sv_ssl V) (CheckSig V (CTransaction_SetNull nAdjustedTime) 0 0);
          (_, stack1, c) = eval [] scriptSig1 c;
          (_, stack2, c) = eval [] scriptSig2 c
      in CombineSignatures_typed (CheckSig V txTo nIn 0) scriptPubKey txType sols
           (rev stack1) (rev stack2) c)"

subsection \<open>Keys that sign are keys that are owned\<close>

locale key_provider =
  fixes store :: "'k CKeyStore"
  assumes get_have: "kv_GetKey store a = Some (Some key) \<Longrightarrow> kv_HaveKey store a"
begin

lemma Sign1_have: "Sign1 L a store hash h script = Some (True, script') \<Longrightarrow> kv_HaveKey store a"
  by (auto simp: Sign1_def dest: get_have split: option.splits prod.splits bool.splits)

lemma sign_loop_have:
  "sign_loop E L n store hash h pubkeys k script = Some (k', script') \<Longrightarrow>
     k' - k \<le> HaveKeys E pubkeys store"
proof (induction pubkeys arbitrary: k script)
  case (Cons p ps)
  show ?case
  proof (cases "k < n")
    case True
    with Cons.prems obtain ok s1 where s1: "Sign1 L (CPubKey_GetID E p) store hash h script = Some (ok, s1)"
      and loop: "sign_loop E L n store hash h ps (if ok then k + 1 else k) s1 = Some (k', script')"
      by (auto split: option.splits)
    from Cons.IH [OF loop] Sign1_have [of L "CPubKey_GetID E p" hash h script s1] s1
    show ?thesis by (cases ok) (auto simp: HaveKeys_def)
  qed (use Cons.prems in simp)
qed (simp add: HaveKeys_def)

lemma Solver_sign_mine:
  assumes "Solver_sign E L store spk hash h = Some (True, script, typ)"
  shows "typ = TX_PUBKEY \<or> typ = TX_PUBKEYHASH \<Longrightarrow> IsMine E store spk = Some True"
    and "typ = TX_MULTISIG \<Longrightarrow>
      unat (hd (snd (snd (Solver spk))) ! 0) \<le> HaveKeys E (butlast (tl (snd (snd (Solver spk))))) store"
proof -
  obtain ok t sols where sol: "Solver spk = (ok, t, sols)" by (metis prod_cases3)
  have t: "t = typ" "ok" using assms sol
    by (auto simp: Solver_sign_def Let_def split: if_splits option.splits prod.splits bool.splits)
  show "IsMine E store spk = Some True" if "typ = TX_PUBKEY \<or> typ = TX_PUBKEYHASH"
    using assms that sol t
    by (subst IsMine.simps)
      (auto simp: Solver_sign_def Let_def split: if_splits option.splits prod.splits bool.splits
        dest: Sign1_have)
  show "unat (hd (snd (snd (Solver spk))) ! 0) \<le> HaveKeys E (butlast (tl (snd (snd (Solver spk))))) store"
    if "typ = TX_MULTISIG"
    using assms that sol t
    by (auto simp: Solver_sign_def SignN_def Let_def dest!: sign_loop_have)
qed

end

interpretation store_provider: key_provider "store_view L ks" for L :: "'k keylibs" and ks
  by unfold_locales
    (auto simp: store_view_def GetKey_def HaveKey_def Basic_GetKey_def Basic_HaveKey_def
      split: if_splits option.splits)

text \<open>When a key store signs for a single-key output, the output is one of its own; when
  it signs for a multisignature output, it holds at least the required number of the keys.\<close>

theorem signing_needs_keys:
  assumes "Solver_sign E (kl_ec L) (store_view L ks) spk hash h = Some (True, script, typ)"
  shows "(typ = TX_PUBKEY \<or> typ = TX_PUBKEYHASH \<longrightarrow> IsMine E (store_view L ks) spk = Some True) \<and>
    (typ = TX_MULTISIG \<longrightarrow>
      unat (hd (snd (snd (Solver spk))) ! 0)
        \<le> HaveKeys E (butlast (tl (snd (snd (Solver spk))))) (store_view L ks))"
  using store_provider.Solver_sign_mine [OF assms] by blast


end
