(* ===== verification/Script_Standard.thy ===== *)
theory Script_Standard
  imports Script_Sign
begin

text \<open>
  The interpreter on the standard output scripts: pay-to-script-hash and pay-to-pubkey-hash
  outputs are run instruction by instruction, and the templates recognise the scripts that
  \<open>SetDestination\<close> writes.
\<close>

subsection \<open>Running the standard output scripts\<close>

lemma GetOp2_op: "OP_PUSHDATA4 < unat c \<Longrightarrow> GetOp2 (c # pc) = Op pc (unat c) []"
  by (simp add: GetOp2.simps(2) Let_def)

lemma GetOp2_push20:
  assumes "length h = 20" and "length pc < 100"
  shows "GetOp2 (20 # h @ pc) = Op pc 20 h"
  using assms by (simp add: GetOp2.simps(2) get_operand_def Let_def opcode_defs)

lemma eval_loop_Op:
  "GetOp2 pc = Op pc' opcode vch \<Longrightarrow> eval_loop E chk pc st =
     (case eval_step E chk opcode vch pc' st of
        (False, st') \<Rightarrow> stop st' | (True, st') \<Rightarrow> eval_loop E chk pc' st')"
  by (cases "pc = []") (auto simp: eval_loop.simps [of E chk pc])

lemma unat_op_bytes [simp]:
  "unat (word_of_nat OP_DUP :: byte) = OP_DUP"
  "unat (word_of_nat OP_HASH160 :: byte) = OP_HASH160"
  "unat (word_of_nat OP_EQUAL :: byte) = OP_EQUAL"
  "unat (word_of_nat OP_EQUALVERIFY :: byte) = OP_EQUALVERIFY"
  "unat (word_of_nat OP_CHECKSIG :: byte) = OP_CHECKSIG"
  by (simp_all add: opcode_defs)

lemma p2sh_form:
  assumes "IsPayToScriptHash spk"
  shows "spk = word_of_nat OP_HASH160 # 20 # take 20 (drop 2 spk) @ [word_of_nat OP_EQUAL]"
proof -
  have len: "length spk = 23" using assms by (simp add: IsPayToScriptHash_def)
  have "spk = spk ! 0 # spk ! 1 # take 20 (drop 2 spk) @ [spk ! 22]"
    using len by (intro nth_equalityI) (auto simp: nth_Cons nth_append min_def less_Suc_eq numeral_eq_Suc split: nat.splits)
  moreover have "spk ! 0 = word_of_nat OP_HASH160" "spk ! 22 = word_of_nat OP_EQUAL" "spk ! 1 = 20"
    using assms by (simp_all add: IsPayToScriptHash_def word_unat_eq_iff)
  ultimately show ?thesis by metis
qed

text \<open>One instruction that is carried out: the three bounds hold and the stack stays small.\<close>

lemma eval_step_run:
  assumes "OP_16 < opcode" "es_nOpCount st < 201" "\<not> disabled_opcode opcode" "fExec_of st"
  shows "eval_step E chk opcode [] pc st =
    (case eval_op E chk True opcode pc (count_op opcode st) of
       (False, st) \<Rightarrow> stop st
     | (True, st) \<Rightarrow> if 1000 < length (es_stack st) + length (es_altstack st) then stop st else (True, st))"
proof -
  have "\<not> opcode \<le> OP_PUSHDATA4" using assms(1) by (simp add: opcode_defs)
  then show ?thesis using assms
    by (simp add: eval_step_def eval_exec_def Let_def fExec_of_def)
qed

lemma eval_step_push:
  assumes "opcode \<le> OP_PUSHDATA4" "length vch \<le> 520" "fExec_of st"
  shows "eval_step E chk opcode vch pc st =
    (if 1000 < Suc (length (es_stack st) + length (es_altstack st))
     then stop (st\<lparr>es_stack := vch # es_stack st\<rparr>) else (True, st\<lparr>es_stack := vch # es_stack st\<rparr>))"
proof -
  have "\<not> disabled_opcode opcode" "\<not> OP_16 < opcode"
    using assms(1) by (auto simp: opcode_defs disabled_opcode_def)
  then show ?thesis using assms
    by (simp add: eval_step_def eval_exec_def Let_def count_op_def set_stack_def)
qed

lemma standard_ops:
  "\<not> disabled_opcode OP_DUP" "\<not> disabled_opcode OP_HASH160" "\<not> disabled_opcode OP_EQUAL"
  "\<not> disabled_opcode OP_EQUALVERIFY" "\<not> disabled_opcode OP_CHECKSIG"
  "OP_16 < OP_DUP" "OP_16 < OP_HASH160" "OP_16 < OP_EQUAL" "OP_16 < OP_EQUALVERIFY" "OP_16 < OP_CHECKSIG"
  "OP_PUSHDATA4 < OP_DUP" "OP_PUSHDATA4 < OP_HASH160" "OP_PUSHDATA4 < OP_EQUAL"
  "OP_PUSHDATA4 < OP_EQUALVERIFY" "OP_PUSHDATA4 < OP_CHECKSIG"
  by (simp_all add: opcode_defs disabled_opcode_def)

lemma eval_op_standard:
  "eval_op E chk f OP_DUP pc st = op_stack E OP_DUP st"
  "eval_op E chk f OP_HASH160 pc st = op_digest E OP_HASH160 st"
  "eval_op E chk f OP_EQUAL pc st = op_equal OP_EQUAL st"
  "eval_op E chk f OP_EQUALVERIFY pc st = op_equal OP_EQUALVERIFY st"
  "eval_op E chk f OP_CHECKSIG pc st = op_checksig chk OP_CHECKSIG st"
  by (simp_all add: eval_op_def opcode_defs)

lemma op_digest_hash160:
  "op_digest E OP_HASH160 st =
     (case es_stack st of [] \<Rightarrow> stop st | x # r \<Rightarrow> set_stack (bytes_of_u160 (Hash160 E x) # r) st)"
  by (simp add: op_digest_def opcode_defs split: list.split)

lemma stack_op_dup: "stack_op E OP_DUP (x # r) = Some (x # x # r)" "stack_op E OP_DUP [] = None"
  by (simp_all add: stack_op_def opcode_defs)

lemma equal_not_verify [simp]: "OP_EQUAL \<noteq> OP_EQUALVERIFY" "OP_CHECKSIG \<noteq> OP_CHECKSIGVERIFY"
  by (simp_all add: opcode_defs)

lemma eval_loop_Nil [simp]: "eval_loop E chk [] st = (True, st)"
  by (simp add: eval_loop.simps)

lemma eval_start_simps [simp]:
  "es_stack (eval_start stack script c) = stack" "es_altstack (eval_start stack script c) = []"
  "es_vfExec (eval_start stack script c) = []" "es_nOpCount (eval_start stack script c) = 0"
  "es_codehash (eval_start stack script c) = script" "es_sigs (eval_start stack script c) = c"
  "fExec_of (eval_start stack script c)"
  by (simp_all add: eval_start_def fExec_of_def)

lemma fExec_of_updates [simp]:
  "fExec_of (st\<lparr>es_stack := s\<rparr>) = fExec_of st" "fExec_of (st\<lparr>es_nOpCount := n\<rparr>) = fExec_of st"
  "fExec_of (count_op opcode st) = fExec_of st"
  "count_op opcode (st\<lparr>es_stack := s\<rparr>) = (count_op opcode st)\<lparr>es_stack := s\<rparr>"
  by (simp_all add: fExec_of_def count_op_def)

lemma EvalScript_p2sh:
  assumes "IsPayToScriptHash spk"
  shows "EvalScript E chk stack spk c =
    (case stack of
       [] \<Rightarrow> (False, [], c)
     | x # rest \<Rightarrow>
         let h = bytes_of_u160 (Hash160 E x); wanted = take 20 (drop 2 spk)
         in if 1000 < length stack then (False, h # rest, c)
            else if 999 < length stack then (False, wanted # h # rest, c)
            else (True, bool_vch (h = wanted) # rest, c))"
proof -
  define w where "w = take 20 (drop 2 spk)"
  have len: "length spk = 23" and lw: "length w = 20" using assms by (simp_all add: IsPayToScriptHash_def w_def)
  have form: "spk = word_of_nat OP_HASH160 # 20 # w @ [word_of_nat OP_EQUAL]"
    unfolding w_def by (rule p2sh_form [OF assms])
  have g1: "GetOp2 spk = Op (20 # w @ [word_of_nat OP_EQUAL]) OP_HASH160 []"
    unfolding form by (simp add: GetOp2_op standard_ops)
  have g2: "GetOp2 (20 # w @ [word_of_nat OP_EQUAL]) = Op [word_of_nat OP_EQUAL] 20 w"
    using lw by (simp add: GetOp2_push20)
  have g3: "GetOp2 [word_of_nat OP_EQUAL] = Op [] OP_EQUAL []"
    by (simp add: GetOp2_op standard_ops)
  have small: "20 \<le> OP_PUSHDATA4" by (simp add: opcode_defs)
  show ?thesis
    using len lw small
    by (simp add: EvalScript_def eval_loop_Op [OF g1] eval_loop_Op [OF g2] eval_loop_Op [OF g3]
        eval_step_run eval_step_push standard_ops eval_op_standard op_digest_hash160 op_equal_def
        push_result_def set_stack_def stop_def Let_def eq_commute flip: w_def split: list.split)
qed


lemma length_SetDestination: "length (SetDestination (CKeyID k)) = 25" "length (SetDestination (CScriptID k)) = 23"
  by (simp_all add: push_op_def push_uint160_def)

lemma EvalScript_p2pkh:
  assumes "length rest \<le> 900"
  shows "EvalScript E chk (pk # sg # rest) (SetDestination (CKeyID k)) c =
    (if Hash160 E pk = k
     then let code = snd (FindAndDelete (SetDestination (CKeyID k)) (push_data sg));
              (ok, c') = chk c sg pk code
          in (True, bool_vch ok # rest, c')
     else (False, vchFalse # pk # sg # rest, c))"
proof -
  define spk where "spk = SetDestination (CKeyID k)"
  let ?b = "\<lambda>op. word_of_nat op :: byte"
  let ?w = "bytes_of_u160 k"
  let ?p2 = "20 # ?w @ [?b OP_EQUALVERIFY, ?b OP_CHECKSIG]"
  have form: "spk = ?b OP_DUP # ?b OP_HASH160 # ?p2"
    by (simp add: spk_def push_op_def push_uint160_def)
  have len: "length spk = 25" by (simp add: spk_def length_SetDestination del: SetDestination.simps)
  have g1: "GetOp2 spk = Op (?b OP_HASH160 # ?p2) OP_DUP []"
    unfolding form by (simp add: GetOp2_op standard_ops)
  have g2: "GetOp2 (?b OP_HASH160 # ?p2) = Op ?p2 OP_HASH160 []"
    by (simp add: GetOp2_op standard_ops)
  have g3: "GetOp2 ?p2 = Op [?b OP_EQUALVERIFY, ?b OP_CHECKSIG] 20 ?w"
    by (simp add: GetOp2_push20)
  have g4: "GetOp2 [?b OP_EQUALVERIFY, ?b OP_CHECKSIG] = Op [?b OP_CHECKSIG] OP_EQUALVERIFY []"
    "GetOp2 [?b OP_CHECKSIG] = Op [] OP_CHECKSIG []"
    by (simp_all add: GetOp2_op standard_ops)
  have small: "20 \<le> OP_PUSHDATA4" by (simp add: opcode_defs)
  show ?thesis
    unfolding spk_def [symmetric]
    using len small assms
    by (simp add: EvalScript_def eval_loop_Op [OF g1] eval_loop_Op [OF g2] eval_loop_Op [OF g3]
        eval_loop_Op [OF g4(1)] eval_loop_Op [OF g4(2)] op_stack_def stack_op_dup
        eval_step_run eval_step_push standard_ops eval_op_standard op_digest_hash160 op_equal_def
        op_checksig_def bool_vch_def bytes_of_u160_inj eq_commute
        push_result_def set_stack_def stop_def Let_def case_prod_beta split: list.split)
qed


lemma GetOp2_push_small:
  assumes "length v < OP_PUSHDATA1" and "length pc < 1000"
  shows "GetOp2 (push_data v @ pc) = Op pc (length v) v"
proof -
  have "unat (word_of_nat (length v) :: byte) = length v"
    using assms by (simp add: unat_byte_of_nat opcode_defs)
  then show ?thesis using assms
    by (simp add: push_data_def GetOp2.simps(2) get_operand_def Let_def opcode_defs)
qed

lemma EvalScript_two_pushes:
  assumes "length a < OP_PUSHDATA1" and "length b < OP_PUSHDATA1"
  shows "EvalScript E chk [] (push_data a @ push_data b) c = (True, [b, a], c)"
proof -
  have lb: "length (push_data b) < 1000" "length (push_data a) < 1000"
    using assms by (simp_all add: push_data_def opcode_defs)
  have g1: "GetOp2 (push_data a @ push_data b) = Op (push_data b) (length a) a"
    using assms(1) lb(1) by (rule GetOp2_push_small)
  have g2: "GetOp2 (push_data b) = Op [] (length b) b"
    using GetOp2_push_small [OF assms(2), of "[]"] by simp
  show ?thesis
    using assms lb
    by (simp add: EvalScript_def eval_loop_Op [OF g1] eval_loop_Op [OF g2] eval_step_push opcode_defs)
qed

lemma CastToBool_bool_vch [simp]: "CastToBool (bool_vch b) = b"
  by (simp add: bool_vch_def vchTrue_def vchFalse_def)

text \<open>C19: An input that pushes a signature and a public key spends a pay-to-pubkey-hash output
  exactly when the key hashes to the address and the signature verifies for that key, whatever
  (valid) entries the signature cache holds.\<close>

theorem VerifyScript_p2pkh:
  assumes "length vchSig < OP_PUSHDATA1" "length pk < OP_PUSHDATA1" "cache_ok V c"
  shows "fst (VerifyScript V (push_data vchSig @ push_data pk) (SetDestination (CKeyID k)) txTo nIn p2sh h c)
    \<longleftrightarrow> Hash160 (sv_ssl V) pk = k \<and>
      sig_verdict V txTo nIn h vchSig pk
        (snd (FindAndDelete (SetDestination (CKeyID k)) (push_data vchSig)))"
proof -
  have no: "\<not> IsPayToScriptHash (SetDestination (CKeyID k))"
    by (simp add: IsPayToScriptHash_def length_SetDestination del: SetDestination.simps)
  show ?thesis
    unfolding VerifyScript_verdict(1) [OF assms(3)] verify_verdict_def verify_with_def
    using assms(1,2) no
    by (simp add: EvalScript_two_pushes EvalScript_p2pkh pure_checker_def del: SetDestination.simps)
qed

text \<open>C20: A pay-to-script-hash spend that is accepted comes from a push-only input whose last
  push is a script with the hash in the output, and that script, run on the pushes before it,
  ends with true on top of its stack.\<close>

theorem VerifyScript_p2sh:
  assumes "cache_ok V c" "IsPayToScriptHash spk"
    and "fst (VerifyScript V scriptSig spk txTo nIn True h c)"
  shows "IsPushOnly scriptSig \<and>
    (\<exists>redeem rest top rest'.
      EvalScript (sv_ssl V) (pure_checker (sig_verdict V txTo nIn h)) [] scriptSig () = (True, redeem # rest, ()) \<and>
      bytes_of_u160 (Hash160 (sv_ssl V) redeem) = take 20 (drop 2 spk) \<and>
      EvalScript (sv_ssl V) (pure_checker (sig_verdict V txTo nIn h)) rest redeem () = (True, top # rest', ()) \<and>
      CastToBool top)"
proof -
  let ?e = "EvalScript (sv_ssl V) (pure_checker (sig_verdict V txTo nIn h))"
  obtain ok stk where first: "?e [] scriptSig () = (ok, stk, ())" by (metis prod_cases3 old.unit.exhaust)
  have v: "fst (verify_with ?e scriptSig spk True ())"
    using assms(3) VerifyScript_verdict(1) [OF assms(1)] by (simp add: verify_verdict_def)
  then have ok: "ok" using first by (auto simp: verify_with_def split: bool.splits)
  show ?thesis
  proof (cases stk)
    case Nil
    with v ok first show ?thesis by (simp add: verify_with_def EvalScript_p2sh [OF assms(2)])
  next
    case (Cons redeem rest)
    obtain ok3 stk3 where third: "?e rest redeem () = (ok3, stk3, ())" by (metis prod_cases3 old.unit.exhaust)
    with v ok first Cons assms(2) show ?thesis
      by (cases stk3) (auto simp: verify_with_def EvalScript_p2sh [OF assms(2)] Let_def
          split: if_splits bool.splits)
  qed
qed


text \<open>The scripts and templates as bytes, and reading them.\<close>

lemma script_bytes:
  "SetDestination (CKeyID k) = 0x76 # 0xa9 # 20 # bytes_of_u160 k @ [0x88, 0xac]"
  "SetDestination (CScriptID k) = 0xa9 # 20 # bytes_of_u160 k @ [0x87]"
  "template_pubkey = [0xfe, 0xac]"
  "template_pubkeyhash = [0x76, 0xa9, 0xfd, 0x88, 0xac]"
  "template_multisig = [0xfa, 0xfb, 0xfa, 0xae]"
  by (simp_all add: push_op_def push_uint160_def template_pubkey_def template_pubkeyhash_def
      template_multisig_def opcode_defs)

lemma GetOp2_cons_op: "78 < unat c \<Longrightarrow> GetOp2 (c # pc) = Op pc (unat c) []"
  by (rule GetOp2_op) (simp add: opcode_defs)

lemma GetOp2_push20':
  assumes "length pc < 100"
  shows "GetOp2 (20 # bytes_of_u160 k @ pc) = Op pc 20 (bytes_of_u160 k)"
  using assms by (intro GetOp2_push20) simp_all

lemma match_template_step:
  assumes "GetOp2 pc1 = Op pc1' o1 v1" "GetOp2 pc2 = Op pc2' o2 v2" "o2 \<noteq> OP_PUBKEYS"
  shows "match_template pc1 pc2 sols =
    (case match_operand o1 v1 o2 v2 sols of
       None \<Rightarrow> None | Some sols' \<Rightarrow> match_template pc1' pc2' sols')"
proof -
  have "pc1 \<noteq> []" using assms(1) by auto
  then show ?thesis using assms by (subst match_template.simps) simp
qed

lemma match_template_Nil [simp]: "match_template [] [] sols = Some sols"
  by (simp add: match_template.simps)

lemma Solver_pubkeyhash:
  "Solver (SetDestination (CKeyID k)) = (True, TX_PUBKEYHASH, [bytes_of_u160 k])"
proof -
  note step = match_template_step [OF GetOp2_cons_op GetOp2_cons_op]
    match_template_step [OF GetOp2_push20' GetOp2_cons_op]
  have no: "\<not> IsPayToScriptHash (SetDestination (CKeyID k))"
    by (simp add: IsPayToScriptHash_def length_SetDestination del: SetDestination.simps)
  have pk: "match_template (SetDestination (CKeyID k)) template_pubkey [] = None"
    unfolding script_bytes
    by (simp add: step opcode_defs match_operand_def key_size_ok_def)
  have pkh: "match_template (SetDestination (CKeyID k)) template_pubkeyhash [] = Some [bytes_of_u160 k]"
    unfolding script_bytes
    by (simp add: step opcode_defs match_operand_def)
  have "unat (hd (SetDestination (CKeyID k))) \<noteq> OP_RETURN"
    unfolding script_bytes by (simp add: opcode_defs)
  then show ?thesis
    using no pk pkh by (simp add: Solver_def mTemplates_def del: SetDestination.simps)
qed

lemma Solver_scripthash:
  "Solver (SetDestination (CScriptID k)) = (True, TX_SCRIPTHASH, [bytes_of_u160 k])"
proof -
  have "IsPayToScriptHash (SetDestination (CScriptID k))"
    unfolding script_bytes by (simp add: IsPayToScriptHash_def opcode_defs nth_append)
  then show ?thesis unfolding Solver_def script_bytes by simp
qed

lemma uint160_of_bytes [simp]: "uint160_of (bytes_of_u160 k) = k"
  by (simp add: uint160_of_def codec_simps)

text \<open>C21: The destination that a script pays to is the one it was written for.\<close>

theorem ExtractDestination_SetDestination:
  assumes "d \<noteq> CNoDestination"
  shows "ExtractDestination E (SetDestination d) = Some d"
  using assms
  by (cases d) (simp_all add: ExtractDestination_def Solver_pubkeyhash Solver_scripthash
      del: SetDestination.simps)


end
