(* ===== verification/Witnesses.thy ===== *)
theory Witnesses
  imports Samples Tx_Message Script_Standard
begin

text \<open>
  The properties at concrete inputs: for every property with hypotheses, an input where they
  hold. The libraries are the stand-ins of \<open>Samples\<close>; keys, scripts, transactions, blocks,
  chains and pools are built here and evaluated.
\<close>

subsection \<open>Scripts, keys and amounts\<close>

definition sample_cache :: sigcache where
  "sample_cache = \<lparr>sc_setValid = [], sc_draws = 0\<rparr>"

lemma sample_cache_ok [simp]: "cache_ok V sample_cache"
  by (simp add: sample_cache_def cache_ok_def)

theorem VerifyScript_p2pkh_witness:
  "length [1, 2, 3 :: byte] < OP_PUSHDATA1 \<and> length sample_pub < OP_PUSHDATA1 \<and> cache_ok sample_env sample_cache \<and>
   (fst (VerifyScript sample_env (push_data [1, 2, 3] @ push_data sample_pub) (SetDestination (CKeyID 9))
          sample_pay 0 True SIGHASH_ALL sample_cache)
    \<longleftrightarrow> Hash160 (sv_ssl sample_env) sample_pub = 9 \<and>
      sig_verdict sample_env sample_pay 0 SIGHASH_ALL [1, 2, 3] sample_pub
        (snd (FindAndDelete (SetDestination (CKeyID 9)) (push_data [1, 2, 3]))))"
  using VerifyScript_p2pkh [of "[1, 2, 3]" sample_pub sample_env sample_cache 9 sample_pay 0 True SIGHASH_ALL]
  by (simp add: sample_pub_def OP_PUSHDATA1_def)

theorem ExtractDestination_witness:
  "CScriptID 7 \<noteq> CNoDestination \<and> ExtractDestination sample_ssl (SetDestination (CScriptID 7)) = Some (CScriptID 7)"
  using ExtractDestination_SetDestination [of "CScriptID 7" sample_ssl] by simp

theorem CheckProofOfWork_witness:
  "bn_documented sample_ssl \<and> (CheckProofOfWork sample_ssl 80 0x1e0fffff \<longleftrightarrow>
    0 < SetCompact 0x1e0fffff \<and> SetCompact 0x1e0fffff \<le> bnProofOfWorkLimit \<and> uint (80 :: uint256) \<le> SetCompact 0x1e0fffff)"
  using CheckProofOfWork_iff [of sample_ssl 80 "0x1e0fffff"] by simp

theorem GetProofOfStakeReward_witness:
  "0 \<le> sint (400 :: int64) \<and> sint (400 :: int64) < 2 ^ 40 \<and> sint (GetProofOfStakeReward 400 1000) =
    (if FORK_TIME < uint (1000 :: uint32) then min (1000 * COIN) (sint (400 :: int64) * 7500000 div 365)
     else sint (400 :: int64) * 2000000 div 365)"
  using GetProofOfStakeReward_value [of 400 1000] by simp

theorem CheckTransaction_values_witness:
  "fst (CheckTransaction sample_pay) \<and> distinct (map ti_prevout (tx_vin sample_pay)) \<and>
    (\<exists>tot. GetValueOut sample_pay = Some tot \<and> sint tot = 2000000)"
proof -
  have "fst (CheckTransaction sample_pay)"
    by (simp add: CheckTransaction_def sample_pay_def IsCoinBase_def IsCoinStake_def COutPoint_IsNull_def CTxOut_IsEmpty_def size_tx_def GetSerializeSize_vector_def GetSerializeSize_bytes_def GetSizeOfCompactSize_def size_txin_def size_txout_def MAX_BLOCK_SIZE_def MoneyRange_def money_defs DoS_def sample_pub_def push_data_def push_op_def OP_PUSHDATA1_def OP_CHECKSIG_def)
  with CheckTransaction_values [OF this] show ?thesis by (auto simp: sample_pay_def)
qed

theorem Lock_witness:
  "Lock \<lparr>ks_mapKeys = [], ks_mapScripts = [], ks_mapCryptedKeys = [(3, [1], [2])], ks_vMasterKey = [9], ks_fUseCrypto = True\<rparr> =
     (True, \<lparr>ks_mapKeys = [], ks_mapScripts = [], ks_mapCryptedKeys = [(3, [1], [2])], ks_vMasterKey = [], ks_fUseCrypto = True\<rparr>) \<and>
   GetKey sample_libs \<lparr>ks_mapKeys = [], ks_mapScripts = [], ks_mapCryptedKeys = [(3, [1], [2])], ks_vMasterKey = [], ks_fUseCrypto = True\<rparr> 3 = Some None"
proof -
  have "Lock \<lparr>ks_mapKeys = [], ks_mapScripts = [], ks_mapCryptedKeys = [(3, [1], [2])], ks_vMasterKey = [9], ks_fUseCrypto = True\<rparr> =
     (True, \<lparr>ks_mapKeys = [], ks_mapScripts = [], ks_mapCryptedKeys = [(3, [1], [2])], ks_vMasterKey = [], ks_fUseCrypto = True\<rparr>)"
    by (simp add: Lock_def SetCrypted_def)
  with Lock_hides_keys [OF this, of sample_libs] show ?thesis by simp
qed

subsection \<open>Chains and scripts\<close>

definition sample_index :: "int \<Rightarrow> uint32 \<Rightarrow> CBlockIndex" where
  "sample_index h t = \<lparr>bi_hash = word_of_int (h + 1000 * uint t), bi_pprev = (if h = 0 then None else Some (word_of_int h)),
     bi_pnext = None, bi_nFile = 1, bi_nBlockPos = 0, bi_bnChainTrust = h, bi_nHeight = h, bi_nMint = 0,
     bi_nMoneySupply = 0, bi_nFlags = 0, bi_nStakeModifier = 0, bi_nStakeModifierChecksum = 0,
     bi_prevoutStake = COutPoint_SetNull, bi_nStakeTime = 0, bi_hashProofOfStake = 0, bi_nVersion = 1,
     bi_hashMerkleRoot = 0, bi_nTime = t, bi_nBits = 0x1e0fffff, bi_nNonce = 0\<rparr>"

definition sample_chain :: pindex where
  "sample_chain = [sample_index 2 1200, sample_index 1 1100, sample_index 0 1000]"

lemmas eval_simps = EvalScript_def eval_start_def eval_loop.simps GetOp2.simps get_operand_def
  eval_step_def eval_exec_def eval_op_def fExec_of_def count_op_def disabled_opcode_def set_stack_def
  stop_def opcode_defs op_push_number_def op_stack_def stack_op_def

theorem EvalScript_static_witness:
  "EvalScript sample_ssl (\<lambda>c _ _ _. (False, c)) [] [1, 7, 0x76] () = (True, [[7], [7]], ()) \<and>
    (\<exists>ops. script_ops [1, 7, 0x76] = Some ops \<and> nesting 0 ops = Some 0)"
proof -
  have "EvalScript sample_ssl (\<lambda>c _ _ _. (False, c)) [] [1, 7, 0x76] () = (True, [[7], [7]], ())"
    by (simp add: eval_simps)
  with EvalScript_static [OF this] show ?thesis by blast
qed

theorem GetNextTargetRequired_witness:
  "bn_documented sample_ssl \<and> chain_heights sample_chain \<and>
    0 \<le> SetCompact (bi_nBits (hd (GetLastBlockIndex sample_chain False))) \<and>
    SetCompact (GetNextTargetRequired sample_ssl sample_chain False) \<le> bnProofOfWorkLimit"
proof -
  have "chain_heights sample_chain" by (simp add: sample_chain_def sample_index_def)
  moreover have "0 \<le> SetCompact (bi_nBits (hd (GetLastBlockIndex sample_chain False)))"
    by (simp add: sample_chain_def sample_index_def bi_IsProofOfStake_def SetCompact_def)
  ultimately show ?thesis using GetNextTargetRequired_bounds [of sample_ssl sample_chain False] by simp
qed

theorem find_fork_witness:
  "\<exists>f. find_fork sample_chain (sample_index 2 1300 # tl sample_chain) = Some f \<and> suffix_of f sample_chain \<and>
    suffix_of (tl sample_chain) f"
proof -
  have "\<exists>f. find_fork sample_chain (sample_index 2 1300 # tl sample_chain) = Some f \<and> suffix_of f sample_chain \<and>
    suffix_of f (sample_index 2 1300 # tl sample_chain) \<and>
    (\<forall>s. suffix_of s sample_chain \<longrightarrow> suffix_of s (sample_index 2 1300 # tl sample_chain) \<longrightarrow> suffix_of s f)"
    by (rule find_fork_is_fork [of _ _ "sample_index 0 1000"])
      (simp_all add: sample_chain_def suffix_of_Cons, simp_all add: sample_index_def)
  moreover have "suffix_of (tl sample_chain) sample_chain" "suffix_of (tl sample_chain) (sample_index 2 1300 # tl sample_chain)"
    by (simp_all add: sample_chain_def suffix_of_Cons)
  ultimately show ?thesis by blast
qed

theorem GetMedianTimePast_witness:
  "sample_chain \<noteq> [] \<and> GetMedianTimePast sample_chain \<in> {1000, 1100, 1200}"
proof -
  have "sample_chain \<noteq> []" "set (map bi_GetBlockTime (take 11 sample_chain)) = {1000, 1100, 1200}"
    by (auto simp: sample_chain_def sample_index_def bi_GetBlockTime_def)
  with GetMedianTimePast_median [of sample_chain] show ?thesis by (auto simp: Let_def)
qed

theorem CheckMerkleBranch_witness:
  "1 < length (bk_vtx sample_block) \<and>
    CheckMerkleBranch sample_ssl (GetHash sample_ssl (bk_vtx sample_block ! 1)) (GetMerkleBranch sample_ssl sample_block 1) (int 1) =
      fst (BuildMerkleTree sample_ssl sample_block)"
proof -
  have "1 < length (bk_vtx sample_block)" by (simp add: sample_block_def Let_def)
  moreover have "bk_vMerkleTree sample_block = []" by (simp add: sample_block_def Let_def CBlock_new_def)
  ultimately show ?thesis using CheckMerkleBranch_GetMerkleBranch [of 1 sample_block sample_ssl] by simp
qed

theorem p2sh_witness:
  "IsPayToScriptHash (SetDestination (CScriptID 257)) \<and>
    fst (VerifyScript sample_env (push_data [1, 1]) (SetDestination (CScriptID 257)) sample_pay 0 True SIGHASH_ALL sample_cache) \<and>
    IsPushOnly (push_data [1, 1])"
proof -
  have 1: "IsPayToScriptHash (SetDestination (CScriptID 257))"
    by (simp add: IsPayToScriptHash_def push_uint160_def push_op_def opcode_defs nth_append)
  have "Hash160 sample_ssl [1, 1] = 257"
    by (simp add: Hash160_def sample_ssl_def le_value_le_bytes)
  with 1 have 2: "fst (VerifyScript sample_env (push_data [1, 1]) (SetDestination (CScriptID 257)) sample_pay 0 True SIGHASH_ALL sample_cache)"
    by (simp add: VerifyScript_def verify_with_def push_data_def push_uint160_def push_op_def eval_simps
      op_digest_def op_equal_def push_result_def bool_vch_def vchTrue_def IsPushOnly.simps)
  from VerifyScript_p2sh [OF sample_cache_ok 1 2] 1 2 show ?thesis by blast
qed

subsection \<open>Keys, signatures, blocks and files\<close>

definition sample_spk :: "byte list" where
  "sample_spk = push_data sample_pub @ push_op OP_CHECKSIG"

lemma sample_spk_bytes: "sample_spk = 33 # sample_pub @ [172]"
  by (simp add: sample_spk_def push_data_def push_op_def opcode_defs sample_pub_def)

lemma sample_solver: "Solver sample_spk = (True, TX_PUBKEY, [sample_pub])"
  by (simp add: sample_spk_bytes Solver_def IsPayToScriptHash_def opcode_defs mTemplates_def template_pubkey_def
     push_op_def match_template.simps GetOp2.simps get_operand_def match_operand_def key_size_ok_def sample_pub_def)

definition sample_keyid :: uint160 where
  "sample_keyid = CPubKey_GetID sample_ssl sample_pub"

definition sample_keys :: keystore where
  "sample_keys = \<lparr>ks_mapKeys = [(sample_keyid, be_bytes 32 7, False)], ks_mapScripts = [],
     ks_mapCryptedKeys = [], ks_vMasterKey = [], ks_fUseCrypto = False\<rparr>"

lemma sample_key:
  "SetSecret sample_ec (CKey_Reset sample_ec) (be_bytes 32 7) False = Some \<lparr>ck_pkey = 7, ck_fSet = True, ck_fCompressedPubKey = False\<rparr>"
  "GetPubKey sample_ec \<lparr>ck_pkey = 7, ck_fSet = True, ck_fCompressedPubKey = False\<rparr> = Some sample_pub"
  "GetSecret sample_ec \<lparr>ck_pkey = 7, ck_fSet = True, ck_fCompressedPubKey = False\<rparr> = Some (be_bytes 32 7, False)"
  by (simp_all add: SetSecret_def CKey_Reset_def sample_ec_def be_value_be_bytes GetPubKey_def GetSecret_def)
    (simp add: be_bytes_32_7, simp add: sample_pub_def)

lemma sample_ecdsa_documented [simp]: "ecdsa_documented sample_ec"
proof -
  have "(256 :: nat) ^ 32 = 256 * 256 ^ 31" by simp
  then have "word_of_nat (k mod 256 ^ 32) = (word_of_nat k :: byte)" for k
    by (simp only: word_unat_eq_iff unat_byte_of_nat mod_mod_cancel dvd_triv_left)
  then show ?thesis
    by (auto simp: ecdsa_documented_def sample_ec_def sample_sig_def be_value_def be_bytes_def le_value_le_bytes)
qed

theorem EncryptKeys_witness:
  "sorted_wrt (<) (map fst (ks_mapKeys sample_keys)) \<and>
    (\<exists>ks'. EncryptKeys sample_libs (replicate 32 5) sample_keys = Some (True, ks') \<and> ks_mapKeys ks' = [] \<and>
      holds_secret sample_libs (replicate 32 5) ks' sample_keyid (be_bytes 32 7))"
proof -
  have k: "list_all (key_entry_ok sample_libs) (ks_mapKeys sample_keys)"
    by (simp add: sample_keys_def key_entry_ok_def sample_key sample_keyid_def)
  obtain ks' where e: "EncryptKeys sample_libs (replicate 32 5) sample_keys = Some (True, ks')"
    by (simp add: EncryptKeys_def sample_keys_def sample_key EncryptSecret_def CCrypter_SetKey_def Let_def
      CCrypter_Encrypt_def WALLET_CRYPTO_KEY_SIZE_def sample_evp_def AddCryptedKey_def SetCrypted_def)
  have m: "(sample_keyid, be_bytes 32 7, False) \<in> set (ks_mapKeys sample_keys)" "sorted_wrt (<) (map fst (ks_mapKeys sample_keys))"
    by (simp_all add: sample_keys_def)
  from EncryptKeys_keeps_keys [OF e _ k m(2)] e m show ?thesis by auto
qed

theorem signing_needs_keys_witness:
  "\<exists>script. Solver_sign sample_ssl sample_ec (store_view sample_libs sample_keys) sample_spk 80 SIGHASH_ALL = Some (True, script, TX_PUBKEY) \<and>
    IsMine sample_ssl (store_view sample_libs sample_keys) sample_spk = Some True"
proof -
  have s: "Solver_sign sample_ssl (kl_ec sample_libs) (store_view sample_libs sample_keys) sample_spk 80 SIGHASH_ALL =
      Some (True, push_data (sample_sig 7 80 @ [ucast SIGHASH_ALL]), TX_PUBKEY)"
    by (simp add: Solver_sign_def sample_solver Sign1_def store_view_def GetKey_def sample_keys_def Basic_GetKey_def sample_keyid_def
      sample_key CKey_Sign_def Let_def) (simp add: sample_ec_def, blast)
  from signing_needs_keys [OF s] s show ?thesis by simp
qed

lemma le_bytes_32: "32 \<le> length bs \<Longrightarrow> le_bytes 32 (le_value bs) = take 32 bs"
proof -
  assume len: "32 \<le> length bs"
  have "le_value bs = le_value (take 32 bs) + 256 ^ 32 * le_value (drop 32 bs)"
    using le_value_append [of "take 32 bs" "drop 32 bs"] len by simp
  then have "le_value bs mod 256 ^ 32 = le_value (take 32 bs)"
    using le_value_bound [of "take 32 bs"] len by simp
  then show ?thesis
    using le_bytes_le_value [of "take 32 bs" 32] len
    by (metis le_bytes_le_value le_value_le_bytes length_le_bytes length_take min.absorb2)
qed

lemma sample_Hash:
  assumes "32 \<le> length bs"
  shows "Hash sample_ssl bs = word_of_nat (le_value (take 32 bs))"
  using assms by (simp add: Hash_def sample_ssl_def le_bytes_32)

lemma sample_Hash_short:
  assumes "length bs \<le> 32" shows "Hash sample_ssl bs = word_of_nat (le_value bs)"
proof -
  have "le_value bs < 256 ^ 32"
    using le_value_bound [of bs] power_increasing [OF assms, of "256 :: nat"] by linarith
  then show ?thesis by (simp add: Hash_def sample_ssl_def le_value_le_bytes)
qed

lemma unat_u256_mod: "unat (word_of_nat n :: uint256) mod 256 = n mod 256"
proof -
  have "(256 :: nat) dvd 2 ^ LENGTH(256)" by simp
  then show ?thesis by (simp only: unat_of_nat mod_mod_cancel)
qed

lemma sample_Hash_mod:
  assumes "32 \<le> length bs" shows "unat (Hash sample_ssl bs) mod 256 = unat (hd bs)"
proof -
  from assms obtain b r where t: "take 32 bs = b # r" by (cases "take 32 bs") auto
  then have "hd bs = b" by (cases bs) auto
  moreover have "le_value (b # r) mod 256 = unat b" by simp
  ultimately show ?thesis unfolding sample_Hash [OF assms] t unat_u256_mod by simp
qed

lemma sample_hash_fresh:
  assumes "32 \<le> size_tx tx" shows "unat (GetHash sample_ssl tx) mod 256 = unat (tx_nVersion tx) mod 256"
proof -
  have "bytes_of_u32 w = word_of_nat (unat w) # le_bytes 3 (unat w div 256)" for w
    using le_bytes.simps(2) [of 3] by (simp add: bytes_of_u32_def)
  then have "hd (ser_tx tx) = word_of_nat (unat (tx_nVersion tx))" by (simp add: ser_tx_def)
  moreover have "length (ser_tx tx) = size_tx tx" by (rule tx_codec.size_enc [symmetric])
  ultimately show ?thesis using assms
    by (simp only: GetHash_def sample_Hash_mod unat_byte_of_nat)
qed

lemma length_sample_pub [simp]: "length sample_pub = 33"
  by (simp add: sample_pub_def)

lemmas sample_size = size_tx_def GetSerializeSize_vector_def GetSerializeSize_bytes_def GetSizeOfCompactSize_def
  size_txin_def size_txout_def

lemma sample_sizes: "32 \<le> size_tx sample_pay" "32 \<le> size_tx sample_coinbase"
  by (simp_all add: sample_pay_def sample_coinbase_def sample_size)

lemma sample_hashes_differ: "GetHash sample_ssl sample_coinbase \<noteq> GetHash sample_ssl sample_pay"
  using sample_hash_fresh [of sample_coinbase] sample_hash_fresh [of sample_pay]
  by (auto simp: sample_sizes) (simp add: sample_pay_def sample_coinbase_def)

lemma sample_block_fields:
  "bk_vtx sample_block = [sample_coinbase, sample_pay]" "bk_nTime sample_block = 1000" "bk_nBits sample_block = 0x1e0fffff"
  "bk_hashBlock sample_block = 0" "bk_vchBlockSig sample_block = sample_sig 7 80" "bk_hashPrevBlock sample_block = 9"
  "bk_vMerkleTree sample_block = []" "bk_hashMerkleRoot sample_block = fst (BuildMerkleTree sample_ssl sample_block)"
  by (simp_all add: sample_block_def Let_def CBlock_new_def BuildMerkleTree_def)

lemma sample_checked:
  "fst (CheckTransaction sample_pay)" "fst (CheckTransaction sample_coinbase)"
  by (simp_all add: CheckTransaction_def sample_pay_def sample_coinbase_def IsCoinBase_def IsCoinStake_def COutPoint_IsNull_def COutPoint_SetNull_def
     CTxOut_IsEmpty_def sample_size MAX_BLOCK_SIZE_def MoneyRange_def money_defs DoS_def sample_pub_def push_data_def push_op_def opcode_defs)

lemma sample_kinds:
  "IsCoinBase sample_coinbase" "\<not> IsCoinBase sample_pay" "\<not> IsCoinStake sample_coinbase" "\<not> IsCoinStake sample_pay"
  "tx_nTime sample_coinbase = 1000" "tx_nTime sample_pay = 1000"
  by (simp_all add: sample_pay_def sample_coinbase_def IsCoinBase_def IsCoinStake_def COutPoint_IsNull_def COutPoint_SetNull_def)

lemma sample_block_size: "size_block sample_block \<le> MAX_BLOCK_SIZE"
  by (simp add: size_block_def sample_block_fields sample_pay_def sample_coinbase_def sample_size MAX_BLOCK_SIZE_def sample_sig_def
     push_data_def push_op_def opcode_defs)

lemma sample_block_hash: "CBlock_GetHash sample_node sample_block = 80"
  by (simp add: CBlock_GetHash_def sample_block_fields sample_node_def ser_header_def)

lemma sample_pow: "CheckProofOfWork sample_ssl 80 0x1e0fffff"
  by (simp add: CheckProofOfWork_iff SetCompact_def bnProofOfWorkLimit_def)

lemma sample_sigops: "GetLegacySigOpCount sample_coinbase = 1" "GetLegacySigOpCount sample_pay = 1"
  by (simp_all add: GetLegacySigOpCount_def sample_pay_def sample_coinbase_def GetSigOpCount_def count_sigops.simps push_data_def push_op_def opcode_defs
     GetOp2.simps get_operand_def sample_pub_def)

lemma sample_sig_checks: "check_block_sig sample_node sample_block sample_pub"
proof -
  have "CKey_Sign sample_ec \<lparr>ck_pkey = 7, ck_fSet = True, ck_fCompressedPubKey = False\<rparr> 80 = (True, sample_sig 7 80)"
    by (simp add: CKey_Sign_def sample_ec_def)
  from ecdsa_sign_verifies [OF sample_ecdsa_documented sample_key(2) this] show ?thesis
    by (auto simp: check_block_sig_def sample_block_hash sample_block_fields)
qed

lemma sample_block_signed: "CheckBlockSignature sample_node sample_block"
  using sample_sig_checks
  by (simp add: CheckBlockSignature_def sample_block_hash genesis_hash_def hashGenesisBlockOfficial_def
      sample_node_def [THEN arg_cong [of _ _ nd_fTestNet]] sample_block_fields IsProofOfStake_def sample_kinds)
   (simp add: sample_coinbase_def sample_solver [unfolded sample_spk_def])

theorem CheckBlock_structure_witness:
  "fst (CheckBlock sample_node 2000 True True True sample_block) \<and>
    (\<exists>cb txs. bk_vtx sample_block = cb # txs \<and> IsCoinBase cb \<and> list_all (\<lambda>tx. \<not> IsCoinBase tx) txs)"
proof -
  have "fst (CheckBlock sample_node 2000 True True True sample_block)"
    using sample_block_size
    by (simp add: CheckBlock_def sample_block_fields GetBlockTime_def sample_checked sample_hashes_differ IsProofOfWork_def IsProofOfStake_def
       sample_kinds sample_block_hash sample_pow sample_sigops sample_block_signed GetClockDrift_def MAX_BLOCK_SIZE_def MAX_BLOCK_SIGOPS_def DoS_def)
  with CheckBlock_structure [OF this] show ?thesis by blast
qed


definition sample_stake :: CTransaction where
  "sample_stake = \<lparr>tx_nVersion = 1, tx_nTime = 1000,
     tx_vin = [\<lparr>ti_prevout = \<lparr>op_hash = 5, op_n = 0\<rparr>, ti_scriptSig = [], ti_nSequence = - 1\<rparr>],
     tx_vout = [\<lparr>to_nValue = 0, to_scriptPubKey = []\<rparr>, \<lparr>to_nValue = 2000000, to_scriptPubKey = sample_spk\<rparr>],
     tx_nLockTime = 0\<rparr>"

definition sample_stake_block :: CBlock where
  "sample_stake_block = CBlock_new\<lparr>bk_hashPrevBlock := 9, bk_nTime := 1000, bk_vtx := [sample_coinbase, sample_stake]\<rparr>"

theorem SignBlock_stake_checks_witness:
  "IsProofOfStake sample_stake_block \<and> CBlock_GetHash sample_node sample_stake_block \<noteq> genesis_hash sample_node \<and>
    (\<exists>b'. SignBlock sample_node (store_view sample_libs sample_keys) sample_stake_block = Some (True, b') \<and>
      CheckBlockSignature sample_node b')"
proof -
  have 1: "IsProofOfStake sample_stake_block"
    by (simp add: sample_stake_block_def sample_stake_def IsProofOfStake_def IsCoinStake_def COutPoint_IsNull_def CTxOut_IsEmpty_def)
  have 2: "CBlock_GetHash sample_node sample_stake_block = 80"
    by (simp add: CBlock_GetHash_def sample_stake_block_def CBlock_new_def sample_node_def ser_header_def)
  then have 3: "CBlock_GetHash sample_node sample_stake_block \<noteq> genesis_hash sample_node"
    by (simp add: genesis_hash_def hashGenesisBlockOfficial_def sample_node_def)
  have "bk_vtx sample_stake_block ! 1 = sample_stake" "to_scriptPubKey (tx_vout sample_stake ! 1) = sample_spk"
    by (simp_all add: sample_stake_block_def sample_stake_def)
  moreover have "ECDSA_sign sample_ec 7 80 = Some (sample_sig 7 80)" by (simp add: sample_ec_def)
  ultimately have 4: "SignBlock sample_node (store_view sample_libs sample_keys) sample_stake_block = Some (True, sample_stake_block\<lparr>bk_vchBlockSig := sample_sig 7 80\<rparr>)"
    using 1 2
    by (simp add: SignBlock_def sample_solver SignBlock_output_def store_view_def GetKey_def sample_keys_def Basic_GetKey_def
      sample_keyid_def CPubKey_GetID_def sample_key CKey_Sign_def)
  from SignBlock_stake_checks [OF _ 1 3 4] 1 3 4 show ?thesis by auto
qed

definition sample_disk :: blockfiles where
  "sample_disk = \<lparr>bf_files = [(1, [1, 2, 3])], bf_nCurrentBlockFile = 1, bf_pchMessageStart = [0xdb, 0xad, 0xbd, 0xda], bf_writable = True\<rparr>"

lemma sample_block_valid: "valid_block sample_block"
  by (simp add: valid_block_def sample_block_fields valid_tx_def valid_txin_def valid_txout_def sample_pay_def sample_coinbase_def
    MAX_SIZE_def push_data_def push_op_def opcode_defs sample_sig_def)

lemma sample_append: "append_loop sample_disk 1 = Some 1"
  by (subst append_loop.simps) (simp add: sample_disk_def file_length_def MAX_SIZE_def)

lemma sample_written: "\<exists>nFile nPos d'. WriteToDisk sample_disk sample_block = Some (nFile, nPos, d')"
proof -
  have "bf_nCurrentBlockFile sample_disk = 1" by (simp add: sample_disk_def)
  then show ?thesis by (simp only: WriteToDisk_def sample_append option.case Let_def) blast
qed

theorem ReadFromDisk_WriteToDisk_witness:
  "\<exists>nFile nPos d'. WriteToDisk sample_disk sample_block = Some (nFile, nPos, d') \<and>
    ReadFromDisk sample_node d' CBlock_new nFile nPos True = Some (sample_block\<lparr>bk_vMerkleTree := [], bk_hashBlock := 0\<rparr>)"
proof -
  obtain nFile nPos d' where w: "WriteToDisk sample_disk sample_block = Some (nFile, nPos, d')" using sample_written by blast
  have "length (bf_pchMessageStart sample_disk) = 4" by (simp add: sample_disk_def)
  moreover have "CheckProofOfWork (nd_ssl sample_node) (nd_Hash9 sample_node (ser_header sample_block)) (bk_nBits sample_block)"
    using sample_block_hash sample_pow by (simp add: CBlock_GetHash_def sample_block_fields)
  ultimately show ?thesis
    using ReadFromDisk_WriteToDisk [OF w _ sample_block_size sample_block_valid, of sample_node] w by blast
qed

theorem ReadFromDisk_tx_position_witness:
  "\<exists>nFile nPos d'. WriteToDisk sample_disk sample_block = Some (nFile, nPos, d') \<and>
    ReadFromDisk_tx d' \<lparr>dp_nFile = nFile, dp_nBlockPos = nPos, dp_nTxPos = tx_position nPos (bk_vtx sample_block) 1\<rparr> = Some sample_pay"
proof -
  obtain nFile nPos d' where w: "WriteToDisk sample_disk sample_block = Some (nFile, nPos, d')" using sample_written by blast
  have "length (bf_pchMessageStart sample_disk) = 4" "1 < length (bk_vtx sample_block)" "bk_vtx sample_block ! 1 = sample_pay"
    by (simp_all add: sample_disk_def sample_block_fields)
  then show ?thesis
    using ReadFromDisk_tx_position [OF w _ sample_block_size sample_block_valid, of 1] w by auto
qed

subsection \<open>Spending an output\<close>

definition sample_prev :: CTransaction where
  "sample_prev = \<lparr>tx_nVersion = 2, tx_nTime = 900,
     tx_vin = [\<lparr>ti_prevout = \<lparr>op_hash = 4, op_n = 0\<rparr>, ti_scriptSig = [], ti_nSequence = - 1\<rparr>],
     tx_vout = [\<lparr>to_nValue = 3000000, to_scriptPubKey = [1, 1]\<rparr>],
     tx_nLockTime = 0\<rparr>"

definition sample_spend :: CTransaction where
  "sample_spend = sample_pay\<lparr>tx_vin :=
     [\<lparr>ti_prevout = \<lparr>op_hash = GetHash sample_ssl sample_prev, op_n = 0\<rparr>, ti_scriptSig = [], ti_nSequence = - 1\<rparr>]\<rparr>"

definition sample_index_prev :: CTxIndex where
  "sample_index_prev = \<lparr>xi_pos = pos_in_memory, xi_vSpent = [CDiskTxPos_SetNull]\<rparr>"

definition sample_inputs :: MapPrevTx where
  "sample_inputs = [(GetHash sample_ssl sample_prev, (sample_index_prev, sample_prev))]"

definition sample_db :: txdb where
  "sample_db = \<lparr>db_tables = \<lparr>tb_tx = [(GetHash sample_ssl sample_prev, sample_index_prev)], tb_blockindex = [],
     tb_hashBestChain = 0, tb_bnBestInvalidTrust = 0\<rparr>, db_saved = None, db_faults = []\<rparr>"

definition sample_pos :: CDiskTxPos where
  "sample_pos = \<lparr>dp_nFile = 1, dp_nBlockPos = 20, dp_nTxPos = 120\<rparr>"

lemma sample_spend_kind: "\<not> IsCoinBase sample_spend" "\<not> IsCoinStake sample_spend" "\<not> CDiskTxPos_IsNull sample_pos"
  by (simp_all add: sample_spend_def sample_pay_def IsCoinBase_def IsCoinStake_def COutPoint_IsNull_def CDiskTxPos_IsNull_def sample_pos_def)

lemma sample_spend_verifies:
  "VerifySignature sample_env sample_prev sample_spend 0 True 0 sample_cache = (True, sample_cache)"
proof -
  have "VerifyScript sample_env [] [1, 1] sample_spend 0 True 0 sample_cache = (True, sample_cache)"
    by (simp add: VerifyScript_def verify_with_def eval_simps IsPayToScriptHash_def)
  then show ?thesis
    by (simp add: VerifySignature_def Let_def sample_spend_def) (simp add: sample_prev_def)
qed

lemma sample_cheap:
  "cheap_loop sample_spend sample_chain sample_inputs 0 (tx_vin sample_spend) = Some (Inr 3000000)"
  by (simp add: sample_spend_def sample_inputs_def sample_index_prev_def)
    (simp add: sample_prev_def sample_pay_def IsCoinBase_def IsCoinStake_def COutPoint_IsNull_def Let_def MoneyRange_def money_defs)

lemma sample_fee: "check_fee sample_spend f 3000000 = Some (DoS 0 True)"
  by (simp add: check_fee_def sample_spend_def sample_pay_def GetValueOut_def MoneyRange_def money_defs default_fee_def GetMinFee_def)

lemma sample_spend_vin:
  "tx_vin sample_spend = [\<lparr>ti_prevout = \<lparr>op_hash = GetHash sample_ssl sample_prev, op_n = 0\<rparr>, ti_scriptSig = [], ti_nSequence = - 1\<rparr>]"
  by (simp add: sample_spend_def)

lemma sample_spend_loop:
  "spend_loop sample_node 0 sample_spend sample_pos fB fM True 0 (tx_vin sample_spend) sample_inputs [] sample_cache =
     (None, if fB \<or> fM then [(GetHash sample_ssl sample_prev, sample_index_prev\<lparr>xi_vSpent := [sample_pos]\<rparr>)] else [], sample_cache)"
proof -
  have "check_input_sig sample_node True sample_prev sample_spend 0 sample_cache = (None, sample_cache)"
    by (simp add: check_input_sig_def sample_spend_verifies)
  moreover have "map_of sample_inputs (GetHash sample_ssl sample_prev) = Some (sample_index_prev, sample_prev)"
    by (simp add: sample_inputs_def)
  moreover have "xi_vSpent sample_index_prev = [CDiskTxPos_SetNull]" "CDiskTxPos_IsNull CDiskTxPos_SetNull"
    by (simp_all add: sample_index_prev_def CDiskTxPos_IsNull_def CDiskTxPos_SetNull_def)
  ultimately show ?thesis by (simp add: sample_spend_vin Let_def)
qed

lemma sample_connects:
  "ConnectInputs sample_node 0 sample_disk sample_db sample_inputs [] sample_pos sample_chain fB False True sample_spend sample_cache =
     (Some (True, 0), if fB then [(GetHash sample_ssl sample_prev, sample_index_prev\<lparr>xi_vSpent := [sample_pos]\<rparr>)] else [], sample_cache)"
  by (simp add: ConnectInputs_def sample_spend_kind sample_cheap sample_fee sample_spend_loop DoS_def)

theorem ConnectInputs_spends_once_witness:
  "\<exists>pool'. ConnectInputs sample_node 0 sample_disk sample_db sample_inputs [] sample_pos sample_chain True False True sample_spend sample_cache =
      (Some (True, 0), pool', sample_cache) \<and>
    (\<forall>t \<in> set (tx_vin sample_spend). unspent (map_of sample_inputs) (ti_prevout t))"
  using ConnectInputs_spends_once [OF sample_connects [of True] sample_spend_kind(1,3)] sample_connects [of True] by blast

theorem ConnectInputs_verifies_witness:
  "fst (ConnectInputs sample_node 0 sample_disk sample_db sample_inputs [] sample_pos sample_chain False False True sample_spend sample_cache) =
      Some (True, 0) \<and>
    input_accepted sample_env sample_spend (map_of sample_inputs) True 0"
  using ConnectInputs_verifies [OF sample_connects [of False] sample_spend_kind(1)] sample_connects [of False]
  by (simp add: sample_spend_vin)

theorem ConnectInputs_values_witness:
  "fst (ConnectInputs sample_node 0 sample_disk sample_db sample_inputs [] sample_pos sample_chain True False True sample_spend sample_cache) =
      Some (True, 0) \<and>
    (\<exists>out. GetValueOut sample_spend = Some out \<and> sint out + MIN_TX_FEE \<le> sum_list (input_values sample_inputs sample_spend))"
  using ConnectInputs_values [OF sample_connects [of True] sample_spend_kind(1)] sample_connects [of True]
  by (simp add: sample_spend_kind)

lemma sample_spend_hash: "GetHash sample_ssl sample_spend \<noteq> GetHash sample_ssl sample_prev"
proof -
  have "32 \<le> size_tx sample_spend" "32 \<le> size_tx sample_prev"
    by (simp_all add: sample_spend_def sample_pay_def sample_prev_def sample_size)
  from sample_hash_fresh [OF this(1)] sample_hash_fresh [OF this(2)] show ?thesis
    by (auto simp: sample_spend_def sample_pay_def) (simp add: sample_prev_def)
qed

lemma sample_fetches:
  "FetchInputs sample_disk sample_db [(GetHash sample_ssl sample_prev, sample_prev)] [] True False [] sample_spend = Inr sample_inputs"
  by (simp add: FetchInputs_def sample_spend_kind sample_spend_vin fetch_prev_def ReadTxIndex_def sample_db_def
      sample_index_prev_def prevout_in_range_def Let_def sample_inputs_def) (simp add: sample_prev_def)

theorem DisconnectInputs_undoes_witness:
  "\<exists>pool' db'. ConnectInputs sample_node 0 sample_disk sample_db sample_inputs [] sample_pos sample_chain True False True sample_spend sample_cache =
      (Some (True, 0), pool', sample_cache) \<and>
    DisconnectInputs sample_ssl (sample_db\<lparr>db_tables := (db_tables sample_db)\<lparr>tb_tx :=
        map_put (GetHash sample_ssl sample_spend) (CTxIndex_new sample_pos (length (tx_vout sample_spend)))
          (fold (\<lambda>(h, x). map_put h x) pool' (tb_tx (db_tables sample_db)))\<rparr>\<rparr>) sample_spend = (True, db') \<and>
    map_of (tb_tx (db_tables db')) = map_of (tb_tx (db_tables sample_db))"
proof -
  have "db_faults sample_db = []" "map_of (tb_tx (db_tables sample_db)) (GetHash sample_ssl sample_spend) = None"
    "list_all (\<lambda>(h, x). list_all (\<lambda>p. CDiskTxPos_IsNull p \<longrightarrow> p = CDiskTxPos_SetNull) (xi_vSpent x)) (tb_tx (db_tables sample_db))"
    using sample_spend_hash by (simp_all add: sample_db_def sample_index_prev_def)
  from DisconnectInputs_undoes [OF sample_fetches sample_connects [of True] sample_spend_kind(1,3) this]
    sample_connects [of True] show ?thesis by auto
qed

subsection \<open>The memory pool\<close>

definition sample_poolenv :: "nat poolenv" where
  "sample_poolenv = \<lparr>pe_node = sample_node, pe_nBestHeight = 2, pe_pindexBest = sample_chain, pe_files = sample_disk,
     pe_db = sample_db\<lparr>db_tables := (db_tables sample_db)\<lparr>tb_tx := []\<rparr>\<rparr>, pe_rate_limited = (\<lambda>_. False), pe_CheckProposal = (\<lambda>_. True)\<rparr>"

definition empty_pool :: mempool where
  "empty_pool = \<lparr>mp_mapTx = [], mp_mapNextTx = [], mp_nTransactionsUpdated = 0\<rparr>"

lemma empty_pool_reach: "pool_reach N empty_pool"
  unfolding empty_pool_def by (rule pool_reach.start)

lemma sample_pay_standard: "IsStandard sample_pay"
proof -
  have "tx_vout sample_pay = [\<lparr>to_nValue = 2000000, to_scriptPubKey = sample_spk\<rparr>]"
    by (simp add: sample_pay_def sample_spk_def)
  moreover have "tx_vin sample_pay = [\<lparr>ti_prevout = \<lparr>op_hash = 5, op_n = 0\<rparr>, ti_scriptSig = [], ti_nSequence = - 1\<rparr>]"
    "tx_nVersion sample_pay = 1"
    by (simp_all add: sample_pay_def)
  ultimately show ?thesis
    by (simp add: IsStandard_def IsStandard_script_def sample_solver IsPushOnly.simps)
qed

lemma sample_pay_checked: "CheckTransaction sample_pay = (True, 0)"
  using sample_checked(1) sample_kinds(2)
  by (auto simp: CheckTransaction_def DoS_def split: if_splits sum.splits)

lemma sample_accepted:
  "mp_accept sample_poolenv False sample_pay empty_pool sample_cache =
     (Some True, False, 0, addUnchecked (GetHash sample_ssl sample_pay) sample_pay empty_pool, sample_cache)"
proof -
  have "IsProposal sample_pay = Some False"
    by (simp add: IsProposal_def sample_pay_def Let_def IsDataCarrier_def push_data_def push_op_def opcode_defs)
  moreover note sample_pay_checked
  moreover have "tx_nLockTime sample_pay = 0" by (simp add: sample_pay_def)
  ultimately show ?thesis
    using sample_pay_standard
    by (simp add: mp_accept_def Let_def sample_poolenv_def sample_kinds mp_exists_def mp_spent_def empty_pool_def list_ex_iff)
qed

theorem mempool_consistent_witness:
  "pool_reach sample_node (addUnchecked (GetHash sample_ssl sample_pay) sample_pay empty_pool) \<and>
    (\<exists>p i. map_of (mp_mapNextTx (addUnchecked (GetHash sample_ssl sample_pay) sample_pay empty_pool)) p =
       Some (GetHash sample_ssl sample_pay, i))"
proof -
  have r: "pool_reach sample_node (addUnchecked (GetHash sample_ssl sample_pay) sample_pay empty_pool)"
    by (rule pool_reach.accept [OF empty_pool_reach _ sample_accepted]) (simp add: sample_poolenv_def)
  moreover have "spends (mp_mapTx (addUnchecked (GetHash sample_ssl sample_pay) sample_pay empty_pool))
      \<lparr>op_hash = 5, op_n = 0\<rparr> (GetHash sample_ssl sample_pay) 0"
    by (simp add: addUnchecked_def spends_def) (simp add: sample_pay_def)
  ultimately show ?thesis using mempool_consistent [OF r] by blast
qed

theorem mp_accept_changes_witness:
  "mp_accept sample_poolenv True sample_coinbase empty_pool sample_cache = (Some False, False, 100, empty_pool, sample_cache) \<and>
    (empty_pool = empty_pool \<or> IsProposal sample_coinbase = Some True)"
proof -
  have "mp_accept sample_poolenv True sample_coinbase empty_pool sample_cache = (Some False, False, 100, empty_pool, sample_cache)"
    using sample_checked(2) by (simp add: mp_accept_def Let_def sample_poolenv_def sample_kinds case_prod_beta)
  with mp_accept_changes [OF this] show ?thesis by auto
qed

subsection \<open>Orphans\<close>

lemma sample_pay_valid: "valid_tx sample_pay"
  by (simp add: valid_tx_def valid_txin_def valid_txout_def sample_pay_def MAX_SIZE_def push_data_def push_op_def opcode_defs)

lemma sample_pay_message: "unser_tx (ser_tx sample_pay) = Some (sample_pay, [])"
  using tx_codec.dec_enc [OF sample_pay_valid, of "[]"] by simp

lemma sample_pay_length: "length (ser_tx sample_pay) \<le> 5000"
  by (simp add: sample_size sample_pay_def push_data_def push_op_def opcode_defs flip: tx_codec.size_enc)

definition one_orphan :: orphans where
  "one_orphan = \<lparr>or_mapOrphanTransactions = [(GetHash sample_ssl sample_pay, ser_tx sample_pay)],
     or_mapByPrev = [(5, [(GetHash sample_ssl sample_pay, ser_tx sample_pay)])]\<rparr>"

lemma sample_orphan: "AddOrphanTx sample_ssl (ser_tx sample_pay) no_orphans = Some (True, one_orphan)"
proof -
  have "map (op_hash \<circ> ti_prevout) (tx_vin sample_pay) = [5]" by (simp add: sample_pay_def)
  then obtain t where "tx_vin sample_pay = [t]" "op_hash (ti_prevout t) = 5" by (auto simp: map_eq_Cons_conv)
  then show ?thesis using sample_pay_length
    by (simp add: AddOrphanTx_def sample_pay_message no_orphans_def one_orphan_def add_by_prev_def map_insert_def map_at_def Let_def)
qed

lemma one_orphan_reach: "orphans_reach sample_ssl one_orphan"
  by (rule orphans_reach.add [OF orphans_reach.start sample_orphan])

theorem orphans_consistent_witness:
  "orphans_reach sample_ssl one_orphan \<and> 5 \<in> msg_prevs (ser_tx sample_pay) \<and> map_of (or_mapByPrev one_orphan) 5 \<noteq> Some []"
proof -
  have "map_of (map_at 5 (or_mapByPrev one_orphan)) (GetHash sample_ssl sample_pay) = Some (ser_tx sample_pay)"
    by (simp add: one_orphan_def map_at_def)
  with orphans_consistent [OF one_orphan_reach] one_orphan_reach show ?thesis by blast
qed

theorem LimitOrphanTxSize_bound_witness:
  "orphans_reach sample_ssl one_orphan \<and>
    (\<exists>ob' d'. LimitOrphanTxSize word_of_nat 0 one_orphan 0 = Some (1, ob', d') \<and> or_mapOrphanTransactions ob' = [])"
proof -
  have "length (or_mapOrphanTransactions one_orphan) = 1" by (simp add: one_orphan_def)
  with LimitOrphanTxSize_bound [OF one_orphan_reach, of word_of_nat 0 0] one_orphan_reach show ?thesis by auto
qed

theorem tx_message_keeps_witness:
  "\<exists>n st'. tx_message sample_poolenv word_of_nat (ser_tx sample_pay)
      \<lparr>ts_pool = empty_pool, ts_orphans = no_orphans, ts_cache = sample_cache, ts_relayed = [], ts_draws = 0\<rparr> = Some (n, st') \<and>
    ts_orphans st' = one_orphan \<and> tx_state_ok sample_node st'"
proof -
  define st where "st = \<lparr>ts_pool = empty_pool, ts_orphans = no_orphans, ts_cache = sample_cache, ts_relayed = [], ts_draws = 0\<rparr>"
  have ok: "tx_state_ok (pe_node sample_poolenv) st"
    using orphans_reach_ok [OF orphans_reach.start, of sample_ssl] empty_pool_reach
    by (simp add: tx_state_ok_def st_def sample_poolenv_def no_orphans_def)
  have "CheckTransaction sample_pay = (True, 0)" by (rule sample_pay_checked)
  moreover have "tx_nLockTime sample_pay = 0" by (simp add: sample_pay_def)
  moreover have "FetchInputs (pe_files sample_poolenv) (pe_db sample_poolenv) [] [] False False [] sample_pay = Inl (0, False)"
    by (simp add: FetchInputs_def sample_kinds) (simp add: sample_pay_def sample_poolenv_def fetch_prev_def ReadTxIndex_def)
  ultimately have a: "mp_accept sample_poolenv True sample_pay empty_pool sample_cache = (Some False, True, 0, empty_pool, sample_cache)"
    using sample_pay_standard
    by (simp add: mp_accept_def Let_def sample_kinds mp_exists_def mp_spent_def empty_pool_def list_ex_iff accept_inputs_def)
      (simp add: sample_poolenv_def ContainsTx_def)
  have l: "LimitOrphanTxSize word_of_nat MAX_ORPHAN_TRANSACTIONS one_orphan 0 = Some (0, one_orphan, 0)"
    by (simp add: LimitOrphanTxSize_def limit_loop.simps one_orphan_def MAX_ORPHAN_TRANSACTIONS_def MAX_BLOCK_SIZE_def)
  have t: "tx_message sample_poolenv word_of_nat (ser_tx sample_pay) st = Some (0, st\<lparr>ts_orphans := one_orphan\<rparr>)"
    using a sample_orphan l by (simp add: tx_message_def sample_pay_message st_def) (simp add: sample_poolenv_def)
  from tx_message_keeps [OF ok t] t show ?thesis by (simp add: st_def sample_poolenv_def)
qed

end
