(* ===== verification/Vote_Witnesses.thy ===== *)
theory Vote_Witnesses
  imports Vote_Rules Witnesses
begin

text \<open>The properties of voting at concrete proposals, votes and tallies.\<close>

definition loc_a :: VoteLocation where "loc_a = \<lparr>vl_nMostSignificantBit = 27, vl_nLeastSignificantBit = 26\<rparr>"
definition loc_b :: VoteLocation where "loc_b = \<lparr>vl_nMostSignificantBit = 25, vl_nLeastSignificantBit = 24\<rparr>"

definition vote_a :: CVoteObject where "vote_a = Vote (CVoteObject_new 11 loc_a) 1"
definition vote_b :: CVoteObject where "vote_b = Vote (CVoteObject_new 12 loc_b) 2"

definition sample_tally :: CVoteTally where
  "sample_tally = \<lparr>vt_nHeight = 100, vt_mapVotes = [(11, \<lparr>vs_nBlockStart = 90, vs_nCheckSpan = 50, vs_nYesTally = 3, vs_nNoTally = 0\<rparr>)],
     vt_mapLocations = [(11, loc_a), (12, loc_b)]\<rparr>"

lemma loc_bits_ab: "loc_bits loc_a = {26 .. 27}" "loc_bits loc_b = {24 .. 25}"
  by (simp_all add: loc_bits_def loc_a_def loc_b_def)

theorem votes_are_counted_witness:
  "list_all well_cast [vote_a, vote_b] \<and> (0x50000000 :: uint32) AND VOTEMASK = 0 \<and>
    GetSummary (ProcessNewVotes (0x50000000 OR GetCombinedVotes [vote_a, vote_b]) sample_tally) 11 =
      Some \<lparr>vs_nBlockStart = 90, vs_nCheckSpan = 50, vs_nYesTally = 4, vs_nNoTally = 0\<rparr>"
proof -
  have 1: "list_all well_cast [vote_a, vote_b]"
    by (simp add: well_cast_def vote_a_def vote_b_def Vote_def CVoteObject_new_def loc_bits_ab)
      (simp add: proper_loc_def loc_a_def loc_b_def)
  have 2: "(0x50000000 :: uint32) AND VOTEMASK = 0" by (simp add: VOTEMASK_def)
  have 3: "\<forall>v \<in> set [vote_a, vote_b]. \<forall>v' \<in> set [vote_a, vote_b].
      v = v' \<or> loc_bits (vo_bitLocation v) \<inter> loc_bits (vo_bitLocation v') = {}"
    by (auto simp: vote_a_def vote_b_def Vote_def CVoteObject_new_def loc_bits_ab)
  have 4: "vo_hashProposal vote_a = 11" "vo_bitLocation vote_a = loc_a" "vo_nChoice vote_a = 1" "vote_a \<in> set [vote_a, vote_b]"
    by (simp_all add: vote_a_def Vote_def CVoteObject_new_def)
  have 5: "map_of (vt_mapLocations sample_tally) 11 = Some loc_a"
    "GetSummary sample_tally 11 = Some \<lparr>vs_nBlockStart = 90, vs_nCheckSpan = 50, vs_nYesTally = 3, vs_nNoTally = 0\<rparr>"
    by (simp_all add: sample_tally_def GetSummary_def)
  from conjunct1 [OF votes_are_counted [OF 1 2 3, of sample_tally], THEN bspec, OF 4(4)] 4 5 1 2
  show ?thesis by (simp add: count_vote_def)
qed

definition proposal_a :: CVoteProposal where
  "proposal_a = \<lparr>vp_nVersion = 1, vp_strName = [97], vp_nStartHeight = 200, vp_nCheckSpan = 50, vp_strDescription = [98],
     vp_bitLocation = loc_a\<rparr>"
definition proposal_b :: CVoteProposal where
  "proposal_b = proposal_a\<lparr>vp_nVersion := 2, vp_strName := [99], vp_bitLocation := loc_b\<rparr>"

definition two_proposals :: proposals where
  "two_proposals = snd (Manager_Add sample_ssl proposal_b (snd (Manager_Add sample_ssl proposal_a [])))"

definition one_proposal :: proposals where
  "one_proposal = [(vp_GetHash sample_ssl proposal_a, new_metadata sample_ssl proposal_a)]"

lemma one_proposal_eq: "snd (Manager_Add sample_ssl proposal_a []) = one_proposal"
  by (simp add: Manager_Add_def one_proposal_def map_insert_def new_metadata_def)

lemma proposal_hash_mod: "unat (vp_GetHash sample_ssl p) mod 256 = unat (vp_nVersion p) mod 256"
  if "vp_strName p = [x]" and "vp_strDescription p = [y]"
proof -
  have "bytes_of_u32 w = word_of_nat (unat w) # le_bytes 3 (unat w div 256)" for w
    using le_bytes.simps(2) [of 3] by (simp add: bytes_of_u32_def)
  then obtain r where r: "ser_proposal p = word_of_nat (unat (vp_nVersion p)) # r" by (simp add: ser_proposal_def)
  have "length (ser_proposal p) = 18"
    using that by (simp add: size_proposal_def GetSerializeSize_bytes_def GetSizeOfCompactSize_def flip: proposal_codec.size_enc)
  then have "vp_GetHash sample_ssl p = word_of_nat (le_value (ser_proposal p))"
    by (simp add: vp_GetHash_def sample_Hash_short)
  moreover have "le_value (ser_proposal p) mod 256 = unat (vp_nVersion p) mod 256"
    unfolding r by (simp only: le_value.simps unat_byte_of_nat mod_mult_self2 mod_mod_trivial)
  ultimately show ?thesis by (simp only: unat_u256_mod)
qed

lemma proposal_hashes: "vp_GetHash sample_ssl proposal_a \<noteq> vp_GetHash sample_ssl proposal_b"
  using proposal_hash_mod [of proposal_a 97 98] proposal_hash_mod [of proposal_b 99 98]
  by (auto simp: proposal_a_def proposal_b_def)

lemma two_proposals_active:
  "(k, d) \<in> set two_proposals \<Longrightarrow> pm_nHeightStart d \<le> pm_nHeightEnd d"
  "map_of (GetActive 210 two_proposals) (vp_GetHash sample_ssl proposal_a) = Some loc_a"
  "map_of (GetActive 210 two_proposals) (vp_GetHash sample_ssl proposal_b) = Some loc_b"
proof -
  have m: "pm_location (new_metadata sample_ssl proposal_a) = loc_a" "pm_location (new_metadata sample_ssl proposal_b) = loc_b"
    "pm_nHeightStart (new_metadata sample_ssl proposal_a) = 200" "pm_nHeightEnd (new_metadata sample_ssl proposal_a) = 250"
    "pm_nHeightStart (new_metadata sample_ssl proposal_b) = 200" "pm_nHeightEnd (new_metadata sample_ssl proposal_b) = 250"
    "pm_hash (new_metadata sample_ssl p) = vp_GetHash sample_ssl p" for p
    by (simp_all add: new_metadata_def proposal_a_def proposal_b_def)
  have "no_conflict (new_metadata sample_ssl proposal_b) (new_metadata sample_ssl proposal_a)"
    unfolding no_conflict_def m by (simp add: loc_a_def loc_b_def)
  then have two: "two_proposals =
      map_put (vp_GetHash sample_ssl proposal_b) (new_metadata sample_ssl proposal_b)
        [(vp_GetHash sample_ssl proposal_a, new_metadata sample_ssl proposal_a)]"
    using proposal_hashes
    by (simp add: two_proposals_def one_proposal_eq Manager_Add_def one_proposal_def Let_def m map_insert_def)
  show "(k, d) \<in> set two_proposals \<Longrightarrow> pm_nHeightStart d \<le> pm_nHeightEnd d"
    using set_map_put_subset [of "vp_GetHash sample_ssl proposal_b" "new_metadata sample_ssl proposal_b"
        "[(vp_GetHash sample_ssl proposal_a, new_metadata sample_ssl proposal_a)]"]
    unfolding two [symmetric] by (auto simp: m)
  show "map_of (GetActive 210 two_proposals) (vp_GetHash sample_ssl proposal_a) = Some loc_a"
    "map_of (GetActive 210 two_proposals) (vp_GetHash sample_ssl proposal_b) = Some loc_b"
    using proposal_hashes unfolding two by (auto simp: GetActive_def m map_of_insert)
qed


text \<open>
  A proposal from height \<open>2 ^ 31\<close> whose period ends, wrapped around, at height a million: the manager takes
  it beside another one on the same bits, and both are active at height 210.
\<close>

definition proposal_wrapped :: CVoteProposal where
  "proposal_wrapped = proposal_a\<lparr>vp_nVersion := 2, vp_nStartHeight := 0x80000000, vp_nCheckSpan := 0x80000000 + 1000000\<rparr>"

theorem wrapped_proposals_share:
  "\<exists>M h h'. manager_reach sample_ssl M \<and> h \<noteq> h' \<and> map_of (GetActive 210 M) h = Some loc_a \<and> map_of (GetActive 210 M) h' = Some loc_a"
proof -
  define M where "M = snd (Manager_Add sample_ssl proposal_wrapped (snd (Manager_Add sample_ssl proposal_a [])))"
  have r: "manager_reach sample_ssl M"
    unfolding M_def by (intro manager_reach.intros)
  have m: "pm_location (new_metadata sample_ssl proposal_a) = loc_a" "pm_location (new_metadata sample_ssl proposal_wrapped) = loc_a"
    "pm_nHeightStart (new_metadata sample_ssl proposal_a) = 200" "pm_nHeightEnd (new_metadata sample_ssl proposal_a) = 250"
    "pm_nHeightStart (new_metadata sample_ssl proposal_wrapped) = 0x80000000" "pm_nHeightEnd (new_metadata sample_ssl proposal_wrapped) = 1000000"
    "pm_hash (new_metadata sample_ssl p) = vp_GetHash sample_ssl p" for p
    by (simp_all add: new_metadata_def proposal_wrapped_def proposal_a_def)
  have h: "vp_GetHash sample_ssl proposal_a \<noteq> vp_GetHash sample_ssl proposal_wrapped"
    using proposal_hash_mod [of proposal_a 97 98] proposal_hash_mod [of proposal_wrapped 97 98]
    by (auto simp: proposal_a_def proposal_wrapped_def)
  have "no_conflict (new_metadata sample_ssl proposal_wrapped) (new_metadata sample_ssl proposal_a)"
    unfolding no_conflict_def m by simp
  then have "M = map_put (vp_GetHash sample_ssl proposal_wrapped) (new_metadata sample_ssl proposal_wrapped)
        [(vp_GetHash sample_ssl proposal_a, new_metadata sample_ssl proposal_a)]"
    using h by (simp add: M_def one_proposal_eq Manager_Add_def one_proposal_def Let_def m map_insert_def)
  then have "map_of (GetActive 210 M) (vp_GetHash sample_ssl proposal_a) = Some loc_a"
    "map_of (GetActive 210 M) (vp_GetHash sample_ssl proposal_wrapped) = Some loc_a"
    using h by (auto simp: GetActive_def m map_of_insert)
  with r h show ?thesis by blast
qed

lemma find_range_numeral: "find_range c av (numeral k) s =
    (let n = pred_numeral k; s = (if av ! n then s + 1 else 0)
     in if s = c then Some \<lparr>vl_nMostSignificantBit = word_of_int (int n + c - 1), vl_nLeastSignificantBit = word_of_nat n\<rparr>
        else find_range c av n s)"
  by (simp add: numeral_eq_Suc Let_def)

theorem GetNextLocation_fits_witness:
  "GetNextLocation 2 200 50 one_proposal = Some (Some loc_b) \<and> card (loc_bits loc_b) = 2 \<and>
    fst (Manager_Add sample_ssl (proposal_b\<lparr>vp_bitLocation := loc_b\<rparr>) one_proposal)"
proof -
  have "conflicting_time 200 50 one_proposal = [new_metadata sample_ssl proposal_a]"
    by (simp add: conflicting_time_def one_proposal_def new_metadata_def proposal_a_def)
  moreover have "pm_location (new_metadata sample_ssl proposal_a) = loc_a" by (simp add: new_metadata_def proposal_a_def)
  moreover have "mark_taken d (replicate 28 True) = Some (map (\<lambda>i. \<not> (26 \<le> i \<and> i \<le> 27)) [0 ..< 28])"
    if "pm_location d = loc_a" for d
    using that by (simp add: mark_taken_def loc_a_def)
  ultimately have g: "GetNextLocation 2 200 50 one_proposal = Some (Some loc_b)"
    by (simp add: GetNextLocation_def find_range_numeral loc_b_def)
  have "sint (vp_nStartHeight proposal_b) = 200" "sint (vp_nCheckSpan proposal_b) = 50"
    by (simp_all add: proposal_b_def proposal_a_def)
  moreover have "list_all (\<lambda>(_, d). vl_nLeastSignificantBit (pm_location d) \<le> vl_nMostSignificantBit (pm_location d) \<and>
           0 \<le> sint (pm_nHeightStart d) \<and> 0 \<le> sint (pm_nHeightEnd d)) one_proposal"
    by (simp add: one_proposal_def new_metadata_def proposal_a_def loc_a_def)
  ultimately show ?thesis
    using GetNextLocation_fits [of 2 proposal_b one_proposal loc_b sample_ssl] g by simp
qed

theorem proposal_roundtrip_witness:
  "\<exists>tx'. ConstructTransaction proposal_a (sample_pay\<lparr>tx_vout := []\<rparr>) = (True, tx') \<and>
    ProposalFromTransaction tx' = Some (Some proposal_a)"
proof -
  have s: "length (vp_strName proposal_a) \<le> MAX_CHAR_NAME" "length (vp_strDescription proposal_a) \<le> MAX_CHAR_ABSTRACT"
    by (simp_all add: proposal_a_def MAX_CHAR_NAME_def MAX_CHAR_ABSTRACT_def)
  obtain n where n: "proposal_script proposal_a = [word_of_nat OP_RETURN, n, 0x70, 0x72, 0x6f, 0x70] @ ser_proposal proposal_a"
    using short_proposal_script [OF s] by blast
  have "length (ser_proposal proposal_a) = 18"
    by (simp add: size_proposal_def proposal_a_def GetSerializeSize_bytes_def GetSizeOfCompactSize_def flip: proposal_codec.size_enc)
  then have c: "ConstructTransaction proposal_a (sample_pay\<lparr>tx_vout := []\<rparr>) =
      (True, sample_pay\<lparr>tx_vout := [\<lparr>to_nValue = 0, to_scriptPubKey = proposal_script proposal_a\<rparr>]\<rparr>)"
    by (simp add: ConstructTransaction_def vp_IsNull_def n sample_size MAX_BLOCK_SIZE_def sample_pay_def)
      (simp add: proposal_a_def)
  from proposal_roundtrip [OF c _ s] c show ?thesis by simp
qed

end
