(* ===== verification/Kernel.thy ===== *)
theory Kernel
  imports Connect_Inputs "HOL-Library.Product_Lexorder"
begin

text \<open>
  The proof-of-stake kernel (\<open>src/kernel.cpp\<close>): the stake modifier, 64 bits collected from
  past blocks, and the hash target that the first input of a coinstake must meet. The block
  index is the table of entries by hash; the chain behind an entry is the list of its
  ancestors. A message that is only logged is left out.
\<close>

type_synonym block_index = "(uint256 \<times> CBlockIndex) list"

definition MODIFIER_INTERVAL :: int where "MODIFIER_INTERVAL = 6 * 60 * 60"
definition MODIFIER_INTERVAL_TESTNET :: int where "MODIFIER_INTERVAL_TESTNET = 60"
definition MODIFIER_INTERVAL_RATIO :: int where "MODIFIER_INTERVAL_RATIO = 3"

definition getIntervalVersion :: "bool \<Rightarrow> int" where
  "getIntervalVersion fTestNet = (if fTestNet then MODIFIER_INTERVAL_TESTNET else MODIFIER_INTERVAL)"

definition nStakeMaxAge :: "bool \<Rightarrow> int" where
  "nStakeMaxAge fTestNet = (if fTestNet then 60 * 60 * 24 else 60 * 60 * 24 * 30)"

definition GetWeight :: "bool \<Rightarrow> int \<Rightarrow> int \<Rightarrow> int" where
  "GetWeight fTestNet nIntervalBeginning nIntervalEnd =
     min (nIntervalEnd - nIntervalBeginning - nStakeMinAge fTestNet) (nStakeMaxAge fTestNet)"

definition GetWeight2 :: "bool \<Rightarrow> int \<Rightarrow> int \<Rightarrow> int" where
  "GetWeight2 fTestNet nIntervalBeginning nIntervalEnd =
     (let nTimePassed = nIntervalEnd - nIntervalBeginning in min nTimePassed (nStakeMaxAge fTestNet))"

subsection \<open>The next stake modifier\<close>

fun GetLastStakeModifier :: "pindex \<Rightarrow> (uint64 \<times> int) option" where
  "GetLastStakeModifier [] = None"
| "GetLastStakeModifier (b # bs) =
     (if bs \<noteq> [] \<and> \<not> bi_GeneratedStakeModifier b then GetLastStakeModifier bs
      else if \<not> bi_GeneratedStakeModifier b then None
      else Some (bi_nStakeModifier b, bi_GetBlockTime b))"

definition SelectionIntervalSection :: "bool \<Rightarrow> int \<Rightarrow> int" where
  "SelectionIntervalSection fTestNet nSection =
     getIntervalVersion fTestNet * 63 div (63 + ((63 - nSection) * (MODIFIER_INTERVAL_RATIO - 1)))"

definition SelectionInterval :: "bool \<Rightarrow> int" where
  "SelectionInterval fTestNet = sum_list (map (SelectionIntervalSection fTestNet) [0 .. 63])"

text \<open>
  One round: the candidate with the least selection hash among those not yet selected, up
  to the first candidate past the stop time once there is one. \<open>None\<close> is the error of an
  unknown hash.
\<close>

definition selection_hash :: "openssl \<Rightarrow> uint64 \<Rightarrow> CBlockIndex \<Rightarrow> uint256" where
  "selection_hash E nStakeModifierPrev b =
     (let hashProof = (if bi_IsProofOfStake b then bi_hashProofOfStake b else bi_hash b);
          hashSelection = Hash E (bytes_of_u256 hashProof @ bytes_of_u64 nStakeModifierPrev)
      in if bi_IsProofOfStake b then drop_bit 32 hashSelection else hashSelection)"

fun select_loop ::
  "openssl \<Rightarrow> block_index \<Rightarrow> uint256 list \<Rightarrow> int \<Rightarrow> uint64 \<Rightarrow> (int \<times> uint256) list \<Rightarrow>
     (uint256 \<times> CBlockIndex) option \<Rightarrow> (uint256 \<times> CBlockIndex) option option" where
  "select_loop E idx selected nStop nPrev [] best = Some best"
| "select_loop E idx selected nStop nPrev ((t, h) # rest) best =
     (case map_of idx h of
        None \<Rightarrow> None
      | Some b \<Rightarrow>
          if best \<noteq> None \<and> nStop < bi_GetBlockTime b then Some best
          else if bi_hash b \<in> set selected then select_loop E idx selected nStop nPrev rest best
          else let hashSelection = selection_hash E nPrev b
               in select_loop E idx selected nStop nPrev rest
                    (case best of
                       None \<Rightarrow> Some (hashSelection, b)
                     | Some (hashBest, bBest) \<Rightarrow>
                         if hashSelection < hashBest then Some (hashSelection, b) else Some (hashBest, bBest)))"

definition SelectBlockFromCandidates ::
  "openssl \<Rightarrow> block_index \<Rightarrow> uint256 list \<Rightarrow> int \<Rightarrow> uint64 \<Rightarrow> (int \<times> uint256) list \<Rightarrow> CBlockIndex option" where
  "SelectBlockFromCandidates E idx selected nStop nPrev vSortedByTimestamp =
     (case select_loop E idx selected nStop nPrev vSortedByTimestamp None of
        Some (Some (_, b)) \<Rightarrow> Some b
      | _ \<Rightarrow> None)"

text \<open>The rounds: \<open>selected\<close> are the hashes selected so far.\<close>

fun modifier_rounds ::
  "openssl \<Rightarrow> bool \<Rightarrow> block_index \<Rightarrow> (int \<times> uint256) list \<Rightarrow> uint64 \<Rightarrow> nat \<Rightarrow> nat \<Rightarrow> int \<Rightarrow>
     uint256 list \<Rightarrow> uint64 \<Rightarrow> uint64 option" where
  "modifier_rounds E fTestNet idx cands nPrev 0 nRound nStop selected new = Some new"
| "modifier_rounds E fTestNet idx cands nPrev (Suc left) nRound nStop selected new =
     (let nStop = nStop + SelectionIntervalSection fTestNet (int nRound)
      in case SelectBlockFromCandidates E idx selected nStop nPrev cands of
           None \<Rightarrow> None
         | Some b \<Rightarrow>
             modifier_rounds E fTestNet idx cands nPrev left (nRound + 1) nStop (bi_hash b # selected)
               (new OR push_bit nRound (ucast (bi_GetStakeEntropyBit b))))"

definition modifier_candidates :: "bool \<Rightarrow> pindex \<Rightarrow> (int \<times> uint256) list" where
  "modifier_candidates fTestNet pindexPrev =
     (let i = getIntervalVersion fTestNet;
          start = bi_GetBlockTime (hd pindexPrev) div i * i - SelectionInterval fTestNet
      in sort (rev (map (\<lambda>b. (bi_GetBlockTime b, bi_hash b)) (takeWhile (\<lambda>b. start \<le> bi_GetBlockTime b) pindexPrev))))"

text \<open>The modifier and whether it is a new one; \<open>None\<close> is the result false.\<close>

definition ComputeNextStakeModifier ::
  "openssl \<Rightarrow> bool \<Rightarrow> block_index \<Rightarrow> pindex \<Rightarrow> (uint64 \<times> bool) option" where
  "ComputeNextStakeModifier E fTestNet idx pindexPrev =
     (if pindexPrev = [] then Some (0, True)
      else case GetLastStakeModifier pindexPrev of
             None \<Rightarrow> None
           | Some (nStakeModifier, nModifierTime) \<Rightarrow>
               let i = getIntervalVersion fTestNet; t = bi_GetBlockTime (hd pindexPrev);
                   cands = modifier_candidates fTestNet pindexPrev
               in if t div i \<le> nModifierTime div i then Some (nStakeModifier, False)
                  else map_option (\<lambda>new. (new, True))
                         (modifier_rounds E fTestNet idx cands nStakeModifier (min 64 (length cands)) 0
                            (t div i * i - SelectionInterval fTestNet) [] 0))"

subsection \<open>The kernel's modifier\<close>

text \<open>
  The walk forward from the block of the coin. The outer \<open>None\<close> is a walk that does not
  end, the inner one the end of the chain.
\<close>

partial_function (option) kernel_modifier_loop ::
  "block_index \<Rightarrow> int \<Rightarrow> CBlockIndex \<Rightarrow> int \<Rightarrow> int \<Rightarrow> (uint64 \<times> int \<times> int) option option" where
  "kernel_modifier_loop idx nStop b nHeight nTime =
     (if nStop \<le> nTime then Some (Some (bi_nStakeModifier b, nHeight, nTime))
      else case bi_pnext b of
             None \<Rightarrow> Some None
           | Some h \<Rightarrow>
               (case map_of idx h of
                  None \<Rightarrow> Some None
                | Some b' \<Rightarrow>
                    if bi_GeneratedStakeModifier b'
                    then kernel_modifier_loop idx nStop b' (bi_nHeight b') (bi_GetBlockTime b')
                    else kernel_modifier_loop idx nStop b' nHeight nTime))"

definition GetKernelStakeModifier :: "bool \<Rightarrow> block_index \<Rightarrow> uint256 \<Rightarrow> (uint64 \<times> int \<times> int) option option" where
  "GetKernelStakeModifier fTestNet idx hashBlockFrom =
     (case map_of idx hashBlockFrom of
        None \<Rightarrow> Some None
      | Some pindexFrom \<Rightarrow>
          kernel_modifier_loop idx (bi_GetBlockTime pindexFrom + SelectionInterval fTestNet) pindexFrom
            (bi_nHeight pindexFrom) (bi_GetBlockTime pindexFrom))"

subsection \<open>The hash target\<close>

definition stakeHash ::
  "openssl \<Rightarrow> uint32 \<Rightarrow> uint32 \<Rightarrow> byte list \<Rightarrow> uint32 \<Rightarrow> uint32 \<Rightarrow> uint32 \<Rightarrow> uint256" where
  "stakeHash E nTimeTx nTxPrevTime ss prevoutIndex nTxPrevOffset nTimeBlockFrom =
     Hash E (ss @ bytes_of_u32 nTimeBlockFrom @ bytes_of_u32 nTxPrevOffset @ bytes_of_u32 nTxPrevTime @
             bytes_of_u32 prevoutIndex @ bytes_of_u32 nTimeTx)"

definition stakeTargetHit ::
  "openssl \<Rightarrow> bool \<Rightarrow> uint256 \<Rightarrow> uint32 \<Rightarrow> int64 \<Rightarrow> int \<Rightarrow> bool \<times> int" where
  "stakeTargetHit E fTestNet hashProofOfStake nAge nValueIn bnTargetPerCoinDay =
     (let nTimeWeight = min (uint nAge) (nStakeMaxAge fTestNet) - nStakeMinAge fTestNet;
          bnCoinWeight = bn_quot (bn_quot (setint64 E nValueIn * nTimeWeight) COIN) (24 * 60 * 60)
      in (uint hashProofOfStake < bnCoinWeight * bnTargetPerCoinDay, bnCoinWeight))"

text \<open>
  The result of the check: the verdict, the time of the transaction, the hash and the weight,
  and whether the search has run (it then stamps \<open>mapHashedBlocks\<close>).
\<close>

record kernel_result =
  kr_ok :: bool
  kr_nTimeTx :: uint32
  kr_hashProofOfStake :: uint256
  kr_bnCoinWeight :: int
  kr_searched :: bool

text \<open>The search, from \<open>i\<close> with \<open>left\<close> tries to go. It does not stop at a success.\<close>

fun kernel_search ::
  "openssl \<Rightarrow> bool \<Rightarrow> byte list \<Rightarrow> uint32 \<Rightarrow> int64 \<Rightarrow> uint32 \<Rightarrow> uint32 \<Rightarrow> uint32 \<Rightarrow> int \<Rightarrow> uint32 \<Rightarrow>
     nat \<Rightarrow> uint32 \<Rightarrow> kernel_result \<Rightarrow> kernel_result" where
  "kernel_search E fTestNet ss nTxPrevTime nValueIn n nTxPrevOffset nTimeBlockFrom bnTarget nHashDrift 0 i r = r"
| "kernel_search E fTestNet ss nTxPrevTime nValueIn n nTxPrevOffset nTimeBlockFrom bnTarget nHashDrift (Suc left) i r =
     (let nTryTime = kr_nTimeTx r + nHashDrift - i;
          hashProofOfStake = stakeHash E nTryTime nTxPrevTime ss n nTxPrevOffset nTimeBlockFrom;
          (hit, weight) = stakeTargetHit E fTestNet hashProofOfStake (kr_nTimeTx r - nTxPrevTime) nValueIn bnTarget;
          r = r\<lparr>kr_hashProofOfStake := hashProofOfStake, kr_bnCoinWeight := weight\<rparr>
      in kernel_search E fTestNet ss nTxPrevTime nValueIn n nTxPrevOffset nTimeBlockFrom bnTarget nHashDrift left (i + 1)
           (if hit then r\<lparr>kr_ok := True, kr_nTimeTx := nTryTime\<rparr> else r))"

definition CheckStakeKernelHash ::
  "'k node \<Rightarrow> block_index \<Rightarrow> uint32 \<Rightarrow> CBlock \<Rightarrow> uint32 \<Rightarrow> CTransaction \<Rightarrow> COutPoint \<Rightarrow> uint32 \<Rightarrow> uint32 \<Rightarrow>
     bool \<Rightarrow> uint256 \<Rightarrow> int \<Rightarrow> kernel_result option" where
  "CheckStakeKernelHash N idx nBits blockFrom nTxPrevOffset txPrev prevout nTimeTx nHashDrift fCheck hashProof weight =
     (let E = nd_ssl N; fTestNet = nd_fTestNet N;
          nValueIn = to_nValue (tx_vout txPrev ! unat (op_n prevout));
          nTxPrevTime = tx_nTime txPrev; nTimeBlockFrom = bk_nTime blockFrom;
          failed = \<lparr>kr_ok = False, kr_nTimeTx = nTimeTx, kr_hashProofOfStake = hashProof,
                    kr_bnCoinWeight = weight, kr_searched = False\<rparr>
      in if nTimeTx < tx_nTime txPrev then Some failed
         else if nTimeTx < nTimeBlockFrom + word_of_int (nStakeMinAge fTestNet) then Some failed
         else case GetKernelStakeModifier fTestNet idx (CBlock_GetHash N blockFrom) of
                None \<Rightarrow> None
              | Some None \<Rightarrow> Some failed
              | Some (Some (nStakeModifier, _, _)) \<Rightarrow>
                  let bnTarget = SetCompact nBits; ss = bytes_of_u64 nStakeModifier
                  in if fCheck
                     then let h = stakeHash E nTimeTx nTxPrevTime ss (op_n prevout) nTxPrevOffset nTimeBlockFrom;
                              (hit, w) = stakeTargetHit E fTestNet h (nTimeTx - nTxPrevTime) nValueIn bnTarget
                          in Some (failed\<lparr>kr_ok := hit, kr_hashProofOfStake := h, kr_bnCoinWeight := w\<rparr>)
                     else Some ((kernel_search E fTestNet ss nTxPrevTime nValueIn (op_n prevout) nTxPrevOffset
                                   nTimeBlockFrom bnTarget nHashDrift (unat nHashDrift) 0 failed)\<lparr>kr_searched := True\<rparr>))"

text \<open>
  The check of a coinstake: the verdict with the score, and the hash. \<open>None\<close> is a walk that
  does not end.
\<close>

definition CheckProofOfStake ::
  "'k node \<Rightarrow> blockfiles \<Rightarrow> txdb \<Rightarrow> block_index \<Rightarrow> CTransaction \<Rightarrow> uint32 \<Rightarrow> uint256 \<Rightarrow> sigcache \<Rightarrow>
     (check \<times> uint256 \<times> sigcache) option" where
  "CheckProofOfStake N d db idx tx nBits hashProof c =
     (if \<not> IsCoinStake tx then Some (DoS 0 False, hashProof, c)
      else let txin = tx_vin tx ! 0
           in case ReadFromDisk_prevout d db (ti_prevout txin) of
                None \<Rightarrow> Some (DoS 1 False, hashProof, c)
              | Some (txPrev, txindex) \<Rightarrow>
                  (case VerifySignature (nd_sig N) txPrev tx 0 True 0 c of
                     (False, c) \<Rightarrow> Some (DoS 100 False, hashProof, c)
                   | (True, c) \<Rightarrow>
                       (case ReadFromDisk N d CBlock_new (dp_nFile (xi_pos txindex)) (dp_nBlockPos (xi_pos txindex)) False of
                          None \<Rightarrow> Some (DoS 0 False, hashProof, c)
                        | Some block \<Rightarrow>
                            map_option (\<lambda>r. (if kr_ok r then DoS 0 True else DoS 1 False, kr_hashProofOfStake r, c))
                              (CheckStakeKernelHash N idx nBits block (dp_nTxPos (xi_pos txindex) - dp_nBlockPos (xi_pos txindex))
                                 txPrev (ti_prevout txin) (tx_nTime tx) 0 True hashProof 0))))"

subsection \<open>The checksum of a modifier\<close>

text \<open>\<open>None\<close> is the failed assertion on a block without a parent that is not the genesis block.\<close>

definition GetStakeModifierChecksum :: "'k node \<Rightarrow> pindex \<Rightarrow> uint32 option" where
  "GetStakeModifierChecksum N pindex =
     (case pindex of
        [] \<Rightarrow> None
      | b # bs \<Rightarrow>
          if bs = [] \<and> bi_hash b \<noteq> genesis_hash N then None
          else Some (ucast (drop_bit (256 - 32)
                 (Hash (nd_ssl N) ((if bs = [] then [] else bytes_of_u32 (bi_nStakeModifierChecksum (hd bs))) @
                    bytes_of_u32 (bi_nFlags b) @ bytes_of_u256 (bi_hashProofOfStake b) @
                    bytes_of_u64 (bi_nStakeModifier b))))))"

definition mapStakeModifierCheckpoints :: "(int \<times> uint32) list" where
  "mapStakeModifierCheckpoints = [(0, 0xfd11f4e7)]"

definition CheckStakeModifierCheckpoints :: "bool \<Rightarrow> int \<Rightarrow> uint32 \<Rightarrow> bool" where
  "CheckStakeModifierCheckpoints fTestNet nHeight nStakeModifierChecksum =
     (fTestNet \<or>
      (case map_of mapStakeModifierCheckpoints nHeight of
         None \<Rightarrow> True
       | Some n \<Rightarrow> nStakeModifierChecksum = n))"

end
