(* ===== verification/Kernel_Rules.thy ===== *)
theory Kernel_Rules
  imports Kernel
begin

text \<open>
  What the kernel promises: the target grows with the amount and the age of the coin, a
  checked coinstake is signed, old enough and below the target, a modifier takes each bit
  from a block of its own, and the search for a modifier ends.
\<close>

subsection \<open>The hash target\<close>

lemma bn_quot_pos: "0 < b \<Longrightarrow> 0 \<le> a \<Longrightarrow> bn_quot a b = a div b"
  by (cases "a = 0") (auto simp: bn_quot_def)

lemma bn_quot_nonpos: "0 < b \<Longrightarrow> a \<le> 0 \<Longrightarrow> bn_quot a b \<le> 0"
  by (cases "a = 0") (auto simp: bn_quot_def sgn_if pos_imp_zdiv_nonneg_iff)

text \<open>The weight of a coin in exact arithmetic.\<close>

definition coin_weight :: "bool \<Rightarrow> int \<Rightarrow> int \<Rightarrow> int" where
  "coin_weight fTestNet nValueIn nAge =
     nValueIn * (min nAge (nStakeMaxAge fTestNet) - nStakeMinAge fTestNet) div COIN div (24 * 60 * 60)"

lemma stakeTargetHit_weight:
  assumes "bn_documented E" "0 \<le> sint v" "0 \<le> t"
  shows "fst (stakeTargetHit E f h age v t) \<longleftrightarrow> uint h < coin_weight f (sint v) (uint age) * t"
proof (cases "nStakeMinAge f \<le> uint age")
  case True
  moreover have "nStakeMinAge f \<le> nStakeMaxAge f" by (simp add: nStakeMinAge_def nStakeMaxAge_def)
  ultimately have "0 \<le> sint v * (min (uint age) (nStakeMaxAge f) - nStakeMinAge f)" using assms(2) by simp
  then show ?thesis
    using assms(1) by (simp add: stakeTargetHit_def coin_weight_def bn_quot_pos COIN_def setint64_value Let_def
      pos_imp_zdiv_nonneg_iff)
next
  case False
  define w where "w = sint v * (min (uint age) (nStakeMaxAge f) - nStakeMinAge f)"
  have "w \<le> 0" unfolding w_def using False assms(2) by (intro mult_nonneg_nonpos) auto
  then have "bn_quot (bn_quot w COIN) (24 * 60 * 60) \<le> 0" "w div COIN div (24 * 60 * 60) \<le> 0"
    by (auto intro!: bn_quot_nonpos simp: COIN_def zdiv_mono1 [of w 0, simplified] div_nonpos_pos_le0)
  then have "bn_quot (bn_quot w COIN) (24 * 60 * 60) * t \<le> 0" "w div COIN div (24 * 60 * 60) * t \<le> 0"
    using assms(3) by (simp_all add: mult_nonpos_nonneg)
  moreover have "0 \<le> uint h" by simp
  ultimately have "\<not> uint h < bn_quot (bn_quot w COIN) (24 * 60 * 60) * t" "\<not> uint h < w div COIN div (24 * 60 * 60) * t"
    by linarith+
  then show ?thesis
    using assms(1) by (simp add: stakeTargetHit_def coin_weight_def setint64_value Let_def w_def [symmetric])
qed

text \<open>A kernel hash meets the target exactly when it is below the target per coin day times the
  coin days, in exact arithmetic; a larger or an older coin meets every target that a
  smaller or younger one meets with the same hash.\<close>

theorem stake_target_monotone:
  assumes "bn_documented E" and "0 \<le> t" and "0 \<le> sint v" and "sint v \<le> sint v'" and "uint age \<le> uint age'"
    and "fst (stakeTargetHit E f h age v t)"
  shows "uint h < coin_weight f (sint v) (uint age) * t \<and> fst (stakeTargetHit E f h age' v' t)"
proof -
  have lt: "uint h < coin_weight f (sint v) (uint age) * t"
    using assms(6) stakeTargetHit_weight [OF assms(1,3,2)] by blast
  have "0 \<le> uint h" by simp
  with lt have "0 < coin_weight f (sint v) (uint age) * t" by linarith
  with assms(2) have w: "0 < coin_weight f (sint v) (uint age)" by (simp add: zero_less_mult_iff)
  define a where "a = min (uint age) (nStakeMaxAge f) - nStakeMinAge f"
  define a' where "a' = min (uint age') (nStakeMaxAge f) - nStakeMinAge f"
  have "0 < a"
  proof (rule ccontr)
    assume "\<not> 0 < a"
    then have "sint v * a \<le> 0" using assms(3) by (simp add: mult_nonneg_nonpos)
    then have "sint v * a div COIN div (24 * 60 * 60) \<le> 0"
      by (simp add: COIN_def div_nonpos_pos_le0)
    with w show False by (simp add: coin_weight_def a_def)
  qed
  moreover have "a \<le> a'" using assms(5) by (simp add: a_def a'_def)
  ultimately have "sint v * a \<le> sint v' * a'" using assms(3,4) by (intro mult_mono) auto
  then have "sint v * a div COIN div (24 * 60 * 60) \<le> sint v' * a' div COIN div (24 * 60 * 60)"
    by (intro zdiv_mono1) (auto simp: COIN_def)
  then have "coin_weight f (sint v) (uint age) * t \<le> coin_weight f (sint v') (uint age') * t"
    using assms(2) by (simp add: coin_weight_def a_def a'_def mult_right_mono)
  with lt have "uint h < coin_weight f (sint v') (uint age') * t" by linarith
  with lt show ?thesis using stakeTargetHit_weight [OF assms(1) _ assms(2), of v'] assms(3,4) by auto
qed

subsection \<open>A checked coinstake\<close>

text \<open>C9: A transaction that passes \<open>CheckProofOfStake\<close> is a coinstake whose first input spends
  an existing output with an accepting script; the coin has the minimum age, and the hash
  returned is the kernel hash under the chain's stake modifier and below the target.\<close>

theorem CheckProofOfStake_sound:
  assumes "CheckProofOfStake N d db idx tx nBits hp c = Some ((True, s), h, c')" and "cache_ok (nd_sig N) c"
  shows "IsCoinStake tx \<and> (\<exists>txPrev txindex block m height time.
    ReadFromDisk_prevout d db (ti_prevout (tx_vin tx ! 0)) = Some (txPrev, txindex) \<and>
    GetHash (nd_ssl N) txPrev = op_hash (ti_prevout (tx_vin tx ! 0)) \<and>
    verify_verdict (nd_sig N) (ti_scriptSig (tx_vin tx ! 0))
      (to_scriptPubKey (tx_vout txPrev ! unat (op_n (ti_prevout (tx_vin tx ! 0))))) tx 0 True 0 \<and>
    ReadFromDisk N d CBlock_new (dp_nFile (xi_pos txindex)) (dp_nBlockPos (xi_pos txindex)) False = Some block \<and>
    tx_nTime txPrev \<le> tx_nTime tx \<and> bk_nTime block + word_of_int (nStakeMinAge (nd_fTestNet N)) \<le> tx_nTime tx \<and>
    GetKernelStakeModifier (nd_fTestNet N) idx (CBlock_GetHash N block) = Some (Some (m, height, time)) \<and>
    h = stakeHash (nd_ssl N) (tx_nTime tx) (tx_nTime txPrev) (bytes_of_u64 m) (op_n (ti_prevout (tx_vin tx ! 0)))
          (dp_nTxPos (xi_pos txindex) - dp_nBlockPos (xi_pos txindex)) (bk_nTime block) \<and>
    fst (stakeTargetHit (nd_ssl N) (nd_fTestNet N) h (tx_nTime tx - tx_nTime txPrev)
          (to_nValue (tx_vout txPrev ! unat (op_n (ti_prevout (tx_vin tx ! 0))))) (SetCompact nBits)))"
proof -
  from assms(1) obtain txPrev txindex c1 block r where cs: "IsCoinStake tx"
    and rd: "ReadFromDisk_prevout d db (ti_prevout (tx_vin tx ! 0)) = Some (txPrev, txindex)"
    and v: "VerifySignature (nd_sig N) txPrev tx 0 True 0 c = (True, c1)"
    and b: "ReadFromDisk N d CBlock_new (dp_nFile (xi_pos txindex)) (dp_nBlockPos (xi_pos txindex)) False = Some block"
    and k: "CheckStakeKernelHash N idx nBits block (dp_nTxPos (xi_pos txindex) - dp_nBlockPos (xi_pos txindex))
       txPrev (ti_prevout (tx_vin tx ! 0)) (tx_nTime tx) 0 True hp 0 = Some r"
    and r: "kr_ok r" "h = kr_hashProofOfStake r"
    by (auto simp: CheckProofOfStake_def Let_def DoS_def split: if_splits option.splits prod.splits bool.splits)
  from v have sig: "GetHash (nd_ssl N) txPrev = op_hash (ti_prevout (tx_vin tx ! 0))"
    "verify_verdict (nd_sig N) (ti_scriptSig (tx_vin tx ! 0))
      (to_scriptPubKey (tx_vout txPrev ! unat (op_n (ti_prevout (tx_vin tx ! 0))))) tx 0 True 0"
    by (auto simp: VerifySignature_def Let_def nd_ssl_def VerifyScript_verdict(1) [OF assms(2), symmetric] split: if_splits)
  from k r obtain m height time where "tx_nTime txPrev \<le> tx_nTime tx"
    "bk_nTime block + word_of_int (nStakeMinAge (nd_fTestNet N)) \<le> tx_nTime tx"
    "GetKernelStakeModifier (nd_fTestNet N) idx (CBlock_GetHash N block) = Some (Some (m, height, time))"
    "h = stakeHash (nd_ssl N) (tx_nTime tx) (tx_nTime txPrev) (bytes_of_u64 m) (op_n (ti_prevout (tx_vin tx ! 0)))
          (dp_nTxPos (xi_pos txindex) - dp_nBlockPos (xi_pos txindex)) (bk_nTime block)"
    "fst (stakeTargetHit (nd_ssl N) (nd_fTestNet N) h (tx_nTime tx - tx_nTime txPrev)
          (to_nValue (tx_vout txPrev ! unat (op_n (ti_prevout (tx_vin tx ! 0))))) (SetCompact nBits))"
    by (auto simp: CheckStakeKernelHash_def Let_def not_less split: if_splits option.splits prod.splits)
  with cs rd b sig show ?thesis by blast
qed

subsection \<open>The bits of a modifier\<close>

definition index_hashes :: "block_index \<Rightarrow> bool" where
  "index_hashes idx \<longleftrightarrow> (\<forall>h b. map_of idx h = Some b \<longrightarrow> bi_hash b = h)"

lemma select_loop_total:
  assumes "\<forall>(t, h) \<in> set cands. map_of idx h \<noteq> None" and "index_hashes idx"
    and "best \<noteq> None \<or> (\<exists>(t, h) \<in> set cands. h \<notin> set selected)"
  shows "\<exists>r. select_loop E idx selected s nPrev cands best = Some (Some r)"
  using assms
proof (induction cands arbitrary: best)
  case (Cons e cands)
  obtain t h where e: "e = (t, h)" by (cases e)
  from Cons.prems(1) obtain b where b: "map_of idx h = Some b" by (auto simp: e)
  with Cons.prems(2) have h: "bi_hash b = h" by (simp add: index_hashes_def)
  have cands: "\<forall>(t, h) \<in> set cands. map_of idx h \<noteq> None" using Cons.prems(1) by auto
  show ?case
  proof (cases "best \<noteq> None \<and> s < bi_GetBlockTime b")
    case True
    with b show ?thesis by (auto simp: e)
  next
    case stay: False
    show ?thesis
    proof (cases "h \<in> set selected")
      case True
      with Cons.prems(3) have "best \<noteq> None \<or> (\<exists>(t, h) \<in> set cands. h \<notin> set selected)" by (auto simp: e)
      from Cons.IH [OF cands Cons.prems(2) this] True b h stay show ?thesis by (auto simp: e)
    next
      case False
      define best' where "best' = (case best of None \<Rightarrow> Some (selection_hash E nPrev b, b)
         | Some (hashBest, bBest) \<Rightarrow> if selection_hash E nPrev b < hashBest then Some (selection_hash E nPrev b, b)
             else Some (hashBest, bBest))"
      have "best' \<noteq> None" by (auto simp: best'_def split: option.splits)
      then have "best' \<noteq> None \<or> (\<exists>(t, h) \<in> set cands. h \<notin> set selected)" by blast
      from Cons.IH [OF cands Cons.prems(2) this] False b h stay show ?thesis
        by (auto simp: e best'_def Let_def)
    qed
  qed
qed auto

lemma entropy_bit: "bit (push_bit n (ucast (bi_GetStakeEntropyBit b)) :: uint64) i \<longleftrightarrow>
    n < 64 \<and> i = n \<and> bi_GetStakeEntropyBit b = 1"
proof -
  have e: "bit (bi_GetStakeEntropyBit b) j \<longleftrightarrow> j = 0 \<and> bit (bi_nFlags b) 1" for j
    by (auto simp: bi_GetStakeEntropyBit_def BLOCK_STAKE_ENTROPY_def bit_simps)
  have "bi_GetStakeEntropyBit b = (if bit (bi_nFlags b) 1 then 1 else 0)"
    by (rule bit_eqI) (auto simp: e bit_1_iff)
  then show ?thesis by (auto simp: bit_simps e)
qed

definition round_stop :: "bool \<Rightarrow> int \<Rightarrow> nat \<Rightarrow> int" where
  "round_stop fTestNet start n = start + (\<Sum>j\<leftarrow>[0..<Suc n]. SelectionIntervalSection fTestNet (int j))"

definition candidate_key :: "openssl \<Rightarrow> uint64 \<Rightarrow> CBlockIndex \<Rightarrow> uint256 \<times> int \<times> uint256" where
  "candidate_key E nPrev b = (selection_hash E nPrev b, bi_GetBlockTime b, bi_hash b)"

text \<open>
  The choice of a round among the candidates that are left: one with the least selection hash of
  those up to the stop time, the earliest one of equal hashes; and when all of them are
  later, the earliest.
\<close>

definition round_choice :: "openssl \<Rightarrow> uint64 \<Rightarrow> int \<Rightarrow> CBlockIndex set \<Rightarrow> CBlockIndex \<Rightarrow> bool" where
  "round_choice E nPrev nStop C b \<longleftrightarrow> b \<in> C \<and>
     (if \<exists>c \<in> C. bi_GetBlockTime c \<le> nStop
      then bi_GetBlockTime b \<le> nStop \<and> (\<forall>c \<in> C. bi_GetBlockTime c \<le> nStop \<longrightarrow> candidate_key E nPrev b \<le> candidate_key E nPrev c)
      else \<forall>c \<in> C. (bi_GetBlockTime b, bi_hash b) \<le> (bi_GetBlockTime c, bi_hash c))"

definition candidate_blocks :: "block_index \<Rightarrow> (int \<times> uint256) list \<Rightarrow> CBlockIndex set" where
  "candidate_blocks idx cands = {b. (bi_GetBlockTime b, bi_hash b) \<in> set cands \<and> map_of idx (bi_hash b) = Some b}"

definition cands_ok :: "block_index \<Rightarrow> (int \<times> uint256) list \<Rightarrow> bool" where
  "cands_ok idx cands \<longleftrightarrow> sorted cands \<and>
     (\<forall>(t, h) \<in> set cands. \<exists>b. map_of idx h = Some b \<and> bi_hash b = h \<and> bi_GetBlockTime b = t)"

lemma cands_ok_Cons:
  assumes "cands_ok idx ((t, h) # cands)"
  obtains b where "map_of idx h = Some b" "bi_hash b = h" "bi_GetBlockTime b = t" "cands_ok idx cands"
    "\<forall>e \<in> set cands. (t, h) \<le> e"
  using assms by (auto simp: cands_ok_def)

lemma candidate_blocks_Cons:
  assumes "map_of idx h = Some b1" "bi_hash b1 = h" "bi_GetBlockTime b1 = t"
  shows "candidate_blocks idx ((t, h) # cands) = insert b1 (candidate_blocks idx cands)"
proof -
  have "c = b1" if "bi_hash c = h" "map_of idx (bi_hash c) = Some c" for c
    using assms(1) that by simp
  then show ?thesis using assms by (auto simp: candidate_blocks_def)
qed

text \<open>What the loop of one round finds, from a best candidate that lies before the ones left.\<close>

lemma select_loop_best:
  assumes "select_loop E idx selected nStop nPrev cands (Some (selection_hash E nPrev b0, b0)) = Some (Some (hb, b))"
    and "cands_ok idx cands" "\<forall>e \<in> set cands. (bi_GetBlockTime b0, bi_hash b0) \<le> e"
  shows "hb = selection_hash E nPrev b \<and>
    (b = b0 \<or> b \<in> candidate_blocks idx cands \<and> bi_hash b \<notin> set selected \<and> bi_GetBlockTime b \<le> nStop) \<and>
    candidate_key E nPrev b \<le> candidate_key E nPrev b0 \<and>
    (\<forall>c \<in> candidate_blocks idx cands. bi_hash c \<notin> set selected \<longrightarrow> bi_GetBlockTime c \<le> nStop \<longrightarrow>
       candidate_key E nPrev b \<le> candidate_key E nPrev c)"
  using assms
proof (induction cands arbitrary: b0)
  case Nil
  then show ?case by (auto simp: candidate_blocks_def)
next
  case (Cons e cands)
  obtain t h where e: "e = (t, h)" by (cases e)
  from Cons.prems(2) obtain b1 where b1: "map_of idx h = Some b1" "bi_hash b1 = h" "bi_GetBlockTime b1 = t"
    "cands_ok idx cands" "\<forall>e \<in> set cands. (t, h) \<le> e"
    unfolding e by (rule cands_ok_Cons)
  have blocks: "c = b1 \<or> c \<in> candidate_blocks idx cands" if "c \<in> candidate_blocks idx (e # cands)" for c
    using that unfolding e candidate_blocks_Cons [OF b1(1-3)] by simp
  have sub: "candidate_blocks idx cands \<subseteq> candidate_blocks idx (e # cands)" "b1 \<in> candidate_blocks idx (e # cands)"
    unfolding e candidate_blocks_Cons [OF b1(1-3)] by auto
  have later: "t \<le> bi_GetBlockTime c" if "c \<in> candidate_blocks idx cands" for c
    using that b1(5) by (auto simp: candidate_blocks_def less_eq_prod_def)
  show ?case
  proof (cases "nStop < t")
    case True
    then have "hb = selection_hash E nPrev b0 \<and> b = b0" using Cons.prems(1) b1(1,3) by (auto simp: e)
    moreover have "\<not> bi_GetBlockTime c \<le> nStop" if "c \<in> candidate_blocks idx (e # cands)" for c
      using blocks [OF that] later True b1(3) by fastforce
    ultimately show ?thesis by auto
  next
    case False
    show ?thesis
    proof (cases "h \<in> set selected")
      case True
      with Cons.prems(1) b1 False
      have "select_loop E idx selected nStop nPrev cands (Some (selection_hash E nPrev b0, b0)) = Some (Some (hb, b))"
        by (simp add: e)
      from Cons.IH [OF this b1(4)] Cons.prems(3) blocks sub True b1(2) show ?thesis by auto
    next
      case new: False
      define best where "best = (if selection_hash E nPrev b1 < selection_hash E nPrev b0 then b1 else b0)"
      have "select_loop E idx selected nStop nPrev cands (Some (selection_hash E nPrev best, best)) = Some (Some (hb, b))"
        using Cons.prems(1) b1 False new by (simp add: e best_def Let_def split: if_splits)
      moreover have "\<forall>e \<in> set cands. (bi_GetBlockTime best, bi_hash best) \<le> e"
        using Cons.prems(3) b1(2,3,5) by (auto simp: best_def)
      ultimately have IH: "hb = selection_hash E nPrev b"
        "b = best \<or> b \<in> candidate_blocks idx cands \<and> bi_hash b \<notin> set selected \<and> bi_GetBlockTime b \<le> nStop"
        "candidate_key E nPrev b \<le> candidate_key E nPrev best"
        "\<forall>c \<in> candidate_blocks idx cands. bi_hash c \<notin> set selected \<longrightarrow> bi_GetBlockTime c \<le> nStop \<longrightarrow>
           candidate_key E nPrev b \<le> candidate_key E nPrev c"
        using Cons.IH [of best] b1(4) by blast+
      have "(bi_GetBlockTime b0, bi_hash b0) \<le> (t, h)" using Cons.prems(3) by (simp add: e)
      then have best: "candidate_key E nPrev best \<le> candidate_key E nPrev b0" "candidate_key E nPrev best \<le> candidate_key E nPrev b1"
        using b1(2,3) by (auto simp: best_def candidate_key_def less_eq_prod_def not_less le_less)
      then have "candidate_key E nPrev b \<le> candidate_key E nPrev b0" "candidate_key E nPrev b \<le> candidate_key E nPrev b1"
        using IH(3) order_trans by blast+
      moreover have "b = b0 \<or> b \<in> candidate_blocks idx (e # cands) \<and> bi_hash b \<notin> set selected \<and> bi_GetBlockTime b \<le> nStop"
        using IH(2) sub new False b1(2,3) by (auto simp: best_def split: if_splits)
      ultimately show ?thesis using IH(1,4) blocks by blast
    qed
  qed
qed

lemma select_loop_choice:
  assumes "select_loop E idx selected nStop nPrev cands None = Some (Some (hb, b))" and "cands_ok idx cands"
  shows "round_choice E nPrev nStop {b \<in> candidate_blocks idx cands. bi_hash b \<notin> set selected} b"
  using assms
proof (induction cands)
  case (Cons e cands)
  obtain t h where e: "e = (t, h)" by (cases e)
  from Cons.prems(2) obtain b1 where b1: "map_of idx h = Some b1" "bi_hash b1 = h" "bi_GetBlockTime b1 = t"
    "cands_ok idx cands" "\<forall>e \<in> set cands. (t, h) \<le> e"
    unfolding e by (rule cands_ok_Cons)
  have blocks: "candidate_blocks idx (e # cands) = insert b1 (candidate_blocks idx cands)"
    unfolding e by (rule candidate_blocks_Cons [OF b1(1-3)])
  show ?case
  proof (cases "h \<in> set selected")
    case True
    with Cons.prems(1) b1 have "select_loop E idx selected nStop nPrev cands None = Some (Some (hb, b))" by (simp add: e)
    moreover have "{b \<in> candidate_blocks idx (e # cands). bi_hash b \<notin> set selected} =
        {b \<in> candidate_blocks idx cands. bi_hash b \<notin> set selected}"
      using True b1(2) unfolding blocks by auto
    ultimately show ?thesis using Cons.IH b1(4) by simp
  next
    case False
    with Cons.prems(1) b1
    have "select_loop E idx selected nStop nPrev cands (Some (selection_hash E nPrev b1, b1)) = Some (Some (hb, b))"
      by (simp add: e Let_def)
    note best = select_loop_best [OF this b1(4)]
    define C where "C = {b \<in> candidate_blocks idx (e # cands). bi_hash b \<notin> set selected}"
    have first: "(t, h) \<le> (bi_GetBlockTime c, bi_hash c)" if "c \<in> C" for c
    proof -
      from that consider "c = b1" | "(bi_GetBlockTime c, bi_hash c) \<in> set cands"
        unfolding C_def blocks by (auto simp: candidate_blocks_def)
      then show ?thesis using b1(2,3,5) by cases auto
    qed
    have b1C: "b1 \<in> C" using False b1(2) blocks by (simp add: C_def)
    have "b \<in> C" using best b1(2,3,5) b1C blocks by (auto simp: C_def)
    moreover have "\<forall>c \<in> C. bi_GetBlockTime c \<le> nStop \<longrightarrow> candidate_key E nPrev b \<le> candidate_key E nPrev c"
      using best b1(2,3,5) blocks by (auto simp: C_def)
    moreover have "bi_GetBlockTime b \<le> nStop" if "c \<in> C" "bi_GetBlockTime c \<le> nStop" for c
    proof -
      have "t \<le> nStop" using first [OF that(1)] that(2) by (auto simp: less_eq_prod_def)
      with best b1(2,3,5) show ?thesis by auto
    qed
    moreover have "(bi_GetBlockTime b, bi_hash b) \<le> (bi_GetBlockTime c, bi_hash c)" if "c \<in> C" "\<forall>c \<in> C. \<not> bi_GetBlockTime c \<le> nStop" for c
    proof -
      have "b = b1" using best b1(2,3,5) that(2) \<open>b \<in> C\<close> by auto
      with first [OF that(1)] b1(2,3) show ?thesis by simp
    qed
    ultimately show ?thesis unfolding round_choice_def C_def by auto
  qed
qed simp

lemma modifier_rounds_choices:
  assumes "modifier_rounds E f idx cands nPrev left n s selected new = Some m" and "cands_ok idx cands" and "n + left \<le> 64"
  shows "\<exists>sel. length sel = left \<and>
    (\<forall>i < left. round_choice E nPrev (s + (\<Sum>j\<leftarrow>[n ..< Suc (n + i)]. SelectionIntervalSection f (int j)))
       {b \<in> candidate_blocks idx cands. bi_hash b \<notin> set selected \<union> bi_hash ` set (take i sel)} (sel ! i)) \<and>
    (\<forall>i. bit m i \<longleftrightarrow> bit new i \<or> n \<le> i \<and> i < n + left \<and> bit (bi_nFlags (sel ! (i - n))) 1)"
  using assms
proof (induction left arbitrary: n s selected new)
  case (Suc left)
  define s1 where "s1 = s + SelectionIntervalSection f (int n)"
  from Suc.prems(1) obtain b where b: "SelectBlockFromCandidates E idx selected s1 nPrev cands = Some b"
    and r: "modifier_rounds E f idx cands nPrev left (n + 1) s1 (bi_hash b # selected)
      (new OR push_bit n (ucast (bi_GetStakeEntropyBit b))) = Some m"
    by (auto simp: Let_def s1_def split: option.splits)
  from b obtain hb where "select_loop E idx selected s1 nPrev cands None = Some (Some (hb, b))"
    by (auto simp: SelectBlockFromCandidates_def split: option.splits)
  note first = select_loop_choice [OF this Suc.prems(2)]
  from Suc.IH [OF r Suc.prems(2)] Suc.prems(3) obtain sel where sel: "length sel = left"
    "\<forall>i < left. round_choice E nPrev (s1 + (\<Sum>j\<leftarrow>[n + 1 ..< Suc (n + 1 + i)]. SelectionIntervalSection f (int j)))
       {c \<in> candidate_blocks idx cands. bi_hash c \<notin> set (bi_hash b # selected) \<union> bi_hash ` set (take i sel)} (sel ! i)"
    and bits: "\<forall>i. bit m i \<longleftrightarrow> bit (new OR push_bit n (ucast (bi_GetStakeEntropyBit b))) i \<or>
       n + 1 \<le> i \<and> i < n + 1 + left \<and> bit (bi_nFlags (sel ! (i - (n + 1)))) 1"
    by auto
  have choices: "round_choice E nPrev (s + (\<Sum>j\<leftarrow>[n ..< Suc (n + i)]. SelectionIntervalSection f (int j)))
       {c \<in> candidate_blocks idx cands. bi_hash c \<notin> set selected \<union> bi_hash ` set (take i (b # sel))} ((b # sel) ! i)"
    if "i < Suc left" for i
  proof (cases i)
    case 0
    with first show ?thesis by (simp add: s1_def)
  next
    case (Suc k)
    have "s + (\<Sum>j\<leftarrow>[n ..< Suc (n + i)]. SelectionIntervalSection f (int j)) =
        s1 + (\<Sum>j\<leftarrow>[n + 1 ..< Suc (n + 1 + k)]. SelectionIntervalSection f (int j))"
      unfolding s1_def Suc by (subst upt_conv_Cons) simp_all
    moreover have "set selected \<union> bi_hash ` set (take i (b # sel)) = set (bi_hash b # selected) \<union> bi_hash ` set (take k sel)"
      by (auto simp: Suc)
    ultimately show ?thesis using sel(2) that by (simp only: Suc nth_Cons_Suc)
  qed
  have e: "bi_GetStakeEntropyBit b = 1 \<longleftrightarrow> bit (bi_nFlags b) 1"
  proof -
    have "bit (bi_GetStakeEntropyBit b) j \<longleftrightarrow> j = 0 \<and> bit (bi_nFlags b) 1" for j
      by (auto simp: bi_GetStakeEntropyBit_def BLOCK_STAKE_ENTROPY_def bit_simps)
    then have "bi_GetStakeEntropyBit b = (if bit (bi_nFlags b) 1 then 1 else 0)"
      by (intro bit_eqI) (auto simp: bit_1_iff)
    then show ?thesis by simp
  qed
  have "bit m i \<longleftrightarrow> bit new i \<or> n \<le> i \<and> i < n + Suc left \<and> bit (bi_nFlags ((b # sel) ! (i - n))) 1" for i
    using bits Suc.prems(3) by (cases "i = n") (auto simp: bit_or_iff entropy_bit e nth_Cons')
  with choices sel(1) show ?case by (intro exI [of _ "b # sel"]) simp
qed auto

text \<open>The blocks of the selection interval, and when it starts.\<close>

definition selection_start :: "bool \<Rightarrow> pindex \<Rightarrow> int" where
  "selection_start f p = bi_GetBlockTime (hd p) div getIntervalVersion f * getIntervalVersion f - SelectionInterval f"

definition recent_blocks :: "bool \<Rightarrow> pindex \<Rightarrow> CBlockIndex list" where
  "recent_blocks f p = takeWhile (\<lambda>b. selection_start f p \<le> bi_GetBlockTime b) p"

lemma recent_candidates:
  assumes "\<forall>b \<in> set p. map_of idx (bi_hash b) = Some b"
  shows "cands_ok idx (modifier_candidates f p)" "candidate_blocks idx (modifier_candidates f p) = set (recent_blocks f p)"
    "length (modifier_candidates f p) = length (recent_blocks f p)"
proof -
  have c: "modifier_candidates f p = sort (rev (map (\<lambda>b. (bi_GetBlockTime b, bi_hash b)) (recent_blocks f p)))"
    by (simp add: modifier_candidates_def recent_blocks_def selection_start_def Let_def)
  have own: "map_of idx (bi_hash b) = Some b" if "b \<in> set (recent_blocks f p)" for b
    using that assms by (auto simp: recent_blocks_def dest: set_takeWhileD)
  show "cands_ok idx (modifier_candidates f p)" using own by (auto simp: cands_ok_def c)
  show "candidate_blocks idx (modifier_candidates f p) = set (recent_blocks f p)"
    using own by (auto simp: candidate_blocks_def c)
  show "length (modifier_candidates f p) = length (recent_blocks f p)" by (simp add: c)
qed

text \<open>C34: A new stake modifier is made of the entropy bits of recent blocks: with one round for each
  block of the selection interval, 64 at most, the \<open>i\<close>-th round chooses among the blocks
  not chosen before the one with the least selection hash under the previous modifier, of those
  up to the end of its section (or the earliest one if there is none), and bit \<open>i\<close> is the entropy
  flag of that block; the other bits are 0.\<close>

theorem stake_modifier_bits:
  assumes "ComputeNextStakeModifier E f idx p = Some (m, True)" and "p \<noteq> []" and "\<forall>b \<in> set p. map_of idx (bi_hash b) = Some b"
  shows "\<exists>nPrev t sel. GetLastStakeModifier p = Some (nPrev, t) \<and> length sel = min 64 (length (recent_blocks f p)) \<and>
    (\<forall>i < length sel. round_choice E nPrev (round_stop f (selection_start f p) i) (set (recent_blocks f p) - set (take i sel)) (sel ! i)) \<and>
    (\<forall>i. bit m i \<longleftrightarrow> i < length sel \<and> bit (bi_nFlags (sel ! i)) 1)"
proof -
  note rc = recent_candidates [OF assms(3), of f]
  from assms(1,2) obtain nPrev t where l: "GetLastStakeModifier p = Some (nPrev, t)" and
    r: "modifier_rounds E f idx (modifier_candidates f p) nPrev (min 64 (length (recent_blocks f p))) 0 (selection_start f p) [] 0 = Some m"
    by (auto simp: ComputeNextStakeModifier_def Let_def rc(3) selection_start_def split: option.splits if_splits)
  from modifier_rounds_choices [OF r rc(1)] obtain sel where sel: "length sel = min 64 (length (recent_blocks f p))"
    "\<forall>i < length sel. round_choice E nPrev (round_stop f (selection_start f p) i)
       {b \<in> set (recent_blocks f p). bi_hash b \<notin> bi_hash ` set (take i sel)} (sel ! i)"
    "\<forall>i. bit m i \<longleftrightarrow> i < length sel \<and> bit (bi_nFlags (sel ! i)) 1"
    by (auto simp: rc(2) round_stop_def)
  have own: "map_of idx (bi_hash b) = Some b" if "b \<in> set (recent_blocks f p)" for b
    using that assms(3) by (auto simp: recent_blocks_def dest: set_takeWhileD)
  have in_recent: "set sel \<subseteq> set (recent_blocks f p)"
    using sel(2) by (auto simp: round_choice_def in_set_conv_nth)
  have "{b \<in> set (recent_blocks f p). bi_hash b \<notin> bi_hash ` set (take i sel)} = set (recent_blocks f p) - set (take i sel)" for i
  proof -
    have "b \<in> set (take i sel)" if "b \<in> set (recent_blocks f p)" "c \<in> set (take i sel)" "bi_hash b = bi_hash c" for b c
    proof -
      have "c \<in> set (recent_blocks f p)" using that(2) in_recent by (auto dest: in_set_takeD)
      with own that(1,3) have "b = c" by (metis option.inject)
      with that(2) show ?thesis by simp
    qed
    then show ?thesis by auto
  qed
  with l sel show ?thesis by auto
qed

lemma modifier_rounds_total:
  assumes "\<forall>(t, h) \<in> set cands. map_of idx h \<noteq> None" and "index_hashes idx" and "distinct (map snd cands)"
    and "length selected + left \<le> length cands"
  shows "modifier_rounds E f idx cands nPrev left n s selected new \<noteq> None"
  using assms(4)
proof (induction left arbitrary: n s selected new)
  case (Suc left)
  have "\<not> snd ` set cands \<subseteq> set selected"
  proof
    assume "snd ` set cands \<subseteq> set selected"
    then have "card (snd ` set cands) \<le> length selected"
      by (meson List.finite_set card_length card_mono le_trans)
    moreover have "card (snd ` set cands) = length cands"
      using distinct_card [OF assms(3)] by simp
    ultimately show False using Suc.prems by simp
  qed
  then have "\<exists>(t, h) \<in> set cands. h \<notin> set selected" by auto
  with select_loop_total [OF assms(1,2), of None selected] obtain r where
    "select_loop E idx selected (s + SelectionIntervalSection f (int n)) nPrev cands None = Some (Some r)" by blast
  with Suc show ?case by (cases r) (auto simp: Let_def SelectBlockFromCandidates_def)
qed simp

text \<open>The computation of the next modifier never fails on an indexed chain whose first block
  has generated a modifier: in every round a candidate is left.\<close>

theorem stake_modifier_total:
  assumes "index_hashes idx" and "\<forall>b \<in> set p. map_of idx (bi_hash b) \<noteq> None" and "distinct (map bi_hash p)"
    and "p \<noteq> [] \<longrightarrow> bi_GeneratedStakeModifier (last p)"
  shows "\<exists>m g. ComputeNextStakeModifier E f idx p = Some (m, g)"
proof (cases "p = []")
  case True
  then show ?thesis by (simp add: ComputeNextStakeModifier_def exI [of _ True])
next
  case False
  have last: "GetLastStakeModifier q \<noteq> None" if "q \<noteq> []" "bi_GeneratedStakeModifier (last q)" for q
    using that by (induction q rule: GetLastStakeModifier.induct) auto
  define s where "s = bi_GetBlockTime (hd p) div getIntervalVersion f * getIntervalVersion f - SelectionInterval f"
  define tw where "tw = takeWhile (\<lambda>b. s \<le> bi_GetBlockTime b) p"
  have c: "modifier_candidates f p = sort (rev (map (\<lambda>b. (bi_GetBlockTime b, bi_hash b)) tw))"
    by (simp add: modifier_candidates_def Let_def s_def tw_def)
  have sub: "set tw \<subseteq> set p" unfolding tw_def by (auto dest: set_takeWhileD)
  have "map snd (rev (map (\<lambda>b. (bi_GetBlockTime b, bi_hash b)) tw)) = rev (map bi_hash tw)"
    by (simp add: comp_def rev_map)
  moreover have "distinct (map bi_hash tw)"
    using assms(3) unfolding tw_def by (metis distinct_take take_map takeWhile_eq_take)
  ultimately have "distinct (map snd (rev (map (\<lambda>b. (bi_GetBlockTime b, bi_hash b)) tw)))" by simp
  then have dist: "distinct (map snd (modifier_candidates f p))" unfolding c by (simp only: distinct_map distinct_sort set_sort)
  have idx: "\<forall>(t, h) \<in> set (modifier_candidates f p). map_of idx h \<noteq> None"
    using sub assms(2) unfolding c by auto
  obtain nPrev t where l: "GetLastStakeModifier p = Some (nPrev, t)" using last [OF False] assms(4) False by auto
  have "modifier_rounds E f idx (modifier_candidates f p) nPrev (min 64 (length (modifier_candidates f p))) 0 s [] 0 \<noteq> None"
    by (rule modifier_rounds_total [OF idx assms(1) dist]) simp
  then show ?thesis using False l by (auto simp: ComputeNextStakeModifier_def Let_def s_def)
qed

subsection \<open>The walk for the kernel's modifier\<close>

text \<open>On an index whose successor links go up one height at a time, the search for the modifier
  of a kernel ends, and what it finds is at least a selection interval after the coin's block.\<close>

theorem kernel_modifier_ends:
  assumes "\<forall>h b h' b'. map_of idx h = Some b \<longrightarrow> bi_pnext b = Some h' \<longrightarrow> map_of idx h' = Some b' \<longrightarrow>
      bi_nHeight b' = bi_nHeight b + 1"
  shows "\<exists>r. GetKernelStakeModifier f idx hash = Some r \<and>
    (\<forall>m height time b. r = Some (m, height, time) \<longrightarrow> map_of idx hash = Some b \<longrightarrow>
       bi_GetBlockTime b + SelectionInterval f \<le> time)"
proof -
  define top where "top = Max (insert 0 (bi_nHeight ` snd ` set idx))"
  have top: "map_of idx h = Some b \<Longrightarrow> bi_nHeight b \<le> top" for h b
    unfolding top_def by (intro Max_ge) (auto dest!: map_of_SomeD, force)
  have loop: "\<exists>r. kernel_modifier_loop idx s b height t = Some r \<and> (\<forall>m k u. r = Some (m, k, u) \<longrightarrow> s \<le> u)"
    if "map_of idx h = Some b" for h b s height t
    using that
  proof (induction "nat (top - bi_nHeight b)" arbitrary: h b height t rule: less_induct)
    case less
    show ?case
    proof (cases "s \<le> t")
      case True
      then show ?thesis by (subst kernel_modifier_loop.simps) simp
    next
      case False
      show ?thesis
      proof (cases "bi_pnext b")
        case None
        with False show ?thesis by (subst kernel_modifier_loop.simps) simp
      next
        case (Some h')
        show ?thesis
        proof (cases "map_of idx h'")
          case None
          with False Some show ?thesis by (subst kernel_modifier_loop.simps) simp
        next
          case b': (Some b')
          have "bi_nHeight b' = bi_nHeight b + 1" using assms less.prems Some b' by blast
          with top [OF b'] have "nat (top - bi_nHeight b') < nat (top - bi_nHeight b)" by simp
          note IH = less.hyps [OF this b']
          show ?thesis
            using IH [of "bi_nHeight b'" "bi_GetBlockTime b'"] IH [of height t] False Some b'
            by (subst kernel_modifier_loop.simps) auto
        qed
      qed
    qed
  qed
  show ?thesis
  proof (cases "map_of idx hash")
    case None
    then show ?thesis by (simp add: GetKernelStakeModifier_def)
  next
    case (Some b)
    from loop [OF this] show ?thesis by (auto simp: GetKernelStakeModifier_def Some)
  qed
qed

end
