(* ===== verification/Kernel_Witnesses.thy ===== *)
theory Kernel_Witnesses
  imports Kernel_Rules Witnesses
begin

text \<open>
  The properties of the kernel at a concrete coin: a block and the transaction that paid the
  coin in a block file, a coinstake that spends it, and an index with a modifier one
  selection interval later.
\<close>

definition kernel_prev :: CTransaction where
  "kernel_prev = \<lparr>tx_nVersion = 1, tx_nTime = 900, tx_vin = [],
     tx_vout = [\<lparr>to_nValue = 100000000, to_scriptPubKey = [1, 1]\<rparr>], tx_nLockTime = 0\<rparr>"

definition kernel_stake :: CTransaction where
  "kernel_stake = \<lparr>tx_nVersion = 1, tx_nTime = 10000000,
     tx_vin = [\<lparr>ti_prevout = \<lparr>op_hash = GetHash sample_ssl kernel_prev, op_n = 0\<rparr>, ti_scriptSig = [], ti_nSequence = - 1\<rparr>],
     tx_vout = [\<lparr>to_nValue = 0, to_scriptPubKey = []\<rparr>, \<lparr>to_nValue = 100000000, to_scriptPubKey = sample_spk\<rparr>],
     tx_nLockTime = 0\<rparr>"

definition kernel_block :: CBlock where
  "kernel_block = CBlock_new\<lparr>bk_nTime := 1000\<rparr>"

definition kernel_disk :: blockfiles where
  "kernel_disk = sample_disk\<lparr>bf_files := [(1, ser_header kernel_block @ ser_tx kernel_prev)]\<rparr>"

definition kernel_pos :: CTxIndex where
  "kernel_pos = \<lparr>xi_pos = \<lparr>dp_nFile = 1, dp_nBlockPos = 0, dp_nTxPos = 80\<rparr>, xi_vSpent = [CDiskTxPos_SetNull]\<rparr>"

definition kernel_db :: txdb where
  "kernel_db = sample_db\<lparr>db_tables := (db_tables sample_db)\<lparr>tb_tx := [(GetHash sample_ssl kernel_prev, kernel_pos)]\<rparr>\<rparr>"

definition kernel_from :: CBlockIndex where
  "kernel_from = (sample_index 1 1000)\<lparr>bi_hash := 80, bi_pnext := Some 81\<rparr>"

definition kernel_next :: CBlockIndex where
  "kernel_next = (sample_index 2 5000000)\<lparr>bi_hash := 81, bi_nFlags := BLOCK_STAKE_MODIFIER, bi_nStakeModifier := 5\<rparr>"

definition kernel_index :: block_index where
  "kernel_index = [(80, kernel_from), (81, kernel_next)]"

lemma selection_interval: "0 < SelectionInterval False" "SelectionInterval False \<le> 4000000"
  by (simp_all add: SelectionInterval_def SelectionIntervalSection_def getIntervalVersion_def MODIFIER_INTERVAL_def
     MODIFIER_INTERVAL_RATIO_def upto.simps)

lemma kernel_modifier: "GetKernelStakeModifier False kernel_index 80 = Some (Some (5, 2, 5000000))"
proof -
  have "bi_GetBlockTime kernel_from = 1000" "bi_GetBlockTime kernel_next = 5000000"
    by (simp_all add: kernel_from_def kernel_next_def sample_index_def bi_GetBlockTime_def)
  moreover have "kernel_modifier_loop kernel_index (1000 + SelectionInterval False) kernel_next 2 5000000 = Some (Some (5, 2, 5000000))"
    using selection_interval by (subst kernel_modifier_loop.simps) (simp add: kernel_next_def)
  moreover have "bi_GeneratedStakeModifier kernel_next" "bi_nHeight kernel_next = 2" "bi_pnext kernel_from = Some 81"
    by (simp_all add: kernel_next_def kernel_from_def bi_GeneratedStakeModifier_def BLOCK_STAKE_MODIFIER_def sample_index_def)
  ultimately show ?thesis using selection_interval(1)
    by (simp add: GetKernelStakeModifier_def kernel_index_def kernel_modifier_loop.simps [of _ _ kernel_from])
qed


text \<open>A kernel hash of the stand-in is the number that the hashed bytes make.\<close>

lemma sample_stakeHash:
  assumes "length ss = 8"
  shows "uint (stakeHash sample_ssl t p ss n off b) =
    int (le_value (ss @ bytes_of_u32 b @ bytes_of_u32 off @ bytes_of_u32 p @ bytes_of_u32 n)) + 2 ^ 192 * uint t"
proof -
  let ?m = "ss @ bytes_of_u32 b @ bytes_of_u32 off @ bytes_of_u32 p @ bytes_of_u32 n"
  have l: "length ?m = 24" using assms by simp
  have "unat t < 2 ^ 32" using unsigned_less [of t] by simp
  then have "le_value (?m @ bytes_of_u32 t) = le_value ?m + 256 ^ 24 * unat t"
    unfolding le_value_append l by (simp add: bytes_of_u32_def le_value_le_bytes)
  moreover have "le_value (?m @ bytes_of_u32 t) < 256 ^ 28"
    using le_value_bound [of "?m @ bytes_of_u32 t"] l by simp
  moreover have "uint (word_of_nat v :: uint256) = int v" if "v < 256 ^ 28" for v
    using that by (simp add: unsigned_of_nat take_bit_nat_eq_self)
  moreover have "stakeHash sample_ssl t p ss n off b = word_of_nat (le_value (?m @ bytes_of_u32 t))"
    using l by (simp add: stakeHash_def sample_Hash_short)
  ultimately have "uint (stakeHash sample_ssl t p ss n off b) = int (le_value ?m + 256 ^ 24 * unat t)" by metis
  then show ?thesis by simp
qed

lemma sample_stakeHash_bounds:
  assumes "length ss = 8"
  shows "2 ^ 192 * uint t \<le> uint (stakeHash sample_ssl t p ss n off b)"
    and "uint (stakeHash sample_ssl t p ss n off b) < 2 ^ 192 * (uint t + 1)"
  using le_value_bound [of "ss @ bytes_of_u32 b @ bytes_of_u32 off @ bytes_of_u32 p @ bytes_of_u32 n"] assms
  by (simp_all add: sample_stakeHash [OF assms])

lemma kernel_hit:
  "fst (stakeTargetHit sample_ssl False (stakeHash sample_ssl 10000000 900 (bytes_of_u64 5) 0 80 1000) (10000000 - 900) 100000000
     (SetCompact 0x1e0fffff))"
proof -
  have "uint (stakeHash sample_ssl 10000000 900 (bytes_of_u64 5) 0 80 1000) < 2 ^ 192 * 10000001"
    using sample_stakeHash_bounds(2) [of "bytes_of_u64 5" 10000000 900 0 80 1000] by simp
  moreover have "SetCompact 0x1e0fffff = 0xfffff * 2 ^ 216" by (simp add: SetCompact_def)
  ultimately show ?thesis
    by (simp add: stakeTargetHit_weight coin_weight_def nStakeMaxAge_def nStakeMinAge_def COIN_def)
qed

theorem stake_target_monotone_witness:
  "uint (stakeHash sample_ssl 10000000 900 (bytes_of_u64 5) 0 80 1000) <
     coin_weight False (sint (100000000 :: int64)) (uint (10000000 - 900 :: uint32)) * SetCompact 0x1e0fffff \<and>
   fst (stakeTargetHit sample_ssl False (stakeHash sample_ssl 10000000 900 (bytes_of_u64 5) 0 80 1000) 10000000 200000000
     (SetCompact 0x1e0fffff))"
proof -
  have "0 \<le> SetCompact 0x1e0fffff" by (simp add: SetCompact_def)
  from stake_target_monotone [OF sample_bn this _ _ _ kernel_hit, of 200000000 10000000] show ?thesis by simp
qed

lemma kernel_reads:
  "ReadFromDisk_prevout kernel_disk kernel_db \<lparr>op_hash = GetHash sample_ssl kernel_prev, op_n = 0\<rparr> = Some (kernel_prev, kernel_pos)"
  "ReadFromDisk sample_node kernel_disk CBlock_new 1 0 False = Some kernel_block"
proof -
  have "valid_tx kernel_prev"
    by (simp add: valid_tx_def valid_txout_def kernel_prev_def MAX_SIZE_def)
  from tx_codec.dec_enc [OF this, of "[]"]
  show "ReadFromDisk_prevout kernel_disk kernel_db \<lparr>op_hash = GetHash sample_ssl kernel_prev, op_n = 0\<rparr> = Some (kernel_prev, kernel_pos)"
    by (simp add: ReadFromDisk_prevout_def ReadDiskTx_def ReadTxIndex_def kernel_db_def kernel_pos_def ReadFromDisk_tx_def
      OpenBlockFile_def kernel_disk_def) (simp add: kernel_prev_def)
  show "ReadFromDisk sample_node kernel_disk CBlock_new 1 0 False = Some kernel_block"
    using unser_header_ser [of "CBlock_SetNull CBlock_new" kernel_block]
    by (simp add: ReadFromDisk_def OpenBlockFile_def kernel_disk_def)
      (simp add: kernel_block_def CBlock_SetNull_def CBlock_new_def)
qed

theorem CheckProofOfStake_sound_witness:
  "\<exists>h. CheckProofOfStake sample_node kernel_disk kernel_db kernel_index kernel_stake 0x1e0fffff 0 sample_cache =
      Some ((True, 0), h, sample_cache) \<and>
    (\<exists>m height time. GetKernelStakeModifier False kernel_index (CBlock_GetHash sample_node kernel_block) = Some (Some (m, height, time)) \<and>
      h = stakeHash sample_ssl 10000000 900 (bytes_of_u64 m) 0 80 1000)"
proof -
  have kind: "IsCoinStake kernel_stake"
    by (simp add: kernel_stake_def IsCoinStake_def COutPoint_IsNull_def CTxOut_IsEmpty_def)
  have prev: "ti_prevout (tx_vin kernel_stake ! 0) = \<lparr>op_hash = GetHash sample_ssl kernel_prev, op_n = 0\<rparr>"
    "tx_nTime kernel_stake = 10000000" "tx_nTime kernel_prev = 900"
    "to_nValue (tx_vout kernel_prev ! 0) = 100000000"
    by (simp_all add: kernel_stake_def kernel_prev_def)
  have hash: "CBlock_GetHash sample_node kernel_block = 80"
    by (simp add: CBlock_GetHash_def kernel_block_def CBlock_new_def sample_node_def ser_header_def)
  have pos: "xi_pos kernel_pos = \<lparr>dp_nFile = 1, dp_nBlockPos = 0, dp_nTxPos = 80\<rparr>" "bk_nTime kernel_block = 1000"
    by (simp_all add: kernel_pos_def kernel_block_def)
  have net: "\<not> nd_fTestNet sample_node" by (simp add: sample_node_def)
  have sig: "VerifySignature sample_env kernel_prev kernel_stake 0 True 0 sample_cache = (True, sample_cache)"
  proof -
    have "VerifyScript sample_env [] [1, 1] kernel_stake 0 True 0 sample_cache = (True, sample_cache)"
      by (simp add: VerifyScript_def verify_with_def eval_simps IsPayToScriptHash_def)
    then show ?thesis
      by (simp add: VerifySignature_def Let_def kernel_stake_def) (simp add: kernel_prev_def)
  qed
  let ?h = "stakeHash sample_ssl 10000000 900 (bytes_of_u64 5) 0 80 1000"
  obtain w where w: "stakeTargetHit sample_ssl False ?h 9999100 100000000 (SetCompact 0x1e0fffff) = (True, w)"
    using kernel_hit by (cases "stakeTargetHit sample_ssl False ?h 9999100 100000000 (SetCompact 0x1e0fffff)") auto
  have "CheckStakeKernelHash sample_node kernel_index 0x1e0fffff kernel_block 80 kernel_prev
      \<lparr>op_hash = GetHash sample_ssl kernel_prev, op_n = 0\<rparr> 10000000 0 True 0 0 =
    Some \<lparr>kr_ok = True, kr_nTimeTx = 10000000, kr_hashProofOfStake = ?h, kr_bnCoinWeight = w, kr_searched = False\<rparr>"
    by (simp add: CheckStakeKernelHash_def prev pos hash net kernel_modifier w nStakeMinAge_def)
  then have c: "CheckProofOfStake sample_node kernel_disk kernel_db kernel_index kernel_stake 0x1e0fffff 0 sample_cache =
      Some ((True, 0), ?h, sample_cache)"
    by (simp add: CheckProofOfStake_def kind prev kernel_reads sig pos DoS_def)
  from CheckProofOfStake_sound [OF c] c prev kernel_reads(1) pos show ?thesis
    by (auto simp: net hash kernel_modifier)
qed

definition kernel_first :: CBlockIndex where
  "kernel_first = (sample_index 0 1000)\<lparr>bi_hash := 70, bi_nFlags := BLOCK_STAKE_MODIFIER\<rparr>"

definition kernel_chain :: pindex where
  "kernel_chain = [(sample_index 1 5000000)\<lparr>bi_hash := 71, bi_nFlags := BLOCK_STAKE_ENTROPY\<rparr>, kernel_first]"

definition chain_index :: block_index where
  "chain_index = [(71, hd kernel_chain), (70, kernel_first)]"

lemma kernel_chain_ok:
  "index_hashes chain_index" "\<forall>b \<in> set kernel_chain. map_of chain_index (bi_hash b) \<noteq> None"
  "distinct (map bi_hash kernel_chain)" "kernel_chain \<noteq> []" "bi_GeneratedStakeModifier (last kernel_chain)"
  by (simp_all add: index_hashes_def chain_index_def kernel_chain_def kernel_first_def bi_GeneratedStakeModifier_def BLOCK_STAKE_MODIFIER_def)

theorem stake_modifier_total_witness:
  "kernel_chain \<noteq> [] \<and> (\<exists>m g. ComputeNextStakeModifier sample_ssl False chain_index kernel_chain = Some (m, g))"
  using stake_modifier_total [OF kernel_chain_ok(1-3), of sample_ssl False] kernel_chain_ok(4,5) by blast

theorem stake_modifier_bits_witness:
  "ComputeNextStakeModifier sample_ssl False chain_index kernel_chain = Some (1, True)"
proof -
  have t: "bi_GetBlockTime (hd kernel_chain) = 5000000" "bi_GetBlockTime kernel_first = 1000"
    by (simp_all add: kernel_chain_def kernel_first_def bi_GetBlockTime_def sample_index_def)
  have l: "GetLastStakeModifier kernel_chain = Some (0, 1000)"
    by (simp add: kernel_chain_def kernel_first_def bi_GetBlockTime_def sample_index_def bi_GeneratedStakeModifier_def BLOCK_STAKE_MODIFIER_def
        BLOCK_STAKE_ENTROPY_def)
  have "takeWhile (\<lambda>b. s \<le> bi_GetBlockTime b) kernel_chain = [hd kernel_chain]" if "1000 < s" "s \<le> 5000000" for s
    using that t by (simp add: kernel_chain_def)
  then have recent: "recent_blocks False kernel_chain = [hd kernel_chain]"
    and c: "modifier_candidates False kernel_chain = [(5000000, 71)]"
    using selection_interval
    by (simp_all add: recent_blocks_def selection_start_def modifier_candidates_def Let_def t getIntervalVersion_def MODIFIER_INTERVAL_def)
      (simp add: kernel_chain_def)
  have "modifier_rounds sample_ssl False chain_index (modifier_candidates False kernel_chain) 0
      (min 64 (length (modifier_candidates False kernel_chain))) 0 s [] 0 \<noteq> None" for s
    unfolding c by (rule modifier_rounds_total [OF _ kernel_chain_ok(1)]) (simp_all add: chain_index_def)
  then obtain new where new: "modifier_rounds sample_ssl False chain_index (modifier_candidates False kernel_chain) 0
      (min 64 (length (modifier_candidates False kernel_chain))) 0
      (5000000 div getIntervalVersion False * getIntervalVersion False - SelectionInterval False) [] 0 = Some new" by blast
  have "5000000 div getIntervalVersion False > 1000 div getIntervalVersion False"
    by (simp add: getIntervalVersion_def MODIFIER_INTERVAL_def)
  with new have m: "ComputeNextStakeModifier sample_ssl False chain_index kernel_chain = Some (new, True)"
    by (simp add: ComputeNextStakeModifier_def kernel_chain_ok(4) l t)
  have own: "\<forall>b \<in> set kernel_chain. map_of chain_index (bi_hash b) = Some b"
    by (simp add: chain_index_def kernel_chain_def kernel_first_def)
  from stake_modifier_bits [OF m kernel_chain_ok(4) own] obtain nPrev sel where sel: "length sel = 1"
    "round_choice sample_ssl nPrev (round_stop False (selection_start False kernel_chain) 0) {hd kernel_chain} (sel ! 0)"
    "\<forall>i. bit new i \<longleftrightarrow> i < length sel \<and> bit (bi_nFlags (sel ! i)) 1"
    by (auto simp: recent)
  have "sel ! 0 = hd kernel_chain" using sel(2) by (simp add: round_choice_def)
  then have "bit (bi_nFlags (sel ! 0)) 1" by (simp add: kernel_chain_def BLOCK_STAKE_ENTROPY_def)
  with sel(1,3) have "new = 1" by (intro bit_eqI) (auto simp: bit_1_iff)
  with m show ?thesis by simp
qed

theorem kernel_modifier_ends_witness:
  "map_of kernel_index 80 = Some kernel_from \<and> (\<exists>r. GetKernelStakeModifier False kernel_index 80 = Some r)"
proof -
  have "bi_nHeight b' = bi_nHeight b + 1"
    if "map_of kernel_index h = Some b" "bi_pnext b = Some h'" "map_of kernel_index h' = Some b'" for h b h' b'
    using that by (auto simp: kernel_index_def kernel_from_def kernel_next_def sample_index_def split: if_splits)
  with kernel_modifier_ends [of kernel_index False 80] show ?thesis by (auto simp: kernel_index_def)
qed

subsection \<open>The search goes on after a success\<close>

lemma sample_stakeHash_first:
  assumes "length ss = 8"
  shows "uint (stakeHash sample_ssl t p ss 0 off b) < 2 ^ 192 * uint t + 2 ^ 160"
proof -
  have "le_value (ss @ bytes_of_u32 b @ bytes_of_u32 off @ bytes_of_u32 p @ bytes_of_u32 0) =
      le_value (ss @ bytes_of_u32 b @ bytes_of_u32 off @ bytes_of_u32 p)"
    using le_value_append [of "ss @ bytes_of_u32 b @ bytes_of_u32 off @ bytes_of_u32 p" "bytes_of_u32 0"]
    by (simp add: bytes_of_u32_def le_value_le_bytes)
  moreover have "le_value (ss @ bytes_of_u32 b @ bytes_of_u32 off @ bytes_of_u32 p) < 256 ^ 20"
    using le_value_bound [of "ss @ bytes_of_u32 b @ bytes_of_u32 off @ bytes_of_u32 p"] assms by simp
  ultimately show ?thesis by (simp add: sample_stakeHash [OF assms])
qed

text \<open>
  With a drift of three the first try meets the target and moves the time; the later tries,
  at other times, miss it and overwrite the hash: the search returns success with the time of
  one try and a hash, of another, that is above the target.
\<close>

theorem kernel_search_overwrites:
  fixes target :: int
  defines "target \<equiv> (2 ^ 192 * 10000003 + 2 ^ 191) div 29 + 1"
  defines "r \<equiv> kernel_search sample_ssl False (bytes_of_u64 5) 900 1000000 0 80 1000 target 3 3 0
      \<lparr>kr_ok = False, kr_nTimeTx = 10000000, kr_hashProofOfStake = 0, kr_bnCoinWeight = 0, kr_searched = False\<rparr>"
  shows "kr_ok r \<and> kr_nTimeTx r = 10000003 \<and>
    kr_hashProofOfStake r \<noteq> stakeHash sample_ssl (kr_nTimeTx r) 900 (bytes_of_u64 5) 0 80 1000 \<and>
    \<not> uint (kr_hashProofOfStake r) < kr_bnCoinWeight r * target"
proof -
  have w: "snd (stakeTargetHit sample_ssl False h age 1000000 target) = 29" if "3000000 \<le> uint age" for h age
    using that by (simp add: stakeTargetHit_def setint64_value Let_def nStakeMaxAge_def nStakeMinAge_def COIN_def bn_quot_pos)
  have hit: "stakeTargetHit sample_ssl False h age 1000000 target = (uint h < 29 * target, 29)" if "3000000 \<le> uint age" for h age
    using w [OF that, of h] by (auto simp: stakeTargetHit_def Let_def)
  let ?h = "\<lambda>t. stakeHash sample_ssl t 900 (bytes_of_u64 5) 0 80 1000"
  have 1: "uint (?h 10000003) < 29 * target"
    using sample_stakeHash_first [of "bytes_of_u64 5" 10000003 900 80 1000] by (simp add: target_def)
  have 2: "\<not> uint (?h 10000005) < 29 * target" "\<not> uint (?h 10000004) < 29 * target"
    using sample_stakeHash_bounds(1) [of "bytes_of_u64 5" 10000005 900 0 80 1000]
      sample_stakeHash_bounds(1) [of "bytes_of_u64 5" 10000004 900 0 80 1000] by (simp_all add: target_def)
  have "r = \<lparr>kr_ok = True, kr_nTimeTx = 10000003, kr_hashProofOfStake = ?h 10000004, kr_bnCoinWeight = 29, kr_searched = False\<rparr>"
    unfolding r_def by (simp add: numeral_3_eq_3 Let_def hit 1 2)
  with 1 2 show ?thesis by auto
qed

end
