(* ===== verification/Chain_State.thy ===== *)
theory Chain_State
  imports Kernel Mempool Votes
begin

text \<open>
  The chain as the node keeps it (\<open>src/main.cpp\<close>): the block index, the database and the block
  files, the best chain, the proposals and the tallies of votes, and the two operations that
  move the database one block forward or back, \<open>ConnectBlock\<close> and \<open>DisconnectBlock\<close>.

  \<open>None\<close> as the result of an operation is an exception that leaves it, a failed assertion or
  undefined behaviour. The wallets, which are told about the transactions of connected and
  disconnected blocks, and the user interface are left out.
\<close>

subsection \<open>The state\<close>

text \<open>
  \<open>mapBlockIndex\<close> is the table of entries by hash; a pointer to an entry is its hash. The
  tallies, which are a field of the entries in the code, are a table of their own. A list of
  faults says which of the next writes to the vote database fail.
\<close>

record chain_state =
  cs_mapBlockIndex :: block_index
  cs_tally :: "(uint256 \<times> CVoteTally) list"
  cs_pindexGenesisBlock :: "uint256 option"
  cs_pindexBest :: "uint256 option"
  cs_hashBestChain :: uint256
  cs_nBestHeight :: int
  cs_bnBestChainTrust :: int
  cs_bnBestInvalidTrust :: int
  cs_txdb :: txdb
  cs_files :: blockfiles
  cs_mempool :: mempool
  cs_sigcache :: sigcache
  cs_mapProposals :: "(uint256 \<times> uint256) list"
  cs_proposalManager :: proposals
  cs_voteDB :: "(uint256 \<times> CVoteProposal) list"
  cs_voteFaults :: "bool list"
  cs_setStakeSeen :: "(COutPoint \<times> uint32) list"
  cs_mapProofOfStake :: "(uint256 \<times> uint256) list"

text \<open>
  What the operations take from outside: the libraries and the network, the adjusted time,
  the free disk space, and, for transactions that return to the memory pool, the rate
  limiter and the verdict on the proposal read from a transaction (\<open>CheckProposal\<close> in
  \<open>Votes\<close>, on whatever reading it has left in the proposal).
\<close>

record 'k chainenv =
  ce_node :: "'k node"
  ce_nAdjustedTime :: int
  ce_CheckDiskSpace :: "nat \<Rightarrow> bool"
  ce_rate_limited :: "CTransaction \<Rightarrow> bool"
  ce_CheckProposal :: "proposals \<Rightarrow> int \<Rightarrow> CTransaction \<Rightarrow> bool"

text \<open>
  The chain behind an entry. The walk ends at an entry without a parent; in an index whose
  heights go up by one it never runs out of the length of the index.
\<close>

fun chain_walk :: "nat \<Rightarrow> block_index \<Rightarrow> uint256 \<Rightarrow> pindex" where
  "chain_walk 0 idx h = []"
| "chain_walk (Suc n) idx h =
     (case map_of idx h of None \<Rightarrow> []
      | Some b \<Rightarrow> b # (case bi_pprev b of None \<Rightarrow> [] | Some h' \<Rightarrow> chain_walk n idx h'))"

definition ancestry :: "block_index \<Rightarrow> uint256 \<Rightarrow> pindex" where
  "ancestry idx h = chain_walk (length idx) idx h"

definition CDiskBlockIndex_of :: "pindex \<Rightarrow> CDiskBlockIndex" where
  "CDiskBlockIndex_of p =
     \<lparr>di_index = hd p, di_hashPrev = (if tl p = [] then 0 else bi_hash (hd (tl p))),
      di_hashNext = (case bi_pnext (hd p) of None \<Rightarrow> 0 | Some h \<Rightarrow> h)\<rparr>"

text \<open>The constructor of an entry for a stored block.\<close>

definition CBlockIndex_new :: "uint32 \<Rightarrow> uint32 \<Rightarrow> CBlock \<Rightarrow> CBlockIndex" where
  "CBlockIndex_new nFile nBlockPos block =
     (let b = \<lparr>bi_hash = 0, bi_pprev = None, bi_pnext = None, bi_nFile = nFile, bi_nBlockPos = nBlockPos,
               bi_bnChainTrust = 0, bi_nHeight = 0, bi_nMint = 0, bi_nMoneySupply = 0, bi_nFlags = 0,
               bi_nStakeModifier = 0, bi_nStakeModifierChecksum = 0, bi_prevoutStake = COutPoint_SetNull,
               bi_nStakeTime = 0, bi_hashProofOfStake = 0, bi_nVersion = bk_nVersion block,
               bi_hashMerkleRoot = bk_hashMerkleRoot block, bi_nTime = bk_nTime block,
               bi_nBits = bk_nBits block, bi_nNonce = bk_nNonce block\<rparr>
      in if IsProofOfStake block
         then (bi_SetProofOfStake b)
                \<lparr>bi_prevoutStake := ti_prevout (tx_vin (bk_vtx block ! 1) ! 0),
                 bi_nStakeTime := tx_nTime (bk_vtx block ! 1)\<rparr>
         else b)"

subsection \<open>Disconnecting a block\<close>

fun disconnect_txs :: "openssl \<Rightarrow> txdb \<Rightarrow> CTransaction list \<Rightarrow> bool \<times> txdb" where
  "disconnect_txs E db [] = (True, db)"
| "disconnect_txs E db (tx # txs) =
     (case DisconnectInputs E db tx of
        (False, db) \<Rightarrow> (False, db)
      | (True, db) \<Rightarrow> disconnect_txs E db txs)"

definition DisconnectBlock :: "openssl \<Rightarrow> txdb \<Rightarrow> CBlock \<Rightarrow> pindex \<Rightarrow> bool \<times> txdb" where
  "DisconnectBlock E db block pindex =
     (case disconnect_txs E db (rev (bk_vtx block)) of
        (False, db) \<Rightarrow> (False, db)
      | (True, db) \<Rightarrow>
          if tl pindex \<noteq> []
          then WriteBlockIndex db ((CDiskBlockIndex_of (tl pindex))\<lparr>di_hashNext := 0\<rparr>)
          else (True, db))"

subsection \<open>Connecting a block\<close>

definition VOTING_START :: int where "VOTING_START = 9999999"

definition CVoteProposal_FEE :: int where "CVoteProposal_FEE = 5 * COIN"

text \<open>What the loop over the transactions keeps.\<close>

record connect_acc =
  ca_vQueuedProposals :: "uint256 list"
  ca_mapQueuedChanges :: testpool
  ca_nFees :: int64
  ca_nValueIn :: int64
  ca_nValueOut :: int64
  ca_nSigOps :: nat
  ca_nTxPos :: uint32
  ca_sigcache :: sigcache

text \<open>
  One transaction: \<open>Inl\<close> is a return with the score of the block and the signature cache.
\<close>

definition overwrites_unspent :: "txdb \<Rightarrow> uint256 \<Rightarrow> bool" where
  "overwrites_unspent db hashTx =
     (case ReadTxIndex db hashTx of None \<Rightarrow> False
      | Some txindexOld \<Rightarrow> list_ex CDiskTxPos_IsNull (xi_vSpent txindexOld))"

definition connect_inputs_tx ::
  "'k node \<Rightarrow> int \<Rightarrow> blockfiles \<Rightarrow> txdb \<Rightarrow> pooltx \<Rightarrow> pindex \<Rightarrow> CDiskTxPos \<Rightarrow> CTransaction \<Rightarrow> connect_acc \<Rightarrow>
     (check \<times> sigcache + connect_acc) option" where
  "connect_inputs_tx N nBestHeight d db mapTx pindex posThisTx tx a =
     (case FetchInputs d db mapTx (ca_mapQueuedChanges a) True False [] tx of
        Inl _ \<Rightarrow> Some (Inl (DoS 0 False, ca_sigcache a))
      | Inr mapInputs \<Rightarrow>
          (case GetP2SHSigOpCount tx mapInputs of None \<Rightarrow> None
           | Some n \<Rightarrow>
               if MAX_BLOCK_SIGOPS < ca_nSigOps a + n then Some (Inl (DoS 100 False, ca_sigcache a))
               else case (GetValueIn tx mapInputs, GetValueOut tx) of
                      (Some nTxValueIn, Some nTxValueOut) \<Rightarrow>
                        (case ConnectInputs N nBestHeight d db mapInputs (ca_mapQueuedChanges a) posThisTx pindex
                                True False True tx (ca_sigcache a) of
                           (None, _, _) \<Rightarrow> None
                         | (Some (False, _), _, c) \<Rightarrow> Some (Inl (DoS 0 False, c))
                         | (Some (True, _), mapQueuedChanges, c) \<Rightarrow>
                             map_option (\<lambda>proposal. Inr
                                 (a\<lparr>ca_nSigOps := ca_nSigOps a + n,
                                    ca_nValueIn := ca_nValueIn a + nTxValueIn,
                                    ca_nValueOut := ca_nValueOut a + nTxValueOut,
                                    ca_nFees := (if IsCoinStake tx then ca_nFees a
                                                 else ca_nFees a + (nTxValueIn - nTxValueOut)),
                                    ca_mapQueuedChanges := mapQueuedChanges, ca_sigcache := c,
                                    ca_vQueuedProposals :=
                                      (if proposal \<and>
                                          CVoteProposal_FEE - MIN_TXOUT_AMOUNT \<le> sint (nTxValueIn - nTxValueOut)
                                       then ca_vQueuedProposals a @ [GetHash (nd_ssl N) tx]
                                       else ca_vQueuedProposals a)\<rparr>))
                               (IsProposal tx))
                    | _ \<Rightarrow> None))"

definition connect_tx ::
  "'k node \<Rightarrow> int \<Rightarrow> blockfiles \<Rightarrow> txdb \<Rightarrow> pooltx \<Rightarrow> pindex \<Rightarrow> bool \<Rightarrow> CTransaction \<Rightarrow> connect_acc \<Rightarrow>
     (check \<times> sigcache + connect_acc) option" where
  "connect_tx N nBestHeight d db mapTx pindex fJustCheck tx a =
     (let hashTx = GetHash (nd_ssl N) tx; nSigOps = ca_nSigOps a + GetLegacySigOpCount tx
      in if overwrites_unspent db hashTx then Some (Inl (DoS 0 False, ca_sigcache a))
         else if MAX_BLOCK_SIGOPS < nSigOps then Some (Inl (DoS 100 False, ca_sigcache a))
         else let posThisTx = \<lparr>dp_nFile = bi_nFile (hd pindex), dp_nBlockPos = bi_nBlockPos (hd pindex),
                               dp_nTxPos = ca_nTxPos a\<rparr>;
                  a = a\<lparr>ca_nSigOps := nSigOps,
                        ca_nTxPos := (if fJustCheck then ca_nTxPos a
                                      else ca_nTxPos a + word_of_nat (size_tx tx))\<rparr>
              in map_option
                   (map_sum id (\<lambda>a. a\<lparr>ca_mapQueuedChanges :=
                      map_put hashTx (CTxIndex_new posThisTx (length (tx_vout tx))) (ca_mapQueuedChanges a)\<rparr>))
                   (if IsCoinBase tx
                    then map_option (\<lambda>v. Inr (a\<lparr>ca_nValueOut := ca_nValueOut a + v\<rparr>)) (GetValueOut tx)
                    else connect_inputs_tx N nBestHeight d db mapTx pindex posThisTx tx a))"

fun connect_txs ::
  "'k node \<Rightarrow> int \<Rightarrow> blockfiles \<Rightarrow> txdb \<Rightarrow> pooltx \<Rightarrow> pindex \<Rightarrow> bool \<Rightarrow> CTransaction list \<Rightarrow> connect_acc \<Rightarrow>
     (check \<times> sigcache + connect_acc) option" where
  "connect_txs N nBestHeight d db mapTx pindex fJustCheck [] a = Some (Inr a)"
| "connect_txs N nBestHeight d db mapTx pindex fJustCheck (tx # txs) a =
     (case connect_tx N nBestHeight d db mapTx pindex fJustCheck tx a of
        None \<Rightarrow> None
      | Some (Inl r) \<Rightarrow> Some (Inl r)
      | Some (Inr a) \<Rightarrow> connect_txs N nBestHeight d db mapTx pindex fJustCheck txs a)"

text \<open>
  The proposals of the block that paid the fee: entered in \<open>mapProposals\<close>, written to the vote
  database and, when that succeeds, handed to the manager.
\<close>

definition WriteProposal :: "chain_state \<Rightarrow> uint256 \<Rightarrow> CVoteProposal \<Rightarrow> bool \<times> chain_state" where
  "WriteProposal S txid proposal =
     (case cs_voteFaults S of
        [] \<Rightarrow> (True, S\<lparr>cs_voteDB := map_put txid proposal (cs_voteDB S)\<rparr>)
      | fault # rest \<Rightarrow>
          if fault then (False, S\<lparr>cs_voteFaults := rest\<rparr>)
          else (True, S\<lparr>cs_voteFaults := rest, cs_voteDB := map_put txid proposal (cs_voteDB S)\<rparr>))"

fun record_proposals :: "openssl \<Rightarrow> uint256 list \<Rightarrow> CTransaction list \<Rightarrow> chain_state \<Rightarrow> chain_state option" where
  "record_proposals E vQueuedProposals [] S = Some S"
| "record_proposals E vQueuedProposals (tx # txs) S =
     (let txid = GetHash E tx
      in if txid \<notin> set vQueuedProposals then record_proposals E vQueuedProposals txs S
         else case ProposalFromTransaction tx of
                None \<Rightarrow> None
              | Some None \<Rightarrow> record_proposals E vQueuedProposals txs S
              | Some (Some proposal) \<Rightarrow>
                  let S = S\<lparr>cs_mapProposals := map_put txid (vp_GetHash E proposal) (cs_mapProposals S)\<rparr>
                  in (case WriteProposal S txid proposal of
                        (False, S) \<Rightarrow> record_proposals E vQueuedProposals txs S
                      | (True, S) \<Rightarrow>
                          record_proposals E vQueuedProposals txs
                            (S\<lparr>cs_proposalManager := snd (Manager_Add E proposal (cs_proposalManager S))\<rparr>)))"

text \<open>
  The tally of the block. The code calls \<open>CVoteTally\<close> with the parent's tally and not with a
  pointer to it, so that the copy constructor runs: the height is not raised and no stale
  summary is removed. The result of \<open>SetNewPositions\<close> is ignored.
\<close>

definition tally_of :: "chain_state \<Rightarrow> uint256 \<Rightarrow> CVoteTally" where
  "tally_of S h = (case map_of (cs_tally S) h of None \<Rightarrow> CVoteTally_SetNull | Some t \<Rightarrow> t)"

definition update_tally :: "'k node \<Rightarrow> pindex \<Rightarrow> chain_state \<Rightarrow> chain_state" where
  "update_tally N pindex S =
     (if tl pindex = [] then S
      else let b = hd pindex;
               t = (if nd_fTestNet N \<or> VOTING_START \<le> bi_nHeight b then tally_of S (bi_hash (hd (tl pindex)))
                    else tally_of S (bi_hash b));
               mapActive = GetActive (bi_nHeight b) (cs_proposalManager S);
               t = snd (SetNewPositions (cs_mapProposals S) (cs_voteDB S) mapActive t)
           in S\<lparr>cs_tally := map_put (bi_hash b) (ProcessNewVotes (bi_nVersion b) t) (cs_tally S)\<rparr>)"

fun write_changes :: "txdb \<Rightarrow> testpool \<Rightarrow> bool \<times> txdb" where
  "write_changes db [] = (True, db)"
| "write_changes db ((h, x) # rest) =
     (case UpdateTxIndex db h x of
        (False, db) \<Rightarrow> (False, db)
      | (True, db) \<Rightarrow> write_changes db rest)"

text \<open>
  The end of \<open>ConnectBlock\<close>: the entry, the queued changes and the link from the parent are
  written to the database; the reward of the first transaction is checked in between.
\<close>

definition write_block ::
  "'k node \<Rightarrow> CBlock \<Rightarrow> pindex \<Rightarrow> int64 \<Rightarrow> testpool \<Rightarrow> txdb \<Rightarrow> (check \<times> txdb) option" where
  "write_block N block pindex nFees mapQueuedChanges db =
     (case WriteBlockIndex db (CDiskBlockIndex_of pindex) of
        (False, db) \<Rightarrow> Some (DoS 0 False, db)
      | (True, db) \<Rightarrow>
          (case write_changes db mapQueuedChanges of
             (False, db) \<Rightarrow> Some (DoS 0 False, db)
           | (True, db) \<Rightarrow>
               (case GetValueOut (hd (bk_vtx block)) of
                  None \<Rightarrow> None
                | Some v \<Rightarrow>
                    if sint (GetProofOfWorkReward (nd_fTestNet N) (bi_nHeight (hd pindex)) nFees) < sint v
                    then Some (DoS 0 False, db)
                    else if tl pindex = [] then Some (DoS 0 True, db)
                    else (case WriteBlockIndex db
                                 ((CDiskBlockIndex_of (tl pindex))\<lparr>di_hashNext := bi_hash (hd pindex)\<rparr>) of
                            (ok, db) \<Rightarrow> Some (DoS 0 ok, db)))))"

text \<open>
  \<open>pindex\<close> is the chain from the entry of the block on. With \<open>fJustCheck\<close> the entry is the
  caller's own and not one of the index; what is written to it is dropped.
\<close>

definition set_index :: "CBlockIndex \<Rightarrow> chain_state \<Rightarrow> chain_state" where
  "set_index b S = S\<lparr>cs_mapBlockIndex := map_put (bi_hash b) b (cs_mapBlockIndex S)\<rparr>"

definition ConnectBlock ::
  "'k chainenv \<Rightarrow> chain_state \<Rightarrow> CBlock \<Rightarrow> pindex \<Rightarrow> bool \<Rightarrow> (check \<times> chain_state) option" where
  "ConnectBlock V S block pindex fJustCheck =
     (let N = ce_node V; E = nd_ssl N;
          fFullCheck = GetTotalBlocksEstimate N \<le> bi_nHeight (hd pindex);
          (ok, score) = CheckBlock N (ce_nAdjustedTime V) (\<not> fJustCheck) (\<not> fJustCheck) fFullCheck block
      in if \<not> ok then Some (DoS score False, S)
         else let nTxPos = (if fJustCheck then 1 else tx_position (bi_nBlockPos (hd pindex)) (bk_vtx block) 0)
              in case connect_txs N (cs_nBestHeight S) (cs_files S) (cs_txdb S) (mp_mapTx (cs_mempool S)) pindex
                        fJustCheck (bk_vtx block)
                        \<lparr>ca_vQueuedProposals = [], ca_mapQueuedChanges = [], ca_nFees = 0, ca_nValueIn = 0,
                         ca_nValueOut = 0, ca_nSigOps = 0, ca_nTxPos = nTxPos, ca_sigcache = cs_sigcache S\<rparr> of
                   None \<Rightarrow> None
                 | Some (Inl (r, c)) \<Rightarrow> Some (r, S\<lparr>cs_sigcache := c\<rparr>)
                 | Some (Inr a) \<Rightarrow>
                     let nPrevSupply = (if tl pindex = [] then 0 else bi_nMoneySupply (hd (tl pindex)));
                         b = (hd pindex)\<lparr>bi_nMint := ca_nValueOut a - ca_nValueIn a + ca_nFees a,
                                         bi_nMoneySupply := nPrevSupply + ca_nValueOut a - ca_nValueIn a\<rparr>;
                         S = S\<lparr>cs_sigcache := ca_sigcache a\<rparr>
                     in if fJustCheck then Some (DoS 0 True, S)
                        else (case record_proposals E (ca_vQueuedProposals a) (bk_vtx block) (set_index b S) of
                                None \<Rightarrow> None
                              | Some S \<Rightarrow>
                                  let p = b # tl pindex; S = update_tally N p S
                                  in map_option (\<lambda>(r, db). (r, S\<lparr>cs_txdb := db\<rparr>))
                                       (write_block N block p (ca_nFees a) (ca_mapQueuedChanges a) (cs_txdb S))))"

end
