(* ===== verification/Ledger_Rules.thy ===== *)
theory Ledger_Rules
  imports Connect_Rules Chain_State
begin

text \<open>
  The abstract ledger: the set of unspent outputs. Connecting a block refines the ledger's
  transitions, transaction by transaction, and disconnecting it takes them back.
\<close>

subsection \<open>The ledger\<close>

definition utxo :: "(uint256 \<Rightarrow> CTxIndex option) \<Rightarrow> COutPoint set" where
  "utxo J = {p. \<exists>x. J (op_hash p) = Some x \<and> unat (op_n p) < length (xi_vSpent x) \<and>
     CDiskTxPos_IsNull (xi_vSpent x ! unat (op_n p))}"

definition created_outputs :: "openssl \<Rightarrow> CTransaction \<Rightarrow> COutPoint set" where
  "created_outputs E tx = {p. op_hash p = GetHash E tx \<and> unat (op_n p) < length (tx_vout tx)}"

text \<open>A transaction spends distinct unspent outputs and creates its own.\<close>

definition ledger_step :: "openssl \<Rightarrow> CTransaction \<Rightarrow> COutPoint set \<Rightarrow> COutPoint set option" where
  "ledger_step E tx U =
     (if distinct (spent_outputs tx) \<and> set (spent_outputs tx) \<subseteq> U
      then Some ((U - set (spent_outputs tx)) \<union> created_outputs E tx) else None)"

fun ledger_block :: "openssl \<Rightarrow> CTransaction list \<Rightarrow> COutPoint set \<Rightarrow> COutPoint set option" where
  "ledger_block E [] U = Some U"
| "ledger_block E (tx # txs) U = Option.bind (ledger_step E tx U) (ledger_block E txs)"

definition tx_index :: "chain_state \<Rightarrow> uint256 \<Rightarrow> CTxIndex option" where
  "tx_index S = map_of (tb_tx (db_tables (cs_txdb S)))"

lemma COutPoint_eqI: "op_hash p = op_hash q \<Longrightarrow> unat (op_n p) = unat (op_n q) \<Longrightarrow> p = q" for p q :: COutPoint
  by (rule COutPoint.equality) (auto simp: word_unat_eq_iff)

lemma utxo_set_slot:
  assumes "\<not> CDiskTxPos_IsNull pos" shows "utxo (set_slot pos p J) = utxo J - {p}"
proof -
  have "q \<in> utxo (set_slot pos p J) \<longleftrightarrow> q \<in> utxo J \<and> q \<noteq> p" for q
  proof (cases "op_hash q = op_hash p \<and> unat (op_n q) = unat (op_n p)")
    case True
    then have "q = p" by (auto intro: COutPoint_eqI)
    with assms show ?thesis
      by (auto simp: utxo_def set_slot_apply slot_at_def)
  next
    case False
    then show ?thesis
      by (auto simp: utxo_def set_slot_apply slot_at_def)
  qed
  then show ?thesis by auto
qed

lemma utxo_fold_slots:
  "\<not> CDiskTxPos_IsNull pos \<Longrightarrow> utxo (fold (set_slot pos) ps J) = utxo J - set ps"
  by (induction ps arbitrary: J) (auto simp: utxo_set_slot)

lemma utxo_new:
  "utxo (J(GetHash E tx \<mapsto> CTxIndex_new pos (length (tx_vout tx)))) =
     {p \<in> utxo J. op_hash p \<noteq> GetHash E tx} \<union> created_outputs E tx"
  by (auto simp: utxo_def created_outputs_def CTxIndex_new_def CDiskTxPos_IsNull_def CDiskTxPos_SetNull_def)

lemma free_slots_utxo: "free_slots J ps \<longleftrightarrow> distinct ps \<and> set ps \<subseteq> utxo J"
  by (auto simp: free_slots_def utxo_def)

text \<open>What one transaction does to the index.\<close>

definition index_step :: "openssl \<Rightarrow> CDiskTxPos \<Rightarrow> CTransaction \<Rightarrow> (uint256 \<Rightarrow> CTxIndex option) \<Rightarrow> uint256 \<Rightarrow> CTxIndex option" where
  "index_step E pos tx J =
     (fold (set_slot pos) (spent_outputs tx) J)(GetHash E tx \<mapsto> CTxIndex_new pos (length (tx_vout tx)))"

lemma index_step_ledger:
  assumes "\<not> CDiskTxPos_IsNull pos" and "free_slots J (spent_outputs tx)"
    and "\<forall>p \<in> utxo J. op_hash p \<noteq> GetHash E tx"
  shows "ledger_step E tx (utxo J) = Some (utxo (index_step E pos tx J))"
proof -
  have "{p \<in> utxo J - set (spent_outputs tx). op_hash p \<noteq> GetHash E tx} = utxo J - set (spent_outputs tx)"
    using assms(3) by auto
  then show ?thesis using assms(2)
    by (simp add: ledger_step_def index_step_def utxo_new utxo_fold_slots [OF assms(1)] free_slots_utxo)
qed

subsection \<open>The loop over the transactions\<close>

definition tx_pos :: "pindex \<Rightarrow> connect_acc \<Rightarrow> CDiskTxPos" where
  "tx_pos pindex a = \<lparr>dp_nFile = bi_nFile (hd pindex), dp_nBlockPos = bi_nBlockPos (hd pindex), dp_nTxPos = ca_nTxPos a\<rparr>"

lemma tx_pos_not_null: "bi_nFile (hd pindex) \<noteq> - 1 \<Longrightarrow> \<not> CDiskTxPos_IsNull (tx_pos pindex a)"
  by (simp add: tx_pos_def CDiskTxPos_IsNull_def)

lemma ConnectInputs_sorted:
  assumes "ConnectInputs N nBest d db inputs pool pos chain True False fS tx c = (Some (True, s), pool', c')"
    and "\<not> IsCoinBase tx" and "sorted_wrt (<) (map fst pool)"
  shows "sorted_wrt (<) (map fst pool')"
  using ConnectInputs_cases [OF assms(1,2)] spend_loop_sorted [OF _ assms(3)] by metis

lemma map_sum_Inr:
  assumes "map_option (map_sum id g) r = Some (Inr b)" obtains a where "r = Some (Inr a)" "b = g a"
proof -
  from assms obtain x where "r = Some x" "map_sum id g x = Inr b" by auto
  then show ?thesis using that by (cases x) auto
qed

lemma map_sum_Inl:
  assumes "map_option (map_sum id g) r = Some (Inl b)" obtains "r = Some (Inl b)"
proof -
  from assms obtain x where "r = Some x" "map_sum id g x = Inl b" by auto
  then show ?thesis using that by (cases x) auto
qed

lemma connect_inputs_tx_ok:
  assumes "connect_inputs_tx N nBest d db mapTx pindex pos tx a = Some (Inr a')" and "\<not> IsCoinBase tx"
  obtains inputs s where
    "FetchInputs d db mapTx (ca_mapQueuedChanges a) True False [] tx = Inr inputs"
    "ConnectInputs N nBest d db inputs (ca_mapQueuedChanges a) pos pindex True False True tx (ca_sigcache a) =
       (Some (True, s), ca_mapQueuedChanges a', ca_sigcache a')"
  using assms
  by (auto simp: connect_inputs_tx_def split: sum.splits option.splits if_splits prod.splits bool.splits)

lemma connect_tx_view:
  assumes "connect_tx N nBest d db mapTx pindex fJ tx a = Some (Inr a')" and "bi_nFile (hd pindex) \<noteq> - 1"
  shows "free_slots (index_view db (ca_mapQueuedChanges a)) (spent_outputs tx)"
    and "index_view db (ca_mapQueuedChanges a') = index_step (nd_ssl N) (tx_pos pindex a) tx (index_view db (ca_mapQueuedChanges a))"
    and "sorted_wrt (<) (map fst (ca_mapQueuedChanges a)) \<Longrightarrow> sorted_wrt (<) (map fst (ca_mapQueuedChanges a'))"
    and "\<not> overwrites_unspent db (GetHash (nd_ssl N) tx)"
proof -
  show "\<not> overwrites_unspent db (GetHash (nd_ssl N) tx)"
    using assms(1) by (auto simp: connect_tx_def Let_def split: if_splits)
  note nn = tx_pos_not_null [OF assms(2), of a]
  have "free_slots (index_view db (ca_mapQueuedChanges a)) (spent_outputs tx) \<and>
    index_view db (ca_mapQueuedChanges a') = index_step (nd_ssl N) (tx_pos pindex a) tx (index_view db (ca_mapQueuedChanges a)) \<and>
    (sorted_wrt (<) (map fst (ca_mapQueuedChanges a)) \<longrightarrow> sorted_wrt (<) (map fst (ca_mapQueuedChanges a')))"
  proof (cases "IsCoinBase tx")
    case True
    with assms(1) have "ca_mapQueuedChanges a' =
        map_put (GetHash (nd_ssl N) tx) (CTxIndex_new (tx_pos pindex a) (length (tx_vout tx))) (ca_mapQueuedChanges a)"
      by (auto simp: connect_tx_def Let_def tx_pos_def split: if_splits)
    with True show ?thesis
      by (simp add: spent_outputs_def free_slots_def index_step_def index_view_put sorted_map_put)
  next
    case False
    define a0 where "a0 = a\<lparr>ca_nSigOps := ca_nSigOps a + GetLegacySigOpCount tx,
      ca_nTxPos := (if fJ then ca_nTxPos a else ca_nTxPos a + word_of_nat (size_tx tx))\<rparr>"
    let ?new = "\<lambda>a1. a1\<lparr>ca_mapQueuedChanges :=
        map_put (GetHash (nd_ssl N) tx) (CTxIndex_new (tx_pos pindex a) (length (tx_vout tx))) (ca_mapQueuedChanges a1)\<rparr>"
    from assms(1) False have "map_option (map_sum id ?new) (connect_inputs_tx N nBest d db mapTx pindex (tx_pos pindex a) tx a0) = Some (Inr a')"
      by (simp add: connect_tx_def Let_def tx_pos_def a0_def split: if_splits)
    then obtain a1 where a1: "connect_inputs_tx N nBest d db mapTx pindex (tx_pos pindex a) tx a0 = Some (Inr a1)"
      and a'': "a' = ?new a1" by (rule map_sum_Inr)
    then have a': "ca_mapQueuedChanges a' =
        map_put (GetHash (nd_ssl N) tx) (CTxIndex_new (tx_pos pindex a) (length (tx_vout tx))) (ca_mapQueuedChanges a1)" by simp
    obtain inputs s where f: "FetchInputs d db mapTx (ca_mapQueuedChanges a0) True False [] tx = Inr inputs"
      and c: "ConnectInputs N nBest d db inputs (ca_mapQueuedChanges a0) (tx_pos pindex a) pindex True False True tx (ca_sigcache a0) =
       (Some (True, s), ca_mapQueuedChanges a1, ca_sigcache a1)"
      using connect_inputs_tx_ok [OF a1 False] by blast
    have q: "ca_mapQueuedChanges a0 = ca_mapQueuedChanges a" by (simp add: a0_def)
    from connected_free [OF f c False nn] connected_view [OF f c False nn] ConnectInputs_sorted [OF c False]
    show ?thesis using False
      by (simp add: q spent_outputs_def index_step_def a' index_view_put sorted_map_put)
  qed
  then show "free_slots (index_view db (ca_mapQueuedChanges a)) (spent_outputs tx)"
    and "index_view db (ca_mapQueuedChanges a') = index_step (nd_ssl N) (tx_pos pindex a) tx (index_view db (ca_mapQueuedChanges a))"
    and "sorted_wrt (<) (map fst (ca_mapQueuedChanges a)) \<Longrightarrow> sorted_wrt (<) (map fst (ca_mapQueuedChanges a'))"
    by blast+
qed

lemma fold_slots_None: "J h = None \<Longrightarrow> fold (set_slot v) ps J h = None"
  by (induction ps arbitrary: J) (simp_all add: set_slot_apply slot_at_def)

lemma not_overwritten: "\<not> overwrites_unspent db h \<Longrightarrow> p \<in> utxo (index_view db []) \<Longrightarrow> op_hash p \<noteq> h"
  by (auto simp: overwrites_unspent_def utxo_def ReadTxIndex_def list_ex_length)

lemma connect_txs_Cons:
  assumes "connect_txs N nBest d db mapTx pindex fJ (tx # txs) a = Some (Inr a')"
  obtains a1 where "connect_tx N nBest d db mapTx pindex fJ tx a = Some (Inr a1)"
    "connect_txs N nBest d db mapTx pindex fJ txs a1 = Some (Inr a')"
  using assms by (auto split: option.splits sum.splits)

lemma connect_tx_Inl: "connect_tx N nBest d db mapTx pindex fJ tx a = Some (Inl (r, c)) \<Longrightarrow> \<not> fst r"
  by (auto simp: connect_tx_def connect_inputs_tx_def Let_def DoS_def
      split: if_splits option.splits sum.splits prod.splits bool.splits elim!: map_sum_Inl)

lemma connect_txs_Inl: "connect_txs N nBest d db mapTx pindex fJ txs a = Some (Inl (r, c)) \<Longrightarrow> \<not> fst r"
  by (induction txs arbitrary: a) (auto split: option.splits sum.splits dest: connect_tx_Inl)

text \<open>
  A record in the view that is not of the database comes from an earlier transaction of the
  block; so no step meets unspent outputs under its own hash.
\<close>

lemma connect_txs_ledger:
  assumes "connect_txs N nBest d db mapTx pindex fJ txs a = Some (Inr a')" and "bi_nFile (hd pindex) \<noteq> - 1"
    and "distinct (map (GetHash (nd_ssl N)) txs)" and "GetHash (nd_ssl N) ` set txs \<inter> H = {}"
    and "\<forall>p \<in> utxo (index_view db (ca_mapQueuedChanges a)). op_hash p \<in> H \<or> p \<in> utxo (index_view db [])"
    and "sorted_wrt (<) (map fst (ca_mapQueuedChanges a))"
  shows "ledger_block (nd_ssl N) txs (utxo (index_view db (ca_mapQueuedChanges a))) =
      Some (utxo (index_view db (ca_mapQueuedChanges a'))) \<and> sorted_wrt (<) (map fst (ca_mapQueuedChanges a'))"
  using assms(1,3-6)
proof (induction txs arbitrary: a H)
  case (Cons tx txs)
  obtain a1 where a1: "connect_tx N nBest d db mapTx pindex fJ tx a = Some (Inr a1)"
    "connect_txs N nBest d db mapTx pindex fJ txs a1 = Some (Inr a')"
    by (rule connect_txs_Cons [OF Cons.prems(1)])
  note v = connect_tx_view [OF a1(1) assms(2)]
  let ?h = "GetHash (nd_ssl N) tx" and ?J = "index_view db (ca_mapQueuedChanges a)"
  have "\<forall>p \<in> utxo ?J. op_hash p \<noteq> ?h" using Cons.prems(3,4) not_overwritten [OF v(4)] by auto
  from index_step_ledger [OF tx_pos_not_null [OF assms(2)] v(1) this]
  have step: "ledger_step (nd_ssl N) tx (utxo ?J) = Some (utxo (index_view db (ca_mapQueuedChanges a1)))"
    by (simp add: v(2))
  moreover have "\<forall>p \<in> utxo (index_view db (ca_mapQueuedChanges a1)). op_hash p \<in> insert ?h H \<or> p \<in> utxo (index_view db [])"
    using step Cons.prems(4) by (auto simp: ledger_step_def created_outputs_def split: if_splits)
  ultimately show ?case
    using Cons.IH [OF a1(2), of "insert ?h H"] Cons.prems(2,3) v(3) [OF Cons.prems(5)] by simp
qed simp

lemma canonical_step: "\<not> CDiskTxPos_IsNull pos \<Longrightarrow> canonical J \<Longrightarrow> canonical (index_step E pos tx J)"
proof -
  assume pos: "\<not> CDiskTxPos_IsNull pos" and J: "canonical J"
  have "canonical (set_slot pos p K)" if "canonical K" for p K
    using that pos by (auto simp: canonical_def set_slot_def list_all_iff split: option.splits if_splits
        dest!: set_update_subset_insert [THEN subsetD])
  then have "canonical (fold (set_slot pos) ps J)" for ps
    using J by (induction ps arbitrary: J) auto
  then show ?thesis
    by (auto simp: index_step_def canonical_def CTxIndex_new_def list_all_iff)
qed

lemma disconnect_txs_append:
  "disconnect_txs E db (xs @ ys) =
     (case disconnect_txs E db xs of (False, db) \<Rightarrow> (False, db) | (True, db) \<Rightarrow> disconnect_txs E db ys)"
  by (induction xs arbitrary: db) (auto split: prod.splits bool.splits)

lemma connect_txs_disconnect:
  assumes "connect_txs N nBest d db mapTx pindex fJ txs a = Some (Inr a')" and "bi_nFile (hd pindex) \<noteq> - 1"
    and "distinct (map (GetHash (nd_ssl N)) txs)"
    and "\<forall>tx \<in> set txs. index_view db (ca_mapQueuedChanges a) (GetHash (nd_ssl N) tx) = None"
    and "canonical (index_view db (ca_mapQueuedChanges a))"
    and "map_of (tb_tx (db_tables db1)) = index_view db (ca_mapQueuedChanges a')" and "db_faults db1 = []"
  shows "\<exists>db2. disconnect_txs (nd_ssl N) db1 (rev txs) = (True, db2) \<and> db_faults db2 = [] \<and>
    map_of (tb_tx (db_tables db2)) = index_view db (ca_mapQueuedChanges a)"
  using assms(1,3-5)
proof (induction txs arbitrary: a)
  case Nil
  with assms(6,7) show ?case by simp
next
  case (Cons tx txs)
  obtain a1 where a1: "connect_tx N nBest d db mapTx pindex fJ tx a = Some (Inr a1)"
    "connect_txs N nBest d db mapTx pindex fJ txs a1 = Some (Inr a')"
    by (rule connect_txs_Cons [OF Cons.prems(1)])
  note v = connect_tx_view [OF a1(1) assms(2)]
  let ?h = "GetHash (nd_ssl N) tx" and ?J = "index_view db (ca_mapQueuedChanges a)"
  have new: "index_view db (ca_mapQueuedChanges a1) (GetHash (nd_ssl N) t) = None" if "t \<in> set txs" for t
  proof -
    have "GetHash (nd_ssl N) t \<in> set (map (GetHash (nd_ssl N)) txs)" using that by simp
    then have "GetHash (nd_ssl N) t \<noteq> ?h" using Cons.prems(2) by (metis distinct.simps(2) list.simps(9))
    moreover have "?J (GetHash (nd_ssl N) t) = None" using that Cons.prems(3) by simp
    ultimately show ?thesis by (simp add: v(2) index_step_def fold_slots_None)
  qed
  have "canonical (index_view db (ca_mapQueuedChanges a1))"
    using canonical_step [OF tx_pos_not_null [OF assms(2)] Cons.prems(4)] by (simp add: v(2))
  with Cons.IH [OF a1(2)] new Cons.prems(2) obtain db2 where
    db2: "disconnect_txs (nd_ssl N) db1 (rev txs) = (True, db2)" "db_faults db2 = []"
      "map_of (tb_tx (db_tables db2)) = index_view db (ca_mapQueuedChanges a1)" by auto
  have "\<exists>db3. DisconnectInputs (nd_ssl N) db2 tx = (True, db3) \<and> db_faults db3 = [] \<and> map_of (tb_tx (db_tables db3)) = ?J"
    by (rule disconnect_step [OF db2(2) Cons.prems(4) v(1)])
      (use Cons.prems(3) in \<open>simp_all add: db2(3) v(2) index_step_def\<close>)
  with db2(1) show ?case by (auto simp: disconnect_txs_append)
qed

subsection \<open>The database of a connected block\<close>

lemma db_write_ok: "db_write upd db = (True, db') \<Longrightarrow> db_tables db' = upd (db_tables db)"
  by (auto simp: db_write_def split: list.splits if_splits)

lemma db_write_faults: "db_write upd db = (ok, db') \<Longrightarrow> db_faults db = [] \<Longrightarrow> ok \<and> db_faults db' = []"
  by (auto simp: db_write_def split: list.splits if_splits)

lemma WriteBlockIndex_tx:
  assumes "WriteBlockIndex db i = (True, db')"
  shows "map_of (tb_tx (db_tables db')) = map_of (tb_tx (db_tables db))"
    and "db_faults db = [] \<Longrightarrow> db_faults db' = []"
  using db_write_ok [OF assms [unfolded WriteBlockIndex_def]] db_write_faults [OF assms [unfolded WriteBlockIndex_def]]
  by simp_all

lemma write_changes_tx:
  assumes "write_changes db q = (True, db')" and "distinct (map fst q)"
  shows "map_of (tb_tx (db_tables db')) = index_view db q \<and> (db_faults db = [] \<longrightarrow> db_faults db' = [])"
  using assms
proof (induction q arbitrary: db)
  case (Cons e q)
  obtain h x where e: "e = (h, x)" by (cases e)
  from Cons.prems obtain db1 where
    u: "db_write (\<lambda>t. t\<lparr>tb_tx := map_put h x (tb_tx t)\<rparr>) db = (True, db1)" and
    r: "write_changes db1 q = (True, db')" "distinct (map fst q)" "h \<notin> fst ` set q"
    by (auto simp: e UpdateTxIndex_def split: prod.splits bool.splits)
  have "map_of (tb_tx (db_tables db1)) = (map_of (tb_tx (db_tables db)))(h \<mapsto> x)"
    by (simp add: db_write_ok [OF u])
  with Cons.IH [OF r(1,2)] r(3) db_write_faults [OF u] show ?case
    by (simp add: e index_view_def map_add_upd_left dom_map_of_conv_image_fst)
qed simp

lemma write_block_tx:
  assumes "write_block N block pindex nFees q db = Some ((True, s), db')" and "sorted_wrt (<) (map fst q)"
  shows "map_of (tb_tx (db_tables db')) = index_view db q" and "db_faults db = [] \<Longrightarrow> db_faults db' = []"
proof -
  from assms(1) obtain db1 db2 where
    1: "WriteBlockIndex db (CDiskBlockIndex_of pindex) = (True, db1)" and
    2: "write_changes db1 q = (True, db2)" and
    3: "db' = db2 \<or> (\<exists>i. WriteBlockIndex db2 i = (True, db'))"
    by (auto simp: write_block_def DoS_def split: prod.splits bool.splits option.splits if_splits)
  have d: "distinct (map fst q)" using assms(2) by (simp add: strict_sorted_iff)
  have v: "index_view db1 q = index_view db q"
    by (simp add: index_view_def WriteBlockIndex_tx(1) [OF 1])
  show "map_of (tb_tx (db_tables db')) = index_view db q"
    using 3 WriteBlockIndex_tx(1) write_changes_tx [OF 2 d] v by auto
  show "db_faults db = [] \<Longrightarrow> db_faults db' = []"
    using 3 WriteBlockIndex_tx(2) [OF 1] write_changes_tx [OF 2 d] WriteBlockIndex_tx(2) by blast
qed

lemma record_proposals_txdb: "record_proposals E q txs S = Some S' \<Longrightarrow> cs_txdb S' = cs_txdb S"
  by (induction txs arbitrary: S)
    (auto simp: Let_def WriteProposal_def split: if_splits option.splits prod.splits bool.splits list.splits)

lemma update_tally_txdb [simp]: "cs_txdb (update_tally N p S) = cs_txdb S"
  by (simp add: update_tally_def Let_def)

lemma set_index_txdb [simp]: "cs_txdb (set_index b S) = cs_txdb S"
  by (simp add: set_index_def)

lemma ConnectBlock_cases:
  assumes "ConnectBlock V S block pindex False = Some ((True, s), S')"
  obtains a b where
    "fst (CheckBlock (ce_node V) (ce_nAdjustedTime V) True True (GetTotalBlocksEstimate (ce_node V) \<le> bi_nHeight (hd pindex)) block)"
    "connect_txs (ce_node V) (cs_nBestHeight S) (cs_files S) (cs_txdb S) (mp_mapTx (cs_mempool S)) pindex False (bk_vtx block)
       \<lparr>ca_vQueuedProposals = [], ca_mapQueuedChanges = [], ca_nFees = 0, ca_nValueIn = 0, ca_nValueOut = 0, ca_nSigOps = 0,
        ca_nTxPos = tx_position (bi_nBlockPos (hd pindex)) (bk_vtx block) 0, ca_sigcache = cs_sigcache S\<rparr> = Some (Inr a)"
    "write_block (ce_node V) block (b # tl pindex) (ca_nFees a) (ca_mapQueuedChanges a) (cs_txdb S) = Some ((True, s), cs_txdb S')"
    "b = (hd pindex)\<lparr>bi_nMint := bi_nMint b, bi_nMoneySupply := bi_nMoneySupply b\<rparr>"
proof -
  let ?N = "ce_node V"
  let ?a0 = "\<lparr>ca_vQueuedProposals = [], ca_mapQueuedChanges = [], ca_nFees = 0, ca_nValueIn = 0, ca_nValueOut = 0, ca_nSigOps = 0,
        ca_nTxPos = tx_position (bi_nBlockPos (hd pindex)) (bk_vtx block) 0, ca_sigcache = cs_sigcache S\<rparr>"
  let ?txs = "connect_txs ?N (cs_nBestHeight S) (cs_files S) (cs_txdb S) (mp_mapTx (cs_mempool S)) pindex False (bk_vtx block) ?a0"
  have check: "fst (CheckBlock ?N (ce_nAdjustedTime V) True True (GetTotalBlocksEstimate ?N \<le> bi_nHeight (hd pindex)) block)"
    using assms by (auto simp: ConnectBlock_def Let_def DoS_def split: prod.splits if_splits)
  with assms obtain a where a: "?txs = Some (Inr a)"
    by (auto simp: ConnectBlock_def Let_def split: prod.splits option.splits sum.splits dest: connect_txs_Inl)
  define b where "b = (hd pindex)\<lparr>bi_nMint := ca_nValueOut a - ca_nValueIn a + ca_nFees a,
      bi_nMoneySupply := (if tl pindex = [] then 0 else bi_nMoneySupply (hd (tl pindex))) + ca_nValueOut a - ca_nValueIn a\<rparr>"
  from assms check a obtain S1 where
    S1: "record_proposals (nd_ssl ?N) (ca_vQueuedProposals a) (bk_vtx block) (set_index b (S\<lparr>cs_sigcache := ca_sigcache a\<rparr>)) = Some S1"
    and w: "map_option (\<lambda>(r, db). (r, (update_tally ?N (b # tl pindex) S1)\<lparr>cs_txdb := db\<rparr>))
       (write_block ?N block (b # tl pindex) (ca_nFees a) (ca_mapQueuedChanges a) (cs_txdb (update_tally ?N (b # tl pindex) S1))) =
       Some ((True, s), S')"
    by (auto simp: ConnectBlock_def Let_def b_def split: prod.splits option.splits)
  have "cs_txdb S1 = cs_txdb S" using record_proposals_txdb [OF S1] by simp
  with w have "write_block ?N block (b # tl pindex) (ca_nFees a) (ca_mapQueuedChanges a) (cs_txdb S) = Some ((True, s), cs_txdb S')"
    by auto
  with check a show ?thesis by (rule that) (simp add: b_def)
qed

text \<open>C1: Connecting a block refines the ledger. Each transaction in turn spends distinct outputs
  that are unspent at that point, in the database or from earlier in the block, and creates
  its own; what is unspent in the database afterwards is what the ledger says.\<close>

theorem ConnectBlock_refines_ledger:
  assumes "ConnectBlock V S block pindex False = Some ((True, s), S')" and "bi_nFile (hd pindex) \<noteq> - 1"
  shows "ledger_block (nd_ssl (ce_node V)) (bk_vtx block) (utxo (tx_index S)) = Some (utxo (tx_index S'))"
proof -
  obtain a b where check: "fst (CheckBlock (ce_node V) (ce_nAdjustedTime V) True True (GetTotalBlocksEstimate (ce_node V) \<le> bi_nHeight (hd pindex)) block)"
    and c: "connect_txs (ce_node V) (cs_nBestHeight S) (cs_files S) (cs_txdb S) (mp_mapTx (cs_mempool S)) pindex False (bk_vtx block)
       \<lparr>ca_vQueuedProposals = [], ca_mapQueuedChanges = [], ca_nFees = 0, ca_nValueIn = 0, ca_nValueOut = 0, ca_nSigOps = 0,
        ca_nTxPos = tx_position (bi_nBlockPos (hd pindex)) (bk_vtx block) 0, ca_sigcache = cs_sigcache S\<rparr> = Some (Inr a)"
    and w: "write_block (ce_node V) block (b # tl pindex) (ca_nFees a) (ca_mapQueuedChanges a) (cs_txdb S) = Some ((True, s), cs_txdb S')"
    by (rule ConnectBlock_cases [OF assms(1)])
  have "distinct (map (GetHash (nd_ssl (ce_node V))) (bk_vtx block))"
    using check by (auto simp: CheckBlock_def Let_def DoS_def split: if_splits option.splits)
  from connect_txs_ledger [OF c assms(2) this, of "{}"] write_block_tx(1) [OF w]
  show ?thesis by (simp add: tx_index_def)
qed

text \<open>C5: Disconnecting a block takes its connection back: when no write fails and its transactions were
  new to an index in the form the code writes, the index of transactions is what it was before
  the block was connected.\<close>

theorem DisconnectBlock_undoes:
  assumes "ConnectBlock V S block pindex False = Some ((True, s), S')" and "bi_nFile (hd pindex) \<noteq> - 1"
    and "db_faults (cs_txdb S) = []" and "canonical (tx_index S)"
    and "\<forall>tx \<in> set (bk_vtx block). tx_index S (GetHash (nd_ssl (ce_node V)) tx) = None"
  shows "\<exists>db. DisconnectBlock (nd_ssl (ce_node V)) (cs_txdb S') block pindex = (True, db) \<and>
    map_of (tb_tx (db_tables db)) = tx_index S"
proof -
  obtain a b where check: "fst (CheckBlock (ce_node V) (ce_nAdjustedTime V) True True (GetTotalBlocksEstimate (ce_node V) \<le> bi_nHeight (hd pindex)) block)"
    and c: "connect_txs (ce_node V) (cs_nBestHeight S) (cs_files S) (cs_txdb S) (mp_mapTx (cs_mempool S)) pindex False (bk_vtx block)
       \<lparr>ca_vQueuedProposals = [], ca_mapQueuedChanges = [], ca_nFees = 0, ca_nValueIn = 0, ca_nValueOut = 0, ca_nSigOps = 0,
        ca_nTxPos = tx_position (bi_nBlockPos (hd pindex)) (bk_vtx block) 0, ca_sigcache = cs_sigcache S\<rparr> = Some (Inr a)"
    and w: "write_block (ce_node V) block (b # tl pindex) (ca_nFees a) (ca_mapQueuedChanges a) (cs_txdb S) = Some ((True, s), cs_txdb S')"
    by (rule ConnectBlock_cases [OF assms(1)])
  have d: "distinct (map (GetHash (nd_ssl (ce_node V))) (bk_vtx block))"
    using check by (auto simp: CheckBlock_def Let_def DoS_def split: if_splits option.splits)
  have sorted: "sorted_wrt (<) (map fst (ca_mapQueuedChanges a))"
    using connect_txs_ledger [OF c assms(2) d, of "{}"] by simp
  from connect_txs_disconnect [OF c assms(2) d, of "cs_txdb S'"] write_block_tx [OF w sorted] assms(3-5)
  obtain db2 where db2: "disconnect_txs (nd_ssl (ce_node V)) (cs_txdb S') (rev (bk_vtx block)) = (True, db2)"
    "db_faults db2 = []" "map_of (tb_tx (db_tables db2)) = tx_index S"
    by (auto simp: tx_index_def)
  then show ?thesis
    by (auto simp: DisconnectBlock_def WriteBlockIndex_def db_write_def)
qed

end
