(* ===== verification/Chain_Update.thy ===== *)
theory Chain_Update
  imports Chain_State
begin

text \<open>
  The choice of the best chain (\<open>src/main.cpp\<close>): switching to a longer branch (\<open>Reorganize\<close>),
  attaching a block (\<open>SetBestChainInner\<close>, \<open>SetBestChain\<close>), entering a block in the index
  (\<open>AddToBlockIndex\<close>) and accepting a block with a known parent (\<open>AcceptBlock\<close>).
\<close>

definition index_entry :: "chain_state \<Rightarrow> uint256 \<Rightarrow> CBlockIndex option" where
  "index_entry S h = map_of (cs_mapBlockIndex S) h"

definition chain_of :: "chain_state \<Rightarrow> uint256 \<Rightarrow> pindex" where
  "chain_of S h = ancestry (cs_mapBlockIndex S) h"

definition best_chain :: "chain_state \<Rightarrow> pindex" where
  "best_chain S = (case cs_pindexBest S of None \<Rightarrow> [] | Some h \<Rightarrow> chain_of S h)"

text \<open>The link \<open>pprev->pnext\<close> of an entry.\<close>

definition set_pnext :: "uint256 option \<Rightarrow> pindex \<Rightarrow> chain_state \<Rightarrow> chain_state" where
  "set_pnext next pindex S =
     (case bi_pprev (hd pindex) of None \<Rightarrow> S
      | Some hp \<Rightarrow>
          (case index_entry S hp of None \<Rightarrow> S
           | Some bp \<Rightarrow> S\<lparr>cs_mapBlockIndex := map_put hp (bp\<lparr>bi_pnext := next\<rparr>) (cs_mapBlockIndex S)\<rparr>))"

text \<open>The database is a handle of its own, which is why the write is outside any transaction.\<close>

definition InvalidChainFound :: "CBlockIndex \<Rightarrow> chain_state \<Rightarrow> chain_state" where
  "InvalidChainFound pindexNew S =
     (if cs_bnBestInvalidTrust S < bi_bnChainTrust pindexNew
      then S\<lparr>cs_bnBestInvalidTrust := bi_bnChainTrust pindexNew,
             cs_txdb := snd (WriteBestInvalidTrust (cs_txdb S) (bi_bnChainTrust pindexNew))\<rparr>
      else S)"

definition remove_txs :: "openssl \<Rightarrow> CTransaction list \<Rightarrow> chain_state \<Rightarrow> chain_state" where
  "remove_txs E vtx S = S\<lparr>cs_mempool := fold (mp_remove E) vtx (cs_mempool S)\<rparr>"

definition poolenv_of :: "'k chainenv \<Rightarrow> chain_state \<Rightarrow> 'k poolenv" where
  "poolenv_of V S =
     \<lparr>pe_node = ce_node V, pe_nBestHeight = cs_nBestHeight S, pe_pindexBest = best_chain S, pe_files = cs_files S,
      pe_db = cs_txdb S, pe_rate_limited = ce_rate_limited V,
      pe_CheckProposal = ce_CheckProposal V (cs_proposalManager S) (cs_nBestHeight S)\<rparr>"

fun resurrect_txs :: "'k chainenv \<Rightarrow> CTransaction list \<Rightarrow> chain_state \<Rightarrow> chain_state option" where
  "resurrect_txs V [] S = Some S"
| "resurrect_txs V (tx # txs) S =
     (case mp_accept (poolenv_of V S) False tx (cs_mempool S) (cs_sigcache S) of
        (None, _, _, _, _) \<Rightarrow> None
      | (Some _, _, _, mp, c) \<Rightarrow> resurrect_txs V txs (S\<lparr>cs_mempool := mp, cs_sigcache := c\<rparr>))"

subsection \<open>Reorganize\<close>

text \<open>
  Disconnecting the shorter branch, best block first: the transactions to put back into the
  memory pool, or \<open>None\<close> when a block cannot be read or disconnected.
\<close>

fun disconnect_branch ::
  "'k node \<Rightarrow> blockfiles \<Rightarrow> txdb \<Rightarrow> pindex \<Rightarrow> nat \<Rightarrow> CTransaction list \<Rightarrow> CTransaction list option \<times> txdb" where
  "disconnect_branch N d db p 0 vResurrect = (Some vResurrect, db)"
| "disconnect_branch N d db p (Suc n) vResurrect =
     (case ReadFromDisk_index N d (hd p) True of
        None \<Rightarrow> (None, db)
      | Some block \<Rightarrow>
          (case DisconnectBlock (nd_ssl N) db block p of
             (False, db) \<Rightarrow> (None, db)
           | (True, db) \<Rightarrow>
               disconnect_branch N d db (tl p) n
                 (vResurrect @ List.filter (\<lambda>tx. \<not> (IsCoinBase tx \<or> IsCoinStake tx)) (bk_vtx block))))"

text \<open>Connecting the longer branch, lowest block first: the transactions to drop from the pool.\<close>

fun connect_branch ::
  "'k chainenv \<Rightarrow> chain_state \<Rightarrow> uint256 list \<Rightarrow> CTransaction list \<Rightarrow>
     (CTransaction list option \<times> chain_state) option" where
  "connect_branch V S [] vDelete = Some (Some vDelete, S)"
| "connect_branch V S (h # hs) vDelete =
     (case ReadFromDisk_index (ce_node V) (cs_files S) (hd (chain_of S h)) True of
        None \<Rightarrow> Some (None, S)
      | Some block \<Rightarrow>
          (case ConnectBlock V S block (chain_of S h) False of
             None \<Rightarrow> None
           | Some ((False, _), S) \<Rightarrow> Some (None, S)
           | Some ((True, _), S) \<Rightarrow> connect_branch V S hs (vDelete @ bk_vtx block)))"

definition Reorganize :: "'k chainenv \<Rightarrow> chain_state \<Rightarrow> uint256 \<Rightarrow> (bool \<times> chain_state) option" where
  "Reorganize V S hashNew =
     (let N = ce_node V; old = best_chain S; new = chain_of S hashNew
      in case find_fork old new of
           None \<Rightarrow> Some (False, S)
         | Some fork \<Rightarrow>
             let vDisconnect = take (length old - length fork) old;
                 vConnect = rev (take (length new - length fork) new)
             in (case disconnect_branch N (cs_files S) (cs_txdb S) old (length vDisconnect) [] of
                   (None, db) \<Rightarrow> Some (False, S\<lparr>cs_txdb := db\<rparr>)
                 | (Some vResurrect, db) \<Rightarrow>
                     (case connect_branch V (S\<lparr>cs_txdb := db\<rparr>) (map bi_hash vConnect) [] of
                        None \<Rightarrow> None
                      | Some (None, S) \<Rightarrow> Some (False, S)
                      | Some (Some vDelete, S) \<Rightarrow>
                          (case WriteHashBestChain (cs_txdb S) hashNew of
                             (False, db) \<Rightarrow> Some (False, S\<lparr>cs_txdb := db\<rparr>)
                           | (True, db) \<Rightarrow>
                               (case TxnCommit db of
                                  (False, db) \<Rightarrow> Some (False, S\<lparr>cs_txdb := db\<rparr>)
                                | (True, db) \<Rightarrow>
                                    let S = S\<lparr>cs_txdb := db\<rparr>;
                                        S = fold (\<lambda>b. set_pnext None [b]) vDisconnect S;
                                        S = fold (\<lambda>b. set_pnext (Some (bi_hash b)) [b]) vConnect S
                                    in map_option (\<lambda>S. (True, remove_txs (nd_ssl N) vDelete S))
                                         (resurrect_txs V vResurrect S))))))"

subsection \<open>SetBestChain\<close>

text \<open>
  Attaching a block to the best chain; an entry without a parent, whose link would be written
  through a null pointer, is \<open>None\<close>.
\<close>

definition SetBestChainInner ::
  "'k chainenv \<Rightarrow> chain_state \<Rightarrow> CBlock \<Rightarrow> uint256 \<Rightarrow> (bool \<times> chain_state) option" where
  "SetBestChainInner V S block hashNew =
     (let N = ce_node V; pindexNew = chain_of S hashNew;
          failed = (\<lambda>S. (False, InvalidChainFound (hd (chain_of S hashNew))
                                   (S\<lparr>cs_txdb := snd (TxnAbort (cs_txdb S))\<rparr>)))
      in case ConnectBlock V S block pindexNew False of
           None \<Rightarrow> None
         | Some ((False, _), S) \<Rightarrow> Some (failed S)
         | Some ((True, _), S) \<Rightarrow>
             (case WriteHashBestChain (cs_txdb S) (CBlock_GetHash N block) of
                (False, db) \<Rightarrow> Some (failed (S\<lparr>cs_txdb := db\<rparr>))
              | (True, db) \<Rightarrow>
                  (case TxnCommit db of
                     (False, db) \<Rightarrow> Some (False, S\<lparr>cs_txdb := db\<rparr>)
                   | (True, db) \<Rightarrow>
                       if bi_pprev (hd pindexNew) = None then None
                       else let S = set_pnext (Some hashNew) pindexNew (S\<lparr>cs_txdb := db\<rparr>)
                            in Some (True, remove_txs (nd_ssl N) (bk_vtx block) S))))"

text \<open>
  The blocks postponed by \<open>SetBestChain\<close>: those whose parent already has more trust than the
  best chain, from the new block down; the rest of the chain starts with the block that
  \<open>Reorganize\<close> switches to.
\<close>

fun postponed :: "int \<Rightarrow> pindex \<Rightarrow> pindex \<times> pindex" where
  "postponed trust (b # b' # bs) =
     (if trust < bi_bnChainTrust b'
      then let (vpindexSecondary, rest) = postponed trust (b' # bs) in (b # vpindexSecondary, rest)
      else ([], b # b' # bs))"
| "postponed trust p = ([], p)"

text \<open>Connecting them, lowest first; an error ends the loop and is not fatal.\<close>

fun connect_secondary :: "'k chainenv \<Rightarrow> chain_state \<Rightarrow> uint256 list \<Rightarrow> chain_state option" where
  "connect_secondary V S [] = Some S"
| "connect_secondary V S (h # hs) =
     (case ReadFromDisk_index (ce_node V) (cs_files S) (hd (chain_of S h)) True of
        None \<Rightarrow> Some S
      | Some block \<Rightarrow>
          (case TxnBegin (cs_txdb S) of
             (False, db) \<Rightarrow> Some (S\<lparr>cs_txdb := db\<rparr>)
           | (True, db) \<Rightarrow>
               (case SetBestChainInner V (S\<lparr>cs_txdb := db\<rparr>) block h of
                  None \<Rightarrow> None
                | Some (False, S) \<Rightarrow> Some S
                | Some (True, S) \<Rightarrow> connect_secondary V S hs)))"

definition new_best :: "uint256 \<Rightarrow> uint256 \<Rightarrow> chain_state \<Rightarrow> chain_state" where
  "new_best hash hashNew S =
     (let b = hd (chain_of S hashNew)
      in S\<lparr>cs_hashBestChain := hash, cs_pindexBest := Some hashNew, cs_nBestHeight := bi_nHeight b,
           cs_bnBestChainTrust := bi_bnChainTrust b,
           cs_mempool := (cs_mempool S)\<lparr>mp_nTransactionsUpdated := mp_nTransactionsUpdated (cs_mempool S) + 1\<rparr>\<rparr>)"

definition SetBestChain :: "'k chainenv \<Rightarrow> chain_state \<Rightarrow> CBlock \<Rightarrow> uint256 \<Rightarrow> (bool \<times> chain_state) option" where
  "SetBestChain V S block hashNew =
     (let N = ce_node V; hash = CBlock_GetHash N block
      in case TxnBegin (cs_txdb S) of
           (False, db) \<Rightarrow> Some (False, S\<lparr>cs_txdb := db\<rparr>)
         | (True, db) \<Rightarrow>
             let S = S\<lparr>cs_txdb := db\<rparr>
             in if cs_pindexGenesisBlock S = None \<and> hash = genesis_hash N
                then (case TxnCommit (snd (WriteHashBestChain (cs_txdb S) hash)) of
                        (False, db) \<Rightarrow> Some (False, S\<lparr>cs_txdb := db\<rparr>)
                      | (True, db) \<Rightarrow>
                          Some (True, new_best hash hashNew
                                        (S\<lparr>cs_txdb := db, cs_pindexGenesisBlock := Some hashNew\<rparr>)))
                else if bk_hashPrevBlock block = cs_hashBestChain S
                then map_option (\<lambda>(ok, S). if ok then (True, new_best hash hashNew S) else (False, S))
                       (SetBestChainInner V S block hashNew)
                else let (vpindexSecondary, rest) =
                           postponed (bi_bnChainTrust (hd (best_chain S))) (chain_of S hashNew)
                     in (case Reorganize V S (bi_hash (hd rest)) of
                           None \<Rightarrow> None
                         | Some (False, S) \<Rightarrow>
                             Some (False, InvalidChainFound (hd (chain_of S hashNew))
                                            (S\<lparr>cs_txdb := snd (TxnAbort (cs_txdb S))\<rparr>))
                         | Some (True, S) \<Rightarrow>
                             map_option (\<lambda>S. (True, new_best hash hashNew S))
                               (connect_secondary V S (rev (map bi_hash vpindexSecondary)))))"

subsection \<open>A new block in the index\<close>

text \<open>
  The new entry, without its place in the index. \<open>None\<close> is a failed assertion, \<open>Inl\<close> an
  error.
\<close>

definition new_entry :: "'k chainenv \<Rightarrow> chain_state \<Rightarrow> CBlock \<Rightarrow> uint32 \<Rightarrow> uint32 \<Rightarrow> (unit + CBlockIndex) option" where
  "new_entry V S block nFile nBlockPos =
     (let N = ce_node V; E = nd_ssl N; hash = CBlock_GetHash N block;
          b = (CBlockIndex_new nFile nBlockPos block)\<lparr>bi_hash := hash\<rparr>;
          prev = (case index_entry S (bk_hashPrevBlock block) of None \<Rightarrow> [] | Some _ \<Rightarrow> chain_of S (bk_hashPrevBlock block));
          b = (case prev of [] \<Rightarrow> b
               | bp # _ \<Rightarrow> b\<lparr>bi_pprev := Some (bk_hashPrevBlock block), bi_nHeight := bi_nHeight bp + 1\<rparr>);
          b = b\<lparr>bi_bnChainTrust := (case prev of [] \<Rightarrow> 0 | bp # _ \<Rightarrow> bi_bnChainTrust bp) + GetBlockTrust b\<rparr>
      in case bi_SetStakeEntropyBit b (GetStakeEntropyBit N block) of
           (False, _) \<Rightarrow> Some (Inl ())
         | (True, b) \<Rightarrow>
             (case (if bi_IsProofOfStake b then map_of (cs_mapProofOfStake S) hash else Some (bi_hashProofOfStake b)) of
                None \<Rightarrow> Some (Inl ())
              | Some hashProof \<Rightarrow>
                  let b = b\<lparr>bi_hashProofOfStake := hashProof\<rparr>
                  in (case ComputeNextStakeModifier E (nd_fTestNet N) (cs_mapBlockIndex S) prev of
                        None \<Rightarrow> Some (Inl ())
                      | Some (nStakeModifier, fGenerated) \<Rightarrow>
                          let b = bi_SetStakeModifier b nStakeModifier fGenerated
                          in (case GetStakeModifierChecksum N (b # prev) of
                                None \<Rightarrow> None
                              | Some checksum \<Rightarrow>
                                  if CheckStakeModifierCheckpoints (nd_fTestNet N) (bi_nHeight b) checksum
                                  then Some (Inr (b\<lparr>bi_nStakeModifierChecksum := checksum\<rparr>))
                                  else Some (Inl ())))))"

definition AddToBlockIndex ::
  "'k chainenv \<Rightarrow> chain_state \<Rightarrow> CBlock \<Rightarrow> uint32 \<Rightarrow> uint32 \<Rightarrow> (bool \<times> chain_state) option" where
  "AddToBlockIndex V S block nFile nBlockPos =
     (let N = ce_node V; hash = CBlock_GetHash N block
      in if index_entry S hash \<noteq> None then Some (False, S)
         else case new_entry V S block nFile nBlockPos of
                None \<Rightarrow> None
              | Some (Inl _) \<Rightarrow> Some (False, S)
              | Some (Inr b) \<Rightarrow>
                  let S = set_index b S;
                      S = (if bi_IsProofOfStake b
                           then S\<lparr>cs_setStakeSeen := List.insert (bi_prevoutStake b, bi_nStakeTime b) (cs_setStakeSeen S)\<rparr>
                           else S)
                  in (case TxnBegin (cs_txdb S) of
                        (False, db) \<Rightarrow> Some (False, S\<lparr>cs_txdb := db\<rparr>)
                      | (True, db) \<Rightarrow>
                          (case TxnCommit (snd (WriteBlockIndex db (CDiskBlockIndex_of (chain_of S hash)))) of
                             (False, db) \<Rightarrow> Some (False, S\<lparr>cs_txdb := db\<rparr>)
                           | (True, db) \<Rightarrow>
                               let S = S\<lparr>cs_txdb := db\<rparr>
                               in if cs_bnBestChainTrust S < bi_bnChainTrust b then SetBestChain V S block hash
                                  else Some (True, S))))"

subsection \<open>Accepting a block\<close>

text \<open>
  The bytes that the first script of a block must start with. Comparing them with a shorter
  script reads past its end, which is \<open>None\<close>.
\<close>

definition coinbase_height :: "openssl \<Rightarrow> int \<Rightarrow> CBlock \<Rightarrow> bool option" where
  "coinbase_height E nHeight block =
     (let expect = push_int64 E (word_of_int nHeight);
          script = ti_scriptSig (tx_vin (bk_vtx block ! 0) ! 0)
      in if length expect \<le> length script then Some (take (length expect) script = expect) else None)"

text \<open>The checks against the chain: the score of the block, or success.\<close>

definition check_in_chain :: "'k chainenv \<Rightarrow> chain_state \<Rightarrow> CBlock \<Rightarrow> pindex \<Rightarrow> check option" where
  "check_in_chain V S block prev =
     (let N = ce_node V; E = nd_ssl N; hash = CBlock_GetHash N block; t = GetBlockTime block;
          nHeight = bi_nHeight (hd prev) + 1
      in if IsProofOfWork block \<and> POW_CUTOFF_HEIGHT < nHeight then Some (DoS 100 False)
         else if bk_nBits block \<noteq> GetNextTargetRequired E prev (IsProofOfStake block) then Some (DoS 100 False)
         else if t \<le> GetMedianTimePast prev \<or> t + GetClockDrift t < bi_GetBlockTime (hd prev) then Some (DoS 0 False)
         else if \<not> list_all (\<lambda>tx. IsFinal (cs_nBestHeight S) (ce_nAdjustedTime V) tx nHeight t) (bk_vtx block)
         then Some (DoS 10 False)
         else if \<not> CheckHardened N nHeight hash then Some (DoS 100 False)
         else if sint (bk_nVersion block) < 3 \<and>
                 (\<not> nd_fTestNet N \<and> 14060 < nHeight \<or> nd_fTestNet N \<and> 0 < nHeight)
         then Some (DoS 0 False)
         else map_option (\<lambda>ok. if ok then DoS 0 True else DoS 100 False) (coinbase_height E nHeight block))"

definition AcceptBlock :: "'k chainenv \<Rightarrow> chain_state \<Rightarrow> CBlock \<Rightarrow> (check \<times> chain_state) option" where
  "AcceptBlock V S block =
     (let N = ce_node V; hash = CBlock_GetHash N block
      in if index_entry S hash \<noteq> None then Some (DoS 0 False, S)
         else if index_entry S (bk_hashPrevBlock block) = None then Some (DoS 10 False, S)
         else case check_in_chain V S block (chain_of S (bk_hashPrevBlock block)) of
                None \<Rightarrow> None
              | Some (False, score) \<Rightarrow> Some (DoS score False, S)
              | Some (True, _) \<Rightarrow>
                  if \<not> ce_CheckDiskSpace V (size_block block) then Some (DoS 0 False, S)
                  else (case WriteToDisk (cs_files S) block of
                          None \<Rightarrow> Some (DoS 0 False, S)
                        | Some (nFile, nBlockPos, d) \<Rightarrow>
                            map_option (\<lambda>(ok, S). (DoS 0 ok, S))
                              (AddToBlockIndex V (S\<lparr>cs_files := d\<rparr>) block nFile nBlockPos)))"

end
