(* ===== verification/Process_Block.thy ===== *)
theory Process_Block
  imports Chain_Update
begin

text \<open>
  The handler of a block (\<open>ProcessBlock\<close> in \<open>src/main.cpp\<close>): duplicates, duplicate stakes,
  the preliminary checks, blocks without a known parent, and the orphans that a new block
  releases. The wallet's reactions at the end of the handler are left out.
\<close>

text \<open>
  The orphans by hash and by parent; the latter is a multimap, whose entries for a key are
  in the order of insertion.
\<close>

record block_state =
  bs_chain :: chain_state
  bs_mapOrphanBlocks :: "(uint256 \<times> CBlock) list"
  bs_mapOrphanBlocksByPrev :: "(uint256 \<times> CBlock list) list"
  bs_setStakeSeenOrphan :: "(COutPoint \<times> uint32) list"

definition orphans_of :: "block_state \<Rightarrow> uint256 \<Rightarrow> CBlock list" where
  "orphans_of B h = (case map_of (bs_mapOrphanBlocksByPrev B) h of None \<Rightarrow> [] | Some bs \<Rightarrow> bs)"

text \<open>The walk back through the orphans; a cycle would not end.\<close>

partial_function (option) orphan_walk :: "(uint256 \<times> CBlock) list \<Rightarrow> CBlock \<Rightarrow> CBlock option" where
  "orphan_walk mapOrphanBlocks block =
     (case map_of mapOrphanBlocks (bk_hashPrevBlock block) of
        None \<Rightarrow> Some block
      | Some b \<Rightarrow> orphan_walk mapOrphanBlocks b)"

definition GetOrphanRoot :: "'k node \<Rightarrow> (uint256 \<times> CBlock) list \<Rightarrow> CBlock \<Rightarrow> uint256 option" where
  "GetOrphanRoot N mapOrphanBlocks block = map_option (CBlock_GetHash N) (orphan_walk mapOrphanBlocks block)"

definition WantedByOrphan :: "(uint256 \<times> CBlock) list \<Rightarrow> CBlock \<Rightarrow> uint256 option" where
  "WantedByOrphan mapOrphanBlocks block = map_option bk_hashPrevBlock (orphan_walk mapOrphanBlocks block)"

text \<open>
  The result of the handler: the verdict with the message \<open>reorg\<close> where it is set, and the
  hashes of the root of an orphan's chain and of its missing parent, which a peer is asked for.
\<close>

datatype process_result = Accepted | Orphaned "uint256 option" "uint256 option" | Refused | Reorg

subsection \<open>Releasing orphans\<close>

text \<open>The orphans of one parent: each is offered to \<open>AcceptBlock\<close> and forgotten.\<close>

fun release_orphans ::
  "'k chainenv \<Rightarrow> CBlock list \<Rightarrow> uint256 list \<Rightarrow> block_state \<Rightarrow> (uint256 list \<times> block_state) option" where
  "release_orphans V [] vWork B = Some (vWork, B)"
| "release_orphans V (block # blocks) vWork B =
     (case AcceptBlock V (bs_chain B) block of
        None \<Rightarrow> None
      | Some ((ok, _), S) \<Rightarrow>
          let hash = CBlock_GetHash (ce_node V) block
          in release_orphans V blocks (if ok then vWork @ [hash] else vWork)
               (B\<lparr>bs_chain := S, bs_mapOrphanBlocks := map_erase hash (bs_mapOrphanBlocks B),
                  bs_setStakeSeenOrphan := removeAll (GetProofOfStake block) (bs_setStakeSeenOrphan B)\<rparr>))"

lemma release_orphans_by_prev:
  "release_orphans V blocks vWork B = Some (vWork', B') \<Longrightarrow>
   bs_mapOrphanBlocksByPrev B' = bs_mapOrphanBlocksByPrev B \<and> length vWork' \<le> length vWork + length blocks"
  by (induction blocks arbitrary: vWork B) (auto simp: Let_def split: option.splits if_splits, fastforce+)

definition held :: "block_state \<Rightarrow> nat" where
  "held B = sum_list (map (length \<circ> snd) (bs_mapOrphanBlocksByPrev B))"

lemma sum_map_erase:
  fixes f :: "'v \<Rightarrow> nat" and k :: 'k
  shows "sum_list (map (f \<circ> snd) (map_erase k m)) \<le> sum_list (map (f \<circ> snd) m)"
    and "map_of m k = Some v \<Longrightarrow> f v + sum_list (map (f \<circ> snd) (map_erase k m)) \<le> sum_list (map (f \<circ> snd) m)"
proof -
  show *: "sum_list (map (f \<circ> snd) (map_erase k m)) \<le> sum_list (map (f \<circ> snd) m)" for m :: "('k \<times> 'v) list"
    by (induction m) (auto simp: map_erase_def)
  show "map_of m k = Some v \<Longrightarrow> f v + sum_list (map (f \<circ> snd) (map_erase k m)) \<le> sum_list (map (f \<circ> snd) m)"
  proof (induction m)
    case (Cons e m)
    then show ?case using * [of m] by (cases e) (auto simp: map_erase_def comp_def split: if_splits)
  qed simp
qed

text \<open>The work queue: each entry of the queue releases the orphans of that parent.\<close>

function orphan_queue :: "'k chainenv \<Rightarrow> uint256 list \<Rightarrow> block_state \<Rightarrow> block_state option" where
  "orphan_queue V [] B = Some B"
| "orphan_queue V (hashPrev # vWork) B =
     (case release_orphans V (orphans_of B hashPrev) vWork B of
        None \<Rightarrow> None
      | Some (vWork, B) \<Rightarrow>
          orphan_queue V vWork
            (B\<lparr>bs_mapOrphanBlocksByPrev := map_erase hashPrev (bs_mapOrphanBlocksByPrev B)\<rparr>))"
  by pat_completeness auto
termination
proof (relation "measure (\<lambda>(V, vWork, B). length vWork + 2 * held B)")
  fix V :: "'k chainenv" and hashPrev vWork B r vWork' B'
  assume "release_orphans V (orphans_of B hashPrev) vWork B = Some r" "(vWork', B') = r"
  then have *: "bs_mapOrphanBlocksByPrev B' = bs_mapOrphanBlocksByPrev B" "length vWork' \<le> length vWork + length (orphans_of B hashPrev)"
    using release_orphans_by_prev [of V "orphans_of B hashPrev" vWork B vWork' B'] by auto
  have "length (orphans_of B hashPrev) + held (B'\<lparr>bs_mapOrphanBlocksByPrev := map_erase hashPrev (bs_mapOrphanBlocksByPrev B')\<rparr>) \<le> held B"
    using sum_map_erase(1) [of length hashPrev "bs_mapOrphanBlocksByPrev B"]
      sum_map_erase(2) [of "bs_mapOrphanBlocksByPrev B" hashPrev _ length]
    by (auto simp: held_def orphans_of_def * split: option.splits)
  with *(2) show "((V, vWork', B'\<lparr>bs_mapOrphanBlocksByPrev := map_erase hashPrev (bs_mapOrphanBlocksByPrev B')\<rparr>), V, hashPrev # vWork, B)
      \<in> measure (\<lambda>(V, vWork, B). length vWork + 2 * held B)" by simp
qed simp

subsection \<open>The handler\<close>

definition add_orphan_block :: "'k node \<Rightarrow> CBlock \<Rightarrow> block_state \<Rightarrow> block_state" where
  "add_orphan_block N block B =
     B\<lparr>bs_mapOrphanBlocks := map_insert (CBlock_GetHash N block) block (bs_mapOrphanBlocks B),
       bs_mapOrphanBlocksByPrev :=
         map_put (bk_hashPrevBlock block) (orphans_of B (bk_hashPrevBlock block) @ [block]) (bs_mapOrphanBlocksByPrev B)\<rparr>"

text \<open>
  A block that has passed the checks: the hash of its proof of stake is noted, and it becomes
  an orphan or is accepted, with the orphans that wait for it.
\<close>

definition process_checked ::
  "'k chainenv \<Rightarrow> block_state \<Rightarrow> CBlock \<Rightarrow> uint256 \<Rightarrow> sigcache \<Rightarrow> (process_result \<times> block_state) option" where
  "process_checked V B block hashProof c =
     (let N = ce_node V; S = bs_chain B; hash = CBlock_GetHash N block; stake = IsProofOfStake block;
          S = S\<lparr>cs_sigcache := c,
                cs_mapProofOfStake := (if stake then map_insert hash hashProof (cs_mapProofOfStake S)
                                       else cs_mapProofOfStake S)\<rparr>;
          B = B\<lparr>bs_chain := S\<rparr>
      in if index_entry S (bk_hashPrevBlock block) = None
         then (if stake \<and> GetProofOfStake block \<in> set (bs_setStakeSeenOrphan B) \<and> orphans_of B hash = []
               then Some (Refused, B)
               else let B = (if stake
                             then B\<lparr>bs_setStakeSeenOrphan := List.insert (GetProofOfStake block) (bs_setStakeSeenOrphan B)\<rparr>
                             else B);
                        B = add_orphan_block N block B
                    in Some (Orphaned (GetOrphanRoot N (bs_mapOrphanBlocks B) block)
                                       (WantedByOrphan (bs_mapOrphanBlocks B) block), B))
         else (case AcceptBlock V S block of
                 None \<Rightarrow> None
               | Some ((False, _), S) \<Rightarrow> Some (Refused, B\<lparr>bs_chain := S\<rparr>)
               | Some ((True, _), S) \<Rightarrow>
                   map_option (\<lambda>B. (Accepted, B)) (orphan_queue V [hash] (B\<lparr>bs_chain := S\<rparr>))))"

definition ProcessBlock ::
  "'k chainenv \<Rightarrow> block_state \<Rightarrow> CBlock \<Rightarrow> (process_result \<times> block_state) option" where
  "ProcessBlock V B block =
     (let N = ce_node V; S = bs_chain B; hash = CBlock_GetHash N block; block = CBlock_SetHash block hash;
          stake = IsProofOfStake block; hashPrev = bk_hashPrevBlock block
      in if index_entry S hash \<noteq> None \<or> map_of (bs_mapOrphanBlocks B) hash \<noteq> None then Some (Refused, B)
         else if stake \<and> GetProofOfStake block \<in> set (cs_setStakeSeen S) \<and> orphans_of B hash = []
         then (if index_entry S hashPrev \<noteq> None
               then Some (Reorg, B\<lparr>bs_chain := S\<lparr>cs_setStakeSeen := removeAll (GetProofOfStake block) (cs_setStakeSeen S)\<rparr>\<rparr>)
               else Some (Refused, B))
         else if \<not> fst (CheckBlock N (ce_nAdjustedTime V) True True True block) then Some (Refused, B)
         else let fFullCheck = (case index_entry S hashPrev of None \<Rightarrow> True
                                | Some bp \<Rightarrow> GetTotalBlocksEstimate N < bi_nHeight bp)
              in case (if stake \<and> fFullCheck
                       then CheckProofOfStake N (cs_files S) (cs_txdb S) (cs_mapBlockIndex S) (bk_vtx block ! 1)
                              (bk_nBits block) 0 (cs_sigcache S)
                       else Some (DoS 0 True, 0, cs_sigcache S)) of
                   None \<Rightarrow> None
                 | Some ((False, _), _, c) \<Rightarrow> Some (Refused, B\<lparr>bs_chain := S\<lparr>cs_sigcache := c\<rparr>\<rparr>)
                 | Some ((True, _), hashProof, c) \<Rightarrow> process_checked V B block hashProof c)"

end
