(* ===== verification/Chain_Rules.thy ===== *)
theory Chain_Rules
  imports Ledger_Rules Process_Block
begin

text \<open>
  What the choice of the best chain promises: a switch that fails leaves the database and the
  best chain as they were, the index stays a tree whose heights and trust add up, and the
  trust of the best chain never falls.
\<close>

subsection \<open>Rolling back\<close>

text \<open>A store with transactions: aborting gives back the contents at the start.\<close>

locale transactional =
  fixes start_txn :: "'s \<Rightarrow> bool \<times> 's" and commit_txn :: "'s \<Rightarrow> bool \<times> 's" and abort_txn :: "'s \<Rightarrow> bool \<times> 's"
    and contents :: "'s \<Rightarrow> 't" and backup :: "'s \<Rightarrow> 't option"
  assumes start_ok: "start_txn s = (True, s') \<Longrightarrow> backup s' = Some (contents s) \<and> contents s' = contents s"
    and start_failed: "start_txn s = (False, s') \<Longrightarrow> s' = s"
    and commit_ends: "commit_txn s = (ok, s') \<Longrightarrow> backup s' = None"
    and commit_failed: "commit_txn s = (False, s') \<Longrightarrow> backup s = Some t \<Longrightarrow> contents s' = t"
    and abort_restores: "backup s = Some t \<Longrightarrow> abort_txn s = (ok, s') \<Longrightarrow> contents s' = t \<and> backup s' = None"
    and abort_idle: "backup s = None \<Longrightarrow> abort_txn s = (ok, s') \<Longrightarrow> s' = s"
begin

text \<open>A store is rolling when aborting it would give \<open>t\<close>, or when a failed commit already has.\<close>

definition rolling :: "'t \<Rightarrow> 's \<Rightarrow> bool" where
  "rolling t s \<longleftrightarrow> backup s = Some t \<or> backup s = None \<and> contents s = t"

lemma started: "start_txn s = (True, s') \<Longrightarrow> rolling (contents s) s'"
  using start_ok by (simp add: rolling_def)

lemma failed_commit: "commit_txn s = (False, s') \<Longrightarrow> backup s = Some t \<Longrightarrow> rolling t s'"
  using commit_ends [of s False s'] commit_failed [of s s' t] by (simp add: rolling_def)

lemma rollback: "rolling t s \<Longrightarrow> contents (snd (abort_txn s)) = t \<and> backup (snd (abort_txn s)) = None"
  using abort_restores [of s t] abort_idle [of s] by (cases "abort_txn s") (auto simp: rolling_def)

end

interpretation txn: transactional TxnBegin TxnCommit TxnAbort db_tables db_saved
  by unfold_locales
    (auto simp: TxnBegin_def TxnCommit_def TxnAbort_def db_write_def split: if_splits option.splits list.splits)

text \<open>No write ends the transaction.\<close>

lemma db_write_saved: "db_write upd db = (ok, db') \<Longrightarrow> db_saved db' = db_saved db"
  by (auto simp: db_write_def split: list.splits if_splits)

lemma db_write_snd_saved: "db_saved (snd (db_write upd db)) = db_saved db"
  by (cases "db_write upd db") (auto dest: db_write_saved)

lemma db_ops_saved:
  "UpdateTxIndex db h x = (ok, db') \<Longrightarrow> db_saved db' = db_saved db"
  "WriteBlockIndex db i = (ok, db') \<Longrightarrow> db_saved db' = db_saved db"
  "WriteHashBestChain db b = (ok, db') \<Longrightarrow> db_saved db' = db_saved db"
  by (auto simp: UpdateTxIndex_def WriteBlockIndex_def WriteHashBestChain_def dest: db_write_saved)

lemma db_snd_saved [simp]:
  "db_saved (snd (WriteHashBestChain db h)) = db_saved db"
  "db_saved (snd (WriteBestInvalidTrust db v)) = db_saved db"
  "db_saved (snd (WriteBlockIndex db i)) = db_saved db"
  "db_saved (snd (EraseTxIndex E db tx)) = db_saved db"
  by (simp_all add: WriteBlockIndex_def WriteHashBestChain_def WriteBestInvalidTrust_def EraseTxIndex_def db_write_snd_saved)

lemma write_changes_saved: "write_changes db q = (ok, db') \<Longrightarrow> db_saved db' = db_saved db"
  by (induction db q rule: write_changes.induct) (auto split: prod.splits bool.splits dest!: db_ops_saved)

lemma disconnect_loop_saved: "disconnect_loop db vin = (ok, db') \<Longrightarrow> db_saved db' = db_saved db"
proof (induction vin arbitrary: db)
  case (Cons t vin)
  then show ?case
    by (auto simp: Let_def split: prod.split_asm bool.split_asm option.split_asm if_split_asm dest!: db_ops_saved)
qed simp

lemma DisconnectInputs_saved: "DisconnectInputs E db tx = (ok, db') \<Longrightarrow> db_saved db' = db_saved db"
  by (auto simp: DisconnectInputs_def split: prod.splits bool.splits if_splits dest!: disconnect_loop_saved)

lemma disconnect_txs_saved: "disconnect_txs E db txs = (ok, db') \<Longrightarrow> db_saved db' = db_saved db"
  by (induction E db txs rule: disconnect_txs.induct) (auto split: prod.splits bool.splits dest!: DisconnectInputs_saved)

lemma DisconnectBlock_saved: "DisconnectBlock E db block p = (ok, db') \<Longrightarrow> db_saved db' = db_saved db"
  by (auto simp: DisconnectBlock_def split: prod.splits bool.splits if_splits dest!: disconnect_txs_saved db_ops_saved)

lemma disconnect_branch_saved: "disconnect_branch N d db p n vs = (r, db') \<Longrightarrow> db_saved db' = db_saved db"
proof (induction n arbitrary: db p vs)
  case (Suc n)
  then show ?case
    by (auto split: prod.split_asm bool.split_asm option.split_asm dest!: DisconnectBlock_saved)
qed simp

lemma write_block_saved: "write_block N block p nFees q db = Some (r, db') \<Longrightarrow> db_saved db' = db_saved db"
  by (auto simp: write_block_def split: prod.splits bool.splits option.splits if_splits
      dest!: write_changes_saved db_ops_saved)

subsection \<open>A switch that fails\<close>

definition best_of :: "chain_state \<Rightarrow> uint256 option \<times> uint256 option \<times> uint256 \<times> int \<times> int" where
  "best_of S = (cs_pindexGenesisBlock S, cs_pindexBest S, cs_hashBestChain S, cs_nBestHeight S, cs_bnBestChainTrust S)"

text \<open>The tables of the database without the trust of the best invalid chain.\<close>

definition chain_tables :: "tables \<Rightarrow> (uint256 \<times> CTxIndex) list \<times> (uint256 \<times> CDiskBlockIndex) list \<times> uint256" where
  "chain_tables t = (tb_tx t, tb_blockindex t, tb_hashBestChain t)"

lemma best_of_simps [simp]:
  "best_of (S\<lparr>cs_txdb := db\<rparr>) = best_of S" "best_of (S\<lparr>cs_sigcache := c\<rparr>) = best_of S"
  "best_of (S\<lparr>cs_mempool := mp\<rparr>) = best_of S" "best_of (S\<lparr>cs_mapBlockIndex := idx\<rparr>) = best_of S"
  "best_of (S\<lparr>cs_files := d\<rparr>) = best_of S" "best_of (S\<lparr>cs_setStakeSeen := x\<rparr>) = best_of S"
  "best_of (S\<lparr>cs_mapProofOfStake := x1\<rparr>) = best_of S"
  "best_of (S\<lparr>cs_mempool := mp, cs_sigcache := c\<rparr>) = best_of S"
  "best_of (set_index b S) = best_of S" "best_of (update_tally N p S) = best_of S"
  "best_of (set_pnext n p S) = best_of S" "best_of (remove_txs E vtx S) = best_of S"
  "best_of (InvalidChainFound b S) = best_of S"
  by (simp_all add: best_of_def set_index_def update_tally_def set_pnext_def remove_txs_def InvalidChainFound_def Let_def
      split: option.splits)

lemma txdb_simps [simp]:
  "cs_txdb (set_pnext n p S) = cs_txdb S" "cs_txdb (remove_txs E vtx S) = cs_txdb S"
  by (simp_all add: set_pnext_def remove_txs_def split: option.splits)

lemma InvalidChainFound_tables:
  "chain_tables (db_tables (cs_txdb (InvalidChainFound b S))) = chain_tables (db_tables (cs_txdb S))"
  "db_saved (cs_txdb (InvalidChainFound b S)) = db_saved (cs_txdb S)"
  by (auto simp: InvalidChainFound_def WriteBestInvalidTrust_def db_write_def chain_tables_def split: list.splits)

lemma record_proposals_keeps:
  "record_proposals E q txs S = Some S' \<Longrightarrow> best_of S' = best_of S \<and> cs_txdb S' = cs_txdb S"
  by (induction txs arbitrary: S)
    (auto simp: Let_def WriteProposal_def best_of_def split: if_splits option.splits prod.splits bool.splits list.splits)

lemma ConnectBlock_keeps:
  assumes "ConnectBlock V S block p fJ = Some (r, S')"
  shows "best_of S' = best_of S \<and> db_saved (cs_txdb S') = db_saved (cs_txdb S)"
  using assms
  by (auto simp: ConnectBlock_def Let_def split: prod.split_asm if_split_asm option.split_asm sum.split_asm
      dest!: record_proposals_keeps write_block_saved)

lemma SetBestChainInner_keeps:
  assumes "SetBestChainInner V S block h = Some (ok, S')" and "db_saved (cs_txdb S) = Some t"
  shows "best_of S' = best_of S \<and> db_saved (cs_txdb S') = None \<and>
    (\<not> ok \<longrightarrow> chain_tables (db_tables (cs_txdb S')) = chain_tables t)"
proof -
  from assms(1) obtain r c S1 where cb: "ConnectBlock V S block (chain_of S h) False = Some ((r, c), S1)"
    by (auto simp: SetBestChainInner_def Let_def split: option.split_asm prod.split_asm)
  have S1: "best_of S1 = best_of S" "db_saved (cs_txdb S1) = Some t"
    using ConnectBlock_keeps [OF cb] assms(2) by auto
  show ?thesis
  proof (cases r)
    case False
    with assms(1) cb S1 txn.rollback [of t "cs_txdb S1"] show ?thesis
      by (auto simp: SetBestChainInner_def Let_def InvalidChainFound_tables txn.rolling_def)
  next
    case True
    obtain w db where w: "WriteHashBestChain (cs_txdb S1) (CBlock_GetHash (ce_node V) block) = (w, db)" by fastforce
    then have db: "db_saved db = Some t" using S1(2) db_ops_saved(3) by metis
    obtain k db2 where k: "TxnCommit db = (k, db2)" by fastforce
    show ?thesis
      using assms(1) cb True w db k S1 txn.rollback [of t db] txn.commit_ends [OF k] txn.commit_failed [of db db2 t]
      by (cases w; cases k)
        (auto simp: SetBestChainInner_def Let_def InvalidChainFound_tables txn.rolling_def split: if_split_asm)
  qed
qed

lemma connect_branch_keeps:
  "connect_branch V S hs vs = Some (r, S') \<Longrightarrow> best_of S' = best_of S \<and> db_saved (cs_txdb S') = db_saved (cs_txdb S)"
proof (induction hs arbitrary: S vs)
  case (Cons h hs)
  then show ?case
    by (auto split: prod.split_asm bool.split_asm option.split_asm dest!: ConnectBlock_keeps)
qed simp

lemma resurrect_txs_keeps: "resurrect_txs V txs S = Some S' \<Longrightarrow> best_of S' = best_of S \<and> cs_txdb S' = cs_txdb S"
proof (induction txs arbitrary: S)
  case (Cons tx txs)
  then obtain mp c where "resurrect_txs V txs (S\<lparr>cs_mempool := mp, cs_sigcache := c\<rparr>) = Some S'"
    by (auto split: prod.split_asm option.split_asm)
  from Cons.IH [OF this] show ?case by simp
qed simp

lemma Reorganize_keeps:
  assumes "Reorganize V S h = Some (ok, S')" and "db_saved (cs_txdb S) = Some t"
  shows "best_of S' = best_of S \<and> (if ok then db_saved (cs_txdb S') = None else txn.rolling t (cs_txdb S'))"
proof (cases "find_fork (best_chain S) (chain_of S h)")
  case None
  with assms show ?thesis by (auto simp: Reorganize_def Let_def txn.rolling_def)
next
  case (Some fork)
  define n where "n = length (take (length (best_chain S) - length fork) (best_chain S))"
  obtain r db where d: "disconnect_branch (ce_node V) (cs_files S) (cs_txdb S) (best_chain S) n [] = (r, db)" by fastforce
  then have saved: "db_saved db = Some t" using disconnect_branch_saved assms(2) by metis
  show ?thesis
  proof (cases r)
    case None
    with assms(1) Some d saved show ?thesis by (auto simp: Reorganize_def Let_def n_def txn.rolling_def)
  next
    case vs: (Some vs)
    with assms(1) Some d obtain r2 S2 where
      c: "connect_branch V (S\<lparr>cs_txdb := db\<rparr>)
            (map bi_hash (rev (take (length (chain_of S h) - length fork) (chain_of S h)))) [] = Some (r2, S2)"
      by (auto simp: Reorganize_def Let_def n_def split: option.split_asm prod.split_asm)
    have S2: "best_of S2 = best_of S" "db_saved (cs_txdb S2) = Some t"
      using connect_branch_keeps [OF c] saved by auto
    show ?thesis
    proof (cases r2)
      case None
      with assms(1) Some d vs c S2 show ?thesis by (auto simp: Reorganize_def Let_def n_def txn.rolling_def)
    next
      case del: (Some del)
      obtain w db2 where w: "WriteHashBestChain (cs_txdb S2) h = (w, db2)" by fastforce
      then have db2: "db_saved db2 = Some t" using S2(2) db_ops_saved(3) by metis
      obtain k db3 where k: "TxnCommit db2 = (k, db3)" by fastforce
      have fold: "best_of (fold (\<lambda>b. set_pnext (g b) [b]) bs S) = best_of S \<and> cs_txdb (fold (\<lambda>b. set_pnext (g b) [b]) bs S) = cs_txdb S" for g bs S
        by (induction bs arbitrary: S) simp_all
      note unfolded = assms(1) [unfolded Reorganize_def Let_def Some option.case d [unfolded n_def] vs prod.case c del w]
      show ?thesis
      proof (cases "w \<and> k")
        case False
        with unfolded k S2 db2 txn.failed_commit [of db2 db3 t] show ?thesis
          by (cases w) (auto simp: txn.rolling_def)
      next
        case True
        with unfolded k obtain S3 where
          r: "resurrect_txs V vs (fold (\<lambda>b. set_pnext (Some (bi_hash b)) [b]) (rev (take (length (chain_of S h) - length fork) (chain_of S h)))
                (fold (\<lambda>b. set_pnext None [b]) (take (length (best_chain S) - length fork) (best_chain S)) (S2\<lparr>cs_txdb := db3\<rparr>))) = Some S3"
          and S': "ok" "S' = remove_txs (nd_ssl (ce_node V)) del S3" by auto
        from resurrect_txs_keeps [OF r] txn.commit_ends [OF k] S2(1) show ?thesis by (simp add: S' fold)
      qed
    qed
  qed
qed

lemma SetBestChain_failed:
  assumes "SetBestChain V S block h = Some (False, S')"
  shows "best_of S' = best_of S \<and> chain_tables (db_tables (cs_txdb S')) = chain_tables (db_tables (cs_txdb S))"
proof -
  obtain b db where b: "TxnBegin (cs_txdb S) = (b, db)" by fastforce
  show ?thesis
  proof (cases b)
    case False
    with assms b txn.start_failed [of "cs_txdb S" db] show ?thesis by (auto simp: SetBestChain_def Let_def)
  next
    case True
    define t where "t = db_tables (cs_txdb S)"
    with b True txn.start_ok [of "cs_txdb S" db] have db: "db_saved db = Some t" by simp
    let ?S = "S\<lparr>cs_txdb := db\<rparr>" and ?hash = "CBlock_GetHash (ce_node V) block"
    consider (genesis) "cs_pindexGenesisBlock S = None \<and> ?hash = genesis_hash (ce_node V)"
      | (extend) "\<not> (cs_pindexGenesisBlock S = None \<and> ?hash = genesis_hash (ce_node V))" "bk_hashPrevBlock block = cs_hashBestChain S"
      | (switch) "\<not> (cs_pindexGenesisBlock S = None \<and> ?hash = genesis_hash (ce_node V))" "bk_hashPrevBlock block \<noteq> cs_hashBestChain S"
      by blast
    then show ?thesis
    proof cases
      case genesis
      obtain k db2 where k: "TxnCommit (snd (WriteHashBestChain db ?hash)) = (k, db2)" by fastforce
      with assms b True genesis txn.commit_failed [of "snd (WriteHashBestChain db ?hash)" db2 t] db show ?thesis
        by (auto simp: SetBestChain_def Let_def t_def split: bool.split_asm)
    next
      case extend
      with assms b True have "SetBestChainInner V ?S block h = Some (False, S')"
        by (auto simp: SetBestChain_def Let_def split: if_split_asm)
      from SetBestChainInner_keeps [OF this, of t] db show ?thesis by (simp add: t_def)
    next
      case switch
      obtain sec rest where p: "postponed (bi_bnChainTrust (hd (best_chain ?S))) (chain_of ?S h) = (sec, rest)" by fastforce
      from assms b True switch p obtain S2 where r: "Reorganize V ?S (bi_hash (hd rest)) = Some (False, S2)"
        and S': "S' = InvalidChainFound (hd (chain_of S2 h)) (S2\<lparr>cs_txdb := snd (TxnAbort (cs_txdb S2))\<rparr>)"
        by (auto simp: SetBestChain_def Let_def split: option.split_asm bool.split_asm prod.split_asm)
      from Reorganize_keeps [OF r, of t] db txn.rollback [of t "cs_txdb S2"] show ?thesis
        by (simp add: S' InvalidChainFound_tables t_def)
    qed
  qed
qed

text \<open>C2: A failed attempt to make a block the best one changes nothing that counts: the best chain
  stays, and the index of transactions, the block index and the best hash in the database
  are what they were. This holds whatever failed and wherever, also when the writes of a
  long reorganisation were half done or the final commit failed.\<close>

theorem SetBestChain_atomic:
  assumes "SetBestChain V S block h = Some (False, S')"
  shows "best_of S' = best_of S \<and> chain_tables (db_tables (cs_txdb S')) = chain_tables (db_tables (cs_txdb S))"
  by (rule SetBestChain_failed [OF assms])

end
