(* ===== verification/Index_Rules.thy ===== *)
theory Index_Rules
  imports Chain_Rules
begin

text \<open>
  The block index is a tree: every entry is filed under its hash, its height and its trust
  are those of its parent plus its own, and the walk along the parents reaches a first
  block. Connecting blocks and switching branches only change what is not part of the tree.
\<close>

subsection \<open>The tree\<close>

definition entry_ok :: "block_index \<Rightarrow> CBlockIndex \<Rightarrow> bool" where
  "entry_ok idx b \<longleftrightarrow>
     (case bi_pprev b of
        None \<Rightarrow> bi_nHeight b = 0 \<and> bi_bnChainTrust b = GetBlockTrust b
      | Some hp \<Rightarrow> \<exists>bp. map_of idx hp = Some bp \<and> bi_nHeight b = bi_nHeight bp + 1 \<and>
                    bi_bnChainTrust b = bi_bnChainTrust bp + GetBlockTrust b)"

definition tree_ok :: "block_index \<Rightarrow> bool" where
  "tree_ok idx \<longleftrightarrow> (\<forall>h b. map_of idx h = Some b \<longrightarrow> bi_hash b = h \<and> entry_ok idx b)"

text \<open>The fields of an entry that make the tree.\<close>

definition tree_part :: "CBlockIndex \<Rightarrow> CBlockIndex" where
  "tree_part b = b\<lparr>bi_nMint := 0, bi_nMoneySupply := 0, bi_pnext := None\<rparr>"

definition same_tree :: "block_index \<Rightarrow> block_index \<Rightarrow> bool" where
  "same_tree idx idx' \<longleftrightarrow> (\<forall>h. map_option tree_part (map_of idx h) = map_option tree_part (map_of idx' h))"

lemma same_tree_refl [simp]: "same_tree idx idx"
  by (simp add: same_tree_def)

lemma same_tree_trans: "same_tree i j \<Longrightarrow> same_tree j k \<Longrightarrow> same_tree i k"
  by (simp add: same_tree_def)

lemma tree_part_fields:
  assumes "tree_part b = tree_part b'"
  shows "bi_hash b = bi_hash b'" "bi_pprev b = bi_pprev b'" "bi_nHeight b = bi_nHeight b'"
    "bi_bnChainTrust b = bi_bnChainTrust b'" "GetBlockTrust b = GetBlockTrust b'"
proof -
  have "bi_nFlags b = bi_nFlags b'" "bi_nBits b = bi_nBits b'"
    using assms by (auto simp: tree_part_def dest: arg_cong [of _ _ bi_nFlags] arg_cong [of _ _ bi_nBits])
  moreover from this(1) have "bi_IsProofOfStake b = bi_IsProofOfStake b'" by (simp only: bi_IsProofOfStake_def)
  ultimately show "GetBlockTrust b = GetBlockTrust b'" by (simp only: GetBlockTrust_def)
  show "bi_hash b = bi_hash b'" "bi_pprev b = bi_pprev b'" "bi_nHeight b = bi_nHeight b'" "bi_bnChainTrust b = bi_bnChainTrust b'"
    using assms by (auto simp: tree_part_def dest: arg_cong [of _ _ bi_hash] arg_cong [of _ _ bi_pprev]
        arg_cong [of _ _ bi_nHeight] arg_cong [of _ _ bi_bnChainTrust])
qed

lemma same_tree_entry:
  assumes "same_tree idx idx'" "map_of idx h = Some b"
  obtains b' where "map_of idx' h = Some b'" "tree_part b = tree_part b'"
proof -
  from assms have "map_option tree_part (map_of idx' h) = Some (tree_part b)" by (metis option.simps(9) same_tree_def)
  then show ?thesis using that by (cases "map_of idx' h") auto
qed

lemma same_tree_sym: "same_tree i j \<Longrightarrow> same_tree j i"
  by (simp add: same_tree_def)

lemma same_tree_None: "same_tree idx idx' \<Longrightarrow> map_of idx h = None \<longleftrightarrow> map_of idx' h = None"
  by (metis option.map_disc_iff same_tree_def)

lemma entry_ok_same:
  assumes "same_tree idx idx'" "tree_part b = tree_part b'" "entry_ok idx b" shows "entry_ok idx' b'"
proof (cases "bi_pprev b")
  case None
  with assms(3) tree_part_fields [OF assms(2)] show ?thesis by (simp add: entry_ok_def)
next
  case (Some hp)
  with assms(3) obtain bp where bp: "map_of idx hp = Some bp" "bi_nHeight b = bi_nHeight bp + 1"
    "bi_bnChainTrust b = bi_bnChainTrust bp + GetBlockTrust b" by (auto simp: entry_ok_def)
  from same_tree_entry [OF assms(1) bp(1)] obtain bp' where "map_of idx' hp = Some bp'" "tree_part bp = tree_part bp'" .
  with Some bp tree_part_fields [OF assms(2)] tree_part_fields [of bp bp'] show ?thesis by (simp add: entry_ok_def)
qed

lemma tree_ok_same:
  assumes "same_tree idx idx'" "tree_ok idx" shows "tree_ok idx'"
  unfolding tree_ok_def
proof (intro allI impI)
  fix h b' assume "map_of idx' h = Some b'"
  from same_tree_entry [OF same_tree_sym [OF assms(1)] this] obtain b where b: "map_of idx h = Some b" "tree_part b' = tree_part b" .
  with assms(2) have "bi_hash b = h" "entry_ok idx b" by (auto simp: tree_ok_def)
  with entry_ok_same [OF assms(1) b(2) [symmetric]] tree_part_fields(1) [OF b(2)] show "bi_hash b' = h \<and> entry_ok idx' b'" by simp
qed

lemma same_tree_put:
  assumes "map_of idx h = Some b" "tree_part b' = tree_part b" shows "same_tree idx (map_put h b' idx)"
  using assms by (simp add: same_tree_def)

subsection \<open>Walks\<close>

lemma finite_ran_map_of: "finite (ran (map_of idx))"
proof (rule finite_subset)
  show "ran (map_of idx) \<subseteq> snd ` set idx" by (force simp: ran_def dest: map_of_SomeD)
qed simp

lemma entry_height:
  assumes "tree_ok idx" "map_of idx h = Some b" shows "0 \<le> bi_nHeight b"
proof -
  define H where "H = bi_nHeight ` ran (map_of idx)"
  have fin: "finite H" and mem: "bi_nHeight b \<in> H"
    using assms(2) by (auto simp: H_def finite_ran_map_of intro: ranI)
  then have "Min H \<in> H" by (intro Min_in) auto
  then obtain h0 b0 where b0: "map_of idx h0 = Some b0" "bi_nHeight b0 = Min H" by (auto simp: H_def ran_def)
  with assms(1) have ok: "entry_ok idx b0" by (simp add: tree_ok_def)
  have "bi_pprev b0 = None"
  proof (rule ccontr)
    assume "bi_pprev b0 \<noteq> None"
    with ok obtain hp bp where "map_of idx hp = Some bp" "bi_nHeight b0 = bi_nHeight bp + 1"
      by (auto simp: entry_ok_def)
    moreover from this(1) have "bi_nHeight bp \<in> H" by (auto simp: H_def intro: ranI)
    ultimately show False using Min_le [OF fin] b0(2) by fastforce
  qed
  with ok b0 have "Min H = 0" by (simp add: entry_ok_def)
  with Min_le [OF fin mem] show ?thesis by simp
qed

lemma heights_below:
  assumes "tree_ok idx" "map_of idx h = Some b"
  shows "nat ` {0 .. bi_nHeight b} \<subseteq> nat ` bi_nHeight ` ran (map_of idx)"
  using assms(2)
proof (induction "nat (bi_nHeight b)" arbitrary: h b rule: less_induct)
  case less
  from assms(1) less.prems have ok: "entry_ok idx b" by (simp add: tree_ok_def)
  have b: "bi_nHeight b \<in> bi_nHeight ` ran (map_of idx)" using less.prems by (auto intro: ranI)
  show ?case
  proof (cases "bi_pprev b")
    case None
    with ok b show ?thesis by (auto simp: entry_ok_def)
  next
    case (Some hp)
    with ok obtain bp where bp: "map_of idx hp = Some bp" "bi_nHeight b = bi_nHeight bp + 1"
      by (auto simp: entry_ok_def)
    have "0 \<le> bi_nHeight bp" by (rule entry_height [OF assms(1) bp(1)])
    then have "{0 .. bi_nHeight b} = insert (bi_nHeight b) {0 .. bi_nHeight bp}" using bp(2) by auto
    moreover have "nat ` {0 .. bi_nHeight bp} \<subseteq> nat ` bi_nHeight ` ran (map_of idx)"
      by (rule less.hyps [OF _ bp(1)]) (use bp \<open>0 \<le> bi_nHeight bp\<close> in simp)
    ultimately show ?thesis using b by auto
  qed
qed

lemma height_bound:
  assumes "tree_ok idx" "map_of idx h = Some b" shows "bi_nHeight b < int (length idx)"
proof -
  have pos: "0 \<le> bi_nHeight b" by (rule entry_height [OF assms])
  have fin: "finite (nat ` bi_nHeight ` ran (map_of idx))" by (intro finite_imageI finite_ran_map_of)
  have "card (nat ` {0 .. bi_nHeight b}) = nat (bi_nHeight b + 1)"
    by (subst card_image) (auto simp: inj_on_def)
  moreover have "card (nat ` {0 .. bi_nHeight b}) \<le> card (nat ` bi_nHeight ` ran (map_of idx))"
    by (rule card_mono [OF fin heights_below [OF assms]])
  moreover have "card (nat ` bi_nHeight ` ran (map_of idx)) \<le> card (snd ` set idx)"
  proof -
    have "nat ` bi_nHeight ` ran (map_of idx) \<subseteq> (nat \<circ> bi_nHeight) ` snd ` set idx"
      by (auto simp: ran_def dest!: map_of_SomeD intro!: image_eqI)
    then have "card (nat ` bi_nHeight ` ran (map_of idx)) \<le> card ((nat \<circ> bi_nHeight) ` snd ` set idx)"
      by (intro card_mono) auto
    also have "\<dots> \<le> card (snd ` set idx)" by (rule card_image_le) simp
    finally show ?thesis .
  qed
  moreover have "card (snd ` set idx) \<le> length idx"
    by (metis card_length length_map set_map)
  ultimately show ?thesis using pos by linarith
qed

lemma chain_walk_ok:
  assumes "tree_ok idx" "map_of idx h = Some b" "bi_nHeight b < int n"
  shows "\<exists>bs. chain_walk n idx h = b # bs \<and> length bs = nat (bi_nHeight b) \<and> chain_heights (b # bs) \<and>
    (\<forall>c \<in> set (b # bs). map_of idx (bi_hash c) = Some c) \<and>
    bs = (case bi_pprev b of None \<Rightarrow> [] | Some hp \<Rightarrow> chain_walk (n - 1) idx hp) \<and>
    (bs \<noteq> [] \<longrightarrow> bi_pprev b = Some (bi_hash (hd bs)))"
  using assms(2,3)
proof (induction n arbitrary: h b)
  case 0
  with entry_height [OF assms(1)] show ?case by fastforce
next
  case (Suc n)
  from assms(1) Suc.prems have ok: "entry_ok idx b" "bi_hash b = h" by (auto simp: tree_ok_def)
  show ?case
  proof (cases "bi_pprev b")
    case None
    with ok Suc.prems show ?thesis by (simp add: entry_ok_def)
  next
    case (Some hp)
    with ok obtain bp where bp: "map_of idx hp = Some bp" "bi_nHeight b = bi_nHeight bp + 1" by (auto simp: entry_ok_def)
    with assms(1) have "bi_hash bp = hp" by (simp add: tree_ok_def)
    moreover have "0 \<le> bi_nHeight bp" by (rule entry_height [OF assms(1) bp(1)])
    moreover have "bi_nHeight bp < int n" using Suc.prems(2) bp(2) by simp
    ultimately show ?thesis using Suc.IH [OF bp(1)] Some bp ok Suc.prems(1) by auto
  qed
qed

lemma chain_of_ok:
  assumes "tree_ok (cs_mapBlockIndex S)" "map_of (cs_mapBlockIndex S) h = Some b"
  obtains bs where "chain_of S h = b # bs" "chain_heights (b # bs)"
    "\<forall>c \<in> set (b # bs). map_of (cs_mapBlockIndex S) (bi_hash c) = Some c"
    "bs \<noteq> [] \<longrightarrow> bi_pprev b = Some (bi_hash (hd bs))"
  using chain_walk_ok [OF assms height_bound [OF assms]] that
  unfolding chain_of_def ancestry_def by blast

text \<open>The walk along the parents of an entry reaches a first block: in an index that is a tree it
  visits as many entries as the height says, all of them indexed under their own hashes.\<close>

theorem ancestry_complete:
  assumes "tree_ok idx" and "map_of idx h = Some b"
  shows "\<exists>bs. ancestry idx h = b # bs \<and> int (length (b # bs)) = bi_nHeight b + 1 \<and> chain_heights (b # bs) \<and>
    (\<forall>c \<in> set (b # bs). map_of idx (bi_hash c) = Some c)"
  using chain_walk_ok [OF assms height_bound [OF assms]] entry_height [OF assms]
  unfolding ancestry_def by auto

subsection \<open>What keeps the tree\<close>

lemma index_simps [simp]:
  "cs_mapBlockIndex (update_tally N p S) = cs_mapBlockIndex S"
  "cs_mapBlockIndex (remove_txs E vtx S) = cs_mapBlockIndex S"
  "cs_mapBlockIndex (InvalidChainFound b S) = cs_mapBlockIndex S"
  "cs_mapBlockIndex (new_best hash h S) = cs_mapBlockIndex S"
  by (simp_all add: update_tally_def remove_txs_def InvalidChainFound_def new_best_def Let_def)

lemma record_proposals_index: "record_proposals E q txs S = Some S' \<Longrightarrow> cs_mapBlockIndex S' = cs_mapBlockIndex S"
  by (induction txs arbitrary: S)
    (auto simp: Let_def WriteProposal_def split: if_splits option.splits prod.splits bool.splits list.splits)

lemma set_index_tree:
  assumes "map_of (cs_mapBlockIndex S) (bi_hash b0) = Some b0" "tree_part b = tree_part b0"
  shows "same_tree (cs_mapBlockIndex S) (cs_mapBlockIndex (set_index b S))"
  using same_tree_put [OF assms] tree_part_fields(1) [OF assms(2)] by (simp add: set_index_def)

lemma ConnectBlock_tree:
  assumes "ConnectBlock V S block p fJ = Some (r, S')"
    and "map_of (cs_mapBlockIndex S) (bi_hash (hd p)) = Some (hd p)"
  shows "same_tree (cs_mapBlockIndex S) (cs_mapBlockIndex S')"
proof -
  have "same_tree (cs_mapBlockIndex S) (cs_mapBlockIndex (set_index ((hd p)\<lparr>bi_nMint := m, bi_nMoneySupply := n\<rparr>) (S\<lparr>cs_sigcache := c\<rparr>)))"
    for m n c using set_index_tree [of "S\<lparr>cs_sigcache := c\<rparr>" "hd p"] assms(2) by (simp add: tree_part_def)
  with assms(1) show ?thesis
    by (auto simp: ConnectBlock_def Let_def split: prod.split_asm if_split_asm option.split_asm sum.split_asm
        dest!: record_proposals_index)
qed

lemma set_pnext_tree: "same_tree (cs_mapBlockIndex S) (cs_mapBlockIndex (set_pnext n p S))"
  by (auto simp: set_pnext_def index_entry_def same_tree_put tree_part_def split: option.splits)

lemma fold_pnext_tree: "same_tree (cs_mapBlockIndex S) (cs_mapBlockIndex (fold (\<lambda>b. set_pnext (g b) [b]) bs S))"
proof (induction bs arbitrary: S)
  case (Cons b bs)
  from same_tree_trans [OF set_pnext_tree Cons.IH] show ?case by simp
qed simp

lemma in_index_hd:
  assumes "tree_ok (cs_mapBlockIndex S)" "map_of (cs_mapBlockIndex S) h \<noteq> None"
  shows "map_of (cs_mapBlockIndex S) (bi_hash (hd (chain_of S h))) = Some (hd (chain_of S h))"
proof -
  from assms(2) obtain b where "map_of (cs_mapBlockIndex S) h = Some b" by blast
  from chain_of_ok [OF assms(1) this] show ?thesis by (metis list.sel(1) list.set_intros(1))
qed

lemma connect_branch_tree:
  assumes "connect_branch V S hs vs = Some (r, S')" "tree_ok (cs_mapBlockIndex S)"
    "\<forall>h \<in> set hs. map_of (cs_mapBlockIndex S) h \<noteq> None"
  shows "same_tree (cs_mapBlockIndex S) (cs_mapBlockIndex S')"
  using assms
proof (induction hs arbitrary: S vs)
  case (Cons h hs)
  show ?case
  proof (cases "ReadFromDisk_index (ce_node V) (cs_files S) (hd (chain_of S h)) True")
    case None
    with Cons.prems(1) show ?thesis by simp
  next
    case (Some block)
    with Cons.prems(1) obtain ok c S1 where cb: "ConnectBlock V S block (chain_of S h) False = Some ((ok, c), S1)"
      by (auto split: option.split_asm)
    have "same_tree (cs_mapBlockIndex S) (cs_mapBlockIndex S1)"
      by (rule ConnectBlock_tree [OF cb in_index_hd [OF Cons.prems(2)]]) (use Cons.prems(3) in simp)
    moreover have "same_tree (cs_mapBlockIndex S1) (cs_mapBlockIndex S')"
    proof (cases ok)
      case False
      with Cons.prems(1) Some cb show ?thesis by simp
    next
      case True
      with Cons.prems(1) Some cb have "connect_branch V S1 hs (vs @ bk_vtx block) = Some (r, S')" by simp
      from Cons.IH [OF this tree_ok_same [OF calculation Cons.prems(2)]] same_tree_None [OF calculation] Cons.prems(3)
      show ?thesis by simp
    qed
    ultimately show ?thesis by (rule same_tree_trans)
  qed
qed simp

lemma resurrect_txs_index: "resurrect_txs V txs S = Some S' \<Longrightarrow> cs_mapBlockIndex S' = cs_mapBlockIndex S"
proof (induction txs arbitrary: S)
  case (Cons tx txs)
  then obtain mp c where "resurrect_txs V txs (S\<lparr>cs_mempool := mp, cs_sigcache := c\<rparr>) = Some S'"
    by (auto split: prod.split_asm option.split_asm)
  from Cons.IH [OF this] show ?case by simp
qed simp

lemma SetBestChainInner_tree:
  assumes "SetBestChainInner V S block h = Some (ok, S')" "tree_ok (cs_mapBlockIndex S)"
    "map_of (cs_mapBlockIndex S) h \<noteq> None"
  shows "same_tree (cs_mapBlockIndex S) (cs_mapBlockIndex S')"
proof -
  from assms(1) obtain r c S1 where cb: "ConnectBlock V S block (chain_of S h) False = Some ((r, c), S1)"
    by (auto simp: SetBestChainInner_def Let_def split: option.split_asm prod.split_asm)
  have 1: "same_tree (cs_mapBlockIndex S) (cs_mapBlockIndex S1)"
    by (rule ConnectBlock_tree [OF cb in_index_hd [OF assms(2,3)]])
  have "cs_mapBlockIndex S' = cs_mapBlockIndex S1 \<or>
      (\<exists>db. cs_mapBlockIndex S' = cs_mapBlockIndex (set_pnext (Some h) (chain_of S h) (S1\<lparr>cs_txdb := db\<rparr>)))"
    using assms(1) cb
    by (auto simp: SetBestChainInner_def Let_def split: bool.split_asm prod.split_asm if_split_asm)
  then have "same_tree (cs_mapBlockIndex S1) (cs_mapBlockIndex S')"
  proof (elim disjE exE)
    fix db assume "cs_mapBlockIndex S' = cs_mapBlockIndex (set_pnext (Some h) (chain_of S h) (S1\<lparr>cs_txdb := db\<rparr>))"
    then show ?thesis using set_pnext_tree [of "S1\<lparr>cs_txdb := db\<rparr>" "Some h" "chain_of S h"] by simp
  qed simp
  with 1 show ?thesis by (rule same_tree_trans)
qed

lemma Reorganize_tree:
  assumes "Reorganize V S h = Some (ok, S')" "tree_ok (cs_mapBlockIndex S)" "map_of (cs_mapBlockIndex S) h \<noteq> None"
  shows "same_tree (cs_mapBlockIndex S) (cs_mapBlockIndex S')"
proof (cases "find_fork (best_chain S) (chain_of S h)")
  case None
  with assms(1) show ?thesis by (auto simp: Reorganize_def Let_def)
next
  case (Some fork)
  define n where "n = length (take (length (best_chain S) - length fork) (best_chain S))"
  define hs where "hs = map bi_hash (rev (take (length (chain_of S h) - length fork) (chain_of S h)))"
  obtain r db where d: "disconnect_branch (ce_node V) (cs_files S) (cs_txdb S) (best_chain S) n [] = (r, db)" by fastforce
  show ?thesis
  proof (cases r)
    case None
    with assms(1) Some d show ?thesis by (auto simp: Reorganize_def Let_def n_def)
  next
    case vs: (Some vs)
    with assms(1) Some d obtain r2 S2 where c: "connect_branch V (S\<lparr>cs_txdb := db\<rparr>) hs [] = Some (r2, S2)"
      by (auto simp: Reorganize_def Let_def n_def hs_def split: option.split_asm prod.split_asm)
    have "map_of (cs_mapBlockIndex S) (bi_hash c) = Some c" if "c \<in> set (chain_of S h)" for c
    proof -
      obtain b where "map_of (cs_mapBlockIndex S) h = Some b" using assms(3) by blast
      from chain_of_ok [OF assms(2) this] that show ?thesis by metis
    qed
    then have "\<forall>h \<in> set hs. map_of (cs_mapBlockIndex (S\<lparr>cs_txdb := db\<rparr>)) h \<noteq> None"
      by (auto simp: hs_def dest!: in_set_takeD)
    from connect_branch_tree [OF c _ this] assms(2)
    have 1: "same_tree (cs_mapBlockIndex S) (cs_mapBlockIndex S2)" by simp
    note unfolded = assms(1) [unfolded Reorganize_def Let_def Some option.case d [unfolded n_def] vs prod.case c [unfolded hs_def]]
    have "cs_mapBlockIndex S' = cs_mapBlockIndex S2 \<or> (\<exists>xs ys g g' db. cs_mapBlockIndex S' =
        cs_mapBlockIndex (fold (\<lambda>b. set_pnext (g b) [b]) xs (fold (\<lambda>b. set_pnext (g' b) [b]) ys (S2\<lparr>cs_txdb := db\<rparr>))))"
      using unfolded by (fastforce split: option.split_asm prod.split_asm bool.split_asm dest!: resurrect_txs_index)
    then have "same_tree (cs_mapBlockIndex S2) (cs_mapBlockIndex S')"
    proof (elim disjE exE)
      fix xs ys g g' db
      assume "cs_mapBlockIndex S' =
        cs_mapBlockIndex (fold (\<lambda>b. set_pnext (g b) [b]) xs (fold (\<lambda>b. set_pnext (g' b) [b]) ys (S2\<lparr>cs_txdb := db\<rparr>)))"
      then show ?thesis using same_tree_trans [OF fold_pnext_tree [of "S2\<lparr>cs_txdb := db\<rparr>" g' ys] fold_pnext_tree] by simp
    qed simp
    with 1 show ?thesis by (rule same_tree_trans)
  qed
qed

lemma postponed_split: "postponed t p = (sec, rest) \<Longrightarrow> p = sec @ rest \<and> (p \<noteq> [] \<longrightarrow> rest \<noteq> [])"
  by (induction t p arbitrary: sec rest rule: postponed.induct) (auto split: if_splits prod.splits)

lemma connect_secondary_tree:
  assumes "connect_secondary V S hs = Some S'" "tree_ok (cs_mapBlockIndex S)"
    "\<forall>h \<in> set hs. map_of (cs_mapBlockIndex S) h \<noteq> None"
  shows "same_tree (cs_mapBlockIndex S) (cs_mapBlockIndex S')"
  using assms
proof (induction hs arbitrary: S)
  case (Cons h hs)
  show ?case
  proof (cases "ReadFromDisk_index (ce_node V) (cs_files S) (hd (chain_of S h)) True")
    case None
    with Cons.prems(1) show ?thesis by simp
  next
    case (Some block)
    obtain b db where b: "TxnBegin (cs_txdb S) = (b, db)" by fastforce
    show ?thesis
    proof (cases b)
      case False
      with Cons.prems(1) Some b show ?thesis by auto
    next
      case True
      with Cons.prems(1) Some b obtain ok S1 where i: "SetBestChainInner V (S\<lparr>cs_txdb := db\<rparr>) block h = Some (ok, S1)"
        by (auto split: option.split_asm)
      have 1: "same_tree (cs_mapBlockIndex S) (cs_mapBlockIndex S1)"
        using SetBestChainInner_tree [OF i] Cons.prems(2,3) by simp
      show ?thesis
      proof (cases ok)
        case False
        with Cons.prems(1) Some b True i 1 show ?thesis by simp
      next
        case ok: True
        with Cons.prems(1) Some b True i have "connect_secondary V S1 hs = Some S'" by simp
        from Cons.IH [OF this tree_ok_same [OF 1 Cons.prems(2)]] same_tree_None [OF 1] Cons.prems(3)
        have "same_tree (cs_mapBlockIndex S1) (cs_mapBlockIndex S')" by simp
        with 1 show ?thesis by (rule same_tree_trans)
      qed
    qed
  qed
qed simp

end
