(* ===== verification/Trust_Rules.thy ===== *)
theory Trust_Rules
  imports Index_Rules
begin

text \<open>
  The best chain over time: a new entry extends the tree of the block index, the best chain's
  pointer, hash, height and trust agree with its entry, and its trust never falls.
\<close>

subsection \<open>SetBestChain\<close>

lemma postponed_rest:
  assumes "tree_ok (cs_mapBlockIndex S)" "map_of (cs_mapBlockIndex S) h \<noteq> None"
    "postponed t (chain_of S h) = (sec, rest)"
  shows "map_of (cs_mapBlockIndex S) (bi_hash (hd rest)) \<noteq> None"
    "\<forall>h \<in> set (rev (map bi_hash sec)). map_of (cs_mapBlockIndex S) h \<noteq> None"
proof -
  from assms(2) obtain b where "map_of (cs_mapBlockIndex S) h = Some b" by blast
  from chain_of_ok [OF assms(1) this] obtain bs where c: "chain_of S h = b # bs"
    and all: "\<forall>c \<in> set (b # bs). map_of (cs_mapBlockIndex S) (bi_hash c) = Some c" by metis
  from postponed_split [OF assms(3)] c have split: "b # bs = sec @ rest" "rest \<noteq> []" by auto
  then have "hd rest \<in> set (b # bs)" "set sec \<subseteq> set (b # bs)" by (metis Un_iff hd_in_set set_append, auto)
  with all show "map_of (cs_mapBlockIndex S) (bi_hash (hd rest)) \<noteq> None"
    "\<forall>h \<in> set (rev (map bi_hash sec)). map_of (cs_mapBlockIndex S) h \<noteq> None" by auto
qed

lemma SetBestChain_tree:
  assumes "SetBestChain V S block h = Some (ok, S')" "tree_ok (cs_mapBlockIndex S)"
    "map_of (cs_mapBlockIndex S) h \<noteq> None"
  shows "same_tree (cs_mapBlockIndex S) (cs_mapBlockIndex S') \<and>
    (ok \<longrightarrow> (\<exists>S0. S' = new_best (CBlock_GetHash (ce_node V) block) h S0))"
proof -
  obtain b db where b: "TxnBegin (cs_txdb S) = (b, db)" by fastforce
  let ?S = "S\<lparr>cs_txdb := db\<rparr>" and ?hash = "CBlock_GetHash (ce_node V) block"
  show ?thesis
  proof (cases b)
    case False
    with assms(1) b show ?thesis by (auto simp: SetBestChain_def Let_def)
  next
    case True
    consider (genesis) "cs_pindexGenesisBlock S = None \<and> ?hash = genesis_hash (ce_node V)"
      | (extend) "\<not> (cs_pindexGenesisBlock S = None \<and> ?hash = genesis_hash (ce_node V))" "bk_hashPrevBlock block = cs_hashBestChain S"
      | (switch) "\<not> (cs_pindexGenesisBlock S = None \<and> ?hash = genesis_hash (ce_node V))" "bk_hashPrevBlock block \<noteq> cs_hashBestChain S"
      by blast
    then show ?thesis
    proof cases
      case genesis
      with assms(1) b True show ?thesis by (auto simp: SetBestChain_def Let_def split: bool.split_asm prod.split_asm)
    next
      case extend
      with assms(1) b True obtain S2 where "SetBestChainInner V ?S block h = Some (ok, S2)"
        and S': "S' = (if ok then new_best ?hash h S2 else S2)"
        by (auto simp: SetBestChain_def Let_def split: if_split_asm)
      from SetBestChainInner_tree [OF this(1)] assms(2,3) S' show ?thesis by auto
    next
      case switch
      obtain sec rest where p: "postponed (bi_bnChainTrust (hd (best_chain ?S))) (chain_of ?S h) = (sec, rest)" by fastforce
      from assms(1) b True switch p obtain k S2 where r: "Reorganize V ?S (bi_hash (hd rest)) = Some (k, S2)"
        by (auto simp: SetBestChain_def Let_def split: option.split_asm)
      have rest: "map_of (cs_mapBlockIndex ?S) (bi_hash (hd rest)) \<noteq> None"
        "\<forall>h \<in> set (rev (map bi_hash sec)). map_of (cs_mapBlockIndex ?S) h \<noteq> None"
        using postponed_rest [OF _ _ p] assms(2,3) by auto
      have 1: "same_tree (cs_mapBlockIndex S) (cs_mapBlockIndex S2)"
        using Reorganize_tree [OF r _ rest(1)] assms(2) by simp
      show ?thesis
      proof (cases k)
        case False
        with assms(1) b True switch p r 1 show ?thesis by (auto simp: SetBestChain_def Let_def)
      next
        case k: True
        with assms(1) b True switch p r obtain S3 where
          c: "connect_secondary V S2 (rev (map bi_hash sec)) = Some S3" and S': "S' = new_best ?hash h S3"
          by (auto simp: SetBestChain_def Let_def)
        from rest(2) same_tree_None [OF 1] have "\<forall>h \<in> set (rev (map bi_hash sec)). map_of (cs_mapBlockIndex S2) h \<noteq> None"
          by auto
        from same_tree_trans [OF 1 connect_secondary_tree [OF c tree_ok_same [OF 1 assms(2)] this]] S'
        show ?thesis by auto
      qed
    qed
  qed
qed

subsection \<open>The best chain\<close>

text \<open>The pointer, the hash, the height and the trust of the best chain belong together.\<close>

definition best_ok :: "chain_state \<Rightarrow> bool" where
  "best_ok S \<longleftrightarrow>
     (case cs_pindexBest S of None \<Rightarrow> True
      | Some h \<Rightarrow> cs_hashBestChain S = h \<and>
          (\<exists>b. map_of (cs_mapBlockIndex S) h = Some b \<and> cs_nBestHeight S = bi_nHeight b \<and>
               cs_bnBestChainTrust S = bi_bnChainTrust b))"

definition chain_ok :: "chain_state \<Rightarrow> bool" where
  "chain_ok S \<longleftrightarrow> tree_ok (cs_mapBlockIndex S) \<and> best_ok S"

text \<open>The index only grows, and the trust of the best chain only rises.\<close>

definition advances :: "chain_state \<Rightarrow> chain_state \<Rightarrow> bool" where
  "advances S S' \<longleftrightarrow>
     (\<forall>h b. map_of (cs_mapBlockIndex S) h = Some b \<longrightarrow>
        (\<exists>b'. map_of (cs_mapBlockIndex S') h = Some b' \<and> tree_part b' = tree_part b)) \<and>
     cs_bnBestChainTrust S \<le> cs_bnBestChainTrust S'"

lemma advances_refl [simp]: "advances S S"
  by (simp add: advances_def)

lemma advances_trans: "advances S S' \<Longrightarrow> advances S' S'' \<Longrightarrow> advances S S''"
  unfolding advances_def by (metis order_trans)

lemma advances_entry: "advances S S' \<Longrightarrow> index_entry S h \<noteq> None \<Longrightarrow> index_entry S' h \<noteq> None"
  unfolding advances_def index_entry_def by (metis option.distinct(1) option.exhaust)

lemma best_same:
  assumes "same_tree (cs_mapBlockIndex S) (cs_mapBlockIndex S')" "best_of S' = best_of S"
  shows "best_ok S \<Longrightarrow> best_ok S'" "advances S S'"
proof -
  have f: "cs_pindexBest S' = cs_pindexBest S" "cs_hashBestChain S' = cs_hashBestChain S"
    "cs_nBestHeight S' = cs_nBestHeight S" "cs_bnBestChainTrust S' = cs_bnBestChainTrust S"
    using assms(2) by (simp_all add: best_of_def)
  show "advances S S'"
    unfolding advances_def using f(4) same_tree_entry [OF assms(1)] by (metis order_refl)
  assume ok: "best_ok S"
  show "best_ok S'"
  proof (cases "cs_pindexBest S")
    case None
    then show ?thesis by (simp add: best_ok_def f)
  next
    case (Some h)
    with ok obtain b where b: "map_of (cs_mapBlockIndex S) h = Some b" "cs_hashBestChain S = h"
      "cs_nBestHeight S = bi_nHeight b" "cs_bnBestChainTrust S = bi_bnChainTrust b" by (auto simp: best_ok_def)
    from same_tree_entry [OF assms(1) b(1)] obtain b' where
      "map_of (cs_mapBlockIndex S') h = Some b'" "tree_part b = tree_part b'" .
    with b Some tree_part_fields(3,4) [of b b'] show ?thesis by (simp add: best_ok_def f)
  qed
qed

lemma chain_same:
  assumes "same_tree (cs_mapBlockIndex S) (cs_mapBlockIndex S')" "best_of S' = best_of S" "chain_ok S"
  shows "chain_ok S' \<and> advances S S'"
  using best_same [OF assms(1,2)] tree_ok_same [OF assms(1)] assms(3) by (simp add: chain_ok_def)

lemma SetBestChain_chain:
  assumes "SetBestChain V S block h = Some (ok, S')" "chain_ok S" "h = CBlock_GetHash (ce_node V) block"
    and "map_of (cs_mapBlockIndex S) h = Some b" "cs_bnBestChainTrust S < bi_bnChainTrust b"
  shows "chain_ok S' \<and> advances S S'"
proof -
  have tree: "tree_ok (cs_mapBlockIndex S)" using assms(2) by (simp add: chain_ok_def)
  from SetBestChain_tree [OF assms(1) tree] assms(4)
  have same: "same_tree (cs_mapBlockIndex S) (cs_mapBlockIndex S')"
    and new: "ok \<Longrightarrow> \<exists>S0. S' = new_best h h S0" by (auto simp: assms(3))
  show ?thesis
  proof (cases ok)
    case False
    with assms(1) have "SetBestChain V S block h = Some (False, S')" by simp
    then have "best_of S' = best_of S" by (simp add: SetBestChain_failed)
    from chain_same [OF same this assms(2)] show ?thesis .
  next
    case True
    with new obtain S0 where S': "S' = new_best h h S0" by blast
    have tree': "tree_ok (cs_mapBlockIndex S')" by (rule tree_ok_same [OF same tree])
    from same_tree_entry [OF same assms(4)] obtain b' where
      b': "map_of (cs_mapBlockIndex S') h = Some b'" "tree_part b = tree_part b'" .
    then have "map_of (cs_mapBlockIndex S0) h = Some b'" "tree_ok (cs_mapBlockIndex S0)"
      using tree' by (simp_all add: S')
    from chain_of_ok [OF this(2,1)] have "hd (chain_of S0 h) = b'" by (metis list.sel(1))
    then have best: "cs_pindexBest S' = Some h" "cs_hashBestChain S' = h" "cs_nBestHeight S' = bi_nHeight b'"
      "cs_bnBestChainTrust S' = bi_bnChainTrust b'" by (simp_all add: S' new_best_def Let_def)
    from tree_part_fields(4) [OF b'(2)] assms(5) best(4) have "cs_bnBestChainTrust S \<le> cs_bnBestChainTrust S'" by simp
    moreover have "\<exists>b'. map_of (cs_mapBlockIndex S') g = Some b' \<and> tree_part b' = tree_part a"
      if "map_of (cs_mapBlockIndex S) g = Some a" for g a
      using same_tree_entry [OF same that] by metis
    ultimately show ?thesis using tree' b'(1) best by (simp add: chain_ok_def best_ok_def advances_def)
  qed
qed

subsection \<open>A new entry\<close>

text \<open>Entropy and modifier are bits of the flags that do not count for the trust.\<close>

lemma flags_trust:
  fixes f :: uint32
  shows "(f OR BLOCK_STAKE_ENTROPY) AND BLOCK_PROOF_OF_STAKE = f AND BLOCK_PROOF_OF_STAKE"
    "(f OR BLOCK_STAKE_MODIFIER) AND BLOCK_PROOF_OF_STAKE = f AND BLOCK_PROOF_OF_STAKE"
  by (simp_all add: BLOCK_PROOF_OF_STAKE_def BLOCK_STAKE_ENTROPY_def BLOCK_STAKE_MODIFIER_def bit.conj_disj_distrib2)

definition tree_fields :: "CBlockIndex \<Rightarrow> uint256 \<times> uint256 option \<times> int \<times> int \<times> int" where
  "tree_fields b = (bi_hash b, bi_pprev b, bi_nHeight b, bi_bnChainTrust b, GetBlockTrust b)"

lemma tree_fields_simps [simp]:
  "bi_SetStakeEntropyBit b n = (True, b') \<Longrightarrow> tree_fields b' = tree_fields b"
  "tree_fields (bi_SetStakeModifier b m g) = tree_fields b"
  "tree_fields (b\<lparr>bi_hashProofOfStake := p\<rparr>) = tree_fields b"
  "tree_fields (b\<lparr>bi_nStakeModifierChecksum := c\<rparr>) = tree_fields b"
  by (auto simp: tree_fields_def GetBlockTrust_def bi_IsProofOfStake_def bi_SetStakeEntropyBit_def
      bi_SetStakeModifier_def flags_trust Let_def split: if_splits)

lemma GetBlockTrust_trust [simp]:
  "GetBlockTrust (b\<lparr>bi_bnChainTrust := t\<rparr>) = GetBlockTrust b" "GetBlockTrust (b\<lparr>bi_hash := h\<rparr>) = GetBlockTrust b"
  "GetBlockTrust (b\<lparr>bi_pprev := p, bi_nHeight := n\<rparr>) = GetBlockTrust b"
  by (simp_all add: GetBlockTrust_def bi_IsProofOfStake_def Let_def cong: if_cong)

definition linked_entry :: "'k node \<Rightarrow> chain_state \<Rightarrow> CBlock \<Rightarrow> CBlockIndex \<Rightarrow> bool" where
  "linked_entry N S block b \<longleftrightarrow>
     bi_hash b = CBlock_GetHash N block \<and>
     bi_pprev b = (if index_entry S (bk_hashPrevBlock block) = None then None else Some (bk_hashPrevBlock block)) \<and>
     entry_ok (cs_mapBlockIndex S) b"

lemma new_entry_linked:
  assumes "new_entry V S block nFile nBlockPos = Some (Inr b)" "tree_ok (cs_mapBlockIndex S)"
  shows "linked_entry (ce_node V) S block b"
proof -
  let ?hash = "CBlock_GetHash (ce_node V) block" and ?hp = "bk_hashPrevBlock block"
  let ?b = "(CBlockIndex_new nFile nBlockPos block)\<lparr>bi_hash := ?hash\<rparr>"
  have new: "bi_pprev ?b = None" "bi_nHeight ?b = 0" by (simp_all add: CBlockIndex_new_def bi_SetProofOfStake_def Let_def)
  define prev where "prev = (case index_entry S ?hp of None \<Rightarrow> [] | Some _ \<Rightarrow> chain_of S ?hp)"
  define b1 where "b1 = (case prev of [] \<Rightarrow> ?b | bp # _ \<Rightarrow> ?b\<lparr>bi_pprev := Some ?hp, bi_nHeight := bi_nHeight bp + 1\<rparr>)"
  define t where "t = (case prev of [] \<Rightarrow> 0 | bp # _ \<Rightarrow> bi_bnChainTrust bp) + GetBlockTrust b1"
  from assms(1) [unfolded new_entry_def Let_def, folded prev_def, folded b1_def, folded t_def]
  obtain b2 where b2: "bi_SetStakeEntropyBit (b1\<lparr>bi_bnChainTrust := t\<rparr>) (GetStakeEntropyBit (ce_node V) block) = (True, b2)"
    and b: "tree_fields b = tree_fields b2"
    by (auto split: prod.split_asm bool.split_asm option.split_asm if_split_asm)
  from b tree_fields_simps(1) [OF b2] have fields: "tree_fields b = tree_fields (b1\<lparr>bi_bnChainTrust := t\<rparr>)" by simp
  show ?thesis
  proof (cases "index_entry S ?hp")
    case None
    then have "prev = []" by (simp add: prev_def)
    with fields new None show ?thesis
      by (simp add: linked_entry_def entry_ok_def tree_fields_def b1_def t_def del: GetBlockTrust_trust(2))
  next
    case (Some bp)
    then have "map_of (cs_mapBlockIndex S) ?hp = Some bp" by (simp add: index_entry_def)
    moreover from chain_of_ok [OF assms(2) this] obtain bs where "prev = bp # bs" by (auto simp: prev_def Some)
    ultimately show ?thesis using fields Some by (simp add: linked_entry_def entry_ok_def tree_fields_def b1_def t_def)
  qed
qed

lemma tree_ok_add:
  assumes "tree_ok idx" "entry_ok idx b" "map_of idx (bi_hash b) = None"
  shows "tree_ok (map_put (bi_hash b) b idx)"
proof -
  have keep: "entry_ok (map_put (bi_hash b) b idx) c" if "entry_ok idx c" for c
    using that assms(3) by (auto simp: entry_ok_def split: option.splits)
  show ?thesis using assms(1,2) by (auto simp: tree_ok_def keep)
qed

lemma new_entry_chain:
  assumes "linked_entry N S block b" "index_entry S (CBlock_GetHash N block) = None" "chain_ok S"
  shows "chain_ok (set_index b S) \<and> advances S (set_index b S)"
proof -
  from assms(1,2) have b: "entry_ok (cs_mapBlockIndex S) b" "map_of (cs_mapBlockIndex S) (bi_hash b) = None"
    by (auto simp: linked_entry_def index_entry_def)
  have "best_ok (set_index b S)" using assms(3) b(2)
    by (auto simp: chain_ok_def best_ok_def set_index_def split: option.splits)
  moreover have "tree_ok (cs_mapBlockIndex (set_index b S))"
    using tree_ok_add [OF _ b] assms(3) by (simp add: chain_ok_def set_index_def)
  moreover have "advances S (set_index b S)" using b(2) by (auto simp: advances_def set_index_def)
  ultimately show ?thesis by (simp add: chain_ok_def)
qed

lemma chain_upd:
  "chain_ok (S\<lparr>cs_setStakeSeen := x\<rparr>) = chain_ok S" "advances T (S\<lparr>cs_setStakeSeen := x\<rparr>) = advances T S"
  "chain_ok (S\<lparr>cs_txdb := db\<rparr>) = chain_ok S" "advances T (S\<lparr>cs_txdb := db\<rparr>) = advances T S"
  "chain_ok (S\<lparr>cs_files := d\<rparr>) = chain_ok S" "advances T (S\<lparr>cs_files := d\<rparr>) = advances T S"
  "chain_ok (S\<lparr>cs_sigcache := c\<rparr>) = chain_ok S" "advances T (S\<lparr>cs_sigcache := c\<rparr>) = advances T S"
  "chain_ok (S\<lparr>cs_mapProofOfStake := m\<rparr>) = chain_ok S" "advances T (S\<lparr>cs_mapProofOfStake := m\<rparr>) = advances T S"
  "advances (S\<lparr>cs_files := d\<rparr>) T = advances S T"
  by (simp_all add: chain_ok_def best_ok_def advances_def split: option.split)

lemma AddToBlockIndex_chain:
  assumes "AddToBlockIndex V S block nFile nBlockPos = Some (ok, S')" "chain_ok S"
  shows "chain_ok S' \<and> advances S S' \<and> (ok \<longrightarrow> index_entry S' (CBlock_GetHash (ce_node V) block) \<noteq> None)"
proof (cases "index_entry S (CBlock_GetHash (ce_node V) block) \<noteq> None")
  case True
  with assms show ?thesis by (auto simp: AddToBlockIndex_def Let_def)
next
  case False
  show ?thesis
  proof (cases "new_entry V S block nFile nBlockPos")
    case None
    with assms(1) False show ?thesis by (simp add: AddToBlockIndex_def Let_def)
  next
    case (Some r)
    show ?thesis
    proof (cases r)
      case (Inl u)
      with assms Some False show ?thesis by (simp add: AddToBlockIndex_def Let_def)
    next
      case (Inr b)
      let ?hash = "CBlock_GetHash (ce_node V) block"
      have tree: "tree_ok (cs_mapBlockIndex S)" using assms(2) by (simp add: chain_ok_def)
      have link: "linked_entry (ce_node V) S block b"
        by (rule new_entry_linked [OF _ tree]) (use Some Inr in simp)
      from new_entry_chain [OF link _ assms(2)] False
      have T: "chain_ok (set_index b S)" "advances S (set_index b S)" by auto
      have hash: "bi_hash b = ?hash" using link by (simp add: linked_entry_def)
      define S2 where "S2 = (if bi_IsProofOfStake b
         then (set_index b S)\<lparr>cs_setStakeSeen := List.insert (bi_prevoutStake b, bi_nStakeTime b) (cs_setStakeSeen (set_index b S))\<rparr>
         else set_index b S)"
      have S2: "chain_ok S2" "advances S S2" "map_of (cs_mapBlockIndex S2) ?hash = Some b"
        using T by (simp_all add: S2_def chain_upd) (simp_all add: set_index_def hash)
      note unfolded = assms(1) [unfolded AddToBlockIndex_def Let_def Some Inr option.case sum.case, folded S2_def]
      then consider (same) db where "S' = S2\<lparr>cs_txdb := db\<rparr>"
        | (best) db where "SetBestChain V (S2\<lparr>cs_txdb := db\<rparr>) block ?hash = Some (ok, S')" "cs_bnBestChainTrust S2 < bi_bnChainTrust b"
        using False by (auto split: prod.split_asm bool.split_asm if_split_asm)
      then have "chain_ok S' \<and> advances S2 S'"
      proof cases
        case same
        with S2(1) show ?thesis by (simp add: chain_upd)
      next
        case best
        from SetBestChain_chain [OF best(1) _ refl, of b] S2(1,3) best(2) show ?thesis
          by (simp add: chain_upd) (simp add: advances_def)
      qed
      moreover have "index_entry S2 ?hash \<noteq> None" using S2(3) by (simp add: index_entry_def)
      ultimately show ?thesis using advances_trans [OF S2(2)] advances_entry by blast
    qed
  qed
qed

lemma AcceptBlock_chain:
  assumes "AcceptBlock V S block = Some ((ok, score), S')" "chain_ok S"
  shows "chain_ok S'" "advances S S'"
    "ok \<Longrightarrow> index_entry S' (CBlock_GetHash (ce_node V) block) \<noteq> None"
proof -
  consider (same) "S' = S" "\<not> ok"
    | (add) nFile nBlockPos d where "AddToBlockIndex V (S\<lparr>cs_files := d\<rparr>) block nFile nBlockPos = Some (ok, S')"
    using assms(1)
    by (auto simp: AcceptBlock_def DoS_def Let_def split: if_split_asm option.split_asm prod.split_asm bool.split_asm)
  then have "chain_ok S' \<and> advances S S' \<and> (ok \<longrightarrow> index_entry S' (CBlock_GetHash (ce_node V) block) \<noteq> None)"
  proof cases
    case same
    with assms(2) show ?thesis by simp
  next
    case add
    from AddToBlockIndex_chain [OF add] assms(2) show ?thesis by (simp add: chain_upd)
  qed
  then show "chain_ok S'" "advances S S'" "ok \<Longrightarrow> index_entry S' (CBlock_GetHash (ce_node V) block) \<noteq> None" by auto
qed

end
