(* ===== verification/Process_Rules.thy ===== *)
theory Process_Rules
  imports Trust_Rules Process_Block
begin

text \<open>
  What the handler of a block keeps: the invariants of the chain, the agreement of the two
  tables of orphans, and the progress of the best chain; and how the walk back through the
  orphans ends.
\<close>

subsection \<open>The orphans\<close>

definition block_orphans_ok :: "'k node \<Rightarrow> block_state \<Rightarrow> bool" where
  "block_orphans_ok N B \<longleftrightarrow>
     (\<forall>h b. map_of (bs_mapOrphanBlocks B) h = Some b \<longrightarrow>
        CBlock_GetHash N b = h \<and> b \<in> set (orphans_of B (bk_hashPrevBlock b))) \<and>
     (\<forall>p b. b \<in> set (orphans_of B p) \<longrightarrow>
        bk_hashPrevBlock b = p \<and> map_of (bs_mapOrphanBlocks B) (CBlock_GetHash N b) = Some b)"

text \<open>While the orphans of a parent are released, those still to come are the only ones of it that are held.\<close>

definition releasing :: "'k node \<Rightarrow> uint256 \<Rightarrow> CBlock list \<Rightarrow> block_state \<Rightarrow> bool" where
  "releasing N p blocks B \<longleftrightarrow>
     (\<forall>h b. map_of (bs_mapOrphanBlocks B) h = Some b \<longrightarrow> CBlock_GetHash N b = h \<and>
        (bk_hashPrevBlock b = p \<longrightarrow> b \<in> set blocks) \<and>
        (bk_hashPrevBlock b \<noteq> p \<longrightarrow> b \<in> set (orphans_of B (bk_hashPrevBlock b)))) \<and>
     (\<forall>q b. q \<noteq> p \<longrightarrow> b \<in> set (orphans_of B q) \<longrightarrow>
        bk_hashPrevBlock b = q \<and> map_of (bs_mapOrphanBlocks B) (CBlock_GetHash N b) = Some b) \<and>
     (\<forall>b \<in> set blocks. bk_hashPrevBlock b = p \<and>
        map_of (bs_mapOrphanBlocks B) (CBlock_GetHash N b) \<in> {None, Some b})"

lemma orphans_of_simps [simp]:
  "orphans_of (B\<lparr>bs_chain := S\<rparr>) = orphans_of B" "orphans_of (B\<lparr>bs_mapOrphanBlocks := m\<rparr>) = orphans_of B"
  "orphans_of (B\<lparr>bs_setStakeSeenOrphan := x\<rparr>) = orphans_of B"
  "orphans_of (B\<lparr>bs_mapOrphanBlocksByPrev := map_erase p (bs_mapOrphanBlocksByPrev B)\<rparr>) = (orphans_of B)(p := [])"
  by (auto simp: orphans_of_def fun_eq_iff)

text \<open>The conditions one by one.\<close>

lemma block_orphans_okI:
  assumes "\<And>h b. map_of (bs_mapOrphanBlocks B) h = Some b \<Longrightarrow> CBlock_GetHash N b = h"
    and "\<And>h b. map_of (bs_mapOrphanBlocks B) h = Some b \<Longrightarrow> b \<in> set (orphans_of B (bk_hashPrevBlock b))"
    and "\<And>q b. b \<in> set (orphans_of B q) \<Longrightarrow> bk_hashPrevBlock b = q"
    and "\<And>q b. b \<in> set (orphans_of B q) \<Longrightarrow> map_of (bs_mapOrphanBlocks B) (CBlock_GetHash N b) = Some b"
  shows "block_orphans_ok N B"
  unfolding block_orphans_ok_def by (intro conjI allI impI; erule assms)

lemma block_orphans_okD:
  assumes "block_orphans_ok N B"
  shows "map_of (bs_mapOrphanBlocks B) h = Some b \<Longrightarrow> CBlock_GetHash N b = h"
    "map_of (bs_mapOrphanBlocks B) h = Some b \<Longrightarrow> b \<in> set (orphans_of B (bk_hashPrevBlock b))"
    "b \<in> set (orphans_of B q) \<Longrightarrow> bk_hashPrevBlock b = q"
    "b \<in> set (orphans_of B q) \<Longrightarrow> map_of (bs_mapOrphanBlocks B) (CBlock_GetHash N b) = Some b"
  using assms unfolding block_orphans_ok_def by blast+

lemma releasingI:
  assumes "\<And>h b. map_of (bs_mapOrphanBlocks B) h = Some b \<Longrightarrow> CBlock_GetHash N b = h"
    and "\<And>h b. map_of (bs_mapOrphanBlocks B) h = Some b \<Longrightarrow> bk_hashPrevBlock b = p \<Longrightarrow> b \<in> set blocks"
    and "\<And>h b. map_of (bs_mapOrphanBlocks B) h = Some b \<Longrightarrow> bk_hashPrevBlock b \<noteq> p \<Longrightarrow> b \<in> set (orphans_of B (bk_hashPrevBlock b))"
    and "\<And>q b. q \<noteq> p \<Longrightarrow> b \<in> set (orphans_of B q) \<Longrightarrow> bk_hashPrevBlock b = q"
    and "\<And>q b. q \<noteq> p \<Longrightarrow> b \<in> set (orphans_of B q) \<Longrightarrow> map_of (bs_mapOrphanBlocks B) (CBlock_GetHash N b) = Some b"
    and "\<And>b. b \<in> set blocks \<Longrightarrow> bk_hashPrevBlock b = p"
    and "\<And>b. b \<in> set blocks \<Longrightarrow> map_of (bs_mapOrphanBlocks B) (CBlock_GetHash N b) \<in> {None, Some b}"
  shows "releasing N p blocks B"
  unfolding releasing_def by (intro conjI allI impI ballI; (rule assms; assumption))

lemma releasingD:
  assumes "releasing N p blocks B"
  shows "map_of (bs_mapOrphanBlocks B) h = Some b \<Longrightarrow> CBlock_GetHash N b = h"
    "map_of (bs_mapOrphanBlocks B) h = Some b \<Longrightarrow> bk_hashPrevBlock b = p \<Longrightarrow> b \<in> set blocks"
    "map_of (bs_mapOrphanBlocks B) h = Some b \<Longrightarrow> bk_hashPrevBlock b \<noteq> p \<Longrightarrow> b \<in> set (orphans_of B (bk_hashPrevBlock b))"
    "q \<noteq> p \<Longrightarrow> b \<in> set (orphans_of B q) \<Longrightarrow> bk_hashPrevBlock b = q"
    "q \<noteq> p \<Longrightarrow> b \<in> set (orphans_of B q) \<Longrightarrow> map_of (bs_mapOrphanBlocks B) (CBlock_GetHash N b) = Some b"
    "c \<in> set blocks \<Longrightarrow> bk_hashPrevBlock c = p"
    "c \<in> set blocks \<Longrightarrow> map_of (bs_mapOrphanBlocks B) (CBlock_GetHash N c) \<in> {None, Some c}"
  using assms unfolding releasing_def by blast+

lemma releasing_start:
  assumes "block_orphans_ok N B" shows "releasing N p (orphans_of B p) B"
proof (rule releasingI)
  show "b \<in> set (orphans_of B p)" if "map_of (bs_mapOrphanBlocks B) h = Some b" "bk_hashPrevBlock b = p" for h b
    using block_orphans_okD(2) [OF assms that(1)] that(2) by simp
qed (insert block_orphans_okD [OF assms], blast+)

lemma releasing_end:
  assumes "releasing N p [] B"
  shows "block_orphans_ok N (B\<lparr>bs_mapOrphanBlocksByPrev := map_erase p (bs_mapOrphanBlocksByPrev B)\<rparr>)" (is "block_orphans_ok N ?B")
proof (rule block_orphans_okI)
  fix h b assume "map_of (bs_mapOrphanBlocks ?B) h = Some b"
  then have b: "map_of (bs_mapOrphanBlocks B) h = Some b" by simp
  from releasingD(2) [OF assms b] have "bk_hashPrevBlock b \<noteq> p" by auto
  with releasingD(3) [OF assms b] show "b \<in> set (orphans_of ?B (bk_hashPrevBlock b))" by simp
  show "CBlock_GetHash N b = h" by (rule releasingD(1) [OF assms b])
next
  fix q b assume "b \<in> set (orphans_of ?B q)"
  then have b: "q \<noteq> p" "b \<in> set (orphans_of B q)" by (auto split: if_split_asm)
  show "bk_hashPrevBlock b = q" by (rule releasingD(4) [OF assms b])
  show "map_of (bs_mapOrphanBlocks ?B) (CBlock_GetHash N b) = Some b"
    using releasingD(5) [OF assms b] by simp
qed

lemma releasing_step:
  assumes "releasing N p (b # blocks) B"
  shows "releasing N p blocks (B\<lparr>bs_chain := S, bs_mapOrphanBlocks := map_erase (CBlock_GetHash N b) (bs_mapOrphanBlocks B),
           bs_setStakeSeenOrphan := x\<rparr>)" (is "releasing N p blocks ?B")
proof (rule releasingI)
  note rel = releasingD [OF assms]
  fix h c assume "map_of (bs_mapOrphanBlocks ?B) h = Some c"
  then have c: "map_of (bs_mapOrphanBlocks B) h = Some c" "h \<noteq> CBlock_GetHash N b" by (auto split: if_split_asm)
  show hash: "CBlock_GetHash N c = h" by (rule rel(1) [OF c(1)])
  show "c \<in> set blocks" if "bk_hashPrevBlock c = p" using rel(2) [OF c(1) that] c(2) hash by auto
  show "c \<in> set (orphans_of ?B (bk_hashPrevBlock c))" if "bk_hashPrevBlock c \<noteq> p" using rel(3) [OF c(1) that] by simp
next
  note rel = releasingD [OF assms]
  fix q c assume q: "q \<noteq> p" and "c \<in> set (orphans_of ?B q)"
  then have c: "c \<in> set (orphans_of B q)" by simp
  show prev: "bk_hashPrevBlock c = q" by (rule rel(4) [OF q c])
  have "CBlock_GetHash N c \<noteq> CBlock_GetHash N b"
  proof
    assume "CBlock_GetHash N c = CBlock_GetHash N b"
    with rel(5) [OF q c] rel(7) [of b] have "c = b" by simp
    with prev rel(6) [of b] q show False by simp
  qed
  with rel(5) [OF q c] show "map_of (bs_mapOrphanBlocks ?B) (CBlock_GetHash N c) = Some c" by simp
next
  fix c assume "c \<in> set blocks"
  with releasingD(6,7) [OF assms, of c]
  show "bk_hashPrevBlock c = p" "map_of (bs_mapOrphanBlocks ?B) (CBlock_GetHash N c) \<in> {None, Some c}" by auto
qed

lemma release_orphans_keeps:
  assumes "release_orphans V blocks vWork B = Some (vWork', B')"
    and "releasing (ce_node V) p blocks B" "chain_ok (bs_chain B)"
  shows "releasing (ce_node V) p [] B' \<and> chain_ok (bs_chain B') \<and> advances (bs_chain B) (bs_chain B') \<and>
    bs_mapOrphanBlocksByPrev B' = bs_mapOrphanBlocksByPrev B"
  using assms
proof (induction blocks arbitrary: vWork B)
  case (Cons b blocks)
  from Cons.prems(1) obtain ok score S vWork2 where a: "AcceptBlock V (bs_chain B) b = Some ((ok, score), S)"
    and r: "release_orphans V blocks vWork2 (B\<lparr>bs_chain := S,
              bs_mapOrphanBlocks := map_erase (CBlock_GetHash (ce_node V) b) (bs_mapOrphanBlocks B),
              bs_setStakeSeenOrphan := removeAll (GetProofOfStake b) (bs_setStakeSeenOrphan B)\<rparr>) = Some (vWork', B')"
    by (auto simp: Let_def split: option.split_asm)
  from AcceptBlock_chain [OF a Cons.prems(3)] have S: "chain_ok S" "advances (bs_chain B) S" by auto
  from Cons.IH [OF r releasing_step [OF Cons.prems(2)]] S advances_trans [OF S(2)]
  show ?case by auto
qed simp

lemma release_orphans_grows: "release_orphans V blocks vWork B = Some (vWork', B') \<Longrightarrow> set vWork \<subseteq> set vWork'"
proof (induction blocks arbitrary: vWork B)
  case (Cons b blocks)
  from Cons.prems show ?case
    by (auto simp: Let_def split: option.split_asm if_split_asm dest!: Cons.IH)
qed simp

definition process_ok :: "'k node \<Rightarrow> block_state \<Rightarrow> bool" where
  "process_ok N B \<longleftrightarrow> chain_ok (bs_chain B) \<and> block_orphans_ok N B"

lemma orphan_queue_keeps:
  assumes "orphan_queue V vWork B = Some B'" "process_ok (ce_node V) B"
  shows "process_ok (ce_node V) B' \<and> advances (bs_chain B) (bs_chain B') \<and>
    (\<forall>h. (h \<in> set vWork \<or> orphans_of B h = []) \<longrightarrow> orphans_of B' h = [])"
  using assms
proof (induction V vWork B rule: orphan_queue.induct)
  case (2 V h vWork B)
  from 2(2) obtain vWork2 B2 where r: "release_orphans V (orphans_of B h) vWork B = Some (vWork2, B2)"
    and q: "orphan_queue V vWork2 (B2\<lparr>bs_mapOrphanBlocksByPrev := map_erase h (bs_mapOrphanBlocksByPrev B2)\<rparr>) = Some B'"
    by (auto split: option.split_asm)
  from 2(3) have ok: "block_orphans_ok (ce_node V) B" "chain_ok (bs_chain B)" by (simp_all add: process_ok_def)
  from release_orphans_keeps [OF r releasing_start [OF ok(1)] ok(2)]
  have B2: "releasing (ce_node V) h [] B2" "chain_ok (bs_chain B2)" "advances (bs_chain B) (bs_chain B2)"
    "orphans_of B2 = orphans_of B" by (auto simp: orphans_of_def fun_eq_iff)
  from release_orphans_grows [OF r] have sub: "set vWork \<subseteq> set vWork2" .
  have "process_ok (ce_node V) (B2\<lparr>bs_mapOrphanBlocksByPrev := map_erase h (bs_mapOrphanBlocksByPrev B2)\<rparr>)"
    using releasing_end [OF B2(1)] B2(2) by (simp add: process_ok_def)
  from 2(1) [OF r refl q this] advances_trans [OF B2(3)] sub show ?case by (auto simp: B2(4))
qed simp

subsection \<open>The handler\<close>

lemma GetHash_SetHash [simp]:
  "CBlock_GetHash N (CBlock_SetHash b (CBlock_GetHash N b)) = CBlock_GetHash N b"
  by (simp add: CBlock_GetHash_def CBlock_SetHash_def ser_header_def)

lemma add_orphan_block_ok:
  assumes "block_orphans_ok N B" "map_of (bs_mapOrphanBlocks B) (CBlock_GetHash N b) = None"
  shows "block_orphans_ok N (add_orphan_block N b B)" (is "block_orphans_ok N ?B")
proof -
  note ok = block_orphans_okD [OF assms(1)]
  have held: "map_of (bs_mapOrphanBlocks ?B) = (map_of (bs_mapOrphanBlocks B))(CBlock_GetHash N b \<mapsto> b)"
    using assms(2) by (simp add: add_orphan_block_def map_of_insert)
  have wait: "orphans_of ?B q = (if q = bk_hashPrevBlock b then orphans_of B q @ [b] else orphans_of B q)" for q
    by (simp add: add_orphan_block_def orphans_of_def)
  show ?thesis
  proof (rule block_orphans_okI)
    fix h c assume "map_of (bs_mapOrphanBlocks ?B) h = Some c"
    then have "(if h = CBlock_GetHash N b then c = b else map_of (bs_mapOrphanBlocks B) h = Some c)"
      unfolding held by (simp split: if_split_asm)
    then consider "h = CBlock_GetHash N b" "c = b" | (old) "map_of (bs_mapOrphanBlocks B) h = Some c" by metis
    then have "CBlock_GetHash N c = h \<and> c \<in> set (orphans_of ?B (bk_hashPrevBlock c))"
    proof cases
      case old
      have "c \<in> set (orphans_of ?B (bk_hashPrevBlock c))" if "c \<in> set (orphans_of B (bk_hashPrevBlock c))"
        using that by (auto simp: wait)
      with ok(1,2) [OF old] show ?thesis by blast
    qed (simp add: wait)
    then show "CBlock_GetHash N c = h" "c \<in> set (orphans_of ?B (bk_hashPrevBlock c))" by auto
  next
    fix q c assume "c \<in> set (orphans_of ?B q)"
    then consider (new) "q = bk_hashPrevBlock b" "c = b" | (old) "c \<in> set (orphans_of B q)"
      by (auto simp: wait split: if_split_asm)
    then have "bk_hashPrevBlock c = q \<and> map_of (bs_mapOrphanBlocks ?B) (CBlock_GetHash N c) = Some c"
    proof cases
      case old
      from ok(4) [OF old] assms(2) have "CBlock_GetHash N c \<noteq> CBlock_GetHash N b" by auto
      with ok(3,4) [OF old] show ?thesis by (simp add: held)
    qed (simp add: held)
    then show "bk_hashPrevBlock c = q" "map_of (bs_mapOrphanBlocks ?B) (CBlock_GetHash N c) = Some c" by auto
  qed
qed

text \<open>What is not part of the tables of orphans, and what of the chain does not matter.\<close>

lemma process_ok_simps [simp]:
  "block_orphans_ok N (B\<lparr>bs_chain := S\<rparr>) = block_orphans_ok N B"
  "block_orphans_ok N (B\<lparr>bs_setStakeSeenOrphan := x\<rparr>) = block_orphans_ok N B"
proof -
  have "bs_mapOrphanBlocks (B\<lparr>bs_chain := S\<rparr>) = bs_mapOrphanBlocks B"
    "bs_mapOrphanBlocks (B\<lparr>bs_setStakeSeenOrphan := x\<rparr>) = bs_mapOrphanBlocks B" by simp_all
  then show "block_orphans_ok N (B\<lparr>bs_chain := S\<rparr>) = block_orphans_ok N B"
    "block_orphans_ok N (B\<lparr>bs_setStakeSeenOrphan := x\<rparr>) = block_orphans_ok N B"
    by (simp_all only: block_orphans_ok_def orphans_of_simps)
qed

lemma add_orphan_block_simps [simp]:
  "bs_chain (add_orphan_block N b B) = bs_chain B"
  "\<exists>c. map_of (bs_mapOrphanBlocks (add_orphan_block N b B)) (CBlock_GetHash N b) = Some c"
  by (auto simp: add_orphan_block_def map_of_insert)

text \<open>What a block that passed the checks leads to; only the cache and the noted proofs are new.\<close>

definition only_noted :: "chain_state \<Rightarrow> chain_state \<Rightarrow> bool" where
  "only_noted S S' \<longleftrightarrow> (\<exists>x c m. S' = S\<lparr>cs_setStakeSeen := x, cs_sigcache := c, cs_mapProofOfStake := m\<rparr>)"

lemma only_noted_simps [simp]:
  "only_noted S S" "only_noted S (S\<lparr>cs_setStakeSeen := x\<rparr>)" "only_noted S (S\<lparr>cs_sigcache := c\<rparr>)"
  "only_noted S (S\<lparr>cs_sigcache := c, cs_mapProofOfStake := m\<rparr>)"
proof -
  show "only_noted S S" unfolding only_noted_def
    by (rule exI [of _ "cs_setStakeSeen S"], rule exI [of _ "cs_sigcache S"], rule exI [of _ "cs_mapProofOfStake S"]) simp
  show "only_noted S (S\<lparr>cs_setStakeSeen := x\<rparr>)" unfolding only_noted_def
    by (rule exI [of _ x], rule exI [of _ "cs_sigcache S"], rule exI [of _ "cs_mapProofOfStake S"]) simp
  show "only_noted S (S\<lparr>cs_sigcache := c\<rparr>)" unfolding only_noted_def
    by (rule exI [of _ "cs_setStakeSeen S"], rule exI [of _ c], rule exI [of _ "cs_mapProofOfStake S"]) simp
  show "only_noted S (S\<lparr>cs_sigcache := c, cs_mapProofOfStake := m\<rparr>)" unfolding only_noted_def
    by (rule exI [of _ "cs_setStakeSeen S"], rule exI [of _ c], rule exI [of _ m]) simp
qed

lemma only_noted_chain:
  assumes "only_noted S S'" "chain_ok S"
  shows "chain_ok S' \<and> advances S S' \<and> index_entry S' = index_entry S"
  using assms by (auto simp: only_noted_def chain_ok_def best_ok_def advances_def index_entry_def fun_eq_iff split: option.splits)

text \<open>The outcome for a block whose hash is \<open>hash\<close>.\<close>

definition outcome_ok :: "uint256 \<Rightarrow> block_state \<Rightarrow> process_result \<Rightarrow> block_state \<Rightarrow> bool" where
  "outcome_ok hash B r B' \<longleftrightarrow>
     (case r of
        Accepted \<Rightarrow> index_entry (bs_chain B') hash \<noteq> None \<and> orphans_of B' hash = []
      | Orphaned _ _ \<Rightarrow> index_entry (bs_chain B') hash = None \<and> map_of (bs_mapOrphanBlocks B') hash \<noteq> None
      | _ \<Rightarrow> bs_mapOrphanBlocks B' = bs_mapOrphanBlocks B)"

definition process_step_ok :: "'k node \<Rightarrow> uint256 \<Rightarrow> block_state \<Rightarrow> process_result \<Rightarrow> block_state \<Rightarrow> bool" where
  "process_step_ok N hash B r B' \<longleftrightarrow>
     process_ok N B' \<and> advances (bs_chain B) (bs_chain B') \<and> outcome_ok hash B r B'"

lemma refused_ok:
  assumes "process_ok N B" "only_noted (bs_chain B) S" "r = Refused \<or> r = Reorg"
  shows "process_step_ok N hash B r (B\<lparr>bs_chain := S\<rparr>)"
  using assms only_noted_chain [OF assms(2)] by (auto simp: process_step_ok_def process_ok_def outcome_ok_def)

lemma accept_ok:
  assumes "AcceptBlock V S block = Some ((ok, score), S')" "process_ok (ce_node V) B" "only_noted (bs_chain B) S"
  shows "process_ok (ce_node V) (B\<lparr>bs_chain := S'\<rparr>) \<and> advances (bs_chain B) S' \<and>
    (ok \<longrightarrow> index_entry S' (CBlock_GetHash (ce_node V) block) \<noteq> None)"
proof -
  from assms(2) only_noted_chain [OF assms(3)] have S: "chain_ok S" "advances (bs_chain B) S" by (auto simp: process_ok_def)
  from AcceptBlock_chain [OF assms(1) S(1)] advances_trans [OF S(2)] assms(2) show ?thesis by (simp add: process_ok_def)
qed

lemma process_checked_keeps:
  assumes "process_checked V B block hashProof c = Some (r, B')" "process_ok (ce_node V) B"
    and new: "index_entry (bs_chain B) (CBlock_GetHash (ce_node V) block) = None"
      "map_of (bs_mapOrphanBlocks B) (CBlock_GetHash (ce_node V) block) = None"
  shows "process_step_ok (ce_node V) (CBlock_GetHash (ce_node V) block) B r B'"
proof -
  define m where "m = (if IsProofOfStake block then map_insert (CBlock_GetHash (ce_node V) block) hashProof (cs_mapProofOfStake (bs_chain B))
    else cs_mapProofOfStake (bs_chain B))"
  define S where "S = (bs_chain B)\<lparr>cs_sigcache := c, cs_mapProofOfStake := m\<rparr>"
  have noted: "only_noted (bs_chain B) S" by (simp add: S_def)
  note u = assms(1) [unfolded process_checked_def Let_def, folded m_def, folded S_def]
  let ?hash = "CBlock_GetHash (ce_node V) block"
  show ?thesis
  proof (cases "index_entry S (bk_hashPrevBlock block)")
    case None
    show ?thesis
    proof (cases "r = Refused")
      case True
      with u None have "B' = B\<lparr>bs_chain := S\<rparr>" by (auto split: if_split_asm)
      with refused_ok [OF assms(2) noted] True show ?thesis by simp
    next
      case False
      with u None obtain x root want where r: "r = Orphaned root want"
        and B': "B' = add_orphan_block (ce_node V) block (B\<lparr>bs_chain := S, bs_setStakeSeenOrphan := x\<rparr>) \<or>
                 B' = add_orphan_block (ce_node V) block (B\<lparr>bs_chain := S\<rparr>)"
        by (auto split: if_split_asm)
      from assms(2) have ok: "block_orphans_ok (ce_node V) B" "chain_ok (bs_chain B)" by (simp_all add: process_ok_def)
      have "block_orphans_ok (ce_node V) B' \<and> bs_chain B' = S \<and> map_of (bs_mapOrphanBlocks B') ?hash \<noteq> None"
        using B' add_orphan_block_ok [of "ce_node V" "B\<lparr>bs_chain := S, bs_setStakeSeenOrphan := x\<rparr>" block]
          add_orphan_block_ok [of "ce_node V" "B\<lparr>bs_chain := S\<rparr>" block] ok(1) new(2) by auto
      with only_noted_chain [OF noted ok(2)] new(1) show ?thesis
        by (simp add: process_step_ok_def process_ok_def outcome_ok_def r)
    qed
  next
    case (Some bp)
    with u obtain ok score S' where a: "AcceptBlock V S block = Some ((ok, score), S')"
      by (auto split: option.split_asm)
    note acc = accept_ok [OF a assms(2) noted]
    show ?thesis
    proof (cases ok)
      case False
      with u Some a have "r = Refused" "B' = B\<lparr>bs_chain := S'\<rparr>" by auto
      with acc show ?thesis by (simp add: process_step_ok_def outcome_ok_def)
    next
      case True
      with u Some a have r: "r = Accepted" and q: "orphan_queue V [?hash] (B\<lparr>bs_chain := S'\<rparr>) = Some B'" by auto
      from orphan_queue_keeps [OF q] acc have q': "process_ok (ce_node V) B'" "advances S' (bs_chain B')" "orphans_of B' ?hash = []"
        by auto
      moreover have "advances (bs_chain B) (bs_chain B')" using advances_trans q'(2) acc by blast
      moreover have "index_entry (bs_chain B') ?hash \<noteq> None" using advances_entry [OF q'(2)] acc True by blast
      ultimately show ?thesis using r by (simp add: process_step_ok_def outcome_ok_def)
    qed
  qed
qed

lemma ProcessBlock_step:
  assumes "ProcessBlock V B block = Some (r, B')" "process_ok (ce_node V) B"
  shows "process_step_ok (ce_node V) (CBlock_GetHash (ce_node V) block) B r B'"
proof -
  define hash where "hash = CBlock_GetHash (ce_node V) block"
  define blk where "blk = CBlock_SetHash block hash"
  let ?S = "bs_chain B"
  note u = assms(1) [unfolded ProcessBlock_def Let_def, folded hash_def, folded blk_def]
  have hash_blk: "CBlock_GetHash (ce_node V) blk = hash" by (simp add: blk_def hash_def)
  have plain: "process_step_ok (ce_node V) hash B Refused B"
    using refused_ok [OF assms(2), of ?S Refused hash] by simp
  show ?thesis
    unfolding hash_def [symmetric]
  proof (cases "index_entry ?S hash \<noteq> None \<or> map_of (bs_mapOrphanBlocks B) hash \<noteq> None")
    case True
    with u plain show "process_step_ok (ce_node V) hash B r B'" by simp
  next
    case new: False
    show "process_step_ok (ce_node V) hash B r B'"
    proof (cases "IsProofOfStake blk \<and> GetProofOfStake blk \<in> set (cs_setStakeSeen ?S) \<and> orphans_of B hash = []")
      case True
      with u new plain refused_ok [OF assms(2), of "?S\<lparr>cs_setStakeSeen := removeAll (GetProofOfStake blk) (cs_setStakeSeen ?S)\<rparr>" Reorg hash]
      show ?thesis by (auto split: if_split_asm)
    next
      case unseen: False
      note v = u [unfolded if_not_P [OF new] if_not_P [OF unseen]]
      show ?thesis
      proof (cases "fst (CheckBlock (ce_node V) (ce_nAdjustedTime V) True True True blk)")
        case False
        with v plain show ?thesis by simp
      next
        case True
        from v True consider
            (refused) c where "r = Refused" "B' = B\<lparr>bs_chain := ?S\<lparr>cs_sigcache := c\<rparr>\<rparr>"
          | (checked) hp c where "process_checked V B blk hp c = Some (r, B')"
          by (auto split: option.split_asm prod.split_asm bool.split_asm)
        then show ?thesis
        proof cases
          case refused
          with refused_ok [OF assms(2), of "?S\<lparr>cs_sigcache := c\<rparr>" Refused hash] show ?thesis by simp
        next
          case checked
          from process_checked_keeps [OF checked assms(2)] new show ?thesis by (simp add: hash_blk)
        qed
      qed
    qed
  qed
qed

subsection \<open>Reachable states\<close>

text \<open>
  From an empty index and no orphans, a node reaches a state by entering a block in the
  index, as it does with the genesis block, and by handling blocks.
\<close>

inductive blocks_reached :: "'k node \<Rightarrow> block_state \<Rightarrow> bool" for N where
  started: "cs_mapBlockIndex S = [] \<Longrightarrow> cs_pindexBest S = None \<Longrightarrow>
    blocks_reached N \<lparr>bs_chain = S, bs_mapOrphanBlocks = [], bs_mapOrphanBlocksByPrev = [], bs_setStakeSeenOrphan = []\<rparr>"
| entered: "blocks_reached N B \<Longrightarrow> ce_node V = N \<Longrightarrow>
    AddToBlockIndex V (bs_chain B) block nFile nBlockPos = Some (ok, S) \<Longrightarrow> blocks_reached N (B\<lparr>bs_chain := S\<rparr>)"
| processed: "blocks_reached N B \<Longrightarrow> ce_node V = N \<Longrightarrow> ProcessBlock V B block = Some (r, B') \<Longrightarrow> blocks_reached N B'"

lemma reached_process_ok: "blocks_reached N B \<Longrightarrow> process_ok N B"
proof (induction rule: blocks_reached.induct)
  case (started S)
  then show ?case by (simp add: process_ok_def chain_ok_def tree_ok_def best_ok_def block_orphans_ok_def orphans_of_def)
next
  case (entered B V block nFile nBlockPos ok S)
  with AddToBlockIndex_chain [OF entered(3)] show ?case by (simp add: process_ok_def)
next
  case (processed B V block r B')
  with ProcessBlock_step [OF processed(3)] show ?case by (simp add: process_step_ok_def)
qed

text \<open>C4: In every reachable state the block index is a tree in which heights and trust add up along
  the parents; the pointer, hash, height and trust of the best chain are those of one entry
  of it; and the two tables of orphans hold the same blocks, each under its hash and under
  its parent.\<close>

theorem blocks_reached_ok:
  assumes "blocks_reached N B"
  shows "tree_ok (cs_mapBlockIndex (bs_chain B)) \<and> best_ok (bs_chain B) \<and> block_orphans_ok N B"
  using reached_process_ok [OF assms] by (simp add: process_ok_def chain_ok_def)

text \<open>C3: Handling a block in a reachable state loses no entry of the index and never lowers the trust
  of the best chain, orphans that it releases included. An accepted block is in the index
  afterwards and no orphan waits for it any more; a block reported as an orphan is not in the
  index and is stored; otherwise the orphans are as before.\<close>

theorem ProcessBlock_advances:
  assumes "blocks_reached (ce_node V) B" and "ProcessBlock V B block = Some (r, B')"
  shows "advances (bs_chain B) (bs_chain B') \<and>
    (let hash = CBlock_GetHash (ce_node V) block
     in case r of
          Accepted \<Rightarrow> index_entry (bs_chain B') hash \<noteq> None \<and> orphans_of B' hash = []
        | Orphaned _ _ \<Rightarrow> index_entry (bs_chain B') hash = None \<and> map_of (bs_mapOrphanBlocks B') hash \<noteq> None
        | _ \<Rightarrow> bs_mapOrphanBlocks B' = bs_mapOrphanBlocks B)"
  using ProcessBlock_step [OF assms(2) reached_process_ok [OF assms(1)]]
  by (simp add: process_step_ok_def outcome_ok_def Let_def)

subsection \<open>The walk through the orphans\<close>

text \<open>The stored block that another one names as its parent, by hash.\<close>

definition orphan_parent :: "'k node \<Rightarrow> block_state \<Rightarrow> (CBlock \<times> CBlock) set" where
  "orphan_parent N B =
     {(b, c). bk_hashPrevBlock b = CBlock_GetHash N c \<and> map_of (bs_mapOrphanBlocks B) (CBlock_GetHash N c) = Some c}"

lemma orphan_parent_iff:
  assumes "block_orphans_ok N B"
  shows "(b, c) \<in> orphan_parent N B \<longleftrightarrow> map_of (bs_mapOrphanBlocks B) (bk_hashPrevBlock b) = Some c"
proof
  show "(b, c) \<in> orphan_parent N B" if "map_of (bs_mapOrphanBlocks B) (bk_hashPrevBlock b) = Some c"
    using that block_orphans_okD(1) [OF assms that] by (simp add: orphan_parent_def)
qed (simp add: orphan_parent_def)

lemma orphan_walk_path:
  assumes "orphan_walk (bs_mapOrphanBlocks B) block = Some root" and ok: "block_orphans_ok N B"
  shows "(block, root) \<in> (orphan_parent N B)\<^sup>* \<and> map_of (bs_mapOrphanBlocks B) (bk_hashPrevBlock root) = None"
proof -
  let ?P = "\<lambda>M block root. M = bs_mapOrphanBlocks B \<longrightarrow>
    (block, root) \<in> (orphan_parent N B)\<^sup>* \<and> map_of (bs_mapOrphanBlocks B) (bk_hashPrevBlock root) = None"
  have "?P (bs_mapOrphanBlocks B) block root"
  proof (rule orphan_walk.raw_induct [where P = ?P, OF _ assms(1)], goal_cases)
    case (1 walk M block root)
    show ?case
    proof
      assume M: "M = bs_mapOrphanBlocks B"
      show "(block, root) \<in> (orphan_parent N B)\<^sup>* \<and> map_of (bs_mapOrphanBlocks B) (bk_hashPrevBlock root) = None"
      proof (cases "map_of M (bk_hashPrevBlock block)")
        case None
        with 1(2) M show ?thesis by simp
      next
        case (Some b)
        with 1 M have "(b, root) \<in> (orphan_parent N B)\<^sup>* \<and> map_of (bs_mapOrphanBlocks B) (bk_hashPrevBlock root) = None" by simp
        moreover have "(block, b) \<in> orphan_parent N B" using Some M orphan_parent_iff [OF ok] by blast
        ultimately show ?thesis by (simp add: converse_rtrancl_into_rtrancl)
      qed
    qed
  qed
  then show ?thesis by simp
qed

text \<open>There are finitely many orphans, so that a walk that does not end runs in a circle.\<close>

lemma orphan_walk_circle:
  assumes "orphan_walk (bs_mapOrphanBlocks B) block = None" and ok: "block_orphans_ok N B"
  shows "\<exists>b. (block, b) \<in> (orphan_parent N B)\<^sup>* \<and> (b, b) \<in> (orphan_parent N B)\<^sup>+"
proof (rule ccontr)
  assume none: "\<nexists>b. (block, b) \<in> (orphan_parent N B)\<^sup>* \<and> (b, b) \<in> (orphan_parent N B)\<^sup>+"
  define P where "P = orphan_parent N B"
  define seen where "seen = insert block (snd ` set (bs_mapOrphanBlocks B)) \<inter> {b. (block, b) \<in> P\<^sup>*}"
  define R where "R = {(c, b). b \<in> seen \<and> (b, c) \<in> P}"
  have closed: "c \<in> seen" if "b \<in> seen" "(b, c) \<in> P" for b c
  proof -
    have "c \<in> snd ` set (bs_mapOrphanBlocks B)"
      using that(2) by (force simp: P_def orphan_parent_def dest: map_of_SomeD)
    moreover have "(block, b) \<in> P\<^sup>*" using that(1) by (auto simp: seen_def)
    then have "(block, c) \<in> P\<^sup>*" using that(2) by (rule rtrancl_into_rtrancl)
    ultimately show ?thesis by (simp add: seen_def)
  qed
  then have "R \<subseteq> seen \<times> seen" by (auto simp: R_def)
  moreover have "finite seen" by (simp add: seen_def)
  ultimately have fin: "finite R" by (meson finite_SigmaI finite_subset)
  have "acyclic R"
  proof (rule acyclicI, intro allI notI)
    fix b assume circle: "(b, b) \<in> R\<^sup>+"
    have "R \<subseteq> P\<inverse>" by (auto simp: R_def)
    then have "(b, b) \<in> (P\<inverse>)\<^sup>+" using circle trancl_mono by blast
    then have "(b, b) \<in> P\<^sup>+" by (simp add: trancl_converse)
    moreover have "b \<in> seen" using tranclD2 [OF circle] by (auto simp: R_def)
    ultimately show False using none by (auto simp: seen_def P_def)
  qed
  with fin have "wf R" by (rule finite_acyclic_wf)
  then have "b \<in> seen \<longrightarrow> orphan_walk (bs_mapOrphanBlocks B) b \<noteq> None" for b
  proof (induction b rule: wf_induct_rule)
    case (less b)
    show ?case
    proof (intro impI)
      assume b: "b \<in> seen"
      show "orphan_walk (bs_mapOrphanBlocks B) b \<noteq> None"
      proof (cases "map_of (bs_mapOrphanBlocks B) (bk_hashPrevBlock b)")
        case None
        then show ?thesis by (subst orphan_walk.simps) simp
      next
        case (Some c)
        then have "(b, c) \<in> P" using orphan_parent_iff [OF ok] by (simp add: P_def)
        with b less.IH closed have "orphan_walk (bs_mapOrphanBlocks B) c \<noteq> None" by (auto simp: R_def)
        with Some show ?thesis by (subst orphan_walk.simps) simp
      qed
    qed
  qed
  then show False using assms(1) by (auto simp: seen_def)
qed

text \<open>C33: Asking for the blocks that an orphan misses, in every reachable state: the walk back through
  the stored orphans, from a block to the one whose hash it names as its parent, ends at the
  first block whose parent is not stored; its hash and the hash of that parent are asked for.
  If it does not end, stored orphans that the block descends from form a circle of hashes.\<close>

theorem orphan_walk_outcome:
  assumes "blocks_reached N B"
  shows "(\<exists>root. (block, root) \<in> (orphan_parent N B)\<^sup>* \<and> map_of (bs_mapOrphanBlocks B) (bk_hashPrevBlock root) = None \<and>
      GetOrphanRoot N (bs_mapOrphanBlocks B) block = Some (CBlock_GetHash N root) \<and>
      WantedByOrphan (bs_mapOrphanBlocks B) block = Some (bk_hashPrevBlock root)) \<or>
    (\<exists>b. (block, b) \<in> (orphan_parent N B)\<^sup>* \<and> (b, b) \<in> (orphan_parent N B)\<^sup>+ \<and>
      GetOrphanRoot N (bs_mapOrphanBlocks B) block = None \<and> WantedByOrphan (bs_mapOrphanBlocks B) block = None)"
proof (cases "orphan_walk (bs_mapOrphanBlocks B) block")
  case None
  from orphan_walk_circle [OF None] blocks_reached_ok [OF assms] None show ?thesis
    by (auto simp: GetOrphanRoot_def WantedByOrphan_def)
next
  case (Some root)
  from orphan_walk_path [OF Some] blocks_reached_ok [OF assms] Some show ?thesis
    by (auto simp: GetOrphanRoot_def WantedByOrphan_def)
qed

end
