(* ===== verification/Chain_Witnesses.thy ===== *)
theory Chain_Witnesses
  imports Ledger_Rules Process_Rules Witnesses
begin

text \<open>
  The properties of the chain state at concrete inputs: a block with a reward and a spending
  transaction is connected and disconnected, a best chain is not replaced when the database
  refuses the transaction, blocks and orphans are handled.
\<close>

subsection \<open>A block that spends\<close>

definition spend_coinbase :: CTransaction where
  "spend_coinbase = sample_coinbase\<lparr>tx_nVersion := 3\<rparr>"

lemma coinbase_vout: "tx_vout spend_coinbase = tx_vout sample_coinbase" "length (tx_vout sample_coinbase) = 1"
  by (simp_all add: spend_coinbase_def sample_coinbase_def)

lemma coinbase_kinds: "IsCoinBase spend_coinbase" "\<not> IsCoinStake spend_coinbase" "tx_nTime spend_coinbase = 1000"
  "32 \<le> size_tx spend_coinbase" "GetLegacySigOpCount spend_coinbase = 1"
  using sample_sizes(2) sample_sigops(1)
  by (simp_all add: spend_coinbase_def GetLegacySigOpCount_def size_tx_def)
    (simp_all add: sample_coinbase_def IsCoinBase_def IsCoinStake_def COutPoint_IsNull_def COutPoint_SetNull_def)

definition spend_block :: CBlock where
  "spend_block = (let b = CBlock_new\<lparr>bk_hashPrevBlock := 9, bk_nTime := 1000, bk_nBits := 0x1e0fffff,
       bk_vtx := [spend_coinbase, sample_spend]\<rparr>;
       b = b\<lparr>bk_hashMerkleRoot := fst (BuildMerkleTree sample_ssl b)\<rparr>
     in b\<lparr>bk_vchBlockSig := sample_sig 7 80\<rparr>)"

lemma spend_block_fields:
  "bk_vtx spend_block = [spend_coinbase, sample_spend]" "bk_nTime spend_block = 1000" "bk_nBits spend_block = 0x1e0fffff"
  "bk_hashBlock spend_block = 0" "bk_vchBlockSig spend_block = sample_sig 7 80" "bk_hashPrevBlock spend_block = 9"
  "bk_vMerkleTree spend_block = []" "bk_hashMerkleRoot spend_block = fst (BuildMerkleTree sample_ssl spend_block)"
  by (simp_all add: spend_block_def Let_def CBlock_new_def BuildMerkleTree_def)

lemma coinbase_checked: "fst (CheckTransaction spend_coinbase)"
  by (simp add: CheckTransaction_def spend_coinbase_def sample_coinbase_def IsCoinBase_def IsCoinStake_def COutPoint_IsNull_def COutPoint_SetNull_def
     CTxOut_IsEmpty_def sample_size MAX_BLOCK_SIZE_def MoneyRange_def money_defs DoS_def sample_pub_def push_data_def push_op_def opcode_defs)

lemma spend_size: "32 \<le> size_tx sample_spend" "size_tx sample_spend = size_tx sample_pay"
  by (simp_all add: sample_spend_def sample_pay_def sample_size)

lemma spend_checked: "fst (CheckTransaction sample_spend)"
  by (simp add: CheckTransaction_def sample_spend_def sample_pay_def IsCoinBase_def IsCoinStake_def COutPoint_IsNull_def COutPoint_SetNull_def
     CTxOut_IsEmpty_def sample_size MAX_BLOCK_SIZE_def MoneyRange_def money_defs DoS_def sample_pub_def push_data_def push_op_def opcode_defs)

lemma spend_time: "tx_nTime sample_spend = 1000" "length (tx_vout sample_spend) = 1" "tx_vout sample_spend = tx_vout sample_pay"
  by (simp_all add: sample_spend_def sample_pay_def)

lemma spend_hashes: "GetHash sample_ssl spend_coinbase \<noteq> GetHash sample_ssl sample_spend"
  "GetHash sample_ssl spend_coinbase \<noteq> GetHash sample_ssl sample_prev"
proof -
  have p: "32 \<le> size_tx sample_prev" by (simp add: sample_prev_def sample_size)
  have v: "unat (tx_nVersion spend_coinbase) mod 256 = 3" "unat (tx_nVersion sample_spend) mod 256 = 1" "unat (tx_nVersion sample_prev) mod 256 = 2"
    by (simp_all add: spend_coinbase_def sample_spend_def sample_pay_def sample_prev_def)
  from sample_hash_fresh [OF coinbase_kinds(4)] sample_hash_fresh [OF spend_size(1)] sample_hash_fresh [OF p] v
  show "GetHash sample_ssl spend_coinbase \<noteq> GetHash sample_ssl sample_spend"
    "GetHash sample_ssl spend_coinbase \<noteq> GetHash sample_ssl sample_prev" by auto
qed

lemma spend_block_size: "size_block spend_block \<le> MAX_BLOCK_SIZE"
  by (simp add: size_block_def spend_block_fields sample_spend_def sample_pay_def spend_coinbase_def sample_coinbase_def sample_size MAX_BLOCK_SIZE_def sample_sig_def
     push_data_def push_op_def opcode_defs)

lemma spend_block_hash: "CBlock_GetHash sample_node spend_block = 80"
  by (simp add: CBlock_GetHash_def spend_block_fields sample_node_def ser_header_def)

lemma spend_sigops: "GetLegacySigOpCount sample_spend = 1"
  by (simp add: GetLegacySigOpCount_def sample_spend_def sample_pay_def GetSigOpCount_def count_sigops.simps push_data_def push_op_def opcode_defs
     GetOp2.simps get_operand_def sample_pub_def)

lemma spend_block_signed: "CheckBlockSignature sample_node spend_block"
proof -
  have "CKey_Sign sample_ec \<lparr>ck_pkey = 7, ck_fSet = True, ck_fCompressedPubKey = False\<rparr> 80 = (True, sample_sig 7 80)"
    by (simp add: CKey_Sign_def sample_ec_def)
  from ecdsa_sign_verifies [OF sample_ecdsa_documented sample_key(2) this]
  have "check_block_sig sample_node spend_block sample_pub"
    by (auto simp: check_block_sig_def spend_block_hash spend_block_fields)
  then show ?thesis
    by (simp add: CheckBlockSignature_def spend_block_hash genesis_hash_def hashGenesisBlockOfficial_def
        sample_node_def [THEN arg_cong [of _ _ nd_fTestNet]] spend_block_fields IsProofOfStake_def coinbase_kinds sample_spend_kind)
     (simp add: coinbase_vout sample_coinbase_def sample_solver [unfolded sample_spk_def])
qed

lemma spend_block_checked: "CheckBlock sample_node 2000 True True f spend_block = (True, 0)"
  using spend_block_size
  by (simp add: CheckBlock_def spend_block_fields GetBlockTime_def coinbase_checked spend_checked spend_hashes IsProofOfWork_def IsProofOfStake_def
     coinbase_kinds sample_spend_kind spend_time spend_block_hash sample_pow spend_sigops spend_block_signed
     GetClockDrift_def MAX_BLOCK_SIZE_def MAX_BLOCK_SIGOPS_def DoS_def)

subsection \<open>Its connection\<close>

definition sample_mempool :: mempool where
  "sample_mempool = \<lparr>mp_mapTx = [(GetHash sample_ssl sample_prev, sample_prev)], mp_mapNextTx = [], mp_nTransactionsUpdated = 0\<rparr>"

definition sample_state :: chain_state where
  "sample_state = \<lparr>cs_mapBlockIndex = [], cs_tally = [], cs_pindexGenesisBlock = None, cs_pindexBest = None,
     cs_hashBestChain = 0, cs_nBestHeight = 0, cs_bnBestChainTrust = 0, cs_bnBestInvalidTrust = 0, cs_txdb = sample_db,
     cs_files = sample_disk, cs_mempool = sample_mempool, cs_sigcache = sample_cache, cs_mapProposals = [],
     cs_proposalManager = [], cs_voteDB = [], cs_voteFaults = [], cs_setStakeSeen = [], cs_mapProofOfStake = []\<rparr>"

definition sample_chainenv :: "nat chainenv" where
  "sample_chainenv = \<lparr>ce_node = sample_node, ce_nAdjustedTime = 2000, ce_CheckDiskSpace = (\<lambda>_. True),
     ce_rate_limited = (\<lambda>_. False), ce_CheckProposal = (\<lambda>_ _ _. True)\<rparr>"

lemma spend_loop_at:
  assumes "\<not> CDiskTxPos_IsNull pos"
  shows "spend_loop sample_node 0 sample_spend pos True False True 0 (tx_vin sample_spend) sample_inputs m sample_cache =
     (None, map_put (GetHash sample_ssl sample_prev) (sample_index_prev\<lparr>xi_vSpent := [pos]\<rparr>) m, sample_cache)"
proof -
  have "check_input_sig sample_node True sample_prev sample_spend 0 sample_cache = (None, sample_cache)"
    by (simp add: check_input_sig_def sample_spend_verifies)
  moreover have "map_of sample_inputs (GetHash sample_ssl sample_prev) = Some (sample_index_prev, sample_prev)"
    by (simp add: sample_inputs_def)
  moreover have "xi_vSpent sample_index_prev = [CDiskTxPos_SetNull]" "CDiskTxPos_IsNull CDiskTxPos_SetNull"
    by (simp_all add: sample_index_prev_def CDiskTxPos_IsNull_def CDiskTxPos_SetNull_def)
  ultimately show ?thesis by (simp add: sample_spend_vin Let_def)
qed

lemma connects_at:
  assumes "\<not> CDiskTxPos_IsNull pos"
  shows "ConnectInputs sample_node 0 sample_disk sample_db sample_inputs m pos sample_chain True False True sample_spend sample_cache =
     (Some (True, 0), map_put (GetHash sample_ssl sample_prev) (sample_index_prev\<lparr>xi_vSpent := [pos]\<rparr>) m, sample_cache)"
  by (simp add: ConnectInputs_def sample_spend_kind sample_cheap sample_fee spend_loop_at [OF assms] DoS_def)

lemma chain_hd: "hd sample_chain = sample_index 2 1200" "bi_nFile (sample_index 2 1200) = 1" "bi_nHeight (sample_index 2 1200) = 2"
  "bi_nBlockPos (sample_index 2 1200) = 0"
  by (simp_all add: sample_chain_def sample_index_def)

lemma fetches_with:
  assumes "map_of m (GetHash sample_ssl sample_prev) = None"
  shows "FetchInputs sample_disk sample_db [(GetHash sample_ssl sample_prev, sample_prev)] m True False [] sample_spend = Inr sample_inputs"
  using assms
  by (simp add: FetchInputs_def sample_spend_kind sample_spend_vin fetch_prev_def ReadTxIndex_def sample_db_def
      sample_index_prev_def prevout_in_range_def Let_def sample_inputs_def) (simp add: sample_prev_def)

lemma spend_values: "GetValueIn sample_spend sample_inputs = Some 3000000" "GetValueOut sample_spend = Some 2000000"
  "GetValueOut spend_coinbase = Some 1000000" "IsProposal sample_spend = Some False" "GetP2SHSigOpCount sample_spend sample_inputs = Some 0"
  by (simp_all add: GetValueIn_def IsProposal_def GetP2SHSigOpCount_def sample_spend_kind sample_spend_vin spend_time GetOutputFor_def
      sample_inputs_def GetValueOut_def coinbase_vout)
   (simp_all add: sample_pay_def sample_coinbase_def sample_prev_def MoneyRange_def money_defs IsDataCarrier_def push_data_def opcode_defs
     IsPayToScriptHash_def)

lemma pos_not_null: "\<not> CDiskTxPos_IsNull \<lparr>dp_nFile = 1, dp_nBlockPos = p, dp_nTxPos = q\<rparr>"
  by (simp add: CDiskTxPos_IsNull_def)

lemma spend_connects:
  "\<exists>a. connect_txs sample_node 0 sample_disk sample_db (mp_mapTx sample_mempool) sample_chain False (bk_vtx spend_block)
      \<lparr>ca_vQueuedProposals = [], ca_mapQueuedChanges = [], ca_nFees = 0, ca_nValueIn = 0, ca_nValueOut = 0, ca_nSigOps = 0,
       ca_nTxPos = p, ca_sigcache = sample_cache\<rparr> = Some (Inr a) \<and> ca_nFees a = 1000000 \<and> ca_vQueuedProposals a = []"
proof -
  have new: "overwrites_unspent sample_db (GetHash sample_ssl spend_coinbase) = False" "overwrites_unspent sample_db (GetHash sample_ssl sample_spend) = False"
    using spend_hashes sample_spend_hash by (simp_all add: overwrites_unspent_def ReadTxIndex_def sample_db_def)
  show ?thesis
    using spend_hashes(2)
    by (simp add: spend_block_fields connect_tx_def new coinbase_kinds spend_sigops sample_spend_kind spend_values connect_inputs_tx_def
        chain_hd sample_mempool_def fetches_with connects_at pos_not_null DoS_def Let_def MAX_BLOCK_SIGOPS_def MAX_BLOCK_SIZE_def)
qed

lemma no_faults_write: "db_faults db = [] \<Longrightarrow> db_write f db = (True, db\<lparr>db_tables := f (db_tables db)\<rparr>)"
  by (simp add: db_write_def)

lemma no_faults_changes: "db_faults db = [] \<Longrightarrow> \<exists>db'. write_changes db ch = (True, db') \<and> db_faults db' = []"
  by (induction ch arbitrary: db) (auto simp: UpdateTxIndex_def no_faults_write)

lemma spend_written:
  assumes "db_faults db = []" "bi_nHeight b = 2"
  shows "\<exists>db'. write_block sample_node spend_block (b # p) 1000000 ch db = Some ((True, 0), db')"
proof -
  obtain db1 where db1: "WriteBlockIndex db (CDiskBlockIndex_of (b # p)) = (True, db1)" "db_faults db1 = []"
    by (simp add: WriteBlockIndex_def no_faults_write [OF assms(1)] assms(1))
  obtain db2 where db2: "write_changes db1 ch = (True, db2)" "db_faults db2 = []"
    using no_faults_changes [OF db1(2)] by blast
  have "\<not> sint (GetProofOfWorkReward (nd_fTestNet sample_node) 2 1000000) < sint (1000000 :: int64)"
    by (simp add: GetProofOfWorkReward_def sample_node_def money_defs)
  then show ?thesis
    using assms(2) db1(1) db2 no_faults_write [OF db2(2)]
    by (auto simp: write_block_def spend_block_fields spend_values DoS_def split: prod.split) (auto simp: WriteBlockIndex_def)
qed

lemma spend_block_connects:
  "\<exists>S'. ConnectBlock sample_chainenv sample_state spend_block sample_chain False = Some ((True, 0), S')"
proof -
  obtain a where a: "connect_txs sample_node 0 sample_disk sample_db (mp_mapTx sample_mempool) sample_chain False (bk_vtx spend_block)
      \<lparr>ca_vQueuedProposals = [], ca_mapQueuedChanges = [], ca_nFees = 0, ca_nValueIn = 0, ca_nValueOut = 0, ca_nSigOps = 0,
       ca_nTxPos = tx_position 0 (bk_vtx spend_block) 0, ca_sigcache = sample_cache\<rparr> = Some (Inr a)"
    "ca_nFees a = 1000000" "ca_vQueuedProposals a = []" using spend_connects by blast
  have env: "ce_node sample_chainenv = sample_node" "ce_nAdjustedTime sample_chainenv = 2000" by (simp_all add: sample_chainenv_def)
  have st: "cs_nBestHeight sample_state = 0" "cs_files sample_state = sample_disk" "cs_txdb sample_state = sample_db"
    "cs_mempool sample_state = sample_mempool" "cs_sigcache sample_state = sample_cache" by (simp_all add: sample_state_def)
  have queue: "record_proposals E [] txs S = Some S" for E txs S by (induction txs) (simp_all add: Let_def)
  have db: "cs_txdb (update_tally N p S) = cs_txdb S" "cs_txdb (set_index b S) = cs_txdb S" for N p S b
    by (simp_all add: update_tally_def set_index_def Let_def)
  have "db_faults sample_db = []" by (simp add: sample_db_def)
  from spend_written [OF this] have w: "\<exists>db'. write_block sample_node spend_block (b # p) 1000000 ch sample_db = Some ((True, 0), db')"
    if "bi_nHeight b = 2" for b p ch using that by blast
  obtain db' where db': "write_block sample_node spend_block ((sample_index 2 1200)
      \<lparr>bi_nMint := ca_nValueOut a - ca_nValueIn a + ca_nFees a,
       bi_nMoneySupply := (if tl sample_chain = [] then 0 else bi_nMoneySupply (hd (tl sample_chain))) + ca_nValueOut a - ca_nValueIn a\<rparr> # tl sample_chain)
      1000000 (ca_mapQueuedChanges a) sample_db = Some ((True, 0), db')"
    using w [of "(sample_index 2 1200)\<lparr>bi_nMint := _, bi_nMoneySupply := _\<rparr>"] by (simp add: chain_hd) blast
  show ?thesis
    unfolding ConnectBlock_def Let_def env st
    by (simp add: spend_block_checked chain_hd a(1,3) queue db a(2) db' [unfolded a(2)] st del: if_split)
qed

text \<open>The spending transaction takes one output and leaves two new ones.\<close>

theorem ConnectBlock_refines_ledger_witness:
  "\<exists>S'. ConnectBlock sample_chainenv sample_state spend_block sample_chain False = Some ((True, 0), S') \<and>
     ledger_block sample_ssl (bk_vtx spend_block) (utxo (tx_index sample_state)) = Some (utxo (tx_index S'))"
proof -
  obtain S' where S': "ConnectBlock sample_chainenv sample_state spend_block sample_chain False = Some ((True, 0), S')"
    using spend_block_connects by blast
  have "bi_nFile (hd sample_chain) \<noteq> - 1" by (simp add: chain_hd)
  from ConnectBlock_refines_ledger [OF S' this] S' show ?thesis by (simp add: sample_chainenv_def)
qed

theorem DisconnectBlock_undoes_witness:
  "\<exists>S' db. ConnectBlock sample_chainenv sample_state spend_block sample_chain False = Some ((True, 0), S') \<and>
     DisconnectBlock sample_ssl (cs_txdb S') spend_block sample_chain = (True, db) \<and>
     map_of (tb_tx (db_tables db)) = tx_index sample_state"
proof -
  obtain S' where S': "ConnectBlock sample_chainenv sample_state spend_block sample_chain False = Some ((True, 0), S')"
    using spend_block_connects by blast
  have stored: "bi_nFile (hd sample_chain) \<noteq> - 1" by (simp add: chain_hd)
  have index: "tx_index sample_state = [GetHash sample_ssl sample_prev \<mapsto> sample_index_prev]"
    by (simp add: tx_index_def sample_state_def sample_db_def)
  have new: "\<forall>tx \<in> set (bk_vtx spend_block). tx_index sample_state (GetHash (nd_ssl (ce_node sample_chainenv)) tx) = None"
    using spend_hashes(2) sample_spend_hash by (simp add: index spend_block_fields sample_chainenv_def)
  have canon: "canonical (tx_index sample_state)"
    by (simp add: index canonical_def sample_index_prev_def)
  have faults: "db_faults (cs_txdb sample_state) = []" by (simp add: sample_state_def sample_db_def)
  from DisconnectBlock_undoes [OF S' stored faults canon new] S' show ?thesis by (auto simp: sample_chainenv_def)
qed

subsection \<open>A block that does not connect\<close>

definition root_entry :: CBlockIndex where
  "root_entry = (let b = (sample_index 0 1000)\<lparr>bi_hash := 80\<rparr> in b\<lparr>bi_bnChainTrust := GetBlockTrust b\<rparr>)"

definition next_entry :: CBlockIndex where
  "next_entry = (let b = (sample_index 1 1100)\<lparr>bi_hash := 81, bi_pprev := Some 80\<rparr>
     in b\<lparr>bi_bnChainTrust := bi_bnChainTrust root_entry + GetBlockTrust b\<rparr>)"

definition sample_tree :: block_index where
  "sample_tree = [(80, root_entry), (81, next_entry)]"

lemma entry_fields:
  "bi_hash root_entry = 80" "bi_pprev root_entry = None" "bi_nHeight root_entry = 0"
  "bi_hash next_entry = 81" "bi_pprev next_entry = Some 80" "bi_nHeight next_entry = 1"
  by (simp_all add: root_entry_def next_entry_def sample_index_def Let_def)

lemma entry_trust: "bi_bnChainTrust root_entry = GetBlockTrust root_entry"
  "bi_bnChainTrust next_entry = bi_bnChainTrust root_entry + GetBlockTrust next_entry"
  by (simp add: root_entry_def Let_def, simp add: next_entry_def Let_def)

lemma sample_tree_ok: "tree_ok sample_tree"
  using entry_trust by (auto simp: tree_ok_def entry_ok_def sample_tree_def entry_fields split: if_splits)

theorem ancestry_complete_witness:
  "ancestry sample_tree 81 = [next_entry, root_entry] \<and>
   (\<exists>bs. ancestry sample_tree 81 = next_entry # bs \<and> int (length (next_entry # bs)) = 2)"
proof -
  have "map_of sample_tree 81 = Some next_entry" by (simp add: sample_tree_def)
  from ancestry_complete [OF sample_tree_ok this] show ?thesis
    by (auto simp: entry_fields) (simp add: ancestry_def sample_tree_def entry_fields)
qed

definition indexed_state :: chain_state where
  "indexed_state = sample_state\<lparr>cs_mapBlockIndex := sample_tree, cs_pindexBest := Some 80, cs_hashBestChain := 80,
     cs_bnBestChainTrust := bi_bnChainTrust root_entry\<rparr>"

text \<open>A block without transactions that follows the best block.\<close>

definition empty_block :: CBlock where
  "empty_block = CBlock_new\<lparr>bk_hashPrevBlock := 80, bk_hashBlock := 81\<rparr>"

lemma empty_block_refused: "\<exists>S'. SetBestChain sample_chainenv indexed_state empty_block 81 = Some (False, S')"
proof -
  have "CheckBlock sample_node t f g k empty_block = (False, 100)" for t f g k
    by (simp add: CheckBlock_def empty_block_def CBlock_new_def DoS_def)
  then have c: "ConnectBlock sample_chainenv S empty_block p False = Some ((False, 100), S)" for S p
    by (simp add: ConnectBlock_def sample_chainenv_def DoS_def)
  have "CBlock_GetHash sample_node empty_block = 81" "bk_hashPrevBlock empty_block = 80"
    by (simp_all add: CBlock_GetHash_def empty_block_def)
  moreover have "genesis_hash sample_node \<noteq> 81" by (simp add: genesis_hash_def sample_node_def hashGenesisBlockOfficial_def)
  moreover have "ce_node sample_chainenv = sample_node" by (simp add: sample_chainenv_def)
  moreover have "cs_hashBestChain indexed_state = 80" "\<exists>db. TxnBegin (cs_txdb indexed_state) = (True, db)"
    by (simp_all add: indexed_state_def sample_state_def sample_db_def TxnBegin_def)
  ultimately show ?thesis
    by (auto simp: SetBestChain_def SetBestChainInner_def c Let_def)
qed

theorem SetBestChain_atomic_witness:
  "\<exists>S'. SetBestChain sample_chainenv indexed_state empty_block 81 = Some (False, S') \<and> best_of S' = best_of indexed_state \<and>
     chain_tables (db_tables (cs_txdb S')) = chain_tables (db_tables (cs_txdb indexed_state))"
proof -
  obtain S' where "SetBestChain sample_chainenv indexed_state empty_block 81 = Some (False, S')" using empty_block_refused by blast
  with SetBestChain_atomic [OF this] show ?thesis by blast
qed

subsection \<open>Handling blocks\<close>

lemma CheckBlock_SetHash:
  assumes "CBlock_GetHash N (b\<lparr>bk_hashBlock := h\<rparr>) = CBlock_GetHash N b"
  shows "CheckBlock N t f g k (b\<lparr>bk_hashBlock := h\<rparr>) = CheckBlock N t f g k b"
proof -
  have s: "check_block_sig N (b\<lparr>bk_hashBlock := h\<rparr>) = check_block_sig N b"
    by (rule ext) (simp add: check_block_sig_def assms split: prod.split bool.split)
  then have l: "check_sig_loop N (b\<lparr>bk_hashBlock := h\<rparr>) outs = check_sig_loop N b outs" for outs
    by (induction outs) (simp_all split: prod.split)
  have k: "IsProofOfStake (b\<lparr>bk_hashBlock := h\<rparr>) = IsProofOfStake b" "IsProofOfWork (b\<lparr>bk_hashBlock := h\<rparr>) = IsProofOfWork b"
    "size_block (b\<lparr>bk_hashBlock := h\<rparr>) = size_block b" "GetBlockTime (b\<lparr>bk_hashBlock := h\<rparr>) = GetBlockTime b"
    "fst (BuildMerkleTree E (b\<lparr>bk_hashBlock := h\<rparr>)) = fst (BuildMerkleTree E b)" for E
    by (simp_all add: IsProofOfStake_def IsProofOfWork_def size_block_def GetBlockTime_def BuildMerkleTree_def Let_def)
  have "CheckBlockSignature N (b\<lparr>bk_hashBlock := h\<rparr>) = CheckBlockSignature N b"
    by (simp add: CheckBlockSignature_def assms k s l cong: if_cong)
  then show ?thesis by (simp add: CheckBlock_def Let_def k assms cong: if_cong option.case_cong del: if_split)
qed

definition start_state :: block_state where
  "start_state = \<lparr>bs_chain = sample_state, bs_mapOrphanBlocks = [], bs_mapOrphanBlocksByPrev = [], bs_setStakeSeenOrphan = []\<rparr>"

lemma start_reached: "blocks_reached sample_node start_state"
  unfolding start_state_def by (rule blocks_reached.started) (simp_all add: sample_state_def)

lemma spend_block_orphaned:
  "\<exists>B'. ProcessBlock sample_chainenv start_state spend_block = Some (Orphaned (Some 80) (Some 9), B') \<and>
     map_of (bs_mapOrphanBlocks B') 80 = Some (spend_block\<lparr>bk_hashBlock := 80\<rparr>) \<and> map_of (bs_mapOrphanBlocks B') 9 = None"
proof -
  let ?b = "spend_block\<lparr>bk_hashBlock := 80\<rparr>"
  have h: "CBlock_GetHash sample_node ?b = 80" by (simp add: CBlock_GetHash_def)
  have "CheckBlock sample_node 2000 True True True ?b = (True, 0)"
    using CheckBlock_SetHash [where N = sample_node and b = spend_block and h = 80] by (simp add: h spend_block_hash spend_block_checked)
  moreover have "\<not> IsProofOfStake ?b" by (simp add: IsProofOfStake_def spend_block_fields sample_spend_kind)
  ultimately show ?thesis
    by (simp add: ProcessBlock_def process_checked_def Let_def sample_chainenv_def spend_block_hash CBlock_SetHash_def start_state_def
        sample_state_def index_entry_def h DoS_def add_orphan_block_def orphans_of_def GetOrphanRoot_def WantedByOrphan_def map_insert_def
        orphan_walk.simps spend_block_fields)
qed

theorem blocks_reached_ok_witness:
  "\<exists>B b. blocks_reached sample_node B \<and> map_of (bs_mapOrphanBlocks B) 80 = Some b \<and> b \<in> set (orphans_of B 9) \<and>
     best_ok (bs_chain B)"
proof -
  obtain B where p: "ProcessBlock sample_chainenv start_state spend_block = Some (Orphaned (Some 80) (Some 9), B)"
    and o: "map_of (bs_mapOrphanBlocks B) 80 = Some (spend_block\<lparr>bk_hashBlock := 80\<rparr>)"
    using spend_block_orphaned by blast
  have env: "ce_node sample_chainenv = sample_node" by (simp add: sample_chainenv_def)
  have B: "blocks_reached sample_node B" by (rule blocks_reached.processed [OF start_reached env p])
  from blocks_reached_ok [OF B] have ok: "best_ok (bs_chain B)" "block_orphans_ok sample_node B" by auto
  from block_orphans_okD(2) [OF ok(2) o] have "spend_block\<lparr>bk_hashBlock := 80\<rparr> \<in> set (orphans_of B 9)"
    by (simp add: spend_block_fields)
  with B o ok(1) show ?thesis by blast
qed

theorem ProcessBlock_advances_witness:
  "\<exists>B'. ProcessBlock sample_chainenv start_state spend_block = Some (Orphaned (Some 80) (Some 9), B') \<and>
     advances (bs_chain start_state) (bs_chain B') \<and> index_entry (bs_chain B') 80 = None"
proof -
  obtain B where p: "ProcessBlock sample_chainenv start_state spend_block = Some (Orphaned (Some 80) (Some 9), B)"
    using spend_block_orphaned by blast
  have env: "ce_node sample_chainenv = sample_node" by (simp add: sample_chainenv_def)
  from ProcessBlock_advances [OF _ p] start_reached p show ?thesis
    by (simp add: env spend_block_hash)
qed

theorem orphan_walk_outcome_witness:
  "\<exists>B. blocks_reached sample_node B \<and>
     GetOrphanRoot sample_node (bs_mapOrphanBlocks B) (spend_block\<lparr>bk_hashPrevBlock := 80\<rparr>) = Some 80 \<and>
     WantedByOrphan (bs_mapOrphanBlocks B) (spend_block\<lparr>bk_hashPrevBlock := 80\<rparr>) = Some 9"
proof -
  obtain B where p: "ProcessBlock sample_chainenv start_state spend_block = Some (Orphaned (Some 80) (Some 9), B)"
    and o: "map_of (bs_mapOrphanBlocks B) 80 = Some (spend_block\<lparr>bk_hashBlock := 80\<rparr>)"
    and none: "map_of (bs_mapOrphanBlocks B) 9 = None"
    using spend_block_orphaned by blast
  have env: "ce_node sample_chainenv = sample_node" by (simp add: sample_chainenv_def)
  have B: "blocks_reached sample_node B" by (rule blocks_reached.processed [OF start_reached env p])
  define block where "block = spend_block\<lparr>bk_hashPrevBlock := 80\<rparr>"
  define top where "top = spend_block\<lparr>bk_hashBlock := 80\<rparr>"
  have fields: "bk_hashPrevBlock block = 80" "bk_hashPrevBlock top = 9" by (simp_all add: block_def top_def spend_block_fields)
  have step: "c = top" if "(block, c) \<in> orphan_parent sample_node B" for c
  proof -
    from that have "CBlock_GetHash sample_node c = 80" "map_of (bs_mapOrphanBlocks B) (CBlock_GetHash sample_node c) = Some c"
      by (auto simp: orphan_parent_def fields)
    with o show ?thesis by (simp add: top_def)
  qed
  have stop: "(top, c) \<notin> orphan_parent sample_node B" for c
    using none by (auto simp: orphan_parent_def fields)
  have reach: "c = block \<or> c = top" if "(block, c) \<in> (orphan_parent sample_node B)\<^sup>*" for c
    using that by (induction rule: rtrancl_induct) (use step stop in auto)
  have "(c, c) \<notin> (orphan_parent sample_node B)\<^sup>+" if "c = block \<or> c = top" for c
  proof
    assume "(c, c) \<in> (orphan_parent sample_node B)\<^sup>+"
    then obtain z where z: "(c, z) \<in> orphan_parent sample_node B" "(z, c) \<in> (orphan_parent sample_node B)\<^sup>*" by (blast dest: tranclD)
    with that stop have "c = block" by blast
    with z step have "(top, block) \<in> (orphan_parent sample_node B)\<^sup>*" by blast
    with stop have "top = block" by (blast elim: converse_rtranclE)
    with fields show False by auto
  qed
  then obtain root where root: "root = block \<or> root = top" "map_of (bs_mapOrphanBlocks B) (bk_hashPrevBlock root) = None"
    "GetOrphanRoot sample_node (bs_mapOrphanBlocks B) block = Some (CBlock_GetHash sample_node root)"
    "WantedByOrphan (bs_mapOrphanBlocks B) block = Some (bk_hashPrevBlock root)"
    using orphan_walk_outcome [OF B, of block] reach by blast
  then have "root = top" using o by (auto simp: fields)
  moreover have "CBlock_GetHash sample_node top = 80"
    using blocks_reached_ok [OF B] block_orphans_okD(1) o by (auto simp: top_def)
  ultimately show ?thesis using B root(3,4) fields by (auto simp: block_def)
qed

end
