(* ===== verification/Uint_Limbs.thy ===== *)
theory Uint_Limbs
  imports Prelude
begin

text \<open>
  The unsigned integers of fixed width (\<open>base_uint\<close> and its descendants \<open>uint160\<close>, \<open>uint256\<close>
  and \<open>uint512\<close> in \<open>src/uint256.h\<close>): arrays of 32-bit words, lowest first, with the operators
  written out as loops over them. The rest of the development uses machine words of the same
  width; here both are shown to agree. The memory of the array is little-endian.
\<close>

type_synonym limbs = "uint32 list"

subsection \<open>Bitwise operators\<close>

definition bu_is_zero :: "limbs \<Rightarrow> bool" where
  "bu_is_zero pn = list_all (\<lambda>x. x = 0) pn"

definition bu_not :: "limbs \<Rightarrow> limbs" where
  "bu_not pn = map NOT pn"

definition bu_of_u64 :: "nat \<Rightarrow> uint64 \<Rightarrow> limbs" where
  "bu_of_u64 WIDTH b = ucast b # ucast (drop_bit 32 b) # replicate (WIDTH - 2) 0"

definition bu_xor :: "limbs \<Rightarrow> limbs \<Rightarrow> limbs" where "bu_xor a b = map2 (XOR) a b"
definition bu_and :: "limbs \<Rightarrow> limbs \<Rightarrow> limbs" where "bu_and a b = map2 (AND) a b"
definition bu_or :: "limbs \<Rightarrow> limbs \<Rightarrow> limbs" where "bu_or a b = map2 (OR) a b"

definition bu_xor64 :: "limbs \<Rightarrow> uint64 \<Rightarrow> limbs" where
  "bu_xor64 pn b = pn[0 := pn ! 0 XOR ucast b, 1 := pn ! 1 XOR ucast (drop_bit 32 b)]"

definition bu_or64 :: "limbs \<Rightarrow> uint64 \<Rightarrow> limbs" where
  "bu_or64 pn b = pn[0 := pn ! 0 OR ucast b, 1 := pn ! 1 OR ucast (drop_bit 32 b)]"

subsection \<open>Shifts\<close>

text \<open>One round of the loops: the limb \<open>a ! i\<close> goes to two limbs of the result.\<close>

definition shl_round :: "limbs \<Rightarrow> nat \<Rightarrow> nat \<Rightarrow> nat \<Rightarrow> limbs \<Rightarrow> limbs" where
  "shl_round a k s i pn =
     (let pn = (if i + k + 1 < length a \<and> s \<noteq> 0
                then pn[i + k + 1 := pn ! (i + k + 1) OR drop_bit (32 - s) (a ! i)] else pn)
      in if i + k < length a then pn[i + k := pn ! (i + k) OR push_bit s (a ! i)] else pn)"

definition bu_shl :: "limbs \<Rightarrow> nat \<Rightarrow> limbs" where
  "bu_shl a shift = fold (shl_round a (shift div 32) (shift mod 32)) [0..<length a] (replicate (length a) 0)"

definition shr_round :: "limbs \<Rightarrow> nat \<Rightarrow> nat \<Rightarrow> nat \<Rightarrow> limbs \<Rightarrow> limbs" where
  "shr_round a k s i pn =
     (let pn = (if k + 1 \<le> i \<and> s \<noteq> 0
                then pn[i - k - 1 := pn ! (i - k - 1) OR push_bit (32 - s) (a ! i)] else pn)
      in if k \<le> i then pn[i - k := pn ! (i - k) OR drop_bit s (a ! i)] else pn)"

definition bu_shr :: "limbs \<Rightarrow> nat \<Rightarrow> limbs" where
  "bu_shr a shift = fold (shr_round a (shift div 32) (shift mod 32)) [0..<length a] (replicate (length a) 0)"

subsection \<open>Arithmetic\<close>

fun add_loop :: "uint64 \<Rightarrow> limbs \<Rightarrow> limbs \<Rightarrow> limbs" where
  "add_loop carry (x # xs) (y # ys) =
     (let n = carry + ucast x + ucast y in ucast (n AND 0xffffffff) # add_loop (drop_bit 32 n) xs ys)"
| "add_loop carry _ _ = []"

definition bu_add :: "limbs \<Rightarrow> limbs \<Rightarrow> limbs" where
  "bu_add a b = add_loop 0 a b"

fun bu_inc :: "limbs \<Rightarrow> limbs" where
  "bu_inc [] = []"
| "bu_inc (x # xs) = (if x + 1 = 0 \<and> xs \<noteq> [] then (x + 1) # bu_inc xs else (x + 1) # xs)"

fun bu_dec :: "limbs \<Rightarrow> limbs" where
  "bu_dec [] = []"
| "bu_dec (x # xs) = (if x - 1 = - 1 \<and> xs \<noteq> [] then (x - 1) # bu_dec xs else (x - 1) # xs)"

definition bu_neg :: "limbs \<Rightarrow> limbs" where
  "bu_neg pn = bu_inc (bu_not pn)"

definition bu_sub :: "limbs \<Rightarrow> limbs \<Rightarrow> limbs" where
  "bu_sub a b = bu_add a (bu_neg b)"

definition bu_add64 :: "limbs \<Rightarrow> uint64 \<Rightarrow> limbs" where
  "bu_add64 a b64 = bu_add a (bu_of_u64 (length a) b64)"

definition bu_sub64 :: "limbs \<Rightarrow> uint64 \<Rightarrow> limbs" where
  "bu_sub64 a b64 = bu_add a (bu_neg (bu_of_u64 (length a) b64))"

subsection \<open>Comparisons\<close>

text \<open>The loops run from the highest limb down; \<open>eq\<close> is the result when all limbs agree.\<close>

fun less_loop :: "bool \<Rightarrow> limbs \<Rightarrow> limbs \<Rightarrow> bool" where
  "less_loop eq (x # xs) (y # ys) = (if x < y then True else if y < x then False else less_loop eq xs ys)"
| "less_loop eq _ _ = eq"

definition bu_less :: "limbs \<Rightarrow> limbs \<Rightarrow> bool" where "bu_less a b = less_loop False (rev a) (rev b)"
definition bu_le :: "limbs \<Rightarrow> limbs \<Rightarrow> bool" where "bu_le a b = less_loop True (rev a) (rev b)"
definition bu_greater :: "limbs \<Rightarrow> limbs \<Rightarrow> bool" where "bu_greater a b = less_loop False (rev b) (rev a)"
definition bu_ge :: "limbs \<Rightarrow> limbs \<Rightarrow> bool" where "bu_ge a b = less_loop True (rev b) (rev a)"

definition bu_eq :: "limbs \<Rightarrow> limbs \<Rightarrow> bool" where
  "bu_eq a b = list_all2 (=) a b"

definition bu_eq64 :: "limbs \<Rightarrow> uint64 \<Rightarrow> bool" where
  "bu_eq64 a b \<longleftrightarrow> a ! 0 = ucast b \<and> a ! 1 = ucast (drop_bit 32 b) \<and> list_all (\<lambda>x. x = 0) (drop 2 a)"

definition Get64 :: "limbs \<Rightarrow> nat \<Rightarrow> uint64" where
  "Get64 pn n = ucast (pn ! (2 * n)) OR push_bit 32 (ucast (pn ! (2 * n + 1)))"

definition trim256 :: "limbs \<Rightarrow> limbs" where
  "trim256 pn = take 8 pn"

subsection \<open>Bytes and hexadecimal text\<close>

text \<open>The array as bytes in memory, and an array read from them.\<close>

definition limbs_bytes :: "limbs \<Rightarrow> byte list" where
  "limbs_bytes pn = concat (map bytes_of_u32 pn)"

primrec limbs_of_bytes :: "nat \<Rightarrow> byte list \<Rightarrow> limbs" where
  "limbs_of_bytes 0 bs = []"
| "limbs_of_bytes (Suc n) bs = word_of_nat (le_value (take 4 bs)) # limbs_of_bytes n (drop 4 bs)"

text \<open>The constructor from a byte vector: another size than that of the array gives zero.\<close>

definition bu_of_vector :: "nat \<Rightarrow> byte list \<Rightarrow> limbs" where
  "bu_of_vector WIDTH vch = (if length vch = 4 * WIDTH then limbs_of_bytes WIDTH vch else bu_of_u64 WIDTH 0)"

definition hex_char :: "nat \<Rightarrow> char" where
  "hex_char n = ''0123456789abcdef'' ! n"

definition hex_byte :: "byte \<Rightarrow> string" where
  "hex_byte b = [hex_char (unat b div 16), hex_char (unat b mod 16)]"

definition GetHex :: "limbs \<Rightarrow> string" where
  "GetHex pn = concat (map hex_byte (rev (limbs_bytes pn)))"

definition ToStringReverseEndian :: "limbs \<Rightarrow> string" where
  "ToStringReverseEndian pn = concat (map hex_byte (limbs_bytes pn))"

definition phexdigit :: "char \<Rightarrow> nat" where
  "phexdigit c = (let n = of_char c :: nat
     in if 48 \<le> n \<and> n \<le> 57 then n - 48 else if 65 \<le> n \<and> n \<le> 70 then n - 55
        else if 97 \<le> n \<and> n \<le> 102 then n - 87 else 0)"

definition c_isspace :: "char \<Rightarrow> bool" where
  "c_isspace c \<longleftrightarrow> (let n = of_char c :: nat in n = 32 \<or> 9 \<le> n \<and> n \<le> 13)"

text \<open>The digits are read from the last one on, two to a byte, until the array is full.\<close>

fun hex_bytes :: "nat \<Rightarrow> string \<Rightarrow> byte list" where
  "hex_bytes 0 ds = []"
| "hex_bytes (Suc n) [] = 0 # hex_bytes n []"
| "hex_bytes (Suc n) [c] = word_of_nat (phexdigit c) # hex_bytes n []"
| "hex_bytes (Suc n) (c # d # ds) =
     (word_of_nat (phexdigit c) OR push_bit 4 (word_of_nat (phexdigit d))) # hex_bytes n ds"

text \<open>The text ends at its first zero byte.\<close>

definition SetHex :: "nat \<Rightarrow> string \<Rightarrow> limbs" where
  "SetHex WIDTH str =
     (let s = dropWhile c_isspace (takeWhile (\<lambda>c. c \<noteq> CHR 0x00) str);
          s = (if 2 \<le> length s \<and> s ! 0 = CHR ''0'' \<and> (s ! 1 = CHR ''x'' \<or> s ! 1 = CHR ''X'') then drop 2 s else s);
          ds = takeWhile (\<lambda>c. phexdigit c \<noteq> 0 \<or> c = CHR ''0'') s
      in limbs_of_bytes WIDTH (hex_bytes (4 * WIDTH) (rev ds)))"

subsection \<open>The number an array stands for\<close>

fun limbs_value :: "limbs \<Rightarrow> nat" where
  "limbs_value [] = 0"
| "limbs_value (x # xs) = unat x + 2 ^ 32 * limbs_value xs"

lemma limbs_value_bound: "limbs_value xs < 2 ^ (32 * length xs)"
proof (induction xs)
  case (Cons x xs)
  have "unat x < 2 ^ 32" using unsigned_less [of x] by simp
  then have "unat x + 2 ^ 32 * limbs_value xs < 2 ^ 32 * (1 + limbs_value xs)" by simp
  also have "\<dots> \<le> 2 ^ 32 * 2 ^ (32 * length xs)" using Cons by (intro mult_le_mono) simp_all
  finally show ?case by (simp add: power_add)
qed simp

lemma bit_limbs_value:
  "bit (limbs_value xs) n \<longleftrightarrow> n div 32 < length xs \<and> bit (xs ! (n div 32)) (n mod 32)"
proof (induction xs arbitrary: n)
  case (Cons x xs)
  let ?m = "unat x + 2 ^ 32 * limbs_value xs"
  have x: "unat x < 2 ^ 32" using unsigned_less [of x] by simp
  have t: "take_bit 32 ?m = unat x" "drop_bit 32 ?m = limbs_value xs"
    using x by (simp_all add: take_bit_eq_mod drop_bit_eq_div)
  show ?case
  proof (cases "n < 32")
    case True
    then have "bit ?m n = bit (take_bit 32 ?m) n" by (simp add: bit_take_bit_iff)
    also have "\<dots> = bit x n" unfolding t(1) by (simp add: bit_unsigned_iff)
    finally show ?thesis using True by simp
  next
    case False
    then have "bit ?m n = bit (drop_bit 32 ?m) (n - 32)" by (simp add: bit_drop_bit_eq)
    moreover have "n div 32 = Suc ((n - 32) div 32)" "n mod 32 = (n - 32) mod 32"
      using False by (simp_all add: le_div_geq le_mod_geq)
    ultimately show ?thesis unfolding t(2) by (simp add: Cons.IH)
  qed
qed simp

text \<open>Two arrays of one length with the same bits are the same number.\<close>

lemma limbs_value_inj: "length xs = length ys \<Longrightarrow> limbs_value xs = limbs_value ys \<longleftrightarrow> xs = ys"
proof (induction xs ys rule: list_induct2)
  case (Cons x xs y ys)
  have "unat x < 2 ^ 32" "unat y < 2 ^ 32" using unsigned_less [of x] unsigned_less [of y] by simp_all
  then have "unat x + 2 ^ 32 * m = unat y + 2 ^ 32 * n \<longleftrightarrow> unat x = unat y \<and> m = n" for m n :: nat
    by (metis (no_types, opaque_lifting) add_left_imp_eq div_mult_self4 add.commute mod_less mod_mult_self2 mult_left_cancel div_less add_0 power_not_zero zero_neq_numeral)
  then show ?case using Cons by (simp only: limbs_value.simps) (simp add: word_unat_eq_iff)
qed simp

lemma limbs_value_append: "limbs_value (xs @ ys) = limbs_value xs + 2 ^ (32 * length xs) * limbs_value ys"
  by (induction xs) (simp_all add: power_add algebra_simps)

subsection \<open>The loops and the numbers\<close>

lemma limbs_bitwise:
  assumes "length a = length b"
  shows "limbs_value (bu_xor a b) = limbs_value a XOR limbs_value b"
    "limbs_value (bu_and a b) = limbs_value a AND limbs_value b"
    "limbs_value (bu_or a b) = limbs_value a OR limbs_value b"
  using assms
  by (auto intro!: bit_eqI simp: bit_limbs_value bu_xor_def bu_and_def bu_or_def bit_xor_iff bit_and_iff bit_or_iff)

lemma length_add_loop: "length xs = length ys \<Longrightarrow> length (add_loop c xs ys) = length xs"
  by (induction c xs ys rule: add_loop.induct) (simp_all add: Let_def)

lemma mod_limb: "0 < B \<Longrightarrow> (m + B * k) mod (B * M) = m mod B + B * ((m div B + k) mod M)" for B m k M :: nat
  by (simp add: mod_mult2_eq add.commute)

lemma add_loop_value:
  assumes "length xs = length ys" "unat c \<le> 1"
  shows "limbs_value (add_loop c xs ys) = (unat c + limbs_value xs + limbs_value ys) mod 2 ^ (32 * length xs)"
  using assms
proof (induction xs ys arbitrary: c rule: list_induct2)
  case (Cons x xs y ys)
  define n where "n = c + ucast x + ucast y"
  have x: "unat x < 2 ^ 32" and y: "unat y < 2 ^ 32" using unsigned_less [of x] unsigned_less [of y] by simp_all
  have ux: "unat (ucast x :: uint64) = unat x" "unat (ucast y :: uint64) = unat y"
    using x y by (simp_all add: unsigned_ucast_eq take_bit_nat_eq_self)
  have n: "unat n = unat c + unat x + unat y"
    unfolding n_def using Cons.prems x y by (simp add: unat_word_ariths ux)
  have "n AND 0xffffffff = take_bit 32 n"
    by (simp add: take_bit_eq_mask mask_eq_exp_minus_1)
  then have lo: "unat (ucast (n AND 0xffffffff) :: uint32) = unat n mod 2 ^ 32"
    by (simp only: unsigned_ucast_eq unsigned_take_bit_eq) (simp add: take_bit_eq_mod)
  have hi: "unat (drop_bit 32 n) = unat n div 2 ^ 32"
    using unsigned_less [of n, where ?'a = nat]
    by (simp only: unsigned_drop_bit_eq) (simp add: drop_bit_eq_div take_bit_nat_eq_self)
  have "unat (drop_bit 32 n) \<le> 1" unfolding hi n using Cons.prems x y by simp
  from Cons.IH [OF this]
  have "limbs_value (add_loop c (x # xs) (y # ys)) =
      unat n mod 2 ^ 32 + 2 ^ 32 * ((unat n div 2 ^ 32 + limbs_value xs + limbs_value ys) mod 2 ^ (32 * length xs))"
    by (simp only: add_loop.simps Let_def n_def [symmetric] limbs_value.simps lo hi)
  also have "\<dots> = (unat n + 2 ^ 32 * (limbs_value xs + limbs_value ys)) mod (2 ^ 32 * 2 ^ (32 * length xs))"
    unfolding add.assoc by (rule mod_limb [symmetric]) simp
  finally show ?case by (simp add: n power_add algebra_simps)
qed simp

lemma bu_add_value:
  "length a = length b \<Longrightarrow> limbs_value (bu_add a b) = (limbs_value a + limbs_value b) mod 2 ^ (32 * length a)"
  using add_loop_value [of a b 0] by (simp add: bu_add_def)

lemma length_bu_inc_dec [simp]: "length (bu_inc a) = length a" "length (bu_dec a) = length a"
  by (induction a) simp_all

lemma unat_plus_1:
  fixes x :: uint32
  shows "x + 1 = 0 \<longleftrightarrow> unat x = 2 ^ 32 - 1" "x + 1 \<noteq> 0 \<Longrightarrow> unat (x + 1) = unat x + 1"
proof -
  have x: "unat x < 2 ^ 32" using unsigned_less [of x] by simp
  have m: "unat (x + 1) = (unat x + 1) mod 2 ^ 32" by (simp add: unat_word_ariths)
  have z: "x + 1 = 0 \<longleftrightarrow> unat (x + 1) = 0" by (simp add: word_unat_eq_iff)
  show "x + 1 = 0 \<longleftrightarrow> unat x = 2 ^ 32 - 1"
  proof (cases "unat x = 2 ^ 32 - 1")
    case True
    then show ?thesis by (simp only: z m) simp
  next
    case False
    with x have "unat x + 1 < 2 ^ 32" by linarith
    with False show ?thesis by (simp only: z m mod_less) simp
  qed
  then show "x + 1 \<noteq> 0 \<Longrightarrow> unat (x + 1) = unat x + 1"
    using x by (simp add: m)
qed

lemma bu_inc_value: "a \<noteq> [] \<Longrightarrow> limbs_value (bu_inc a) = (limbs_value a + 1) mod 2 ^ (32 * length a)"
proof (induction a)
  case (Cons x a)
  have b: "limbs_value a < 2 ^ (32 * length a)" by (rule limbs_value_bound)
  show ?case
  proof (cases "x + 1 = 0 \<and> a \<noteq> []")
    case True
    with Cons.IH have "limbs_value (bu_inc (x # a)) = 2 ^ 32 * ((limbs_value a + 1) mod 2 ^ (32 * length a))"
      by simp
    also have "\<dots> = (2 ^ 32 * (limbs_value a + 1)) mod (2 ^ 32 * 2 ^ (32 * length a))" by (simp only: mult_mod_right)
    also have "2 ^ 32 * (limbs_value a + 1) = limbs_value (x # a) + 1" using True unat_plus_1(1) [of x] by simp
    finally show ?thesis by (simp add: power_add)
  next
    case False
    show ?thesis
    proof (cases "x + 1 = 0")
      case True
      with False unat_plus_1 [of x] show ?thesis by simp
    next
      case False
      have inc: "limbs_value (bu_inc (x # a)) = limbs_value (x # a) + 1" using False unat_plus_1(2) [of x] by simp
      have "limbs_value (bu_inc (x # a)) < 2 ^ (32 * length (x # a))"
        using limbs_value_bound [of "bu_inc (x # a)"] by (simp only: length_bu_inc_dec)
      then show ?thesis unfolding inc by (rule mod_less [symmetric])
    qed
  qed
qed simp

lemma bu_not_value: "limbs_value (bu_not a) + limbs_value a + 1 = 2 ^ (32 * length a)"
proof (induction a)
  case (Cons x a)
  have "NOT x = - 1 - x" by (simp add: not_eq_complement)
  then have "unat (NOT x) = unat (- 1 :: uint32) - unat x" by (simp only: unat_sub [OF word_n1_ge])
  then have "unat (NOT x) + unat x + 1 = 2 ^ 32"
    using unsigned_less [of x, where ?'a = nat] by (simp add: unsigned_minus_1_eq_mask mask_eq_exp_minus_1)
  then have "limbs_value (bu_not (x # a)) + limbs_value (x # a) + 1 = 2 ^ 32 * (limbs_value (bu_not a) + limbs_value a + 1)"
    by (simp add: bu_not_def)
  also have "\<dots> = 2 ^ 32 * 2 ^ (32 * length a)" by (simp only: Cons.IH)
  finally show ?case by (simp add: power_add)
qed (simp add: bu_not_def)

lemma length_bu_not [simp]: "length (bu_not a) = length a"
  by (simp add: bu_not_def)

lemma bu_neg_value:
  assumes "a \<noteq> []" shows "(limbs_value (bu_neg a) + limbs_value a) mod 2 ^ (32 * length a) = 0"
proof -
  have "bu_not a \<noteq> []" using assms by (simp add: bu_not_def)
  from bu_inc_value [OF this] have "limbs_value (bu_neg a) = (limbs_value (bu_not a) + 1) mod 2 ^ (32 * length a)"
    by (simp add: bu_neg_def)
  then have "(limbs_value (bu_neg a) + limbs_value a) mod 2 ^ (32 * length a) =
      (limbs_value (bu_not a) + limbs_value a + 1) mod 2 ^ (32 * length a)" by (simp add: mod_simps ac_simps)
  then show ?thesis by (simp only: bu_not_value) simp
qed

lemma unat_minus_1: "x - 1 = - 1 \<longleftrightarrow> x = 0" "x \<noteq> 0 \<Longrightarrow> unat (x - 1) + 1 = unat x" for x :: uint32
proof -
  show "x - 1 = - 1 \<longleftrightarrow> x = 0" by simp
  assume "x \<noteq> 0"
  then show "unat (x - 1) + 1 = unat x" using unat_plus_1(2) [of "x - 1"] by simp
qed

lemma bu_dec_value: "a \<noteq> [] \<Longrightarrow> (limbs_value (bu_dec a) + 1) mod 2 ^ (32 * length a) = limbs_value a"
proof (induction a)
  case (Cons x a)
  show ?case
  proof (cases "x = 0")
    case False
    with unat_minus_1 [of x] have "limbs_value (bu_dec (x # a)) + 1 = limbs_value (x # a)" by simp
    then show ?thesis using limbs_value_bound [of "x # a"] by (simp only: mod_less)
  next
    case True
    have m: "unat (- 1 :: uint32) + 1 = 2 ^ 32" by (simp add: unsigned_minus_1_eq_mask mask_eq_exp_minus_1)
    show ?thesis
    proof (cases "a = []")
      case True
      with \<open>x = 0\<close> m show ?thesis by simp
    next
      case False
      with \<open>x = 0\<close> m have "limbs_value (bu_dec (x # a)) + 1 = 2 ^ 32 * (limbs_value (bu_dec a) + 1)" by simp
      also have "\<dots> mod (2 ^ 32 * 2 ^ (32 * length a)) = 2 ^ 32 * limbs_value a"
        using Cons.IH [OF False] by (simp only: mult_mod_right [symmetric])
      finally show ?thesis using \<open>x = 0\<close> by (simp add: power_add)
    qed
  qed
qed simp

subsection \<open>Shifts by bits\<close>

lemma shl_round_nth:
  assumes "length pn = length a" "j < length a"
  shows "shl_round a k s i pn ! j =
    (if j = i + k then pn ! j OR push_bit s (a ! i)
     else if j = i + k + 1 \<and> s \<noteq> 0 then pn ! j OR drop_bit (32 - s) (a ! i) else pn ! j)"
  using assms by (simp add: shl_round_def Let_def nth_list_update)

lemma shl_fold:
  fixes a :: limbs and k s :: nat
  assumes "m \<le> length a"
  defines "r \<equiv> \<lambda>m. fold (shl_round a k s) [0..<m] (replicate (length a) 0)"
  shows "length (r m) = length a \<and>
    (\<forall>j < length a. r m ! j =
       (if k \<le> j \<and> j - k < m then push_bit s (a ! (j - k)) else 0) OR
       (if k + 1 \<le> j \<and> j - k - 1 < m \<and> s \<noteq> 0 then drop_bit (32 - s) (a ! (j - k - 1)) else 0))"
  using assms(1)
proof (induction m)
  case 0
  then show ?case by (simp add: r_def)
next
  case (Suc m)
  have r: "r (Suc m) = shl_round a k s m (r m)" by (simp add: r_def)
  from Suc have l: "length (r m) = length a" by simp
  then have "length (r (Suc m)) = length a" by (simp add: r shl_round_def Let_def)
  moreover have "r (Suc m) ! j =
       (if k \<le> j \<and> j - k < Suc m then push_bit s (a ! (j - k)) else 0) OR
       (if k + 1 \<le> j \<and> j - k - 1 < Suc m \<and> s \<noteq> 0 then drop_bit (32 - s) (a ! (j - k - 1)) else 0)"
    if j: "j < length a" for j
  proof -
    from Suc j have IH: "r m ! j =
       (if k \<le> j \<and> j - k < m then push_bit s (a ! (j - k)) else 0) OR
       (if k + 1 \<le> j \<and> j - k - 1 < m \<and> s \<noteq> 0 then drop_bit (32 - s) (a ! (j - k - 1)) else 0)" by simp
    consider "j = m + k" | "j = m + k + 1" | (other) "j \<noteq> m + k" "j \<noteq> m + k + 1" by blast
    then show ?thesis
    proof cases
      case other
      then have e: "k \<le> j \<and> j - k < Suc m \<longleftrightarrow> k \<le> j \<and> j - k < m"
        "k + 1 \<le> j \<and> j - k - 1 < Suc m \<and> s \<noteq> 0 \<longleftrightarrow> k + 1 \<le> j \<and> j - k - 1 < m \<and> s \<noteq> 0" by auto
      from other show ?thesis unfolding r shl_round_nth [OF l j] IH e by simp
    qed (unfold r shl_round_nth [OF l j] IH, auto simp: or.commute)
  qed
  ultimately show ?case by simp
qed

lemma shr_round_nth:
  assumes "length pn = length a" "j < length a" "i < length a"
  shows "shr_round a k s i pn ! j =
    (if i = j + k then pn ! j OR drop_bit s (a ! i)
     else if i = j + k + 1 \<and> s \<noteq> 0 then pn ! j OR push_bit (32 - s) (a ! i) else pn ! j)"
  using assms by (auto simp: shr_round_def Let_def nth_list_update)

lemma shr_fold:
  fixes a :: limbs and k s :: nat
  assumes "m \<le> length a"
  defines "r \<equiv> \<lambda>m. fold (shr_round a k s) [0..<m] (replicate (length a) 0)"
  shows "length (r m) = length a \<and>
    (\<forall>j < length a. r m ! j =
       (if j + k < m then drop_bit s (a ! (j + k)) else 0) OR
       (if j + k + 1 < m \<and> s \<noteq> 0 then push_bit (32 - s) (a ! (j + k + 1)) else 0))"
  using assms(1)
proof (induction m)
  case 0
  then show ?case by (simp add: r_def)
next
  case (Suc m)
  have r: "r (Suc m) = shr_round a k s m (r m)" by (simp add: r_def)
  from Suc have l: "length (r m) = length a" and m: "m < length a" by simp_all
  then have "length (r (Suc m)) = length a" by (simp add: r shr_round_def Let_def)
  moreover have "r (Suc m) ! j =
       (if j + k < Suc m then drop_bit s (a ! (j + k)) else 0) OR
       (if j + k + 1 < Suc m \<and> s \<noteq> 0 then push_bit (32 - s) (a ! (j + k + 1)) else 0)"
    if j: "j < length a" for j
  proof -
    from Suc j have IH: "r m ! j =
       (if j + k < m then drop_bit s (a ! (j + k)) else 0) OR
       (if j + k + 1 < m \<and> s \<noteq> 0 then push_bit (32 - s) (a ! (j + k + 1)) else 0)" by simp
    consider "m = j + k" | "m = j + k + 1" | (other) "m \<noteq> j + k" "m \<noteq> j + k + 1" by blast
    then show ?thesis
    proof cases
      case other
      then have "j + k < Suc m \<longleftrightarrow> j + k < m" "j + k + 1 < Suc m \<longleftrightarrow> j + k + 1 < m" by auto
      with other show ?thesis unfolding r shr_round_nth [OF l j m] IH by simp
    qed (unfold r shr_round_nth [OF l j m] IH, auto simp: or.commute)
  qed
  ultimately show ?case by simp
qed

lemma length_shifts [simp]: "length (bu_shl a n) = length a" "length (bu_shr a n) = length a"
  using shl_fold [of "length a" a] shr_fold [of "length a" a] by (simp_all add: bu_shl_def bu_shr_def)

text \<open>Positions of a bit before and after a shift.\<close>

lemma bit_limbs_at: "b < 32 \<Longrightarrow> bit (limbs_value a) (32 * j + b) \<longleftrightarrow> j < length a \<and> bit (a ! j) b"
  by (simp add: bit_limbs_value)

lemma bit_shl_limb:
  assumes "j < length a" "b < 32" "s < 32"
  shows "bit (bu_shl a (32 * k + s) ! j) b \<longleftrightarrow> 32 * k + s \<le> 32 * j + b \<and> bit (limbs_value a) (32 * j + b - (32 * k + s))"
proof -
  have limb: "bu_shl a (32 * k + s) ! j =
      (if k \<le> j then push_bit s (a ! (j - k)) else 0) OR
      (if k + 1 \<le> j \<and> s \<noteq> 0 then drop_bit (32 - s) (a ! (j - k - 1)) else 0)"
    using shl_fold [of "length a" a k s] assms(1,3) by (auto simp: bu_shl_def)
  show ?thesis
  proof (cases "s \<le> b")
    case True
    have "\<not> bit (drop_bit (32 - s) (a ! i)) b" for i
      using True bit_imp_le_length [of "a ! i" "32 - s + b"] assms(3) by (auto simp: bit_drop_bit_eq)
    then have l: "bit (bu_shl a (32 * k + s) ! j) b \<longleftrightarrow> k \<le> j \<and> bit (a ! (j - k)) (b - s)"
      using True assms by (simp add: limb bit_or_iff bit_push_bit_iff)
    have r: "32 * k + s \<le> 32 * j + b \<longleftrightarrow> k \<le> j" using True assms by linarith
    show ?thesis
    proof (cases "k \<le> j")
      case kj: True
      then have n: "32 * j + b - (32 * k + s) = 32 * (j - k) + (b - s)" using True by auto
      have "b - s < 32" "j - k < length a" using assms by auto
      with kj show ?thesis unfolding l r n bit_limbs_at [OF \<open>b - s < 32\<close>] by simp
    qed (simp add: l r)
  next
    case False
    have l: "bit (bu_shl a (32 * k + s) ! j) b \<longleftrightarrow> k + 1 \<le> j \<and> bit (a ! (j - k - 1)) (32 - s + b)"
      using False assms by (simp add: limb bit_or_iff bit_push_bit_iff bit_drop_bit_eq)
    have r: "32 * k + s \<le> 32 * j + b \<longleftrightarrow> k + 1 \<le> j" using False assms by linarith
    show ?thesis
    proof (cases "k + 1 \<le> j")
      case kj: True
      then have n: "32 * j + b - (32 * k + s) = 32 * (j - k - 1) + (32 - s + b)" using False assms by auto
      have "32 - s + b < 32" "j - k - 1 < length a" using assms False by auto
      with kj show ?thesis unfolding l r n bit_limbs_at [OF \<open>32 - s + b < 32\<close>] by simp
    qed (simp add: l r)
  qed
qed

lemma bit_shr_limb:
  assumes "j < length a" "b < 32" "s < 32"
  shows "bit (bu_shr a (32 * k + s) ! j) b \<longleftrightarrow> bit (limbs_value a) (32 * j + b + (32 * k + s))"
proof -
  have limb: "bu_shr a (32 * k + s) ! j =
      (if j + k < length a then drop_bit s (a ! (j + k)) else 0) OR
      (if j + k + 1 < length a \<and> s \<noteq> 0 then push_bit (32 - s) (a ! (j + k + 1)) else 0)"
    using shr_fold [of "length a" a k s] assms(1,3) by (auto simp: bu_shr_def)
  show ?thesis
  proof (cases "b + s < 32")
    case True
    have n: "32 * j + b + (32 * k + s) = 32 * (j + k) + (b + s)" by simp
    from True assms show ?thesis
      unfolding n bit_limbs_at [OF True] limb
      by (auto simp: bit_or_iff bit_push_bit_iff bit_drop_bit_eq add.commute)
  next
    case False
    have n: "32 * j + b + (32 * k + s) = 32 * (j + k + 1) + (b + s - 32)" using False by simp
    have "\<not> bit (drop_bit s (a ! i)) b" for i
      using False bit_imp_le_length [of "a ! i" "s + b"] by (auto simp: bit_drop_bit_eq)
    moreover have "b + s - 32 = b - (32 - s)" "b + s - 32 < 32" using False assms by simp_all
    ultimately show ?thesis
      unfolding n bit_limbs_at [OF \<open>b + s - 32 < 32\<close>]
      using False assms by (auto simp: limb bit_or_iff bit_push_bit_iff)
  qed
qed

lemma bu_shl_value: "limbs_value (bu_shl a n) = take_bit (32 * length a) (push_bit n (limbs_value a))"
proof (rule bit_eqI)
  fix m :: nat
  have "m div 32 < length a \<longleftrightarrow> m < 32 * length a" by (simp add: less_mult_imp_div_less div_less_iff_less_mult mult.commute)
  then show "bit (limbs_value (bu_shl a n)) m \<longleftrightarrow> bit (take_bit (32 * length a) (push_bit n (limbs_value a))) m"
    using bit_shl_limb [of "m div 32" a "m mod 32" "n mod 32" "n div 32"]
    by (auto simp: bit_limbs_value [of "bu_shl a n"] bit_take_bit_iff bit_push_bit_iff)
qed

lemma bu_shr_value: "limbs_value (bu_shr a n) = drop_bit n (limbs_value a)"
proof (rule bit_eqI)
  fix m :: nat
  have "bit (limbs_value a) (m + n) \<Longrightarrow> m div 32 < length a"
    by (auto simp: bit_limbs_value intro: le_less_trans [OF div_le_mono])
  then show "bit (limbs_value (bu_shr a n)) m \<longleftrightarrow> bit (drop_bit n (limbs_value a)) m"
    using bit_shr_limb [of "m div 32" a "m mod 32" "n mod 32" "n div 32"]
    by (auto simp: bit_limbs_value [of "bu_shr a n"] bit_drop_bit_eq add.commute)
qed

subsection \<open>Order\<close>

lemma less_loop_value:
  assumes "length a = length b"
  shows "less_loop eq (rev a) (rev b) \<longleftrightarrow> limbs_value a < limbs_value b \<or> eq \<and> limbs_value a = limbs_value b"
  using assms
proof (induction a arbitrary: b rule: rev_induct)
  case (snoc x a)
  then obtain y b' where b: "b = b' @ [y]" "length a = length b'" by (cases b rule: rev_cases) auto
  define B where "B = (2 :: nat) ^ (32 * length a)"
  have l: "limbs_value a < B" "limbs_value b' < B"
    using limbs_value_bound [of a] limbs_value_bound [of b'] b(2) by (simp_all add: B_def)
  have v: "limbs_value (a @ [x]) = limbs_value a + B * unat x" "limbs_value b = limbs_value b' + B * unat y"
    using b by (simp_all add: limbs_value_append B_def)
  have less: "limbs_value a + B * unat x < limbs_value b' + B * unat y" if "unat x < unat y"
  proof -
    have "limbs_value a + B * unat x < B * (unat x + 1)" using l by simp
    also have "\<dots> \<le> B * unat y" using that by (intro mult_le_mono) simp_all
    finally show ?thesis by simp
  qed
  have greater: "limbs_value b' + B * unat y < limbs_value a + B * unat x" if "unat y < unat x"
  proof -
    have "limbs_value b' + B * unat y < B * (unat y + 1)" using l by simp
    also have "\<dots> \<le> B * unat x" using that by (intro mult_le_mono) simp_all
    finally show ?thesis by simp
  qed
  show ?case
    using less greater snoc.IH [OF b(2)] unfolding v
    by (cases "x < y"; cases "y < x") (auto simp: b word_less_nat_alt)
qed simp

subsection \<open>Arrays as machine words\<close>

definition limbs_word :: "limbs \<Rightarrow> 'a::len word" where
  "limbs_word a = word_of_nat (limbs_value a)"

definition word_limbs :: "nat \<Rightarrow> 'a::len word \<Rightarrow> limbs" where
  "word_limbs WIDTH w = map (\<lambda>i. ucast (drop_bit (32 * i) w)) [0..<WIDTH]"

text \<open>The width of a class: at least two limbs, and a word type with as many bits.\<close>

locale uint_width =
  fixes WIDTH :: nat and T :: "'a::len itself"
  assumes bits: "LENGTH('a) = 32 * WIDTH" and wide: "2 \<le> WIDTH"
begin

definition fits :: "limbs \<Rightarrow> bool" where
  "fits a \<longleftrightarrow> length a = WIDTH"

definition word :: "limbs \<Rightarrow> 'a word" where
  "word a = limbs_word a"

lemma unat_word: "fits a \<Longrightarrow> unat (word a) = limbs_value a"
  using limbs_value_bound [of a] bits by (simp add: fits_def word_def limbs_word_def unat_of_nat)

lemma word_eqI: "limbs_value a mod 2 ^ LENGTH('a) = unat w \<Longrightarrow> word a = w"
  by (simp add: word_unat_eq_iff word_def limbs_word_def unat_of_nat)

lemma nonempty: "fits a \<Longrightarrow> a \<noteq> []"
  using wide by (auto simp: fits_def)

lemma word_inj: "fits a \<Longrightarrow> fits b \<Longrightarrow> word a = word b \<longleftrightarrow> a = b"
  using limbs_value_inj [of a b] unat_word by (metis fits_def)

lemma word_add: "fits a \<Longrightarrow> fits b \<Longrightarrow> word (bu_add a b) = word a + word b"
  by (rule word_eqI) (simp add: bu_add_value unat_word_ariths unat_word bits fits_def [of a] fits_def [of b])

lemma word_inc: "fits a \<Longrightarrow> word (bu_inc a) = word a + 1"
  by (rule word_eqI) (simp add: bu_inc_value nonempty unat_word_ariths unat_word bits fits_def [of a])

lemma fits_ops [simp]:
  "fits a \<Longrightarrow> fits (bu_not a)" "fits a \<Longrightarrow> fits (bu_neg a)" "fits a \<Longrightarrow> fits (bu_inc a)" "fits a \<Longrightarrow> fits (bu_dec a)"
  "fits a \<Longrightarrow> fits (bu_shl a n)" "fits a \<Longrightarrow> fits (bu_shr a n)" "fits (bu_of_u64 WIDTH x)"
  using wide by (simp_all add: fits_def bu_neg_def bu_of_u64_def)

lemma word_neg: "fits a \<Longrightarrow> word (bu_neg a) = - word a"
proof -
  assume a: "fits a"
  have "unat (word (bu_neg a) + word a) = 0"
    using bu_neg_value [OF nonempty [OF a]] a by (simp add: unat_word_ariths unat_word bits fits_def [of a])
  then have "word (bu_neg a) + word a = 0" by (simp add: word_unat_eq_iff)
  then show ?thesis by (simp add: eq_neg_iff_add_eq_0)
qed

lemma word_sub: "fits a \<Longrightarrow> fits b \<Longrightarrow> word (bu_sub a b) = word a - word b"
  by (simp add: bu_sub_def word_add word_neg)

lemma word_dec: "fits a \<Longrightarrow> word (bu_dec a) = word a - 1"
proof -
  assume a: "fits a"
  have "unat (word (bu_dec a) + 1) = unat (word a)"
    using bu_dec_value [OF nonempty [OF a]] a by (simp add: unat_word_ariths unat_word bits fits_def [of a])
  then show ?thesis by (simp add: word_unat_eq_iff [symmetric] eq_diff_eq)
qed

lemma word_bits:
  assumes "fits a" "fits b"
  shows "word (bu_xor a b) = word a XOR word b" "word (bu_and a b) = word a AND word b" "word (bu_or a b) = word a OR word b"
  using assms limbs_bitwise [of a b]
  by (simp_all add: fits_def word_def limbs_word_def of_nat_xor_eq of_nat_and_eq of_nat_or_eq)

lemma word_not: "fits a \<Longrightarrow> word (bu_not a) = NOT (word a)"
  using word_inc [of "bu_not a"] word_neg [of a] by (simp add: bu_neg_def not_eq_complement algebra_simps)

lemma word_shifts:
  assumes "fits a"
  shows "word (bu_shl a n) = push_bit n (word a)" "word (bu_shr a n) = drop_bit n (word a)"
proof -
  show "word (bu_shl a n) = push_bit n (word a)"
    using assms by (intro word_eqI) (simp add: bu_shl_value unsigned_push_bit_eq unat_word bits fits_def take_bit_eq_mod)
  show "word (bu_shr a n) = drop_bit n (word a)"
  proof -
    have "limbs_value a < 2 ^ LENGTH('a)" using limbs_value_bound [of a] assms bits by (simp add: fits_def)
    then have t: "take_bit LENGTH('a) (limbs_value a) = limbs_value a" by (rule take_bit_nat_eq_self)
    show ?thesis
      unfolding word_unat_eq_iff unsigned_drop_bit_eq unat_word [OF assms] t
      using unat_word [OF fits_ops(6) [OF assms, of n]] by (simp add: bu_shr_value)
  qed
qed

lemma word_order:
  assumes "fits a" "fits b"
  shows "bu_less a b \<longleftrightarrow> word a < word b" "bu_le a b \<longleftrightarrow> word a \<le> word b" "bu_greater a b \<longleftrightarrow> word b < word a"
    "bu_ge a b \<longleftrightarrow> word b \<le> word a" "bu_eq a b \<longleftrightarrow> word a = word b"
proof -
  have l: "length a = length b" using assms by (simp add: fits_def)
  have v: "unat (word a) = limbs_value a" "unat (word b) = limbs_value b" using assms by (simp_all add: unat_word)
  show "bu_less a b \<longleftrightarrow> word a < word b" unfolding bu_less_def less_loop_value [OF l] word_less_nat_alt v by simp
  show "bu_le a b \<longleftrightarrow> word a \<le> word b" unfolding bu_le_def less_loop_value [OF l] word_le_nat_alt v by auto
  show "bu_greater a b \<longleftrightarrow> word b < word a" unfolding bu_greater_def less_loop_value [OF l [symmetric]] word_less_nat_alt v by simp
  show "bu_ge a b \<longleftrightarrow> word b \<le> word a" unfolding bu_ge_def less_loop_value [OF l [symmetric]] word_le_nat_alt v by auto
  show "bu_eq a b \<longleftrightarrow> word a = word b" using word_inj [OF assms] by (simp add: bu_eq_def list.rel_eq)
qed

lemma word_u64: "word (bu_of_u64 WIDTH x) = ucast x"
proof -
  have "limbs_value (replicate n 0) = 0" for n by (induction n) simp_all
  then have "limbs_value (bu_of_u64 WIDTH x) = unat (ucast x :: uint32) + 2 ^ 32 * unat (ucast (drop_bit 32 x) :: uint32)"
    by (simp add: bu_of_u64_def)
  also have "\<dots> = unat x"
  proof -
    have "unat x < 2 ^ 64" using unsigned_less [of x, where ?'a = nat] by simp
    then have "unat x div 2 ^ 32 < 2 ^ 32" by (simp add: less_mult_imp_div_less)
    moreover have "unat (drop_bit 32 x) = unat x div 2 ^ 32"
      using \<open>unat x < 2 ^ 64\<close> by (simp only: unsigned_drop_bit_eq) (simp add: drop_bit_eq_div take_bit_nat_eq_self)
    ultimately show ?thesis by (simp add: unsigned_ucast_eq take_bit_eq_mod)
  qed
  finally show ?thesis by (simp add: word_def limbs_word_def)
qed

end

interpretation u160: uint_width 5 "TYPE(160)" by unfold_locales simp_all
interpretation u256: uint_width 8 "TYPE(256)" by unfold_locales simp_all
interpretation u512: uint_width 16 "TYPE(512)" by unfold_locales simp_all

subsection \<open>Text read back\<close>

lemma length_limbs_bytes [simp]: "length (limbs_bytes pn) = 4 * length pn"
  by (induction pn) (simp_all add: limbs_bytes_def)

lemma limbs_of_bytes_back: "limbs_of_bytes (length pn) (limbs_bytes pn) = pn"
  by (induction pn) (simp_all add: limbs_bytes_def codec_simps)

lemma hex_chars:
  assumes "n < 16"
  shows "phexdigit (hex_char n) = n" "phexdigit (hex_char n) \<noteq> 0 \<or> hex_char n = CHR ''0''"
    "hex_char n \<noteq> CHR 0x00" "\<not> c_isspace (hex_char n)" "hex_char n \<noteq> CHR ''x''" "hex_char n \<noteq> CHR ''X''"
proof -
  have "n \<in> {0, 1, 2, 3, 4, 5, 6, 7, 8, 9, 10, 11, 12, 13, 14, 15}" using assms unfolding insert_iff empty_iff by presburger
  then show "phexdigit (hex_char n) = n" "phexdigit (hex_char n) \<noteq> 0 \<or> hex_char n = CHR ''0''"
    "hex_char n \<noteq> CHR 0x00" "\<not> c_isspace (hex_char n)" "hex_char n \<noteq> CHR ''x''" "hex_char n \<noteq> CHR ''X''"
    by (auto simp: hex_char_def phexdigit_def c_isspace_def Let_def)
qed

lemma byte_halves: "unat b div 16 < 16" "unat b mod 16 < 16" for b :: byte
  using unat_byte_less [of b] by (simp_all add: less_mult_imp_div_less)

lemma hex_byte_back:
  "word_of_nat (unat b mod 16) OR push_bit 4 (word_of_nat (unat b div 16)) = (b :: byte)"
proof -
  have "word_of_nat (unat b mod 16) = take_bit 4 b" "word_of_nat (unat b div 16) = drop_bit 4 b"
    unfolding word_unat_eq_iff unsigned_take_bit_eq unsigned_drop_bit_eq
    by (simp_all add: unat_of_nat take_bit_eq_mod drop_bit_eq_div less_imp_diff_less byte_halves [THEN less_trans])
  then have "word_of_nat (unat b mod 16) OR push_bit 4 (word_of_nat (unat b div 16)) = take_bit 4 b OR push_bit 4 (drop_bit 4 b)"
    by simp
  also have "\<dots> = b"
  proof (rule bit_word_eqI)
    fix n assume "n < LENGTH(8)"
    then show "bit (take_bit 4 b OR push_bit 4 (drop_bit 4 b)) n = bit b n"
      by (cases "n < 4") (auto simp: bit_or_iff bit_take_bit_iff bit_push_bit_iff bit_drop_bit_eq)
  qed
  finally show ?thesis .
qed

lemma hex_bytes_back: "hex_bytes (length bs) (concat (map (rev \<circ> hex_byte) bs)) = bs"
  by (induction bs) (simp_all add: hex_byte_def hex_chars byte_halves hex_byte_back)

lemma hex_text:
  "rev (concat (map hex_byte (rev bs))) = concat (map (rev \<circ> hex_byte) bs)"
  "c \<in> set (concat (map hex_byte bs)) \<Longrightarrow> \<exists>n < 16. c = hex_char n"
proof -
  show "rev (concat (map hex_byte (rev bs))) = concat (map (rev \<circ> hex_byte) bs)"
    by (simp add: rev_concat rev_map comp_def)
  assume "c \<in> set (concat (map hex_byte bs))"
  then obtain b where "c \<in> set (hex_byte b)" by auto
  then have "c = hex_char (unat b div 16) \<or> c = hex_char (unat b mod 16)" by (auto simp: hex_byte_def)
  then show "\<exists>n < 16. c = hex_char n" using byte_halves by blast
qed

text \<open>The number that \<open>GetHex\<close> writes is read back by \<open>SetHex\<close>, at every width.\<close>

theorem SetHex_GetHex: "SetHex (length pn) (GetHex pn) = pn"
proof -
  define s where "s = GetHex pn"
  have all: "\<exists>n < 16. c = hex_char n" if "c \<in> set s" for c
    using that hex_text(2) unfolding s_def GetHex_def by blast
  have 1: "takeWhile (\<lambda>c. c \<noteq> CHR 0x00) s = s" using all hex_chars(3) by (fastforce simp: takeWhile_eq_all_conv)
  have 2: "dropWhile c_isspace s = s" using all hex_chars(4) by (cases s) auto
  have 3: "takeWhile (\<lambda>c. phexdigit c \<noteq> 0 \<or> c = CHR ''0'') s = s"
    using all hex_chars(2) by (fastforce simp: takeWhile_eq_all_conv)
  have 4: "\<not> (2 \<le> length s \<and> s ! 0 = CHR ''0'' \<and> (s ! 1 = CHR ''x'' \<or> s ! 1 = CHR ''X''))"
  proof
    assume x: "2 \<le> length s \<and> s ! 0 = CHR ''0'' \<and> (s ! 1 = CHR ''x'' \<or> s ! 1 = CHR ''X'')"
    then have "s ! 1 \<in> set s" by simp
    from all [OF this] obtain n where "n < 16" "s ! 1 = hex_char n" by blast
    with hex_chars(5,6) [of n] x show False by simp
  qed
  have "SetHex (length pn) s = limbs_of_bytes (length pn) (hex_bytes (4 * length pn) (rev s))"
    unfolding SetHex_def Let_def 1 2 if_not_P [OF 4] 3 ..
  also have "\<dots> = pn"
    using hex_bytes_back [of "limbs_bytes pn"] limbs_of_bytes_back [of pn]
    by (simp add: s_def GetHex_def hex_text(1))
  finally show ?thesis by (simp add: s_def)
qed

subsection \<open>The 64-bit operators\<close>

context uint_width
begin

lemma word_64:
  assumes "fits a"
  shows "word (bu_add64 a x) = word a + ucast x" "word (bu_sub64 a x) = word a - ucast x"
    "word (bu_xor64 a x) = word a XOR ucast x" "word (bu_or64 a x) = word a OR ucast x"
    "bu_eq64 a x \<longleftrightarrow> word a = ucast x" "bu_is_zero a \<longleftrightarrow> word a = 0"
proof -
  have l: "length a = WIDTH" using assms by (simp add: fits_def)
  then obtain p q r where a: "a = p # q # r" "length r = WIDTH - 2"
    using wide by (metis (no_types, lifting) Suc_1 Suc_le_length_iff diff_Suc_Suc diff_zero length_Cons numeral_2_eq_2)
  have u: "fits (bu_of_u64 WIDTH x)" "word (bu_of_u64 WIDTH x) = ucast x" by (simp_all add: word_u64)
  show "word (bu_add64 a x) = word a + ucast x" "word (bu_sub64 a x) = word a - ucast x"
    using assms u by (simp_all add: bu_add64_def bu_sub64_def l word_add word_neg)
  have zip: "map2 f r (replicate (WIDTH - 2) 0) = map (\<lambda>y. f y 0) r" for f :: "uint32 \<Rightarrow> uint32 \<Rightarrow> uint32"
    using a(2) by (auto intro!: nth_equalityI)
  have "bu_xor64 a x = bu_xor a (bu_of_u64 WIDTH x)" "bu_or64 a x = bu_or a (bu_of_u64 WIDTH x)"
    by (simp_all add: a bu_xor64_def bu_or64_def bu_xor_def bu_or_def bu_of_u64_def zip)
  with word_bits [OF assms u(1)] u(2) show "word (bu_xor64 a x) = word a XOR ucast x" "word (bu_or64 a x) = word a OR ucast x"
    by simp_all
  have all: "list_all (\<lambda>y. y = 0) r \<longleftrightarrow> r = replicate (WIDTH - 2) 0"
    by (auto simp: list_all_iff a(2) [symmetric] intro!: replicate_eqI dest: arg_cong [of _ _ set])
  then have "bu_eq64 a x \<longleftrightarrow> a = bu_of_u64 WIDTH x" by (auto simp: bu_eq64_def a bu_of_u64_def)
  also have "\<dots> \<longleftrightarrow> word a = ucast x" using word_inj [OF assms u(1)] u(2) by simp
  finally show "bu_eq64 a x \<longleftrightarrow> word a = ucast x" .
  have "bu_is_zero a \<longleftrightarrow> a = bu_of_u64 WIDTH 0" using all by (auto simp: bu_is_zero_def a bu_of_u64_def)
  also have "\<dots> \<longleftrightarrow> word a = 0" using word_inj [OF assms fits_ops(7) [of 0]] word_u64 [of 0] by simp
  finally show "bu_is_zero a \<longleftrightarrow> word a = 0" .
qed

end

text \<open>The operators of \<open>uint256\<close>, loops over eight limbs, are the operations of 256-bit machine words: bitwise
  operators, shifts by any amount, sums and differences with wrap-around, steps by one,
  order and equality.\<close>

theorem uint256_operators:
  assumes "length a = 8" and "length b = 8"
  defines "w \<equiv> limbs_word :: limbs \<Rightarrow> uint256"
  shows "w (bu_not a) = NOT (w a) \<and> w (bu_xor a b) = w a XOR w b \<and> w (bu_and a b) = w a AND w b \<and> w (bu_or a b) = w a OR w b \<and>
    w (bu_shl a n) = push_bit n (w a) \<and> w (bu_shr a n) = drop_bit n (w a) \<and>
    w (bu_add a b) = w a + w b \<and> w (bu_sub a b) = w a - w b \<and> w (bu_neg a) = - w a \<and>
    w (bu_inc a) = w a + 1 \<and> w (bu_dec a) = w a - 1 \<and>
    (bu_less a b \<longleftrightarrow> w a < w b) \<and> (bu_le a b \<longleftrightarrow> w a \<le> w b) \<and> (bu_greater a b \<longleftrightarrow> w b < w a) \<and>
    (bu_ge a b \<longleftrightarrow> w b \<le> w a) \<and> (bu_eq a b \<longleftrightarrow> w a = w b)"
proof -
  have f: "u256.fits a" "u256.fits b" using assms by (simp_all add: u256.fits_def)
  have w: "w = u256.word" by (simp add: fun_eq_iff w_def u256.word_def)
  show ?thesis
    unfolding w using f
    by (simp add: u256.word_not u256.word_bits u256.word_shifts u256.word_add u256.word_sub u256.word_neg
        u256.word_inc u256.word_dec u256.word_order)
qed

theorem uint256_operators_witness:
  "limbs_word (bu_add [4294967295, 7, 0, 0, 0, 0, 0, 0] [1, 0, 0, 0, 0, 0, 0, 0]) = (limbs_word [4294967295, 7, 0, 0, 0, 0, 0, 0] + limbs_word [1, 0, 0, 0, 0, 0, 0, 0] :: uint256) \<and>
   bu_add [4294967295, 7, 0, 0, 0, 0, 0, 0] [1, 0, 0, 0, 0, 0, 0, 0] = [0, 8, 0, 0, 0, 0, 0, 0]"
proof -
  have l: "length [4294967295, 7, 0, 0, 0, 0, 0, 0 :: uint32] = 8" "length [1, 0, 0, 0, 0, 0, 0, 0 :: uint32] = 8" by simp_all
  from uint256_operators [OF l] show ?thesis by (simp add: bu_add_def Let_def)
qed

end
