(* ===== verification/Base58.thy ===== *)
theory Base58
  imports Uint_Limbs Script_Solver
begin

text \<open>
  Base58 text (\<open>src/base58.h\<close>): encoding and decoding of bytes, the variant with a check sum,
  addresses and secret keys. A C string is the list of its characters before the zero byte.
\<close>

subsection \<open>Bytes as base58 text\<close>

definition pszBase58 :: string where
  "pszBase58 = ''123456789ABCDEFGHJKLMNPQRSTUVWXYZabcdefghijkmnopqrstuvwxyz''"

definition strchr :: "string \<Rightarrow> char \<Rightarrow> nat option" where
  "strchr s c = (if c \<in> set s then Some (length (takeWhile (\<lambda>d. d \<noteq> c) s)) else None)"

text \<open>The digits of a positive number, lowest first.\<close>

function encode58_loop :: "openssl \<Rightarrow> int \<Rightarrow> string" where
  "encode58_loop E bn =
     (if 0 < bn then pszBase58 ! BN_get_word E (bn mod 58) # encode58_loop E (bn div 58) else [])"
  by pat_completeness auto
termination by (relation "measure (\<lambda>(E, bn). nat bn)") auto

declare encode58_loop.simps [simp del]

definition EncodeBase58 :: "openssl \<Rightarrow> byte list \<Rightarrow> string" where
  "EncodeBase58 E bs =
     (let bn = setvch E (rev bs @ [0]);
          str = encode58_loop E bn @ map (\<lambda>_. pszBase58 ! 0) (takeWhile (\<lambda>b. b = 0) bs)
      in rev str)"

text \<open>The value of the text; \<open>None\<close> is a character that is neither a digit nor trailing space.\<close>

fun decode58_loop :: "string \<Rightarrow> int \<Rightarrow> int option" where
  "decode58_loop [] bn = Some bn"
| "decode58_loop (c # p) bn =
     (case strchr pszBase58 c of
        None \<Rightarrow> if dropWhile c_isspace (c # p) \<noteq> [] then None else Some bn
      | Some n \<Rightarrow> decode58_loop p (bn * 58 + int n))"

definition trim_sign :: "byte list \<Rightarrow> byte list" where
  "trim_sign vchTmp =
     (if 2 \<le> length vchTmp \<and> last vchTmp = 0 \<and> 0x80 \<le> vchTmp ! (length vchTmp - 2) then butlast vchTmp else vchTmp)"

definition DecodeBase58 :: "openssl \<Rightarrow> string \<Rightarrow> byte list option" where
  "DecodeBase58 E str =
     (let psz = dropWhile c_isspace (takeWhile (\<lambda>c. c \<noteq> CHR 0x00) str)
      in case decode58_loop psz 0 of None \<Rightarrow> None
         | Some bn \<Rightarrow>
             let vchTmp = trim_sign (getvch E bn);
                 nLeadingZeros = length (takeWhile (\<lambda>c. c = pszBase58 ! 0) psz)
             in Some (replicate nLeadingZeros 0 @ rev vchTmp))"

text \<open>A text that is not base58 leaves the bytes empty.\<close>

definition DecodeBase58_cstr :: "openssl \<Rightarrow> string \<Rightarrow> string" where
  "DecodeBase58_cstr E psz =
     concat (map hex_byte (case DecodeBase58 E psz of None \<Rightarrow> [] | Some vch \<Rightarrow> vch))"

subsection \<open>The check sum\<close>

definition check_bytes :: "openssl \<Rightarrow> byte list \<Rightarrow> byte list" where
  "check_bytes E vch = take 4 (bytes_of_u256 (Hash E vch))"

definition EncodeBase58Check :: "openssl \<Rightarrow> byte list \<Rightarrow> string" where
  "EncodeBase58Check E vchIn = EncodeBase58 E (vchIn @ check_bytes E vchIn)"

definition DecodeBase58Check :: "openssl \<Rightarrow> string \<Rightarrow> byte list option" where
  "DecodeBase58Check E psz =
     (case DecodeBase58 E psz of None \<Rightarrow> None
      | Some vch \<Rightarrow>
          if length vch < 4 then None
          else let n = length vch - 4
               in if check_bytes E (take n vch) \<noteq> drop n vch then None else Some (take n vch))"

subsection \<open>Versioned data\<close>

record CBase58Data =
  b58_nVersion :: byte
  b58_vchData :: "byte list"

definition SetData :: "int \<Rightarrow> byte list \<Rightarrow> CBase58Data" where
  "SetData nVersionIn data = \<lparr>b58_nVersion = word_of_int nVersionIn, b58_vchData = data\<rparr>"

definition b58_SetString :: "openssl \<Rightarrow> string \<Rightarrow> bool \<times> CBase58Data" where
  "b58_SetString E psz =
     (case DecodeBase58Check E psz of
        Some (v # data) \<Rightarrow> (True, \<lparr>b58_nVersion = v, b58_vchData = data\<rparr>)
      | _ \<Rightarrow> (False, \<lparr>b58_nVersion = 0, b58_vchData = []\<rparr>))"

definition b58_ToString :: "openssl \<Rightarrow> CBase58Data \<Rightarrow> string" where
  "b58_ToString E d = EncodeBase58Check E (b58_nVersion d # b58_vchData d)"

fun bytes_compare :: "byte list \<Rightarrow> byte list \<Rightarrow> int" where
  "bytes_compare [] [] = 0"
| "bytes_compare [] (_ # _) = - 1"
| "bytes_compare (_ # _) [] = 1"
| "bytes_compare (x # xs) (y # ys) = (if x < y then - 1 else if y < x then 1 else bytes_compare xs ys)"

definition CompareTo :: "CBase58Data \<Rightarrow> CBase58Data \<Rightarrow> int" where
  "CompareTo a b =
     (if b58_nVersion a < b58_nVersion b then - 1
      else if b58_nVersion b < b58_nVersion a then 1
      else bytes_compare (b58_vchData a) (b58_vchData b))"

subsection \<open>Addresses\<close>

definition PUBKEY_ADDRESS :: int where "PUBKEY_ADDRESS = 117"
definition SCRIPT_ADDRESS :: int where "SCRIPT_ADDRESS = 8"
definition PUBKEY_ADDRESS_TEST :: int where "PUBKEY_ADDRESS_TEST = 109"
definition SCRIPT_ADDRESS_TEST :: int where "SCRIPT_ADDRESS_TEST = 196"

text \<open>\<open>Set\<close>: an address for a destination; none is written for \<open>CNoDestination\<close>.\<close>

fun address_of :: "bool \<Rightarrow> CTxDestination \<Rightarrow> CBase58Data option" where
  "address_of fTestNet (CKeyID i) =
     Some (SetData (if fTestNet then PUBKEY_ADDRESS_TEST else PUBKEY_ADDRESS) (bytes_of_u160 i))"
| "address_of fTestNet (CScriptID i) =
     Some (SetData (if fTestNet then SCRIPT_ADDRESS_TEST else SCRIPT_ADDRESS) (bytes_of_u160 i))"
| "address_of fTestNet CNoDestination = None"

definition is_version :: "CBase58Data \<Rightarrow> int \<Rightarrow> bool" where
  "is_version d v \<longleftrightarrow> uint (b58_nVersion d) = v"

definition address_IsValid :: "bool \<Rightarrow> CBase58Data \<Rightarrow> bool" where
  "address_IsValid fTestNet d \<longleftrightarrow>
     (if is_version d PUBKEY_ADDRESS \<or> is_version d SCRIPT_ADDRESS then \<not> fTestNet \<and> length (b58_vchData d) = 20
      else if is_version d PUBKEY_ADDRESS_TEST \<or> is_version d SCRIPT_ADDRESS_TEST
      then fTestNet \<and> length (b58_vchData d) = 20
      else False)"

definition address_Get :: "bool \<Rightarrow> CBase58Data \<Rightarrow> CTxDestination" where
  "address_Get fTestNet d =
     (let id = word_of_nat (le_value (take 20 (b58_vchData d)))
      in if \<not> address_IsValid fTestNet d then CNoDestination
         else if is_version d PUBKEY_ADDRESS \<or> is_version d PUBKEY_ADDRESS_TEST then CKeyID id
         else CScriptID id)"

definition GetKeyID :: "bool \<Rightarrow> CBase58Data \<Rightarrow> uint160 option" where
  "GetKeyID fTestNet d =
     (if \<not> address_IsValid fTestNet d then None
      else if is_version d PUBKEY_ADDRESS \<or> is_version d PUBKEY_ADDRESS_TEST
      then Some (word_of_nat (le_value (take 20 (b58_vchData d)))) else None)"

definition address_IsScript :: "bool \<Rightarrow> CBase58Data \<Rightarrow> bool" where
  "address_IsScript fTestNet d \<longleftrightarrow>
     address_IsValid fTestNet d \<and> (is_version d SCRIPT_ADDRESS \<or> is_version d SCRIPT_ADDRESS_TEST)"

subsection \<open>Secret keys\<close>

text \<open>\<open>SetSecret\<close> asserts that the secret has 32 bytes; a failed assertion is \<open>None\<close>.\<close>

definition secret_of :: "bool \<Rightarrow> byte list \<Rightarrow> bool \<Rightarrow> CBase58Data option" where
  "secret_of fTestNet vchSecret fCompressed =
     (if length vchSecret \<noteq> 32 then None
      else Some (SetData (128 + (if fTestNet then PUBKEY_ADDRESS_TEST else PUBKEY_ADDRESS))
                   (vchSecret @ (if fCompressed then [1] else []))))"

text \<open>Fewer than 32 bytes would be read past their end.\<close>

definition secret_Get :: "CBase58Data \<Rightarrow> (byte list \<times> bool) option" where
  "secret_Get d =
     (if length (b58_vchData d) < 32 then None
      else Some (take 32 (b58_vchData d), length (b58_vchData d) = 33))"

definition secret_IsValid :: "bool \<Rightarrow> CBase58Data \<Rightarrow> bool" where
  "secret_IsValid fTestNet d \<longleftrightarrow>
     (if is_version d (128 + PUBKEY_ADDRESS) then \<not> fTestNet
      else if is_version d (128 + PUBKEY_ADDRESS_TEST) then fTestNet else False) \<and>
     (length (b58_vchData d) = 32 \<or> length (b58_vchData d) = 33 \<and> b58_vchData d ! 32 = 1)"

definition secret_SetString :: "openssl \<Rightarrow> bool \<Rightarrow> string \<Rightarrow> bool \<times> CBase58Data" where
  "secret_SetString E fTestNet psz =
     (case b58_SetString E psz of (ok, d) \<Rightarrow> (ok \<and> secret_IsValid fTestNet d, d))"

subsection \<open>Digits\<close>

lemma length_base58: "length pszBase58 = 58"
  by (simp add: pszBase58_def)

lemma base58_chars:
  "list_all (\<lambda>i. strchr pszBase58 (pszBase58 ! i) = Some i \<and> pszBase58 ! i \<noteq> CHR 0x00 \<and> \<not> c_isspace (pszBase58 ! i) \<and>
     (pszBase58 ! i = pszBase58 ! 0 \<longleftrightarrow> i = 0)) [0..<58]"
  by code_simp

lemma base58_char:
  assumes "i < 58"
  shows "strchr pszBase58 (pszBase58 ! i) = Some i" "pszBase58 ! i \<noteq> CHR 0x00" "\<not> c_isspace (pszBase58 ! i)"
    "pszBase58 ! i = pszBase58 ! 0 \<longleftrightarrow> i = 0"
  using base58_chars assms by (auto simp: list_all_iff)

fun digits58 :: "nat \<Rightarrow> nat list" where
  "digits58 n = (if 0 < n then n mod 58 # digits58 (n div 58) else [])"

declare digits58.simps [simp del]

lemma encode58_digits:
  assumes "bn_documented E"
  shows "encode58_loop E (int n) = map ((!) pszBase58) (digits58 n)"
proof (induction n rule: digits58.induct)
  case (1 n)
  show ?case
  proof (cases "0 < n")
    case True
    have w: "BN_get_word E (int n mod 58) = n mod 58"
      using bn_get_word [OF assms, of "int n mod 58"] by (simp add: nat_mod_distrib)
    have "int n div 58 = int (n div 58)" by simp
    with True 1 show ?thesis by (simp add: encode58_loop.simps [of E "int n"] digits58.simps [of n] w)
  qed (simp add: encode58_loop.simps digits58.simps)
qed

lemma digits58_less: "d \<in> set (digits58 n) \<Longrightarrow> d < 58"
proof (induction n rule: digits58.induct)
  case (1 n)
  then show ?case by (cases "0 < n") (auto simp: digits58.simps [of n])
qed

lemma digits58_last: "0 < n \<Longrightarrow> digits58 n \<noteq> [] \<and> last (digits58 n) \<noteq> 0"
proof (induction n rule: digits58.induct)
  case (1 n)
  show ?case
  proof (cases "0 < n div 58")
    case True
    with 1 show ?thesis by (simp add: digits58.simps [of n])
  next
    case False
    then have "digits58 (n div 58) = []" by (simp add: digits58.simps [of 0])
    moreover have "n mod 58 = n" using False by simp
    ultimately show ?thesis using 1(2) by (simp add: digits58.simps [of n])
  qed
qed

lemma decode58_digits:
  "\<forall>d \<in> set ds. d < 58 \<Longrightarrow>
   decode58_loop (map ((!) pszBase58) ds) bn = Some (foldl (\<lambda>v d. v * 58 + int d) bn ds)"
  by (induction ds arbitrary: bn) (simp_all add: base58_char(1))

lemma foldl_digits58: "foldl (\<lambda>v d. v * 58 + int d) 0 (rev (digits58 n)) = int n"
proof (induction n rule: digits58.induct)
  case (1 n)
  show ?case
  proof (cases "0 < n")
    case True
    have "int (n div 58) * 58 + int (n mod 58) = int n"
      by (metis div_mult_mod_eq of_nat_add of_nat_mult of_nat_numeral)
    with 1 True show ?thesis by (simp add: digits58.simps [of n])
  qed (simp add: digits58.simps)
qed

lemma foldl_zeros: "foldl (\<lambda>v d. v * 58 + int d) 0 (replicate z 0 @ ds) = foldl (\<lambda>v d. v * 58 + int d) 0 ds"
  by (induction z) simp_all

subsection \<open>Bytes of a number\<close>

lemma be_value_msb: "r \<noteq> [] \<Longrightarrow> hd r \<noteq> 0 \<Longrightarrow> byte_count (be_value r) = length r"
proof -
  assume r: "r \<noteq> []" "hd r \<noteq> 0"
  then obtain c cs where c: "r = c # cs" "c \<noteq> 0" by (cases r) auto
  have "be_value r < 256 ^ length r" by (rule be_value_bound)
  then have le: "byte_count (be_value r) \<le> length r" by (rule byte_count_le)
  have "1 \<le> unat c" using c(2) by (simp add: unat_gt_0 Suc_le_eq)
  then have "256 ^ length cs * 1 \<le> 256 ^ length cs * unat c" by (rule mult_le_mono2)
  moreover have "be_value r = le_value (rev cs) + 256 ^ length cs * unat c" by (simp add: c(1) be_value_def le_value_append)
  ultimately have "256 ^ length cs \<le> be_value r" by linarith
  moreover have "be_value r < 256 ^ byte_count (be_value r)" by (rule byte_count_bound)
  ultimately have "(256 :: nat) ^ length cs < 256 ^ byte_count (be_value r)" by linarith
  then have "length cs < byte_count (be_value r)" by (simp add: power_strict_increasing_iff)
  with le show ?thesis by (simp add: c)
qed

lemma trimmed_bytes:
  assumes "bn_documented E" "r = [] \<or> hd r \<noteq> 0"
  shows "rev (trim_sign (getvch E (int (be_value r)))) = r"
proof (cases r)
  case Nil
  then show ?thesis by (simp add: getvch_value [OF assms(1)] mpi_body_def trim_sign_def be_value_def be_bytes_def byte_count.simps)
next
  case (Cons c cs)
  then have r: "r \<noteq> []" "hd r \<noteq> 0" using assms(2) by auto
  have "be_bytes (byte_count (be_value r)) (be_value r) = r"
    unfolding be_value_msb [OF r] by (rule be_bytes_be_value) simp
  moreover have "mpi_body (int n) = mpi_signed False (be_bytes (byte_count n) n)" for n
    by (simp add: mpi_body_def)
  ultimately have "mpi_body (int (be_value r)) = mpi_signed False r" by simp
  then have b: "mpi_body (int (be_value r)) = (if 0x80 \<le> c then 0 # r else r)"
    unfolding Cons by (simp add: mpi_sign_byte_def)
  show ?thesis
  proof (cases "0x80 \<le> c")
    case True
    then have g: "getvch E (int (be_value r)) = rev r @ [0]" by (simp add: getvch_value [OF assms(1)] b)
    have "(rev r @ [0]) ! (length (rev r @ [0]) - 2) = c" by (simp add: Cons nth_append)
    with True have "trim_sign (rev r @ [0]) = butlast (rev r @ [0])" by (simp add: trim_sign_def Cons)
    then show ?thesis unfolding g by (simp only: butlast_snoc rev_rev_ident)
  next
    case False
    have g: "getvch E (int (be_value r)) = rev r" using False by (simp add: getvch_value [OF assms(1)] b)
    have "last (rev r) \<noteq> 0" using r by (simp add: last_rev)
    then show ?thesis unfolding g by (simp add: trim_sign_def)
  qed
qed

subsection \<open>Round trips\<close>

lemma split_zeros:
  obtains z r where "bs = replicate z 0 @ r" "r = [] \<or> hd r \<noteq> (0 :: byte)" "takeWhile (\<lambda>b. b = 0) bs = replicate z 0"
proof
  have z: "takeWhile (\<lambda>b. b = 0) bs = replicate (length (takeWhile (\<lambda>b. b = 0) bs)) 0"
    by (rule replicate_eqI) (auto dest: set_takeWhileD)
  then show "takeWhile (\<lambda>b. b = 0) bs = replicate (length (takeWhile (\<lambda>b. b = 0) bs)) 0" .
  show "bs = replicate (length (takeWhile (\<lambda>b. b = 0) bs)) 0 @ dropWhile (\<lambda>b. b = 0) bs"
    unfolding z [symmetric] by simp
  show "dropWhile (\<lambda>b. b = 0) bs = [] \<or> hd (dropWhile (\<lambda>b. b = 0) bs) \<noteq> 0" using hd_dropWhile [of "\<lambda>b. b = 0" bs] by blast
qed

lemma be_value_zeros: "be_value (replicate z 0 @ r) = be_value r"
proof -
  have "le_value (replicate z 0) = 0" by (induction z) simp_all
  then show ?thesis by (simp add: be_value_def le_value_append)
qed

lemma EncodeBase58_digits:
  assumes "bn_documented E" "Suc (length bs) < 2 ^ 32" "bs = replicate z 0 @ r" "takeWhile (\<lambda>b. b = 0) bs = replicate z 0"
  shows "EncodeBase58 E bs = map ((!) pszBase58) (replicate z 0 @ rev (digits58 (be_value r)))"
proof -
  have "setvch E (rev bs @ [0]) = mpi_value (0 # bs)"
    using setvch_value [OF assms(1), of "rev bs @ [0]"] assms(2) by simp
  also have "\<dots> = int (be_value (replicate (Suc z) 0 @ r))" by (simp add: assms(3))
  also have "\<dots> = int (be_value r)" by (simp only: be_value_zeros)
  finally show ?thesis
    unfolding EncodeBase58_def Let_def assms(4) encode58_digits [OF assms(1), symmetric]
    by (simp add: encode58_digits [OF assms(1)] rev_map)
qed

lemma digit_text:
  assumes "\<forall>d \<in> set ds. d < 58"
  defines "psz \<equiv> map ((!) pszBase58) ds"
  shows "dropWhile c_isspace (takeWhile (\<lambda>c. c \<noteq> CHR 0x00) psz) = psz"
proof -
  have "takeWhile (\<lambda>c. c \<noteq> CHR 0x00) psz = psz"
    using assms base58_char(2) by (fastforce simp: takeWhile_eq_all_conv)
  moreover have "dropWhile c_isspace psz = psz"
    using assms base58_char(3) by (cases ds) auto
  ultimately show ?thesis by (simp only:)
qed

lemma leading_zeros:
  assumes "\<forall>d \<in> set ds. d < 58" "ds = [] \<or> hd ds \<noteq> 0"
  shows "length (takeWhile (\<lambda>c. c = pszBase58 ! 0) (map ((!) pszBase58) (replicate z 0 @ ds))) = z"
proof -
  have "takeWhile (\<lambda>c. c = pszBase58 ! 0) (map ((!) pszBase58) ds) = []"
    using assms base58_char(4) by (cases ds) auto
  then show ?thesis by (simp add: takeWhile_append map_replicate)
qed

lemma DecodeBase58_EncodeBase58:
  assumes "bn_documented E" "Suc (length bs) < 2 ^ 32"
  shows "DecodeBase58 E (EncodeBase58 E bs) = Some bs"
proof -
  obtain z r where bs: "bs = replicate z 0 @ r" "r = [] \<or> hd r \<noteq> 0" "takeWhile (\<lambda>b. b = 0) bs = replicate z 0"
    by (rule split_zeros)
  define ds where "ds = rev (digits58 (be_value r))"
  have e: "EncodeBase58 E bs = map ((!) pszBase58) (replicate z 0 @ ds)"
    unfolding ds_def by (rule EncodeBase58_digits [OF assms bs(1,3)])
  have ds: "\<forall>d \<in> set ds. d < 58" by (auto simp: ds_def dest: digits58_less)
  then have all: "\<forall>d \<in> set (replicate z 0 @ ds). d < 58" by auto
  have "ds = [] \<or> hd ds \<noteq> 0"
  proof (cases "be_value r")
    case 0
    then show ?thesis by (simp add: ds_def digits58.simps)
  next
    case (Suc n)
    with digits58_last [of "be_value r"] show ?thesis by (simp add: ds_def hd_rev)
  qed
  note lead = leading_zeros [OF ds this, of z]
  have d: "decode58_loop (map ((!) pszBase58) (replicate z 0 @ ds)) 0 = Some (int (be_value r))"
    unfolding decode58_digits [OF all] foldl_zeros by (simp add: ds_def foldl_digits58)
  show ?thesis
    unfolding e DecodeBase58_def Let_def digit_text [OF all] d option.case lead
    by (simp add: trimmed_bytes [OF assms(1) bs(2)] bs(1))
qed

lemma DecodeBase58Check_EncodeBase58Check:
  assumes "bn_documented E" "length bs < 2 ^ 32 - 5"
  shows "DecodeBase58Check E (EncodeBase58Check E bs) = Some bs"
proof -
  have "length (check_bytes E bs) = 4" by (simp add: check_bytes_def)
  then show ?thesis
    using DecodeBase58_EncodeBase58 [OF assms(1), of "bs @ check_bytes E bs"] assms(2)
    by (simp add: DecodeBase58Check_def EncodeBase58Check_def Let_def)
qed

lemma SetString_ToString:
  assumes "bn_documented E" "length (b58_vchData d) < 2 ^ 32 - 6"
  shows "b58_SetString E (b58_ToString E d) = (True, d)"
  using DecodeBase58Check_EncodeBase58Check [OF assms(1), of "b58_nVersion d # b58_vchData d"] assms(2)
  by (simp add: b58_SetString_def b58_ToString_def)

text \<open>C35: The text of an address leads back to the destination: what is written for a key or a script hash is
  a valid address on the same network, read as that destination, and no valid address on the
  other network.\<close>

theorem address_roundtrip:
  assumes "bn_documented E" and "address_of fTestNet dest = Some d"
  shows "b58_SetString E (b58_ToString E d) = (True, d) \<and> address_IsValid fTestNet d \<and>
    address_Get fTestNet d = dest \<and> \<not> address_IsValid (\<not> fTestNet) d \<and>
    address_IsScript fTestNet d = (case dest of CScriptID _ \<Rightarrow> True | _ \<Rightarrow> False)"
proof -
  have len: "length (b58_vchData d) = 20" using assms(2) by (cases dest) (auto simp: SetData_def)
  have "b58_SetString E (b58_ToString E d) = (True, d)"
    by (rule SetString_ToString [OF assms(1)]) (simp add: len)
  with assms(2) show ?thesis
    by (cases dest; cases fTestNet)
      (auto simp: SetData_def address_IsValid_def address_Get_def address_IsScript_def is_version_def
        PUBKEY_ADDRESS_def PUBKEY_ADDRESS_TEST_def SCRIPT_ADDRESS_def SCRIPT_ADDRESS_TEST_def codec_simps)
qed

text \<open>A secret key is read back from its text with its compression flag.\<close>

theorem secret_roundtrip:
  assumes "bn_documented E" and "secret_of fTestNet vchSecret fCompressed = Some d"
  shows "secret_SetString E fTestNet (b58_ToString E d) = (True, d) \<and> secret_Get d = Some (vchSecret, fCompressed)"
proof -
  have d: "length vchSecret = 32" "b58_vchData d = vchSecret @ (if fCompressed then [1] else [])"
    "b58_nVersion d = word_of_int (128 + (if fTestNet then PUBKEY_ADDRESS_TEST else PUBKEY_ADDRESS))"
    using assms(2) by (auto simp: secret_of_def SetData_def split: if_split_asm)
  have "b58_SetString E (b58_ToString E d) = (True, d)"
    by (rule SetString_ToString [OF assms(1)]) (simp add: d)
  with d show ?thesis
    by (auto simp: secret_SetString_def secret_IsValid_def secret_Get_def is_version_def PUBKEY_ADDRESS_def
        PUBKEY_ADDRESS_TEST_def nth_append)
qed

end
