(* ===== verification/Address_Witnesses.thy ===== *)
theory Address_Witnesses
  imports Base58 Samples
begin

text \<open>
  The properties of base58 addresses and secrets at concrete inputs, with the big numbers and
  the digests of \<open>Samples\<close>.
\<close>

lemma address_roundtrip_witness:
  "b58_SetString sample_ssl (b58_ToString sample_ssl (SetData 117 (bytes_of_u160 5))) =
     (True, SetData 117 (bytes_of_u160 5)) \<and>
   address_Get False (SetData 117 (bytes_of_u160 5)) = CKeyID 5"
  using address_roundtrip [OF sample_bn, of False "CKeyID 5" "SetData 117 (bytes_of_u160 5)"]
  by (simp add: PUBKEY_ADDRESS_def)

lemma secret_roundtrip_witness:
  "secret_SetString sample_ssl True (b58_ToString sample_ssl (SetData 237 (replicate 32 7 @ [1]))) =
     (True, SetData 237 (replicate 32 7 @ [1])) \<and>
   secret_Get (SetData 237 (replicate 32 7 @ [1])) = Some (replicate 32 7, True)"
proof -
  have "secret_of True (replicate 32 7) True = Some (SetData 237 (replicate 32 7 @ [1]))"
    by (simp add: secret_of_def PUBKEY_ADDRESS_TEST_def SetData_def)
  from secret_roundtrip [OF sample_bn this] show ?thesis by blast
qed

end
