(* ===== verification/Text_Codec.thy ===== *)
theory Text_Codec
  imports Uint_Limbs
begin

text \<open>
  Text encodings (\<open>src/util.cpp\<close>, \<open>src/util.h\<close>): hexadecimal, base64 and base32 text, amounts of
  money, splitting and wildcards. A C string is the list of its characters before the zero byte;
  a table that the code indexes by character is an option-valued function, \<open>None\<close> for -1.
\<close>

subsection \<open>Hexadecimal text\<close>

definition hexdigit :: "char \<Rightarrow> nat option" where
  "hexdigit c = (let n = of_char c :: nat
     in if 48 \<le> n \<and> n \<le> 57 then Some (n - 48) else if 65 \<le> n \<and> n \<le> 70 then Some (n - 55)
        else if 97 \<le> n \<and> n \<le> 102 then Some (n - 87) else None)"

definition IsHex :: "string \<Rightarrow> bool" where
  "IsHex str \<longleftrightarrow> list_all (\<lambda>c. hexdigit c \<noteq> None) str \<and> 0 < length str \<and> even (length str)"

function ParseHex :: "string \<Rightarrow> byte list" where
  "ParseHex psz =
     (case dropWhile c_isspace psz of
        [] \<Rightarrow> []
      | c # p \<Rightarrow>
          (case hexdigit c of None \<Rightarrow> []
           | Some n \<Rightarrow>
               (case p of [] \<Rightarrow> []
                | d # p' \<Rightarrow>
                    (case hexdigit d of None \<Rightarrow> []
                     | Some m \<Rightarrow> (push_bit 4 (word_of_nat n) OR word_of_nat m) # ParseHex p'))))"
  by pat_completeness auto
termination
proof (relation "measure length")
  fix psz c p n d p' m
  assume "dropWhile c_isspace psz = c # p" "p = d # p'"
  moreover have "length (dropWhile c_isspace psz) \<le> length psz" by (rule length_dropWhile_le)
  ultimately show "(p', psz) \<in> measure length" by simp
qed simp

declare ParseHex.simps [simp del]

text \<open>The separator is written before every byte but the first.\<close>

definition HexStr :: "byte list \<Rightarrow> bool \<Rightarrow> string" where
  "HexStr vch fSpaces =
     (case vch of [] \<Rightarrow> []
      | b # bs \<Rightarrow> hex_byte b @ concat (map (\<lambda>b. (if fSpaces then '' '' else []) @ hex_byte b) bs))"

text \<open>A text of odd length makes \<open>substr\<close> throw.\<close>

fun reverse_pairs :: "string \<Rightarrow> string" where
  "reverse_pairs (a # b # s) = reverse_pairs s @ [a, b]"
| "reverse_pairs s = []"

definition ReverseEndianString :: "string \<Rightarrow> string option" where
  "ReverseEndianString s = (if odd (length s) then None else Some (reverse_pairs s))"

subsection \<open>Base64\<close>

definition pbase64 :: string where
  "pbase64 = ''ABCDEFGHIJKLMNOPQRSTUVWXYZabcdefghijklmnopqrstuvwxyz0123456789+/''"

fun encode64_loop :: "nat \<Rightarrow> nat \<Rightarrow> byte list \<Rightarrow> string" where
  "encode64_loop mode left [] =
     (if mode = 0 then []
      else pbase64 ! left # CHR ''='' # (if mode = 1 then ''='' else []))"
| "encode64_loop mode left (b # pch) =
     (let enc = unat b
      in if mode = 0 then pbase64 ! drop_bit 2 enc # encode64_loop 1 (push_bit 4 (enc AND 3)) pch
         else if mode = 1 then pbase64 ! (left OR drop_bit 4 enc) # encode64_loop 2 (push_bit 2 (enc AND 15)) pch
         else pbase64 ! (left OR drop_bit 6 enc) # pbase64 ! (enc AND 63) # encode64_loop 0 left pch)"

definition EncodeBase64 :: "byte list \<Rightarrow> string" where
  "EncodeBase64 pch = encode64_loop 0 0 pch"

definition decode64_table :: "char \<Rightarrow> nat option" where
  "decode64_table c = (let n = of_char c :: nat
     in if 65 \<le> n \<and> n \<le> 90 then Some (n - 65) else if 97 \<le> n \<and> n \<le> 122 then Some (n - 71)
        else if 48 \<le> n \<and> n \<le> 57 then Some (n + 4) else if n = 43 then Some 62
        else if n = 47 then Some 63 else None)"

text \<open>The loop returns the bytes, the mode, the bits left over and the text it stopped at.\<close>

fun decode64_loop :: "nat \<Rightarrow> nat \<Rightarrow> string \<Rightarrow> byte list \<times> nat \<times> nat \<times> string" where
  "decode64_loop mode left [] = ([], mode, left, [])"
| "decode64_loop mode left (c # p) =
     (case decode64_table c of
        None \<Rightarrow> ([], mode, left, c # p)
      | Some dec \<Rightarrow>
          if mode = 0 then decode64_loop 1 dec p
          else if mode = 1 then
            apfst (Cons (word_of_nat (push_bit 2 left OR drop_bit 4 dec))) (decode64_loop 2 (dec AND 15) p)
          else if mode = 2 then
            apfst (Cons (word_of_nat (push_bit 4 left OR drop_bit 2 dec))) (decode64_loop 3 (dec AND 3) p)
          else apfst (Cons (word_of_nat (push_bit 6 left OR dec))) (decode64_loop 0 left p))"

text \<open>The padding that the text must have where it stopped: that many equals signs, and then no
  character of the alphabet.\<close>

definition pads :: "(char \<Rightarrow> nat option) \<Rightarrow> nat \<Rightarrow> string \<Rightarrow> bool" where
  "pads table k p \<longleftrightarrow> take k p = replicate k (CHR ''='') \<and>
     (case drop k p of [] \<Rightarrow> True | c # _ \<Rightarrow> table c = None)"

definition invalid64 :: "nat \<Rightarrow> nat \<Rightarrow> string \<Rightarrow> bool" where
  "invalid64 mode left p \<longleftrightarrow>
     (if mode = 0 then False
      else if mode = 1 then True
      else if mode = 2 then left \<noteq> 0 \<or> \<not> pads decode64_table 2 p
      else left \<noteq> 0 \<or> \<not> pads decode64_table 1 p)"

definition DecodeBase64 :: "string \<Rightarrow> byte list \<times> bool" where
  "DecodeBase64 p =
     (case decode64_loop 0 0 p of (vchRet, mode, left, p) \<Rightarrow> (vchRet, invalid64 mode left p))"

subsection \<open>Base32\<close>

definition pbase32 :: string where
  "pbase32 = ''abcdefghijklmnopqrstuvwxyz234567''"

definition nPadding :: "nat list" where
  "nPadding = [0, 6, 4, 3, 1]"

fun encode32_loop :: "nat \<Rightarrow> nat \<Rightarrow> byte list \<Rightarrow> string" where
  "encode32_loop mode left [] =
     (if mode = 0 then [] else pbase32 ! left # replicate (nPadding ! mode) (CHR ''=''))"
| "encode32_loop mode left (b # pch) =
     (let enc = unat b
      in if mode = 0 then pbase32 ! drop_bit 3 enc # encode32_loop 1 (push_bit 2 (enc AND 7)) pch
         else if mode = 1 then
           pbase32 ! (left OR drop_bit 6 enc) # pbase32 ! (drop_bit 1 enc AND 31) # encode32_loop 2 (push_bit 4 (enc AND 1)) pch
         else if mode = 2 then pbase32 ! (left OR drop_bit 4 enc) # encode32_loop 3 (push_bit 1 (enc AND 15)) pch
         else if mode = 3 then
           pbase32 ! (left OR drop_bit 7 enc) # pbase32 ! (drop_bit 2 enc AND 31) # encode32_loop 4 (push_bit 3 (enc AND 3)) pch
         else pbase32 ! (left OR drop_bit 5 enc) # pbase32 ! (enc AND 31) # encode32_loop 0 left pch)"

definition EncodeBase32 :: "byte list \<Rightarrow> string" where
  "EncodeBase32 pch = encode32_loop 0 0 pch"

definition decode32_table :: "char \<Rightarrow> nat option" where
  "decode32_table c = (let n = of_char c :: nat
     in if 65 \<le> n \<and> n \<le> 90 then Some (n - 65) else if 97 \<le> n \<and> n \<le> 122 then Some (n - 97)
        else if 50 \<le> n \<and> n \<le> 55 then Some (n - 24) else None)"

fun decode32_loop :: "nat \<Rightarrow> nat \<Rightarrow> string \<Rightarrow> byte list \<times> nat \<times> nat \<times> string" where
  "decode32_loop mode left [] = ([], mode, left, [])"
| "decode32_loop mode left (c # p) =
     (case decode32_table c of
        None \<Rightarrow> ([], mode, left, c # p)
      | Some dec \<Rightarrow>
          if mode = 0 then decode32_loop 1 dec p
          else if mode = 1 then
            apfst (Cons (word_of_nat (push_bit 3 left OR drop_bit 2 dec))) (decode32_loop 2 (dec AND 3) p)
          else if mode = 2 then decode32_loop 3 (push_bit 5 left OR dec) p
          else if mode = 3 then
            apfst (Cons (word_of_nat (push_bit 1 left OR drop_bit 4 dec))) (decode32_loop 4 (dec AND 15) p)
          else if mode = 4 then
            apfst (Cons (word_of_nat (push_bit 4 left OR drop_bit 1 dec))) (decode32_loop 5 (dec AND 1) p)
          else if mode = 5 then decode32_loop 6 (push_bit 5 left OR dec) p
          else if mode = 6 then
            apfst (Cons (word_of_nat (push_bit 2 left OR drop_bit 3 dec))) (decode32_loop 7 (dec AND 7) p)
          else apfst (Cons (word_of_nat (push_bit 5 left OR dec))) (decode32_loop 0 left p))"

definition invalid32 :: "nat \<Rightarrow> nat \<Rightarrow> string \<Rightarrow> bool" where
  "invalid32 mode left p \<longleftrightarrow>
     (if mode = 0 then False
      else if mode = 1 \<or> mode = 3 \<or> mode = 6 then True
      else if mode = 2 then left \<noteq> 0 \<or> \<not> pads decode32_table 6 p
      else if mode = 4 then left \<noteq> 0 \<or> \<not> pads decode32_table 4 p
      else if mode = 5 then left \<noteq> 0 \<or> \<not> pads decode32_table 3 p
      else left \<noteq> 0 \<or> \<not> pads decode32_table 1 p)"

definition DecodeBase32 :: "string \<Rightarrow> byte list \<times> bool" where
  "DecodeBase32 p =
     (case decode32_loop 0 0 p of (vchRet, mode, left, p) \<Rightarrow> (vchRet, invalid32 mode left p))"

subsection \<open>Amounts of money\<close>

definition c_isdigit :: "char \<Rightarrow> bool" where
  "c_isdigit c = (let n = of_char c :: nat in 48 \<le> n \<and> n \<le> 57)"

definition digit_value :: "char \<Rightarrow> nat" where
  "digit_value c = of_char c - 48"

definition COIN :: nat where "COIN = 1000000"
definition CENT :: nat where "CENT = 10000"

text \<open>Decimal text of a number, and padded with zeros to a width.\<close>

fun decimal :: "nat \<Rightarrow> string" where
  "decimal n = (if n < 10 then [char_of (48 + n)] else decimal (n div 10) @ [char_of (48 + n mod 10)])"

declare decimal.simps [simp del]

definition padded :: "nat \<Rightarrow> nat \<Rightarrow> string" where
  "padded w n = replicate (w - length (decimal n)) (CHR ''0'') @ decimal n"

text \<open>The zeros at the end are counted from the right, as long as the character two places
  before is a digit; the text is given from its last character. The absolute value of the
  least amount is out of the range of \<open>int64\<close>.\<close>

fun trim_zeros :: "string \<Rightarrow> string" where
  "trim_zeros (c # d # e # s) = (if c = CHR ''0'' \<and> c_isdigit e then trim_zeros (d # e # s) else c # d # e # s)"
| "trim_zeros s = s"

definition FormatMoney :: "int64 \<Rightarrow> bool \<Rightarrow> string" where
  "FormatMoney n fPlus =
     (let n_abs = nat \<bar>sint n\<bar>;
          str = decimal (n_abs div COIN) @ ''.'' @ padded 6 (n_abs mod COIN);
          str = rev (trim_zeros (rev str))
      in if sint n < 0 then CHR ''-'' # str else if fPlus \<and> 0 < sint n then CHR ''+'' # str else str)"

text \<open>The digits after the point: the units and the text where the loop stops.\<close>

fun fraction_loop :: "nat \<Rightarrow> nat \<Rightarrow> string \<Rightarrow> nat \<times> string" where
  "fraction_loop nMult nUnits [] = (nUnits, [])"
| "fraction_loop nMult nUnits (c # p) =
     (if c_isdigit c \<and> 0 < nMult then fraction_loop (nMult div 10) (nUnits + nMult * digit_value c) p
      else (nUnits, c # p))"

text \<open>The whole part up to a point or a space; \<open>None\<close> is another character.\<close>

fun whole_loop :: "string \<Rightarrow> string \<Rightarrow> (string \<times> nat \<times> string) option" where
  "whole_loop strWhole [] = Some (strWhole, 0, [])"
| "whole_loop strWhole (c # p) =
     (if c = CHR ''.'' then Some (strWhole, fraction_loop (CENT * 10) 0 p)
      else if c_isspace c then Some (strWhole, 0, c # p)
      else if \<not> c_isdigit c then None
      else whole_loop (strWhole @ [c]) p)"

definition ParseMoney :: "string \<Rightarrow> int64 option" where
  "ParseMoney pszIn =
     (case whole_loop [] (dropWhile c_isspace (takeWhile (\<lambda>c. c \<noteq> CHR 0x00) pszIn)) of
        None \<Rightarrow> None
      | Some (strWhole, nUnits, p) \<Rightarrow>
          if \<not> list_all c_isspace p then None
          else if 10 < length strWhole then None
          else if COIN < nUnits then None
          else let nWhole = foldl (\<lambda>v c. 10 * v + digit_value c) 0 strWhole
               in Some (word_of_nat (nWhole * COIN + nUnits)))"

subsection \<open>Splitting and wildcards\<close>

function split_at :: "char \<Rightarrow> string \<Rightarrow> string list" where
  "split_at c str =
     (case dropWhile (\<lambda>d. d \<noteq> c) str of
        [] \<Rightarrow> [str]
      | _ # rest \<Rightarrow> takeWhile (\<lambda>d. d \<noteq> c) str # split_at c rest)"
  by pat_completeness auto
termination
proof (relation "measure (\<lambda>(c, str). length str)")
  fix c str d and rest :: string
  assume "dropWhile (\<lambda>d. d \<noteq> c) str = d # rest"
  moreover have "length (dropWhile (\<lambda>d. d \<noteq> c) str) \<le> length str" by (rule length_dropWhile_le)
  ultimately show "((c, rest), (c, str)) \<in> measure (\<lambda>(c, str). length str)" by simp
qed simp

declare split_at.simps [simp del]

definition ParseString :: "string \<Rightarrow> char \<Rightarrow> string list" where
  "ParseString str c = (if str = [] then [] else split_at c str)"

fun WildcardMatch :: "string \<Rightarrow> string \<Rightarrow> bool" where
  "WildcardMatch psz [] \<longleftrightarrow> psz = []"
| "WildcardMatch psz (m # ms) \<longleftrightarrow>
     (if m = CHR ''*'' then
        WildcardMatch psz ms \<or> (case psz of [] \<Rightarrow> False | _ # psz \<Rightarrow> WildcardMatch psz (m # ms))
      else if m = CHR ''?'' then (case psz of [] \<Rightarrow> False | _ # psz \<Rightarrow> WildcardMatch psz ms)
      else (case psz of [] \<Rightarrow> False | c # psz \<Rightarrow> c = m \<and> WildcardMatch psz ms))"

subsection \<open>Bits of small numbers\<close>

lemma or_eq_plus:
  fixes a b :: nat
  assumes "b < 2 ^ n" shows "a * 2 ^ n OR b = a * 2 ^ n + b"
proof -
  have "\<not> (bit (a * 2 ^ n) i \<and> bit b i)" for i
  proof (cases "i < n")
    case True
    then show ?thesis by (simp add: bit_simps flip: push_bit_eq_mult)
  next
    case False
    then have "b < 2 ^ i" using assms by (meson leI less_le_trans power_increasing_iff one_less_numeral_iff semiring_norm(76))
    then show ?thesis by (simp add: bit_iff_odd)
  qed
  then have "a * 2 ^ n AND b = 0" by (auto intro!: bit_eqI simp: bit_and_iff)
  then show ?thesis by (simp add: disjunctive_add_eq_or)
qed

lemma and_mod:
  fixes a :: nat
  shows "a AND 1 = a mod 2" "a AND 3 = a mod 4" "a AND 7 = a mod 8" "a AND 15 = a mod 16"
    "a AND 31 = a mod 32" "a AND 63 = a mod 64"
  using take_bit_eq_mask [of 1 a] take_bit_eq_mask [of 2 a] take_bit_eq_mask [of 3 a] take_bit_eq_mask [of 4 a]
    take_bit_eq_mask [of 5 a] take_bit_eq_mask [of 6 a]
  by (simp_all add: take_bit_eq_mod mask_eq_exp_minus_1)

lemma or_small:
  fixes a b :: nat
  shows "b < 2 \<Longrightarrow> a * 2 OR b = a * 2 + b" "b < 4 \<Longrightarrow> a * 4 OR b = a * 4 + b" "b < 8 \<Longrightarrow> a * 8 OR b = a * 8 + b"
    "b < 16 \<Longrightarrow> a * 16 OR b = a * 16 + b" "b < 32 \<Longrightarrow> a * 32 OR b = a * 32 + b" "b < 64 \<Longrightarrow> a * 64 OR b = a * 64 + b"
  using or_eq_plus [of b 1 a] or_eq_plus [of b 2 a] or_eq_plus [of b 3 a] or_eq_plus [of b 4 a] or_eq_plus [of b 5 a]
    or_eq_plus [of b 6 a] by simp_all

lemmas bits_arith = push_bit_eq_mult drop_bit_eq_div and_mod or_small

lemma dec64_char: "n < 64 \<Longrightarrow> decode64_table (pbase64 ! n) = Some n"
proof -
  have "list_all (\<lambda>n. decode64_table (pbase64 ! n) = Some n) [0..<64]"
    by (simp add: upt_rec decode64_table_def pbase64_def Let_def)
  then show "n < 64 \<Longrightarrow> decode64_table (pbase64 ! n) = Some n" by (simp add: list_all_iff)
qed

lemma dec32_char: "n < 32 \<Longrightarrow> decode32_table (pbase32 ! n) = Some n"
proof -
  have "list_all (\<lambda>n. decode32_table (pbase32 ! n) = Some n) [0..<32]"
    by (simp add: upt_rec decode32_table_def pbase32_def Let_def)
  then show "n < 32 \<Longrightarrow> decode32_table (pbase32 ! n) = Some n" by (simp add: list_all_iff)
qed

lemma table_eq_sign: "decode64_table (CHR ''='') = None" "decode32_table (CHR ''='') = None"
  by (simp_all add: decode64_table_def decode32_table_def Let_def)

lemma byte_of: "n = unat b \<Longrightarrow> word_of_nat n = (b :: byte)" by simp

subsection \<open>Base64 and base32 are read back\<close>

lemma list3_induct [case_names Zero One Two More]:
  assumes "P []" "\<And>a. P [a]" "\<And>a b. P [a, b]" "\<And>a b c bs. P bs \<Longrightarrow> P (a # b # c # bs)"
  shows "P xs"
  using assms by induction_schema (pat_completeness, lexicographic_order)

lemma list5_induct [case_names Zero One Two Three Four More]:
  assumes "P []" "\<And>a. P [a]" "\<And>a b. P [a, b]" "\<And>a b c. P [a, b, c]" "\<And>a b c d. P [a, b, c, d]"
    "\<And>a b c d e bs. P bs \<Longrightarrow> P (a # b # c # d # e # bs)"
  shows "P xs"
  using assms by induction_schema (pat_completeness, lexicographic_order)

lemma pads_replicate [simp]: "pads table k (replicate k (CHR ''=''))"
  by (simp add: pads_def)

lemma pads_signs [simp]: "pads table 1 ''=''" "pads table 2 ''==''" "pads table (Suc 0) ''=''"
  using pads_replicate [of table 1] pads_replicate [of table 2] by (simp_all add: numeral_2_eq_2)

lemma decode64_encode64:
  "\<exists>mode left p. decode64_loop 0 l (encode64_loop 0 l' bs) = (bs, mode, left, p) \<and> \<not> invalid64 mode left p"
proof (induction bs arbitrary: l l' rule: list3_induct)
  case Zero
  then show ?case by (simp add: invalid64_def)
next
  case (One a)
  have "unat a div 4 < 64" "unat a mod 4 * 16 < 64" using unat_byte_less [of a] by linarith+
  then show ?case
    by (simp add: Let_def bits_arith dec64_char table_eq_sign invalid64_def)
next
  case (Two a b)
  have "unat a div 4 < 64" "unat a mod 4 * 16 + unat b div 16 < 64" "unat b mod 16 * 4 < 64" "unat b div 16 < 16"
    using unat_byte_less [of a] unat_byte_less [of b] by linarith+
  then show ?case
    by (simp add: Let_def bits_arith dec64_char table_eq_sign invalid64_def)
next
  case (More a b c bs)
  have bound: "unat a div 4 < 64" "unat a mod 4 * 16 + unat b div 16 < 64" "unat b mod 16 * 4 + unat c div 64 < 64"
    "unat b div 16 < 16" "unat c div 64 < 4"
    using unat_byte_less [of a] unat_byte_less [of b] unat_byte_less [of c] by linarith+
  obtain mode left p where "decode64_loop 0 (unat c div 64) (encode64_loop 0 (unat b mod 16 * 4) bs) = (bs, mode, left, p)"
    "\<not> invalid64 mode left p"
    using More.IH by blast
  with bound show ?case by (simp add: Let_def bits_arith dec64_char)
qed

lemma DecodeBase64_EncodeBase64: "DecodeBase64 (EncodeBase64 bs) = (bs, False)"
  using decode64_encode64 [of 0 0 bs] by (auto simp: DecodeBase64_def EncodeBase64_def)


lemma three_parts:
  fixes n :: nat
  shows "64 * (n div 64) + n div 2 mod 32 * 2 + n mod 2 = n" "128 * (n div 128) + n div 4 mod 32 * 4 + n mod 4 = n"
proof -
  have "n div 2 = 32 * (n div 64) + n div 2 mod 32" "n div 4 = 32 * (n div 128) + n div 4 mod 32"
    using div_mult_mod_eq [of "n div 2" 32] div_mult_mod_eq [of "n div 4" 32] by (simp_all add: div_mult2_eq [symmetric])
  then show "64 * (n div 64) + n div 2 mod 32 * 2 + n mod 2 = n" "128 * (n div 128) + n div 4 mod 32 * 4 + n mod 4 = n"
    using div_mult_mod_eq [of n 2] div_mult_mod_eq [of n 4] by linarith+
qed

lemma three_or:
  fixes x y z :: nat
  shows "z < 2 \<Longrightarrow> 64 * x + y * 2 OR z = 64 * x + y * 2 + z" "z < 4 \<Longrightarrow> 128 * x + y * 4 OR z = 128 * x + y * 4 + z"
  using or_small(1) [of z "32 * x + y"] or_small(2) [of z "32 * x + y"] by (simp_all add: algebra_simps)

lemma decode32_stop [simp]:
  "decode32_loop mode left (replicate k (CHR ''='')) = ([], mode, left, replicate k (CHR ''=''))"
  by (cases k) (simp_all add: table_eq_sign)

lemma decode32_encode32:
  "\<exists>mode left p. decode32_loop 0 l (encode32_loop 0 l' bs) = (bs, mode, left, p) \<and> \<not> invalid32 mode left p"
proof (induction bs arbitrary: l l' rule: list5_induct)
  case Zero
  then show ?case by (simp add: invalid32_def)
next
  case (One a)
  have "unat a div 8 < 32" "unat a mod 8 * 4 < 32" using unat_byte_less [of a] by linarith+
  then show ?case
    by (simp add: Let_def bits_arith three_or three_parts dec32_char table_eq_sign invalid32_def nPadding_def)
next
  case (Two a b)
  have "unat a div 8 < 32" "unat a mod 8 * 4 + unat b div 64 < 32" "unat b div 64 < 4" "unat b mod 2 * 16 < 32"
    using unat_byte_less [of a] unat_byte_less [of b] by linarith+
  then show ?case
    by (simp add: Let_def bits_arith three_or three_parts dec32_char table_eq_sign invalid32_def nPadding_def)
next
  case (Three a b c)
  have "unat a div 8 < 32" "unat a mod 8 * 4 + unat b div 64 < 32" "unat b div 64 < 4"
    "unat b mod 2 * 16 + unat c div 16 < 32" "unat c div 16 < 16" "unat c mod 16 * 2 < 32"
    using unat_byte_less [of a] unat_byte_less [of b] unat_byte_less [of c] by linarith+
  then show ?case
    by (simp add: Let_def bits_arith three_or three_parts dec32_char table_eq_sign invalid32_def nPadding_def)
next
  case (Four a b c d)
  have "unat a div 8 < 32" "unat a mod 8 * 4 + unat b div 64 < 32" "unat b div 64 < 4"
    "unat b mod 2 * 16 + unat c div 16 < 32" "unat c div 16 < 16" "unat c mod 16 * 2 + unat d div 128 < 32"
    "unat d div 128 < 2" "unat d mod 4 * 8 < 32"
    using unat_byte_less [of a] unat_byte_less [of b] unat_byte_less [of c] unat_byte_less [of d] by linarith+
  then show ?case
    by (simp add: Let_def bits_arith three_or three_parts dec32_char table_eq_sign invalid32_def nPadding_def)
next
  case (More a b c d e bs)
  have bound: "unat a div 8 < 32" "unat a mod 8 * 4 + unat b div 64 < 32" "unat b div 64 < 4"
    "unat b mod 2 * 16 + unat c div 16 < 32" "unat c div 16 < 16" "unat c mod 16 * 2 + unat d div 128 < 32"
    "unat d div 128 < 2" "unat d mod 4 * 8 + unat e div 32 < 32" "unat e div 32 < 8"
    using unat_byte_less [of a] unat_byte_less [of b] unat_byte_less [of c] unat_byte_less [of d] unat_byte_less [of e]
    by linarith+
  obtain mode left p where "decode32_loop 0 (unat e div 32) (encode32_loop 0 (unat d mod 4 * 8) bs) = (bs, mode, left, p)"
    "\<not> invalid32 mode left p"
    using More.IH by blast
  with bound show ?case
    by (simp add: Let_def bits_arith three_or three_parts dec32_char)
qed

lemma DecodeBase32_EncodeBase32: "DecodeBase32 (EncodeBase32 bs) = (bs, False)"
  using decode32_encode32 [of 0 0 bs] by (auto simp: DecodeBase32_def EncodeBase32_def)


subsection \<open>Amounts are read back\<close>

abbreviation digits_value :: "string \<Rightarrow> nat" where
  "digits_value ds \<equiv> foldl (\<lambda>v c. 10 * v + digit_value c) 0 ds"

lemma digits_value_append: "digits_value (xs @ ys) = digits_value xs * 10 ^ length ys + digits_value ys"
proof (induction ys rule: rev_induct)
  case (snoc y ys)
  then show ?case by (simp add: algebra_simps)
qed simp

lemma digit_char:
  assumes "n < 10"
  shows "c_isdigit (char_of (48 + n))" "digit_value (char_of (48 + n)) = n"
  using assms by (simp_all add: c_isdigit_def digit_value_def Let_def)

lemma decimal_digits: "list_all c_isdigit (decimal n)"
proof (induction n rule: decimal.induct)
  case (1 n)
  then show ?case by (subst decimal.simps) (auto simp: digit_char(1) [simplified])
qed

lemma decimal_value: "digits_value (decimal n) = n"
proof (induction n rule: decimal.induct)
  case (1 n)
  then show ?case by (subst decimal.simps) (auto simp: digit_char(2))
qed

lemma decimal_length: "n < 10 ^ k \<Longrightarrow> 0 < k \<Longrightarrow> length (decimal n) \<le> k"
proof (induction n arbitrary: k rule: decimal.induct)
  case (1 n)
  show ?case
  proof (cases "n < 10")
    case True
    then show ?thesis using 1(3) by (subst decimal.simps) simp
  next
    case False
    obtain m where k: "k = Suc m" using 1(3) by (cases k) auto
    have "n div 10 < 10 ^ m" using 1(2) k by (simp add: less_mult_imp_div_less mult.commute)
    moreover have "0 < m" using False 1(2) k by (cases m) auto
    ultimately show ?thesis using 1(1) False k by (subst decimal.simps) simp
  qed
qed

lemma decimal_nonempty [simp]: "decimal n \<noteq> []"
  by (subst decimal.simps) simp

lemma zeros_value [simp]: "digits_value (replicate k (CHR ''0'')) = 0"
proof (induction k)
  case (Suc k)
  have "digits_value (CHR ''0'' # replicate k (CHR ''0'')) = digits_value (replicate k (CHR ''0''))"
    by (simp add: digit_value_def)
  with Suc show ?case by simp
qed simp

lemma padded_props:
  assumes "n < 10 ^ w" "0 < w"
  shows "length (padded w n) = w" "list_all c_isdigit (padded w n)" "digits_value (padded w n) = n"
  using decimal_length [OF assms] decimal_digits [of n]
  by (auto simp: padded_def digits_value_append decimal_value list_all_iff c_isdigit_def)

lemma trim_zeros_digits:
  assumes "list_all c_isdigit g" "2 \<le> length g"
  shows "\<exists>k g'. g = replicate k (CHR ''0'') @ g' \<and> trim_zeros (g @ CHR ''.'' # w) = g' @ CHR ''.'' # w"
  using assms
proof (induction g)
  case (Cons c g)
  show ?case
  proof (cases "c = CHR ''0'' \<and> 2 \<le> length g")
    case True
    then obtain d e h where g: "g = d # e # h" by (auto simp: numeral_2_eq_2 Suc_le_length_iff)
    obtain k g' where "g = replicate k (CHR ''0'') @ g'" "trim_zeros (g @ CHR ''.'' # w) = g' @ CHR ''.'' # w"
      using Cons True by auto
    moreover have "trim_zeros ((c # g) @ CHR ''.'' # w) = trim_zeros (g @ CHR ''.'' # w)"
      using Cons.prems(1) True g by simp
    moreover have "c # replicate k (CHR ''0'') @ g' = replicate (Suc k) (CHR ''0'') @ g'" using True by simp
    ultimately show ?thesis by metis
  next
    case False
    have "trim_zeros ((c # g) @ CHR ''.'' # w) = (c # g) @ CHR ''.'' # w"
    proof (cases g)
      case (Cons d h)
      with False show ?thesis by (cases h) (auto simp: c_isdigit_def)
    qed (use Cons.prems in simp)
    then show ?thesis by (metis append_Nil replicate_0)
  qed
qed simp

lemma fraction_value:
  assumes "list_all c_isdigit ds" "length ds \<le> Suc k"
  shows "fraction_loop (10 ^ k) u ds = (u + digits_value ds * 10 ^ (Suc k - length ds), [])"
  using assms
proof (induction ds arbitrary: k u)
  case (Cons d ds)
  have v: "digits_value (d # ds) = digit_value d * 10 ^ length ds + digits_value ds"
    using digits_value_append [of "[d]" ds] by simp
  show ?case
  proof (cases k)
    case 0
    with Cons.prems show ?thesis by (simp add: v)
  next
    case (Suc m)
    have "length ds \<le> Suc m" using Cons.prems Suc by simp
    then have "fraction_loop (10 ^ m) (u + 10 ^ k * digit_value d) ds =
      (u + 10 ^ k * digit_value d + digits_value ds * 10 ^ (Suc m - length ds), [])"
      using Cons by auto
    moreover have "10 ^ k = (10::nat) ^ length ds * 10 ^ (Suc m - length ds)"
      using \<open>length ds \<le> Suc m\<close> Suc by (simp add: power_add [symmetric])
    moreover have "fraction_loop (10 ^ k) u (d # ds) = fraction_loop (10 ^ m) (u + 10 ^ k * digit_value d) ds"
      using Cons.prems Suc by simp
    ultimately show ?thesis unfolding v using Suc by (simp add: algebra_simps)
  qed
qed simp

lemma whole_digits:
  "list_all c_isdigit ds \<Longrightarrow> whole_loop acc (ds @ CHR ''.'' # p) = Some (acc @ ds, fraction_loop (CENT * 10) 0 p)"
  by (induction ds arbitrary: acc) (auto simp: c_isdigit_def c_isspace_def Let_def)

lemma trim_padded:
  assumes "list_all c_isdigit f" "2 \<le> length f"
  shows "\<exists>k f'. f = f' @ replicate k (CHR ''0'') \<and> rev (trim_zeros (rev (w @ CHR ''.'' # f))) = w @ CHR ''.'' # f'"
proof -
  have "list_all c_isdigit (rev f)" "2 \<le> length (rev f)" using assms by simp_all
  from trim_zeros_digits [OF this, of "rev w"] obtain k g'
    where g: "rev f = replicate k (CHR ''0'') @ g'"
      and t: "trim_zeros (rev f @ CHR ''.'' # rev w) = g' @ CHR ''.'' # rev w" by blast
  have "f = rev g' @ replicate k (CHR ''0'')" using arg_cong [OF g, of rev] by simp
  moreover have "rev (trim_zeros (rev (w @ CHR ''.'' # f))) = w @ CHR ''.'' # rev g'"
  proof -
    have "rev (w @ CHR ''.'' # f) = rev f @ CHR ''.'' # rev w" by simp
    then show ?thesis by (simp only: t) simp
  qed
  ultimately show ?thesis by blast
qed

lemma ParseMoney_text:
  assumes "list_all c_isdigit w" "w \<noteq> []" "length w \<le> 10" "list_all c_isdigit f" "length f \<le> 6"
  shows "ParseMoney (w @ CHR ''.'' # f) =
    Some (word_of_nat (digits_value w * COIN + digits_value f * 10 ^ (6 - length f)))"
proof -
  have nz: "\<forall>c \<in> set (w @ CHR ''.'' # f). c \<noteq> CHR 0x00"
    using assms(1,4) by (auto simp: list_all_iff c_isdigit_def Let_def)
  have "takeWhile (\<lambda>c. c \<noteq> CHR 0x00) (w @ CHR ''.'' # f) = w @ CHR ''.'' # f"
    using nz by (simp only: takeWhile_eq_all_conv)
  moreover have "dropWhile c_isspace (w @ CHR ''.'' # f) = w @ CHR ''.'' # f"
    using assms(1,2) by (cases w) (auto simp: c_isdigit_def c_isspace_def Let_def)
  moreover have fr: "fraction_loop (CENT * 10) 0 f = (digits_value f * 10 ^ (6 - length f), [])"
    using fraction_value [OF assms(4), of 5 0] assms(5) by (simp add: CENT_def)
  moreover have "digits_value f * 10 ^ (6 - length f) \<le> COIN"
  proof -
    have "digits_value f < 10 ^ length f"
      using assms(4)
    proof (induction f rule: rev_induct)
      case (snoc x xs)
      then have "digit_value x < 10" "digits_value xs < 10 ^ length xs"
        by (auto simp: c_isdigit_def digit_value_def Let_def)
      then show ?case by simp
    qed simp
    then have "digits_value f * 10 ^ (6 - length f) \<le> 10 ^ length f * 10 ^ (6 - length f)"
      by (intro mult_right_mono) simp_all
    also have "\<dots> = COIN" using assms(5) by (simp add: COIN_def power_add [symmetric])
    finally show ?thesis .
  qed
  ultimately show ?thesis
    using assms(3) whole_digits [OF assms(1), of "[]" f]
    by (simp only: ParseMoney_def Let_def option.case prod.case append_Nil) simp
qed

text \<open>An amount of up to ten digits before the point is read back from its text.\<close>

theorem money_roundtrip:
  assumes "0 \<le> sint n" "sint n < 10 ^ 16"
  shows "ParseMoney (FormatMoney n False) = Some n"
proof -
  define a where "a = nat (sint n)"
  have a: "sint n = int a" "a < 10 ^ 16" using assms by (simp_all add: a_def nat_less_iff)
  define w f where "w = decimal (a div COIN)" and "f = padded 6 (a mod COIN)"
  have "a mod COIN < 10 ^ 6" by (simp add: COIN_def)
  note f = padded_props [OF this, folded f_def, simplified]
  have "a div COIN < 10 ^ 10" using a(2) by (simp add: COIN_def less_mult_imp_div_less)
  then have w: "list_all c_isdigit w" "w \<noteq> []" "length w \<le> 10" "digits_value w = a div COIN"
    using decimal_length [of "a div COIN" 10] by (simp_all add: w_def decimal_digits decimal_value)
  have "2 \<le> length f" using f(1) by simp
  from trim_padded [OF f(2) this, of w] obtain k f'
    where k: "f = f' @ replicate k (CHR ''0'')" "rev (trim_zeros (rev (w @ CHR ''.'' # f))) = w @ CHR ''.'' # f'"
    by blast
  have fmt: "FormatMoney n False = w @ CHR ''.'' # f'"
    using k(2) by (simp add: FormatMoney_def a(1) w_def f_def)
  have "list_all c_isdigit f'" "length f' \<le> 6" "k = 6 - length f'" using f(1,2) k(1) by auto
  then have "ParseMoney (FormatMoney n False) = Some (word_of_nat (a div COIN * COIN + digits_value f' * 10 ^ k))"
    unfolding fmt using ParseMoney_text [OF w(1,2,3)] w(4) by simp
  also have "digits_value f' * 10 ^ k = a mod COIN"
    using f(3) digits_value_append [of f' "replicate k (CHR ''0'')"] by (simp only: k(1) zeros_value) simp
  also have "a div COIN * COIN + a mod COIN = a" by (rule div_mult_mod_eq)
  also have "word_of_nat a = n"
  proof -
    have "word_of_int (sint n) = n" by simp
    then show ?thesis by (simp add: a(1) del: of_int_sint)
  qed
  finally show ?thesis .
qed

subsection \<open>Hexadecimal text is read back\<close>

lemma hex_digits:
  assumes "n < 16" shows "hexdigit (hex_char n) = Some n" "\<not> c_isspace (hex_char n)"
proof -
  have "list_all (\<lambda>n. hexdigit (hex_char n) = Some n \<and> \<not> c_isspace (hex_char n)) [0..<16]" by code_simp
  then show "hexdigit (hex_char n) = Some n" "\<not> c_isspace (hex_char n)" using assms by (auto simp: list_all_iff)
qed

lemma ParseHex_byte: "ParseHex (hex_byte b @ s) = b # ParseHex s"
proof -
  have "unat b div 16 < 16" using unat_byte_less [of b] by linarith
  moreover have "push_bit 4 (word_of_nat (unat b div 16)) OR word_of_nat (unat b mod 16) = b"
  proof -
    have u: "unat b mod 16 < 16" by simp
    have "word_of_nat (push_bit 4 (unat b div 16) OR unat b mod 16) = b"
      unfolding push_bit_eq_mult using or_eq_plus [of "unat b mod 16" 4 "unat b div 16"] u
      by (simp add: byte_of)
    then show ?thesis by (simp add: of_nat_or_eq of_nat_push_bit)
  qed
  ultimately show ?thesis by (subst ParseHex.simps) (simp add: hex_byte_def hex_digits)
qed

lemma ParseHex_space: "ParseHex (CHR '' '' # s) = ParseHex s"
proof -
  have "c_isspace (CHR '' '')" by (simp add: c_isspace_def Let_def)
  then show ?thesis by (subst (1 2) ParseHex.simps) simp
qed

lemma ParseHex_HexStr: "ParseHex (HexStr bs fSpaces) = bs"
proof -
  have "ParseHex (concat (map (\<lambda>b. (if fSpaces then '' '' else []) @ hex_byte b) bs)) = bs" for bs
    by (induction bs) (auto simp: ParseHex_byte ParseHex_space ParseHex.simps [of "[]"])
  then show ?thesis by (cases bs) (simp_all add: HexStr_def ParseHex_byte ParseHex.simps [of "[]"])
qed

text \<open>C36: Base64, base32 and hexadecimal text is read back, and found to be valid.\<close>

theorem text_roundtrips:
  "DecodeBase64 (EncodeBase64 bs) = (bs, False) \<and> DecodeBase32 (EncodeBase32 bs) = (bs, False) \<and>
   ParseHex (HexStr bs fSpaces) = bs"
  by (simp add: DecodeBase64_EncodeBase64 DecodeBase32_EncodeBase32 ParseHex_HexStr)

subsection \<open>What a wildcard matches\<close>

text \<open>A text fits a mask when it is made of the mask by putting a text for each star and a
  character for each question mark.\<close>

inductive fits_mask :: "string \<Rightarrow> string \<Rightarrow> bool" where
  nil: "fits_mask [] []"
| star: "fits_mask s ms \<Longrightarrow> fits_mask (t @ s) (CHR ''*'' # ms)"
| question: "fits_mask s ms \<Longrightarrow> fits_mask (c # s) (CHR ''?'' # ms)"
| char: "fits_mask s ms \<Longrightarrow> m \<noteq> CHR ''*'' \<Longrightarrow> m \<noteq> CHR ''?'' \<Longrightarrow> fits_mask (m # s) (m # ms)"

inductive_simps fits_mask_Nil: "fits_mask s []"
inductive_cases fits_mask_star: "fits_mask s (CHR ''*'' # ms)"

lemma star_once: "fits_mask s (CHR ''*'' # ms) \<Longrightarrow> fits_mask (c # s) (CHR ''*'' # ms)"
  by (erule fits_mask_star) (metis append_Cons fits_mask.star)+

lemma star_none: "fits_mask s ms \<Longrightarrow> fits_mask s (CHR ''*'' # ms)"
  using fits_mask.star [of s ms "[]"] by simp

lemma WildcardMatch_star: "WildcardMatch s ms \<Longrightarrow> WildcardMatch (t @ s) (CHR ''*'' # ms)"
proof (induction t)
  case Nil
  then show ?case by (cases s) simp_all
qed simp

lemma WildcardMatch_fits: "WildcardMatch s ms \<longleftrightarrow> fits_mask s ms"
proof
  show "WildcardMatch s ms \<Longrightarrow> fits_mask s ms"
  proof (induction s ms rule: WildcardMatch.induct)
    case (2 s m ms)
    consider (star) "m = CHR ''*''" | (question) "m = CHR ''?''" | (char) "m \<noteq> CHR ''*''" "m \<noteq> CHR ''?''" by blast
    then show ?case
    proof cases
      case star
      from "2.prems" star consider "WildcardMatch s ms" | c s' where "s = c # s'" "WildcardMatch s' (m # ms)"
        by (cases s) auto
      then show ?thesis
      proof cases
        case 1
        with "2.IH"(1) star show ?thesis using star_none by simp
      next
        case (2 c s')
        with "2.IH"(2) star show ?thesis using star_once by simp
      qed
    next
      case question
      with "2.IH"(3) "2.prems" show ?thesis by - (cases s, simp_all add: fits_mask.question)
    next
      case char
      with "2.IH"(4) "2.prems" show ?thesis by - (cases s, simp_all add: fits_mask.char)
    qed
  qed (simp add: fits_mask.nil)
  show "fits_mask s ms \<Longrightarrow> WildcardMatch s ms"
    by (induction rule: fits_mask.induct) (auto dest: WildcardMatch_star)
qed

subsection \<open>An example\<close>

lemma money_roundtrip_witness: "ParseMoney (FormatMoney 1234500 False) = Some 1234500"
  by (rule money_roundtrip) simp_all

end
