(* ===== verification/Net_Address.thy ===== *)
theory Net_Address
  imports Text_Codec Key Serialize
begin

text \<open>
  Network addresses (\<open>src/netbase.cpp\<close>, \<open>src/protocol.cpp\<close>): the sixteen bytes of a
  \<open>CNetAddr\<close> in network order with the ranges of the RFCs, the groups of addresses, the port of
  a \<open>CService\<close> and what a peer tells about itself in a \<open>CAddress\<close>. The classes extend each
  other as the records do.
\<close>

type_synonym uint16 = "16 word"

datatype Network = NET_UNROUTABLE | NET_IPV4 | NET_IPV6 | NET_TOR | NET_I2P | NET_UNKNOWN | NET_TEREDO

record CNetAddr =
  na_ip :: "byte list"

record CService = CNetAddr +
  sv_port :: uint16

record CAddress = CService +
  ad_nServices :: uint64
  ad_nTime :: uint32
  ad_nLastTry :: int64

definition valid_ip :: "'a CNetAddr_scheme \<Rightarrow> bool" where
  "valid_ip a \<longleftrightarrow> length (na_ip a) = 16"

definition CNetAddr_Init :: CNetAddr where
  "CNetAddr_Init = \<lparr>na_ip = replicate 16 0\<rparr>"

definition pchIPv4 :: "byte list" where
  "pchIPv4 = replicate 10 0 @ [0xff, 0xff]"

definition pchOnionCat :: "byte list" where
  "pchOnionCat = [0xFD, 0x87, 0xD8, 0x7E, 0xEB, 0x43]"

definition pchGarliCat :: "byte list" where
  "pchGarliCat = [0xFD, 0x60, 0xDB, 0x4D, 0xDD, 0xB5]"

text \<open>\<open>memcmp\<close> of the first bytes with a prefix.\<close>

definition has_prefix :: "byte list \<Rightarrow> byte list \<Rightarrow> bool" where
  "has_prefix ip p \<longleftrightarrow> take (length p) ip = p"

definition GetByte :: "'a CNetAddr_scheme \<Rightarrow> nat \<Rightarrow> byte" where
  "GetByte a n = na_ip a ! (15 - n)"

definition CNetAddr_ipv4 :: "byte list \<Rightarrow> CNetAddr" where
  "CNetAddr_ipv4 ipv4Addr = \<lparr>na_ip = pchIPv4 @ ipv4Addr\<rparr>"

subsection \<open>Ranges of addresses\<close>

definition IsIPv4 :: "'a CNetAddr_scheme \<Rightarrow> bool" where
  "IsIPv4 a = has_prefix (na_ip a) pchIPv4"

definition IsTor :: "'a CNetAddr_scheme \<Rightarrow> bool" where
  "IsTor a = has_prefix (na_ip a) pchOnionCat"

definition IsI2P :: "'a CNetAddr_scheme \<Rightarrow> bool" where
  "IsI2P a = has_prefix (na_ip a) pchGarliCat"

definition IsIPv6 :: "'a CNetAddr_scheme \<Rightarrow> bool" where
  "IsIPv6 a \<longleftrightarrow> \<not> IsIPv4 a \<and> \<not> IsTor a \<and> \<not> IsI2P a"

definition IsRFC1918 :: "'a CNetAddr_scheme \<Rightarrow> bool" where
  "IsRFC1918 a \<longleftrightarrow> IsIPv4 a \<and>
     (GetByte a 3 = 10 \<or> GetByte a 3 = 192 \<and> GetByte a 2 = 168 \<or>
      GetByte a 3 = 172 \<and> 16 \<le> GetByte a 2 \<and> GetByte a 2 \<le> 31)"

definition IsRFC3927 :: "'a CNetAddr_scheme \<Rightarrow> bool" where
  "IsRFC3927 a \<longleftrightarrow> IsIPv4 a \<and> GetByte a 3 = 169 \<and> GetByte a 2 = 254"

definition IsRFC3849 :: "'a CNetAddr_scheme \<Rightarrow> bool" where
  "IsRFC3849 a \<longleftrightarrow> GetByte a 15 = 0x20 \<and> GetByte a 14 = 0x01 \<and> GetByte a 13 = 0x0D \<and> GetByte a 12 = 0xB8"

definition IsRFC3964 :: "'a CNetAddr_scheme \<Rightarrow> bool" where
  "IsRFC3964 a \<longleftrightarrow> GetByte a 15 = 0x20 \<and> GetByte a 14 = 0x02"

definition IsRFC6052 :: "'a CNetAddr_scheme \<Rightarrow> bool" where
  "IsRFC6052 a = has_prefix (na_ip a) [0, 0x64, 0xFF, 0x9B, 0, 0, 0, 0, 0, 0, 0, 0]"

definition IsRFC4380 :: "'a CNetAddr_scheme \<Rightarrow> bool" where
  "IsRFC4380 a \<longleftrightarrow> GetByte a 15 = 0x20 \<and> GetByte a 14 = 0x01 \<and> GetByte a 13 = 0 \<and> GetByte a 12 = 0"

definition IsRFC4862 :: "'a CNetAddr_scheme \<Rightarrow> bool" where
  "IsRFC4862 a = has_prefix (na_ip a) [0xFE, 0x80, 0, 0, 0, 0, 0, 0]"

definition IsRFC4193 :: "'a CNetAddr_scheme \<Rightarrow> bool" where
  "IsRFC4193 a \<longleftrightarrow> GetByte a 15 AND 0xFE = 0xFC"

definition IsRFC6145 :: "'a CNetAddr_scheme \<Rightarrow> bool" where
  "IsRFC6145 a = has_prefix (na_ip a) [0, 0, 0, 0, 0, 0, 0, 0, 0xFF, 0xFF, 0, 0]"

definition IsRFC4843 :: "'a CNetAddr_scheme \<Rightarrow> bool" where
  "IsRFC4843 a \<longleftrightarrow>
     GetByte a 15 = 0x20 \<and> GetByte a 14 = 0x01 \<and> GetByte a 13 = 0x00 \<and> GetByte a 12 AND 0xF0 = 0x10"

definition IsLocal :: "'a CNetAddr_scheme \<Rightarrow> bool" where
  "IsLocal a \<longleftrightarrow> IsIPv4 a \<and> (GetByte a 3 = 127 \<or> GetByte a 3 = 0) \<or> na_ip a = replicate 15 0 @ [1]"

definition IsMulticast :: "'a CNetAddr_scheme \<Rightarrow> bool" where
  "IsMulticast a \<longleftrightarrow> IsIPv4 a \<and> GetByte a 3 AND 0xF0 = 0xE0 \<or> GetByte a 15 = 0xFF"

definition IsValid_addr :: "'a CNetAddr_scheme \<Rightarrow> bool" where
  "IsValid_addr a \<longleftrightarrow>
     (if has_prefix (na_ip a) (drop 3 pchIPv4) then False
      else if na_ip a = replicate 16 0 then False
      else if IsRFC3849 a then False
      else if IsIPv4 a then drop 12 (na_ip a) \<noteq> replicate 4 0xFF \<and> drop 12 (na_ip a) \<noteq> replicate 4 0
      else True)"

definition IsRoutable :: "'a CNetAddr_scheme \<Rightarrow> bool" where
  "IsRoutable a \<longleftrightarrow> IsValid_addr a \<and>
     \<not> (IsRFC1918 a \<or> IsRFC3927 a \<or> IsRFC4862 a \<or> IsRFC4193 a \<and> \<not> IsTor a \<and> \<not> IsI2P a \<or>
        IsRFC4843 a \<or> IsLocal a)"

definition GetNetwork :: "'a CNetAddr_scheme \<Rightarrow> Network" where
  "GetNetwork a =
     (if \<not> IsRoutable a then NET_UNROUTABLE else if IsIPv4 a then NET_IPV4 else if IsTor a then NET_TOR
      else if IsI2P a then NET_I2P else NET_IPV6)"

subsection \<open>Groups, hashes and reachability\<close>

definition net_class :: "Network \<Rightarrow> byte" where
  "net_class net = (case net of NET_UNROUTABLE \<Rightarrow> 0 | NET_IPV4 \<Rightarrow> 1 | NET_IPV6 \<Rightarrow> 2 | NET_TOR \<Rightarrow> 3 | NET_I2P \<Rightarrow> 4
     | NET_UNKNOWN \<Rightarrow> 5 | NET_TEREDO \<Rightarrow> 6)"

text \<open>The bytes of a group: whole bytes of the address, then the bits that are left with the
  other bits of their byte set.\<close>

function group_bits :: "'a CNetAddr_scheme \<Rightarrow> nat \<Rightarrow> nat \<Rightarrow> byte list" where
  "group_bits a nStartByte nBits =
     (if 8 \<le> nBits then GetByte a (15 - nStartByte) # group_bits a (nStartByte + 1) (nBits - 8)
      else if 0 < nBits then [GetByte a (15 - nStartByte) OR (push_bit nBits 1 - 1)]
      else [])"
  by pat_completeness auto
termination by (relation "measure (\<lambda>(a, s, n). n)") auto

declare group_bits.simps [simp del]

definition GetGroup :: "'a CNetAddr_scheme \<Rightarrow> byte list" where
  "GetGroup a =
     (let group = (\<lambda>nClass nStartByte nBits. nClass # group_bits a nStartByte nBits);
          nClass = (if IsLocal a then 255 else net_class NET_IPV6); nBits = (if IsLocal a then 0 else 16)
      in if \<not> IsRoutable a then group (net_class NET_UNROUTABLE) 0 0
         else if IsIPv4 a \<or> IsRFC6145 a \<or> IsRFC6052 a then group (net_class NET_IPV4) 12 nBits
         else if IsRFC3964 a then group (net_class NET_IPV4) 2 nBits
         else if IsRFC4380 a then [net_class NET_IPV4, GetByte a 3 XOR 0xFF, GetByte a 2 XOR 0xFF]
         else if IsTor a then group (net_class NET_TOR) 6 4
         else if IsI2P a then group (net_class NET_I2P) 6 4
         else if GetByte a 15 = 0x20 \<and> GetByte a 14 = 0x11 \<and> GetByte a 13 = 0x04 \<and> GetByte a 12 = 0x70
           then group nClass 0 36
         else group nClass 0 32)"

definition CNetAddr_GetHash :: "openssl \<Rightarrow> 'a CNetAddr_scheme \<Rightarrow> uint64" where
  "CNetAddr_GetHash E a = word_of_nat (le_value (take 8 (bytes_of_u256 (Hash E (na_ip a)))))"

definition GetExtNetwork :: "'a CNetAddr_scheme option \<Rightarrow> Network" where
  "GetExtNetwork addr =
     (case addr of None \<Rightarrow> NET_UNKNOWN | Some a \<Rightarrow> if IsRFC4380 a then NET_TEREDO else GetNetwork a)"

datatype Reachability = REACH_UNREACHABLE | REACH_DEFAULT | REACH_TEREDO | REACH_IPV6_WEAK | REACH_IPV4
  | REACH_IPV6_STRONG | REACH_PRIVATE

definition GetReachabilityFrom :: "'a CNetAddr_scheme \<Rightarrow> 'b CNetAddr_scheme option \<Rightarrow> Reachability" where
  "GetReachabilityFrom a paddrPartner =
     (if \<not> IsRoutable a then REACH_UNREACHABLE
      else let ourNet = GetExtNetwork (Some a);
               theirNet = GetExtNetwork paddrPartner;
               fTunnel = IsRFC3964 a \<or> IsRFC6052 a \<or> IsRFC6145 a
           in case theirNet of
                NET_IPV4 \<Rightarrow> if ourNet = NET_IPV4 then REACH_IPV4 else REACH_DEFAULT
              | NET_IPV6 \<Rightarrow>
                  (case ourNet of NET_TEREDO \<Rightarrow> REACH_TEREDO | NET_IPV4 \<Rightarrow> REACH_IPV4
                   | NET_IPV6 \<Rightarrow> if fTunnel then REACH_IPV6_WEAK else REACH_IPV6_STRONG | _ \<Rightarrow> REACH_DEFAULT)
              | NET_TOR \<Rightarrow>
                  (case ourNet of NET_IPV4 \<Rightarrow> REACH_IPV4 | NET_TOR \<Rightarrow> REACH_PRIVATE | _ \<Rightarrow> REACH_DEFAULT)
              | NET_I2P \<Rightarrow> if ourNet = NET_I2P then REACH_PRIVATE else REACH_DEFAULT
              | NET_TEREDO \<Rightarrow>
                  (case ourNet of NET_TEREDO \<Rightarrow> REACH_TEREDO | NET_IPV6 \<Rightarrow> REACH_IPV6_WEAK
                   | NET_IPV4 \<Rightarrow> REACH_IPV4 | _ \<Rightarrow> REACH_DEFAULT)
              | _ \<Rightarrow>
                  (case ourNet of NET_TEREDO \<Rightarrow> REACH_TEREDO | NET_IPV6 \<Rightarrow> REACH_IPV6_WEAK
                   | NET_IPV4 \<Rightarrow> REACH_IPV4 | NET_I2P \<Rightarrow> REACH_PRIVATE | NET_TOR \<Rightarrow> REACH_PRIVATE
                   | _ \<Rightarrow> REACH_DEFAULT))"

subsection \<open>Hidden services by name\<close>

definition has_suffix :: "string \<Rightarrow> string \<Rightarrow> bool" where
  "has_suffix str suf \<longleftrightarrow> length suf < length str \<and> drop (length str - length suf) str = suf"

definition special_addr :: "string \<Rightarrow> string \<Rightarrow> byte list \<Rightarrow> CNetAddr option" where
  "special_addr strName suf prefix =
     (let vchAddr = fst (DecodeBase32 (take (length strName - length suf) strName))
      in if length vchAddr \<noteq> 16 - length prefix then None else Some \<lparr>na_ip = prefix @ vchAddr\<rparr>)"

text \<open>The name of an I2P address is given the prefix of Tor addresses, as in the code.\<close>

definition SetSpecial :: "string \<Rightarrow> CNetAddr option" where
  "SetSpecial strName =
     (if has_suffix strName ''.onion'' then special_addr strName ''.onion'' pchOnionCat
      else if has_suffix strName ''.oc.b32.i2p'' then special_addr strName ''.oc.b32.i2p'' pchOnionCat
      else None)"

text \<open>The text of a hidden service; the text of other addresses is written by the system.\<close>

definition ToStringIP_special :: "'a CNetAddr_scheme \<Rightarrow> string option" where
  "ToStringIP_special a =
     (if IsTor a then Some (EncodeBase32 (take 10 (drop 6 (na_ip a))) @ ''.onion'')
      else if IsI2P a then Some (EncodeBase32 (take 10 (drop 6 (na_ip a))) @ ''.oc.b32.i2p'')
      else None)"

subsection \<open>Ports and peers\<close>

definition CService_GetKey :: "'a CService_scheme \<Rightarrow> byte list" where
  "CService_GetKey s = na_ip s @ [ucast (sv_port s div 0x100), ucast (sv_port s AND 0x0FF)]"

definition CService_eq :: "'a CService_scheme \<Rightarrow> 'b CService_scheme \<Rightarrow> bool" where
  "CService_eq a b \<longleftrightarrow> na_ip a = na_ip b \<and> sv_port a = sv_port b"

fun memcmp :: "byte list \<Rightarrow> byte list \<Rightarrow> int" where
  "memcmp (a # as) (b # bs) = (if a < b then -1 else if b < a then 1 else memcmp as bs)"
| "memcmp _ _ = 0"

definition CNetAddr_less :: "'a CNetAddr_scheme \<Rightarrow> 'b CNetAddr_scheme \<Rightarrow> bool" where
  "CNetAddr_less a b \<longleftrightarrow> memcmp (na_ip a) (na_ip b) < 0"

definition CService_less :: "'a CService_scheme \<Rightarrow> 'b CService_scheme \<Rightarrow> bool" where
  "CService_less a b \<longleftrightarrow> CNetAddr_less a b \<or> na_ip a = na_ip b \<and> sv_port a < sv_port b"

definition NODE_NETWORK :: uint64 where "NODE_NETWORK = 1"

definition CAddress_of :: "CService \<Rightarrow> uint64 \<Rightarrow> CAddress" where
  "CAddress_of ipIn nServicesIn =
     \<lparr>na_ip = na_ip ipIn, sv_port = sv_port ipIn, ad_nServices = nServicesIn, ad_nTime = 100000000, ad_nLastTry = 0\<rparr>"

subsection \<open>Serialisation\<close>

text \<open>The port is written in network order. \<open>disk\<close> and \<open>gethash\<close> are the bits of \<open>nType\<close>.\<close>

definition port_bytes :: "uint16 \<Rightarrow> byte list" where
  "port_bytes p = be_bytes 2 (unat p)"

definition ser_CService :: "'a CService_scheme \<Rightarrow> byte list" where
  "ser_CService s = na_ip s @ port_bytes (sv_port s)"

definition unser_CService :: "CService reader" where
  "unser_CService bs =
     (case read_bytes 16 bs of None \<Rightarrow> None
      | Some (ip, bs) \<Rightarrow>
          (case read_bytes 2 bs of None \<Rightarrow> None
           | Some (portN, bs) \<Rightarrow> Some (\<lparr>na_ip = ip, sv_port = word_of_nat (be_value portN)\<rparr>, bs)))"

definition with_time :: "bool \<Rightarrow> bool \<Rightarrow> int \<Rightarrow> bool" where
  "with_time disk gethash nVersion \<longleftrightarrow> disk \<or> 31402 \<le> nVersion \<and> \<not> gethash"

definition ser_CAddress :: "bool \<Rightarrow> bool \<Rightarrow> int \<Rightarrow> 'a CAddress_scheme \<Rightarrow> byte list" where
  "ser_CAddress disk gethash nVersion a =
     (if disk then bytes_of_u32 (word_of_int nVersion) else []) @
     (if with_time disk gethash nVersion then bytes_of_u32 (ad_nTime a) else []) @
     bytes_of_u64 (ad_nServices a) @ ser_CService a"

text \<open>Reading starts from the default values; the version on disk replaces the stream's.\<close>

definition unser_CAddress :: "bool \<Rightarrow> bool \<Rightarrow> int \<Rightarrow> CAddress reader" where
  "unser_CAddress disk gethash nVersion bs =
     (case (if disk then map_option (map_prod sint id) (read_u32 bs) else Some (nVersion, bs)) of None \<Rightarrow> None
      | Some (nVersion, bs) \<Rightarrow>
          (case (if with_time disk gethash nVersion then read_u32 bs else Some (100000000, bs)) of None \<Rightarrow> None
           | Some (nTime, bs) \<Rightarrow>
               (case read_u64 bs of None \<Rightarrow> None
                | Some (nServices, bs) \<Rightarrow>
                    (case unser_CService bs of None \<Rightarrow> None
                     | Some (s, bs) \<Rightarrow>
                         Some (\<lparr>na_ip = na_ip s, sv_port = sv_port s, ad_nServices = nServices, ad_nTime = nTime,
                                ad_nLastTry = 0\<rparr>, bs)))))"

lemma port_bytes_value: "word_of_nat (be_value (port_bytes p)) = p"
  using be_value_be_bytes [of "unat p" 2] unsigned_less [where ?'a = nat, of p] by (simp add: port_bytes_def)

lemma length_port_bytes [simp]: "length (port_bytes p) = 2"
  by (simp add: port_bytes_def)

lemma unser_ser_CService: "valid_ip s \<Longrightarrow> unser_CService (ser_CService s @ bs) = Some (\<lparr>na_ip = na_ip s, sv_port = sv_port s\<rparr>, bs)"
  by (simp add: unser_CService_def ser_CService_def codec_simps valid_ip_def port_bytes_value)

lemma unser_ser_CAddress:
  assumes "valid_ip a" "with_time disk gethash nVersion"
  shows "unser_CAddress disk gethash nVersion (ser_CAddress disk gethash nVersion a @ bs) =
    Some (CAddress.truncate a\<lparr>ad_nLastTry := 0\<rparr>, bs)"
  using assms unser_ser_CService [of a bs]
  by (cases disk) (simp_all add: unser_CAddress_def ser_CAddress_def codec_simps with_time_def CAddress.truncate_def)

subsection \<open>Groups tell routable addresses apart by their range\<close>

lemma IsLocal_unroutable: "IsLocal a \<Longrightarrow> \<not> IsRoutable a"
  by (simp add: IsRoutable_def)

lemma GetGroup_IPv4:
  assumes "IsRoutable a" "IsIPv4 a"
  shows "GetGroup a = [1, GetByte a 3, GetByte a 2]"
proof -
  have "group_bits a 12 16 = [GetByte a 3, GetByte a 2]" by (simp add: group_bits.simps)
  with assms IsLocal_unroutable [of a] show ?thesis by (auto simp: GetGroup_def Let_def net_class_def)
qed

lemma GetGroup_unroutable: "\<not> IsRoutable a \<Longrightarrow> GetGroup a = [0]"
  by (simp add: GetGroup_def Let_def net_class_def group_bits.simps)

lemma GetGroup_length: "length (GetGroup a) \<le> 6"
proof -
  have "group_bits a s n = [] \<and> n = 0 \<or> length (group_bits a s n) \<le> 5" if "n \<le> 36" for s n
  proof -
    have "length (group_bits a s n) \<le> (n + 7) div 8" for a :: "'b CNetAddr_scheme" and s n
    proof (induction a s n rule: group_bits.induct)
      case (1 a s n)
      then show ?case by (subst group_bits.simps) auto
    qed
    then have "length (group_bits a s n) \<le> (n + 7) div 8" .
    with that show ?thesis by linarith
  qed
  from this [of 0 0] this [of 16 12] this [of 16 2] this [of 4 6] this [of 36 0] this [of 32 0]
  show ?thesis using IsLocal_unroutable [of a] by (auto simp: GetGroup_def Let_def)
qed

text \<open>C37: Two routable IPv4 addresses are in one group if and only if their first two bytes agree;
  addresses that are not routable, the local ones included, form one group apart from every IPv4
  address.\<close>

theorem GetGroup_ranges:
  assumes "IsIPv4 a" "IsRoutable a" "IsIPv4 b" "IsRoutable b" "\<not> IsRoutable c \<or> IsLocal c"
  shows "(GetGroup a = GetGroup b \<longleftrightarrow> GetByte a 3 = GetByte b 3 \<and> GetByte a 2 = GetByte b 2) \<and>
    GetGroup c = [0] \<and> GetGroup c \<noteq> GetGroup a"
  using assms IsLocal_unroutable [of c] by (auto simp: GetGroup_IPv4 GetGroup_unroutable)

subsection \<open>Names of hidden services\<close>

lemma has_suffix_append: "has_suffix (w @ suf) suf \<longleftrightarrow> w \<noteq> []"
  by (auto simp: has_suffix_def)

lemma i2p_not_onion: "\<not> has_suffix (w @ ''.oc.b32.i2p'') ''.onion''"
proof -
  have "drop (length (w @ ''.oc.b32.i2p'') - 6) (w @ ''.oc.b32.i2p'') = ''32.i2p''" by simp
  then show ?thesis by (simp add: has_suffix_def)
qed

lemma special_addr_EncodeBase32:
  "length b = 10 \<Longrightarrow> length prefix = 6 \<Longrightarrow> special_addr (EncodeBase32 b @ suf) suf prefix = Some \<lparr>na_ip = prefix @ b\<rparr>"
  by (simp add: special_addr_def DecodeBase32_EncodeBase32 Let_def)

lemma EncodeBase32_nonempty: "b \<noteq> [] \<Longrightarrow> EncodeBase32 b \<noteq> []"
  by (cases b) (simp_all add: EncodeBase32_def Let_def)

lemma prefix_split: "has_prefix ip p \<Longrightarrow> ip = p @ drop (length p) ip"
  unfolding has_prefix_def by (metis append_take_drop_id)

lemma SetSpecial_Tor:
  assumes "valid_ip a" "IsTor a" "ToStringIP_special a = Some name"
  shows "SetSpecial name = Some (CNetAddr.truncate a)"
proof -
  have l: "length pchOnionCat = 6" by (simp add: pchOnionCat_def)
  define t where "t = drop 6 (na_ip a)"
  have t: "length t = 10" "take 10 t = t" using assms(1) by (simp_all add: t_def valid_ip_def)
  have ip: "na_ip a = pchOnionCat @ t" using assms(2) l unfolding IsTor_def t_def by (metis prefix_split)
  have name: "name = EncodeBase32 t @ ''.onion''" using assms(2,3) t(2) by (simp add: ToStringIP_special_def t_def)
  have "EncodeBase32 t \<noteq> []" using t by (intro EncodeBase32_nonempty) auto
  then have "has_suffix (EncodeBase32 t @ ''.onion'') ''.onion''" by (simp only: has_suffix_append) simp
  then show ?thesis
    unfolding SetSpecial_def name using special_addr_EncodeBase32 [OF t(1) l] ip
    by (simp only: if_True CNetAddr.truncate_def)
qed

lemma SetSpecial_I2P:
  assumes "valid_ip a" "IsI2P a" "ToStringIP_special a = Some name"
  shows "SetSpecial name = Some \<lparr>na_ip = pchOnionCat @ drop 6 (na_ip a)\<rparr>" "\<not> IsTor a"
proof -
  have l: "length pchOnionCat = 6" by (simp add: pchOnionCat_def)
  show nt: "\<not> IsTor a"
  proof
    assume "IsTor a"
    with assms(2) have "take 6 (na_ip a) = pchOnionCat" "take 6 (na_ip a) = pchGarliCat"
      by (simp_all add: IsTor_def IsI2P_def has_prefix_def pchOnionCat_def pchGarliCat_def)
    then show False by (simp add: pchOnionCat_def pchGarliCat_def)
  qed
  define t where "t = drop 6 (na_ip a)"
  have t: "length t = 10" "take 10 t = t" using assms(1) by (simp_all add: t_def valid_ip_def)
  have name: "name = EncodeBase32 t @ ''.oc.b32.i2p''"
    using assms(2,3) nt t(2) by (simp add: ToStringIP_special_def t_def)
  have "EncodeBase32 t \<noteq> []" using t by (intro EncodeBase32_nonempty) auto
  then have "has_suffix (EncodeBase32 t @ ''.oc.b32.i2p'') ''.oc.b32.i2p''" by (simp only: has_suffix_append) simp
  then show "SetSpecial name = Some \<lparr>na_ip = pchOnionCat @ drop 6 (na_ip a)\<rparr>"
    unfolding SetSpecial_def name t_def [symmetric] using special_addr_EncodeBase32 [OF t(1) l] i2p_not_onion [of "EncodeBase32 t"]
    by (simp only: if_True if_False)
qed

text \<open>C38: The name of a Tor address leads back to it. The name of an I2P address does not: it is read as
  the Tor address with the same bytes.\<close>

theorem hidden_service_names:
  assumes "valid_ip a" "IsTor a" "ToStringIP_special a = Some tor_name"
    and "valid_ip b" "IsI2P b" "ToStringIP_special b = Some i2p_name"
  shows "SetSpecial tor_name = Some (CNetAddr.truncate a) \<and>
    (\<exists>c. SetSpecial i2p_name = Some c \<and> IsTor c \<and> na_ip c \<noteq> na_ip b \<and> drop 6 (na_ip c) = drop 6 (na_ip b))"
proof -
  note i2p = SetSpecial_I2P [OF assms(4,5,6)]
  have tor: "IsTor \<lparr>na_ip = pchOnionCat @ drop 6 (na_ip b)\<rparr>" by (simp add: IsTor_def has_prefix_def)
  then have "pchOnionCat @ drop 6 (na_ip b) \<noteq> na_ip b" using i2p(2) by (auto simp: IsTor_def)
  moreover have "drop 6 (pchOnionCat @ drop 6 (na_ip b)) = drop 6 (na_ip b)" by (simp add: pchOnionCat_def)
  ultimately show ?thesis using SetSpecial_Tor [OF assms(1-3)] i2p(1) tor by auto
qed

subsection \<open>Examples\<close>

lemma GetGroup_ranges_witness:
  "(GetGroup (CNetAddr_ipv4 [8, 8, 4, 4]) = GetGroup (CNetAddr_ipv4 [8, 8, 8, 8]) \<longleftrightarrow> (8 :: byte) = 8 \<and> (8 :: byte) = 8) \<and>
   GetGroup (CNetAddr_ipv4 [127, 0, 0, 1]) = [0] \<and> GetGroup (CNetAddr_ipv4 [127, 0, 0, 1]) \<noteq> GetGroup (CNetAddr_ipv4 [8, 8, 4, 4])"
proof -
  have ok: "IsIPv4 (CNetAddr_ipv4 [8, 8, 4, 4])" "IsRoutable (CNetAddr_ipv4 [8, 8, 4, 4])"
    "IsIPv4 (CNetAddr_ipv4 [8, 8, 8, 8])" "IsRoutable (CNetAddr_ipv4 [8, 8, 8, 8])" "IsLocal (CNetAddr_ipv4 [127, 0, 0, 1])"
    by code_simp+
  have bytes: "GetByte (CNetAddr_ipv4 [8, 8, 4, 4]) 3 = 8" "GetByte (CNetAddr_ipv4 [8, 8, 8, 8]) 3 = 8"
    "GetByte (CNetAddr_ipv4 [8, 8, 4, 4]) 2 = 8" "GetByte (CNetAddr_ipv4 [8, 8, 8, 8]) 2 = 8"
    by code_simp+
  have "\<not> IsRoutable (CNetAddr_ipv4 [127, 0, 0, 1]) \<or> IsLocal (CNetAddr_ipv4 [127, 0, 0, 1])" using ok(5) by blast
  from GetGroup_ranges [OF ok(1-4) this] show ?thesis unfolding bytes by blast
qed

definition sample_tor :: CNetAddr where
  "sample_tor = \<lparr>na_ip = pchOnionCat @ [1, 2, 3, 4, 5, 6, 7, 8, 9, 10]\<rparr>"

definition sample_i2p :: CNetAddr where
  "sample_i2p = \<lparr>na_ip = pchGarliCat @ [1, 2, 3, 4, 5, 6, 7, 8, 9, 10]\<rparr>"

lemma hidden_service_names_witness:
  "SetSpecial (the (ToStringIP_special sample_tor)) = Some sample_tor \<and>
   (\<exists>c. SetSpecial (the (ToStringIP_special sample_i2p)) = Some c \<and> IsTor c \<and> na_ip c \<noteq> na_ip sample_i2p)"
proof -
  have ok: "valid_ip sample_tor" "IsTor sample_tor" "valid_ip sample_i2p" "IsI2P sample_i2p" "\<not> IsTor sample_i2p"
    by code_simp+
  then have names: "ToStringIP_special sample_tor = Some (the (ToStringIP_special sample_tor))"
    "ToStringIP_special sample_i2p = Some (the (ToStringIP_special sample_i2p))"
    by (simp_all add: ToStringIP_special_def)
  have "CNetAddr.truncate sample_tor = sample_tor" by (simp add: CNetAddr.truncate_def sample_tor_def)
  with hidden_service_names [OF ok(1,2) names(1) ok(3,4) names(2)] show ?thesis by auto
qed

end
