(* ===== verification/Random_Draws.thy ===== *)
theory Random_Draws
  imports Prelude
begin

text \<open>
  Random numbers (\<open>GetRand\<close> and \<open>GetRandInt\<close> in \<open>src/util.cpp\<close>) and the computations that use
  them. The 64-bit values that OpenSSL's \<open>RAND_bytes\<close> will deliver are a list; a computation
  takes the unused ones along. It ends with a result, runs out of the listed values, or fails:
  an assertion is false, or an element of a container is used that is not there.
\<close>

datatype 'a run = Done 'a | Out_of_draws | Failed

type_synonym 'a rand = "uint64 list \<Rightarrow> ('a \<times> uint64 list) run"

definition nRange :: "nat \<Rightarrow> nat" where
  "nRange nMax = ((2 ^ 64 - 1) div nMax) * nMax"

fun GetRand :: "nat \<Rightarrow> nat rand" where
  "GetRand nMax rs =
     (if nMax = 0 then Done (0, rs)
      else case rs of
          [] \<Rightarrow> Out_of_draws
        | nRand # rs \<Rightarrow> if nRange nMax \<le> unat nRand then GetRand nMax rs else Done (unat nRand mod nMax, rs))"

declare GetRand.simps [simp del]

subsection \<open>Sequences of steps\<close>

definition ret :: "'a \<Rightarrow> 'a rand" where
  "ret x rs = Done (x, rs)"

definition bind :: "'a rand \<Rightarrow> ('a \<Rightarrow> 'b rand) \<Rightarrow> 'b rand" where
  "bind m f rs = (case m rs of Done (x, rs) \<Rightarrow> f x rs | Out_of_draws \<Rightarrow> Out_of_draws | Failed \<Rightarrow> Failed)"

definition check_that :: "bool \<Rightarrow> unit rand" where
  "check_that b rs = (if b then Done ((), rs) else Failed)"

definition lookup_at :: "('k \<Rightarrow> 'v option) \<Rightarrow> 'k \<Rightarrow> 'v rand" where
  "lookup_at m k rs = (case m k of None \<Rightarrow> Failed | Some v \<Rightarrow> Done (v, rs))"

lemma bind_ret [simp]: "bind (ret x) f = f x"
  by (simp add: fun_eq_iff bind_def ret_def)

lemma bind_check [simp]: "b \<Longrightarrow> bind (check_that b) f = f ()"
  by (simp add: fun_eq_iff bind_def check_that_def)

lemma bind_lookup [simp]: "m k = Some v \<Longrightarrow> bind (lookup_at m k) f = f v"
  by (simp add: fun_eq_iff bind_def lookup_at_def)

subsection \<open>What a computation guarantees\<close>

text \<open>No run fails, and every result has the property.\<close>

definition run_ok :: "'a rand \<Rightarrow> ('a \<Rightarrow> bool) \<Rightarrow> bool" where
  "run_ok m Q \<longleftrightarrow> (\<forall>rs. case m rs of Done (x, _) \<Rightarrow> Q x | Out_of_draws \<Rightarrow> True | Failed \<Rightarrow> False)"

named_theorems run_intros

lemma run_ok_ret [run_intros]: "Q x \<Longrightarrow> run_ok (ret x) Q"
  by (simp add: run_ok_def ret_def)

lemma run_ok_bind: "run_ok m (\<lambda>x. run_ok (f x) Q) \<Longrightarrow> run_ok (bind m f) Q"
  unfolding run_ok_def bind_def by (fastforce split: run.splits)

lemma run_ok_check [run_intros]: "b \<Longrightarrow> Q () \<Longrightarrow> run_ok (check_that b) Q"
  by (simp add: run_ok_def check_that_def)

lemma run_ok_lookup [run_intros]: "m k = Some v \<Longrightarrow> Q v \<Longrightarrow> run_ok (lookup_at m k) Q"
  by (simp add: run_ok_def lookup_at_def)

lemma run_ok_weaken: "run_ok m Q \<Longrightarrow> (\<And>x. Q x \<Longrightarrow> R x) \<Longrightarrow> run_ok m R"
  unfolding run_ok_def by (fastforce split: run.splits)

lemma run_ok_done: "run_ok m Q \<Longrightarrow> m rs = Done (x, rs') \<Longrightarrow> Q x"
  unfolding run_ok_def by (drule spec [of _ rs]) simp

lemma run_ok_no_failure: "run_ok m Q \<Longrightarrow> m rs \<noteq> Failed"
  unfolding run_ok_def by (drule spec [of _ rs]) auto

lemma GetRand_range: "GetRand nMax rs = Done (k, rs') \<Longrightarrow> 0 < nMax \<Longrightarrow> k < nMax"
  by (induction nMax rs rule: GetRand.induct) (subst (asm) GetRand.simps, auto split: list.splits if_splits)

lemma GetRand_no_failure: "GetRand nMax rs \<noteq> Failed"
  by (induction nMax rs rule: GetRand.induct) (subst GetRand.simps, auto split: list.splits)

lemma run_ok_GetRand [run_intros]: "0 < nMax \<Longrightarrow> (\<And>k. k < nMax \<Longrightarrow> Q k) \<Longrightarrow> run_ok (GetRand nMax) Q"
  unfolding run_ok_def by (auto split: run.splits dest: GetRand_range simp: GetRand_no_failure)

subsection \<open>How many random values are enough\<close>

text \<open>With so many values in the lower half of the range, the computation does not run out of
  them.\<close>

definition draws_suffice :: "nat \<Rightarrow> 'a rand \<Rightarrow> bool" where
  "draws_suffice k m \<longleftrightarrow>
     (\<forall>rs. k \<le> length rs \<longrightarrow> (\<forall>r \<in> set rs. unat r < 2 ^ 63) \<longrightarrow>
        (case m rs of Done (_, rs') \<Rightarrow> length rs \<le> length rs' + k \<and> set rs' \<subseteq> set rs
         | Out_of_draws \<Rightarrow> False | Failed \<Rightarrow> True))"

lemma draws_ret: "draws_suffice 0 (ret x)"
  by (simp add: draws_suffice_def ret_def)

lemma draws_check: "draws_suffice 0 (check_that b)"
  by (simp add: draws_suffice_def check_that_def)

lemma draws_lookup: "draws_suffice 0 (lookup_at m k)"
  by (simp add: draws_suffice_def lookup_at_def split: option.split)

lemma draws_bind:
  assumes "draws_suffice a m" "\<And>x. draws_suffice b (f x)"
  shows "draws_suffice (a + b) (bind m f)"
  unfolding draws_suffice_def
proof (intro allI impI)
  fix rs :: "uint64 list" assume rs: "a + b \<le> length rs" "\<forall>r \<in> set rs. unat r < 2 ^ 63"
  have "a \<le> length rs" using rs(1) by simp
  with assms(1) rs(2) have M: "case m rs of Done (_, rs') \<Rightarrow> length rs \<le> length rs' + a \<and> set rs' \<subseteq> set rs
    | Out_of_draws \<Rightarrow> False | Failed \<Rightarrow> True"
    unfolding draws_suffice_def by blast
  show "case bind m f rs of Done (_, rs') \<Rightarrow> length rs \<le> length rs' + (a + b) \<and> set rs' \<subseteq> set rs
         | Out_of_draws \<Rightarrow> False | Failed \<Rightarrow> True"
  proof (cases "m rs")
    case (Done p)
    obtain x rs' where p: "p = (x, rs')" by (cases p)
    have m: "length rs \<le> length rs' + a" "set rs' \<subseteq> set rs" using M by (simp_all add: Done p)
    have "b \<le> length rs'" "\<forall>r \<in> set rs'. unat r < 2 ^ 63" using m rs by auto
    then have f: "case f x rs' of Done (_, rs'') \<Rightarrow> length rs' \<le> length rs'' + b \<and> set rs'' \<subseteq> set rs'
      | Out_of_draws \<Rightarrow> False | Failed \<Rightarrow> True"
      using assms(2) [of x] unfolding draws_suffice_def by blast
    have eq: "bind m f rs = f x rs'" by (simp add: bind_def Done p)
    show ?thesis
    proof (cases "f x rs'")
      case (Done q)
      then show ?thesis using f m unfolding eq by (cases q) auto
    qed (use f eq in simp_all)
  next
    case Out_of_draws
    with M show ?thesis by simp
  qed (simp add: bind_def)
qed

lemma draws_weaken: "draws_suffice a m \<Longrightarrow> a \<le> b \<Longrightarrow> draws_suffice b m"
  unfolding draws_suffice_def
proof (intro allI impI)
  fix rs :: "uint64 list"
  assume m: "\<forall>rs. a \<le> length rs \<longrightarrow> (\<forall>r \<in> set rs. unat r < 2 ^ 63) \<longrightarrow>
        (case m rs of Done (_, rs') \<Rightarrow> length rs \<le> length rs' + a \<and> set rs' \<subseteq> set rs
         | Out_of_draws \<Rightarrow> False | Failed \<Rightarrow> True)"
    and "a \<le> b" "b \<le> length rs" "\<forall>r \<in> set rs. unat r < 2 ^ 63"
  then have "case m rs of Done (_, rs') \<Rightarrow> length rs \<le> length rs' + a \<and> set rs' \<subseteq> set rs
     | Out_of_draws \<Rightarrow> False | Failed \<Rightarrow> True" by (metis (no_types) le_trans)
  with \<open>a \<le> b\<close> show "case m rs of Done (_, rs') \<Rightarrow> length rs \<le> length rs' + b \<and> set rs' \<subseteq> set rs
     | Out_of_draws \<Rightarrow> False | Failed \<Rightarrow> True"
    by (cases "m rs") auto
qed

lemma draws_GetRand: "nMax \<le> 2 ^ 63 \<Longrightarrow> draws_suffice 1 (GetRand nMax)"
  unfolding draws_suffice_def
proof (intro allI impI)
  fix rs :: "uint64 list" assume m: "nMax \<le> 2 ^ 63" and rs: "1 \<le> length rs" "\<forall>r \<in> set rs. unat r < 2 ^ 63"
  then obtain r rs' where c: "rs = r # rs'" "unat r < 2 ^ 63" by (cases rs) auto
  have "2 ^ 63 \<le> nRange nMax" if "nMax \<noteq> 0"
  proof -
    have "18446744073709551615 mod nMax < nMax" using that by simp
    moreover have "nRange nMax + 18446744073709551615 mod nMax = 18446744073709551615"
      using div_mult_mod_eq [of 18446744073709551615 nMax] by (simp add: nRange_def)
    ultimately show ?thesis using m by simp
  qed
  with c show "case GetRand nMax rs of Done (_, rs') \<Rightarrow> length rs \<le> length rs' + 1 \<and> set rs' \<subseteq> set rs
         | Out_of_draws \<Rightarrow> False | Failed \<Rightarrow> True"
    by (subst GetRand.simps) auto
qed

end
