(* ===== verification/Addrman.thy ===== *)
theory Addrman
  imports Net_Address Random_Draws
begin

text \<open>
  The address manager (\<open>src/addrman.h\<close>, \<open>src/addrman.cpp\<close>): the table of known addresses, its
  index by network address, the vector that is shuffled to pick addresses, and the buckets of
  addresses that were tried and of new ones. An entry is changed in place through pointers in
  the code; here it is written back under its id. An assertion of the code that is false, an
  index out of range and a \<open>mapInfo[..]\<close> that would create an entry are failures of the run.
  The adjusted time is read once per operation.
\<close>

record CAddrInfo = CAddress +
  ai_source :: CNetAddr
  ai_nLastSuccess :: int64
  ai_nAttempts :: int
  ai_nRefCount :: int
  ai_fInTried :: bool
  ai_nRandomPos :: int

record CAddrMan =
  am_nKey :: "byte list"
  am_nIdCount :: int
  am_mapInfo :: "int \<Rightarrow> CAddrInfo option"
  am_mapAddr :: "CNetAddr \<Rightarrow> int option"
  am_vRandom :: "int list"
  am_nTried :: int
  am_vvTried :: "int list list"
  am_nNew :: int
  am_vvNew :: "int set list"

definition ADDRMAN_TRIED_BUCKET_COUNT :: nat where "ADDRMAN_TRIED_BUCKET_COUNT = 64"
definition ADDRMAN_TRIED_BUCKET_SIZE :: nat where "ADDRMAN_TRIED_BUCKET_SIZE = 64"
definition ADDRMAN_NEW_BUCKET_COUNT :: nat where "ADDRMAN_NEW_BUCKET_COUNT = 256"
definition ADDRMAN_NEW_BUCKET_SIZE :: nat where "ADDRMAN_NEW_BUCKET_SIZE = 64"
definition ADDRMAN_TRIED_BUCKETS_PER_GROUP :: uint64 where "ADDRMAN_TRIED_BUCKETS_PER_GROUP = 4"
definition ADDRMAN_NEW_BUCKETS_PER_SOURCE_GROUP :: uint64 where "ADDRMAN_NEW_BUCKETS_PER_SOURCE_GROUP = 32"
definition ADDRMAN_NEW_BUCKETS_PER_ADDRESS :: int where "ADDRMAN_NEW_BUCKETS_PER_ADDRESS = 4"
definition ADDRMAN_TRIED_ENTRIES_INSPECT_ON_EVICT :: nat where "ADDRMAN_TRIED_ENTRIES_INSPECT_ON_EVICT = 4"
definition ADDRMAN_HORIZON_DAYS :: int where "ADDRMAN_HORIZON_DAYS = 30"
definition ADDRMAN_RETRIES :: int where "ADDRMAN_RETRIES = 3"
definition ADDRMAN_MAX_FAILURES :: int where "ADDRMAN_MAX_FAILURES = 10"
definition ADDRMAN_MIN_FAIL_DAYS :: int where "ADDRMAN_MIN_FAIL_DAYS = 7"
definition ADDRMAN_GETADDR_MAX_PCT :: nat where "ADDRMAN_GETADDR_MAX_PCT = 23"
definition ADDRMAN_GETADDR_MAX :: nat where "ADDRMAN_GETADDR_MAX = 2500"

definition CAddrMan_new :: "byte list \<Rightarrow> CAddrMan" where
  "CAddrMan_new nKey =
     \<lparr>am_nKey = nKey, am_nIdCount = 0, am_mapInfo = Map.empty, am_mapAddr = Map.empty, am_vRandom = [], am_nTried = 0,
      am_vvTried = replicate ADDRMAN_TRIED_BUCKET_COUNT [], am_nNew = 0,
      am_vvNew = replicate ADDRMAN_NEW_BUCKET_COUNT {}\<rparr>"

subsection \<open>Entries\<close>

definition netaddr :: "'a CNetAddr_scheme \<Rightarrow> CNetAddr" where
  "netaddr a = CNetAddr.truncate a"

definition CAddrInfo_of :: "CAddress \<Rightarrow> CNetAddr \<Rightarrow> CAddrInfo" where
  "CAddrInfo_of addrIn addrSource =
     CAddress.extend (addrIn\<lparr>ad_nLastTry := 0\<rparr>)
       (CAddrInfo.fields addrSource 0 0 0 False (-1))"

definition bucket_hash :: "openssl \<Rightarrow> byte list \<Rightarrow> uint64" where
  "bucket_hash E bs = ucast (Hash E bs)"

definition GetTriedBucket :: "openssl \<Rightarrow> byte list \<Rightarrow> 'a CService_scheme \<Rightarrow> nat" where
  "GetTriedBucket E nKey a =
     (let hash1 = bucket_hash E (Serialize_bytes nKey @ Serialize_bytes (CService_GetKey a));
          hash2 = bucket_hash E (Serialize_bytes nKey @ Serialize_bytes (GetGroup a) @
                    bytes_of_u64 (hash1 mod ADDRMAN_TRIED_BUCKETS_PER_GROUP))
      in unat hash2 mod ADDRMAN_TRIED_BUCKET_COUNT)"

definition GetNewBucket :: "openssl \<Rightarrow> byte list \<Rightarrow> 'a CService_scheme \<Rightarrow> CNetAddr \<Rightarrow> nat" where
  "GetNewBucket E nKey a src =
     (let hash1 = bucket_hash E (Serialize_bytes nKey @ Serialize_bytes (GetGroup a) @ Serialize_bytes (GetGroup src));
          hash2 = bucket_hash E (Serialize_bytes nKey @ Serialize_bytes (GetGroup src) @
                    bytes_of_u64 (hash1 mod ADDRMAN_NEW_BUCKETS_PER_SOURCE_GROUP))
      in unat hash2 mod ADDRMAN_NEW_BUCKET_COUNT)"

definition IsTerrible :: "CAddrInfo \<Rightarrow> int64 \<Rightarrow> bool" where
  "IsTerrible info nNow =
     (let now = sint nNow; lastTry = sint (ad_nLastTry info); lastSuccess = sint (ai_nLastSuccess info);
          time = uint (ad_nTime info)
      in if lastTry \<noteq> 0 \<and> now - 60 \<le> lastTry then False
         else if now + 10 * 60 < time then True
         else if time = 0 \<or> ADDRMAN_HORIZON_DAYS * 86400 < now - time then True
         else if lastSuccess = 0 \<and> ADDRMAN_RETRIES \<le> ai_nAttempts info then True
         else if ADDRMAN_MIN_FAIL_DAYS * 86400 < now - lastSuccess \<and> ADDRMAN_MAX_FAILURES \<le> ai_nAttempts info then True
         else False)"

subsection \<open>The table\<close>

definition Find :: "CAddrMan \<Rightarrow> 'a CNetAddr_scheme \<Rightarrow> (int \<times> CAddrInfo) option" where
  "Find am addr =
     (case am_mapAddr am (netaddr addr) of None \<Rightarrow> None
      | Some nId \<Rightarrow> map_option (Pair nId) (am_mapInfo am nId))"

definition set_info :: "int \<Rightarrow> CAddrInfo \<Rightarrow> CAddrMan \<Rightarrow> CAddrMan" where
  "set_info nId info am = am\<lparr>am_mapInfo := (am_mapInfo am)(nId \<mapsto> info)\<rparr>"

definition Create :: "CAddrMan \<Rightarrow> CAddress \<Rightarrow> CNetAddr \<Rightarrow> int \<times> CAddrMan" where
  "Create am addr addrSource =
     (let nId = am_nIdCount am
      in (nId, am\<lparr>am_nIdCount := nId + 1,
            am_mapInfo := (am_mapInfo am)(nId \<mapsto> (CAddrInfo_of addr addrSource)\<lparr>ai_nRandomPos := int (length (am_vRandom am))\<rparr>),
            am_mapAddr := (am_mapAddr am)(netaddr addr \<mapsto> nId),
            am_vRandom := am_vRandom am @ [nId]\<rparr>))"

definition SwapRandom :: "CAddrMan \<Rightarrow> int \<Rightarrow> int \<Rightarrow> CAddrMan rand" where
  "SwapRandom am nRndPos1 nRndPos2 =
     (if nRndPos1 = nRndPos2 then ret am
      else bind (check_that (0 \<le> nRndPos1 \<and> nRndPos1 < int (length (am_vRandom am)) \<and>
                        0 \<le> nRndPos2 \<and> nRndPos2 < int (length (am_vRandom am)))) (\<lambda>_.
        let nId1 = am_vRandom am ! nat nRndPos1; nId2 = am_vRandom am ! nat nRndPos2
        in bind (lookup_at (am_mapInfo am) nId1) (\<lambda>info1.
           bind (lookup_at (am_mapInfo am) nId2) (\<lambda>info2.
             ret (am\<lparr>am_mapInfo := (am_mapInfo am)(nId1 \<mapsto> info1\<lparr>ai_nRandomPos := nRndPos2\<rparr>,
                                                   nId2 \<mapsto> info2\<lparr>ai_nRandomPos := nRndPos1\<rparr>),
                     am_vRandom := (am_vRandom am)[nat nRndPos1 := nId2, nat nRndPos2 := nId1]\<rparr>)))))"

subsection \<open>Evicting from a bucket of tried addresses\<close>

text \<open>The loop returns the position of its choice and the shuffled bucket.\<close>

fun select_tried_loop :: "(int \<Rightarrow> CAddrInfo option) \<Rightarrow> nat list \<Rightarrow> int list \<Rightarrow> int \<Rightarrow> int \<Rightarrow> (int \<times> int list) rand" where
  "select_tried_loop mapInfo [] vTried nOldest nOldestPos = ret (nOldestPos, vTried)"
| "select_tried_loop mapInfo (i # is) vTried nOldest nOldestPos =
     bind (GetRand (length vTried - i)) (\<lambda>r.
       let nPos = r + i; nTemp = vTried ! nPos; vTried = vTried[nPos := vTried ! i, i := nTemp]
       in if nOldest = -1 then select_tried_loop mapInfo is vTried nTemp (int nPos)
          else bind (lookup_at mapInfo nTemp) (\<lambda>temp.
               bind (lookup_at mapInfo nOldest) (\<lambda>oldest.
                 if sint (ai_nLastSuccess temp) < sint (ai_nLastSuccess oldest)
                 then select_tried_loop mapInfo is vTried nTemp (int nPos)
                 else select_tried_loop mapInfo is vTried nOldest nOldestPos)))"

definition SelectTried :: "CAddrMan \<Rightarrow> nat \<Rightarrow> (int \<times> CAddrMan) rand" where
  "SelectTried am nKBucket =
     (let vTried = am_vvTried am ! nKBucket
      in bind (select_tried_loop (am_mapInfo am) [0..<min ADDRMAN_TRIED_ENTRIES_INSPECT_ON_EVICT (length vTried)] vTried (-1) (-1))
           (\<lambda>(nPos, vTried). ret (nPos, am\<lparr>am_vvTried := (am_vvTried am)[nKBucket := vTried]\<rparr>)))"

subsection \<open>Removing from a bucket of new addresses\<close>

definition drop_ref :: "CAddrMan \<Rightarrow> nat \<Rightarrow> int \<Rightarrow> CAddrMan rand" where
  "drop_ref am nUBucket nId =
     bind (lookup_at (am_mapInfo am) nId) (\<lambda>info.
       let info = info\<lparr>ai_nRefCount := ai_nRefCount info - 1\<rparr>; am = set_info nId info am
       in bind (if ai_nRefCount info = 0 then
                  bind (SwapRandom am (ai_nRandomPos info) (int (length (am_vRandom am)) - 1)) (\<lambda>am.
                    ret (am\<lparr>am_vRandom := butlast (am_vRandom am), am_mapAddr := (am_mapAddr am)(netaddr info := None),
                            am_mapInfo := (am_mapInfo am)(nId := None), am_nNew := am_nNew am - 1\<rparr>))
                else ret am)
            (\<lambda>am. ret (am\<lparr>am_vvNew := (am_vvNew am)[nUBucket := am_vvNew am ! nUBucket - {nId}]\<rparr>)))"

fun first_terrible :: "(int \<Rightarrow> CAddrInfo option) \<Rightarrow> int64 \<Rightarrow> int list \<Rightarrow> int option rand" where
  "first_terrible mapInfo nNow [] = ret None"
| "first_terrible mapInfo nNow (i # is) =
     bind (lookup_at mapInfo i) (\<lambda>info. if IsTerrible info nNow then ret (Some i) else first_terrible mapInfo nNow is)"

text \<open>The loop runs over the bucket with its running index.\<close>

fun oldest_new :: "(int \<Rightarrow> CAddrInfo option) \<Rightarrow> nat set \<Rightarrow> (nat \<times> int) list \<Rightarrow> int \<Rightarrow> int rand" where
  "oldest_new mapInfo n [] nOldest = ret nOldest"
| "oldest_new mapInfo n ((nI, i) # its) nOldest =
     (if nI \<in> n then
        if nOldest = -1 then oldest_new mapInfo n its i
        else bind (lookup_at mapInfo i) (\<lambda>info. bind (lookup_at mapInfo nOldest) (\<lambda>oldest.
               oldest_new mapInfo n its (if ad_nTime info < ad_nTime oldest then i else nOldest)))
      else oldest_new mapInfo n its nOldest)"

definition ShrinkNew :: "CAddrMan \<Rightarrow> int64 \<Rightarrow> nat \<Rightarrow> (nat \<times> CAddrMan) rand" where
  "ShrinkNew am nNow nUBucket =
     bind (check_that (nUBucket < length (am_vvNew am))) (\<lambda>_.
       let vNew = sorted_list_of_set (am_vvNew am ! nUBucket)
       in bind (first_terrible (am_mapInfo am) nNow vNew) (\<lambda>found.
          case found of
            Some i \<Rightarrow> bind (drop_ref am nUBucket i) (\<lambda>am. ret (0, am))
          | None \<Rightarrow>
              bind (GetRand (length vNew)) (\<lambda>n0. bind (GetRand (length vNew)) (\<lambda>n1.
              bind (GetRand (length vNew)) (\<lambda>n2. bind (GetRand (length vNew)) (\<lambda>n3.
              bind (oldest_new (am_mapInfo am) {n0, n1, n2, n3} (zip [0..<length vNew] vNew) (-1)) (\<lambda>nOldest.
              bind (drop_ref am nUBucket nOldest) (\<lambda>am. ret (1, am)))))))))"

subsection \<open>From new to tried\<close>

text \<open>The entry \<open>nId\<close> leaves all new buckets, one reference each.\<close>

definition leave_new :: "CAddrMan \<Rightarrow> int \<Rightarrow> CAddrInfo \<Rightarrow> CAddrMan \<times> CAddrInfo" where
  "leave_new am nId info =
     (let info = info\<lparr>ai_nRefCount := ai_nRefCount info - int (length (filter (\<lambda>s. nId \<in> s) (am_vvNew am)))\<rparr>
      in (set_info nId info (am\<lparr>am_vvNew := map (\<lambda>s. s - {nId}) (am_vvNew am), am_nNew := am_nNew am - 1\<rparr>), info))"

definition evict_tried :: "openssl \<Rightarrow> CAddrMan \<Rightarrow> int \<Rightarrow> CAddrInfo \<Rightarrow> nat \<Rightarrow> nat \<Rightarrow> CAddrMan rand" where
  "evict_tried E am nId info nOrigin nKBucket =
     bind (SelectTried am nKBucket) (\<lambda>(nPos, am).
     bind (check_that (0 \<le> nPos \<and> nPos < int (length (am_vvTried am ! nKBucket)))) (\<lambda>_.
       let old = am_vvTried am ! nKBucket ! nat nPos
       in bind (lookup_at (am_mapInfo am) old) (\<lambda>infoOld.
            let nUBucket = GetNewBucket E (am_nKey am) infoOld (ai_source infoOld);
                am = set_info old (infoOld\<lparr>ai_fInTried := False, ai_nRefCount := 1\<rparr>) am;
                b = (if card (am_vvNew am ! nUBucket) < ADDRMAN_NEW_BUCKET_SIZE then nUBucket else nOrigin);
                am = am\<lparr>am_vvNew := (am_vvNew am)[b := insert old (am_vvNew am ! b)], am_nNew := am_nNew am + 1,
                        am_vvTried := (am_vvTried am)[nKBucket := (am_vvTried am ! nKBucket)[nat nPos := nId]]\<rparr>
            in ret (set_info nId (info\<lparr>ai_fInTried := True\<rparr>) am))))"

definition MakeTried :: "openssl \<Rightarrow> CAddrMan \<Rightarrow> int \<Rightarrow> CAddrInfo \<Rightarrow> nat \<Rightarrow> CAddrMan rand" where
  "MakeTried E am nId info nOrigin =
     bind (check_that (nOrigin < length (am_vvNew am) \<and> nId \<in> am_vvNew am ! nOrigin)) (\<lambda>_.
       case leave_new am nId info of (am, info) \<Rightarrow>
         bind (check_that (ai_nRefCount info = 0)) (\<lambda>_.
           let nKBucket = GetTriedBucket E (am_nKey am) info; vTried = am_vvTried am ! nKBucket
           in if length vTried < ADDRMAN_TRIED_BUCKET_SIZE
              then ret (set_info nId (info\<lparr>ai_fInTried := True\<rparr>)
                     (am\<lparr>am_vvTried := (am_vvTried am)[nKBucket := vTried @ [nId]], am_nTried := am_nTried am + 1\<rparr>))
              else evict_tried E am nId info nOrigin nKBucket))"

subsection \<open>Handlers\<close>

definition am_Good :: "openssl \<Rightarrow> CAddrMan \<Rightarrow> CService \<Rightarrow> int64 \<Rightarrow> CAddrMan rand" where
  "am_Good E am addr nTime =
     (case Find am addr of None \<Rightarrow> ret am
      | Some (nId, info) \<Rightarrow>
          if \<not> CService_eq info addr then ret am
          else let info = info\<lparr>ai_nLastSuccess := nTime, ad_nLastTry := nTime, ad_nTime := ucast nTime, ai_nAttempts := 0\<rparr>;
                   am = set_info nId info am
               in if ai_fInTried info then ret am
                  else bind (GetRand (length (am_vvNew am))) (\<lambda>nRnd.
                    case find (\<lambda>nB. nId \<in> am_vvNew am ! nB)
                           (map (\<lambda>n. (n + nRnd) mod length (am_vvNew am)) [0..<length (am_vvNew am)]) of
                      None \<Rightarrow> ret am
                    | Some nUBucket \<Rightarrow> MakeTried E am nId info nUBucket))"

text \<open>The update of an entry that is known; \<open>False\<close> stops the handler.\<close>

definition refresh_info :: "CAddrInfo \<Rightarrow> CAddress \<Rightarrow> int64 \<Rightarrow> int \<Rightarrow> CAddrInfo" where
  "refresh_info info addr nNow nTimePenalty =
     (let time = uint (ad_nTime addr);
          fCurrentlyOnline = sint nNow - time < 24 * 60 * 60;
          nUpdateInterval = (if fCurrentlyOnline then 60 * 60 else 24 * 60 * 60);
          info = (if time \<noteq> 0 \<and> (ad_nTime info = 0 \<or> uint (ad_nTime info) < time - nUpdateInterval - nTimePenalty)
                  then info\<lparr>ad_nTime := word_of_int (max 0 (time - nTimePenalty))\<rparr> else info)
      in info\<lparr>ad_nServices := ad_nServices info OR ad_nServices addr\<rparr>)"

definition more_refs :: "CAddrInfo \<Rightarrow> CAddress \<Rightarrow> bool rand" where
  "more_refs info addr =
     (if ad_nTime addr = 0 \<or> ad_nTime info \<noteq> 0 \<and> ad_nTime addr \<le> ad_nTime info then ret False
      else if ai_fInTried info then ret False
      else if ai_nRefCount info = ADDRMAN_NEW_BUCKETS_PER_ADDRESS then ret False
      else let nFactor = 2 ^ nat (ai_nRefCount info)
           in if 1 < nFactor then bind (GetRand nFactor) (\<lambda>r. ret (r = 0)) else ret True)"

definition into_new :: "openssl \<Rightarrow> CAddrMan \<Rightarrow> int64 \<Rightarrow> int \<Rightarrow> CNetAddr \<Rightarrow> CAddrMan rand" where
  "into_new E am nNow nId source =
     bind (lookup_at (am_mapInfo am) nId) (\<lambda>info.
       let nUBucket = GetNewBucket E (am_nKey am) info source; vNew = am_vvNew am ! nUBucket
       in if nId \<in> vNew then ret am
          else let am = set_info nId (info\<lparr>ai_nRefCount := ai_nRefCount info + 1\<rparr>) am
               in bind (if card vNew = ADDRMAN_NEW_BUCKET_SIZE
                        then bind (ShrinkNew am nNow nUBucket) (\<lambda>(_, am). ret am) else ret am) (\<lambda>am.
                  ret (am\<lparr>am_vvNew := (am_vvNew am)[nUBucket := insert nId (am_vvNew am ! nUBucket)]\<rparr>)))"

definition am_Add :: "openssl \<Rightarrow> CAddrMan \<Rightarrow> int64 \<Rightarrow> CAddress \<Rightarrow> CNetAddr \<Rightarrow> int \<Rightarrow> (bool \<times> CAddrMan) rand" where
  "am_Add E am nNow addr source nTimePenalty =
     (if \<not> IsRoutable addr then ret (False, am)
      else case Find am addr of
          Some (nId, info) \<Rightarrow>
            let info = refresh_info info addr nNow nTimePenalty; am = set_info nId info am
            in bind (more_refs info addr) (\<lambda>more.
                 if more then bind (into_new E am nNow nId source) (\<lambda>am. ret (False, am)) else ret (False, am))
        | None \<Rightarrow>
            (case Create am addr source of (nId, am) \<Rightarrow>
               bind (lookup_at (am_mapInfo am) nId) (\<lambda>info.
                 let info = info\<lparr>ad_nTime := word_of_int (max 0 (uint (ad_nTime info) - nTimePenalty))\<rparr>;
                     am = (set_info nId info am)\<lparr>am_nNew := am_nNew am + 1\<rparr>
                 in bind (into_new E am nNow nId source) (\<lambda>am. ret (True, am)))))"

text \<open>\<open>Add\<close> for a vector of addresses counts the new ones.\<close>

fun am_Add_all :: "openssl \<Rightarrow> CAddrMan \<Rightarrow> int64 \<Rightarrow> CAddress list \<Rightarrow> CNetAddr \<Rightarrow> int \<Rightarrow> (nat \<times> CAddrMan) rand" where
  "am_Add_all E am nNow [] source nTimePenalty = ret (0, am)"
| "am_Add_all E am nNow (addr # vAddr) source nTimePenalty =
     bind (am_Add E am nNow addr source nTimePenalty) (\<lambda>(fNew, am).
     bind (am_Add_all E am nNow vAddr source nTimePenalty) (\<lambda>(nAdd, am).
       ret ((if fNew then 1 else 0) + nAdd, am)))"

definition am_Attempt :: "CAddrMan \<Rightarrow> CService \<Rightarrow> int64 \<Rightarrow> CAddrMan" where
  "am_Attempt am addr nTime =
     (case Find am addr of None \<Rightarrow> am
      | Some (nId, info) \<Rightarrow>
          if \<not> CService_eq info addr then am
          else set_info nId (info\<lparr>ad_nLastTry := nTime, ai_nAttempts := ai_nAttempts info + 1\<rparr>) am)"

definition am_Connected :: "CAddrMan \<Rightarrow> CService \<Rightarrow> int64 \<Rightarrow> CAddrMan" where
  "am_Connected am addr nTime =
     (case Find am addr of None \<Rightarrow> am
      | Some (nId, info) \<Rightarrow>
          if \<not> CService_eq info addr then am
          else if 20 * 60 < sint nTime - uint (ad_nTime info) then set_info nId (info\<lparr>ad_nTime := ucast nTime\<rparr>) am
          else am)"

subsection \<open>Picking addresses\<close>

fun getaddr_loop :: "nat list \<Rightarrow> CAddrMan \<Rightarrow> (CAddrInfo list \<times> CAddrMan) rand" where
  "getaddr_loop [] am = ret ([], am)"
| "getaddr_loop (n # ns) am =
     bind (GetRand (length (am_vRandom am) - n)) (\<lambda>r.
     bind (SwapRandom am (int n) (int (r + n))) (\<lambda>am.
     bind (lookup_at (am_mapInfo am) (am_vRandom am ! n)) (\<lambda>info.
     bind (getaddr_loop ns am) (\<lambda>(vAddr, am). ret (info # vAddr, am)))))"

definition am_GetAddr :: "CAddrMan \<Rightarrow> (CAddrInfo list \<times> CAddrMan) rand" where
  "am_GetAddr am =
     (let nNodes = ADDRMAN_GETADDR_MAX_PCT * length (am_vRandom am) div 100;
          nNodes = (if ADDRMAN_GETADDR_MAX < nNodes then ADDRMAN_GETADDR_MAX else nNodes)
      in getaddr_loop [0..<nNodes] am)"

text \<open>Floating point: \<open>use_tried\<close> is the comparison of the weighted square roots with a random
  value, \<open>accepts\<close> that of the chance of an entry, in the given round. The loops may go on for
  ever; \<open>fuel\<close> bounds the rounds, and running out of it counts as running out of draws.\<close>

fun select_loop :: "(nat \<Rightarrow> CAddrInfo \<Rightarrow> nat \<Rightarrow> bool) \<Rightarrow> CAddrMan \<Rightarrow> int list list \<Rightarrow> nat \<Rightarrow> nat \<Rightarrow> CAddrInfo rand" where
  "select_loop accepts am buckets round 0 = (\<lambda>rs. Out_of_draws)"
| "select_loop accepts am buckets round (Suc fuel) =
     bind (GetRand (length buckets)) (\<lambda>b.
       if buckets ! b = [] then select_loop accepts am buckets round fuel
       else bind (GetRand (length (buckets ! b))) (\<lambda>nPos.
            bind (lookup_at (am_mapInfo am) (buckets ! b ! nPos)) (\<lambda>info.
            bind (GetRand (2 ^ 30)) (\<lambda>r.
              if accepts round info r then ret info
              else select_loop accepts am buckets (round + 1) fuel))))"

definition am_Select :: "(int \<Rightarrow> int \<Rightarrow> int \<Rightarrow> nat \<Rightarrow> bool) \<Rightarrow> (nat \<Rightarrow> CAddrInfo \<Rightarrow> nat \<Rightarrow> bool) \<Rightarrow> CAddrMan \<Rightarrow> int \<Rightarrow> nat \<Rightarrow>
    CAddrInfo option rand" where
  "am_Select use_tried accepts am nUnkBias fuel =
     (if am_vRandom am = [] then ret None
      else bind (GetRand (2 ^ 30)) (\<lambda>r.
             bind (if use_tried (am_nTried am) (am_nNew am) nUnkBias r
                   then select_loop accepts am (am_vvTried am) 0 fuel
                   else select_loop accepts am (map sorted_list_of_set (am_vvNew am)) 0 fuel) (\<lambda>info. ret (Some info))))"

subsection \<open>The code's own consistency check\<close>

text \<open>The ids of \<open>mapInfo\<close>, all below the counter, in their order.\<close>

definition am_ids :: "CAddrMan \<Rightarrow> int list" where
  "am_ids am = filter (\<lambda>i. am_mapInfo am i \<noteq> None) [0..am_nIdCount am - 1]"

fun check_entry :: "CAddrMan \<Rightarrow> int \<Rightarrow> int" where
  "check_entry am n =
     (case am_mapInfo am n of None \<Rightarrow> 0
      | Some info \<Rightarrow>
          if ai_fInTried info \<and> ai_nLastSuccess info = 0 then -1
          else if ai_fInTried info \<and> ai_nRefCount info \<noteq> 0 then -2
          else if \<not> ai_fInTried info \<and> (ai_nRefCount info < 0 \<or> ADDRMAN_NEW_BUCKETS_PER_ADDRESS < ai_nRefCount info) then -3
          else if \<not> ai_fInTried info \<and> ai_nRefCount info = 0 then -4
          else if (case am_mapAddr am (netaddr info) of None \<Rightarrow> 0 | Some k \<Rightarrow> k) \<noteq> n then -5
          else if ai_nRandomPos info < 0 \<or> int (length (am_vRandom am)) \<le> ai_nRandomPos info \<or>
                  am_vRandom am ! nat (ai_nRandomPos info) \<noteq> n then -14
          else if sint (ad_nLastTry info) < 0 then -6
          else if sint (ai_nLastSuccess info) < 0 then -8
          else 0)"

fun first_error :: "int list \<Rightarrow> int" where
  "first_error [] = 0"
| "first_error (e # es) = (if e \<noteq> 0 then e else first_error es)"

text \<open>The tried buckets use up the set of tried ids, the new buckets the references.\<close>

fun use_tried_ids :: "int list \<Rightarrow> int set \<Rightarrow> int set option" where
  "use_tried_ids [] setTried = Some setTried"
| "use_tried_ids (i # is) setTried = (if i \<notin> setTried then None else use_tried_ids is (setTried - {i}))"

fun use_refs :: "int list \<Rightarrow> (int \<Rightarrow> int option) \<Rightarrow> (int \<Rightarrow> int option) option" where
  "use_refs [] mapNew = Some mapNew"
| "use_refs (i # is) mapNew =
     (case mapNew i of None \<Rightarrow> None
      | Some k \<Rightarrow> use_refs is (if k - 1 = 0 then mapNew(i := None) else mapNew(i \<mapsto> k - 1)))"

definition am_Check :: "CAddrMan \<Rightarrow> int" where
  "am_Check am =
     (let ids = am_ids am;
          tried = (\<lambda>n. case am_mapInfo am n of None \<Rightarrow> False | Some info \<Rightarrow> ai_fInTried info);
          setTried = set (filter tried ids);
          newIds = filter (\<lambda>n. \<not> tried n) ids;
          mapNew = (\<lambda>n. if n \<in> set newIds then map_option ai_nRefCount (am_mapInfo am n) else None)
      in if int (length (am_vRandom am)) \<noteq> am_nTried am + am_nNew am then -7
         else if first_error (map (check_entry am) ids) \<noteq> 0 then first_error (map (check_entry am) ids)
         else if int (card setTried) \<noteq> am_nTried am then -9
         else if int (length newIds) \<noteq> am_nNew am then -10
         else case use_tried_ids (concat (am_vvTried am)) setTried of None \<Rightarrow> -11
            | Some setTried \<Rightarrow>
                (case use_refs (concat (map sorted_list_of_set (am_vvNew am))) mapNew of None \<Rightarrow> -12
                 | Some mapNew \<Rightarrow>
                     if setTried \<noteq> {} then -13
                     else if list_ex (\<lambda>n. mapNew n \<noteq> None) ids then -15 else 0))"

end
