(* ===== verification/Addrman_Rules.thy ===== *)
theory Addrman_Rules
  imports Addrman "HOL-Library.Multiset"
begin

text \<open>
  The invariant of the address manager and its preservation. It is stated over what the parts
  of the state need to know of the entries: the position of each in \<open>vRandom\<close>, and its core: the
  network address, the number of references and whether it was tried. From the invariant follow
  the code's consistency check, the bound on the size of the table, and that no assertion fails.
\<close>

type_synonym core = "CNetAddr \<times> int \<times> bool"

definition core :: "CAddrInfo \<Rightarrow> core" where
  "core info = (netaddr info, ai_nRefCount info, ai_fInTried info)"

definition cores :: "CAddrMan \<Rightarrow> int \<Rightarrow> core option" where
  "cores am i = map_option core (am_mapInfo am i)"

definition positions :: "CAddrMan \<Rightarrow> int \<Rightarrow> int option" where
  "positions am i = map_option ai_nRandomPos (am_mapInfo am i)"

definition random_ok :: "int list \<Rightarrow> (int \<Rightarrow> int option) \<Rightarrow> bool" where
  "random_ok v P \<longleftrightarrow> distinct v \<and> dom P = set v \<and>
     (\<forall>i p. P i = Some p \<longrightarrow> 0 \<le> p \<and> p < int (length v) \<and> v ! nat p = i)"

definition index_ok :: "(int \<Rightarrow> core option) \<Rightarrow> int \<Rightarrow> (CNetAddr \<Rightarrow> int option) \<Rightarrow> bool" where
  "index_ok C n A \<longleftrightarrow>
     (\<forall>i a r t. C i = Some (a, r, t) \<longrightarrow> 0 \<le> i \<and> i < n \<and> A a = Some i) \<and>
     (\<forall>a i. A a = Some i \<longrightarrow> (\<exists>r t. C i = Some (a, r, t)))"

definition tried_set :: "(int \<Rightarrow> core option) \<Rightarrow> int set" where
  "tried_set C = {i. \<exists>a r. C i = Some (a, r, True)}"

definition new_set :: "(int \<Rightarrow> core option) \<Rightarrow> int set" where
  "new_set C = {i. \<exists>a r. C i = Some (a, r, False)}"

definition tried_ok :: "(int \<Rightarrow> core option) \<Rightarrow> int list list \<Rightarrow> int \<Rightarrow> bool" where
  "tried_ok C vv n \<longleftrightarrow> length vv = 64 \<and> mset (concat vv) = mset_set (tried_set C) \<and>
     (\<forall>v \<in> set vv. length v \<le> 64) \<and> n = int (card (tried_set C))"

definition refs :: "int set list \<Rightarrow> int \<Rightarrow> int" where
  "refs vv i = int (length (filter (\<lambda>s. i \<in> s) vv))"

text \<open>\<open>X i\<close> is the number of references counted for \<open>i\<close> that are not yet in a bucket.\<close>

definition new_ok :: "(int \<Rightarrow> int) \<Rightarrow> (int \<Rightarrow> core option) \<Rightarrow> int set list \<Rightarrow> int \<Rightarrow> bool" where
  "new_ok X C vv n \<longleftrightarrow> length vv = 256 \<and> (\<forall>s \<in> set vv. finite s \<and> card s \<le> 64 \<and> s \<subseteq> new_set C) \<and>
     n = int (card (new_set C)) \<and>
     (\<forall>i a r t. C i = Some (a, r, t) \<longrightarrow> r = refs vv i + X i \<and> (if t then r = 0 else 1 \<le> r \<and> r \<le> 4))"

definition am_ok :: "(int \<Rightarrow> int) \<Rightarrow> CAddrMan \<Rightarrow> bool" where
  "am_ok X am \<longleftrightarrow> random_ok (am_vRandom am) (positions am) \<and> index_ok (cores am) (am_nIdCount am) (am_mapAddr am) \<and>
     tried_ok (cores am) (am_vvTried am) (am_nTried am) \<and> new_ok X (cores am) (am_vvNew am) (am_nNew am)"

subsection \<open>Views of an updated state\<close>

lemma views_set_info [simp]:
  "cores (set_info i info am) = (cores am)(i \<mapsto> core info)"
  "positions (set_info i info am) = (positions am)(i \<mapsto> ai_nRandomPos info)"
  "am_vRandom (set_info i info am) = am_vRandom am" "am_nIdCount (set_info i info am) = am_nIdCount am"
  "am_mapAddr (set_info i info am) = am_mapAddr am" "am_vvTried (set_info i info am) = am_vvTried am"
  "am_nTried (set_info i info am) = am_nTried am" "am_vvNew (set_info i info am) = am_vvNew am"
  "am_nNew (set_info i info am) = am_nNew am" "am_nKey (set_info i info am) = am_nKey am"
  "am_mapInfo (set_info i info am) = (am_mapInfo am)(i \<mapsto> info)"
  by (auto simp: cores_def positions_def set_info_def)

lemma cores_some: "am_mapInfo am i = Some info \<Longrightarrow> cores am i = Some (core info)"
  by (simp add: cores_def)

lemma cores_domD: "cores am i = Some c \<Longrightarrow> \<exists>info. am_mapInfo am i = Some info \<and> core info = c"
  by (auto simp: cores_def)

lemma positions_iff: "positions am i = None \<longleftrightarrow> cores am i = None"
  by (simp add: cores_def positions_def)

lemma cores_update [simp]:
  "cores (am_vRandom_update f am) = cores am" "cores (am_nIdCount_update g am) = cores am"
  "cores (am_mapAddr_update h am) = cores am" "cores (am_vvTried_update k am) = cores am"
  "cores (am_nTried_update l am) = cores am" "cores (am_vvNew_update m am) = cores am"
  "cores (am_nNew_update l am) = cores am"
  "positions (am_vRandom_update f am) = positions am" "positions (am_nIdCount_update g am) = positions am"
  "positions (am_mapAddr_update h am) = positions am" "positions (am_vvTried_update k am) = positions am"
  "positions (am_nTried_update l am) = positions am" "positions (am_vvNew_update m am) = positions am"
  "positions (am_nNew_update l am) = positions am"
  by (simp_all add: fun_eq_iff cores_def positions_def)

lemma set_info_frame [simp]:
  "set_info i info (am_vRandom_update f am) = am_vRandom_update f (set_info i info am)"
  "set_info i info (am_vvTried_update k am) = am_vvTried_update k (set_info i info am)"
  "set_info i info (am_nTried_update l am) = am_nTried_update l (set_info i info am)"
  "set_info i info (am_vvNew_update m am) = am_vvNew_update m (set_info i info am)"
  "set_info i info (am_nNew_update l am) = am_nNew_update l (set_info i info am)"
  by (simp_all add: set_info_def)

subsection \<open>The order of the entries\<close>

lemma random_swap:
  assumes "random_ok v P" "0 \<le> p" "p < int (length v)" "0 \<le> q" "q < int (length v)" "p \<noteq> q"
  shows "random_ok (v[nat p := v ! nat q, nat q := v ! nat p]) (P(v ! nat p \<mapsto> q, v ! nat q \<mapsto> p))"
proof -
  have n: "nat p < length v" "nat q < length v" "nat p \<noteq> nat q" using assms by linarith+
  have d: "distinct v" "dom P = set v" using assms(1) by (simp_all add: random_ok_def)
  have "mset (v[nat p := v ! nat q, nat q := v ! nat p]) = mset v" using n mset_swap [of "nat p" v "nat q"] list_update_swap [of "nat p" "nat q" v] by simp
  then have "distinct (v[nat p := v ! nat q, nat q := v ! nat p])" "set (v[nat p := v ! nat q, nat q := v ! nat p]) = set v"
    using d(1) by (metis mset_eq_imp_distinct_iff, metis mset_eq_setD)
  moreover have "dom (P(v ! nat p \<mapsto> q, v ! nat q \<mapsto> p)) = set v" using d n nth_mem by auto
  moreover have "v ! nat p \<noteq> v ! nat q" using d(1) n by (simp add: nth_eq_iff_index_eq)
  moreover have "v[nat p := v ! nat q, nat q := v ! nat p] ! nat k = i"
    if "(P(v ! nat p \<mapsto> q, v ! nat q \<mapsto> p)) i = Some k" "0 \<le> k" for i k
  proof -
    consider "i = v ! nat q" | "i = v ! nat p" "i \<noteq> v ! nat q" | "i \<noteq> v ! nat p" "i \<noteq> v ! nat q" by blast
    then show ?thesis
    proof cases
      case 3
      then have "v ! nat k = i" using that assms(1) by (auto simp: random_ok_def)
      with 3 have "nat k \<noteq> nat p" "nat k \<noteq> nat q" by auto
      with \<open>v ! nat k = i\<close> show ?thesis by simp
    qed (use that n in \<open>auto split: if_splits\<close>)
  qed
  ultimately show ?thesis using assms unfolding random_ok_def by (auto split: if_splits)
qed

lemma random_drop_last:
  assumes "random_ok v P" "v \<noteq> []"
  shows "random_ok (butlast v) (P(last v := None))"
proof -
  obtain w x where v: "v = w @ [x]" using assms(2) by (metis append_butlast_last_id)
  have d: "distinct w" "x \<notin> set w" "dom P = insert x (set w)" using assms(1) v by (auto simp: random_ok_def)
  moreover have "p < int (length w) \<and> w ! nat p = i" if "P i = Some p" "i \<noteq> x" for i p
  proof -
    have "0 \<le> p" "p < int (length v)" "v ! nat p = i" using assms(1) that by (auto simp: random_ok_def)
    with that(2) v show ?thesis by (auto simp: nth_append split: if_splits)
  qed
  ultimately show ?thesis using assms(1) v unfolding random_ok_def by auto
qed

subsection \<open>References\<close>

lemma refs_update:
  "b < length vv \<Longrightarrow> refs (vv[b := s]) i = refs vv i - of_bool (i \<in> vv ! b) + of_bool (i \<in> s)"
proof (induction vv arbitrary: b)
  case (Cons v vv)
  then show ?case by (cases b) (auto simp: refs_def)
qed simp

lemma refs_zero: "refs vv i = 0 \<longleftrightarrow> (\<forall>s \<in> set vv. i \<notin> s)"
  by (auto simp: refs_def filter_empty_conv)

lemma refs_nonneg [simp]: "0 \<le> refs vv i"
  by (simp add: refs_def)

lemma refs_leave: "refs (map (\<lambda>s. s - {n}) vv) i = (if i = n then 0 else refs vv i)"
  by (simp add: refs_def filter_map o_def)

lemma new_bucket:
  assumes "new_ok X C vv n" "b < 256"
  shows "finite (vv ! b)" "card (vv ! b) \<le> 64" "vv ! b \<subseteq> new_set C"
  using assms nth_mem [of b vv] by (auto simp: new_ok_def)

lemma new_set_upd:
  "new_set (C(i \<mapsto> (a, r, t))) = (if t then new_set C - {i} else insert i (new_set C))"
  "new_set (C(i := None)) = new_set C - {i}"
  "tried_set (C(i \<mapsto> (a, r, t))) = (if t then insert i (tried_set C) else tried_set C - {i})"
  "tried_set (C(i := None)) = tried_set C - {i}"
  by (auto simp: new_set_def tried_set_def)

lemma sets_disjoint: "i \<in> new_set C \<Longrightarrow> i \<notin> tried_set C"
  by (auto simp: new_set_def tried_set_def)

lemma random_ids: "random_ok (am_vRandom am) (positions am) \<Longrightarrow> set (am_vRandom am) = dom (cores am)"
  by (auto simp: random_ok_def dom_def positions_iff [symmetric])

lemma ids_finite: "random_ok (am_vRandom am) (positions am) \<Longrightarrow> finite (dom (cores am))"
  by (metis random_ids List.finite_set)

lemma new_finite: "finite (dom C) \<Longrightarrow> finite (new_set C)" "finite (dom C) \<Longrightarrow> finite (tried_set C)"
  by (auto elim!: finite_subset [rotated] simp: new_set_def tried_set_def)

text \<open>A reference less: the bucket loses the id.\<close>

lemma new_ok_unref:
  assumes "new_ok X C vv n" "b < 256" "i \<in> vv ! b" "X i = 0" "C i = Some (a, r, False)" "finite (dom C)"
  shows "r \<noteq> 1 \<Longrightarrow> new_ok X (C(i \<mapsto> (a, r - 1, False))) (vv[b := vv ! b - {i}]) n"
    and "r = 1 \<Longrightarrow> new_ok X (C(i := None)) (vv[b := vv ! b - {i}]) (n - 1)"
proof -
  have l: "length vv = 256" and ri: "r = refs vv i" "1 \<le> r" "r \<le> 4" using assms unfolding new_ok_def by force+
  have b: "finite (vv ! b)" "card (vv ! b) \<le> 64" "vv ! b \<subseteq> new_set C" using new_bucket [OF assms(1,2)] by auto
  have sets: "finite s \<and> card s \<le> 64 \<and> s \<subseteq> new_set C" if "s \<in> set (vv[b := vv ! b - {i}])" for s
  proof -
    from that have "s \<in> set vv \<or> s = vv ! b - {i}" using set_update_subset_insert [of vv b "vv ! b - {i}"] by auto
    then show ?thesis
    proof
      assume "s = vv ! b - {i}"
      then show ?thesis using b card_mono [of "vv ! b" s] by auto
    qed (use assms(1) in \<open>auto simp: new_ok_def\<close>)
  qed
  have rf: "refs (vv[b := vv ! b - {i}]) j = (if j = i then refs vv i - 1 else refs vv j)" for j
    using assms(2,3) l by (auto simp: refs_update)
  have i: "i \<in> new_set C" using assms(5) by (auto simp: new_set_def)
  {
    assume "r \<noteq> 1"
    with ri have "2 \<le> refs vv i" "refs vv i \<le> 5" by simp_all
    then show "new_ok X (C(i \<mapsto> (a, r - 1, False))) (vv[b := vv ! b - {i}]) n"
      using assms(1,4,5) sets ri(1) i unfolding new_ok_def new_set_upd
      by (simp add: rf l insert_absorb)
  next
    assume "r = 1"
    then have "refs (vv[b := vv ! b - {i}]) i = 0" using ri by (simp add: rf)
    then have "s \<subseteq> new_set C - {i}" if "s \<in> set (vv[b := vv ! b - {i}])" for s using sets that refs_zero by blast
    moreover have "int (card (new_set C - {i})) = int (card (new_set C)) - 1"
      using i new_finite(1) [OF assms(6)] by (simp add: card_Diff_singleton of_nat_diff Suc_leI card_gt_0_iff) (metis card_gt_0_iff empty_iff of_nat_1 of_nat_diff Suc_leI One_nat_def)
    ultimately show "new_ok X (C(i := None)) (vv[b := vv ! b - {i}]) (n - 1)"
      using assms(1) sets unfolding new_ok_def new_set_upd by (auto simp: rf l split: if_splits)
  }
qed

lemma index_upd:
  assumes "index_ok C n A" "C i = Some (a, r, t)"
  shows "index_ok (C(i \<mapsto> (a, r', t'))) n A" and "index_ok (C(i := None)) n (A(a := None))"
proof -
  have one: "C j = Some (b, q, u) \<Longrightarrow> 0 \<le> j \<and> j < n \<and> A b = Some j" and two: "A b = Some j \<Longrightarrow> \<exists>r t. C j = Some (b, r, t)"
    for j b q u using assms(1) unfolding index_ok_def by blast+
  have i: "0 \<le> i" "i < n" "A a = Some i" using one [OF assms(2)] by auto
  have uniq: "A b = Some i \<Longrightarrow> b = a" for b using two [of b i] assms(2) by auto
  show "index_ok (C(i \<mapsto> (a, r', t'))) n A"
    unfolding index_ok_def
  proof (intro conjI allI impI)
    fix j b q u assume "(C(i \<mapsto> (a, r', t'))) j = Some (b, q, u)"
    then have "j = i \<and> b = a \<or> C j = Some (b, q, u)" by (auto split: if_splits)
    then show "0 \<le> j" "j < n" "A b = Some j" using one [of j b q u] i by auto
  next
    fix b j assume "A b = Some j"
    then show "\<exists>r t. (C(i \<mapsto> (a, r', t'))) j = Some (b, r, t)" using two [of b j] uniq [of b] by auto
  qed
  show "index_ok (C(i := None)) n (A(a := None))"
    unfolding index_ok_def
  proof (intro conjI allI impI)
    fix j b q u assume "(C(i := None)) j = Some (b, q, u)"
    then have "j \<noteq> i" "C j = Some (b, q, u)" by (auto split: if_splits)
    then show "0 \<le> j" "j < n" "(A(a := None)) b = Some j" using one [of j b q u] i(3) by auto
  next
    fix b j assume "(A(a := None)) b = Some j"
    then have "b \<noteq> a" "A b = Some j" by (auto split: if_splits)
    then show "\<exists>r t. (C(i := None)) j = Some (b, r, t)" using two [of b j] uniq [of b] by auto
  qed
qed

lemma tried_ok_new:
  assumes "tried_ok C vv n" "C i = Some (a, r, False)"
  shows "tried_ok (C(i \<mapsto> (a, r', False))) vv n" "tried_ok (C(i := None)) vv n"
proof -
  have "i \<notin> tried_set C" using assms(2) by (auto simp: tried_set_def)
  then show "tried_ok (C(i \<mapsto> (a, r', False))) vv n" "tried_ok (C(i := None)) vv n"
    using assms(1) by (simp_all add: tried_ok_def new_set_upd)
qed

definition same_parts :: "CAddrMan \<Rightarrow> CAddrMan \<Rightarrow> bool" where
  "same_parts am am' \<longleftrightarrow> am_nKey am' = am_nKey am \<and> am_nIdCount am' = am_nIdCount am \<and> am_vvTried am' = am_vvTried am \<and>
     am_nTried am' = am_nTried am"

text \<open>Two entries that differ in their position only.\<close>

definition same_info :: "CAddrInfo option \<Rightarrow> CAddrInfo option \<Rightarrow> bool" where
  "same_info x y \<longleftrightarrow> map_option (\<lambda>info. info\<lparr>ai_nRandomPos := 0\<rparr>) x = map_option (\<lambda>info. info\<lparr>ai_nRandomPos := 0\<rparr>) y"

lemma same_info_refl [simp]: "same_info x x"
  by (simp add: same_info_def)

lemma same_info_trans: "same_info x y \<Longrightarrow> same_info y z \<Longrightarrow> same_info x z"
  by (simp add: same_info_def)

lemma same_info_sym: "same_info x y \<Longrightarrow> same_info y x"
  by (simp add: same_info_def)

lemma same_infoD:
  assumes "same_info (Some info) y"
  obtains k where "y = Some (info\<lparr>ai_nRandomPos := k\<rparr>)"
proof -
  obtain b where b: "y = Some b" "info\<lparr>ai_nRandomPos := 0\<rparr> = b\<lparr>ai_nRandomPos := 0\<rparr>"
    using assms by (cases y) (auto simp: same_info_def)
  have "b = info\<lparr>ai_nRandomPos := ai_nRandomPos b\<rparr>"
    using arg_cong [OF b(2), of "\<lambda>x. x\<lparr>ai_nRandomPos := ai_nRandomPos b\<rparr>"] by simp
  with b(1) that show ?thesis by blast
qed

definition swapped_ok :: "CAddrMan \<Rightarrow> int \<Rightarrow> int \<Rightarrow> CAddrMan \<Rightarrow> bool" where
  "swapped_ok am p q am' \<longleftrightarrow>
    am' = am\<lparr>am_mapInfo := am_mapInfo am', am_vRandom := am_vRandom am'\<rparr> \<and>
    (\<forall>i. same_info (am_mapInfo am i) (am_mapInfo am' i)) \<and> cores am' = cores am \<and>
    random_ok (am_vRandom am') (positions am') \<and> length (am_vRandom am') = length (am_vRandom am) \<and>
    am_vRandom am' ! nat q = am_vRandom am ! nat p \<and> am_vRandom am' ! nat p = am_vRandom am ! nat q \<and>
    (\<forall>k < length (am_vRandom am). k \<noteq> nat p \<longrightarrow> k \<noteq> nat q \<longrightarrow> am_vRandom am' ! k = am_vRandom am ! k)"

lemma SwapRandom_ok:
  assumes "random_ok (am_vRandom am) (positions am)"
    and "0 \<le> p" "p < int (length (am_vRandom am))" "0 \<le> q" "q < int (length (am_vRandom am))"
  obtains am' where "SwapRandom am p q = ret am'" "swapped_ok am p q am'"
proof (cases "p = q")
  case True
  then have "SwapRandom am p q = ret am" "swapped_ok am p q am"
    using assms by (simp_all add: SwapRandom_def swapped_ok_def)
  then show ?thesis by (rule that)
next
  case False
  have n: "nat p < length (am_vRandom am)" "nat q < length (am_vRandom am)" using assms by linarith+
  then have "am_vRandom am ! nat p \<in> dom (positions am)" "am_vRandom am ! nat q \<in> dom (positions am)"
    using assms(1) by (auto simp: random_ok_def)
  then obtain info1 info2 where i: "am_mapInfo am (am_vRandom am ! nat p) = Some info1"
    "am_mapInfo am (am_vRandom am ! nat q) = Some info2" by (auto simp: positions_def)
  note swapped = random_swap [OF assms(1-5) False]
  have neq: "am_vRandom am ! nat p \<noteq> am_vRandom am ! nat q"
    using assms(1) n False assms by (simp add: random_ok_def nth_eq_iff_index_eq)
  have c: "core (info\<lparr>ai_nRandomPos := k\<rparr>) = core info" for info k
    by (simp add: core_def netaddr_def CNetAddr.truncate_def)
  define am' where "am' = am\<lparr>am_mapInfo := (am_mapInfo am)(am_vRandom am ! nat p \<mapsto> info1\<lparr>ai_nRandomPos := q\<rparr>,
      am_vRandom am ! nat q \<mapsto> info2\<lparr>ai_nRandomPos := p\<rparr>),
    am_vRandom := (am_vRandom am)[nat p := am_vRandom am ! nat q, nat q := am_vRandom am ! nat p]\<rparr>"
  have "cores am' = cores am" using i by (auto simp: am'_def cores_def c fun_eq_iff)
  moreover have "positions am' = (positions am)(am_vRandom am ! nat p \<mapsto> q, am_vRandom am ! nat q \<mapsto> p)"
    by (auto simp: am'_def positions_def fun_eq_iff)
  moreover have "\<forall>i. same_info (am_mapInfo am i) (am_mapInfo am' i)" using i by (auto simp: am'_def same_info_def)
  moreover have "am' = am\<lparr>am_mapInfo := am_mapInfo am', am_vRandom := am_vRandom am'\<rparr>" by (simp add: am'_def)
  moreover have "am_vRandom am' = (am_vRandom am)[nat p := am_vRandom am ! nat q, nat q := am_vRandom am ! nat p]"
    by (simp add: am'_def)
  moreover have "nat p \<noteq> nat q" using False assms by linarith
  ultimately have "swapped_ok am p q am'" using swapped n unfolding swapped_ok_def by simp
  moreover have "SwapRandom am p q = ret am'"
    using False assms i by (simp add: SwapRandom_def Let_def am'_def)
  ultimately show ?thesis by (rule that [rotated])
qed

text \<open>Dropping a reference keeps the invariant, removes the id from the bucket and touches no other
  entry.\<close>

definition dropped_ok :: "(int \<Rightarrow> int) \<Rightarrow> CAddrMan \<Rightarrow> nat \<Rightarrow> int \<Rightarrow> CAddrMan \<Rightarrow> bool" where
  "dropped_ok X am b i am' \<longleftrightarrow> am_ok X am' \<and> same_parts am am' \<and>
     am_vvNew am' = (am_vvNew am)[b := am_vvNew am ! b - {i}] \<and>
     (\<forall>j. j \<noteq> i \<longrightarrow> same_info (am_mapInfo am j) (am_mapInfo am' j)) \<and>
     (am_mapInfo am' i = None \<or> (\<exists>info. am_mapInfo am i = Some info \<and> am_mapInfo am' i = Some (info\<lparr>ai_nRefCount := ai_nRefCount info - 1\<rparr>)))"

lemma same_core:
  assumes "same_info x y" shows "map_option core x = map_option core y"
proof (cases x)
  case (Some info)
  with assms obtain k where "y = Some (info\<lparr>ai_nRandomPos := k\<rparr>)" by (auto elim: same_infoD)
  with Some show ?thesis by (simp add: core_def netaddr_def CNetAddr.truncate_def)
qed (use assms in \<open>simp add: same_info_def\<close>)

lemma drop_ref_ok:
  assumes "am_ok X am" "b < 256" "i \<in> am_vvNew am ! b" "X i = 0"
  obtains am' where "drop_ref am b i = ret am'" "dropped_ok X am b i am'"
proof -
  have ok: "random_ok (am_vRandom am) (positions am)" "index_ok (cores am) (am_nIdCount am) (am_mapAddr am)"
    "tried_ok (cores am) (am_vvTried am) (am_nTried am)" "new_ok X (cores am) (am_vvNew am) (am_nNew am)"
    using assms(1) by (simp_all add: am_ok_def)
  have "i \<in> new_set (cores am)" using new_bucket(3) [OF ok(4) assms(2)] assms(3) by blast
  then obtain a r where c: "cores am i = Some (a, r, False)" by (auto simp: new_set_def)
  then obtain info where info: "am_mapInfo am i = Some info" "netaddr info = a" "ai_nRefCount info = r" "\<not> ai_fInTried info"
    by (auto simp: cores_def core_def)
  define am1 where "am1 = set_info i (info\<lparr>ai_nRefCount := r - 1\<rparr>) am"
  have cupd: "core (info\<lparr>ai_nRefCount := k\<rparr>) = (a, k, False)" for k
    using info by (simp add: core_def netaddr_def CNetAddr.truncate_def)
  have pos: "positions am i = Some (ai_nRandomPos info)" using info(1) by (simp add: positions_def)
  then have p1: "positions am1 = positions am" by (auto simp: am1_def)
  have c1: "cores am1 = (cores am)(i \<mapsto> (a, r - 1, False))" by (simp add: am1_def cupd)
  note unref = new_ok_unref [OF ok(4) assms(2,3,4) c ids_finite [OF ok(1)]]
  show ?thesis
  proof (cases "r = 1")
    case False
    define am' where "am' = am1\<lparr>am_vvNew := (am_vvNew am)[b := am_vvNew am ! b - {i}]\<rparr>"
    have "drop_ref am b i = ret am'"
      using info False by (simp add: drop_ref_def Let_def am'_def am1_def)
    moreover have "dropped_ok X am b i am'"
      using ok info False p1 unref(1) index_upd(1) [OF ok(2) c, of "r - 1" False] tried_ok_new(1) [OF ok(3) c]
      by (simp add: dropped_ok_def am_ok_def am'_def c1 same_parts_def) (simp add: am1_def)
    ultimately show ?thesis by (rule that)
  next
    case True
    let ?n = "int (length (am_vRandom am)) - 1"
    have bounds: "0 \<le> ai_nRandomPos info" "ai_nRandomPos info < int (length (am_vRandom am))"
      "am_vRandom am ! nat (ai_nRandomPos info) = i"
      using ok(1) pos by (auto simp: random_ok_def)
    then have ne: "am_vRandom am \<noteq> []" by auto
    obtain am2 where am2: "SwapRandom am1 (ai_nRandomPos info) ?n = ret am2" "swapped_ok am1 (ai_nRandomPos info) ?n am2"
    proof (rule SwapRandom_ok)
      show "random_ok (am_vRandom am1) (positions am1)" using ok(1) unfolding p1 by (simp add: am1_def)
      show "0 \<le> ai_nRandomPos info" by (rule bounds(1))
      show "ai_nRandomPos info < int (length (am_vRandom am1))" using bounds(2) by (simp add: am1_def)
      show "0 \<le> ?n" "?n < int (length (am_vRandom am1))" using ne by (simp_all add: am1_def Suc_le_eq)
    qed
    have last: "last (am_vRandom am2) = i" and ne2: "am_vRandom am2 \<noteq> []"
    proof -
      have "length (am_vRandom am2) = length (am_vRandom am)" "am_vRandom am2 ! nat ?n = i"
        using am2(2) bounds(3) by (simp_all add: swapped_ok_def am1_def)
      moreover have "nat ?n = length (am_vRandom am) - 1" by simp
      moreover from calculation(1) ne show ne2: "am_vRandom am2 \<noteq> []" by auto
      ultimately show "last (am_vRandom am2) = i" using last_conv_nth [OF ne2] by simp
    qed
    define am' where "am' = am2\<lparr>am_vRandom := butlast (am_vRandom am2), am_mapAddr := (am_mapAddr am2)(a := None),
      am_mapInfo := (am_mapInfo am2)(i := None), am_nNew := am_nNew am2 - 1,
      am_vvNew := (am_vvNew am2)[b := am_vvNew am2 ! b - {i}]\<rparr>"
    have frame: "am2 = am1\<lparr>am_mapInfo := am_mapInfo am2, am_vRandom := am_vRandom am2\<rparr>" "cores am2 = cores am1"
      "random_ok (am_vRandom am2) (positions am2)" "\<forall>j. same_info (am_mapInfo am1 j) (am_mapInfo am2 j)"
      using am2(2) by (simp_all add: swapped_ok_def)
    have parts: "am_mapAddr am2 = am_mapAddr am" "am_nNew am2 = am_nNew am" "am_vvNew am2 = am_vvNew am"
      "am_nKey am2 = am_nKey am" "am_nIdCount am2 = am_nIdCount am" "am_vvTried am2 = am_vvTried am" "am_nTried am2 = am_nTried am"
      by (subst frame(1), simp add: am1_def)+
    have drop: "drop_ref am b i = ret am'"
      using info True am2(1) by (simp add: drop_ref_def Let_def am'_def am1_def)
        (simp add: netaddr_def CNetAddr.truncate_def)
    have cm: "cores am' = (cores am)(i := None)" "positions am' = (positions am2)(i := None)"
      using frame(2) c1 by (auto simp: am'_def cores_def positions_def fun_eq_iff)
    then have "am_ok X am'"
      using unref(2) [OF True] index_upd(2) [OF ok(2) c] tried_ok_new(2) [OF ok(3) c]
        random_drop_last [OF frame(3) ne2]
      by (simp add: am_ok_def cm parts last) (simp add: am'_def parts last)
    moreover have "\<forall>j. j \<noteq> i \<longrightarrow> same_info (am_mapInfo am j) (am_mapInfo am2 j)"
    proof (intro allI impI)
      fix j assume "j \<noteq> i"
      then show "same_info (am_mapInfo am j) (am_mapInfo am2 j)" using frame(4) [rule_format, of j] by (simp add: am1_def)
    qed
    ultimately have "dropped_ok X am b i am'"
      using parts by (simp add: dropped_ok_def same_parts_def am'_def)
    with drop show ?thesis by (rule that)
  qed
qed

subsection \<open>Making room in a bucket\<close>

lemma first_terrible_ok:
  assumes "\<forall>i \<in> set is. mapInfo i \<noteq> None"
  shows "\<exists>found. first_terrible mapInfo nNow is = ret found \<and> (\<forall>i. found = Some i \<longrightarrow> i \<in> set is)"
  using assms
proof (induction "is")
  case (Cons i "is")
  then obtain info where "mapInfo i = Some info" by auto
  with Cons show ?case by (cases "IsTerrible info nNow") auto
qed simp

lemma oldest_new_ok:
  assumes "\<forall>(k, i) \<in> set its. mapInfo i \<noteq> None \<and> i \<noteq> -1" "nOldest \<noteq> -1 \<Longrightarrow> mapInfo nOldest \<noteq> None"
  shows "\<exists>r. oldest_new mapInfo n its nOldest = ret r \<and> (r = nOldest \<or> r \<in> snd ` set its) \<and>
    (nOldest \<noteq> -1 \<or> (\<exists>(k, i) \<in> set its. k \<in> n) \<longrightarrow> r \<noteq> -1)"
  using assms
proof (induction its arbitrary: nOldest)
  case (Cons p its)
  obtain k i where p: "p = (k, i)" by (cases p)
  then obtain info where i: "mapInfo i = Some info" "i \<noteq> -1" using Cons.prems(1) by auto
  have its: "\<forall>(k, i) \<in> set its. mapInfo i \<noteq> None \<and> i \<noteq> -1" using Cons.prems(1) by auto
  note IH = Cons.IH [OF its]
  show ?case
  proof (cases "k \<in> n")
    case False
    with IH [OF Cons.prems(2)] p show ?thesis by auto
  next
    case True
    show ?thesis
    proof (cases "nOldest = -1")
      case True
      with \<open>k \<in> n\<close> IH [of i] i p show ?thesis by auto
    next
      case False
      then obtain old where "mapInfo nOldest = Some old" using Cons.prems(2) by auto
      with False \<open>k \<in> n\<close> i p IH [of i] IH [of nOldest] show ?thesis
        by (cases "ad_nTime info < ad_nTime old") auto
    qed
  qed
qed simp

lemma new_set_info: "i \<in> new_set (cores am) \<Longrightarrow> \<exists>info. am_mapInfo am i = Some info"
  by (auto simp: new_set_def dest: cores_domD)

lemma new_set_ids: "index_ok C n A \<Longrightarrow> i \<in> new_set C \<Longrightarrow> 0 \<le> i \<and> i < n"
  unfolding new_set_def index_ok_def by blast

lemma ShrinkNew_ok:
  assumes "am_ok X am" "b < 256" "am_vvNew am ! b \<noteq> {}" "\<forall>i \<in> am_vvNew am ! b. X i = 0"
  shows "run_ok (ShrinkNew am nNow b) (\<lambda>(_, am'). \<exists>i \<in> am_vvNew am ! b. dropped_ok X am b i am')"
proof -
  have new: "new_ok X (cores am) (am_vvNew am) (am_nNew am)" and ix: "index_ok (cores am) (am_nIdCount am) (am_mapAddr am)"
    using assms(1) by (simp_all add: am_ok_def)
  define vNew where "vNew = sorted_list_of_set (am_vvNew am ! b)"
  have fin: "finite (am_vvNew am ! b)" "am_vvNew am ! b \<subseteq> new_set (cores am)" using new_bucket [OF new assms(2)] by auto
  then have vNew: "set vNew = am_vvNew am ! b" "vNew \<noteq> []" using assms(3) by (auto simp: vNew_def)
  have len: "b < length (am_vvNew am)" using new assms(2) by (simp add: new_ok_def)
  have ids: "\<forall>i \<in> set vNew. am_mapInfo am i \<noteq> None \<and> i \<noteq> -1"
    using fin(2) vNew(1) new_set_info new_set_ids [OF ix] by fastforce
  have drop: "run_ok (bind (drop_ref am b i) (\<lambda>am. ret (k, am))) (\<lambda>(_, am'). \<exists>i \<in> am_vvNew am ! b. dropped_ok X am b i am')"
    if i: "i \<in> am_vvNew am ! b" for i and k :: nat
  proof -
    obtain am' where "drop_ref am b i = ret am'" "dropped_ok X am b i am'"
      using drop_ref_ok [OF assms(1,2) i] assms(4) i by blast
    with i show ?thesis by (auto intro!: run_ok_ret)
  qed
  obtain found where found: "first_terrible (am_mapInfo am) nNow vNew = ret found" "\<And>i. found = Some i \<Longrightarrow> i \<in> am_vvNew am ! b"
    using first_terrible_ok [of vNew "am_mapInfo am" nNow] ids vNew(1) by auto
  have pick: "\<exists>r. oldest_new (am_mapInfo am) {n0, n1, n2, n3} (zip [0..<length vNew] vNew) (-1) = ret r \<and> r \<in> am_vvNew am ! b"
    if "n0 < length vNew" for n0 n1 n2 n3
  proof -
    have "(n0, vNew ! n0) \<in> set (zip [0..<length vNew] vNew)" using that by (auto simp: in_set_zip intro: exI [of _ n0])
    then have "\<exists>(k, i) \<in> set (zip [0..<length vNew] vNew). k \<in> {n0, n1, n2, n3}" by blast
    moreover have "\<forall>(k, i) \<in> set (zip [0..<length vNew] vNew). am_mapInfo am i \<noteq> None \<and> i \<noteq> -1"
      using ids by (auto dest: set_zip_rightD)
    ultimately obtain r where r: "oldest_new (am_mapInfo am) {n0, n1, n2, n3} (zip [0..<length vNew] vNew) (-1) = ret r"
      "r = -1 \<or> r \<in> snd ` set (zip [0..<length vNew] vNew)" "r \<noteq> -1"
      using oldest_new_ok [of "zip [0..<length vNew] vNew" "am_mapInfo am" "-1" "{n0, n1, n2, n3}"] by auto
    then have "r \<in> set vNew" by (auto dest: set_zip_rightD)
    with r(1) vNew(1) show ?thesis by auto
  qed
  have step: "run_ok (bind (oldest_new (am_mapInfo am) {n0, n1, n2, n3} (zip [0..<length vNew] vNew) (-1))
      (\<lambda>nOldest. bind (drop_ref am b nOldest) (\<lambda>am. ret (1::nat, am))))
     (\<lambda>(_, am'). \<exists>i \<in> am_vvNew am ! b. dropped_ok X am b i am')"
    if lt: "n0 < length vNew" for n0 n1 n2 n3
  proof -
    obtain r where "oldest_new (am_mapInfo am) {n0, n1, n2, n3} (zip [0..<length vNew] vNew) (-1) = ret r" "r \<in> am_vvNew am ! b"
      using pick [OF lt] by blast
    with drop [of r 1] show ?thesis by simp
  qed
  have pos: "0 < length vNew" using vNew(2) by simp
  show ?thesis
  proof (cases found)
    case (Some i)
    with found drop [of i 0] len show ?thesis by (simp add: ShrinkNew_def vNew_def [symmetric] Let_def)
  next
    case None
    have "run_ok (bind (GetRand (length vNew)) (\<lambda>n0. bind (GetRand (length vNew)) (\<lambda>n1. bind (GetRand (length vNew)) (\<lambda>n2.
        bind (GetRand (length vNew)) (\<lambda>n3. bind (oldest_new (am_mapInfo am) {n0, n1, n2, n3} (zip [0..<length vNew] vNew) (-1))
      (\<lambda>nOldest. bind (drop_ref am b nOldest) (\<lambda>am. ret (1::nat, am))))))))
     (\<lambda>(_, am'). \<exists>i \<in> am_vvNew am ! b. dropped_ok X am b i am')"
      by (intro run_ok_bind run_ok_GetRand [OF pos] step)
    with None found len show ?thesis by (simp add: ShrinkNew_def vNew_def [symmetric] Let_def)
  qed
qed

subsection \<open>Adding to a bucket\<close>

definition one_extra :: "int \<Rightarrow> int \<Rightarrow> int" where
  "one_extra n i = (if i = n then 1 else 0)"

lemma new_ok_insert:
  assumes "new_ok (one_extra i) C vv n" "b < 256" "i \<notin> vv ! b" "card (vv ! b) < 64" "i \<in> new_set C"
  shows "new_ok (\<lambda>_. 0) C (vv[b := insert i (vv ! b)]) n"
proof -
  have l: "length vv = 256" using assms(1) by (simp add: new_ok_def)
  have b: "finite (vv ! b)" "vv ! b \<subseteq> new_set C" using new_bucket [OF assms(1,2)] by auto
  have sets: "finite s \<and> card s \<le> 64 \<and> s \<subseteq> new_set C" if "s \<in> set (vv[b := insert i (vv ! b)])" for s
  proof -
    from that have "s \<in> set vv \<or> s = insert i (vv ! b)" using set_update_subset_insert [of vv b] by auto
    then show ?thesis
    proof
      assume "s = insert i (vv ! b)"
      then show ?thesis using b assms(3,4,5) by simp
    qed (use assms(1) in \<open>auto simp: new_ok_def\<close>)
  qed
  have rf: "refs (vv[b := insert i (vv ! b)]) j = refs vv j + one_extra i j" for j
    using assms(2,3) l by (auto simp: refs_update one_extra_def)
  show ?thesis
    using assms(1) sets unfolding new_ok_def by (simp add: rf l)
qed

lemma GetNewBucket_less: "GetNewBucket E k a s < 256"
  by (simp add: GetNewBucket_def Let_def ADDRMAN_NEW_BUCKET_COUNT_def)

lemma GetTriedBucket_less: "GetTriedBucket E k a < 64"
  by (simp add: GetTriedBucket_def Let_def ADDRMAN_TRIED_BUCKET_COUNT_def)

definition kept_entry :: "CAddrMan \<Rightarrow> int \<Rightarrow> CAddrMan \<Rightarrow> bool" where
  "kept_entry am n am' \<longleftrightarrow> am_ok (\<lambda>_. 0) am' \<and> am_nIdCount am' = am_nIdCount am \<and> am_nKey am' = am_nKey am \<and>
     am_vvTried am' = am_vvTried am \<and>
     (\<exists>info k c. am_mapInfo am n = Some info \<and> am_mapInfo am' n = Some (info\<lparr>ai_nRefCount := k, ai_nRandomPos := c\<rparr>)) \<and>
     (\<forall>i info. am_mapInfo am' i = Some info \<longrightarrow>
        (\<exists>old k c. am_mapInfo am i = Some old \<and> info = old\<lparr>ai_nRefCount := k, ai_nRandomPos := c\<rparr>))"

lemma into_new_ok:
  assumes info: "am_mapInfo am n = Some info" "\<not> ai_fInTried info"
    and extra: "am_ok (one_extra n) (set_info n (info\<lparr>ai_nRefCount := ai_nRefCount info + 1\<rparr>) am)"
    and there: "n \<in> am_vvNew am ! GetNewBucket E (am_nKey am) info source \<Longrightarrow> am_ok (\<lambda>_. 0) am"
  shows "run_ok (into_new E am nNow n source) (kept_entry am n)"
proof -
  define b where "b = GetNewBucket E (am_nKey am) info source"
  define am1 where "am1 = set_info n (info\<lparr>ai_nRefCount := ai_nRefCount info + 1\<rparr>) am"
  have b: "b < 256" by (simp add: b_def GetNewBucket_less)
  have new: "new_ok (one_extra n) (cores am1) (am_vvNew am) (am_nNew am)"
    using extra by (simp add: am_ok_def am1_def)
  have refl: "kept_entry am n am" if "am_ok (\<lambda>_. 0) am"
  proof -
    have self: "info = info\<lparr>ai_nRefCount := ai_nRefCount info, ai_nRandomPos := ai_nRandomPos info\<rparr>" for info :: CAddrInfo by simp
    show ?thesis unfolding kept_entry_def using info(1) that self by metis
  qed
  have mapped: "\<exists>info' k. am_mapInfo am i = Some info' \<and> y = info'\<lparr>ai_nRefCount := k\<rparr>" if "am_mapInfo am1 i = Some y" for i y
  proof (cases "i = n")
    case False
    then have "am_mapInfo am i = Some y" using that by (simp add: am1_def)
    then show ?thesis by (metis CAddrInfo.update_convs(4) CAddrInfo.surjective)
  qed (use that info in \<open>auto simp: am1_def\<close>)
  have put: "kept_entry am n (am2\<lparr>am_vvNew := (am_vvNew am2)[b := insert n (am_vvNew am2 ! b)]\<rparr>)"
    if ok: "am_ok (one_extra n) am2" and parts: "same_parts am am2"
      and room: "n \<notin> am_vvNew am2 ! b" "card (am_vvNew am2 ! b) < 64"
      and same: "same_info (am_mapInfo am1 n) (am_mapInfo am2 n)"
      and others: "\<And>i y. am_mapInfo am2 i = Some y \<Longrightarrow> \<exists>x k c. am_mapInfo am1 i = Some x \<and> y = x\<lparr>ai_nRefCount := k, ai_nRandomPos := c\<rparr>"
    for am2
  proof -
    have ok': "random_ok (am_vRandom am2) (positions am2)" "index_ok (cores am2) (am_nIdCount am2) (am_mapAddr am2)"
      "tried_ok (cores am2) (am_vvTried am2) (am_nTried am2)" "new_ok (one_extra n) (cores am2) (am_vvNew am2) (am_nNew am2)"
      using ok by (simp_all add: am_ok_def)
    obtain c where c: "am_mapInfo am2 n = Some (info\<lparr>ai_nRefCount := ai_nRefCount info + 1, ai_nRandomPos := c\<rparr>)"
      using same by (auto simp: am1_def elim: same_infoD)
    then have "n \<in> new_set (cores am2)" using info(2) by (simp add: new_set_def cores_some core_def)
    then have "new_ok (\<lambda>_. 0) (cores am2) ((am_vvNew am2)[b := insert n (am_vvNew am2 ! b)]) (am_nNew am2)"
      by (rule new_ok_insert [OF ok'(4) b room])
    with ok' have "am_ok (\<lambda>_. 0) (am2\<lparr>am_vvNew := (am_vvNew am2)[b := insert n (am_vvNew am2 ! b)]\<rparr>)"
      by (simp add: am_ok_def)
    moreover have "\<exists>old k c. am_mapInfo am i = Some old \<and> y = old\<lparr>ai_nRefCount := k, ai_nRandomPos := c\<rparr>"
      if y: "am_mapInfo am2 i = Some y" for i y
    proof -
      obtain x k c where "am_mapInfo am1 i = Some x" "y = x\<lparr>ai_nRefCount := k, ai_nRandomPos := c\<rparr>" using others [OF y] by blast
      moreover obtain old k' where "am_mapInfo am i = Some old" "x = old\<lparr>ai_nRefCount := k'\<rparr>" using mapped calculation(1) by blast
      ultimately show ?thesis by auto
    qed
    ultimately show ?thesis using parts c info(1) by (auto simp: kept_entry_def same_parts_def)
  qed
  show ?thesis
  proof (cases "n \<in> am_vvNew am ! b")
    case True
    then show ?thesis
      using info(1) there refl by (simp add: into_new_def b_def [symmetric] Let_def run_ok_ret)
  next
    case False
    let ?add = "\<lambda>am. ret (am\<lparr>am_vvNew := (am_vvNew am)[b := insert n (am_vvNew am ! b)]\<rparr>)"
    have eq: "into_new E am nNow n source = bind (if card (am_vvNew am ! b) = 64
        then bind (ShrinkNew am1 nNow b) (\<lambda>(_, am). ret am) else ret am1) ?add"
      using info(1) False by (simp add: into_new_def b_def [symmetric] am1_def [symmetric] Let_def ADDRMAN_NEW_BUCKET_SIZE_def)
    have am1: "am_ok (one_extra n) am1" "same_parts am am1" "am_vvNew am1 = am_vvNew am"
      using extra by (simp_all add: am1_def same_parts_def)
    have le: "card (am_vvNew am ! b) \<le> 64" using new_bucket(2) [OF new b] .
    show ?thesis
    proof (cases "card (am_vvNew am ! b) = 64")
      case full: False
      with le have "card (am_vvNew am ! b) < 64" by simp
      then have "kept_entry am n (am1\<lparr>am_vvNew := (am_vvNew am1)[b := insert n (am_vvNew am1 ! b)]\<rparr>)"
        using False am1 by (intro put) (auto, metis CAddrInfo.surjective CAddrInfo.update_convs(4,6))
      with full show ?thesis unfolding eq by (simp add: run_ok_ret)
    next
      case full: True
      then have ne: "am_vvNew am1 ! b \<noteq> {}" using am1(3) by auto
      have zero: "\<forall>i \<in> am_vvNew am1 ! b. one_extra n i = 0" using False am1(3) by (auto simp: one_extra_def)
      have "run_ok (ShrinkNew am1 nNow b) (\<lambda>(_, am2). kept_entry am n (am2\<lparr>am_vvNew := (am_vvNew am2)[b := insert n (am_vvNew am2 ! b)]\<rparr>))"
      proof (rule run_ok_weaken [OF ShrinkNew_ok [OF am1(1) b ne zero]], clarify)
        fix k am2 i assume i: "i \<in> am_vvNew am1 ! b" and d: "dropped_ok (one_extra n) am1 b i am2"
        have ni: "n \<noteq> i" using False i am1(3) by auto
        have len: "b < length (am_vvNew am1)" using new am1(3) b by (simp add: new_ok_def)
        have buckets: "am_vvNew am2 ! b = am_vvNew am1 ! b - {i}" using d len by (simp add: dropped_ok_def)
        have fin: "finite (am_vvNew am1 ! b)" using new_bucket(1) [OF new b] am1(3) by simp
        have same: "\<And>j. j \<noteq> i \<Longrightarrow> same_info (am_mapInfo am1 j) (am_mapInfo am2 j)" using d by (simp add: dropped_ok_def)
        show "kept_entry am n (am2\<lparr>am_vvNew := (am_vvNew am2)[b := insert n (am_vvNew am2 ! b)]\<rparr>)"
        proof (rule put)
          show "am_ok (one_extra n) am2" "same_parts am am2"
            using d am1(2) by (auto simp: dropped_ok_def same_parts_def)
          show "n \<notin> am_vvNew am2 ! b" using False am1(3) buckets by simp
          show "card (am_vvNew am2 ! b) < 64" using buckets full am1(3) i fin by simp
          show "same_info (am_mapInfo am1 n) (am_mapInfo am2 n)" using same ni by blast
          fix j y assume y: "am_mapInfo am2 j = Some y"
          show "\<exists>x k c. am_mapInfo am1 j = Some x \<and> y = x\<lparr>ai_nRefCount := k, ai_nRandomPos := c\<rparr>"
          proof (cases "j = i")
            case True
            with y d obtain x where "am_mapInfo am1 i = Some x" "y = x\<lparr>ai_nRefCount := ai_nRefCount x - 1\<rparr>"
              by (auto simp: dropped_ok_def)
            with True show ?thesis by (metis CAddrInfo.surjective CAddrInfo.update_convs(4,6))
          next
            case False
            from same_info_sym [OF same [OF this]] have "same_info (Some y) (am_mapInfo am1 j)" unfolding y .
            then obtain c where "am_mapInfo am1 j = Some (y\<lparr>ai_nRandomPos := c\<rparr>)" by (rule same_infoD)
            then show ?thesis by (metis CAddrInfo.surjective CAddrInfo.update_convs(4,6))
          qed
        qed
      qed
      with full show ?thesis unfolding eq by (auto intro!: run_ok_bind run_ok_ret elim!: run_ok_weaken)
    qed
  qed
qed

end
