(* ===== verification/Addrman_Safe.thy ===== *)
theory Addrman_Safe
  imports Addrman_Rules
begin

text \<open>
  The handlers of the address manager keep its invariant: moving an address to the tried
  buckets, with the eviction of another one, adding addresses, noting attempts and picking
  addresses at random.
\<close>

subsection \<open>Evicting a tried address\<close>

lemma select_tried_loop_ok:
  assumes "\<forall>i \<in> set v. mapInfo i \<noteq> None \<and> i \<noteq> -1" "\<forall>i \<in> set is. i < length v"
    and "nOldest \<noteq> -1 \<Longrightarrow> mapInfo nOldest \<noteq> None \<and> 0 \<le> nOldestPos \<and> nOldestPos < int (length v)"
  shows "run_ok (select_tried_loop mapInfo is v nOldest nOldestPos) (\<lambda>(p, w). mset w = mset v \<and>
    (is \<noteq> [] \<or> nOldest \<noteq> -1 \<longrightarrow> 0 \<le> p \<and> p < int (length v)))"
  using assms
proof (induction mapInfo "is" v nOldest nOldestPos rule: select_tried_loop.induct)
  case (1 mapInfo v nOldest nOldestPos)
  then show ?case by (simp add: run_ok_ret)
next
  case (2 mapInfo i "is" v nOldest nOldestPos)
  have i: "i < length v" using 2(5) by simp
  have step: "run_ok (let nPos = r + i; nTemp = v ! nPos; v = v[nPos := v ! i, i := nTemp]
       in if nOldest = -1 then select_tried_loop mapInfo is v nTemp (int nPos)
          else bind (lookup_at mapInfo nTemp) (\<lambda>temp. bind (lookup_at mapInfo nOldest) (\<lambda>oldest.
                 if sint (ai_nLastSuccess temp) < sint (ai_nLastSuccess oldest)
                 then select_tried_loop mapInfo is v nTemp (int nPos)
                 else select_tried_loop mapInfo is v nOldest nOldestPos)))
     (\<lambda>(p, w). mset w = mset v \<and> (i # is \<noteq> [] \<or> nOldest \<noteq> -1 \<longrightarrow> 0 \<le> p \<and> p < int (length v)))"
    if r: "r < length v - i" for r
  proof -
    define w where "w = v[r + i := v ! i, i := v ! (r + i)]"
    have ri: "r + i < length v" using r by simp
    have m: "mset w = mset v" unfolding w_def using mset_swap [of i v "r + i"] i ri by simp
    then have sw: "set w = set v" "length w = length v" by (metis mset_eq_setD, metis mset_eq_length)
    then have w: "\<forall>i \<in> set w. mapInfo i \<noteq> None \<and> i \<noteq> -1" "\<forall>i \<in> set is. i < length w" using 2(4,5) by auto
    obtain temp where temp: "mapInfo (v ! (r + i)) = Some temp" "v ! (r + i) \<noteq> -1" using 2(4) ri nth_mem by fastforce
    have IH: "run_ok (select_tried_loop mapInfo is w old pos) (\<lambda>(p, u). mset u = mset v \<and> 0 \<le> p \<and> p < int (length v))"
      if "run_ok (select_tried_loop mapInfo is w old pos) (\<lambda>(p, u). mset u = mset w \<and> (is \<noteq> [] \<or> old \<noteq> -1 \<longrightarrow> 0 \<le> p \<and> p < int (length w)))"
        "old \<noteq> -1" for old pos
      using that(1) by (rule run_ok_weaken) (use that(2) m sw in auto)
    show ?thesis
    proof (cases "nOldest = -1")
      case True
      have "run_ok (select_tried_loop mapInfo is w (v ! (r + i)) (int (r + i)))
         (\<lambda>(p, u). mset u = mset w \<and> (is \<noteq> [] \<or> v ! (r + i) \<noteq> -1 \<longrightarrow> 0 \<le> p \<and> p < int (length w)))"
        using 2(1) [OF refl refl w_def True w] temp ri sw by simp
      from IH [OF this temp(2)] show ?thesis using True by (simp add: Let_def w_def)
    next
      case False
      then obtain old where old: "mapInfo nOldest = Some old" "0 \<le> nOldestPos" "nOldestPos < int (length v)" using 2(6) by auto
      show ?thesis
      proof (cases "sint (ai_nLastSuccess temp) < sint (ai_nLastSuccess old)")
        case True
        have "run_ok (select_tried_loop mapInfo is w (v ! (r + i)) (int (r + i)))
           (\<lambda>(p, u). mset u = mset w \<and> (is \<noteq> [] \<or> v ! (r + i) \<noteq> -1 \<longrightarrow> 0 \<le> p \<and> p < int (length w)))"
          using 2(2) [OF refl refl w_def False True w] temp ri sw by simp
        from IH [OF this temp(2)] show ?thesis using True False temp old by (simp add: Let_def w_def)
      next
        case nless: False
        have "run_ok (select_tried_loop mapInfo is w nOldest nOldestPos)
           (\<lambda>(p, u). mset u = mset w \<and> (is \<noteq> [] \<or> nOldest \<noteq> -1 \<longrightarrow> 0 \<le> p \<and> p < int (length w)))"
          using 2(3) [OF refl refl w_def False nless w] old sw by simp
        from IH [OF this False] show ?thesis using nless False temp old by (simp add: Let_def w_def)
      qed
    qed
  qed
  have "0 < length v - i" using i by simp
  from run_ok_bind [OF run_ok_GetRand [OF this step]] show ?case by simp
qed

lemma concat_update:
  "k < length vv \<Longrightarrow> mset (concat (vv[k := x])) + mset (vv ! k) = mset (concat vv) + mset x"
proof (induction vv arbitrary: k)
  case (Cons v vv)
  then show ?case by (cases k) (simp_all add: ac_simps)
qed simp

lemma bucket_in_tried:
  assumes "tried_ok C vv n" "finite (tried_set C)" "k < 64" "i \<in> set (vv ! k)"
  shows "i \<in> tried_set C"
proof -
  have "i \<in> set (concat vv)" using assms nth_mem [of k vv] by (auto simp: tried_ok_def)
  also have "set (concat vv) = tried_set C"
    using assms(1,2) by (metis tried_ok_def finite_set_mset_mset_set set_mset_mset)
  finally show ?thesis .
qed

lemma tried_ok_append:
  assumes "tried_ok C vv n" "finite (tried_set C)" "k < 64" "length (vv ! k) < 64" "C i = Some (a, r, False)"
  shows "tried_ok (C(i \<mapsto> (a, 0, True))) (vv[k := vv ! k @ [i]]) (n + 1)"
proof -
  have l: "length vv = 64" "mset (concat vv) = mset_set (tried_set C)" "n = int (card (tried_set C))"
    using assms(1) by (simp_all add: tried_ok_def)
  have i: "i \<notin> tried_set C" using assms(5) by (auto simp: tried_set_def)
  have "mset (concat (vv[k := vv ! k @ [i]])) = add_mset i (mset (concat vv))"
    using concat_update [of k vv "vv ! k @ [i]"] assms(3) l(1) by simp
  moreover have "\<forall>v \<in> set (vv[k := vv ! k @ [i]]). length v \<le> 64"
    using assms(1,4) set_update_subset_insert [of vv k "vv ! k @ [i]"] by (auto simp: tried_ok_def)
  ultimately show ?thesis using l i assms(2) by (simp add: tried_ok_def new_set_upd)
qed

lemma tried_ok_replace:
  assumes "tried_ok C vv n" "finite (tried_set C)" "k < 64" "mset w = mset (vv ! k)" "p < length w" "w ! p = old"
    and "C i = Some (a, r, False)" "C old = Some (b, q, True)"
  shows "tried_ok (C(i \<mapsto> (a, 0, True), old \<mapsto> (b, 1, False))) (vv[k := w[p := i]]) n"
proof -
  have l: "length vv = 64" "mset (concat vv) = mset_set (tried_set C)" "n = int (card (tried_set C))"
    using assms(1) by (simp_all add: tried_ok_def)
  have i: "i \<notin> tried_set C" "old \<in> tried_set C" "i \<noteq> old" using assms(7,8) by (auto simp: tried_set_def)
  define M where "M = mset (vv ! k) - {#old#}"
  have "old \<in># mset (vv ! k)" using assms(4,5,6) by (metis nth_mem_mset)
  then have M: "mset (vv ! k) = add_mset old M" by (simp add: M_def)
  have "mset (w[p := i]) = add_mset i M" using assms(4,5,6) by (simp add: mset_update M_def)
  then have "mset (concat (vv[k := w[p := i]])) + add_mset old M = mset (concat vv) + add_mset i M"
    using concat_update [of k vv "w[p := i]"] assms(3) l(1) M by simp
  then have "add_mset old (mset (concat (vv[k := w[p := i]]))) + M = add_mset i (mset (concat vv)) + M" by simp
  then have "add_mset old (mset (concat (vv[k := w[p := i]]))) = add_mset i (mset (concat vv))"
    by (simp only: add_right_cancel)
  then have "mset (concat (vv[k := w[p := i]])) = add_mset i (mset (concat vv)) - {#old#}"
    by (metis add_mset_remove_trivial)
  also have "\<dots> = mset_set (insert i (tried_set C) - {old})"
    using l(2) i assms(2) by (simp add: mset_set_Diff)
  finally have m: "mset (concat (vv[k := w[p := i]])) = mset_set (insert i (tried_set C) - {old})" .
  have "card (insert i (tried_set C) - {old}) = card (tried_set C)" using i assms(2) by (simp add: card_Diff_singleton card_insert_if)
  moreover have "length w \<le> 64"
    using assms(1,3,4) nth_mem [of k vv] mset_eq_length [OF assms(4)] by (auto simp: tried_ok_def)
  then have "\<forall>v \<in> set (vv[k := w[p := i]]). length v \<le> 64"
    using assms(1) set_update_subset_insert [of vv k "w[p := i]"] by (auto simp: tried_ok_def)
  ultimately show ?thesis using l m by (simp add: tried_ok_def new_set_upd)
qed

lemma new_ok_leave:
  assumes "new_ok (\<lambda>_. 0) C vv n" "C i = Some (a, r, False)" "finite (dom C)"
  shows "r = refs vv i" and "new_ok (\<lambda>_. 0) (C(i \<mapsto> (a, 0, True))) (map (\<lambda>s. s - {i}) vv) (n - 1)"
proof -
  have "r = refs vv i + 0" using assms(1,2) unfolding new_ok_def by blast
  then show "r = refs vv i" by simp
  have i: "i \<in> new_set C" using assms(2) by (auto simp: new_set_def)
  have "int (card (new_set C - {i})) = int (card (new_set C)) - 1"
    using card.remove [OF new_finite(1) [OF assms(3)] i] by simp
  moreover have "finite (s - {i}) \<and> card (s - {i}) \<le> 64 \<and> s - {i} \<subseteq> new_set C - {i}" if "s \<in> set vv" for s
    using assms(1) that card_mono [of s "s - {i}"] by (fastforce simp: new_ok_def)
  ultimately show "new_ok (\<lambda>_. 0) (C(i \<mapsto> (a, 0, True))) (map (\<lambda>s. s - {i}) vv) (n - 1)"
    using assms(1) unfolding new_ok_def by (simp add: new_set_upd refs_leave)
qed

lemma new_ok_back:
  assumes "new_ok (\<lambda>_. 0) C vv n" "C old = Some (a, r, True)" "b < 256" "card (vv ! b) < 64" "finite (dom C)"
  shows "new_ok (\<lambda>_. 0) (C(old \<mapsto> (a, 1, False))) (vv[b := insert old (vv ! b)]) (n + 1)"
proof -
  have l: "length vv = 256" using assms(1) by (simp add: new_ok_def)
  have old: "old \<notin> new_set C" using assms(2) by (auto simp: new_set_def)
  then have no: "\<forall>s \<in> set vv. old \<notin> s" using assms(1) by (auto simp: new_ok_def)
  then have nb: "old \<notin> vv ! b" using assms(3) l by auto
  have rf: "refs (vv[b := insert old (vv ! b)]) j = (if j = old then 1 else refs vv j)" for j
    using nb assms(3) l no refs_zero [of vv old] by (auto simp: refs_update)
  have b: "finite (vv ! b)" "vv ! b \<subseteq> new_set C" using new_bucket [OF assms(1,3)] by auto
  have sets: "finite s \<and> card s \<le> 64 \<and> s \<subseteq> insert old (new_set C)" if "s \<in> set (vv[b := insert old (vv ! b)])" for s
  proof -
    from that have "s \<in> set vv \<or> s = insert old (vv ! b)" using set_update_subset_insert [of vv b] by auto
    then show ?thesis
    proof
      assume "s = insert old (vv ! b)"
      then show ?thesis using b assms(4) nb by auto
    qed (use assms(1) in \<open>auto simp: new_ok_def\<close>)
  qed
  then show ?thesis
    using assms(1) old new_finite(1) [OF assms(5)] unfolding new_ok_def by (simp add: new_set_upd rf l)
qed

definition to_tried :: "CAddrMan \<Rightarrow> int \<Rightarrow> CAddrMan \<Rightarrow> bool" where
  "to_tried am n am' \<longleftrightarrow> am_ok (\<lambda>_. 0) am' \<and> am_nKey am' = am_nKey am \<and> am_nIdCount am' = am_nIdCount am \<and>
     am_vRandom am' = am_vRandom am \<and> am_mapAddr am' = am_mapAddr am \<and>
     (\<forall>i. am_mapInfo am i = None \<longrightarrow> am_mapInfo am' i = None) \<and>
     (\<forall>i x. am_mapInfo am i = Some x \<longrightarrow> (\<exists>k t. am_mapInfo am' i = Some (x\<lparr>ai_nRefCount := k, ai_fInTried := t\<rparr>) \<and>
        (i = n \<longrightarrow> t) \<and> (i \<noteq> n \<longrightarrow> t \<longrightarrow> ai_fInTried x)))"

lemma core_upd [simp]:
  "core (info\<lparr>ai_nRefCount := k, ai_fInTried := t\<rparr>) = (netaddr info, k, t)"
  "core (info\<lparr>ai_nRefCount := k\<rparr>) = (netaddr info, k, ai_fInTried info)"
  "core (info\<lparr>ai_fInTried := t\<rparr>) = (netaddr info, ai_nRefCount info, t)"
  "core (info\<lparr>ai_fInTried := t, ai_nRefCount := k\<rparr>) = (netaddr info, k, t)"
  "netaddr (info\<lparr>ai_nRefCount := k\<rparr>) = netaddr info"
  "netaddr (info\<lparr>ai_fInTried := t\<rparr>) = netaddr info"
  by (simp_all add: core_def netaddr_def CNetAddr.truncate_def)

lemma SelectTried_ok:
  assumes "\<forall>i \<in> set (am_vvTried am ! k). am_mapInfo am i \<noteq> None \<and> i \<noteq> -1" "am_vvTried am ! k \<noteq> []"
  shows "run_ok (SelectTried am k) (\<lambda>(p, am'). \<exists>w. mset w = mset (am_vvTried am ! k) \<and> 0 \<le> p \<and> p < int (length w) \<and>
    am' = am\<lparr>am_vvTried := (am_vvTried am)[k := w]\<rparr>)"
proof -
  let ?v = "am_vvTried am ! k"
  have "run_ok (select_tried_loop (am_mapInfo am) [0..<min 4 (length ?v)] ?v (-1) (-1))
    (\<lambda>(p, w). mset w = mset ?v \<and> ([0..<min 4 (length ?v)] \<noteq> [] \<or> (-1::int) \<noteq> -1 \<longrightarrow> 0 \<le> p \<and> p < int (length ?v)))"
    by (rule select_tried_loop_ok [OF assms(1)]) auto
  moreover have "[0..<min 4 (length ?v)] \<noteq> []" using assms(2) by simp
  ultimately have "run_ok (select_tried_loop (am_mapInfo am) [0..<min 4 (length ?v)] ?v (-1) (-1))
    (\<lambda>(p, w). mset w = mset ?v \<and> 0 \<le> p \<and> p < int (length w))"
    by (elim run_ok_weaken) (auto dest: mset_eq_length)
  then show ?thesis
    unfolding SelectTried_def Let_def ADDRMAN_TRIED_ENTRIES_INSPECT_ON_EVICT_def
    by (intro run_ok_bind) (erule run_ok_weaken, auto intro!: run_ok_ret)
qed

lemma MakeTried_ok:
  assumes ok: "am_ok (\<lambda>_. 0) am" and info: "am_mapInfo am n = Some info" "\<not> ai_fInTried info"
    and origin: "b < 256" "n \<in> am_vvNew am ! b"
  shows "run_ok (MakeTried E am n info b) (to_tried am n)"
proof -
  have parts: "random_ok (am_vRandom am) (positions am)" "index_ok (cores am) (am_nIdCount am) (am_mapAddr am)"
    "tried_ok (cores am) (am_vvTried am) (am_nTried am)" "new_ok (\<lambda>_. 0) (cores am) (am_vvNew am) (am_nNew am)"
    using ok by (simp_all add: am_ok_def)
  have fin: "finite (dom (cores am))" "finite (tried_set (cores am))"
    using ids_finite [OF parts(1)] new_finite(2) by auto
  define a r where "a = netaddr info" and "r = ai_nRefCount info"
  have c: "cores am n = Some (a, r, False)" using info by (simp add: cores_some core_def a_def r_def)
  have pos: "positions am n = Some (ai_nRandomPos info)" using info(1) by (simp add: positions_def)
  have len: "length (am_vvNew am) = 256" "length (am_vvTried am) = 64" using parts(3,4) by (simp_all add: new_ok_def tried_ok_def)
  note leave = new_ok_leave [OF parts(4) c fin(1)]
  have r: "r = int (length (filter (\<lambda>s. n \<in> s) (am_vvNew am)))" using leave(1) by (simp add: refs_def)
  define info0 where "info0 = info\<lparr>ai_nRefCount := 0\<rparr>"
  define am1 where "am1 = set_info n info0 (am\<lparr>am_vvNew := map (\<lambda>s. s - {n}) (am_vvNew am), am_nNew := am_nNew am - 1\<rparr>)"
  have l: "leave_new am n info = (am1, info0)"
    using r by (simp add: leave_new_def Let_def am1_def info0_def r_def)
  have ref0: "ai_nRefCount info0 = 0" by (simp add: info0_def)
  define k where "k = GetTriedBucket E (am_nKey am) info0"
  have k: "k < 64" by (simp add: k_def GetTriedBucket_less)
  have fields: "am_nKey am1 = am_nKey am" "am_vvTried am1 = am_vvTried am" by (simp_all add: am1_def)
  have "MakeTried E am n info b = (if length (am_vvTried am ! k) < 64
      then ret (set_info n (info0\<lparr>ai_fInTried := True\<rparr>)
                 (am1\<lparr>am_vvTried := (am_vvTried am)[k := am_vvTried am ! k @ [n]], am_nTried := am_nTried am1 + 1\<rparr>))
      else evict_tried E am1 n info0 b k)"
    using origin len ref0 by (simp add: MakeTried_def l Let_def fields k_def ADDRMAN_TRIED_BUCKET_SIZE_def)
  moreover have "to_tried am n (set_info n (info0\<lparr>ai_fInTried := True\<rparr>)
                 (am1\<lparr>am_vvTried := (am_vvTried am)[k := am_vvTried am ! k @ [n]], am_nTried := am_nTried am1 + 1\<rparr>))" (is "to_tried am n ?am2")
    if room: "length (am_vvTried am ! k) < 64"
  proof -
    have cores2: "cores ?am2 = (cores am)(n \<mapsto> (a, 0, True))" by (simp add: am1_def info0_def a_def)
    have pos2: "positions ?am2 = positions am" using pos by (auto simp: am1_def info0_def)
    have "am_ok (\<lambda>_. 0) ?am2"
      unfolding am_ok_def cores2 pos2
      using parts leave(2) index_upd(1) [OF parts(2) c] tried_ok_append [OF parts(3) fin(2) k room c] by (simp add: am1_def)
    moreover have "\<exists>k t. am_mapInfo ?am2 i = Some (x\<lparr>ai_nRefCount := k, ai_fInTried := t\<rparr>) \<and> (i = n \<longrightarrow> t) \<and> (i \<noteq> n \<longrightarrow> t \<longrightarrow> ai_fInTried x)"
      if "am_mapInfo am i = Some x" for i x
    proof (cases "i = n")
      case False
      with that show ?thesis
        by (intro exI [of _ "ai_nRefCount x"] exI [of _ "ai_fInTried x"]) (simp add: am1_def)
    qed (use that info in \<open>auto simp: am1_def info0_def\<close>)
    ultimately show ?thesis using info(1) by (auto simp: to_tried_def am1_def)
  qed
  moreover have "run_ok (evict_tried E am1 n info0 b k) (to_tried am n)" if full: "\<not> length (am_vvTried am ! k) < 64"
  proof -
    let ?v = "am_vvTried am ! k"
    have vok: "\<forall>i \<in> set ?v. am_mapInfo am1 i \<noteq> None \<and> i \<noteq> -1"
    proof
      fix i assume "i \<in> set ?v"
      then have "i \<in> tried_set (cores am)" by (rule bucket_in_tried [OF parts(3) fin(2) k])
      then obtain q s where "cores am i = Some (q, s, True)" by (auto simp: tried_set_def)
      moreover from this have "0 \<le> i" using parts(2) unfolding index_ok_def by blast
      ultimately show "am_mapInfo am1 i \<noteq> None \<and> i \<noteq> -1" by (auto simp: am1_def dest: cores_domD)
    qed
    have ne: "am_vvTried am1 ! k \<noteq> []" using full fields by auto
    have "run_ok (SelectTried am1 k) (\<lambda>(p, am'). \<exists>w. mset w = mset ?v \<and> 0 \<le> p \<and> p < int (length w) \<and>
      am' = am1\<lparr>am_vvTried := (am_vvTried am)[k := w]\<rparr>)"
      using SelectTried_ok [of am1 k] vok ne fields by simp
    then show ?thesis
      unfolding evict_tried_def
    proof (intro run_ok_bind, elim run_ok_weaken, clarify)
      fix p w assume w: "mset w = mset ?v" "0 \<le> p" "p < int (length w)"
      define am2 where "am2 = am1\<lparr>am_vvTried := (am_vvTried am)[k := w]\<rparr>"
      have vv2: "am_vvTried am2 ! k = w" "am_vvTried am2 = (am_vvTried am)[k := w]" using k len by (simp_all add: am2_def)
      define old where "old = w ! nat p"
      have np: "nat p < length w" using w by linarith
      have oldv: "old \<in> set ?v" using np w(1) unfolding old_def by (metis nth_mem mset_eq_setD)
      then have "old \<in> tried_set (cores am)" by (rule bucket_in_tried [OF parts(3) fin(2) k])
      then obtain ao ro where co: "cores am old = Some (ao, ro, True)" by (auto simp: tried_set_def)
      then obtain infoOld where infoOld: "am_mapInfo am old = Some infoOld" "netaddr infoOld = ao" "ai_fInTried infoOld"
        by (auto simp: core_def dest!: cores_domD)
      have neq: "old \<noteq> n" using co c by auto
      have m2: "am_mapInfo am2 old = Some infoOld" using infoOld neq by (simp add: am2_def am1_def)
      define ub where "ub = GetNewBucket E (am_nKey am) infoOld (ai_source infoOld)"
      define vv1 where "vv1 = map (\<lambda>s. s - {n}) (am_vvNew am)"
      define bb where "bb = (if card (vv1 ! ub) < 64 then ub else b)"
      have bb: "bb < 256" "card (vv1 ! bb) < 64"
      proof -
        show "bb < 256" using origin(1) by (simp add: bb_def ub_def GetNewBucket_less)
        have "card (vv1 ! b) < 64"
        proof -
          have "vv1 ! b = am_vvNew am ! b - {n}" using origin(1) len by (simp add: vv1_def)
          moreover have "finite (am_vvNew am ! b)" "card (am_vvNew am ! b) \<le> 64" using new_bucket [OF parts(4) origin(1)] by auto
          ultimately show ?thesis using origin(2) card_Diff1_less [of "am_vvNew am ! b" n] by simp
        qed
        then show "card (vv1 ! bb) < 64" by (simp add: bb_def)
      qed
      define am4 where "am4 = set_info n (info0\<lparr>ai_fInTried := True\<rparr>) ((set_info old (infoOld\<lparr>ai_fInTried := False, ai_nRefCount := 1\<rparr>) am2)
          \<lparr>am_vvNew := vv1[bb := insert old (vv1 ! bb)], am_nNew := am_nNew am2 + 1,
           am_vvTried := (am_vvTried am)[k := w[nat p := n]]\<rparr>)"
      have C1: "((cores am)(n \<mapsto> (a, 0, True))) old = Some (ao, ro, True)" using co neq by simp
      have fin1: "finite (dom ((cores am)(n \<mapsto> (a, 0, True))))" using fin(1) by simp
      have cores4: "cores am4 = ((cores am)(n \<mapsto> (a, 0, True)))(old \<mapsto> (ao, 1, False))"
        using neq infoOld(2) by (simp add: am4_def am2_def am1_def info0_def a_def) (simp add: fun_eq_iff)
      have pos4: "positions am4 = positions am"
        using pos infoOld(1) neq by (auto simp: am4_def am2_def am1_def info0_def positions_def)
      have new4: "new_ok (\<lambda>_. 0) (cores am4) (vv1[bb := insert old (vv1 ! bb)]) (am_nNew am)"
        using new_ok_back [OF leave(2) C1 bb(1) bb(2) [unfolded vv1_def] fin1] unfolding cores4 vv1_def
        by (simp only: diff_add_cancel)
      have tried4: "tried_ok (cores am4) ((am_vvTried am)[k := w[nat p := n]]) (am_nTried am)"
        unfolding cores4 by (rule tried_ok_replace [OF parts(3) fin(2) k w(1) np _ c co]) (simp add: old_def)
      have index4: "index_ok (cores am4) (am_nIdCount am) (am_mapAddr am)"
        unfolding cores4 by (rule index_upd(1) [OF index_upd(1) [OF parts(2) c] C1])
      have "am_ok (\<lambda>_. 0) am4"
        using parts(1) new4 tried4 index4 by (simp add: am_ok_def pos4) (simp add: am4_def am2_def am1_def)
      moreover have "\<exists>k t. am_mapInfo am4 i = Some (x\<lparr>ai_nRefCount := k, ai_fInTried := t\<rparr>) \<and> (i = n \<longrightarrow> t) \<and> (i \<noteq> n \<longrightarrow> t \<longrightarrow> ai_fInTried x)"
        if "am_mapInfo am i = Some x" for i x
      proof -
        consider "i = n" | "i = old" | "i \<noteq> n" "i \<noteq> old" by blast
        then show ?thesis
        proof cases
          case 2
          then have "x = infoOld" using that infoOld(1) by simp
          with 2 neq infoOld(3) show ?thesis
            by (intro exI [of _ 1] exI [of _ False]) (simp add: am4_def am2_def am1_def)
        next
          case 3
          with that show ?thesis
            by (intro exI [of _ "ai_nRefCount x"] exI [of _ "ai_fInTried x"]) (simp add: am4_def am2_def am1_def)
        qed (use that info infoOld neq in \<open>auto simp: am4_def am2_def am1_def info0_def\<close>)
      qed
      ultimately have t4: "to_tried am n am4"
        using info(1) infoOld(1) by (auto simp: to_tried_def am4_def am2_def am1_def)
      have eq: "bind (check_that (0 \<le> p \<and> p < int (length (am_vvTried am2 ! k)))) (\<lambda>_.
         let old = am_vvTried am2 ! k ! nat p
         in bind (lookup_at (am_mapInfo am2) old) (\<lambda>infoOld.
            let nUBucket = GetNewBucket E (am_nKey am2) infoOld (ai_source infoOld);
                am = set_info old (infoOld\<lparr>ai_fInTried := False, ai_nRefCount := 1\<rparr>) am2;
                b = (if card (am_vvNew am ! nUBucket) < ADDRMAN_NEW_BUCKET_SIZE then nUBucket else b);
                am = am\<lparr>am_vvNew := (am_vvNew am)[b := insert old (am_vvNew am ! b)], am_nNew := am_nNew am + 1,
                        am_vvTried := (am_vvTried am)[k := (am_vvTried am ! k)[nat p := n]]\<rparr>
            in ret (set_info n (info0\<lparr>ai_fInTried := True\<rparr>) am))) = ret am4"
        using w m2 vv2 np k len
        by (simp add: Let_def old_def [symmetric] am4_def bb_def ub_def vv1_def ADDRMAN_NEW_BUCKET_SIZE_def) (simp add: am2_def am1_def)
      show "run_ok (bind (check_that (0 \<le> p \<and> p < int (length (am_vvTried (am1\<lparr>am_vvTried := (am_vvTried am)[k := w]\<rparr>) ! k)))) (\<lambda>_.
         let old = am_vvTried (am1\<lparr>am_vvTried := (am_vvTried am)[k := w]\<rparr>) ! k ! nat p
         in bind (lookup_at (am_mapInfo (am1\<lparr>am_vvTried := (am_vvTried am)[k := w]\<rparr>)) old) (\<lambda>infoOld.
            let nUBucket = GetNewBucket E (am_nKey (am1\<lparr>am_vvTried := (am_vvTried am)[k := w]\<rparr>)) infoOld (ai_source infoOld);
                am = set_info old (infoOld\<lparr>ai_fInTried := False, ai_nRefCount := 1\<rparr>) (am1\<lparr>am_vvTried := (am_vvTried am)[k := w]\<rparr>);
                b = (if card (am_vvNew am ! nUBucket) < ADDRMAN_NEW_BUCKET_SIZE then nUBucket else b);
                am = am\<lparr>am_vvNew := (am_vvNew am)[b := insert old (am_vvNew am ! b)], am_nNew := am_nNew am + 1,
                        am_vvTried := (am_vvTried am)[k := (am_vvTried am ! k)[nat p := n]]\<rparr>
            in ret (set_info n (info0\<lparr>ai_fInTried := True\<rparr>) am)))) (to_tried am n)"
        unfolding am2_def [symmetric] eq by (rule run_ok_ret) (rule t4)
    qed
  qed
  ultimately show ?thesis by (auto simp: run_ok_ret)
qed

subsection \<open>Handlers\<close>

text \<open>The times the consistency check looks at.\<close>

definition times_ok :: "CAddrMan \<Rightarrow> bool" where
  "times_ok am \<longleftrightarrow> (\<forall>i x. am_mapInfo am i = Some x \<longrightarrow> 0 \<le> sint (ad_nLastTry x) \<and> 0 \<le> sint (ai_nLastSuccess x) \<and>
     (ai_fInTried x \<longrightarrow> ai_nLastSuccess x \<noteq> 0))"

definition am_good :: "CAddrMan \<Rightarrow> bool" where
  "am_good am \<longleftrightarrow> am_ok (\<lambda>_. 0) am \<and> times_ok am \<and> 0 \<le> am_nIdCount am"

lemma set_info_keeps:
  assumes "am_ok X am" "am_mapInfo am n = Some x" "core y = core x" "ai_nRandomPos y = ai_nRandomPos x"
  shows "am_ok X (set_info n y am)"
proof -
  have "cores (set_info n y am) = cores am" "positions (set_info n y am) = positions am"
    using assms(2-4) by (auto simp: cores_def positions_def)
  with assms(1) show ?thesis unfolding am_ok_def by (simp del: views_set_info(1,2))
qed

lemma FindD: "Find am addr = Some (n, x) \<Longrightarrow> am_mapAddr am (netaddr addr) = Some n \<and> am_mapInfo am n = Some x"
  by (auto simp: Find_def split: option.splits)

lemma Find_None:
  assumes "am_ok X am" "Find am addr = None" shows "am_mapAddr am (netaddr addr) = None"
proof (rule ccontr)
  assume "am_mapAddr am (netaddr addr) \<noteq> None"
  then obtain n where n: "am_mapAddr am (netaddr addr) = Some n" by auto
  then have "\<exists>r t. cores am n = Some (netaddr addr, r, t)" using assms(1) unfolding am_ok_def index_ok_def by blast
  then show False using assms(2) n by (auto simp: Find_def dest: cores_domD)
qed

lemma rotation_covers:
  fixes b r l :: nat
  assumes "b < l" shows "\<exists>n < l. (n + r) mod l = b"
proof (intro exI conjI)
  show "(b + (l - r mod l)) mod l < l" using assms by simp
  have "((b + (l - r mod l)) mod l + r) mod l = (b + (l - r mod l) + r mod l) mod l" by (metis mod_add_left_eq mod_add_right_eq)
  also have "b + (l - r mod l) + r mod l = b + l"
  proof -
    have "r mod l < l" using assms by simp
    then show ?thesis by linarith
  qed
  finally show "((b + (l - r mod l)) mod l + r) mod l = b" using assms by simp
qed

lemma new_in_bucket:
  assumes "am_ok (\<lambda>_. 0) am" "am_mapInfo am n = Some x" "\<not> ai_fInTried x"
  shows "\<exists>b < 256. n \<in> am_vvNew am ! b"
proof -
  have c: "cores am n = Some (netaddr x, ai_nRefCount x, False)" using assms(2,3) by (simp add: cores_some core_def)
  have new: "new_ok (\<lambda>_. 0) (cores am) (am_vvNew am) (am_nNew am)" using assms(1) by (simp add: am_ok_def)
  then have "refs (am_vvNew am) n \<noteq> 0" "length (am_vvNew am) = 256" using c unfolding new_ok_def by force+
  then show ?thesis by (simp add: refs_zero) (metis in_set_conv_nth)
qed

lemma core_times [simp]:
  "core (info\<lparr>ai_nLastSuccess := s, ad_nLastTry := l, ad_nTime := t, ai_nAttempts := k\<rparr>) = core info"
  "core (info\<lparr>ad_nLastTry := l, ai_nAttempts := k\<rparr>) = core info" "core (info\<lparr>ad_nTime := t\<rparr>) = core info"
  "core (info\<lparr>ad_nTime := t, ad_nServices := v\<rparr>) = core info" "core (info\<lparr>ad_nServices := v\<rparr>) = core info"
  by (simp_all add: core_def netaddr_def CNetAddr.truncate_def)

lemma am_Good_ok:
  assumes good: "am_good am" and t: "0 < sint nTime"
  shows "run_ok (am_Good E am addr nTime) (\<lambda>am'. am_good am' \<and> am_vRandom am' = am_vRandom am \<and> am_mapAddr am' = am_mapAddr am \<and>
    (\<forall>n x. Find am addr = Some (n, x) \<longrightarrow> CService_eq x addr \<longrightarrow> (\<exists>y. am_mapInfo am' n = Some y \<and> ai_fInTried y)))"
proof (cases "Find am addr")
  case None
  with good show ?thesis by (simp add: am_Good_def run_ok_ret)
next
  case (Some p)
  obtain n x where p: "p = (n, x)" by (cases p)
  show ?thesis
  proof (cases "CService_eq x addr")
    case False
    with good Some p show ?thesis by (simp add: am_Good_def run_ok_ret)
  next
    case eq: True
    define y where "y = x\<lparr>ai_nLastSuccess := nTime, ad_nLastTry := nTime, ad_nTime := ucast nTime, ai_nAttempts := 0\<rparr>"
    define am1 where "am1 = set_info n y am"
    have x: "am_mapInfo am n = Some x" using FindD Some p by blast
    have ok: "am_ok (\<lambda>_. 0) am1" unfolding am1_def
      by (rule set_info_keeps [OF _ x]) (use good in \<open>simp_all add: am_good_def y_def\<close>)
    have nz: "nTime \<noteq> 0" using t by auto
    have times: "times_ok am1" using good t nz by (auto simp: am_good_def times_ok_def am1_def y_def)
    have frame: "am_vRandom am1 = am_vRandom am" "am_mapAddr am1 = am_mapAddr am" "am_mapInfo am1 n = Some y"
      "0 \<le> am_nIdCount am1"
      using good by (simp_all add: am1_def am_good_def)
    show ?thesis
    proof (cases "ai_fInTried y")
      case True
      with ok times frame Some p eq show ?thesis
        by (simp add: am_Good_def Let_def y_def [symmetric] am1_def [symmetric] run_ok_ret am_good_def)
    next
      case False
      have len: "length (am_vvNew am1) = 256" using ok by (simp add: am_ok_def new_ok_def)
      obtain b0 where b0: "b0 < 256" "n \<in> am_vvNew am1 ! b0" using new_in_bucket [OF ok frame(3) False] by blast
      have step: "run_ok (case find (\<lambda>nB. n \<in> am_vvNew am1 ! nB) (map (\<lambda>k. (k + nRnd) mod length (am_vvNew am1)) [0..<length (am_vvNew am1)]) of
            None \<Rightarrow> ret am1 | Some nUBucket \<Rightarrow> MakeTried E am1 n y nUBucket) (\<lambda>am'. am_good am' \<and> am_vRandom am' = am_vRandom am \<and>
              am_mapAddr am' = am_mapAddr am \<and> (\<exists>z. am_mapInfo am' n = Some z \<and> ai_fInTried z))" for nRnd
      proof -
        let ?bs = "map (\<lambda>k. (k + nRnd) mod length (am_vvNew am1)) [0..<length (am_vvNew am1)]"
        have "b0 \<in> set ?bs" using rotation_covers [OF b0(1), of nRnd] len by auto
        then obtain b where b: "find (\<lambda>nB. n \<in> am_vvNew am1 ! nB) ?bs = Some b"
          using b0(2) by (metis find_None_iff option.exhaust)
        then have bb: "b \<in> set ?bs" "n \<in> am_vvNew am1 ! b" by (auto simp: find_Some_iff)
        then have "b < 256" using len by auto
        have "run_ok (MakeTried E am1 n y b) (\<lambda>am'. am_good am' \<and> am_vRandom am' = am_vRandom am \<and>
              am_mapAddr am' = am_mapAddr am \<and> (\<exists>z. am_mapInfo am' n = Some z \<and> ai_fInTried z))"
        proof (rule run_ok_weaken [OF MakeTried_ok [OF ok frame(3) False \<open>b < 256\<close> bb(2)]])
          fix am' assume a: "to_tried am1 n am'"
          have "times_ok am'"
            unfolding times_ok_def
          proof (intro allI impI)
            fix i z assume z: "am_mapInfo am' i = Some z"
            then obtain w where w: "am_mapInfo am1 i = Some w" using a by (cases "am_mapInfo am1 i") (auto simp: to_tried_def)
            then obtain k u where u: "z = w\<lparr>ai_nRefCount := k, ai_fInTried := u\<rparr>" "i \<noteq> n \<longrightarrow> u \<longrightarrow> ai_fInTried w"
              using a z by (auto simp: to_tried_def) (metis option.inject)
            show "0 \<le> sint (ad_nLastTry z) \<and> 0 \<le> sint (ai_nLastSuccess z) \<and> (ai_fInTried z \<longrightarrow> ai_nLastSuccess z \<noteq> 0)"
              using u times w frame(3) nz by (cases "i = n") (auto simp: times_ok_def y_def)
          qed
          moreover obtain k u where "am_mapInfo am' n = Some (y\<lparr>ai_nRefCount := k, ai_fInTried := u\<rparr>)" "u"
            using a frame(3) unfolding to_tried_def by blast
          ultimately show "am_good am' \<and> am_vRandom am' = am_vRandom am \<and> am_mapAddr am' = am_mapAddr am \<and>
              (\<exists>z. am_mapInfo am' n = Some z \<and> ai_fInTried z)"
            using a frame by (simp add: to_tried_def am_good_def)
        qed
        with b show ?thesis by simp
      qed
      have "0 < length (am_vvNew am1)" using len by simp
      moreover have "am_Good E am addr nTime = bind (GetRand (length (am_vvNew am1))) (\<lambda>nRnd.
          case find (\<lambda>nB. n \<in> am_vvNew am1 ! nB) (map (\<lambda>k. (k + nRnd) mod length (am_vvNew am1)) [0..<length (am_vvNew am1)]) of
            None \<Rightarrow> ret am1 | Some nUBucket \<Rightarrow> MakeTried E am1 n y nUBucket)"
        using False eq Some p unfolding am1_def y_def by (simp add: am_Good_def Let_def)
      ultimately show ?thesis
        using Some p by (simp only:) (intro run_ok_bind run_ok_GetRand, simp, rule run_ok_weaken [OF step], simp)
    qed
  qed
qed

lemma fresh_id:
  assumes "am_ok X am" shows "cores am (am_nIdCount am) = None"
proof (rule ccontr)
  assume "cores am (am_nIdCount am) \<noteq> None"
  then obtain a r t where "cores am (am_nIdCount am) = Some (a, r, t)" by auto
  then have "am_nIdCount am < am_nIdCount am" using assms unfolding am_ok_def index_ok_def by blast
  then show False by simp
qed

text \<open>A new entry with its first reference counted.\<close>

lemma create_ok:
  assumes ok: "am_ok (\<lambda>_. 0) am" and a: "am_mapAddr am a = None" and n: "n = am_nIdCount am" "0 \<le> n"
    and y: "core y = (a, 1, False)" "ai_nRandomPos y = int (length (am_vRandom am))"
    and am': "am_nIdCount am' = n + 1" "am_mapInfo am' = (am_mapInfo am)(n \<mapsto> y)" "am_mapAddr am' = (am_mapAddr am)(a \<mapsto> n)"
      "am_vRandom am' = am_vRandom am @ [n]" "am_nNew am' = am_nNew am + 1" "am_vvNew am' = am_vvNew am"
      "am_vvTried am' = am_vvTried am" "am_nTried am' = am_nTried am"
  shows "am_ok (one_extra n) am'"
proof -
  have parts: "random_ok (am_vRandom am) (positions am)" "index_ok (cores am) (am_nIdCount am) (am_mapAddr am)"
    "tried_ok (cores am) (am_vvTried am) (am_nTried am)" "new_ok (\<lambda>_. 0) (cores am) (am_vvNew am) (am_nNew am)"
    using ok by (simp_all add: am_ok_def)
  have fresh: "cores am n = None" using fresh_id [OF ok] n(1) by simp
  have C: "cores am' = (cores am)(n \<mapsto> (a, 1, False))" "positions am' = (positions am)(n \<mapsto> int (length (am_vRandom am)))"
    using y by (auto simp: cores_def positions_def am'(2))
  have fin: "finite (new_set (cores am))" "n \<notin> new_set (cores am)" "n \<notin> tried_set (cores am)"
    using new_finite(1) [OF ids_finite [OF parts(1)]] fresh by (auto simp: new_set_def tried_set_def)
  have nv: "n \<notin> set (am_vRandom am)" using random_ids [OF parts(1)] fresh by auto
  have dom: "dom (positions am) = set (am_vRandom am)" using parts(1) by (simp add: random_ok_def)
  have "random_ok (am_vRandom am @ [n]) ((positions am)(n \<mapsto> int (length (am_vRandom am))))"
  proof -
    have lt: "positions am i = Some p \<Longrightarrow> p < int (length (am_vRandom am))" for i p
      using parts(1) unfolding random_ok_def by blast
    show ?thesis using parts(1) nv unfolding random_ok_def by (auto simp: nth_append nat_less_iff dest: lt)
  qed
  moreover have "index_ok ((cores am)(n \<mapsto> (a, 1, False))) (n + 1) ((am_mapAddr am)(a \<mapsto> n))"
    unfolding index_ok_def
  proof (intro conjI allI impI)
    fix j b q u assume "((cores am)(n \<mapsto> (a, 1, False))) j = Some (b, q, u)"
    then have "j = n \<and> b = a \<or> j \<noteq> n \<and> cores am j = Some (b, q, u)" by (auto split: if_splits)
    then show "0 \<le> j" "j < n + 1" "((am_mapAddr am)(a \<mapsto> n)) b = Some j"
    proof -
      have "j \<noteq> n \<Longrightarrow> cores am j = Some (b, q, u) \<Longrightarrow> 0 \<le> j \<and> j < n \<and> am_mapAddr am b = Some j"
        using parts(2) n(1) unfolding index_ok_def by blast
      with \<open>j = n \<and> b = a \<or> j \<noteq> n \<and> cores am j = Some (b, q, u)\<close> n(2) a
      show "0 \<le> j" "j < n + 1" "((am_mapAddr am)(a \<mapsto> n)) b = Some j" by auto
    qed
  next
    fix b j assume "((am_mapAddr am)(a \<mapsto> n)) b = Some j"
    then have "b = a \<and> j = n \<or> am_mapAddr am b = Some j" by (auto split: if_splits)
    then show "\<exists>r t. ((cores am)(n \<mapsto> (a, 1, False))) j = Some (b, r, t)"
    proof
      assume "am_mapAddr am b = Some j"
      then obtain r t where "cores am j = Some (b, r, t)" using parts(2) unfolding index_ok_def by blast
      moreover from this fresh have "j \<noteq> n" by auto
      ultimately show ?thesis by simp
    qed auto
  qed
  moreover have "tried_ok ((cores am)(n \<mapsto> (a, 1, False))) (am_vvTried am) (am_nTried am)"
    using parts(3) fin(3) by (simp add: tried_ok_def new_set_upd)
  moreover have "new_ok (one_extra n) ((cores am)(n \<mapsto> (a, 1, False))) (am_vvNew am) (am_nNew am + 1)"
  proof -
    have "refs (am_vvNew am) n = 0" using parts(4) fin(2) by (auto simp: new_ok_def refs_zero)
    moreover have "finite s \<and> card s \<le> 64 \<and> s \<subseteq> insert n (new_set (cores am))" if "s \<in> set (am_vvNew am)" for s
      using parts(4) that by (auto simp: new_ok_def)
    ultimately show ?thesis
      using parts(4) fin unfolding new_ok_def by (simp add: new_set_upd one_extra_def)
  qed
  ultimately show ?thesis unfolding am_ok_def C by (simp add: am')
qed

lemma one_more:
  assumes ok: "am_ok (\<lambda>_. 0) am" and x: "am_mapInfo am n = Some x" "\<not> ai_fInTried x" "ai_nRefCount x < 4"
  shows "am_ok (one_extra n) (set_info n (x\<lparr>ai_nRefCount := ai_nRefCount x + 1\<rparr>) am)"
proof -
  have parts: "random_ok (am_vRandom am) (positions am)" "index_ok (cores am) (am_nIdCount am) (am_mapAddr am)"
    "tried_ok (cores am) (am_vvTried am) (am_nTried am)" "new_ok (\<lambda>_. 0) (cores am) (am_vvNew am) (am_nNew am)"
    using ok by (simp_all add: am_ok_def)
  have c: "cores am n = Some (netaddr x, ai_nRefCount x, False)" using x by (simp add: cores_some core_def)
  have pos: "(positions am)(n \<mapsto> ai_nRandomPos x) = positions am" using x(1) by (auto simp: positions_def)
  have n: "n \<in> new_set (cores am)" using c by (auto simp: new_set_def)
  have "new_ok (one_extra n) ((cores am)(n \<mapsto> (netaddr x, ai_nRefCount x + 1, False))) (am_vvNew am) (am_nNew am)"
  proof -
    have "ai_nRefCount x = refs (am_vvNew am) n \<and> 1 \<le> ai_nRefCount x" using parts(4) c unfolding new_ok_def by force
    then show ?thesis
      using parts(4) n x(3) unfolding new_ok_def new_set_upd by (simp add: insert_absorb one_extra_def)
  qed
  then show ?thesis
    using parts(1) pos index_upd(1) [OF parts(2) c] tried_ok_new(1) [OF parts(3) c] x(2) unfolding am_ok_def by simp
qed

lemma kept_times:
  assumes "kept_entry am n am'" "times_ok am" shows "times_ok am'"
  unfolding times_ok_def
proof (intro allI impI)
  fix i z assume "am_mapInfo am' i = Some z"
  then obtain old k c where "am_mapInfo am i = Some old" "z = old\<lparr>ai_nRefCount := k, ai_nRandomPos := c\<rparr>"
    using assms(1) unfolding kept_entry_def by blast
  then show "0 \<le> sint (ad_nLastTry z) \<and> 0 \<le> sint (ai_nLastSuccess z) \<and> (ai_fInTried z \<longrightarrow> ai_nLastSuccess z \<noteq> 0)"
    using assms(2) by (auto simp: times_ok_def)
qed

lemma kept_indexed:
  assumes "kept_entry am n am'" "am_mapInfo am n = Some x" "netaddr x = a"
  shows "am_mapAddr am' a = Some n"
proof -
  obtain k c where y: "am_mapInfo am' n = Some (x\<lparr>ai_nRefCount := k, ai_nRandomPos := c\<rparr>)"
    using assms(1,2) unfolding kept_entry_def by auto
  then have "cores am' n = Some (a, k, ai_fInTried x)"
    using assms(3) by (simp add: cores_some core_def netaddr_def CNetAddr.truncate_def)
  then show ?thesis using assms(1) unfolding kept_entry_def am_ok_def index_ok_def by blast
qed

lemma kept_good: "kept_entry am n am' \<Longrightarrow> times_ok am \<Longrightarrow> 0 \<le> am_nIdCount am \<Longrightarrow> am_good am'"
  using kept_times [of am n am'] by (simp add: am_good_def) (simp add: kept_entry_def)

lemma refresh_fields:
  "core (refresh_info x addr t p) = core x" "ai_nRandomPos (refresh_info x addr t p) = ai_nRandomPos x"
  "ad_nLastTry (refresh_info x addr t p) = ad_nLastTry x" "ai_nLastSuccess (refresh_info x addr t p) = ai_nLastSuccess x"
  "ai_fInTried (refresh_info x addr t p) = ai_fInTried x" "ai_nRefCount (refresh_info x addr t p) = ai_nRefCount x"
  "netaddr (refresh_info x addr t p) = netaddr x"
  by (simp_all add: refresh_info_def Let_def netaddr_def CNetAddr.truncate_def)

lemma more_refs_ok: "run_ok (more_refs x addr) (\<lambda>more. more \<longrightarrow> \<not> ai_fInTried x \<and> ai_nRefCount x \<noteq> 4)"
  unfolding more_refs_def Let_def ADDRMAN_NEW_BUCKETS_PER_ADDRESS_def
  by (auto intro!: run_ok_ret run_ok_bind run_ok_GetRand)

lemma netaddr_CAddrInfo_of: "netaddr (CAddrInfo_of addr src) = netaddr addr"
  by (simp add: netaddr_def CAddrInfo_of_def CNetAddr.truncate_def CAddress.defs)

lemma am_Add_ok:
  assumes good: "am_good am"
  shows "run_ok (am_Add E am nNow addr source nTimePenalty) (\<lambda>(fNew, am'). am_good am' \<and>
    (fNew \<longleftrightarrow> IsRoutable addr \<and> Find am addr = None) \<and> (IsRoutable addr \<longrightarrow> am_mapAddr am' (netaddr addr) \<noteq> None))"
proof (cases "IsRoutable addr")
  case False
  with good show ?thesis by (simp add: am_Add_def run_ok_ret)
next
  case True
  have ok: "am_ok (\<lambda>_. 0) am" "times_ok am" "0 \<le> am_nIdCount am" using good by (simp_all add: am_good_def)
  show ?thesis
  proof (cases "Find am addr")
    case (Some p)
    obtain n x where p: "p = (n, x)" by (cases p)
    define y where "y = refresh_info x addr nNow nTimePenalty"
    define am1 where "am1 = set_info n y am"
    have x: "am_mapAddr am (netaddr addr) = Some n" "am_mapInfo am n = Some x" using FindD [of am addr] Some p by blast+
    have nx: "netaddr x = netaddr addr"
    proof -
      have "\<exists>r t. cores am n = Some (netaddr addr, r, t)" using ok(1) x(1) unfolding am_ok_def index_ok_def by blast
      with x(2) show ?thesis by (auto simp: cores_some core_def)
    qed
    have ok1: "am_ok (\<lambda>_. 0) am1" "times_ok am1" "0 \<le> am_nIdCount am1" "am_mapInfo am1 n = Some y" "am_mapAddr am1 = am_mapAddr am"
      using set_info_keeps [OF ok(1) x(2), of y] ok(2,3) x(2)
      by (auto simp: am1_def y_def refresh_fields times_ok_def)
    have eq: "am_Add E am nNow addr source nTimePenalty = bind (more_refs y addr) (\<lambda>more.
        if more then bind (into_new E am1 nNow n source) (\<lambda>am. ret (False, am)) else ret (False, am1))"
      using True Some p unfolding am1_def y_def by (simp add: am_Add_def Let_def)
    show ?thesis
      unfolding eq
    proof (rule run_ok_bind, rule run_ok_weaken [OF more_refs_ok])
      fix more assume m: "more \<longrightarrow> \<not> ai_fInTried y \<and> ai_nRefCount y \<noteq> 4"
      show "run_ok (if more then bind (into_new E am1 nNow n source) (\<lambda>am. ret (False, am)) else ret (False, am1))
        (\<lambda>(fNew, am'). am_good am' \<and> (fNew \<longleftrightarrow> IsRoutable addr \<and> Find am addr = None) \<and>
           (IsRoutable addr \<longrightarrow> am_mapAddr am' (netaddr addr) \<noteq> None))"
      proof (cases more)
        case False
        with ok1 x(1) Some show ?thesis by (simp add: run_ok_ret am_good_def)
      next
        case True
        have "ai_nRefCount y \<le> 4"
        proof -
          have "cores am1 n = Some (core y)" using ok1(4) by (rule cores_some)
          with ok1(1) show ?thesis unfolding am_ok_def new_ok_def core_def by (cases "ai_fInTried y") force+
        qed
        then have more1: "am_ok (one_extra n) (set_info n (y\<lparr>ai_nRefCount := ai_nRefCount y + 1\<rparr>) am1)"
          using one_more [OF ok1(1,4)] m True by simp
        have "run_ok (into_new E am1 nNow n source) (kept_entry am1 n)"
          using into_new_ok [OF ok1(4) _ more1] m True ok1(1) by blast
        then have "run_ok (bind (into_new E am1 nNow n source) (\<lambda>am. ret (False, am)))
          (\<lambda>(fNew, am'). am_good am' \<and> (fNew \<longleftrightarrow> IsRoutable addr \<and> Find am addr = None) \<and>
           (IsRoutable addr \<longrightarrow> am_mapAddr am' (netaddr addr) \<noteq> None))"
        proof (intro run_ok_bind, elim run_ok_weaken)
          fix am' assume k: "kept_entry am1 n am'"
          have "netaddr y = netaddr addr" using nx by (simp add: y_def refresh_fields)
          from kept_indexed [OF k ok1(4) this] kept_good [OF k ok1(2,3)] Some
          show "run_ok (ret (False, am')) (\<lambda>(fNew, am'). am_good am' \<and> (fNew \<longleftrightarrow> IsRoutable addr \<and> Find am addr = None) \<and>
              (IsRoutable addr \<longrightarrow> am_mapAddr am' (netaddr addr) \<noteq> None))" by (simp add: run_ok_ret)
        qed
        with True show ?thesis by simp
      qed
    qed
  next
    case None
    define n where "n = am_nIdCount am"
    define am1 where "am1 = snd (Create am addr source)"
    have c: "Create am addr source = (n, am1)" by (simp add: am1_def Create_def Let_def n_def)
    define x where "x = (CAddrInfo_of addr source)\<lparr>ai_nRandomPos := int (length (am_vRandom am))\<rparr>"
    have x: "am_mapInfo am1 n = Some x" by (simp add: am1_def Create_def Let_def n_def x_def)
    define y where "y = x\<lparr>ad_nTime := word_of_int (max 0 (uint (ad_nTime x) - nTimePenalty))\<rparr>"
    define am2 where "am2 = (set_info n y am1)\<lparr>am_nNew := am_nNew am1 + 1\<rparr>"
    have y: "am_mapInfo am2 n = Some y" by (simp add: am2_def)
    have fy: "ai_fInTried y = False" "ai_nRefCount y = 0" "netaddr y = netaddr addr" "ai_nRandomPos y = int (length (am_vRandom am))"
      "ad_nLastTry y = 0" "ai_nLastSuccess y = 0"
      using netaddr_CAddrInfo_of [of addr source]
      by (simp_all add: y_def x_def CAddrInfo_of_def CAddrInfo.defs CAddress.defs netaddr_def CNetAddr.truncate_def)
    have eq: "am_Add E am nNow addr source nTimePenalty = bind (into_new E am2 nNow n source) (\<lambda>am. ret (True, am))"
      using True None x unfolding am2_def y_def by (simp add: am_Add_def c Let_def)
    have view: "am_nIdCount am2 = n + 1" "am_mapInfo am2 = (am_mapInfo am)(n \<mapsto> y)" "am_mapAddr am2 = (am_mapAddr am)(netaddr addr \<mapsto> n)"
      "am_vRandom am2 = am_vRandom am @ [n]" "am_nNew am2 = am_nNew am + 1" "am_vvNew am2 = am_vvNew am" "am_vvTried am2 = am_vvTried am"
      "am_nTried am2 = am_nTried am"
      by (simp_all add: am2_def am1_def Create_def Let_def n_def)
    have ok2: "am_ok (one_extra n) (set_info n (y\<lparr>ai_nRefCount := ai_nRefCount y + 1\<rparr>) am2)"
      by (rule create_ok [OF ok(1) Find_None [OF ok(1) None] n_def _ _ _ , of "y\<lparr>ai_nRefCount := ai_nRefCount y + 1\<rparr>"])
        (use ok(3) fy in \<open>simp_all add: view n_def [symmetric]\<close>)
    have nb: "n \<notin> am_vvNew am2 ! b" if "b < 256" for b
    proof -
      have "new_ok (\<lambda>_. 0) (cores am) (am_vvNew am) (am_nNew am)" using ok(1) by (simp add: am_ok_def)
      then have "am_vvNew am ! b \<subseteq> new_set (cores am)" using that by (rule new_bucket(3))
      moreover have "n \<notin> new_set (cores am)" using fresh_id [OF ok(1)] by (simp add: new_set_def n_def)
      ultimately show ?thesis by (auto simp: view)
    qed
    have "run_ok (into_new E am2 nNow n source) (kept_entry am2 n)"
      using into_new_ok [OF y _ ok2] fy(1) nb GetNewBucket_less by blast
    then show ?thesis
      unfolding eq
    proof (intro run_ok_bind, elim run_ok_weaken)
      fix am' assume k: "kept_entry am2 n am'"
      have "times_ok am2" using ok(2) fy by (auto simp: times_ok_def view)
      from kept_indexed [OF k y fy(3)] kept_good [OF k this] ok(3) True None
      show "run_ok (ret (True, am')) (\<lambda>(fNew, am'). am_good am' \<and> (fNew \<longleftrightarrow> IsRoutable addr \<and> Find am addr = None) \<and>
          (IsRoutable addr \<longrightarrow> am_mapAddr am' (netaddr addr) \<noteq> None))"
        by (intro run_ok_ret) (simp add: view n_def)
    qed
  qed
qed

end
