(* ===== verification/Addrman_Check.thy ===== *)
theory Addrman_Check
  imports Addrman_Safe
begin

text \<open>
  What holds of the address manager in every state the handlers reach: the code's own
  consistency check finds nothing, the table is bounded, no assertion fails, and the handlers
  come to an end.
\<close>

subsection \<open>Attempts, connections and picking\<close>

lemma am_Attempt_ok:
  assumes "am_good am" "0 \<le> sint nTime" shows "am_good (am_Attempt am addr nTime)"
proof -
  have "am_good (set_info n (x\<lparr>ad_nLastTry := nTime, ai_nAttempts := ai_nAttempts x + 1\<rparr>) am)"
    if x: "am_mapInfo am n = Some x" for n x
    using assms x set_info_keeps [of "\<lambda>_. 0" am n x "x\<lparr>ad_nLastTry := nTime, ai_nAttempts := ai_nAttempts x + 1\<rparr>"]
    by (auto simp: am_good_def times_ok_def)
  with assms(1) show ?thesis by (auto simp: am_Attempt_def dest: FindD split: option.split)
qed

lemma am_Connected_ok:
  assumes "am_good am" shows "am_good (am_Connected am addr nTime)"
proof -
  have "am_good (set_info n (x\<lparr>ad_nTime := ucast nTime\<rparr>) am)" if x: "am_mapInfo am n = Some x" for n x
    using assms x set_info_keeps [of "\<lambda>_. 0" am n x "x\<lparr>ad_nTime := ucast nTime\<rparr>"]
    by (auto simp: am_good_def times_ok_def)
  with assms show ?thesis by (auto simp: am_Connected_def dest: FindD split: option.split)
qed

lemma swapped_good:
  assumes "am_good am" "swapped_ok am p q am'" shows "am_good am'"
proof -
  have f: "am' = am\<lparr>am_mapInfo := am_mapInfo am', am_vRandom := am_vRandom am'\<rparr>" "cores am' = cores am"
    "random_ok (am_vRandom am') (positions am')" "\<forall>i. same_info (am_mapInfo am i) (am_mapInfo am' i)"
    using assms(2) by (simp_all add: swapped_ok_def)
  have parts: "am_nIdCount am' = am_nIdCount am" "am_mapAddr am' = am_mapAddr am" "am_vvTried am' = am_vvTried am"
    "am_nTried am' = am_nTried am" "am_vvNew am' = am_vvNew am" "am_nNew am' = am_nNew am"
    by (subst f(1), simp)+
  have "times_ok am'"
    unfolding times_ok_def
  proof (intro allI impI)
    fix i x assume "am_mapInfo am' i = Some x"
    then have "same_info (Some x) (am_mapInfo am i)" using same_info_sym [OF f(4) [rule_format, of i]] by simp
    then obtain c where "am_mapInfo am i = Some (x\<lparr>ai_nRandomPos := c\<rparr>)" by (rule same_infoD)
    then show "0 \<le> sint (ad_nLastTry x) \<and> 0 \<le> sint (ai_nLastSuccess x) \<and> (ai_fInTried x \<longrightarrow> ai_nLastSuccess x \<noteq> 0)"
      using assms(1) unfolding am_good_def times_ok_def by fastforce
  qed
  with assms(1) f(2,3) show ?thesis by (simp add: am_good_def am_ok_def parts)
qed

text \<open>The addresses picked are those of the ids now at the front of \<open>vRandom\<close>.\<close>

lemma getaddr_loop_ok:
  assumes "am_good am" "m + k \<le> length (am_vRandom am)"
  shows "run_ok (getaddr_loop [m..<m + k] am) (\<lambda>(v, am'). am_good am' \<and> length (am_vRandom am') = length (am_vRandom am) \<and>
    cores am' = cores am \<and> take m (am_vRandom am') = take m (am_vRandom am) \<and>
    list_all2 (\<lambda>info i. \<exists>r t. cores am i = Some (netaddr info, r, t)) v (take k (drop m (am_vRandom am'))))"
  using assms
proof (induction k arbitrary: m am)
  case 0
  then show ?case by (simp add: run_ok_ret)
next
  case (Suc k)
  have upt: "[m..<m + Suc k] = m # [Suc m..<Suc m + k]" by (simp add: upt_conv_Cons)
  have m: "m < length (am_vRandom am)" using Suc.prems(2) by simp
  have step: "run_ok (bind (SwapRandom am (int m) (int (r + m))) (\<lambda>am. bind (lookup_at (am_mapInfo am) (am_vRandom am ! m)) (\<lambda>info.
      bind (getaddr_loop [Suc m..<Suc m + k] am) (\<lambda>(vAddr, am). ret (info # vAddr, am)))))
     (\<lambda>(v, am'). am_good am' \<and> length (am_vRandom am') = length (am_vRandom am) \<and>
    cores am' = cores am \<and> take m (am_vRandom am') = take m (am_vRandom am) \<and>
    list_all2 (\<lambda>info i. \<exists>r t. cores am i = Some (netaddr info, r, t)) v (take (Suc k) (drop m (am_vRandom am'))))"
    if r: "r < length (am_vRandom am) - m" for r
  proof -
    have ok: "random_ok (am_vRandom am) (positions am)" using Suc.prems(1) by (simp add: am_good_def am_ok_def)
    obtain am1 where am1: "SwapRandom am (int m) (int (r + m)) = ret am1" "swapped_ok am (int m) (int (r + m)) am1"
      by (rule SwapRandom_ok [OF ok, of "int m" "int (r + m)"]) (use r m in linarith)+
    have good1: "am_good am1" by (rule swapped_good [OF Suc.prems(1) am1(2)])
    have f: "cores am1 = cores am" "length (am_vRandom am1) = length (am_vRandom am)"
      "\<forall>k < length (am_vRandom am). k \<noteq> m \<longrightarrow> k \<noteq> r + m \<longrightarrow> am_vRandom am1 ! k = am_vRandom am ! k"
      using am1(2) unfolding swapped_ok_def by simp_all
    have tk: "take m (am_vRandom am1) = take m (am_vRandom am)"
      using f m by (intro nth_equalityI) auto
    have "am_vRandom am1 ! m \<in> dom (cores am1)"
      using random_ids [of am1] good1 f(2) m nth_mem by (auto simp: am_good_def am_ok_def)
    then obtain info where info: "am_mapInfo am1 (am_vRandom am1 ! m) = Some info" by (auto dest: cores_domD)
    have "Suc m + k \<le> length (am_vRandom am1)" using Suc.prems(2) f(2) by simp
    note IH = Suc.IH [OF good1 this]
    have "run_ok (bind (getaddr_loop [Suc m..<Suc m + k] am1) (\<lambda>(vAddr, am). ret (info # vAddr, am)))
      (\<lambda>(v, am'). am_good am' \<and> length (am_vRandom am') = length (am_vRandom am) \<and>
        cores am' = cores am \<and> take m (am_vRandom am') = take m (am_vRandom am) \<and>
        list_all2 (\<lambda>info i. \<exists>r t. cores am i = Some (netaddr info, r, t)) v (take (Suc k) (drop m (am_vRandom am'))))"
    proof (rule run_ok_bind, rule run_ok_weaken [OF IH], clarify)
      fix v :: "CAddrInfo list" and am'
      assume a: "am_good am'" "length (am_vRandom am') = length (am_vRandom am1)" "cores am' = cores am1"
        "take (Suc m) (am_vRandom am') = take (Suc m) (am_vRandom am1)"
        "list_all2 (\<lambda>info i. \<exists>r t. cores am1 i = Some (netaddr info, r, t)) v (take k (drop (Suc m) (am_vRandom am')))"
      have lt: "m < length (am_vRandom am')" using a(2) f(2) m by simp
      have tk': "take m (am_vRandom am') = take m (am_vRandom am1)" using arg_cong [OF a(4), of "take m"] by simp
      have nth: "am_vRandom am' ! m = am_vRandom am1 ! m"
        using arg_cong [OF a(4), of "\<lambda>xs. xs ! m"] by simp
      have "take (Suc k) (drop m (am_vRandom am')) = am_vRandom am1 ! m # take k (drop (Suc m) (am_vRandom am'))"
        using lt nth by (simp add: Cons_nth_drop_Suc [symmetric])
      moreover have "cores am (am_vRandom am1 ! m) = Some (netaddr info, ai_nRefCount info, ai_fInTried info)"
        using cores_some [OF info] f(1) by (simp add: core_def)
      ultimately show "run_ok (ret (info # v, am')) (\<lambda>(v, am'). am_good am' \<and> length (am_vRandom am') = length (am_vRandom am) \<and>
        cores am' = cores am \<and> take m (am_vRandom am') = take m (am_vRandom am) \<and>
        list_all2 (\<lambda>info i. \<exists>r t. cores am i = Some (netaddr info, r, t)) v (take (Suc k) (drop m (am_vRandom am'))))"
        using a f(1,2) tk tk' by (intro run_ok_ret) simp
    qed
    with am1(1) info show ?thesis by simp
  qed
  have "0 < length (am_vRandom am) - m" using m by simp
  then show ?case unfolding upt getaddr_loop.simps
    by (intro run_ok_bind [OF run_ok_GetRand] step)
qed

lemma am_GetAddr_ok:
  assumes "am_good am"
  shows "run_ok (am_GetAddr am) (\<lambda>(v, am'). am_good am' \<and> cores am' = cores am \<and>
    length v = min 2500 (23 * length (am_vRandom am) div 100) \<and> distinct (map netaddr v) \<and>
    (\<forall>info \<in> set v. am_mapAddr am (netaddr info) \<noteq> None))"
proof -
  define N where "N = min 2500 (23 * length (am_vRandom am) div 100)"
  have le: "0 + N \<le> length (am_vRandom am)" by (simp add: N_def)
  have "run_ok (getaddr_loop [0..<N] am) (\<lambda>(v, am'). am_good am' \<and> cores am' = cores am \<and>
    length v = N \<and> distinct (map netaddr v) \<and> (\<forall>info \<in> set v. am_mapAddr am (netaddr info) \<noteq> None))"
  proof (rule run_ok_weaken [OF getaddr_loop_ok [OF assms le, unfolded add_0]], clarify)
    fix v :: "CAddrInfo list" and am'
    assume a: "am_good am'" "length (am_vRandom am') = length (am_vRandom am)" "cores am' = cores am"
      "list_all2 (\<lambda>info i. \<exists>r t. cores am i = Some (netaddr info, r, t)) v (take N (drop 0 (am_vRandom am')))"
    have ix: "cores am i = Some (b, r, t) \<Longrightarrow> am_mapAddr am b = Some i" for i b r t
      using assms unfolding am_good_def am_ok_def index_ok_def by blast
    have "list_all2 (\<lambda>info i. am_mapAddr am (netaddr info) = Some i) v (take N (am_vRandom am'))"
      using a(4) by (auto elim!: list_all2_mono dest: ix)
    then have m: "map (\<lambda>info. am_mapAddr am (netaddr info)) v = map Some (take N (am_vRandom am'))"
      by (induction rule: list_all2_induct) auto
    have "distinct (am_vRandom am')" using a(1) by (simp add: am_good_def am_ok_def random_ok_def)
    then have "distinct (map (\<lambda>info. am_mapAddr am (netaddr info)) v)"
      unfolding m by (simp add: distinct_map inj_on_def)
    then have "distinct (map netaddr v)" by (auto simp: distinct_map inj_on_def)
    moreover have "\<forall>info \<in> set v. am_mapAddr am (netaddr info) \<noteq> None"
    proof
      fix info assume "info \<in> set v"
      then have "am_mapAddr am (netaddr info) \<in> set (map Some (take N (am_vRandom am')))" unfolding m [symmetric] by simp
      then show "am_mapAddr am (netaddr info) \<noteq> None" by auto
    qed
    moreover have "length v = N" using list_all2_lengthD [OF a(4)] a(2) by (simp add: N_def)
    ultimately show "length v = N \<and> distinct (map netaddr v) \<and>
      (\<forall>info \<in> set v. am_mapAddr am (netaddr info) \<noteq> None)" by simp
  qed
  moreover have "am_GetAddr am = getaddr_loop [0..<N] am"
    by (simp add: am_GetAddr_def N_def Let_def ADDRMAN_GETADDR_MAX_PCT_def ADDRMAN_GETADDR_MAX_def min_def)
  ultimately show ?thesis by (simp add: N_def)
qed

subsection \<open>The consistency check of the code\<close>

lemma use_tried_all: "mset xs = mset_set S \<Longrightarrow> finite S \<Longrightarrow> use_tried_ids xs S = Some {}"
proof (induction xs arbitrary: S)
  case Nil
  then have "S = {}" by (metis mset.simps(1) mset_set_empty_iff)
  then show ?case by simp
next
  case (Cons x xs)
  have "x \<in># mset_set S" unfolding Cons.prems(1) [symmetric] by simp
  then have x: "x \<in> S" using Cons.prems(2) by simp
  have "add_mset x (mset xs) = add_mset x (mset_set (S - {x}))"
    using Cons.prems mset_set.remove [OF Cons.prems(2) x] by simp
  then have "mset xs = mset_set (S - {x})" by simp
  with Cons x show ?case by simp
qed

lemma use_refs_all:
  "(\<And>i k. M i = Some k \<Longrightarrow> k = int (count (mset xs) i) \<and> 1 \<le> k) \<Longrightarrow> (\<And>i. i \<in> set xs \<Longrightarrow> M i \<noteq> None) \<Longrightarrow>
    use_refs xs M = Some Map.empty"
proof (induction xs arbitrary: M)
  case Nil
  have "M i = None" for i using Nil(1) [of i] by (cases "M i") auto
  then show ?case by (simp add: fun_eq_iff)
next
  case (Cons x xs)
  obtain k where k: "M x = Some k" using Cons.prems(2) [of x] by auto
  have kx: "k = int (count (mset xs) x) + 1" using Cons.prems(1) [OF k] by simp
  define M' where "M' = (if k - 1 = 0 then M(x := None) else M(x \<mapsto> k - 1))"
  have "use_refs xs M' = Some Map.empty"
  proof (rule Cons.IH)
    fix i j assume "M' i = Some j"
    then show "j = int (count (mset xs) i) \<and> 1 \<le> j"
      using Cons.prems(1) [of i j] kx by (cases "i = x") (auto simp: M'_def split: if_splits)
  next
    fix i assume i: "i \<in> set xs"
    then show "M' i \<noteq> None"
      using Cons.prems(2) [of i] kx by (cases "i = x") (auto simp: M'_def)
  qed
  then show ?case using k by (simp add: M'_def)
qed

lemma count_sorted: "finite s \<Longrightarrow> count (mset (sorted_list_of_set s)) i = of_bool (i \<in> s)"
  using distinct_count_atmost_1 [of "sorted_list_of_set s"] by auto

lemma count_buckets: "(\<forall>s \<in> set vv. finite s) \<Longrightarrow> int (count (mset (concat (map sorted_list_of_set vv))) i) = refs vv i"
  by (induction vv) (auto simp: refs_def count_sorted)

lemma am_ids_facts:
  assumes "index_ok (cores am) (am_nIdCount am) (am_mapAddr am)"
  shows "distinct (am_ids am)" "set (am_ids am) = dom (cores am)"
proof -
  have "am_mapInfo am i = None \<longleftrightarrow> cores am i = None" for i by (simp add: cores_def)
  moreover have "cores am i \<noteq> None \<Longrightarrow> 0 \<le> i \<and> i < am_nIdCount am" for i
    using assms unfolding index_ok_def by (metis not_None_eq prod_cases3)
  ultimately show "set (am_ids am) = dom (cores am)" by (fastforce simp: am_ids_def dom_def)
  show "distinct (am_ids am)" by (simp add: am_ids_def)
qed

lemma ids_split: "dom C = tried_set C \<union> new_set C" "tried_set C \<inter> new_set C = {}"
  by (auto simp: tried_set_def new_set_def)

lemma vRandom_length:
  assumes "am_ok X am" shows "int (length (am_vRandom am)) = am_nTried am + am_nNew am"
proof -
  have r: "random_ok (am_vRandom am) (positions am)" using assms by (simp add: am_ok_def)
  then have "length (am_vRandom am) = card (dom (cores am))"
    using random_ids [OF r] by (metis distinct_card random_ok_def)
  also have "\<dots> = card (tried_set (cores am)) + card (new_set (cores am))"
    using new_finite [OF ids_finite [OF r]] unfolding ids_split(1) by (intro card_Un_disjoint) (auto simp: ids_split(2))
  finally show ?thesis using assms by (simp add: am_ok_def tried_ok_def new_ok_def)
qed

lemma sum_bound: "(\<forall>x \<in> set xs. length x \<le> b) \<Longrightarrow> length (concat xs) \<le> b * length xs"
  by (induction xs) auto

lemma am_size:
  assumes "am_ok (\<lambda>_. 0) am" shows "am_nTried am \<le> 64 * 64" "am_nNew am \<le> 256 * 64"
proof -
  have fin: "finite (tried_set (cores am))" "finite (new_set (cores am))"
    using new_finite [OF ids_finite] assms by (auto simp: am_ok_def)
  have t: "tried_ok (cores am) (am_vvTried am) (am_nTried am)" and n: "new_ok (\<lambda>_. 0) (cores am) (am_vvNew am) (am_nNew am)"
    using assms by (simp_all add: am_ok_def)
  have "card (tried_set (cores am)) = length (concat (am_vvTried am))"
    using t by (metis size_mset size_mset_set tried_ok_def)
  also have "\<dots> \<le> 64 * 64" using sum_bound [of "am_vvTried am" 64] t by (simp add: tried_ok_def)
  finally show "am_nTried am \<le> 64 * 64" using t by (simp add: tried_ok_def)
  have "new_set (cores am) \<subseteq> set (concat (map sorted_list_of_set (am_vvNew am)))"
  proof
    fix i assume "i \<in> new_set (cores am)"
    then obtain a r where "cores am i = Some (a, r, False)" by (auto simp: new_set_def)
    then have "refs (am_vvNew am) i \<noteq> 0" using n unfolding new_ok_def by force
    then show "i \<in> set (concat (map sorted_list_of_set (am_vvNew am)))"
      using n by (auto simp: refs_zero new_ok_def)
  qed
  then have "card (new_set (cores am)) \<le> length (concat (map sorted_list_of_set (am_vvNew am)))"
    by (meson List.finite_set card_length card_mono le_trans)
  also have "\<dots> \<le> 64 * 256"
    using sum_bound [of "map sorted_list_of_set (am_vvNew am)" 64] n by (auto simp: new_ok_def)
  finally show "am_nNew am \<le> 256 * 64" using n by (simp add: new_ok_def)
qed

lemma check_entry_ok:
  assumes "am_good am" shows "check_entry am n = 0"
proof (cases "am_mapInfo am n")
  case (Some info)
  have ok: "random_ok (am_vRandom am) (positions am)" "index_ok (cores am) (am_nIdCount am) (am_mapAddr am)"
    "new_ok (\<lambda>_. 0) (cores am) (am_vvNew am) (am_nNew am)" "times_ok am"
    using assms by (simp_all add: am_good_def am_ok_def)
  have c: "cores am n = Some (netaddr info, ai_nRefCount info, ai_fInTried info)" using Some by (simp add: cores_some core_def)
  have "am_mapAddr am (netaddr info) = Some n" using ok(2) c unfolding index_ok_def by blast
  moreover have "0 \<le> ai_nRandomPos info \<and> ai_nRandomPos info < int (length (am_vRandom am)) \<and> am_vRandom am ! nat (ai_nRandomPos info) = n"
  proof -
    have "positions am n = Some (ai_nRandomPos info)" using Some by (simp add: positions_def)
    with ok(1) show ?thesis unfolding random_ok_def by blast
  qed
  moreover have "if ai_fInTried info then ai_nRefCount info = 0 else 1 \<le> ai_nRefCount info \<and> ai_nRefCount info \<le> 4"
    using ok(3) c unfolding new_ok_def by blast
  moreover have "0 \<le> sint (ad_nLastTry info) \<and> 0 \<le> sint (ai_nLastSuccess info) \<and> (ai_fInTried info \<longrightarrow> ai_nLastSuccess info \<noteq> 0)"
    using ok(4) Some by (simp add: times_ok_def)
  ultimately show ?thesis using Some by (auto simp: ADDRMAN_NEW_BUCKETS_PER_ADDRESS_def split: if_splits)
qed simp

lemma first_error_zero: "(\<forall>x \<in> set xs. f x = 0) \<Longrightarrow> first_error (map f xs) = 0"
  by (induction xs) auto

lemma am_Check_ok:
  assumes "am_good am" shows "am_Check am = 0"
proof -
  have ok: "random_ok (am_vRandom am) (positions am)" "index_ok (cores am) (am_nIdCount am) (am_mapAddr am)"
    "tried_ok (cores am) (am_vvTried am) (am_nTried am)" "new_ok (\<lambda>_. 0) (cores am) (am_vvNew am) (am_nNew am)"
    using assms by (simp_all add: am_good_def am_ok_def)
  define tried where "tried = (\<lambda>n. case am_mapInfo am n of None \<Rightarrow> False | Some info \<Rightarrow> ai_fInTried info)"
  have t: "set (filter tried (am_ids am)) = tried_set (cores am)" "set (filter (\<lambda>n. \<not> tried n) (am_ids am)) = new_set (cores am)"
    by (auto simp: am_ids_facts(2) [OF ok(2)] tried_def tried_set_def new_set_def cores_def core_def)
  have len: "length (filter (\<lambda>n. \<not> tried n) (am_ids am)) = card (new_set (cores am))"
    using am_ids_facts(1) [OF ok(2)] t(2) by (metis distinct_card distinct_filter)
  define M where "M = (\<lambda>n. if n \<in> new_set (cores am) then map_option ai_nRefCount (am_mapInfo am n) else None)"
  have fin: "finite (tried_set (cores am))" "\<forall>s \<in> set (am_vvNew am). finite s"
    using new_finite [OF ids_finite [OF ok(1)]] ok(4) by (auto simp: new_ok_def)
  have "use_refs (concat (map sorted_list_of_set (am_vvNew am))) M = Some Map.empty"
  proof (rule use_refs_all)
    fix i k assume k: "M i = Some k"
    then obtain info where "am_mapInfo am i = Some info" "k = ai_nRefCount info" "i \<in> new_set (cores am)"
      by (auto simp: M_def split: if_splits)
    moreover from this have "\<not> ai_fInTried info" by (auto simp: new_set_def cores_def core_def)
    ultimately have c: "cores am i = Some (netaddr info, k, False)" by (simp add: cores_some core_def)
    show "k = int (count (mset (concat (map sorted_list_of_set (am_vvNew am)))) i) \<and> 1 \<le> k"
      unfolding count_buckets [OF fin(2)] using ok(4) c unfolding new_ok_def by force
  next
    fix i assume "i \<in> set (concat (map sorted_list_of_set (am_vvNew am)))"
    then have "i \<in> new_set (cores am)" using fin(2) ok(4) by (auto simp: new_ok_def)
    then show "M i \<noteq> None" using new_set_info [of i am] by (auto simp: M_def)
  qed
  moreover have "use_tried_ids (concat (am_vvTried am)) (tried_set (cores am)) = Some {}"
    using use_tried_all ok(3) fin(1) by (simp add: tried_ok_def)
  moreover have "first_error (map (check_entry am) (am_ids am)) = 0"
    by (rule first_error_zero) (simp add: check_entry_ok [OF assms] del: check_entry.simps)
  moreover have "int (length (am_vRandom am)) = am_nTried am + am_nNew am"
    by (rule vRandom_length [of "\<lambda>_. 0"]) (use assms in \<open>simp add: am_good_def\<close>)
  moreover have "am_nTried am = int (card (tried_set (cores am)))" "am_nNew am = int (card (new_set (cores am)))"
    using ok(3,4) by (simp_all add: tried_ok_def new_ok_def)
  ultimately show ?thesis
    unfolding am_Check_def Let_def tried_def [symmetric] t len M_def [symmetric]
    by (simp add: list_ex_iff)
qed

end
