(* ===== verification/Addrman_Draws.thy ===== *)
theory Addrman_Draws
  imports Addrman_Check
begin

text \<open>
  The handlers of the address manager come to an end: how many random values each of them uses
  up. Then the states that the handlers reach, and what holds in all of them.
\<close>

subsection \<open>Values used up by each step\<close>

lemma draws_bind_ok:
  assumes "draws_suffice a m" "run_ok m Q" "\<And>x. Q x \<Longrightarrow> draws_suffice b (f x)"
  shows "draws_suffice (a + b) (bind m f)"
proof -
  define g where "g x = (if Q x then f x else (\<lambda>_. Failed))" for x
  have "draws_suffice (a + b) (bind m g)"
    by (rule draws_bind [OF assms(1)]) (simp add: g_def assms(3), simp add: draws_suffice_def)
  moreover have "bind m g = bind m f"
    using run_ok_done [OF assms(2)] by (auto simp: fun_eq_iff bind_def g_def split: run.split)
  ultimately show ?thesis by simp
qed

lemma draws_then_ret: "draws_suffice a m \<Longrightarrow> draws_suffice a (bind m (\<lambda>x. ret (f x)))"
  using draws_bind [of a m 0 "\<lambda>x. ret (f x)"] by (simp add: draws_ret)

lemma draws_then_snd: "draws_suffice a m \<Longrightarrow> draws_suffice a (bind m (\<lambda>(_, x). ret x))"
  using draws_bind [of a m 0 "\<lambda>(_, x). ret x"] by (simp add: draws_ret split_beta)

lemma draws_then_pair: "draws_suffice a m \<Longrightarrow> draws_suffice a (bind m (\<lambda>(x, y). ret (f x y)))"
  using draws_bind [of a m 0 "\<lambda>(x, y). ret (f x y)"] by (simp add: draws_ret split_beta)

lemma draws_first: "draws_suffice 0 m \<Longrightarrow> (\<And>x. draws_suffice b (f x)) \<Longrightarrow> draws_suffice b (bind m f)"
  using draws_bind [of 0 m b f] by simp

lemma draws_ret': "draws_suffice k (ret x)"
  by (rule draws_weaken [OF draws_ret]) simp

lemma draws_swap: "draws_suffice 0 (SwapRandom am p q)"
  unfolding SwapRandom_def Let_def
  by (auto intro!: draws_ret draws_first draws_check draws_lookup)

lemma draws_drop: "draws_suffice 0 (drop_ref am b i)"
  unfolding drop_ref_def Let_def
  by (auto intro!: draws_ret draws_first draws_lookup draws_swap)

lemma draws_terrible: "draws_suffice 0 (first_terrible m t is)"
  by (induction "is") (auto intro!: draws_ret draws_first draws_lookup)

lemma draws_oldest: "draws_suffice 0 (oldest_new m n its k)"
  by (induction m n its k rule: oldest_new.induct) (auto intro!: draws_ret draws_first draws_lookup)

lemma draws_shrink:
  assumes "card (am_vvNew am ! b) \<le> 64" shows "draws_suffice 4 (ShrinkNew am t b)"
proof -
  let ?m = "length (sorted_list_of_set (am_vvNew am ! b))"
  have "?m \<le> 2 ^ 63" using assms by simp
  note g = draws_GetRand [OF this]
  have "draws_suffice (1 + (1 + (1 + (1 + 0)))) (bind (GetRand ?m) (\<lambda>n0. bind (GetRand ?m) (\<lambda>n1.
              bind (GetRand ?m) (\<lambda>n2. bind (GetRand ?m) (\<lambda>n3.
              bind (oldest_new (am_mapInfo am) {n0, n1, n2, n3} (zip [0..<?m] (sorted_list_of_set (am_vvNew am ! b))) (-1)) (\<lambda>nOldest.
              bind (drop_ref am b nOldest) (\<lambda>am. ret (1::nat, am))))))))"
    by (intro draws_bind [OF g] draws_first [OF draws_oldest] draws_then_ret draws_drop)
  from draws_weaken [OF this, of 4]
  have four: "draws_suffice 4 (bind (GetRand ?m) (\<lambda>n0. bind (GetRand ?m) (\<lambda>n1.
              bind (GetRand ?m) (\<lambda>n2. bind (GetRand ?m) (\<lambda>n3.
              bind (oldest_new (am_mapInfo am) {n0, n1, n2, n3} (zip [0..<?m] (sorted_list_of_set (am_vvNew am ! b))) (-1)) (\<lambda>nOldest.
              bind (drop_ref am b nOldest) (\<lambda>am. ret (1::nat, am))))))))" by simp
  show ?thesis
    unfolding ShrinkNew_def Let_def
    by (intro draws_first [OF draws_check] draws_first [OF draws_terrible])
      (use four in \<open>auto simp del: One_nat_def split: option.split intro!: draws_then_ret draws_weaken [OF draws_drop]\<close>)
qed

lemma draws_into:
  assumes "\<And>b. b < 256 \<Longrightarrow> card (am_vvNew am ! b) \<le> 64" shows "draws_suffice 4 (into_new E am t n src)"
  unfolding into_new_def Let_def
  by (intro draws_first [OF draws_lookup])
    (auto simp: ADDRMAN_NEW_BUCKET_SIZE_def intro!: draws_ret' draws_then_ret draws_then_snd draws_shrink assms GetNewBucket_less)

lemma draws_more:
  assumes "ai_nRefCount x \<le> 4" shows "draws_suffice 1 (more_refs x addr)"
proof -
  have "(2::nat) ^ nat (ai_nRefCount x) \<le> 2 ^ 63" using assms by (intro power_increasing) auto
  note g = draws_then_ret [OF draws_GetRand [OF this]]
  show ?thesis unfolding more_refs_def Let_def by (auto simp del: One_nat_def intro: draws_ret' g)
qed

lemma draws_select:
  "length v \<le> 2 ^ 63 \<Longrightarrow> draws_suffice (length is) (select_tried_loop m is v old p)"
proof (induction m "is" v old p rule: select_tried_loop.induct)
  case (2 m i "is" v old p)
  have "length v - i \<le> 2 ^ 63" using 2(4) by simp
  have "draws_suffice (1 + length is) (select_tried_loop m (i # is) v old p)"
    unfolding select_tried_loop.simps
    by (rule draws_bind [OF draws_GetRand [OF \<open>length v - i \<le> 2 ^ 63\<close>]])
      (use 2 in \<open>auto simp: Let_def intro!: draws_first draws_lookup\<close>)
  then show ?case by simp
qed (simp add: draws_ret)

lemma draws_SelectTried:
  assumes "length (am_vvTried am ! k) \<le> 64" shows "draws_suffice 4 (SelectTried am k)"
proof -
  have "draws_suffice (length [0..<min 4 (length (am_vvTried am ! k))])
    (select_tried_loop (am_mapInfo am) [0..<min 4 (length (am_vvTried am ! k))] (am_vvTried am ! k) (-1) (-1))"
    using assms by (intro draws_select) simp
  then have "draws_suffice 4
    (select_tried_loop (am_mapInfo am) [0..<min 4 (length (am_vvTried am ! k))] (am_vvTried am ! k) (-1) (-1))"
    by (rule draws_weaken) simp
  then show ?thesis
    unfolding SelectTried_def Let_def ADDRMAN_TRIED_ENTRIES_INSPECT_ON_EVICT_def
    by (rule draws_weaken [OF draws_bind [where b = 0]]) (auto intro: draws_ret)
qed

lemma draws_MakeTried:
  assumes "\<And>k. k < 64 \<Longrightarrow> length (am_vvTried am ! k) \<le> 64" shows "draws_suffice 4 (MakeTried E am n x b)"
proof -
  obtain am1 x1 where l: "leave_new am n x = (am1, x1)" by (cases "leave_new am n x")
  then have same: "am_vvTried am1 = am_vvTried am" by (auto simp: leave_new_def Let_def)
  have "draws_suffice (4 + 0) (evict_tried E am1 n x1 b k)" if "k < 64" for k
    unfolding evict_tried_def Let_def
    by (rule draws_bind [OF draws_SelectTried]) (use assms [OF that] same in \<open>auto intro!: draws_first draws_check draws_lookup draws_ret\<close>)
  then show ?thesis
    unfolding MakeTried_def Let_def l
    by (auto intro!: draws_first [OF draws_check] draws_ret' GetTriedBucket_less)
qed

subsection \<open>Values used up by the handlers\<close>

lemma good_buckets:
  assumes "am_good am"
  shows "\<And>k. k < 64 \<Longrightarrow> length (am_vvTried am ! k) \<le> 64" "\<And>b. b < 256 \<Longrightarrow> card (am_vvNew am ! b) \<le> 64"
    "length (am_vvNew am) = 256"
  using assms new_bucket(2) [of "\<lambda>_. 0" "cores am" "am_vvNew am" "am_nNew am"]
  by (auto simp: am_good_def am_ok_def tried_ok_def new_ok_def)

lemma draws_Good:
  assumes "am_good am" shows "draws_suffice 5 (am_Good E am addr t)"
proof -
  note b = good_buckets [OF assms]
  have g: "draws_suffice 5 (bind (GetRand (length (am_vvNew am))) f)" if "\<And>x. draws_suffice 4 (f x)" for f :: "nat \<Rightarrow> CAddrMan rand"
    using draws_bind [OF draws_GetRand [of "length (am_vvNew am)"] that] b(3) by simp
  have m: "draws_suffice 4 (case found of None \<Rightarrow> ret (set_info n x am) | Some k \<Rightarrow> MakeTried E (set_info n x am) n x k)" for found n x
    by (cases found) (auto intro!: draws_ret' draws_MakeTried b(1))
  have split: "draws_suffice 5 (if c then a else b)" if "draws_suffice 5 a" "draws_suffice 5 b" for c and a b :: "CAddrMan rand"
    using that by simp
  show ?thesis
  proof (cases "Find am addr")
    case (Some p)
    obtain n x where p: "p = (n, x)" by (cases p)
    show ?thesis
      unfolding am_Good_def Some option.case p prod.case
      unfolding Let_def views_set_info
      by (intro split draws_ret' g m)
  qed (simp add: am_Good_def draws_ret')
qed

lemma draws_Add:
  assumes "am_good am" shows "draws_suffice 5 (am_Add E am t addr src pen)"
proof -
  note b = good_buckets [OF assms]
  have le4: "ai_nRefCount x \<le> 4" if "am_mapInfo am n = Some x" for n x
  proof -
    have "new_ok (\<lambda>_. 0) (cores am) (am_vvNew am) (am_nNew am)" using assms by (simp add: am_good_def am_ok_def)
    moreover have "cores am n = Some (netaddr x, ai_nRefCount x, ai_fInTried x)" using that by (simp add: cores_some core_def)
    ultimately have "if ai_fInTried x then ai_nRefCount x = 0 else 1 \<le> ai_nRefCount x \<and> ai_nRefCount x \<le> 4"
      unfolding new_ok_def by blast
    then show ?thesis by (simp split: if_splits)
  qed
  have known: "draws_suffice (1 + 4) (bind (more_refs (refresh_info x addr t pen) addr) (\<lambda>more.
     if more then bind (into_new E (set_info n (refresh_info x addr t pen) am) t n src) (\<lambda>am. ret (False, am))
     else ret (False, set_info n (refresh_info x addr t pen) am)))" if "Find am addr = Some (n, x)" for n x
  proof (rule draws_bind)
    show "draws_suffice 1 (more_refs (refresh_info x addr t pen) addr)"
      using le4 [of n x] FindD [OF that] by (intro draws_more) (auto simp: refresh_fields)
  qed (auto intro!: draws_ret' draws_then_ret draws_into b(2))
  have fresh: "draws_suffice 4 (bind (lookup_at (am_mapInfo am') n) (\<lambda>info.
      bind (into_new E ((set_info n (f info) am')\<lparr>am_nNew := am_nNew am' + 1\<rparr>) t n src) (\<lambda>am. ret (True, am))))"
    if "am_vvNew am' = am_vvNew am" for am' n f
    using b(2) that by (intro draws_first [OF draws_lookup] draws_then_ret draws_into) simp
  have nnew: "am_nNew (set_info n x am') = am_nNew am'" for n x am' by simp
  have made: "am_vvNew (snd (Create am addr src)) = am_vvNew am" by (simp add: Create_def Let_def)
  show ?thesis
    unfolding am_Add_def Let_def
    using known draws_weaken [OF fresh [OF made], of 5] nnew
    by (auto intro: draws_ret' split: option.split prod.split)
qed

text \<open>A vector of addresses, and the addresses for a peer.\<close>

lemma am_Add_all_ok:
  "am_good am \<Longrightarrow> run_ok (am_Add_all E am t vAddr src pen) (\<lambda>(n, am'). am_good am' \<and> n \<le> length vAddr)"
proof (induction E am t vAddr src pen rule: am_Add_all.induct)
  case (2 E am t addr vAddr src pen)
  show ?case
    unfolding am_Add_all.simps
  proof (rule run_ok_bind, rule run_ok_weaken [OF am_Add_ok [OF 2(2)]], clarify)
    fix fNew am' assume g: "am_good am'"
    show "run_ok (bind (am_Add_all E am' t vAddr src pen) (\<lambda>(nAdd, am). ret ((if fNew then 1 else 0) + nAdd, am)))
        (\<lambda>(n, am'). am_good am' \<and> n \<le> length (addr # vAddr))"
      by (rule run_ok_bind, rule run_ok_weaken [OF 2(1) [OF g]]) (auto intro!: run_ok_ret)
  qed
qed (simp add: run_ok_ret)

lemma draws_Add_all: "am_good am \<Longrightarrow> draws_suffice (5 * length vAddr) (am_Add_all E am t vAddr src pen)"
proof (induction E am t vAddr src pen rule: am_Add_all.induct)
  case (2 E am t addr vAddr src pen)
  have "draws_suffice (5 + 5 * length vAddr) (am_Add_all E am t (addr # vAddr) src pen)"
    unfolding am_Add_all.simps
  proof (rule draws_bind_ok [OF draws_Add [OF 2(2)] am_Add_ok [OF 2(2)]], clarify)
    fix fNew am' assume g: "am_good am'"
    show "draws_suffice (5 * length vAddr) (bind (am_Add_all E am' t vAddr src pen)
        (\<lambda>(nAdd, am). ret ((if fNew then 1 else 0) + nAdd, am)))"
      by (rule draws_then_pair [OF 2(1) [OF g]])
  qed
  then show ?case by simp
qed (simp add: draws_ret)

lemma draws_getaddr:
  assumes "am_good am" "m + k \<le> length (am_vRandom am)"
  shows "draws_suffice k (getaddr_loop [m..<m + k] am)"
  using assms
proof (induction k arbitrary: m am)
  case (Suc k)
  have upt: "[m..<m + Suc k] = m # [Suc m..<Suc m + k]" by (simp add: upt_conv_Cons)
  have ok: "am_ok (\<lambda>_. 0) am" "random_ok (am_vRandom am) (positions am)" using Suc.prems(1) by (simp_all add: am_good_def am_ok_def)
  have "length (am_vRandom am) - m \<le> 2 ^ 63"
    using vRandom_length [OF ok(1)] am_size [OF ok(1)] by simp
  note g = draws_GetRand [OF this]
  have m: "0 < length (am_vRandom am) - m" using Suc.prems(2) by simp
  have "draws_suffice (1 + k) (getaddr_loop [m..<m + Suc k] am)"
    unfolding upt getaddr_loop.simps
  proof (rule draws_bind_ok [OF g run_ok_GetRand [OF m, of "\<lambda>r. r < length (am_vRandom am) - m"]])
    fix r assume r: "r < length (am_vRandom am) - m"
    obtain am1 where am1: "SwapRandom am (int m) (int (r + m)) = ret am1" "swapped_ok am (int m) (int (r + m)) am1"
      by (rule SwapRandom_ok [OF ok(2), of "int m" "int (r + m)"]) (use r m in linarith)+
    have good1: "am_good am1" by (rule swapped_good [OF Suc.prems(1) am1(2)])
    have "length (am_vRandom am1) = length (am_vRandom am)" using am1(2) by (simp add: swapped_ok_def)
    then have "Suc m + k \<le> length (am_vRandom am1)" using Suc.prems(2) by simp
    note draws_then_pair [OF Suc.IH [OF good1 this]]
    then have "draws_suffice k (bind (getaddr_loop [Suc m..<Suc m + k] am1) (\<lambda>(v, am). ret (info # v, am)))" for info .
    then show "draws_suffice k (bind (SwapRandom am (int m) (int (r + m))) (\<lambda>am. bind (lookup_at (am_mapInfo am) (am_vRandom am ! m)) (\<lambda>info.
      bind (getaddr_loop [Suc m..<Suc m + k] am) (\<lambda>(vAddr, am). ret (info # vAddr, am)))))"
      unfolding am1(1) bind_ret by (intro draws_first [OF draws_lookup])
  qed simp
  then show ?case by simp
qed (simp add: draws_ret')

lemma draws_GetAddr:
  assumes "am_good am" shows "draws_suffice 2500 (am_GetAddr am)"
proof -
  define N where "N = min 2500 (23 * length (am_vRandom am) div 100)"
  have "draws_suffice N (getaddr_loop [0..<0 + N] am)" by (rule draws_getaddr [OF assms]) (simp add: N_def)
  moreover have "am_GetAddr am = getaddr_loop [0..<0 + N] am"
    by (simp add: am_GetAddr_def N_def Let_def ADDRMAN_GETADDR_MAX_PCT_def ADDRMAN_GETADDR_MAX_def min_def)
  ultimately show ?thesis by (simp add: N_def draws_weaken)
qed

subsection \<open>Picking one address\<close>

lemma select_loop_ok:
  assumes "buckets \<noteq> []" "\<forall>v \<in> set buckets. \<forall>i \<in> set v. am_mapInfo am i \<noteq> None"
  shows "run_ok (select_loop accepts am buckets round fuel) (\<lambda>info. \<exists>i. am_mapInfo am i = Some info)"
proof (induction fuel arbitrary: round)
  case 0
  then show ?case by (simp add: run_ok_def)
next
  case (Suc fuel)
  have "run_ok (if buckets ! b = [] then select_loop accepts am buckets round fuel
       else bind (GetRand (length (buckets ! b))) (\<lambda>nPos.
            bind (lookup_at (am_mapInfo am) (buckets ! b ! nPos)) (\<lambda>info.
            bind (GetRand (2 ^ 30)) (\<lambda>r.
              if accepts round info r then ret info
              else select_loop accepts am buckets (round + 1) fuel)))) (\<lambda>info. \<exists>i. am_mapInfo am i = Some info)"
    if b: "b < length buckets" for b
  proof (cases "buckets ! b = []")
    case False
    have "run_ok (bind (lookup_at (am_mapInfo am) (buckets ! b ! nPos)) (\<lambda>info.
            bind (GetRand (2 ^ 30)) (\<lambda>r. if accepts round info r then ret info
              else select_loop accepts am buckets (round + 1) fuel))) (\<lambda>info. \<exists>i. am_mapInfo am i = Some info)"
      if p: "nPos < length (buckets ! b)" for nPos
    proof -
      obtain info where info: "am_mapInfo am (buckets ! b ! nPos) = Some info"
        using assms(2) nth_mem [OF b] nth_mem [OF p] by auto
      show ?thesis unfolding bind_lookup [where m = "am_mapInfo am", OF info]
        by (rule run_ok_bind, rule run_ok_GetRand) (use info Suc in \<open>auto intro: run_ok_ret\<close>)
    qed
    then show ?thesis unfolding if_not_P [OF False] by (intro run_ok_bind [OF run_ok_GetRand]) (use False in simp_all)
  qed (simp add: Suc)
  then show ?case unfolding select_loop.simps by (intro run_ok_bind [OF run_ok_GetRand]) (use assms(1) in simp)
qed

lemma am_Select_ok:
  assumes "am_good am"
  shows "run_ok (am_Select use_tried accepts am nUnkBias fuel)
    (\<lambda>r. case r of None \<Rightarrow> am_vRandom am = [] | Some info \<Rightarrow> \<exists>i. am_mapInfo am i = Some info)"
proof (cases "am_vRandom am = []")
  case False
  have t: "tried_ok (cores am) (am_vvTried am) (am_nTried am)" and n: "new_ok (\<lambda>_. 0) (cores am) (am_vvNew am) (am_nNew am)"
    and fin: "finite (tried_set (cores am))"
    using assms new_finite(2) [OF ids_finite, of am] by (auto simp: am_good_def am_ok_def)
  have "run_ok (select_loop accepts am (am_vvTried am) 0 fuel) (\<lambda>info. \<exists>i. am_mapInfo am i = Some info)"
  proof (rule select_loop_ok)
    have "set (concat (am_vvTried am)) = tried_set (cores am)"
      using t fin unfolding tried_ok_def by (metis finite_set_mset_mset_set set_mset_mset)
    then show "\<forall>v \<in> set (am_vvTried am). \<forall>i \<in> set v. am_mapInfo am i \<noteq> None" by (fastforce simp: tried_set_def cores_def)
  qed (use t in \<open>auto simp: tried_ok_def\<close>)
  moreover have "run_ok (select_loop accepts am (map sorted_list_of_set (am_vvNew am)) 0 fuel) (\<lambda>info. \<exists>i. am_mapInfo am i = Some info)"
  proof (rule select_loop_ok)
    show "\<forall>v \<in> set (map sorted_list_of_set (am_vvNew am)). \<forall>i \<in> set v. am_mapInfo am i \<noteq> None"
      using n by (fastforce simp: new_ok_def new_set_def cores_def)
  qed (use n in \<open>auto simp: new_ok_def\<close>)
  ultimately have "run_ok (bind (if c then select_loop accepts am (am_vvTried am) 0 fuel
      else select_loop accepts am (map sorted_list_of_set (am_vvNew am)) 0 fuel) (\<lambda>info. ret (Some info)))
    (\<lambda>r. case r of None \<Rightarrow> am_vRandom am = [] | Some info \<Rightarrow> \<exists>i. am_mapInfo am i = Some info)" for c
    by (intro run_ok_bind) (cases c; simp; elim run_ok_weaken; intro run_ok_ret; simp)
  with False show ?thesis
    unfolding am_Select_def if_not_P [OF False] by (intro run_ok_bind [OF run_ok_GetRand]) simp_all
qed (simp add: am_Select_def run_ok_ret)

end
