(* ===== verification/Addrman_Props.thy ===== *)
theory Addrman_Props
  imports Addrman_Draws Samples
begin

text \<open>
  The states of the address manager that its handlers reach, what the code promises of them, and
  a run of the handlers on two addresses.
\<close>

inductive am_reach :: "openssl \<Rightarrow> CAddrMan \<Rightarrow> bool" for E where
  am_new: "am_reach E (CAddrMan_new nKey)"
| am_add: "am_reach E am \<Longrightarrow> am_Add_all E am nNow vAddr source nTimePenalty rs = Done ((n, am'), rs') \<Longrightarrow> am_reach E am'"
| am_good_step: "am_reach E am \<Longrightarrow> 0 < sint nTime \<Longrightarrow> am_Good E am addr nTime rs = Done (am', rs') \<Longrightarrow> am_reach E am'"
| am_attempt: "am_reach E am \<Longrightarrow> 0 \<le> sint nTime \<Longrightarrow> am_reach E (am_Attempt am addr nTime)"
| am_connected: "am_reach E am \<Longrightarrow> am_reach E (am_Connected am addr nTime)"
| am_getaddr: "am_reach E am \<Longrightarrow> am_GetAddr am rs = Done ((v, am'), rs') \<Longrightarrow> am_reach E am'"

lemma am_new_good: "am_good (CAddrMan_new nKey)"
proof -
  have "cores (CAddrMan_new nKey) = Map.empty" "positions (CAddrMan_new nKey) = Map.empty"
    by (simp_all add: cores_def positions_def CAddrMan_new_def fun_eq_iff)
  moreover have "tried_set Map.empty = {}" "new_set Map.empty = {}" by (simp_all add: tried_set_def new_set_def)
  moreover have "concat (replicate m []) = ([] :: int list)" for m by (induction m) auto
  ultimately show ?thesis
    unfolding am_good_def am_ok_def
    by (simp add: CAddrMan_new_def random_ok_def index_ok_def tried_ok_def new_ok_def times_ok_def
        ADDRMAN_TRIED_BUCKET_COUNT_def ADDRMAN_NEW_BUCKET_COUNT_def)
qed

lemma am_reach_good: "am_reach E am \<Longrightarrow> am_good am"
proof (induction rule: am_reach.induct)
  case (am_add am nNow vAddr source nTimePenalty rs n am' rs')
  from run_ok_done [OF am_Add_all_ok [OF am_add(3)] am_add(2)] show ?case by simp
next
  case (am_good_step am nTime addr rs am' rs')
  from run_ok_done [OF am_Good_ok [OF am_good_step(4,2)] am_good_step(3)] show ?case by simp
next
  case (am_getaddr am rs v am' rs')
  from run_ok_done [OF am_GetAddr_ok [OF am_getaddr(3)] am_getaddr(2)] show ?case by simp
qed (simp_all add: am_new_good am_Attempt_ok am_Connected_ok)

text \<open>A computation that does not fail and has the values it needs returns.\<close>

lemma returns:
  assumes "run_ok m Q" "draws_suffice k m" "k \<le> length rs" "\<forall>r \<in> set rs. unat r < 2 ^ 63"
  shows "\<exists>x rs'. m rs = Done (x, rs')"
proof -
  have "m rs \<noteq> Failed" "m rs \<noteq> Out_of_draws"
    using assms(2-4) run_ok_no_failure [OF assms(1), of rs] unfolding draws_suffice_def by (auto split: run.splits)
  then show ?thesis by (cases "m rs") auto
qed

text \<open>C25: Whatever sequence of additions, connection attempts, successful connections and address
  requests the address manager goes through, the code's own consistency check finds no error: the
  index, the shuffled vector, the buckets and the reference counts agree with the table, and the
  table never outgrows its buckets.\<close>

theorem addrman_consistent:
  assumes "am_reach E am"
  shows "am_Check am = 0 \<and> length (am_vRandom am) \<le> 64 * 64 + 256 * 64"
proof -
  have good: "am_good am" using assms by (rule am_reach_good)
  then have ok: "am_ok (\<lambda>_. 0) am" by (simp add: am_good_def)
  show ?thesis using am_Check_ok [OF good] vRandom_length [OF ok] am_size [OF ok] by simp
qed


text \<open>C27: A request is answered with 23 percent of the table, at most 2500 addresses, which are
  known and differ from each other; picking one address gives an entry of the table, and none only
  when the table is empty. Neither changes which addresses are known, referenced or tried.\<close>

theorem addrman_addresses:
  assumes "am_reach E am" "am_GetAddr am rs = Done ((v, am'), rs')"
  shows "length v = min 2500 (23 * length (am_vRandom am) div 100) \<and> distinct (map netaddr v) \<and>
    (\<forall>info \<in> set v. am_mapAddr am (netaddr info) \<noteq> None) \<and> cores am' = cores am \<and>
    (case am_Select use_tried accepts am nUnkBias fuel rs of
       Done (None, _) \<Rightarrow> am_vRandom am = [] | Done (Some info, _) \<Rightarrow> info \<in> ran (am_mapInfo am)
     | Out_of_draws \<Rightarrow> True | Failed \<Rightarrow> False)"
proof -
  have good: "am_good am" using assms(1) by (rule am_reach_good)
  show ?thesis
    using run_ok_done [OF am_GetAddr_ok [OF good] assms(2)] am_Select_ok [OF good, of use_tried accepts nUnkBias fuel]
    unfolding run_ok_def by (auto simp: ran_def split: option.splits run.splits dest: spec [of _ rs])
qed

text \<open>C28: Adding an address reports it as new exactly when it is routable and was not known, and a
  routable address is known afterwards; a later success of this address and port puts it into the
  tried buckets and forgets none of the known addresses.\<close>

theorem add_then_good:
  assumes "am_reach E am" "am_Add E am nNow addr source nTimePenalty rs = Done ((fNew, am1), rs1)"
    "0 < sint nTime" "am_Good E am1 serv nTime rs2 = Done (am2, rs3)"
  shows "(fNew \<longleftrightarrow> IsRoutable addr \<and> Find am addr = None) \<and> (IsRoutable addr \<longrightarrow> am_mapAddr am1 (netaddr addr) \<noteq> None) \<and>
    am_vRandom am2 = am_vRandom am1 \<and> am_mapAddr am2 = am_mapAddr am1 \<and>
    (\<forall>n x. Find am1 serv = Some (n, x) \<longrightarrow> CService_eq x serv \<longrightarrow> (\<exists>y. am_mapInfo am2 n = Some y \<and> ai_fInTried y \<and> ai_nRefCount y = 0))"
proof -
  have good: "am_good am" using assms(1) by (rule am_reach_good)
  have add: "am_good am1" "fNew \<longleftrightarrow> IsRoutable addr \<and> Find am addr = None" "IsRoutable addr \<longrightarrow> am_mapAddr am1 (netaddr addr) \<noteq> None"
    using run_ok_done [OF am_Add_ok [OF good] assms(2)] by simp_all
  have ok: "am_good am2" "am_vRandom am2 = am_vRandom am1" "am_mapAddr am2 = am_mapAddr am1"
    "\<forall>n x. Find am1 serv = Some (n, x) \<longrightarrow> CService_eq x serv \<longrightarrow> (\<exists>y. am_mapInfo am2 n = Some y \<and> ai_fInTried y)"
    using run_ok_done [OF am_Good_ok [OF add(1) assms(3)] assms(4)] by simp_all
  have "ai_nRefCount y = 0" if "am_mapInfo am2 n = Some y" "ai_fInTried y" for n y
  proof -
    have "cores am2 n = Some (netaddr y, ai_nRefCount y, True)" using that by (simp add: cores_some core_def)
    moreover have "new_ok (\<lambda>_. 0) (cores am2) (am_vvNew am2) (am_nNew am2)" using ok(1) by (simp add: am_good_def am_ok_def)
    ultimately show ?thesis unfolding new_ok_def by force
  qed
  with add ok show ?thesis by blast
qed

subsection \<open>A bucket in which the wrong entry is evicted\<close>

text \<open>The scan swaps its choice to the front and returns the place it came from, where by then
  another entry stands: of two tried addresses the one with the older success is looked for, and
  the other one is evicted.\<close>

definition tried_at :: "int \<Rightarrow> CAddrInfo" where
  "tried_at t = (CAddrInfo_of \<lparr>na_ip = [], sv_port = 0, ad_nServices = 0, ad_nTime = 0, ad_nLastTry = 0\<rparr> \<lparr>na_ip = []\<rparr>)
     \<lparr>ai_nLastSuccess := word_of_int t, ai_fInTried := True\<rparr>"

lemma GetRand_small: "0 < m \<Longrightarrow> m < 100 \<Longrightarrow> unat r < 2 ^ 32 \<Longrightarrow> GetRand m (r # rs) = Done (unat r mod m, rs)"
proof -
  assume m: "0 < m" "m < 100" and r: "unat r < 2 ^ 32"
  define q where "q = 18446744073709551615 mod m"
  have "nRange m + q = 18446744073709551615"
    using div_mult_mod_eq [of 18446744073709551615 m] by (simp add: nRange_def q_def)
  moreover have "q < m" using m(1) by (simp add: q_def)
  moreover have "unat r < 4294967296" using r by simp
  ultimately have "\<not> nRange m \<le> unat r" using m(2) by linarith
  then show ?thesis using m by (subst GetRand.simps) simp
qed

lemma SelectTried_wrong_position:
  "case SelectTried ((CAddrMan_new [])\<lparr>am_mapInfo := [10 \<mapsto> tried_at 5, 20 \<mapsto> tried_at 1],
        am_vvTried := [[10, 20]]\<rparr>) 0 [1, 0] of
     Done ((nPos, am), _) \<Rightarrow> nPos = 1 \<and> am_vvTried am = [[20, 10]] | _ \<Rightarrow> False"
proof -
  have w: "sint (word_of_int 5 :: int64) = 5" "sint (word_of_int 1 :: int64) = 1" by simp_all
  show ?thesis
    by (simp add: SelectTried_def Let_def ADDRMAN_TRIED_ENTRIES_INSPECT_ON_EVICT_def bind_def lookup_at_def
        ret_def GetRand_small tried_at_def upt_rec w)
qed

subsection \<open>A run on concrete addresses\<close>

definition sample_address :: "byte \<Rightarrow> CAddress" where
  "sample_address b = \<lparr>na_ip = pchIPv4 @ [8, 8, b, 1], sv_port = 8333, ad_nServices = 1, ad_nTime = 1000000, ad_nLastTry = 0\<rparr>"

definition sample_source :: CNetAddr where
  "sample_source = \<lparr>na_ip = pchIPv4 @ [9, 9, 9, 9]\<rparr>"

definition sample_zeros :: "uint64 list" where
  "sample_zeros = replicate 3000 0"

definition run_state :: "('a \<times> CAddrMan) rand \<Rightarrow> uint64 list \<Rightarrow> CAddrMan" where
  "run_state m rs = (case m rs of Done ((_, am), _) \<Rightarrow> am | _ \<Rightarrow> CAddrMan_new [])"

definition sample_five :: CAddrMan where
  "sample_five = run_state (am_Add_all sample_ssl (CAddrMan_new [7]) 1000000 (map sample_address [1, 2, 3, 4, 5]) sample_source 0)
     sample_zeros"

lemma zeros_small: "\<forall>r \<in> set sample_zeros. unat r < 2 ^ 63" "length sample_zeros = 3000"
  by (auto simp: sample_zeros_def in_set_replicate)

lemma sample_five_run:
  "\<exists>n rs'. am_Add_all sample_ssl (CAddrMan_new [7]) 1000000 (map sample_address [1, 2, 3, 4, 5]) sample_source 0 sample_zeros
     = Done ((n, sample_five), rs')"
proof -
  have "\<exists>x rs'. am_Add_all sample_ssl (CAddrMan_new [7]) 1000000 (map sample_address [1, 2, 3, 4, 5]) sample_source 0 sample_zeros
     = Done (x, rs')"
    by (rule returns [OF am_Add_all_ok [OF am_new_good] draws_Add_all [OF am_new_good] _ zeros_small(1)])
      (simp add: zeros_small(2))
  then show ?thesis by (auto simp: sample_five_def run_state_def)
qed

lemma sample_five_reach: "am_reach sample_ssl sample_five"
  using sample_five_run am_add [OF am_new] by blast

lemma addrman_consistent_witness:
  "am_Check sample_five = 0 \<and> length (am_vRandom sample_five) \<le> 64 * 64 + 256 * 64"
  by (rule addrman_consistent [OF sample_five_reach])


lemma sample_GetAddr: "\<exists>v am' rs'. am_GetAddr sample_five sample_zeros = Done ((v, am'), rs')"
  using returns [OF am_GetAddr_ok draws_GetAddr _ zeros_small(1)] am_reach_good [OF sample_five_reach]
  by (fastforce simp: zeros_small(2))

lemma addrman_addresses_witness:
  "case am_GetAddr sample_five sample_zeros of
     Done ((v, _), _) \<Rightarrow> length v = min 2500 (23 * length (am_vRandom sample_five) div 100) \<and> distinct (map netaddr v)
   | _ \<Rightarrow> False"
proof -
  obtain v am' rs' where run: "am_GetAddr sample_five sample_zeros = Done ((v, am'), rs')" using sample_GetAddr by blast
  show ?thesis using addrman_addresses [OF sample_five_reach run] by (simp add: run)
qed

definition sample_one :: CAddrMan where
  "sample_one = run_state (am_Add sample_ssl (CAddrMan_new [7]) 1000000 (sample_address 1) sample_source 0) sample_zeros"

text \<open>The address added is marked as tried.\<close>

lemma sample_routable: "IsRoutable (sample_address 1)"
  by code_simp

lemma add_then_good_witness:
  "case am_Good sample_ssl sample_one (CService.truncate (sample_address 1)) 1000500 sample_zeros of
     Done (am, _) \<Rightarrow> am_vRandom am = am_vRandom sample_one \<and> am_mapAddr am (netaddr (sample_address 1)) \<noteq> None
   | _ \<Rightarrow> False"
proof -
  have "\<exists>x rs'. am_Add sample_ssl (CAddrMan_new [7]) 1000000 (sample_address 1) sample_source 0 sample_zeros = Done (x, rs')"
    by (rule returns [OF am_Add_ok [OF am_new_good] draws_Add [OF am_new_good] _ zeros_small(1)]) (simp add: zeros_small(2))
  then obtain fNew rs1 where add: "am_Add sample_ssl (CAddrMan_new [7]) 1000000 (sample_address 1) sample_source 0 sample_zeros
      = Done ((fNew, sample_one), rs1)"
    by (auto simp: sample_one_def run_state_def)
  have good: "am_good sample_one" using run_ok_done [OF am_Add_ok [OF am_new_good] add] by simp
  have t: "0 < sint (1000500 :: int64)" and five: "5 \<le> length sample_zeros" by (simp_all add: zeros_small(2))
  obtain am2 rs3 where run: "am_Good sample_ssl sample_one (CService.truncate (sample_address 1)) 1000500 sample_zeros = Done (am2, rs3)"
    using returns [OF am_Good_ok [OF good t] draws_Good [OF good] _ zeros_small(1)] five by blast
  show ?thesis using add_then_good [OF am_new add t run] sample_routable by (simp add: run)
qed

end
