(* ===== verification/Messages.thy ===== *)
theory Messages
  imports Net_Address
begin

text \<open>
  The framing of network messages (\<open>src/protocol.cpp\<close>, \<open>src/net.h\<close>, \<open>src/net.cpp\<close>, \<open>ProcessMessages\<close> in
  \<open>src/main.cpp\<close>): the header, writing a message into the send buffer, taking the bytes of a
  connection apart into messages, and handing each complete message to its handler. Buffers are
  byte lists. The handler, its exceptions and the shutdown are fields of an environment.
\<close>

subsection \<open>The header\<close>

record CMessageHeader =
  mh_pchMessageStart :: "byte list"
  mh_pchCommand :: "byte list"
  mh_nMessageSize :: uint32
  mh_nChecksum :: uint32

definition COMMAND_SIZE :: nat where "COMMAND_SIZE = 12"
definition MESSAGE_SIZE_OFFSET :: nat where "MESSAGE_SIZE_OFFSET = 16"
definition CHECKSUM_OFFSET :: nat where "CHECKSUM_OFFSET = 20"

text \<open>The main network's start bytes and those of the test network.\<close>

definition pchMessageStart :: "bool \<Rightarrow> byte list" where
  "pchMessageStart fTestNet = (if fTestNet then [0xdd, 0x4d, 0xdd, 0x4d] else [0xdb, 0xad, 0xbd, 0xda])"

definition char_byte :: "char \<Rightarrow> byte" where
  "char_byte c = word_of_nat (of_char c)"

definition strncpy :: "string \<Rightarrow> nat \<Rightarrow> byte list" where
  "strncpy psz n = (let s = take n (map char_byte (takeWhile (\<lambda>c. c \<noteq> CHR 0x00) psz))
     in s @ replicate (n - length s) 0)"

definition CMessageHeader_default :: "bool \<Rightarrow> CMessageHeader" where
  "CMessageHeader_default fTestNet =
     \<lparr>mh_pchMessageStart = pchMessageStart fTestNet, mh_pchCommand = (replicate COMMAND_SIZE 0)[1 := 1],
      mh_nMessageSize = -1, mh_nChecksum = 0\<rparr>"

definition CMessageHeader_of :: "bool \<Rightarrow> string \<Rightarrow> uint32 \<Rightarrow> CMessageHeader" where
  "CMessageHeader_of fTestNet pszCommand nMessageSizeIn =
     \<lparr>mh_pchMessageStart = pchMessageStart fTestNet, mh_pchCommand = strncpy pszCommand COMMAND_SIZE,
      mh_nMessageSize = nMessageSizeIn, mh_nChecksum = 0\<rparr>"

definition byte_char :: "byte \<Rightarrow> char" where
  "byte_char b = char_of (unat b)"

text \<open>The command ends at the first zero, or fills its field.\<close>

definition GetCommand :: "CMessageHeader \<Rightarrow> string" where
  "GetCommand h = map byte_char
     (if mh_pchCommand h ! (COMMAND_SIZE - 1) = 0 then takeWhile (\<lambda>b. b \<noteq> 0) (mh_pchCommand h)
      else take COMMAND_SIZE (mh_pchCommand h))"

text \<open>The bytes are compared as signed characters.\<close>

fun command_ok :: "byte list \<Rightarrow> bool" where
  "command_ok [] \<longleftrightarrow> True"
| "command_ok (b # bs) \<longleftrightarrow>
     (if b = 0 then list_all (\<lambda>c. c = 0) bs
      else if sint b < 0x20 \<or> 0x7E < sint b then False
      else command_ok bs)"

definition IsValid_header :: "bool \<Rightarrow> CMessageHeader \<Rightarrow> bool" where
  "IsValid_header fTestNet h \<longleftrightarrow>
     (if mh_pchMessageStart h \<noteq> pchMessageStart fTestNet then False
      else if \<not> command_ok (mh_pchCommand h) then False
      else unat (mh_nMessageSize h) \<le> MAX_SIZE)"

definition ser_message_header :: "CMessageHeader \<Rightarrow> byte list" where
  "ser_message_header h = mh_pchMessageStart h @ mh_pchCommand h @ bytes_of_u32 (mh_nMessageSize h) @ bytes_of_u32 (mh_nChecksum h)"

definition unser_message_header :: "CMessageHeader reader" where
  "unser_message_header bs =
     (case read_bytes 4 bs of None \<Rightarrow> None | Some (start, r) \<Rightarrow>
      case read_bytes COMMAND_SIZE r of None \<Rightarrow> None | Some (cmd, r) \<Rightarrow>
      case read_u32 r of None \<Rightarrow> None | Some (nSize, r) \<Rightarrow>
      case read_u32 r of None \<Rightarrow> None | Some (nSum, r) \<Rightarrow>
        Some (\<lparr>mh_pchMessageStart = start, mh_pchCommand = cmd, mh_nMessageSize = nSize, mh_nChecksum = nSum\<rparr>, r))"

definition checksum :: "openssl \<Rightarrow> byte list \<Rightarrow> uint32" where
  "checksum E bs = word_of_nat (le_value (take 4 (bytes_of_u256 (Hash E bs))))"

subsection \<open>Sending\<close>

text \<open>\<open>memcpy\<close> into a buffer.\<close>

definition put_bytes :: "nat \<Rightarrow> byte list \<Rightarrow> byte list \<Rightarrow> byte list" where
  "put_bytes pos bs buf = take pos buf @ bs @ drop (pos + length bs) buf"

record sender =
  sn_vSend :: "byte list"
  sn_nHeaderStart :: int
  sn_nMessageStart :: int

definition sender_new :: sender where
  "sender_new = \<lparr>sn_vSend = [], sn_nHeaderStart = -1, sn_nMessageStart = -1\<rparr>"

definition AbortMessage :: "sender \<Rightarrow> sender" where
  "AbortMessage n =
     (if sn_nHeaderStart n < 0 then n
      else \<lparr>sn_vSend = take (nat (sn_nHeaderStart n)) (sn_vSend n), sn_nHeaderStart = -1, sn_nMessageStart = -1\<rparr>)"

definition BeginMessage :: "bool \<Rightarrow> string \<Rightarrow> sender \<Rightarrow> sender" where
  "BeginMessage fTestNet pszCommand n =
     (let n = (if sn_nHeaderStart n \<noteq> -1 then AbortMessage n else n);
          vSend = sn_vSend n @ ser_message_header (CMessageHeader_of fTestNet pszCommand 0)
      in \<lparr>sn_vSend = vSend, sn_nHeaderStart = int (length (sn_vSend n)), sn_nMessageStart = int (length vSend)\<rparr>)"

text \<open>\<open>drop\<close> is the outcome of \<open>-dropmessagestest\<close>.\<close>

definition EndMessage :: "openssl \<Rightarrow> bool \<Rightarrow> sender \<Rightarrow> sender" where
  "EndMessage E drop_it n =
     (if drop_it then AbortMessage n
      else if sn_nHeaderStart n < 0 then n
      else let data = drop (nat (sn_nMessageStart n)) (sn_vSend n);
               nSize = word_of_nat (length data) :: uint32;
               start = nat (sn_nHeaderStart n);
               vSend = put_bytes (start + MESSAGE_SIZE_OFFSET) (bytes_of_u32 nSize) (sn_vSend n);
               vSend = put_bytes (start + CHECKSUM_OFFSET) (bytes_of_u32 (checksum E data)) vSend
           in \<lparr>sn_vSend = vSend, sn_nHeaderStart = -1, sn_nMessageStart = -1\<rparr>)"

definition EndMessageAbortIfEmpty :: "openssl \<Rightarrow> bool \<Rightarrow> sender \<Rightarrow> sender" where
  "EndMessageAbortIfEmpty E drop_it n =
     (if sn_nHeaderStart n < 0 then n
      else if 0 < int (length (sn_vSend n)) - sn_nMessageStart n then EndMessage E drop_it n
      else AbortMessage n)"

text \<open>The arguments are serialised into the buffer; \<open>None\<close> is an argument that throws.\<close>

definition PushMessage :: "openssl \<Rightarrow> bool \<Rightarrow> bool \<Rightarrow> string \<Rightarrow> byte list option \<Rightarrow> sender \<Rightarrow> sender" where
  "PushMessage E fTestNet drop_it pszCommand args n =
     (let n = BeginMessage fTestNet pszCommand n
      in case args of None \<Rightarrow> AbortMessage n
         | Some a \<Rightarrow> EndMessage E drop_it (n\<lparr>sn_vSend := sn_vSend n @ a\<rparr>))"

subsection \<open>Receiving\<close>

record CNetMessage =
  nm_in_data :: bool
  nm_hdrbuf :: "byte list"
  nm_hdr :: CMessageHeader
  nm_nHdrPos :: uint32
  nm_vRecv :: "byte list"
  nm_nDataPos :: uint32

definition CNetMessage_new :: "bool \<Rightarrow> CNetMessage" where
  "CNetMessage_new fTestNet =
     \<lparr>nm_in_data = False, nm_hdrbuf = replicate 24 0, nm_hdr = CMessageHeader_default fTestNet, nm_nHdrPos = 0,
      nm_vRecv = [], nm_nDataPos = 0\<rparr>"

definition complete :: "CNetMessage \<Rightarrow> bool" where
  "complete m \<longleftrightarrow> (if \<not> nm_in_data m then False else mh_nMessageSize (nm_hdr m) = nm_nDataPos m)"

text \<open>Both return the number of bytes taken, \<open>None\<close> for an error. Reading the whole header
  empties its buffer.\<close>

definition readHeader :: "CNetMessage \<Rightarrow> byte list \<Rightarrow> nat option \<times> CNetMessage" where
  "readHeader m pch =
     (let nRemaining = 24 - nm_nHdrPos m;
          nCopy = min (unat nRemaining) (length pch);
          m = m\<lparr>nm_hdrbuf := put_bytes (unat (nm_nHdrPos m)) (take nCopy pch) (nm_hdrbuf m),
                nm_nHdrPos := nm_nHdrPos m + word_of_nat nCopy\<rparr>
      in if nm_nHdrPos m < 24 then (Some nCopy, m)
         else case unser_message_header (nm_hdrbuf m) of
             None \<Rightarrow> (None, m)
           | Some (hdr, rest) \<Rightarrow>
               let m = m\<lparr>nm_hdr := hdr, nm_hdrbuf := rest\<rparr>
               in if MAX_SIZE < unat (mh_nMessageSize hdr) then (None, m)
                  else (Some nCopy, m\<lparr>nm_in_data := True, nm_vRecv := replicate (unat (mh_nMessageSize hdr)) 0\<rparr>))"

definition readData :: "CNetMessage \<Rightarrow> byte list \<Rightarrow> nat option \<times> CNetMessage" where
  "readData m pch =
     (let nRemaining = mh_nMessageSize (nm_hdr m) - nm_nDataPos m;
          nCopy = min (unat nRemaining) (length pch)
      in (Some nCopy, m\<lparr>nm_vRecv := put_bytes (unat (nm_nDataPos m)) (take nCopy pch) (nm_vRecv m),
                       nm_nDataPos := nm_nDataPos m + word_of_nat nCopy\<rparr>))"

definition absorb :: "CNetMessage \<Rightarrow> byte list \<Rightarrow> nat option \<times> CNetMessage" where
  "absorb m pch = (if \<not> nm_in_data m then readHeader m pch else readData m pch)"

text \<open>The messages received so far, the incomplete one last.\<close>

definition current :: "bool \<Rightarrow> CNetMessage list \<Rightarrow> CNetMessage list" where
  "current fTestNet msgs =
     (if msgs = [] \<or> complete (last msgs) then msgs @ [CNetMessage_new fTestNet] else msgs)"

text \<open>A step that takes no byte only happens when the header is full already; it starts the data.\<close>

definition header_full :: "CNetMessage list \<Rightarrow> bool" where
  "header_full msgs \<longleftrightarrow> msgs \<noteq> [] \<and> \<not> nm_in_data (last msgs) \<and> nm_nHdrPos (last msgs) = 24"

definition remaining :: "CNetMessage \<Rightarrow> uint32" where
  "remaining m = (if \<not> nm_in_data m then 24 - nm_nHdrPos m else mh_nMessageSize (nm_hdr m) - nm_nDataPos m)"

lemma absorb_count: "absorb m pch = (Some h, m') \<Longrightarrow> h = min (unat (remaining m)) (length pch)"
  by (auto simp: absorb_def readHeader_def readData_def Let_def remaining_def split: option.splits if_splits)

lemma absorb_starts_data:
  "absorb m pch = (Some 0, m') \<Longrightarrow> \<not> nm_in_data m \<Longrightarrow> nm_nHdrPos m = 24 \<Longrightarrow> nm_in_data m'"
  by (auto simp: absorb_def readHeader_def Let_def split: option.splits if_splits)

lemma absorb_progress:
  assumes "absorb m pch = (Some h, m')" "pch \<noteq> []" "\<not> complete m"
  shows "0 < h \<or> \<not> nm_in_data m \<and> nm_nHdrPos m = 24 \<and> nm_in_data m'"
proof (cases "h = 0")
  case True
  then have "unat (remaining m) = 0" using absorb_count [OF assms(1)] assms(2) by (simp add: min_def split: if_splits)
  then have zero: "remaining m = 0" by (simp only: unat_eq_zero)
  then have "\<not> nm_in_data m" using assms(3) by (auto simp: remaining_def complete_def)
  moreover from this zero have "nm_nHdrPos m = 24" by (simp add: remaining_def)
  ultimately show ?thesis using absorb_starts_data assms(1) True by blast
qed simp

lemma current_last: "current fTestNet msgs \<noteq> []" "\<not> complete (last (current fTestNet msgs))"
  by (auto simp: current_def complete_def CNetMessage_new_def)

lemma new_header_pos: "nm_nHdrPos (CNetMessage_new t) \<noteq> 24"
  by (simp add: CNetMessage_new_def)

function ReceiveMsgBytes :: "bool \<Rightarrow> byte list \<Rightarrow> CNetMessage list \<Rightarrow> bool \<times> CNetMessage list" where
  "ReceiveMsgBytes fTestNet pch msgs =
     (if pch = [] then (True, msgs)
      else let msgs = current fTestNet msgs; r = absorb (last msgs) pch; msgs = butlast msgs @ [snd r]
           in (case fst r of None \<Rightarrow> (False, msgs)
               | Some handled \<Rightarrow> ReceiveMsgBytes fTestNet (drop handled pch) msgs))"
  by pat_completeness auto

termination
proof (relation "measures [\<lambda>(t, pch, msgs). length pch, \<lambda>(t, pch, msgs). of_bool (header_full msgs)]", goal_cases)
  case (2 t pch msgs cur r msgs' h)
  have r: "absorb (last cur) pch = (Some h, snd r)" using 2 by (simp add: prod_eq_iff)
  have "\<not> complete (last cur)" using 2 current_last(2) by simp
  from absorb_progress [OF r 2(1) this] show ?case
  proof
    assume full: "\<not> nm_in_data (last cur) \<and> nm_nHdrPos (last cur) = 24 \<and> nm_in_data (snd r)"
    have "msgs \<noteq> [] \<and> last cur = last msgs"
      using full 2(2) new_header_pos [of t] by (auto simp: current_def split: if_splits)
    then have "header_full msgs" "\<not> header_full msgs'" using full 2(4) by (auto simp: header_full_def)
    then show ?thesis by (cases h) (auto simp: 2(1))
  qed (use 2 in auto)
qed simp

declare ReceiveMsgBytes.simps [simp del]

subsection \<open>Dispatch\<close>

text \<open>The handler says whether it came to its end without an exception.\<close>

record 's dispatcher =
  dp_send_full :: "'s \<Rightarrow> bool"
  dp_ProcessMessage :: "string \<Rightarrow> byte list \<Rightarrow> 's \<Rightarrow> bool \<times> 's"
  dp_fShutdown :: "'s \<Rightarrow> bool"

fun process_loop :: "openssl \<Rightarrow> bool \<Rightarrow> 's dispatcher \<Rightarrow> CNetMessage list \<Rightarrow> 's \<Rightarrow> bool \<times> CNetMessage list \<times> 's" where
  "process_loop E fTestNet D [] s = (True, [], s)"
| "process_loop E fTestNet D (msg # rest) s =
     (if dp_send_full D s then (True, msg # rest, s)
      else if \<not> complete msg then (True, msg # rest, s)
      else if mh_pchMessageStart (nm_hdr msg) \<noteq> pchMessageStart fTestNet then (False, rest, s)
      else if \<not> IsValid_header fTestNet (nm_hdr msg) then process_loop E fTestNet D rest s
      else let nMessageSize = unat (mh_nMessageSize (nm_hdr msg))
           in if checksum E (take nMessageSize (nm_vRecv msg)) \<noteq> mh_nChecksum (nm_hdr msg)
              then process_loop E fTestNet D rest s
              else (case dp_ProcessMessage D (GetCommand (nm_hdr msg)) (nm_vRecv msg) s of (ended, s) \<Rightarrow>
                      if ended \<and> dp_fShutdown D s then (True, rest, s)
                      else process_loop E fTestNet D rest s))"

definition ProcessMessages :: "openssl \<Rightarrow> bool \<Rightarrow> 's dispatcher \<Rightarrow> CNetMessage list \<Rightarrow> 's \<Rightarrow> bool \<times> CNetMessage list \<times> 's" where
  "ProcessMessages E fTestNet D vRecvMsg s = process_loop E fTestNet D vRecvMsg s"

end
