(* ===== verification/Message_Rules.thy ===== *)
theory Message_Rules
  imports Messages Samples
begin

text \<open>
  The framing of messages is right: the buffers are never written out of their bounds, the way
  the bytes of a connection are cut into pieces does not matter, messages that are sent arrive
  in their order, and the handler sees no other ones than those whose check sum fits.
\<close>

subsection \<open>Well-formed messages\<close>

definition msg_ok :: "CNetMessage \<Rightarrow> bool" where
  "msg_ok m \<longleftrightarrow>
     (if nm_in_data m
      then length (nm_vRecv m) = unat (mh_nMessageSize (nm_hdr m)) \<and> unat (mh_nMessageSize (nm_hdr m)) \<le> MAX_SIZE \<and>
        nm_nDataPos m \<le> mh_nMessageSize (nm_hdr m)
      else nm_nHdrPos m < 24 \<and> length (nm_hdrbuf m) = 24 \<and> nm_nDataPos m = 0)"

definition msgs_ok :: "CNetMessage list \<Rightarrow> bool" where
  "msgs_ok msgs \<longleftrightarrow> list_all msg_ok msgs \<and> list_all complete (butlast msgs)"

lemma length_put_bytes [simp]: "pos + length bs \<le> length buf \<Longrightarrow> length (put_bytes pos bs buf) = length buf"
  by (simp add: put_bytes_def)

lemma put_bytes_append:
  assumes "pos + length bs + length cs \<le> length buf"
  shows "put_bytes (pos + length bs) cs (put_bytes pos bs buf) = put_bytes pos (bs @ cs) buf"
proof -
  have "pos \<le> length buf" using assms by simp
  then have pre: "length (take pos buf) = pos" by simp
  have "drop (pos + length bs + length cs) (take pos buf @ bs @ drop (pos + length bs) buf) = drop (pos + length bs + length cs) buf"
    using pre by (simp add: add.commute add.left_commute)
  moreover have "take (pos + length bs) (take pos buf @ bs @ drop (pos + length bs) buf) = take pos buf @ bs"
    using pre by simp
  ultimately show ?thesis by (simp add: put_bytes_def add.assoc)
qed

lemma list_all_last: "xs \<noteq> [] \<Longrightarrow> list_all P xs \<longleftrightarrow> list_all P (butlast xs) \<and> P (last xs)"
  by (induction xs rule: rev_induct) simp_all

lemma unat_plus_small: "unat (a :: uint32) + n < 2 ^ 32 \<Longrightarrow> unat (a + word_of_nat n) = unat a + n"
  by (simp add: unat_word_ariths unsigned_of_nat take_bit_nat_eq_self)

lemma new_msg_ok: "msg_ok (CNetMessage_new t)"
  by (simp add: msg_ok_def CNetMessage_new_def)

lemma current_ok:
  assumes "msgs_ok msgs"
  shows "msg_ok (last (current t msgs))" "list_all msg_ok (butlast (current t msgs))" "list_all complete (butlast (current t msgs))"
proof -
  have "msgs \<noteq> [] \<Longrightarrow> msg_ok (last msgs) \<and> list_all msg_ok (butlast msgs)"
    using assms list_all_last [of msgs msg_ok] unfolding msgs_ok_def by blast
  moreover have "msgs \<noteq> [] \<Longrightarrow> complete (last msgs) \<Longrightarrow> list_all complete msgs"
    using assms list_all_last [of msgs complete] unfolding msgs_ok_def by blast
  ultimately show "msg_ok (last (current t msgs))" "list_all msg_ok (butlast (current t msgs))" "list_all complete (butlast (current t msgs))"
    using assms new_msg_ok by (cases "msgs = []"; auto simp: current_def msgs_ok_def)+
qed

lemma remaining_header: "\<not> nm_in_data m \<Longrightarrow> msg_ok m \<Longrightarrow> unat (remaining m) = 24 - unat (nm_nHdrPos m)"
  by (simp add: remaining_def msg_ok_def unat_sub word_le_nat_alt word_less_nat_alt)

lemma remaining_data:
  "nm_in_data m \<Longrightarrow> msg_ok m \<Longrightarrow> unat (remaining m) = unat (mh_nMessageSize (nm_hdr m)) - unat (nm_nDataPos m)"
  by (simp add: remaining_def msg_ok_def unat_sub)

lemma hdr_pos_bound: "\<not> nm_in_data m \<Longrightarrow> msg_ok m \<Longrightarrow> unat (nm_nHdrPos m) < 24"
  by (simp add: msg_ok_def word_less_nat_alt)

lemma data_pos_bound:
  "nm_in_data m \<Longrightarrow> msg_ok m \<Longrightarrow> unat (nm_nDataPos m) \<le> unat (mh_nMessageSize (nm_hdr m))
    \<and> unat (mh_nMessageSize (nm_hdr m)) \<le> 0x02000000"
  by (simp add: msg_ok_def word_le_nat_alt MAX_SIZE_def)

subsection \<open>One step, in terms of the bytes taken\<close>

text \<open>A step that takes \<open>bs\<close> into the header or the data of a message.\<close>

definition take_header :: "CNetMessage \<Rightarrow> byte list \<Rightarrow> CNetMessage" where
  "take_header m bs = m\<lparr>nm_hdrbuf := put_bytes (unat (nm_nHdrPos m)) bs (nm_hdrbuf m),
     nm_nHdrPos := nm_nHdrPos m + word_of_nat (length bs)\<rparr>"

definition take_data :: "CNetMessage \<Rightarrow> byte list \<Rightarrow> CNetMessage" where
  "take_data m bs = m\<lparr>nm_vRecv := put_bytes (unat (nm_nDataPos m)) bs (nm_vRecv m),
     nm_nDataPos := nm_nDataPos m + word_of_nat (length bs)\<rparr>"

definition header_done :: "CNetMessage \<Rightarrow> CNetMessage option \<times> CNetMessage" where
  "header_done m =
     (case unser_message_header (nm_hdrbuf m) of
        None \<Rightarrow> (None, m)
      | Some (hdr, rest) \<Rightarrow>
          let m = m\<lparr>nm_hdr := hdr, nm_hdrbuf := rest\<rparr>
          in if MAX_SIZE < unat (mh_nMessageSize hdr) then (None, m)
             else (Some (m\<lparr>nm_in_data := True, nm_vRecv := replicate (unat (mh_nMessageSize hdr)) 0\<rparr>), m))"

lemma absorb_data:
  assumes "nm_in_data m"
  shows "absorb m pch = (let n = min (unat (remaining m)) (length pch) in (Some n, take_data m (take n pch)))"
  using assms by (simp add: absorb_def readData_def Let_def remaining_def take_data_def min_def)

lemma absorb_header:
  assumes "\<not> nm_in_data m" "msg_ok m"
  shows "absorb m pch =
    (if unat (nm_nHdrPos m) + length pch < 24 then (Some (length pch), take_header m pch)
     else let n = 24 - unat (nm_nHdrPos m) in
       (case header_done (take_header m (take n pch)) of (None, m) \<Rightarrow> (None, m) | (Some m, _) \<Rightarrow> (Some n, m)))"
proof -
  have r: "unat (24 - nm_nHdrPos m) = 24 - unat (nm_nHdrPos m)" using remaining_header [OF assms] assms(1) by (simp add: remaining_def)
  have p: "unat (nm_nHdrPos m) < 24" using hdr_pos_bound [OF assms] .
  define n where "n = min (24 - unat (nm_nHdrPos m)) (length pch)"
  have pos: "nm_nHdrPos m + word_of_nat n < 24 \<longleftrightarrow> unat (nm_nHdrPos m) + length pch < 24"
  proof -
    have "unat (nm_nHdrPos m + word_of_nat n) = unat (nm_nHdrPos m) + n" using p by (intro unat_plus_small) (simp add: n_def)
    then have "nm_nHdrPos m + word_of_nat n < 24 \<longleftrightarrow> unat (nm_nHdrPos m) + n < 24" by (simp add: word_less_nat_alt)
    also have "\<dots> \<longleftrightarrow> unat (nm_nHdrPos m) + length pch < 24" using p unfolding n_def by linarith
    finally show ?thesis .
  qed
  show ?thesis
  proof (cases "unat (nm_nHdrPos m) + length pch < 24")
    case True
    then have "n = length pch" by (simp add: n_def)
    with True pos assms(1) show ?thesis
      by (simp add: absorb_def readHeader_def Let_def r n_def [symmetric] take_header_def)
  next
    case False
    then have n: "n = 24 - unat (nm_nHdrPos m)" "n \<le> length pch" using p by (auto simp: n_def)
    with False pos assms(1) show ?thesis
      unfolding header_done_def
      by (simp add: absorb_def readHeader_def Let_def r n_def [symmetric] take_header_def split: option.split)
  qed
qed

subsection \<open>Pieces\<close>

lemma take_header_ok:
  assumes "\<not> nm_in_data m" "msg_ok m" "unat (nm_nHdrPos m) + length bs < 24"
  shows "msg_ok (take_header m bs)" "\<not> nm_in_data (take_header m bs)"
    "unat (nm_nHdrPos (take_header m bs)) = unat (nm_nHdrPos m) + length bs"
proof -
  have "unat (nm_nHdrPos m + word_of_nat (length bs)) = unat (nm_nHdrPos m) + length bs"
    using assms(3) by (intro unat_plus_small) simp
  with assms show "msg_ok (take_header m bs)" "\<not> nm_in_data (take_header m bs)"
    "unat (nm_nHdrPos (take_header m bs)) = unat (nm_nHdrPos m) + length bs"
    by (simp_all add: take_header_def msg_ok_def word_less_nat_alt)
qed

lemma take_data_ok:
  assumes "nm_in_data m" "msg_ok m" "unat (nm_nDataPos m) + length bs \<le> unat (mh_nMessageSize (nm_hdr m))"
  shows "msg_ok (take_data m bs)" "nm_in_data (take_data m bs)" "nm_hdr (take_data m bs) = nm_hdr m"
    "unat (nm_nDataPos (take_data m bs)) = unat (nm_nDataPos m) + length bs"
    "complete (take_data m bs) \<longleftrightarrow> unat (nm_nDataPos m) + length bs = unat (mh_nMessageSize (nm_hdr m))"
proof -
  have "unat (nm_nDataPos m + word_of_nat (length bs)) = unat (nm_nDataPos m) + length bs"
    using data_pos_bound [OF assms(1,2)] assms(3) by (intro unat_plus_small) simp
  moreover from this have "nm_nDataPos m + word_of_nat (length bs) = mh_nMessageSize (nm_hdr m) \<longleftrightarrow>
      unat (nm_nDataPos m) + length bs = unat (mh_nMessageSize (nm_hdr m))"
    by (metis word_unat_eq_iff)
  ultimately show "msg_ok (take_data m bs)" "nm_in_data (take_data m bs)" "nm_hdr (take_data m bs) = nm_hdr m"
    "unat (nm_nDataPos (take_data m bs)) = unat (nm_nDataPos m) + length bs"
    "complete (take_data m bs) \<longleftrightarrow> unat (nm_nDataPos m) + length bs = unat (mh_nMessageSize (nm_hdr m))"
    using assms by (auto simp: take_data_def msg_ok_def word_le_nat_alt complete_def)
qed

lemma take_header_append:
  assumes "\<not> nm_in_data m" "msg_ok m" "unat (nm_nHdrPos m) + length x < 24" "unat (nm_nHdrPos m) + length x + length y \<le> 24"
  shows "take_header (take_header m x) y = take_header m (x @ y)"
proof -
  have "unat (nm_nHdrPos m + word_of_nat (length x)) = unat (nm_nHdrPos m) + length x"
    using assms(3) by (intro unat_plus_small) simp
  moreover have "length (nm_hdrbuf m) = 24" using assms(1,2) by (simp add: msg_ok_def)
  ultimately show ?thesis using assms(4) by (simp add: take_header_def put_bytes_append)
qed

lemma take_data_append:
  assumes "nm_in_data m" "msg_ok m" "unat (nm_nDataPos m) + length x + length y \<le> unat (mh_nMessageSize (nm_hdr m))"
  shows "take_data (take_data m x) y = take_data m (x @ y)"
proof -
  have "unat (nm_nDataPos m + word_of_nat (length x)) = unat (nm_nDataPos m) + length x"
    using data_pos_bound [OF assms(1,2)] assms(3) by (intro unat_plus_small) simp
  moreover have "length (nm_vRecv m) = unat (mh_nMessageSize (nm_hdr m))" using assms(1,2) by (simp add: msg_ok_def)
  ultimately show ?thesis using assms(3) by (simp add: take_data_def put_bytes_append)
qed

lemma header_done_ok: "header_done m = (Some m', m'') \<Longrightarrow> nm_nDataPos m = 0 \<Longrightarrow> msg_ok m' \<and> nm_in_data m' \<and> nm_nDataPos m' = 0"
  by (auto simp: header_done_def Let_def msg_ok_def split: option.splits if_splits)

lemma absorb_ok:
  assumes "absorb m pch = (Some h, m')" "msg_ok m" shows "msg_ok m' \<and> h \<le> length pch"
proof (cases "nm_in_data m")
  case True
  define n where "n = min (unat (remaining m)) (length pch)"
  have "n \<le> unat (remaining m)" "n \<le> length pch" by (simp_all add: n_def)
  then have "unat (nm_nDataPos m) + length (take n pch) \<le> unat (mh_nMessageSize (nm_hdr m))"
    using remaining_data [OF True assms(2)] data_pos_bound [OF True assms(2)] by auto
  then show ?thesis
    using take_data_ok(1) [OF True assms(2)] assms(1) True \<open>n \<le> length pch\<close>
    by (auto simp: absorb_data Let_def n_def [symmetric])
next
  case False
  note p = hdr_pos_bound [OF False assms(2)]
  show ?thesis
  proof (cases "unat (nm_nHdrPos m) + length pch < 24")
    case True
    then show ?thesis using assms take_header_ok(1) [OF False assms(2) True] absorb_header [OF False assms(2), of pch] by auto
  next
    case long: False
    define m1 where "m1 = take_header m (take (24 - unat (nm_nHdrPos m)) pch)"
    have "nm_nDataPos m1 = 0" using False assms(2) by (simp add: m1_def take_header_def msg_ok_def)
    then show ?thesis
      using long assms(1) absorb_header [OF False assms(2), of pch] header_done_ok [of m1 m'] p
      by (auto simp: Let_def m1_def [symmetric] split: option.splits prod.splits)
  qed
qed

lemma absorb_enough:
  assumes "msg_ok m" "unat (remaining m) \<le> length x"
  shows "absorb m (x @ y) = absorb m x"
proof (cases "nm_in_data m")
  case True
  with assms(2) show ?thesis by (simp add: absorb_data Let_def)
next
  case False
  have "unat (remaining m) = 24 - unat (nm_nHdrPos m)" by (rule remaining_header [OF False assms(1)])
  with hdr_pos_bound [OF False assms(1)] assms(2) have "24 - unat (nm_nHdrPos m) \<le> length x" "\<not> unat (nm_nHdrPos m) + length x < 24"
    by linarith+
  then show ?thesis using absorb_header [OF False assms(1)] by simp
qed

lemma absorb_part:
  assumes "msg_ok m" "length x < unat (remaining m)" "x \<noteq> []"
  obtains m1 where "absorb m x = (Some (length x), m1)" "msg_ok m1" "\<not> complete m1"
    "absorb m (x @ y) = (map_option ((+) (length x)) (fst (absorb m1 y)), snd (absorb m1 y))"
proof (cases "nm_in_data m")
  case True
  note r = remaining_data [OF True assms(1)]
  define m1 where "m1 = take_data m x"
  have le: "unat (nm_nDataPos m) + length x \<le> unat (mh_nMessageSize (nm_hdr m))" using assms(2) r by simp
  note t = take_data_ok [OF True assms(1) le, folded m1_def]
  have r1: "unat (remaining m1) = unat (remaining m) - length x"
    using remaining_data [OF t(2,1)] t(3,4) r by simp
  then have room: "unat (nm_nDataPos m) + length x + length (take (min (unat (remaining m1)) (length y)) y) \<le> unat (mh_nMessageSize (nm_hdr m))"
    using assms(2) r le by simp
  from r1 have n: "min (unat (remaining m)) (length x + length y) = length x + min (unat (remaining m1)) (length y)"
    using assms(2) by simp
  have "take_data m1 (take (min (unat (remaining m1)) (length y)) y) = take_data m (x @ take (min (unat (remaining m1)) (length y)) y)"
    unfolding m1_def by (rule take_data_append [OF True assms(1) room [unfolded m1_def]])
  moreover have "take (length x + min (unat (remaining m1)) (length y)) (x @ y) = x @ take (min (unat (remaining m1)) (length y)) y"
    by simp
  ultimately have "absorb m (x @ y) = (map_option ((+) (length x)) (fst (absorb m1 y)), snd (absorb m1 y))"
    using n by (simp add: absorb_data [OF True] absorb_data [OF t(2)] Let_def)
  moreover have "absorb m x = (Some (length x), m1)" using assms(2) by (simp add: absorb_data [OF True] Let_def m1_def min_def)
  moreover have "\<not> complete m1" using t(5) assms(2) r by simp
  ultimately show ?thesis using that t(1) by blast
next
  case False
  note p = hdr_pos_bound [OF False assms(1)]
  have short: "unat (nm_nHdrPos m) + length x < 24" using assms(2) remaining_header [OF False assms(1)] by simp
  define m1 where "m1 = take_header m x"
  note t = take_header_ok [OF False assms(1) short, folded m1_def]
  have "absorb m (x @ y) = (map_option ((+) (length x)) (fst (absorb m1 y)), snd (absorb m1 y))"
  proof (cases "unat (nm_nHdrPos m) + length x + length y < 24")
    case True
    then have "take_header m1 y = take_header m (x @ y)"
      unfolding m1_def by (intro take_header_append [OF False assms(1) short]) simp
    with True show ?thesis
      using absorb_header [OF False assms(1), of "x @ y"] absorb_header [OF t(2,1), of y] t(3) by (simp add: add.assoc)
  next
    case long: False
    define k where "k = 24 - unat (nm_nHdrPos m1)"
    have k: "24 - unat (nm_nHdrPos m) = length x + k" using short t(3) by (simp add: k_def)
    have "take_header m1 (take k y) = take_header m (x @ take k y)"
      unfolding m1_def by (rule take_header_append [OF False assms(1) short]) (use short t(3) in \<open>auto simp: k_def min_def\<close>)
    then have same: "take_header m (take (24 - unat (nm_nHdrPos m)) (x @ y)) = take_header m1 (take k y)" using k by simp
    show ?thesis
      using absorb_header [OF False assms(1), of "x @ y"] absorb_header [OF t(2,1), of y] t(3) long k
      unfolding same k_def [symmetric] Let_def by (simp add: add.assoc split: option.split prod.split)
  qed
  moreover have "absorb m x = (Some (length x), m1)" using absorb_header [OF False assms(1), of x] short by (simp add: m1_def)
  moreover have "\<not> complete m1" using t(2) by (simp add: complete_def)
  ultimately show ?thesis using that t(1) by blast
qed

subsection \<open>The bytes of a connection\<close>

lemma receive_nil [simp]: "ReceiveMsgBytes t [] msgs = (True, msgs)"
  by (simp add: ReceiveMsgBytes.simps)

lemma receive_step:
  "pch \<noteq> [] \<Longrightarrow> ReceiveMsgBytes t pch msgs =
    (case absorb (last (current t msgs)) pch of (None, m) \<Rightarrow> (False, butlast (current t msgs) @ [m])
     | (Some h, m) \<Rightarrow> ReceiveMsgBytes t (drop h pch) (butlast (current t msgs) @ [m]))"
  by (cases "absorb (last (current t msgs)) pch"; cases "fst (absorb (last (current t msgs)) pch)")
    (simp_all add: ReceiveMsgBytes.simps [of t pch] Let_def)

lemma step_ok:
  assumes "msgs_ok msgs" "absorb (last (current t msgs)) pch = (Some h, m)"
  shows "msgs_ok (butlast (current t msgs) @ [m])"
  using current_ok [OF assms(1), of t] absorb_ok [OF assms(2)] by (simp add: msgs_ok_def)

lemma step_smaller:
  assumes "msgs_ok msgs" "absorb (last (current t msgs)) pch = (Some h, m)" "pch \<noteq> []"
  shows "0 < h"
proof -
  have ok: "msg_ok (last (current t msgs))" using current_ok(1) [OF assms(1)] .
  have "nm_in_data (last (current t msgs)) \<or> nm_nHdrPos (last (current t msgs)) \<noteq> 24" using ok by (auto simp: msg_ok_def)
  with absorb_progress [OF assms(2,3) current_last(2)] show ?thesis by auto
qed

lemma receive_keeps:
  assumes "msgs_ok msgs" "ReceiveMsgBytes t pch msgs = (True, msgs')" shows "msgs_ok msgs'"
  using assms
proof (induction "length pch" arbitrary: pch msgs rule: less_induct)
  case less
  show ?case
  proof (cases "pch = []")
    case False
    then obtain h m where step: "absorb (last (current t msgs)) pch = (Some h, m)"
      "ReceiveMsgBytes t (drop h pch) (butlast (current t msgs) @ [m]) = (True, msgs')"
      using less(3) by (auto simp: receive_step split: prod.splits option.splits)
    have "length (drop h pch) < length pch" using step_smaller [OF less(2) step(1) False] False by simp
    from less(1) [OF this step_ok [OF less(2) step(1)] step(2)] show ?thesis .
  qed (use less in simp)
qed

lemma current_same: "msgs \<noteq> [] \<Longrightarrow> \<not> complete (last msgs) \<Longrightarrow> current t msgs = msgs"
  by (simp add: current_def)

lemma receive_append:
  assumes "msgs_ok msgs"
  shows "ReceiveMsgBytes t (x @ y) msgs =
    (case ReceiveMsgBytes t x msgs of (True, msgs') \<Rightarrow> ReceiveMsgBytes t y msgs' | (False, msgs') \<Rightarrow> (False, msgs'))"
  using assms
proof (induction "length x" arbitrary: x msgs rule: less_induct)
  case less
  define cur where "cur = last (current t msgs)"
  have cur: "msg_ok cur" "\<not> complete cur" using current_ok(1) [OF less(2)] current_last(2) by (simp_all add: cur_def)
  consider "x = [] \<or> y = []" | "x \<noteq> []" "y \<noteq> []" "unat (remaining cur) \<le> length x"
    | "x \<noteq> []" "y \<noteq> []" "length x < unat (remaining cur)" by linarith
  then show ?case
  proof cases
    case 1
    then show ?thesis by (auto split: prod.split bool.split)
  next
    case 2
    have same: "absorb cur (x @ y) = absorb cur x" using absorb_enough [OF cur(1) 2(3)] .
    show ?thesis
    proof (cases "absorb cur x")
      case (Pair r m)
      show ?thesis
      proof (cases r)
        case None
        with 2 same Pair show ?thesis by (simp add: receive_step cur_def)
      next
        case (Some h)
        have step: "absorb (last (current t msgs)) x = (Some h, m)" using Pair Some by (simp add: cur_def)
        have h: "h \<le> length x" using absorb_ok [OF step] cur(1) by (simp add: cur_def)
        have "length (drop h x) < length x" using step_smaller [OF less(2) step 2(1)] 2(1) by simp
        from less(1) [OF this step_ok [OF less(2) step]]
        show ?thesis using 2 same step h by (simp add: receive_step cur_def)
      qed
    qed
  next
    case 3
    obtain m1 where m1: "absorb cur x = (Some (length x), m1)" "msg_ok m1" "\<not> complete m1"
      "absorb cur (x @ y) = (map_option ((+) (length x)) (fst (absorb m1 y)), snd (absorb m1 y))"
      by (rule absorb_part [OF cur(1) 3(3,1), of y])
    define ms where "ms = butlast (current t msgs) @ [m1]"
    have "current t ms = ms" using m1(3) by (intro current_same) (simp_all add: ms_def)
    moreover have "last ms = m1" "butlast ms = butlast (current t msgs)" by (simp_all add: ms_def)
    ultimately have y: "ReceiveMsgBytes t y ms =
      (case absorb m1 y of (None, m) \<Rightarrow> (False, butlast (current t msgs) @ [m])
       | (Some h, m) \<Rightarrow> ReceiveMsgBytes t (drop h y) (butlast (current t msgs) @ [m]))"
      by (simp only: receive_step [OF 3(2)])
    have x: "ReceiveMsgBytes t x msgs = (True, ms)" using 3(1) m1(1) by (simp add: receive_step cur_def ms_def)
    have "ReceiveMsgBytes t (x @ y) msgs = ReceiveMsgBytes t y ms"
      using 3(1) m1(4) unfolding y by (simp add: receive_step cur_def split: prod.split option.split)
    then show ?thesis using x by simp
  qed
qed

text \<open>A connection that delivers its bytes in pieces.\<close>

fun receive_pieces :: "bool \<Rightarrow> byte list list \<Rightarrow> CNetMessage list \<Rightarrow> bool \<times> CNetMessage list" where
  "receive_pieces t [] msgs = (True, msgs)"
| "receive_pieces t (p # ps) msgs =
     (case ReceiveMsgBytes t p msgs of (True, msgs') \<Rightarrow> receive_pieces t ps msgs' | (False, msgs') \<Rightarrow> (False, msgs'))"

lemma pieces_concat: "msgs_ok msgs \<Longrightarrow> receive_pieces t ps msgs = ReceiveMsgBytes t (concat ps) msgs"
proof (induction ps arbitrary: msgs)
  case (Cons p ps)
  show ?case
  proof (cases "ReceiveMsgBytes t p msgs")
    case (Pair b ms)
    with Cons receive_keeps [OF Cons.prems, of t p ms] show ?thesis by (cases b) (simp_all add: receive_append)
  qed
qed simp

text \<open>C31: How the bytes of a connection are cut into pieces does not matter: the messages
  received, and whether the connection is given up, depend on the bytes alone.\<close>

theorem receive_pieces_equiv:
  assumes "msgs_ok msgs" "concat ps = concat qs"
  shows "receive_pieces t ps msgs = receive_pieces t qs msgs"
  using assms by (simp add: pieces_concat)

text \<open>C32: Whatever bytes a peer sends, the messages taken from them are well-formed: each but the
  last is complete, an incomplete header has a buffer of 24 bytes that is not full, and the data
  of a message fill a buffer of exactly the size that its header announces, at most the limit of
  the protocol.\<close>

theorem received_well_formed:
  assumes "receive_pieces t ps [] = (True, msgs)"
  shows "list_all complete (butlast msgs) \<and>
    list_all (\<lambda>m. if nm_in_data m
       then length (nm_vRecv m) = unat (mh_nMessageSize (nm_hdr m)) \<and> length (nm_vRecv m) \<le> MAX_SIZE \<and>
         nm_nDataPos m \<le> mh_nMessageSize (nm_hdr m)
       else nm_nHdrPos m < 24 \<and> length (nm_hdrbuf m) = 24 \<and> nm_nDataPos m = 0) msgs"
proof -
  have "msgs_ok []" by (simp add: msgs_ok_def)
  from receive_keeps [OF this, of t "concat ps" msgs] assms pieces_concat [OF this, of t ps] have "msgs_ok msgs" by simp
  then show ?thesis unfolding msgs_ok_def msg_ok_def list_all_iff by (metis (full_types))
qed

subsection \<open>Sending and receiving\<close>

lemma put_bytes_at: "length pre = pos \<Longrightarrow> length old = length bs \<Longrightarrow> put_bytes pos bs (pre @ old @ post) = pre @ bs @ post"
  by (simp add: put_bytes_def)

definition sent_header :: "openssl \<Rightarrow> bool \<Rightarrow> string \<Rightarrow> byte list \<Rightarrow> CMessageHeader" where
  "sent_header E t cmd a = (CMessageHeader_of t cmd (word_of_nat (length a)))\<lparr>mh_nChecksum := checksum E a\<rparr>"

definition frame :: "openssl \<Rightarrow> bool \<Rightarrow> string \<Rightarrow> byte list \<Rightarrow> byte list" where
  "frame E t cmd a = ser_message_header (sent_header E t cmd a) @ a"

lemma header_lengths: "length (pchMessageStart t) = 4" "length (strncpy cmd COMMAND_SIZE) = 12"
  by (simp_all add: pchMessageStart_def strncpy_def Let_def COMMAND_SIZE_def)

lemma PushMessage_frame:
  assumes "sn_nHeaderStart n = -1" "sn_nMessageStart n = -1"
  shows "PushMessage E t False cmd (Some a) n = n\<lparr>sn_vSend := sn_vSend n @ frame E t cmd a\<rparr>"
proof -
  let ?v = "sn_vSend n" and ?s = "pchMessageStart t" and ?c = "strncpy cmd COMMAND_SIZE"
  note len = header_lengths(1) [of t] header_lengths(2) [of cmd]
  have one: "put_bytes (length ?v + 16) x (?v @ ?s @ ?c @ y @ z @ a) = ?v @ ?s @ ?c @ x @ z @ a"
    if "length x = 4" "length y = 4" for x y z
    using put_bytes_at [of "?v @ ?s @ ?c" "length ?v + 16" y x "z @ a"] that len by simp
  have two: "put_bytes (length ?v + 20) x (?v @ ?s @ ?c @ y @ z @ a) = ?v @ ?s @ ?c @ y @ x @ a"
    if "length x = 4" "length y = 4" "length z = 4" for x y z
    using put_bytes_at [of "?v @ ?s @ ?c @ y" "length ?v + 20" z x a] that len by simp
  show ?thesis
    using assms len
    by (simp add: PushMessage_def BeginMessage_def EndMessage_def Let_def ser_message_header_def CMessageHeader_of_def
        frame_def sent_header_def MESSAGE_SIZE_OFFSET_def CHECKSUM_OFFSET_def one two codec_simps)
qed

definition arrived :: "openssl \<Rightarrow> bool \<Rightarrow> string \<Rightarrow> byte list \<Rightarrow> CNetMessage" where
  "arrived E t cmd a = \<lparr>nm_in_data = True, nm_hdrbuf = [], nm_hdr = sent_header E t cmd a, nm_nHdrPos = 24, nm_vRecv = a,
     nm_nDataPos = word_of_nat (length a)\<rparr>"

lemma arrived_complete: "complete (arrived E t cmd a)"
  by (simp add: complete_def arrived_def sent_header_def CMessageHeader_of_def)

lemma unser_sent: "unser_message_header (ser_message_header (sent_header E t cmd a)) = Some (sent_header E t cmd a, [])"
  using read_words_append(1) [of _ "[]"]
  by (simp add: unser_message_header_def ser_message_header_def sent_header_def CMessageHeader_of_def header_lengths
      codec_simps COMMAND_SIZE_def header_lengths [unfolded COMMAND_SIZE_def])

lemma length_msg_header: "length (ser_message_header (sent_header E t cmd a)) = 24"
  by (simp add: ser_message_header_def sent_header_def CMessageHeader_of_def header_lengths codec_simps)

lemma receive_frame:
  assumes "msgs_ok msgs" "list_all complete msgs" "length a \<le> MAX_SIZE"
  shows "ReceiveMsgBytes t (frame E t cmd a) msgs = (True, msgs @ [arrived E t cmd a])"
proof -
  define hb where "hb = ser_message_header (sent_header E t cmd a)"
  define m2 where "m2 = (arrived E t cmd a)\<lparr>nm_vRecv := replicate (length a) 0, nm_nDataPos := 0\<rparr>"
  have hb: "length hb = 24" "hb \<noteq> []" using length_msg_header [of E t cmd a] by (auto simp: hb_def)
  have size: "unat (word_of_nat (length a) :: uint32) = length a"
    using assms(3) by (simp add: MAX_SIZE_def unsigned_of_nat take_bit_nat_eq_self)
  have cur: "current t msgs = msgs @ [CNetMessage_new t]"
    using assms(2) by (cases "msgs = []") (simp_all add: current_def list_all_last)
  have new: "take_header (CNetMessage_new t) hb = (CNetMessage_new t)\<lparr>nm_hdrbuf := hb, nm_nHdrPos := 24\<rparr>"
    using hb by (simp add: take_header_def CNetMessage_new_def put_bytes_def)
  have "header_done (take_header (CNetMessage_new t) hb) = (Some m2, (CNetMessage_new t)\<lparr>nm_hdr := sent_header E t cmd a, nm_hdrbuf := [], nm_nHdrPos := 24\<rparr>)"
    unfolding new using unser_sent [of E t cmd a, folded hb_def] assms(3) size
    by (simp add: header_done_def m2_def arrived_def CNetMessage_new_def sent_header_def CMessageHeader_of_def)
  then have "absorb (CNetMessage_new t) (hb @ a) = (Some 24, m2)"
    using absorb_header [OF _ new_msg_ok [of t], of "hb @ a"] hb by (simp add: CNetMessage_new_def)
  then have first: "ReceiveMsgBytes t (hb @ a) msgs = ReceiveMsgBytes t a (msgs @ [m2])"
    using hb by (simp add: receive_step cur)
  have fields: "nm_in_data m2" "nm_nDataPos m2 = 0" "mh_nMessageSize (nm_hdr m2) = word_of_nat (length a)"
    by (simp_all add: m2_def arrived_def sent_header_def CMessageHeader_of_def)
  show ?thesis
  proof (cases "a = []")
    case True
    then have "m2 = arrived E t cmd a" by (simp add: m2_def arrived_def)
    with True first show ?thesis by (simp add: frame_def hb_def)
  next
    case False
    have "(word_of_nat (length a) :: uint32) \<noteq> 0" using size False by auto
    then have "\<not> complete m2" using fields by (simp add: complete_def)
    then have cur2: "current t (msgs @ [m2]) = msgs @ [m2]" by (simp add: current_def)
    have "unat (remaining m2) = length a" using fields size by (simp add: remaining_def)
    then have "absorb m2 a = (Some (length a), take_data m2 a)" using fields(1) by (simp add: absorb_data Let_def)
    moreover have "take_data m2 a = arrived E t cmd a" by (simp add: take_data_def m2_def arrived_def put_bytes_def)
    ultimately show ?thesis using False first by (simp add: frame_def hb_def receive_step cur2)
  qed
qed

lemma receive_frames:
  assumes "msgs_ok msgs" "list_all complete msgs" "list_all (\<lambda>(cmd, a). length a \<le> MAX_SIZE) ms"
  shows "ReceiveMsgBytes t (concat (map (\<lambda>(cmd, a). frame E t cmd a) ms)) msgs =
    (True, msgs @ map (\<lambda>(cmd, a). arrived E t cmd a) ms)"
  using assms
proof (induction ms arbitrary: msgs)
  case (Cons p ms)
  obtain cmd a where p: "p = (cmd, a)" by (cases p)
  have a: "length a \<le> MAX_SIZE" "list_all (\<lambda>(cmd, a). length a \<le> MAX_SIZE) ms" using Cons.prems(3) by (simp_all add: p)
  note one = receive_frame [OF Cons.prems(1,2) a(1), of t E cmd]
  have "msgs_ok (msgs @ [arrived E t cmd a])" by (rule receive_keeps [OF Cons.prems(1) one])
  from Cons.IH [OF this _ a(2)] show ?case
    using one Cons.prems(2) arrived_complete by (simp add: p receive_append [OF Cons.prems(1)])
qed simp

lemma push_all:
  "sn_nHeaderStart n = -1 \<Longrightarrow> sn_nMessageStart n = -1 \<Longrightarrow>
   fold (\<lambda>(cmd, a). PushMessage E t False cmd (Some a)) ms n =
     n\<lparr>sn_vSend := sn_vSend n @ concat (map (\<lambda>(cmd, a). frame E t cmd a) ms)\<rparr>"
  by (induction ms arbitrary: n) (auto simp: PushMessage_frame)

subsection \<open>Dispatching\<close>

definition proper_command :: "string \<Rightarrow> bool" where
  "proper_command cmd \<longleftrightarrow> length cmd \<le> 12 \<and> list_all (\<lambda>c. 0x20 \<le> (of_char c :: nat) \<and> (of_char c :: nat) \<le> 0x7e) cmd"

lemma command_bytes:
  assumes "0x20 \<le> (of_char c :: nat)" "(of_char c :: nat) \<le> 0x7e"
  shows "char_byte c \<noteq> 0" "0x20 \<le> sint (char_byte c)" "sint (char_byte c) \<le> 0x7e" "byte_char (char_byte c) = c"
proof -
  have u: "unat (char_byte c) = of_char c"
    using assms by (simp add: char_byte_def unsigned_of_nat take_bit_nat_eq_self)
  then have "uint (char_byte c) = int (of_char c)" by (metis of_nat_of_char uint_nat)
  moreover have "sint (char_byte c) = uint (char_byte c)"
    using calculation assms by (simp add: sint_uint signed_take_bit_int_eq_self)
  ultimately show "char_byte c \<noteq> 0" "0x20 \<le> sint (char_byte c)" "sint (char_byte c) \<le> 0x7e" "byte_char (char_byte c) = c"
    using assms u by (auto simp: byte_char_def)
qed

lemma strncpy_proper:
  assumes "proper_command cmd" shows "strncpy cmd COMMAND_SIZE = map char_byte cmd @ replicate (12 - length cmd) 0"
proof -
  have "c \<noteq> CHR 0x00" if "c \<in> set cmd" for c
    using assms that by (auto simp: proper_command_def list_all_iff)
  then have whole: "takeWhile (\<lambda>c. c \<noteq> CHR 0x00) cmd = cmd" by (simp only: takeWhile_eq_all_conv) blast
  then show ?thesis using assms unfolding strncpy_def whole by (simp add: Let_def COMMAND_SIZE_def proper_command_def)
qed

lemma command_ok_proper:
  "list_all (\<lambda>c. 0x20 \<le> (of_char c :: nat) \<and> (of_char c :: nat) \<le> 0x7e) cmd \<Longrightarrow> command_ok (map char_byte cmd @ replicate k 0)"
proof (induction cmd)
  case Nil
  then show ?case by (cases k) (simp_all add: list_all_iff)
next
  case (Cons c cmd)
  then show ?case using command_bytes [of c] by simp
qed

lemma GetCommand_proper:
  assumes "proper_command cmd" shows "GetCommand (sent_header E t cmd a) = cmd"
proof -
  have good: "\<forall>c \<in> set cmd. char_byte c \<noteq> 0 \<and> byte_char (char_byte c) = c"
    using assms command_bytes by (auto simp: proper_command_def list_all_iff)
  then have inv: "map byte_char (map char_byte cmd) = cmd" by (induction cmd) auto
  show ?thesis
  proof (cases "length cmd = 12")
    case True
    then have "map char_byte cmd ! 11 \<noteq> 0" using good by simp
    with True inv show ?thesis
      using strncpy_proper [OF assms] by (simp add: GetCommand_def sent_header_def CMessageHeader_of_def COMMAND_SIZE_def)
  next
    case False
    then have lt: "length cmd < 12" using assms by (simp add: proper_command_def)
    then have "(map char_byte cmd @ replicate (12 - length cmd) 0) ! 11 = (0 :: byte)" by (simp add: nth_append)
    moreover have "takeWhile (\<lambda>b. b \<noteq> 0) (map char_byte cmd @ replicate (12 - length cmd) 0) = map char_byte cmd"
      using good lt by (subst takeWhile_append2) (auto simp: gr0_conv_Suc dest!: less_imp_Suc_add)
    ultimately show ?thesis
      using strncpy_proper [OF assms] inv by (simp add: GetCommand_def sent_header_def CMessageHeader_of_def COMMAND_SIZE_def)
  qed
qed

definition sendable :: "string \<times> byte list \<Rightarrow> bool" where
  "sendable = (\<lambda>(cmd, a). proper_command cmd \<and> length a \<le> MAX_SIZE)"

definition header_fits :: "openssl \<Rightarrow> bool \<Rightarrow> CNetMessage \<Rightarrow> bool" where
  "header_fits E t m \<longleftrightarrow> IsValid_header t (nm_hdr m) \<and>
     checksum E (take (unat (mh_nMessageSize (nm_hdr m))) (nm_vRecv m)) = mh_nChecksum (nm_hdr m)"

definition handle :: "'s dispatcher \<Rightarrow> string \<Rightarrow> byte list \<Rightarrow> 's \<Rightarrow> 's" where
  "handle D cmd a s = snd (dp_ProcessMessage D cmd a s)"

lemma arrived_fits:
  assumes "sendable (cmd, a)" shows "header_fits E t (arrived E t cmd a)"
proof -
  have ok: "proper_command cmd" "length a \<le> MAX_SIZE" using assms by (simp_all add: sendable_def)
  then have "unat (word_of_nat (length a) :: uint32) = length a"
    by (simp add: MAX_SIZE_def unsigned_of_nat take_bit_nat_eq_self)
  with ok show ?thesis
    using strncpy_proper [OF ok(1)] command_ok_proper [of cmd] unfolding proper_command_def
    by (simp add: header_fits_def IsValid_header_def arrived_def sent_header_def CMessageHeader_of_def)
qed

lemma process_all:
  assumes "\<And>s. \<not> dp_send_full D s" "\<And>s. \<not> dp_fShutdown D s"
    "list_all (\<lambda>m. complete m \<and> mh_pchMessageStart (nm_hdr m) = pchMessageStart t) msgs"
  shows "process_loop E t D (msgs @ rest) s =
    process_loop E t D rest (fold (\<lambda>m. handle D (GetCommand (nm_hdr m)) (nm_vRecv m)) (filter (header_fits E t) msgs) s)"
  using assms(3)
proof (induction msgs arbitrary: s)
  case (Cons m msgs)
  then show ?case
    using assms(1,2) by (auto simp: header_fits_def handle_def Let_def split: prod.split)
qed simp

text \<open>C29: Messages that are sent arrive: whatever pieces the network delivers the send buffer in, the
  receiver hands every message to its handler, with its command and its data and in the order in
  which they were sent, and keeps nothing back.\<close>

theorem messages_arrive:
  assumes "list_all sendable ms" "\<And>s. \<not> dp_send_full D s" "\<And>s. \<not> dp_fShutdown D s"
    and "concat pieces = sn_vSend (fold (\<lambda>(cmd, a). PushMessage E t False cmd (Some a)) ms sender_new)"
  shows "fst (receive_pieces t pieces []) \<and>
    ProcessMessages E t D (snd (receive_pieces t pieces [])) s = (True, [], fold (\<lambda>(cmd, a). handle D cmd a) ms s)"
proof -
  have new: "sn_nHeaderStart sender_new = -1" "sn_nMessageStart sender_new = -1" "sn_vSend sender_new = []"
    by (simp_all add: sender_new_def)
  have sizes: "list_all (\<lambda>(cmd, a). length a \<le> MAX_SIZE) ms"
    using assms(1) by (auto simp: list_all_iff sendable_def)
  have ok: "msgs_ok []" by (simp add: msgs_ok_def)
  define done_ms where "done_ms = map (\<lambda>(cmd, a). arrived E t cmd a) ms"
  have r: "receive_pieces t pieces [] = (True, done_ms)"
    using receive_frames [OF ok _ sizes, of t E] push_all [OF new(1,2), of E t ms] assms(4) new(3)
    by (simp add: pieces_concat [OF ok] done_ms_def)
  have "list_all (\<lambda>m. complete m \<and> mh_pchMessageStart (nm_hdr m) = pchMessageStart t) done_ms"
    by (auto simp: done_ms_def list_all_iff arrived_complete) (simp_all add: arrived_def sent_header_def CMessageHeader_of_def)
  from process_all [OF assms(2,3) this, of E "[]" s]
  have p: "process_loop E t D done_ms s =
      (True, [], fold (\<lambda>m. handle D (GetCommand (nm_hdr m)) (nm_vRecv m)) (filter (header_fits E t) done_ms) s)" by simp
  have "filter (header_fits E t) done_ms = done_ms"
    using assms(1) arrived_fits by (auto simp: done_ms_def list_all_iff filter_id_conv)
  moreover have "fold (\<lambda>m. handle D (GetCommand (nm_hdr m)) (nm_vRecv m)) done_ms s = fold (\<lambda>(cmd, a). handle D cmd a) ms s"
    using assms(1) unfolding done_ms_def
    by (induction ms arbitrary: s) (auto simp: sendable_def arrived_def GetCommand_proper)
  ultimately show ?thesis using p r by (simp add: ProcessMessages_def)
qed

text \<open>C30: Of the complete messages, those with a command that is not printable, an excessive size or a
  wrong check sum are skipped and the others handled in order; a message that does not begin with
  the start bytes ends the work, and it and all before it are dropped.\<close>

theorem damaged_messages:
  assumes "list_all (\<lambda>m. complete m \<and> mh_pchMessageStart (nm_hdr m) = pchMessageStart t) msgs"
    and "complete bad" "mh_pchMessageStart (nm_hdr bad) \<noteq> pchMessageStart t"
    and "\<And>s. \<not> dp_send_full D s" "\<And>s. \<not> dp_fShutdown D s"
  shows "ProcessMessages E t D (msgs @ bad # rest) s =
    (False, rest, fold (\<lambda>m. handle D (GetCommand (nm_hdr m)) (nm_vRecv m)) (filter (header_fits E t) msgs) s)"
  using process_all [OF assms(4,5,1)] assms(2-4) by (simp add: ProcessMessages_def)

subsection \<open>Examples\<close>

definition log_messages :: "(string \<times> byte list) list dispatcher" where
  "log_messages = \<lparr>dp_send_full = (\<lambda>_. False), dp_ProcessMessage = (\<lambda>cmd a s. (True, s @ [(cmd, a)])),
     dp_fShutdown = (\<lambda>_. False)\<rparr>"

lemma log_messages_simps [simp]:
  "dp_send_full log_messages s = False" "dp_fShutdown log_messages s = False" "handle log_messages cmd a s = s @ [(cmd, a)]"
  by (simp_all add: log_messages_def handle_def)

lemma receive_pieces_equiv_witness:
  "receive_pieces False [[0xdb], [0xad]] [] = receive_pieces False [[0xdb, 0xad]] []"
  using receive_pieces_equiv [of "[]" "[[0xdb], [0xad]]" "[[0xdb, 0xad]]" False] by (simp add: msgs_ok_def)

definition two_messages :: sender where
  "two_messages = PushMessage sample_ssl False False ''verack'' (Some [])
     (PushMessage sample_ssl False False ''ping'' (Some [1, 2, 3]) sender_new)"

lemma sendable_samples: "sendable (''ping'', [1, 2, 3])" "sendable (''verack'', [])" "sendable (''ping'', [1])"
  by (simp_all add: sendable_def proper_command_def MAX_SIZE_def of_char_of)

lemma messages_arrive_witness:
  "ProcessMessages sample_ssl False log_messages (snd (receive_pieces False (map (\<lambda>b. [b]) (sn_vSend two_messages)) [])) []
    = (True, [], [(''ping'', [1, 2, 3]), (''verack'', [])])"
proof -
  have "list_all sendable [(''ping'', [1, 2, 3]), (''verack'', [])]" using sendable_samples by simp
  moreover have "concat (map (\<lambda>b. [b]) (sn_vSend two_messages)) = sn_vSend (fold (\<lambda>(cmd, a). PushMessage sample_ssl False False cmd (Some a))
      [(''ping'', [1, 2, 3]), (''verack'', [])] sender_new)"
    by (simp add: two_messages_def)
  ultimately show ?thesis
    using messages_arrive [of "[(''ping'', [1, 2, 3]), (''verack'', [])]" log_messages] by simp
qed

definition bad_command :: CNetMessage where
  "bad_command = (arrived sample_ssl False ''ping'' [1])\<lparr>nm_hdr := (sent_header sample_ssl False ''ping'' [1])\<lparr>mh_pchCommand := [200]\<rparr>\<rparr>"

definition bad_start :: CNetMessage where
  "bad_start = (arrived sample_ssl False ''ping'' [1])\<lparr>nm_hdr := (sent_header sample_ssl False ''ping'' [1])\<lparr>mh_pchMessageStart := [0, 0, 0, 0]\<rparr>\<rparr>"

lemma damaged_messages_witness:
  "ProcessMessages sample_ssl False log_messages [bad_command, arrived sample_ssl False ''ping'' [1], bad_start, bad_command] []
    = (False, [bad_command], [(''ping'', [1])])"
proof -
  have c: "complete bad_command" "complete bad_start"
    by (simp_all add: bad_command_def bad_start_def complete_def arrived_def sent_header_def CMessageHeader_of_def)
  have start: "mh_pchMessageStart (nm_hdr bad_command) = pchMessageStart False" "mh_pchMessageStart (nm_hdr bad_start) \<noteq> pchMessageStart False"
    "mh_pchMessageStart (nm_hdr (arrived sample_ssl False ''ping'' [1])) = pchMessageStart False"
    by (simp_all add: bad_command_def bad_start_def arrived_def sent_header_def CMessageHeader_of_def pchMessageStart_def)
  have bad: "\<not> header_fits sample_ssl False bad_command"
    by (simp add: header_fits_def IsValid_header_def bad_command_def)
  have cmd: "GetCommand (nm_hdr (arrived sample_ssl False ''ping'' [1])) = ''ping''" "nm_vRecv (arrived sample_ssl False ''ping'' [1]) = [1]"
    using GetCommand_proper [of "''ping''"] sendable_samples(3) by (simp_all add: arrived_def sendable_def)
  have "list_all (\<lambda>m. complete m \<and> mh_pchMessageStart (nm_hdr m) = pchMessageStart False) [bad_command, arrived sample_ssl False ''ping'' [1]]"
    using c start arrived_complete by simp
  from damaged_messages [OF this c(2) start(2), of log_messages sample_ssl "[bad_command]" "[]"]
  show ?thesis using bad arrived_fits [OF sendable_samples(3)] cmd by simp
qed

lemma received_well_formed_witness:
  "length (nm_hdrbuf (last (snd (receive_pieces False [[0xdb, 0xad]] [])))) = 24"
proof -
  have one: "ReceiveMsgBytes False [0xdb, 0xad] [] = (True, [take_header (CNetMessage_new False) [0xdb, 0xad]])"
    using absorb_header [OF _ new_msg_ok [of False], of "[0xdb, 0xad]"]
    by (simp add: receive_step current_def CNetMessage_new_def)
  then have "receive_pieces False [[0xdb, 0xad]] [] = (True, [take_header (CNetMessage_new False) [0xdb, 0xad]])" by simp
  from received_well_formed [OF this] show ?thesis using one by (simp add: take_header_def CNetMessage_new_def)
qed

end
