(* ===== verification/Coin_Select.thy ===== *)
theory Coin_Select
  imports Transaction "HOL-Library.Multiset"
begin

text \<open>
  The wallet's choice of coins for a payment (\<open>ApproximateBestSubset\<close> and \<open>SelectCoinsMinConf\<close> in
  \<open>src/wallet.cpp\<close>). A coin is an output of a wallet transaction; the pointer to the transaction
  is the hash under which the wallet has it. \<open>std::random_shuffle\<close> may return any permutation and
  \<open>rand()\<close> any bits: both are a parameter. \<open>std::sort\<close> leaves the order of equal elements open;
  one of the orders is taken, and no statement depends on it.
\<close>

type_synonym coin_key = "uint256 \<times> nat"
type_synonym coin = "int64 \<times> coin_key"

text \<open>\<open>COutput\<close>, with what the selection reads through its pointer.\<close>

record COutput =
  co_tx :: uint256
  co_i :: nat
  co_nDepth :: int
  co_IsFromMe :: bool
  co_nTime :: uint32
  co_nValue :: int64

definition coin_key :: "COutput \<Rightarrow> coin_key" where
  "coin_key c = (co_tx c, co_i c)"

record random_source =
  rs_shuffle :: "COutput list \<Rightarrow> COutput list"
  rs_rand :: "nat \<Rightarrow> bool"

definition coin_CENT :: int64 where "coin_CENT = 10000"

subsection \<open>Approximating the best subset\<close>

record subset_state =
  ss_rand :: nat
  ss_nTotal :: int64
  ss_vfIncluded :: "bool list"
  ss_fReachedTarget :: bool
  ss_vfBest :: "bool list"
  ss_nBest :: int64

text \<open>One coin in one pass; the first pass draws a random bit for every coin.\<close>

definition subset_step :: "(nat \<Rightarrow> bool) \<Rightarrow> coin list \<Rightarrow> int64 \<Rightarrow> nat \<Rightarrow> nat \<Rightarrow> subset_state \<Rightarrow> subset_state" where
  "subset_step rnd vValue nTargetValue nPass i s =
     (let pick = (if nPass = 0 then rnd (ss_rand s) else \<not> ss_vfIncluded s ! i);
          s = (if nPass = 0 then s\<lparr>ss_rand := ss_rand s + 1\<rparr> else s)
      in if pick then
           let nTotal = ss_nTotal s + fst (vValue ! i); vfIncluded = (ss_vfIncluded s)[i := True]
           in if sint nTargetValue \<le> sint nTotal then
                let s = (if sint nTotal < sint (ss_nBest s) then s\<lparr>ss_nBest := nTotal, ss_vfBest := vfIncluded\<rparr> else s)
                in s\<lparr>ss_fReachedTarget := True, ss_nTotal := nTotal - fst (vValue ! i), ss_vfIncluded := vfIncluded[i := False]\<rparr>
              else s\<lparr>ss_nTotal := nTotal, ss_vfIncluded := vfIncluded\<rparr>
         else s)"

definition subset_pass :: "(nat \<Rightarrow> bool) \<Rightarrow> coin list \<Rightarrow> int64 \<Rightarrow> nat \<Rightarrow> subset_state \<Rightarrow> subset_state" where
  "subset_pass rnd vValue nTargetValue nPass s = fold (subset_step rnd vValue nTargetValue nPass) [0..<length vValue] s"

definition subset_rep :: "(nat \<Rightarrow> bool) \<Rightarrow> coin list \<Rightarrow> int64 \<Rightarrow> subset_state \<Rightarrow> subset_state" where
  "subset_rep rnd vValue nTargetValue s =
     (let s = s\<lparr>ss_vfIncluded := replicate (length vValue) False, ss_nTotal := 0, ss_fReachedTarget := False\<rparr>;
          s = subset_pass rnd vValue nTargetValue 0 s
      in if ss_fReachedTarget s then s else subset_pass rnd vValue nTargetValue 1 s)"

fun subset_loop :: "(nat \<Rightarrow> bool) \<Rightarrow> coin list \<Rightarrow> int64 \<Rightarrow> nat \<Rightarrow> subset_state \<Rightarrow> subset_state" where
  "subset_loop rnd vValue nTargetValue 0 s = s"
| "subset_loop rnd vValue nTargetValue (Suc iterations) s =
     (if ss_nBest s = nTargetValue then s
      else subset_loop rnd vValue nTargetValue iterations (subset_rep rnd vValue nTargetValue s))"

definition ApproximateBestSubset ::
  "(nat \<Rightarrow> bool) \<Rightarrow> nat \<Rightarrow> coin list \<Rightarrow> int64 \<Rightarrow> int64 \<Rightarrow> nat \<Rightarrow> bool list \<times> int64 \<times> nat" where
  "ApproximateBestSubset rnd k vValue nTotalLower nTargetValue iterations =
     (let s = subset_loop rnd vValue nTargetValue iterations
            \<lparr>ss_rand = k, ss_nTotal = 0, ss_vfIncluded = [], ss_fReachedTarget = False,
             ss_vfBest = replicate (length vValue) True, ss_nBest = nTotalLower\<rparr>
      in (ss_vfBest s, ss_nBest s, ss_rand s))"

subsection \<open>Selecting coins\<close>

record min_conf =
  mc_vValue :: "coin list"
  mc_nTotalLower :: int64
  mc_nLowestLarger :: int64
  mc_coinLowestLarger :: "coin_key option"

definition int64_max :: int64 where "int64_max = 0x7fffffffffffffff"

definition coin_eligible :: "uint32 \<Rightarrow> int \<Rightarrow> int \<Rightarrow> COutput \<Rightarrow> bool" where
  "coin_eligible nSpendTime nConfMine nConfTheirs c \<longleftrightarrow>
     \<not> co_nDepth c < (if co_IsFromMe c then nConfMine else nConfTheirs) \<and> \<not> nSpendTime < co_nTime c"

text \<open>The loop over the coins; \<open>Inl\<close> is a coin of exactly the target's value.\<close>

fun min_conf_loop :: "int64 \<Rightarrow> uint32 \<Rightarrow> int \<Rightarrow> int \<Rightarrow> COutput list \<Rightarrow> min_conf \<Rightarrow> coin + min_conf" where
  "min_conf_loop nTargetValue nSpendTime nConfMine nConfTheirs [] s = Inr s"
| "min_conf_loop nTargetValue nSpendTime nConfMine nConfTheirs (c # cs) s =
     (if \<not> coin_eligible nSpendTime nConfMine nConfTheirs c
      then min_conf_loop nTargetValue nSpendTime nConfMine nConfTheirs cs s
      else let n = co_nValue c; coin = (n, coin_key c)
           in if n = nTargetValue then Inl coin
              else if sint n < sint (nTargetValue + coin_CENT)
              then min_conf_loop nTargetValue nSpendTime nConfMine nConfTheirs cs
                     (s\<lparr>mc_vValue := mc_vValue s @ [coin], mc_nTotalLower := mc_nTotalLower s + n\<rparr>)
              else if sint n < sint (mc_nLowestLarger s)
              then min_conf_loop nTargetValue nSpendTime nConfMine nConfTheirs cs
                     (s\<lparr>mc_nLowestLarger := n, mc_coinLowestLarger := Some (snd coin)\<rparr>)
              else min_conf_loop nTargetValue nSpendTime nConfMine nConfTheirs cs s)"

text \<open>The coins that a vector of flags includes.\<close>

fun included :: "coin list \<Rightarrow> bool list \<Rightarrow> coin list" where
  "included (c # cs) (b # bs) = (if b then [c] else []) @ included cs bs"
| "included _ _ = []"

definition take_coins :: "coin list \<Rightarrow> bool \<times> coin_key set \<times> int64" where
  "take_coins cs = (True, set (map snd cs), fold (\<lambda>c v. v + fst c) cs 0)"

text \<open>What follows the loop, when no coin has exactly the value.\<close>

definition best_coins :: "(nat \<Rightarrow> bool) \<Rightarrow> int64 \<Rightarrow> coin list \<Rightarrow> int64 \<Rightarrow> bool list \<times> int64" where
  "best_coins rnd nTargetValue vValue nTotalLower =
     (let (vfBest, nBest, k) = ApproximateBestSubset rnd 0 vValue nTotalLower nTargetValue 1000
      in if nBest \<noteq> nTargetValue \<and> sint (nTargetValue + coin_CENT) \<le> sint nTotalLower
         then (let (vfBest, nBest, k) = ApproximateBestSubset rnd k vValue nTotalLower (nTargetValue + coin_CENT) 1000
               in (vfBest, nBest))
         else (vfBest, nBest))"

definition select_subset :: "(nat \<Rightarrow> bool) \<Rightarrow> int64 \<Rightarrow> min_conf \<Rightarrow> bool \<times> coin_key set \<times> int64" where
  "select_subset rnd nTargetValue s =
     (let vValue = rev (sort_key (\<lambda>c. sint (fst c)) (mc_vValue s));
          (vfBest, nBest) = best_coins rnd nTargetValue vValue (mc_nTotalLower s)
      in case mc_coinLowestLarger s of
           Some key \<Rightarrow>
             if nBest \<noteq> nTargetValue \<and> sint nBest < sint (nTargetValue + coin_CENT) \<or> sint (mc_nLowestLarger s) \<le> sint nBest
             then take_coins [(mc_nLowestLarger s, key)]
             else take_coins (included vValue vfBest)
         | None \<Rightarrow> take_coins (included vValue vfBest))"

definition select_rest :: "(nat \<Rightarrow> bool) \<Rightarrow> int64 \<Rightarrow> min_conf \<Rightarrow> bool \<times> coin_key set \<times> int64" where
  "select_rest rnd nTargetValue s =
     (if mc_nTotalLower s = nTargetValue then take_coins (mc_vValue s)
      else if sint (mc_nTotalLower s) < sint nTargetValue
      then (case mc_coinLowestLarger s of
              None \<Rightarrow> (False, {}, 0)
            | Some key \<Rightarrow> take_coins [(mc_nLowestLarger s, key)])
      else select_subset rnd nTargetValue s)"

definition SelectCoinsMinConf ::
  "random_source \<Rightarrow> int64 \<Rightarrow> uint32 \<Rightarrow> int \<Rightarrow> int \<Rightarrow> COutput list \<Rightarrow> bool \<times> coin_key set \<times> int64" where
  "SelectCoinsMinConf R nTargetValue nSpendTime nConfMine nConfTheirs vCoins =
     (case min_conf_loop nTargetValue nSpendTime nConfMine nConfTheirs (rs_shuffle R vCoins)
             \<lparr>mc_vValue = [], mc_nTotalLower = 0, mc_nLowestLarger = int64_max, mc_coinLowestLarger = None\<rparr> of
        Inl coin \<Rightarrow> take_coins [coin]
      | Inr s \<Rightarrow> select_rest (rs_rand R) nTargetValue s)"

end
