(* ===== verification/Coin_Rules.thy ===== *)
theory Coin_Rules
  imports Coin_Select
begin

text \<open>
  The selection of coins finds a payment exactly when the coins that may be used are worth
  enough, and what it returns is worth what it says.
\<close>

subsection \<open>Sums of coins\<close>

definition csum :: "coin list \<Rightarrow> int" where
  "csum cs = (\<Sum>c\<leftarrow>cs. sint (fst c))"

lemma csum_simps [simp]: "csum [] = 0" "csum (c # cs) = sint (fst c) + csum cs" "csum (xs @ ys) = csum xs + csum ys"
  by (simp_all add: csum_def)

definition positive :: "coin list \<Rightarrow> bool" where
  "positive cs \<longleftrightarrow> (\<forall>c \<in> set cs. 0 < sint (fst c))"

lemma csum_nonneg: "positive cs \<Longrightarrow> 0 \<le> csum cs"
  by (induction cs) (auto simp: positive_def)

lemma csum_sum_mset: "csum xs = sum_mset (image_mset (\<lambda>c. sint (fst c)) (mset xs))"
  by (induction xs) simp_all

lemma csum_mset: "mset xs = mset ys \<Longrightarrow> csum xs = csum ys"
  by (simp only: csum_sum_mset)

lemma included_subset: "set (included vs vf) \<subseteq> set vs"
  by (induction vs vf rule: included.induct) auto

lemma included_distinct: "distinct (map snd vs) \<Longrightarrow> distinct (map snd (included vs vf))"
proof (induction vs vf rule: included.induct)
  case (1 c cs b bs)
  have "set (map snd (included cs bs)) \<subseteq> set (map snd cs)" using included_subset [of cs bs] by auto
  with 1 show ?case by auto
qed simp_all

lemma included_bounds: "positive vs \<Longrightarrow> 0 \<le> csum (included vs vf) \<and> csum (included vs vf) \<le> csum vs"
proof (induction vs vf rule: included.induct, goal_cases)
  case (1 c cs b bs)
  then show ?case by (auto simp: positive_def)
next
  case (2 v)
  then show ?case using csum_nonneg by (cases v) auto
next
  case (3 v)
  then show ?case using csum_nonneg [of v] by simp
qed

lemma included_true: "csum (included vs (replicate (length vs) True)) = csum vs"
  by (induction vs) auto

lemma included_false: "included vs (replicate (length vs) False) = []"
  by (induction vs) auto

lemma included_put:
  "length vf = length vs \<Longrightarrow> i < length vs \<Longrightarrow> \<not> vf ! i \<Longrightarrow>
    csum (included vs (vf[i := True])) = csum (included vs vf) + sint (fst (vs ! i))"
proof (induction vs vf arbitrary: i rule: included.induct)
  case (1 c cs b bs)
  then show ?case by (cases i) auto
qed simp_all

subsection \<open>The approximation\<close>

definition best_ok :: "coin list \<Rightarrow> int64 \<Rightarrow> subset_state \<Rightarrow> bool" where
  "best_ok vs target s \<longleftrightarrow> length (ss_vfBest s) = length vs \<and> csum (included vs (ss_vfBest s)) = sint (ss_nBest s) \<and>
     sint target \<le> sint (ss_nBest s)"

definition total_ok :: "coin list \<Rightarrow> subset_state \<Rightarrow> bool" where
  "total_ok vs s \<longleftrightarrow> length (ss_vfIncluded s) = length vs \<and> csum (included vs (ss_vfIncluded s)) = sint (ss_nTotal s)"

lemma subset_step_ok:
  assumes vs: "positive vs" "csum vs < 2 ^ 63" and i: "i < length vs" "nPass = 0 \<longrightarrow> \<not> ss_vfIncluded s ! i"
    and s: "best_ok vs target s" "total_ok vs s"
  shows "best_ok vs target (subset_step rnd vs target nPass i s)" "total_ok vs (subset_step rnd vs target nPass i s)"
    "j \<noteq> i \<Longrightarrow> ss_vfIncluded (subset_step rnd vs target nPass i s) ! j = ss_vfIncluded s ! j"
proof -
  define inc where "inc = ss_vfIncluded s"
  define c where "c = fst (vs ! i)"
  define t where "t = ss_nTotal s"
  define pick where "pick = (if nPass = 0 then rnd (ss_rand s) else \<not> inc ! i)"
  have len: "length inc = length vs" "csum (included vs inc) = sint t" using s(2) by (simp_all add: total_ok_def inc_def t_def)
  have free: "\<not> inc ! i" if pick using that i(2) by (cases "nPass = 0") (auto simp: pick_def inc_def)
  have put: "csum (included vs (inc[i := True])) = sint (t + c)" "sint (t + c) = sint t + sint c" if pick
  proof -
    have sum: "csum (included vs (inc[i := True])) = sint t + sint c"
      using included_put [OF len(1) i(1) free [OF that]] len(2) by (simp add: c_def)
    moreover have "0 \<le> csum (included vs (inc[i := True]))" "csum (included vs (inc[i := True])) \<le> csum vs"
      using included_bounds [OF vs(1), of "inc[i := True]"] by simp_all
    ultimately show "sint (t + c) = sint t + sint c" using vs(2) by (intro sint64_add) simp_all
    with sum show "csum (included vs (inc[i := True])) = sint (t + c)" by simp
  qed
  have undo: "inc[i := False] = inc" if pick using free [OF that] len(1) i(1) by (metis (full_types) list_update_id)
  have eq: "subset_step rnd vs target nPass i s =
    (let s1 = (if nPass = 0 then s\<lparr>ss_rand := ss_rand s + 1\<rparr> else s)
     in if pick then
          if sint target \<le> sint (t + c) then
            (if sint (t + c) < sint (ss_nBest s) then s1\<lparr>ss_nBest := t + c, ss_vfBest := inc[i := True]\<rparr> else s1)
              \<lparr>ss_fReachedTarget := True, ss_nTotal := t, ss_vfIncluded := inc\<rparr>
          else s1\<lparr>ss_nTotal := t + c, ss_vfIncluded := inc[i := True]\<rparr>
        else s1)"
    using undo by (simp add: subset_step_def Let_def pick_def inc_def t_def c_def)
  show "best_ok vs target (subset_step rnd vs target nPass i s)"
    using s(1) put(1) len(1) unfolding eq best_ok_def by (auto simp: Let_def)
  show "total_ok vs (subset_step rnd vs target nPass i s)"
    using s(2) put(1) len unfolding eq total_ok_def by (auto simp: Let_def)
  show "j \<noteq> i \<Longrightarrow> ss_vfIncluded (subset_step rnd vs target nPass i s) ! j = ss_vfIncluded s ! j"
    unfolding eq by (auto simp: Let_def inc_def)
qed

lemma subset_fold_ok:
  assumes "positive vs" "csum vs < 2 ^ 63" "\<forall>i \<in> set is. i < length vs" "distinct is"
    and "nPass = 0 \<longrightarrow> (\<forall>i \<in> set is. \<not> ss_vfIncluded s ! i)" "best_ok vs target s" "total_ok vs s"
  shows "best_ok vs target (fold (subset_step rnd vs target nPass) is s) \<and> total_ok vs (fold (subset_step rnd vs target nPass) is s)"
  using assms(3-)
proof (induction "is" arbitrary: s)
  case (Cons i "is")
  have i: "i < length vs" "nPass = 0 \<longrightarrow> \<not> ss_vfIncluded s ! i" using Cons.prems by simp_all
  note st = subset_step_ok [OF assms(1,2) i Cons.prems(4,5), where rnd = rnd]
  have "nPass = 0 \<longrightarrow> (\<forall>j \<in> set is. \<not> ss_vfIncluded (subset_step rnd vs target nPass i s) ! j)"
    using Cons.prems(2,3) st(3) by (metis distinct.simps(2) list.set_intros(2))
  from Cons.IH [OF _ _ this st(1,2)] Cons.prems(1,2) show ?case by simp
qed simp

lemma subset_rep_ok:
  assumes "positive vs" "csum vs < 2 ^ 63" "best_ok vs target s"
  shows "best_ok vs target (subset_rep rnd vs target s)"
proof -
  define s0 where "s0 = s\<lparr>ss_vfIncluded := replicate (length vs) False, ss_nTotal := 0, ss_fReachedTarget := False\<rparr>"
  have s0: "best_ok vs target s0" "total_ok vs s0"
    using assms(3) by (simp_all add: best_ok_def total_ok_def s0_def included_false)
  define s1 where "s1 = subset_pass rnd vs target 0 s0"
  have "best_ok vs target s1 \<and> total_ok vs s1"
    unfolding s1_def subset_pass_def by (rule subset_fold_ok [OF assms(1,2) _ _ _ s0]) (simp_all add: s0_def)
  moreover from this have "best_ok vs target (subset_pass rnd vs target 1 s1)"
    unfolding subset_pass_def using subset_fold_ok [OF assms(1,2), of "[0..<length vs]" 1 s1 target rnd] by simp
  ultimately show ?thesis by (simp add: subset_rep_def Let_def s0_def [symmetric] s1_def [symmetric])
qed

lemma subset_loop_ok:
  "positive vs \<Longrightarrow> csum vs < 2 ^ 63 \<Longrightarrow> best_ok vs target s \<Longrightarrow> best_ok vs target (subset_loop rnd vs target n s)"
  by (induction n arbitrary: s) (simp_all add: subset_rep_ok)

lemma ApproximateBestSubset_ok:
  assumes "positive vs" "csum vs < 2 ^ 63" "csum vs = sint nTotalLower" "sint target \<le> sint nTotalLower"
    and "ApproximateBestSubset rnd k vs nTotalLower target n = (vf, nBest, k')"
  shows "csum (included vs vf) = sint nBest" "sint target \<le> sint nBest"
proof -
  define s0 where "s0 = \<lparr>ss_rand = k, ss_nTotal = 0, ss_vfIncluded = [], ss_fReachedTarget = False,
             ss_vfBest = replicate (length vs) True, ss_nBest = nTotalLower\<rparr>"
  have "best_ok vs target s0" using assms(3,4) by (simp add: best_ok_def s0_def included_true)
  from subset_loop_ok [OF assms(1,2) this, of rnd n] assms(5)
  show "csum (included vs vf) = sint nBest" "sint target \<le> sint nBest"
    by (auto simp: ApproximateBestSubset_def Let_def s0_def [symmetric] best_ok_def)
qed

subsection \<open>The loop over the coins\<close>

definition coin_of :: "COutput \<Rightarrow> coin" where
  "coin_of c = (co_nValue c, coin_key c)"

lemma coin_of_fields [simp]: "fst (coin_of c) = co_nValue c" "snd (coin_of c) = coin_key c"
  by (simp_all add: coin_of_def)

definition lower_coin :: "int64 \<Rightarrow> COutput \<Rightarrow> bool" where
  "lower_coin target c \<longleftrightarrow> sint (co_nValue c) < sint (target + coin_CENT)"

definition loop_inv :: "int64 \<Rightarrow> COutput list \<Rightarrow> min_conf \<Rightarrow> bool" where
  "loop_inv target D s \<longleftrightarrow> mc_vValue s = map coin_of (filter (lower_coin target) D) \<and>
     sint (mc_nTotalLower s) = csum (mc_vValue s) \<and>
     (case mc_coinLowestLarger s of
        None \<Rightarrow> mc_nLowestLarger s = int64_max \<and> (\<forall>c \<in> set D. lower_coin target c)
      | Some key \<Rightarrow> \<exists>c \<in> set D. \<not> lower_coin target c \<and> coin_of c = (mc_nLowestLarger s, key))"

definition coins_ok :: "COutput list \<Rightarrow> bool" where
  "coins_ok cs \<longleftrightarrow> positive (map coin_of cs) \<and> csum (map coin_of cs) < 2 ^ 63 - 1 \<and> distinct (map coin_key cs)"

lemma positive_append [simp]: "positive (xs @ ys) \<longleftrightarrow> positive xs \<and> positive ys"
  by (auto simp: positive_def)

lemma csum_filter: "positive (map coin_of cs) \<Longrightarrow> csum (map coin_of (filter P cs)) \<le> csum (map coin_of cs)"
  by (induction cs) (auto simp: positive_def)

lemma positive_filter: "positive (map coin_of cs) \<Longrightarrow> positive (map coin_of (filter P cs))"
  by (auto simp: positive_def)

lemma int64_max_value: "sint int64_max = 2 ^ 63 - 1"
  by (simp add: int64_max_def)

lemma min_conf_loop_inv:
  assumes "loop_inv target D s" "positive (map coin_of (D @ cs))" "csum (map coin_of (D @ cs)) < 2 ^ 63 - 1"
    and "min_conf_loop target t m th cs s = Inr s'"
  shows "loop_inv target (D @ filter (coin_eligible t m th) cs) s'"
  using assms
proof (induction cs arbitrary: D s)
  case (Cons c cs)
  have pos: "positive (map coin_of D)" "0 < sint (co_nValue c)" "positive (map coin_of cs)"
    using Cons.prems(2) by (auto simp: positive_def coin_of_def)
  have sums: "0 \<le> csum (map coin_of cs)" "0 \<le> csum (map coin_of D)"
    "csum (map coin_of D) + sint (co_nValue c) + csum (map coin_of cs) < 2 ^ 63 - 1"
    using csum_nonneg [OF pos(1)] csum_nonneg [OF pos(3)] Cons.prems(3) by simp_all
  show ?case
  proof (cases "coin_eligible t m th c")
    case False
    have "positive (map coin_of (D @ cs))" "csum (map coin_of (D @ cs)) < 2 ^ 63 - 1" using pos sums by simp_all
    from Cons.IH [OF Cons.prems(1) this] Cons.prems(4) False show ?thesis by simp
  next
    case True
    define n where "n = co_nValue c"
    have later: "positive (map coin_of ((D @ [c]) @ cs))" "csum (map coin_of ((D @ [c]) @ cs)) < 2 ^ 63 - 1"
      using Cons.prems(2,3) by simp_all
    note IH = Cons.IH [OF _ later]
    have step: "loop_inv target (D @ [c]) (if sint n < sint (target + coin_CENT)
        then s\<lparr>mc_vValue := mc_vValue s @ [(n, coin_key c)], mc_nTotalLower := mc_nTotalLower s + n\<rparr>
        else if sint n < sint (mc_nLowestLarger s) then s\<lparr>mc_nLowestLarger := n, mc_coinLowestLarger := Some (coin_key c)\<rparr> else s)"
    proof -
      have v: "mc_vValue s = map coin_of (filter (lower_coin target) D)" "sint (mc_nTotalLower s) = csum (mc_vValue s)"
        using Cons.prems(1) by (simp_all add: loop_inv_def)
      have "0 \<le> csum (mc_vValue s)" "csum (mc_vValue s) \<le> csum (map coin_of D)"
        unfolding v(1) using csum_nonneg [OF positive_filter [OF pos(1)]] csum_filter [OF pos(1)] by blast+
      then have "sint (mc_nTotalLower s + n) = csum (mc_vValue s) + sint n"
        using v(2) sums pos(2) by (subst sint64_add) (simp_all add: n_def)
      moreover have "sint n < sint int64_max" using sums by (simp add: int64_max_value n_def)
      ultimately show ?thesis
        using Cons.prems(1) v unfolding loop_inv_def
        by (auto simp: lower_coin_def coin_of_def n_def split: option.splits)
    qed
    show ?thesis
    proof (cases "n = target")
      case True
      with Cons.prems(4) \<open>coin_eligible t m th c\<close> show ?thesis by (simp add: n_def Let_def)
    next
      case False
      with IH [OF step] Cons.prems(4) True show ?thesis by (simp add: n_def Let_def split: if_splits)
    qed
  qed
qed simp

lemma min_conf_loop_exact:
  "min_conf_loop target t m th cs s = Inl coin \<Longrightarrow>
    \<exists>c \<in> set cs. coin_eligible t m th c \<and> coin = coin_of c \<and> co_nValue c = target"
  by (induction cs arbitrary: s) (auto simp: Let_def coin_of_def split: if_splits)

lemma take_coins_value:
  assumes "positive cs" "csum cs < 2 ^ 63"
  shows "sint (fold (\<lambda>c v. v + fst c) cs 0) = csum cs"
proof -
  have "sint (fold (\<lambda>c v. v + fst c) cs a) = sint a + csum cs"
    if "positive cs" "0 \<le> sint a" "sint a + csum cs < 2 ^ 63" for a :: int64 and cs
    using that
  proof (induction cs arbitrary: a)
    case (Cons c cs)
    have p: "0 < sint (fst c)" "positive cs" using Cons.prems(1) by (simp_all add: positive_def)
    have "0 \<le> csum cs" using csum_nonneg [OF p(2)] .
    then have "sint (a + fst c) = sint a + sint (fst c)" using p Cons.prems by (intro sint64_add) simp_all
    with Cons.IH [OF p(2), of "a + fst c"] p Cons.prems show ?case by simp
  qed simp
  from this [of cs 0] assms show ?thesis by simp
qed

subsection \<open>The selection\<close>

text \<open>The coins returned: some of the eligible ones, each once, worth what is returned.\<close>

definition pays :: "int64 \<Rightarrow> COutput list \<Rightarrow> coin_key set \<Rightarrow> int64 \<Rightarrow> bool" where
  "pays target E S v \<longleftrightarrow> (\<exists>cs. set cs \<subseteq> set (map coin_of E) \<and> distinct (map snd cs) \<and> S = snd ` set cs \<and>
     sint v = csum cs \<and> sint target \<le> sint v)"

lemma coins_keys: "map snd (map coin_of cs) = map coin_key cs"
  by (simp add: coin_of_def)

lemma pays_take:
  assumes "coins_ok E" "set cs \<subseteq> set (map coin_of E)" "distinct (map snd cs)" "sint target \<le> csum cs"
  shows "\<exists>S v. take_coins cs = (True, S, v) \<and> pays target E S v"
proof -
  have pos: "positive cs" using assms(1,2) by (auto simp: coins_ok_def positive_def)
  have "csum cs \<le> csum (map coin_of E)"
  proof -
    have "distinct cs" using assms(3) by (simp add: distinct_map)
    then have "mset cs = mset_set (set cs)" by (simp add: mset_set_set)
    moreover have "distinct (map coin_of E)"
      using assms(1) by (metis coins_keys coins_ok_def distinct_map)
    then have "mset (map coin_of E) = mset_set (set (map coin_of E))" by (simp only: mset_set_set)
    ultimately have "mset cs \<subseteq># mset (map coin_of E)" using assms(2) by (simp add: subset_imp_msubset_mset_set)
    then obtain M where "mset (map coin_of E) = mset cs + M" by (metis mset_subset_eq_exists_conv)
    then obtain ds where ds: "mset (map coin_of E) = mset (cs @ ds)" by (metis ex_mset mset_append)
    have "positive (cs @ ds)" using assms(1) mset_eq_setD [OF ds] unfolding coins_ok_def positive_def by blast
    then have "0 \<le> csum ds" by (simp add: csum_nonneg)
    with csum_mset [OF ds] show ?thesis by simp
  qed
  then have "csum cs < 2 ^ 63" using assms(1) by (simp add: coins_ok_def)
  from take_coins_value [OF pos this] assms show ?thesis
    unfolding take_coins_def pays_def by auto
qed

lemma best_coins_ok:
  assumes "positive vs" "csum vs = sint nTotalLower" "sint target \<le> sint nTotalLower" "sint target \<le> sint (target + coin_CENT)"
    and "best_coins rnd target vs nTotalLower = (vf, nBest)"
  shows "csum (included vs vf) = sint nBest" "sint target \<le> sint nBest"
proof -
  have small: "csum vs < 2 ^ 63" using assms(2) sint64_bounds(2) by simp
  obtain vf1 n1 k1 where a1: "ApproximateBestSubset rnd 0 vs nTotalLower target 1000 = (vf1, n1, k1)"
    by (cases "ApproximateBestSubset rnd 0 vs nTotalLower target 1000")
  obtain vf2 n2 k2 where a2: "ApproximateBestSubset rnd k1 vs nTotalLower (target + coin_CENT) 1000 = (vf2, n2, k2)"
    by (cases "ApproximateBestSubset rnd k1 vs nTotalLower (target + coin_CENT) 1000")
  note b1 = ApproximateBestSubset_ok [OF assms(1) small assms(2,3) a1]
  have "csum (included vs vf) = sint nBest \<and> sint target \<le> sint nBest"
  proof (cases "n1 \<noteq> target \<and> sint (target + coin_CENT) \<le> sint nTotalLower")
    case True
    with assms(5) have eq: "vf = vf2" "nBest = n2" by (simp_all add: best_coins_def a1 a2)
    from ApproximateBestSubset_ok [OF assms(1) small assms(2) conjunct2 [OF True] a2] assms(4)
    show ?thesis by (simp add: eq)
  next
    case False
    with assms(5) have "vf = vf1" "nBest = n1" by (auto simp: best_coins_def a1)
    with b1 show ?thesis by simp
  qed
  then show "csum (included vs vf) = sint nBest" "sint target \<le> sint nBest" by simp_all
qed

text \<open>The coins on the way, as the eligible ones in the order of the shuffle.\<close>

lemma one_coin_pays:
  assumes "coins_ok E" "c \<in> set E" "sint target \<le> sint (co_nValue c)"
  shows "\<exists>S v. take_coins [coin_of c] = (True, S, v) \<and> pays target E S v" "sint target \<le> csum (map coin_of E)"
proof -
  show "\<exists>S v. take_coins [coin_of c] = (True, S, v) \<and> pays target E S v"
    using assms(2,3) by (intro pays_take [OF assms(1)]) simp_all
  have "sint (co_nValue c) \<le> csum (map coin_of E)"
    using assms(2) assms(1) [unfolded coins_ok_def, THEN conjunct1]
  proof (induction E)
    case (Cons d ds)
    have p: "0 < sint (co_nValue d)" "positive (map coin_of ds)" using Cons.prems(2) by (simp_all add: positive_def)
    have "0 \<le> csum (map coin_of ds)" using csum_nonneg [OF p(2)] .
    with Cons p show ?case by fastforce
  qed simp
  with assms(3) show "sint target \<le> csum (map coin_of E)" by simp
qed

lemma select_rest_ok:
  assumes ok: "coins_ok E" and cent: "sint (target + coin_CENT) = sint target + 10000" and inv: "loop_inv target E s"
  shows "if sint target \<le> csum (map coin_of E)
    then \<exists>S v. select_rest rnd target s = (True, S, v) \<and> pays target E S v
    else select_rest rnd target s = (False, {}, 0)"
proof -
  have posE: "positive (map coin_of E)" and dist: "distinct (map coin_key E)" using ok by (simp_all add: coins_ok_def)
  define L where "L = filter (lower_coin target) E"
  have v: "mc_vValue s = map coin_of L" "sint (mc_nTotalLower s) = csum (map coin_of L)"
    using inv by (simp_all add: loop_inv_def L_def)
  have L: "set L \<subseteq> set E" "positive (map coin_of L)" "distinct (map coin_key L)" "csum (map coin_of L) \<le> csum (map coin_of E)"
    using positive_filter [OF posE] dist csum_filter [OF posE] by (auto simp: L_def distinct_map_filter)
  have larger: "\<exists>S v. take_coins [(mc_nLowestLarger s, key)] = (True, S, v) \<and> pays target E S v" "sint target \<le> csum (map coin_of E)"
    if some: "mc_coinLowestLarger s = Some key" for key
  proof -
    obtain c where c: "c \<in> set E" "\<not> lower_coin target c" "coin_of c = (mc_nLowestLarger s, key)"
      using inv some by (auto simp: loop_inv_def)
    have "sint target \<le> sint (co_nValue c)" using c(2) cent by (simp add: lower_coin_def)
    from one_coin_pays [OF ok c(1) this] c(3)
    show "\<exists>S v. take_coins [(mc_nLowestLarger s, key)] = (True, S, v) \<and> pays target E S v" "sint target \<le> csum (map coin_of E)"
      by simp_all
  qed
  consider "mc_nTotalLower s = target" | "mc_nTotalLower s \<noteq> target" "sint (mc_nTotalLower s) < sint target"
    | "mc_nTotalLower s \<noteq> target" "\<not> sint (mc_nTotalLower s) < sint target" by blast
  then show ?thesis
  proof cases
    case 1
    have "\<exists>S v. take_coins (map coin_of L) = (True, S, v) \<and> pays target E S v"
      using L v(2) 1 by (intro pays_take [OF ok]) (auto simp: coins_keys simp del: map_map)
    moreover have "sint target \<le> csum (map coin_of E)" using 1 v(2) L(4) by simp
    ultimately show ?thesis using 1 v(1) by (simp add: select_rest_def)
  next
    case 2
    show ?thesis
    proof (cases "mc_coinLowestLarger s")
      case None
      then have "L = E" using inv by (auto simp: loop_inv_def L_def filter_id_conv)
      then show ?thesis using 2 None v(2) by (simp add: select_rest_def)
    next
      case (Some key)
      with larger [OF Some] 2 show ?thesis by (simp add: select_rest_def)
    qed
  next
    case 3
    define vs where "vs = rev (sort_key (\<lambda>c. sint (fst c)) (mc_vValue s))"
    have mvs: "mset vs = mset (map coin_of L)" by (simp add: vs_def v(1))
    have vs: "set vs \<subseteq> set (map coin_of E)" "positive vs" "distinct (map snd vs)" "csum vs = sint (mc_nTotalLower s)"
    proof -
      show "set vs \<subseteq> set (map coin_of E)" using mset_eq_setD [OF mvs] L(1) by auto
      show "positive vs" using mset_eq_setD [OF mvs] L(2) by (simp add: positive_def)
      show "distinct (map snd vs)" using L(3) mvs by (metis coins_keys mset_eq_imp_distinct_iff mset_map)
      show "csum vs = sint (mc_nTotalLower s)" using csum_mset [OF mvs] v(2) by simp
    qed
    have enough: "sint target \<le> csum (map coin_of E)" using 3(2) v(2) L(4) by simp
    obtain vf nBest where b: "best_coins rnd target vs (mc_nTotalLower s) = (vf, nBest)"
      by (cases "best_coins rnd target vs (mc_nTotalLower s)")
    note best = best_coins_ok [OF vs(2,4) _ _ b]
    have sub: "\<exists>S v. take_coins (included vs vf) = (True, S, v) \<and> pays target E S v"
      using included_subset [of vs vf] included_distinct [OF vs(3), of vf] vs(1) best 3(2) cent
      by (intro pays_take [OF ok]) auto
    have "select_rest rnd target s = (case mc_coinLowestLarger s of
        Some key \<Rightarrow> if nBest \<noteq> target \<and> sint nBest < sint (target + coin_CENT) \<or> sint (mc_nLowestLarger s) \<le> sint nBest
          then take_coins [(mc_nLowestLarger s, key)] else take_coins (included vs vf)
      | None \<Rightarrow> take_coins (included vs vf))"
      using 3 unfolding select_rest_def select_subset_def vs_def [symmetric] by (simp add: b Let_def)
    with sub larger enough show ?thesis by (auto split: option.split)
  qed
qed

lemma select_min_conf:
  assumes ok: "coins_ok vCoins" and perm: "mset (rs_shuffle R vCoins) = mset vCoins"
    and target: "0 < sint target" "sint target + 10000 < 2 ^ 63"
    and E: "E = filter (coin_eligible t m th) vCoins"
  shows "if sint target \<le> csum (map coin_of E)
    then \<exists>S v. SelectCoinsMinConf R target t m th vCoins = (True, S, v) \<and> pays target E S v
    else SelectCoinsMinConf R target t m th vCoins = (False, {}, 0)"
proof -
  define s0 where "s0 = \<lparr>mc_vValue = [], mc_nTotalLower = 0, mc_nLowestLarger = int64_max, mc_coinLowestLarger = (None :: coin_key option)\<rparr>"
  define E' where "E' = filter (coin_eligible t m th) (rs_shuffle R vCoins)"
  have mE: "mset E' = mset E" using perm by (simp add: E E'_def)
  then have setE: "set E' = set E" by (rule mset_eq_setD)
  have sumE: "csum (map coin_of E') = csum (map coin_of E)" by (rule csum_mset) (simp add: mE)
  have all: "csum (map coin_of (rs_shuffle R vCoins)) = csum (map coin_of vCoins)" by (rule csum_mset) (simp add: perm)
  have posv: "positive (map coin_of (rs_shuffle R vCoins))"
    using ok mset_eq_setD [OF perm] by (auto simp: coins_ok_def positive_def)
  have "distinct (map coin_key (rs_shuffle R vCoins))"
    using ok perm unfolding coins_ok_def by (metis mset_eq_imp_distinct_iff mset_map)
  then have okE: "coins_ok E'"
    using ok positive_filter [OF posv] csum_filter [OF posv, of "coin_eligible t m th"] all
    by (simp add: coins_ok_def E'_def distinct_map_filter)
  have cent: "sint (target + coin_CENT) = sint target + 10000"
  proof -
    have "sint coin_CENT = 10000" by (simp add: coin_CENT_def)
    with target show ?thesis by (subst sint64_add) simp_all
  qed
  have pays_eq: "pays target E' = pays target E" by (intro ext) (simp add: pays_def setE)
  show ?thesis
  proof (cases "min_conf_loop target t m th (rs_shuffle R vCoins) s0")
    case (Inl coin)
    then obtain c where c: "c \<in> set E'" "coin = coin_of c" "co_nValue c = target"
      using min_conf_loop_exact [OF Inl] by (auto simp: E'_def)
    have "SelectCoinsMinConf R target t m th vCoins = take_coins [coin]"
      unfolding SelectCoinsMinConf_def s0_def [symmetric] Inl by simp
    with one_coin_pays [OF okE c(1), of target, unfolded pays_eq sumE] c(2,3) show ?thesis by simp
  next
    case (Inr s)
    have "loop_inv target [] s0" by (simp add: s0_def loop_inv_def)
    from min_conf_loop_inv [OF this _ _ Inr] posv all ok
    have inv: "loop_inv target E' s" by (simp add: E'_def coins_ok_def)
    have "SelectCoinsMinConf R target t m th vCoins = select_rest (rs_rand R) target s"
      unfolding SelectCoinsMinConf_def s0_def [symmetric] Inr by simp
    with select_rest_ok [OF okE cent inv, of "rs_rand R", unfolded pays_eq sumE] show ?thesis by simp
  qed
qed

end
