(* ===== verification/Wallet_Tx.thy ===== *)
theory Wallet_Tx
  imports Chain_Update Coin_Rules "HOL-Library.Monad_Syntax" "HOL-Library.Char_ord" "HOL-Library.List_Lexorder"
begin

text \<open>
  Transactions as the wallet keeps them (\<open>src/wallet.h\<close>, \<open>CMerkleTx\<close> in \<open>src/main.h\<close> and
  \<open>src/main.cpp\<close>): the branch to the block, the depth in the best chain, which outputs are spent,
  and the amounts, each with the memory it is kept in.

  The amounts a \<open>CWalletTx\<close> remembers are mutable members that are assigned in constant member
  functions: such a function returns the transaction too. \<open>None\<close> is an exception, a call that does
  not return, or a null pointer followed. There is one wallet, so \<open>pwallet\<close> is left out; \<open>fClient\<close> is
  never set and is taken as false.
\<close>

subsection \<open>The data\<close>

record CMerkleTx =
  mt_tx :: CTransaction
  mt_hashBlock :: uint256
  mt_vMerkleBranch :: "uint256 list"
  mt_nIndex :: int
  mt_fMerkleVerified :: bool

text \<open>A flag such as \<open>fDebitCached\<close> with its amount \<open>nDebitCached\<close> is one optional amount.\<close>

record CWalletTx = CMerkleTx +
  wt_vtxPrev :: "CMerkleTx list"
  wt_mapValue :: "(string \<times> string) list"
  wt_vOrderForm :: "(string \<times> string) list"
  wt_fTimeReceivedIsTxTime :: uint32
  wt_nTimeReceived :: uint32
  wt_nTimeSmart :: uint32
  wt_fFromMe :: byte
  wt_strFromAccount :: string
  wt_vfSpent :: "bool list"
  wt_nOrderPos :: int64
  wt_nDebitCached :: "int64 option"
  wt_nCreditCached :: "int64 option"
  wt_nAvailableCreditCached :: "int64 option"
  wt_nChangeCached :: "int64 option"

definition CMerkleTx_new :: "CTransaction \<Rightarrow> CMerkleTx" where
  "CMerkleTx_new txIn = \<lparr>mt_tx = txIn, mt_hashBlock = 0, mt_vMerkleBranch = [], mt_nIndex = - 1, mt_fMerkleVerified = False\<rparr>"

definition CWalletTx_new :: "CTransaction \<Rightarrow> CWalletTx" where
  "CWalletTx_new txIn = CMerkleTx.extend (CMerkleTx_new txIn)
     \<lparr>wt_vtxPrev = [], wt_mapValue = [], wt_vOrderForm = [], wt_fTimeReceivedIsTxTime = 0, wt_nTimeReceived = 0,
      wt_nTimeSmart = 0, wt_fFromMe = 0, wt_strFromAccount = [], wt_vfSpent = [], wt_nOrderPos = - 1,
      wt_nDebitCached = None, wt_nCreditCached = None, wt_nAvailableCreditCached = None, wt_nChangeCached = None\<rparr>"

subsection \<open>Spent outputs\<close>

abbreviation wt_vout :: "('a) CMerkleTx_scheme \<Rightarrow> CTxOut list" where
  "wt_vout w \<equiv> tx_vout (mt_tx w)"

text \<open>\<open>vfSpent.resize(vout.size())\<close>.\<close>

definition resize_flags :: "nat \<Rightarrow> bool list \<Rightarrow> bool list" where
  "resize_flags n fs = take n fs @ replicate (n - length fs) False"

definition MarkDirty :: "CWalletTx \<Rightarrow> CWalletTx" where
  "MarkDirty w = w\<lparr>wt_nCreditCached := None, wt_nAvailableCreditCached := None, wt_nDebitCached := None, wt_nChangeCached := None\<rparr>"

definition BindWallet :: "CWalletTx \<Rightarrow> CWalletTx" where
  "BindWallet w = MarkDirty w"

definition MarkSpent :: "nat \<Rightarrow> CWalletTx \<Rightarrow> CWalletTx option" where
  "MarkSpent nOut w =
     (if length (wt_vout w) \<le> nOut then None
      else let fs = resize_flags (length (wt_vout w)) (wt_vfSpent w)
           in Some (if \<not> fs ! nOut then w\<lparr>wt_vfSpent := fs[nOut := True], wt_nAvailableCreditCached := None\<rparr>
                    else w\<lparr>wt_vfSpent := fs\<rparr>))"

definition MarkUnspent :: "nat \<Rightarrow> CWalletTx \<Rightarrow> CWalletTx option" where
  "MarkUnspent nOut w =
     (if length (wt_vout w) \<le> nOut then None
      else let fs = resize_flags (length (wt_vout w)) (wt_vfSpent w)
           in Some (if fs ! nOut then w\<lparr>wt_vfSpent := fs[nOut := False], wt_nAvailableCreditCached := None\<rparr>
                    else w\<lparr>wt_vfSpent := fs\<rparr>))"

definition IsSpent :: "nat \<Rightarrow> CWalletTx \<Rightarrow> bool option" where
  "IsSpent nOut w =
     (if length (wt_vout w) \<le> nOut then None
      else if length (wt_vfSpent w) \<le> nOut then Some False
      else Some (wt_vfSpent w ! nOut))"

fun update_spent_loop :: "nat \<Rightarrow> bool list \<Rightarrow> bool \<Rightarrow> CWalletTx \<Rightarrow> bool \<times> CWalletTx" where
  "update_spent_loop i [] fReturn w = (fReturn, w)"
| "update_spent_loop i (f # fs) fReturn w =
     (if i = length (wt_vfSpent w) then (fReturn, w)
      else if f \<and> \<not> wt_vfSpent w ! i
      then update_spent_loop (Suc i) fs True (w\<lparr>wt_vfSpent := (wt_vfSpent w)[i := True], wt_nAvailableCreditCached := None\<rparr>)
      else update_spent_loop (Suc i) fs fReturn w)"

definition UpdateSpent :: "bool list \<Rightarrow> CWalletTx \<Rightarrow> bool \<times> CWalletTx" where
  "UpdateSpent vfNewSpent w = update_spent_loop 0 vfNewSpent False w"

subsection \<open>The wallet\<close>

record CKeyPool =
  kp_nTime :: int
  kp_vchPubKey :: valtype

record CAccountingEntry =
  ae_strAccount :: string
  ae_nCreditDebit :: int64
  ae_nTime :: int64
  ae_nOrderPos :: int64

record CMasterKey =
  mk_vchCryptedKey :: valtype
  mk_vchSalt :: valtype
  mk_nDerivationMethod :: nat
  mk_nDeriveIterations :: nat

text \<open>The tables of the wallet's database; a list of faults says which of the next writes fail.\<close>

record wallet_tables =
  wb_tx :: "(uint256 \<times> CWalletTx) list"
  wb_key :: "(valtype \<times> valtype) list"
  wb_ckey :: "(valtype \<times> valtype) list"
  wb_mkey :: "(nat \<times> CMasterKey) list"
  wb_cscript :: "(uint160 \<times> byte list) list"
  wb_pool :: "(int \<times> CKeyPool) list"
  wb_name :: "(string \<times> string) list"
  wb_acentry :: "CAccountingEntry list"
  wb_defaultkey :: valtype
  wb_orderposnext :: int64
  wb_minversion :: int

record wallet_db =
  wd_tables :: wallet_tables
  wd_faults :: "bool list"

definition wallet_write :: "(wallet_tables \<Rightarrow> wallet_tables) \<Rightarrow> wallet_db \<Rightarrow> bool \<times> wallet_db" where
  "wallet_write upd db =
     (case wd_faults db of
        [] \<Rightarrow> (True, db\<lparr>wd_tables := upd (wd_tables db)\<rparr>)
      | fault # rest \<Rightarrow>
          if fault then (False, db\<lparr>wd_faults := rest\<rparr>)
          else (True, db\<lparr>wd_faults := rest, wd_tables := upd (wd_tables db)\<rparr>))"

text \<open>
  The wallet. \<open>mapWallet\<close> is sorted by hash, as \<open>std::map\<close> is; the key pool is the set of its
  indices. \<open>wl_nDrawn\<close> counts the keys that the elliptic curve library has generated.
\<close>

record CWallet =
  wl_keystore :: keystore
  wl_mapWallet :: "(uint256 \<times> CWalletTx) list"
  wl_nOrderPosNext :: int64
  wl_mapRequestCount :: "(uint256 \<times> int) list"
  wl_mapAddressBook :: "CTxDestination \<Rightarrow> string option"
  wl_vchDefaultKey :: valtype
  wl_setKeyPool :: "int set"
  wl_nWalletVersion :: int
  wl_nWalletMaxVersion :: int
  wl_mapMasterKeys :: "(nat \<times> CMasterKey) list"
  wl_nMasterKeyMaxID :: nat
  wl_fFileBacked :: bool
  wl_fWalletUnlockMintOnly :: bool
  wl_db :: wallet_db
  wl_nDrawn :: nat

text \<open>
  What the wallet takes from outside: the libraries, the chain and what it takes from outside, the clock, the options
  \<open>-keypool\<close> and \<open>fHaveGUI\<close>, the keys that \<open>EC_KEY_generate_key\<close> delivers, the DER form of a
  private key, random bytes, and the two numbers of rounds that are measured when a pass phrase
  is set.
\<close>

record 'k walletenv =
  we_chainenv :: "'k chainenv"
  we_libs :: "'k keylibs"
  we_chain :: chain_state
  we_nTime :: int
  we_fHaveGUI :: bool
  we_nKeyPool :: int
  we_generate :: "nat \<Rightarrow> 'k option"
  we_GetPrivKey :: "'k CKey \<Rightarrow> valtype option"
  we_RAND_bytes :: "nat \<Rightarrow> valtype"
  we_nDeriveIterations :: "nat \<Rightarrow> nat"

abbreviation we_node :: "'k walletenv \<Rightarrow> 'k node" where
  "we_node X \<equiv> ce_node (we_chainenv X)"

abbreviation we_nAdjustedTime :: "'k walletenv \<Rightarrow> int" where
  "we_nAdjustedTime X \<equiv> ce_nAdjustedTime (we_chainenv X)"

abbreviation we_ssl :: "'k walletenv \<Rightarrow> openssl" where
  "we_ssl X \<equiv> kl_ssl (we_libs X)"

definition wt_GetHash :: "'k walletenv \<Rightarrow> 'a CMerkleTx_scheme \<Rightarrow> uint256" where
  "wt_GetHash X m = GetHash (we_ssl X) (mt_tx m)"

definition wt_IsFinal :: "'k walletenv \<Rightarrow> 'a CMerkleTx_scheme \<Rightarrow> bool" where
  "wt_IsFinal X m = IsFinal (cs_nBestHeight (we_chain X)) (we_nAdjustedTime X) (mt_tx m) 0 0"

subsection \<open>Depth in the best chain\<close>

definition IsInMainChain :: "chain_state \<Rightarrow> CBlockIndex \<Rightarrow> bool" where
  "IsInMainChain S b \<longleftrightarrow> bi_pnext b \<noteq> None \<or> Some (bi_hash b) = cs_pindexBest S"

definition best_height :: "chain_state \<Rightarrow> int option" where
  "best_height S = (case cs_pindexBest S of None \<Rightarrow> None | Some h \<Rightarrow> map_option bi_nHeight (map_of (cs_mapBlockIndex S) h))"

definition GetDepthInMainChain :: "'k walletenv \<Rightarrow> 'a CMerkleTx_scheme \<Rightarrow> (int \<times> 'a CMerkleTx_scheme) option" where
  "GetDepthInMainChain X m =
     (if mt_hashBlock m = 0 \<or> mt_nIndex m = - 1 then Some (0, m)
      else case map_of (cs_mapBlockIndex (we_chain X)) (mt_hashBlock m) of
             None \<Rightarrow> Some (0, m)
           | Some pindex \<Rightarrow>
               if \<not> IsInMainChain (we_chain X) pindex then Some (0, m)
               else if \<not> mt_fMerkleVerified m \<and>
                       CheckMerkleBranch (we_ssl X) (wt_GetHash X m) (mt_vMerkleBranch m) (mt_nIndex m) \<noteq> bi_hashMerkleRoot pindex
               then Some (0, m)
               else do {
                 nBest \<leftarrow> best_height (we_chain X);
                 Some (nBest - bi_nHeight pindex + 1, m\<lparr>mt_fMerkleVerified := True\<rparr>)
               })"

definition GetBlocksToMaturity :: "'k walletenv \<Rightarrow> 'a CMerkleTx_scheme \<Rightarrow> (int \<times> 'a CMerkleTx_scheme) option" where
  "GetBlocksToMaturity X m =
     (if \<not> IsCoinBaseOrStake (mt_tx m) then Some (0, m)
      else do {
        (nDepth, m) \<leftarrow> GetDepthInMainChain X m;
        Some (max 0 (nCoinbaseMaturity + 20 - nDepth), m)
      })"

text \<open>\<open>SetMerkleBranch\<close>: without a block, the one the transaction index names is read.\<close>

definition find_tx :: "CTransaction \<Rightarrow> CTransaction list \<Rightarrow> nat" where
  "find_tx tx vtx = length (takeWhile (\<lambda>t. t \<noteq> tx) vtx)"

definition merkle_block :: "'k walletenv \<Rightarrow> 'a CMerkleTx_scheme \<Rightarrow> CBlock option \<Rightarrow> CBlock option" where
  "merkle_block X m pblock =
     (case pblock of
        Some b \<Rightarrow> Some b
      | None \<Rightarrow>
          (case ReadTxIndex (cs_txdb (we_chain X)) (wt_GetHash X m) of
             None \<Rightarrow> None
           | Some txindex \<Rightarrow>
               ReadFromDisk (we_node X) (cs_files (we_chain X)) CBlock_new
                 (dp_nFile (xi_pos txindex)) (dp_nBlockPos (xi_pos txindex)) True))"

definition SetMerkleBranch ::
  "'k walletenv \<Rightarrow> CBlock option \<Rightarrow> 'a CMerkleTx_scheme \<Rightarrow> (int \<times> 'a CMerkleTx_scheme) option" where
  "SetMerkleBranch X pblock m =
     (case merkle_block X m pblock of
        None \<Rightarrow> Some (0, m)
      | Some block \<Rightarrow>
          let m = m\<lparr>mt_hashBlock := CBlock_GetHash (we_node X) block\<rparr>;
              nIndex = find_tx (mt_tx m) (bk_vtx block)
          in if nIndex = length (bk_vtx block) then Some (0, m\<lparr>mt_vMerkleBranch := [], mt_nIndex := - 1\<rparr>)
             else let m = m\<lparr>mt_nIndex := int nIndex, mt_vMerkleBranch := GetMerkleBranch (we_ssl X) block nIndex\<rparr>
                  in case map_of (cs_mapBlockIndex (we_chain X)) (mt_hashBlock m) of
                       None \<Rightarrow> Some (0, m)
                     | Some pindex \<Rightarrow>
                         if \<not> IsInMainChain (we_chain X) pindex then Some (0, m)
                         else do { nBest \<leftarrow> best_height (we_chain X); Some (nBest - bi_nHeight pindex + 1, m) })"

subsection \<open>What the wallet owns\<close>

definition IsMine_out :: "'k walletenv \<Rightarrow> CWallet \<Rightarrow> CTxOut \<Rightarrow> bool option" where
  "IsMine_out X W out = IsMine (we_ssl X) (store_view (we_libs X) (wl_keystore W)) (to_scriptPubKey out)"

fun mine_loop :: "'k walletenv \<Rightarrow> CWallet \<Rightarrow> CTxOut list \<Rightarrow> bool option" where
  "mine_loop X W [] = Some False"
| "mine_loop X W (out # outs) = do { mine \<leftarrow> IsMine_out X W out; if mine then Some True else mine_loop X W outs }"

definition IsMine_tx :: "'k walletenv \<Rightarrow> CWallet \<Rightarrow> CTransaction \<Rightarrow> bool option" where
  "IsMine_tx X W tx = mine_loop X W (tx_vout tx)"

text \<open>The output of the wallet that an input spends, when it is the wallet's own.\<close>

definition own_prevout :: "'k walletenv \<Rightarrow> CWallet \<Rightarrow> CTxIn \<Rightarrow> CTxOut option option" where
  "own_prevout X W txin =
     (case map_of (wl_mapWallet W) (op_hash (ti_prevout txin)) of
        None \<Rightarrow> Some None
      | Some prev \<Rightarrow>
          let n = unat (op_n (ti_prevout txin))
          in if n < length (wt_vout prev)
             then do { mine \<leftarrow> IsMine_out X W (wt_vout prev ! n); Some (if mine then Some (wt_vout prev ! n) else None) }
             else Some None)"

definition IsMine_in :: "'k walletenv \<Rightarrow> CWallet \<Rightarrow> CTxIn \<Rightarrow> bool option" where
  "IsMine_in X W txin = map_option (\<lambda>out. out \<noteq> None) (own_prevout X W txin)"

definition GetDebit_in :: "'k walletenv \<Rightarrow> CWallet \<Rightarrow> CTxIn \<Rightarrow> int64 option" where
  "GetDebit_in X W txin = map_option (\<lambda>out. case out of None \<Rightarrow> 0 | Some out \<Rightarrow> to_nValue out) (own_prevout X W txin)"

definition GetCredit_out :: "'k walletenv \<Rightarrow> CWallet \<Rightarrow> CTxOut \<Rightarrow> int64 option" where
  "GetCredit_out X W out =
     (if \<not> MoneyRange (to_nValue out) then None
      else do { mine \<leftarrow> IsMine_out X W out; Some (if mine then to_nValue out else 0) })"

definition IsChange :: "'k walletenv \<Rightarrow> CWallet \<Rightarrow> CTxOut \<Rightarrow> bool" where
  "IsChange X W out =
     (case ExtractDestination (we_ssl X) (to_scriptPubKey out) of
        None \<Rightarrow> False
      | Some address \<Rightarrow>
          IsMine_dest (store_view (we_libs X) (wl_keystore W)) address \<and> wl_mapAddressBook W address = None)"

definition GetChange_out :: "'k walletenv \<Rightarrow> CWallet \<Rightarrow> CTxOut \<Rightarrow> int64 option" where
  "GetChange_out X W out =
     (if \<not> MoneyRange (to_nValue out) then None else Some (if IsChange X W out then to_nValue out else 0))"

text \<open>The three sums have the same loop: the running total must stay in the range of money.\<close>

fun money_loop :: "('a \<Rightarrow> int64 option) \<Rightarrow> int64 \<Rightarrow> 'a list \<Rightarrow> int64 option" where
  "money_loop amount n [] = Some n"
| "money_loop amount n (x # xs) =
     do { a \<leftarrow> amount x; let n = n + a; if \<not> MoneyRange n then None else money_loop amount n xs }"

definition GetDebit_tx :: "'k walletenv \<Rightarrow> CWallet \<Rightarrow> CTransaction \<Rightarrow> int64 option" where
  "GetDebit_tx X W tx = money_loop (GetDebit_in X W) 0 (tx_vin tx)"

definition GetCredit_tx :: "'k walletenv \<Rightarrow> CWallet \<Rightarrow> CTransaction \<Rightarrow> int64 option" where
  "GetCredit_tx X W tx = money_loop (GetCredit_out X W) 0 (tx_vout tx)"

definition GetChange_tx :: "'k walletenv \<Rightarrow> CWallet \<Rightarrow> CTransaction \<Rightarrow> int64 option" where
  "GetChange_tx X W tx = money_loop (GetChange_out X W) 0 (tx_vout tx)"

definition IsFromMe_tx :: "'k walletenv \<Rightarrow> CWallet \<Rightarrow> CTransaction \<Rightarrow> bool option" where
  "IsFromMe_tx X W tx = map_option (\<lambda>n. 0 < sint n) (GetDebit_tx X W tx)"

subsection \<open>Amounts that a transaction remembers\<close>

definition wt_GetDebit :: "'k walletenv \<Rightarrow> CWallet \<Rightarrow> CWalletTx \<Rightarrow> (int64 \<times> CWalletTx) option" where
  "wt_GetDebit X W w =
     (if tx_vin (mt_tx w) = [] then Some (0, w)
      else case wt_nDebitCached w of
             Some n \<Rightarrow> Some (n, w)
           | None \<Rightarrow> do { n \<leftarrow> GetDebit_tx X W (mt_tx w); Some (n, w\<lparr>wt_nDebitCached := Some n\<rparr>) })"

definition wt_IsFromMe :: "'k walletenv \<Rightarrow> CWallet \<Rightarrow> CWalletTx \<Rightarrow> (bool \<times> CWalletTx) option" where
  "wt_IsFromMe X W w = do { (n, w) \<leftarrow> wt_GetDebit X W w; Some (0 < sint n, w) }"

definition wt_GetCredit :: "'k walletenv \<Rightarrow> CWallet \<Rightarrow> bool \<Rightarrow> CWalletTx \<Rightarrow> (int64 \<times> CWalletTx) option" where
  "wt_GetCredit X W fUseCache w =
     do {
       (nBlocks, w) \<leftarrow> GetBlocksToMaturity X w;
       if 0 < nBlocks then Some (0, w)
       else case (if fUseCache then wt_nCreditCached w else None) of
              Some n \<Rightarrow> Some (n, w)
            | None \<Rightarrow> do { n \<leftarrow> GetCredit_tx X W (mt_tx w); Some (n, w\<lparr>wt_nCreditCached := Some n\<rparr>) }
     }"

fun available_loop :: "'k walletenv \<Rightarrow> CWallet \<Rightarrow> CWalletTx \<Rightarrow> int64 \<Rightarrow> nat list \<Rightarrow> int64 option" where
  "available_loop X W w nCredit [] = Some nCredit"
| "available_loop X W w nCredit (i # is) =
     do {
       spent \<leftarrow> IsSpent i w;
       if spent then available_loop X W w nCredit is
       else do {
         n \<leftarrow> GetCredit_out X W (wt_vout w ! i);
         let nCredit = nCredit + n;
         if \<not> MoneyRange nCredit then None else available_loop X W w nCredit is
       }
     }"

definition wt_GetAvailableCredit :: "'k walletenv \<Rightarrow> CWallet \<Rightarrow> bool \<Rightarrow> CWalletTx \<Rightarrow> (int64 \<times> CWalletTx) option" where
  "wt_GetAvailableCredit X W fUseCache w =
     do {
       (nBlocks, w) \<leftarrow> GetBlocksToMaturity X w;
       if 0 < nBlocks then Some (0, w)
       else case (if fUseCache then wt_nAvailableCreditCached w else None) of
              Some n \<Rightarrow> Some (n, w)
            | None \<Rightarrow> do {
                n \<leftarrow> available_loop X W w 0 [0..<length (wt_vout w)];
                Some (n, w\<lparr>wt_nAvailableCreditCached := Some n\<rparr>)
              }
     }"

definition wt_GetChange :: "'k walletenv \<Rightarrow> CWallet \<Rightarrow> CWalletTx \<Rightarrow> (int64 \<times> CWalletTx) option" where
  "wt_GetChange X W w =
     (case wt_nChangeCached w of
        Some n \<Rightarrow> Some (n, w)
      | None \<Rightarrow> do { n \<leftarrow> GetChange_tx X W (mt_tx w); Some (n, w\<lparr>wt_nChangeCached := Some n\<rparr>) })"

definition GetTxTime :: "CWalletTx \<Rightarrow> int" where
  "GetTxTime w = (if wt_nTimeSmart w \<noteq> 0 then uint (wt_nTimeSmart w) else uint (wt_nTimeReceived w))"

end
