(* ===== verification/Wallet_History.thy ===== *)
theory Wallet_History
  imports Wallet_Tx
begin

text \<open>
  The walks over earlier transactions (\<open>IsConfirmed\<close> in \<open>src/wallet.h\<close>, \<open>AddSupportingTransactions\<close> in
  \<open>src/wallet.cpp\<close>) and the amounts shown for a transaction.
\<close>

subsection \<open>Confirmation\<close>

definition IsConfirmedInMainChain :: "'k walletenv \<Rightarrow> CWallet \<Rightarrow> CWalletTx \<Rightarrow> (bool \<times> CWalletTx) option" where
  "IsConfirmedInMainChain X W w =
     (if \<not> wt_IsFinal X w then Some (False, w)
      else do {
        (nDepth, w) \<leftarrow> GetDepthInMainChain X w;
        if 1 \<le> nDepth then Some (True, w)
        else do { (_, w) \<leftarrow> wt_IsFromMe X W w; Some (False, w) }
      })"

text \<open>A pointer of the work queue: the transaction itself or an element of its \<open>vtxPrev\<close>.\<close>

definition ptr_tx :: "CWalletTx \<Rightarrow> nat option \<Rightarrow> CMerkleTx" where
  "ptr_tx w p = (case p of None \<Rightarrow> CMerkleTx.truncate w | Some k \<Rightarrow> wt_vtxPrev w ! k)"

definition ptr_put :: "CWalletTx \<Rightarrow> nat option \<Rightarrow> CMerkleTx \<Rightarrow> CWalletTx" where
  "ptr_put w p m =
     (case p of None \<Rightarrow> w\<lparr>mt_fMerkleVerified := mt_fMerkleVerified m\<rparr>
      | Some k \<Rightarrow> w\<lparr>wt_vtxPrev := (wt_vtxPrev w)[k := m]\<rparr>)"

text \<open>\<open>mapPrev\<close>: of two elements with one hash the later one counts.\<close>

definition map_prev :: "'k walletenv \<Rightarrow> CWalletTx \<Rightarrow> uint256 \<Rightarrow> nat option" where
  "map_prev X w = map_of (rev (zip (map (wt_GetHash X) (wt_vtxPrev w)) [0..<length (wt_vtxPrev w)]))"

text \<open>The queue is consumed from the front; nothing in it is remembered as done.\<close>

partial_function (option) confirmed_loop ::
  "'k walletenv \<Rightarrow> CWallet \<Rightarrow> CWalletTx \<Rightarrow> nat option list \<Rightarrow> (bool \<times> CWalletTx) option" where
  "confirmed_loop X W w vWorkQueue =
     (case vWorkQueue of
        [] \<Rightarrow> Some (True, w)
      | p # ps \<Rightarrow>
          if \<not> wt_IsFinal X (ptr_tx w p) then Some (False, w)
          else Option.bind (GetDepthInMainChain X (ptr_tx w p)) (\<lambda>(nDepth, m).
            if 1 \<le> nDepth then confirmed_loop X W (ptr_put w p m) ps
            else Option.bind (IsFromMe_tx X W (mt_tx m)) (\<lambda>fFromMe.
              if \<not> fFromMe then Some (False, ptr_put w p m)
              else case those (map (\<lambda>i. map_prev X w (op_hash (ti_prevout i))) (tx_vin (mt_tx m))) of
                     None \<Rightarrow> Some (False, ptr_put w p m)
                   | Some prevs \<Rightarrow> confirmed_loop X W (ptr_put w p m) (ps @ map Some prevs))))"

definition IsConfirmed :: "'k walletenv \<Rightarrow> CWallet \<Rightarrow> CWalletTx \<Rightarrow> (bool \<times> CWalletTx) option" where
  "IsConfirmed X W w =
     (if \<not> wt_IsFinal X w then Some (False, w)
      else do {
        (nDepth, w) \<leftarrow> GetDepthInMainChain X w;
        if 1 \<le> nDepth then Some (True, w)
        else do {
          (fFromMe, w) \<leftarrow> wt_IsFromMe X W w;
          if \<not> fFromMe then Some (False, w) else confirmed_loop X W w [None]
        }
      })"

subsection \<open>Supporting transactions\<close>

definition COPY_DEPTH :: int where "COPY_DEPTH = 3"

definition prev_hashes :: "CTransaction \<Rightarrow> uint256 list" where
  "prev_hashes tx = map (\<lambda>i. op_hash (ti_prevout i)) (tx_vin tx)"

record supporting =
  su_mapWalletPrev :: "uint256 \<Rightarrow> CMerkleTx option"
  su_setAlreadyDone :: "uint256 set"
  su_vtxPrev :: "CMerkleTx list"

text \<open>The transaction of a hash, from the wallet or from what its transactions carry along.\<close>

definition supporting_tx :: "'k walletenv \<Rightarrow> CWallet \<Rightarrow> uint256 \<Rightarrow> supporting \<Rightarrow> (CMerkleTx \<times> supporting) option" where
  "supporting_tx X W hash s =
     (case map_of (wl_mapWallet W) hash of
        Some w \<Rightarrow>
          Some (CMerkleTx.truncate w,
            s\<lparr>su_mapWalletPrev := fold (\<lambda>p m. m(wt_GetHash X p \<mapsto> p)) (wt_vtxPrev w) (su_mapWalletPrev s)\<rparr>)
      | None \<Rightarrow> map_option (\<lambda>tx. (tx, s)) (su_mapWalletPrev s hash))"

partial_function (option) supporting_loop ::
  "'k walletenv \<Rightarrow> CWallet \<Rightarrow> uint256 list \<Rightarrow> supporting \<Rightarrow> supporting option" where
  "supporting_loop X W vWorkQueue s =
     (case vWorkQueue of
        [] \<Rightarrow> Some s
      | hash # hs \<Rightarrow>
          if hash \<in> su_setAlreadyDone s then supporting_loop X W hs s
          else case supporting_tx X W hash (s\<lparr>su_setAlreadyDone := insert hash (su_setAlreadyDone s)\<rparr>) of
                 None \<Rightarrow> supporting_loop X W hs (s\<lparr>su_setAlreadyDone := insert hash (su_setAlreadyDone s)\<rparr>)
               | Some (tx, s') \<Rightarrow>
                   Option.bind (SetMerkleBranch X None tx) (\<lambda>(nDepth, tx).
                     supporting_loop X W (if nDepth < COPY_DEPTH then hs @ prev_hashes (mt_tx tx) else hs)
                       (s'\<lparr>su_vtxPrev := su_vtxPrev s' @ [tx]\<rparr>)))"

definition AddSupportingTransactions :: "'k walletenv \<Rightarrow> CWallet \<Rightarrow> CWalletTx \<Rightarrow> CWalletTx option" where
  "AddSupportingTransactions X W w =
     do {
       let w = w\<lparr>wt_vtxPrev := []\<rparr>;
       (nDepth, w) \<leftarrow> SetMerkleBranch X None w;
       if nDepth < COPY_DEPTH
       then do {
         s \<leftarrow> supporting_loop X W (prev_hashes (mt_tx w))
                \<lparr>su_mapWalletPrev = (\<lambda>_. None), su_setAlreadyDone = {}, su_vtxPrev = []\<rparr>;
         Some (w\<lparr>wt_vtxPrev := rev (su_vtxPrev s)\<rparr>)
       }
       else Some w
     }"

subsection \<open>Amounts shown\<close>

definition GetRequestCount :: "'k walletenv \<Rightarrow> CWallet \<Rightarrow> CWalletTx \<Rightarrow> int" where
  "GetRequestCount X W w =
     (let of_block = map_of (wl_mapRequestCount W) (mt_hashBlock w)
      in if IsCoinBaseOrStake (mt_tx w)
         then if mt_hashBlock w \<noteq> 0 then (case of_block of Some n \<Rightarrow> n | None \<Rightarrow> - 1) else - 1
         else case map_of (wl_mapRequestCount W) (wt_GetHash X w) of
                None \<Rightarrow> - 1
              | Some n \<Rightarrow> if n = 0 \<and> mt_hashBlock w \<noteq> 0 then (case of_block of Some n \<Rightarrow> n | None \<Rightarrow> 1) else n)"

record tx_amounts =
  ga_nGeneratedImmature :: int64
  ga_nGeneratedMature :: int64
  ga_listReceived :: "(CTxDestination \<times> int64) list"
  ga_listSent :: "(CTxDestination \<times> int64) list"
  ga_nFee :: int64
  ga_strSentAccount :: string

definition amounts_received ::
  "'k walletenv \<Rightarrow> CTxDestination \<Rightarrow> CTxOut \<Rightarrow> CWalletTx \<times> tx_amounts \<Rightarrow> (CWalletTx \<times> tx_amounts) option" where
  "amounts_received X address out = (\<lambda>(w, a).
     if IsCoinBaseOrStake (mt_tx w)
     then do {
       (nBlocks, w) \<leftarrow> GetBlocksToMaturity X w;
       Some (w, if 0 < nBlocks then a\<lparr>ga_nGeneratedImmature := ga_nGeneratedImmature a + to_nValue out\<rparr>
                else a\<lparr>ga_nGeneratedMature := ga_nGeneratedMature a + to_nValue out\<rparr>)
     }
     else Some (w, a\<lparr>ga_listReceived := ga_listReceived a @ [(address, to_nValue out)]\<rparr>))"

fun amounts_loop ::
  "'k walletenv \<Rightarrow> CWallet \<Rightarrow> int64 \<Rightarrow> CTxOut list \<Rightarrow> CWalletTx \<times> tx_amounts \<Rightarrow> (CWalletTx \<times> tx_amounts) option" where
  "amounts_loop X W nDebit [] (w, a) = Some (w, a)"
| "amounts_loop X W nDebit (out # outs) (w, a) =
     (case ExtractDestination (we_ssl X) (to_scriptPubKey out) of
        None \<Rightarrow> amounts_loop X W nDebit outs (w, a)
      | Some address \<Rightarrow>
          if 0 < sint nDebit \<and> IsChange X W out then amounts_loop X W nDebit outs (w, a)
          else do {
            let a = (if 0 < sint nDebit then a\<lparr>ga_listSent := ga_listSent a @ [(address, to_nValue out)]\<rparr> else a);
            mine \<leftarrow> IsMine_out X W out;
            s \<leftarrow> (if mine then amounts_received X address out (w, a) else Some (w, a));
            amounts_loop X W nDebit outs s
          })"

definition GetAmounts :: "'k walletenv \<Rightarrow> CWallet \<Rightarrow> CWalletTx \<Rightarrow> (CWalletTx \<times> tx_amounts) option" where
  "GetAmounts X W w =
     do {
       (nDebit, w) \<leftarrow> wt_GetDebit X W w;
       nFee \<leftarrow> (if 0 < sint nDebit then map_option (\<lambda>nValueOut. nDebit - nValueOut) (GetValueOut (mt_tx w)) else Some 0);
       amounts_loop X W nDebit (wt_vout w)
         (w, \<lparr>ga_nGeneratedImmature = 0, ga_nGeneratedMature = 0, ga_listReceived = [], ga_listSent = [],
              ga_nFee = nFee, ga_strSentAccount = wt_strFromAccount w\<rparr>)
     }"

record account_amounts =
  aa_nGeneratedImmature :: int64
  aa_nGeneratedMature :: int64
  aa_nReceived :: int64
  aa_nSent :: int64
  aa_nFee :: int64

definition received_for :: "CWallet \<Rightarrow> string \<Rightarrow> CTxDestination \<Rightarrow> bool" where
  "received_for W strAccount address =
     (case wl_mapAddressBook W address of Some name \<Rightarrow> name = strAccount | None \<Rightarrow> strAccount = [])"

definition GetAccountAmounts ::
  "'k walletenv \<Rightarrow> CWallet \<Rightarrow> string \<Rightarrow> CWalletTx \<Rightarrow> (CWalletTx \<times> account_amounts) option" where
  "GetAccountAmounts X W strAccount w =
     do {
       (w, a) \<leftarrow> GetAmounts X W w;
       let own = (strAccount = ga_strSentAccount a);
       Some (w,
         \<lparr>aa_nGeneratedImmature = (if own then ga_nGeneratedImmature a else 0),
          aa_nGeneratedMature = (if own then ga_nGeneratedMature a else 0),
          aa_nReceived = fold (\<lambda>r n. if received_for W strAccount (fst r) then n + snd r else n) (ga_listReceived a) 0,
          aa_nSent = (if own then fold (\<lambda>s n. n + snd s) (ga_listSent a) 0 else 0),
          aa_nFee = (if own then ga_nFee a else 0)\<rparr>)
     }"

end
