(* ===== verification/Wallet_Keys.thy ===== *)
theory Wallet_Keys
  imports Wallet_History Base58
begin

text \<open>
  The keys of the wallet (\<open>src/wallet.cpp\<close>): adding keys to the store and to the database, the
  wallet's version, the pass phrase, the pool of spare keys and the address book. \<open>None\<close> is an
  exception or the end of the process (\<open>exit(1)\<close>).
\<close>

subsection \<open>Adding keys\<close>

definition db_step :: "(wallet_tables \<Rightarrow> wallet_tables) \<Rightarrow> CWallet \<Rightarrow> bool \<times> CWallet" where
  "db_step upd W = (case wallet_write upd (wl_db W) of (ok, db) \<Rightarrow> (ok, W\<lparr>wl_db := db\<rparr>))"

abbreviation tables_of :: "CWallet \<Rightarrow> wallet_tables" where
  "tables_of W \<equiv> wd_tables (wl_db W)"

text \<open>A write that does not overwrite fails when the key is there.\<close>

definition db_step_new :: "bool \<Rightarrow> (wallet_tables \<Rightarrow> wallet_tables) \<Rightarrow> CWallet \<Rightarrow> bool \<times> CWallet" where
  "db_step_new exists upd W = (if exists then (False, W) else db_step upd W)"

definition WriteKey :: "valtype \<Rightarrow> valtype \<Rightarrow> CWallet \<Rightarrow> bool \<times> CWallet" where
  "WriteKey vchPubKey vchPrivKey W =
     db_step_new (map_of (wb_key (tables_of W)) vchPubKey \<noteq> None)
       (\<lambda>t. t\<lparr>wb_key := map_put vchPubKey vchPrivKey (wb_key t)\<rparr>) W"

definition WriteCryptedKey :: "valtype \<Rightarrow> valtype \<Rightarrow> CWallet \<Rightarrow> bool \<times> CWallet" where
  "WriteCryptedKey vchPubKey vchCryptedSecret W =
     (case db_step_new (map_of (wb_ckey (tables_of W)) vchPubKey \<noteq> None)
             (\<lambda>t. t\<lparr>wb_ckey := map_put vchPubKey vchCryptedSecret (wb_ckey t)\<rparr>) W of
        (False, W) \<Rightarrow> (False, W)
      | (True, W) \<Rightarrow> (True, snd (db_step (\<lambda>t. t\<lparr>wb_key := map_erase vchPubKey (wb_key t)\<rparr>) W)))"

definition wallet_AddCryptedKey :: "'k walletenv \<Rightarrow> valtype \<Rightarrow> valtype \<Rightarrow> CWallet \<Rightarrow> bool \<times> CWallet" where
  "wallet_AddCryptedKey X vchPubKey vchCryptedSecret W =
     (case AddCryptedKey (we_libs X) (wl_keystore W) vchPubKey vchCryptedSecret of
        (False, ks) \<Rightarrow> (False, W\<lparr>wl_keystore := ks\<rparr>)
      | (True, ks) \<Rightarrow>
          let W = W\<lparr>wl_keystore := ks\<rparr>
          in if \<not> wl_fFileBacked W then (True, W) else WriteCryptedKey vchPubKey vchCryptedSecret W)"

text \<open>\<open>CCryptoKeyStore::AddKey\<close>, whose call of \<open>AddCryptedKey\<close> is the wallet's (it is virtual).\<close>

definition store_AddKey :: "'k walletenv \<Rightarrow> 'k CKey \<Rightarrow> CWallet \<Rightarrow> (bool \<times> CWallet) option" where
  "store_AddKey X key W =
     (let L = we_libs X; ks = wl_keystore W
      in if \<not> ks_fUseCrypto ks
         then map_option (\<lambda>(ok, ks). (ok, W\<lparr>wl_keystore := ks\<rparr>)) (Basic_AddKey L ks key)
         else if IsLocked ks then Some (False, W)
         else do {
           vchPubKey \<leftarrow> GetPubKey (kl_ec L) key;
           (secret, _) \<leftarrow> GetSecret (kl_ec L) key;
           case EncryptSecret (kl_evp L) (ks_vMasterKey ks) secret (CPubKey_GetHash (kl_ssl L) vchPubKey) of
             None \<Rightarrow> Some (False, W)
           | Some vchCryptedSecret \<Rightarrow> Some (wallet_AddCryptedKey X vchPubKey vchCryptedSecret W)
         })"

definition wallet_AddKey :: "'k walletenv \<Rightarrow> 'k CKey \<Rightarrow> CWallet \<Rightarrow> (bool \<times> CWallet) option" where
  "wallet_AddKey X key W =
     do {
       (ok, W) \<leftarrow> store_AddKey X key W;
       if \<not> ok then Some (False, W)
       else if \<not> wl_fFileBacked W then Some (True, W)
       else if \<not> ks_fUseCrypto (wl_keystore W)
       then do {
         vchPubKey \<leftarrow> GetPubKey (kl_ec (we_libs X)) key;
         vchPrivKey \<leftarrow> we_GetPrivKey X key;
         Some (WriteKey vchPubKey vchPrivKey W)
       }
       else Some (True, W)
     }"

definition wallet_AddCScript :: "'k walletenv \<Rightarrow> byte list \<Rightarrow> CWallet \<Rightarrow> bool \<times> CWallet" where
  "wallet_AddCScript X redeemScript W =
     (let W = W\<lparr>wl_keystore := snd (AddCScript (we_libs X) (wl_keystore W) redeemScript)\<rparr>;
          hash = Hash160 (we_ssl X) redeemScript
      in if \<not> wl_fFileBacked W then (True, W)
         else db_step_new (map_of (wb_cscript (tables_of W)) hash \<noteq> None)
                (\<lambda>t. t\<lparr>wb_cscript := map_put hash redeemScript (wb_cscript t)\<rparr>) W)"

subsection \<open>The wallet's version\<close>

definition FEATURE_BASE :: int where "FEATURE_BASE = 10500"
definition FEATURE_WALLETCRYPT :: int where "FEATURE_WALLETCRYPT = 40000"
definition FEATURE_COMPRPUBKEY :: int where "FEATURE_COMPRPUBKEY = 60000"
definition FEATURE_LATEST :: int where "FEATURE_LATEST = 60000"

definition CanSupportFeature :: "int \<Rightarrow> CWallet \<Rightarrow> bool" where
  "CanSupportFeature feature W \<longleftrightarrow> feature \<le> wl_nWalletMaxVersion W"

definition SetMinVersion :: "int \<Rightarrow> bool \<Rightarrow> CWallet \<Rightarrow> bool \<times> CWallet" where
  "SetMinVersion nVersion fExplicit W =
     (if nVersion \<le> wl_nWalletVersion W then (True, W)
      else let nVersion = (if fExplicit \<and> wl_nWalletMaxVersion W < nVersion then FEATURE_LATEST else nVersion);
               W = W\<lparr>wl_nWalletVersion := nVersion, wl_nWalletMaxVersion := max (wl_nWalletMaxVersion W) nVersion\<rparr>
           in if wl_fFileBacked W
              then let W = (if 40000 \<le> nVersion then snd (db_step id W) else W);
                       W = (if 40000 < nVersion then snd (db_step (\<lambda>t. t\<lparr>wb_minversion := nVersion\<rparr>) W) else W)
                   in (True, W)
              else (True, W))"

definition SetMaxVersion :: "int \<Rightarrow> CWallet \<Rightarrow> bool \<times> CWallet" where
  "SetMaxVersion nVersion W =
     (if nVersion < wl_nWalletVersion W then (False, W) else (True, W\<lparr>wl_nWalletMaxVersion := nVersion\<rparr>))"

definition LoadMinVersion :: "int \<Rightarrow> CWallet \<Rightarrow> bool \<times> CWallet" where
  "LoadMinVersion nVersion W =
     (True, W\<lparr>wl_nWalletVersion := nVersion, wl_nWalletMaxVersion := max (wl_nWalletMaxVersion W) nVersion\<rparr>)"

subsection \<open>New keys\<close>

definition MakeNewKey :: "'k ecdsa \<Rightarrow> 'k option \<Rightarrow> bool \<Rightarrow> 'k CKey option" where
  "MakeNewKey ec generated fCompressed =
     (case generated of
        None \<Rightarrow> None
      | Some pkey \<Rightarrow>
          let key = (CKey_Reset ec)\<lparr>ck_pkey := pkey\<rparr>;
              key = (if fCompressed then SetCompressedPubKey ec key else key)
          in Some (key\<lparr>ck_fSet := True\<rparr>))"

definition GenerateNewKey :: "'k walletenv \<Rightarrow> CWallet \<Rightarrow> (valtype \<times> CWallet) option" where
  "GenerateNewKey X W =
     (let fCompressed = CanSupportFeature FEATURE_COMPRPUBKEY W
      in do {
           key \<leftarrow> MakeNewKey (kl_ec (we_libs X)) (we_generate X (wl_nDrawn W)) fCompressed;
           let W = W\<lparr>wl_nDrawn := wl_nDrawn W + 1\<rparr>;
           let W = (if fCompressed then snd (SetMinVersion FEATURE_COMPRPUBKEY False W) else W);
           (ok, W) \<leftarrow> wallet_AddKey X key W;
           if \<not> ok then None else do { pub \<leftarrow> GetPubKey (kl_ec (we_libs X)) key; Some (pub, W) }
         })"

subsection \<open>The key pool\<close>

definition WritePool :: "int \<Rightarrow> CKeyPool \<Rightarrow> CWallet \<Rightarrow> bool \<times> CWallet" where
  "WritePool nPool keypool W = db_step (\<lambda>t. t\<lparr>wb_pool := map_put nPool keypool (wb_pool t)\<rparr>) W"

definition ErasePool :: "int \<Rightarrow> CWallet \<Rightarrow> bool \<times> CWallet" where
  "ErasePool nPool W = db_step (\<lambda>t. t\<lparr>wb_pool := map_erase nPool (wb_pool t)\<rparr>) W"

definition ReadPool :: "int \<Rightarrow> CWallet \<Rightarrow> CKeyPool option" where
  "ReadPool nPool W = map_of (wb_pool (tables_of W)) nPool"

definition CKeyPool_new :: "'k walletenv \<Rightarrow> valtype \<Rightarrow> CKeyPool" where
  "CKeyPool_new X vchPubKey = \<lparr>kp_nTime = we_nTime X, kp_vchPubKey = vchPubKey\<rparr>"

fun new_pool_loop :: "'k walletenv \<Rightarrow> int list \<Rightarrow> CWallet \<Rightarrow> CWallet option" where
  "new_pool_loop X [] W = Some W"
| "new_pool_loop X (nIndex # is) W =
     do {
       (pub, W) \<leftarrow> GenerateNewKey X W;
       let W = snd (WritePool nIndex (CKeyPool_new X pub) W);
       new_pool_loop X is (W\<lparr>wl_setKeyPool := insert nIndex (wl_setKeyPool W)\<rparr>)
     }"

definition NewKeyPool :: "'k walletenv \<Rightarrow> CWallet \<Rightarrow> (bool \<times> CWallet) option" where
  "NewKeyPool X W =
     (let W = fold (\<lambda>i W. snd (ErasePool i W)) (sorted_list_of_set (wl_setKeyPool W)) W;
          W = W\<lparr>wl_setKeyPool := {}\<rparr>
      in if IsLocked (wl_keystore W) then Some (False, W)
         else map_option (Pair True) (new_pool_loop X [1..max (we_nKeyPool X) 0] W))"

text \<open>The target is computed in \<open>unsigned int\<close>.\<close>

definition pool_target :: "'k walletenv \<Rightarrow> nat" where
  "pool_target X = unat (word_of_int (max (we_nKeyPool X) 0) + 1 :: uint32)"

definition pool_end :: "CWallet \<Rightarrow> int" where
  "pool_end W = (if wl_setKeyPool W = {} then 1 else Max (wl_setKeyPool W) + 1)"

partial_function (option) top_up_loop :: "'k walletenv \<Rightarrow> CWallet \<Rightarrow> CWallet option" where
  "top_up_loop X W =
     (if pool_target X \<le> card (wl_setKeyPool W) then Some W
      else Option.bind (GenerateNewKey X W) (\<lambda>(pub, W).
        case WritePool (pool_end W) (CKeyPool_new X pub) W of
          (ok, W) \<Rightarrow>
            if \<not> ok then None
            else top_up_loop X (W\<lparr>wl_setKeyPool := insert (pool_end W) (wl_setKeyPool W)\<rparr>)))"

definition TopUpKeyPool :: "'k walletenv \<Rightarrow> CWallet \<Rightarrow> (bool \<times> CWallet) option" where
  "TopUpKeyPool X W =
     (if IsLocked (wl_keystore W) then Some (False, W) else map_option (Pair True) (top_up_loop X W))"

text \<open>An index of \<open>-1\<close> with an empty key is an empty pool.\<close>

definition ReserveKeyFromKeyPool :: "'k walletenv \<Rightarrow> CWallet \<Rightarrow> (int \<times> CKeyPool \<times> CWallet) option" where
  "ReserveKeyFromKeyPool X W =
     do {
       W \<leftarrow> (if \<not> IsLocked (wl_keystore W) then map_option snd (TopUpKeyPool X W) else Some W);
       if wl_setKeyPool W = {} then Some (- 1, CKeyPool_new X [], W)
       else do {
         let nIndex = Min (wl_setKeyPool W);
         let W = W\<lparr>wl_setKeyPool := wl_setKeyPool W - {nIndex}\<rparr>;
         keypool \<leftarrow> ReadPool nIndex W;
         if \<not> HaveKey (wl_keystore W) (CPubKey_GetID (we_ssl X) (kp_vchPubKey keypool)) then None
         else if \<not> CPubKey_IsValid (kp_vchPubKey keypool) then None
         else Some (nIndex, keypool, W)
       }
     }"

definition AddReserveKey :: "CKeyPool \<Rightarrow> CWallet \<Rightarrow> (int \<times> CWallet) option" where
  "AddReserveKey keypool W =
     (if wl_setKeyPool W = {} then None
      else let nIndex = 1 + Max (wl_setKeyPool W)
           in case WritePool nIndex keypool W of
                (False, _) \<Rightarrow> None
              | (True, W) \<Rightarrow> Some (nIndex, W\<lparr>wl_setKeyPool := insert nIndex (wl_setKeyPool W)\<rparr>))"

definition KeepKey :: "int \<Rightarrow> CWallet \<Rightarrow> CWallet" where
  "KeepKey nIndex W = (if wl_fFileBacked W then snd (ErasePool nIndex W) else W)"

definition ReturnKey :: "int \<Rightarrow> CWallet \<Rightarrow> CWallet" where
  "ReturnKey nIndex W = W\<lparr>wl_setKeyPool := insert nIndex (wl_setKeyPool W)\<rparr>"

text \<open>\<open>GetKeyFromPool\<close>: a key, or none when the wallet is locked.\<close>

definition GetKeyFromPool :: "'k walletenv \<Rightarrow> bool \<Rightarrow> CWallet \<Rightarrow> (valtype option \<times> CWallet) option" where
  "GetKeyFromPool X fAllowReuse W =
     do {
       (nIndex, keypool, W) \<leftarrow> ReserveKeyFromKeyPool X W;
       if nIndex = - 1
       then if fAllowReuse \<and> CPubKey_IsValid (wl_vchDefaultKey W) then Some (Some (wl_vchDefaultKey W), W)
            else if IsLocked (wl_keystore W) then Some (None, W)
            else map_option (\<lambda>(pub, W). (Some pub, W)) (GenerateNewKey X W)
       else Some (Some (kp_vchPubKey keypool), KeepKey nIndex W)
     }"

definition GetOldestKeyPoolTime :: "'k walletenv \<Rightarrow> CWallet \<Rightarrow> (int \<times> CWallet) option" where
  "GetOldestKeyPoolTime X W =
     do {
       (nIndex, keypool, W) \<leftarrow> ReserveKeyFromKeyPool X W;
       if nIndex = - 1 then Some (we_nTime X, W) else Some (kp_nTime keypool, ReturnKey nIndex W)
     }"

fun reserve_keys_loop :: "'k walletenv \<Rightarrow> CWallet \<Rightarrow> int list \<Rightarrow> uint160 set \<Rightarrow> uint160 set option" where
  "reserve_keys_loop X W [] setAddress = Some setAddress"
| "reserve_keys_loop X W (i # is) setAddress =
     (case ReadPool i W of
        None \<Rightarrow> None
      | Some keypool \<Rightarrow>
          let keyID = CPubKey_GetID (we_ssl X) (kp_vchPubKey keypool)
          in if \<not> CPubKey_IsValid (kp_vchPubKey keypool) \<or> \<not> HaveKey (wl_keystore W) keyID then None
             else reserve_keys_loop X W is (insert keyID setAddress))"

definition GetAllReserveKeys :: "'k walletenv \<Rightarrow> CWallet \<Rightarrow> uint160 set option" where
  "GetAllReserveKeys X W = reserve_keys_loop X W (sorted_list_of_set (wl_setKeyPool W)) {}"

subsection \<open>Reserved keys\<close>

record CReserveKey =
  rk_nIndex :: int
  rk_vchPubKey :: valtype

definition CReserveKey_new :: CReserveKey where
  "CReserveKey_new = \<lparr>rk_nIndex = - 1, rk_vchPubKey = []\<rparr>"

definition GetReservedKey :: "'k walletenv \<Rightarrow> CReserveKey \<Rightarrow> CWallet \<Rightarrow> (valtype \<times> CReserveKey \<times> CWallet) option" where
  "GetReservedKey X r W =
     do {
       (r, W) \<leftarrow> (if rk_nIndex r = - 1
                  then map_option (\<lambda>(nIndex, keypool, W).
                         (\<lparr>rk_nIndex = nIndex,
                           rk_vchPubKey = (if nIndex \<noteq> - 1 then kp_vchPubKey keypool else wl_vchDefaultKey W)\<rparr>, W))
                         (ReserveKeyFromKeyPool X W)
                  else Some (r, W));
       if \<not> CPubKey_IsValid (rk_vchPubKey r) then None else Some (rk_vchPubKey r, r, W)
     }"

definition reserve_KeepKey :: "CReserveKey \<Rightarrow> CWallet \<Rightarrow> CReserveKey \<times> CWallet" where
  "reserve_KeepKey r W = (CReserveKey_new, if rk_nIndex r \<noteq> - 1 then KeepKey (rk_nIndex r) W else W)"

definition reserve_ReturnKey :: "CReserveKey \<Rightarrow> CWallet \<Rightarrow> CReserveKey \<times> CWallet" where
  "reserve_ReturnKey r W = (CReserveKey_new, if rk_nIndex r \<noteq> - 1 then ReturnKey (rk_nIndex r) W else W)"

subsection \<open>The address book and the default key\<close>

definition address_text :: "'k walletenv \<Rightarrow> CTxDestination \<Rightarrow> string" where
  "address_text X address =
     b58_ToString (we_ssl X)
       (case address_of (nd_fTestNet (we_node X)) address of
          Some d \<Rightarrow> d | None \<Rightarrow> \<lparr>b58_nVersion = 0, b58_vchData = []\<rparr>)"

definition SetAddressBookName :: "'k walletenv \<Rightarrow> CTxDestination \<Rightarrow> string \<Rightarrow> CWallet \<Rightarrow> bool \<times> CWallet" where
  "SetAddressBookName X address strName W =
     (let W = W\<lparr>wl_mapAddressBook := (wl_mapAddressBook W)(address \<mapsto> strName)\<rparr>
      in if \<not> wl_fFileBacked W then (False, W)
         else db_step (\<lambda>t. t\<lparr>wb_name := map_put (address_text X address) strName (wb_name t)\<rparr>) W)"

definition DelAddressBookName :: "'k walletenv \<Rightarrow> CTxDestination \<Rightarrow> CWallet \<Rightarrow> bool \<times> CWallet" where
  "DelAddressBookName X address W =
     (let W = W\<lparr>wl_mapAddressBook := (wl_mapAddressBook W)(address := None)\<rparr>
      in if \<not> wl_fFileBacked W then (False, W)
         else db_step (\<lambda>t. t\<lparr>wb_name := map_erase (address_text X address) (wb_name t)\<rparr>) W)"

definition SetDefaultKey :: "valtype \<Rightarrow> CWallet \<Rightarrow> bool \<times> CWallet" where
  "SetDefaultKey vchPubKey W =
     (if wl_fFileBacked W
      then case db_step (\<lambda>t. t\<lparr>wb_defaultkey := vchPubKey\<rparr>) W of
             (False, W) \<Rightarrow> (False, W)
           | (True, W) \<Rightarrow> (True, W\<lparr>wl_vchDefaultKey := vchPubKey\<rparr>)
      else (True, W\<lparr>wl_vchDefaultKey := vchPubKey\<rparr>))"

subsection \<open>The pass phrase\<close>

fun wallet_unlock_loop ::
  "'k walletenv \<Rightarrow> valtype \<Rightarrow> CCrypter \<Rightarrow> CMasterKey list \<Rightarrow> CWallet \<Rightarrow> (valtype option \<times> CCrypter \<times> CWallet) option" where
  "wallet_unlock_loop X pass crypter [] W = Some (None, crypter, W)"
| "wallet_unlock_loop X pass crypter (k # ks) W =
     (case SetKeyFromPassphrase (kl_evp (we_libs X)) crypter pass (mk_vchSalt k) (mk_nDeriveIterations k) (mk_nDerivationMethod k) of
        (False, crypter) \<Rightarrow> Some (None, crypter, W)
      | (True, crypter) \<Rightarrow>
          (case CCrypter_Decrypt (kl_evp (we_libs X)) crypter (mk_vchCryptedKey k) of
             None \<Rightarrow> Some (None, crypter, W)
           | Some vMasterKey \<Rightarrow>
               (case Unlock (we_libs X) (wl_keystore W) vMasterKey of
                  None \<Rightarrow> None
                | Some (True, store) \<Rightarrow> Some (Some vMasterKey, crypter, W\<lparr>wl_keystore := store\<rparr>)
                | Some (False, store) \<Rightarrow> wallet_unlock_loop X pass crypter ks (W\<lparr>wl_keystore := store\<rparr>))))"

definition wallet_Unlock :: "'k walletenv \<Rightarrow> valtype \<Rightarrow> CWallet \<Rightarrow> (bool \<times> CWallet) option" where
  "wallet_Unlock X strWalletPassphrase W =
     (if \<not> IsLocked (wl_keystore W) then Some (False, W)
      else do {
        (found, _, W) \<leftarrow> wallet_unlock_loop X strWalletPassphrase CCrypter_new (map snd (wl_mapMasterKeys W)) W;
        Some (found \<noteq> None, W)
      })"

definition wallet_Lock :: "CWallet \<Rightarrow> CWallet" where
  "wallet_Lock W = W\<lparr>wl_keystore := snd (Lock (wl_keystore W))\<rparr>"

text \<open>
  The number of rounds is measured twice, each time with the key derived anew; the floor is
  25,000. \<open>derive_key\<close> is the crypter after the three derivations, with the verdict of the last.
\<close>

definition derived_rounds :: "'k walletenv \<Rightarrow> nat" where
  "derived_rounds X = max 25000 (we_nDeriveIterations X 1)"

definition derive_key :: "'k walletenv \<Rightarrow> valtype \<Rightarrow> CMasterKey \<Rightarrow> nat \<Rightarrow> CCrypter \<Rightarrow> bool \<times> CCrypter" where
  "derive_key X pass k nRounds crypter =
     (let try = (\<lambda>n cr. SetKeyFromPassphrase (kl_evp (we_libs X)) cr pass (mk_vchSalt k) n (mk_nDerivationMethod k));
          crypter = snd (try nRounds crypter);
          crypter = snd (try (we_nDeriveIterations X 0) crypter)
      in try (derived_rounds X) crypter)"

text \<open>The wallet's turn of \<open>EncryptKeys\<close>: every key goes to the store and to the database.\<close>

fun wallet_encrypt_loop ::
  "'k walletenv \<Rightarrow> valtype \<Rightarrow> (uint160 \<times> valtype \<times> bool) list \<Rightarrow> CWallet \<Rightarrow> (bool \<times> CWallet) option" where
  "wallet_encrypt_loop X vMasterKeyIn [] W = Some (True, W)"
| "wallet_encrypt_loop X vMasterKeyIn ((_, secret, fCompressed) # ms) W =
     do {
       key \<leftarrow> SetSecret (kl_ec (we_libs X)) (CKey_Reset (kl_ec (we_libs X))) secret fCompressed;
       vchPubKey \<leftarrow> GetPubKey (kl_ec (we_libs X)) key;
       (secret', _) \<leftarrow> GetSecret (kl_ec (we_libs X)) key;
       case EncryptSecret (kl_evp (we_libs X)) vMasterKeyIn secret' (CPubKey_GetHash (we_ssl X) vchPubKey) of
         None \<Rightarrow> Some (False, W)
       | Some vchCryptedSecret \<Rightarrow>
           (case wallet_AddCryptedKey X vchPubKey vchCryptedSecret W of
              (False, W) \<Rightarrow> Some (False, W)
            | (True, W) \<Rightarrow> wallet_encrypt_loop X vMasterKeyIn ms W)
     }"

definition wallet_EncryptKeys :: "'k walletenv \<Rightarrow> valtype \<Rightarrow> CWallet \<Rightarrow> (bool \<times> CWallet) option" where
  "wallet_EncryptKeys X vMasterKeyIn W =
     (let ks = wl_keystore W
      in if ks_mapCryptedKeys ks \<noteq> [] \<or> ks_fUseCrypto ks then Some (False, W)
         else do {
           (ok, W) \<leftarrow> wallet_encrypt_loop X vMasterKeyIn (ks_mapKeys ks) (W\<lparr>wl_keystore := ks\<lparr>ks_fUseCrypto := True\<rparr>\<rparr>);
           if ok then Some (True, W\<lparr>wl_keystore := (wl_keystore W)\<lparr>ks_mapKeys := []\<rparr>\<rparr>) else Some (False, W)
         })"

definition WriteMasterKey :: "nat \<Rightarrow> CMasterKey \<Rightarrow> CWallet \<Rightarrow> bool \<times> CWallet" where
  "WriteMasterKey nID k W = db_step (\<lambda>t. t\<lparr>wb_mkey := map_put nID k (wb_mkey t)\<rparr>) W"

text \<open>
  What follows the derivation. The database transaction is on a handle of its own; a failure after
  its start ends the process, so that what was written in between is given up.
\<close>

definition encrypt_wallet_keys :: "'k walletenv \<Rightarrow> valtype \<Rightarrow> valtype \<Rightarrow> CMasterKey \<Rightarrow> CWallet \<Rightarrow> (bool \<times> CWallet) option" where
  "encrypt_wallet_keys X strWalletPassphrase vMasterKey kMasterKey W =
     (let nID = wl_nMasterKeyMaxID W + 1;
          W = W\<lparr>wl_nMasterKeyMaxID := nID, wl_mapMasterKeys := map_put nID kMasterKey (wl_mapMasterKeys W)\<rparr>;
          (begun, W) = (if wl_fFileBacked W then db_step id W else (True, W))
      in if \<not> begun then Some (False, W)
         else do {
           let W = (if wl_fFileBacked W then snd (WriteMasterKey nID kMasterKey W) else W);
           (ok, W) \<leftarrow> wallet_EncryptKeys X vMasterKey W;
           if \<not> ok then None
           else do {
             let W = snd (SetMinVersion FEATURE_WALLETCRYPT True W);
             let (committed, W) = (if wl_fFileBacked W then db_step id W else (True, W));
             if \<not> committed then None
             else do {
               (_, W) \<leftarrow> wallet_Unlock X strWalletPassphrase (wallet_Lock W);
               (_, W) \<leftarrow> NewKeyPool X W;
               Some (True, wallet_Lock W)
             }
           }
         })"

definition EncryptWallet :: "'k walletenv \<Rightarrow> valtype \<Rightarrow> CWallet \<Rightarrow> (bool \<times> CWallet) option" where
  "EncryptWallet X strWalletPassphrase W =
     (if ks_fUseCrypto (wl_keystore W) then Some (False, W)
      else let vMasterKey = we_RAND_bytes X WALLET_CRYPTO_KEY_SIZE;
               k = \<lparr>mk_vchCryptedKey = [], mk_vchSalt = we_RAND_bytes X WALLET_CRYPTO_SALT_SIZE,
                    mk_nDerivationMethod = 0, mk_nDeriveIterations = derived_rounds X\<rparr>
           in case derive_key X strWalletPassphrase k 25000 CCrypter_new of
                (False, _) \<Rightarrow> Some (False, W)
              | (True, crypter) \<Rightarrow>
                  (case CCrypter_Encrypt (kl_evp (we_libs X)) crypter vMasterKey of
                     None \<Rightarrow> Some (False, W)
                   | Some crypted \<Rightarrow>
                       encrypt_wallet_keys X strWalletPassphrase vMasterKey (k\<lparr>mk_vchCryptedKey := crypted\<rparr>) W))"

text \<open>\<open>ChangeWalletPassphrase\<close>: the first master key that unlocks the store gets the new phrase.\<close>

definition change_master_key ::
  "'k walletenv \<Rightarrow> valtype \<Rightarrow> valtype \<Rightarrow> nat \<Rightarrow> CMasterKey \<Rightarrow> CCrypter \<Rightarrow> CWallet \<Rightarrow> bool \<times> CWallet" where
  "change_master_key X vMasterKey newpass nID k crypter W =
     (let k' = k\<lparr>mk_nDeriveIterations := derived_rounds X\<rparr>;
          put = (\<lambda>k W. W\<lparr>wl_mapMasterKeys := map_put nID k (wl_mapMasterKeys W)\<rparr>)
      in case derive_key X newpass k (mk_nDeriveIterations k) crypter of
           (False, _) \<Rightarrow> (False, put k' W)
         | (True, crypter) \<Rightarrow>
             (case CCrypter_Encrypt (kl_evp (we_libs X)) crypter vMasterKey of
                None \<Rightarrow> (False, put k' W)
              | Some crypted \<Rightarrow>
                  let k' = k'\<lparr>mk_vchCryptedKey := crypted\<rparr> in (True, snd (WriteMasterKey nID k' (put k' W)))))"

fun change_loop ::
  "'k walletenv \<Rightarrow> valtype \<Rightarrow> valtype \<Rightarrow> bool \<Rightarrow> CCrypter \<Rightarrow> (nat \<times> CMasterKey) list \<Rightarrow> CWallet \<Rightarrow> (bool \<times> CWallet) option" where
  "change_loop X oldpass newpass fWasLocked crypter [] W = Some (False, W)"
| "change_loop X oldpass newpass fWasLocked crypter ((nID, k) # ks) W =
     (case SetKeyFromPassphrase (kl_evp (we_libs X)) crypter oldpass (mk_vchSalt k) (mk_nDeriveIterations k) (mk_nDerivationMethod k) of
        (False, _) \<Rightarrow> Some (False, W)
      | (True, crypter) \<Rightarrow>
          (case CCrypter_Decrypt (kl_evp (we_libs X)) crypter (mk_vchCryptedKey k) of
             None \<Rightarrow> Some (False, W)
           | Some vMasterKey \<Rightarrow>
               (case Unlock (we_libs X) (wl_keystore W) vMasterKey of
                  None \<Rightarrow> None
                | Some (False, store) \<Rightarrow> change_loop X oldpass newpass fWasLocked crypter ks (W\<lparr>wl_keystore := store\<rparr>)
                | Some (True, store) \<Rightarrow>
                    (case change_master_key X vMasterKey newpass nID k crypter (W\<lparr>wl_keystore := store\<rparr>) of
                       (False, W) \<Rightarrow> Some (False, W)
                     | (True, W) \<Rightarrow> Some (True, if fWasLocked then wallet_Lock W else W)))))"

definition ChangeWalletPassphrase :: "'k walletenv \<Rightarrow> valtype \<Rightarrow> valtype \<Rightarrow> CWallet \<Rightarrow> (bool \<times> CWallet) option" where
  "ChangeWalletPassphrase X oldpass newpass W =
     (let fWasLocked = IsLocked (wl_keystore W); W = wallet_Lock W
      in change_loop X oldpass newpass fWasLocked CCrypter_new (wl_mapMasterKeys W) W)"

end
