(* ===== verification/Wallet.thy ===== *)
theory Wallet
  imports Wallet_Keys
begin

text \<open>
  The transactions of the wallet (\<open>src/wallet.cpp\<close>): adding and updating them, marking what
  they spend, balances, the coins that can be spent and their selection.

  A pointer to a transaction of the wallet is its hash. The notices to the interface and the
  command of \<open>-walletnotify\<close> are left out.
\<close>

definition put_tx :: "uint256 \<Rightarrow> CWalletTx \<Rightarrow> CWallet \<Rightarrow> CWallet" where
  "put_tx h w W = W\<lparr>wl_mapWallet := map_put h w (wl_mapWallet W)\<rparr>"

definition WriteToDisk_wtx :: "'k walletenv \<Rightarrow> CWalletTx \<Rightarrow> CWallet \<Rightarrow> bool \<times> CWallet" where
  "WriteToDisk_wtx X w W = db_step (\<lambda>t. t\<lparr>wb_tx := map_put (wt_GetHash X w) w (wb_tx t)\<rparr>) W"

subsection \<open>Marking what is spent\<close>

text \<open>The credit that is printed is computed, and remembered, before the output is marked.\<close>

definition update_spent_input :: "'k walletenv \<Rightarrow> CTxIn \<Rightarrow> CWallet \<Rightarrow> CWallet option" where
  "update_spent_input X txin W =
     (case map_of (wl_mapWallet W) (op_hash (ti_prevout txin)) of
        None \<Rightarrow> Some W
      | Some wtx \<Rightarrow>
          let n = unat (op_n (ti_prevout txin))
          in if length (wt_vout wtx) \<le> n then Some W
             else do {
               spent \<leftarrow> IsSpent n wtx;
               if spent then Some W
               else do {
                 mine \<leftarrow> IsMine_out X W (wt_vout wtx ! n);
                 if \<not> mine then Some W
                 else do {
                   (_, wtx) \<leftarrow> wt_GetCredit X W True wtx;
                   wtx \<leftarrow> MarkSpent n wtx;
                   Some (snd (WriteToDisk_wtx X wtx (put_tx (op_hash (ti_prevout txin)) wtx W)))
                 }
               }
             })"

fun update_spent_inputs :: "'k walletenv \<Rightarrow> CTxIn list \<Rightarrow> CWallet \<Rightarrow> CWallet option" where
  "update_spent_inputs X [] W = Some W"
| "update_spent_inputs X (i # is) W = do { W \<leftarrow> update_spent_input X i W; update_spent_inputs X is W }"

definition WalletUpdateSpent :: "'k walletenv \<Rightarrow> CTransaction \<Rightarrow> CWallet \<Rightarrow> CWallet option" where
  "WalletUpdateSpent X tx W = update_spent_inputs X (tx_vin tx) W"

definition wallet_MarkDirty :: "CWallet \<Rightarrow> CWallet" where
  "wallet_MarkDirty W = W\<lparr>wl_mapWallet := map (\<lambda>(h, w). (h, MarkDirty w)) (wl_mapWallet W)\<rparr>"

subsection \<open>Adding a transaction\<close>

definition IncOrderPosNext :: "CWallet \<Rightarrow> int64 \<times> CWallet" where
  "IncOrderPosNext W =
     (let nRet = wl_nOrderPosNext W; W = W\<lparr>wl_nOrderPosNext := nRet + 1\<rparr>
      in (nRet, snd (db_step (\<lambda>t. t\<lparr>wb_orderposnext := wl_nOrderPosNext W\<rparr>) W)))"

text \<open>
  \<open>OrderedTxItems\<close>: the transactions and the accounting entries by their order positions; of equal
  positions the one inserted first comes first.
\<close>

definition ListAccountCreditDebit :: "string \<Rightarrow> CWallet \<Rightarrow> CAccountingEntry list" where
  "ListAccountCreditDebit strAccount W =
     (if strAccount = ''*'' then wb_acentry (tables_of W)
      else filter (\<lambda>e. ae_strAccount e = strAccount) (wb_acentry (tables_of W)))"

definition OrderedTxItems :: "string \<Rightarrow> CWallet \<Rightarrow> (uint256 + CAccountingEntry) list" where
  "OrderedTxItems strAccount W =
     map snd (sort_key (\<lambda>p. sint (fst p))
       (map (\<lambda>(h, w). (wt_nOrderPos w, Inl h)) (wl_mapWallet W) @
        map (\<lambda>e. (ae_nOrderPos e, Inr e)) (ListAccountCreditDebit strAccount W)))"

definition smart_time_of :: "CWallet \<Rightarrow> uint256 + CAccountingEntry \<Rightarrow> int" where
  "smart_time_of W item =
     (case item of
        Inl h \<Rightarrow> (case map_of (wl_mapWallet W) h of Some w \<Rightarrow> GetTxTime w | None \<Rightarrow> 0)
      | Inr e \<Rightarrow> sint (ae_nTime e))"

text \<open>
  The last item whose time is tolerated gives \<open>latestEntry\<close> and may move \<open>latestNow\<close>. The sum
  \<open>latestNow + 300\<close> is computed in \<open>unsigned int\<close>.
\<close>

definition nTimeSmart :: "'k walletenv \<Rightarrow> uint256 \<Rightarrow> uint256 \<Rightarrow> uint32 \<Rightarrow> CWallet \<Rightarrow> uint32" where
  "nTimeSmart X hash hashBlock nTimeReceived W =
     (case map_of (cs_mapBlockIndex (we_chain X)) hashBlock of
        None \<Rightarrow> nTimeReceived
      | Some pindex \<Rightarrow>
          let latestTolerated = uint (nTimeReceived + 300);
              times = map (smart_time_of W) (filter (\<lambda>i. i \<noteq> Inl hash) (rev (OrderedTxItems [] W)));
              (latestEntry, latestNow) =
                (case find (\<lambda>t. t \<le> latestTolerated) times of
                   None \<Rightarrow> (0, nTimeReceived)
                 | Some t \<Rightarrow> (word_of_int t, if uint nTimeReceived < t then word_of_int t else nTimeReceived))
          in max latestEntry (min (bi_nTime pindex) latestNow))"

definition insert_new :: "'k walletenv \<Rightarrow> uint256 \<Rightarrow> CWalletTx \<Rightarrow> CWallet \<Rightarrow> CWallet" where
  "insert_new X hash wtxIn W =
     (let w = (BindWallet wtxIn)\<lparr>wt_nTimeReceived := word_of_int (we_nAdjustedTime X)\<rparr>;
          (nOrderPos, W) = IncOrderPosNext W;
          w = w\<lparr>wt_nOrderPos := nOrderPos, wt_nTimeSmart := wt_nTimeReceived w\<rparr>;
          W = put_tx hash w W
      in if mt_hashBlock wtxIn \<noteq> 0
         then put_tx hash (w\<lparr>wt_nTimeSmart := nTimeSmart X hash (mt_hashBlock wtxIn) (wt_nTimeReceived w) W\<rparr>) W
         else W)"

text \<open>The merge into a transaction the wallet has: what changed, and the transaction.\<close>

definition merge_tx :: "CWalletTx \<Rightarrow> CWalletTx \<Rightarrow> bool \<times> CWalletTx" where
  "merge_tx wtxIn w =
     (let w = BindWallet w;
          block = (mt_hashBlock wtxIn \<noteq> 0 \<and> mt_hashBlock wtxIn \<noteq> mt_hashBlock w);
          w = (if block then w\<lparr>mt_hashBlock := mt_hashBlock wtxIn\<rparr> else w);
          branch = (mt_nIndex wtxIn \<noteq> - 1 \<and>
            (mt_vMerkleBranch wtxIn \<noteq> mt_vMerkleBranch w \<or> mt_nIndex wtxIn \<noteq> mt_nIndex w));
          w = (if branch then w\<lparr>mt_vMerkleBranch := mt_vMerkleBranch wtxIn, mt_nIndex := mt_nIndex wtxIn\<rparr> else w);
          from_me = (wt_fFromMe wtxIn \<noteq> 0 \<and> wt_fFromMe wtxIn \<noteq> wt_fFromMe w);
          w = (if from_me then w\<lparr>wt_fFromMe := wt_fFromMe wtxIn\<rparr> else w);
          (spent, w) = UpdateSpent (wt_vfSpent wtxIn) w
      in (block \<or> branch \<or> from_me \<or> spent, w))"

text \<open>Without an interface, a default key that receives a payment is replaced.\<close>

fun replace_default_key :: "'k walletenv \<Rightarrow> byte list \<Rightarrow> CTxOut list \<Rightarrow> CWallet \<Rightarrow> CWallet option" where
  "replace_default_key X scriptDefaultKey [] W = Some W"
| "replace_default_key X scriptDefaultKey (out # outs) W =
     (if to_scriptPubKey out \<noteq> scriptDefaultKey then replace_default_key X scriptDefaultKey outs W
      else do {
        (newDefaultKey, W) \<leftarrow> GetKeyFromPool X False W;
        let W = (case newDefaultKey of
                   None \<Rightarrow> W
                 | Some k \<Rightarrow>
                     let W = snd (SetDefaultKey k W)
                     in snd (SetAddressBookName X (CKeyID (CPubKey_GetID (we_ssl X) (wl_vchDefaultKey W))) [] W));
        replace_default_key X scriptDefaultKey outs W
      })"

definition finish_add :: "'k walletenv \<Rightarrow> uint256 \<Rightarrow> bool \<Rightarrow> CWallet \<Rightarrow> (bool \<times> CWallet) option" where
  "finish_add X hash fChanged W =
     do {
       wtx \<leftarrow> map_of (wl_mapWallet W) hash;
       let (ok, W) = (if fChanged then WriteToDisk_wtx X wtx W else (True, W));
       if \<not> ok then Some (False, W)
       else do {
         W \<leftarrow> (if \<not> we_fHaveGUI X
               then replace_default_key X (SetDestination (CKeyID (CPubKey_GetID (we_ssl X) (wl_vchDefaultKey W)))) (wt_vout wtx) W
               else Some W);
         W \<leftarrow> WalletUpdateSpent X (mt_tx wtx) W;
         Some (True, W)
       }
     }"

definition AddToWallet :: "'k walletenv \<Rightarrow> CWalletTx \<Rightarrow> CWallet \<Rightarrow> (bool \<times> CWallet) option" where
  "AddToWallet X wtxIn W =
     (let hash = wt_GetHash X wtxIn
      in case map_of (wl_mapWallet W) hash of
           None \<Rightarrow> finish_add X hash True (insert_new X hash wtxIn W)
         | Some w \<Rightarrow> (case merge_tx wtxIn w of (fUpdated, w) \<Rightarrow> finish_add X hash fUpdated (put_tx hash w W)))"

definition AddToWalletIfInvolvingMe ::
  "'k walletenv \<Rightarrow> CTransaction \<Rightarrow> CBlock option \<Rightarrow> bool \<Rightarrow> CWallet \<Rightarrow> (bool \<times> CWallet) option" where
  "AddToWalletIfInvolvingMe X tx pblock fUpdate W =
     (let fExisted = (map_of (wl_mapWallet W) (GetHash (we_ssl X) tx) \<noteq> None)
      in if fExisted \<and> \<not> fUpdate then Some (False, W)
         else do {
           involved \<leftarrow> (if fExisted then Some True
                        else do { mine \<leftarrow> IsMine_tx X W tx; if mine then Some True else IsFromMe_tx X W tx });
           if involved
           then do {
             let wtx = CWalletTx_new tx;
             wtx \<leftarrow> (case pblock of None \<Rightarrow> Some wtx | Some b \<Rightarrow> map_option snd (SetMerkleBranch X (Some b) wtx));
             AddToWallet X wtx W
           }
           else map_option (Pair False) (WalletUpdateSpent X tx W)
         })"

definition EraseFromWallet :: "uint256 \<Rightarrow> CWallet \<Rightarrow> bool \<times> CWallet" where
  "EraseFromWallet hash W =
     (if \<not> wl_fFileBacked W then (False, W)
      else if map_of (wl_mapWallet W) hash \<noteq> None
      then (True, snd (db_step (\<lambda>t. t\<lparr>wb_tx := map_erase hash (wb_tx t)\<rparr>)
             (W\<lparr>wl_mapWallet := map_erase hash (wl_mapWallet W)\<rparr>)))
      else (True, W))"

definition GetTransaction_wallet :: "CWallet \<Rightarrow> uint256 \<Rightarrow> CWalletTx option" where
  "GetTransaction_wallet W hashTx = map_of (wl_mapWallet W) hashTx"

definition Inventory :: "uint256 \<Rightarrow> CWallet \<Rightarrow> CWallet" where
  "Inventory hash W =
     (case map_of (wl_mapRequestCount W) hash of
        None \<Rightarrow> W
      | Some n \<Rightarrow> W\<lparr>wl_mapRequestCount := map_put hash (n + 1) (wl_mapRequestCount W)\<rparr>)"

subsection \<open>Disconnected coin stakes\<close>

fun disable_loop :: "'k walletenv \<Rightarrow> CTxIn list \<Rightarrow> CWallet \<Rightarrow> CWallet option" where
  "disable_loop X [] W = Some W"
| "disable_loop X (i # is) W =
     (case map_of (wl_mapWallet W) (op_hash (ti_prevout i)) of
        None \<Rightarrow> disable_loop X is W
      | Some prev \<Rightarrow>
          let n = unat (op_n (ti_prevout i))
          in if n < length (wt_vout prev)
             then do {
               mine \<leftarrow> IsMine_out X W (wt_vout prev ! n);
               if mine
               then do {
                 prev \<leftarrow> MarkUnspent n prev;
                 disable_loop X is (snd (WriteToDisk_wtx X prev (put_tx (op_hash (ti_prevout i)) prev W)))
               }
               else disable_loop X is W
             }
             else disable_loop X is W)"

definition DisableTransaction :: "'k walletenv \<Rightarrow> CTransaction \<Rightarrow> CWallet \<Rightarrow> CWallet option" where
  "DisableTransaction X tx W =
     (if \<not> IsCoinStake tx then Some W
      else do { mine \<leftarrow> IsFromMe_tx X W tx; if \<not> mine then Some W else disable_loop X (tx_vin tx) W })"

subsection \<open>Loops over the wallet\<close>

text \<open>A loop over \<open>mapWallet\<close> whose body may change what a transaction remembers.\<close>

fun each_tx :: "(CWallet \<Rightarrow> uint256 \<Rightarrow> CWalletTx \<Rightarrow> 'a \<Rightarrow> ('a \<times> CWalletTx) option) \<Rightarrow> uint256 list \<Rightarrow> 'a \<Rightarrow> CWallet \<Rightarrow>
    ('a \<times> CWallet) option" where
  "each_tx body [] a W = Some (a, W)"
| "each_tx body (h # hs) a W =
     (case map_of (wl_mapWallet W) h of
        None \<Rightarrow> each_tx body hs a W
      | Some w \<Rightarrow> do { (a, w) \<leftarrow> body W h w a; each_tx body hs a (put_tx h w W) })"

definition over_wallet :: "(CWallet \<Rightarrow> uint256 \<Rightarrow> CWalletTx \<Rightarrow> 'a \<Rightarrow> ('a \<times> CWalletTx) option) \<Rightarrow> 'a \<Rightarrow> CWallet \<Rightarrow>
    ('a \<times> CWallet) option" where
  "over_wallet body a W = each_tx body (map fst (wl_mapWallet W)) a W"

subsection \<open>Balances\<close>

definition add_available :: "'k walletenv \<Rightarrow> CWallet \<Rightarrow> CWalletTx \<Rightarrow> int64 \<Rightarrow> bool \<Rightarrow> (int64 \<times> CWalletTx) option" where
  "add_available X W w nTotal counts =
     (if counts then map_option (\<lambda>(n, w). (nTotal + n, w)) (wt_GetAvailableCredit X W True w) else Some (nTotal, w))"

definition GetBalance :: "'k walletenv \<Rightarrow> CWallet \<Rightarrow> (int64 \<times> CWallet) option" where
  "GetBalance X = over_wallet (\<lambda>W h w nTotal. do { (ok, w) \<leftarrow> IsConfirmed X W w; add_available X W w nTotal ok }) 0"

definition GetBalanceInMainChain :: "'k walletenv \<Rightarrow> CWallet \<Rightarrow> (int64 \<times> CWallet) option" where
  "GetBalanceInMainChain X =
     over_wallet (\<lambda>W h w nTotal.
       if \<not> wt_IsFinal X w then Some (nTotal, w)
       else do { (ok, w) \<leftarrow> IsConfirmedInMainChain X W w; add_available X W w nTotal ok }) 0"

definition GetUnconfirmedBalance :: "'k walletenv \<Rightarrow> CWallet \<Rightarrow> (int64 \<times> CWallet) option" where
  "GetUnconfirmedBalance X =
     over_wallet (\<lambda>W h w nTotal.
       if \<not> wt_IsFinal X w then add_available X W w nTotal True
       else do { (ok, w) \<leftarrow> IsConfirmed X W w; add_available X W w nTotal (\<not> ok) }) 0"

text \<open>Rewards that are not mature yet, of one kind of transaction.\<close>

definition immature_credit ::
  "'k walletenv \<Rightarrow> (CTransaction \<Rightarrow> bool) \<Rightarrow> CWallet \<Rightarrow> (int64 \<times> CWallet) option" where
  "immature_credit X kind =
     over_wallet (\<lambda>W h w nTotal.
       if \<not> kind (mt_tx w) then Some (nTotal, w)
       else do {
         (nBlocks, w) \<leftarrow> GetBlocksToMaturity X w;
         if nBlocks \<le> 0 then Some (nTotal, w)
         else do {
           (nDepth, w) \<leftarrow> GetDepthInMainChain X w;
           if nDepth \<le> 0 then Some (nTotal, w)
           else map_option (\<lambda>n. (nTotal + n, w)) (GetCredit_tx X W (mt_tx w))
         }
       }) 0"

definition GetImmatureBalance :: "'k walletenv \<Rightarrow> CWallet \<Rightarrow> (int64 \<times> CWallet) option" where
  "GetImmatureBalance X = immature_credit X IsCoinBase"

definition GetStake :: "'k walletenv \<Rightarrow> CWallet \<Rightarrow> (int64 \<times> CWallet) option" where
  "GetStake X = immature_credit X IsCoinStake"

definition GetNewMint :: "'k walletenv \<Rightarrow> CWallet \<Rightarrow> (int64 \<times> CWallet) option" where
  "GetNewMint X = immature_credit X IsCoinBase"

end
