(* ===== verification/Wallet_Coins.thy ===== *)
theory Wallet_Coins
  imports Wallet
begin

text \<open>
  The coins of the wallet (\<open>src/wallet.cpp\<close>, \<open>src/coincontrol.h\<close>): which outputs can be spent,
  the choice of coins for a payment and for staking, and the repair of the spent flags.
\<close>

subsection \<open>Coin control\<close>

record CCoinControl =
  cc_destChange :: CTxDestination
  cc_fReturnChange :: bool
  cc_setSelected :: "COutPoint set"

definition CCoinControl_SetNull :: CCoinControl where
  "CCoinControl_SetNull = \<lparr>cc_destChange = CNoDestination, cc_fReturnChange = False, cc_setSelected = {}\<rparr>"

definition HasSelected :: "CCoinControl \<Rightarrow> bool" where
  "HasSelected c \<longleftrightarrow> cc_setSelected c \<noteq> {}"

definition IsSelected :: "CCoinControl \<Rightarrow> uint256 \<Rightarrow> nat \<Rightarrow> bool" where
  "IsSelected c hash n \<longleftrightarrow> \<lparr>op_hash = hash, op_n = word_of_nat n\<rparr> \<in> cc_setSelected c"

definition Select_output :: "COutPoint \<Rightarrow> CCoinControl \<Rightarrow> CCoinControl" where
  "Select_output output c = c\<lparr>cc_setSelected := insert output (cc_setSelected c)\<rparr>"

definition UnSelect :: "COutPoint \<Rightarrow> CCoinControl \<Rightarrow> CCoinControl" where
  "UnSelect output c = c\<lparr>cc_setSelected := cc_setSelected c - {output}\<rparr>"

definition UnSelectAll :: "CCoinControl \<Rightarrow> CCoinControl" where
  "UnSelectAll c = c\<lparr>cc_setSelected := {}\<rparr>"

subsection \<open>The coins that can be spent\<close>

definition chosen :: "CCoinControl option \<Rightarrow> uint256 \<Rightarrow> nat \<Rightarrow> bool" where
  "chosen coinControl hash i \<longleftrightarrow>
     (case coinControl of None \<Rightarrow> True | Some c \<Rightarrow> \<not> HasSelected c \<or> IsSelected c hash i)"

text \<open>Whether the coin is from the wallet itself is read when the selection asks for it.\<close>

definition coin_output :: "uint256 \<Rightarrow> CWalletTx \<Rightarrow> nat \<Rightarrow> int \<Rightarrow> COutput" where
  "coin_output hash w i nDepth =
     \<lparr>co_tx = hash, co_i = i, co_nDepth = nDepth, co_IsFromMe = False, co_nTime = tx_nTime (mt_tx w),
      co_nValue = to_nValue (wt_vout w ! i)\<rparr>"

fun available_outputs ::
  "'k walletenv \<Rightarrow> CCoinControl option \<Rightarrow> CWallet \<Rightarrow> uint256 \<Rightarrow> nat list \<Rightarrow> CWalletTx \<Rightarrow> COutput list \<Rightarrow>
     (COutput list \<times> CWalletTx) option" where
  "available_outputs X coinControl W hash [] w vCoins = Some (vCoins, w)"
| "available_outputs X coinControl W hash (i # is) w vCoins =
     do {
       spent \<leftarrow> IsSpent i w;
       mine \<leftarrow> (if spent then Some False else IsMine_out X W (wt_vout w ! i));
       if mine \<and> 0 < sint (to_nValue (wt_vout w ! i)) \<and> chosen coinControl hash i
       then do {
         (nDepth, w) \<leftarrow> GetDepthInMainChain X w;
         available_outputs X coinControl W hash is w (vCoins @ [coin_output hash w i nDepth])
       }
       else available_outputs X coinControl W hash is w vCoins
     }"

definition available_tx ::
  "'k walletenv \<Rightarrow> bool \<Rightarrow> CCoinControl option \<Rightarrow> CWallet \<Rightarrow> uint256 \<Rightarrow> CWalletTx \<Rightarrow> COutput list \<Rightarrow>
     (COutput list \<times> CWalletTx) option" where
  "available_tx X fOnlyConfirmed coinControl W hash w vCoins =
     (if \<not> wt_IsFinal X w then Some (vCoins, w)
      else do {
        (ok, w) \<leftarrow> (if fOnlyConfirmed then IsConfirmed X W w else Some (True, w));
        if \<not> ok then Some (vCoins, w)
        else do {
          (nBlocks, w) \<leftarrow> GetBlocksToMaturity X w;
          if 0 < nBlocks then Some (vCoins, w)
          else available_outputs X coinControl W hash [0..<length (wt_vout w)] w vCoins
        }
      })"

definition AvailableCoins ::
  "'k walletenv \<Rightarrow> bool \<Rightarrow> CCoinControl option \<Rightarrow> CWallet \<Rightarrow> (COutput list \<times> CWallet) option" where
  "AvailableCoins X fOnlyConfirmed coinControl = over_wallet (available_tx X fOnlyConfirmed coinControl) []"

subsection \<open>Selecting coins\<close>

text \<open>
  \<open>IsFromMe\<close> of the coins, read through their pointers. The selection reads it coin by coin until
  one of exactly the target's value ends it; here all coins are read, which differs in the debits
  that are remembered, and in nothing where no debit is out of the range of money.
\<close>

fun read_from_me :: "'k walletenv \<Rightarrow> COutput list \<Rightarrow> CWallet \<Rightarrow> (COutput list \<times> CWallet) option" where
  "read_from_me X [] W = Some ([], W)"
| "read_from_me X (c # cs) W =
     do {
       w \<leftarrow> map_of (wl_mapWallet W) (co_tx c);
       (fFromMe, w) \<leftarrow> wt_IsFromMe X W w;
       (cs, W) \<leftarrow> read_from_me X cs (put_tx (co_tx c) w W);
       Some (c\<lparr>co_IsFromMe := fFromMe\<rparr> # cs, W)
     }"

type_synonym selection = "bool \<times> coin_key set \<times> int64"

text \<open>The three attempts with weaker and weaker demands on the depth; each draws anew.\<close>

definition select_attempts :: "(nat \<Rightarrow> random_source) \<Rightarrow> int64 \<Rightarrow> uint32 \<Rightarrow> COutput list \<Rightarrow> selection" where
  "select_attempts R nTargetValue nSpendTime vCoins =
     (let a = SelectCoinsMinConf (R 0) nTargetValue nSpendTime 1 6 vCoins
      in if fst a then a
         else let b = SelectCoinsMinConf (R 1) nTargetValue nSpendTime 1 1 vCoins
              in if fst b then b else SelectCoinsMinConf (R 2) nTargetValue nSpendTime 0 1 vCoins)"

definition SelectCoins ::
  "'k walletenv \<Rightarrow> (nat \<Rightarrow> random_source) \<Rightarrow> int64 \<Rightarrow> uint32 \<Rightarrow> CCoinControl option \<Rightarrow> coin_key set \<Rightarrow> int64 \<Rightarrow> CWallet \<Rightarrow>
     (selection \<times> CWallet) option" where
  "SelectCoins X R nTargetValue nSpendTime coinControl setCoinsRet nValueRet W =
     do {
       (vCoins, W) \<leftarrow> AvailableCoins X True coinControl W;
       if \<exists>c. coinControl = Some c \<and> HasSelected c
       then let nValueRet = fold (\<lambda>c v. v + co_nValue c) vCoins nValueRet
            in Some ((sint nTargetValue \<le> sint nValueRet, setCoinsRet \<union> coin_key ` set vCoins, nValueRet), W)
       else do {
         (vCoins, W) \<leftarrow> read_from_me X vCoins W;
         Some (select_attempts R nTargetValue nSpendTime vCoins, W)
       }
     }"

end
