(* ===== verification/Wallet_Rules.thy ===== *)
theory Wallet_Rules
  imports Wallet_Coins
begin

text \<open>
  The wallet spends only what it owns and has not spent: reading a transaction changes only what
  is remembered for it, adding one marks what it spends, and a marked output stays marked.
\<close>

subsection \<open>What reading changes\<close>

text \<open>The parts of a transaction that are not memory: the transaction and the spent flags.\<close>

definition core_tx :: "CWalletTx \<Rightarrow> CTransaction \<times> bool list" where
  "core_tx w = (mt_tx w, wt_vfSpent w)"

lemma core_vout: "core_tx w' = core_tx w \<Longrightarrow> mt_tx w' = mt_tx w" "core_tx w' = core_tx w \<Longrightarrow> wt_vfSpent w' = wt_vfSpent w"
  by (simp_all add: core_tx_def)

lemma core_IsSpent: "core_tx w' = core_tx w \<Longrightarrow> IsSpent i w' = IsSpent i w"
  by (simp add: core_tx_def IsSpent_def)

lemma core_GetDepth: "GetDepthInMainChain X w = Some (d, w') \<Longrightarrow> core_tx w' = core_tx w"
  by (auto simp: GetDepthInMainChain_def core_tx_def split: if_splits option.splits Option.bind_splits)

lemma GetDepth_tx: "GetDepthInMainChain X m = Some (d, m') \<Longrightarrow> mt_tx m' = mt_tx m"
  by (auto simp: GetDepthInMainChain_def split: if_splits option.splits Option.bind_splits)

lemma core_GetBlocks: "GetBlocksToMaturity X w = Some (d, w') \<Longrightarrow> core_tx w' = core_tx w"
  by (auto simp: GetBlocksToMaturity_def dest: core_GetDepth split: if_splits Option.bind_splits)

lemma core_GetDebit: "wt_GetDebit X W w = Some (n, w') \<Longrightarrow> core_tx w' = core_tx w"
  by (auto simp: wt_GetDebit_def core_tx_def split: if_splits option.splits Option.bind_splits)

lemma core_IsFromMe: "wt_IsFromMe X W w = Some (b, w') \<Longrightarrow> core_tx w' = core_tx w"
  by (auto simp: wt_IsFromMe_def dest: core_GetDebit split: Option.bind_splits)

lemma core_GetCredit: "wt_GetCredit X W c w = Some (n, w') \<Longrightarrow> core_tx w' = core_tx w"
  unfolding wt_GetCredit_def
  by (auto simp: core_tx_def dest!: core_GetBlocks split: if_splits option.splits Option.bind_splits)

lemma core_GetAvailableCredit: "wt_GetAvailableCredit X W c w = Some (n, w') \<Longrightarrow> core_tx w' = core_tx w"
  unfolding wt_GetAvailableCredit_def
  by (auto simp: core_tx_def dest!: core_GetBlocks split: if_splits option.splits Option.bind_splits)

lemma core_ptr_put: "core_tx (ptr_put w p m) = core_tx w"
  by (simp add: ptr_put_def core_tx_def split: option.split)

lemma core_confirmed_loop:
  assumes "confirmed_loop X W w q = Some r"
  shows "core_tx (snd r) = core_tx w"
proof (rule confirmed_loop.raw_induct [where P = "\<lambda>X W w q r. core_tx (snd r) = core_tx w", OF _ assms], goal_cases)
  case (1 loop X W w q r)
  show ?case
  proof (cases q)
    case Nil
    with 1(2) show ?thesis by auto
  next
    case (Cons p ps)
    show ?thesis
    proof (cases "wt_IsFinal X (ptr_tx w p)")
      case False
      with 1(2) Cons show ?thesis by auto
    next
      case True
      obtain d m where d: "GetDepthInMainChain X (ptr_tx w p) = Some (d, m)"
        using 1(2) Cons True by (cases "GetDepthInMainChain X (ptr_tx w p)") auto
      have eq: "(if 1 \<le> d then loop X W (ptr_put w p m) ps
        else Option.bind (IsFromMe_tx X W (mt_tx m)) (\<lambda>fFromMe.
              if \<not> fFromMe then Some (False, ptr_put w p m)
              else case those (map (\<lambda>i. map_prev X w (op_hash (ti_prevout i))) (tx_vin (mt_tx m))) of
                     None \<Rightarrow> Some (False, ptr_put w p m)
                   | Some prevs \<Rightarrow> loop X W (ptr_put w p m) (ps @ map Some prevs))) = Some r"
        using 1(2) Cons True d by simp
      have goal: "core_tx (snd r) = core_tx w" if "loop X W (ptr_put w p m) q' = Some r" for q'
        using 1(1) [OF that] by (simp add: core_ptr_put)
      show ?thesis
      proof (cases "1 \<le> d")
        case True
        with eq goal show ?thesis by simp
      next
        case False
        obtain b where b: "IsFromMe_tx X W (mt_tx m) = Some b" using eq False by (cases "IsFromMe_tx X W (mt_tx m)") simp_all
        show ?thesis
          using eq False b goal core_ptr_put
          by (cases b; cases "those (map (\<lambda>i. map_prev X w (op_hash (ti_prevout i))) (tx_vin (mt_tx m)))") auto
      qed
    qed
  qed
qed

lemma core_IsConfirmed: "IsConfirmed X W w = Some (b, w') \<Longrightarrow> core_tx w' = core_tx w"
  unfolding IsConfirmed_def
  by (fastforce dest: core_GetDepth core_IsFromMe core_confirmed_loop [of _ _ _ _ "(b, w')"] split: if_splits Option.bind_splits)

lemma core_IsConfirmedInMainChain: "IsConfirmedInMainChain X W w = Some (b, w') \<Longrightarrow> core_tx w' = core_tx w"
  unfolding IsConfirmedInMainChain_def
  by (fastforce dest: core_GetDepth core_IsFromMe split: if_splits Option.bind_splits)

subsection \<open>Loops over the wallet\<close>

definition core_map :: "CWallet \<Rightarrow> uint256 \<Rightarrow> (CTransaction \<times> bool list) option" where
  "core_map W h = map_option core_tx (map_of (wl_mapWallet W) h)"

text \<open>A wallet that differs only in what its transactions remember.\<close>

definition reads :: "CWallet \<Rightarrow> CWallet \<Rightarrow> bool" where
  "reads W W' \<longleftrightarrow> core_map W' = core_map W \<and> wl_keystore W' = wl_keystore W \<and> map fst (wl_mapWallet W') = map fst (wl_mapWallet W)"

lemma reads_refl [simp]: "reads W W"
  by (simp add: reads_def)

lemma reads_trans: "reads W W' \<Longrightarrow> reads W' W'' \<Longrightarrow> reads W W''"
  by (simp add: reads_def)

text \<open>In a sorted table, replacing the value of a key keeps the keys.\<close>

definition keys_ok :: "('k::linorder \<times> 'v) list \<Rightarrow> bool" where
  "keys_ok m \<longleftrightarrow> sorted_wrt (<) (map fst m)"

lemma map_put_keys:
  assumes "sorted_wrt (<) (map fst m)" "map_of m k = Some v0"
  shows "map fst (map_put k v m) = map fst m"
  using assms
proof (induction m)
  case (Cons p m)
  obtain k' v' where p: "p = (k', v')" by (cases p)
  show ?case
  proof (cases "k = k'")
    case False
    with Cons.prems p have m: "map_of m k = Some v0" "\<forall>x \<in> set m. k' < fst x" by auto
    then have "k' < k" using map_of_SomeD [OF m(1)] by auto
    with Cons p m(1) False show ?thesis by simp
  qed (simp add: p)
qed simp

lemma put_tx_reads:
  assumes "keys_ok (wl_mapWallet W)" "map_of (wl_mapWallet W) h = Some w" "core_tx w' = core_tx w"
  shows "reads W (put_tx h w' W)"
  using assms map_put_keys [OF assms(1) [unfolded keys_ok_def] assms(2), of w']
  by (auto simp: reads_def core_map_def put_tx_def fun_eq_iff)

lemma reads_keys_ok: "reads W W' \<Longrightarrow> keys_ok (wl_mapWallet W') = keys_ok (wl_mapWallet W)"
  by (simp add: reads_def keys_ok_def)

lemma core_map_Some: "map_of (wl_mapWallet W) h = Some w \<Longrightarrow> core_map W h = Some (core_tx w)"
  by (simp add: core_map_def)

lemma reads_tx:
  "reads W W' \<Longrightarrow> map_of (wl_mapWallet W') h = Some w' \<Longrightarrow> \<exists>w. map_of (wl_mapWallet W) h = Some w \<and> core_tx w' = core_tx w"
  by (metis core_map_def reads_def map_option_eq_Some)

lemma reads_sym: "reads W W' \<Longrightarrow> reads W' W"
  by (simp add: reads_def)

lemma each_tx_reads:
  assumes body: "\<And>W h w a a' w'. body W h w a = Some (a', w') \<Longrightarrow> core_tx w' = core_tx w"
    and "keys_ok (wl_mapWallet W)" "each_tx body hs a W = Some (a', W')"
  shows "reads W W'"
  using assms(2-)
proof (induction hs arbitrary: a W)
  case (Cons h hs)
  show ?case
  proof (cases "map_of (wl_mapWallet W) h")
    case None
    with Cons show ?thesis by simp
  next
    case (Some w)
    with Cons.prems obtain a1 w1 where s: "body W h w a = Some (a1, w1)" "each_tx body hs a1 (put_tx h w1 W) = Some (a', W')"
      by (auto split: Option.bind_splits)
    have r: "reads W (put_tx h w1 W)" using Cons.prems(1) Some body [OF s(1)] by (rule put_tx_reads)
    with Cons.prems(1) have "keys_ok (wl_mapWallet (put_tx h w1 W))" by (simp add: reads_keys_ok)
    from Cons.IH [OF this s(2)] r show ?thesis by (rule reads_trans [rotated])
  qed
qed simp

subsection \<open>What can be spent\<close>

text \<open>An output of the wallet: its own, not spent, and worth something.\<close>

definition spendable :: "'k walletenv \<Rightarrow> CWallet \<Rightarrow> coin_key \<Rightarrow> int64 \<Rightarrow> bool" where
  "spendable X W k v \<longleftrightarrow>
     (\<exists>w. map_of (wl_mapWallet W) (fst k) = Some w \<and> snd k < length (wt_vout w) \<and> IsSpent (snd k) w = Some False \<and>
        IsMine_out X W (wt_vout w ! snd k) = Some True \<and> v = to_nValue (wt_vout w ! snd k) \<and> 0 < sint v)"

lemma spendable_reads: "reads W W' \<Longrightarrow> spendable X W' k v \<Longrightarrow> spendable X W k v"
proof -
  assume r: "reads W W'" and s: "spendable X W' k v"
  from s obtain w' where w': "map_of (wl_mapWallet W') (fst k) = Some w'" "snd k < length (wt_vout w')" "IsSpent (snd k) w' = Some False"
    "IsMine_out X W' (wt_vout w' ! snd k) = Some True" "v = to_nValue (wt_vout w' ! snd k)" "0 < sint v"
    by (auto simp: spendable_def)
  from reads_tx [OF r w'(1)] obtain w where w: "map_of (wl_mapWallet W) (fst k) = Some w" "core_tx w' = core_tx w" by blast
  have "mt_tx w' = mt_tx w" "IsSpent (snd k) w = Some False" using core_vout [OF w(2)] core_IsSpent [OF w(2)] w'(3) by simp_all
  moreover have "IsMine_out X W out = IsMine_out X W' out" for out using r by (simp add: IsMine_out_def reads_def)
  ultimately show "spendable X W k v" unfolding spendable_def using w w' by auto
qed

definition out_value :: "CTxOut \<Rightarrow> int" where
  "out_value out = max 0 (sint (to_nValue out))"

definition tx_worth :: "CWalletTx \<Rightarrow> int" where
  "tx_worth w = (\<Sum>out\<leftarrow>wt_vout w. out_value out)"

text \<open>Everything the transactions of the wallet pay, to whomever.\<close>

definition wallet_worth :: "CWallet \<Rightarrow> int" where
  "wallet_worth W = (\<Sum>p\<leftarrow>wl_mapWallet W. tx_worth (snd p))"

text \<open>The coins that one transaction adds to a list.\<close>

definition adds_coins :: "'k walletenv \<Rightarrow> CWallet \<Rightarrow> uint256 \<Rightarrow> CWalletTx \<Rightarrow> COutput list \<Rightarrow> bool" where
  "adds_coins X W h w cs \<longleftrightarrow>
     (\<forall>c \<in> set cs. co_tx c = h \<and> co_i c < length (wt_vout w) \<and> IsSpent (co_i c) w = Some False \<and>
        IsMine_out X W (wt_vout w ! co_i c) = Some True \<and> co_nValue c = to_nValue (wt_vout w ! co_i c) \<and> 0 < sint (co_nValue c)) \<and>
     distinct (map coin_key cs) \<and> csum (map coin_of cs) \<le> tx_worth w"

lemma available_outputs_adds:
  assumes "available_outputs X ctl W h is w cs = Some (cs', w')"
    and "\<forall>i \<in> set is. i < length (wt_vout w)" "distinct is"
  shows "\<exists>new. cs' = cs @ new \<and> core_tx w' = core_tx w \<and>
    (\<forall>c \<in> set new. co_tx c = h \<and> co_i c \<in> set is \<and> IsSpent (co_i c) w = Some False \<and>
       IsMine_out X W (wt_vout w ! co_i c) = Some True \<and> co_nValue c = to_nValue (wt_vout w ! co_i c) \<and> 0 < sint (co_nValue c)) \<and>
    distinct (map coin_key new) \<and> csum (map coin_of new) \<le> (\<Sum>i\<leftarrow>is. out_value (wt_vout w ! i))"
  using assms
proof (induction X ctl W h "is" w cs rule: available_outputs.induct)
  case (2 X ctl W h i "is" w cs)
  obtain spent where s: "IsSpent i w = Some spent" using "2.prems"(1) by (cases "IsSpent i w") simp_all
  obtain mine where m: "(if spent then Some False else IsMine_out X W (wt_vout w ! i)) = Some mine"
    using "2.prems"(1) s by (cases "if spent then Some False else IsMine_out X W (wt_vout w ! i)") simp_all
  have i: "\<forall>j \<in> set is. j < length (wt_vout w)" "distinct is" "i \<notin> set is" using "2.prems"(2,3) by simp_all
  have worth: "0 \<le> out_value (wt_vout w ! i)" by (simp add: out_value_def)
  show ?case
  proof (cases "mine \<and> 0 < sint (to_nValue (wt_vout w ! i)) \<and> chosen ctl h i")
    case False
    with "2.prems"(1) s m have rest: "available_outputs X ctl W h is w cs = Some (cs', w')" by simp
    from "2.IH"(2) [OF s m False rest i(1,2)] show ?thesis using worth by (fastforce simp: s)
  next
    case True
    then have spent: "\<not> spent" "IsMine_out X W (wt_vout w ! i) = Some True" using m by (auto split: if_splits)
    obtain d w1 where d: "GetDepthInMainChain X w = Some (d, w1)"
      and rest: "available_outputs X ctl W h is w1 (cs @ [coin_output h w1 i d]) = Some (cs', w')"
      using "2.prems"(1) True s m by (auto split: Option.bind_splits)
    have c: "core_tx w1 = core_tx w" "mt_tx w1 = mt_tx w" using core_GetDepth [OF d] core_vout(1) [OF core_GetDepth [OF d]] by simp_all
    have len: "\<forall>j \<in> set is. j < length (wt_vout w1)" using i(1) c(2) by simp
    obtain new where new: "cs' = (cs @ [coin_output h w1 i d]) @ new" "core_tx w' = core_tx w1"
      "\<forall>c \<in> set new. co_tx c = h \<and> co_i c \<in> set is \<and> IsSpent (co_i c) w1 = Some False \<and>
         IsMine_out X W (wt_vout w1 ! co_i c) = Some True \<and> co_nValue c = to_nValue (wt_vout w1 ! co_i c) \<and> 0 < sint (co_nValue c)"
      "distinct (map coin_key new)" "csum (map coin_of new) \<le> (\<Sum>i\<leftarrow>is. out_value (wt_vout w1 ! i))"
      using "2.IH"(1) [OF s m True d refl rest len i(2)] by (elim exE conjE) (rule that)
    have first: "coin_key (coin_output h w1 i d) = (h, i)" "coin_of (coin_output h w1 i d) = (to_nValue (wt_vout w ! i), h, i)"
      using c(2) by (simp_all add: coin_output_def coin_key_def coin_of_def)
    have notin: "(h, i) \<notin> coin_key ` set new" using new(3) i(3) by (auto simp: coin_key_def)
    have val: "out_value (wt_vout w ! i) = sint (to_nValue (wt_vout w ! i))" using True by (simp add: out_value_def)
    show ?thesis
    proof (intro exI [of _ "coin_output h w1 i d # new"] conjI)
      show "cs' = cs @ coin_output h w1 i d # new" using new(1) by simp
      show "core_tx w' = core_tx w" using new(2) c(1) by simp
      show "\<forall>c \<in> set (coin_output h w1 i d # new). co_tx c = h \<and> co_i c \<in> set (i # is) \<and> IsSpent (co_i c) w = Some False \<and>
         IsMine_out X W (wt_vout w ! co_i c) = Some True \<and> co_nValue c = to_nValue (wt_vout w ! co_i c) \<and> 0 < sint (co_nValue c)"
        using new(3) c spent s True by (auto simp: coin_output_def core_IsSpent [OF c(1)])
      show "distinct (map coin_key (coin_output h w1 i d # new))" using new(4) first(1) notin by simp
      show "csum (map coin_of (coin_output h w1 i d # new)) \<le> (\<Sum>i\<leftarrow>i # is. out_value (wt_vout w ! i))"
        using new(5) c(2) val first(2) by simp
    qed
  qed
qed simp

lemma adds_none [simp]: "adds_coins X W h w []"
proof -
  have "0 \<le> (\<Sum>out\<leftarrow>outs. out_value out)" for outs by (induction outs) (simp_all add: out_value_def)
  then show ?thesis by (simp add: adds_coins_def tx_worth_def)
qed

lemma core_adds: "core_tx w' = core_tx w \<Longrightarrow> adds_coins X W h w' cs \<longleftrightarrow> adds_coins X W h w cs"
  by (simp add: adds_coins_def tx_worth_def core_vout(1) [of w' w] core_IsSpent [of w' w])

lemma available_tx_adds:
  assumes "available_tx X f ctl W h w cs = Some (cs', w')"
  shows "\<exists>new. cs' = cs @ new \<and> core_tx w' = core_tx w \<and> adds_coins X W h w new"
proof (cases "wt_IsFinal X w")
  case False
  with assms show ?thesis by (auto simp: available_tx_def)
next
  case True
  obtain ok w1 where c: "(if f then IsConfirmed X W w else Some (True, w)) = Some (ok, w1)"
    using assms True by (cases "if f then IsConfirmed X W w else Some (True, w)") (auto simp: available_tx_def)
  then have w1: "core_tx w1 = core_tx w" by (auto dest: core_IsConfirmed split: if_splits)
  show ?thesis
  proof (cases ok)
    case False
    with assms True c w1 show ?thesis by (auto simp: available_tx_def)
  next
    case ok: True
    obtain n w2 where g: "GetBlocksToMaturity X w1 = Some (n, w2)"
      using assms True c ok by (cases "GetBlocksToMaturity X w1") (auto simp: available_tx_def)
    have w2: "core_tx w2 = core_tx w" using core_GetBlocks [OF g] w1 by simp
    show ?thesis
    proof (cases "0 < n")
      case True
      with assms \<open>wt_IsFinal X w\<close> c ok g w2 show ?thesis by (auto simp: available_tx_def)
    next
      case False
      with assms True c ok g have av: "available_outputs X ctl W h [0..<length (wt_vout w2)] w2 cs = Some (cs', w')"
        by (simp add: available_tx_def)
      obtain new where new: "cs' = cs @ new" "core_tx w' = core_tx w2"
        "\<forall>c \<in> set new. co_tx c = h \<and> co_i c \<in> set [0..<length (wt_vout w2)] \<and> IsSpent (co_i c) w2 = Some False \<and>
           IsMine_out X W (wt_vout w2 ! co_i c) = Some True \<and> co_nValue c = to_nValue (wt_vout w2 ! co_i c) \<and> 0 < sint (co_nValue c)"
        "distinct (map coin_key new)" "csum (map coin_of new) \<le> (\<Sum>i\<leftarrow>[0..<length (wt_vout w2)]. out_value (wt_vout w2 ! i))"
        using available_outputs_adds [OF av] by auto
      have "map (\<lambda>i. out_value (wt_vout w2 ! i)) [0..<length (wt_vout w2)] = map out_value (wt_vout w2)"
        by (rule nth_equalityI) simp_all
      with new(3-5) have "adds_coins X W h w2 new" unfolding adds_coins_def tx_worth_def by auto
      with new(1,2) w2 core_adds [OF w2] show ?thesis by auto
    qed
  qed
qed

lemma adds_spendable:
  assumes "map_of (wl_mapWallet W) h = Some w" "adds_coins X W h w cs" "c \<in> set cs"
  shows "spendable X W (coin_key c) (co_nValue c)"
  using assms by (auto simp: spendable_def adds_coins_def coin_key_def)

definition worth_at :: "CWallet \<Rightarrow> uint256 \<Rightarrow> int" where
  "worth_at W h = (case map_of (wl_mapWallet W) h of None \<Rightarrow> 0 | Some w \<Rightarrow> tx_worth w)"

lemma worth_at_core:
  "worth_at W h = (case core_map W h of None \<Rightarrow> 0 | Some c \<Rightarrow> (\<Sum>out\<leftarrow>tx_vout (fst c). out_value out))"
  by (simp add: worth_at_def core_map_def tx_worth_def core_tx_def split: option.split)

lemma worth_at_reads: "reads W W' \<Longrightarrow> worth_at W' h = worth_at W h"
  by (simp add: worth_at_core reads_def)

definition offers :: "'k walletenv \<Rightarrow> CWallet \<Rightarrow> COutput list \<Rightarrow> bool" where
  "offers X W cs \<longleftrightarrow> (\<forall>c \<in> set cs. spendable X W (coin_key c) (co_nValue c)) \<and> distinct (map coin_key cs)"

lemma available_each:
  assumes "keys_ok (wl_mapWallet W)" "distinct hs" "each_tx (available_tx X f ctl) hs cs W = Some (cs', W')"
  shows "\<exists>new. cs' = cs @ new \<and> offers X W new \<and> co_tx ` set new \<subseteq> set hs \<and>
    csum (map coin_of new) \<le> sum_list (map (worth_at W) hs)"
  using assms
proof (induction hs arbitrary: cs W)
  case (Cons h hs)
  show ?case
  proof (cases "map_of (wl_mapWallet W) h")
    case None
    with Cons.prems have "each_tx (available_tx X f ctl) hs cs W = Some (cs', W')" by simp
    moreover have "distinct hs" using Cons.prems(2) by simp
    moreover have "worth_at W h = 0" using None by (simp add: worth_at_def)
    ultimately show ?thesis using Cons.IH [OF Cons.prems(1)] by (simp add: subset_insertI2) blast
  next
    case (Some w)
    obtain cs1 w1 where s: "available_tx X f ctl W h w cs = Some (cs1, w1)"
      and rest: "each_tx (available_tx X f ctl) hs cs1 (put_tx h w1 W) = Some (cs', W')"
      using Cons.prems(3) Some by (auto split: Option.bind_splits)
    obtain a where a: "cs1 = cs @ a" "core_tx w1 = core_tx w" "adds_coins X W h w a" using available_tx_adds [OF s] by blast
    have r: "reads W (put_tx h w1 W)" using Cons.prems(1) Some a(2) by (rule put_tx_reads)
    have "keys_ok (wl_mapWallet (put_tx h w1 W))" using Cons.prems(1) r by (simp add: reads_keys_ok)
    from Cons.IH [OF this _ rest] Cons.prems(2) obtain new where new: "cs' = cs1 @ new" "offers X (put_tx h w1 W) new"
      "co_tx ` set new \<subseteq> set hs" "csum (map coin_of new) \<le> sum_list (map (worth_at (put_tx h w1 W)) hs)" by auto
    have "offers X W a" using a(3) adds_spendable [OF Some a(3)] by (simp add: offers_def adds_coins_def)
    moreover have "offers X W new" using new(2) spendable_reads [OF r] unfolding offers_def by blast
    moreover have "co_tx ` set a \<subseteq> {h}" using a(3) by (auto simp: adds_coins_def)
    moreover have "h \<notin> set hs" using Cons.prems(2) by simp
    ultimately have "offers X W (a @ new)" using new(3) by (auto simp: offers_def coin_key_def)
    moreover have "csum (map coin_of a) \<le> worth_at W h" using a(3) Some by (simp add: adds_coins_def worth_at_def)
    moreover have "worth_at (put_tx h w1 W) = worth_at W" using worth_at_reads [OF r] by (simp add: fun_eq_iff)
    ultimately show ?thesis
      using new a(1) \<open>co_tx ` set a \<subseteq> {h}\<close> by (intro exI [of _ "a @ new"]) auto
  qed
qed (simp add: offers_def)

lemma sorted_distinct: "keys_ok m \<Longrightarrow> distinct (map fst m)"
  using strict_sorted_iff by (auto simp: keys_ok_def)

lemma wallet_worth_at: "distinct (map fst (wl_mapWallet W)) \<Longrightarrow> sum_list (map (worth_at W) (map fst (wl_mapWallet W))) = wallet_worth W"
proof -
  assume d: "distinct (map fst (wl_mapWallet W))"
  have "map (worth_at W) (map fst (wl_mapWallet W)) = map (\<lambda>p. tx_worth (snd p)) (wl_mapWallet W)"
    using d by (auto simp: worth_at_def)
  then show ?thesis by (simp only: wallet_worth_def)
qed

lemma AvailableCoins_offers:
  assumes "keys_ok (wl_mapWallet W)" "AvailableCoins X f ctl W = Some (cs, W')"
  shows "offers X W cs" "csum (map coin_of cs) \<le> wallet_worth W" "reads W W'"
proof -
  have each: "each_tx (available_tx X f ctl) (map fst (wl_mapWallet W)) [] W = Some (cs, W')"
    using assms(2) by (simp add: AvailableCoins_def over_wallet_def)
  note d = sorted_distinct [OF assms(1)]
  show "offers X W cs" "csum (map coin_of cs) \<le> wallet_worth W"
    using available_each [OF assms(1) d each] wallet_worth_at [OF d] by auto
  show "reads W W'" using _ assms(1) each by (rule each_tx_reads) (use available_tx_adds in blast)
qed

end
