(* ===== verification/Wallet_Spend.thy ===== *)
theory Wallet_Spend
  imports Wallet_Rules
begin

text \<open>
  Payments are made with coins that the wallet can spend; what an added transaction spends is
  marked as spent, stays so, and is not offered.
\<close>

subsection \<open>Selection\<close>

lemma read_from_me_ok:
  assumes "keys_ok (wl_mapWallet W)" "read_from_me X cs W = Some (cs', W')"
  shows "map coin_of cs' = map coin_of cs" "reads W W'"
proof -
  have "map coin_of cs' = map coin_of cs \<and> reads W W'"
    using assms
  proof (induction cs arbitrary: cs' W)
    case (Cons c cs)
    obtain w where w: "map_of (wl_mapWallet W) (co_tx c) = Some w"
      using Cons.prems(2) by (cases "map_of (wl_mapWallet W) (co_tx c)") auto
    obtain b w1 where b: "wt_IsFromMe X W w = Some (b, w1)" using Cons.prems(2) w by (cases "wt_IsFromMe X W w") auto
    obtain cs1 where rest: "read_from_me X cs (put_tx (co_tx c) w1 W) = Some (cs1, W')" "cs' = c\<lparr>co_IsFromMe := b\<rparr> # cs1"
      using Cons.prems(2) w b by (cases "read_from_me X cs (put_tx (co_tx c) w1 W)") auto
    have r: "reads W (put_tx (co_tx c) w1 W)" using Cons.prems(1) w core_IsFromMe [OF b] by (rule put_tx_reads)
    with Cons.prems(1) have "keys_ok (wl_mapWallet (put_tx (co_tx c) w1 W))" by (simp add: reads_keys_ok)
    from Cons.IH [OF this rest(1)] r rest(2) show ?case by (auto simp: coin_of_def coin_key_def intro: reads_trans)
  qed simp
  then show "map coin_of cs' = map coin_of cs" "reads W W'" by simp_all
qed

lemma coins_ok_cong: "map coin_of cs' = map coin_of cs \<Longrightarrow> coins_ok cs' = coins_ok cs"
  by (simp only: coins_ok_def coins_keys [symmetric])

lemma pays_mono: "pays target (filter P cs) S v \<Longrightarrow> pays target cs S v"
proof -
  assume p: "pays target (filter P cs) S v"
  have "set (map coin_of (filter P cs)) \<subseteq> set (map coin_of cs)" by auto
  moreover obtain ds where "set ds \<subseteq> set (map coin_of (filter P cs))" "distinct (map snd ds)" "S = snd ` set ds"
    "sint v = csum ds" "sint target \<le> sint v" using p unfolding pays_def by blast
  ultimately show ?thesis unfolding pays_def by (intro exI [of _ ds]) blast
qed

lemma csum_filter_mono:
  assumes "positive (map coin_of cs)" "\<And>c. P c \<Longrightarrow> Q c"
  shows "csum (map coin_of (filter P cs)) \<le> csum (map coin_of (filter Q cs))"
proof -
  have "filter P cs = filter P (filter Q cs)" using assms(2) by (auto intro: filter_cong)
  then show ?thesis using csum_filter [OF positive_filter [OF assms(1)], of P Q] by simp
qed

text \<open>The attempts succeed exactly when the coins of the last one are worth enough.\<close>

lemma select_attempts_ok:
  assumes ok: "coins_ok cs" and perm: "\<And>i cs. mset (rs_shuffle (R i) cs) = mset cs"
    and target: "0 < sint target" "sint target + 10000 < 2 ^ 63"
  shows "if sint target \<le> csum (map coin_of (filter (coin_eligible t 0 1) cs))
    then \<exists>S v. select_attempts R target t cs = (True, S, v) \<and> pays target cs S v
    else select_attempts R target t cs = (False, {}, 0)"
proof -
  have attempt: "if sint target \<le> csum (map coin_of (filter (coin_eligible t m n) cs))
    then \<exists>S v. SelectCoinsMinConf (R i) target t m n cs = (True, S, v) \<and> pays target (filter (coin_eligible t m n) cs) S v
    else SelectCoinsMinConf (R i) target t m n cs = (False, {}, 0)" for i m n
    by (rule select_min_conf [OF ok perm target refl])
  have pos: "positive (map coin_of cs)" using ok by (simp add: coins_ok_def)
  have mono: "csum (map coin_of (filter (coin_eligible t m n) cs)) \<le> csum (map coin_of (filter (coin_eligible t 0 1) cs))"
    if "0 \<le> m" "1 \<le> n" for m n
    using that by (intro csum_filter_mono [OF pos]) (auto simp: coin_eligible_def split: if_splits)
  show ?thesis
  proof (cases "sint target \<le> csum (map coin_of (filter (coin_eligible t 1 6) cs))")
    case True
    moreover from this mono [of 1 6] have "sint target \<le> csum (map coin_of (filter (coin_eligible t 0 1) cs))" by simp
    ultimately show ?thesis using attempt [of 1 6 0] by (auto simp: select_attempts_def dest: pays_mono)
  next
    case a: False
    show ?thesis
    proof (cases "sint target \<le> csum (map coin_of (filter (coin_eligible t 1 1) cs))")
      case True
      moreover from this mono [of 1 1] have "sint target \<le> csum (map coin_of (filter (coin_eligible t 0 1) cs))" by simp
      ultimately show ?thesis using a attempt [of 1 6 0] attempt [of 1 1 1] by (auto simp: select_attempts_def dest: pays_mono)
    next
      case False
      then show ?thesis using a attempt [of 1 6 0] attempt [of 1 1 1] attempt [of 0 1 2]
          pays_mono [of target "coin_eligible t 0 1" cs]
        by (cases "sint target \<le> csum (map coin_of (filter (coin_eligible t 0 1) cs))") (auto simp: select_attempts_def)
    qed
  qed
qed

text \<open>Coins of the wallet, each taken once, that are worth what is returned and cover the target.\<close>

definition payment :: "'k walletenv \<Rightarrow> CWallet \<Rightarrow> int64 \<Rightarrow> coin_key set \<Rightarrow> int64 \<Rightarrow> bool" where
  "payment X W target S v \<longleftrightarrow>
     (\<exists>cs. (\<forall>c \<in> set cs. spendable X W (snd c) (fst c)) \<and> distinct (map snd cs) \<and> S = snd ` set cs \<and>
        sint v = csum cs \<and> sint target \<le> sint v)"

lemma offers_coins_ok:
  assumes "offers X W cs" "csum (map coin_of cs) < 2 ^ 63 - 1"
  shows "coins_ok cs"
proof -
  have "0 < sint (co_nValue c)" if "c \<in> set cs" for c
    using assms(1) that unfolding offers_def spendable_def by blast
  then show ?thesis using assms by (auto simp: coins_ok_def offers_def positive_def)
qed

lemma offers_payment:
  assumes "offers X W cs" "pays target cs S v"
  shows "payment X W target S v"
proof -
  obtain ds where ds: "set ds \<subseteq> set (map coin_of cs)" "distinct (map snd ds)" "S = snd ` set ds" "sint v = csum ds" "sint target \<le> sint v"
    using assms(2) by (auto simp: pays_def)
  have "spendable X W (snd d) (fst d)" if "d \<in> set ds" for d
    using that ds(1) assms(1) by (auto simp: offers_def)
  with ds show ?thesis unfolding payment_def by blast
qed

lemma SelectCoins_payment:
  assumes keys: "keys_ok (wl_mapWallet W)" and worth: "wallet_worth W < 2 ^ 63 - 1"
    and perm: "\<And>i cs. mset (rs_shuffle (R i) cs) = mset cs"
    and target: "0 < sint target" "sint target + 10000 < 2 ^ 63"
    and sel: "SelectCoins X R target t ctl {} 0 W = Some ((True, S, v), W')"
  shows "payment X W target S v"
proof -
  obtain cs W1 where av: "AvailableCoins X True ctl W = Some (cs, W1)"
    using sel by (cases "AvailableCoins X True ctl W") (auto simp: SelectCoins_def)
  note a = AvailableCoins_offers [OF keys av]
  have ok: "coins_ok cs" using a(1,2) worth by (intro offers_coins_ok) simp_all
  show ?thesis
  proof (cases "\<exists>c. ctl = Some c \<and> HasSelected c")
    case True
    then have "S = coin_key ` set cs" "v = fold (\<lambda>c v. v + co_nValue c) cs 0" "sint target \<le> sint v"
      using sel av by (auto simp: SelectCoins_def Let_def)
    moreover have "fold (\<lambda>c v. v + co_nValue c) cs n = fold (\<lambda>c v. v + fst c) (map coin_of cs) n" for n
      by (induction cs arbitrary: n) simp_all
    moreover have "sint (fold (\<lambda>c v. v + fst c) (map coin_of cs) 0) = csum (map coin_of cs)"
      using ok by (intro take_coins_value) (simp_all add: coins_ok_def)
    moreover have "distinct (map snd (map coin_of cs))" using ok by (simp only: coins_keys coins_ok_def)
    ultimately have "pays target cs S v" unfolding pays_def
      by (intro exI [of _ "map coin_of cs"]) (auto simp: image_image)
    with a(1) show ?thesis by (rule offers_payment)
  next
    case False
    obtain cs1 W2 where rd: "read_from_me X cs W1 = Some (cs1, W2)" and att: "select_attempts R target t cs1 = (True, S, v)"
      using sel av False by (cases "read_from_me X cs W1") (auto simp: SelectCoins_def)
    have "keys_ok (wl_mapWallet W1)" using keys a(3) by (simp add: reads_keys_ok)
    note m = read_from_me_ok(1) [OF this rd]
    have "coins_ok cs1" using ok coins_ok_cong [OF m] by simp
    from select_attempts_ok [where R = R and t = t, OF this perm target] att have "pays target cs1 S v" by (auto split: if_splits)
    moreover have "set (map coin_of cs1) = set (map coin_of cs)" by (simp only: m)
    ultimately have "pays target cs S v" by (simp only: pays_def)
    with a(1) show ?thesis by (rule offers_payment)
  qed
qed

subsection \<open>Spent outputs stay spent\<close>

definition is_spent :: "CWallet \<Rightarrow> coin_key \<Rightarrow> bool" where
  "is_spent W k \<longleftrightarrow> (\<exists>w. map_of (wl_mapWallet W) (fst k) = Some w \<and> IsSpent (snd k) w = Some True)"

definition tx_map :: "CWallet \<Rightarrow> uint256 \<Rightarrow> CTransaction option" where
  "tx_map W h = map_option mt_tx (map_of (wl_mapWallet W) h)"

text \<open>A step that forgets no transaction and no spent output.\<close>

definition keeps :: "CWallet \<Rightarrow> CWallet \<Rightarrow> bool" where
  "keeps W W' \<longleftrightarrow> (\<forall>k. is_spent W k \<longrightarrow> is_spent W' k) \<and> (keys_ok (wl_mapWallet W) \<longrightarrow> keys_ok (wl_mapWallet W'))"

lemma keeps_self [simp]: "keeps W W"
  by (simp add: keeps_def)

lemma keeps_trans [trans]: "keeps W W' \<Longrightarrow> keeps W' W'' \<Longrightarrow> keeps W W''"
  by (simp add: keeps_def)

lemma keeps_map: "wl_mapWallet W' = wl_mapWallet W \<Longrightarrow> keeps W W'"
  by (simp add: keeps_def is_spent_def)

lemma reads_keeps: "reads W W' \<Longrightarrow> keeps W W'"
proof -
  assume r: "reads W W'"
  have "is_spent W' k" if s: "is_spent W k" for k
  proof -
    obtain w where w: "map_of (wl_mapWallet W) (fst k) = Some w" "IsSpent (snd k) w = Some True" using s by (auto simp: is_spent_def)
    from reads_tx [OF reads_sym [OF r] w(1)] obtain w' where w': "map_of (wl_mapWallet W') (fst k) = Some w'" "core_tx w = core_tx w'" by blast
    then show ?thesis using core_IsSpent [OF w'(2)] w(2) by (auto simp: is_spent_def)
  qed
  then show ?thesis using r by (simp add: keeps_def reads_keys_ok)
qed

lemma resize_flags_nth: "i < n \<Longrightarrow> resize_flags n fs ! i = (i < length fs \<and> fs ! i)"
  by (auto simp: resize_flags_def nth_append)

lemma length_resize [simp]: "length (resize_flags n fs) = n"
  by (simp add: resize_flags_def)

lemma MarkSpent_spent:
  assumes "MarkSpent n w = Some w'"
  shows "IsSpent n w' = Some True" "IsSpent i w = Some True \<Longrightarrow> IsSpent i w' = Some True" "mt_tx w' = mt_tx w"
  using assms by (auto simp: MarkSpent_def IsSpent_def Let_def resize_flags_nth nth_list_update split: if_splits)

lemma MarkUnspent_spent:
  assumes "MarkUnspent n w = Some w'"
  shows "IsSpent n w' = Some False" "mt_tx w' = mt_tx w"
  using assms by (auto simp: MarkUnspent_def IsSpent_def Let_def resize_flags_nth nth_list_update split: if_splits)

lemma update_spent_loop_spent:
  "update_spent_loop k fs b w = (b', w') \<Longrightarrow> k \<le> length (wt_vfSpent w) \<Longrightarrow>
    mt_tx w' = mt_tx w \<and> length (wt_vfSpent w') = length (wt_vfSpent w) \<and>
    (\<forall>i < length (wt_vfSpent w). wt_vfSpent w ! i \<longrightarrow> wt_vfSpent w' ! i)"
proof (induction k fs b w rule: update_spent_loop.induct)
  case (2 i f fs b w)
  show ?case
  proof (cases "i = length (wt_vfSpent w)")
    case True
    with "2.prems"(1) show ?thesis by auto
  next
    case False
    then have i: "Suc i \<le> length (wt_vfSpent w)" using "2.prems"(2) by simp
    show ?thesis
    proof (cases "f \<and> \<not> wt_vfSpent w ! i")
      case True
      from "2.IH"(1) [OF False True] "2.prems"(1) False True i show ?thesis by (auto simp: nth_list_update)
    next
      case nf: False
      from "2.IH"(2) [OF False nf] "2.prems"(1) False nf i show ?thesis by simp
    qed
  qed
qed simp

lemma UpdateSpent_spent:
  assumes "UpdateSpent fs w = (b, w')"
  shows "mt_tx w' = mt_tx w" "IsSpent i w = Some True \<Longrightarrow> IsSpent i w' = Some True"
  using update_spent_loop_spent [OF assms [unfolded UpdateSpent_def]] by (auto simp: IsSpent_def split: if_splits)

lemma keys_ok_put: "keys_ok m \<Longrightarrow> keys_ok (map_put h w m)"
  using sorted_map_put by (simp add: keys_ok_def)

lemma put_tx_keeps:
  assumes "\<And>w i. map_of (wl_mapWallet W) h = Some w \<Longrightarrow> IsSpent i w = Some True \<Longrightarrow> IsSpent i w' = Some True"
  shows "keeps W (put_tx h w' W)"
  using assms by (auto simp: keeps_def is_spent_def put_tx_def keys_ok_put)

text \<open>Marking what a transaction spends.\<close>

definition prev_key :: "CTxIn \<Rightarrow> coin_key" where
  "prev_key i = (op_hash (ti_prevout i), unat (op_n (ti_prevout i)))"

lemma own_prevout_map:
  "own_prevout X W i =
     (case tx_map W (op_hash (ti_prevout i)) of
        None \<Rightarrow> Some None
      | Some tx \<Rightarrow>
          let n = unat (op_n (ti_prevout i))
          in if n < length (tx_vout tx)
             then do { mine \<leftarrow> IsMine (we_ssl X) (store_view (we_libs X) (wl_keystore W)) (to_scriptPubKey (tx_vout tx ! n));
                       Some (if mine then Some (tx_vout tx ! n) else None) }
             else Some None)"
  by (simp add: own_prevout_def tx_map_def IsMine_out_def Let_def split: option.split)

lemma own_prevout_cong: "tx_map W' = tx_map W \<Longrightarrow> wl_keystore W' = wl_keystore W \<Longrightarrow> own_prevout X W' i = own_prevout X W i"
  unfolding own_prevout_map by (simp only:)

lemma update_spent_input_ok:
  assumes "update_spent_input X i W = Some W'"
  shows "keeps W W' \<and> tx_map W' = tx_map W \<and> wl_keystore W' = wl_keystore W \<and>
    (\<forall>out. own_prevout X W i = Some (Some out) \<longrightarrow> is_spent W' (prev_key i))"
proof (cases "map_of (wl_mapWallet W) (op_hash (ti_prevout i))")
  case None
  with assms show ?thesis by (auto simp: update_spent_input_def own_prevout_def)
next
  case (Some w)
  define n where "n = unat (op_n (ti_prevout i))"
  show ?thesis
  proof (cases "length (wt_vout w) \<le> n")
    case True
    with assms Some show ?thesis by (auto simp: update_spent_input_def own_prevout_def n_def)
  next
    case False
    obtain spent where spent: "IsSpent n w = Some spent" using False by (cases "IsSpent n w") (auto simp: IsSpent_def split: if_splits)
    show ?thesis
    proof (cases spent)
      case True
      with assms Some False spent show ?thesis
        by (auto simp: update_spent_input_def is_spent_def prev_key_def n_def)
    next
      case nspent: False
      obtain mine where mine: "IsMine_out X W (wt_vout w ! n) = Some mine"
        using assms Some False spent nspent by (cases "IsMine_out X W (wt_vout w ! n)") (auto simp: update_spent_input_def n_def)
      show ?thesis
      proof (cases mine)
        case False
        with assms Some \<open>\<not> length (wt_vout w) \<le> n\<close> spent nspent mine show ?thesis
          by (auto simp: update_spent_input_def own_prevout_def n_def)
      next
        case True
        obtain c w1 w2 where w1: "wt_GetCredit X W True w = Some (c, w1)" and w2: "MarkSpent n w1 = Some w2"
          and W': "W' = snd (WriteToDisk_wtx X w2 (put_tx (op_hash (ti_prevout i)) w2 W))"
          using assms Some \<open>\<not> length (wt_vout w) \<le> n\<close> spent nspent mine True
          by (auto simp: update_spent_input_def n_def split: Option.bind_splits)
        have maps: "wl_mapWallet W' = wl_mapWallet (put_tx (op_hash (ti_prevout i)) w2 W)" "wl_keystore W' = wl_keystore W"
          by (simp_all add: W' WriteToDisk_wtx_def db_step_def put_tx_def split: prod.split)
        note core = core_GetCredit [OF w1]
        have "keeps W (put_tx (op_hash (ti_prevout i)) w2 W)"
          using Some MarkSpent_spent(2) [OF w2] core_IsSpent [OF core] by (intro put_tx_keeps) simp
        then have "keeps W W'" using keeps_map [OF maps(1)] keeps_trans by blast
        moreover have "tx_map W' = tx_map W"
          using maps(1) MarkSpent_spent(3) [OF w2] core_vout(1) [OF core] Some by (simp add: tx_map_def put_tx_def fun_eq_iff)
        moreover have "is_spent W' (prev_key i)"
          using maps(1) MarkSpent_spent(1) [OF w2] by (simp add: is_spent_def prev_key_def put_tx_def n_def)
        ultimately show ?thesis using maps(2) by simp
      qed
    qed
  qed
qed

lemma update_spent_inputs_ok:
  assumes "update_spent_inputs X is W = Some W'"
  shows "keeps W W' \<and> tx_map W' = tx_map W \<and> wl_keystore W' = wl_keystore W \<and>
    (\<forall>i \<in> set is. \<forall>out. own_prevout X W i = Some (Some out) \<longrightarrow> is_spent W' (prev_key i))"
  using assms
proof (induction "is" arbitrary: W)
  case (Cons i "is")
  obtain W1 where W1: "update_spent_input X i W = Some W1" and rest: "update_spent_inputs X is W1 = Some W'"
    using Cons.prems by (cases "update_spent_input X i W") auto
  note a = update_spent_input_ok [OF W1] and b = Cons.IH [OF rest]
  then have k: "keeps W W'" using keeps_trans by blast
  have "own_prevout X W1 j = own_prevout X W j" for j using a own_prevout_cong by blast
  moreover have "is_spent W' (prev_key i)" if "own_prevout X W i = Some (Some out)" for out
    using a b that unfolding keeps_def by blast
  ultimately show ?case using a b k by simp blast
qed simp

subsection \<open>Keys do not touch the transactions\<close>

lemma db_step_map: "wl_mapWallet (snd (db_step upd W)) = wl_mapWallet W"
  by (simp add: db_step_def split: prod.split)

lemma db_step_map': "db_step upd W = (ok, W') \<Longrightarrow> wl_mapWallet W' = wl_mapWallet W"
  using db_step_map [of upd W] by simp

lemma WriteKey_map: "WriteKey a b W = (ok, W') \<Longrightarrow> wl_mapWallet W' = wl_mapWallet W"
  by (auto simp: WriteKey_def db_step_new_def dest: db_step_map' split: if_splits)

lemma WriteCryptedKey_map: "WriteCryptedKey a b W = (ok, W') \<Longrightarrow> wl_mapWallet W' = wl_mapWallet W"
  by (auto simp: WriteCryptedKey_def db_step_new_def db_step_map dest: db_step_map' split: if_splits prod.splits bool.splits)

lemma wallet_AddCryptedKey_map: "wallet_AddCryptedKey X a b W = (ok, W') \<Longrightarrow> wl_mapWallet W' = wl_mapWallet W"
  by (auto simp: wallet_AddCryptedKey_def Let_def dest: WriteCryptedKey_map split: if_splits prod.splits bool.splits)

lemma store_AddKey_map: "store_AddKey X key W = Some (ok, W') \<Longrightarrow> wl_mapWallet W' = wl_mapWallet W"
  by (auto simp: store_AddKey_def Let_def dest: wallet_AddCryptedKey_map split: if_splits option.splits Option.bind_splits)

lemma wallet_AddKey_map: "wallet_AddKey X key W = Some (ok, W') \<Longrightarrow> wl_mapWallet W' = wl_mapWallet W"
  unfolding wallet_AddKey_def
  by (auto dest!: store_AddKey_map WriteKey_map split: if_splits Option.bind_splits)

lemma SetMinVersion_map: "wl_mapWallet (snd (SetMinVersion n e W)) = wl_mapWallet W"
  by (simp add: SetMinVersion_def Let_def db_step_map)

lemma GenerateNewKey_map: "GenerateNewKey X W = Some (pub, W') \<Longrightarrow> wl_mapWallet W' = wl_mapWallet W"
  unfolding GenerateNewKey_def
  by (auto simp: Let_def SetMinVersion_map dest!: wallet_AddKey_map split: if_splits Option.bind_splits)

lemma top_up_loop_map:
  assumes "top_up_loop X W = Some W'"
  shows "wl_mapWallet W' = wl_mapWallet W"
proof (rule top_up_loop.raw_induct [where P = "\<lambda>X W W'. wl_mapWallet W' = wl_mapWallet W", OF _ assms], goal_cases)
  case (1 loop X W W')
  show ?case
  proof (cases "pool_target X \<le> card (wl_setKeyPool W)")
    case True
    with 1(2) show ?thesis by simp
  next
    case False
    obtain pub W1 where g: "GenerateNewKey X W = Some (pub, W1)" using 1(2) False by (cases "GenerateNewKey X W") auto
    obtain ok W2 where w: "WritePool (pool_end W1) (CKeyPool_new X pub) W1 = (ok, W2)" by (cases "WritePool (pool_end W1) (CKeyPool_new X pub) W1")
    have ok: ok using 1(2) False g w by (cases ok) simp_all
    have "loop X (W2\<lparr>wl_setKeyPool := insert (pool_end W2) (wl_setKeyPool W2)\<rparr>) = Some W'" using 1(2) False g w ok by simp
    from 1(1) [OF this] GenerateNewKey_map [OF g] db_step_map' [OF w [unfolded WritePool_def]] show ?thesis by simp
  qed
qed

lemma ReserveKey_map: "ReserveKeyFromKeyPool X W = Some (n, k, W') \<Longrightarrow> wl_mapWallet W' = wl_mapWallet W"
  unfolding ReserveKeyFromKeyPool_def TopUpKeyPool_def
  by (auto simp: Let_def dest: top_up_loop_map split: if_splits option.splits Option.bind_splits)

lemma GetKeyFromPool_map: "GetKeyFromPool X r W = Some (k, W') \<Longrightarrow> wl_mapWallet W' = wl_mapWallet W"
  unfolding GetKeyFromPool_def KeepKey_def ErasePool_def
  by (auto simp: db_step_map dest!: ReserveKey_map GenerateNewKey_map split: if_splits option.splits Option.bind_splits)

lemma SetDefaultKey_map: "wl_mapWallet (snd (SetDefaultKey k W)) = wl_mapWallet W"
  unfolding SetDefaultKey_def by (auto dest: db_step_map' split: prod.split bool.split)

lemma SetAddressBookName_map: "wl_mapWallet (snd (SetAddressBookName X a s W)) = wl_mapWallet W"
  by (simp add: SetAddressBookName_def Let_def db_step_map)

lemma replace_default_key_map: "replace_default_key X s outs W = Some W' \<Longrightarrow> wl_mapWallet W' = wl_mapWallet W"
proof (induction X s outs W rule: replace_default_key.induct)
  case (2 X s out outs W)
  show ?case
  proof (cases "to_scriptPubKey out \<noteq> s")
    case True
    from "2.IH"(1) [OF True] "2.prems" True show ?thesis by simp
  next
    case False
    obtain k W1 where g: "GetKeyFromPool X False W = Some (k, W1)"
      using "2.prems" False by (cases "GetKeyFromPool X False W") auto
    define W2 where "W2 = (case k of None \<Rightarrow> W1 | Some k \<Rightarrow>
      let W = snd (SetDefaultKey k W1) in snd (SetAddressBookName X (CKeyID (CPubKey_GetID (we_ssl X) (wl_vchDefaultKey W))) [] W))"
    have "replace_default_key X s outs W2 = Some W'" using "2.prems" False g by (simp add: W2_def Let_def)
    from "2.IH"(2) [OF False g refl W2_def this]
    show ?thesis using GetKeyFromPool_map [OF g]
      by (simp add: W2_def Let_def SetDefaultKey_map SetAddressBookName_map split: option.splits)
  qed
qed simp

subsection \<open>Adding a transaction\<close>

lemma finish_add_ok:
  assumes "finish_add X hash b W = Some (ok, W')"
  shows "keeps W W'" "tx_map W' = tx_map W"
    "ok \<Longrightarrow> map_of (wl_mapWallet W') hash = Some w \<Longrightarrow> i \<in> set (tx_vin (mt_tx w)) \<Longrightarrow>
      own_prevout X W' i = Some (Some out) \<Longrightarrow> is_spent W' (prev_key i)"
proof -
  obtain v where v: "map_of (wl_mapWallet W) hash = Some v" using assms by (cases "map_of (wl_mapWallet W) hash") (simp_all add: finish_add_def)
  obtain ok1 W1 where w1: "(if b then WriteToDisk_wtx X v W else (True, W)) = (ok1, W1)"
    by (cases "if b then WriteToDisk_wtx X v W else (True, W)")
  have m1: "wl_mapWallet W1 = wl_mapWallet W" using w1 by (auto simp: WriteToDisk_wtx_def dest: db_step_map' split: if_splits)
  have "keeps W W' \<and> tx_map W' = tx_map W \<and> (ok \<longrightarrow> map_of (wl_mapWallet W') hash = Some w \<longrightarrow> i \<in> set (tx_vin (mt_tx w)) \<longrightarrow>
      own_prevout X W' i = Some (Some out) \<longrightarrow> is_spent W' (prev_key i))"
  proof (cases ok1)
    case False
    with assms v w1 have "ok = False" "W' = W1" by (simp_all add: finish_add_def)
    with keeps_map [OF m1] m1 show ?thesis by (simp add: tx_map_def fun_eq_iff)
  next
    case True
    define keyed where "keyed = (if \<not> we_fHaveGUI X
               then replace_default_key X (SetDestination (CKeyID (CPubKey_GetID (we_ssl X) (wl_vchDefaultKey W1)))) (wt_vout v) W1
               else Some W1)"
    obtain W2 where w2: "keyed = Some W2"
      using assms v w1 True by (cases keyed) (simp_all add: finish_add_def keyed_def [symmetric])
    obtain "WalletUpdateSpent X (mt_tx v) W2 = Some W'" "ok"
      using assms v w1 True w2 by (cases "WalletUpdateSpent X (mt_tx v) W2") (simp_all add: finish_add_def keyed_def [symmetric])
    note u = update_spent_inputs_ok [OF this(1) [unfolded WalletUpdateSpent_def]]
    have m2: "wl_mapWallet W2 = wl_mapWallet W" using w2 m1 by (auto simp: keyed_def dest: replace_default_key_map split: if_splits)
    have "keeps W W'" using keeps_map [OF m2] u keeps_trans by blast
    moreover have txs: "tx_map W' = tx_map W" using u m2 by (simp add: tx_map_def fun_eq_iff)
    moreover have "is_spent W' (prev_key i)"
      if "map_of (wl_mapWallet W') hash = Some w" "i \<in> set (tx_vin (mt_tx w))" "own_prevout X W' i = Some (Some out)"
    proof -
      have "tx_map W' hash = Some (mt_tx w)" "tx_map W hash = Some (mt_tx v)" using that(1) v by (simp_all add: tx_map_def)
      with txs have "mt_tx w = mt_tx v" by simp
      moreover have "own_prevout X W2 i = own_prevout X W' i" using u by (intro own_prevout_cong) simp_all
      ultimately show ?thesis using u that by simp
    qed
    ultimately show ?thesis by blast
  qed
  then show "keeps W W'" "tx_map W' = tx_map W"
    "ok \<Longrightarrow> map_of (wl_mapWallet W') hash = Some w \<Longrightarrow> i \<in> set (tx_vin (mt_tx w)) \<Longrightarrow>
      own_prevout X W' i = Some (Some out) \<Longrightarrow> is_spent W' (prev_key i)" by blast+
qed

lemma merge_tx_spent:
  assumes "merge_tx wtxIn w = (b, w')"
  shows "IsSpent i w = Some True \<Longrightarrow> IsSpent i w' = Some True"
proof -
  assume s: "IsSpent i w = Some True"
  obtain v c where v: "UpdateSpent (wt_vfSpent wtxIn) v = (c, w')" "core_tx v = core_tx w"
    using assms by (auto simp: merge_tx_def Let_def core_tx_def BindWallet_def MarkDirty_def split: prod.splits if_splits)
  show ?thesis using UpdateSpent_spent(2) [OF v(1)] core_IsSpent [OF v(2)] s by simp
qed

lemma insert_new_keeps: "map_of (wl_mapWallet W) h = None \<Longrightarrow> keeps W (insert_new X h w W)"
  unfolding insert_new_def IncOrderPosNext_def
  by (auto simp: Let_def keeps_def is_spent_def put_tx_def keys_ok_put db_step_map)

lemma AddToWallet_ok:
  assumes "AddToWallet X wtx W = Some (ok, W')"
  shows "keeps W W'"
    "ok \<Longrightarrow> map_of (wl_mapWallet W') (wt_GetHash X wtx) = Some w \<Longrightarrow> i \<in> set (tx_vin (mt_tx w)) \<Longrightarrow>
      own_prevout X W' i = Some (Some out) \<Longrightarrow> is_spent W' (prev_key i)"
proof -
  obtain b W1 where f: "finish_add X (wt_GetHash X wtx) b W1 = Some (ok, W')" and k: "keeps W W1"
  proof (cases "map_of (wl_mapWallet W) (wt_GetHash X wtx)")
    case None
    with assms that insert_new_keeps [OF None] show ?thesis by (auto simp: AddToWallet_def Let_def)
  next
    case (Some v)
    obtain c v' where m: "merge_tx wtx v = (c, v')" by (cases "merge_tx wtx v")
    have "keeps W (put_tx (wt_GetHash X wtx) v' W)" using Some merge_tx_spent [OF m] by (intro put_tx_keeps) auto
    with assms Some m that show ?thesis by (auto simp: AddToWallet_def Let_def)
  qed
  show "keeps W W'" using finish_add_ok(1) [OF f] k keeps_trans by blast
  show "ok \<Longrightarrow> map_of (wl_mapWallet W') (wt_GetHash X wtx) = Some w \<Longrightarrow> i \<in> set (tx_vin (mt_tx w)) \<Longrightarrow>
      own_prevout X W' i = Some (Some out) \<Longrightarrow> is_spent W' (prev_key i)"
    using finish_add_ok(3) [OF f] by blast
qed

lemma AddToWalletIfInvolvingMe_keeps:
  assumes "AddToWalletIfInvolvingMe X tx pblock fUpdate W = Some (ok, W')"
  shows "keeps W W'"
proof -
  consider "W' = W" | wtx where "AddToWallet X wtx W = Some (ok, W')" | "WalletUpdateSpent X tx W = Some W'"
    using assms by (auto simp: AddToWalletIfInvolvingMe_def Let_def split: if_splits Option.bind_splits option.splits)
  then show ?thesis
  proof cases
    case 2
    then show ?thesis by (rule AddToWallet_ok(1))
  next
    case 3
    then show ?thesis using update_spent_inputs_ok by (auto simp: WalletUpdateSpent_def)
  qed simp
qed

lemma MarkDirty_keeps: "keeps W (wallet_MarkDirty W)"
proof -
  have "core_map (wallet_MarkDirty W) = core_map W"
    by (simp add: core_map_def wallet_MarkDirty_def map_of_map fun_eq_iff option.map_comp o_def)
      (simp add: core_tx_def [abs_def] MarkDirty_def)
  moreover have "map fst (wl_mapWallet (wallet_MarkDirty W)) = map fst (wl_mapWallet W)" by (auto simp: wallet_MarkDirty_def)
  ultimately show ?thesis by (intro reads_keeps) (simp add: reads_def wallet_MarkDirty_def)
qed

lemma is_spent_not_offered:
  assumes "keys_ok (wl_mapWallet W)" "is_spent W k" "AvailableCoins X f ctl W = Some (cs, W')"
  shows "k \<notin> coin_key ` set cs"
proof
  assume "k \<in> coin_key ` set cs"
  then obtain v where "spendable X W k v" using AvailableCoins_offers(1) [OF assms(1,3)] by (auto simp: offers_def)
  with assms(2) show False by (auto simp: spendable_def is_spent_def)
qed

end
