(* ===== verification/Wallet_Create.thy ===== *)
theory Wallet_Create
  imports Wallet_Coins Script_Sign
begin

text \<open>
  Making a payment (\<open>CreateTransaction\<close> and \<open>CommitTransaction\<close> in \<open>src/wallet.cpp\<close>): the outputs,
  the coins, the change, the signatures and the fee, repeated until the fee suffices; and the
  entry of the new transaction in the wallet and in the memory pool.

  The set of coins is ordered by pointers, which may be any order: it is a parameter, as are the
  draws of the selection and the position of the change. The priority, which nothing reads, is
  left out, but not the depths it is computed from.
\<close>

subsection \<open>Outputs\<close>

record 'k createenv =
  cx_wallet :: "'k walletenv"
  cx_nTransactionFee :: int64
  cx_fSplitBlock :: bool
  cx_order :: "coin_key set \<Rightarrow> coin_key list"
  cx_draws :: "nat \<Rightarrow> nat \<Rightarrow> random_source"
  cx_position :: "nat \<Rightarrow> nat \<Rightarrow> nat"

text \<open>The amounts of one payment that is split: the last one gets the remainder.\<close>

definition split_amounts :: "int64 \<Rightarrow> nat \<Rightarrow> int64 list" where
  "split_amounts v nSplitBlock =
     (let q = int64_quot v (int nSplitBlock)
      in map (\<lambda>nCount. if nCount = nSplitBlock - 1 then q + (v - word_of_nat nSplitBlock * q) else q) [0..<nSplitBlock])"

definition payee_outputs :: "bool \<Rightarrow> nat \<Rightarrow> (byte list \<times> int64) list \<Rightarrow> CTxOut list" where
  "payee_outputs fSplitBlock nSplitBlock vecSend =
     (if \<not> fSplitBlock then map (\<lambda>(script, v). \<lparr>to_nValue = v, to_scriptPubKey = script\<rparr>) vecSend
      else concat (map (\<lambda>(script, v). map (\<lambda>a. \<lparr>to_nValue = a, to_scriptPubKey = script\<rparr>) (split_amounts v nSplitBlock)) vecSend))"

text \<open>The sum of the payments; a negative one ends it.\<close>

fun sum_payments :: "int64 \<Rightarrow> (byte list \<times> int64) list \<Rightarrow> int64 option" where
  "sum_payments nValue [] = (if sint nValue < 0 then None else Some nValue)"
| "sum_payments nValue ((script, v) # ps) =
     (if sint nValue < 0 then None else sum_payments (nValue + v) ps)"

subsection \<open>Change\<close>

definition adjust_change :: "int64 \<Rightarrow> int64 \<Rightarrow> int64 \<times> int64" where
  "adjust_change nChange nFeeRet =
     (let (nChange, nFeeRet) =
            (if sint nFeeRet < MIN_TX_FEE \<and> 0 < sint nChange \<and> sint nChange < CENT
             then let nMoveToFee = word_of_int (min (sint nChange) (MIN_TX_FEE - sint nFeeRet))
                  in (nChange - nMoveToFee, nFeeRet + nMoveToFee)
             else (nChange, nFeeRet))
      in if 0 < sint nChange \<and> sint nChange < MIN_TXOUT_AMOUNT then (0, nFeeRet + nChange) else (nChange, nFeeRet))"

text \<open>What is read through the coins: their depth, and the destination of the last one that has one.\<close>

fun read_coins :: "'k walletenv \<Rightarrow> coin_key list \<Rightarrow> CTxDestination \<Rightarrow> CWallet \<Rightarrow> (CTxDestination \<times> CWallet) option" where
  "read_coins X [] utxoAddress W = Some (utxoAddress, W)"
| "read_coins X ((h, i) # ks) utxoAddress W =
     do {
       w \<leftarrow> map_of (wl_mapWallet W) h;
       (_, w) \<leftarrow> GetDepthInMainChain X w;
       let utxoAddress = (case ExtractDestination (we_ssl X) (to_scriptPubKey (wt_vout w ! i)) of
                            Some d \<Rightarrow> d | None \<Rightarrow> utxoAddress);
       read_coins X ks utxoAddress (put_tx h w W)
     }"

definition insert_at :: "nat \<Rightarrow> 'a \<Rightarrow> 'a list \<Rightarrow> 'a list" where
  "insert_at p x xs = take p xs @ x # drop p xs"

definition change_script ::
  "'k walletenv \<Rightarrow> CCoinControl option \<Rightarrow> CTxDestination \<Rightarrow> CReserveKey \<Rightarrow> CWallet \<Rightarrow>
     (byte list \<times> CReserveKey \<times> CWallet) option" where
  "change_script X coinControl utxoAddress r W =
     (case coinControl of
        Some c \<Rightarrow>
          if cc_fReturnChange c then Some (SetDestination utxoAddress, r, W)
          else if cc_destChange c \<noteq> CNoDestination then Some (SetDestination (cc_destChange c), r, W)
          else map_option (\<lambda>(pub, r, W). (SetDestination (CKeyID (CPubKey_GetID (we_ssl X) pub)), r, W)) (GetReservedKey X r W)
      | None \<Rightarrow> map_option (\<lambda>(pub, r, W). (SetDestination (CKeyID (CPubKey_GetID (we_ssl X) pub)), r, W)) (GetReservedKey X r W))"

definition add_change ::
  "'k createenv \<Rightarrow> nat \<Rightarrow> CCoinControl option \<Rightarrow> CTxDestination \<Rightarrow> int64 \<Rightarrow> CTxOut list \<Rightarrow> CReserveKey \<Rightarrow> CWallet \<Rightarrow>
     (CTxOut list \<times> CReserveKey \<times> CWallet) option" where
  "add_change C k coinControl utxoAddress nChange vout r W =
     (if 0 < sint nChange
      then do {
        (script, r, W) \<leftarrow> change_script (cx_wallet C) coinControl utxoAddress r W;
        Some (insert_at (cx_position C k (length vout)) \<lparr>to_nValue = nChange, to_scriptPubKey = script\<rparr> vout, r, W)
      }
      else case reserve_ReturnKey r W of (r, W) \<Rightarrow> Some (vout, r, W))"

subsection \<open>Inputs and signatures\<close>

definition CTxIn_new :: "uint256 \<Rightarrow> nat \<Rightarrow> CTxIn" where
  "CTxIn_new hash n = \<lparr>ti_prevout = \<lparr>op_hash = hash, op_n = word_of_nat n\<rparr>, ti_scriptSig = [], ti_nSequence = - 1\<rparr>"

fun coin_txs :: "CWallet \<Rightarrow> coin_key list \<Rightarrow> CTransaction list option" where
  "coin_txs W [] = Some []"
| "coin_txs W ((h, i) # ks) =
     do { w \<leftarrow> map_of (wl_mapWallet W) h; txs \<leftarrow> coin_txs W ks; Some (mt_tx w # txs) }"

fun sign_loop ::
  "'k walletenv \<Rightarrow> CWallet \<Rightarrow> nat \<Rightarrow> CTransaction list \<Rightarrow> CTransaction \<Rightarrow> sigcache \<Rightarrow> (bool \<times> CTransaction \<times> sigcache) option" where
  "sign_loop X W nIn [] tx c = Some (True, tx, c)"
| "sign_loop X W nIn (txFrom # ts) tx c =
     do {
       (ok, tx, c) \<leftarrow> SignSignature_tx (nd_sig (we_node X)) (store_view (we_libs X) (wl_keystore W)) txFrom tx nIn SIGHASH_ALL c;
       if \<not> ok then Some (False, tx, c) else sign_loop X W (nIn + 1) ts tx c
     }"

subsection \<open>One attempt\<close>

record create_state =
  cr_wtx :: CWalletTx
  cr_reserve :: CReserveKey
  cr_nFeeRet :: int64
  cr_wallet :: CWallet
  cr_cache :: sigcache

text \<open>The fee that the size of the transaction asks for.\<close>

definition required_fee :: "'k createenv \<Rightarrow> CTransaction \<Rightarrow> int64" where
  "required_fee C tx =
     (let nBytes = size_tx tx;
          nPayFee = cx_nTransactionFee C * (1 + word_of_nat (nBytes div 1000));
          nMinFee = word_of_int (GetMinFee tx 1 False GMF_SEND (word_of_nat nBytes))
      in if sint nPayFee < sint nMinFee then nMinFee else nPayFee)"

definition finish_attempt ::
  "'k createenv \<Rightarrow> coin_key list \<Rightarrow> CTransaction \<Rightarrow> create_state \<Rightarrow> (bool option \<times> create_state) option" where
  "finish_attempt C coins tx s =
     do {
       let X = cx_wallet C;
       froms \<leftarrow> coin_txs (cr_wallet s) coins;
       let tx = tx\<lparr>tx_vin := map2 (\<lambda>k from. CTxIn_new (GetHash (we_ssl X) from) (snd k)) coins froms\<rparr>;
       (signed, tx, c) \<leftarrow> sign_loop X (cr_wallet s) 0 froms tx (cr_cache s);
       let s = s\<lparr>cr_cache := c, cr_wtx := (cr_wtx s)\<lparr>mt_tx := tx\<rparr>\<rparr>;
       if \<not> signed then Some (Some False, s)
       else if MAX_BLOCK_SIZE_GEN div 5 \<le> size_tx tx then Some (Some False, s)
       else if sint (cr_nFeeRet s) < sint (required_fee C tx)
       then Some (None, s\<lparr>cr_nFeeRet := required_fee C tx\<rparr>)
       else do {
         wtx \<leftarrow> AddSupportingTransactions X (cr_wallet s) (cr_wtx s);
         Some (Some True, s\<lparr>cr_wtx := wtx\<lparr>wt_fTimeReceivedIsTxTime := 1\<rparr>\<rparr>)
       }
     }"

text \<open>\<open>None\<close> in the result asks for another attempt with the fee that was raised.\<close>

definition create_attempt ::
  "'k createenv \<Rightarrow> (byte list \<times> int64) list \<Rightarrow> nat \<Rightarrow> CCoinControl option \<Rightarrow> int64 \<Rightarrow> nat \<Rightarrow> create_state \<Rightarrow>
     (bool option \<times> create_state) option" where
  "create_attempt C vecSend nSplitBlock coinControl nValue k s =
     do {
       let X = cx_wallet C;
       let tx = (mt_tx (cr_wtx s))\<lparr>tx_vin := [], tx_vout := payee_outputs (cx_fSplitBlock C) nSplitBlock vecSend\<rparr>;
       let s = s\<lparr>cr_wtx := (cr_wtx s)\<lparr>mt_tx := tx, wt_fFromMe := 1\<rparr>\<rparr>;
       ((ok, setCoins, nValueIn), W) \<leftarrow> SelectCoins X (cx_draws C k) (nValue + cr_nFeeRet s) (tx_nTime tx) coinControl {} 0 (cr_wallet s);
       if \<not> ok then Some (Some False, s\<lparr>cr_wallet := W\<rparr>)
       else do {
         let coins = cx_order C setCoins;
         (utxoAddress, W) \<leftarrow> read_coins X coins CNoDestination W;
         let (nChange, nFeeRet) = adjust_change (nValueIn - nValue - cr_nFeeRet s) (cr_nFeeRet s);
         (vout, r, W) \<leftarrow> add_change C k coinControl utxoAddress nChange (tx_vout tx) (cr_reserve s) W;
         finish_attempt C coins (tx\<lparr>tx_vout := vout\<rparr>) (s\<lparr>cr_nFeeRet := nFeeRet, cr_reserve := r, cr_wallet := W\<rparr>)
       }
     }"

partial_function (option) create_loop ::
  "'k createenv \<Rightarrow> (byte list \<times> int64) list \<Rightarrow> nat \<Rightarrow> CCoinControl option \<Rightarrow> int64 \<Rightarrow> nat \<Rightarrow> create_state \<Rightarrow>
     (bool \<times> create_state) option" where
  "create_loop C vecSend nSplitBlock coinControl nValue k s =
     Option.bind (create_attempt C vecSend nSplitBlock coinControl nValue k s) (\<lambda>(result, s).
       case result of
         Some ok \<Rightarrow> Some (ok, s)
       | None \<Rightarrow> create_loop C vecSend nSplitBlock coinControl nValue (Suc k) s)"

definition CreateTransaction ::
  "'k createenv \<Rightarrow> (byte list \<times> int64) list \<Rightarrow> int \<Rightarrow> CCoinControl option \<Rightarrow> create_state \<Rightarrow> (bool \<times> create_state) option" where
  "CreateTransaction C vecSend nSplitBlock coinControl s =
     (case sum_payments 0 vecSend of
        None \<Rightarrow> Some (False, s)
      | Some nValue \<Rightarrow>
          if vecSend = [] then Some (False, s)
          else create_loop C vecSend (nat (max 1 nSplitBlock)) coinControl nValue 0
                 (s\<lparr>cr_wtx := BindWallet (cr_wtx s),
                    cr_nFeeRet := (if cx_fSplitBlock C then word_of_int (COIN div 1000) else cx_nTransactionFee C)\<rparr>))"

definition CreateTransaction_one ::
  "'k createenv \<Rightarrow> byte list \<Rightarrow> int64 \<Rightarrow> CCoinControl option \<Rightarrow> create_state \<Rightarrow> (bool \<times> create_state) option" where
  "CreateTransaction_one C scriptPubKey nValue coinControl s = CreateTransaction C [(scriptPubKey, nValue)] 1 coinControl s"

subsection \<open>Committing\<close>

fun commit_inputs :: "'k walletenv \<Rightarrow> CTxIn list \<Rightarrow> CWallet \<Rightarrow> CWallet option" where
  "commit_inputs X [] W = Some W"
| "commit_inputs X (i # is) W =
     do {
       let h = op_hash (ti_prevout i);
       coin \<leftarrow> map_of (wl_mapWallet W) h;
       coin \<leftarrow> MarkSpent (unat (op_n (ti_prevout i))) (BindWallet coin);
       commit_inputs X is (snd (WriteToDisk_wtx X coin (put_tx h coin W)))
     }"

definition relayable :: "CMerkleTx \<Rightarrow> bool" where
  "relayable m \<longleftrightarrow> \<not> IsCoinBaseOrStake (mt_tx m) \<and> tx_vin (mt_tx m) \<noteq> []"

text \<open>\<open>RelayWalletTransaction\<close>: the hashes announced to the peers.\<close>

definition RelayWalletTransaction :: "'k walletenv \<Rightarrow> CWalletTx \<Rightarrow> uint256 list" where
  "RelayWalletTransaction X w =
     filter (\<lambda>hash. \<not> ContainsTx (cs_txdb (we_chain X)) hash)
       (map (wt_GetHash X) (filter relayable (wt_vtxPrev w)) @
        (if \<not> IsCoinBaseOrStake (mt_tx w) then [wt_GetHash X w] else []))"

definition AcceptToMemoryPool :: "'k walletenv \<Rightarrow> CWalletTx \<Rightarrow> bool option \<times> mempool \<times> sigcache" where
  "AcceptToMemoryPool X w =
     (let S = we_chain X
      in case mp_accept (poolenv_of (we_chainenv X) S) True (mt_tx w) (cs_mempool S) (cs_sigcache S) of
           (ok, _, _, mp, c) \<Rightarrow> (ok, mp, c))"

record commit_result =
  cm_accepted :: bool
  cm_relayed :: "uint256 list"
  cm_mempool :: mempool
  cm_sigcache :: sigcache

text \<open>
  \<open>mapWallet[...]\<close> makes an empty transaction for an unknown hash, in which marking an output
  throws: both are \<open>None\<close>.
\<close>

definition CommitTransaction ::
  "'k walletenv \<Rightarrow> CWalletTx \<Rightarrow> CReserveKey \<Rightarrow> CWallet \<Rightarrow> (commit_result \<times> CReserveKey \<times> CWallet) option" where
  "CommitTransaction X wtxNew r W =
     do {
       let (r, W) = reserve_KeepKey r W;
       (_, W) \<leftarrow> AddToWallet X wtxNew W;
       W \<leftarrow> commit_inputs X (tx_vin (mt_tx wtxNew)) W;
       let W = W\<lparr>wl_mapRequestCount := map_put (wt_GetHash X wtxNew) 0 (wl_mapRequestCount W)\<rparr>;
       case AcceptToMemoryPool X wtxNew of
         (None, _, _) \<Rightarrow> None
       | (Some ok, mp, c) \<Rightarrow>
           Some (\<lparr>cm_accepted = ok, cm_relayed = (if ok then RelayWalletTransaction X wtxNew else []),
                  cm_mempool = mp, cm_sigcache = c\<rparr>, r, W)
     }"

end
