(* ===== verification/Wallet_Pay.thy ===== *)
theory Wallet_Pay
  imports Wallet_Spend Wallet_Create
begin

text \<open>
  A payment that is made takes its coins from the wallet and loses nothing but the fee, repeated
  attempts to make one come to an end, and committing it marks its coins as spent.
\<close>

subsection \<open>Committing\<close>

lemma commit_inputs_ok:
  assumes "commit_inputs X is W = Some W'"
  shows "keeps W W' \<and> (\<forall>i \<in> set is. is_spent W' (prev_key i))"
  using assms
proof (induction "is" arbitrary: W)
  case (Cons i "is")
  define h where "h = op_hash (ti_prevout i)"
  obtain coin where coin: "map_of (wl_mapWallet W) h = Some coin"
    using Cons.prems by (cases "map_of (wl_mapWallet W) h") (simp_all add: h_def Let_def)
  obtain coin' where m: "MarkSpent (unat (op_n (ti_prevout i))) (BindWallet coin) = Some coin'"
    using Cons.prems coin by (cases "MarkSpent (unat (op_n (ti_prevout i))) (BindWallet coin)") (simp_all add: h_def Let_def)
  define W1 where "W1 = snd (WriteToDisk_wtx X coin' (put_tx h coin' W))"
  have rest: "commit_inputs X is W1 = Some W'" using Cons.prems coin m by (simp add: h_def W1_def Let_def)
  have maps: "wl_mapWallet W1 = wl_mapWallet (put_tx h coin' W)" by (simp add: W1_def WriteToDisk_wtx_def db_step_map)
  have core: "core_tx (BindWallet coin) = core_tx coin" by (simp add: core_tx_def BindWallet_def MarkDirty_def)
  have "keeps W (put_tx h coin' W)"
    using coin MarkSpent_spent(2) [OF m] core_IsSpent [OF core] by (intro put_tx_keeps) simp
  then have k: "keeps W W1" using keeps_map [OF maps] keeps_trans by blast
  have "is_spent W1 (prev_key i)" using maps MarkSpent_spent(1) [OF m] by (simp add: is_spent_def prev_key_def put_tx_def h_def)
  moreover have "keeps W1 W'" using Cons.IH [OF rest] by simp
  ultimately have "is_spent W' (prev_key i)" unfolding keeps_def by blast
  with Cons.IH [OF rest] k keeps_trans show ?case by auto
qed simp

lemma CommitTransaction_spends:
  assumes "CommitTransaction X wtxNew r W = Some (res, r', W')"
  shows "keeps W W'" "i \<in> set (tx_vin (mt_tx wtxNew)) \<Longrightarrow> is_spent W' (prev_key i)"
proof -
  obtain r1 W1 where r1: "reserve_KeepKey r W = (r1, W1)" by (cases "reserve_KeepKey r W")
  have m1: "wl_mapWallet W1 = wl_mapWallet W"
    using r1 by (auto simp: reserve_KeepKey_def KeepKey_def ErasePool_def db_step_map split: if_splits)
  obtain b W2 where w2: "AddToWallet X wtxNew W1 = Some (b, W2)"
    using assms r1 by (cases "AddToWallet X wtxNew W1") (auto simp: CommitTransaction_def)
  obtain W3 where w3: "commit_inputs X (tx_vin (mt_tx wtxNew)) W2 = Some W3"
    using assms r1 w2 by (cases "commit_inputs X (tx_vin (mt_tx wtxNew)) W2") (auto simp: CommitTransaction_def)
  have m3: "wl_mapWallet W' = wl_mapWallet W3"
    using assms r1 w2 w3 by (auto simp: CommitTransaction_def Let_def split: option.splits prod.splits)
  note c = commit_inputs_ok [OF w3]
  show "keeps W W'"
    using keeps_map [OF m1] AddToWallet_ok(1) [OF w2] c keeps_map [OF m3] keeps_trans by blast
  show "i \<in> set (tx_vin (mt_tx wtxNew)) \<Longrightarrow> is_spent W' (prev_key i)" using c m3 by (simp add: is_spent_def)
qed

subsection \<open>The transactions that a wallet has\<close>

definition same_txs :: "CWallet \<Rightarrow> CWallet \<Rightarrow> bool" where
  "same_txs W W' \<longleftrightarrow> core_map W' = core_map W \<and> map fst (wl_mapWallet W') = map fst (wl_mapWallet W)"

lemma same_txs_refl [simp]: "same_txs W W"
  by (simp add: same_txs_def)

lemma same_txs_trans: "same_txs W W' \<Longrightarrow> same_txs W' W'' \<Longrightarrow> same_txs W W''"
  by (simp add: same_txs_def)

lemma reads_same: "reads W W' \<Longrightarrow> same_txs W W'"
  by (simp add: reads_def same_txs_def)

lemma map_same: "wl_mapWallet W' = wl_mapWallet W \<Longrightarrow> same_txs W W'"
  by (simp add: same_txs_def core_map_def fun_eq_iff)

lemma same_txs_keys: "same_txs W W' \<Longrightarrow> keys_ok (wl_mapWallet W') = keys_ok (wl_mapWallet W)"
  by (simp add: same_txs_def keys_ok_def)

lemma same_txs_worth: "same_txs W W' \<Longrightarrow> keys_ok (wl_mapWallet W) \<Longrightarrow> wallet_worth W' = wallet_worth W"
proof -
  assume s: "same_txs W W'" and k: "keys_ok (wl_mapWallet W)"
  have "worth_at W' = worth_at W" using s by (simp add: worth_at_core same_txs_def fun_eq_iff)
  moreover have "distinct (map fst (wl_mapWallet W'))" using sorted_distinct k same_txs_keys [OF s] by blast
  ultimately show ?thesis
    using wallet_worth_at [of W] wallet_worth_at [of W'] sorted_distinct [OF k] s
    unfolding same_txs_def by metis
qed

text \<open>The value of an output that is not spent.\<close>

definition coin_value :: "CWallet \<Rightarrow> coin_key \<Rightarrow> int64 option" where
  "coin_value W k =
     (case core_map W (fst k) of
        None \<Rightarrow> None
      | Some (tx, fs) \<Rightarrow>
          if snd k < length (tx_vout tx) \<and> \<not> (snd k < length fs \<and> fs ! snd k) then Some (to_nValue (tx_vout tx ! snd k)) else None)"

lemma coin_value_same: "same_txs W W' \<Longrightarrow> coin_value W' k = coin_value W k"
  by (simp add: coin_value_def same_txs_def)

lemma spendable_value: "spendable X W k v \<Longrightarrow> coin_value W k = Some v \<and> 0 < sint v"
  by (auto simp: spendable_def coin_value_def core_map_def core_tx_def IsSpent_def split: if_splits)

lemma sum_list_distinct_image:
  assumes "distinct (map g cs)" "distinct ks" "set ks = g ` set cs" "\<And>c. c \<in> set cs \<Longrightarrow> f (g c) = (h c :: int)"
  shows "(\<Sum>k\<leftarrow>ks. f k) = (\<Sum>c\<leftarrow>cs. h c)"
proof -
  have d: "distinct cs" "inj_on g (set cs)" using assms(1) by (simp_all add: distinct_map)
  have "(\<Sum>k\<leftarrow>ks. f k) = sum f (set ks)" using assms(2) by (simp add: sum_list_distinct_conv_sum_set)
  also have "\<dots> = (\<Sum>c \<in> set cs. f (g c))" using assms(3) d(2) by (simp add: sum.reindex)
  also have "\<dots> = (\<Sum>c \<in> set cs. h c)" using assms(4) by (rule sum.cong [OF refl])
  also have "\<dots> = (\<Sum>c\<leftarrow>cs. h c)" using d(1) by (simp add: sum_list_distinct_conv_sum_set)
  finally show ?thesis .
qed

definition value_of :: "CWallet \<Rightarrow> coin_key \<Rightarrow> int" where
  "value_of W k = (case coin_value W k of None \<Rightarrow> 0 | Some v \<Rightarrow> sint v)"

lemma payment_value:
  assumes "payment X W target S v" "distinct ks" "set ks = S"
  shows "(\<Sum>k\<leftarrow>ks. value_of W k) = sint v" "k \<in> set ks \<Longrightarrow> 0 < value_of W k" "sint target \<le> sint v"
proof -
  obtain cs where cs: "\<forall>c \<in> set cs. spendable X W (snd c) (fst c)" "distinct (map snd cs)" "S = snd ` set cs"
    "sint v = csum cs" "sint target \<le> sint v" using assms(1) unfolding payment_def by blast
  have val: "value_of W (snd c) = sint (fst c)" "0 < sint (fst c)" if "c \<in> set cs" for c
    using spendable_value [OF cs(1) [rule_format, OF that]] by (simp_all add: value_of_def)
  show "(\<Sum>k\<leftarrow>ks. value_of W k) = sint v"
    using sum_list_distinct_image [OF cs(2) assms(2), of "value_of W" "\<lambda>c. sint (fst c)"] assms(3) cs(3,4) val by (simp add: csum_def)
  show "k \<in> set ks \<Longrightarrow> 0 < value_of W k" using assms(3) cs(3) val by auto
  show "sint target \<le> sint v" by (rule cs(5))
qed

subsection \<open>Outputs and change\<close>

definition out_sum :: "CTxOut list \<Rightarrow> int" where
  "out_sum outs = (\<Sum>out\<leftarrow>outs. sint (to_nValue out))"

lemma out_sum_simps [simp]: "out_sum [] = 0" "out_sum (out # outs) = sint (to_nValue out) + out_sum outs"
  "out_sum (xs @ ys) = out_sum xs + out_sum ys"
  by (simp_all add: out_sum_def)

lemma out_sum_mset: "mset xs = mset ys \<Longrightarrow> out_sum xs = out_sum ys"
  unfolding out_sum_def by (metis mset_map sum_mset_sum_list)

definition paid :: "(byte list \<times> int64) list \<Rightarrow> int" where
  "paid vecSend = (\<Sum>p\<leftarrow>vecSend. sint (snd p))"

definition payments_ok :: "(byte list \<times> int64) list \<Rightarrow> bool" where
  "payments_ok vecSend \<longleftrightarrow> (\<forall>p \<in> set vecSend. 0 \<le> sint (snd p)) \<and> 0 < paid vecSend \<and> paid vecSend < 2 ^ 61"

lemma paid_nonneg: "\<forall>p \<in> set ps. 0 \<le> sint (snd p) \<Longrightarrow> 0 \<le> paid ps"
  by (induction ps) (auto simp: paid_def)

lemma sum_payments_paid:
  assumes "\<forall>p \<in> set ps. 0 \<le> sint (snd p)" "0 \<le> sint n" "sint n + paid ps < 2 ^ 63"
  shows "\<exists>v. sum_payments n ps = Some v \<and> sint v = sint n + paid ps"
  using assms
proof (induction ps arbitrary: n)
  case (Cons p ps)
  obtain script v where p: "p = (script, v)" by (cases p)
  have pos: "0 \<le> sint v" "0 \<le> paid ps" using Cons.prems(1) paid_nonneg by (auto simp: p)
  have s: "sint (n + v) = sint n + sint v" using Cons.prems(2,3) pos by (intro sint64_add) (simp_all add: p paid_def)
  have "\<exists>w. sum_payments (n + v) ps = Some w \<and> sint w = sint (n + v) + paid ps"
    using Cons.prems pos s by (intro Cons.IH) (auto simp: p paid_def)
  then show ?case using Cons.prems(2) s by (auto simp: p paid_def)
qed (simp add: paid_def)

lemma split_amounts_sum:
  assumes "0 \<le> sint v" "0 < n"
  shows "(\<Sum>a\<leftarrow>split_amounts v n. sint a) = sint v"
proof -
  define q where "q = sint v div int n"
  have q: "0 \<le> q" "int n * q \<le> sint v" "q \<le> int n * q"
  proof -
    show "0 \<le> q" using assms by (simp add: q_def pos_imp_zdiv_nonneg_iff)
    have "int n * q + sint v mod int n = sint v" unfolding q_def by (rule mult_div_mod_eq)
    moreover have "0 \<le> sint v mod int n" using assms(2) by simp
    ultimately show "int n * q \<le> sint v" by linarith
    show "q \<le> int n * q" using \<open>0 \<le> q\<close> assms(2) mult_right_mono [of 1 "int n" q] by simp
  qed
  have small: "sint v < 2 ^ 63" by (rule sint64_bounds)
  have quot: "int64_quot v (int n) = word_of_int q"
    using assms by (cases "sint v = 0") (simp_all add: int64_quot_def q_def)
  define last where "last = int64_quot v (int n) + (v - word_of_nat n * int64_quot v (int n))"
  have "last = word_of_int (q + (sint v - int n * q))"
  proof -
    have "(word_of_int (q + (sint v - int n * q)) :: int64) = word_of_int q + (word_of_int (sint v) - word_of_int (int n) * word_of_int q)"
      by (simp only: of_int_add of_int_diff of_int_mult)
    then show ?thesis by (simp add: last_def quot)
  qed
  then have L: "sint last = q + (sint v - int n * q)" using q small by (simp only:, intro sint64_of_int) simp_all
  have Q: "sint (int64_quot v (int n)) = q" unfolding quot using q small by (intro sint64_of_int) simp_all
  obtain m where n: "n = Suc m" using assms(2) by (cases n) simp_all
  have "split_amounts v n = map (\<lambda>_. int64_quot v (int n)) [0..<m] @ [last]"
    by (simp add: split_amounts_def Let_def last_def n)
  then have "(\<Sum>a\<leftarrow>split_amounts v n. sint a) = int m * q + sint last"
    using Q by (simp add: sum_list_triv o_def)
  then show ?thesis using L by (simp add: n algebra_simps)
qed

lemma payee_outputs_sum:
  assumes "\<forall>p \<in> set vecSend. 0 \<le> sint (snd p)" "0 < n"
  shows "out_sum (payee_outputs b n vecSend) = paid vecSend"
proof -
  have split: "out_sum (map (\<lambda>a. \<lparr>to_nValue = a, to_scriptPubKey = script\<rparr>) as) = (\<Sum>a\<leftarrow>as. sint a)" for script as
    by (induction as) simp_all
  show ?thesis
    using assms(1) split_amounts_sum [OF _ assms(2)]
    by (induction vecSend) (auto simp: payee_outputs_def paid_def split)
qed

lemma adjust_change_ok:
  assumes "0 \<le> sint nChange" "0 \<le> sint nFee" "sint nChange + sint nFee < 2 ^ 63" "adjust_change nChange nFee = (c, f)"
  shows "sint c + sint f = sint nChange + sint nFee" "0 \<le> sint c" "0 \<le> sint f" "sint nFee \<le> sint f"
proof -
  have move: "sint (nChange - word_of_int m) = sint nChange - m \<and> sint (nFee + word_of_int m) = sint nFee + m"
    if "0 \<le> m" "m \<le> sint nChange" for m
  proof -
    have "sint (word_of_int m :: int64) = m" using that assms sint64_bounds [of nChange] by (intro sint64_of_int) simp_all
    then show ?thesis using that assms by (simp add: sint64_sub sint64_add)
  qed
  obtain c1 f1 where 1: "(if sint nFee < MIN_TX_FEE \<and> 0 < sint nChange \<and> sint nChange < CENT
             then let nMoveToFee = word_of_int (min (sint nChange) (MIN_TX_FEE - sint nFee))
                  in (nChange - nMoveToFee, nFee + nMoveToFee)
             else (nChange, nFee)) = (c1, f1)" by (metis surj_pair)
  have s1: "sint c1 + sint f1 = sint nChange + sint nFee" "0 \<le> sint c1" "0 \<le> sint f1" "sint nFee \<le> sint f1"
    using 1 assms(1,2) move [of "min (sint nChange) (MIN_TX_FEE - sint nFee)"] by (auto simp: Let_def split: if_splits)
  have cf: "(c, f) = (if 0 < sint c1 \<and> sint c1 < MIN_TXOUT_AMOUNT then (0, f1 + c1) else (c1, f1))"
    using assms(4) 1 by (simp add: adjust_change_def)
  have "sint (f1 + c1) = sint f1 + sint c1" using s1 assms(3) by (intro sint64_add) simp_all
  then show "sint c + sint f = sint nChange + sint nFee" "0 \<le> sint c" "0 \<le> sint f" "sint nFee \<le> sint f"
    using cf s1 by (auto split: if_splits)
qed

subsection \<open>Fees\<close>

lemma GetMinFee_bounds: "0 < GetMinFee tx s f mode n \<and> GetMinFee tx s f mode n \<le> MAX_MONEY"
  unfolding GetMinFee_def Let_def by (auto simp: MIN_TX_FEE_def MAX_MONEY_def COIN_def)

definition fee_ok :: "int64 \<Rightarrow> bool" where
  "fee_ok fee \<longleftrightarrow> 0 \<le> sint fee \<and> sint fee < 2 ^ 48"

lemma required_fee_ok:
  assumes "0 \<le> sint (cx_nTransactionFee C)" "sint (cx_nTransactionFee C) < 2 ^ 40" "size_tx tx < MAX_BLOCK_SIZE_GEN div 5"
  shows "fee_ok (required_fee C tx)"
proof -
  define k where "k = size_tx tx div 1000"
  have k: "k < 100" using assms(3) by (simp add: k_def MAX_BLOCK_SIZE_GEN_def MAX_BLOCK_SIZE_def div_less_iff_less_mult)
  define f where "f = sint (cx_nTransactionFee C)"
  have "f * (1 + int k) \<le> 2 ^ 40 * 100" using assms(1,2) k by (intro mult_mono) (simp_all add: f_def)
  moreover have "cx_nTransactionFee C * (1 + word_of_nat k) = word_of_int (f * (1 + int k))" by (simp add: f_def)
  moreover have "0 \<le> f * (1 + int k)" using assms(1) by (simp add: f_def)
  ultimately have pay: "sint (cx_nTransactionFee C * (1 + word_of_nat k)) = f * (1 + int k)" "f * (1 + int k) < 2 ^ 48" "0 \<le> f * (1 + int k)"
    by (simp_all only:) (intro sint64_of_int | simp)+
  define g where "g = GetMinFee tx 1 False GMF_SEND (word_of_nat (size_tx tx))"
  have g: "0 < g" "g \<le> MAX_MONEY" using GetMinFee_bounds [of tx 1 False GMF_SEND] by (simp_all add: g_def)
  then have "g < 2 ^ 48" by (simp add: MAX_MONEY_def COIN_def)
  with g have min: "sint (word_of_int g :: int64) = g" "g < 2 ^ 48" by (simp_all add: sint64_of_int)
  show ?thesis
    using pay min g unfolding required_fee_def Let_def k_def [symmetric] g_def [symmetric] fee_ok_def by auto
qed

subsection \<open>Signing\<close>

definition outpoint :: "coin_key \<Rightarrow> COutPoint" where
  "outpoint k = \<lparr>op_hash = fst k, op_n = word_of_nat (snd k)\<rparr>"

lemma set_scriptSig_keeps: "tx_vout (set_scriptSig tx n s) = tx_vout tx \<and> map ti_prevout (tx_vin (set_scriptSig tx n s)) = map ti_prevout (tx_vin tx)"
proof -
  have "(map f xs)[n := f (xs ! n)] = map f xs" for f :: "CTxIn \<Rightarrow> COutPoint" and xs
    using list_update_id [of "map f xs" n] by (cases "n < length xs") (simp_all add: nth_map list_update_beyond not_less del: list_update_id)
  then show ?thesis by (simp add: set_scriptSig_def map_update)
qed

lemma SignSignature_keeps:
  assumes "SignSignature V store spk tx n h c = Some (ok, tx', c')"
  shows "tx_vout tx' = tx_vout tx \<and> map ti_prevout (tx_vin tx') = map ti_prevout (tx_vin tx)"
  using assms unfolding SignSignature_def
  by (auto simp: Let_def set_scriptSig_keeps split: option.splits prod.splits bool.splits if_splits)

lemma sign_loop_keeps:
  assumes "sign_loop X W n ts tx c = Some (ok, tx', c')"
  shows "tx_vout tx' = tx_vout tx \<and> map ti_prevout (tx_vin tx') = map ti_prevout (tx_vin tx)"
  using assms
proof (induction X W n ts tx c rule: sign_loop.induct)
  case (2 X W n frm ts tx c)
  obtain ok1 tx1 c1 where s: "SignSignature_tx (nd_sig (we_node X)) (store_view (we_libs X) (wl_keystore W)) frm tx n SIGHASH_ALL c = Some (ok1, tx1, c1)"
    using "2.prems" by (cases "SignSignature_tx (nd_sig (we_node X)) (store_view (we_libs X) (wl_keystore W)) frm tx n SIGHASH_ALL c") auto
  have k: "tx_vout tx1 = tx_vout tx \<and> map ti_prevout (tx_vin tx1) = map ti_prevout (tx_vin tx)"
    using s unfolding SignSignature_tx_def Let_def by (auto dest!: SignSignature_keeps split: if_splits)
  show ?case
  proof (cases ok1)
    case False
    with "2.prems" s k show ?thesis by simp
  next
    case True
    with "2.prems" s have "sign_loop X W (n + 1) ts tx1 c1 = Some (ok, tx', c')" by simp
    with "2.IH" [OF s refl refl] True k show ?thesis by simp
  qed
qed simp

lemma coin_txs_vin:
  assumes "coin_txs W ks = Some froms" "\<And>h tx. tx_map W h = Some tx \<Longrightarrow> GetHash E tx = h"
  shows "map ti_prevout (map2 (\<lambda>k from. CTxIn_new (GetHash E from) (snd k)) ks froms) = map outpoint ks"
  using assms
proof (induction W ks arbitrary: froms rule: coin_txs.induct)
  case (2 W h i ks)
  then obtain w txs where w: "map_of (wl_mapWallet W) h = Some w" "coin_txs W ks = Some txs" "froms = mt_tx w # txs"
    by (cases "map_of (wl_mapWallet W) h"; cases "coin_txs W ks") simp_all
  have "tx_map W h = Some (mt_tx w)" using w(1) by (simp add: tx_map_def)
  then have "GetHash E (mt_tx w) = h" by (rule "2.prems"(2))
  with "2.IH" [OF w(1,2) "2.prems"(2)] w(3) show ?case by (simp add: CTxIn_new_def outpoint_def)
qed simp

subsection \<open>An attempt\<close>

lemma SelectCoins_reads:
  assumes "keys_ok (wl_mapWallet W)" "SelectCoins X R target t ctl {} 0 W = Some (sel, W')"
  shows "reads W W'"
proof -
  obtain cs W1 where av: "AvailableCoins X True ctl W = Some (cs, W1)"
    using assms(2) by (cases "AvailableCoins X True ctl W") (auto simp: SelectCoins_def)
  note r = AvailableCoins_offers(3) [OF assms(1) av]
  show ?thesis
  proof (cases "\<exists>c. ctl = Some c \<and> HasSelected c")
    case True
    then show ?thesis using assms(2) av r by (auto simp: SelectCoins_def Let_def)
  next
    case False
    have sel: "Option.bind (read_from_me X cs W1) (\<lambda>(vCoins, W). Some (select_attempts R target t vCoins, W)) = Some (sel, W')"
      using assms(2) av by (simp add: SelectCoins_def if_not_P [OF False])
    obtain cs1 W2 where rd: "read_from_me X cs W1 = Some (cs1, W2)" "W' = W2"
      using sel by (cases "read_from_me X cs W1") auto
    have "keys_ok (wl_mapWallet W1)" using assms(1) r by (simp add: reads_keys_ok)
    from read_from_me_ok(2) [OF this rd(1)] rd(2) r show ?thesis by (auto intro: reads_trans)
  qed
qed

lemma read_coins_reads:
  assumes "keys_ok (wl_mapWallet W)" "read_coins X ks a W = Some (a', W')"
  shows "reads W W'"
  using assms
proof (induction X ks a W rule: read_coins.induct)
  case (2 X h i ks a W)
  obtain w where w: "map_of (wl_mapWallet W) h = Some w" using "2.prems"(2) by (cases "map_of (wl_mapWallet W) h") auto
  obtain d w1 where d: "GetDepthInMainChain X w = Some (d, w1)" using "2.prems"(2) w by (cases "GetDepthInMainChain X w") auto
  have r: "reads W (put_tx h w1 W)" using "2.prems"(1) w core_GetDepth [OF d] by (rule put_tx_reads)
  with "2.prems"(1) have "keys_ok (wl_mapWallet (put_tx h w1 W))" by (simp add: reads_keys_ok)
  with "2.IH" [OF w d refl refl] "2.prems"(2) w d have "reads (put_tx h w1 W) W'" by (simp add: Let_def)
  with r show ?case by (rule reads_trans)
qed simp

lemma GetReservedKey_map: "GetReservedKey X r W = Some (pub, r', W') \<Longrightarrow> wl_mapWallet W' = wl_mapWallet W"
  unfolding GetReservedKey_def
  by (auto dest!: ReserveKey_map split: if_splits option.splits Option.bind_splits)

lemma reserve_ReturnKey_map: "wl_mapWallet (snd (reserve_ReturnKey r W)) = wl_mapWallet W"
  by (simp add: reserve_ReturnKey_def ReturnKey_def)

lemma change_script_map: "change_script X ctl a r W = Some (script, r', W') \<Longrightarrow> wl_mapWallet W' = wl_mapWallet W"
  unfolding change_script_def by (auto dest!: GetReservedKey_map split: option.splits if_splits)

lemma add_change_ok:
  assumes "add_change C k ctl a nChange vout r W = Some (vout', r', W')"
  shows "wl_mapWallet W' = wl_mapWallet W"
    and "if 0 < sint nChange then \<exists>p script. vout' = insert_at p \<lparr>to_nValue = nChange, to_scriptPubKey = script\<rparr> vout
         else vout' = vout"
proof -
  have "wl_mapWallet W' = wl_mapWallet W \<and> (if 0 < sint nChange
      then \<exists>p script. vout' = insert_at p \<lparr>to_nValue = nChange, to_scriptPubKey = script\<rparr> vout else vout' = vout)"
  proof (cases "0 < sint nChange")
    case True
    then show ?thesis using assms
      by (cases "change_script (cx_wallet C) ctl a r W") (auto simp: add_change_def dest: change_script_map)
  next
    case False
    then show ?thesis using assms reserve_ReturnKey_map [of r W] by (auto simp: add_change_def split: prod.splits)
  qed
  then show "wl_mapWallet W' = wl_mapWallet W"
    and "if 0 < sint nChange then \<exists>p script. vout' = insert_at p \<lparr>to_nValue = nChange, to_scriptPubKey = script\<rparr> vout
         else vout' = vout" by auto
qed

lemma out_sum_insert [simp]: "out_sum (insert_at p x xs) = sint (to_nValue x) + out_sum xs"
proof -
  have "out_sum (take p xs) + out_sum (drop p xs) = out_sum xs" by (metis append_take_drop_id out_sum_simps(3))
  then show ?thesis by (simp add: insert_at_def)
qed

lemma SetMerkleBranch_tx: "SetMerkleBranch X b w = Some (d, w') \<Longrightarrow> mt_tx w' = mt_tx w"
  by (auto simp: SetMerkleBranch_def Let_def split: if_splits option.splits Option.bind_splits)

lemma AddSupportingTransactions_tx: "AddSupportingTransactions X W w = Some w' \<Longrightarrow> mt_tx w' = mt_tx w"
  by (auto simp: AddSupportingTransactions_def Let_def dest!: SetMerkleBranch_tx split: if_splits option.splits Option.bind_splits)

text \<open>Every transaction is filed under its hash.\<close>

definition ids_ok :: "openssl \<Rightarrow> CWallet \<Rightarrow> bool" where
  "ids_ok E W \<longleftrightarrow> (\<forall>h tx. tx_map W h = Some tx \<longrightarrow> GetHash E tx = h)"

text \<open>What the last part of an attempt makes of the inputs and outputs.\<close>

lemma finish_attempt_ok:
  assumes fin: "finish_attempt C coins tx s = Some (res, s')"
    and ids: "ids_ok (we_ssl (cx_wallet C)) (cr_wallet s)"
  shows "cr_wallet s' = cr_wallet s"
    and "res = None \<Longrightarrow> sint (cr_nFeeRet s) < sint (cr_nFeeRet s')"
    and "res = None \<Longrightarrow> 0 \<le> sint (cx_nTransactionFee C) \<Longrightarrow> sint (cx_nTransactionFee C) < 2 ^ 40 \<Longrightarrow> fee_ok (cr_nFeeRet s')"
    and "res = Some True \<Longrightarrow> cr_nFeeRet s' = cr_nFeeRet s \<and> tx_vout (mt_tx (cr_wtx s')) = tx_vout tx \<and>
      map ti_prevout (tx_vin (mt_tx (cr_wtx s'))) = map outpoint coins \<and>
      sint (required_fee C (mt_tx (cr_wtx s'))) \<le> sint (cr_nFeeRet s)"
proof -
  define X where "X = cx_wallet C"
  obtain froms where froms: "coin_txs (cr_wallet s) coins = Some froms"
    using fin by (cases "coin_txs (cr_wallet s) coins") (auto simp: finish_attempt_def)
  define tx1 where "tx1 = tx\<lparr>tx_vin := map2 (\<lambda>k from. CTxIn_new (GetHash (we_ssl X) from) (snd k)) coins froms\<rparr>"
  obtain signed tx2 c where sign: "sign_loop X (cr_wallet s) 0 froms tx1 (cr_cache s) = Some (signed, tx2, c)"
    using fin froms by (cases "sign_loop X (cr_wallet s) 0 froms tx1 (cr_cache s)") (auto simp: finish_attempt_def X_def tx1_def)
  define s1 where "s1 = s\<lparr>cr_cache := c, cr_wtx := (cr_wtx s)\<lparr>mt_tx := tx2\<rparr>\<rparr>"
  have fin1: "(if \<not> signed then Some (Some False, s1)
       else if MAX_BLOCK_SIZE_GEN div 5 \<le> size_tx tx2 then Some (Some False, s1)
       else if sint (cr_nFeeRet s1) < sint (required_fee C tx2) then Some (None, s1\<lparr>cr_nFeeRet := required_fee C tx2\<rparr>)
       else Option.bind (AddSupportingTransactions X (cr_wallet s1) (cr_wtx s1))
         (\<lambda>wtx. Some (Some True, s1\<lparr>cr_wtx := wtx\<lparr>wt_fTimeReceivedIsTxTime := 1\<rparr>\<rparr>))) = Some (res, s')"
    using fin froms sign by (simp add: finish_attempt_def X_def tx1_def s1_def Let_def cong: if_cong split del: if_split)
  have keep: "tx_vout tx2 = tx_vout tx" "map ti_prevout (tx_vin tx2) = map outpoint coins"
    using sign_loop_keeps [OF sign] coin_txs_vin [OF froms, of "we_ssl X"] ids by (simp_all add: tx1_def X_def ids_ok_def)
  show "cr_wallet s' = cr_wallet s" using fin1 by (auto simp: s1_def split: if_splits Option.bind_splits)
  show "sint (cr_nFeeRet s) < sint (cr_nFeeRet s')" if "res = None"
    using fin1 that by (auto simp: s1_def split: if_splits Option.bind_splits)
  show "fee_ok (cr_nFeeRet s')" if "res = None" "0 \<le> sint (cx_nTransactionFee C)" "sint (cx_nTransactionFee C) < 2 ^ 40"
    using fin1 that required_fee_ok [OF that(2,3), of tx2] by (auto split: if_splits Option.bind_splits)
  assume "res = Some True"
  then obtain wtx where add: "AddSupportingTransactions X (cr_wallet s1) (cr_wtx s1) = Some wtx" "\<not> sint (cr_nFeeRet s1) < sint (required_fee C tx2)"
    "s' = s1\<lparr>cr_wtx := wtx\<lparr>wt_fTimeReceivedIsTxTime := 1\<rparr>\<rparr>"
    using fin1 by (auto split: if_splits Option.bind_splits)
  have "mt_tx wtx = tx2" using AddSupportingTransactions_tx [OF add(1)] by (simp add: s1_def)
  with add(2,3) keep show "cr_nFeeRet s' = cr_nFeeRet s \<and> tx_vout (mt_tx (cr_wtx s')) = tx_vout tx \<and>
      map ti_prevout (tx_vin (mt_tx (cr_wtx s'))) = map outpoint coins \<and>
      sint (required_fee C (mt_tx (cr_wtx s'))) \<le> sint (cr_nFeeRet s)"
    by (simp add: s1_def)
qed

text \<open>
  A transaction that spends coins of the wallet, each once, and gives away what they are worth:
  the payments, at most one output of change, and the fee.
\<close>

definition pays_out :: "CTxOut list \<Rightarrow> CTxOut list \<Rightarrow> bool" where
  "pays_out payees vout \<longleftrightarrow> vout = payees \<or> (\<exists>p change. 0 < sint (to_nValue change) \<and> vout = insert_at p change payees)"

definition balanced :: "CWallet \<Rightarrow> CTxOut list \<Rightarrow> CTransaction \<Rightarrow> int64 \<Rightarrow> bool" where
  "balanced W payees tx fee \<longleftrightarrow>
     pays_out payees (tx_vout tx) \<and>
     (\<exists>coins. distinct coins \<and> map ti_prevout (tx_vin tx) = map outpoint coins \<and> (\<forall>k \<in> set coins. 0 < value_of W k) \<and>
        (\<Sum>k\<leftarrow>coins. value_of W k) = out_sum (tx_vout tx) + sint fee)"

definition wallet_ok :: "openssl \<Rightarrow> CWallet \<Rightarrow> bool" where
  "wallet_ok E W \<longleftrightarrow> keys_ok (wl_mapWallet W) \<and> wallet_worth W < 2 ^ 63 - 1 \<and> ids_ok E W"

definition choices_ok :: "'k createenv \<Rightarrow> bool" where
  "choices_ok C \<longleftrightarrow>
     (\<forall>k i cs. mset (rs_shuffle (cx_draws C k i) cs) = mset cs) \<and>
     (\<forall>S. finite S \<longrightarrow> distinct (cx_order C S) \<and> set (cx_order C S) = S) \<and>
     0 \<le> sint (cx_nTransactionFee C) \<and> sint (cx_nTransactionFee C) < 2 ^ 40"

lemma value_of_same: "same_txs W W' \<Longrightarrow> value_of W' = value_of W"
  by (simp add: value_of_def coin_value_same fun_eq_iff)

lemma tx_map_core: "tx_map W h = map_option fst (core_map W h)"
  by (simp add: tx_map_def core_map_def core_tx_def option.map_comp o_def)

lemma wallet_ok_same:
  assumes "same_txs W W'" "wallet_ok E W"
  shows "wallet_ok E W'"
proof -
  have "tx_map W' = tx_map W" using assms(1) by (simp add: fun_eq_iff tx_map_core same_txs_def)
  then show ?thesis using assms same_txs_keys [OF assms(1)] same_txs_worth [OF assms(1)] by (simp add: wallet_ok_def ids_ok_def)
qed

lemma payment_finite: "payment X W target S v \<Longrightarrow> finite S"
  by (auto simp: payment_def)

lemma create_attempt_ok:
  assumes wal: "wallet_ok (we_ssl (cx_wallet C)) (cr_wallet s)" and choices: "choices_ok C" and n: "0 < n"
    and pos: "\<forall>p \<in> set vecSend. 0 \<le> sint (snd p)" "0 < paid vecSend" "paid vecSend < 2 ^ 61" "sint nValue = paid vecSend"
    and fee: "fee_ok (cr_nFeeRet s)"
    and att: "create_attempt C vecSend n ctl nValue k s = Some (res, s')"
  shows "same_txs (cr_wallet s) (cr_wallet s')"
    and "res = None \<Longrightarrow> fee_ok (cr_nFeeRet s') \<and> sint (cr_nFeeRet s) < sint (cr_nFeeRet s')"
    and "res = Some True \<Longrightarrow> balanced (cr_wallet s) (payee_outputs (cx_fSplitBlock C) n vecSend) (mt_tx (cr_wtx s')) (cr_nFeeRet s') \<and>
      sint (required_fee C (mt_tx (cr_wtx s'))) \<le> sint (cr_nFeeRet s')"
proof -
  define W where "W = cr_wallet s"
  define X where "X = cx_wallet C"
  define outs where "outs = payee_outputs (cx_fSplitBlock C) n vecSend"
  define tx where "tx = (mt_tx (cr_wtx s))\<lparr>tx_vin := [], tx_vout := outs\<rparr>"
  define s1 where "s1 = s\<lparr>cr_wtx := (cr_wtx s)\<lparr>mt_tx := tx, wt_fFromMe := 1\<rparr>\<rparr>"
  define fee0 where "fee0 = cr_nFeeRet s"
  have keys: "keys_ok (wl_mapWallet W)" and worth: "wallet_worth W < 2 ^ 63 - 1" and ids: "ids_ok (we_ssl X) W"
    using wal by (simp_all add: wallet_ok_def W_def X_def)
  have perm: "\<And>k i cs. mset (rs_shuffle (cx_draws C k i) cs) = mset cs" using choices by (simp add: choices_ok_def)
  have f: "0 \<le> sint fee0" "sint fee0 < 2 ^ 48" using fee by (simp_all add: fee_ok_def fee0_def)
  have target: "sint (nValue + fee0) = paid vecSend + sint fee0" using pos f by (subst sint64_add) simp_all
  obtain ok S v W1 where sel: "SelectCoins X (cx_draws C k) (nValue + fee0) (tx_nTime tx) ctl {} 0 W = Some ((ok, S, v), W1)"
    using att by (cases "SelectCoins X (cx_draws C k) (nValue + fee0) (tx_nTime tx) ctl {} 0 W")
      (auto simp: create_attempt_def X_def W_def tx_def outs_def fee0_def)
  have W1: "same_txs W W1" using SelectCoins_reads [OF keys sel] by (rule reads_same)
  define coins where "coins = cx_order C S"
  define st where "st = (\<lambda>nFeeRet r W. s1\<lparr>cr_nFeeRet := nFeeRet, cr_reserve := r, cr_wallet := W\<rparr>)"
  have att1: "(if \<not> ok then Some (Some False, s1\<lparr>cr_wallet := W1\<rparr>)
      else Option.bind (read_coins X coins CNoDestination W1) (\<lambda>(a, W).
        case adjust_change (v - nValue - fee0) fee0 of (nChange, nFeeRet) \<Rightarrow>
          Option.bind (add_change C k ctl a nChange outs (cr_reserve s) W) (\<lambda>(vout, r, W).
            finish_attempt C coins (tx\<lparr>tx_vout := vout\<rparr>) (st nFeeRet r W)))) = Some (res, s')"
    using att sel by (simp add: create_attempt_def X_def W_def tx_def outs_def fee0_def s1_def st_def coins_def Let_def cong: if_cong)
  have "same_txs W (cr_wallet s') \<and> (res = None \<longrightarrow> fee_ok (cr_nFeeRet s') \<and> sint fee0 < sint (cr_nFeeRet s')) \<and>
    (res = Some True \<longrightarrow> balanced W outs (mt_tx (cr_wtx s')) (cr_nFeeRet s') \<and>
      sint (required_fee C (mt_tx (cr_wtx s'))) \<le> sint (cr_nFeeRet s'))"
  proof (cases ok)
    case False
    then show ?thesis using att1 W1 by auto
  next
    case True
    have pay: "payment X W (nValue + fee0) S v"
      using target pos f sel True by (intro SelectCoins_payment [OF keys worth perm]) simp_all
    have order: "distinct coins" "set coins = S"
      using choices payment_finite [OF pay] unfolding choices_ok_def coins_def by blast+
    have val: "(\<Sum>k\<leftarrow>coins. value_of W k) = sint v" "\<forall>k \<in> set coins. 0 < value_of W k" "paid vecSend + sint fee0 \<le> sint v"
      using payment_value [OF pay order] target by simp_all
    obtain a W2 where rd: "read_coins X coins CNoDestination W1 = Some (a, W2)"
      using att1 True by (cases "read_coins X coins CNoDestination W1") auto
    have W2: "same_txs W W2"
      using W1 reads_same [OF read_coins_reads [OF _ rd]] same_txs_keys [OF W1] keys by (auto intro: same_txs_trans)
    obtain nChange nFee where adj: "adjust_change (v - nValue - fee0) fee0 = (nChange, nFee)" by (metis surj_pair)
    have "sint (v - nValue) = sint v - paid vecSend" using val(3) pos f sint64_bounds [of v] by (subst sint64_sub) simp_all
    then have diff: "sint (v - nValue - fee0) = sint v - paid vecSend - sint fee0"
      using val(3) pos f sint64_bounds [of v] by (subst sint64_sub) simp_all
    have change: "sint nChange + sint nFee = sint v - paid vecSend" "0 \<le> sint nChange" "0 \<le> sint nFee" "sint fee0 \<le> sint nFee"
      using adjust_change_ok [OF _ f(1) _ adj] diff val(3) pos sint64_bounds [of v] by simp_all
    obtain vout r W3 where ac: "add_change C k ctl a nChange outs (cr_reserve s) W2 = Some (vout, r, W3)"
      using att1 True rd adj by (cases "add_change C k ctl a nChange outs (cr_reserve s) W2") auto
    have W3: "same_txs W W3" using W2 map_same [OF add_change_ok(1) [OF ac]] by (rule same_txs_trans)
    have sum0: "out_sum outs = paid vecSend" unfolding outs_def using pos(1) n by (rule payee_outputs_sum)
    have vout: "pays_out outs vout \<and> out_sum vout = paid vecSend + sint nChange"
      using add_change_ok(2) [OF ac] change(2) sum0 by (cases "0 < sint nChange") (force simp: pays_out_def)+
    have fin: "finish_attempt C coins (tx\<lparr>tx_vout := vout\<rparr>) (st nFee r W3) = Some (res, s')"
      using att1 True rd adj ac by simp
    have "ids_ok (we_ssl X) W3" using wallet_ok_same [OF W3 wal [folded W_def X_def]] by (simp only: wallet_ok_def)
    then have ids3: "ids_ok (we_ssl (cx_wallet C)) (cr_wallet (st nFee r W3))" by (simp add: st_def X_def)
    note fa = finish_attempt_ok [OF fin ids3]
    have sum: "(\<Sum>k\<leftarrow>coins. value_of W k) = out_sum vout + sint nFee" using val(1) vout change(1) by linarith
    have bal: "balanced W outs (mt_tx (cr_wtx s')) (cr_nFeeRet s') \<and>
        sint (required_fee C (mt_tx (cr_wtx s'))) \<le> sint (cr_nFeeRet s')" if "res = Some True"
    proof -
      have "cr_nFeeRet s' = nFee" "tx_vout (mt_tx (cr_wtx s')) = vout" "map ti_prevout (tx_vin (mt_tx (cr_wtx s'))) = map outpoint coins"
        "sint (required_fee C (mt_tx (cr_wtx s'))) \<le> sint nFee"
        using fa(4) [OF that] by (simp_all add: st_def)
      then show ?thesis using sum vout order(1) val(2) unfolding balanced_def by metis
    qed
    have "cr_wallet s' = W3" using fa(1) by (simp add: st_def)
    moreover have "res = None \<longrightarrow> sint fee0 < sint (cr_nFeeRet s')" using fa(2) change(4) by (auto simp: st_def)
    ultimately show ?thesis using W3 fa(3) choices bal by (simp add: choices_ok_def)
  qed
  then show "same_txs (cr_wallet s) (cr_wallet s')"
    "res = None \<Longrightarrow> fee_ok (cr_nFeeRet s') \<and> sint (cr_nFeeRet s) < sint (cr_nFeeRet s')"
    "res = Some True \<Longrightarrow> balanced (cr_wallet s) (payee_outputs (cx_fSplitBlock C) n vecSend) (mt_tx (cr_wtx s')) (cr_nFeeRet s') \<and>
      sint (required_fee C (mt_tx (cr_wtx s'))) \<le> sint (cr_nFeeRet s')"
    by (simp_all add: W_def outs_def fee0_def)
qed

subsection \<open>The whole payment\<close>

lemma create_loop_ok:
  assumes "create_loop C vecSend n ctl nValue k s = Some (ok, s')"
    and "wallet_ok (we_ssl (cx_wallet C)) (cr_wallet s)" "choices_ok C" "0 < n"
    and "\<forall>p \<in> set vecSend. 0 \<le> sint (snd p)" "0 < paid vecSend" "paid vecSend < 2 ^ 61" "sint nValue = paid vecSend"
    and "fee_ok (cr_nFeeRet s)" ok
  shows "balanced (cr_wallet s) (payee_outputs (cx_fSplitBlock C) n vecSend) (mt_tx (cr_wtx s')) (cr_nFeeRet s') \<and>
    sint (required_fee C (mt_tx (cr_wtx s'))) \<le> sint (cr_nFeeRet s')"
proof -
  define Q where "Q = (\<lambda>(C :: 'a createenv) vecSend n (ctl :: CCoinControl option) (nValue :: int64) (k :: nat) (s :: create_state) (r :: bool \<times> create_state).
    wallet_ok (we_ssl (cx_wallet C)) (cr_wallet s) \<longrightarrow> choices_ok C \<longrightarrow> 0 < n \<longrightarrow>
    (\<forall>p \<in> set vecSend. 0 \<le> sint (snd p)) \<longrightarrow> 0 < paid vecSend \<longrightarrow> paid vecSend < 2 ^ 61 \<longrightarrow> sint nValue = paid vecSend \<longrightarrow>
    fee_ok (cr_nFeeRet s) \<longrightarrow> fst r \<longrightarrow>
    balanced (cr_wallet s) (payee_outputs (cx_fSplitBlock C) n vecSend) (mt_tx (cr_wtx (snd r))) (cr_nFeeRet (snd r)) \<and>
    sint (required_fee C (mt_tx (cr_wtx (snd r)))) \<le> sint (cr_nFeeRet (snd r)))"
  have "Q C vecSend n ctl nValue k s (ok, s')"
  proof (rule create_loop.raw_induct [where P = Q, OF _ assms(1)], goal_cases)
    case (1 loop C vecSend n ctl nValue k s r)
    show ?case unfolding Q_def
    proof (intro impI)
      assume wal: "wallet_ok (we_ssl (cx_wallet C)) (cr_wallet s)" and choices: "choices_ok C" and n: "0 < n"
        and pos: "\<forall>p \<in> set vecSend. 0 \<le> sint (snd p)" "0 < paid vecSend" "paid vecSend < 2 ^ 61" "sint nValue = paid vecSend"
        and fee: "fee_ok (cr_nFeeRet s)" and "fst r"
      obtain res s1 where att: "create_attempt C vecSend n ctl nValue k s = Some (res, s1)"
        using 1(2) by (cases "create_attempt C vecSend n ctl nValue k s") auto
      note a = create_attempt_ok [OF wal choices n pos fee att]
      show "balanced (cr_wallet s) (payee_outputs (cx_fSplitBlock C) n vecSend) (mt_tx (cr_wtx (snd r))) (cr_nFeeRet (snd r)) \<and>
        sint (required_fee C (mt_tx (cr_wtx (snd r)))) \<le> sint (cr_nFeeRet (snd r))"
      proof (cases res)
        case (Some b)
        then show ?thesis using 1(2) att a(3) \<open>fst r\<close> by auto
      next
        case None
        then have "loop C vecSend n ctl nValue (Suc k) s1 = Some r" using 1(2) att by simp
        note q = 1(1) [OF this, unfolded Q_def]
        show ?thesis
          using q wallet_ok_same [OF a(1) wal] choices n pos a(2) [OF None, THEN conjunct1] \<open>fst r\<close> value_of_same [OF a(1)]
          by (simp add: balanced_def)
      qed
    qed
  qed
  then show ?thesis using assms(2-) by (simp add: Q_def)
qed

text \<open>Every further attempt has a higher fee, and fees are bounded by the size of a transaction.\<close>

lemma create_loop_ends:
  assumes "wallet_ok (we_ssl (cx_wallet C)) (cr_wallet s)" "choices_ok C" "0 < n"
    and "\<forall>p \<in> set vecSend. 0 \<le> sint (snd p)" "0 < paid vecSend" "paid vecSend < 2 ^ 61" "sint nValue = paid vecSend"
    and "fee_ok (cr_nFeeRet s)"
  shows "(\<exists>r. create_loop C vecSend n ctl nValue k s = Some r) \<or>
    (\<exists>k' s'. same_txs (cr_wallet s) (cr_wallet s') \<and> fee_ok (cr_nFeeRet s') \<and> create_attempt C vecSend n ctl nValue k' s' = None)"
  using assms
proof (induction "nat (2 ^ 48 - sint (cr_nFeeRet s))" arbitrary: k s rule: less_induct)
  case (less s k)
  show ?case
  proof (cases "create_attempt C vecSend n ctl nValue k s")
    case None
    with less.prems(8) same_txs_refl show ?thesis by blast
  next
    case (Some p)
    obtain res s1 where p: "p = (res, s1)" by (cases p)
    note a = create_attempt_ok [OF less.prems(1-8) Some [unfolded p]]
    show ?thesis
    proof (cases res)
      case (Some b)
      with \<open>create_attempt C vecSend n ctl nValue k s = Some p\<close> p show ?thesis by (subst create_loop.simps) simp
    next
      case None
      note fee = a(2) [OF None]
      have "nat (2 ^ 48 - sint (cr_nFeeRet s1)) < nat (2 ^ 48 - sint (cr_nFeeRet s))"
        using fee unfolding fee_ok_def by linarith
      from less.hyps [OF this wallet_ok_same [OF a(1) less.prems(1)] less.prems(2-7) fee [THEN conjunct1], of "Suc k"]
      consider r where "create_loop C vecSend n ctl nValue (Suc k) s1 = Some r"
        | k' s' where "same_txs (cr_wallet s1) (cr_wallet s')" "fee_ok (cr_nFeeRet s')" "create_attempt C vecSend n ctl nValue k' s' = None"
        by blast
      then show ?thesis
      proof cases
        case 1
        with \<open>create_attempt C vecSend n ctl nValue k s = Some p\<close> p None show ?thesis by (subst create_loop.simps) simp
      next
        case 2
        with same_txs_trans [OF a(1)] show ?thesis by blast
      qed
    qed
  qed
qed

text \<open>C14: A payment that \<open>CreateTransaction\<close> makes spends unspent outputs of the wallet, each once;
  what they are worth is what the outputs of the transaction give away and the fee that is
  returned, which is at least the fee that the size of the transaction asks for; and the outputs
  are the payments asked for with at most one output of change among them.\<close>

theorem created_balances:
  assumes "wallet_ok (we_ssl (cx_wallet C)) (cr_wallet s)" "choices_ok C" "payments_ok vecSend"
    and "CreateTransaction C vecSend n ctl s = Some (True, s')"
  shows "balanced (cr_wallet s) (payee_outputs (cx_fSplitBlock C) (nat (max 1 n)) vecSend) (mt_tx (cr_wtx s')) (cr_nFeeRet s') \<and>
    sint (required_fee C (mt_tx (cr_wtx s'))) \<le> sint (cr_nFeeRet s')"
proof -
  have pos: "\<forall>p \<in> set vecSend. 0 \<le> sint (snd p)" "0 < paid vecSend" "paid vecSend < 2 ^ 61"
    using assms(3) by (simp_all add: payments_ok_def)
  from sum_payments_paid [OF pos(1), of 0] obtain v where v: "sum_payments 0 vecSend = Some v" "sint v = paid vecSend"
    using pos(3) by auto
  define s0 where "s0 = s\<lparr>cr_wtx := BindWallet (cr_wtx s),
    cr_nFeeRet := (if cx_fSplitBlock C then word_of_int (COIN div 1000) else cx_nTransactionFee C)\<rparr>"
  have "vecSend \<noteq> []" using pos(2) by (auto simp: paid_def)
  then have loop: "create_loop C vecSend (nat (max 1 n)) ctl v 0 s0 = Some (True, s')"
    using assms(4) v(1) by (simp add: CreateTransaction_def s0_def)
  have "fee_ok (cr_nFeeRet s0)" using assms(2) by (simp add: s0_def fee_ok_def choices_ok_def COIN_def)
  moreover have "cr_wallet s0 = cr_wallet s" by (simp add: s0_def)
  ultimately show ?thesis
    using create_loop_ok [OF loop _ assms(2) _ pos v(2)] assms(1) by simp
qed

end
