(* ===== verification/Wallet_Repair.thy ===== *)
theory Wallet_Repair
  imports Wallet_Spend
begin

text \<open>
  The repair command (\<open>FixSpentCoins\<close> in \<open>src/wallet.cpp\<close>), which compares the outputs that the wallet
  holds spent with the index of transactions, and what it leaves alone. A pointer to a transaction
  that has been deleted meanwhile is \<open>None\<close>; the notices to the interface are left out.
\<close>

subsection \<open>The command\<close>

record repair_counts =
  rp_nMismatchFound :: int
  rp_nBalanceInQuestion :: int64
  rp_nOrphansFound :: int

definition older_than_10min :: "'k walletenv \<Rightarrow> CWalletTx \<Rightarrow> bool" where
  "older_than_10min X w \<longleftrightarrow> 60 * 10 < we_nTime X - GetTxTime w"

definition count_mismatch :: "CTxOut \<Rightarrow> repair_counts \<Rightarrow> repair_counts" where
  "count_mismatch out c = c\<lparr>rp_nMismatchFound := rp_nMismatchFound c + 1,
     rp_nBalanceInQuestion := rp_nBalanceInQuestion c + to_nValue out\<rparr>"

definition index_spent :: "CDiskTxPos list \<Rightarrow> nat \<Rightarrow> bool" where
  "index_spent vSpent n \<longleftrightarrow> n < length vSpent \<and> \<not> CDiskTxPos_IsNull (vSpent ! n)"

definition fix_output ::
  "'k walletenv \<Rightarrow> bool \<Rightarrow> uint256 \<Rightarrow> CDiskTxPos list \<Rightarrow> nat \<Rightarrow> repair_counts \<Rightarrow> CWallet \<Rightarrow> (repair_counts \<times> CWallet) option" where
  "fix_output X fCheckOnly h vSpent n c W =
     do {
       pcoin \<leftarrow> map_of (wl_mapWallet W) h;
       mine \<leftarrow> IsMine_out X W (wt_vout pcoin ! n);
       spent \<leftarrow> IsSpent n pcoin;
       if mine \<and> spent \<and> \<not> index_spent vSpent n \<and> older_than_10min X pcoin
       then if fCheckOnly then Some (count_mismatch (wt_vout pcoin ! n) c, W)
            else do {
              pcoin \<leftarrow> MarkUnspent n pcoin;
              Some (count_mismatch (wt_vout pcoin ! n) c, snd (WriteToDisk_wtx X pcoin (put_tx h pcoin W)))
            }
       else if mine \<and> \<not> spent \<and> index_spent vSpent n \<and> older_than_10min X pcoin
       then if fCheckOnly then Some (count_mismatch (wt_vout pcoin ! n) c, W)
            else do {
              pcoin \<leftarrow> MarkSpent n pcoin;
              Some (count_mismatch (wt_vout pcoin ! n) c, snd (WriteToDisk_wtx X pcoin (put_tx h pcoin W)))
            }
       else Some (c, W)
     }"

fun fix_outputs ::
  "'k walletenv \<Rightarrow> bool \<Rightarrow> uint256 \<Rightarrow> CDiskTxPos list \<Rightarrow> nat list \<Rightarrow> repair_counts \<Rightarrow> CWallet \<Rightarrow>
     (repair_counts \<times> CWallet) option" where
  "fix_outputs X fCheckOnly h vSpent [] c W = Some (c, W)"
| "fix_outputs X fCheckOnly h vSpent (n # ns) c W =
     do { (c, W) \<leftarrow> fix_output X fCheckOnly h vSpent n c W; fix_outputs X fCheckOnly h vSpent ns c W }"

definition drop_coin :: "bool \<Rightarrow> uint256 \<Rightarrow> repair_counts \<Rightarrow> CWallet \<Rightarrow> repair_counts \<times> CWallet" where
  "drop_coin fCheckOnly hash c W =
     (c\<lparr>rp_nOrphansFound := rp_nOrphansFound c + 1\<rparr>, if fCheckOnly then W else snd (EraseFromWallet hash W))"

definition fix_rest ::
  "'k walletenv \<Rightarrow> bool \<Rightarrow> uint256 \<Rightarrow> uint256 \<Rightarrow> CDiskTxPos list \<Rightarrow> repair_counts \<Rightarrow> CWallet \<Rightarrow>
     (repair_counts \<times> CWallet) option" where
  "fix_rest X fCheckOnly h hash vSpent c W =
     do {
       pcoin \<leftarrow> map_of (wl_mapWallet W) h;
       (c, W) \<leftarrow> fix_outputs X fCheckOnly h vSpent [0..<length (wt_vout pcoin)] c W;
       if IsCoinBaseOrStake (mt_tx pcoin)
       then do {
         pcoin \<leftarrow> map_of (wl_mapWallet W) h;
         (nDepth, pcoin) \<leftarrow> GetDepthInMainChain X pcoin;
         let W = put_tx h pcoin W;
         Some (if nDepth \<le> 0 then drop_coin fCheckOnly hash c W else (c, W))
       }
       else Some (c, W)
     }"

definition fix_coin ::
  "'k walletenv \<Rightarrow> bool \<Rightarrow> uint256 \<Rightarrow> repair_counts \<Rightarrow> CWallet \<Rightarrow> (repair_counts \<times> CWallet) option" where
  "fix_coin X fCheckOnly h c W =
     do {
       pcoin \<leftarrow> map_of (wl_mapWallet W) h;
       let hash = wt_GetHash X pcoin;
       (confirmed, pcoin) \<leftarrow> IsConfirmedInMainChain X W pcoin;
       let W = put_tx h pcoin W;
       if \<not> confirmed \<and> older_than_10min X pcoin then Some (drop_coin fCheckOnly hash c W)
       else case ReadTxIndex (cs_txdb (we_chain X)) hash of
              None \<Rightarrow> if \<not> IsCoinBaseOrStake (mt_tx pcoin) then Some (c, W) else fix_rest X fCheckOnly h hash [] c W
            | Some txindex \<Rightarrow> fix_rest X fCheckOnly h hash (xi_vSpent txindex) c W
     }"

fun fix_coins ::
  "'k walletenv \<Rightarrow> bool \<Rightarrow> uint256 list \<Rightarrow> repair_counts \<Rightarrow> CWallet \<Rightarrow> (repair_counts \<times> CWallet) option" where
  "fix_coins X fCheckOnly [] c W = Some (c, W)"
| "fix_coins X fCheckOnly (h # hs) c W = do { (c, W) \<leftarrow> fix_coin X fCheckOnly h c W; fix_coins X fCheckOnly hs c W }"

definition FixSpentCoins :: "'k walletenv \<Rightarrow> bool \<Rightarrow> CWallet \<Rightarrow> (repair_counts \<times> CWallet) option" where
  "FixSpentCoins X fCheckOnly W =
     fix_coins X fCheckOnly (map fst (wl_mapWallet W))
       \<lparr>rp_nMismatchFound = 0, rp_nBalanceInQuestion = 0, rp_nOrphansFound = 0\<rparr> W"

subsection \<open>What a step leaves of one coin\<close>

text \<open>
  The transaction of the coin stays what it is, or is deleted; and if it stays, then under a
  condition a spent coin stays spent.
\<close>

definition holds :: "bool \<Rightarrow> coin_key \<Rightarrow> CWallet \<Rightarrow> CWallet \<Rightarrow> bool" where
  "holds P k W W' \<longleftrightarrow>
     (keys_ok (wl_mapWallet W) \<longrightarrow> keys_ok (wl_mapWallet W')) \<and>
     (tx_map W' (fst k) \<noteq> None \<longrightarrow> tx_map W' (fst k) = tx_map W (fst k) \<and> (P \<longrightarrow> is_spent W k \<longrightarrow> is_spent W' k))"

lemma holds_refl [simp]: "holds P k W W"
  by (simp add: holds_def)

lemma holds_trans: "holds P k W W' \<Longrightarrow> holds P k W' W'' \<Longrightarrow> holds P k W W''"
  by (auto simp: holds_def)

lemma holds_map: "wl_mapWallet W' = wl_mapWallet W \<Longrightarrow> holds P k W W'"
  by (simp add: holds_def is_spent_def tx_map_def)

lemma holds_put:
  assumes "map_of (wl_mapWallet W) h = Some w" "mt_tx w' = mt_tx w"
    and "P \<Longrightarrow> h = fst k \<Longrightarrow> IsSpent (snd k) w = Some True \<Longrightarrow> IsSpent (snd k) w' = Some True"
  shows "holds P k W (put_tx h w' W)"
  using assms by (auto simp: holds_def is_spent_def tx_map_def put_tx_def keys_ok_put)

lemma holds_core:
  assumes "map_of (wl_mapWallet W) h = Some w" "core_tx w' = core_tx w"
  shows "holds P k W (put_tx h w' W)"
proof (rule holds_put [OF assms(1)])
  show "mt_tx w' = mt_tx w" using assms(2) by (rule core_vout(1))
  show "IsSpent (snd k) w = Some True \<Longrightarrow> IsSpent (snd k) w' = Some True" using core_IsSpent [OF assms(2)] by metis
qed

lemma holds_write: "holds P k W W' \<Longrightarrow> holds P k W (snd (WriteToDisk_wtx X w W'))"
  by (rule holds_trans [OF _ holds_map]) (simp_all add: WriteToDisk_wtx_def db_step_map)

lemma EraseFromWallet_map:
  "wl_mapWallet (snd (EraseFromWallet h W)) = wl_mapWallet W \<or> wl_mapWallet (snd (EraseFromWallet h W)) = map_erase h (wl_mapWallet W)"
  by (simp add: EraseFromWallet_def db_step_map)

lemma EraseFromWallet_holds: "holds P k W (snd (EraseFromWallet h W))"
proof -
  have "holds P k W W'" if "wl_mapWallet W' = map_erase h (wl_mapWallet W)" for W'
    using that by (cases "fst k = h") (auto simp: holds_def is_spent_def tx_map_def keys_ok_def sorted_map_erase)
  with EraseFromWallet_map [of h W] holds_map show ?thesis by blast
qed

lemma MarkUnspent_other:
  assumes "MarkUnspent n w = Some w'" "i \<noteq> n" "IsSpent i w = Some True"
  shows "IsSpent i w' = Some True"
  using assms by (auto simp: MarkUnspent_def IsSpent_def Let_def resize_flags_nth nth_list_update split: if_splits)

lemma fix_output_holds:
  assumes "fix_output X fCheckOnly h vSpent n c W = Some (c', W')"
    and "P \<Longrightarrow> fCheckOnly \<or> h \<noteq> fst k \<or> n \<noteq> snd k \<or> index_spent vSpent n"
  shows "holds P k W W'"
proof -
  obtain w where w: "map_of (wl_mapWallet W) h = Some w" using assms(1) by (auto simp: fix_output_def split: Option.bind_splits)
  consider "W' = W" | w' where "\<not> index_spent vSpent n" "\<not> fCheckOnly" "MarkUnspent n w = Some w'" "W' = snd (WriteToDisk_wtx X w' (put_tx h w' W))"
    | w' where "MarkSpent n w = Some w'" "W' = snd (WriteToDisk_wtx X w' (put_tx h w' W))"
    using assms(1) w by (auto simp: fix_output_def split: if_splits Option.bind_splits)
  then show ?thesis
  proof cases
    case 2
    have "holds P k W (put_tx h w' W)"
      using 2 assms(2) MarkUnspent_other [OF 2(3), of "snd k"] by (intro holds_put [OF w]) (auto simp: MarkUnspent_spent(2) [OF 2(3)])
    with 2(4) show ?thesis by (simp add: holds_write)
  next
    case 3
    have "holds P k W (put_tx h w' W)"
      using MarkSpent_spent(2,3) [OF 3(1)] by (intro holds_put [OF w]) auto
    with 3(2) show ?thesis by (simp add: holds_write)
  qed simp
qed

lemma fix_outputs_holds:
  assumes "fix_outputs X fCheckOnly h vSpent ns c W = Some (c', W')"
    and "P \<Longrightarrow> fCheckOnly \<or> h \<noteq> fst k \<or> index_spent vSpent (snd k)"
  shows "holds P k W W'"
  using assms(1)
proof (induction ns arbitrary: c W)
  case (Cons n ns)
  obtain c1 W1 where 1: "fix_output X fCheckOnly h vSpent n c W = Some (c1, W1)"
    using Cons.prems by (cases "fix_output X fCheckOnly h vSpent n c W") auto
  have "fix_outputs X fCheckOnly h vSpent ns c1 W1 = Some (c', W')" using Cons.prems 1 by simp
  note rest = Cons.IH [OF this]
  have "holds P k W W1" using assms(2) by (intro fix_output_holds [OF 1]) auto
  then show ?case using rest by (rule holds_trans)
qed simp

lemma drop_coin_holds: "drop_coin fCheckOnly hash c W = (c', W') \<Longrightarrow> holds P k W W'"
  using EraseFromWallet_holds [of P k W hash] by (auto simp: drop_coin_def)

text \<open>The index of transactions says that the coin is spent.\<close>

definition listed_spent :: "'k walletenv \<Rightarrow> CWallet \<Rightarrow> coin_key \<Rightarrow> bool" where
  "listed_spent X W k \<longleftrightarrow>
     (case tx_map W (fst k) of
        None \<Rightarrow> False
      | Some tx \<Rightarrow>
          (case ReadTxIndex (cs_txdb (we_chain X)) (GetHash (we_ssl X) tx) of
             None \<Rightarrow> False
           | Some txindex \<Rightarrow> index_spent (xi_vSpent txindex) (snd k)))"

lemma fix_rest_holds:
  assumes "fix_rest X fCheckOnly h hash vSpent c W = Some (c', W')"
    and "P \<Longrightarrow> fCheckOnly \<or> h \<noteq> fst k \<or> index_spent vSpent (snd k)"
  shows "holds P k W W'"
proof -
  obtain w where w: "map_of (wl_mapWallet W) h = Some w"
    using assms(1) by (cases "map_of (wl_mapWallet W) h") (simp_all add: fix_rest_def)
  obtain c1 W1 where outs: "fix_outputs X fCheckOnly h vSpent [0..<length (wt_vout w)] c W = Some (c1, W1)"
    using assms(1) w by (cases "fix_outputs X fCheckOnly h vSpent [0..<length (wt_vout w)] c W") (auto simp: fix_rest_def)
  have 1: "holds P k W W1" using outs assms(2) by (rule fix_outputs_holds)
  show ?thesis
  proof (cases "IsCoinBaseOrStake (mt_tx w)")
    case False
    with assms(1) w outs 1 show ?thesis by (simp add: fix_rest_def)
  next
    case True
    obtain w1 where w1: "map_of (wl_mapWallet W1) h = Some w1"
      using assms(1) w outs True by (cases "map_of (wl_mapWallet W1) h") (simp_all add: fix_rest_def)
    obtain d w2 where w2: "GetDepthInMainChain X w1 = Some (d, w2)"
      using assms(1) w outs True w1 by (cases "GetDepthInMainChain X w1") (auto simp: fix_rest_def)
    have "holds P k W1 (put_tx h w2 W1)" using w1 core_GetDepth [OF w2] by (rule holds_core)
    moreover have "holds P k (put_tx h w2 W1) W'"
    proof (cases "d \<le> 0")
      case True
      with assms(1) w outs \<open>IsCoinBaseOrStake (mt_tx w)\<close> w1 w2
      have "drop_coin fCheckOnly hash c1 (put_tx h w2 W1) = (c', W')" by (simp add: fix_rest_def Let_def)
      then show ?thesis by (rule drop_coin_holds)
    next
      case False
      with assms(1) w outs \<open>IsCoinBaseOrStake (mt_tx w)\<close> w1 w2 show ?thesis by (simp add: fix_rest_def Let_def)
    qed
    ultimately show ?thesis using 1 holds_trans by blast
  qed
qed

lemma fix_coin_holds:
  assumes "fix_coin X fCheckOnly h c W = Some (c', W')"
  shows "holds (fCheckOnly \<or> listed_spent X W k) k W W'"
proof -
  let ?P = "fCheckOnly \<or> listed_spent X W k"
  obtain w where w: "map_of (wl_mapWallet W) h = Some w"
    using assms by (cases "map_of (wl_mapWallet W) h") (simp_all add: fix_coin_def)
  obtain confirmed w1 where w1: "IsConfirmedInMainChain X W w = Some (confirmed, w1)"
    using assms w by (cases "IsConfirmedInMainChain X W w") (auto simp: fix_coin_def Let_def)
  define W1 where "W1 = put_tx h w1 W"
  define vSpent where "vSpent = (case ReadTxIndex (cs_txdb (we_chain X)) (wt_GetHash X w) of None \<Rightarrow> [] | Some t \<Rightarrow> xi_vSpent t)"
  have 1: "holds ?P k W W1" unfolding W1_def using w core_IsConfirmedInMainChain [OF w1] by (rule holds_core)
  have "W' = W1 \<or> drop_coin fCheckOnly (wt_GetHash X w) c W1 = (c', W') \<or>
      fix_rest X fCheckOnly h (wt_GetHash X w) vSpent c W1 = Some (c', W')"
    using assms w w1 by (auto simp: fix_coin_def Let_def W1_def vSpent_def split: if_splits option.splits)
  moreover have "fCheckOnly \<or> h \<noteq> fst k \<or> index_spent vSpent (snd k)" if ?P
    using that w by (auto simp: listed_spent_def tx_map_def wt_GetHash_def vSpent_def split: option.splits)
  ultimately have "holds ?P k W1 W'" using drop_coin_holds fix_rest_holds holds_refl by metis
  with 1 show ?thesis by (rule holds_trans)
qed

lemma FixSpentCoins_spent:
  assumes "FixSpentCoins X fCheckOnly W = Some (c, W')"
  shows "keys_ok (wl_mapWallet W) \<Longrightarrow> keys_ok (wl_mapWallet W')"
    and "is_spent W k \<Longrightarrow> fCheckOnly \<or> listed_spent X W k \<Longrightarrow> tx_map W' (fst k) \<noteq> None \<Longrightarrow> is_spent W' k"
proof -
  have "holds (fCheckOnly \<or> listed_spent X W k) k W W'" if "fix_coins X fCheckOnly hs c W = Some (c', W')" for hs c c' W
    using that
  proof (induction hs arbitrary: c W)
    case (Cons h hs)
    obtain c1 W1 where 1: "fix_coin X fCheckOnly h c W = Some (c1, W1)" "fix_coins X fCheckOnly hs c1 W1 = Some (c', W')"
      using Cons.prems by (cases "fix_coin X fCheckOnly h c W") auto
    note a = fix_coin_holds [OF 1(1), of k] and b = Cons.IH [OF 1(2)]
    have "listed_spent X W1 k = listed_spent X W k" if "tx_map W1 (fst k) \<noteq> None"
      using a that by (simp add: holds_def listed_spent_def)
    with a b show ?case by (auto simp: holds_def)
  qed simp
  from this [OF assms [unfolded FixSpentCoins_def]]
  show "keys_ok (wl_mapWallet W) \<Longrightarrow> keys_ok (wl_mapWallet W')"
    and "is_spent W k \<Longrightarrow> fCheckOnly \<or> listed_spent X W k \<Longrightarrow> tx_map W' (fst k) \<noteq> None \<Longrightarrow> is_spent W' k"
    by (auto simp: holds_def)
qed

end
