(* ===== verification/Wallet_Events.thy ===== *)
theory Wallet_Events
  imports Wallet_Pay Wallet_Repair
begin

text \<open>
  What can happen to a wallet after a payment, as sequences of its operations, and that none of
  them releases what the payment has spent but those that are meant to.
\<close>

subsection \<open>Payments keep what is spent\<close>

lemma finish_attempt_wallet: "finish_attempt C coins tx s = Some (res, s') \<Longrightarrow> cr_wallet s' = cr_wallet s"
  by (auto simp: finish_attempt_def Let_def split: if_splits Option.bind_splits)

lemma create_attempt_keeps:
  assumes "create_attempt C vecSend n ctl nValue k s = Some (res, s')" "keys_ok (wl_mapWallet (cr_wallet s))"
  shows "keeps (cr_wallet s) (cr_wallet s')"
proof -
  define X where "X = cx_wallet C"
  define tx where "tx = (mt_tx (cr_wtx s))\<lparr>tx_vin := [], tx_vout := payee_outputs (cx_fSplitBlock C) n vecSend\<rparr>"
  obtain ok cs v W1 where sel: "SelectCoins X (cx_draws C k) (nValue + cr_nFeeRet s) (tx_nTime tx) ctl {} 0 (cr_wallet s) = Some ((ok, cs, v), W1)"
    using assms(1)
    by (cases "SelectCoins X (cx_draws C k) (nValue + cr_nFeeRet s) (tx_nTime tx) ctl {} 0 (cr_wallet s)")
      (auto simp: create_attempt_def Let_def X_def tx_def)
  have r1: "reads (cr_wallet s) W1" using assms(2) sel by (rule SelectCoins_reads)
  show ?thesis
  proof (cases ok)
    case False
    with assms(1) sel have "cr_wallet s' = W1" by (auto simp: create_attempt_def Let_def X_def tx_def)
    with r1 show ?thesis by (simp add: reads_keeps)
  next
    case True
    obtain a W2 where rd: "read_coins X (cx_order C cs) CNoDestination W1 = Some (a, W2)"
      using assms(1) sel True
      by (cases "read_coins X (cx_order C cs) CNoDestination W1") (auto simp: create_attempt_def Let_def X_def tx_def)
    have "keys_ok (wl_mapWallet W1)" using r1 assms(2) by (simp add: reads_keys_ok)
    then have r2: "reads (cr_wallet s) W2" using r1 read_coins_reads [OF _ rd] reads_trans by blast
    obtain nChange nFee where adj: "adjust_change (v - nValue - cr_nFeeRet s) (cr_nFeeRet s) = (nChange, nFee)"
      by (cases "adjust_change (v - nValue - cr_nFeeRet s) (cr_nFeeRet s)")
    obtain vout r W3 where ac: "add_change C k ctl a nChange (tx_vout tx) (cr_reserve s) W2 = Some (vout, r, W3)"
      using assms(1) sel True rd adj
      by (cases "add_change C k ctl a nChange (tx_vout tx) (cr_reserve s) W2") (auto simp: create_attempt_def Let_def X_def tx_def)
    obtain s1 where fin: "finish_attempt C (cx_order C cs) (tx\<lparr>tx_vout := vout\<rparr>) s1 = Some (res, s')" "cr_wallet s1 = W3"
      using assms(1) sel True rd adj ac by (auto simp: create_attempt_def Let_def X_def tx_def)
    have "wl_mapWallet W3 = wl_mapWallet W2" using ac by (rule add_change_ok(1))
    then have "keeps W2 W3" by (rule keeps_map)
    with reads_keeps [OF r2] finish_attempt_wallet [OF fin(1)] fin(2) show ?thesis using keeps_trans by metis
  qed
qed

lemma create_loop_keeps:
  assumes "create_loop C vecSend n ctl nValue k s = Some (ok, s')" "keys_ok (wl_mapWallet (cr_wallet s))"
  shows "keeps (cr_wallet s) (cr_wallet s')"
proof -
  let ?P = "\<lambda>(C :: 'a createenv) (vecSend :: (byte list \<times> int64) list) (n :: nat) (ctl :: CCoinControl option) (nValue :: int64) (k :: nat)
    (s :: create_state) (r :: bool \<times> create_state). keys_ok (wl_mapWallet (cr_wallet s)) \<longrightarrow> keeps (cr_wallet s) (cr_wallet (snd r))"
  have "?P C vecSend n ctl nValue k s (ok, s')"
  proof (rule create_loop.raw_induct [where P = ?P, OF _ assms(1)], goal_cases)
    case (1 loop C vecSend n ctl nValue k s r)
    show ?case
    proof
      assume keys: "keys_ok (wl_mapWallet (cr_wallet s))"
      obtain res s1 where att: "create_attempt C vecSend n ctl nValue k s = Some (res, s1)"
        using 1(2) by (cases "create_attempt C vecSend n ctl nValue k s") auto
      note a = create_attempt_keeps [OF att keys]
      show "keeps (cr_wallet s) (cr_wallet (snd r))"
      proof (cases res)
        case (Some b)
        then show ?thesis using 1(2) att a by auto
      next
        case None
        then have "loop C vecSend n ctl nValue (Suc k) s1 = Some r" using 1(2) att by simp
        from 1(1) [OF this] a keys have "keeps (cr_wallet s1) (cr_wallet (snd r))" by (simp add: keeps_def)
        with a show ?thesis by (rule keeps_trans)
      qed
    qed
  qed
  then show ?thesis using assms(2) by simp
qed

lemma CreateTransaction_keeps:
  assumes "CreateTransaction C vecSend n ctl s = Some (ok, s')" "keys_ok (wl_mapWallet (cr_wallet s))"
  shows "keeps (cr_wallet s) (cr_wallet s')"
proof -
  consider "s' = s" | nValue s1 where "create_loop C vecSend (nat (max 1 n)) ctl nValue 0 s1 = Some (ok, s')" "cr_wallet s1 = cr_wallet s"
    using assms(1) by (auto simp: CreateTransaction_def split: option.splits if_splits)
  then show ?thesis
  proof cases
    case 2
    with create_loop_keeps [OF 2(1)] assms(2) show ?thesis by simp
  qed simp
qed

subsection \<open>Disconnected coinstakes\<close>

lemma disable_loop_holds:
  assumes "disable_loop X is W = Some W'" "P \<Longrightarrow> k \<notin> prev_key ` set is"
  shows "holds P k W W' \<and> tx_map W' = tx_map W"
  using assms
proof (induction "is" arbitrary: W)
  case (Cons i "is")
  define h where "h = op_hash (ti_prevout i)"
  define n where "n = unat (op_n (ti_prevout i))"
  have rest: "disable_loop X is W1 = Some W' \<Longrightarrow> holds P k W1 W' \<and> tx_map W' = tx_map W1" for W1 using Cons by simp
  consider "disable_loop X is W = Some W'" | prev prev' where "map_of (wl_mapWallet W) h = Some prev" "MarkUnspent n prev = Some prev'"
      "disable_loop X is (snd (WriteToDisk_wtx X prev' (put_tx h prev' W))) = Some W'"
    using Cons.prems(1) by (auto simp: h_def n_def Let_def split: option.splits if_splits Option.bind_splits)
  then show ?case
  proof cases
    case 2
    have "holds P k W (put_tx h prev' W)"
      using Cons.prems(2) MarkUnspent_other [OF 2(2), of "snd k"]
      by (intro holds_put [OF 2(1)]) (auto simp: MarkUnspent_spent(2) [OF 2(2)] prev_key_def h_def n_def prod_eq_iff)
    then have "holds P k W (snd (WriteToDisk_wtx X prev' (put_tx h prev' W)))" by (rule holds_write)
    moreover have "tx_map (snd (WriteToDisk_wtx X prev' (put_tx h prev' W))) = tx_map W"
      using 2(1) MarkUnspent_spent(2) [OF 2(2)] by (simp add: tx_map_def WriteToDisk_wtx_def db_step_map put_tx_def fun_eq_iff)
    ultimately show ?thesis using rest [OF 2(3)] holds_trans by metis
  qed (rule rest)
qed simp

lemma DisableTransaction_holds:
  assumes "DisableTransaction X tx W = Some W'"
  shows "holds (k \<notin> prev_key ` set (tx_vin tx)) k W W' \<and> tx_map W' = tx_map W"
proof -
  have "W' = W \<or> disable_loop X (tx_vin tx) W = Some W'"
    using assms by (auto simp: DisableTransaction_def split: if_splits Option.bind_splits)
  then show ?thesis using disable_loop_holds [of X "tx_vin tx" W W' "k \<notin> prev_key ` set (tx_vin tx)" k] by auto
qed

subsection \<open>Histories\<close>

datatype 'k wallet_event =
    Added "'k walletenv" CWalletTx
  | Found "'k walletenv" CTransaction "CBlock option" bool
  | Seen "'k walletenv" CTransaction
  | Offered "'k walletenv" bool "CCoinControl option"
  | Dirtied
  | Created "'k createenv" "(byte list \<times> int64) list" int "CCoinControl option" create_state
  | Committed "'k walletenv" CWalletTx CReserveKey
  | Disabled "'k walletenv" CTransaction
  | Erased uint256
  | Repaired "'k walletenv" bool

fun happen :: "'k wallet_event \<Rightarrow> CWallet \<Rightarrow> CWallet option" where
  "happen (Added X wtx) W = map_option snd (AddToWallet X wtx W)"
| "happen (Found X tx pblock fUpdate) W = map_option snd (AddToWalletIfInvolvingMe X tx pblock fUpdate W)"
| "happen (Seen X tx) W = WalletUpdateSpent X tx W"
| "happen (Offered X fOnlyConfirmed coinControl) W = map_option snd (AvailableCoins X fOnlyConfirmed coinControl W)"
| "happen Dirtied W = Some (wallet_MarkDirty W)"
| "happen (Created C vecSend n coinControl s) W =
     map_option (\<lambda>(_, s). cr_wallet s) (CreateTransaction C vecSend n coinControl (s\<lparr>cr_wallet := W\<rparr>))"
| "happen (Committed X wtx r) W = map_option (\<lambda>(_, _, W). W) (CommitTransaction X wtx r W)"
| "happen (Disabled X tx) W = DisableTransaction X tx W"
| "happen (Erased hash) W = Some (snd (EraseFromWallet hash W))"
| "happen (Repaired X fCheckOnly) W = map_option snd (FixSpentCoins X fCheckOnly W)"

fun history :: "'k wallet_event list \<Rightarrow> CWallet \<Rightarrow> CWallet option" where
  "history [] W = Some W"
| "history (e # es) W = do { W \<leftarrow> happen e W; history es W }"

text \<open>
  The operations that are meant to release or delete a coin, at a coin: disconnecting a coinstake
  that spends it, deleting its transaction, and a repair that finds it unspent in the index
  of transactions or deletes its transaction.
\<close>

definition spares :: "coin_key \<Rightarrow> 'k wallet_event \<Rightarrow> CWallet \<Rightarrow> bool" where
  "spares k e W \<longleftrightarrow>
     (case e of
        Disabled X tx \<Rightarrow> k \<notin> prev_key ` set (tx_vin tx)
      | Erased hash \<Rightarrow> hash \<noteq> fst k
      | Repaired X fCheckOnly \<Rightarrow>
          (fCheckOnly \<or> listed_spent X W k) \<and>
          (case FixSpentCoins X fCheckOnly W of None \<Rightarrow> True | Some (_, W') \<Rightarrow> map_of (wl_mapWallet W') (fst k) \<noteq> None)
      | _ \<Rightarrow> True)"

fun all_spare :: "coin_key \<Rightarrow> 'k wallet_event list \<Rightarrow> CWallet \<Rightarrow> bool" where
  "all_spare k [] W = True"
| "all_spare k (e # es) W = (spares k e W \<and> (case happen e W of None \<Rightarrow> True | Some W' \<Rightarrow> all_spare k es W'))"

lemma holds_spent: "holds P k W W' \<Longrightarrow> tx_map W' (fst k) \<noteq> None \<Longrightarrow> P \<Longrightarrow> is_spent W k \<Longrightarrow> is_spent W' k"
  by (auto simp: holds_def)

lemma happen_spent:
  assumes "happen e W = Some W'" "keys_ok (wl_mapWallet W)" "is_spent W k" "spares k e W"
  shows "keys_ok (wl_mapWallet W') \<and> is_spent W' k"
proof -
  have *: ?thesis if "keeps W W'" using that assms(2,3) unfolding keeps_def by blast
  show ?thesis
  proof (cases e)
    case (Seen X tx)
    with assms(1) * update_spent_inputs_ok [of X "tx_vin tx" W W'] show ?thesis by (simp add: WalletUpdateSpent_def)
  next
    case (Offered X f ctl)
    with assms(1) * AvailableCoins_offers(3) [OF assms(2)] reads_keeps show ?thesis by fastforce
  next
    case (Created C vecSend n ctl s)
    with assms(1) obtain ok s' where c: "CreateTransaction C vecSend n ctl (s\<lparr>cr_wallet := W\<rparr>) = Some (ok, s')" "W' = cr_wallet s'"
      by auto
    from CreateTransaction_keeps [OF c(1)] c(2) assms(2) have "keeps W W'" by simp
    then show ?thesis by (rule *)
  next
    case (Committed X wtx r)
    with assms(1) obtain res r' where "CommitTransaction X wtx r W = Some (res, r', W')" by auto
    then show ?thesis by (rule * [OF CommitTransaction_spends(1)])
  next
    case (Disabled X tx)
    with assms(1,4) have "DisableTransaction X tx W = Some W'" "k \<notin> prev_key ` set (tx_vin tx)" by (simp_all add: spares_def)
    note h = DisableTransaction_holds [OF this(1), of k] and notin = this(2)
    moreover have "tx_map W (fst k) \<noteq> None" using assms(3) by (auto simp: is_spent_def tx_map_def)
    ultimately show ?thesis using h assms(2,3) notin by (simp add: holds_def)
  next
    case (Erased hash)
    with assms(1,4) have e: "W' = snd (EraseFromWallet hash W)" "hash \<noteq> fst k" by (simp_all add: spares_def)
    from EraseFromWallet_map [of hash W] have "keeps W W' \<or> is_spent W' k \<and> keys_ok (wl_mapWallet W')"
      using e assms(2,3) keeps_map by (auto simp: is_spent_def keys_ok_def sorted_map_erase)
    with * show ?thesis by blast
  next
    case (Repaired X fCheckOnly)
    with assms(1) obtain c where c: "FixSpentCoins X fCheckOnly W = Some (c, W')" by auto
    with Repaired assms(4) have "fCheckOnly \<or> listed_spent X W k" "tx_map W' (fst k) \<noteq> None" by (simp_all add: spares_def tx_map_def)
    with FixSpentCoins_spent [OF c] assms(2,3) show ?thesis by blast
  next
    case (Added X wtx)
    with assms(1) obtain ok where "AddToWallet X wtx W = Some (ok, W')" by auto
    then show ?thesis by (rule * [OF AddToWallet_ok(1)])
  next
    case (Found X tx pblock fUpdate)
    with assms(1) obtain ok where "AddToWalletIfInvolvingMe X tx pblock fUpdate W = Some (ok, W')" by auto
    then show ?thesis by (rule * [OF AddToWalletIfInvolvingMe_keeps])
  next
    case Dirtied
    with assms(1) have "W' = wallet_MarkDirty W" by simp
    with * MarkDirty_keeps show ?thesis by simp
  qed
qed

lemma history_spent:
  assumes "history es W = Some W'" "keys_ok (wl_mapWallet W)" "is_spent W k" "all_spare k es W"
  shows "keys_ok (wl_mapWallet W') \<and> is_spent W' k"
  using assms
proof (induction es arbitrary: W)
  case (Cons e es)
  obtain W1 where W1: "happen e W = Some W1" "history es W1 = Some W'" using Cons.prems(1) by (cases "happen e W") auto
  with Cons.prems(4) have "spares k e W" "all_spare k es W1" by simp_all
  with Cons.IH [OF W1(2)] happen_spent [OF W1(1) Cons.prems(2,3)] show ?case by simp
qed simp

text \<open>C15: What a committed transaction spends is never offered as a coin again, whatever the wallet
  then adds, finds, sees, lists, chooses or pays, and whether or not the memory pool took the
  transaction: only the operations that release or delete the coin on purpose can bring it back.
  These are the disconnection of a coinstake that spends it, the deletion of the transaction that
  made it, and a repair that does not find it spent in the index of transactions.\<close>

theorem committed_never_offered:
  assumes "keys_ok (wl_mapWallet W)" "CommitTransaction X wtxNew r W = Some (res, r', W1)"
    and "i \<in> set (tx_vin (mt_tx wtxNew))" "history es W1 = Some W2" "all_spare (prev_key i) es W1"
    and "AvailableCoins Y f ctl W2 = Some (cs, W3)"
  shows "prev_key i \<notin> coin_key ` set cs"
proof -
  have "keys_ok (wl_mapWallet W1)" using assms(1) CommitTransaction_spends(1) [OF assms(2)] by (simp add: keeps_def)
  from history_spent [OF assms(4) this CommitTransaction_spends(2) [OF assms(2,3)] assms(5)] is_spent_not_offered assms(6)
  show ?thesis by blast
qed

end
