(* ===== verification/Wallet_Witnesses.thy ===== *)
theory Wallet_Witnesses
  imports Wallet_Events Witnesses "HOL-Library.Product_Lexorder"
begin

text \<open>
  A wallet with one key and one coin pays with it, at a fee that leaves no change, and commits the
  transaction. The hash functions of this environment read the first byte, so that a transaction
  is filed under its version.
\<close>

subsection \<open>The environment\<close>

definition pay_ssl :: openssl where
  "pay_ssl = sample_ssl\<lparr>SHA256 := (\<lambda>bs. hd bs # replicate 31 0), RIPEMD160 := (\<lambda>_. replicate 20 0)\<rparr>"

definition pay_sigenv :: "nat sigenv" where
  "pay_sigenv = \<lparr>sv_ssl = pay_ssl, sv_ec = sample_ec, sv_rand = word_of_nat, sv_maxcache = 10\<rparr>"

definition pay_node :: "nat node" where
  "pay_node = \<lparr>nd_sig = pay_sigenv, nd_Hash9 = (\<lambda>bs. word_of_nat (length bs)), nd_fTestNet = False\<rparr>"

definition pay_parent :: CTransaction where
  "pay_parent = sample_prev\<lparr>tx_nVersion := 5, tx_vout := [\<lparr>to_nValue = 3000000, to_scriptPubKey = sample_spk\<rparr>]\<rparr>"

definition pay_state :: chain_state where
  "pay_state = \<lparr>cs_mapBlockIndex = [(7, (sample_index 0 1000)\<lparr>bi_hash := 7\<rparr>)], cs_tally = [], cs_pindexGenesisBlock = Some 7,
     cs_pindexBest = Some 7, cs_hashBestChain = 7, cs_nBestHeight = 0, cs_bnBestChainTrust = 0, cs_bnBestInvalidTrust = 0,
     cs_txdb = \<lparr>db_tables = \<lparr>tb_tx = [], tb_blockindex = [], tb_hashBestChain = 7, tb_bnBestInvalidTrust = 0\<rparr>,
       db_saved = None, db_faults = []\<rparr>,
     cs_files = sample_disk, cs_mempool = empty_pool, cs_sigcache = sample_cache, cs_mapProposals = [],
     cs_proposalManager = [], cs_voteDB = [], cs_voteFaults = [], cs_setStakeSeen = [], cs_mapProofOfStake = []\<rparr>"

definition pay_env :: "nat walletenv" where
  "pay_env = \<lparr>we_chainenv = \<lparr>ce_node = pay_node, ce_nAdjustedTime = 2000, ce_CheckDiskSpace = (\<lambda>_. True),
       ce_rate_limited = (\<lambda>_. False), ce_CheckProposal = (\<lambda>_ _ _. True)\<rparr>,
     we_libs = \<lparr>kl_ssl = pay_ssl, kl_ec = sample_ec, kl_evp = sample_evp\<rparr>, we_chain = pay_state, we_nTime = 2000,
     we_fHaveGUI = True, we_nKeyPool = 1, we_generate = (\<lambda>_. None), we_GetPrivKey = (\<lambda>_. None),
     we_RAND_bytes = (\<lambda>_. []), we_nDeriveIterations = (\<lambda>_. 25000)\<rparr>"

definition pay_wtx :: CWalletTx where
  "pay_wtx = (CWalletTx_new pay_parent)\<lparr>mt_hashBlock := 7, mt_nIndex := 0, mt_fMerkleVerified := True\<rparr>"

definition pay_wallet :: CWallet where
  "pay_wallet = \<lparr>wl_keystore = \<lparr>ks_mapKeys = [(0, be_bytes 32 7, False)], ks_mapScripts = [], ks_mapCryptedKeys = [],
       ks_vMasterKey = [], ks_fUseCrypto = False\<rparr>,
     wl_mapWallet = [(5, pay_wtx)], wl_nOrderPosNext = 1, wl_mapRequestCount = [], wl_mapAddressBook = (\<lambda>_. None),
     wl_vchDefaultKey = sample_pub, wl_setKeyPool = {}, wl_nWalletVersion = 60000, wl_nWalletMaxVersion = 60000,
     wl_mapMasterKeys = [], wl_nMasterKeyMaxID = 0, wl_fFileBacked = False, wl_fWalletUnlockMintOnly = False,
     wl_db = \<lparr>wd_tables = \<lparr>wb_tx = [], wb_key = [], wb_ckey = [], wb_mkey = [], wb_cscript = [], wb_pool = [], wb_name = [],
         wb_acentry = [], wb_defaultkey = sample_pub, wb_orderposnext = 1, wb_minversion = 60000\<rparr>, wd_faults = []\<rparr>,
     wl_nDrawn = 0\<rparr>"

lemma pay_env_simps [simp]:
  "we_ssl pay_env = pay_ssl" "we_chain pay_env = pay_state" "nd_sig (we_node pay_env) = pay_sigenv"
  "kl_ec (we_libs pay_env) = sample_ec" "we_fHaveGUI pay_env" "sv_ssl pay_sigenv = pay_ssl" "sv_ec pay_sigenv = sample_ec"
  by (simp_all only: pay_env_def pay_node_def pay_sigenv_def walletenv.simps chainenv.simps node.simps sigenv.simps keylibs.simps)

lemma le_value_zeros: "le_value (replicate n 0) = 0"
  by (induction n) simp_all

lemma pay_Hash: "Hash pay_ssl bs = word_of_nat (unat (hd bs))" "Hash160 pay_ssl bs = 0"
  by (simp_all add: Hash_def Hash160_def pay_ssl_def le_value_zeros)

lemma hd_ser_tx: "hd (ser_tx tx @ bs) = word_of_nat (unat (tx_nVersion tx))"
proof -
  have "le_bytes 4 n = word_of_nat n # le_bytes 3 (n div 256)" for n
    using le_bytes.simps(2) [of 3 n] by (simp only: Suc_numeral semiring_norm)
  then show ?thesis by (simp only: ser_tx_def bytes_of_u32_def append_Cons list.sel)
qed

lemma pay_GetHash: "GetHash pay_ssl tx = word_of_nat (unat (word_of_nat (unat (tx_nVersion tx)) :: byte))"
  using hd_ser_tx [of tx "[]"] by (simp only: GetHash_def pay_Hash append_Nil2)

lemma pay_SignatureHash:
  assumes "tx_nVersion tx = 1"
  shows "SignatureHash pay_ssl code tx n h = 1"
proof (cases "length (tx_vin tx) \<le> n \<or> signature_tx code tx n h = None")
  case False
  then obtain t where t: "signature_tx code tx n h = Some t" by blast
  have "tx_nVersion t = tx_nVersion tx"
    using t by (auto simp: signature_tx_def Let_def split: if_splits option.splits)
  with False t show ?thesis
    by (simp add: SignatureHash_def pay_Hash hd_ser_tx assms del: hd_append hd_append2)
qed (auto simp: SignatureHash_def)

text \<open>The signature of the key, and the script that it unlocks.\<close>

definition pay_sig :: valtype where
  "pay_sig = sample_sig 7 1 @ [1]"

lemma pay_sig_bytes: "pay_sig = [0x30, 2, 7, 1, 1]"
  by (simp add: pay_sig_def sample_sig_def)

lemma pay_key_verifies: "key_verifies pay_sigenv (1, sample_sig 7 1, sample_pub)"
proof -
  have sign: "CKey_Sign sample_ec \<lparr>ck_pkey = 7, ck_fSet = True, ck_fCompressedPubKey = False\<rparr> 1 = (True, sample_sig 7 1)"
    by (simp add: CKey_Sign_def sample_ec_def)
  from ecdsa_sign_verifies [OF sample_ecdsa_documented sample_key(2) this] show ?thesis
    by (auto simp: key_verifies_def)
qed

lemma pay_checks:
  assumes "tx_nVersion tx = 1"
  shows "CheckSig pay_sigenv tx n 0 sample_cache pay_sig sample_pub code =
    (True, cache_Set word_of_nat 10 sample_cache (1, sample_sig 7 1, sample_pub))"
  using pay_key_verifies
  by (simp add: CheckSig_def pay_sig_def pay_SignatureHash [OF assms] sample_cache_def cache_Get_def Let_def)
    (simp add: pay_sigenv_def)

lemma pay_eval_sig: "EvalScript pay_ssl chk [] (push_data pay_sig) c = (True, [pay_sig], c)"
  by (simp add: pay_sig_bytes push_data_def eval_simps)

lemma pay_eval_spk:
  assumes "chk c pay_sig sample_pub (snd (FindAndDelete sample_spk (push_data pay_sig))) = (True, c')"
  shows "EvalScript pay_ssl chk [pay_sig] sample_spk c = (True, [vchTrue], c')"
proof -
  have g1: "GetOp2 sample_spk = Op [172] 33 sample_pub"
    by (simp add: sample_spk_bytes sample_pub_def GetOp2.simps get_operand_def opcode_defs)
  have g2: "GetOp2 [172] = Op [] OP_CHECKSIG []" by (simp add: GetOp2.simps opcode_defs)
  have len: "length sample_spk = 35" "length sample_pub = 33" by (simp_all add: sample_spk_bytes sample_pub_def)
  have small: "33 \<le> OP_PUSHDATA4" by (simp add: opcode_defs)
  show ?thesis
    using len small assms
    by (simp add: EvalScript_def eval_loop_Op [OF g1] eval_loop_Op [OF g2] eval_step_run eval_step_push standard_ops
        eval_op_standard op_checksig_def bool_vch_def push_result_def set_stack_def stop_def Let_def)
qed

lemma pay_verifies:
  assumes "tx_nVersion tx = 1"
  shows "VerifyScript pay_sigenv (push_data pay_sig) sample_spk tx n True 0 sample_cache =
    (True, cache_Set word_of_nat 10 sample_cache (1, sample_sig 7 1, sample_pub))"
proof -
  have "\<not> IsPayToScriptHash sample_spk" by (simp add: IsPayToScriptHash_def sample_spk_bytes sample_pub_def)
  then show ?thesis
    by (simp add: VerifyScript_def verify_with_def pay_eval_sig pay_eval_spk [of "CheckSig pay_sigenv tx n 0", OF pay_checks [OF assms]])
      (simp add: CastToBool.simps vchTrue_def)
qed

abbreviation pay_store :: "nat CKeyStore" where
  "pay_store \<equiv> store_view (we_libs pay_env) (wl_keystore pay_wallet)"

lemma pay_GetKey: "kv_GetKey pay_store 0 = Some (Some \<lparr>ck_pkey = 7, ck_fSet = True, ck_fCompressedPubKey = False\<rparr>)"
  by (simp add: store_view_def GetKey_def Basic_GetKey_def pay_wallet_def sample_key)

lemma pay_Solver_sign:
  "Solver_sign pay_ssl sample_ec pay_store sample_spk 1 SIGHASH_ALL = Some (True, push_data pay_sig, TX_PUBKEY)"
proof -
  have sign: "CKey_Sign sample_ec \<lparr>ck_pkey = 7, ck_fSet = True, ck_fCompressedPubKey = False\<rparr> 1 = (True, sample_sig 7 1)"
    by (simp add: CKey_Sign_def sample_ec_def)
  show ?thesis
    by (simp add: Solver_sign_def sample_solver Sign1_def CPubKey_GetID_def pay_Hash pay_GetKey sign pay_sig_def SIGHASH_ALL_def)
qed

lemma pay_signs:
  assumes "tx_nVersion tx = 1" "tx_vin tx = [\<lparr>ti_prevout = \<lparr>op_hash = 5, op_n = 0\<rparr>, ti_scriptSig = [], ti_nSequence = - 1\<rparr>]"
  shows "SignSignature_tx pay_sigenv pay_store pay_parent tx 0 SIGHASH_ALL sample_cache =
    Some (True, set_scriptSig tx 0 (push_data pay_sig), cache_Set word_of_nat 10 sample_cache (1, sample_sig 7 1, sample_pub))"
proof -
  have "GetHash pay_ssl pay_parent = 5" by (simp add: pay_GetHash pay_parent_def)
  moreover have "tx_vout pay_parent = [\<lparr>to_nValue = 3000000, to_scriptPubKey = sample_spk\<rparr>]" by (simp add: pay_parent_def)
  moreover have "tx_nVersion (set_scriptSig tx 0 (push_data pay_sig)) = 1" using assms(1) by (simp add: set_scriptSig_def)
  ultimately show ?thesis
    using assms pay_verifies [of "set_scriptSig tx 0 (push_data pay_sig)" 0]
    by (simp add: SignSignature_tx_def SignSignature_def Let_def pay_SignatureHash pay_Solver_sign) (simp add: set_scriptSig_def)
qed

subsection \<open>Selection\<close>

lemma pay_solver: "IsMine pay_ssl pay_store sample_spk = Some True"
  by (subst IsMine.simps) (simp add: sample_solver CPubKey_GetID_def pay_Hash store_view_def HaveKey_def Basic_HaveKey_def pay_wallet_def)

lemma pay_wtx_fields: "mt_tx pay_wtx = pay_parent" "wt_vfSpent pay_wtx = []" "mt_hashBlock pay_wtx = 7" "mt_nIndex pay_wtx = 0"
  "mt_fMerkleVerified pay_wtx" "wt_vtxPrev pay_wtx = []" "wt_nDebitCached pay_wtx = None" "wt_nCreditCached pay_wtx = None"
  "tx_vout pay_parent = [\<lparr>to_nValue = 3000000, to_scriptPubKey = sample_spk\<rparr>]" "tx_nLockTime pay_parent = 0" "tx_nTime pay_parent = 900"
  "tx_vin pay_parent = [\<lparr>ti_prevout = \<lparr>op_hash = 4, op_n = 0\<rparr>, ti_scriptSig = [], ti_nSequence = - 1\<rparr>]" "tx_nVersion pay_parent = 5"
  by (simp_all add: pay_wtx_def CWalletTx_new_def CMerkleTx_new_def CMerkleTx.extend_def pay_parent_def sample_prev_def)

lemma pay_wallet_fields: "wl_mapWallet pay_wallet = [(5, pay_wtx)]" by (simp add: pay_wallet_def)

lemma pay_put: "put_tx 5 pay_wtx pay_wallet = pay_wallet"
  by (simp add: put_tx_def pay_wallet_def)

lemma pay_depth_of:
  assumes "mt_hashBlock m = 7" "mt_nIndex m = 0" "m\<lparr>mt_fMerkleVerified := True\<rparr> = m" "mt_fMerkleVerified m"
  shows "GetDepthInMainChain pay_env m = Some (1, m)"
  using assms by (simp add: GetDepthInMainChain_def pay_state_def IsInMainChain_def best_height_def)

lemma pay_depth: "GetDepthInMainChain pay_env pay_wtx = Some (1, pay_wtx)"
  by (rule pay_depth_of) (simp_all add: pay_wtx_def)

lemma pay_final: "wt_IsFinal pay_env pay_wtx" "IsCoinBaseOrStake pay_parent = False"
  by (simp_all add: wt_IsFinal_def IsFinal_def pay_wtx_fields IsCoinBaseOrStake_def IsCoinBase_def IsCoinStake_def COutPoint_IsNull_def)

definition pay_coin :: COutput where
  "pay_coin = \<lparr>co_tx = 5, co_i = 0, co_nDepth = 1, co_IsFromMe = False, co_nTime = 900, co_nValue = 3000000\<rparr>"

lemma pay_available: "AvailableCoins pay_env True None pay_wallet = Some ([pay_coin], pay_wallet)"
proof -
  have "IsConfirmed pay_env pay_wallet pay_wtx = Some (True, pay_wtx)"
    by (simp add: IsConfirmed_def pay_final pay_depth)
  moreover have "GetBlocksToMaturity pay_env pay_wtx = Some (0, pay_wtx)"
    by (simp add: GetBlocksToMaturity_def pay_wtx_fields pay_final)
  moreover have "coin_output 5 pay_wtx 0 1 = pay_coin"
    by (simp add: coin_output_def pay_coin_def pay_wtx_fields)
  moreover have "IsSpent 0 pay_wtx = Some False" by (simp add: IsSpent_def pay_wtx_fields)
  ultimately show ?thesis
    by (simp add: AvailableCoins_def over_wallet_def pay_wallet_fields available_tx_def pay_final pay_depth pay_put
        pay_wtx_fields IsMine_out_def pay_solver chosen_def)
qed

definition pay_draws :: random_source where
  "pay_draws = \<lparr>rs_shuffle = id, rs_rand = (\<lambda>_. False)\<rparr>"

text \<open>The wallet after the selection has asked where the coin is from.\<close>

definition pay_wtx2 :: CWalletTx where
  "pay_wtx2 = pay_wtx\<lparr>wt_nDebitCached := Some 0\<rparr>"

definition pay_wallet2 :: CWallet where
  "pay_wallet2 = put_tx 5 pay_wtx2 pay_wallet"

lemma pay_from_me: "read_from_me pay_env [pay_coin] pay_wallet = Some ([pay_coin], pay_wallet2)"
proof -
  have "GetDebit_tx pay_env pay_wallet pay_parent = Some 0"
    by (simp add: GetDebit_tx_def GetDebit_in_def own_prevout_def pay_wtx_fields pay_wallet_fields MoneyRange_def money_defs)
  then have "wt_IsFromMe pay_env pay_wallet pay_wtx = Some (False, pay_wtx2)"
    by (simp add: wt_IsFromMe_def wt_GetDebit_def pay_wtx_fields pay_wtx2_def)
  then show ?thesis by (simp add: pay_coin_def pay_wallet_fields pay_wallet2_def)
qed

lemma pay_selects:
  assumes "900 \<le> t"
  shows "SelectCoins pay_env (\<lambda>_. pay_draws) 3000000 t None {} 0 pay_wallet = Some ((True, {(5, 0)}, 3000000), pay_wallet2)"
proof -
  have first: "SelectCoinsMinConf pay_draws 3000000 t 1 6 [pay_coin] = (False, {}, 0)"
    by (simp add: SelectCoinsMinConf_def pay_draws_def coin_eligible_def pay_coin_def select_rest_def)
  have second: "SelectCoinsMinConf pay_draws 3000000 t 1 1 [pay_coin] = (True, {(5, 0)}, 3000000)"
    using assms by (simp add: SelectCoinsMinConf_def pay_draws_def coin_eligible_def pay_coin_def take_coins_def coin_key_def Let_def not_less)
  show ?thesis
    by (simp add: SelectCoins_def pay_available pay_from_me select_attempts_def first second del: read_from_me.simps)
qed

subsection \<open>The payment\<close>

definition pay_create :: "nat createenv" where
  "pay_create = \<lparr>cx_wallet = pay_env, cx_nTransactionFee = 100, cx_fSplitBlock = False, cx_order = sorted_list_of_set,
     cx_draws = (\<lambda>_ _. pay_draws), cx_position = (\<lambda>_ _. 0)\<rparr>"

definition pay_start :: create_state where
  "pay_start = \<lparr>cr_wtx = CWalletTx_new \<lparr>tx_nVersion = 1, tx_nTime = 1000, tx_vin = [], tx_vout = [], tx_nLockTime = 0\<rparr>,
     cr_reserve = CReserveKey_new, cr_nFeeRet = 0, cr_wallet = pay_wallet, cr_cache = sample_cache\<rparr>"

definition pay_tx :: CTransaction where
  "pay_tx = \<lparr>tx_nVersion = 1, tx_nTime = 1000,
     tx_vin = [\<lparr>ti_prevout = \<lparr>op_hash = 5, op_n = 0\<rparr>, ti_scriptSig = push_data pay_sig, ti_nSequence = - 1\<rparr>],
     tx_vout = [\<lparr>to_nValue = 2999900, to_scriptPubKey = sample_spk\<rparr>], tx_nLockTime = 0\<rparr>"

lemma pay_fee: "required_fee pay_create pay_tx = 100" "size_tx pay_tx < 100000"
proof -
  have size: "size_tx pay_tx < 1000"
    by (simp add: pay_tx_def sample_size sample_spk_bytes sample_pub_def pay_sig_bytes push_data_def opcode_defs)
  then show "size_tx pay_tx < 100000" by simp
  have "size_tx pay_tx div 1000 = 0" "uint (word_of_nat (size_tx pay_tx) :: uint32) div 1000 = 0"
    using size by (simp_all add: unsigned_of_nat take_bit_nat_eq_self uint_nat)
  then show "required_fee pay_create pay_tx = 100"
    by (simp add: required_fee_def pay_create_def GetMinFee_def money_defs Let_def)
qed

lemma pay_wallet2_fields: "wl_mapWallet pay_wallet2 = [(5, pay_wtx2)]" "mt_tx pay_wtx2 = pay_parent" "wt_vtxPrev pay_wtx2 = []"
  "wl_keystore pay_wallet2 = wl_keystore pay_wallet"
  by (simp_all add: pay_wallet2_def put_tx_def pay_wallet_fields) (simp_all add: pay_wtx2_def pay_wtx_fields)

lemma pay_supporting:
  assumes "mt_tx w = pay_tx"
  shows "\<exists>w'. AddSupportingTransactions pay_env pay_wallet2 w = Some w'"
proof -
  have none: "SetMerkleBranch pay_env None m = Some (0, m)" for m :: "'a CMerkleTx_scheme"
    by (simp add: SetMerkleBranch_def merkle_block_def ReadTxIndex_def pay_state_def)
  have 1: "supporting_tx pay_env pay_wallet2 5 s = Some (CMerkleTx.truncate pay_wtx2, s)" for s
    by (simp add: supporting_tx_def pay_wallet2_fields)
  have 2: "supporting_tx pay_env pay_wallet2 4 s = None" if "su_mapWalletPrev s = (\<lambda>_. None)" for s
    using that by (simp add: supporting_tx_def pay_wallet2_fields)
  have "mt_tx (CMerkleTx.truncate pay_wtx2) = pay_parent" by (simp add: pay_wallet2_fields(2) [symmetric] CMerkleTx.truncate_def)
  then have "prev_hashes (mt_tx (CMerkleTx.truncate pay_wtx2)) = [4]" by (simp add: prev_hashes_def pay_wtx_fields)
  then have "\<exists>s'. supporting_loop pay_env pay_wallet2 [5] \<lparr>su_mapWalletPrev = (\<lambda>_. None), su_setAlreadyDone = {}, su_vtxPrev = []\<rparr> = Some s'"
    by (subst supporting_loop.simps, simp add: 1 none COPY_DEPTH_def)
      (subst supporting_loop.simps, simp add: 2, subst supporting_loop.simps, simp)
  moreover have "prev_hashes pay_tx = [5]" by (simp add: prev_hashes_def pay_tx_def)
  ultimately show ?thesis using assms by (auto simp: AddSupportingTransactions_def none COPY_DEPTH_def Let_def)
qed

lemma pay_creates: "\<exists>s'. CreateTransaction pay_create [(sample_spk, 2999900)] 1 None pay_start = Some (True, s') \<and>
  mt_tx (cr_wtx s') = pay_tx \<and> cr_nFeeRet s' = 100"
proof -
  define tx0 where "tx0 = \<lparr>tx_nVersion = 1, tx_nTime = 1000, tx_vin = [], tx_vout = [\<lparr>to_nValue = 2999900, to_scriptPubKey = sample_spk\<rparr>], tx_nLockTime = 0\<rparr>"
  define tx1 where "tx1 = tx0\<lparr>tx_vin := [\<lparr>ti_prevout = \<lparr>op_hash = 5, op_n = 0\<rparr>, ti_scriptSig = [], ti_nSequence = - 1\<rparr>]\<rparr>"
  have set: "set_scriptSig tx1 0 (push_data pay_sig) = pay_tx" by (simp add: set_scriptSig_def tx1_def tx0_def pay_tx_def)
  have sign: "Wallet_Create.sign_loop pay_env pay_wallet2 0 [pay_parent] tx1 sample_cache =
      Some (True, pay_tx, cache_Set word_of_nat 10 sample_cache (1, sample_sig 7 1, sample_pub))"
    using pay_signs [of tx1] by (simp add: tx1_def tx0_def pay_wallet2_fields set [unfolded tx1_def tx0_def, simplified])
  have vin: "CTxIn_new (GetHash pay_ssl pay_parent) 0 = \<lparr>ti_prevout = \<lparr>op_hash = 5, op_n = 0\<rparr>, ti_scriptSig = [], ti_nSequence = - 1\<rparr>"
    by (simp add: CTxIn_new_def pay_GetHash pay_wtx_fields)
  have fin: "\<exists>s'. finish_attempt pay_create [(5, 0)] tx0 s = Some (Some True, s') \<and> mt_tx (cr_wtx s') = pay_tx \<and> cr_nFeeRet s' = 100"
    if "cr_wallet s = pay_wallet2" "cr_cache s = sample_cache" "cr_nFeeRet s = 100" for s
  proof -
    obtain w' where w': "AddSupportingTransactions pay_env pay_wallet2 ((cr_wtx s)\<lparr>mt_tx := pay_tx\<rparr>) = Some w'"
      using pay_supporting [of "(cr_wtx s)\<lparr>mt_tx := pay_tx\<rparr>"] by auto
    have tx1: "tx0\<lparr>tx_vin := [\<lparr>ti_prevout = \<lparr>op_hash = 5, op_n = 0\<rparr>, ti_scriptSig = [], ti_nSequence = - 1\<rparr>]\<rparr> = tx1" by (simp add: tx1_def)
    have "cx_wallet pay_create = pay_env" by (simp add: pay_create_def)
    moreover have "\<not> MAX_BLOCK_SIZE_GEN div 5 \<le> size_tx pay_tx" using pay_fee(2) by (simp add: MAX_BLOCK_SIZE_GEN_def MAX_BLOCK_SIZE_def)
    ultimately show ?thesis
      using that w' AddSupportingTransactions_tx [OF w']
      by (simp add: finish_attempt_def pay_wallet2_fields vin tx1 sign pay_fee Let_def del: Wallet_Create.sign_loop.simps)
  qed
  have sel: "SelectCoins pay_env (\<lambda>_. pay_draws) 3000000 1000 None {} 0 pay_wallet = Some ((True, {(5, 0)}, 3000000), pay_wallet2)"
    by (rule pay_selects) simp
  obtain a where reads: "read_coins pay_env [(5, 0)] CNoDestination pay_wallet2 = Some (a, pay_wallet2)"
  proof -
    have "GetDepthInMainChain pay_env pay_wtx2 = Some (1, pay_wtx2)"
      by (rule pay_depth_of) (simp_all add: pay_wtx2_def pay_wtx_def)
    then show ?thesis using that by (simp add: pay_wallet2_fields) (simp add: pay_wallet2_def put_tx_def pay_wallet_fields)
  qed
  define s0 where "s0 = pay_start\<lparr>cr_wtx := BindWallet (cr_wtx pay_start), cr_nFeeRet := 100\<rparr>"
  have att: "\<exists>s'. create_attempt pay_create [(sample_spk, 2999900)] 1 None 2999900 0 s0 = Some (Some True, s') \<and>
      mt_tx (cr_wtx s') = pay_tx \<and> cr_nFeeRet s' = 100"
  proof -
    have change: "adjust_change 0 100 = (0, 100)" by (simp add: adjust_change_def)
    have ret: "reserve_ReturnKey CReserveKey_new W = (CReserveKey_new, W)" for W
      by (simp add: reserve_ReturnKey_def CReserveKey_new_def)
    have cx: "cx_wallet pay_create = pay_env" "cx_draws pay_create 0 = (\<lambda>_. pay_draws)" "cx_order pay_create {(5, 0)} = [(5, 0)]"
      "cx_fSplitBlock pay_create = False" by (simp_all add: pay_create_def)
    have start: "(mt_tx (cr_wtx s0))\<lparr>tx_vin := [], tx_vout := [\<lparr>to_nValue = 2999900, to_scriptPubKey = sample_spk\<rparr>]\<rparr> = tx0"
      "cr_wallet s0 = pay_wallet" "cr_cache s0 = sample_cache" "cr_nFeeRet s0 = 100" "cr_reserve s0 = CReserveKey_new"
      by (simp_all add: s0_def pay_start_def tx0_def BindWallet_def MarkDirty_def CWalletTx_new_def CMerkleTx.extend_def CMerkleTx_new_def)
    have outs: "payee_outputs False 1 [(sample_spk, 2999900)] = [\<lparr>to_nValue = 2999900, to_scriptPubKey = sample_spk\<rparr>]"
      by (simp add: payee_outputs_def)
    have tx0: "tx_nTime tx0 = 1000" "tx0\<lparr>tx_vout := tx_vout tx0\<rparr> = tx0" by (simp_all add: tx0_def)
    have add: "add_change pay_create 0 None a 0 vout CReserveKey_new W = Some (vout, CReserveKey_new, W)" for vout W
      by (simp add: add_change_def ret)
    obtain s' where s': "finish_attempt pay_create [(5, 0)] tx0 (s0\<lparr>cr_wtx := (cr_wtx s0)\<lparr>mt_tx := tx0, wt_fFromMe := 1\<rparr>,
        cr_nFeeRet := 100, cr_reserve := CReserveKey_new, cr_wallet := pay_wallet2\<rparr>) = Some (Some True, s')"
      "mt_tx (cr_wtx s') = pay_tx" "cr_nFeeRet s' = 100"
      using fin [of "s0\<lparr>cr_wtx := (cr_wtx s0)\<lparr>mt_tx := tx0, wt_fFromMe := 1\<rparr>,
        cr_nFeeRet := 100, cr_reserve := CReserveKey_new, cr_wallet := pay_wallet2\<rparr>"] start by auto
    show ?thesis
      using s' by (simp add: create_attempt_def cx start outs tx0 sel reads change add Let_def del: read_coins.simps One_nat_def)
  qed
  then obtain s' where s': "create_attempt pay_create [(sample_spk, 2999900)] 1 None 2999900 0 s0 = Some (Some True, s')"
    "mt_tx (cr_wtx s') = pay_tx" "cr_nFeeRet s' = 100" by blast
  have "create_loop pay_create [(sample_spk, 2999900)] 1 None 2999900 0 s0 = Some (True, s')"
    by (subst create_loop.simps) (simp add: s' del: One_nat_def)
  then have "CreateTransaction pay_create [(sample_spk, 2999900)] 1 None pay_start = Some (True, s')"
    by (simp add: CreateTransaction_def s0_def pay_create_def)
  then show ?thesis using s' by blast
qed

lemma pay_wallet_ok: "wallet_ok pay_ssl pay_wallet" "choices_ok pay_create" "payments_ok [(sample_spk, 2999900)]"
proof -
  show "wallet_ok pay_ssl pay_wallet"
    by (simp add: wallet_ok_def ids_ok_def keys_ok_def pay_wallet_fields wallet_worth_def tx_worth_def out_value_def pay_wtx_fields tx_map_def pay_GetHash)
  show "choices_ok pay_create" by (simp add: choices_ok_def pay_create_def pay_draws_def)
  show "payments_ok [(sample_spk, 2999900)]" by (simp add: payments_ok_def paid_def)
qed

theorem created_balances_witness:
  "\<exists>s'. CreateTransaction pay_create [(sample_spk, 2999900)] 1 None pay_start = Some (True, s') \<and>
    mt_tx (cr_wtx s') = pay_tx \<and> balanced pay_wallet [\<lparr>to_nValue = 2999900, to_scriptPubKey = sample_spk\<rparr>] pay_tx 100"
proof -
  obtain s' where s': "CreateTransaction pay_create [(sample_spk, 2999900)] 1 None pay_start = Some (True, s')"
    "mt_tx (cr_wtx s') = pay_tx" "cr_nFeeRet s' = 100" using pay_creates by blast
  have env: "we_ssl (cx_wallet pay_create) = pay_ssl" "cr_wallet pay_start = pay_wallet" "cx_fSplitBlock pay_create = False"
    by (simp_all add: pay_create_def pay_start_def)
  have "payee_outputs False (nat (max 1 1)) [(sample_spk, 2999900)] = [\<lparr>to_nValue = 2999900, to_scriptPubKey = sample_spk\<rparr>]"
    by (simp add: payee_outputs_def)
  with created_balances [OF _ pay_wallet_ok(2,3) s'(1)] pay_wallet_ok(1) s' env show ?thesis by auto
qed

subsection \<open>The commitment\<close>

definition pay_new :: CWalletTx where "pay_new = CWalletTx_new pay_tx"

lemma pay_new_fields: "mt_tx pay_new = pay_tx" "mt_hashBlock pay_new = 0" "wt_GetHash pay_env pay_new = 1" "GetHash pay_ssl pay_tx = 1"
  "tx_vin pay_tx = [\<lparr>ti_prevout = \<lparr>op_hash = 5, op_n = 0\<rparr>, ti_scriptSig = push_data pay_sig, ti_nSequence = - 1\<rparr>]"
  by (simp_all add: pay_new_def CWalletTx_new_def CMerkleTx.extend_def CMerkleTx_new_def wt_GetHash_def pay_GetHash pay_tx_def)

lemma pay_not_accepted: "\<exists>mp c. AcceptToMemoryPool pay_env pay_new = (Some False, mp, c)"
proof -
  have "\<not> IsCoinBase pay_tx" by (simp add: IsCoinBase_def pay_tx_def COutPoint_IsNull_def)
  then have "FetchInputs f (cs_txdb pay_state) [] [] False False [] pay_tx = Inl (0, False)" for f
    by (simp add: FetchInputs_def pay_new_fields fetch_prev_def ReadTxIndex_def pay_state_def)
  then show ?thesis
    by (simp add: AcceptToMemoryPool_def mp_accept_def poolenv_of_def pay_new_fields accept_inputs_def Let_def mp_exists_def
        ContainsTx_def ReadTxIndex_def mp_spent_def split: prod.splits)
      (simp add: pay_state_def empty_pool_def)
qed

lemma pay_db: "wd_faults (wl_db W) = [] \<Longrightarrow> db_step upd W = (True, W\<lparr>wl_db := (wl_db W)\<lparr>wd_tables := upd (wd_tables (wl_db W))\<rparr>\<rparr>)"
  by (simp add: db_step_def wallet_write_def)

lemma pay_mine: "wl_keystore W = wl_keystore pay_wallet \<Longrightarrow> to_scriptPubKey out = sample_spk \<Longrightarrow> IsMine_out pay_env W out = Some True"
  by (simp add: IsMine_out_def pay_solver)

lemma pay_spends:
  assumes "wl_keystore W = wl_keystore pay_wallet" "wd_faults (wl_db W) = []" "wl_mapWallet W = [(1, w), (5, pay_wtx)]"
  shows "\<exists>W' w5. WalletUpdateSpent pay_env pay_tx W = Some W' \<and> wl_keystore W' = wl_keystore pay_wallet \<and>
    wd_faults (wl_db W') = [] \<and> wl_mapWallet W' = [(1, w), (5, w5)] \<and> mt_tx w5 = pay_parent \<and> wt_vfSpent w5 = [True] \<and>
    wl_mapRequestCount W' = wl_mapRequestCount W"
proof -
  have credit: "GetCredit_tx pay_env W pay_parent = Some 3000000"
    using pay_mine [OF assms(1)] by (simp add: GetCredit_tx_def GetCredit_out_def pay_wtx_fields MoneyRange_def money_defs)
  have "wt_GetCredit pay_env W True pay_wtx = Some (3000000, pay_wtx\<lparr>wt_nCreditCached := Some 3000000\<rparr>)"
    by (simp add: wt_GetCredit_def GetBlocksToMaturity_def pay_wtx_fields pay_final credit)
  moreover have "IsSpent 0 pay_wtx = Some False" by (simp add: IsSpent_def pay_wtx_fields)
  ultimately show ?thesis
    using assms pay_mine [OF assms(1)]
    by (simp add: WalletUpdateSpent_def pay_new_fields update_spent_input_def pay_wtx_fields MarkSpent_def resize_flags_def
        WriteToDisk_wtx_def pay_db put_tx_def Let_def)
qed

lemma pay_commits: "\<exists>res W1 w w5. CommitTransaction pay_env pay_new CReserveKey_new pay_wallet = Some (res, CReserveKey_new, W1) \<and>
  wl_keystore W1 = wl_keystore pay_wallet \<and> wl_mapWallet W1 = [(1, w), (5, w5)] \<and> mt_tx w = pay_tx \<and> wt_vfSpent w = [] \<and>
  mt_hashBlock w = 0 \<and> mt_tx w5 = pay_parent \<and> wt_vfSpent w5 = [True]"
proof -
  define W0 where "W0 = insert_new pay_env 1 pay_new pay_wallet"
  obtain w where W0: "wl_keystore W0 = wl_keystore pay_wallet" "wd_faults (wl_db W0) = []" "wl_mapWallet W0 = [(1, w), (5, pay_wtx)]"
    "mt_tx w = pay_tx" "wt_vfSpent w = []" "mt_hashBlock w = 0"
    using that by (simp add: W0_def insert_new_def IncOrderPosNext_def pay_db pay_wallet_def put_tx_def Let_def)
      (simp add: pay_new_fields BindWallet_def MarkDirty_def, simp add: pay_new_def CWalletTx_new_def CMerkleTx.extend_def CMerkleTx_new_def)
  define W1 where "W1 = snd (WriteToDisk_wtx pay_env w W0)"
  have W1: "WriteToDisk_wtx pay_env w W0 = (True, W1)" "wl_keystore W1 = wl_keystore pay_wallet" "wd_faults (wl_db W1) = []"
    "wl_mapWallet W1 = [(1, w), (5, pay_wtx)]"
    using W0 by (simp_all add: W1_def WriteToDisk_wtx_def pay_db)
  obtain W2 w5 where W2: "WalletUpdateSpent pay_env pay_tx W1 = Some W2" "wl_keystore W2 = wl_keystore pay_wallet"
    "wd_faults (wl_db W2) = []" "wl_mapWallet W2 = [(1, w), (5, w5)]" "mt_tx w5 = pay_parent" "wt_vfSpent w5 = [True]"
    using pay_spends [OF W1(2,3,4)] by blast
  have "AddToWallet pay_env pay_new pay_wallet = Some (True, W2)"
    using W0 W1 W2 by (simp add: AddToWallet_def pay_new_fields pay_wallet_fields finish_add_def W0_def [symmetric])
  moreover have "reserve_KeepKey CReserveKey_new pay_wallet = (CReserveKey_new, pay_wallet)"
    by (simp add: reserve_KeepKey_def CReserveKey_new_def)
  moreover obtain W3 w6 where W3: "commit_inputs pay_env (tx_vin pay_tx) W2 = Some W3" "wl_keystore W3 = wl_keystore pay_wallet"
    "wl_mapWallet W3 = [(1, w), (5, w6)]" "mt_tx w6 = pay_parent" "wt_vfSpent w6 = [True]"
    using that W2 by (simp add: pay_new_fields BindWallet_def MarkDirty_def MarkSpent_def pay_wtx_fields resize_flags_def
        WriteToDisk_wtx_def pay_db put_tx_def Let_def)
  moreover obtain mp c where "AcceptToMemoryPool pay_env pay_new = (Some False, mp, c)" using pay_not_accepted by blast
  ultimately show ?thesis using W0 by (simp add: CommitTransaction_def pay_new_fields(1-4))
qed

lemma pay_offers_rest:
  assumes "wl_keystore W = wl_keystore pay_wallet" "wl_mapWallet W = [(1, w), (5, w5)]" "mt_tx w = pay_tx" "wt_vfSpent w = []"
    "mt_hashBlock w = 0" "mt_tx w5 = pay_parent" "wt_vfSpent w5 = [True]"
  shows "\<exists>W'. AvailableCoins pay_env False None W = Some ([coin_output 1 w 0 0], W')"
proof -
  have kinds: "IsCoinBaseOrStake pay_tx = False" "tx_nLockTime pay_tx = 0" "tx_vout pay_tx = [\<lparr>to_nValue = 2999900, to_scriptPubKey = sample_spk\<rparr>]"
    by (simp_all add: IsCoinBaseOrStake_def IsCoinBase_def IsCoinStake_def COutPoint_IsNull_def pay_tx_def)
  have final: "wt_IsFinal pay_env w" "wt_IsFinal pay_env w5"
    using assms by (simp_all add: wt_IsFinal_def IsFinal_def kinds pay_wtx_fields)
  have ripe: "GetBlocksToMaturity pay_env w = Some (0, w)" "GetBlocksToMaturity pay_env w5 = Some (0, w5)"
    using assms by (simp_all add: GetBlocksToMaturity_def kinds pay_final)
  have spent: "IsSpent 0 w = Some False" "IsSpent 0 w5 = Some True"
    using assms by (simp_all add: IsSpent_def kinds pay_wtx_fields)
  have depth: "GetDepthInMainChain pay_env w = Some (0, w)" using assms by (simp add: GetDepthInMainChain_def)
  have put: "put_tx 1 w W = W" using assms(2) by (simp add: put_tx_def)
  show ?thesis
    using assms pay_mine [OF assms(1)]
    by (simp add: AvailableCoins_def over_wallet_def available_tx_def final ripe spent depth put kinds pay_wtx_fields chosen_def)
qed

text \<open>The payment is committed, another transaction is deleted, and the coins are listed.\<close>

theorem committed_never_offered_witness:
  "\<exists>res W1 W2 cs W3. CommitTransaction pay_env pay_new CReserveKey_new pay_wallet = Some (res, CReserveKey_new, W1) \<and>
    history [Erased 9 :: nat wallet_event] W1 = Some W2 \<and> AvailableCoins pay_env False None W2 = Some (cs, W3) \<and>
    cs \<noteq> [] \<and> (5, 0) \<notin> coin_key ` set cs"
proof -
  obtain res W1 w w5 where c: "CommitTransaction pay_env pay_new CReserveKey_new pay_wallet = Some (res, CReserveKey_new, W1)"
    "wl_keystore W1 = wl_keystore pay_wallet" "wl_mapWallet W1 = [(1, w), (5, w5)]" "mt_tx w = pay_tx" "wt_vfSpent w = []"
    "mt_hashBlock w = 0" "mt_tx w5 = pay_parent" "wt_vfSpent w5 = [True]" using pay_commits by blast
  define W2 where "W2 = snd (EraseFromWallet 9 W1)"
  have W2: "wl_keystore W2 = wl_keystore pay_wallet" "wl_mapWallet W2 = [(1, w), (5, w5)]"
    using c(2,3) by (simp_all add: W2_def EraseFromWallet_def)
  obtain W3 where a: "AvailableCoins pay_env False None W2 = Some ([coin_output 1 w 0 0], W3)"
    using pay_offers_rest [OF W2 c(4-8)] by blast
  have k: "keys_ok (wl_mapWallet pay_wallet)" by (simp add: keys_ok_def pay_wallet_fields)
  define i where "i = \<lparr>ti_prevout = \<lparr>op_hash = 5, op_n = 0\<rparr>, ti_scriptSig = push_data pay_sig, ti_nSequence = - 1\<rparr>"
  have i: "prev_key i = (5, 0)" "i \<in> set (tx_vin (mt_tx pay_new))"
    using pay_new_fields by (simp_all add: prev_key_def i_def)
  have h: "history [Erased 9 :: nat wallet_event] W1 = Some W2" "all_spare (prev_key i) [Erased 9 :: nat wallet_event] W1"
    by (simp_all add: W2_def spares_def i(1))
  from committed_never_offered [OF k c(1) i(2) h a] i(1) have "(5, 0) \<notin> coin_key ` set [coin_output 1 w 0 0]" by simp
  with c(1) h(1) a show ?thesis by blast
qed

end
