(* ===== verification/Spec2Isabelle.thy ===== *)
theory Spec2Isabelle
  imports Vote_Witnesses Kernel_Witnesses Chain_Witnesses Address_Witnesses Addrman_Props Message_Rules Wallet_Witnesses
begin

text \<open>
  A model of HyperStake, a proof-of-stake crypto-currency node in C++ (\<open>src/src\<close>), and what it
  guarantees.

  \<^bold>\<open>The program.\<close> A node receives transactions and blocks. A transaction (\<open>main.h\<close>) spends
  outputs of earlier ones; each output carries a script (\<open>script.cpp\<close>) that the spender's
  script must satisfy, usually with a signature (\<open>key.cpp\<close>). A valid transaction goes into the
  memory pool (\<open>CTxMemPool\<close>), one with unknown parents into the orphan tables
  (\<open>main.cpp\<close>, \<open>ProcessMessage\<close>). A block (\<open>main.h\<close>, \<open>main.cpp\<close>) is checked on its own
  (\<open>CheckBlock\<close>), stored in the block files (\<open>WriteToDisk\<close>), entered in the block index and
  connected: each of its transactions is connected to the outputs it spends in the transaction
  database (\<open>ConnectInputs\<close>, \<open>db.cpp\<close>). A proof-of-stake block is found by a coin whose kernel
  hash is below a target (\<open>kernel.cpp\<close>). The version field of a block carries votes on
  proposals, which are transactions with a marked data output (\<open>vote*.cpp\<close>).

  \<^bold>\<open>The theories\<close>, in the order of the calls.
  \<^item> \<open>Prelude\<close>: integer types as words, bytes of integers, association lists as \<open>std::map\<close>.
  \<^item> \<open>Serialize\<close> (\<open>serialize.h\<close>): a reader is a partial function from bytes; the locale
    \<open>codec\<close> states that a reader undoes a writer, and is interpreted for every serialised
    type here and in the later theories; \<open>CDataStream\<close> refines a byte list (locale
    \<open>byte_stream\<close>).
  \<^item> \<open>Bignum\<close>, \<open>Compact\<close> (\<open>bignum.h\<close>): \<open>CBigNum\<close> over OpenSSL's conversion functions, which are
    fields of the record \<open>openssl\<close> with their documented behaviour \<open>bn_documented\<close>; the compact
    form of targets.
  \<^item> \<open>Transaction\<close> (\<open>main.h\<close>, \<open>main.cpp\<close>): outpoints, inputs, outputs, transactions, their
    hashes, kinds, amounts, \<open>CheckTransaction\<close>. Amounts are 64-bit words read as signed numbers.
  \<^item> \<open>Script_Base\<close>, \<open>Script_Eval\<close>, \<open>Script_Interp\<close>, \<open>Script_Verify\<close>, \<open>Script_Solver\<close>,
    \<open>Script_Sign\<close>, \<open>Script_Standard\<close> (\<open>script.h\<close>, \<open>script.cpp\<close>): opcodes, parsing, the interpreter
    with all its opcodes, the signature hash and the cache of valid signatures, the templates,
    signing and combining signatures. The loop over a script ends because \<open>GetOp2\<close> consumes bytes.
  \<^item> \<open>Key\<close>, \<open>Keystore\<close> (\<open>key.cpp\<close>, \<open>crypter.cpp\<close>, \<open>keystore.cpp\<close>): keys over the elliptic curve
    functions (record \<open>ecdsa\<close>), encryption over the cipher functions (record \<open>evp\<close>), plain and
    encrypted key stores.
  \<^item> \<open>Block_Index\<close>, \<open>Target_Rules\<close> (\<open>main.h\<close>, \<open>main.cpp\<close>): entries of the block index; a pointer to
    an entry, with the chain behind it, is the list of entries back to the genesis block.
    Difficulty, rewards, median time, checkpoints, the fork of two chains.
  \<^item> \<open>Block\<close>, \<open>Block_Rules\<close>, \<open>Block_Files\<close>: blocks, Merkle trees, signatures of blocks, the
    context-free checks, the block files as byte lists.
  \<^item> \<open>Tx_Inputs\<close>, \<open>Connect_Inputs\<close>, \<open>Connect_Rules\<close> (\<open>db.h\<close>, \<open>db.cpp\<close>, \<open>main.cpp\<close>): the transaction
    database as tables with a saved copy for \<open>TxnAbort\<close> and a list of faults that makes writes
    fail; standardness; fetching, connecting and disconnecting the inputs of a transaction.
  \<^item> \<open>Mempool\<close>, \<open>Orphan_Tx\<close>, \<open>Tx_Message\<close> (\<open>main.cpp\<close>): the pool, the orphans, and the handler of
    a \<open>tx\<close> message that ties them together.
  \<^item> \<open>Votes\<close>, \<open>Vote_Rules\<close> (\<open>voteobject.cpp\<close>, \<open>voteproposal.cpp\<close>, \<open>voteproposalmanager.cpp\<close>,
    \<open>votetally.cpp\<close>): votes, proposals, their manager and the tallies.
  \<^item> \<open>Kernel\<close>, \<open>Kernel_Rules\<close> (\<open>kernel.cpp\<close>): the stake modifier and the check of a coinstake.
  \<^item> \<open>Chain_State\<close>, \<open>Chain_Update\<close>, \<open>Process_Block\<close> (\<open>main.cpp\<close>, \<open>main.h\<close>): the chain as one state (block
    index, best chain, database, block files, memory pool, proposals and tallies), connecting
    and disconnecting a block, the switch to a longer branch, entering and accepting a block,
    and the handler of blocks with its orphans. A pointer to an index entry is its hash.
  \<^item> \<open>Ledger_Rules\<close>: the ledger, a set of unspent outputs, that connecting a block refines, and
    disconnecting as its inverse. \<open>Chain_Rules\<close>: database transactions as a locale
    (\<open>transactional\<close>), interpreted on \<open>TxnBegin\<close>, \<open>TxnCommit\<close> and \<open>TxnAbort\<close>, and what survives a
    failure. \<open>Index_Rules\<close>, \<open>Trust_Rules\<close>, \<open>Process_Rules\<close>: the index as a tree, the best chain
    as one of its entries, the orphan tables, and the reachable states.
  \<^item> \<open>Uint_Limbs\<close> (\<open>uint256.h\<close>): the wide integers as the code has them, loops over 32-bit limbs,
    and their refinement to words, which every other theory uses.
  \<^item> \<open>Base58\<close> (\<open>base58.h\<close>), \<open>Text_Codec\<close> (\<open>util.cpp\<close>, \<open>util.h\<close>): addresses and secret keys as text;
    hexadecimal, base64 and base32 text, amounts of money, wildcards.
  \<^item> \<open>Net_Address\<close> (\<open>netbase.cpp\<close>, \<open>protocol.cpp\<close>): network addresses, their ranges and groups.
  \<^item> \<open>Messages\<close> (\<open>net.h\<close>, \<open>net.cpp\<close>, \<open>protocol.cpp\<close>, \<open>ProcessMessages\<close> in \<open>main.cpp\<close>): messages between
    peers, written to the send buffer, taken out of the received bytes and handed to a handler,
    which is a parameter. \<open>Message_Rules\<close>: what the receiver's handler sees of what was sent.
  \<^item> \<open>Random_Draws\<close> (\<open>GetRand\<close> in \<open>util.cpp\<close>): computations that draw random numbers from a list of
    values, with the rules by which one shows that no run fails and how many values are enough.
  \<^item> \<open>Addrman\<close> (\<open>addrman.h\<close>, \<open>addrman.cpp\<close>): the table of known peers. \<open>Addrman_Rules\<close>,
    \<open>Addrman_Safe\<close>: its invariant, kept by each handler; \<open>Addrman_Check\<close>: the consistency check
    of the code follows from it; \<open>Addrman_Draws\<close>, \<open>Addrman_Props\<close>: the handlers return, the
    reachable states.
  \<^item> \<open>Wallet_Tx\<close>, \<open>Wallet_History\<close>, \<open>Wallet_Keys\<close>, \<open>Wallet\<close> (\<open>wallet.h\<close>, \<open>wallet.cpp\<close>, \<open>walletdb.h\<close>, \<open>CMerkleTx\<close> in
    \<open>main.h\<close>): the wallet's transactions with the amounts they remember, their depth and
    confirmation; keys, the key pool and the pass phrase; adding and updating transactions,
    balances. A pointer to a wallet transaction is its hash, and a member function that is
    constant but assigns mutable members returns the transaction.
  \<^item> \<open>Coin_Select\<close>, \<open>Wallet_Coins\<close>, \<open>Wallet_Create\<close> (\<open>wallet.cpp\<close>, \<open>coincontrol.h\<close>): the coins that can
    be spent, the choice among them, making a payment and committing it. \<open>Coin_Rules\<close>: the
    search for a subset of coins returns one that pays. \<open>Wallet_Rules\<close>, \<open>Wallet_Spend\<close>: listing
    coins changes nothing but memories, the coins listed are the wallet's own and unspent, and
    what is spent stays spent. \<open>Wallet_Pay\<close>: a payment balances. \<open>Wallet_Repair\<close> (\<open>FixSpentCoins\<close>): the
    repair of spent flags and which coins it leaves alone. \<open>Wallet_Events\<close>: the coins of a committed
    payment are not offered again by any sequence of the wallet's operations but those that are
    meant to release them.
  \<^item> \<open>Samples\<close>, \<open>Witnesses\<close>, \<open>Vote_Witnesses\<close>, \<open>Kernel_Witnesses\<close>, \<open>Chain_Witnesses\<close>,
    \<open>Address_Witnesses\<close>, \<open>Wallet_Witnesses\<close>: stand-ins for the libraries that satisfy the stated hypotheses, and the
    properties at concrete inputs.

  \<^bold>\<open>Conventions.\<close> A mutable object is a record passed and returned. A failure is \<open>None\<close> or the left
  of a sum; \<open>None\<close> also stands for an exception, an assertion or undefined behaviour, as each
  definition says. A result with a misbehaviour score is a pair of verdict and score. Maps are
  association lists, sorted by key where the code iterates over them. Loops are structural
  recursions or functions with a measure; \<open>kernel_modifier_loop\<close> follows links of a table and is
  a partial function, proved to return on an index whose heights go up; the walk through the orphan
  blocks is one too, proved to return unless stored orphans form a circle of hashes. The wallet's loops that depend on hashes or on a fee (\<open>confirmed_loop\<close>,
  \<open>supporting_loop\<close>, \<open>create_loop\<close>, \<open>top_up_loop\<close>) are partial functions too; \<open>create_loop\<close>, which
  repeats a payment with a raised fee, is proved to end unless an attempt fails. The one fuel is
  that of \<open>ancestry\<close>, the length of the index: in an index that is a tree the walk ends before it
  runs out.
  Logging is left out, and locks are: the model is one thread's view.

  \<^bold>\<open>What is shown.\<close> A connected block is a sequence of ledger steps, each of which spends unspent
  outputs once and creates its own; disconnecting takes it back; a failed change of the best
  chain leaves chain and database as they were; the best chain's trust never falls, and the
  index stays a tree in every reachable state. A connected transaction has accepting scripts
  and creates no value. Serialisation and storage are read back. The pool and the orphan tables
  keep their invariants over every sequence of operations, and the message handler keeps both.
  Scripts: static limits, exactly what unlocks the standard outputs, the destinations written
  and read. Blocks: structure, Merkle branches, signatures, bounds of targets and rewards.
  Staking: what a checked coinstake has proved, which block each bit of a modifier comes from, that
  the searches end. Voting: active proposals use disjoint bits unless an end height has wrapped
  around in 32 bits (which \<open>CheckProposal\<close> excludes, but connecting a block does not ask it), and votes
  are counted for their own proposal. Key stores: locked stores give nothing out, encryption loses no key. Texts of
  addresses, bytes and amounts are read back. Peers: the table of addresses is consistent and
  bounded after every sequence of its operations, none of which fails or goes on for ever. Messages
  arrive unchanged and in order however the network cuts the bytes, and damaged ones are skipped
  or end the work. The wallet: a payment spends distinct unspent coins of its own, loses nothing
  but its fee, and after it is committed its coins are offered again only if a coinstake that
  spends them is disconnected, their transaction is deleted, or a repair finds them unspent.

  \<^bold>\<open>Not modelled.\<close> The hash functions (C code of third parties; \<open>Hash9\<close> is a field of the
  record \<open>node\<close>), OpenSSL, LevelDB and Berkeley DB behind the tables, sockets, threads, the
  graphical and the RPC interface, the miner, alerts, bloom filters. Of the wallet: the search for
  a coinstake, MultiSend, rescans, address groupings, and the loading of its file; its order of the coins of a payment (by pointers), its shuffles and random bits
  are parameters. The handlers of messages other than \<open>tx\<close> and blocks are left out. Of the address
  manager, the floating-point comparisons by which \<open>Select\<close> accepts an entry are parameters, its
  two loops have fuel (running out of it counts as running out of random values), its counters of
  addresses and attempts do not overflow (which takes \<open>2 ^ 31\<close> additions), and the file
  \<open>addr.dat\<close> is left out. A database transaction can always be begun and aborted; writes and commits
  may fail.
\<close>

end
